(* ===== verification/Prelude.thy ===== *)
theory Prelude
  imports Main "HOL-Library.Monad_Syntax" "HOL-Library.While_Combinator" "HOL-Library.Word"
    "HOL-Library.Char_ord" "HOL-Library.List_Lexorder" "HOL-Library.Product_Lexorder"
    "HOL-Library.Option_ord" "HOL-Library.Sublist"
begin

text \<open>
  What the components share.  A Rust computation that may panic is a value of an option type,
  \<^term>\<open>None\<close> being the panic (an index out of range, a failed \<open>expect\<close>, a failed
  \<open>assert!\<close>); a Rust loop that may panic is \<open>loop_opt\<close>, for which
  \<^term>\<open>None\<close> is also a loop that never ends, so that a theorem saying
  \<open>loop_opt b c s = Some t\<close> states both termination and the absence of panics.
  Vectors are lists, \<open>usize\<close> indices are naturals, and dense arena handles
  (\<open>ModuleHandle\<close>, \<open>ChunkHandle\<close>, \<open>ChunkGroupHandle\<close>) are the indices they wrap.
\<close>

named_theorems vec_simps \<open>rewriting of vector reads and writes\<close>
named_theorems bind_simps \<open>inversion of successful option binds\<close>

section \<open>Machine integers and bytes\<close>

type_synonym u8 = "8 word"
type_synonym u16 = "16 word"
type_synonym u32 = "32 word"
type_synonym u64 = "64 word"
type_synonym bytes = "8 word list"

definition char_byte :: "char \<Rightarrow> u8" where
  "char_byte c = word_of_nat (of_char c)"

definition str_bytes :: "string \<Rightarrow> bytes" where
  "str_bytes s = map char_byte s"

lemma unat_char_byte: "unat (char_byte c) = of_char c"
  by (simp add: char_byte_def unat_of_nat)

lemma inj_char_byte: "inj char_byte"
proof (rule injI)
  fix c d
  assume "char_byte c = char_byte d"
  then have "unat (char_byte c) = unat (char_byte d)" by simp
  then show "c = d" by (simp add: unat_char_byte)
qed

lemma length_str_bytes [simp]: "length (str_bytes s) = length s"
  by (simp add: str_bytes_def)

lemma str_bytes_inject [simp]: "str_bytes s = str_bytes t \<longleftrightarrow> s = t"
  by (simp add: str_bytes_def inj_map_eq_map [OF inj_char_byte])

text \<open>\<open>str::chars\<close>: the UTF-8 sequences of the characters of a string.\<close>

definition is_continuation :: "char \<Rightarrow> bool" where
  "is_continuation c \<longleftrightarrow> 128 \<le> (of_char c :: nat) \<and> (of_char c :: nat) < 192"

function utf8_chars :: "string \<Rightarrow> string list" where
  "utf8_chars [] = []"
| "utf8_chars (c # cs) = (c # takeWhile is_continuation cs) # utf8_chars (dropWhile is_continuation cs)"
  by pat_completeness auto
termination
  by (relation "measure length") (auto simp: less_Suc_eq_le length_dropWhile_le)

section \<open>Options as panicking computations\<close>

lemma bind_Some_iff [bind_simps]:
  "(Option.bind m f = Some y) \<longleftrightarrow> (\<exists>x. m = Some x \<and> f x = Some y)"
  by (cases m) auto

fun fold_opt :: "('a \<Rightarrow> 's \<Rightarrow> 's option) \<Rightarrow> 'a list \<Rightarrow> 's \<Rightarrow> 's option" where
  "fold_opt f [] s = Some s"
| "fold_opt f (x # xs) s = do { s' \<leftarrow> f x s; fold_opt f xs s' }"

lemma fold_opt_append: "fold_opt f (xs @ ys) s = do { s' \<leftarrow> fold_opt f xs s; fold_opt f ys s' }"
  by (induction xs arbitrary: s) (simp_all split: option.splits bind_split)

text \<open>A fold whose steps keep an invariant and never panic ends in a state with the invariant.\<close>

lemma fold_opt_invariant:
  assumes "P s"
    and step: "\<And>x s. x \<in> set xs \<Longrightarrow> P s \<Longrightarrow> \<exists>s'. f x s = Some s' \<and> P s'"
  shows "\<exists>t. fold_opt f xs s = Some t \<and> P t"
  using assms
proof (induction xs arbitrary: s)
  case Nil
  then show ?case by simp
next
  case (Cons x xs)
  from Cons.prems(2) [of x s] Cons.prems(1) obtain s' where "f x s = Some s'" "P s'" by auto
  with Cons.IH [of s'] Cons.prems(2) show ?case by auto
qed

fun map_opt :: "('a \<Rightarrow> 'b option) \<Rightarrow> 'a list \<Rightarrow> 'b list option" where
  "map_opt f [] = Some []"
| "map_opt f (x # xs) = do { y \<leftarrow> f x; ys \<leftarrow> map_opt f xs; Some (y # ys) }"

lemma map_opt_total: "(\<And>x. x \<in> set xs \<Longrightarrow> f x = Some (g x)) \<Longrightarrow> map_opt f xs = Some (map g xs)"
  by (induction xs) auto

lemma map_opt_length: "map_opt f xs = Some ys \<Longrightarrow> length ys = length xs"
  by (induction xs arbitrary: ys) (auto simp: bind_simps)

lemma map_opt_nth: "map_opt f xs = Some ys \<Longrightarrow> i < length xs \<Longrightarrow> f (xs ! i) = Some (ys ! i)"
proof (induction xs arbitrary: ys i)
  case Nil
  then show ?case by simp
next
  case (Cons x xs)
  then show ?case by (cases i) (auto simp: bind_simps)
qed

section \<open>Vectors\<close>

definition vec_get :: "'a list \<Rightarrow> nat \<Rightarrow> 'a option" where
  "vec_get xs i = (if i < length xs then Some (xs ! i) else None)"

definition vec_modify :: "nat \<Rightarrow> ('a \<Rightarrow> 'a) \<Rightarrow> 'a list \<Rightarrow> 'a list option" where
  "vec_modify i f xs = (if i < length xs then Some (xs[i := f (xs ! i)]) else None)"

text \<open>\<open>Vec::resize_with\<close>: shorter vectors are filled with the default, longer ones cut.\<close>

definition vec_resize :: "nat \<Rightarrow> 'a \<Rightarrow> 'a list \<Rightarrow> 'a list" where
  "vec_resize n d xs = take n xs @ replicate (n - length xs) d"

text \<open>\<open>if !v.contains(&x) { v.push(x) }\<close>.\<close>

definition push_new :: "'a \<Rightarrow> 'a list \<Rightarrow> 'a list" where
  "push_new x xs = (if x \<in> set xs then xs else xs @ [x])"

lemma vec_get_Some [vec_simps]: "vec_get xs i = Some x \<longleftrightarrow> i < length xs \<and> xs ! i = x"
  by (auto simp: vec_get_def)

lemma vec_get_None [vec_simps]: "vec_get xs i = None \<longleftrightarrow> length xs \<le> i"
  by (auto simp: vec_get_def)

lemma vec_get_less [simp]: "i < length xs \<Longrightarrow> vec_get xs i = Some (xs ! i)"
  by (simp add: vec_get_def)

lemma vec_modify_Some [vec_simps]:
  "vec_modify i f xs = Some ys \<longleftrightarrow> i < length xs \<and> ys = xs[i := f (xs ! i)]"
  by (auto simp: vec_modify_def)

lemma vec_modify_less [simp]: "i < length xs \<Longrightarrow> vec_modify i f xs = Some (xs[i := f (xs ! i)])"
  by (simp add: vec_modify_def)

lemma length_vec_resize [simp]: "length (vec_resize n d xs) = n"
  by (simp add: vec_resize_def)

lemma nth_vec_resize:
  "i < n \<Longrightarrow> vec_resize n d xs ! i = (if i < length xs then xs ! i else d)"
  by (auto simp: vec_resize_def nth_append)

lemma set_push_new [simp]: "set (push_new x xs) = insert x (set xs)"
  by (auto simp: push_new_def)

lemma distinct_push_new [simp]: "distinct (push_new x xs) = distinct xs"
  by (auto simp: push_new_def)

lemma push_new_not_Nil [simp]: "push_new x xs \<noteq> []"
  by (auto simp: push_new_def)

text \<open>\<open>Vec::dedup\<close> removes adjacent duplicates: the library's \<^const>\<open>remdups_adj\<close>.\<close>

lemma sorted_remdups_adj_distinct: "sorted xs \<Longrightarrow> distinct (remdups_adj (xs :: 'a :: linorder list))"
  by (induction xs rule: remdups_adj.induct) (auto dest: antisym)

section \<open>Loops that may panic\<close>

partial_function (option) loop_opt :: "('s \<Rightarrow> bool) \<Rightarrow> ('s \<Rightarrow> 's option) \<Rightarrow> 's \<Rightarrow> 's option" where
  "loop_opt b c s = (if b s then Option.bind (c s) (\<lambda>t. loop_opt b c t) else Some s)"

lemmas loop_opt_unfold [code] = loop_opt.simps

lemma loop_opt_done: "\<not> b s \<Longrightarrow> loop_opt b c s = Some s"
  by (simp add: loop_opt_unfold)

text \<open>
  Total correctness: a body that keeps the invariant, does not panic and decreases a
  well-founded relation gives a loop that ends, without a panic, in a state with the invariant.
\<close>

lemma loop_opt_rule:
  assumes "P s" and "wf r"
    and step: "\<And>s. P s \<Longrightarrow> b s \<Longrightarrow> \<exists>t. c s = Some t \<and> P t \<and> (t, s) \<in> r"
  shows "\<exists>t. loop_opt b c s = Some t \<and> P t \<and> \<not> b t"
  using \<open>wf r\<close> \<open>P s\<close>
proof (induction s rule: wf_induct_rule)
  case (less s)
  show ?case
  proof (cases "b s")
    case True
    with less.prems obtain t where "c s = Some t" "P t" "(t, s) \<in> r" using step by blast
    with less.IH show ?thesis by (subst loop_opt_unfold) (simp add: True)
  next
    case False
    with less.prems show ?thesis by (auto simp: loop_opt_done)
  qed
qed

text \<open>Partial correctness: what the body keeps holds of any result.\<close>

lemma loop_opt_partial:
  assumes ret: "loop_opt b c s = Some t" and "P s"
    and step: "\<And>s t. P s \<Longrightarrow> b s \<Longrightarrow> c s = Some t \<Longrightarrow> P t"
  shows "P t \<and> \<not> b t"
proof -
  have "b' = b \<longrightarrow> c' = c \<longrightarrow> P s' \<longrightarrow> P t' \<and> \<not> b t'" if "loop_opt b' c' s' = Some t'" for b' c' s' t'
  proof (rule loop_opt.raw_induct [where P = "\<lambda>b' c' s' t'. b' = b \<longrightarrow> c' = c \<longrightarrow> P s' \<longrightarrow> P t' \<and> \<not> b t'",
        OF _ that])
    fix f b' c' s' t'
    assume IH: "\<And>b' c' s' t'. f b' c' s' = Some t' \<Longrightarrow> b' = b \<longrightarrow> c' = c \<longrightarrow> P s' \<longrightarrow> P t' \<and> \<not> b t'"
      and eq: "(if b' s' then Option.bind (c' s') (\<lambda>t. f b' c' t) else Some s') = Some t'"
    show "b' = b \<longrightarrow> c' = c \<longrightarrow> P s' \<longrightarrow> P t' \<and> \<not> b t'"
    proof (intro impI)
      assume [simp]: "b' = b" "c' = c" and "P s'"
      show "P t' \<and> \<not> b t'"
      proof (cases "b s'")
        case True
        with eq obtain u where "c s' = Some u" "f b c u = Some t'" by (auto simp: bind_simps)
        with IH [of b c u t'] step [OF \<open>P s'\<close> True] show ?thesis by simp
      next
        case False
        with eq \<open>P s'\<close> show ?thesis by simp
      qed
    qed
  qed
  with ret \<open>P s\<close> show ?thesis by blast
qed

end
