(* ===== verification/Paths.thy ===== *)
theory Paths
  imports Prelude
begin

text \<open>
  Paths as \<open>std::path\<close> sees them on Unix: the sequence of components that
  \<open>Path::components\<close> yields.  Two \<open>PathBuf\<close>s are equal, ordered and prefixes of each other
  exactly as their component sequences are, so the list of components is the path.
  The file models \<open>normalize\<close> of \<open>unpack_paths/src/lib.rs\<close> (and its copy
  \<open>normalize_missing_resource\<close> in \<open>make.rs\<close>), and what it preserves.
\<close>

section \<open>Components\<close>

datatype component = RootDir | CurDir | ParentDir | Normal string

type_synonym path = "component list"

text \<open>The derived order of \<open>Component\<close>: by constructor, then by name.\<close>

fun component_key :: "component \<Rightarrow> nat \<times> string" where
  "component_key RootDir = (0, [])"
| "component_key CurDir = (1, [])"
| "component_key ParentDir = (2, [])"
| "component_key (Normal s) = (3, s)"

lemma component_key_inject [simp]: "component_key c = component_key d \<longleftrightarrow> c = d"
  by (cases c; cases d) auto

instantiation component :: linorder
begin

definition less_eq_component :: "component \<Rightarrow> component \<Rightarrow> bool" where
  "less_eq_component c d \<longleftrightarrow> component_key c \<le> component_key d"

definition less_component :: "component \<Rightarrow> component \<Rightarrow> bool" where
  "less_component c d \<longleftrightarrow> component_key c < component_key d"

instance
  by standard (auto simp: less_eq_component_def less_component_def less_le_not_le
      simp flip: component_key_inject intro: antisym)

end

text \<open>
  \<open>components()\<close> yields a root only in front, and the current directory only in front of a
  relative path.
\<close>

definition wf_path :: "path \<Rightarrow> bool" where
  "wf_path p \<longleftrightarrow> RootDir \<notin> set (tl p) \<and> CurDir \<notin> set (tl p)"

definition is_absolute :: "path \<Rightarrow> bool" where
  "is_absolute p \<longleftrightarrow> (\<exists>q. p = RootDir # q)"

lemma is_absolute_code [code]: "is_absolute p = (case p of RootDir # _ \<Rightarrow> True | _ \<Rightarrow> False)"
  by (auto simp: is_absolute_def split: list.splits component.splits)

text \<open>
  \<open>PathBuf::pop\<close>: the path without its last component, unless there is none or it is the
  root; \<open>Path::parent\<close> is the same function.  \<open>PathBuf::push\<close> and \<open>Path::join\<close> replace the path by
  an absolute operand.
\<close>

definition path_parent :: "path \<Rightarrow> path option" where
  "path_parent p = (if p = [] \<or> last p = RootDir then None else Some (butlast p))"

definition path_join :: "path \<Rightarrow> path \<Rightarrow> path" where
  "path_join p q =
     (if is_absolute q then q
      else if p = [] then q
      else p @ (case q of CurDir # q' \<Rightarrow> q' | _ \<Rightarrow> q))"

abbreviation path_starts_with :: "path \<Rightarrow> path \<Rightarrow> bool" where
  "path_starts_with p q \<equiv> prefix q p"

definition path_strip_prefix :: "path \<Rightarrow> path \<Rightarrow> path option" where
  "path_strip_prefix p q = (if prefix q p then Some (drop (length q) p) else None)"

text \<open>The string of a path, as \<open>to_string_lossy\<close> of a path in normal spelling prints it.\<close>

fun component_string :: "component \<Rightarrow> string" where
  "component_string RootDir = ''/''"
| "component_string CurDir = ''.''"
| "component_string ParentDir = ''..''"
| "component_string (Normal s) = s"

fun path_string :: "path \<Rightarrow> string" where
  "path_string [] = ''''"
| "path_string [c] = component_string c"
| "path_string (RootDir # p) = ''/'' @ path_string p"
| "path_string (c # p) = component_string c @ ''/'' @ path_string p"

section \<open>Lexical normalization\<close>

definition normalize_step :: "component \<Rightarrow> path \<Rightarrow> path" where
  "normalize_step c n =
     (case c of
        CurDir \<Rightarrow> n
      | ParentDir \<Rightarrow> (case path_parent n of Some n' \<Rightarrow> n' | None \<Rightarrow> n @ [ParentDir])
      | RootDir \<Rightarrow> [RootDir]
      | Normal s \<Rightarrow> n @ [Normal s])"

definition normalize :: "path \<Rightarrow> path" where
  "normalize p = fold normalize_step p []"

text \<open>The shape of a normalized path: names, after at most one root and at most one parent.\<close>

definition is_name :: "component \<Rightarrow> bool" where
  "is_name c \<longleftrightarrow> (\<exists>s. c = Normal s)"

definition normal_shape :: "path \<Rightarrow> bool" where
  "normal_shape n \<longleftrightarrow>
     (\<exists>r u ns. n = r @ u @ ns \<and> r \<in> {[], [RootDir]} \<and> u \<in> {[], [ParentDir]} \<and> list_all is_name ns)"

lemma normal_shapeI:
  "r = [] \<or> r = [RootDir] \<Longrightarrow> u = [] \<or> u = [ParentDir] \<Longrightarrow> list_all is_name ns \<Longrightarrow>
   normal_shape (r @ u @ ns)"
  unfolding normal_shape_def by blast

lemma normalize_step_shape: "normal_shape n \<Longrightarrow> normal_shape (normalize_step c n)"
proof -
  assume "normal_shape n"
  then obtain r u ns where n: "n = r @ u @ ns" and r: "r = [] \<or> r = [RootDir]"
    and u: "u = [] \<or> u = [ParentDir]" and ns: "list_all is_name ns"
    unfolding normal_shape_def by blast
  show ?thesis
  proof (cases c)
    case RootDir
    then show ?thesis
      using normal_shapeI [of "[RootDir]" "[]" "[]"] by (simp add: normalize_step_def)
  next
    case CurDir
    with \<open>normal_shape n\<close> show ?thesis by (simp add: normalize_step_def)
  next
    case (Normal s)
    then show ?thesis
      using normal_shapeI [OF r u, of "ns @ [Normal s]"] n ns
      by (simp add: normalize_step_def is_name_def)
  next
    case ParentDir
    show ?thesis
    proof (cases "ns = []")
      case False
      then obtain ns' c' where ns': "ns = ns' @ [c']" by (metis append_butlast_last_id)
      with ns have "c' \<noteq> RootDir" and nn: "list_all is_name ns'" by (auto simp: is_name_def)
      then have "normalize_step ParentDir n = r @ u @ ns'"
        by (simp add: normalize_step_def path_parent_def n ns' butlast_append)
      with ParentDir normal_shapeI [OF r u nn] show ?thesis by simp
    next
      case True
      have "normalize_step ParentDir (r @ u) \<in> {r, r @ [ParentDir]}"
        using r u by (auto simp: normalize_step_def path_parent_def)
      then show ?thesis
        using normal_shapeI [OF r, of "[]" "[]"] normal_shapeI [OF r, of "[ParentDir]" "[]"]
          True n ParentDir by auto
    qed
  qed
qed

lemma normalize_shape: "normal_shape (normalize p)"
proof -
  have "normal_shape n \<Longrightarrow> normal_shape (fold normalize_step p n)" for n
    by (induction p arbitrary: n) (auto intro: normalize_step_shape)
  moreover have "normal_shape []" using normal_shapeI [of "[]" "[]" "[]"] by simp
  ultimately show ?thesis by (simp add: normalize_def)
qed

lemma fold_normalize_names:
  "list_all is_name ns \<Longrightarrow> fold normalize_step ns n = n @ ns"
  by (induction ns arbitrary: n) (auto simp: is_name_def normalize_step_def)

lemma normalize_normal_shape: "normal_shape n \<Longrightarrow> normalize n = n"
  unfolding normal_shape_def
  by (auto simp: normalize_def fold_normalize_names) (auto simp: normalize_step_def path_parent_def)

section \<open>What a path denotes\<close>

text \<open>
  The directory a path names, as the list of names from the root, walking from a start
  directory; the parent of the root is the root, as POSIX has it, and no symbolic links.
\<close>

fun walk :: "path \<Rightarrow> string list \<Rightarrow> string list" where
  "walk [] d = d"
| "walk (RootDir # p) d = walk p []"
| "walk (CurDir # p) d = walk p d"
| "walk (ParentDir # p) d = walk p (butlast d)"
| "walk (Normal s # p) d = walk p (d @ [s])"

lemma walk_append: "walk (p @ q) d = walk q (walk p d)"
  by (induction p d rule: walk.induct) auto

lemma walk_normalize_step:
  assumes "normal_shape n" and "hd n = RootDir" and "n \<noteq> []" and "c \<noteq> RootDir"
  shows "walk (normalize_step c n) d = walk [c] (walk n d)
       \<and> normalize_step c n \<noteq> [] \<and> hd (normalize_step c n) = RootDir"
proof (cases c)
  case ParentDir
  from assms obtain m where m: "n = RootDir # m" by (cases n) auto
  show ?thesis
  proof (cases m rule: rev_cases)
    case Nil
    with m ParentDir show ?thesis by (simp add: normalize_step_def path_parent_def)
  next
    case (snoc m' c')
    from assms(1) obtain r u ns where n: "n = r @ u @ ns" and r: "r = [] \<or> r = [RootDir]"
      and u: "u = [] \<or> u = [ParentDir]" and ns: "list_all is_name ns"
      unfolding normal_shape_def by blast
    from n m r u ns have r': "r = [RootDir]" by (cases ns) (auto simp: is_name_def)
    with n m have mu: "m = u @ ns" by simp
    show ?thesis
    proof (cases ns rule: rev_cases)
      case Nil
      with mu snoc u m ParentDir show ?thesis
        by (auto simp: normalize_step_def path_parent_def)
    next
      case (snoc ns' x)
      with ns obtain s where "x = Normal s" by (auto simp: is_name_def)
      with snoc mu m ParentDir show ?thesis
        by (simp add: normalize_step_def path_parent_def walk_append butlast_append)
    qed
  qed
qed (use assms in \<open>auto simp: normalize_step_def walk_append\<close>)

lemma walk_fold_normalize:
  assumes "RootDir \<notin> set p" and "normal_shape n" and "n \<noteq> []" and "hd n = RootDir"
  shows "walk (fold normalize_step p n) d = walk p (walk n d)"
  using assms
proof (induction p arbitrary: n)
  case Nil
  then show ?case by simp
next
  case (Cons c p)
  then have "walk (normalize_step c n) d = walk [c] (walk n d)"
    and "normalize_step c n \<noteq> []" "hd (normalize_step c n) = RootDir"
    using walk_normalize_step [of n c d] by auto
  moreover from Cons.prems have "normal_shape (normalize_step c n)"
    by (intro normalize_step_shape)
  ultimately have "walk (fold normalize_step p (normalize_step c n)) d = walk p (walk [c] (walk n d))"
    using Cons by auto
  then show ?case using walk_append [of "[c]" p "walk n d"] by simp
qed

lemma walk_normalize_absolute:
  assumes "wf_path p" and "is_absolute p"
  shows "walk (normalize p) d = walk p d"
proof -
  from assms obtain q where p: "p = RootDir # q" and q: "RootDir \<notin> set q"
    by (auto simp: is_absolute_def wf_path_def)
  have "normal_shape [RootDir]" using normal_shapeI [of "[RootDir]" "[]" "[]"] by simp
  from walk_fold_normalize [OF q this, of d] p show ?thesis
    by (simp add: normalize_def normalize_step_def)
qed

text \<open>
  Exactly which path it is: the names of the place, after the root and one parent if the path follows the
  parent of the root an odd number of times (\<open>pop\<close> fails on the root, so the parent is pushed; the next one
  pops it).
\<close>

fun climbs :: "nat \<Rightarrow> path \<Rightarrow> nat" where
  "climbs depth [] = 0"
| "climbs depth (RootDir # p) = climbs 0 p"
| "climbs depth (CurDir # p) = climbs depth p"
| "climbs depth (ParentDir # p) = (if depth = 0 then Suc (climbs 0 p) else climbs (depth - 1) p)"
| "climbs depth (Normal s # p) = climbs (Suc depth) p"

definition rooted :: "bool \<Rightarrow> string list \<Rightarrow> path" where
  "rooted climbed names = RootDir # (if climbed then [ParentDir] else []) @ map Normal names"

lemma normalize_step_rooted:
  "normalize_step (Normal s) (rooted b names) = rooted b (names @ [s])"
  "normalize_step CurDir (rooted b names) = rooted b names"
  "names \<noteq> [] \<Longrightarrow> normalize_step ParentDir (rooted b names) = rooted b (butlast names)"
  "normalize_step ParentDir (rooted b []) = rooted (\<not> b) []"
proof -
  show "normalize_step ParentDir (rooted b names) = rooted b (butlast names)" if "names \<noteq> []"
    using that by (cases names rule: rev_cases) (simp_all add: rooted_def normalize_step_def path_parent_def butlast_append)
qed (simp_all add: rooted_def normalize_step_def path_parent_def)

lemma fold_normalize_rooted:
  "RootDir \<notin> set q \<Longrightarrow>
    fold normalize_step q (rooted b names) = rooted (b \<noteq> odd (climbs (length names) q)) (walk q names)"
proof (induction q arbitrary: b names)
  case (Cons c q)
  then have IH: "fold normalize_step q (rooted b names) = rooted (b \<noteq> odd (climbs (length names) q)) (walk q names)" for b names
    by simp
  show ?case
  proof (cases c)
    case ParentDir
    then show ?thesis by (cases "names = []") (simp_all add: normalize_step_rooted IH)
  qed (use Cons.prems in \<open>simp_all add: normalize_step_rooted IH\<close>)
qed simp

lemma normalize_absolute:
  assumes "wf_path p" and "is_absolute p"
  shows "normalize p = rooted (odd (climbs 0 p)) (walk p d)"
proof -
  from assms obtain q where p: "p = RootDir # q" and q: "RootDir \<notin> set q"
    by (auto simp: is_absolute_def wf_path_def)
  have "normalize_step RootDir [] = rooted False []" by (simp add: normalize_step_def rooted_def)
  with fold_normalize_rooted [OF q, of False "[]"] show ?thesis by (simp add: normalize_def p)
qed

end
