(* ===== verification/Stable_Hash.thy ===== *)
theory Stable_Hash
  imports Prelude
begin

unbundle bit_operations_syntax

text \<open>
  \<open>cache_hash.rs\<close>: the FNV-1a hasher whose values the caches persist, and the byte streams
  that \<open>Hash\<close> implementations of the standard library and of \<open>derive(Hash)\<close> write to it
  (integers little endian, \<open>str\<close> with a trailing \<open>0xff\<close>, slices with a \<open>usize\<close> length,
  enum discriminants as \<open>isize\<close>).  \<open>snapshot.rs\<close> has a second copy of the same hasher.
\<close>

section \<open>Little-endian integers\<close>

definition word_le :: "nat \<Rightarrow> 'a::len word \<Rightarrow> bytes" where
  "word_le k w = map (\<lambda>i. ucast (drop_bit (8 * i) w)) [0..<k]"

fun le_word :: "bytes \<Rightarrow> 'a::len word" where
  "le_word [] = 0"
| "le_word (b # bs) = ucast b OR push_bit 8 (le_word bs)"

lemma length_word_le [simp]: "length (word_le k w) = k"
  by (simp add: word_le_def)

lemma bit_le_word:
  "bit (le_word bs :: 'a::len word) i \<longleftrightarrow>
     i < LENGTH('a) \<and> i div 8 < length bs \<and> bit (bs ! (i div 8)) (i mod 8)"
proof (induction bs arbitrary: i)
  case Nil
  then show ?case by simp
next
  case (Cons b bs)
  show ?case
  proof (cases "i < 8")
    case True
    then show ?thesis
      by (auto simp: bit_or_iff bit_push_bit_iff bit_ucast_iff)
  next
    case False
    then have d: "i div 8 = Suc ((i - 8) div 8)" "(i - 8) mod 8 = i mod 8"
      by (simp_all add: le_div_geq le_mod_geq)
    have "\<not> bit (ucast b :: 'a word) i"
      using False bit_imp_le_length [of b i] by (auto simp: bit_ucast_iff)
    then show ?thesis
      using Cons.IH [of "i - 8"] False d
      by (auto simp: bit_or_iff bit_push_bit_iff dest: bit_imp_le_length)
  qed
qed

lemma le_word_word_le:
  assumes "LENGTH('a) \<le> 8 * k"
  shows "le_word (word_le k w) = (w :: 'a::len word)"
proof (rule bit_eqI)
  fix i
  assume "possible_bit TYPE('a word) i"
  then have "i < LENGTH('a)" by simp
  with assms have "i div 8 < k" by (simp add: div_less_iff_less_mult mult.commute)
  moreover have "8 * (i div 8) + i mod 8 = i" by simp
  ultimately show "bit (le_word (word_le k w) :: 'a word) i = bit w i"
    using \<open>i < LENGTH('a)\<close>
    by (auto simp: bit_le_word word_le_def bit_ucast_iff bit_drop_bit_eq add.commute)
qed

lemma word_le_inject:
  "LENGTH('a) \<le> 8 * k \<Longrightarrow> word_le k v = word_le k (w :: 'a::len word) \<longleftrightarrow> v = w"
  by (metis le_word_word_le)

section \<open>The hasher\<close>

type_synonym hasher = u64

definition hasher_default :: hasher where
  "hasher_default = 14695981039346656037"

definition fnv_prime :: u64 where
  "fnv_prime = 1099511628211"

definition hash_step :: "u8 \<Rightarrow> hasher \<Rightarrow> hasher" where
  "hash_step b s = (s XOR ucast b) * fnv_prime"

definition hash_write :: "bytes \<Rightarrow> hasher \<Rightarrow> hasher" where
  "hash_write bs s = fold hash_step bs s"

definition hash_finish :: "hasher \<Rightarrow> u64" where
  "hash_finish s = s"

definition hash_write_u8 :: "u8 \<Rightarrow> hasher \<Rightarrow> hasher" where
  "hash_write_u8 i = hash_write [i]"

definition hash_write_u32 :: "u32 \<Rightarrow> hasher \<Rightarrow> hasher" where
  "hash_write_u32 i = hash_write (word_le 4 i)"

definition hash_write_u64 :: "u64 \<Rightarrow> hasher \<Rightarrow> hasher" where
  "hash_write_u64 i = hash_write (word_le 8 i)"

definition hash_write_usize :: "nat \<Rightarrow> hasher \<Rightarrow> hasher" where
  "hash_write_usize i = hash_write_u64 (word_of_nat i)"

text \<open>\<open>stable_hash\<close> of a value that writes the bytes \<open>bs\<close>.\<close>

definition stable_hash :: "bytes \<Rightarrow> u64" where
  "stable_hash bs = hash_finish (hash_write bs hasher_default)"

text \<open>\<open>hash_bytes\<close> of \<open>snapshot.rs\<close>, over its own hasher with the same constants.\<close>

definition snapshot_hash_new :: hasher where
  "snapshot_hash_new = 0xcbf29ce484222325"

definition snapshot_hash_write :: "bytes \<Rightarrow> hasher \<Rightarrow> hasher" where
  "snapshot_hash_write bs s = fold (\<lambda>b s. (s XOR ucast b) * 0x100000001b3) bs s"

definition hash_bytes :: "bytes \<Rightarrow> u64" where
  "hash_bytes bs = snapshot_hash_write bs snapshot_hash_new"

lemma hash_bytes_stable_hash: "hash_bytes bs = stable_hash bs"
  by (simp add: hash_bytes_def stable_hash_def snapshot_hash_write_def snapshot_hash_new_def
      hash_write_def hasher_default_def hash_finish_def hash_step_def [abs_def] fnv_prime_def)

section \<open>What \<open>Hash\<close> implementations write\<close>

definition hb_u8 :: "u8 \<Rightarrow> bytes" where "hb_u8 b = [b]"
definition hb_u32 :: "u32 \<Rightarrow> bytes" where "hb_u32 w = word_le 4 w"
definition hb_u64 :: "u64 \<Rightarrow> bytes" where "hb_u64 w = word_le 8 w"
definition hb_usize :: "nat \<Rightarrow> bytes" where "hb_usize n = word_le 8 (word_of_nat n :: u64)"
definition hb_bool :: "bool \<Rightarrow> bytes" where "hb_bool b = [of_bool b]"
definition hb_str :: "string \<Rightarrow> bytes" where "hb_str s = str_bytes s @ [0xff]"
definition hb_discr :: "nat \<Rightarrow> bytes" where "hb_discr n = word_le 8 (word_of_nat n :: u64)"

definition hb_option :: "('a \<Rightarrow> bytes) \<Rightarrow> 'a option \<Rightarrow> bytes" where
  "hb_option f m = (case m of None \<Rightarrow> hb_discr 0 | Some x \<Rightarrow> hb_discr 1 @ f x)"

definition hb_vec :: "('a \<Rightarrow> bytes) \<Rightarrow> 'a list \<Rightarrow> bytes" where
  "hb_vec f xs = hb_usize (length xs) @ concat (map f xs)"

section \<open>Every step of the hasher is a bijection of its state\<close>

definition fnv_inverse :: u64 where
  "fnv_inverse = 14886173955864302971"

lemma fnv_prime_inverse: "fnv_prime * fnv_inverse = 1"
  by (simp add: fnv_prime_def fnv_inverse_def)

lemma hash_step_inject: "hash_step b s = hash_step b t \<longleftrightarrow> s = t"
proof
  assume "hash_step b s = hash_step b t"
  then have "hash_step b s * fnv_inverse = hash_step b t * fnv_inverse" by simp
  then have "s XOR ucast b = t XOR ucast b"
    by (simp add: hash_step_def mult.assoc fnv_prime_inverse)
  then have "(s XOR ucast b) XOR ucast b = (t XOR ucast b) XOR ucast b" by simp
  then show "s = t" by (simp add: ac_simps)
qed simp

lemma hash_step_byte_inject: "hash_step b s = hash_step c s \<longleftrightarrow> b = c"
proof
  assume "hash_step b s = hash_step c s"
  then have "hash_step b s * fnv_inverse = hash_step c s * fnv_inverse" by simp
  then have "s XOR ucast b = s XOR ucast c"
    by (simp add: hash_step_def mult.assoc fnv_prime_inverse)
  then have "s XOR (s XOR ucast b) = s XOR (s XOR ucast c)" by simp
  then have "(ucast b :: u64) = ucast c" by (simp flip: xor.assoc)
  then have "(ucast (ucast b :: u64) :: u8) = ucast (ucast c :: u64)" by simp
  then show "b = c" by (simp add: ucast_up_ucast_id is_up)
qed simp

lemma hash_write_inject: "hash_write bs s = hash_write bs t \<longleftrightarrow> s = t"
  by (induction bs arbitrary: s t) (simp_all add: hash_write_def hash_step_inject)

lemma hash_write_append: "hash_write (as @ bs) s = hash_write bs (hash_write as s)"
  by (simp add: hash_write_def)

lemma hash_write_single_byte:
  "hash_write (as @ b # bs) s = hash_write (as @ c # bs) s \<longleftrightarrow> b = c"
  using hash_write_inject [of bs "hash_step b (hash_write as s)" "hash_step c (hash_write as s)"]
  by (simp add: hash_write_append hash_step_byte_inject) (simp add: hash_write_def)

end
