(* ===== verification/Module_Model.thy ===== *)
theory Module_Model
  imports Paths Stable_Hash
begin

text \<open>
  The data the whole compiler works on: source ranges, dependencies and their classification
  (\<open>dependency.rs\<close>, \<open>dependencies/\<close>), dependency blocks, module identities and modules
  (\<open>module.rs\<close>), and the errors of \<open>error.rs\<close>.  \<open>BuildingModule\<close> and \<open>Module\<close> wrap the same
  \<open>ModuleData\<close>, so one record models both, and \<open>BuildingModule::finish\<close> is the identity.
  Strings are their UTF-8 bytes, on which Rust's \<open>str\<close> ordering is the lexicographic one.
\<close>

section \<open>Module identities\<close>

datatype module_type = JavaScriptAuto | Json | Asset | AssetResource | AssetInline | AssetSource

fun module_type_rank :: "module_type \<Rightarrow> nat" where
  "module_type_rank JavaScriptAuto = 0"
| "module_type_rank Json = 1"
| "module_type_rank Asset = 2"
| "module_type_rank AssetResource = 3"
| "module_type_rank AssetInline = 4"
| "module_type_rank AssetSource = 5"

lemma module_type_rank_inject [simp]: "module_type_rank a = module_type_rank b \<longleftrightarrow> a = b"
  by (cases a; cases b) auto

datatype module_identity = ModuleIdentity
  (mi_module_type: module_type)
  (mi_resource: path)
  (mi_query: "string option")
  (mi_fragment: "string option")
  (mi_layer: "string option")
  (mi_loaders: "string list")

definition new_identity :: "path \<Rightarrow> module_identity" where
  "new_identity resource = ModuleIdentity JavaScriptAuto resource None None None []"

text \<open>The derived order compares the fields in their declared order.\<close>

definition identity_key ::
  "module_identity \<Rightarrow> nat \<times> path \<times> string option \<times> string option \<times> string option \<times> string list" where
  "identity_key i = (module_type_rank (mi_module_type i), mi_resource i, mi_query i,
     mi_fragment i, mi_layer i, mi_loaders i)"

lemma identity_key_inject [simp]: "identity_key i = identity_key j \<longleftrightarrow> i = j"
  by (cases i; cases j) (auto simp: identity_key_def)

instantiation module_identity :: linorder
begin

definition less_eq_module_identity :: "module_identity \<Rightarrow> module_identity \<Rightarrow> bool" where
  "less_eq_module_identity i j \<longleftrightarrow> identity_key i \<le> identity_key j"

definition less_module_identity :: "module_identity \<Rightarrow> module_identity \<Rightarrow> bool" where
  "less_module_identity i j \<longleftrightarrow> identity_key i < identity_key j"

instance
  by standard (auto simp: less_eq_module_identity_def less_module_identity_def less_le_not_le
      simp flip: identity_key_inject intro: antisym)

end

fun module_type_name :: "module_type \<Rightarrow> string" where
  "module_type_name JavaScriptAuto = ''javascript/auto''"
| "module_type_name Json = ''json''"
| "module_type_name Asset = ''asset''"
| "module_type_name AssetResource = ''asset/resource''"
| "module_type_name AssetInline = ''asset/inline''"
| "module_type_name AssetSource = ''asset/source''"

definition unwrap_or :: "'a option \<Rightarrow> 'a \<Rightarrow> 'a" where
  "unwrap_or m d = (case m of Some x \<Rightarrow> x | None \<Rightarrow> d)"

lemma unwrap_or_simps [simp]: "unwrap_or (Some x) d = x" "unwrap_or None d = d"
  by (simp_all add: unwrap_or_def)

text \<open>\<open>[_]::join(sep)\<close> on strings.\<close>

fun join_with :: "string \<Rightarrow> string list \<Rightarrow> string" where
  "join_with sep [] = ''''"
| "join_with sep [x] = x"
| "join_with sep (x # xs) = x @ sep @ join_with sep xs"

definition module_identifier :: "module_identity \<Rightarrow> string" where
  "module_identifier i =
     (let resource = path_string (mi_resource i) @ unwrap_or (mi_query i) '''' @ unwrap_or (mi_fragment i) '''';
          request = (if mi_loaders i = [] then resource
                     else join_with ''!'' (mi_loaders i) @ ''!'' @ resource)
      in module_type_name (mi_module_type i) @ ''|'' @ request)"

section \<open>Dependencies\<close>

record source_range =
  sr_start :: u32
  sr_end :: u32

definition range_new :: "u32 \<Rightarrow> u32 \<Rightarrow> source_range" where
  "range_new s e = \<lparr>sr_start = s, sr_end = e\<rparr>"

definition range_insert :: "u32 \<Rightarrow> source_range" where
  "range_insert off = \<lparr>sr_start = off, sr_end = off\<rparr>"

definition range_is_empty :: "source_range \<Rightarrow> bool" where
  "range_is_empty r \<longleftrightarrow> sr_start r = sr_end r"

record module_dependency =
  md_request :: string
  md_user_request :: string
  md_source_order :: "nat option"
  md_range :: "source_range option"
  md_weak :: bool

definition new_module_dependency :: "string \<Rightarrow> nat option \<Rightarrow> module_dependency" where
  "new_module_dependency request source_order =
     \<lparr>md_request = request, md_user_request = request, md_source_order = source_order,
      md_range = None, md_weak = False\<rparr>"

definition md_resource_identifier :: "module_dependency \<Rightarrow> string" where
  "md_resource_identifier d = ''context|module'' @ md_request d"

record harmony_import_specifier =
  his_module :: module_dependency
  his_ids :: "string list"
  his_name :: string
  his_usage_range :: source_range
  his_shorthand :: bool

record harmony_export_imported_specifier =
  heis_module :: module_dependency
  heis_ids :: "string list"
  heis_name :: "string option"
  heis_is_star :: bool

record harmony_export_expression =
  hee_range :: source_range
  hee_statement_range :: source_range
  hee_declaration_id :: "string option"

datatype dependency =
    Entry module_dependency
  | HarmonyImportSideEffect module_dependency "string option"
  | HarmonyImportSpecifier harmony_import_specifier
  | HarmonyExportHeader "source_range option" source_range
  | HarmonyExportSpecifier string string
  | HarmonyExportExpression harmony_export_expression
  | HarmonyExportImportedSpecifier harmony_export_imported_specifier
  | NullDep
  | Const string source_range
  | Import module_dependency
  | Loader module_dependency
  | LoaderImport module_dependency

datatype dependency_kind =
  KEntry | KStaticImport | KStaticExport | KDynamicImport | KLoader | KLoaderImport | KPresentational

fun dep_kind :: "dependency \<Rightarrow> dependency_kind" where
  "dep_kind (Entry _) = KEntry"
| "dep_kind (HarmonyImportSideEffect _ _) = KStaticImport"
| "dep_kind (HarmonyImportSpecifier _) = KStaticImport"
| "dep_kind (HarmonyExportImportedSpecifier _) = KStaticExport"
| "dep_kind (Import _) = KDynamicImport"
| "dep_kind (Loader _) = KLoader"
| "dep_kind (LoaderImport _) = KLoaderImport"
| "dep_kind (HarmonyExportHeader _ _) = KPresentational"
| "dep_kind (HarmonyExportSpecifier _ _) = KPresentational"
| "dep_kind (HarmonyExportExpression _) = KPresentational"
| "dep_kind NullDep = KPresentational"
| "dep_kind (Const _ _) = KPresentational"

fun dep_module :: "dependency \<Rightarrow> module_dependency option" where
  "dep_module (Entry d) = Some d"
| "dep_module (HarmonyImportSideEffect d _) = Some d"
| "dep_module (HarmonyImportSpecifier d) = Some (his_module d)"
| "dep_module (HarmonyExportImportedSpecifier d) = Some (heis_module d)"
| "dep_module (Import d) = Some d"
| "dep_module (Loader d) = Some d"
| "dep_module (LoaderImport d) = Some d"
| "dep_module (HarmonyExportHeader _ _) = None"
| "dep_module (HarmonyExportSpecifier _ _) = None"
| "dep_module (HarmonyExportExpression _) = None"
| "dep_module NullDep = None"
| "dep_module (Const _ _) = None"

definition dep_request :: "dependency \<Rightarrow> string option" where
  "dep_request d = map_option md_request (dep_module d)"

definition dep_resource_identifier :: "dependency \<Rightarrow> string option" where
  "dep_resource_identifier d = map_option md_resource_identifier (dep_module d)"

definition dep_source_order :: "dependency \<Rightarrow> nat option" where
  "dep_source_order d = Option.bind (dep_module d) md_source_order"

definition is_module_dependency :: "dependency \<Rightarrow> bool" where
  "is_module_dependency d \<longleftrightarrow> dep_resource_identifier d \<noteq> None"

fun is_static_module_dependency :: "dependency \<Rightarrow> bool" where
  "is_static_module_dependency (Entry _) = True"
| "is_static_module_dependency (HarmonyImportSideEffect _ _) = True"
| "is_static_module_dependency (HarmonyImportSpecifier _) = True"
| "is_static_module_dependency (HarmonyExportImportedSpecifier _) = True"
| "is_static_module_dependency _ = False"

fun is_import_dependency :: "dependency \<Rightarrow> bool" where
  "is_import_dependency (Import _) = True"
| "is_import_dependency _ = False"

fun is_harmony_dependency :: "dependency \<Rightarrow> bool" where
  "is_harmony_dependency (HarmonyImportSideEffect _ _) = True"
| "is_harmony_dependency (HarmonyImportSpecifier _) = True"
| "is_harmony_dependency (HarmonyExportHeader _ _) = True"
| "is_harmony_dependency (HarmonyExportSpecifier _ _) = True"
| "is_harmony_dependency (HarmonyExportExpression _) = True"
| "is_harmony_dependency (HarmonyExportImportedSpecifier _) = True"
| "is_harmony_dependency _ = False"

fun can_concatenate :: "dependency \<Rightarrow> bool" where
  "can_concatenate (HarmonyImportSideEffect _ _) = True"
| "can_concatenate (HarmonyImportSpecifier _) = True"
| "can_concatenate (HarmonyExportImportedSpecifier _) = True"
| "can_concatenate _ = False"

lemma is_module_dependency_iff: "is_module_dependency d \<longleftrightarrow> dep_kind d \<noteq> KPresentational"
  by (cases d) (auto simp: is_module_dependency_def dep_resource_identifier_def)

lemma static_is_module_dependency: "is_static_module_dependency d \<Longrightarrow> is_module_dependency d"
  by (cases d) (auto simp: is_module_dependency_iff)

section \<open>What \<open>derive(Hash)\<close> writes for dependencies\<close>

definition hb_range :: "source_range \<Rightarrow> bytes" where
  "hb_range r = hb_u32 (sr_start r) @ hb_u32 (sr_end r)"

definition hb_module_dependency :: "module_dependency \<Rightarrow> bytes" where
  "hb_module_dependency d = hb_str (md_request d) @ hb_str (md_user_request d) @
     hb_option hb_usize (md_source_order d) @ hb_option hb_range (md_range d) @ hb_bool (md_weak d)"

fun hb_dependency :: "dependency \<Rightarrow> bytes" where
  "hb_dependency (Entry d) = hb_discr 0 @ hb_module_dependency d"
| "hb_dependency (HarmonyImportSideEffect d v) =
     hb_discr 1 @ hb_module_dependency d @ hb_option hb_str v"
| "hb_dependency (HarmonyImportSpecifier d) =
     hb_discr 2 @ hb_module_dependency (his_module d) @ hb_vec hb_str (his_ids d) @
     hb_str (his_name d) @ hb_range (his_usage_range d) @ hb_bool (his_shorthand d)"
| "hb_dependency (HarmonyExportHeader d s) = hb_discr 3 @ hb_option hb_range d @ hb_range s"
| "hb_dependency (HarmonyExportSpecifier i n) = hb_discr 4 @ hb_str i @ hb_str n"
| "hb_dependency (HarmonyExportExpression d) =
     hb_discr 5 @ hb_range (hee_range d) @ hb_range (hee_statement_range d) @
     hb_option hb_str (hee_declaration_id d)"
| "hb_dependency (HarmonyExportImportedSpecifier d) =
     hb_discr 6 @ hb_module_dependency (heis_module d) @ hb_vec hb_str (heis_ids d) @
     hb_option hb_str (heis_name d) @ hb_bool (heis_is_star d)"
| "hb_dependency NullDep = hb_discr 7"
| "hb_dependency (Const e r) = hb_discr 8 @ hb_str e @ hb_range r"
| "hb_dependency (Import d) = hb_discr 9 @ hb_module_dependency d"
| "hb_dependency (Loader d) = hb_discr 10 @ hb_module_dependency d"
| "hb_dependency (LoaderImport d) = hb_discr 11 @ hb_module_dependency d"

section \<open>Errors\<close>

datatype error =
    CompilerBusy
  | CompilerClosed
  | Resolve path string string
  | Read path string
  | Parse path string
  | LoaderError path path string
  | LoaderRules path string
  | ModuleTypeRegistry string
  | UnsupportedDynamicImport path string
  | ParseTask path string
  | MakeTask string
  | HookError string
  | MissingModule nat
  | MissingModuleDirectory nat
  | CodeGeneration nat path string

fun is_compilation_error :: "error \<Rightarrow> bool" where
  "is_compilation_error (Resolve _ _ _) = True"
| "is_compilation_error (Read _ _) = True"
| "is_compilation_error (Parse _ _) = True"
| "is_compilation_error (LoaderError _ _ _) = True"
| "is_compilation_error (LoaderRules _ _) = True"
| "is_compilation_error (UnsupportedDynamicImport _ _) = True"
| "is_compilation_error (CodeGeneration _ _ _) = True"
| "is_compilation_error _ = False"

section \<open>Modules\<close>

text \<open>The shapes of a \<open>serde_json::Value\<close> that the code matches on.\<close>

datatype json_value =
    JBool bool
  | JString string
  | JArray "json_value list"
  | JObject "(string \<times> json_value) list"
  | JOther string

datatype parsed_module_data = PJavaScript | PJson json_value | PAsset module_type

record javascript_build_meta =
  bm_side_effect_free :: "bool option"
  bm_uses_direct_eval :: bool

record dependencies_block =
  db_dependencies :: "dependency list"
  db_blocks :: "dependency list list"

record parsed_module =
  pm_block :: dependencies_block
  pm_presentational :: "dependency list"
  pm_identifiers :: "string list"
  pm_data :: parsed_module_data
  pm_build_meta :: javascript_build_meta

definition default_parsed_module :: parsed_module where
  "default_parsed_module =
     \<lparr>pm_block = \<lparr>db_dependencies = [], db_blocks = []\<rparr>, pm_presentational = [],
      pm_identifiers = [], pm_data = PJavaScript,
      pm_build_meta = \<lparr>bm_side_effect_free = None, bm_uses_direct_eval = False\<rparr>\<rparr>"

definition hb_block :: "dependencies_block \<Rightarrow> bytes" where
  "hb_block b = hb_vec hb_dependency (db_dependencies b) @ hb_vec (hb_vec hb_dependency) (db_blocks b)"

text \<open>\<open>serde_json::to_string\<close> is the library's: the parameter \<open>js\<close> of what hashes JSON data.\<close>

fun hb_parsed_data :: "(json_value \<Rightarrow> string) \<Rightarrow> parsed_module_data \<Rightarrow> bytes" where
  "hb_parsed_data js PJavaScript = hb_u8 0"
| "hb_parsed_data js (PJson v) = hb_u8 1 @ hb_str (js v)"
| "hb_parsed_data js (PAsset t) = hb_u8 2 @ hb_discr (module_type_rank t)"

record built_content =
  bc_parsed :: parsed_module
  bc_source :: string
  bc_binary_source :: "bytes option"
  bc_source_hash :: u64
  bc_local_input_digest :: u64

definition local_input_digest :: "(json_value \<Rightarrow> string) \<Rightarrow> parsed_module \<Rightarrow> u64" where
  "local_input_digest js p = hash_finish (hash_write
     (str_bytes ''unpack/code-generation/local-inputs/1'' @ hb_block (pm_block p) @
      hb_vec hb_dependency (pm_presentational p) @ hb_parsed_data js (pm_data p)) hasher_default)"

definition from_persistent_parts ::
  "(json_value \<Rightarrow> string) \<Rightarrow> parsed_module \<Rightarrow> string \<Rightarrow> bytes option \<Rightarrow> u64 \<Rightarrow> built_content" where
  "from_persistent_parts js parsed source binary hash =
     \<lparr>bc_parsed = parsed, bc_source = source, bc_binary_source = binary, bc_source_hash = hash,
      bc_local_input_digest = local_input_digest js parsed\<rparr>"

definition new_content :: "(json_value \<Rightarrow> string) \<Rightarrow> parsed_module \<Rightarrow> string \<Rightarrow> built_content" where
  "new_content js parsed source =
     from_persistent_parts js parsed source None (stable_hash (hb_str source))"

definition new_binary_content ::
  "(json_value \<Rightarrow> string) \<Rightarrow> parsed_module \<Rightarrow> string \<Rightarrow> bytes \<Rightarrow> built_content" where
  "new_binary_content js parsed source binary =
     from_persistent_parts js parsed source (Some binary)
       (stable_hash (hb_usize (length binary) @ binary))"

record module_data =
  m_handle :: nat
  m_identity :: module_identity
  m_content :: built_content
  m_build_error :: "error option"
  m_harmony :: bool
  m_factory_side_effect_free :: "bool option"
  m_build_side_effect_free :: "bool option"

abbreviation m_parsed :: "module_data \<Rightarrow> parsed_module" where
  "m_parsed m \<equiv> bc_parsed (m_content m)"

abbreviation m_dependencies :: "module_data \<Rightarrow> dependency list" where
  "m_dependencies m \<equiv> db_dependencies (pm_block (m_parsed m))"

abbreviation m_blocks :: "module_data \<Rightarrow> dependency list list" where
  "m_blocks m \<equiv> db_blocks (pm_block (m_parsed m))"

abbreviation m_presentational :: "module_data \<Rightarrow> dependency list" where
  "m_presentational m \<equiv> pm_presentational (m_parsed m)"

definition source_bytes :: "module_data \<Rightarrow> bytes" where
  "source_bytes m = (case bc_binary_source (m_content m) of
     Some b \<Rightarrow> b | None \<Rightarrow> str_bytes (bc_source (m_content m)))"

definition is_side_effect_free :: "module_data \<Rightarrow> bool" where
  "is_side_effect_free m =
     unwrap_or (case m_factory_side_effect_free m of Some b \<Rightarrow> Some b | None \<Rightarrow> m_build_side_effect_free m) False"

definition new_module :: "(json_value \<Rightarrow> string) \<Rightarrow> nat \<Rightarrow> module_identity \<Rightarrow> module_data" where
  "new_module js handle identity =
     \<lparr>m_handle = handle, m_identity = identity,
      m_content = new_content js default_parsed_module '''',
      m_build_error = None, m_harmony = False,
      m_factory_side_effect_free = None, m_build_side_effect_free = None\<rparr>"

definition finish_build_content :: "built_content \<Rightarrow> module_data \<Rightarrow> module_data" where
  "finish_build_content content m = m\<lparr>
     m_build_side_effect_free := bm_side_effect_free (pm_build_meta (bc_parsed content)),
     m_harmony := list_ex is_harmony_dependency
       (db_dependencies (pm_block (bc_parsed content)) @ pm_presentational (bc_parsed content)),
     m_content := content,
     m_build_error := None\<rparr>"

definition fail_build :: "(json_value \<Rightarrow> string) \<Rightarrow> error \<Rightarrow> string \<Rightarrow> module_data \<Rightarrow> module_data" where
  "fail_build js err source m = m\<lparr>
     m_content := new_content js default_parsed_module source,
     m_build_error := Some err,
     m_build_side_effect_free := None,
     m_harmony := False\<rparr>"

lemma finish_build_content_frame [simp]:
  "m_handle (finish_build_content c m) = m_handle m"
  "m_identity (finish_build_content c m) = m_identity m"
  "m_content (finish_build_content c m) = c"
  "m_build_error (finish_build_content c m) = None"
  by (simp_all add: finish_build_content_def)

lemma fail_build_frame [simp]:
  "m_handle (fail_build js e s m) = m_handle m"
  "m_identity (fail_build js e s m) = m_identity m"
  "m_dependencies (fail_build js e s m) = []"
  "m_blocks (fail_build js e s m) = []"
  "m_build_error (fail_build js e s m) = Some e"
  by (simp_all add: fail_build_def new_content_def from_persistent_parts_def default_parsed_module_def)

lemma new_module_frame [simp]:
  "m_handle (new_module js k i) = k" "m_identity (new_module js k i) = i"
  "m_dependencies (new_module js k i) = []" "m_blocks (new_module js k i) = []"
  by (simp_all add: new_module_def new_content_def from_persistent_parts_def default_parsed_module_def)

end
