(* ===== verification/Exports_Info.thy ===== *)
theory Exports_Info
  imports Module_Model
begin

text \<open>
  \<open>exports_info.rs\<close> and \<open>Module::provided_exports\<close>: the exports a module provides and the ones
  that are used.  A \<open>BTreeSet\<close> of names is a set; where the code iterates it, the order is that
  of the sorted list.
\<close>

record exports_info =
  ei_provided :: "string set option"
  ei_used :: "string set option"
  ei_all_used :: bool

definition default_exports_info :: exports_info where
  "default_exports_info = \<lparr>ei_provided = None, ei_used = None, ei_all_used = False\<rparr>"

definition exports_from_names :: "string list \<Rightarrow> exports_info" where
  "exports_from_names names = \<lparr>ei_provided = Some (set names), ei_used = None, ei_all_used = False\<rparr>"

definition add_provided_export :: "string \<Rightarrow> exports_info \<Rightarrow> exports_info" where
  "add_provided_export name e =
     (case ei_provided e of Some ns \<Rightarrow> e\<lparr>ei_provided := Some (insert name ns)\<rparr> | None \<Rightarrow> e)"

fun exports_step :: "dependency \<Rightarrow> exports_info \<Rightarrow> exports_info" where
  "exports_step (HarmonyExportSpecifier _ name) e = add_provided_export name e"
| "exports_step (HarmonyExportExpression _) e = add_provided_export ''default'' e"
| "exports_step (HarmonyExportImportedSpecifier d) e =
     (if heis_is_star d then e\<lparr>ei_provided := None\<rparr>
      else case heis_name d of Some name \<Rightarrow> add_provided_export name e | None \<Rightarrow> e)"
| "exports_step _ e = e"

definition exports_from_dependencies :: "dependency list \<Rightarrow> exports_info" where
  "exports_from_dependencies deps =
     fold exports_step deps \<lparr>ei_provided = Some {}, ei_used = None, ei_all_used = False\<rparr>"

definition is_export_provided :: "exports_info \<Rightarrow> string \<Rightarrow> bool option" where
  "is_export_provided e name = map_option (\<lambda>ns. name \<in> ns) (ei_provided e)"

definition get_used_name :: "exports_info \<Rightarrow> string \<Rightarrow> string option" where
  "get_used_name e name =
     (if ei_all_used e then Some name
      else case ei_used e of
        None \<Rightarrow> Some name
      | Some ns \<Rightarrow> if name \<in> ns then Some name else None)"

definition set_used_exports :: "string set option \<Rightarrow> exports_info \<Rightarrow> exports_info" where
  "set_used_exports ns e = e\<lparr>ei_used := ns, ei_all_used := False\<rparr>"

definition set_all_exports_used :: "exports_info \<Rightarrow> exports_info" where
  "set_all_exports_used e = e\<lparr>ei_used := Some {}, ei_all_used := True\<rparr>"

fun object_keys :: "json_value \<Rightarrow> string list" where
  "object_keys (JObject entries) = map fst entries"
| "object_keys _ = []"

definition provided_exports :: "module_data \<Rightarrow> exports_info" where
  "provided_exports m =
     (case pm_data (m_parsed m) of
        PJson value \<Rightarrow> exports_from_names (''default'' # object_keys value)
      | PAsset _ \<Rightarrow> exports_from_names [''default'']
      | PJavaScript \<Rightarrow> exports_from_dependencies (m_dependencies m))"

section \<open>What the exports of a module are\<close>

text \<open>The name a dependency exports, and whether it exports names that are not known.\<close>

fun exported_name :: "dependency \<Rightarrow> string option" where
  "exported_name (HarmonyExportSpecifier _ name) = Some name"
| "exported_name (HarmonyExportExpression _) = Some ''default''"
| "exported_name (HarmonyExportImportedSpecifier d) = (if heis_is_star d then None else heis_name d)"
| "exported_name _ = None"

fun is_star_export :: "dependency \<Rightarrow> bool" where
  "is_star_export (HarmonyExportImportedSpecifier d) = heis_is_star d"
| "is_star_export _ = False"

lemma exports_step_spec:
  "exports_step d e = e\<lparr>ei_provided :=
     (if is_star_export d then None
      else map_option (\<lambda>ns. ns \<union> set_option (exported_name d)) (ei_provided e))\<rparr>"
  by (cases d; cases "ei_provided e") (auto simp: add_provided_export_def insert_commute split: option.splits)

lemma fold_exports_step:
  "fold exports_step deps e = e\<lparr>ei_provided :=
     (if list_ex is_star_export deps then None
      else map_option (\<lambda>ns. ns \<union> (\<Union>d \<in> set deps. set_option (exported_name d))) (ei_provided e))\<rparr>"
proof (induction deps arbitrary: e)
  case Nil
  then show ?case by (cases "ei_provided e") simp_all
next
  case (Cons d deps)
  show ?case
    by (cases "ei_provided e") (simp_all add: Cons.IH exports_step_spec [of d e] Un_assoc)
qed

lemma exports_from_dependencies_spec:
  "exports_from_dependencies deps =
     \<lparr>ei_provided = (if list_ex is_star_export deps then None
                     else Some (\<Union>d \<in> set deps. set_option (exported_name d))),
      ei_used = None, ei_all_used = False\<rparr>"
  by (simp add: exports_from_dependencies_def fold_exports_step)

lemma get_used_name_cases:
  "get_used_name e name = Some name \<or> get_used_name e name = None"
  by (auto simp: get_used_name_def split: option.splits)

lemma used_updates [simp]:
  "ei_provided (set_used_exports ns e) = ei_provided e"
  "ei_used (set_used_exports ns e) = ns"
  "ei_all_used (set_used_exports ns e) = False"
  "ei_provided (set_all_exports_used e) = ei_provided e"
  "ei_used (set_all_exports_used e) = Some {}"
  "ei_all_used (set_all_exports_used e) = True"
  by (simp_all add: set_used_exports_def set_all_exports_used_def)

end
