(* ===== verification/Module_Graph.thy ===== *)
theory Module_Graph
  imports Exports_Info
begin

text \<open>
  \<open>index_vec.rs\<close>, \<open>module_graph.rs\<close> and \<open>module_graph_connection.rs\<close>: the graph that the make
  phase builds (\<open>BuildingModuleGraph\<close>) and the frozen one that sealing works on
  (\<open>ModuleGraph\<close>), over the same storage.  Reading or writing a vector out of range is a panic.
\<close>

section \<open>The storage\<close>

datatype connection_state = Active | Inactive | Circular

type_synonym location = "nat option \<times> nat"

record connection =
  cn_handle :: nat
  cn_origin :: "nat option"
  cn_block :: "nat option"
  cn_index :: "nat option"
  cn_dependency :: dependency
  cn_resolved :: nat
  cn_module :: nat
  cn_state :: connection_state

definition connection_is_active :: "connection \<Rightarrow> bool" where
  "connection_is_active c \<longleftrightarrow> cn_state c \<noteq> Inactive"

record graph_storage =
  gs_modules :: "module_data list"
  gs_connections :: "connection list"
  gs_outgoing :: "nat list list"
  gs_incoming :: "nat list list"
  gs_by_location :: "(location \<rightharpoonup> nat) list"

record module_graph = graph_storage +
  mg_exports :: "exports_info list"

definition index_push :: "'a \<Rightarrow> 'a list \<Rightarrow> 'a list \<times> nat" where
  "index_push x xs = (xs @ [x], length xs)"

definition empty_graph :: graph_storage where
  "empty_graph = \<lparr>gs_modules = [], gs_connections = [], gs_outgoing = [], gs_incoming = [],
     gs_by_location = []\<rparr>"

section \<open>Building\<close>

definition add_module ::
  "(json_value \<Rightarrow> string) \<Rightarrow> module_identity \<Rightarrow> bool option \<Rightarrow> graph_storage \<Rightarrow> graph_storage \<times> nat" where
  "add_module js identity side_effect_free g =
     (let handle = length (gs_modules g);
          m = (new_module js handle identity)\<lparr>m_factory_side_effect_free := side_effect_free\<rparr>
      in (g\<lparr>gs_modules := gs_modules g @ [m],
            gs_outgoing := fst (index_push [] (gs_outgoing g)),
            gs_incoming := fst (index_push [] (gs_incoming g)),
            gs_by_location := fst (index_push Map.empty (gs_by_location g))\<rparr>, handle))"

definition connect ::
  "nat option \<Rightarrow> nat option \<Rightarrow> nat option \<Rightarrow> dependency \<Rightarrow> nat \<Rightarrow> graph_storage \<Rightarrow> graph_storage option"
where
  "connect origin block index dep m g = do {
     let h = length (gs_connections g);
     let g = g\<lparr>gs_connections := gs_connections g @
       [\<lparr>cn_handle = h, cn_origin = origin, cn_block = block, cn_index = index,
         cn_dependency = dep, cn_resolved = m, cn_module = m, cn_state = Active\<rparr>]\<rparr>;
     g \<leftarrow> (case origin of
         None \<Rightarrow> Some g
       | Some om \<Rightarrow> do {
           out \<leftarrow> vec_modify om (\<lambda>hs. hs @ [h]) (gs_outgoing g);
           let g = g\<lparr>gs_outgoing := out\<rparr>;
           (case index of
              None \<Rightarrow> Some g
            | Some i \<Rightarrow> do {
                loc \<leftarrow> vec_modify om (\<lambda>l. l((block, i) \<mapsto> h)) (gs_by_location g);
                Some (g\<lparr>gs_by_location := loc\<rparr>) }) });
     inc \<leftarrow> vec_modify m (\<lambda>hs. hs @ [h]) (gs_incoming g);
     Some (g\<lparr>gs_incoming := inc\<rparr>) }"

definition finish_module_build ::
  "nat \<Rightarrow> built_content \<Rightarrow> graph_storage \<Rightarrow> error + graph_storage" where
  "finish_module_build h content g =
     (case vec_modify h (finish_build_content content) (gs_modules g) of
        None \<Rightarrow> Inl (MissingModule h)
      | Some ms \<Rightarrow> Inr (g\<lparr>gs_modules := ms\<rparr>))"

definition fail_module ::
  "(json_value \<Rightarrow> string) \<Rightarrow> nat \<Rightarrow> error \<Rightarrow> string \<Rightarrow> graph_storage \<Rightarrow> error + graph_storage" where
  "fail_module js h err source g =
     (case vec_modify h (fail_build js err source) (gs_modules g) of
        None \<Rightarrow> Inl (MissingModule h)
      | Some ms \<Rightarrow> Inr (g\<lparr>gs_modules := ms\<rparr>))"

definition finish :: "graph_storage \<Rightarrow> module_graph" where
  "finish g = \<lparr>gs_modules = gs_modules g, gs_connections = gs_connections g,
     gs_outgoing = gs_outgoing g, gs_incoming = gs_incoming g, gs_by_location = gs_by_location g,
     mg_exports = map (\<lambda>_. default_exports_info) (gs_modules g)\<rparr>"

section \<open>The frozen graph\<close>

definition graph_module :: "('a graph_storage_scheme) \<Rightarrow> nat \<Rightarrow> module_data option" where
  "graph_module g h = vec_get (gs_modules g) h"

definition graph_exports :: "module_graph \<Rightarrow> nat \<Rightarrow> exports_info option" where
  "graph_exports g h = vec_get (mg_exports g) h"

definition modify_exports ::
  "nat \<Rightarrow> (exports_info \<Rightarrow> exports_info) \<Rightarrow> module_graph \<Rightarrow> module_graph option" where
  "modify_exports h f g = do { es \<leftarrow> vec_modify h f (mg_exports g); Some (g\<lparr>mg_exports := es\<rparr>) }"

definition modify_connection ::
  "nat \<Rightarrow> (connection \<Rightarrow> connection) \<Rightarrow> module_graph \<Rightarrow> module_graph option" where
  "modify_connection h f g =
     do { cs \<leftarrow> vec_modify h f (gs_connections g); Some (g\<lparr>gs_connections := cs\<rparr>) }"

definition update_connection_module :: "nat \<Rightarrow> nat \<Rightarrow> module_graph \<Rightarrow> module_graph option" where
  "update_connection_module h m g = do {
     c \<leftarrow> vec_get (gs_connections g) h;
     if cn_module c = m then Some g
     else do {
       inc \<leftarrow> vec_modify (cn_module c) (filter (\<lambda>k. k \<noteq> h)) (gs_incoming g);
       inc \<leftarrow> vec_modify m (\<lambda>hs. hs @ [h]) inc;
       cs \<leftarrow> vec_modify h (\<lambda>c. c\<lparr>cn_module := m\<rparr>) (gs_connections g);
       Some (g\<lparr>gs_incoming := inc, gs_connections := cs\<rparr>) } }"

definition outgoing_connections :: "('a graph_storage_scheme) \<Rightarrow> nat \<Rightarrow> connection list option" where
  "outgoing_connections g m = do {
     hs \<leftarrow> vec_get (gs_outgoing g) m;
     map_opt (vec_get (gs_connections g)) hs }"

definition incoming_connections :: "('a graph_storage_scheme) \<Rightarrow> nat \<Rightarrow> connection list option" where
  "incoming_connections g m = do {
     hs \<leftarrow> vec_get (gs_incoming g) m;
     map_opt (vec_get (gs_connections g)) hs }"

text \<open>The outer option is the panic of the last indexing, the inner one the lookup's.\<close>

definition module_for_dependency ::
  "('a graph_storage_scheme) \<Rightarrow> nat \<Rightarrow> nat option \<Rightarrow> nat \<Rightarrow> nat option option" where
  "module_for_dependency g origin block index =
     (case vec_get (gs_by_location g) origin of
        None \<Rightarrow> Some None
      | Some l \<Rightarrow> (case l (block, index) of
          None \<Rightarrow> Some None
        | Some h \<Rightarrow> do { c \<leftarrow> vec_get (gs_connections g) h; Some (Some (cn_module c)) }))"

section \<open>Well-formedness\<close>

text \<open>
  The handles of a well-formed graph are in range, every connection knows its own handle, and
  the three indices say of the connection list what they cache: the outgoing connections of a
  module in the order they were made, the set of its incoming ones, and for each location the
  latest connection made there.
\<close>

definition at_location :: "connection \<Rightarrow> nat \<Rightarrow> location \<Rightarrow> bool" where
  "at_location c m l \<longleftrightarrow> cn_origin c = Some m \<and> cn_block c = fst l \<and> cn_index c = Some (snd l)"

definition connection_wf :: "nat \<Rightarrow> nat \<Rightarrow> connection \<Rightarrow> bool" where
  "connection_wf n h c \<longleftrightarrow> cn_handle c = h \<and> cn_module c < n \<and> cn_resolved c < n \<and>
     (\<forall>m. cn_origin c = Some m \<longrightarrow> m < n)"

definition graph_wf :: "('a graph_storage_scheme) \<Rightarrow> bool" where
  "graph_wf g \<longleftrightarrow>
     (let n = length (gs_modules g); cs = gs_connections g in
      length (gs_outgoing g) = n \<and> length (gs_incoming g) = n \<and> length (gs_by_location g) = n \<and>
      (\<forall>i < n. m_handle (gs_modules g ! i) = i) \<and>
      (\<forall>h < length cs. connection_wf n h (cs ! h)) \<and>
      (\<forall>m < n. gs_outgoing g ! m = filter (\<lambda>h. cn_origin (cs ! h) = Some m) [0..<length cs]) \<and>
      (\<forall>m < n. distinct (gs_incoming g ! m) \<and>
               set (gs_incoming g ! m) = {h. h < length cs \<and> cn_module (cs ! h) = m}) \<and>
      (\<forall>m < n. \<forall>l. (gs_by_location g ! m) l = find (\<lambda>h. at_location (cs ! h) m l) (rev [0..<length cs])))"

lemma graph_wf_empty: "graph_wf empty_graph"
  by (simp add: graph_wf_def empty_graph_def)

lemma graph_wfD:
  assumes "graph_wf g"
  shows "length (gs_outgoing g) = length (gs_modules g)"
    and "length (gs_incoming g) = length (gs_modules g)"
    and "length (gs_by_location g) = length (gs_modules g)"
    and "h < length (gs_connections g) \<Longrightarrow> connection_wf (length (gs_modules g)) h (gs_connections g ! h)"
  using assms by (simp_all add: graph_wf_def Let_def)

lemma graph_wf_handle: "graph_wf mg \<Longrightarrow> i < length (gs_modules mg) \<Longrightarrow> m_handle (gs_modules mg ! i) = i"
  by (simp add: graph_wf_def Let_def)

lemma graph_wf_target: "graph_wf mg \<Longrightarrow> c \<in> set (gs_connections mg) \<Longrightarrow> cn_module c < length (gs_modules mg)"
  by (auto simp: in_set_conv_nth connection_wf_def dest: graph_wfD(4))

lemma filter_upt_cong_nth:
  "(\<And>h. h < n \<Longrightarrow> P h = Q h) \<Longrightarrow> filter P [0..<n] = filter Q [0..<n]"
  by (rule filter_cong) auto

lemma find_rev_upt_cong:
  "(\<And>h. h < n \<Longrightarrow> P h = Q h) \<Longrightarrow> find P (rev [0..<n]) = find Q (rev [0..<n])"
  by (rule find_cong) auto

lemma graph_wf_add_module:
  assumes wf: "graph_wf g" and add: "add_module js identity sef g = (g', h)"
  shows "graph_wf g' \<and> h = length (gs_modules g) \<and> length (gs_modules g') = Suc h \<and>
    gs_connections g' = gs_connections g \<and> m_identity (gs_modules g' ! h) = identity \<and>
    (\<forall>i < h. gs_modules g' ! i = gs_modules g ! i)"
proof -
  let ?n = "length (gs_modules g)" and ?cs = "gs_connections g"
  from wf have cw: "h < length ?cs \<Longrightarrow> connection_wf ?n h (?cs ! h)" for h by (rule graph_wfD)
  then have o: "h < length ?cs \<Longrightarrow> cn_origin (?cs ! h) \<noteq> Some ?n \<and> cn_module (?cs ! h) \<noteq> ?n" for h
    by (fastforce simp: connection_wf_def)
  have none: "filter (\<lambda>h. cn_origin (?cs ! h) = Some ?n) [0..<length ?cs] = []"
    using o by (auto simp: filter_empty_conv)
  have nloc: "find (\<lambda>h. at_location (?cs ! h) ?n l) (rev [0..<length ?cs]) = None" for l
    using o by (auto simp: find_None_iff at_location_def)
  have ninc: "{h. h < length ?cs \<and> cn_module (?cs ! h) = ?n} = {}" using o by auto
  have cw': "connection_wf (Suc ?n) h c" if "connection_wf ?n h c" for h c
    using that by (auto simp: connection_wf_def)
  from add have g': "g' = fst (add_module js identity sef g)" and "h = ?n"
    by (auto simp: add_module_def Let_def)
  have "graph_wf g'"
    using wf cw' none nloc ninc
    by (auto simp: g' graph_wf_def Let_def add_module_def index_push_def nth_append less_Suc_eq)
  with \<open>h = ?n\<close> show ?thesis
    by (auto simp: g' add_module_def Let_def nth_append)
qed

text \<open>What \<open>connect\<close> returns when the handles are in range.\<close>

lemma connect_defined:
  assumes wf: "graph_wf g" and m: "m < length (gs_modules g)"
    and om: "\<forall>k. origin = Some k \<longrightarrow> k < length (gs_modules g)"
  defines "h \<equiv> length (gs_connections g)"
  shows "connect origin block index dep m g = Some (g\<lparr>
     gs_connections := gs_connections g @
       [\<lparr>cn_handle = h, cn_origin = origin, cn_block = block, cn_index = index,
         cn_dependency = dep, cn_resolved = m, cn_module = m, cn_state = Active\<rparr>],
     gs_outgoing := (case origin of None \<Rightarrow> gs_outgoing g
                     | Some k \<Rightarrow> (gs_outgoing g)[k := gs_outgoing g ! k @ [h]]),
     gs_by_location := (case origin of None \<Rightarrow> gs_by_location g
                     | Some k \<Rightarrow> (case index of None \<Rightarrow> gs_by_location g
                        | Some i \<Rightarrow> (gs_by_location g)[k := (gs_by_location g ! k)((block, i) \<mapsto> h)])),
     gs_incoming := (gs_incoming g)[m := gs_incoming g ! m @ [h]]\<rparr>)"
  using m om graph_wfD(1-3) [OF wf]
  by (cases origin; cases index) (simp_all add: connect_def h_def Let_def)

lemma graph_wf_connect:
  assumes wf: "graph_wf g" and m: "m < length (gs_modules g)"
    and om: "\<forall>k. origin = Some k \<longrightarrow> k < length (gs_modules g)"
  shows "\<exists>g'. connect origin block index dep m g = Some g' \<and> graph_wf g' \<and>
    gs_modules g' = gs_modules g \<and>
    (\<exists>c. gs_connections g' = gs_connections g @ [c] \<and> cn_origin c = origin \<and> cn_module c = m)"
proof -
  let ?n = "length (gs_modules g)" and ?cs = "gs_connections g"
  let ?h = "length ?cs"
  let ?c = "\<lparr>cn_handle = ?h, cn_origin = origin, cn_block = block, cn_index = index,
         cn_dependency = dep, cn_resolved = m, cn_module = m, cn_state = Active\<rparr>"
  obtain g' where g': "connect origin block index dep m g = Some g'"
    and mods: "gs_modules g' = gs_modules g" and conns: "gs_connections g' = ?cs @ [?c]"
    and out: "gs_outgoing g' = (case origin of None \<Rightarrow> gs_outgoing g
                     | Some k \<Rightarrow> (gs_outgoing g)[k := gs_outgoing g ! k @ [?h]])"
    and loc: "gs_by_location g' = (case origin of None \<Rightarrow> gs_by_location g
                     | Some k \<Rightarrow> (case index of None \<Rightarrow> gs_by_location g
                        | Some i \<Rightarrow> (gs_by_location g)[k := (gs_by_location g ! k)((block, i) \<mapsto> ?h)]))"
    and inc: "gs_incoming g' = (gs_incoming g)[m := gs_incoming g ! m @ [?h]]"
    using connect_defined [OF wf m om, of block index dep] by fastforce
  have len: "length (gs_outgoing g') = ?n" "length (gs_incoming g') = ?n" "length (gs_by_location g') = ?n"
    using graph_wfD(1-3) [OF wf] by (auto simp: out inc loc split: option.split)
  have old: "h < ?h \<Longrightarrow> (?cs @ [?c]) ! h = ?cs ! h" for h by (simp add: nth_append)
  have cw: "\<forall>h < Suc ?h. connection_wf ?n h ((?cs @ [?c]) ! h)"
    using graph_wfD(4) [OF wf] m om by (auto simp: nth_append connection_wf_def less_Suc_eq)
  have "gs_outgoing g' ! k = filter (\<lambda>h. cn_origin ((?cs @ [?c]) ! h) = Some k) [0..<Suc ?h]"
    if "k < ?n" for k
  proof -
    have "gs_outgoing g ! k = filter (\<lambda>h. cn_origin ((?cs @ [?c]) ! h) = Some k) [0..<?h]"
      using wf that by (auto simp: graph_wf_def Let_def old intro!: filter_upt_cong_nth)
    with that om graph_wfD(1) [OF wf] show ?thesis
      by (auto simp: out nth_list_update split: option.split)
  qed
  moreover have "distinct (gs_incoming g' ! k) \<and>
      set (gs_incoming g' ! k) = {h. h < Suc ?h \<and> cn_module ((?cs @ [?c]) ! h) = k}" if "k < ?n" for k
    using wf that m by (auto simp: inc graph_wf_def Let_def nth_list_update nth_append less_Suc_eq)
  moreover have "(gs_by_location g' ! k) l = find (\<lambda>h. at_location ((?cs @ [?c]) ! h) k l) (rev [0..<Suc ?h])"
    if "k < ?n" for k l
  proof -
    have "(gs_by_location g ! k) l = find (\<lambda>h. at_location ((?cs @ [?c]) ! h) k l) (rev [0..<?h])"
      using wf that by (cases l) (auto simp: graph_wf_def Let_def old intro!: find_rev_upt_cong)
    with that om graph_wfD(3) [OF wf] show ?thesis
      by (cases l) (auto simp: loc at_location_def nth_list_update split: option.split)
  qed
  moreover have "\<forall>i < ?n. m_handle (gs_modules g ! i) = i" using wf by (simp add: graph_wf_def Let_def)
  ultimately have "graph_wf g'" using len cw by (simp add: graph_wf_def Let_def mods conns)
  with g' mods conns show ?thesis by auto
qed

text \<open>The operations that do not touch the connections.\<close>

lemma graph_wf_cong:
  assumes "graph_wf g" and "gs_connections g' = gs_connections g" and "gs_outgoing g' = gs_outgoing g"
    and "gs_incoming g' = gs_incoming g" and "gs_by_location g' = gs_by_location g"
    and "map m_handle (gs_modules g') = map m_handle (gs_modules g)"
  shows "graph_wf g'"
proof -
  have len: "length (gs_modules g') = length (gs_modules g)" using assms(6) by (rule map_eq_imp_length_eq)
  then have "i < length (gs_modules g) \<Longrightarrow> m_handle (gs_modules g' ! i) = m_handle (gs_modules g ! i)" for i
    using assms(6) by (metis nth_map)
  with assms len show ?thesis by (simp add: graph_wf_def Let_def)
qed

lemma map_handle_update:
  "(\<And>m. m_handle (f m) = m_handle m) \<Longrightarrow> map m_handle (ms[h := f (ms ! h)]) = map m_handle ms"
  by (rule nth_equalityI, simp) (case_tac "i = h", auto)

lemma graph_wf_finish_module_build:
  "graph_wf g \<Longrightarrow> finish_module_build h content g = Inr g' \<Longrightarrow> graph_wf g'"
  by (erule graph_wf_cong)
    (auto simp: finish_module_build_def vec_simps map_handle_update split: option.splits)

lemma graph_wf_fail_module:
  "graph_wf g \<Longrightarrow> fail_module js h err source g = Inr g' \<Longrightarrow> graph_wf g'"
  by (erule graph_wf_cong)
    (auto simp: fail_module_def vec_simps map_handle_update split: option.splits)

lemma graph_wf_finish: "graph_wf g \<Longrightarrow> graph_wf (finish g)"
  by (erule graph_wf_cong) (simp_all add: finish_def)

lemma graph_wf_update_connection_module:
  fixes g :: module_graph
  assumes wf: "graph_wf g" and h: "h < length (gs_connections g)" and m: "m < length (gs_modules g)"
  shows "\<exists>g'. update_connection_module h m g = Some g' \<and> graph_wf g' \<and>
    gs_modules g' = gs_modules g \<and> mg_exports g' = mg_exports g \<and>
    gs_connections g' = (gs_connections g)[h := (gs_connections g ! h)\<lparr>cn_module := m\<rparr>]"
proof (cases "cn_module (gs_connections g ! h) = m")
  case True
  then have "(gs_connections g)[h := (gs_connections g ! h)\<lparr>cn_module := m\<rparr>] = gs_connections g"
    by (simp add: list_update_same_conv [OF h])
  with True wf h show ?thesis by (simp add: update_connection_module_def)
next
  case False
  let ?k = "cn_module (gs_connections g ! h)" and ?n = "length (gs_modules g)"
  let ?cs = "(gs_connections g)[h := (gs_connections g ! h)\<lparr>cn_module := m\<rparr>]"
  let ?inc = "(gs_incoming g)[?k := filter (\<lambda>k. k \<noteq> h) (gs_incoming g ! ?k)]"
  let ?g = "g\<lparr>gs_incoming := ?inc[m := ?inc ! m @ [h]], gs_connections := ?cs\<rparr>"
  from graph_wfD(4) [OF wf h] have k: "?k < ?n" by (simp add: connection_wf_def)
  have upd: "update_connection_module h m g = Some ?g"
    using False h k m graph_wfD(2) [OF wf] by (simp add: update_connection_module_def)
  have old: "cn_origin (?cs ! i) = cn_origin (gs_connections g ! i)"
    "at_location (?cs ! i) a l = at_location (gs_connections g ! i) a l" for i a l
    by (cases "i = h"; simp add: h at_location_def nth_list_update)+
  have cw: "\<forall>i < length ?cs. connection_wf ?n i (?cs ! i)"
  proof (intro allI impI)
    fix i assume "i < length ?cs"
    with graph_wfD(4) [OF wf, of i] m show "connection_wf ?n i (?cs ! i)"
      by (cases "i = h") (auto simp: connection_wf_def)
  qed
  have inc: "distinct (gs_incoming ?g ! a) \<and>
      set (gs_incoming ?g ! a) = {i. i < length ?cs \<and> cn_module (?cs ! i) = a}" if "a < ?n" for a
  proof -
    have "distinct (gs_incoming g ! a)" "distinct (gs_incoming g ! ?k)"
      and sa: "set (gs_incoming g ! a) = {i. i < length (gs_connections g) \<and> cn_module (gs_connections g ! i) = a}"
      and sk: "set (gs_incoming g ! ?k) = {i. i < length (gs_connections g) \<and> cn_module (gs_connections g ! i) = ?k}"
      using wf that k by (simp_all add: graph_wf_def Let_def)
    then show ?thesis
      using that m k False h graph_wfD(2) [OF wf]
      by (cases "a = m"; cases "a = ?k") (auto simp: nth_list_update)
  qed
  have "graph_wf ?g"
    using wf old cw inc by (simp add: graph_wf_def Let_def)
  with upd show ?thesis by simp
qed

section \<open>What the indices answer\<close>

lemma outgoing_connections_spec:
  assumes "graph_wf g" and "m < length (gs_modules g)"
  shows "outgoing_connections g m = Some (filter (\<lambda>c. cn_origin c = Some m) (gs_connections g))"
proof -
  let ?cs = "gs_connections g"
  let ?hs = "filter (\<lambda>h. cn_origin (?cs ! h) = Some m) [0..<length ?cs]"
  have hs: "vec_get (gs_outgoing g) m = Some ?hs"
    using assms by (simp add: graph_wf_def Let_def vec_simps)
  have "map_opt (vec_get ?cs) ?hs = Some (map ((!) ?cs) ?hs)"
    by (rule map_opt_total) (auto simp: vec_simps)
  also have "map ((!) ?cs) ?hs = filter (\<lambda>c. cn_origin c = Some m) (map ((!) ?cs) [0..<length ?cs])"
    by (simp add: filter_map o_def)
  finally show ?thesis using hs by (simp add: outgoing_connections_def map_nth)
qed

lemma incoming_connections_spec:
  assumes "graph_wf g" and "m < length (gs_modules g)"
  shows "\<exists>cs. incoming_connections g m = Some cs \<and> distinct cs \<and>
           set cs = {c \<in> set (gs_connections g). cn_module c = m}"
proof -
  let ?cs = "gs_connections g"
  from assms have hs: "vec_get (gs_incoming g) m = Some (gs_incoming g ! m)"
    and d: "distinct (gs_incoming g ! m)"
    and s: "set (gs_incoming g ! m) = {h. h < length ?cs \<and> cn_module (?cs ! h) = m}"
    by (simp_all add: graph_wf_def Let_def vec_simps)
  have "map_opt (vec_get ?cs) (gs_incoming g ! m) = Some (map ((!) ?cs) (gs_incoming g ! m))"
    by (rule map_opt_total) (auto simp: s vec_simps)
  then have e: "incoming_connections g m = Some (map ((!) ?cs) (gs_incoming g ! m))"
    by (simp add: incoming_connections_def hs)
  have inj: "inj_on ((!) ?cs) (set (gs_incoming g ! m))"
  proof (rule inj_onI)
    fix x y assume xy: "x \<in> set (gs_incoming g ! m)" "y \<in> set (gs_incoming g ! m)"
      and eq: "?cs ! x = ?cs ! y"
    have hd: "cn_handle (?cs ! z) = z" if "z \<in> set (gs_incoming g ! m)" for z
      using that s graph_wfD(4) [OF assms(1), of z] by (simp add: connection_wf_def)
    show "x = y" using hd [OF xy(1)] hd [OF xy(2)] eq by metis
  qed
  have dm: "distinct (map ((!) ?cs) (gs_incoming g ! m))" by (simp add: distinct_map d inj)
  have sm: "set (map ((!) ?cs) (gs_incoming g ! m)) = {c \<in> set ?cs. cn_module c = m}"
    unfolding set_map s by (auto simp: set_conv_nth)
  show ?thesis by (intro exI conjI) (rule e, rule dm, rule sm)
qed

lemma find_map_rev_upt:
  "map_option ((!) cs) (find (\<lambda>h. P (cs ! h)) (rev [0..<length cs])) = find P (rev cs)"
proof -
  have "find P (map ((!) cs) hs) = map_option ((!) cs) (find (\<lambda>h. P (cs ! h)) hs)" for hs
    by (induction hs) auto
  from this [of "rev [0..<length cs]"] show ?thesis by (simp add: map_nth flip: rev_map)
qed

lemma module_for_dependency_spec:
  assumes "graph_wf g"
  shows "module_for_dependency g m block index =
    Some (if m < length (gs_modules g)
          then map_option cn_module (find (\<lambda>c. at_location c m (block, index)) (rev (gs_connections g)))
          else None)"
proof (cases "m < length (gs_modules g)")
  case True
  let ?cs = "gs_connections g"
  let ?P = "\<lambda>c. at_location c m (block, index)"
  have l: "vec_get (gs_by_location g) m = Some (gs_by_location g ! m)"
    and r: "(gs_by_location g ! m) (block, index) = find (\<lambda>h. ?P (?cs ! h)) (rev [0..<length ?cs])"
    using assms True by (auto simp: graph_wf_def Let_def vec_simps)
  show ?thesis
  proof (cases "find (\<lambda>h. ?P (?cs ! h)) (rev [0..<length ?cs])")
    case None
    then have "find ?P (rev ?cs) = None" using find_map_rev_upt [of ?cs ?P] by simp
    with None True l r show ?thesis by (simp add: module_for_dependency_def)
  next
    case (Some h)
    then have h: "h < length ?cs" by (auto simp: find_Some_iff rev_nth)
    from Some have "find ?P (rev ?cs) = Some (?cs ! h)" using find_map_rev_upt [of ?cs ?P] by simp
    with Some True l r h show ?thesis by (simp add: module_for_dependency_def)
  qed
next
  case False
  with graph_wfD(3) [OF assms] show ?thesis
    by (simp add: module_for_dependency_def vec_get_def)
qed

section \<open>The make phase as steps on the graph\<close>

inductive building_step :: "graph_storage \<Rightarrow> graph_storage \<Rightarrow> bool" where
  add: "add_module js identity sef g = (g', h) \<Longrightarrow> building_step g g'"
| conn: "connect origin block index dep m g = Some g' \<Longrightarrow> building_step g g'"
| done_build: "finish_module_build h content g = Inr g' \<Longrightarrow> building_step g g'"
| failed_build: "fail_module js h err source g = Inr g' \<Longrightarrow> building_step g g'"

lemma connect_in_range:
  assumes wf: "graph_wf g" and c: "connect origin block index dep m g = Some g'"
  shows "m < length (gs_modules g) \<and> (\<forall>k. origin = Some k \<longrightarrow> k < length (gs_modules g))"
  using c graph_wfD(1-3) [OF wf]
  by (auto simp: connect_def Let_def bind_simps vec_simps split: option.splits)

lemma building_step_wf: "building_step g g' \<Longrightarrow> graph_wf g \<Longrightarrow> graph_wf g'"
proof (induction rule: building_step.induct)
  case (add js identity sef g g' h)
  then show ?case using graph_wf_add_module by blast
next
  case (conn origin block index dep m g g')
  with connect_in_range graph_wf_connect show ?case by (metis option.inject)
qed (blast intro: graph_wf_finish_module_build graph_wf_fail_module)+

definition built_graph :: "graph_storage \<Rightarrow> bool" where
  "built_graph g \<longleftrightarrow> building_step\<^sup>*\<^sup>* empty_graph g"

lemma built_graph_wf: "built_graph g \<Longrightarrow> graph_wf g"
  unfolding built_graph_def
  by (induction rule: rtranclp_induct) (auto intro: graph_wf_empty building_step_wf)

section \<open>The interface that the later phases use\<close>

text \<open>
  What the passes over the frozen graph rely on: a module in range has outgoing connections,
  and those lead to modules in range.
\<close>

locale connection_view =
  fixes valid :: "'g \<Rightarrow> bool"
    and count :: "'g \<Rightarrow> nat"
    and out :: "'g \<Rightarrow> nat \<Rightarrow> connection list option"
  assumes out_total: "valid g \<Longrightarrow> m < count g \<Longrightarrow> \<exists>cs. out g m = Some cs"
    and out_range: "valid g \<Longrightarrow> m < count g \<Longrightarrow> out g m = Some cs \<Longrightarrow> c \<in> set cs \<Longrightarrow> cn_module c < count g"
begin

text \<open>One module reaches another over connections that satisfy a predicate.\<close>

definition edge :: "'g \<Rightarrow> (connection \<Rightarrow> bool) \<Rightarrow> nat \<Rightarrow> nat \<Rightarrow> bool" where
  "edge g P a b \<longleftrightarrow> (\<exists>cs c. out g a = Some cs \<and> c \<in> set cs \<and> P c \<and> cn_module c = b)"

lemma edge_range: "valid g \<Longrightarrow> a < count g \<Longrightarrow> edge g P a b \<Longrightarrow> b < count g"
  unfolding edge_def using out_range by blast

lemma reach_range: "valid g \<Longrightarrow> a < count g \<Longrightarrow> (edge g P)\<^sup>*\<^sup>* a b \<Longrightarrow> b < count g"
  by (rotate_tac 2, induction rule: rtranclp_induct) (auto intro: edge_range)

lemma edge_mono: "edge g P a b \<Longrightarrow> (\<And>c. P c \<Longrightarrow> Q c) \<Longrightarrow> edge g Q a b"
  unfolding edge_def by blast

end

interpretation view: connection_view graph_wf "\<lambda>g. length (gs_modules g)" outgoing_connections
proof
  fix g :: "'a graph_storage_scheme" and m
  assume "graph_wf g" "m < length (gs_modules g)"
  then show "\<exists>cs. outgoing_connections g m = Some cs" by (simp add: outgoing_connections_spec)
next
  fix g :: "'a graph_storage_scheme" and m cs c
  assume "graph_wf g" "m < length (gs_modules g)" "outgoing_connections g m = Some cs" "c \<in> set cs"
  then have "c \<in> set (gs_connections g)" by (auto simp: outgoing_connections_spec)
  then obtain h where "h < length (gs_connections g)" "gs_connections g ! h = c"
    by (auto simp: in_set_conv_nth)
  with graph_wfD(4) [OF \<open>graph_wf g\<close>] show "cn_module c < length (gs_modules g)"
    by (auto simp: connection_wf_def)
qed

end
