(* ===== verification/Runtime.thy ===== *)
theory Runtime
  imports Prelude
begin

unbundle bit_operations_syntax

text \<open>
  \<open>runtime.rs\<close>: runtime requirements as a persisted 16-bit mask, runtime modules as an 8-bit
  one, and \<open>resolve_runtime_modules\<close>, which closes the requirements under the prerequisites of
  the runtime modules they bring in.
\<close>

section \<open>Requirements\<close>

datatype requirement =
    ModuleFactories | ModuleCache | RequireFn | DefinePropertyGetters | HasOwnProperty
  | MakeNamespaceObject | EnsureChunk | EnsureChunkHandlers | GetChunkFilename
  | ModuleFactoriesAddOnly | ReturnExportsFromRuntime

definition all_requirements :: "requirement list" where
  "all_requirements = [ModuleFactories, ModuleCache, RequireFn, DefinePropertyGetters, HasOwnProperty,
     MakeNamespaceObject, EnsureChunk, EnsureChunkHandlers, GetChunkFilename,
     ModuleFactoriesAddOnly, ReturnExportsFromRuntime]"

fun requirement_bit :: "requirement \<Rightarrow> nat" where
  "requirement_bit ModuleFactories = 0"
| "requirement_bit ModuleCache = 1"
| "requirement_bit RequireFn = 2"
| "requirement_bit DefinePropertyGetters = 3"
| "requirement_bit HasOwnProperty = 4"
| "requirement_bit MakeNamespaceObject = 5"
| "requirement_bit EnsureChunk = 6"
| "requirement_bit GetChunkFilename = 7"
| "requirement_bit ReturnExportsFromRuntime = 8"
| "requirement_bit EnsureChunkHandlers = 9"
| "requirement_bit ModuleFactoriesAddOnly = 10"

definition requirement_mask :: "requirement \<Rightarrow> u16" where
  "requirement_mask r = push_bit (requirement_bit r) 1"

definition valid_mask :: u16 where
  "valid_mask = fold (\<lambda>r mk. mk OR requirement_mask r) all_requirements 0"

type_synonym requirements = u16

definition req_insert :: "requirement \<Rightarrow> requirements \<Rightarrow> requirements \<times> bool" where
  "req_insert r bits = (bits OR requirement_mask r, bits AND requirement_mask r = 0)"

definition req_contains :: "requirements \<Rightarrow> requirement \<Rightarrow> bool" where
  "req_contains bits r \<longleftrightarrow> bits AND requirement_mask r \<noteq> 0"

definition req_extend :: "requirements \<Rightarrow> requirements \<Rightarrow> requirements" where
  "req_extend other bits = bits OR other"

definition req_iter :: "requirements \<Rightarrow> requirement list" where
  "req_iter bits = filter (\<lambda>r. bits AND requirement_mask r \<noteq> 0) all_requirements"

definition req_to_mask :: "requirements \<Rightarrow> u16" where
  "req_to_mask bits = bits"

definition req_from_mask :: "u16 \<Rightarrow> requirements option" where
  "req_from_mask mk = (if mk AND NOT valid_mask \<noteq> 0 then None else Some mk)"

section \<open>Runtime modules\<close>

datatype runtime_stage = StageNormal | StageBasic | StageAttach | StageTrigger

definition stage_order :: "runtime_stage list" where
  "stage_order = [StageNormal, StageBasic, StageAttach, StageTrigger]"

datatype runtime_module =
    RM_DefinePropertyGetters | RM_EnsureChunk | RM_GetChunkFilename | RM_HasOwnProperty
  | RM_MakeNamespaceObject | RM_ModuleFactoriesAddOnly | RM_RequireChunkLoading

definition all_runtime_modules :: "runtime_module list" where
  "all_runtime_modules = [RM_DefinePropertyGetters, RM_GetChunkFilename, RM_HasOwnProperty,
     RM_MakeNamespaceObject, RM_ModuleFactoriesAddOnly, RM_EnsureChunk, RM_RequireChunkLoading]"

fun runtime_module_bit :: "runtime_module \<Rightarrow> nat" where
  "runtime_module_bit RM_DefinePropertyGetters = 0"
| "runtime_module_bit RM_EnsureChunk = 1"
| "runtime_module_bit RM_GetChunkFilename = 2"
| "runtime_module_bit RM_HasOwnProperty = 3"
| "runtime_module_bit RM_MakeNamespaceObject = 4"
| "runtime_module_bit RM_ModuleFactoriesAddOnly = 5"
| "runtime_module_bit RM_RequireChunkLoading = 6"

definition runtime_module_mask :: "runtime_module \<Rightarrow> u8" where
  "runtime_module_mask m = push_bit (runtime_module_bit m) 1"

definition rm_insert :: "runtime_module \<Rightarrow> u8 \<Rightarrow> u8 \<times> bool" where
  "rm_insert m bits = (bits OR runtime_module_mask m, bits AND runtime_module_mask m = 0)"

definition rm_iter :: "u8 \<Rightarrow> runtime_module list" where
  "rm_iter bits = filter (\<lambda>m. bits AND runtime_module_mask m \<noteq> 0) all_runtime_modules"

fun runtime_module_identifier :: "runtime_module \<Rightarrow> string" where
  "runtime_module_identifier RM_DefinePropertyGetters = ''webpack/runtime/define property getters''"
| "runtime_module_identifier RM_EnsureChunk = ''webpack/runtime/ensure chunk''"
| "runtime_module_identifier RM_GetChunkFilename = ''webpack/runtime/get javascript chunk filename''"
| "runtime_module_identifier RM_HasOwnProperty = ''webpack/runtime/hasOwnProperty shorthand''"
| "runtime_module_identifier RM_MakeNamespaceObject = ''webpack/runtime/make namespace object''"
| "runtime_module_identifier RM_ModuleFactoriesAddOnly = ''webpack/runtime/module factories add only''"
| "runtime_module_identifier RM_RequireChunkLoading = ''webpack/runtime/require chunk loading''"

fun runtime_stage_of :: "runtime_module \<Rightarrow> runtime_stage" where
  "runtime_stage_of RM_EnsureChunk = StageBasic"
| "runtime_stage_of RM_RequireChunkLoading = StageAttach"
| "runtime_stage_of _ = StageNormal"

fun prerequisites :: "runtime_module \<Rightarrow> requirement list" where
  "prerequisites RM_DefinePropertyGetters = [HasOwnProperty]"
| "prerequisites RM_EnsureChunk = [EnsureChunkHandlers]"
| "prerequisites RM_RequireChunkLoading = [GetChunkFilename, ModuleFactoriesAddOnly, HasOwnProperty]"
| "prerequisites _ = []"

fun runtime_module_for :: "requirement \<Rightarrow> runtime_module option" where
  "runtime_module_for DefinePropertyGetters = Some RM_DefinePropertyGetters"
| "runtime_module_for HasOwnProperty = Some RM_HasOwnProperty"
| "runtime_module_for MakeNamespaceObject = Some RM_MakeNamespaceObject"
| "runtime_module_for EnsureChunk = Some RM_EnsureChunk"
| "runtime_module_for EnsureChunkHandlers = Some RM_RequireChunkLoading"
| "runtime_module_for GetChunkFilename = Some RM_GetChunkFilename"
| "runtime_module_for ModuleFactoriesAddOnly = Some RM_ModuleFactoriesAddOnly"
| "runtime_module_for _ = None"

section \<open>Resolution\<close>

definition resolve_step :: "requirement \<Rightarrow> requirements \<times> u8 \<Rightarrow> requirements \<times> u8" where
  "resolve_step r s =
     (case runtime_module_for r of
        None \<Rightarrow> s
      | Some m \<Rightarrow> (fold (\<lambda>p bits. fst (req_insert p bits)) (prerequisites m) (fst s),
                   fst (rm_insert m (snd s))))"

definition resolve_round :: "requirements \<times> u8 \<Rightarrow> requirements \<times> u8" where
  "resolve_round s = fold resolve_step (req_iter (fst s)) s"

text \<open>The third component of the loop's state says that the last round changed the requirements.\<close>

definition resolve_loop :: "requirements \<Rightarrow> (requirements \<times> u8 \<times> bool) option" where
  "resolve_loop direct = loop_opt (\<lambda>(_, _, again). again)
     (\<lambda>(rs, ms, _). let (rs', ms') = resolve_round (rs, ms) in Some (rs', ms', rs' \<noteq> rs))
     (direct, 0, True)"

fun list_position :: "'a \<Rightarrow> 'a list \<Rightarrow> nat" where
  "list_position x [] = 0"
| "list_position x (y # ys) = (if x = y then 0 else Suc (list_position x ys))"

definition stage_key :: "runtime_module \<Rightarrow> nat \<times> string" where
  "stage_key m = (list_position (runtime_stage_of m) stage_order, runtime_module_identifier m)"

definition resolve_runtime_modules :: "requirements \<Rightarrow> (requirements \<times> runtime_module list) option" where
  "resolve_runtime_modules direct = do {
     (rs, ms, _) \<leftarrow> resolve_loop direct;
     Some (rs, sort_key stage_key (rm_iter ms)) }"

definition entry_startup_requirements :: requirements where
  "entry_startup_requirements =
     fst (req_insert ReturnExportsFromRuntime (fst (req_insert RequireFn
       (fst (req_insert ModuleCache (fst (req_insert ModuleFactories 0)))))))"

section \<open>The masks are sets\<close>

definition req_set :: "requirements \<Rightarrow> requirement set" where
  "req_set bits = {r. req_contains bits r}"

definition rm_set :: "u8 \<Rightarrow> runtime_module set" where
  "rm_set bits = {m. bits AND runtime_module_mask m \<noteq> 0}"

lemma and_single_bit: "i < LENGTH('a) \<Longrightarrow> (w :: 'a::len word) AND push_bit i 1 \<noteq> 0 \<longleftrightarrow> bit w i"
proof -
  assume i: "i < LENGTH('a)"
  have b: "bit (push_bit i (1 :: 'a word)) j \<longleftrightarrow> j = i" for j
    unfolding bit_push_bit_iff using i by (auto simp: bit_1_iff)
  have "w AND push_bit i 1 = (if bit w i then push_bit i 1 else 0)"
    by (rule bit_eqI) (auto simp: bit_and_iff b simp del: push_bit_of_1)
  moreover have "push_bit i (1 :: 'a word) \<noteq> 0" using b [of i] by (metis bit_0_eq bot_apply bot_bool_def)
  ultimately show ?thesis by auto
qed

lemma requirement_bit_less: "requirement_bit r < 11"
  by (cases r) auto

lemma requirement_bit_inject: "requirement_bit r = requirement_bit q \<longleftrightarrow> r = q"
  by (cases r; cases q) auto

lemma runtime_module_bit_less: "runtime_module_bit m < 7"
  by (cases m) auto

lemma runtime_module_bit_inject: "runtime_module_bit m = runtime_module_bit n \<longleftrightarrow> m = n"
  by (cases m; cases n) auto

lemma req_set_bit: "r \<in> req_set bits \<longleftrightarrow> bit bits (requirement_bit r)"
  using requirement_bit_less [of r]
  by (simp add: req_set_def req_contains_def requirement_mask_def and_single_bit del: push_bit_of_1)

lemma rm_set_bit: "m \<in> rm_set bits \<longleftrightarrow> bit bits (runtime_module_bit m)"
  using runtime_module_bit_less [of m]
  by (simp add: rm_set_def runtime_module_mask_def and_single_bit del: push_bit_of_1)

lemma bit_requirement_mask: "bit (requirement_mask r) i \<longleftrightarrow> i = requirement_bit r"
  unfolding requirement_mask_def bit_push_bit_iff using requirement_bit_less [of r]
  by (auto simp: bit_1_iff)

lemma bit_runtime_module_mask: "bit (runtime_module_mask m) i \<longleftrightarrow> i = runtime_module_bit m"
  unfolding runtime_module_mask_def bit_push_bit_iff using runtime_module_bit_less [of m]
  by (auto simp: bit_1_iff)

lemma UNIV_requirement: "(UNIV :: requirement set) = set all_requirements"
proof -
  have "r \<in> set all_requirements" for r by (cases r) (simp_all add: all_requirements_def)
  then show ?thesis by blast
qed

lemma UNIV_runtime_module: "(UNIV :: runtime_module set) = set all_runtime_modules"
proof -
  have "m \<in> set all_runtime_modules" for m by (cases m) (simp_all add: all_runtime_modules_def)
  then show ?thesis by blast
qed

lemma set_req_iter: "set (req_iter bits) = req_set bits"
  using UNIV_requirement by (auto simp: req_iter_def req_set_def req_contains_def)

lemma set_rm_iter: "set (rm_iter bits) = rm_set bits"
  using UNIV_runtime_module by (auto simp: rm_iter_def rm_set_def)

lemma req_set_insert: "req_set (fst (req_insert r bits)) = insert r (req_set bits)"
  by (auto simp: req_set_bit req_insert_def bit_or_iff bit_requirement_mask requirement_bit_inject)

lemma req_set_extend: "req_set (req_extend a b) = req_set a \<union> req_set b"
  by (auto simp: req_set_bit req_extend_def bit_or_iff)

lemma req_set_zero [simp]: "req_set 0 = {}"
  by (auto simp: req_set_bit)

lemma rm_set_zero [simp]: "rm_set 0 = {}"
  by (auto simp: rm_set_bit)

lemma rm_set_insert: "rm_set (fst (rm_insert m bits)) = insert m (rm_set bits)"
  by (auto simp: rm_set_bit rm_insert_def bit_or_iff bit_runtime_module_mask runtime_module_bit_inject)

lemma req_set_fold_insert:
  "req_set (fold (\<lambda>p bits. fst (req_insert p bits)) ps bits) = set ps \<union> req_set bits"
  by (induction ps arbitrary: bits) (auto simp: req_set_insert)

section \<open>The persisted mask\<close>

lemma bit_valid_mask: "bit valid_mask i \<longleftrightarrow> (\<exists>r. i = requirement_bit r)"
proof -
  have "bit (fold (\<lambda>r mk. mk OR requirement_mask r) rs b) i \<longleftrightarrow>
      bit b i \<or> (\<exists>r \<in> set rs. i = requirement_bit r)" for rs b
    by (induction rs arbitrary: b) (auto simp: bit_or_iff bit_requirement_mask)
  from this [of all_requirements 0] UNIV_requirement show ?thesis
    by (auto simp: valid_mask_def)
qed

text \<open>The masks that only hold bits of requirements: those the code builds, and those it reads back.\<close>

definition req_valid :: "requirements \<Rightarrow> bool" where
  "req_valid bits \<longleftrightarrow> bits AND NOT valid_mask = 0"

lemma req_valid_bits: "req_valid bits \<longleftrightarrow> (\<forall>i. bit bits i \<longrightarrow> (\<exists>r. i = requirement_bit r))"
proof -
  have "req_valid bits \<longleftrightarrow> (\<forall>i. \<not> bit (bits AND NOT valid_mask) i)"
    unfolding req_valid_def by (metis bit_0_eq bot_apply bot_bool_def bit_eq_iff)
  moreover have "bit bits i \<Longrightarrow> i < 16" for i using bit_imp_le_length [of bits i] by simp
  ultimately show ?thesis by (auto simp: bit_and_iff bit_not_iff bit_valid_mask)
qed

lemma req_valid_requirement_mask [simp]: "req_valid (requirement_mask r)"
  unfolding req_valid_bits bit_requirement_mask by blast

lemma req_from_mask_iff: "req_from_mask mk = Some bits \<longleftrightarrow> req_valid mk \<and> bits = mk"
  by (auto simp: req_from_mask_def req_valid_def)

lemma req_set_inject:
  assumes "req_valid a" and "req_valid b"
  shows "req_set a = req_set b \<longleftrightarrow> a = b"
proof
  assume "req_set a = req_set b"
  then have *: "bit a (requirement_bit r) = bit b (requirement_bit r)" for r
    using req_set_bit by blast
  show "a = b"
  proof (rule bit_eqI)
    fix i show "bit a i = bit b i" using assms * by (metis req_valid_bits)
  qed
qed simp

lemma req_valid_insert: "req_valid bits \<Longrightarrow> req_valid (fst (req_insert r bits))"
  by (auto simp: req_valid_bits req_insert_def bit_or_iff bit_requirement_mask)

lemma req_valid_extend: "req_valid a \<Longrightarrow> req_valid b \<Longrightarrow> req_valid (req_extend a b)"
  by (auto simp: req_valid_bits req_extend_def bit_or_iff)

lemma req_valid_zero [simp]: "req_valid 0"
  by (simp add: req_valid_def)

lemma req_valid_fold_insert:
  "req_valid bits \<Longrightarrow> req_valid (fold (\<lambda>p bits. fst (req_insert p bits)) ps bits)"
  by (induction ps arbitrary: bits) (auto intro: req_valid_insert)

section \<open>Resolution closes the requirements\<close>

text \<open>What a set of direct requirements needs: the prerequisites of the runtime modules it uses.\<close>

inductive_set needed :: "requirement set \<Rightarrow> requirement set" for R where
  direct: "r \<in> R \<Longrightarrow> r \<in> needed R"
| prereq: "q \<in> needed R \<Longrightarrow> runtime_module_for q = Some m \<Longrightarrow> r \<in> set (prerequisites m) \<Longrightarrow> r \<in> needed R"

lemma needed_least:
  assumes "R \<subseteq> S" and "\<And>q m r. q \<in> S \<Longrightarrow> runtime_module_for q = Some m \<Longrightarrow> r \<in> set (prerequisites m) \<Longrightarrow> r \<in> S"
  shows "needed R \<subseteq> S"
proof
  fix r assume "r \<in> needed R" then show "r \<in> S" by induction (use assms in auto)
qed

text \<open>The runtime modules of a set of requirements, and what one round adds.\<close>

definition modules_of :: "requirement set \<Rightarrow> runtime_module set" where
  "modules_of R = {m. \<exists>r \<in> R. runtime_module_for r = Some m}"

lemma fold_resolve_step:
  "req_set (fst (fold resolve_step rs s)) =
     req_set (fst s) \<union> (\<Union>m \<in> modules_of (set rs). set (prerequisites m)) \<and>
   rm_set (snd (fold resolve_step rs s)) = rm_set (snd s) \<union> modules_of (set rs) \<and>
   (req_valid (fst s) \<longrightarrow> req_valid (fst (fold resolve_step rs s)))"
proof (induction rs arbitrary: s)
  case Nil
  then show ?case by (simp add: modules_of_def)
next
  case (Cons r rs)
  show ?case
  proof (cases "runtime_module_for r")
    case None
    then have "resolve_step r s = s" "modules_of (set (r # rs)) = modules_of (set rs)"
      by (auto simp: resolve_step_def modules_of_def)
    with Cons.IH show ?thesis by simp
  next
    case (Some m)
    then have "modules_of (set (r # rs)) = insert m (modules_of (set rs))"
      by (auto simp: modules_of_def)
    moreover have "req_set (fst (resolve_step r s)) = set (prerequisites m) \<union> req_set (fst s)"
      "rm_set (snd (resolve_step r s)) = insert m (rm_set (snd s))"
      "req_valid (fst s) \<longrightarrow> req_valid (fst (resolve_step r s))"
      by (simp_all add: resolve_step_def Some req_set_fold_insert rm_set_insert req_valid_fold_insert)
    ultimately show ?thesis using Cons.IH [of "resolve_step r s"] by auto
  qed
qed

definition resolve_invariant :: "requirements \<Rightarrow> requirements \<times> u8 \<times> bool \<Rightarrow> bool" where
  "resolve_invariant direct s \<longleftrightarrow> (case s of (rs, ms, again) \<Rightarrow>
     req_valid rs \<and> req_set direct \<subseteq> req_set rs \<and> req_set rs \<subseteq> needed (req_set direct) \<and>
     rm_set ms \<subseteq> modules_of (req_set rs) \<and>
     (\<not> again \<longrightarrow> modules_of (req_set rs) \<subseteq> rm_set ms \<and>
        (\<forall>m \<in> modules_of (req_set rs). set (prerequisites m) \<subseteq> req_set rs)))"

definition resolve_order :: "((requirements \<times> u8 \<times> bool) \<times> (requirements \<times> u8 \<times> bool)) set" where
  "resolve_order = measures [\<lambda>(rs, _, _). card (- req_set rs), \<lambda>(_, _, again). of_bool again]"

lemma finite_requirement [simp]: "finite (A :: requirement set)"
  by (rule finite_subset [OF subset_UNIV]) (simp add: UNIV_requirement)

lemma resolve_round_step:
  assumes inv: "resolve_invariant direct (rs, ms, again)" and round: "resolve_round (rs, ms) = (rs', ms')"
  shows "resolve_invariant direct (rs', ms', rs' \<noteq> rs) \<and>
         (again \<longrightarrow> ((rs', ms', rs' \<noteq> rs), (rs, ms, again)) \<in> resolve_order)"
proof -
  let ?M = "modules_of (req_set rs)"
  have rs': "req_set rs' = req_set rs \<union> (\<Union>m \<in> ?M. set (prerequisites m))"
    and ms': "rm_set ms' = rm_set ms \<union> ?M" and val: "req_valid rs'"
    using fold_resolve_step [of "req_iter rs" "(rs, ms)"] round inv
    by (simp_all add: resolve_round_def set_req_iter resolve_invariant_def)
  have sub: "req_set rs' \<subseteq> needed (req_set direct)"
    using inv by (auto simp: rs' resolve_invariant_def modules_of_def intro: needed.prereq)
  have mono: "?M \<subseteq> modules_of (req_set rs')" by (auto simp: rs' modules_of_def)
  have "resolve_invariant direct (rs', ms', rs' \<noteq> rs)"
    using inv val sub mono rs' ms' by (fastforce simp: resolve_invariant_def)
  moreover have "((rs', ms', rs' \<noteq> rs), (rs, ms, True)) \<in> resolve_order"
  proof (cases "rs' = rs")
    case True
    then show ?thesis by (simp add: resolve_order_def)
  next
    case False
    with val inv have "req_set rs' \<noteq> req_set rs" by (simp add: req_set_inject resolve_invariant_def)
    with rs' have "- req_set rs' \<subset> - req_set rs" by blast
    then have "card (- req_set rs') < card (- req_set rs)" by (intro psubset_card_mono) simp_all
    then show ?thesis by (simp add: resolve_order_def)
  qed
  ultimately show ?thesis by (cases again) simp_all
qed

lemma resolve_loop_spec:
  assumes "req_valid direct"
  shows "\<exists>rs ms. resolve_loop direct = Some (rs, ms, False) \<and> req_valid rs \<and>
           req_set rs = needed (req_set direct) \<and> rm_set ms = modules_of (needed (req_set direct))"
proof -
  let ?P = "resolve_invariant direct"
  let ?c = "\<lambda>(rs, ms, _). let (rs', ms') = resolve_round (rs, ms) in Some (rs', ms', rs' \<noteq> rs)"
  have "\<exists>t. loop_opt (\<lambda>(_, _, again). again) ?c (direct, 0, True) = Some t \<and> ?P t \<and> \<not> (\<lambda>(_, _, again). again) t"
  proof (rule loop_opt_rule [where r = resolve_order])
    show "?P (direct, 0, True)" using assms by (auto simp: resolve_invariant_def intro: needed.direct)
    show "wf resolve_order" by (simp add: resolve_order_def)
    fix s assume "?P s" "(\<lambda>(_, _, again). again) s"
    moreover obtain rs ms again where s: "s = (rs, ms, again)" by (cases s)
    moreover obtain rs' ms' where "resolve_round (rs, ms) = (rs', ms')" by fastforce
    ultimately show "\<exists>t. ?c s = Some t \<and> ?P t \<and> (t, s) \<in> resolve_order"
      using resolve_round_step [of direct rs ms again rs' ms'] by simp
  qed
  then obtain rs ms where res: "resolve_loop direct = Some (rs, ms, False)" and inv: "?P (rs, ms, False)"
    by (auto simp: resolve_loop_def)
  have "needed (req_set direct) \<subseteq> req_set rs"
  proof (rule needed_least)
    show "req_set direct \<subseteq> req_set rs" using inv by (simp add: resolve_invariant_def)
    fix q m r assume "q \<in> req_set rs" "runtime_module_for q = Some m" "r \<in> set (prerequisites m)"
    with inv show "r \<in> req_set rs" by (auto simp: resolve_invariant_def modules_of_def)
  qed
  with inv have "req_set rs = needed (req_set direct)" by (auto simp: resolve_invariant_def)
  with res inv show ?thesis by (auto simp: resolve_invariant_def)
qed

lemma runtime_module_identifier_inject:
  "runtime_module_identifier m = runtime_module_identifier n \<longleftrightarrow> m = n"
  by (cases m; cases n; simp)

lemma distinct_rm_iter: "distinct (rm_iter bits)"
  by (simp add: rm_iter_def all_runtime_modules_def)

lemma req_valid_entry_startup: "req_valid entry_startup_requirements"
  by (simp add: entry_startup_requirements_def req_valid_insert)

lemma resolve_runtime_modules_total:
  assumes "req_valid direct"
  shows "\<exists>rs ms. resolve_runtime_modules direct = Some (rs, ms) \<and> req_valid rs \<and>
     req_set rs = needed (req_set direct) \<and> set ms = modules_of (needed (req_set direct)) \<and>
     distinct ms \<and> sorted (map stage_key ms)"
  using resolve_loop_spec [OF assms]
  by (auto simp: resolve_runtime_modules_def set_rm_iter distinct_rm_iter)

end
