(* ===== verification/Render_Ids.thy ===== *)
theory Render_Ids
  imports Stable_Hash "HOL-Library.Multiset"
begin

unbundle bit_operations_syntax

text \<open>
  The naming core of \<open>id_assignment.rs\<close>: \<open>RenderId\<close>, and \<open>assign_named_ids_with_reserved\<close>, which
  gives every module or chunk an identifier that no other one has.  Numbers are written in
  decimal, hash suffixes as six hexadecimal digits; a counter that would leave \<open>u32\<close> panics.
\<close>

section \<open>Numbers as text\<close>

definition digit_char :: "nat \<Rightarrow> char" where
  "digit_char d = (if d < 10 then char_of (48 + d) else char_of (87 + d))"

fun decimal :: "nat \<Rightarrow> string" where
  "decimal n = (if n < 10 then [digit_char n] else decimal (n div 10) @ [digit_char (n mod 10)])"

declare decimal.simps [simp del]

definition hex6 :: "nat \<Rightarrow> string" where
  "hex6 n = map (\<lambda>i. digit_char (n div 16 ^ (5 - i) mod 16)) [0..<6]"

lemma digit_char_inject:
  "c < 16 \<Longrightarrow> d < 16 \<Longrightarrow> digit_char c = digit_char d \<longleftrightarrow> c = d"
proof
  assume b: "c < 16" "d < 16" and e: "digit_char c = digit_char d"
  then have "(of_char (digit_char c) :: nat) = of_char (digit_char d)" by simp
  with b show "c = d" by (simp add: digit_char_def split: if_splits)
qed simp

lemma decimal_not_Nil [simp]: "decimal n \<noteq> []" "[] \<noteq> decimal n"
  by (subst decimal.simps; simp)+

lemma decimal_inject: "decimal m = decimal n \<longleftrightarrow> m = n"
proof
  assume "decimal m = decimal n"
  then show "m = n"
  proof (induction m arbitrary: n rule: less_induct)
    case (less m)
    show ?case
    proof (cases "m < 10")
      case True
      with less.prems have "[digit_char m] = decimal n" by (simp add: decimal.simps [of m])
      with True show ?thesis
        by (cases "n < 10") (simp_all add: decimal.simps [of n] digit_char_inject)
    next
      case False
      with less.prems have eq: "decimal (m div 10) @ [digit_char (m mod 10)] = decimal n"
        by (simp add: decimal.simps [of m])
      with False have n: "\<not> n < 10" by (auto simp: decimal.simps [of n] Cons_eq_append_conv)
      with eq have "decimal (m div 10) = decimal (n div 10)" and "digit_char (m mod 10) = digit_char (n mod 10)"
        by (simp_all add: decimal.simps [of n])
      then have "m div 10 = n div 10" "m mod 10 = n mod 10"
        using False less.IH [of "m div 10" "n div 10"] by (simp_all add: digit_char_inject)
      then show ?thesis by (metis mod_mult_div_eq)
    qed
  qed
qed simp

section \<open>Render identifiers\<close>

datatype render_id = RString string | RNumber nat

fun rid_as_string :: "render_id \<Rightarrow> string option" where
  "rid_as_string (RString s) = Some s"
| "rid_as_string (RNumber _) = None"

fun rid_as_number :: "render_id \<Rightarrow> nat option" where
  "rid_as_number (RString _) = None"
| "rid_as_number (RNumber n) = Some n"

fun rid_display :: "render_id \<Rightarrow> string" where
  "rid_display (RString s) = s"
| "rid_display (RNumber n) = decimal n"

fun rid_key :: "render_id \<Rightarrow> nat \<times> string \<times> nat" where
  "rid_key (RString s) = (0, s, 0)"
| "rid_key (RNumber n) = (1, '''', n)"

lemma rid_key_inject [simp]: "rid_key a = rid_key b \<longleftrightarrow> a = b"
  by (cases a; cases b) auto

instantiation render_id :: linorder
begin

definition less_eq_render_id :: "render_id \<Rightarrow> render_id \<Rightarrow> bool" where
  "less_eq_render_id a b \<longleftrightarrow> rid_key a \<le> rid_key b"

definition less_render_id :: "render_id \<Rightarrow> render_id \<Rightarrow> bool" where
  "less_render_id a b \<longleftrightarrow> rid_key a < rid_key b"

instance
  by standard (auto simp: less_eq_render_id_def less_render_id_def less_le_not_le
      simp flip: rid_key_inject intro: antisym)

end

section \<open>Ordered maps of vectors\<close>

text \<open>\<open>BTreeMap::entry(k).or_default().push(v)\<close>, the map being its sorted association list.\<close>

fun btree_push :: "'k::linorder \<Rightarrow> 'v \<Rightarrow> ('k \<times> 'v list) list \<Rightarrow> ('k \<times> 'v list) list" where
  "btree_push k v [] = [(k, [v])]"
| "btree_push k v ((k', vs) # m) =
     (if k < k' then (k, [v]) # (k', vs) # m
      else if k = k' then (k', vs @ [v]) # m
      else (k', vs) # btree_push k v m)"

definition btree_groups :: "('k::linorder \<times> 'v) list \<Rightarrow> ('k \<times> 'v list) list" where
  "btree_groups kvs = fold (\<lambda>(k, v). btree_push k v) kvs []"

lemma keys_btree_push: "set (map fst (btree_push k v m)) = insert k (set (map fst m))"
  by (induction k v m rule: btree_push.induct) auto

lemma sorted_btree_push:
  "sorted_wrt (<) (map fst m) \<Longrightarrow> sorted_wrt (<) (map fst (btree_push k v m))"
proof (induction k v m rule: btree_push.induct)
  case (2 k v k' vs m)
  have "set (map fst (btree_push k v m)) = insert k (set (map fst m))" by (rule keys_btree_push)
  with 2 show ?case by (auto simp del: set_map)
qed simp

lemma map_of_btree_push:
  "sorted_wrt (<) (map fst m) \<Longrightarrow>
   map_of (btree_push k v m) j =
     (if j = k then Some (case map_of m k of Some vs \<Rightarrow> vs @ [v] | None \<Rightarrow> [v]) else map_of m j)"
proof (induction k v m rule: btree_push.induct)
  case (2 k v k' vs m)
  have "k < k' \<Longrightarrow> map_of m k = None"
    using 2(2) by (force simp: map_of_eq_None_iff)
  with 2 show ?case by auto
qed simp

lemma btree_groups_spec:
  "sorted_wrt (<) (map fst (btree_groups kvs)) \<and>
   map_of (btree_groups kvs) = (\<lambda>k. if k \<in> fst ` set kvs
      then Some (map snd (filter (\<lambda>kv. fst kv = k) kvs)) else None)"
proof -
  have *: "sorted_wrt (<) (map fst (fold (\<lambda>(k, v). btree_push k v) kvs m)) \<and>
    map_of (fold (\<lambda>(k, v). btree_push k v) kvs m) = (\<lambda>k. if k \<in> fst ` set kvs
      then Some ((case map_of m k of Some vs \<Rightarrow> vs | None \<Rightarrow> []) @ map snd (filter (\<lambda>kv. fst kv = k) kvs))
      else map_of m k)"
    if "sorted_wrt (<) (map fst m)" for m
    using that
  proof (induction kvs arbitrary: m)
    case Nil
    then show ?case by simp
  next
    case (Cons kv kvs)
    obtain k v where kv: "kv = (k, v)" by (cases kv)
    from Cons.IH [OF sorted_btree_push [OF Cons.prems, of k v]] show ?case
      by (auto simp: kv map_of_btree_push [OF Cons.prems] fun_eq_iff filter_empty_conv split: option.split)
  qed
  from * [of "[]"] show ?thesis by (simp add: btree_groups_def fun_eq_iff)
qed

section \<open>Assigning names\<close>

text \<open>\<open>NamedIdCandidate\<close>: the item, its short and its full name.\<close>

type_synonym 'k candidate = "'k \<times> string \<times> string"

text \<open>
  \<open>while !used.insert(name.clone()) { name = format!("{base}-{index}"); index += 1; }\<close>: the name
  found, not yet in \<open>used\<close>.  The counter is a \<open>u32\<close>.
\<close>

definition fresh_name :: "string set \<Rightarrow> string \<Rightarrow> string option" where
  "fresh_name used base = map_option fst (loop_opt (\<lambda>(name, index). name \<in> used)
     (\<lambda>(name, index). if index + 1 < 2 ^ 32 then Some (base @ ''-'' @ decimal index, index + 1) else None)
     (base, 0 :: nat))"

text \<open>\<open>while used.contains(&next.to_string()) { next += 1; }\<close>.\<close>

definition next_number :: "string set \<Rightarrow> nat \<Rightarrow> nat option" where
  "next_number used next = loop_opt (\<lambda>n. decimal n \<in> used)
     (\<lambda>n. if n + 1 < 2 ^ 32 then Some (n + 1) else None) next"

definition suffixed_base :: "string \<Rightarrow> string \<Rightarrow> string" where
  "suffixed_base short full = short @ ''-'' @ hex6 (unat (stable_hash (hb_str full) AND 0xffffff))"

type_synonym 'k naming = "string set \<times> ('k \<times> render_id) list"

definition assign_suffixed :: "string \<Rightarrow> ('k \<times> string) \<Rightarrow> 'k naming \<Rightarrow> 'k naming option" where
  "assign_suffixed short = (\<lambda>(item, full) (used, assigned). do {
     name \<leftarrow> fresh_name used (suffixed_base short full);
     Some (insert name used, assigned @ [(item, RString name)]) })"

definition sort_items :: "('k::linorder \<times> string) list \<Rightarrow> ('k \<times> string) list" where
  "sort_items = sort_key (\<lambda>(item, name). (name, item))"

text \<open>One group of candidates with the same short name; unnamed ones are collected.\<close>

definition assign_group ::
  "string \<times> ('k::linorder \<times> string) list \<Rightarrow> 'k naming \<times> ('k \<times> string) list \<Rightarrow>
   ('k naming \<times> ('k \<times> string) list) option" where
  "assign_group = (\<lambda>(short, items) ((used, assigned), unnamed).
     let items = sort_items items in
     if short = '''' then Some ((used, assigned), unnamed @ items)
     else if length items = 1 \<and> short \<notin> used then
       Some ((insert short used, assigned @ [(fst (hd items), RString short)]), unnamed)
     else map_option (\<lambda>n. (n, unnamed)) (fold_opt (assign_suffixed short) items (used, assigned)))"

definition assign_number ::
  "'k \<times> string \<Rightarrow> 'k naming \<times> nat \<Rightarrow> ('k naming \<times> nat) option" where
  "assign_number = (\<lambda>(item, _) ((used, assigned), next). do {
     n \<leftarrow> next_number used next;
     if n + 1 < 2 ^ 32
     then Some ((insert (decimal n) used, assigned @ [(item, RNumber n)]), n + 1)
     else None })"

definition assign_named_ids_with_reserved ::
  "'k::linorder candidate list \<Rightarrow> string set \<Rightarrow> ('k \<times> render_id) list option" where
  "assign_named_ids_with_reserved candidates used = do {
     let groups = btree_groups (map (\<lambda>(item, short, full). (short, (item, full))) candidates);
     (naming, unnamed) \<leftarrow> fold_opt assign_group groups ((used, []), []);
     ((_, assigned), _) \<leftarrow> fold_opt assign_number (sort_items unnamed) (naming, 0);
     Some (sort_key fst assigned) }"

definition assign_named_ids :: "'k::linorder candidate list \<Rightarrow> ('k \<times> render_id) list option" where
  "assign_named_ids candidates = assign_named_ids_with_reserved candidates {}"

section \<open>The search loops end\<close>

lemma fresh_name_total:
  assumes fin: "finite used" and small: "card used + 1 < 2 ^ 32"
  shows "\<exists>name. fresh_name used base = Some name \<and> name \<notin> used"
proof -
  let ?nm = "\<lambda>j. base @ ''-'' @ decimal j"
  let ?b = "\<lambda>(name, index :: nat). name \<in> used"
  let ?c = "\<lambda>(name :: string, index). if index + 1 < 2 ^ 32 then Some (?nm index, index + 1) else None"
  have injnm: "inj ?nm" by (rule injI) (simp add: decimal_inject)
  let ?P = "\<lambda>(name, index). (index = 0 \<and> name = base \<or> index \<noteq> 0 \<and> name = ?nm (index - 1) \<and> base \<in> used) \<and>
              (\<forall>j. j + 1 < index \<longrightarrow> ?nm j \<in> used)"
  let ?r = "measures [\<lambda>(name, index). card {j. index \<le> j \<and> ?nm j \<in> used},
                      \<lambda>(name :: string, index). of_bool (name \<in> used)]"
  have finS: "finite {j. index \<le> j \<and> ?nm j \<in> used}" for index
    by (rule finite_subset [OF _ finite_vimageI [OF fin injnm]]) auto
  have "\<exists>t. loop_opt ?b ?c (base, 0) = Some t \<and> ?P t \<and> \<not> ?b t"
  proof (rule loop_opt_rule [where r = ?r])
    show "?P (base, 0)" by simp
    show "wf ?r" by simp
    fix s assume P: "?P s" and b: "?b s"
    obtain name index where s: "s = (name, index)" by (cases s)
    have used': "?nm j \<in> used" if "j < index" for j
      using P b that by (cases "j + 1 = index") (auto simp: s)
    have inU: "base \<in> used" using P b by (auto simp: s)
    have "insert base (?nm ` {..<index}) \<subseteq> used" using used' inU by auto
    then have "card (insert base (?nm ` {..<index})) \<le> card used" by (rule card_mono [OF fin])
    moreover have "card (insert base (?nm ` {..<index})) = Suc index"
      using injnm by (subst card_insert_disjoint) (auto simp: card_image inj_on_subset)
    ultimately have idx: "index + 1 < 2 ^ 32" using small by simp
    have sub: "{j. Suc index \<le> j \<and> ?nm j \<in> used} \<subseteq> {j. index \<le> j \<and> ?nm j \<in> used}" by auto
    have "((?nm index, Suc index), (name, index)) \<in> ?r"
    proof (cases "?nm index \<in> used")
      case True
      then have "index \<in> {j. index \<le> j \<and> ?nm j \<in> used}" by simp
      moreover have "index \<notin> {j. Suc index \<le> j \<and> ?nm j \<in> used}" by simp
      ultimately have "{j. Suc index \<le> j \<and> ?nm j \<in> used} \<subset> {j. index \<le> j \<and> ?nm j \<in> used}"
        using sub by blast
      then have "card {j. Suc index \<le> j \<and> ?nm j \<in> used} < card {j. index \<le> j \<and> ?nm j \<in> used}"
        by (rule psubset_card_mono [OF finS])
      then show ?thesis by simp
    next
      case False
      have "card {j. Suc index \<le> j \<and> ?nm j \<in> used} \<le> card {j. index \<le> j \<and> ?nm j \<in> used}"
        by (rule card_mono [OF finS sub])
      with False b show ?thesis by (auto simp: s)
    qed
    moreover have "?P (?nm index, Suc index)" using used' inU by auto
    ultimately show "\<exists>t. ?c s = Some t \<and> ?P t \<and> (t, s) \<in> ?r" using idx by (simp add: s)
  qed
  then show ?thesis by (auto simp: fresh_name_def)
qed

lemma next_number_total:
  assumes fin: "finite used" and small: "card used + 1 < 2 ^ 32" and below: "\<forall>j < next. decimal j \<in> used"
  shows "\<exists>n. next_number used next = Some n \<and> decimal n \<notin> used \<and> (\<forall>j < n. decimal j \<in> used) \<and> n \<le> card used"
proof -
  let ?P = "\<lambda>n. \<forall>j < n. decimal j \<in> used"
  let ?r = "measure (\<lambda>n. card used - n)"
  have bound: "n \<le> card used" if "?P n" for n
  proof -
    have "card (decimal ` {..<n}) \<le> card used" using that by (intro card_mono [OF fin]) auto
    moreover have "card (decimal ` {..<n}) = n"
      by (subst card_image) (auto simp: inj_on_def decimal_inject)
    ultimately show ?thesis by simp
  qed
  have "\<exists>t. loop_opt (\<lambda>n. decimal n \<in> used) (\<lambda>n. if n + 1 < 2 ^ 32 then Some (n + 1) else None) next = Some t
          \<and> ?P t \<and> decimal t \<notin> used"
  proof (rule loop_opt_rule [where r = ?r])
    fix n assume P: "?P n" and u: "decimal n \<in> used"
    then have P': "?P (n + 1)" by (auto simp: less_Suc_eq)
    with bound [OF P'] small
    show "\<exists>t. (if n + 1 < 2 ^ 32 then Some (n + 1) else None) = Some t \<and> ?P t \<and> (t, n) \<in> ?r" by simp
  qed (use below in simp_all)
  with bound show ?thesis by (auto simp: next_number_def)
qed

section \<open>Identifiers are unique\<close>

lemma btree_groups_canonical:
  "btree_groups kvs = map (\<lambda>k. (k, map snd (filter (\<lambda>kv. fst kv = k) kvs)))
     (sorted_list_of_set (fst ` set kvs))"
proof -
  let ?g = "btree_groups kvs"
  from btree_groups_spec [of kvs] have s: "sorted_wrt (<) (map fst ?g)"
    and m: "map_of ?g = (\<lambda>k. if k \<in> fst ` set kvs
      then Some (map snd (filter (\<lambda>kv. fst kv = k) kvs)) else None)" by auto
  from s have "sorted (map fst ?g)" and d: "distinct (map fst ?g)"
    by (simp_all add: strict_sorted_iff)
  moreover have "set (map fst ?g) = fst ` set kvs"
  proof -
    have "fst ` set ?g = dom (map_of ?g)" by (rule dom_map_of_conv_image_fst [symmetric])
    also have "\<dots> = fst ` set kvs" unfolding m by (force split: if_splits)
    finally show ?thesis by simp
  qed
  ultimately have k: "map fst ?g = sorted_list_of_set (fst ` set kvs)"
    by (metis sorted_list_of_set.idem_if_sorted_distinct)
  have "?g = map (\<lambda>k. (k, the (map_of ?g k))) (map fst ?g)"
    using d by (auto intro!: map_idI [symmetric])
  also have "\<dots> = map (\<lambda>k. (k, map snd (filter (\<lambda>kv. fst kv = k) kvs))) (map fst ?g)"
  proof (rule map_cong [OF refl])
    fix x assume "x \<in> set (map fst ?g)"
    then have "x \<in> fst ` set kvs" using k by simp
    then show "(x, the (map_of ?g x)) = (x, map snd (filter (\<lambda>kv. fst kv = x) kvs))"
      by (simp add: m)
  qed
  finally show ?thesis using k by simp
qed

lemma mset_btree_push: "mset (concat (map snd (btree_push k v m))) = add_mset v (mset (concat (map snd m)))"
  by (induction k v m rule: btree_push.induct) auto

lemma mset_btree_groups: "mset (concat (map snd (btree_groups kvs))) = mset (map snd kvs)"
proof -
  have "mset (concat (map snd (fold (\<lambda>(k, v). btree_push k v) kvs m))) =
      mset (map snd kvs) + mset (concat (map snd m))" for m
    by (induction kvs arbitrary: m) (auto simp: mset_btree_push)
  from this [of "[]"] show ?thesis by (simp add: btree_groups_def)
qed

text \<open>The names given so far: pairwise different, none reserved, and all marked as used.\<close>

definition names :: "('k \<times> render_id) list \<Rightarrow> string list" where
  "names a = map (rid_display \<circ> snd) a"

definition naming_ok :: "string set \<Rightarrow> 'k naming \<Rightarrow> bool" where
  "naming_ok R n \<longleftrightarrow> finite R \<and> fst n = R \<union> set (names (snd n)) \<and>
     distinct (names (snd n)) \<and> R \<inter> set (names (snd n)) = {}"

lemma naming_ok_card: "naming_ok R (used, a) \<Longrightarrow> finite used \<and> card used = card R + length a"
  by (auto simp: naming_ok_def card_Un_disjoint distinct_card) (simp add: names_def)

lemma naming_ok_alloc:
  "naming_ok R (used, a) \<Longrightarrow> rid_display i \<notin> used \<Longrightarrow> naming_ok R (insert (rid_display i) used, a @ [(k, i)])"
  by (auto simp: naming_ok_def names_def)

lemma assign_suffixed_fold:
  assumes "naming_ok R (used, a)" and "card R + length a + length items + 1 < 2 ^ 32"
  shows "\<exists>used' a'. fold_opt (assign_suffixed short) items (used, a) = Some (used', a @ a') \<and>
           naming_ok R (used', a @ a') \<and> map fst a' = map fst items"
  using assms
proof (induction items arbitrary: used a)
  case Nil
  then show ?case by simp
next
  case (Cons it items)
  obtain item full where it: "it = (item, full)" by (cases it)
  from naming_ok_card [OF Cons.prems(1)] Cons.prems(2)
  obtain name where name: "fresh_name used (suffixed_base short full) = Some name" "name \<notin> used"
    using fresh_name_total [of used "suffixed_base short full"] by auto
  with naming_ok_alloc [OF Cons.prems(1), of "RString name" item]
  have ok: "naming_ok R (insert name used, a @ [(item, RString name)])" by simp
  have len: "card R + length (a @ [(item, RString name)]) + length items + 1 < 2 ^ 32"
    using Cons.prems(2) by simp
  obtain used' a' where rest: "fold_opt (assign_suffixed short) items (insert name used, a @ [(item, RString name)]) =
      Some (used', (a @ [(item, RString name)]) @ a')" "naming_ok R (used', (a @ [(item, RString name)]) @ a')"
      "map fst a' = map fst items"
    using Cons.IH [OF ok len] by blast
  with name it have "fold_opt (assign_suffixed short) (it # items) (used, a) =
      Some (used', a @ ((item, RString name) # a'))"
    by (simp add: assign_suffixed_def)
  with rest it show ?case by (intro exI [of _ used'] exI [of _ "(item, RString name) # a'"]) simp
qed

lemma mset_sort_items [simp]: "mset (sort_items items) = mset items"
  by (simp add: sort_items_def)

lemma length_sort_items [simp]: "length (sort_items items) = length items"
  by (simp add: sort_items_def)

lemma assign_group_step:
  assumes ok: "naming_ok R (used, a)" and len: "card R + length a + length items + 1 < 2 ^ 32"
  shows "\<exists>used' a' u'. assign_group (short, items) ((used, a), u) = Some ((used', a'), u') \<and>
     naming_ok R (used', a') \<and> length a' \<le> length a + length items \<and>
     mset (map fst a') + mset (map fst u') = mset (map fst a) + mset (map fst u) + mset (map fst items)"
proof -
  let ?s = "sort_items items"
  have m: "mset (map fst ?s) = mset (map fst items)" by (metis mset_map mset_sort_items)
  consider "short = ''''" | "short \<noteq> ''''" "length ?s = 1" "short \<notin> used"
    | "short \<noteq> ''''" "\<not> (length ?s = 1 \<and> short \<notin> used)" by blast
  then show ?thesis
  proof cases
    case 1
    with ok m show ?thesis by (auto simp: assign_group_def Let_def)
  next
    case 2
    then obtain it where it: "?s = [it]" by (auto simp: length_Suc_conv simp del: length_sort_items)
    with m have "mset (map fst items) = {#fst it#}" by simp
    moreover have len1: "length items = 1" using 2(2) by simp
    moreover from 2 len1 it have
      "assign_group (short, items) ((used, a), u) = Some ((insert short used, a @ [(fst it, RString short)]), u)"
      by (simp add: assign_group_def Let_def)
    moreover from naming_ok_alloc [OF ok, of "RString short" "fst it"] 2(3)
    have "naming_ok R (insert short used, a @ [(fst it, RString short)])" by simp
    ultimately show ?thesis by fastforce
  next
    case 3
    from len have "card R + length a + length ?s + 1 < 2 ^ 32" by simp
    from assign_suffixed_fold [OF ok this, of short] obtain used' a' where
      f: "fold_opt (assign_suffixed short) ?s (used, a) = Some (used', a @ a')"
         "naming_ok R (used', a @ a')" and fa: "map fst a' = map fst ?s" by blast
    have "length a' = length items" using arg_cong [OF fa, of length] by simp
    moreover from 3 f have "assign_group (short, items) ((used, a), u) = Some ((used', a @ a'), u)"
      by (auto simp: assign_group_def Let_def)
    moreover have "mset (map fst (a @ a')) = mset (map fst a) + mset (map fst items)"
      using fa m by simp
    ultimately show ?thesis using f(2)
      by (intro exI [of _ used'] exI [of _ "a @ a'"] exI [of _ u]) (simp only: length_append ac_simps simp_thms le_refl)
  qed
qed

lemma assign_groups_fold:
  assumes "naming_ok R (used, a)" and "card R + length a + length (concat (map snd groups)) + 1 < 2 ^ 32"
  shows "\<exists>used' a' u'. fold_opt assign_group groups ((used, a), u) = Some ((used', a'), u') \<and>
     naming_ok R (used', a') \<and>
     mset (map fst a') + mset (map fst u') =
       mset (map fst a) + mset (map fst u) + mset (map fst (concat (map snd groups)))"
  using assms
proof (induction groups arbitrary: used a u)
  case Nil
  then show ?case by auto
next
  case (Cons g groups)
  obtain short items where g: "g = (short, items)" by (cases g)
  from Cons.prems g have "card R + length a + length items + 1 < 2 ^ 32" by simp
  from assign_group_step [OF Cons.prems(1) this, of short u] obtain used' a' u' where
    s: "assign_group (short, items) ((used, a), u) = Some ((used', a'), u')" "naming_ok R (used', a')"
       "length a' \<le> length a + length items"
       "mset (map fst a') + mset (map fst u') = mset (map fst a) + mset (map fst u) + mset (map fst items)"
    by blast
  from s(3) Cons.prems(2) g have "card R + length a' + length (concat (map snd groups)) + 1 < 2 ^ 32" by simp
  from Cons.IH [OF s(2) this, of u'] s g show ?case by (auto simp: ac_simps simp del: mset_map)
qed

lemma assign_numbers_fold:
  assumes "naming_ok R (used, a)" and "card R + length a + length items + 1 < 2 ^ 32"
    and "\<forall>j < next. decimal j \<in> used"
  shows "\<exists>used' a' n. fold_opt assign_number items ((used, a), next) = Some ((used', a'), n) \<and>
     naming_ok R (used', a') \<and> map fst a' = map fst a @ map fst items"
  using assms
proof (induction items arbitrary: used a "next")
  case Nil
  then show ?case by auto
next
  case (Cons it items)
  obtain item full where it: "it = (item, full)" by (cases it)
  from naming_ok_card [OF Cons.prems(1)] Cons.prems(2)
  have c: "finite used" "card used + 1 < 2 ^ 32" "card used = card R + length a" by auto
  from next_number_total [OF c(1,2) Cons.prems(3)] obtain n where
    n: "next_number used next = Some n" "decimal n \<notin> used" "\<forall>j < n. decimal j \<in> used" "n \<le> card used"
    by blast
  let ?used = "insert (decimal n) used" and ?a = "a @ [(item, RNumber n)]"
  from naming_ok_alloc [OF Cons.prems(1), of "RNumber n" item] n(2) have ok: "naming_ok R (?used, ?a)" by simp
  have below: "\<forall>j < n + 1. decimal j \<in> ?used" using n(3) by (auto simp: less_Suc_eq)
  have len: "card R + length ?a + length items + 1 < 2 ^ 32" using Cons.prems(2) by simp
  have "fold_opt assign_number (it # items) ((used, a), next) = fold_opt assign_number items ((?used, ?a), n + 1)"
    using n(1,4) c(2) it by (simp add: assign_number_def)
  with Cons.IH [OF ok len below] it show ?case by simp
qed

lemma assign_named_ids_unique:
  assumes fin: "finite R" and small: "card R + length candidates + 1 < 2 ^ 32"
  shows "\<exists>assigned. assign_named_ids_with_reserved candidates R = Some assigned \<and>
     mset (map fst assigned) = mset (map fst candidates) \<and> sorted (map fst assigned) \<and>
     distinct (names assigned) \<and> R \<inter> set (names assigned) = {}"
proof -
  let ?kvs = "map (\<lambda>(item, short, full). (short, (item, full))) candidates"
  let ?groups = "btree_groups ?kvs"
  have m: "mset (map fst (concat (map snd ?groups))) = mset (map fst candidates)"
  proof -
    have "mset (map fst (concat (map snd ?groups))) = mset (map fst (map snd ?kvs))"
      by (simp only: mset_map [where f = fst] mset_btree_groups)
    also have "map fst (map snd ?kvs) = map fst candidates" by auto
    finally show ?thesis .
  qed
  then have l: "length (concat (map snd ?groups)) = length candidates"
    by (metis length_map size_mset)
  have ok0: "naming_ok R (R, [])" using fin by (simp add: naming_ok_def names_def)
  from l small have "card R + length ([] :: ('a \<times> render_id) list) + length (concat (map snd ?groups)) + 1 < 2 ^ 32" by simp
  from assign_groups_fold [OF ok0 this, of "[]"] m obtain used a u where
    g: "fold_opt assign_group ?groups ((R, []), []) = Some ((used, a), u)" and ok: "naming_ok R (used, a)"
    and mm: "mset (map fst a) + mset (map fst u) = mset (map fst candidates)" by auto
  have "length a + length u = length candidates"
    using arg_cong [OF mm, of size] by simp
  with small have "card R + length a + length (sort_items u) + 1 < 2 ^ 32" by simp
  from assign_numbers_fold [OF ok this, of 0] obtain used' a' n where
    f: "fold_opt assign_number (sort_items u) ((used, a), 0) = Some ((used', a'), n)"
    and ok': "naming_ok R (used', a')" and fa: "map fst a' = map fst a @ map fst (sort_items u)" by auto
  let ?r = "sort_key fst a'"
  have "assign_named_ids_with_reserved candidates R = Some ?r"
    using g f by (simp add: assign_named_ids_with_reserved_def)
  moreover have "mset (map fst ?r) = mset (map fst candidates)"
    using fa mm by (metis mset_append mset_map mset_sort mset_sort_items)
  moreover have pn: "mset (names ?r) = mset (names a')" by (simp add: names_def)
  then have "set (names ?r) = set (names a')" "distinct (names ?r) = distinct (names a')"
    by (metis set_mset_mset, metis mset_eq_imp_distinct_iff)
  ultimately show ?thesis using ok' by (auto simp: naming_ok_def)
qed

text \<open>The result does not depend on the order in which the candidates were found.\<close>

lemma sort_items_mset_cong: "mset xs = mset ys \<Longrightarrow> sort_items xs = sort_items ys"
  unfolding sort_items_def
  by (rule sort_key_inj_key_eq) (auto simp: inj_on_def)

lemma fold_opt_map_cong:
  assumes "\<And>k s. f (g k) s = f (h k) s"
  shows "fold_opt f (map g ks) s = fold_opt f (map h ks) s"
proof (induction ks arbitrary: s)
  case (Cons k ks)
  then have "fold_opt f (map g ks) = fold_opt f (map h ks)" by (rule ext)
  with assms show ?case by simp
qed simp

lemma assign_group_cong: "sort_items xs = sort_items ys \<Longrightarrow> assign_group (k, xs) s = assign_group (k, ys) s"
  by (simp add: assign_group_def)

lemma assign_named_ids_order_independent:
  assumes "mset cs = mset ds"
  shows "assign_named_ids_with_reserved cs R = assign_named_ids_with_reserved ds R"
proof -
  let ?f = "\<lambda>(item, short, full). (short, (item, full))"
  let ?g = "\<lambda>kvs k. (k, map snd (filter (\<lambda>kv. fst kv = k) kvs))"
  from assms have m: "mset (map ?f cs) = mset (map ?f ds)" by simp
  then have keys: "fst ` set (map ?f cs) = fst ` set (map ?f ds)" by (metis mset_eq_setD)
  have same: "sort_items (snd (?g (map ?f cs) k)) = sort_items (snd (?g (map ?f ds) k))" for k
    by (intro sort_items_mset_cong) (simp only: snd_conv mset_map [where f = snd] mset_filter m)
  have "fold_opt assign_group (map (?g (map ?f cs)) ks) s = fold_opt assign_group (map (?g (map ?f ds)) ks) s" for ks s
    by (rule fold_opt_map_cong) (rule assign_group_cong, use same in simp)
  then have "fold_opt assign_group (btree_groups (map ?f cs)) s = fold_opt assign_group (btree_groups (map ?f ds)) s" for s
    unfolding btree_groups_canonical keys by blast
  then show ?thesis by (simp add: assign_named_ids_with_reserved_def)
qed

end
