(* ===== verification/Linked.thy ===== *)
theory Linked
  imports Prelude
begin

text \<open>
  Two vectors of vectors that index each other: \<open>j\<close> is listed at \<open>i\<close> on the left exactly when
  \<open>i\<close> is listed at \<open>j\<close> on the right.  The chunk graph keeps three such pairs (chunks and groups,
  chunks and modules, parent and child groups); the lemmas say which updates keep a pair in step.
\<close>

definition linked :: "nat list list \<Rightarrow> nat list list \<Rightarrow> bool" where
  "linked A B \<longleftrightarrow>
     (\<forall>i < length A. distinct (A ! i) \<and> (\<forall>j \<in> set (A ! i). j < length B \<and> i \<in> set (B ! j))) \<and>
     (\<forall>j < length B. distinct (B ! j) \<and> (\<forall>i \<in> set (B ! j). i < length A \<and> j \<in> set (A ! i)))"

lemma linked_Nil [simp]: "linked [] []"
  by (simp add: linked_def)

lemma linked_sym: "linked A B \<longleftrightarrow> linked B A"
  by (auto simp: linked_def)

lemma linkedD:
  assumes "linked A B"
  shows "i < length A \<Longrightarrow> j \<in> set (A ! i) \<Longrightarrow> j < length B \<and> i \<in> set (B ! j)"
    and "j < length B \<Longrightarrow> i \<in> set (B ! j) \<Longrightarrow> i < length A \<and> j \<in> set (A ! i)"
    and "i < length A \<Longrightarrow> distinct (A ! i)"
    and "j < length B \<Longrightarrow> distinct (B ! j)"
  using assms unfolding linked_def by blast+

lemma linked_iff:
  assumes "linked A B" and "i < length A" and "j < length B"
  shows "j \<in> set (A ! i) \<longleftrightarrow> i \<in> set (B ! j)"
  using assms unfolding linked_def by blast

lemma linkedI:
  assumes "\<And>i. i < length A \<Longrightarrow> distinct (A ! i)" and "\<And>j. j < length B \<Longrightarrow> distinct (B ! j)"
    and "\<And>i j. i < length A \<Longrightarrow> j \<in> set (A ! i) \<Longrightarrow> j < length B"
    and "\<And>i j. j < length B \<Longrightarrow> i \<in> set (B ! j) \<Longrightarrow> i < length A"
    and "\<And>i j. i < length A \<Longrightarrow> j < length B \<Longrightarrow> j \<in> set (A ! i) \<longleftrightarrow> i \<in> set (B ! j)"
  shows "linked A B"
  using assms unfolding linked_def by blast

lemma linked_grow_left:
  assumes "linked A B"
  shows "linked (A @ replicate n []) B"
proof (rule linkedI)
  note l = linkedD [OF assms]
  fix i j
  show "i < length (A @ replicate n []) \<Longrightarrow> distinct ((A @ replicate n []) ! i)"
    using l(3) by (auto simp: nth_append)
  show "j < length B \<Longrightarrow> distinct (B ! j)" by (rule l(4))
  show "i < length (A @ replicate n []) \<Longrightarrow> j \<in> set ((A @ replicate n []) ! i) \<Longrightarrow> j < length B"
    using l(1) by (auto simp: nth_append split: if_splits)
  show "j < length B \<Longrightarrow> i \<in> set (B ! j) \<Longrightarrow> i < length (A @ replicate n [])"
    using l(2) [of j i] by simp
  assume "i < length (A @ replicate n [])" and j: "j < length B"
  then show "j \<in> set ((A @ replicate n []) ! i) \<longleftrightarrow> i \<in> set (B ! j)"
    using linked_iff [OF assms _ j, of i] l(2) [OF j, of i] by (cases "i < length A") (auto simp: nth_append)
qed

lemma linked_snoc_left: "linked A B \<Longrightarrow> linked (A @ [[]]) B"
  using linked_grow_left [of A B 1] by simp

lemma linked_grow_right: "linked A B \<Longrightarrow> linked A (B @ replicate n [])"
  using linked_grow_left [of B A n] by (simp add: linked_sym)

lemma linked_snoc_right: "linked A B \<Longrightarrow> linked A (B @ [[]])"
  using linked_grow_right [of A B 1] by simp

lemma linked_add:
  assumes "linked A B" and i: "i < length A" and j: "j < length B"
  shows "linked (A[i := push_new j (A ! i)]) (B[j := push_new i (B ! j)])"
proof (rule linkedI)
  note l = linkedD [OF assms(1)]
  fix a b
  show "a < length (A[i := push_new j (A ! i)]) \<Longrightarrow> distinct (A[i := push_new j (A ! i)] ! a)"
    using l(3) by (cases "a = i") auto
  show "b < length (B[j := push_new i (B ! j)]) \<Longrightarrow> distinct (B[j := push_new i (B ! j)] ! b)"
    using l(4) by (cases "b = j") auto
  show "a < length (A[i := push_new j (A ! i)]) \<Longrightarrow> b \<in> set (A[i := push_new j (A ! i)] ! a) \<Longrightarrow>
      b < length (B[j := push_new i (B ! j)])"
    using l(1) j by (cases "a = i") auto
  show "b < length (B[j := push_new i (B ! j)]) \<Longrightarrow> a \<in> set (B[j := push_new i (B ! j)] ! b) \<Longrightarrow>
      a < length (A[i := push_new j (A ! i)])"
    using l(2) i by (cases "b = j") auto
  show "a < length (A[i := push_new j (A ! i)]) \<Longrightarrow> b < length (B[j := push_new i (B ! j)]) \<Longrightarrow>
      b \<in> set (A[i := push_new j (A ! i)] ! a) \<longleftrightarrow> a \<in> set (B[j := push_new i (B ! j)] ! b)"
    using linked_iff [OF assms(1), of a b] i j by (cases "a = i"; cases "b = j") auto
qed

lemma linked_remove:
  assumes "linked A B" and i: "i < length A" and j: "j < length B"
  shows "linked (A[i := filter (\<lambda>x. x \<noteq> j) (A ! i)]) (B[j := filter (\<lambda>x. x \<noteq> i) (B ! j)])"
proof (rule linkedI)
  note l = linkedD [OF assms(1)]
  let ?A = "A[i := filter (\<lambda>x. x \<noteq> j) (A ! i)]" and ?B = "B[j := filter (\<lambda>x. x \<noteq> i) (B ! j)]"
  fix a b
  show "a < length ?A \<Longrightarrow> distinct (?A ! a)" using l(3) by (cases "a = i") auto
  show "b < length ?B \<Longrightarrow> distinct (?B ! b)" using l(4) by (cases "b = j") auto
  show "a < length ?A \<Longrightarrow> b \<in> set (?A ! a) \<Longrightarrow> b < length ?B" using l(1) by (cases "a = i") auto
  show "b < length ?B \<Longrightarrow> a \<in> set (?B ! b) \<Longrightarrow> a < length ?A" using l(2) by (cases "b = j") auto
  show "a < length ?A \<Longrightarrow> b < length ?B \<Longrightarrow> b \<in> set (?A ! a) \<longleftrightarrow> a \<in> set (?B ! b)"
    using linked_iff [OF assms(1), of a b] i j by (cases "a = i"; cases "b = j") auto
qed

text \<open>Removing an index that the right side does not have changes nothing.\<close>

lemma linked_remove_absent:
  assumes "linked A B" and i: "i < length A" and j: "length B \<le> j"
  shows "filter (\<lambda>x. x \<noteq> j) (A ! i) = A ! i"
proof -
  have "x \<noteq> j" if "x \<in> set (A ! i)" for x using linkedD(1) [OF assms(1) i that] j by auto
  then show ?thesis by (simp add: filter_id_conv)
qed

end
