(* ===== verification/Chunk_Graph.thy ===== *)
theory Chunk_Graph
  imports Module_Graph Runtime Render_Ids Linked
begin

text \<open>
  \<open>chunk.rs\<close>, \<open>chunk_group.rs\<close> and \<open>chunk_graph.rs\<close>: chunks, the groups they are loaded with,
  the modules they contain, and what the seal phases record about them.  An operation on a
  handle that is out of range panics.
\<close>

section \<open>Chunks and groups\<close>

record chunk =
  ck_handle :: nat
  ck_name :: "string option"
  ck_roots :: "nat list"
  ck_render_id :: "render_id option"
  ck_filename_override :: "string option"
  ck_groups :: "nat list"

definition chunk_new :: "nat \<Rightarrow> string option \<Rightarrow> nat list \<Rightarrow> chunk" where
  "chunk_new handle name roots =
     \<lparr>ck_handle = handle, ck_name = name, ck_roots = roots, ck_render_id = None,
      ck_filename_override = None, ck_groups = []\<rparr>"

definition chunk_add_group :: "nat \<Rightarrow> chunk \<Rightarrow> chunk" where
  "chunk_add_group g c = c\<lparr>ck_groups := push_new g (ck_groups c)\<rparr>"

text \<open>\<open>resolve_chunk_filename\<close> of \<open>output_filename.rs\<close>; the render id must have been assigned.\<close>

definition resolve_chunk_filename :: "chunk \<Rightarrow> string option" where
  "resolve_chunk_filename c =
     (case ck_filename_override c of
        Some f \<Rightarrow> Some f
      | None \<Rightarrow> (case ck_name c of
          Some name \<Rightarrow> Some (name @ ''.js'')
        | None \<Rightarrow> map_option (\<lambda>i. rid_display i @ ''.js'') (ck_render_id c)))"

type_synonym origin = "nat \<times> nat"

datatype group_kind = Entrypoint string | Async

record chunk_group =
  gr_handle :: nat
  gr_kind :: group_kind
  gr_chunks :: "nat list"
  gr_parents :: "nat list"
  gr_children :: "nat list"
  gr_origin :: "origin option"

definition group_new :: "nat \<Rightarrow> group_kind \<Rightarrow> origin option \<Rightarrow> chunk_group" where
  "group_new handle kind orig =
     \<lparr>gr_handle = handle, gr_kind = kind, gr_chunks = [], gr_parents = [], gr_children = [],
      gr_origin = orig\<rparr>"

definition group_push_chunk :: "nat \<Rightarrow> chunk_group \<Rightarrow> chunk_group" where
  "group_push_chunk c g = g\<lparr>gr_chunks := push_new c (gr_chunks g)\<rparr>"

definition group_add_parent :: "nat \<Rightarrow> chunk_group \<Rightarrow> chunk_group" where
  "group_add_parent p g = g\<lparr>gr_parents := push_new p (gr_parents g)\<rparr>"

definition group_add_child :: "nat \<Rightarrow> chunk_group \<Rightarrow> chunk_group" where
  "group_add_child c g = g\<lparr>gr_children := push_new c (gr_children g)\<rparr>"

text \<open>\<open>ConcatenatedModule\<close> of \<open>optimize/concatenated_module.rs\<close>.\<close>

record concatenated =
  cm_root :: nat
  cm_modules :: "nat list"

definition inner_modules :: "concatenated \<Rightarrow> nat list" where
  "inner_modules c = filter (\<lambda>m. m \<noteq> cm_root c) (cm_modules c)"

section \<open>The graph\<close>

record chunk_graph =
  cg_chunks :: "chunk list"
  cg_groups :: "chunk_group list"
  cg_entrypoints :: "nat list"
  cg_chunk_modules :: "nat list list"
  cg_module_chunks :: "nat list list"
  cg_module_ids :: "render_id option list"
  cg_module_hashes :: "u64 option list"
  cg_block_groups :: "origin \<rightharpoonup> nat"
  cg_runtime_children :: "nat list list"
  cg_module_reqs :: "requirements list"
  cg_chunk_reqs :: "requirements list"
  cg_tree_reqs :: "nat \<rightharpoonup> requirements"
  cg_runtime_modules :: "runtime_module list list"
  cg_concatenated :: "nat \<rightharpoonup> concatenated"

definition empty_chunk_graph :: chunk_graph where
  "empty_chunk_graph = \<lparr>cg_chunks = [], cg_groups = [], cg_entrypoints = [], cg_chunk_modules = [],
     cg_module_chunks = [], cg_module_ids = [], cg_module_hashes = [], cg_block_groups = Map.empty,
     cg_runtime_children = [], cg_module_reqs = [], cg_chunk_reqs = [], cg_tree_reqs = Map.empty,
     cg_runtime_modules = [], cg_concatenated = Map.empty\<rparr>"

definition add_chunk :: "string option \<Rightarrow> nat list \<Rightarrow> chunk_graph \<Rightarrow> chunk_graph \<times> nat" where
  "add_chunk name roots g =
     (let handle = length (cg_chunks g) in
      (g\<lparr>cg_chunks := cg_chunks g @ [chunk_new handle name roots],
         cg_chunk_modules := cg_chunk_modules g @ [[]],
         cg_chunk_reqs := cg_chunk_reqs g @ [0],
         cg_runtime_modules := cg_runtime_modules g @ [[]]\<rparr>, handle))"

definition add_chunk_group :: "group_kind \<Rightarrow> origin option \<Rightarrow> chunk_graph \<Rightarrow> chunk_graph \<times> nat" where
  "add_chunk_group kind orig g =
     (let handle = length (cg_groups g) in
      (g\<lparr>cg_groups := cg_groups g @ [group_new handle kind orig],
         cg_runtime_children := cg_runtime_children g @ [[]]\<rparr>, handle))"

definition connect_chunk_and_group :: "nat \<Rightarrow> nat \<Rightarrow> chunk_graph \<Rightarrow> chunk_graph option" where
  "connect_chunk_and_group c gr g = do {
     cs \<leftarrow> vec_modify c (chunk_add_group gr) (cg_chunks g);
     gs \<leftarrow> vec_modify gr (group_push_chunk c) (cg_groups g);
     Some (g\<lparr>cg_chunks := cs, cg_groups := gs\<rparr>) }"

definition connect_runtime_chunk_groups :: "nat \<Rightarrow> nat \<Rightarrow> chunk_graph \<Rightarrow> chunk_graph option" where
  "connect_runtime_chunk_groups parent child g = do {
     rc \<leftarrow> vec_modify parent (push_new child) (cg_runtime_children g);
     Some (g\<lparr>cg_runtime_children := rc\<rparr>) }"

definition connect_chunk_groups :: "nat \<Rightarrow> nat \<Rightarrow> chunk_graph \<Rightarrow> chunk_graph option" where
  "connect_chunk_groups parent child g = do {
     gs \<leftarrow> vec_modify parent (group_add_child child) (cg_groups g);
     gs \<leftarrow> vec_modify child (group_add_parent parent) gs;
     connect_runtime_chunk_groups parent child (g\<lparr>cg_groups := gs\<rparr>) }"

definition add_entrypoint :: "nat \<Rightarrow> chunk_graph \<Rightarrow> chunk_graph" where
  "add_entrypoint e g = g\<lparr>cg_entrypoints := cg_entrypoints g @ [e]\<rparr>"

definition connect_block_and_chunk_group :: "origin \<Rightarrow> nat \<Rightarrow> chunk_graph \<Rightarrow> chunk_graph" where
  "connect_block_and_chunk_group orig gr g =
     g\<lparr>cg_block_groups := (cg_block_groups g)(orig \<mapsto> gr)\<rparr>"

text \<open>\<open>Chunk::split\<close>: the new chunk joins every group of the original.\<close>

definition chunk_split :: "nat list \<Rightarrow> nat \<Rightarrow> chunk_graph \<Rightarrow> chunk_graph option" where
  "chunk_split groups new_chunk =
     fold_opt (\<lambda>gr g. connect_chunk_and_group new_chunk gr g) groups"

text \<open>The outer option of \<open>split_chunk\<close> is a panic, the inner one its result.\<close>

definition split_chunk ::
  "nat \<Rightarrow> string \<Rightarrow> string \<Rightarrow> chunk_graph \<Rightarrow> (chunk_graph \<times> nat option) option" where
  "split_chunk c render_id filename g =
     (case vec_get (cg_chunks g) c of
        None \<Rightarrow> Some (g, None)
      | Some original \<Rightarrow> do {
          let (g, n) = add_chunk None [] g;
          cs \<leftarrow> vec_modify n (\<lambda>k. k\<lparr>ck_render_id := Some (RString render_id)\<rparr>) (cg_chunks g);
          cs \<leftarrow> vec_modify n (\<lambda>k. k\<lparr>ck_filename_override := Some filename\<rparr>) cs;
          g \<leftarrow> chunk_split (ck_groups original) n (g\<lparr>cg_chunks := cs\<rparr>);
          Some (g, Some n) })"

definition add_split_chunk ::
  "nat list \<Rightarrow> string option \<Rightarrow> nat list \<Rightarrow> chunk_graph \<Rightarrow> (chunk_graph \<times> nat) option" where
  "add_split_chunk sources name roots g = do {
     let (g, n) = add_chunk name roots g;
     g \<leftarrow> fold_opt (\<lambda>s g. do {
            original \<leftarrow> vec_get (cg_chunks g) s;
            chunk_split (ck_groups original) n g }) sources g;
     Some (g, n) }"

definition connect_chunk_and_module :: "nat \<Rightarrow> nat \<Rightarrow> chunk_graph \<Rightarrow> chunk_graph option" where
  "connect_chunk_and_module c m g = do {
     let g = (if length (cg_module_chunks g) \<le> m
              then g\<lparr>cg_module_chunks := vec_resize (m + 1) [] (cg_module_chunks g),
                     cg_module_ids := vec_resize (m + 1) None (cg_module_ids g),
                     cg_module_hashes := vec_resize (m + 1) None (cg_module_hashes g),
                     cg_module_reqs := vec_resize (m + 1) 0 (cg_module_reqs g)\<rparr>
              else g);
     cms \<leftarrow> vec_modify c (push_new m) (cg_chunk_modules g);
     mcs \<leftarrow> vec_modify m (push_new c) (cg_module_chunks g);
     Some (g\<lparr>cg_chunk_modules := cms, cg_module_chunks := mcs\<rparr>) }"

definition disconnect_chunk_and_module :: "nat \<Rightarrow> nat \<Rightarrow> chunk_graph \<Rightarrow> chunk_graph option" where
  "disconnect_chunk_and_module c m g = do {
     cms \<leftarrow> vec_modify c (filter (\<lambda>x. x \<noteq> m)) (cg_chunk_modules g);
     let mcs = (case vec_modify m (filter (\<lambda>x. x \<noteq> c)) (cg_module_chunks g) of
                  Some mcs \<Rightarrow> mcs | None \<Rightarrow> cg_module_chunks g);
     Some (g\<lparr>cg_chunk_modules := cms, cg_module_chunks := mcs\<rparr>) }"

definition module_chunks :: "chunk_graph \<Rightarrow> nat \<Rightarrow> nat list" where
  "module_chunks g m = (case vec_get (cg_module_chunks g) m of Some cs \<Rightarrow> cs | None \<Rightarrow> [])"

definition add_concatenated_module :: "concatenated \<Rightarrow> chunk_graph \<Rightarrow> chunk_graph option" where
  "add_concatenated_module cm g = do {
     let root_chunks = module_chunks g (cm_root cm);
     g \<leftarrow> fold_opt (\<lambda>inner g. fold_opt (\<lambda>c g. disconnect_chunk_and_module c inner g) root_chunks g)
            (inner_modules cm) g;
     if cg_concatenated g (cm_root cm) \<noteq> None then None
     else Some (g\<lparr>cg_concatenated := (cg_concatenated g)(cm_root cm \<mapsto> cm)\<rparr>) }"

definition chunk_modules :: "chunk_graph \<Rightarrow> nat \<Rightarrow> nat list option" where
  "chunk_modules g c = vec_get (cg_chunk_modules g) c"

definition module_render_id :: "chunk_graph \<Rightarrow> nat \<Rightarrow> render_id option" where
  "module_render_id g m = (case vec_get (cg_module_ids g) m of Some i \<Rightarrow> i | None \<Rightarrow> None)"

definition set_module_render_id :: "nat \<Rightarrow> render_id \<Rightarrow> chunk_graph \<Rightarrow> chunk_graph option" where
  "set_module_render_id m i g = do {
     let ids = (if length (cg_module_ids g) \<le> m then vec_resize (m + 1) None (cg_module_ids g)
                else cg_module_ids g);
     ids \<leftarrow> vec_modify m (\<lambda>_. Some i) ids;
     Some (g\<lparr>cg_module_ids := ids\<rparr>) }"

definition set_module_hash :: "nat \<Rightarrow> u64 \<Rightarrow> chunk_graph \<Rightarrow> chunk_graph option" where
  "set_module_hash m h g = do {
     let hs = (if length (cg_module_hashes g) \<le> m then vec_resize (m + 1) None (cg_module_hashes g)
               else cg_module_hashes g);
     hs \<leftarrow> vec_modify m (\<lambda>_. Some h) hs;
     Some (g\<lparr>cg_module_hashes := hs\<rparr>) }"

definition set_chunk_render_id :: "nat \<Rightarrow> render_id \<Rightarrow> chunk_graph \<Rightarrow> chunk_graph option" where
  "set_chunk_render_id c i g = do {
     cs \<leftarrow> vec_modify c (\<lambda>k. k\<lparr>ck_render_id := Some i\<rparr>) (cg_chunks g);
     Some (g\<lparr>cg_chunks := cs\<rparr>) }"

definition block_chunk_group :: "chunk_graph \<Rightarrow> origin \<Rightarrow> nat option" where
  "block_chunk_group g orig = cg_block_groups g orig"

section \<open>References to other modules, as the module computation cache records them\<close>

record module_references =
  mr_render_id :: "render_id option"
  mr_chunk_ids :: "render_id list"
  mr_outgoing_ids :: "render_id option list"
  mr_block_ids :: "render_id list option list"
  mr_concatenated :: "module_identity list"

definition chunk_render_id :: "chunk_graph \<Rightarrow> nat \<Rightarrow> render_id option" where
  "chunk_render_id g c = do { k \<leftarrow> vec_get (cg_chunks g) c; ck_render_id k }"

definition block_render_ids :: "chunk_graph \<Rightarrow> nat \<Rightarrow> nat \<Rightarrow> render_id list option option" where
  "block_render_ids g m block =
     (case block_chunk_group g (m, block) of
        None \<Rightarrow> Some None
      | Some gr \<Rightarrow> do {
          k \<leftarrow> vec_get (cg_groups g) gr;
          ids \<leftarrow> map_opt (chunk_render_id g) (gr_chunks k);
          Some (Some ids) })"

definition module_references_of :: "module_graph \<Rightarrow> nat \<Rightarrow> chunk_graph \<Rightarrow> module_references option" where
  "module_references_of mg h g = do {
     m \<leftarrow> graph_module mg h;
     chunk_ids \<leftarrow> map_opt (chunk_render_id g) (module_chunks g h);
     out \<leftarrow> outgoing_connections mg h;
     block_ids \<leftarrow> map_opt (block_render_ids g h) [0..<length (m_blocks m)];
     concat_ids \<leftarrow> map_opt (\<lambda>k. map_option m_identity (graph_module mg k))
                       (case cg_concatenated g h of None \<Rightarrow> [] | Some cm \<Rightarrow> cm_modules cm);
     Some \<lparr>mr_render_id = module_render_id g h, mr_chunk_ids = sort chunk_ids,
           mr_outgoing_ids = map (\<lambda>c. module_render_id g (cn_module c)) out,
           mr_block_ids = block_ids, mr_concatenated = concat_ids\<rparr> }"

section \<open>Runtime requirements\<close>

text \<open>
  The requirements of everything an entrypoint can load: a depth-first walk over the runtime
  children, with an explicit stack whose top is the head of the list.
\<close>

type_synonym tree_walk = "nat list \<times> nat set \<times> requirements"

definition tree_step :: "chunk_graph \<Rightarrow> tree_walk \<Rightarrow> tree_walk option" where
  "tree_step g = (\<lambda>(pending, visited, reqs).
     case pending of
       [] \<Rightarrow> None
     | gr # pending \<Rightarrow>
         if gr \<in> visited then Some (pending, visited, reqs)
         else do {
           k \<leftarrow> vec_get (cg_groups g) gr;
           reqs \<leftarrow> fold_opt (\<lambda>c reqs. do {
                      r \<leftarrow> vec_get (cg_chunk_reqs g) c;
                      Some (req_extend r reqs) }) (gr_chunks k) reqs;
           children \<leftarrow> vec_get (cg_runtime_children g) gr;
           Some (rev children @ pending, insert gr visited, reqs) })"

definition tree_requirements :: "chunk_graph \<Rightarrow> nat \<Rightarrow> requirements option" where
  "tree_requirements g entry = do {
     (_, _, reqs) \<leftarrow> loop_opt (\<lambda>(pending, _, _). pending \<noteq> []) (tree_step g) ([entry], {}, 0);
     Some (req_extend entry_startup_requirements reqs) }"

definition chunk_requirements :: "chunk_graph \<Rightarrow> nat \<Rightarrow> requirements option" where
  "chunk_requirements g c = do {
     ms \<leftarrow> vec_get (cg_chunk_modules g) c;
     fold_opt (\<lambda>m reqs. do {
       r \<leftarrow> vec_get (cg_module_reqs g) m;
       Some (req_extend r reqs) }) ms 0 }"

definition set_entry_requirements :: "nat \<Rightarrow> chunk_graph \<Rightarrow> chunk_graph option" where
  "set_entry_requirements entry g = do {
     reqs \<leftarrow> tree_requirements g entry;
     (processed, modules) \<leftarrow> resolve_runtime_modules reqs;
     k \<leftarrow> vec_get (cg_groups g) entry;
     runtime_chunk \<leftarrow> (case gr_chunks k of [] \<Rightarrow> None | c # _ \<Rightarrow> Some c);
     rms \<leftarrow> vec_modify runtime_chunk (\<lambda>_. modules) (cg_runtime_modules g);
     Some (g\<lparr>cg_runtime_modules := rms, cg_tree_reqs := (cg_tree_reqs g)(entry \<mapsto> processed)\<rparr>) }"

definition set_module_runtime_requirements ::
  "(nat \<times> requirements) list \<Rightarrow> chunk_graph \<Rightarrow> chunk_graph option" where
  "set_module_runtime_requirements module_reqs g = do {
     let reqs = map (\<lambda>_. 0) (vec_resize (length (cg_module_chunks g)) 0 (cg_module_reqs g));
     reqs \<leftarrow> fold_opt (\<lambda>(m, r) reqs. vec_modify m (\<lambda>_. r) reqs) module_reqs reqs;
     let g = g\<lparr>cg_module_reqs := reqs\<rparr>;
     g \<leftarrow> fold_opt (\<lambda>c g. do {
            r \<leftarrow> chunk_requirements g c;
            crs \<leftarrow> vec_modify c (\<lambda>_. r) (cg_chunk_reqs g);
            rms \<leftarrow> vec_modify c (\<lambda>_. []) (cg_runtime_modules g);
            Some (g\<lparr>cg_chunk_reqs := crs, cg_runtime_modules := rms\<rparr>) }) [0..<length (cg_chunks g)] g;
     let g = g\<lparr>cg_tree_reqs := Map.empty\<rparr>;
     fold_opt set_entry_requirements (cg_entrypoints g) g }"

section \<open>Well-formedness\<close>

definition groups_linked :: "chunk_graph \<Rightarrow> bool" where
  "groups_linked g \<longleftrightarrow> linked (map ck_groups (cg_chunks g)) (map gr_chunks (cg_groups g))"

definition modules_linked :: "chunk_graph \<Rightarrow> bool" where
  "modules_linked g \<longleftrightarrow> linked (cg_chunk_modules g) (cg_module_chunks g)"

definition tree_linked :: "chunk_graph \<Rightarrow> bool" where
  "tree_linked g \<longleftrightarrow> linked (map gr_children (cg_groups g)) (map gr_parents (cg_groups g))"

text \<open>
  The vectors have the lengths their handles need, every chunk and group knows its own handle,
  and the runtime edges, which may close cycles, contain the edges of the materialized graph.
\<close>

definition sizes_ok :: "chunk_graph \<Rightarrow> bool" where
  "sizes_ok g \<longleftrightarrow>
     length (cg_chunk_modules g) = length (cg_chunks g) \<and>
     length (cg_chunk_reqs g) = length (cg_chunks g) \<and>
     length (cg_runtime_modules g) = length (cg_chunks g) \<and>
     length (cg_runtime_children g) = length (cg_groups g) \<and>
     (\<forall>i < length (cg_chunks g). ck_handle (cg_chunks g ! i) = i) \<and>
     (\<forall>i < length (cg_groups g). gr_handle (cg_groups g ! i) = i) \<and>
     (\<forall>i < length (cg_groups g). set (gr_children (cg_groups g ! i)) \<subseteq> set (cg_runtime_children g ! i) \<and>
        (\<forall>j \<in> set (cg_runtime_children g ! i). j < length (cg_groups g))) \<and>
     (\<forall>e \<in> set (cg_entrypoints g). e < length (cg_groups g))"

definition chunk_graph_wf :: "chunk_graph \<Rightarrow> bool" where
  "chunk_graph_wf g \<longleftrightarrow> sizes_ok g \<and> groups_linked g \<and> modules_linked g \<and> tree_linked g"

lemma chunk_graph_wf_empty: "chunk_graph_wf empty_chunk_graph"
  by (simp add: chunk_graph_wf_def sizes_ok_def groups_linked_def modules_linked_def tree_linked_def
      empty_chunk_graph_def)

lemma chunk_graph_wf_add_chunk:
  assumes wf: "chunk_graph_wf g" and add: "add_chunk name roots g = (g', c)"
  shows "chunk_graph_wf g' \<and> c = length (cg_chunks g) \<and> cg_chunks g' = cg_chunks g @ [chunk_new c name roots] \<and>
    cg_chunk_modules g' = cg_chunk_modules g @ [[]] \<and> cg_groups g' = cg_groups g \<and>
    cg_module_chunks g' = cg_module_chunks g \<and> cg_runtime_children g' = cg_runtime_children g \<and>
    cg_entrypoints g' = cg_entrypoints g \<and> cg_block_groups g' = cg_block_groups g"
proof -
  from add have g': "g' = fst (add_chunk name roots g)" and c: "c = length (cg_chunks g)"
    by (auto simp: add_chunk_def Let_def)
  have "chunk_graph_wf g'"
    using wf linked_snoc_left [of "map ck_groups (cg_chunks g)" "map gr_chunks (cg_groups g)"]
      linked_snoc_left [of "cg_chunk_modules g" "cg_module_chunks g"]
    by (auto simp: g' add_chunk_def Let_def chunk_graph_wf_def sizes_ok_def groups_linked_def
        modules_linked_def tree_linked_def chunk_new_def nth_append less_Suc_eq)
  with c g' show ?thesis by (simp add: add_chunk_def Let_def)
qed

lemma chunk_graph_wf_add_chunk_group:
  assumes wf: "chunk_graph_wf g" and add: "add_chunk_group kind orig g = (g', gr)"
  shows "chunk_graph_wf g' \<and> gr = length (cg_groups g) \<and> cg_groups g' = cg_groups g @ [group_new gr kind orig] \<and>
    cg_chunks g' = cg_chunks g \<and> cg_chunk_modules g' = cg_chunk_modules g \<and>
    cg_module_chunks g' = cg_module_chunks g \<and>
    cg_runtime_children g' = cg_runtime_children g @ [[]] \<and> cg_entrypoints g' = cg_entrypoints g \<and>
    cg_block_groups g' = cg_block_groups g"
proof -
  from add have g': "g' = fst (add_chunk_group kind orig g)" and gr: "gr = length (cg_groups g)"
    by (auto simp: add_chunk_group_def Let_def)
  have "linked (map gr_children (cg_groups g) @ [[]]) (map gr_parents (cg_groups g) @ [[]])"
    using wf linked_snoc_left linked_snoc_right by (auto simp: chunk_graph_wf_def tree_linked_def)
  then have "chunk_graph_wf g'"
    using wf linked_snoc_right [of "map ck_groups (cg_chunks g)" "map gr_chunks (cg_groups g)"]
    by (auto simp: g' add_chunk_group_def Let_def chunk_graph_wf_def sizes_ok_def groups_linked_def
        modules_linked_def tree_linked_def group_new_def nth_append less_Suc_eq)
  with gr g' show ?thesis by (simp add: add_chunk_group_def Let_def)
qed

lemma map_update_frame: "(\<And>x. f (h x) = f x) \<Longrightarrow> map f (xs[i := h (xs ! i)]) = map f xs"
  by (rule nth_equalityI, simp) (case_tac "ia = i", auto)

lemma nth_update_frame: "(\<And>x. f (h x) = f x) \<Longrightarrow> f (xs[i := h (xs ! i)] ! j) = f (xs ! j)"
  by (cases "i = j"; cases "j < length xs") (auto simp: not_less list_update_beyond)

lemma frames [simp]:
  "ck_handle (chunk_add_group gr c) = ck_handle c"
  "ck_groups (chunk_add_group gr c) = push_new gr (ck_groups c)"
  "gr_handle (group_push_chunk k g) = gr_handle g" "gr_children (group_push_chunk k g) = gr_children g"
  "gr_parents (group_push_chunk k g) = gr_parents g" "gr_chunks (group_push_chunk k g) = push_new k (gr_chunks g)"
  "gr_kind (group_push_chunk k g) = gr_kind g"
  "gr_handle (group_add_child k g) = gr_handle g" "gr_chunks (group_add_child k g) = gr_chunks g"
  "gr_children (group_add_child k g) = push_new k (gr_children g)" "gr_parents (group_add_child k g) = gr_parents g"
  "gr_kind (group_add_child k g) = gr_kind g"
  "gr_handle (group_add_parent k g) = gr_handle g" "gr_chunks (group_add_parent k g) = gr_chunks g"
  "gr_parents (group_add_parent k g) = push_new k (gr_parents g)" "gr_children (group_add_parent k g) = gr_children g"
  "gr_kind (group_add_parent k g) = gr_kind g"
  by (simp_all add: chunk_add_group_def group_push_chunk_def group_add_child_def group_add_parent_def)

lemma chunk_graph_wf_connect_chunk_and_group:
  assumes wf: "chunk_graph_wf g" and c: "c < length (cg_chunks g)" and gr: "gr < length (cg_groups g)"
  shows "\<exists>g'. connect_chunk_and_group c gr g = Some g' \<and> chunk_graph_wf g' \<and>
    g' = g\<lparr>cg_chunks := (cg_chunks g)[c := chunk_add_group gr (cg_chunks g ! c)],
           cg_groups := (cg_groups g)[gr := group_push_chunk c (cg_groups g ! gr)]\<rparr>"
proof -
  let ?g = "g\<lparr>cg_chunks := (cg_chunks g)[c := chunk_add_group gr (cg_chunks g ! c)],
           cg_groups := (cg_groups g)[gr := group_push_chunk c (cg_groups g ! gr)]\<rparr>"
  have "groups_linked ?g"
    using linked_add [of "map ck_groups (cg_chunks g)" "map gr_chunks (cg_groups g)" c gr] wf c gr
    by (simp add: chunk_graph_wf_def groups_linked_def map_update)
  moreover have "tree_linked ?g"
    using wf by (simp add: chunk_graph_wf_def tree_linked_def map_update_frame)
  ultimately have "chunk_graph_wf ?g"
    using wf by (simp add: chunk_graph_wf_def sizes_ok_def modules_linked_def nth_update_frame)
  with c gr show ?thesis by (simp add: connect_chunk_and_group_def)
qed

lemma chunk_graph_wf_connect_runtime:
  assumes wf: "chunk_graph_wf g" and p: "p < length (cg_groups g)" and c: "c < length (cg_groups g)"
  shows "\<exists>g'. connect_runtime_chunk_groups p c g = Some g' \<and> chunk_graph_wf g' \<and>
    g' = g\<lparr>cg_runtime_children := (cg_runtime_children g)[p := push_new c (cg_runtime_children g ! p)]\<rparr>"
proof -
  from wf have l: "length (cg_runtime_children g) = length (cg_groups g)"
    by (simp add: chunk_graph_wf_def sizes_ok_def)
  have "chunk_graph_wf (g\<lparr>cg_runtime_children := (cg_runtime_children g)[p := push_new c (cg_runtime_children g ! p)]\<rparr>)"
    using wf c p by (auto simp: chunk_graph_wf_def sizes_ok_def groups_linked_def modules_linked_def
        tree_linked_def nth_list_update)
  with p l show ?thesis by (simp add: connect_runtime_chunk_groups_def)
qed

lemma chunk_graph_wf_connect_chunk_groups:
  assumes wf: "chunk_graph_wf g" and p: "p < length (cg_groups g)" and c: "c < length (cg_groups g)"
  shows "\<exists>g'. connect_chunk_groups p c g = Some g' \<and> chunk_graph_wf g' \<and>
    cg_chunks g' = cg_chunks g \<and> length (cg_groups g') = length (cg_groups g) \<and>
    cg_chunk_modules g' = cg_chunk_modules g \<and> cg_module_chunks g' = cg_module_chunks g \<and>
    cg_entrypoints g' = cg_entrypoints g \<and> cg_block_groups g' = cg_block_groups g \<and>
    map gr_chunks (cg_groups g') = map gr_chunks (cg_groups g) \<and>
    map gr_kind (cg_groups g') = map gr_kind (cg_groups g) \<and>
    cg_runtime_children g' = (cg_runtime_children g)[p := push_new c (cg_runtime_children g ! p)] \<and>
    map gr_children (cg_groups g') = (map gr_children (cg_groups g))[p := push_new c (gr_children (cg_groups g ! p))]"
proof -
  from wf have l: "length (cg_runtime_children g) = length (cg_groups g)"
    by (simp add: chunk_graph_wf_def sizes_ok_def)
  let ?gs1 = "(cg_groups g)[p := group_add_child c (cg_groups g ! p)]"
  let ?gs = "?gs1[c := group_add_parent p (?gs1 ! c)]"
  let ?rc = "(cg_runtime_children g)[p := push_new c (cg_runtime_children g ! p)]"
  let ?g = "g\<lparr>cg_groups := ?gs, cg_runtime_children := ?rc\<rparr>"
  have ch: "map gr_children ?gs = (map gr_children (cg_groups g))[p := push_new c (gr_children (cg_groups g ! p))]"
    by (simp add: map_update_frame) (simp add: map_update)
  have pa1: "map gr_parents ?gs1 = map gr_parents (cg_groups g)" by (simp add: map_update_frame)
  then have pac: "gr_parents (?gs1 ! c) = gr_parents (cg_groups g ! c)" by (simp add: nth_update_frame)
  have pa: "map gr_parents ?gs = (map gr_parents (cg_groups g))[c := push_new p (gr_parents (cg_groups g ! c))]"
    using pa1 pac by (simp add: map_update)
  have "tree_linked ?g"
    using linked_add [of "map gr_children (cg_groups g)" "map gr_parents (cg_groups g)" p c] wf p c ch pa
    by (simp add: chunk_graph_wf_def tree_linked_def)
  moreover have cks: "map gr_chunks ?gs = map gr_chunks (cg_groups g)"
    and kinds: "map gr_kind ?gs = map gr_kind (cg_groups g)" by (simp_all add: map_update_frame)
  moreover have "gr_children (?gs ! i) = (if i = p then push_new c (gr_children (cg_groups g ! p)) else gr_children (cg_groups g ! i))"
    if "i < length (cg_groups g)" for i
    using arg_cong [OF ch, of "\<lambda>xs. xs ! i"] that p by (auto simp: nth_list_update)
  moreover have "gr_handle (?gs ! i) = gr_handle (cg_groups g ! i)" for i by (simp add: nth_update_frame)
  ultimately have "chunk_graph_wf ?g"
    using wf c l p by (auto simp: chunk_graph_wf_def sizes_ok_def groups_linked_def modules_linked_def nth_list_update)
  moreover have "connect_chunk_groups p c g = Some ?g"
    using p c l by (simp add: connect_chunk_groups_def connect_runtime_chunk_groups_def)
  ultimately show ?thesis using cks kinds ch by simp
qed

lemma vec_resize_longer: "length xs \<le> n \<Longrightarrow> vec_resize n d xs = xs @ replicate (n - length xs) d"
  by (simp add: vec_resize_def)

text \<open>Connecting a chunk and a module adds exactly that pair.\<close>

lemma chunk_graph_wf_connect_module:
  assumes wf: "chunk_graph_wf g" and c: "c < length (cg_chunks g)"
  shows "\<exists>g'. connect_chunk_and_module c m g = Some g' \<and> chunk_graph_wf g' \<and>
    cg_chunks g' = cg_chunks g \<and> cg_groups g' = cg_groups g \<and> cg_entrypoints g' = cg_entrypoints g \<and>
    cg_runtime_children g' = cg_runtime_children g \<and> cg_block_groups g' = cg_block_groups g \<and>
    cg_concatenated g' = cg_concatenated g \<and>
    cg_chunk_modules g' = (cg_chunk_modules g)[c := push_new m (cg_chunk_modules g ! c)]"
proof -
  from wf have l: "length (cg_chunk_modules g) = length (cg_chunks g)"
    by (simp add: chunk_graph_wf_def sizes_ok_def)
  let ?B = "if length (cg_module_chunks g) \<le> m then vec_resize (m + 1) [] (cg_module_chunks g) else cg_module_chunks g"
  have m: "m < length ?B" by simp
  have "linked (cg_chunk_modules g) ?B"
    using wf linked_grow_right by (auto simp: chunk_graph_wf_def modules_linked_def vec_resize_longer)
  from linked_add [OF this, of c m] c l m
  have lk: "linked ((cg_chunk_modules g)[c := push_new m (cg_chunk_modules g ! c)]) (?B[m := push_new c (?B ! m)])"
    by simp
  define g' where "g' = (if length (cg_module_chunks g) \<le> m
              then g\<lparr>cg_module_chunks := vec_resize (m + 1) [] (cg_module_chunks g),
                     cg_module_ids := vec_resize (m + 1) None (cg_module_ids g),
                     cg_module_hashes := vec_resize (m + 1) None (cg_module_hashes g),
                     cg_module_reqs := vec_resize (m + 1) 0 (cg_module_reqs g)\<rparr>
              else g)\<lparr>cg_chunk_modules := (cg_chunk_modules g)[c := push_new m (cg_chunk_modules g ! c)],
                cg_module_chunks := ?B[m := push_new c (?B ! m)]\<rparr>"
  have "connect_chunk_and_module c m g = Some g'"
    using c l m by (simp add: connect_chunk_and_module_def g'_def Let_def)
  moreover have "chunk_graph_wf g'"
    using wf lk by (simp add: g'_def chunk_graph_wf_def sizes_ok_def groups_linked_def modules_linked_def tree_linked_def)
  ultimately show ?thesis by (simp add: g'_def)
qed

lemma chunk_graph_wf_disconnect:
  assumes wf: "chunk_graph_wf g" and c: "c < length (cg_chunks g)"
  shows "\<exists>g'. disconnect_chunk_and_module c m g = Some g' \<and> chunk_graph_wf g' \<and>
    cg_chunks g' = cg_chunks g \<and> cg_groups g' = cg_groups g \<and> cg_entrypoints g' = cg_entrypoints g \<and>
    cg_runtime_children g' = cg_runtime_children g \<and> cg_block_groups g' = cg_block_groups g \<and>
    cg_concatenated g' = cg_concatenated g \<and>
    cg_chunk_modules g' = (cg_chunk_modules g)[c := filter (\<lambda>x. x \<noteq> m) (cg_chunk_modules g ! c)]"
proof -
  from wf have l: "length (cg_chunk_modules g) = length (cg_chunks g)"
    and lk: "linked (cg_chunk_modules g) (cg_module_chunks g)"
    by (simp_all add: chunk_graph_wf_def sizes_ok_def modules_linked_def)
  let ?A = "(cg_chunk_modules g)[c := filter (\<lambda>x. x \<noteq> m) (cg_chunk_modules g ! c)]"
  let ?B = "case vec_modify m (filter (\<lambda>x. x \<noteq> c)) (cg_module_chunks g) of Some mcs \<Rightarrow> mcs | None \<Rightarrow> cg_module_chunks g"
  have "linked ?A ?B"
  proof (cases "m < length (cg_module_chunks g)")
    case True
    with linked_remove [OF lk, of c m] c l show ?thesis by simp
  next
    case False
    then have "?A = cg_chunk_modules g" using linked_remove_absent [OF lk, of c m] c l by simp
    with lk False show ?thesis by (simp add: vec_modify_def)
  qed
  then have "chunk_graph_wf (g\<lparr>cg_chunk_modules := ?A, cg_module_chunks := ?B\<rparr>)"
    using wf by (simp add: chunk_graph_wf_def sizes_ok_def groups_linked_def modules_linked_def tree_linked_def)
  then show ?thesis using c l by (simp add: disconnect_chunk_and_module_def Let_def)
qed

section \<open>Splitting chunks\<close>

text \<open>What joining groups leaves alone.\<close>

definition same_contents :: "chunk_graph \<Rightarrow> chunk_graph \<Rightarrow> bool" where
  "same_contents g g' \<longleftrightarrow>
     length (cg_chunks g') = length (cg_chunks g) \<and> length (cg_groups g') = length (cg_groups g) \<and>
     cg_chunk_modules g' = cg_chunk_modules g \<and> cg_module_chunks g' = cg_module_chunks g \<and>
     cg_entrypoints g' = cg_entrypoints g \<and> cg_runtime_children g' = cg_runtime_children g \<and>
     cg_block_groups g' = cg_block_groups g \<and>
     map gr_kind (cg_groups g') = map gr_kind (cg_groups g) \<and>
     map gr_children (cg_groups g') = map gr_children (cg_groups g)"

lemma same_contents_refl [simp]: "same_contents g g"
  by (simp add: same_contents_def)

lemma same_contents_trans: "same_contents f g \<Longrightarrow> same_contents g h \<Longrightarrow> same_contents f h"
  by (simp add: same_contents_def)

lemma chunk_split_spec:
  assumes "chunk_graph_wf g" and "n < length (cg_chunks g)" and "\<forall>gr \<in> set grs. gr < length (cg_groups g)"
  shows "\<exists>g'. chunk_split grs n g = Some g' \<and> chunk_graph_wf g' \<and> same_contents g g' \<and>
    (\<forall>gr < length (cg_groups g). set (gr_chunks (cg_groups g' ! gr)) =
        set (gr_chunks (cg_groups g ! gr)) \<union> (if gr \<in> set grs then {n} else {})) \<and>
    (\<forall>c < length (cg_chunks g). c \<noteq> n \<longrightarrow> cg_chunks g' ! c = cg_chunks g ! c)"
  using assms
proof (induction grs arbitrary: g)
  case Nil
  then show ?case by (simp add: chunk_split_def)
next
  case (Cons gr grs)
  from chunk_graph_wf_connect_chunk_and_group [OF Cons.prems(1,2), of gr] Cons.prems(3)
  obtain g1 where g1: "connect_chunk_and_group n gr g = Some g1" "chunk_graph_wf g1"
    and eq: "g1 = g\<lparr>cg_chunks := (cg_chunks g)[n := chunk_add_group gr (cg_chunks g ! n)],
           cg_groups := (cg_groups g)[gr := group_push_chunk n (cg_groups g ! gr)]\<rparr>" by auto
  have same: "same_contents g g1" by (simp add: eq same_contents_def map_update_frame)
  with Cons.prems have "n < length (cg_chunks g1)" "\<forall>gr \<in> set grs. gr < length (cg_groups g1)"
    by (simp_all add: same_contents_def)
  from Cons.IH [OF g1(2) this] obtain g' where g': "chunk_split grs n g1 = Some g'" "chunk_graph_wf g'"
    "same_contents g1 g'"
    and grps: "\<forall>k < length (cg_groups g1). set (gr_chunks (cg_groups g' ! k)) =
        set (gr_chunks (cg_groups g1 ! k)) \<union> (if k \<in> set grs then {n} else {})"
    and chs: "\<forall>c < length (cg_chunks g1). c \<noteq> n \<longrightarrow> cg_chunks g' ! c = cg_chunks g1 ! c" by blast
  have "chunk_split (gr # grs) n g = Some g'" using g1 g' by (simp add: chunk_split_def)
  moreover have "set (gr_chunks (cg_groups g' ! k)) =
        set (gr_chunks (cg_groups g ! k)) \<union> (if k \<in> set (gr # grs) then {n} else {})"
    if "k < length (cg_groups g)" for k
    using grps that Cons.prems(3) by (cases "k = gr") (auto simp: eq)
  moreover have "cg_chunks g' ! c = cg_chunks g ! c" if "c < length (cg_chunks g)" "c \<noteq> n" for c
    using chs that by (simp add: eq)
  ultimately show ?case using g' same same_contents_trans by blast
qed

text \<open>
  A split chunk joins exactly the groups of its sources, so it is loaded wherever one of them is.
\<close>

lemma groups_of_chunk:
  assumes "chunk_graph_wf g" and "c < length (cg_chunks g)"
  shows "gr \<in> set (ck_groups (cg_chunks g ! c)) \<longleftrightarrow>
         gr < length (cg_groups g) \<and> c \<in> set (gr_chunks (cg_groups g ! gr))"
proof -
  from assms have l: "linked (map ck_groups (cg_chunks g)) (map gr_chunks (cg_groups g))"
    by (simp add: chunk_graph_wf_def groups_linked_def)
  show ?thesis using linkedD(1) [OF l, of c gr] linkedD(2) [OF l, of gr c] assms(2) by auto
qed

lemma group_chunk_range:
  "chunk_graph_wf g \<Longrightarrow> gr < length (cg_groups g) \<Longrightarrow> c \<in> set (gr_chunks (cg_groups g ! gr)) \<Longrightarrow>
   c < length (cg_chunks g)"
  using linkedD(2) [of "map ck_groups (cg_chunks g)" "map gr_chunks (cg_groups g)" gr c]
  by (simp add: chunk_graph_wf_def groups_linked_def)

lemma split_sources_spec:
  assumes "chunk_graph_wf g" and "n < length (cg_chunks g)"
    and "\<forall>s \<in> set sources. s < length (cg_chunks g) \<and> s \<noteq> n"
  shows "\<exists>g'. fold_opt (\<lambda>s g. do { original \<leftarrow> vec_get (cg_chunks g) s;
            chunk_split (ck_groups original) n g }) sources g = Some g' \<and> chunk_graph_wf g' \<and>
    same_contents g g' \<and>
    (\<forall>gr < length (cg_groups g). set (gr_chunks (cg_groups g' ! gr)) =
        set (gr_chunks (cg_groups g ! gr)) \<union>
        (if \<exists>s \<in> set sources. s \<in> set (gr_chunks (cg_groups g ! gr)) then {n} else {}))"
  using assms
proof (induction sources arbitrary: g)
  case Nil
  then show ?case by simp
next
  case (Cons s sources)
  from Cons.prems have s: "s < length (cg_chunks g)" "s \<noteq> n" by auto
  have rng: "\<forall>gr \<in> set (ck_groups (cg_chunks g ! s)). gr < length (cg_groups g)"
    using groups_of_chunk [OF Cons.prems(1) s(1)] by simp
  from chunk_split_spec [OF Cons.prems(1,2) rng] obtain g1 where
    g1: "chunk_split (ck_groups (cg_chunks g ! s)) n g = Some g1" "chunk_graph_wf g1" "same_contents g g1"
    and grps1: "\<forall>gr < length (cg_groups g). set (gr_chunks (cg_groups g1 ! gr)) =
        set (gr_chunks (cg_groups g ! gr)) \<union> (if gr \<in> set (ck_groups (cg_chunks g ! s)) then {n} else {})"
    by blast
  from g1(3) Cons.prems have "n < length (cg_chunks g1)"
    "\<forall>s \<in> set sources. s < length (cg_chunks g1) \<and> s \<noteq> n" by (simp_all add: same_contents_def)
  from Cons.IH [OF g1(2) this] obtain g' where
    g': "fold_opt (\<lambda>s g. do { original \<leftarrow> vec_get (cg_chunks g) s;
            chunk_split (ck_groups original) n g }) sources g1 = Some g'" "chunk_graph_wf g'" "same_contents g1 g'"
    and grps': "\<forall>gr < length (cg_groups g1). set (gr_chunks (cg_groups g' ! gr)) =
        set (gr_chunks (cg_groups g1 ! gr)) \<union>
        (if \<exists>s \<in> set sources. s \<in> set (gr_chunks (cg_groups g1 ! gr)) then {n} else {})" by blast
  have "set (gr_chunks (cg_groups g' ! gr)) = set (gr_chunks (cg_groups g ! gr)) \<union>
        (if \<exists>t \<in> set (s # sources). t \<in> set (gr_chunks (cg_groups g ! gr)) then {n} else {})"
    if gr: "gr < length (cg_groups g)" for gr
  proof -
    have gr1: "gr < length (cg_groups g1)" using gr g1(3) by (simp add: same_contents_def)
    have "gr \<in> set (ck_groups (cg_chunks g ! s)) \<longleftrightarrow> s \<in> set (gr_chunks (cg_groups g ! gr))"
      using groups_of_chunk [OF Cons.prems(1) s(1)] gr by simp
    moreover have "t \<noteq> n" if "t \<in> set sources" for t using Cons.prems(3) that by simp
    ultimately show ?thesis using grps1 grps' gr gr1 by (auto split: if_splits)
  qed
  moreover have "same_contents g g'" using g1(3) g'(3) by (rule same_contents_trans)
  ultimately show ?case using g1 g' s by simp
qed

lemma add_split_chunk_spec:
  assumes wf: "chunk_graph_wf g" and src: "\<forall>s \<in> set sources. s < length (cg_chunks g)"
  shows "\<exists>g'. add_split_chunk sources name roots g = Some (g', length (cg_chunks g)) \<and> chunk_graph_wf g' \<and>
    length (cg_chunks g') = Suc (length (cg_chunks g)) \<and>
    length (cg_groups g') = length (cg_groups g) \<and>
    cg_chunk_modules g' = cg_chunk_modules g @ [[]] \<and>
    cg_entrypoints g' = cg_entrypoints g \<and> cg_runtime_children g' = cg_runtime_children g \<and>
    cg_block_groups g' = cg_block_groups g \<and>
    map gr_kind (cg_groups g') = map gr_kind (cg_groups g) \<and>
    map gr_children (cg_groups g') = map gr_children (cg_groups g) \<and>
    (\<forall>gr < length (cg_groups g). set (gr_chunks (cg_groups g' ! gr)) =
        set (gr_chunks (cg_groups g ! gr)) \<union>
        (if \<exists>s \<in> set sources. s \<in> set (gr_chunks (cg_groups g ! gr)) then {length (cg_chunks g)} else {}))"
proof -
  let ?n = "length (cg_chunks g)"
  obtain g1 where g1: "add_chunk name roots g = (g1, ?n)"
    by (simp add: add_chunk_def Let_def)
  from chunk_graph_wf_add_chunk [OF wf g1] have w1: "chunk_graph_wf g1"
    and c1: "cg_chunks g1 = cg_chunks g @ [chunk_new ?n name roots]"
    and m1: "cg_chunk_modules g1 = cg_chunk_modules g @ [[]]" and gr1: "cg_groups g1 = cg_groups g"
    and r1: "cg_runtime_children g1 = cg_runtime_children g" and e1: "cg_entrypoints g1 = cg_entrypoints g"
    and b1: "cg_block_groups g1 = cg_block_groups g"
    by simp_all
  have "?n < length (cg_chunks g1)" "\<forall>s \<in> set sources. s < length (cg_chunks g1) \<and> s \<noteq> ?n"
    using src by (auto simp: c1)
  from split_sources_spec [OF w1 this] obtain g' where
    f: "fold_opt (\<lambda>s g. do { original \<leftarrow> vec_get (cg_chunks g) s;
            chunk_split (ck_groups original) ?n g }) sources g1 = Some g'" and w': "chunk_graph_wf g'"
    and s': "same_contents g1 g'"
    and grps: "\<forall>gr < length (cg_groups g1). set (gr_chunks (cg_groups g' ! gr)) =
        set (gr_chunks (cg_groups g1 ! gr)) \<union>
        (if \<exists>s \<in> set sources. s \<in> set (gr_chunks (cg_groups g1 ! gr)) then {?n} else {})" by blast
  have "add_split_chunk sources name roots g = Some (g', ?n)"
    using g1 f by (simp add: add_split_chunk_def)
  with w' s' grps show ?thesis by (simp add: same_contents_def c1 m1 gr1 r1 e1 b1)
qed

lemma split_chunk_spec:
  assumes wf: "chunk_graph_wf g" and c: "c < length (cg_chunks g)"
  shows "\<exists>g'. split_chunk c rid filename g = Some (g', Some (length (cg_chunks g))) \<and> chunk_graph_wf g' \<and>
    (\<forall>gr < length (cg_groups g). set (gr_chunks (cg_groups g' ! gr)) =
        set (gr_chunks (cg_groups g ! gr)) \<union>
        (if c \<in> set (gr_chunks (cg_groups g ! gr)) then {length (cg_chunks g)} else {}))"
proof -
  let ?n = "length (cg_chunks g)"
  obtain g1 where g1: "add_chunk None [] g = (g1, ?n)" by (simp add: add_chunk_def Let_def)
  from chunk_graph_wf_add_chunk [OF wf g1] have w1: "chunk_graph_wf g1"
    and c1: "cg_chunks g1 = cg_chunks g @ [chunk_new ?n None []]" and gr1: "cg_groups g1 = cg_groups g"
    by simp_all
  let ?k = "\<lambda>k. k\<lparr>ck_render_id := Some (RString rid), ck_filename_override := Some filename\<rparr>"
  let ?cs = "(cg_chunks g1)[?n := ?k (cg_chunks g1 ! ?n)]"
  let ?g2 = "g1\<lparr>cg_chunks := ?cs\<rparr>"
  have frame: "map ck_groups ?cs = map ck_groups (cg_chunks g1)"
    by (rule map_update_frame [where h = ?k]) simp
  have hd: "ck_handle (?cs ! i) = ck_handle (cg_chunks g1 ! i)" for i
    by (rule nth_update_frame [where h = ?k]) simp
  have w2: "chunk_graph_wf ?g2"
    using w1 frame hd by (simp add: chunk_graph_wf_def sizes_ok_def groups_linked_def modules_linked_def tree_linked_def)
  have rng: "\<forall>gr \<in> set (ck_groups (cg_chunks g ! c)). gr < length (cg_groups ?g2)"
    using groups_of_chunk [OF wf c] by (simp add: gr1)
  from chunk_split_spec [OF w2 _ rng, of ?n] obtain g' where
    g': "chunk_split (ck_groups (cg_chunks g ! c)) ?n ?g2 = Some g'" "chunk_graph_wf g'"
    and grps: "\<forall>gr < length (cg_groups g1). set (gr_chunks (cg_groups g' ! gr)) =
        set (gr_chunks (cg_groups g1 ! gr)) \<union> (if gr \<in> set (ck_groups (cg_chunks g ! c)) then {?n} else {})"
    by (auto simp: c1)
  have "split_chunk c rid filename g = Some (g', Some ?n)"
    using c g1 g'(1) by (simp add: split_chunk_def c1)
  moreover have "gr \<in> set (ck_groups (cg_chunks g ! c)) \<longleftrightarrow> c \<in> set (gr_chunks (cg_groups g ! gr))"
    if "gr < length (cg_groups g)" for gr using groups_of_chunk [OF wf c] that by simp
  ultimately show ?thesis using g'(2) grps by (simp add: gr1)
qed

end
