(* ===== verification/Graph_Search.thy ===== *)
theory Graph_Search
  imports Prelude
begin

text \<open>
  The graph walks of the program (static reachability, the walk over runtime children, the cycle
  test on chunk groups) all keep a list of pending nodes and a set of visited ones.  The locale
  states what they need of the graph, and what such a walk maintains, once.
\<close>

locale graph_search =
  fixes valid :: "'g \<Rightarrow> bool"
    and size :: "'g \<Rightarrow> nat"
    and succs :: "'g \<Rightarrow> nat \<Rightarrow> nat list"
  assumes succs_range: "valid g \<Longrightarrow> v < size g \<Longrightarrow> w \<in> set (succs g v) \<Longrightarrow> w < size g"
begin

definition step :: "'g \<Rightarrow> nat \<Rightarrow> nat \<Rightarrow> bool" where
  "step g v w \<longleftrightarrow> w \<in> set (succs g v)"

definition reach :: "'g \<Rightarrow> nat \<Rightarrow> nat set" where
  "reach g start = {v. (step g)\<^sup>*\<^sup>* start v}"

text \<open>Pending and visited nodes of a walk from \<open>start\<close>.\<close>

definition walk_ok :: "'g \<Rightarrow> nat \<Rightarrow> nat list \<Rightarrow> nat set \<Rightarrow> bool" where
  "walk_ok g start pending visited \<longleftrightarrow> valid g \<and> start < size g \<and>
     start \<in> visited \<union> set pending \<and> visited \<union> set pending \<subseteq> reach g start \<and>
     (\<forall>v \<in> visited. set (succs g v) \<subseteq> visited \<union> set pending)"

text \<open>Visiting shrinks the unvisited nodes; skipping shrinks the pending list.\<close>

definition walk_measure :: "'g \<Rightarrow> nat list \<times> nat set \<Rightarrow> nat \<times> nat" where
  "walk_measure g = (\<lambda>(pending, visited). (card ({..<size g} - visited), length pending))"

definition walk_order :: "'g \<Rightarrow> ((nat list \<times> nat set) \<times> (nat list \<times> nat set)) set" where
  "walk_order g = inv_image (less_than <*lex*> less_than) (walk_measure g)"

lemma wf_walk_order: "wf (walk_order g)"
  by (simp add: walk_order_def wf_lex_prod)

lemma reach_refl: "start \<in> reach g start"
  by (simp add: reach_def)

lemma reach_step: "v \<in> reach g start \<Longrightarrow> w \<in> set (succs g v) \<Longrightarrow> w \<in> reach g start"
  by (auto simp: reach_def step_def intro: rtranclp.rtrancl_into_rtrancl)

lemma reach_range: "valid g \<Longrightarrow> start < size g \<Longrightarrow> v \<in> reach g start \<Longrightarrow> v < size g"
proof -
  assume "valid g" "start < size g" "v \<in> reach g start"
  from \<open>v \<in> reach g start\<close> have "(step g)\<^sup>*\<^sup>* start v" by (simp add: reach_def)
  then show ?thesis
    by (induction rule: rtranclp_induct) (use \<open>valid g\<close> \<open>start < size g\<close> succs_range in \<open>auto simp: step_def\<close>)
qed

lemma reach_trans: "v \<in> reach g u \<Longrightarrow> w \<in> reach g v \<Longrightarrow> w \<in> reach g u"
  by (auto simp: reach_def)

lemma walk_start: "valid g \<Longrightarrow> start < size g \<Longrightarrow> walk_ok g start [start] {}"
  by (simp add: walk_ok_def reach_refl)

lemma walk_range:
  "walk_ok g start pending visited \<Longrightarrow> v \<in> set pending \<union> visited \<Longrightarrow> v < size g"
  unfolding walk_ok_def using reach_range by blast

lemma walk_skip:
  assumes ok: "walk_ok g start (x # pending) visited" and x: "x \<in> visited"
  shows "walk_ok g start pending visited \<and> ((pending, visited), (x # pending, visited)) \<in> walk_order g"
  using assms by (auto simp: walk_ok_def walk_order_def walk_measure_def)

lemma walk_visit:
  assumes ok: "walk_ok g start (x # pending) visited" and x: "x \<notin> visited"
    and set: "set pending' = set pending \<union> set (succs g x)"
  shows "walk_ok g start pending' (insert x visited) \<and>
    ((pending', insert x visited), (x # pending, visited)) \<in> walk_order g"
proof -
  from walk_range [OF ok, of x] have "x < size g" by simp
  then have "{..<size g} - insert x visited \<subset> {..<size g} - visited" using x by auto
  then have "card ({..<size g} - insert x visited) < card ({..<size g} - visited)"
    by (rule psubset_card_mono [rotated]) simp
  moreover have "x \<in> reach g start" using ok by (simp add: walk_ok_def)
  ultimately show ?thesis
    using ok set reach_step [of x g start] by (auto simp: walk_ok_def walk_order_def walk_measure_def)
qed

lemma walk_done:
  assumes "walk_ok g start [] visited"
  shows "visited = reach g start"
proof
  show "visited \<subseteq> reach g start" using assms by (simp add: walk_ok_def)
  show "reach g start \<subseteq> visited"
  proof
    fix v assume "v \<in> reach g start"
    then have "(step g)\<^sup>*\<^sup>* start v" by (simp add: reach_def)
    then show "v \<in> visited"
      by (induction rule: rtranclp_induct) (use assms in \<open>auto simp: walk_ok_def step_def\<close>)
  qed
qed

end

end
