(* ===== verification/Module_Mask.thy ===== *)
theory Module_Mask
  imports Prelude
begin

unbundle bit_operations_syntax

text \<open>
  The \<open>ModuleMask\<close> of \<open>build_chunk_graph.rs\<close>: sets of modules as 64-bit words, indexed by the
  dense module handles.  Its contract is the locale \<open>dense_set\<close>, which the planning algorithms
  use; the words implement it.
\<close>

section \<open>The words\<close>

type_synonym mask = "u64 list"

definition mask_bit :: "nat \<Rightarrow> u64" where
  "mask_bit m = push_bit (m mod 64) 1"

definition mask_new :: "nat \<Rightarrow> mask" where
  "mask_new module_count = replicate ((module_count + 63) div 64) 0"

text \<open>The mask after the insertion, and whether it changed; a handle beyond the words panics.\<close>

definition mask_insert :: "nat \<Rightarrow> mask \<Rightarrow> (mask \<times> bool) option" where
  "mask_insert m ws = do {
     word \<leftarrow> vec_get ws (m div 64);
     let b = mask_bit m;
     let changed = (word AND b = 0);
     Some (ws[m div 64 := word OR b], changed) }"

definition mask_contains :: "mask \<Rightarrow> nat \<Rightarrow> bool" where
  "mask_contains ws m =
     (case vec_get ws (m div 64) of
        None \<Rightarrow> False
      | Some word \<Rightarrow> word AND mask_bit m \<noteq> 0)"

definition mask_insert_all :: "nat list \<Rightarrow> mask \<Rightarrow> mask option" where
  "mask_insert_all ms = fold_opt (\<lambda>m ws. map_option fst (mask_insert m ws)) ms"

definition mask_from_modules :: "nat \<Rightarrow> nat list \<Rightarrow> mask option" where
  "mask_from_modules n ms = mask_insert_all ms (mask_new n)"

definition mask_intersect :: "mask \<Rightarrow> mask \<Rightarrow> mask option" where
  "mask_intersect ws vs = (if length ws = length vs then Some (map2 (AND) ws vs) else None)"

section \<open>The contract\<close>

text \<open>
  A dense set over handles below a bound: insertion reports whether it changed the set,
  intersection is that of sets, and two representations of the same bound are equal exactly
  when they hold the same handles, which is what the fixpoint test of the planner compares.
\<close>

locale dense_set =
  fixes fits :: "nat \<Rightarrow> 's \<Rightarrow> bool"
    and empty_set :: "nat \<Rightarrow> 's"
    and insert_elem :: "nat \<Rightarrow> 's \<Rightarrow> ('s \<times> bool) option"
    and has_elem :: "'s \<Rightarrow> nat \<Rightarrow> bool"
    and intersect :: "'s \<Rightarrow> 's \<Rightarrow> 's option"
  assumes fits_empty: "fits n (empty_set n)"
    and has_empty: "\<not> has_elem (empty_set n) x"
    and insert_ok: "fits n s \<Longrightarrow> x < n \<Longrightarrow>
        \<exists>s'. insert_elem x s = Some (s', \<not> has_elem s x) \<and> fits n s' \<and>
             (\<forall>y. has_elem s' y \<longleftrightarrow> y = x \<or> has_elem s y)"
    and intersect_ok: "fits n s \<Longrightarrow> fits n t \<Longrightarrow>
        \<exists>u. intersect s t = Some u \<and> fits n u \<and> (\<forall>y. has_elem u y \<longleftrightarrow> has_elem s y \<and> has_elem t y)"
    and same_elems: "fits n s \<Longrightarrow> fits n t \<Longrightarrow> (\<forall>y. has_elem s y = has_elem t y) \<longleftrightarrow> s = t"
begin

definition elems :: "'s \<Rightarrow> nat set" where
  "elems s = {x. has_elem s x}"

lemma elems_empty [simp]: "elems (empty_set n) = {}"
  by (simp add: elems_def has_empty)

lemma elems_inject: "fits n s \<Longrightarrow> fits n t \<Longrightarrow> elems s = elems t \<longleftrightarrow> s = t"
  using same_elems [of n s t] by (auto simp: elems_def set_eq_iff)

lemma insert_elems:
  assumes "fits n s" and "x < n"
  obtains s' where "insert_elem x s = Some (s', x \<notin> elems s)" "fits n s'" "elems s' = insert x (elems s)"
  using insert_ok [OF assms] by (auto simp: elems_def)

lemma intersect_elems:
  assumes "fits n s" and "fits n t"
  obtains u where "intersect s t = Some u" "fits n u" "elems u = elems s \<inter> elems t"
  using intersect_ok [OF assms] by (auto simp: elems_def)

lemma insert_all_elems:
  assumes "fits n s" and "\<forall>x \<in> set xs. x < n"
  shows "\<exists>s'. fold_opt (\<lambda>x s. map_option fst (insert_elem x s)) xs s = Some s' \<and> fits n s' \<and>
           elems s' = set xs \<union> elems s"
  using assms
proof (induction xs arbitrary: s)
  case Nil
  then show ?case by simp
next
  case (Cons x xs)
  then obtain s' where "insert_elem x s = Some (s', x \<notin> elems s)" "fits n s'"
    "elems s' = insert x (elems s)"
    using insert_elems [of n s x] by auto
  with Cons.IH [of s'] Cons.prems show ?case by auto
qed

end

section \<open>The words implement the contract\<close>

definition mask_fits :: "nat \<Rightarrow> mask \<Rightarrow> bool" where
  "mask_fits n ws \<longleftrightarrow> length ws = (n + 63) div 64"

lemma bit_mask_bit: "bit (mask_bit m) j \<longleftrightarrow> j = m mod 64"
proof
  assume "bit (mask_bit m) j"
  then show "j = m mod 64"
    unfolding mask_bit_def bit_push_bit_iff by (auto simp: bit_1_iff)
next
  assume "j = m mod 64"
  then show "bit (mask_bit m) j"
    unfolding mask_bit_def bit_push_bit_iff by (simp add: bit_1_iff)
qed

lemma word_and_mask_bit: "(w :: u64) AND mask_bit m \<noteq> 0 \<longleftrightarrow> bit w (m mod 64)"
proof -
  have "w AND mask_bit m = (if bit w (m mod 64) then mask_bit m else 0)"
    by (rule bit_eqI) (auto simp: bit_and_iff bit_mask_bit)
  moreover have "mask_bit m \<noteq> 0"
    using bit_mask_bit [of m "m mod 64"] by auto
  ultimately show ?thesis by auto
qed

lemma mask_contains_bit:
  "mask_contains ws m \<longleftrightarrow> m div 64 < length ws \<and> bit (ws ! (m div 64)) (m mod 64)"
  by (simp add: mask_contains_def vec_get_def word_and_mask_bit)

lemma below_div: "x < n \<Longrightarrow> x div 64 < (n + 63) div 64" for x n :: nat
proof -
  assume "x < n"
  then have "x + 64 \<le> n + 63" by simp
  then have "(x + 64) div 64 \<le> (n + 63) div 64" by (rule div_le_mono)
  then show ?thesis by simp
qed

lemma mask_insert_bits:
  assumes "m div 64 < length ws"
  shows "\<exists>vs. mask_insert m ws = Some (vs, \<not> mask_contains ws m) \<and> length vs = length ws \<and>
           (\<forall>y. mask_contains vs y \<longleftrightarrow> y = m \<or> mask_contains ws y)"
proof -
  let ?w = "ws ! (m div 64)"
  let ?vs = "ws[m div 64 := ?w OR mask_bit m]"
  have "mask_contains ?vs y \<longleftrightarrow> y = m \<or> mask_contains ws y" for y
  proof (cases "y div 64 = m div 64")
    case True
    then have "y = m \<longleftrightarrow> y mod 64 = m mod 64" by (metis mod_mult_div_eq)
    with True assms show ?thesis
      by (auto simp: mask_contains_bit bit_or_iff bit_mask_bit)
  next
    case False
    then show ?thesis by (auto simp: mask_contains_bit)
  qed
  moreover have "(?w AND mask_bit m = 0) = (\<not> mask_contains ws m)"
    using assms word_and_mask_bit [of ?w m] by (auto simp: mask_contains_bit)
  ultimately show ?thesis using assms by (simp add: mask_insert_def)
qed

lemma mask_intersect_bits:
  assumes "length ws = length vs"
  shows "\<exists>us. mask_intersect ws vs = Some us \<and> length us = length ws \<and>
           (\<forall>y. mask_contains us y \<longleftrightarrow> mask_contains ws y \<and> mask_contains vs y)"
  using assms by (auto simp: mask_intersect_def mask_contains_bit bit_and_iff)

lemma mask_eqI:
  assumes len: "length ws = length vs" and same: "\<And>y. mask_contains ws y = mask_contains vs y"
  shows "ws = vs"
proof (rule nth_equalityI [OF len])
  fix k assume k: "k < length ws"
  show "ws ! k = vs ! k"
  proof (rule bit_word_eqI)
    fix i assume i: "i < LENGTH(64)"
    then have "(64 * k + i) div 64 = k" "(64 * k + i) mod 64 = i" by simp_all
    with same [of "64 * k + i"] k len show "bit (ws ! k) i = bit (vs ! k) i"
      by (simp add: mask_contains_bit)
  qed
qed

interpretation mask: dense_set mask_fits mask_new mask_insert mask_contains mask_intersect
proof
  fix n x and s t :: mask
  show "mask_fits n (mask_new n)" by (simp add: mask_fits_def mask_new_def)
  show "\<not> mask_contains (mask_new n) x"
    by (auto simp: mask_contains_bit mask_new_def)
  show "mask_fits n s \<Longrightarrow> x < n \<Longrightarrow>
      \<exists>s'. mask_insert x s = Some (s', \<not> mask_contains s x) \<and> mask_fits n s' \<and>
        (\<forall>y. mask_contains s' y = (y = x \<or> mask_contains s y))"
    using mask_insert_bits [of x s] below_div [of x n] by (auto simp: mask_fits_def)
  show "mask_fits n s \<Longrightarrow> mask_fits n t \<Longrightarrow>
      \<exists>u. mask_intersect s t = Some u \<and> mask_fits n u \<and>
        (\<forall>y. mask_contains u y = (mask_contains s y \<and> mask_contains t y))"
    using mask_intersect_bits [of s t] by (auto simp: mask_fits_def)
  show "mask_fits n s \<Longrightarrow> mask_fits n t \<Longrightarrow>
      (\<forall>y. mask_contains s y = mask_contains t y) = (s = t)"
    using mask_eqI [of s t] by (auto simp: mask_fits_def)
qed

abbreviation mask_set :: "mask \<Rightarrow> nat set" where
  "mask_set \<equiv> dense_set.elems mask_contains"

lemma mask_set_eq: "mask_set ws = {m. mask_contains ws m}"
  by (simp add: mask.elems_def)

lemma mask_from_modules_spec:
  assumes "\<forall>x \<in> set xs. x < n"
  shows "\<exists>ws. mask_from_modules n xs = Some ws \<and> mask_fits n ws \<and> mask_set ws = set xs"
  using mask.insert_all_elems [OF mask.fits_empty assms]
  by (simp add: mask_from_modules_def mask_insert_all_def)

end
