(* ===== verification/Chunk_Planning.thy ===== *)
theory Chunk_Planning
  imports Chunk_Graph Graph_Search Module_Mask "HOL-Library.AList"
begin

text \<open>
  \<open>build_chunk_graph.rs\<close> up to the finished chunk plans: static reachability, the dynamic imports
  of a set of modules, and the worklist that gives every dynamically imported module an async
  chunk plan.  A plan knows the modules that are available on every path to it, by intersecting
  what its parents provide, and leaves those out of its chunk.

  A hash map is its association list in insertion order.  The code only reads such a map by key,
  folds it with an operation that does not depend on the order, or sorts what it yields.
\<close>

section \<open>Static reachability\<close>

definition static_edge :: "connection \<Rightarrow> bool" where
  "static_edge c \<longleftrightarrow> cn_block c = None \<and> is_static_module_dependency (cn_dependency c) \<and> connection_is_active c"

type_synonym reach_state = "nat list \<times> mask \<times> nat list"

definition reach_step :: "module_graph \<Rightarrow> reach_state \<Rightarrow> reach_state option" where
  "reach_step mg = (\<lambda>(queue, visited, modules).
     case queue of
       [] \<Rightarrow> None
     | m # queue \<Rightarrow> do {
         (visited, changed) \<leftarrow> mask_insert m visited;
         if \<not> changed then Some (queue, visited, modules)
         else do {
           out \<leftarrow> outgoing_connections mg m;
           Some (queue @ map cn_module (filter static_edge out), visited, modules @ [m]) } })"

definition collect_static_reachable :: "module_graph \<Rightarrow> nat \<Rightarrow> nat list option" where
  "collect_static_reachable mg start = do {
     (_, _, modules) \<leftarrow> loop_opt (\<lambda>(queue, _, _). queue \<noteq> []) (reach_step mg)
        ([start], mask_new (length (gs_modules mg)), []);
     Some modules }"

text \<open>
  The memo of the module computation cache is a lookup by identity; what it answers is the
  subject of another theory.
\<close>

type_synonym reach_memo = "module_identity \<Rightarrow> nat list option"

definition collect_static_reachable_cached ::
  "reach_memo \<Rightarrow> module_graph \<Rightarrow> nat \<Rightarrow> nat list option" where
  "collect_static_reachable_cached memo mg start = do {
     m \<leftarrow> graph_module mg start;
     (case memo (m_identity m) of
        Some modules \<Rightarrow> Some modules
      | None \<Rightarrow> collect_static_reachable mg start) }"

section \<open>Dynamic imports\<close>

definition import_block_target :: "module_graph \<Rightarrow> origin \<Rightarrow> nat option option" where
  "import_block_target mg orig = do {
     out \<leftarrow> outgoing_connections mg (fst orig);
     Some (map_option cn_module
       (find (\<lambda>c. cn_block c = Some (snd orig) \<and> is_import_dependency (cn_dependency c)) out)) }"

definition identity_of :: "module_graph \<Rightarrow> nat \<Rightarrow> module_identity option" where
  "identity_of mg m = map_option m_identity (graph_module mg m)"

text \<open>The keys that \<open>compare_async_origins\<close> and \<open>compare_module_identities\<close> compare.\<close>

definition origin_key :: "module_graph \<Rightarrow> origin \<Rightarrow> (module_identity \<times> nat) option" where
  "origin_key mg orig = do { i \<leftarrow> identity_of mg (fst orig); Some (i, snd orig) }"

definition import_key :: "module_graph \<Rightarrow> origin \<times> nat \<Rightarrow> ((module_identity \<times> nat) \<times> module_identity) option" where
  "import_key mg p = do { k \<leftarrow> origin_key mg (fst p); i \<leftarrow> identity_of mg (snd p); Some (k, i) }"

text \<open>Sorting by a key that may panic: all keys are computed, then the list is sorted stably.\<close>

definition sort_by_key :: "('a \<Rightarrow> 'k::linorder option) \<Rightarrow> 'a list \<Rightarrow> 'a list option" where
  "sort_by_key key xs = do {
     ks \<leftarrow> map_opt key xs;
     Some (map snd (sort_key fst (zip ks xs))) }"

definition module_import_origins :: "module_graph \<Rightarrow> nat \<Rightarrow> (origin \<times> nat) list option" where
  "module_import_origins mg m = do {
     md \<leftarrow> graph_module mg m;
     fold_opt (\<lambda>(b, deps) acc.
       if \<not> list_ex is_import_dependency deps then Some acc
       else do {
         target \<leftarrow> import_block_target mg (m, b);
         Some (case target of Some t \<Rightarrow> acc @ [((m, b), t)] | None \<Rightarrow> acc) })
       (zip [0..<length (m_blocks md)] (m_blocks md)) [] }"

definition dynamic_import_origins :: "module_graph \<Rightarrow> nat list \<Rightarrow> (origin \<times> nat) list option" where
  "dynamic_import_origins mg modules = do {
     os \<leftarrow> map_opt (module_import_origins mg) modules;
     sorted \<leftarrow> sort_by_key (import_key mg) (concat os);
     Some (remdups_adj sorted) }"

section \<open>Plans\<close>

datatype logical_group = LEntry nat | LAsync nat

record entry_plan =
  ep_group :: nat
  ep_resulting :: mask
  ep_modules :: "nat list"

record async_parent =
  ap_resulting :: mask
  ap_origins :: "origin list"

record async_plan =
  pl_target :: nat
  pl_static :: "nat list"
  pl_min :: mask
  pl_resulting :: mask
  pl_parents :: "(logical_group \<times> async_parent) list"

definition plan_new ::
  "nat \<Rightarrow> nat list \<Rightarrow> logical_group \<Rightarrow> mask \<Rightarrow> origin \<Rightarrow> async_plan option" where
  "plan_new target static parent parent_resulting orig = do {
     resulting \<leftarrow> mask_insert_all static parent_resulting;
     Some \<lparr>pl_target = target, pl_static = static, pl_min = parent_resulting, pl_resulting = resulting,
       pl_parents = [(parent, \<lparr>ap_resulting = parent_resulting, ap_origins = [orig]\<rparr>)]\<rparr> }"

definition parents_min :: "(logical_group \<times> async_parent) list \<Rightarrow> mask option" where
  "parents_min parents =
     (case parents of
        [] \<Rightarrow> None
      | (_, p) # ps \<Rightarrow> fold_opt (\<lambda>(_, p) ws. mask_intersect ws (ap_resulting p)) ps (ap_resulting p))"

definition plan_add_parent ::
  "logical_group \<Rightarrow> mask \<Rightarrow> origin \<Rightarrow> async_plan \<Rightarrow> (async_plan \<times> bool) option" where
  "plan_add_parent parent parent_resulting orig plan = do {
     let old = (case map_of (pl_parents plan) parent of
                  Some p \<Rightarrow> p
                | None \<Rightarrow> \<lparr>ap_resulting = parent_resulting, ap_origins = []\<rparr>);
     let new = old\<lparr>ap_resulting := parent_resulting, ap_origins := push_new orig (ap_origins old)\<rparr>;
     let parents = AList.update parent new (pl_parents plan);
     mn \<leftarrow> parents_min parents;
     resulting \<leftarrow> mask_insert_all (pl_static plan) mn;
     let changed = (pl_min plan \<noteq> mn \<or> pl_resulting plan \<noteq> resulting);
     Some (plan\<lparr>pl_parents := parents, pl_min := mn, pl_resulting := resulting\<rparr>, changed) }"

text \<open>The modules of a plan's chunk: those that are not available on every path to it.\<close>

definition plan_modules :: "async_plan \<Rightarrow> nat list" where
  "plan_modules plan = filter (\<lambda>m. \<not> mask_contains (pl_min plan) m) (pl_static plan)"

section \<open>The worklist\<close>

type_synonym plans = "(nat \<times> async_plan) list"
type_synonym plan_state = "plans \<times> logical_group list"

definition parent_context ::
  "entry_plan list \<Rightarrow> plans \<Rightarrow> logical_group \<Rightarrow> (nat list \<times> mask) option" where
  "parent_context entries plans parent =
     (case parent of
        LEntry i \<Rightarrow> do { e \<leftarrow> vec_get entries i; Some (ep_modules e, ep_resulting e) }
      | LAsync t \<Rightarrow> do { p \<leftarrow> map_of plans t; Some (plan_modules p, pl_resulting p) })"

definition plan_import ::
  "reach_memo \<Rightarrow> module_graph \<Rightarrow> logical_group \<Rightarrow> mask \<Rightarrow> origin \<times> nat \<Rightarrow> plan_state \<Rightarrow> plan_state option"
where
  "plan_import memo mg parent resulting = (\<lambda>(orig, target) (plans, pending).
     if mask_contains resulting target then Some (plans, pending)
     else case map_of plans target of
       Some plan \<Rightarrow> do {
         (plan, changed) \<leftarrow> plan_add_parent parent resulting orig plan;
         Some (AList.update target plan plans,
               if changed then pending @ [LAsync target] else pending) }
     | None \<Rightarrow> do {
         static \<leftarrow> collect_static_reachable_cached memo mg target;
         plan \<leftarrow> plan_new target static parent resulting orig;
         Some (AList.update target plan plans, pending @ [LAsync target]) })"

definition plan_step ::
  "reach_memo \<Rightarrow> module_graph \<Rightarrow> entry_plan list \<Rightarrow> plan_state \<Rightarrow> plan_state option" where
  "plan_step memo mg entries = (\<lambda>(plans, pending).
     case pending of
       [] \<Rightarrow> None
     | parent # pending \<Rightarrow> do {
         (modules, resulting) \<leftarrow> parent_context entries plans parent;
         imports \<leftarrow> dynamic_import_origins mg modules;
         fold_opt (plan_import memo mg parent resulting) imports (plans, pending) })"

definition plan_async_chunks ::
  "reach_memo \<Rightarrow> module_graph \<Rightarrow> entry_plan list \<Rightarrow> plans option" where
  "plan_async_chunks memo mg entries =
     map_option fst (loop_opt (\<lambda>(_, pending). pending \<noteq> []) (plan_step memo mg entries)
       ([], map LEntry [0..<length entries]))"

section \<open>Static reachability is reachability\<close>

definition static_successors :: "module_graph \<Rightarrow> nat \<Rightarrow> nat list" where
  "static_successors mg m =
     (case outgoing_connections mg m of
        None \<Rightarrow> [] | Some out \<Rightarrow> map cn_module (filter static_edge out))"

interpretation static_walk: graph_search graph_wf "\<lambda>mg. length (gs_modules mg)" static_successors
proof
  fix mg :: module_graph and v w
  assume wf: "graph_wf mg" and v: "v < length (gs_modules mg)" and w: "w \<in> set (static_successors mg v)"
  from view.out_total [OF wf v] obtain cs where "outgoing_connections mg v = Some cs" by blast
  with w view.out_range [OF wf v this] show "w < length (gs_modules mg)"
    by (auto simp: static_successors_def)
qed

definition reach_inv :: "module_graph \<Rightarrow> nat \<Rightarrow> reach_state \<Rightarrow> bool" where
  "reach_inv mg start = (\<lambda>(queue, visited, modules).
     static_walk.walk_ok mg start queue (set modules) \<and> distinct modules \<and>
     mask_fits (length (gs_modules mg)) visited \<and> mask_set visited = set modules \<and>
     (modules = [] \<and> queue = [start] \<or> modules \<noteq> [] \<and> hd modules = start))"

lemma reach_step_ok:
  assumes wf: "graph_wf mg" and inv: "reach_inv mg start (m # queue, visited, modules)"
  shows "\<exists>q v ms. reach_step mg (m # queue, visited, modules) = Some (q, v, ms) \<and> reach_inv mg start (q, v, ms) \<and>
    ((q, set ms), (m # queue, set modules)) \<in> static_walk.walk_order mg"
proof -
  from inv have ok: "static_walk.walk_ok mg start (m # queue) (set modules)"
    and fits: "mask_fits (length (gs_modules mg)) visited" and vs: "mask_set visited = set modules"
    by (simp_all add: reach_inv_def)
  from static_walk.walk_range [OF ok] have m: "m < length (gs_modules mg)" by simp
  from mask.insert_elems [OF fits m] obtain visited' where
    ins: "mask_insert m visited = Some (visited', m \<notin> set modules)" "mask_fits (length (gs_modules mg)) visited'"
      "mask_set visited' = insert m (set modules)" using vs by auto
  show ?thesis
  proof (cases "m \<in> set modules")
    case True
    with static_walk.walk_skip [OF ok] inv ins show ?thesis
      by (auto simp: reach_step_def reach_inv_def insert_absorb)
  next
    case False
    from view.out_total [OF wf m] obtain out where out: "outgoing_connections mg m = Some out" by blast
    let ?q = "queue @ map cn_module (filter static_edge out)"
    have "set ?q = set queue \<union> set (static_successors mg m)" by (auto simp: static_successors_def out)
    from static_walk.walk_visit [OF ok False this]
    have w: "static_walk.walk_ok mg start ?q (set (modules @ [m]))"
      and o: "((?q, set (modules @ [m])), (m # queue, set modules)) \<in> static_walk.walk_order mg" by simp_all
    have "modules @ [m] \<noteq> [] \<and> hd (modules @ [m]) = start"
      using inv by (cases modules) (auto simp: reach_inv_def)
    with w False inv ins have "reach_inv mg start (?q, visited', modules @ [m])"
      by (simp add: reach_inv_def)
    moreover have "reach_step mg (m # queue, visited, modules) = Some (?q, visited', modules @ [m])"
      using ins(1) out False by (simp add: reach_step_def)
    ultimately show ?thesis using o by blast
  qed
qed

lemma collect_static_reachable_spec:
  assumes wf: "graph_wf mg" and start: "start < length (gs_modules mg)"
  shows "\<exists>ms. collect_static_reachable mg start = Some ms \<and> distinct ms \<and> ms \<noteq> [] \<and> hd ms = start \<and>
     set ms = static_walk.reach mg start"
proof -
  let ?r = "inv_image (static_walk.walk_order mg) (\<lambda>(q, v :: mask, ms). (q, set ms))"
  have "\<exists>t. loop_opt (\<lambda>(queue, _, _). queue \<noteq> []) (reach_step mg)
        ([start], mask_new (length (gs_modules mg)), []) = Some t \<and> reach_inv mg start t \<and>
        \<not> (\<lambda>(queue, _, _). queue \<noteq> []) t"
  proof (rule loop_opt_rule [where r = ?r])
    show "reach_inv mg start ([start], mask_new (length (gs_modules mg)), [])"
      using static_walk.walk_start [OF wf start] mask.fits_empty by (simp add: reach_inv_def)
    show "wf ?r" by (intro wf_inv_image static_walk.wf_walk_order)
    fix s assume "reach_inv mg start s" and ne: "(\<lambda>(queue, _, _). queue \<noteq> []) s"
    moreover obtain m queue visited modules where "s = (m # queue, visited, modules)"
      using ne by (cases s; cases "fst s") auto
    ultimately show "\<exists>t. reach_step mg s = Some t \<and> reach_inv mg start t \<and> (t, s) \<in> ?r"
      using reach_step_ok [OF wf, of start m queue visited modules] by auto
  qed
  then obtain visited ms where
    l: "loop_opt (\<lambda>(queue, _, _). queue \<noteq> []) (reach_step mg)
        ([start], mask_new (length (gs_modules mg)), []) = Some ([], visited, ms)"
    and inv: "reach_inv mg start ([], visited, ms)" by auto
  from inv have "set ms = static_walk.reach mg start"
    by (auto simp: reach_inv_def dest: static_walk.walk_done)
  with l inv show ?thesis by (auto simp: collect_static_reachable_def reach_inv_def)
qed

end
