(* ===== verification/Planning_Facts.thy ===== *)
theory Planning_Facts
  imports Chunk_Planning
begin

text \<open>
  What the pieces of the chunk planner compute: the dynamic imports of a module, the sets that
  the masks of a plan stand for, and the effect of one parent on a plan.
\<close>

section \<open>Sorting by keys\<close>

lemma sort_by_key_total:
  assumes "\<And>x. x \<in> set xs \<Longrightarrow> key x \<noteq> None"
  shows "\<exists>ys. sort_by_key key xs = Some ys \<and> set ys = set xs \<and> length ys = length xs \<and>
     (distinct xs \<longrightarrow> distinct ys)"
proof -
  have m: "map_opt key xs = Some (map (\<lambda>x. the (key x)) xs)"
    using assms by (intro map_opt_total) auto
  let ?z = "zip (map (\<lambda>x. the (key x)) xs) xs"
  let ?ys = "map snd (sort_key fst ?z)"
  have "set ?ys = snd ` set ?z" by simp
  also have "\<dots> = set (map snd ?z)" by (simp only: set_map)
  also have "map snd ?z = xs" by simp
  finally have "set ?ys = set xs" .
  moreover have "length ?ys = length xs" by simp
  ultimately have "distinct xs \<longrightarrow> distinct ?ys"
    by (metis card_distinct distinct_card)
  with m \<open>set ?ys = set xs\<close> show ?thesis by (simp add: sort_by_key_def)
qed

section \<open>The dynamic imports of a module\<close>

lemma reach_start: "static_walk.reach mg h = {v. (\<lambda>a b. b \<in> set (static_successors mg a))\<^sup>*\<^sup>* h v}"
  unfolding static_walk.reach_def static_walk.step_def ..

definition imports_of :: "module_graph \<Rightarrow> nat \<Rightarrow> (origin \<times> nat) set" where
  "imports_of mg m = {((m, b), t) | b t. \<exists>md. graph_module mg m = Some md \<and> b < length (m_blocks md) \<and>
     list_ex is_import_dependency (m_blocks md ! b) \<and> import_block_target mg (m, b) = Some (Some t)}"

lemma imports_of_origin: "(orig, t) \<in> imports_of mg m \<Longrightarrow> fst orig = m"
  by (auto simp: imports_of_def)

lemma imports_of_range:
  assumes wf: "graph_wf mg" and i: "(orig, t) \<in> imports_of mg m"
  shows "m < length (gs_modules mg) \<and> t < length (gs_modules mg)"
proof -
  from i have m: "m < length (gs_modules mg)"
    by (auto simp: imports_of_def graph_module_def vec_simps)
  from i obtain out c where "outgoing_connections mg m = Some out" "c \<in> set out" "cn_module c = t"
    by (auto simp: imports_of_def import_block_target_def bind_simps find_Some_iff) (metis nth_mem)
  with view.out_range [OF wf m] m show ?thesis by blast
qed

lemma import_block_target_total:
  assumes "graph_wf mg" and "m < length (gs_modules mg)"
  shows "\<exists>r. import_block_target mg (m, b) = Some r"
  using view.out_total [OF assms] by (auto simp: import_block_target_def)

lemma in_set_enumerated: "(b, d) \<in> set (zip [0..<length xs] xs) \<longleftrightarrow> b < length xs \<and> d = xs ! b"
proof
  assume "(b, d) \<in> set (zip [0..<length xs] xs)"
  then show "b < length xs \<and> d = xs ! b" by (auto simp: set_zip)
next
  assume "b < length xs \<and> d = xs ! b"
  then have "zip [0..<length xs] xs ! b = (b, d)" "b < length (zip [0..<length xs] xs)" by simp_all
  then show "(b, d) \<in> set (zip [0..<length xs] xs)" by (metis nth_mem)
qed

lemma module_import_origins_spec:
  assumes wf: "graph_wf mg" and m: "m < length (gs_modules mg)"
  shows "\<exists>os. module_import_origins mg m = Some os \<and> set os = imports_of mg m"
proof -
  let ?md = "gs_modules mg ! m"
  have md: "graph_module mg m = Some ?md" using m by (simp add: graph_module_def)
  let ?f = "\<lambda>(b, deps) acc.
       if \<not> list_ex is_import_dependency deps then Some acc
       else do {
         target \<leftarrow> import_block_target mg (m, b);
         Some (case target of Some t \<Rightarrow> acc @ [((m, b), t)] | None \<Rightarrow> acc) }"
  have "\<exists>os. fold_opt ?f bs acc = Some os \<and>
      set os = set acc \<union> {((m, b), t) | b t deps. (b, deps) \<in> set bs \<and> list_ex is_import_dependency deps \<and>
                          import_block_target mg (m, b) = Some (Some t)}" for bs acc
  proof (induction bs arbitrary: acc)
    case Nil
    then show ?case by simp
  next
    case (Cons p bs)
    obtain b deps where p: "p = (b, deps)" by (cases p)
    obtain r where r: "import_block_target mg (m, b) = Some r" using import_block_target_total [OF wf m] by blast
    let ?acc = "if list_ex is_import_dependency deps then (case r of Some t \<Rightarrow> acc @ [((m, b), t)] | None \<Rightarrow> acc) else acc"
    have "?f p acc = Some ?acc" by (simp add: p r)
    moreover from Cons.IH [of ?acc] obtain os where "fold_opt ?f bs ?acc = Some os"
      "set os = set ?acc \<union> {((m, b), t) | b t deps. (b, deps) \<in> set bs \<and> list_ex is_import_dependency deps \<and>
                          import_block_target mg (m, b) = Some (Some t)}" by blast
    ultimately show ?case by (intro exI [of _ os]) (auto simp: p r split: option.splits)
  qed
  from this [of "zip [0..<length (m_blocks ?md)] (m_blocks ?md)" "[]"] obtain os where
    "module_import_origins mg m = Some os"
    "set os = {((m, b), t) | b t deps. (b, deps) \<in> set (zip [0..<length (m_blocks ?md)] (m_blocks ?md)) \<and>
        list_ex is_import_dependency deps \<and> import_block_target mg (m, b) = Some (Some t)}"
    by (auto simp: module_import_origins_def md)
  then show ?thesis by (intro exI [of _ os]) (auto simp: imports_of_def md in_set_enumerated)
qed

lemma dynamic_import_origins_spec:
  assumes wf: "graph_wf mg" and ms: "\<forall>m \<in> set ms. m < length (gs_modules mg)"
  shows "\<exists>os. dynamic_import_origins mg ms = Some os \<and> set os = (\<Union>m \<in> set ms. imports_of mg m)"
proof -
  define f where "f m = the (module_import_origins mg m)" for m
  have f: "module_import_origins mg m = Some (f m)" "set (f m) = imports_of mg m" if "m \<in> set ms" for m
    using module_import_origins_spec [OF wf, of m] ms that by (auto simp: f_def)
  have mo: "map_opt (module_import_origins mg) ms = Some (map f ms)"
    using f(1) by (rule map_opt_total)
  have s: "set (concat (map f ms)) = (\<Union>m \<in> set ms. imports_of mg m)" using f(2) by auto
  have keys: "import_key mg p \<noteq> None" if "p \<in> set (concat (map f ms))" for p
  proof -
    from that s obtain m where "m \<in> set ms" "p \<in> imports_of mg m" by auto
    with imports_of_range [OF wf, of "fst p" "snd p" m] imports_of_origin [of "fst p" "snd p" mg m]
    show ?thesis by (simp add: import_key_def origin_key_def identity_of_def graph_module_def)
  qed
  from sort_by_key_total [of "concat (map f ms)" "import_key mg", OF keys] obtain ys where
    "sort_by_key (import_key mg) (concat (map f ms)) = Some ys" "set ys = set (concat (map f ms))" by blast
  with mo s show ?thesis by (simp add: dynamic_import_origins_def)
qed

section \<open>What masks stand for\<close>

lemma mask_insert_all_spec:
  assumes "mask_fits n ws" and "\<forall>x \<in> set xs. x < n"
  shows "\<exists>vs. mask_insert_all xs ws = Some vs \<and> mask_fits n vs \<and> mask_set vs = set xs \<union> mask_set ws"
  using mask.insert_all_elems [OF assms] by (simp add: mask_insert_all_def)

definition parents_set :: "(logical_group \<times> async_parent) list \<Rightarrow> nat set" where
  "parents_set ps = (\<Inter>(_, p) \<in> set ps. mask_set (ap_resulting p))"

lemma fold_intersect:
  assumes "mask_fits n ws" and "\<forall>(_, p) \<in> set ps. mask_fits n (ap_resulting p)"
  shows "\<exists>vs. fold_opt (\<lambda>(_, p) ws. mask_intersect ws (ap_resulting p)) ps ws = Some vs \<and> mask_fits n vs \<and>
     mask_set vs = mask_set ws \<inter> parents_set ps"
  using assms
proof (induction ps arbitrary: ws)
  case Nil
  then show ?case by (simp add: parents_set_def)
next
  case (Cons q ps)
  obtain L p where q: "q = (L, p)" by (cases q)
  with Cons.prems have "mask_fits n (ap_resulting p)" by simp
  from mask.intersect_elems [OF Cons.prems(1) this] obtain us where
    us: "mask_intersect ws (ap_resulting p) = Some us" "mask_fits n us" "mask_set us = mask_set ws \<inter> mask_set (ap_resulting p)" .
  from Cons.IH [OF us(2)] Cons.prems us q show ?case by (auto simp: parents_set_def)
qed

lemma parents_min_spec:
  assumes "ps \<noteq> []" and "\<forall>(_, p) \<in> set ps. mask_fits n (ap_resulting p)"
  shows "\<exists>vs. parents_min ps = Some vs \<and> mask_fits n vs \<and> mask_set vs = parents_set ps"
proof -
  obtain L p ps' where ps: "ps = (L, p) # ps'" using assms(1) by (cases ps) auto
  with fold_intersect [of n "ap_resulting p" ps'] assms(2) show ?thesis
    by (auto simp: parents_min_def parents_set_def)
qed

end
