(* ===== verification/Planning_Correct.thy ===== *)
theory Planning_Correct
  imports Planning_Facts
begin

text \<open>
  The worklist of the chunk planner ends, and at its end every plan describes what its parents
  really provide: the modules that an async chunk leaves out are loaded on every path to it.
\<close>

section \<open>What a logical group provides\<close>

definition group_valid :: "entry_plan list \<Rightarrow> (nat \<rightharpoonup> async_plan) \<Rightarrow> logical_group \<Rightarrow> bool" where
  "group_valid entries P L = (case L of LEntry i \<Rightarrow> i < length entries | LAsync t \<Rightarrow> P t \<noteq> None)"

definition group_avail :: "entry_plan list \<Rightarrow> (nat \<rightharpoonup> async_plan) \<Rightarrow> logical_group \<Rightarrow> nat set" where
  "group_avail entries P L = (case L of
     LEntry i \<Rightarrow> mask_set (ep_resulting (entries ! i)) | LAsync t \<Rightarrow> mask_set (pl_resulting (the (P t))))"

definition group_mods :: "entry_plan list \<Rightarrow> (nat \<rightharpoonup> async_plan) \<Rightarrow> logical_group \<Rightarrow> nat set" where
  "group_mods entries P L = (case L of
     LEntry i \<Rightarrow> set (ep_modules (entries ! i)) | LAsync t \<Rightarrow> set (plan_modules (the (P t))))"

text \<open>Whatever is available comes with what it imports statically.\<close>

definition static_closed :: "module_graph \<Rightarrow> nat set \<Rightarrow> bool" where
  "static_closed mg S \<longleftrightarrow> (\<forall>m \<in> S. set (static_successors mg m) \<subseteq> S)"

lemma static_closed_reach [simp]: "static_closed mg (static_walk.reach mg m)"
  using static_walk.reach_step by (auto simp: static_closed_def)

lemma static_closed_Un: "static_closed mg S \<Longrightarrow> static_closed mg T \<Longrightarrow> static_closed mg (S \<union> T)"
  by (auto simp: static_closed_def)

definition record_ok ::
  "module_graph \<Rightarrow> entry_plan list \<Rightarrow> (nat \<rightharpoonup> async_plan) \<Rightarrow> nat \<Rightarrow> logical_group \<Rightarrow> async_parent \<Rightarrow> bool" where
  "record_ok mg entries P t L ap \<longleftrightarrow>
     group_valid entries P L \<and> mask_fits (length (gs_modules mg)) (ap_resulting ap) \<and>
     group_avail entries P L \<subseteq> mask_set (ap_resulting ap) \<and> static_closed mg (mask_set (ap_resulting ap)) \<and> t \<notin> mask_set (ap_resulting ap) \<and>
     ap_origins ap \<noteq> [] \<and>
     (\<forall>orig \<in> set (ap_origins ap). fst orig \<in> group_mods entries P L \<and> (orig, t) \<in> imports_of mg (fst orig))"

definition masks_ok :: "module_graph \<Rightarrow> async_plan \<Rightarrow> bool" where
  "masks_ok mg p \<longleftrightarrow>
     mask_fits (length (gs_modules mg)) (pl_min p) \<and> mask_fits (length (gs_modules mg)) (pl_resulting p) \<and>
     mask_set (pl_min p) \<subseteq> {..<length (gs_modules mg)} \<and>
     mask_set (pl_resulting p) = mask_set (pl_min p) \<union> set (pl_static p) \<and>
     mask_set (pl_min p) = parents_set (pl_parents p) \<and>
     pl_parents p \<noteq> [] \<and> distinct (map fst (pl_parents p))"

definition plan_ok :: "module_graph \<Rightarrow> entry_plan list \<Rightarrow> (nat \<rightharpoonup> async_plan) \<Rightarrow> nat \<Rightarrow> async_plan \<Rightarrow> bool" where
  "plan_ok mg entries P t p \<longleftrightarrow>
     t < length (gs_modules mg) \<and> pl_target p = t \<and> set (pl_static p) = static_walk.reach mg t \<and>
     masks_ok mg p \<and> (\<forall>(L, ap) \<in> set (pl_parents p). record_ok mg entries P t L ap)"

definition entry_ok :: "module_graph \<Rightarrow> entry_plan \<Rightarrow> bool" where
  "entry_ok mg e \<longleftrightarrow> mask_fits (length (gs_modules mg)) (ep_resulting e) \<and>
     mask_set (ep_resulting e) = set (ep_modules e) \<and> static_closed mg (set (ep_modules e)) \<and> set (ep_modules e) \<subseteq> {..<length (gs_modules mg)}"

text \<open>The memo only answers what the search would find.\<close>

definition memo_ok :: "reach_memo \<Rightarrow> module_graph \<Rightarrow> bool" where
  "memo_ok memo mg \<longleftrightarrow> (\<forall>m < length (gs_modules mg). \<forall>ms.
     memo (m_identity (gs_modules mg ! m)) = Some ms \<longrightarrow> distinct ms \<and> set ms = static_walk.reach mg m)"

lemma memo_ok_empty: "memo_ok (\<lambda>_. None) mg"
  by (simp add: memo_ok_def)

lemma cached_reachable_spec:
  assumes wf: "graph_wf mg" and memo: "memo_ok memo mg" and m: "m < length (gs_modules mg)"
  shows "\<exists>ms. collect_static_reachable_cached memo mg m = Some ms \<and> distinct ms \<and>
     set ms = static_walk.reach mg m \<and> m \<in> set ms \<and> (\<forall>x \<in> set ms. x < length (gs_modules mg))"
proof -
  have md: "graph_module mg m = Some (gs_modules mg ! m)" using m by (simp add: graph_module_def)
  have "\<exists>ms. collect_static_reachable_cached memo mg m = Some ms \<and> distinct ms \<and> set ms = static_walk.reach mg m"
  proof (cases "memo (m_identity (gs_modules mg ! m))")
    case None
    with collect_static_reachable_spec [OF wf m] md show ?thesis
      by (auto simp: collect_static_reachable_cached_def)
  next
    case (Some ms)
    with memo m md show ?thesis by (auto simp: collect_static_reachable_cached_def memo_ok_def)
  qed
  then show ?thesis using static_walk.reach_refl static_walk.reach_range [OF wf m] by blast
qed

section \<open>One parent of one plan\<close>

lemma set_plan_modules: "set (plan_modules p) = set (pl_static p) - mask_set (pl_min p)"
  by (auto simp: plan_modules_def mask_set_eq)

lemma parents_set_update:
  assumes "distinct (map fst ps)" and old: "\<forall>p. map_of ps L = Some p \<longrightarrow> mask_set (ap_resulting new) \<subseteq> mask_set (ap_resulting p)"
    and d: "parents_set ps = M" and ne: "ps \<noteq> []"
  shows "parents_set (AList.update L new ps) \<subseteq> M"
proof
  fix x assume x: "x \<in> parents_set (AList.update L new ps)"
  have "x \<in> mask_set (ap_resulting q)" if "(K, q) \<in> set ps" for K q
  proof (cases "K = L")
    case True
    have "(L, new) \<in> set (AList.update L new ps)"
      by (metis map_of_SomeD update_conv fun_upd_same)
    then have "x \<in> mask_set (ap_resulting new)" using x by (auto simp: parents_set_def)
    moreover have "map_of ps L = Some q" using that True assms(1) by simp
    ultimately show ?thesis using old by auto
  next
    case False
    have "map_of (AList.update L new ps) K = Some q"
      using that False assms(1) by (simp add: update_conv)
    then have "(K, q) \<in> set (AList.update L new ps)" by (rule map_of_SomeD)
    then show ?thesis using x by (auto simp: parents_set_def)
  qed
  then show "x \<in> M" using d by (auto simp: parents_set_def)
qed

lemma plan_add_parent_ok:
  assumes ok: "masks_ok mg p" and rec: "\<forall>(K, ap) \<in> set (pl_parents p). mask_fits (length (gs_modules mg)) (ap_resulting ap)"
    and static: "\<forall>x \<in> set (pl_static p). x < length (gs_modules mg)"
    and R: "mask_fits (length (gs_modules mg)) R"
    and old: "\<forall>ap. map_of (pl_parents p) L = Some ap \<longrightarrow> mask_set R \<subseteq> mask_set (ap_resulting ap)"
  shows "\<exists>p' new. plan_add_parent L R orig p = Some (p', pl_min p \<noteq> pl_min p' \<or> pl_resulting p \<noteq> pl_resulting p') \<and>
     masks_ok mg p' \<and> pl_target p' = pl_target p \<and> pl_static p' = pl_static p \<and>
     mask_set (pl_min p') \<subseteq> mask_set (pl_min p) \<and>
     pl_parents p' = AList.update L new (pl_parents p) \<and> ap_resulting new = R \<and>
     set (ap_origins new) = insert orig (case map_of (pl_parents p) L of Some ap \<Rightarrow> set (ap_origins ap) | None \<Rightarrow> {})"
proof -
  let ?n = "length (gs_modules mg)"
  let ?old = "case map_of (pl_parents p) L of Some ap \<Rightarrow> ap | None \<Rightarrow> \<lparr>ap_resulting = R, ap_origins = []\<rparr>"
  let ?new = "?old\<lparr>ap_resulting := R, ap_origins := push_new orig (ap_origins ?old)\<rparr>"
  let ?ps = "AList.update L ?new (pl_parents p)"
  have d: "distinct (map fst (pl_parents p))" "pl_parents p \<noteq> []" using ok by (simp_all add: masks_ok_def)
  have d': "distinct (map fst ?ps)" using d(1) by (rule distinct_update)
  have ne: "?ps \<noteq> []" by (metis map_of_SomeD update_conv fun_upd_same empty_iff list.set(1))
  have fits: "\<forall>(K, ap) \<in> set ?ps. mask_fits ?n (ap_resulting ap)"
  proof (intro ballI, clarify)
    fix K ap assume "(K, ap) \<in> set ?ps"
    with d' have "map_of ?ps K = Some ap" by simp
    then have "K = L \<and> ap = ?new \<or> map_of (pl_parents p) K = Some ap"
      by (auto simp: update_conv split: if_splits)
    then show "mask_fits ?n (ap_resulting ap)" using R rec by (auto dest: map_of_SomeD)
  qed
  from parents_min_spec [OF ne fits] obtain mn where
    mn: "parents_min ?ps = Some mn" "mask_fits ?n mn" "mask_set mn = parents_set ?ps" by blast
  have "parents_set ?ps \<subseteq> mask_set (pl_min p)"
    using ok old d by (intro parents_set_update) (auto simp: masks_ok_def)
  with mn have sub: "mask_set mn \<subseteq> mask_set (pl_min p)" by simp
  from mask_insert_all_spec [OF mn(2) static] obtain res where
    res: "mask_insert_all (pl_static p) mn = Some res" "mask_fits ?n res"
      "mask_set res = set (pl_static p) \<union> mask_set mn" by blast
  let ?p = "p\<lparr>pl_parents := ?ps, pl_min := mn, pl_resulting := res\<rparr>"
  have "plan_add_parent L R orig p = Some (?p, pl_min p \<noteq> mn \<or> pl_resulting p \<noteq> res)"
    using mn res by (simp add: plan_add_parent_def Let_def)
  moreover have "masks_ok mg ?p"
    using ok mn res sub ne d' by (auto simp: masks_ok_def)
  moreover have "set (ap_origins ?new) = insert orig (case map_of (pl_parents p) L of Some ap \<Rightarrow> set (ap_origins ap) | None \<Rightarrow> {})"
    by (simp split: option.split)
  ultimately show ?thesis using sub by (intro exI [of _ ?p] exI [of _ ?new]) simp
qed

section \<open>Growing plans\<close>

text \<open>Plans only lose available modules, and so their chunks only grow.\<close>

definition plans_le :: "(nat \<rightharpoonup> async_plan) \<Rightarrow> (nat \<rightharpoonup> async_plan) \<Rightarrow> bool" where
  "plans_le P P' \<longleftrightarrow> (\<forall>t p. P t = Some p \<longrightarrow> (\<exists>p'. P' t = Some p' \<and>
     mask_set (pl_resulting p') \<subseteq> mask_set (pl_resulting p) \<and>
     set (plan_modules p) \<subseteq> set (plan_modules p')))"

lemma plans_le_refl: "plans_le P P"
  by (simp add: plans_le_def)

lemma plans_le_groups:
  assumes "plans_le P P'" and "group_valid entries P L"
  shows "group_valid entries P' L \<and> group_avail entries P' L \<subseteq> group_avail entries P L \<and>
    group_mods entries P L \<subseteq> group_mods entries P' L"
proof (cases L)
  case (LEntry i)
  with assms show ?thesis by (simp add: group_valid_def group_avail_def group_mods_def)
next
  case (LAsync t)
  with assms(2) obtain p where p: "P t = Some p" by (auto simp: group_valid_def)
  with assms(1) obtain p' where "P' t = Some p'" "mask_set (pl_resulting p') \<subseteq> mask_set (pl_resulting p)"
    "set (plan_modules p) \<subseteq> set (plan_modules p')" unfolding plans_le_def by blast
  with LAsync p show ?thesis by (simp add: group_valid_def group_avail_def group_mods_def)
qed

lemma record_ok_mono:
  assumes le: "plans_le P P'" and ok: "record_ok mg entries P t L ap"
  shows "record_ok mg entries P' t L ap"
  using ok plans_le_groups [OF le, of entries L] unfolding record_ok_def by blast

lemma plan_ok_mono:
  "plans_le P P' \<Longrightarrow> plan_ok mg entries P t p \<Longrightarrow> plan_ok mg entries P' t p"
  unfolding plan_ok_def using record_ok_mono by blast

lemma plans_le_update:
  assumes "P t = Some p" and "mask_set (pl_resulting p') \<subseteq> mask_set (pl_resulting p)"
    and "mask_set (pl_min p') \<subseteq> mask_set (pl_min p)" and "pl_static p' = pl_static p"
  shows "plans_le P (P(t \<mapsto> p'))"
  using assms by (auto simp: plans_le_def set_plan_modules)

lemma plans_le_new: "P t = None \<Longrightarrow> plans_le P (P(t \<mapsto> p'))"
  by (auto simp: plans_le_def)

section \<open>The state of the worklist\<close>

definition recorded :: "(nat \<rightharpoonup> async_plan) \<Rightarrow> nat \<Rightarrow> logical_group \<Rightarrow> nat set \<Rightarrow> origin \<Rightarrow> bool" where
  "recorded P t L R orig \<longleftrightarrow> (\<exists>p ap. P t = Some p \<and> map_of (pl_parents p) L = Some ap \<and>
     mask_set (ap_resulting ap) = R \<and> orig \<in> set (ap_origins ap))"

text \<open>Every import of a settled group that it does not provide itself has recorded it as a parent.\<close>

definition settled :: "module_graph \<Rightarrow> entry_plan list \<Rightarrow> (nat \<rightharpoonup> async_plan) \<Rightarrow> logical_group \<Rightarrow> bool" where
  "settled mg entries P L \<longleftrightarrow> (\<forall>m \<in> group_mods entries P L. \<forall>(orig, t) \<in> imports_of mg m.
     t \<notin> group_avail entries P L \<longrightarrow> recorded P t L (group_avail entries P L) orig)"

definition plans_ok :: "module_graph \<Rightarrow> entry_plan list \<Rightarrow> (nat \<rightharpoonup> async_plan) \<Rightarrow> bool" where
  "plans_ok mg entries P \<longleftrightarrow> (\<forall>t p. P t = Some p \<longrightarrow> plan_ok mg entries P t p)"

definition potential :: "nat \<Rightarrow> (nat \<rightharpoonup> async_plan) \<Rightarrow> nat" where
  "potential n P = (\<Sum>t < n. case P t of None \<Rightarrow> 2 * n + 1
     | Some p \<Rightarrow> card (mask_set (pl_min p)) + card (mask_set (pl_resulting p)))"

definition inner_inv ::
  "module_graph \<Rightarrow> entry_plan list \<Rightarrow> logical_group \<Rightarrow> nat set \<Rightarrow> nat set \<Rightarrow> (origin \<times> nat) set \<Rightarrow>
   (nat \<rightharpoonup> async_plan) \<Rightarrow> logical_group list \<Rightarrow> bool" where
  "inner_inv mg entries L R M seen P pending \<longleftrightarrow>
     plans_ok mg entries P \<and> group_valid entries P L \<and> group_avail entries P L = R \<and>
     group_mods entries P L = M \<and> (\<forall>K \<in> set pending. group_valid entries P K) \<and>
     (\<forall>K. group_valid entries P K \<and> K \<noteq> L \<and> K \<notin> set pending \<longrightarrow> settled mg entries P K) \<and>
     (\<forall>(orig, t) \<in> seen. t \<notin> R \<longrightarrow> recorded P t L R orig)"

lemma potential_update:
  assumes "t < n" and "(case P t of None \<Rightarrow> 2 * n + 1
      | Some p \<Rightarrow> card (mask_set (pl_min p)) + card (mask_set (pl_resulting p))) = a"
    and "card (mask_set (pl_min p')) + card (mask_set (pl_resulting p')) = b"
  shows "potential n (P(t \<mapsto> p')) + a = potential n P + b"
proof -
  let ?f = "\<lambda>P :: nat \<rightharpoonup> async_plan. \<lambda>t. case P t of None \<Rightarrow> 2 * n + 1
     | Some p \<Rightarrow> card (mask_set (pl_min p)) + card (mask_set (pl_resulting p))"
  have "potential n Q = ?f Q t + sum (?f Q) ({..<n} - {t})" for Q
    using assms(1) unfolding potential_def by (subst sum.remove [of _ t]) auto
  moreover have "sum (?f (P(t \<mapsto> p'))) ({..<n} - {t}) = sum (?f P) ({..<n} - {t})"
    by (rule sum.cong) auto
  ultimately show ?thesis using assms(2,3) by simp
qed

lemma group_upd_other:
  "L \<noteq> LAsync t \<Longrightarrow> group_avail entries (P(t \<mapsto> p')) L = group_avail entries P L"
  "L \<noteq> LAsync t \<Longrightarrow> group_mods entries (P(t \<mapsto> p')) L = group_mods entries P L"
  "group_avail entries (P(t \<mapsto> p')) (LAsync t) = mask_set (pl_resulting p')"
  "group_mods entries (P(t \<mapsto> p')) (LAsync t) = set (plan_modules p')"
  "group_valid entries (P(t \<mapsto> p')) L \<longleftrightarrow> L = LAsync t \<or> group_valid entries P L"
  by (cases L; auto simp: group_avail_def group_mods_def group_valid_def)+

lemma avail_range:
  assumes wf: "graph_wf mg" and ents: "\<forall>e \<in> set entries. entry_ok mg e"
    and ok: "plans_ok mg entries P" and L: "group_valid entries P L"
  shows "group_avail entries P L \<subseteq> {..<length (gs_modules mg)}"
    and "group_mods entries P L \<subseteq> group_avail entries P L"
proof -
  have "group_avail entries P L \<subseteq> {..<length (gs_modules mg)} \<and> group_mods entries P L \<subseteq> group_avail entries P L"
  proof (cases L)
    case (LEntry i)
    with L ents have "entry_ok mg (entries ! i)" by (simp add: group_valid_def)
    with LEntry show ?thesis by (simp add: entry_ok_def group_avail_def group_mods_def)
  next
    case (LAsync t)
    with L ok obtain p where p: "P t = Some p" "plan_ok mg entries P t p"
      by (auto simp: group_valid_def plans_ok_def)
    then have t: "t < length (gs_modules mg)" and s: "set (pl_static p) = static_walk.reach mg t"
      and m: "masks_ok mg p" by (simp_all add: plan_ok_def)
    have "set (pl_static p) \<subseteq> {..<length (gs_modules mg)}"
      using s static_walk.reach_range [OF wf t] by auto
    with LAsync p m show ?thesis
      by (auto simp: masks_ok_def group_avail_def group_mods_def set_plan_modules)
  qed
  then show "group_avail entries P L \<subseteq> {..<length (gs_modules mg)}"
    and "group_mods entries P L \<subseteq> group_avail entries P L" by blast+
qed

lemma min_closed:
  assumes "plan_ok mg entries P t p"
  shows "static_closed mg (mask_set (pl_min p))"
proof -
  from assms have m: "mask_set (pl_min p) = parents_set (pl_parents p)" and ne: "pl_parents p \<noteq> []"
    and r: "\<And>L ap. (L, ap) \<in> set (pl_parents p) \<Longrightarrow> static_closed mg (mask_set (ap_resulting ap))"
    by (auto simp: plan_ok_def masks_ok_def record_ok_def)
  show ?thesis unfolding m using r by (fastforce simp: parents_set_def static_closed_def)
qed

lemma avail_closed:
  assumes ents: "\<forall>e \<in> set entries. entry_ok mg e"
    and ok: "plans_ok mg entries P" and L: "group_valid entries P L"
  shows "static_closed mg (group_avail entries P L)"
proof (cases L)
  case (LEntry i)
  with L ents have "entry_ok mg (entries ! i)" by (simp add: group_valid_def)
  with LEntry show ?thesis by (simp add: entry_ok_def group_avail_def)
next
  case (LAsync t)
  with L ok obtain p where p: "P t = Some p" "plan_ok mg entries P t p"
    by (auto simp: group_valid_def plans_ok_def)
  then have "mask_set (pl_resulting p) = mask_set (pl_min p) \<union> static_walk.reach mg t"
    by (simp add: plan_ok_def masks_ok_def)
  with static_closed_Un [OF min_closed [OF p(2)] static_closed_reach] LAsync p(1) show ?thesis
    by (simp add: group_avail_def)
qed

lemma target_in_own: "plan_ok mg entries P t p \<Longrightarrow> t \<in> mask_set (pl_resulting p) \<and> t \<in> set (pl_static p)"
  using static_walk.reach_refl by (auto simp: plan_ok_def masks_ok_def)

text \<open>Updating one plan with a parent that only takes modules away keeps the other groups settled.\<close>

lemma settled_update:
  assumes set: "settled mg entries P K" and K: "K \<noteq> L"
    and same: "K \<noteq> LAsync t \<or> group_avail entries (P(t \<mapsto> p')) K = group_avail entries P K \<and>
                               group_mods entries (P(t \<mapsto> p')) K = group_mods entries P K"
    and par: "\<And>p. P t = Some p \<Longrightarrow> map_of (pl_parents p') K = map_of (pl_parents p) K"
  shows "settled mg entries (P(t \<mapsto> p')) K"
proof -
  have "recorded (P(t \<mapsto> p')) u K R orig" if "recorded P u K R orig" for u R orig
    using that par by (auto simp: recorded_def)
  moreover have "group_avail entries (P(t \<mapsto> p')) K = group_avail entries P K"
    "group_mods entries (P(t \<mapsto> p')) K = group_mods entries P K"
    using same group_upd_other(1,2) by blast+
  ultimately show ?thesis using set unfolding settled_def by fastforce
qed

section \<open>One import\<close>

lemma card_sum_less:
  assumes "finite A" "finite B" and "A' \<subseteq> A" "B' \<subseteq> B" and "A' \<noteq> A \<or> B' \<noteq> B"
  shows "card A' + card B' < card A + card B"
proof -
  have "card A' \<le> card A" "card B' \<le> card B" using assms by (auto intro: card_mono)
  moreover have "card A' < card A \<or> card B' < card B" using assms by (metis psubset_card_mono psubsetI)
  ultimately show ?thesis by linarith
qed

lemma plan_import_known:
  assumes wf: "graph_wf mg" and ents: "\<forall>e \<in> set entries. entry_ok mg e"
    and inv: "inner_inv mg entries L R M seen (map_of plans) pending"
    and Rm: "mask_fits (length (gs_modules mg)) Rm" "mask_set Rm = R"
    and imp: "(orig, t) \<in> imports_of mg (fst orig)" "fst orig \<in> M" and tR: "t \<notin> R"
    and p: "map_of plans t = Some p"
  shows "\<exists>plans' pending'. plan_import memo mg L Rm (orig, t) (plans, pending) = Some (plans', pending') \<and>
     inner_inv mg entries L R M (insert (orig, t) seen) (map_of plans') pending' \<and>
     (potential (length (gs_modules mg)) (map_of plans') < potential (length (gs_modules mg)) (map_of plans) \<or>
      pending' = pending \<and> potential (length (gs_modules mg)) (map_of plans') = potential (length (gs_modules mg)) (map_of plans))"
proof -
  let ?n = "length (gs_modules mg)" and ?P = "map_of plans"
  from inv have ok: "plans_ok mg entries ?P" and Lv: "group_valid entries ?P L" and LR: "group_avail entries ?P L = R"
    and LM: "group_mods entries ?P L = M" and pend: "\<forall>K \<in> set pending. group_valid entries ?P K"
    and stl: "\<And>K. group_valid entries ?P K \<Longrightarrow> K \<noteq> L \<Longrightarrow> K \<notin> set pending \<Longrightarrow> settled mg entries ?P K"
    and seen: "\<And>o' u. (o', u) \<in> seen \<Longrightarrow> u \<notin> R \<Longrightarrow> recorded ?P u L R o'"
    by (auto simp: inner_inv_def)
  from ok p have pok: "plan_ok mg entries ?P t p" by (simp add: plans_ok_def)
  then have mok: "masks_ok mg p" and t: "t < ?n" and st: "set (pl_static p) = static_walk.reach mg t"
    and tgt: "pl_target p = t" and recs: "\<And>K ap. (K, ap) \<in> set (pl_parents p) \<Longrightarrow> record_ok mg entries ?P t K ap"
    by (auto simp: plan_ok_def)
  have static: "\<forall>x \<in> set (pl_static p). x < ?n" using st static_walk.reach_range [OF wf t] by blast
  have fitsr: "\<forall>(K, ap) \<in> set (pl_parents p). mask_fits ?n (ap_resulting ap)"
    using recs by (auto simp: record_ok_def)
  have old: "\<forall>ap. map_of (pl_parents p) L = Some ap \<longrightarrow> mask_set Rm \<subseteq> mask_set (ap_resulting ap)"
  proof (intro allI impI)
    fix ap assume "map_of (pl_parents p) L = Some ap"
    then have "record_ok mg entries ?P t L ap" using recs map_of_SomeD by fast
    then show "mask_set Rm \<subseteq> mask_set (ap_resulting ap)" by (simp add: record_ok_def LR Rm(2))
  qed
  from plan_add_parent_ok [OF mok fitsr static Rm(1) old, of orig] obtain p' new where
    add: "plan_add_parent L Rm orig p = Some (p', pl_min p \<noteq> pl_min p' \<or> pl_resulting p \<noteq> pl_resulting p')"
    and mok': "masks_ok mg p'" and tgt': "pl_target p' = pl_target p" and st': "pl_static p' = pl_static p"
    and mn: "mask_set (pl_min p') \<subseteq> mask_set (pl_min p)" and ps': "pl_parents p' = AList.update L new (pl_parents p)"
    and new: "ap_resulting new = Rm"
    and no: "set (ap_origins new) = insert orig (case map_of (pl_parents p) L of Some ap \<Rightarrow> set (ap_origins ap) | None \<Rightarrow> {})"
    by blast
  let ?ch = "pl_min p \<noteq> pl_min p' \<or> pl_resulting p \<noteq> pl_resulting p'"
  let ?P' = "?P(t \<mapsto> p')"
  let ?pend = "if ?ch then pending @ [LAsync t] else pending"
  have res: "mask_set (pl_resulting p') \<subseteq> mask_set (pl_resulting p)"
    using mok mok' mn st' by (auto simp: masks_ok_def)
  have le: "plans_le ?P ?P'" using plans_le_update [of ?P t p p'] p res mn st' by blast
  have LnT: "L \<noteq> LAsync t"
    using target_in_own [OF pok] tR LR p by (auto simp: group_avail_def)
  have par: "map_of (pl_parents p') K = (if K = L then Some new else map_of (pl_parents p) K)" for K
    by (simp add: ps' update_conv)
  have recn: "record_ok mg entries ?P' t K ap" if "(K, ap) \<in> set (pl_parents p')" for K ap
  proof -
    have "map_of (pl_parents p') K = Some ap"
      using that mok' map_of_is_SomeI [of "pl_parents p'" K ap] by (simp add: masks_ok_def)
    then have "(if K = L then Some new else map_of (pl_parents p) K) = Some ap" using par by metis
    then consider "K = L" "ap = new" | "map_of (pl_parents p) K = Some ap" by (metis option.inject)
    then show ?thesis
    proof cases
      case 1
      have "fst o' \<in> M \<and> (o', t) \<in> imports_of mg (fst o')" if "o' \<in> set (ap_origins new)" for o'
        using that no imp recs LM
        by (auto simp: record_ok_def split: option.splits dest!: map_of_SomeD)
      moreover have "ap_origins new \<noteq> []" using no by auto
      ultimately show ?thesis
        using 1 Lv LR LM LnT Rm new tR avail_closed [OF ents ok Lv] by (simp add: record_ok_def group_upd_other)
    next
      case 2
      then show ?thesis using recs record_ok_mono [OF le] by (auto dest: map_of_SomeD)
    qed
  qed
  have pok': "plan_ok mg entries ?P' t p'"
    using mok' tgt tgt' st st' t recn by (auto simp: plan_ok_def)
  have "plans_ok mg entries ?P'"
    using ok pok' plan_ok_mono [OF le] by (auto simp: plans_ok_def)
  moreover have "group_valid entries ?P' L" "group_avail entries ?P' L = R" "group_mods entries ?P' L = M"
    using Lv LR LM LnT by (simp_all add: group_upd_other)
  moreover have "\<forall>K \<in> set ?pend. group_valid entries ?P' K" using pend by (auto simp: group_upd_other)
  moreover have "settled mg entries ?P' K"
    if K: "group_valid entries ?P' K" "K \<noteq> L" "K \<notin> set ?pend" for K
  proof (rule settled_update [OF _ K(2)])
    have "group_valid entries ?P K" using K(1) p by (cases K) (auto simp: group_valid_def split: if_splits)
    with K show "settled mg entries ?P K" by (intro stl) (auto split: if_splits)
    show "K \<noteq> LAsync t \<or> group_avail entries ?P' K = group_avail entries ?P K \<and> group_mods entries ?P' K = group_mods entries ?P K"
    proof (cases "K = LAsync t")
      case True
      with K(3) have "pl_min p = pl_min p'" "pl_resulting p = pl_resulting p'" by (auto split: if_splits)
      with True p st' show ?thesis
        by (simp add: group_avail_def group_mods_def plan_modules_def)
    qed simp
    show "map_of (pl_parents p') K = map_of (pl_parents q) K" if "?P t = Some q" for q
      using that p K(2) by (simp add: par)
  qed
  moreover have "recorded ?P' u L R o'" if "(o', u) \<in> insert (orig, t) seen" "u \<notin> R" for o' u
  proof (cases "u = t")
    case True
    have "o' \<in> set (ap_origins new)"
      using that True seen [of o' u] no p by (auto simp: recorded_def split: option.splits)
    with True show ?thesis using new Rm(2) by (simp add: recorded_def par)
  next
    case False
    with that have "recorded ?P u L R o'" using seen by auto
    with False show ?thesis by (simp add: recorded_def)
  qed
  ultimately have inv': "inner_inv mg entries L R M (insert (orig, t) seen) ?P' ?pend"
    unfolding inner_inv_def by blast
  have fin: "finite (mask_set (pl_min p))" "finite (mask_set (pl_resulting p))"
    using mok by (auto simp: masks_ok_def intro: finite_subset)
  let ?c = "card (mask_set (pl_min p)) + card (mask_set (pl_resulting p))"
  let ?c' = "card (mask_set (pl_min p')) + card (mask_set (pl_resulting p'))"
  have pot: "potential ?n ?P' + ?c = potential ?n ?P + ?c'"
    by (rule potential_update [OF t]) (simp_all add: p)
  have less: "?c' < ?c" if ?ch
  proof (rule card_sum_less [OF fin mn res])
    have f: "mask_fits ?n (pl_min p)" "mask_fits ?n (pl_resulting p)" "mask_fits ?n (pl_min p')" "mask_fits ?n (pl_resulting p')"
      using mok mok' by (simp_all add: masks_ok_def)
    show "mask_set (pl_min p') \<noteq> mask_set (pl_min p) \<or> mask_set (pl_resulting p') \<noteq> mask_set (pl_resulting p)"
      using that mask.elems_inject [OF f(3,1)] mask.elems_inject [OF f(4,2)] by auto
  qed
  have nc: "\<not> mask_contains Rm t" using tR Rm(2) by (auto simp: mask_set_eq)
  have imported: "plan_import memo mg L Rm (orig, t) (plans, pending) = Some (AList.update t p' plans, ?pend)"
    unfolding plan_import_def using nc p add by simp
  have upd: "map_of (AList.update t p' plans) = ?P'" by (rule update_conv')
  have falls: "potential ?n ?P' < potential ?n ?P \<or> ?pend = pending \<and> potential ?n ?P' = potential ?n ?P"
  proof (cases ?ch)
    case True
    with less pot show ?thesis by linarith
  next
    case False
    then have "?c' = ?c" by simp
    then have "potential ?n ?P' = potential ?n ?P" using pot by linarith
    moreover have "?pend = pending" using False by (simp only: if_False)
    ultimately show ?thesis by blast
  qed
  show ?thesis
  proof (intro exI conjI)
    show "plan_import memo mg L Rm (orig, t) (plans, pending) = Some (AList.update t p' plans, ?pend)"
      by (rule imported)
    show "inner_inv mg entries L R M (insert (orig, t) seen) (map_of (AList.update t p' plans)) ?pend"
      unfolding upd by (rule inv')
    show "potential ?n (map_of (AList.update t p' plans)) < potential ?n ?P \<or>
        ?pend = pending \<and> potential ?n (map_of (AList.update t p' plans)) = potential ?n ?P"
      unfolding upd by (rule falls)
  qed
qed

lemma plan_import_fresh:
  assumes wf: "graph_wf mg" and memo: "memo_ok memo mg" and ents: "\<forall>e \<in> set entries. entry_ok mg e"
    and inv: "inner_inv mg entries L R M seen (map_of plans) pending"
    and Rm: "mask_fits (length (gs_modules mg)) Rm" "mask_set Rm = R" and Rn: "R \<subseteq> {..<length (gs_modules mg)}"
    and imp: "(orig, t) \<in> imports_of mg (fst orig)" "fst orig \<in> M" and tR: "t \<notin> R"
    and p: "map_of plans t = None"
  shows "\<exists>plans' pending'. plan_import memo mg L Rm (orig, t) (plans, pending) = Some (plans', pending') \<and>
     inner_inv mg entries L R M (insert (orig, t) seen) (map_of plans') pending' \<and>
     potential (length (gs_modules mg)) (map_of plans') < potential (length (gs_modules mg)) (map_of plans)"
proof -
  let ?n = "length (gs_modules mg)" and ?P = "map_of plans"
  from inv have ok: "plans_ok mg entries ?P" and Lv: "group_valid entries ?P L" and LR: "group_avail entries ?P L = R"
    and LM: "group_mods entries ?P L = M" and pend: "\<forall>K \<in> set pending. group_valid entries ?P K"
    and stl: "\<And>K. group_valid entries ?P K \<Longrightarrow> K \<noteq> L \<Longrightarrow> K \<notin> set pending \<Longrightarrow> settled mg entries ?P K"
    and seen: "\<And>o' u. (o', u) \<in> seen \<Longrightarrow> u \<notin> R \<Longrightarrow> recorded ?P u L R o'"
    by (auto simp: inner_inv_def)
  from imports_of_range [OF wf imp(1)] have t: "t < ?n" by simp
  from cached_reachable_spec [OF wf memo t] obtain st where
    st: "collect_static_reachable_cached memo mg t = Some st" "set st = static_walk.reach mg t" "\<forall>x \<in> set st. x < ?n"
    by blast
  from mask_insert_all_spec [OF Rm(1) st(3)] obtain res where
    res: "mask_insert_all st Rm = Some res" "mask_fits ?n res" "mask_set res = set st \<union> mask_set Rm" by blast
  let ?ap = "\<lparr>ap_resulting = Rm, ap_origins = [orig]\<rparr>"
  let ?p = "\<lparr>pl_target = t, pl_static = st, pl_min = Rm, pl_resulting = res, pl_parents = [(L, ?ap)]\<rparr>"
  let ?P' = "?P(t \<mapsto> ?p)"
  have le: "plans_le ?P ?P'" using plans_le_new [of ?P t ?p] p by blast
  have LnT: "L \<noteq> LAsync t" using Lv p by (auto simp: group_valid_def)
  have mok: "masks_ok mg ?p" using Rm Rn res by (auto simp: masks_ok_def parents_set_def)
  have "record_ok mg entries ?P' t L ?ap"
    using Lv LR LM LnT Rm tR imp avail_closed [OF ents ok Lv] by (simp add: record_ok_def group_upd_other)
  then have pok: "plan_ok mg entries ?P' t ?p" using mok t st by (simp add: plan_ok_def)
  have "plans_ok mg entries ?P'" using ok pok plan_ok_mono [OF le] by (auto simp: plans_ok_def)
  moreover have "group_valid entries ?P' L" "group_avail entries ?P' L = R" "group_mods entries ?P' L = M"
    using Lv LR LM LnT by (simp_all add: group_upd_other)
  moreover have "\<forall>K \<in> set (pending @ [LAsync t]). group_valid entries ?P' K" using pend by (auto simp: group_upd_other)
  moreover have "settled mg entries ?P' K"
    if K: "group_valid entries ?P' K" "K \<noteq> L" "K \<notin> set (pending @ [LAsync t])" for K
  proof (rule settled_update [OF _ K(2)])
    show "settled mg entries ?P K" using K by (intro stl) (auto simp: group_upd_other)
    show "K \<noteq> LAsync t \<or> group_avail entries ?P' K = group_avail entries ?P K \<and> group_mods entries ?P' K = group_mods entries ?P K"
      using K(3) by simp
    show "map_of (pl_parents ?p) K = map_of (pl_parents q) K" if "?P t = Some q" for q using that p by simp
  qed
  moreover have "recorded ?P' u L R o'" if "(o', u) \<in> insert (orig, t) seen" "u \<notin> R" for o' u
  proof (cases "u = t")
    case True
    then have "o' = orig" using that seen [of o' u] p by (auto simp: recorded_def)
    with True show ?thesis using Rm(2) by (simp add: recorded_def)
  next
    case False
    with that have "recorded ?P u L R o'" using seen by auto
    with False show ?thesis by (simp add: recorded_def)
  qed
  ultimately have inv': "inner_inv mg entries L R M (insert (orig, t) seen) ?P' (pending @ [LAsync t])"
    unfolding inner_inv_def by blast
  have "mask_set Rm \<subseteq> {..<?n}" "mask_set res \<subseteq> {..<?n}" using Rm(2) Rn res(3) st(3) by auto
  then have "card (mask_set Rm) \<le> card {..<?n}" "card (mask_set res) \<le> card {..<?n}"
    using card_mono [OF finite_lessThan] by blast+
  moreover have "potential ?n ?P' + (2 * ?n + 1) = potential ?n ?P + (card (mask_set Rm) + card (mask_set res))"
    by (rule potential_update [OF t]) (simp_all add: p)
  ultimately have "potential ?n ?P' < potential ?n ?P" by simp
  moreover have "plan_import memo mg L Rm (orig, t) (plans, pending) = Some (AList.update t ?p plans, pending @ [LAsync t])"
  proof -
    have "\<not> mask_contains Rm t" using tR Rm(2) by (auto simp: mask_set_eq)
    then show ?thesis using p st(1) res(1) by (simp add: plan_import_def plan_new_def)
  qed
  moreover have "map_of (AList.update t ?p plans) = ?P'" by (rule update_conv')
  ultimately show ?thesis using inv'
    by (intro exI [of _ "AList.update t ?p plans"] exI [of _ "pending @ [LAsync t]"]) simp
qed

lemma plan_import_ok:
  assumes wf: "graph_wf mg" and memo: "memo_ok memo mg" and ents: "\<forall>e \<in> set entries. entry_ok mg e"
    and inv: "inner_inv mg entries L R M seen (map_of plans) pending"
    and Rm: "mask_fits (length (gs_modules mg)) Rm" "mask_set Rm = R"
    and imp: "(orig, t) \<in> imports_of mg (fst orig)" "fst orig \<in> M"
  shows "\<exists>plans' pending'. plan_import memo mg L Rm (orig, t) (plans, pending) = Some (plans', pending') \<and>
     inner_inv mg entries L R M (insert (orig, t) seen) (map_of plans') pending' \<and>
     (potential (length (gs_modules mg)) (map_of plans') < potential (length (gs_modules mg)) (map_of plans) \<or>
      pending' = pending \<and> potential (length (gs_modules mg)) (map_of plans') = potential (length (gs_modules mg)) (map_of plans))"
proof (cases "t \<in> R")
  case True
  then have "plan_import memo mg L Rm (orig, t) (plans, pending) = Some (plans, pending)"
    using Rm(2) by (auto simp: plan_import_def mask_set_eq)
  moreover have "inner_inv mg entries L R M (insert (orig, t) seen) (map_of plans) pending"
    using inv True by (auto simp: inner_inv_def)
  ultimately show ?thesis by blast
next
  case False
  from inv have "plans_ok mg entries (map_of plans)" "group_valid entries (map_of plans) L" "group_avail entries (map_of plans) L = R"
    by (simp_all add: inner_inv_def)
  with avail_range(1) [OF wf ents] have Rn: "R \<subseteq> {..<length (gs_modules mg)}" by blast
  show ?thesis
  proof (cases "map_of plans t")
    case None
    from plan_import_fresh [OF wf memo ents inv Rm Rn imp False None] show ?thesis by blast
  next
    case (Some p)
    from plan_import_known [OF wf ents inv Rm imp False Some] show ?thesis by blast
  qed
qed

lemma plan_imports_fold:
  assumes wf: "graph_wf mg" and memo: "memo_ok memo mg" and ents: "\<forall>e \<in> set entries. entry_ok mg e"
    and inv: "inner_inv mg entries L R M seen (map_of plans) pending"
    and Rm: "mask_fits (length (gs_modules mg)) Rm" "mask_set Rm = R"
    and imps: "\<forall>(orig, t) \<in> set is. (orig, t) \<in> imports_of mg (fst orig) \<and> fst orig \<in> M"
  shows "\<exists>plans' pending'. fold_opt (plan_import memo mg L Rm) is (plans, pending) = Some (plans', pending') \<and>
     inner_inv mg entries L R M (set is \<union> seen) (map_of plans') pending' \<and>
     (potential (length (gs_modules mg)) (map_of plans') < potential (length (gs_modules mg)) (map_of plans) \<or>
      pending' = pending \<and> potential (length (gs_modules mg)) (map_of plans') = potential (length (gs_modules mg)) (map_of plans))"
  using inv imps
proof (induction "is" arbitrary: seen plans pending)
  case Nil
  then show ?case by simp
next
  case (Cons i "is")
  obtain orig t where i: "i = (orig, t)" by (cases i)
  with Cons.prems(2) have imp: "(orig, t) \<in> imports_of mg (fst orig)" "fst orig \<in> M" by simp_all
  from plan_import_ok [OF wf memo ents Cons.prems(1) Rm imp] obtain plans1 pending1 where
    s: "plan_import memo mg L Rm (orig, t) (plans, pending) = Some (plans1, pending1)"
    and inv1: "inner_inv mg entries L R M (insert (orig, t) seen) (map_of plans1) pending1"
    and pot1: "potential (length (gs_modules mg)) (map_of plans1) < potential (length (gs_modules mg)) (map_of plans) \<or>
      pending1 = pending \<and> potential (length (gs_modules mg)) (map_of plans1) = potential (length (gs_modules mg)) (map_of plans)"
    by blast
  from Cons.prems(2) have "\<forall>(orig, t) \<in> set is. (orig, t) \<in> imports_of mg (fst orig) \<and> fst orig \<in> M" by simp
  from Cons.IH [OF inv1 this] obtain plans' pending' where
    f: "fold_opt (plan_import memo mg L Rm) is (plans1, pending1) = Some (plans', pending')"
    and inv': "inner_inv mg entries L R M (set is \<union> insert (orig, t) seen) (map_of plans') pending'"
    and pot': "potential (length (gs_modules mg)) (map_of plans') < potential (length (gs_modules mg)) (map_of plans1) \<or>
      pending' = pending1 \<and> potential (length (gs_modules mg)) (map_of plans') = potential (length (gs_modules mg)) (map_of plans1)"
    by blast
  have "set is \<union> insert (orig, t) seen = set (i # is) \<union> seen" by (simp add: i)
  with inv' have "inner_inv mg entries L R M (set (i # is) \<union> seen) (map_of plans') pending'" by simp
  moreover have "fold_opt (plan_import memo mg L Rm) (i # is) (plans, pending) = Some (plans', pending')"
    using s f by (simp add: i)
  moreover have "potential (length (gs_modules mg)) (map_of plans') < potential (length (gs_modules mg)) (map_of plans) \<or>
      pending' = pending \<and> potential (length (gs_modules mg)) (map_of plans') = potential (length (gs_modules mg)) (map_of plans)"
    using pot1 pot' by auto
  ultimately show ?case by blast
qed

section \<open>The worklist ends with every group settled\<close>

definition state_inv :: "module_graph \<Rightarrow> entry_plan list \<Rightarrow> plan_state \<Rightarrow> bool" where
  "state_inv mg entries s \<longleftrightarrow> (case s of (plans, pending) \<Rightarrow>
     plans_ok mg entries (map_of plans) \<and>
     (\<forall>K \<in> set pending. group_valid entries (map_of plans) K) \<and>
     (\<forall>K. group_valid entries (map_of plans) K \<and> K \<notin> set pending \<longrightarrow> settled mg entries (map_of plans) K))"

definition plan_order :: "nat \<Rightarrow> (plan_state \<times> plan_state) set" where
  "plan_order n = measures [\<lambda>(plans, _). potential n (map_of plans), \<lambda>(_, pending). length pending]"

lemma parent_context_spec:
  assumes ents: "\<forall>e \<in> set entries. entry_ok mg e" and ok: "plans_ok mg entries (map_of plans)"
    and L: "group_valid entries (map_of plans) L"
  shows "\<exists>ms Rm. parent_context entries plans L = Some (ms, Rm) \<and> set ms = group_mods entries (map_of plans) L \<and>
     mask_fits (length (gs_modules mg)) Rm \<and> mask_set Rm = group_avail entries (map_of plans) L"
proof (cases L)
  case (LEntry i)
  with L ents have "entry_ok mg (entries ! i)" "i < length entries" by (simp_all add: group_valid_def)
  with LEntry show ?thesis by (simp add: parent_context_def group_mods_def group_avail_def entry_ok_def)
next
  case (LAsync t)
  with L ok obtain p where "map_of plans t = Some p" "plan_ok mg entries (map_of plans) t p"
    by (auto simp: group_valid_def plans_ok_def)
  with LAsync show ?thesis
    by (simp add: parent_context_def group_mods_def group_avail_def plan_ok_def masks_ok_def)
qed

lemma plan_step_ok:
  assumes wf: "graph_wf mg" and memo: "memo_ok memo mg" and ents: "\<forall>e \<in> set entries. entry_ok mg e"
    and inv: "state_inv mg entries (plans, L # pending)"
  shows "\<exists>s'. plan_step memo mg entries (plans, L # pending) = Some s' \<and> state_inv mg entries s' \<and>
     (s', (plans, L # pending)) \<in> plan_order (length (gs_modules mg))"
proof -
  let ?P = "map_of plans"
  let ?M = "group_mods entries ?P L" and ?R = "group_avail entries ?P L"
  from inv have ok: "plans_ok mg entries ?P" and Lv: "group_valid entries ?P L" by (auto simp: state_inv_def)
  from parent_context_spec [OF ents ok Lv] obtain ms Rm where
    ctx: "parent_context entries plans L = Some (ms, Rm)" and M: "set ms = ?M"
    and R: "mask_fits (length (gs_modules mg)) Rm" "mask_set Rm = ?R" by blast
  have "\<forall>m \<in> set ms. m < length (gs_modules mg)"
    using avail_range [OF wf ents ok Lv] M by blast
  from dynamic_import_origins_spec [OF wf this] obtain "is" where
    imps: "dynamic_import_origins mg ms = Some is" "set is = (\<Union>m \<in> ?M. imports_of mg m)" using M by auto
  have inner: "inner_inv mg entries L ?R ?M {} ?P pending"
    using inv by (auto simp: inner_inv_def state_inv_def)
  have origins: "\<forall>(orig, t) \<in> set is. (orig, t) \<in> imports_of mg (fst orig) \<and> fst orig \<in> ?M"
    using imps(2) imports_of_origin by fastforce
  from plan_imports_fold [OF wf memo ents inner R origins] obtain plans' pending' where
    f: "fold_opt (plan_import memo mg L Rm) is (plans, pending) = Some (plans', pending')"
    and inv': "inner_inv mg entries L ?R ?M (set is \<union> {}) (map_of plans') pending'"
    and pot: "potential (length (gs_modules mg)) (map_of plans') < potential (length (gs_modules mg)) ?P \<or>
      pending' = pending \<and> potential (length (gs_modules mg)) (map_of plans') = potential (length (gs_modules mg)) ?P"
    by blast
  from inv' have rec: "\<And>orig t. (orig, t) \<in> set is \<Longrightarrow> t \<notin> ?R \<Longrightarrow> recorded (map_of plans') t L ?R orig"
    and eqM: "group_mods entries (map_of plans') L = ?M" and eqR: "group_avail entries (map_of plans') L = ?R"
    and ok': "plans_ok mg entries (map_of plans')" and pend': "\<forall>K \<in> set pending'. group_valid entries (map_of plans') K"
    and stl': "\<And>K. group_valid entries (map_of plans') K \<Longrightarrow> K \<noteq> L \<Longrightarrow> K \<notin> set pending' \<Longrightarrow> settled mg entries (map_of plans') K"
    by (auto simp: inner_inv_def)
  have stlL: "settled mg entries (map_of plans') L"
    unfolding settled_def eqM eqR
  proof (intro ballI)
    fix m i assume m: "m \<in> ?M" and i: "i \<in> imports_of mg m"
    then have "(fst i, snd i) \<in> set is" using imps(2) by auto
    from rec [OF this]
    show "case i of (orig, t) \<Rightarrow> t \<notin> ?R \<longrightarrow> recorded (map_of plans') t L ?R orig" by (cases i) simp
  qed
  have "settled mg entries (map_of plans') K" if "group_valid entries (map_of plans') K" "K \<notin> set pending'" for K
    using stl' [OF that(1) _ that(2)] stlL by (cases "K = L") simp_all
  with ok' pend' have "state_inv mg entries (plans', pending')" by (simp add: state_inv_def)
  moreover have "plan_step memo mg entries (plans, L # pending) = Some (plans', pending')"
    using ctx imps(1) f by (simp add: plan_step_def)
  moreover have "((plans', pending'), (plans, L # pending)) \<in> plan_order (length (gs_modules mg))"
    using pot by (auto simp: plan_order_def)
  ultimately show ?thesis by blast
qed

lemma plan_async_chunks_total:
  assumes wf: "graph_wf mg" and memo: "memo_ok memo mg" and ents: "\<forall>e \<in> set entries. entry_ok mg e"
  shows "\<exists>plans. plan_async_chunks memo mg entries = Some plans \<and> plans_ok mg entries (map_of plans) \<and>
     (\<forall>K. group_valid entries (map_of plans) K \<longrightarrow> settled mg entries (map_of plans) K)"
proof -
  let ?b = "\<lambda>(_ :: plans, pending). pending \<noteq> []"
  have "\<exists>t. loop_opt ?b (plan_step memo mg entries) ([], map LEntry [0..<length entries]) = Some t \<and>
      state_inv mg entries t \<and> \<not> ?b t"
  proof (rule loop_opt_rule [where r = "plan_order (length (gs_modules mg))"])
    show "state_inv mg entries ([], map LEntry [0..<length entries])"
      by (auto simp: state_inv_def plans_ok_def group_valid_def split: logical_group.splits)
    show "wf (plan_order (length (gs_modules mg)))" by (simp add: plan_order_def)
    fix s assume "state_inv mg entries s" "?b s"
    moreover obtain plans L pending where "s = (plans, L # pending)"
      using \<open>?b s\<close> by (cases s; cases "snd s") auto
    ultimately show "\<exists>t. plan_step memo mg entries s = Some t \<and> state_inv mg entries t \<and>
        (t, s) \<in> plan_order (length (gs_modules mg))"
      using plan_step_ok [OF wf memo ents] by simp
  qed
  then show ?thesis by (auto simp: plan_async_chunks_def state_inv_def)
qed

section \<open>What the plans mean for a running program\<close>

text \<open>
  The modules that are loaded when the program has followed imports from an entry to a group:
  those of the chunks of the groups on the way.
\<close>

inductive loaded_path :: "entry_plan list \<Rightarrow> (nat \<rightharpoonup> async_plan) \<Rightarrow> logical_group \<Rightarrow> nat set \<Rightarrow> bool"
  for entries P where
  entry: "i < length entries \<Longrightarrow> loaded_path entries P (LEntry i) (group_mods entries P (LEntry i))"
| import: "loaded_path entries P L S \<Longrightarrow> P t = Some p \<Longrightarrow> map_of (pl_parents p) L \<noteq> None \<Longrightarrow>
    loaded_path entries P (LAsync t) (S \<union> group_mods entries P (LAsync t))"

lemma record_is_current:
  assumes ok: "plans_ok mg entries P" and st: "settled mg entries P L"
    and p: "P t = Some p" and ap: "map_of (pl_parents p) L = Some ap"
  shows "mask_set (ap_resulting ap) = group_avail entries P L"
proof -
  from ok p have "plan_ok mg entries P t p" by (simp add: plans_ok_def)
  moreover from ap have "(L, ap) \<in> set (pl_parents p)" by (rule map_of_SomeD)
  ultimately have rec: "record_ok mg entries P t L ap" by (auto simp: plan_ok_def)
  then obtain orig where o: "orig \<in> set (ap_origins ap)" by (cases "ap_origins ap") (auto simp: record_ok_def)
  with rec have "fst orig \<in> group_mods entries P L" "(orig, t) \<in> imports_of mg (fst orig)"
    "t \<notin> group_avail entries P L" by (auto simp: record_ok_def)
  with st have "recorded P t L (group_avail entries P L) orig" unfolding settled_def by blast
  with p ap show ?thesis by (simp add: recorded_def)
qed

lemma plan_min_is_common:
  assumes ok: "plans_ok mg entries P" and st: "\<forall>K. group_valid entries P K \<longrightarrow> settled mg entries P K"
    and p: "P t = Some p"
  shows "mask_set (pl_min p) = (\<Inter>L \<in> dom (map_of (pl_parents p)). group_avail entries P L)"
proof -
  from ok p have pok: "plan_ok mg entries P t p" by (simp add: plans_ok_def)
  then have d: "distinct (map fst (pl_parents p))" and m: "mask_set (pl_min p) = parents_set (pl_parents p)"
    by (simp_all add: plan_ok_def masks_ok_def)
  have cur: "mask_set (ap_resulting ap) = group_avail entries P L" if "map_of (pl_parents p) L = Some ap" for L ap
  proof (rule record_is_current [OF ok _ p that])
    from that pok have "record_ok mg entries P t L ap" by (auto simp: plan_ok_def dest: map_of_SomeD)
    with st show "settled mg entries P L" by (simp add: record_ok_def)
  qed
  have "x \<in> parents_set (pl_parents p) \<longleftrightarrow> (\<forall>L ap. map_of (pl_parents p) L = Some ap \<longrightarrow> x \<in> mask_set (ap_resulting ap))" for x
    using d by (auto simp: parents_set_def)
  with m cur show ?thesis by (auto simp: dom_def)
qed

text \<open>
  The groups that import a target, as the module graph says: a module of the group has a block that imports
  it, and the group does not provide it.
\<close>

definition importing_blocks ::
    "module_graph \<Rightarrow> entry_plan list \<Rightarrow> (nat \<rightharpoonup> async_plan) \<Rightarrow> nat \<Rightarrow> logical_group \<Rightarrow> origin set" where
  "importing_blocks mg entries P t L =
     (if group_valid entries P L \<and> t \<notin> group_avail entries P L
      then {orig. \<exists>m \<in> group_mods entries P L. (orig, t) \<in> imports_of mg m} else {})"

definition importing_groups :: "module_graph \<Rightarrow> entry_plan list \<Rightarrow> (nat \<rightharpoonup> async_plan) \<Rightarrow> nat \<Rightarrow> logical_group set" where
  "importing_groups mg entries P t = {L. importing_blocks mg entries P t L \<noteq> {}}"

lemma importing_blocks_recorded:
  assumes st: "\<forall>K. group_valid entries P K \<longrightarrow> settled mg entries P K" and "orig \<in> importing_blocks mg entries P t L"
  shows "recorded P t L (group_avail entries P L) orig"
proof -
  from assms(2) obtain m where "group_valid entries P L" "t \<notin> group_avail entries P L" "m \<in> group_mods entries P L"
    "(orig, t) \<in> imports_of mg m" by (auto simp: importing_blocks_def split: if_splits)
  with st show ?thesis unfolding settled_def by blast
qed

lemma parents_are_importers:
  assumes ok: "plans_ok mg entries P" and st: "\<forall>K. group_valid entries P K \<longrightarrow> settled mg entries P K"
    and p: "P t = Some p"
  shows "dom (map_of (pl_parents p)) = importing_groups mg entries P t"
    and "map_of (pl_parents p) L = Some ap \<Longrightarrow> set (ap_origins ap) = importing_blocks mg entries P t L"
proof -
  from ok p have pok: "plan_ok mg entries P t p" by (simp add: plans_ok_def)
  note rec = importing_blocks_recorded [OF st]
  have blocks: "set (ap_origins ap) = importing_blocks mg entries P t L \<and> importing_blocks mg entries P t L \<noteq> {}"
    if ap: "map_of (pl_parents p) L = Some ap" for L ap
  proof -
    from pok ap have r: "record_ok mg entries P t L ap" by (auto simp: plan_ok_def dest: map_of_SomeD)
    then have v: "group_valid entries P L" by (simp add: record_ok_def)
    with r have "set (ap_origins ap) \<subseteq> importing_blocks mg entries P t L"
      by (auto simp: record_ok_def importing_blocks_def)
    moreover have "importing_blocks mg entries P t L \<subseteq> set (ap_origins ap)"
      using p ap by (auto simp: recorded_def dest!: rec)
    ultimately show ?thesis using r by (auto simp: record_ok_def)
  qed
  then show "set (ap_origins ap) = importing_blocks mg entries P t L" if "map_of (pl_parents p) L = Some ap"
    using that by blast
  have "L \<in> dom (map_of (pl_parents p))" if "L \<in> importing_groups mg entries P t" for L
    using that p by (auto simp: importing_groups_def recorded_def dest!: rec)
  moreover have "L \<in> importing_groups mg entries P t" if "L \<in> dom (map_of (pl_parents p))" for L
    using that blocks by (auto simp: importing_groups_def)
  ultimately show "dom (map_of (pl_parents p)) = importing_groups mg entries P t" by blast
qed

lemma planned_are_imported:
  assumes ok: "plans_ok mg entries P" and st: "\<forall>K. group_valid entries P K \<longrightarrow> settled mg entries P K"
  shows "dom P = {t. importing_groups mg entries P t \<noteq> {}}"
proof -
  have "importing_groups mg entries P t \<noteq> {}" if p: "P t = Some p" for t p
  proof -
    have "pl_parents p \<noteq> []" using ok p by (auto simp: plans_ok_def plan_ok_def masks_ok_def)
    then show ?thesis using parents_are_importers(1) [OF ok st p] by (cases "pl_parents p") auto
  qed
  moreover have "t \<in> dom P" if "L \<in> importing_groups mg entries P t" for t L
    using that by (auto simp: importing_groups_def recorded_def dest!: importing_blocks_recorded [OF st])
  ultimately show ?thesis by auto
qed

lemma loaded_path_avail:
  assumes ok: "plans_ok mg entries P" and st: "\<forall>K. group_valid entries P K \<longrightarrow> settled mg entries P K"
    and ents: "\<forall>e \<in> set entries. entry_ok mg e" and path: "loaded_path entries P L S"
  shows "group_avail entries P L \<subseteq> S"
  using path
proof induction
  case (entry i)
  with ents have "entry_ok mg (entries ! i)" by simp
  then show ?case by (simp add: group_avail_def group_mods_def entry_ok_def)
next
  case (import L S t p)
  from ok import.hyps(2) have pok: "plan_ok mg entries P t p" by (simp add: plans_ok_def)
  have "mask_set (pl_min p) \<subseteq> group_avail entries P L"
    using plan_min_is_common [OF ok st import.hyps(2)] import.hyps(3) by blast
  with import.IH have "mask_set (pl_min p) \<subseteq> S" by blast
  moreover have "group_avail entries P (LAsync t) = mask_set (pl_min p) \<union> set (pl_static p)"
    using pok import.hyps(2) by (simp add: group_avail_def plan_ok_def masks_ok_def)
  moreover have "group_mods entries P (LAsync t) = set (pl_static p) - mask_set (pl_min p)"
    using import.hyps(2) by (simp add: group_mods_def set_plan_modules)
  ultimately show ?case by auto
qed

lemma loaded_path_static:
  assumes ok: "plans_ok mg entries P" and st: "\<forall>K. group_valid entries P K \<longrightarrow> settled mg entries P K"
    and ents: "\<forall>e \<in> set entries. entry_ok mg e" and path: "loaded_path entries P (LAsync t) S"
  shows "static_walk.reach mg t \<subseteq> S"
proof -
  from path obtain p where p: "P t = Some p" by cases auto
  with ok have "plan_ok mg entries P t p" by (simp add: plans_ok_def)
  then have "static_walk.reach mg t \<subseteq> group_avail entries P (LAsync t)"
    using p by (simp add: group_avail_def plan_ok_def masks_ok_def)
  with loaded_path_avail [OF ok st ents path] show ?thesis by blast
qed

end
