(* ===== verification/Chunk_Build.thy ===== *)
theory Chunk_Build
  imports Planning_Correct
begin

text \<open>
  The rest of \<open>build_chunk_graph_with_cache\<close>: entry chunks before the worklist, and after it the
  materialization of the plans as chunks and groups.  An edge between groups that would close a
  cycle is only kept as a runtime edge.
\<close>

section \<open>Entries\<close>

definition entry_name :: "string list \<Rightarrow> nat \<Rightarrow> string" where
  "entry_name nms i = (case vec_get nms i of Some n \<Rightarrow> n | None \<Rightarrow> ''entry'' @ decimal i)"

definition connect_modules :: "nat \<Rightarrow> nat list \<Rightarrow> chunk_graph \<Rightarrow> chunk_graph option" where
  "connect_modules c ms = fold_opt (connect_chunk_and_module c) ms"

definition add_entry ::
  "reach_memo \<Rightarrow> module_graph \<Rightarrow> string list \<Rightarrow> nat \<times> nat \<Rightarrow> chunk_graph \<times> entry_plan list \<Rightarrow>
   (chunk_graph \<times> entry_plan list) option" where
  "add_entry memo mg nms = (\<lambda>(i, m) (g, plans). do {
     let name = entry_name nms i;
     let (g, c) = add_chunk (Some name) [m] g;
     let (g, gr) = add_chunk_group (Entrypoint name) None g;
     g \<leftarrow> connect_chunk_and_group c gr g;
     let g = add_entrypoint gr g;
     initial \<leftarrow> collect_static_reachable_cached memo mg m;
     g \<leftarrow> connect_modules c initial g;
     avail \<leftarrow> mask_from_modules (length (gs_modules mg)) initial;
     Some (g, plans @ [\<lparr>ep_group = gr, ep_resulting = avail, ep_modules = initial\<rparr>]) })"

definition add_entries ::
  "reach_memo \<Rightarrow> module_graph \<Rightarrow> string list \<Rightarrow> nat list \<Rightarrow> (chunk_graph \<times> entry_plan list) option" where
  "add_entries memo mg nms entries =
     fold_opt (add_entry memo mg nms) (zip [0..<length entries] entries) (empty_chunk_graph, [])"

section \<open>Groups for the plans\<close>

definition min_origin :: "module_graph \<Rightarrow> async_plan \<Rightarrow> origin option" where
  "min_origin mg plan = do {
     os \<leftarrow> sort_by_key (origin_key mg) (concat (map (ap_origins \<circ> snd) (pl_parents plan)));
     (case os of [] \<Rightarrow> None | orig # _ \<Rightarrow> Some orig) }"

definition add_async_group ::
  "module_graph \<Rightarrow> plans \<Rightarrow> nat \<Rightarrow> chunk_graph \<times> (nat \<times> nat) list \<Rightarrow> (chunk_graph \<times> (nat \<times> nat) list) option"
where
  "add_async_group mg plans t = (\<lambda>(g, groups). do {
     plan \<leftarrow> map_of plans t;
     orig \<leftarrow> min_origin mg plan;
     let (g, c) = add_chunk None [pl_target plan] g;
     let (g, gr) = add_chunk_group Async (Some orig) g;
     g \<leftarrow> connect_chunk_and_group c gr g;
     g \<leftarrow> connect_modules c (plan_modules plan) g;
     Some (g, AList.update t gr groups) })"

section \<open>Edges between groups\<close>

type_synonym reaches_state = "nat list \<times> bool list \<times> bool"

definition reaches_step :: "chunk_graph \<Rightarrow> nat \<Rightarrow> reaches_state \<Rightarrow> reaches_state option" where
  "reaches_step g target = (\<lambda>(pending, visited, found).
     case pending of
       [] \<Rightarrow> None
     | gr # pending \<Rightarrow>
         if gr = target then Some (pending, visited, True)
         else do {
           seen \<leftarrow> vec_get visited gr;
           if seen then Some (pending, visited, False)
           else do {
             k \<leftarrow> vec_get (cg_groups g) gr;
             Some (pending @ gr_children k, visited[gr := True], False) } })"

definition chunk_group_reaches :: "chunk_graph \<Rightarrow> nat \<Rightarrow> nat \<Rightarrow> bool option" where
  "chunk_group_reaches g start target = do {
     (_, _, found) \<leftarrow> loop_opt (\<lambda>(pending, _, found). pending \<noteq> [] \<and> \<not> found) (reaches_step g target)
        ([start], replicate (length (cg_groups g)) False, False);
     Some found }"

text \<open>\<open>compare_logical_groups\<close>: entries by index, before async chunks by identity.\<close>

definition group_order_key :: "module_graph \<Rightarrow> logical_group \<Rightarrow> (nat \<times> nat \<times> module_identity option) option" where
  "group_order_key mg L =
     (case L of
        LEntry i \<Rightarrow> Some (0, i, None)
      | LAsync t \<Rightarrow> do { i \<leftarrow> identity_of mg t; Some (1, 0, Some i) })"

definition group_handle :: "entry_plan list \<Rightarrow> (nat \<times> nat) list \<Rightarrow> logical_group \<Rightarrow> nat option" where
  "group_handle entries groups L =
     (case L of LEntry i \<Rightarrow> map_option ep_group (vec_get entries i) | LAsync t \<Rightarrow> map_of groups t)"

definition connect_parent ::
  "entry_plan list \<Rightarrow> (nat \<times> nat) list \<Rightarrow> nat \<Rightarrow> logical_group \<times> async_parent \<Rightarrow> chunk_graph \<Rightarrow> chunk_graph option"
where
  "connect_parent entries groups child = (\<lambda>(L, ap) g. do {
     parent \<leftarrow> group_handle entries groups L;
     cyc \<leftarrow> chunk_group_reaches g child parent;
     g \<leftarrow> (if \<not> cyc then connect_chunk_groups parent child g
           else connect_runtime_chunk_groups parent child g);
     Some (fold (\<lambda>orig. connect_block_and_chunk_group orig child) (ap_origins ap) g) })"

definition connect_plan ::
  "module_graph \<Rightarrow> entry_plan list \<Rightarrow> plans \<Rightarrow> (nat \<times> nat) list \<Rightarrow> nat \<Rightarrow> chunk_graph \<Rightarrow> chunk_graph option" where
  "connect_plan mg entries plans groups t g = do {
     child \<leftarrow> map_of groups t;
     plan \<leftarrow> map_of plans t;
     parents \<leftarrow> sort_by_key (\<lambda>p. group_order_key mg (fst p)) (pl_parents plan);
     fold_opt (connect_parent entries groups child) parents g }"

definition materialize ::
  "module_graph \<Rightarrow> entry_plan list \<Rightarrow> plans \<Rightarrow> chunk_graph \<Rightarrow> (chunk_graph \<times> (nat \<times> nat) list) option" where
  "materialize mg entries plans g = do {
     targets \<leftarrow> sort_by_key (identity_of mg) (map fst plans);
     (g, groups) \<leftarrow> fold_opt (add_async_group mg plans) targets (g, []);
     g \<leftarrow> fold_opt (connect_plan mg entries plans groups) targets g;
     Some (g, groups) }"

section \<open>The cycle test\<close>

definition group_children :: "chunk_graph \<Rightarrow> nat \<Rightarrow> nat list" where
  "group_children g gr = (if gr < length (cg_groups g) then gr_children (cg_groups g ! gr) else [])"

lemma group_children_range:
  "tree_linked g \<Longrightarrow> gr < length (cg_groups g) \<Longrightarrow> c \<in> set (gr_children (cg_groups g ! gr)) \<Longrightarrow>
   c < length (cg_groups g)"
  using linkedD(1) [of "map gr_children (cg_groups g)" "map gr_parents (cg_groups g)" gr c]
  by (simp add: tree_linked_def)

interpretation group_walk: graph_search tree_linked "\<lambda>g. length (cg_groups g)" group_children
  by standard (auto simp: group_children_def intro: group_children_range)

definition marked :: "bool list \<Rightarrow> nat set" where
  "marked v = {i. i < length v \<and> v ! i}"

lemma marked_replicate [simp]: "marked (replicate n False) = {}"
  by (auto simp: marked_def)

lemma marked_update: "i < length v \<Longrightarrow> marked (v[i := True]) = insert i (marked v)"
  by (auto simp: marked_def nth_list_update)

definition reaches_inv :: "chunk_graph \<Rightarrow> nat \<Rightarrow> nat \<Rightarrow> reaches_state \<Rightarrow> bool" where
  "reaches_inv g start target = (\<lambda>(pending, visited, found).
     length visited = length (cg_groups g) \<and> target \<notin> marked visited \<and>
     (if found then target \<in> group_walk.reach g start
      else group_walk.walk_ok g start pending (marked visited)))"

text \<open>A found target ends the walk; otherwise a step makes progress.\<close>

definition reaches_order :: "chunk_graph \<Rightarrow> (reaches_state \<times> reaches_state) set" where
  "reaches_order g = inv_image (less_than <*lex*> group_walk.walk_order g)
     (\<lambda>(pending, visited, found). (of_bool (\<not> found) :: nat, (pending, marked visited)))"

lemma reaches_step_ok:
  assumes inv: "reaches_inv g start target (gr # pending, visited, False)"
  shows "\<exists>s'. reaches_step g target (gr # pending, visited, False) = Some s' \<and> reaches_inv g start target s' \<and>
     (s', (gr # pending, visited, False)) \<in> reaches_order g"
proof -
  from inv have ok: "group_walk.walk_ok g start (gr # pending) (marked visited)"
    and len: "length visited = length (cg_groups g)" and tv: "target \<notin> marked visited"
    by (simp_all add: reaches_inv_def)
  from group_walk.walk_range [OF ok] have gr: "gr < length (cg_groups g)" by simp
  consider "gr = target" | "gr \<noteq> target" "gr \<in> marked visited" | "gr \<noteq> target" "gr \<notin> marked visited" by blast
  then show ?thesis
  proof cases
    case 1
    with ok have "target \<in> group_walk.reach g start" by (simp add: group_walk.walk_ok_def)
    with 1 len tv show ?thesis by (simp add: reaches_step_def reaches_inv_def reaches_order_def)
  next
    case 2
    then have "visited ! gr" by (simp add: marked_def)
    with 2 group_walk.walk_skip [OF ok 2(2)] len tv gr show ?thesis
      by (simp add: reaches_step_def reaches_inv_def reaches_order_def)
  next
    case 3
    then have nv: "\<not> visited ! gr" using gr len by (simp add: marked_def)
    let ?p = "pending @ gr_children (cg_groups g ! gr)"
    have s: "set ?p = set pending \<union> set (group_children g gr)" by (simp add: group_children_def gr)
    have m: "marked (visited[gr := True]) = insert gr (marked visited)" using gr len by (simp add: marked_update)
    from group_walk.walk_visit [OF ok 3(2) s] 3 nv gr len tv m show ?thesis
      by (simp add: reaches_step_def reaches_inv_def reaches_order_def)
  qed
qed

lemma chunk_group_reaches_spec:
  assumes tl: "tree_linked g" and s: "start < length (cg_groups g)"
  shows "chunk_group_reaches g start target = Some (target \<in> group_walk.reach g start)"
proof -
  let ?b = "\<lambda>(pending, _ :: bool list, found). pending \<noteq> [] \<and> \<not> found"
  have "\<exists>t. loop_opt ?b (reaches_step g target) ([start], replicate (length (cg_groups g)) False, False) = Some t \<and>
      reaches_inv g start target t \<and> \<not> ?b t"
  proof (rule loop_opt_rule [where r = "reaches_order g"])
    show "reaches_inv g start target ([start], replicate (length (cg_groups g)) False, False)"
      using group_walk.walk_start [OF tl s] by (simp add: reaches_inv_def)
    show "wf (reaches_order g)" unfolding reaches_order_def
      by (intro wf_inv_image wf_lex_prod wf_less_than group_walk.wf_walk_order)
    fix st assume "reaches_inv g start target st" and b: "?b st"
    moreover obtain gr pending visited where "st = (gr # pending, visited, False)"
      using b by (cases st; cases "fst st") auto
    ultimately show "\<exists>t. reaches_step g target st = Some t \<and> reaches_inv g start target t \<and> (t, st) \<in> reaches_order g"
      using reaches_step_ok by blast
  qed
  then obtain pending visited found where
    l: "loop_opt ?b (reaches_step g target) ([start], replicate (length (cg_groups g)) False, False) =
         Some (pending, visited, found)"
    and inv: "reaches_inv g start target (pending, visited, found)" and over: "pending = [] \<or> found" by auto
  have "found \<longleftrightarrow> target \<in> group_walk.reach g start"
  proof (cases found)
    case True
    with inv show ?thesis by (simp add: reaches_inv_def)
  next
    case False
    with over inv have "marked visited = group_walk.reach g start"
      by (auto simp: reaches_inv_def dest: group_walk.walk_done)
    with False inv show ?thesis by (simp add: reaches_inv_def)
  qed
  with l show ?thesis by (simp add: chunk_group_reaches_def)
qed

end
