(* ===== verification/Chunk_Realize.thy ===== *)
theory Chunk_Realize
  imports Chunk_Build
begin

text \<open>
  The chunk graph that \<open>materialize\<close> builds realizes the plans: its groups hold the modules of the
  logical groups, its blocks lead to the group of their target, the graph of groups has no
  cycles, and no operation panics.
\<close>

section \<open>The modules of a group\<close>

definition group_modules :: "chunk_graph \<Rightarrow> nat \<Rightarrow> nat set" where
  "group_modules g gr = (\<Union>c \<in> set (gr_chunks (cg_groups g ! gr)). set (cg_chunk_modules g ! c))"

definition group_edges :: "chunk_graph \<Rightarrow> (nat \<times> nat) set" where
  "group_edges g = {(a, b). a < length (cg_groups g) \<and> b \<in> set (gr_children (cg_groups g ! a))}"

lemma reach_group_edges: "group_walk.reach g s = (group_edges g)\<^sup>* `` {s}"
proof -
  have "group_walk.step g = (\<lambda>a b. (a, b) \<in> group_edges g)"
    by (intro ext) (simp add: group_walk.step_def group_children_def group_edges_def)
  then show ?thesis by (auto simp: group_walk.reach_def rtranclp_rtrancl_eq)
qed

lemma connect_modules_spec:
  assumes "chunk_graph_wf g" and "c < length (cg_chunks g)"
  shows "\<exists>g'. connect_modules c ms g = Some g' \<and> chunk_graph_wf g' \<and>
    cg_chunks g' = cg_chunks g \<and> cg_groups g' = cg_groups g \<and> cg_entrypoints g' = cg_entrypoints g \<and>
    cg_runtime_children g' = cg_runtime_children g \<and> cg_block_groups g' = cg_block_groups g \<and>
    cg_concatenated g' = cg_concatenated g \<and> length (cg_chunk_modules g') = length (cg_chunk_modules g) \<and>
    set (cg_chunk_modules g' ! c) = set (cg_chunk_modules g ! c) \<union> set ms \<and>
    (\<forall>d. d \<noteq> c \<longrightarrow> cg_chunk_modules g' ! d = cg_chunk_modules g ! d)"
  using assms
proof (induction ms arbitrary: g)
  case Nil
  then show ?case by (simp add: connect_modules_def)
next
  case (Cons m ms)
  from Cons.prems have c: "c < length (cg_chunk_modules g)" by (simp add: chunk_graph_wf_def sizes_ok_def)
  from chunk_graph_wf_connect_module [OF Cons.prems, of m] obtain g1 where
    g1: "connect_chunk_and_module c m g = Some g1" "chunk_graph_wf g1" "cg_chunks g1 = cg_chunks g"
    "cg_groups g1 = cg_groups g" "cg_entrypoints g1 = cg_entrypoints g"
    "cg_runtime_children g1 = cg_runtime_children g" "cg_block_groups g1 = cg_block_groups g"
    "cg_concatenated g1 = cg_concatenated g"
    "cg_chunk_modules g1 = (cg_chunk_modules g)[c := push_new m (cg_chunk_modules g ! c)]" by blast
  from Cons.IH [of g1] g1(2,3) Cons.prems(2) obtain g' where
    g': "connect_modules c ms g1 = Some g'" "chunk_graph_wf g'" "cg_chunks g' = cg_chunks g1"
    "cg_groups g' = cg_groups g1" "cg_entrypoints g' = cg_entrypoints g1"
    "cg_runtime_children g' = cg_runtime_children g1" "cg_block_groups g' = cg_block_groups g1"
    "cg_concatenated g' = cg_concatenated g1" "length (cg_chunk_modules g') = length (cg_chunk_modules g1)"
    "set (cg_chunk_modules g' ! c) = set (cg_chunk_modules g1 ! c) \<union> set ms"
    "\<forall>d. d \<noteq> c \<longrightarrow> cg_chunk_modules g' ! d = cg_chunk_modules g1 ! d" by auto
  have "connect_modules c (m # ms) g = Some g'" using g1(1) g'(1) by (simp add: connect_modules_def)
  with g1 g' c show ?case by simp
qed

text \<open>A new chunk in a new group.\<close>

definition open_group ::
  "string option \<Rightarrow> nat list \<Rightarrow> group_kind \<Rightarrow> origin option \<Rightarrow> chunk_graph \<Rightarrow> (chunk_graph \<times> nat \<times> nat) option"
where
  "open_group name roots kind orig g = do {
     let (g, c) = add_chunk name roots g;
     let (g, gr) = add_chunk_group kind orig g;
     g \<leftarrow> connect_chunk_and_group c gr g;
     Some (g, c, gr) }"

lemma open_group_spec:
  assumes wf: "chunk_graph_wf g"
  shows "\<exists>g'. open_group name roots kind orig g = Some (g', length (cg_chunks g), length (cg_groups g)) \<and>
    chunk_graph_wf g' \<and> length (cg_chunks g') = Suc (length (cg_chunks g)) \<and>
    length (cg_groups g') = Suc (length (cg_groups g)) \<and>
    cg_chunk_modules g' = cg_chunk_modules g @ [[]] \<and> cg_entrypoints g' = cg_entrypoints g \<and>
    cg_block_groups g' = cg_block_groups g \<and> cg_runtime_children g' = cg_runtime_children g @ [[]] \<and>
    gr_chunks (cg_groups g' ! length (cg_groups g)) = [length (cg_chunks g)] \<and>
    gr_kind (cg_groups g' ! length (cg_groups g)) = kind \<and>
    gr_children (cg_groups g' ! length (cg_groups g)) = [] \<and>
    (\<forall>i < length (cg_groups g). cg_groups g' ! i = cg_groups g ! i)"
proof -
  let ?c = "length (cg_chunks g)" and ?gr = "length (cg_groups g)"
  obtain g1 where a1: "add_chunk name roots g = (g1, ?c)" by (simp add: add_chunk_def Let_def)
  from chunk_graph_wf_add_chunk [OF wf a1] have g1: "chunk_graph_wf g1" "cg_chunks g1 = cg_chunks g @ [chunk_new ?c name roots]"
    "cg_chunk_modules g1 = cg_chunk_modules g @ [[]]" "cg_groups g1 = cg_groups g"
    "cg_runtime_children g1 = cg_runtime_children g" "cg_entrypoints g1 = cg_entrypoints g"
    "cg_block_groups g1 = cg_block_groups g" by simp_all
  obtain g2 where a2: "add_chunk_group kind orig g1 = (g2, ?gr)"
    by (simp add: add_chunk_group_def Let_def g1(4))
  from chunk_graph_wf_add_chunk_group [OF g1(1) a2] have g2: "chunk_graph_wf g2"
    "cg_groups g2 = cg_groups g1 @ [group_new ?gr kind orig]" "cg_chunks g2 = cg_chunks g1"
    "cg_chunk_modules g2 = cg_chunk_modules g1" "cg_runtime_children g2 = cg_runtime_children g1 @ [[]]"
    "cg_entrypoints g2 = cg_entrypoints g1" "cg_block_groups g2 = cg_block_groups g1" by simp_all
  have "?c < length (cg_chunks g2)" "?gr < length (cg_groups g2)" by (simp_all add: g1 g2)
  from chunk_graph_wf_connect_chunk_and_group [OF g2(1) this] obtain g3 where
    a3: "connect_chunk_and_group ?c ?gr g2 = Some g3" "chunk_graph_wf g3"
    and g3: "g3 = g2\<lparr>cg_chunks := (cg_chunks g2)[?c := chunk_add_group ?gr (cg_chunks g2 ! ?c)],
           cg_groups := (cg_groups g2)[?gr := group_push_chunk ?c (cg_groups g2 ! ?gr)]\<rparr>" by blast
  have "open_group name roots kind orig g = Some (g3, ?c, ?gr)"
    using a1 a2 a3(1) by (simp add: open_group_def)
  with a3(2) show ?thesis
    by (intro exI [of _ g3]) (simp add: g1 g2 g3 nth_append group_new_def push_new_def)
qed

text \<open>What a group holds is not changed by chunks and groups that are added later.\<close>

definition grows_to :: "chunk_graph \<Rightarrow> chunk_graph \<Rightarrow> bool" where
  "grows_to g g' \<longleftrightarrow> length (cg_groups g) \<le> length (cg_groups g') \<and>
     (\<forall>i < length (cg_groups g). group_modules g' i = group_modules g i)"

lemma grows_to_refl [simp]: "grows_to g g"
  by (simp add: grows_to_def)

lemma grows_to_trans: "grows_to f g \<Longrightarrow> grows_to g h \<Longrightarrow> grows_to f h"
  by (auto simp: grows_to_def)

lemma group_edges_add_entrypoint [simp]: "group_edges (add_entrypoint e g) = group_edges g"
  by (simp add: add_entrypoint_def group_edges_def)

lemma chunk_graph_wf_add_entrypoint:
  "chunk_graph_wf g \<Longrightarrow> e < length (cg_groups g) \<Longrightarrow> chunk_graph_wf (add_entrypoint e g)"
  by (auto simp: add_entrypoint_def chunk_graph_wf_def sizes_ok_def groups_linked_def modules_linked_def tree_linked_def)

lemma filled_group:
  assumes wf: "chunk_graph_wf g"
    and og: "open_group name roots kind orig g = Some (g1, c, gr)"
    and g2: "g2 = g1 \<or> g2 = add_entrypoint gr g1"
  shows "c = length (cg_chunks g) \<and> gr = length (cg_groups g) \<and>
    (\<exists>g'. connect_modules c ms g2 = Some g' \<and> chunk_graph_wf g' \<and> grows_to g g' \<and>
      length (cg_groups g') = Suc gr \<and> group_modules g' gr = set ms \<and> group_edges g' = group_edges g \<and>
      cg_entrypoints g' = cg_entrypoints g2 \<and> cg_block_groups g' = cg_block_groups g \<and>
      cg_runtime_children g' = cg_runtime_children g @ [[]] \<and>
      gr_kind (cg_groups g' ! gr) = kind \<and>
      (\<forall>i < length (cg_groups g). cg_groups g' ! i = cg_groups g ! i))"
proof -
  from open_group_spec [OF wf, of name roots kind orig] og have
    c: "c = length (cg_chunks g)" and gr: "gr = length (cg_groups g)" and w1: "chunk_graph_wf g1"
    and lc: "length (cg_chunks g1) = Suc (length (cg_chunks g))" and lg: "length (cg_groups g1) = Suc (length (cg_groups g))"
    and cm: "cg_chunk_modules g1 = cg_chunk_modules g @ [[]]" and e1: "cg_entrypoints g1 = cg_entrypoints g"
    and b1: "cg_block_groups g1 = cg_block_groups g" and r1: "cg_runtime_children g1 = cg_runtime_children g @ [[]]"
    and k: "gr_chunks (cg_groups g1 ! gr) = [c]" "gr_kind (cg_groups g1 ! gr) = kind" "gr_children (cg_groups g1 ! gr) = []"
    and old: "\<forall>i < length (cg_groups g). cg_groups g1 ! i = cg_groups g ! i" by auto
  have w2: "chunk_graph_wf g2" using g2 w1 chunk_graph_wf_add_entrypoint [OF w1, of gr] lg gr by auto
  have f2: "cg_chunks g2 = cg_chunks g1" "cg_groups g2 = cg_groups g1" "cg_chunk_modules g2 = cg_chunk_modules g1"
    "cg_block_groups g2 = cg_block_groups g1" "cg_runtime_children g2 = cg_runtime_children g1"
    using g2 by (auto simp: add_entrypoint_def)
  have "c < length (cg_chunks g2)" by (simp add: f2 lc c)
  from connect_modules_spec [OF w2 this, of ms] obtain g' where
    cmod: "connect_modules c ms g2 = Some g'" "chunk_graph_wf g'" "cg_groups g' = cg_groups g1"
      "cg_entrypoints g' = cg_entrypoints g2" "cg_block_groups g' = cg_block_groups g"
      "cg_runtime_children g' = cg_runtime_children g1"
    and mods: "set (cg_chunk_modules g' ! c) = set (cg_chunk_modules g1 ! c) \<union> set ms"
      "\<forall>d. d \<noteq> c \<longrightarrow> cg_chunk_modules g' ! d = cg_chunk_modules g1 ! d"
    by (auto simp: f2 b1)
  have lcm: "length (cg_chunk_modules g) = c" using wf c by (simp add: chunk_graph_wf_def sizes_ok_def)
  have "group_modules g' i = group_modules g i" if i: "i < length (cg_groups g)" for i
  proof -
    have "cg_chunk_modules g' ! d = cg_chunk_modules g ! d" if "d \<in> set (gr_chunks (cg_groups g ! i))" for d
      using group_chunk_range [OF wf i that] mods(2) cm c lcm by (auto simp: nth_append)
    with old i cmod(3) show ?thesis by (simp add: group_modules_def)
  qed
  moreover have "group_modules g' gr = set ms"
    using k(1) cmod(3) mods(1) cm lcm by (simp add: group_modules_def nth_append)
  moreover have "group_edges g' = group_edges g"
    using cmod(3) lg old k(3) gr by (auto simp: group_edges_def less_Suc_eq)
  ultimately show ?thesis
    using c gr cmod r1 lg k(2) old by (auto simp: grows_to_def)
qed

section \<open>Entries\<close>

lemma add_entry_alt:
  "add_entry memo mg ns (i, m) (g, eps) = do {
     (g, c, gr) \<leftarrow> open_group (Some (entry_name ns i)) [m] (Entrypoint (entry_name ns i)) None g;
     initial \<leftarrow> collect_static_reachable_cached memo mg m;
     g \<leftarrow> connect_modules c initial (add_entrypoint gr g);
     avail \<leftarrow> mask_from_modules (length (gs_modules mg)) initial;
     Some (g, eps @ [\<lparr>ep_group = gr, ep_resulting = avail, ep_modules = initial\<rparr>]) }"
  by (simp add: add_entry_def open_group_def Let_def split: prod.splits)

text \<open>The first \<open>k\<close> groups are those of the entries and hold what is statically reachable from them.\<close>

definition entries_built :: "module_graph \<Rightarrow> nat list \<Rightarrow> chunk_graph \<times> entry_plan list \<Rightarrow> bool" where
  "entries_built mg ms = (\<lambda>(g, eps).
     chunk_graph_wf g \<and> length (cg_groups g) = length ms \<and> length eps = length ms \<and>
     cg_entrypoints g = [0..<length ms] \<and> group_edges g = {} \<and> cg_block_groups g = Map.empty \<and>
     (\<forall>i < length ms. gr_chunks (cg_groups g ! i) \<noteq> [] \<and> ep_group (eps ! i) = i \<and>
        entry_ok mg (eps ! i) \<and> group_modules g i = set (ep_modules (eps ! i)) \<and>
        set (ep_modules (eps ! i)) = static_walk.reach mg (ms ! i)))"

lemma add_entry_built:
  assumes wf: "graph_wf mg" and memo: "memo_ok memo mg" and m: "m < length (gs_modules mg)"
    and inv: "entries_built mg ms (g, eps)"
  shows "\<exists>s. add_entry memo mg ns (length ms, m) (g, eps) = Some s \<and> entries_built mg (ms @ [m]) s"
proof -
  let ?k = "length ms"
  from inv have gwf: "chunk_graph_wf g" and lg: "length (cg_groups g) = ?k" by (simp_all add: entries_built_def)
  from cached_reachable_spec [OF wf memo m] obtain initial where
    i: "collect_static_reachable_cached memo mg m = Some initial" "set initial = static_walk.reach mg m"
       "\<forall>x \<in> set initial. x < length (gs_modules mg)" by blast
  from mask_from_modules_spec [OF i(3)] obtain avail where
    a: "mask_from_modules (length (gs_modules mg)) initial = Some avail"
       "mask_fits (length (gs_modules mg)) avail" "mask_set avail = set initial" by blast
  let ?nm = "entry_name ns ?k"
  from open_group_spec [OF gwf, of "Some ?nm" "[m]" "Entrypoint ?nm" None] obtain g1 where
    og: "open_group (Some ?nm) [m] (Entrypoint ?nm) None g = Some (g1, length (cg_chunks g), ?k)"
    and e1: "cg_entrypoints g1 = cg_entrypoints g"
    and k1: "gr_chunks (cg_groups g1 ! ?k) = [length (cg_chunks g)]"
    by (auto simp: lg)
  from filled_group [OF gwf og, of "add_entrypoint ?k g1" initial] obtain g' where
    f: "connect_modules (length (cg_chunks g)) initial (add_entrypoint ?k g1) = Some g'" "chunk_graph_wf g'"
      "grows_to g g'" "length (cg_groups g') = Suc ?k" "group_modules g' ?k = set initial"
      "group_edges g' = group_edges g" "cg_entrypoints g' = cg_entrypoints (add_entrypoint ?k g1)"
      "cg_block_groups g' = cg_block_groups g" "\<forall>i < length (cg_groups g). cg_groups g' ! i = cg_groups g ! i"
    by auto
  from open_group_spec [OF gwf, of "Some ?nm" "[m]" "Entrypoint ?nm" None] og lg
  have "chunk_graph_wf g1" "?k < length (cg_groups g1)" "length (cg_chunks g) < length (cg_chunks g1)" by auto
  then have w2: "chunk_graph_wf (add_entrypoint ?k g1)"
    and c2: "length (cg_chunks g) < length (cg_chunks (add_entrypoint ?k g1))"
    by (auto intro: chunk_graph_wf_add_entrypoint) (simp add: add_entrypoint_def)
  from connect_modules_spec [OF w2 c2, of initial] f(1) have "cg_groups g' = cg_groups g1"
    by (auto simp: add_entrypoint_def)
  with k1 have ne: "gr_chunks (cg_groups g' ! ?k) \<noteq> []" by simp
  let ?e = "\<lparr>ep_group = ?k, ep_resulting = avail, ep_modules = initial\<rparr>"
  have "add_entry memo mg ns (?k, m) (g, eps) = Some (g', eps @ [?e])"
    using og i(1) f(1) a(1) by (simp add: add_entry_alt)
  moreover have "entries_built mg (ms @ [m]) (g', eps @ [?e])"
  proof -
    have "cg_entrypoints g' = [0..<Suc ?k]"
      using f(7) e1 inv by (simp add: add_entrypoint_def entries_built_def)
    moreover have "entry_ok mg ?e" using a i(2,3) by (auto simp: entry_ok_def)
    moreover have "group_modules g' j = group_modules g j" "cg_groups g' ! j = cg_groups g ! j" if "j < ?k" for j
      using f(3,9) that lg by (auto simp: grows_to_def)
    ultimately show ?thesis
      using f inv ne i(2) by (auto simp: entries_built_def nth_append less_Suc_eq)
  qed
  ultimately show ?thesis by blast
qed

lemma add_entries_spec:
  assumes wf: "graph_wf mg" and memo: "memo_ok memo mg" and ms: "\<forall>m \<in> set ms. m < length (gs_modules mg)"
  shows "\<exists>s. add_entries memo mg ns ms = Some s \<and> entries_built mg ms s"
  using ms
proof (induction ms rule: rev_induct)
  case Nil
  show ?case
    by (simp add: add_entries_def entries_built_def chunk_graph_wf_empty)
      (simp add: empty_chunk_graph_def group_edges_def)
next
  case (snoc m ms)
  then obtain g eps where s: "add_entries memo mg ns ms = Some (g, eps)" "entries_built mg ms (g, eps)" by fastforce
  have "zip [0..<length (ms @ [m])] (ms @ [m]) = zip [0..<length ms] ms @ [(length ms, m)]" by simp
  with add_entry_built [OF wf memo _ s(2), of m ns] s(1) snoc.prems show ?case
    by (auto simp: add_entries_def fold_opt_append)
qed

section \<open>Async groups\<close>

lemma add_async_group_alt:
  "add_async_group mg plans t (g, groups) = do {
     plan \<leftarrow> map_of plans t;
     orig \<leftarrow> min_origin mg plan;
     (g, c, gr) \<leftarrow> open_group None [pl_target plan] Async (Some orig) g;
     g \<leftarrow> connect_modules c (plan_modules plan) g;
     Some (g, AList.update t gr groups) }"
  by (simp add: add_async_group_def open_group_def Let_def case_prod_beta)

lemma min_origin_total:
  assumes wf: "graph_wf mg" and ok: "plan_ok mg entries P t p"
  shows "\<exists>orig. min_origin mg p = Some orig"
proof -
  let ?os = "concat (map (ap_origins \<circ> snd) (pl_parents p))"
  from ok obtain L ap where Lap: "(L, ap) \<in> set (pl_parents p)"
    by (cases "pl_parents p") (auto simp: plan_ok_def masks_ok_def)
  with ok have "ap_origins ap \<noteq> []" by (auto simp: plan_ok_def record_ok_def)
  with Lap have ne: "?os \<noteq> []" by force
  have "origin_key mg orig \<noteq> None" if "orig \<in> set ?os" for orig
  proof -
    from that obtain K aq where "(K, aq) \<in> set (pl_parents p)" "orig \<in> set (ap_origins aq)" by auto
    with ok have "(orig, t) \<in> imports_of mg (fst orig)" by (auto simp: plan_ok_def record_ok_def)
    from imports_of_range [OF wf this] have "fst orig < length (gs_modules mg)" by simp
    then show ?thesis by (simp add: origin_key_def identity_of_def graph_module_def)
  qed
  from sort_by_key_total [of ?os "origin_key mg", OF this] obtain ys where
    "sort_by_key (origin_key mg) ?os = Some ys" "length ys = length ?os" by blast
  with ne show ?thesis by (cases ys) (auto simp: min_origin_def)
qed

definition async_built ::
  "module_graph \<Rightarrow> entry_plan list \<Rightarrow> plans \<Rightarrow> nat set \<Rightarrow> chunk_graph \<times> (nat \<times> nat) list \<Rightarrow> bool" where
  "async_built mg eps plans ts = (\<lambda>(g, groups).
     chunk_graph_wf g \<and> length eps \<le> length (cg_groups g) \<and> cg_entrypoints g = [0..<length eps] \<and>
     group_edges g = {} \<and> cg_block_groups g = Map.empty \<and>
     (\<forall>i < length (cg_groups g). gr_chunks (cg_groups g ! i) \<noteq> []) \<and>
     (\<forall>i < length eps. ep_group (eps ! i) = i \<and> group_modules g i = set (ep_modules (eps ! i))) \<and>
     dom (map_of groups) = ts \<and>
     (\<forall>t gr. map_of groups t = Some gr \<longrightarrow> gr < length (cg_groups g) \<and>
        group_modules g gr = group_mods eps (map_of plans) (LAsync t)))"

lemma add_async_group_built:
  assumes wf: "graph_wf mg" and ok: "plans_ok mg eps (map_of plans)" and p: "map_of plans t = Some p"
    and inv: "async_built mg eps plans ts (g, groups)"
  shows "\<exists>s. add_async_group mg plans t (g, groups) = Some s \<and> async_built mg eps plans (insert t ts) s"
proof -
  from inv have gwf: "chunk_graph_wf g" by (simp add: async_built_def)
  from ok p have "plan_ok mg eps (map_of plans) t p" by (simp add: plans_ok_def)
  with min_origin_total [OF wf] obtain orig where o: "min_origin mg p = Some orig" by blast
  let ?c = "length (cg_chunks g)" and ?gr = "length (cg_groups g)"
  from open_group_spec [OF gwf, of None "[pl_target p]" Async "Some orig"] obtain g1 where
    og: "open_group None [pl_target p] Async (Some orig) g = Some (g1, ?c, ?gr)"
    and e1: "cg_entrypoints g1 = cg_entrypoints g" and k1: "gr_chunks (cg_groups g1 ! ?gr) = [?c]"
    and w1: "chunk_graph_wf g1" and c1: "?c < length (cg_chunks g1)" by auto
  from filled_group [OF gwf og, of g1 "plan_modules p"] obtain g' where
    f: "connect_modules ?c (plan_modules p) g1 = Some g'" "chunk_graph_wf g'" "grows_to g g'"
      "length (cg_groups g') = Suc ?gr" "group_modules g' ?gr = set (plan_modules p)"
      "group_edges g' = group_edges g" "cg_entrypoints g' = cg_entrypoints g1"
      "cg_block_groups g' = cg_block_groups g" "\<forall>i < ?gr. cg_groups g' ! i = cg_groups g ! i"
    by auto
  from connect_modules_spec [OF w1 c1, of "plan_modules p"] f(1) k1
  have ne: "gr_chunks (cg_groups g' ! ?gr) \<noteq> []" by auto
  have gm: "group_modules g' j = group_modules g j" if "j < ?gr" for j
    using f(3) that by (simp add: grows_to_def)
  have "add_async_group mg plans t (g, groups) = Some (g', AList.update t ?gr groups)"
    using p o og f(1) by (simp add: add_async_group_alt)
  moreover have "async_built mg eps plans (insert t ts) (g', AList.update t ?gr groups)"
    using inv f ne gm e1 p
    by (auto simp: async_built_def update_conv' less_Suc_eq group_mods_def)
  ultimately show ?thesis by blast
qed

lemma add_async_groups_spec:
  assumes wf: "graph_wf mg" and ok: "plans_ok mg eps (map_of plans)" and "\<forall>t \<in> set ts. map_of plans t \<noteq> None"
    and "async_built mg eps plans us (g, groups)"
  shows "\<exists>s. fold_opt (add_async_group mg plans) ts (g, groups) = Some s \<and> async_built mg eps plans (set ts \<union> us) s"
  using assms(3,4)
proof (induction ts arbitrary: us g groups)
  case Nil
  then show ?case by simp
next
  case (Cons t ts)
  then obtain p where p: "map_of plans t = Some p" by auto
  from add_async_group_built [OF wf ok p Cons.prems(2)] obtain g1 groups1 where
    s: "add_async_group mg plans t (g, groups) = Some (g1, groups1)" "async_built mg eps plans (insert t us) (g1, groups1)"
    by fastforce
  from Cons.IH [OF _ s(2)] Cons.prems(1) s(1) show ?case by auto
qed

section \<open>Edges\<close>

lemma plan_record:
  "plans_ok mg eps P \<Longrightarrow> P t = Some p \<Longrightarrow> (L, ap) \<in> set (pl_parents p) \<Longrightarrow> record_ok mg eps P t L ap"
  unfolding plans_ok_def plan_ok_def by blast

definition origins_of :: "async_plan \<Rightarrow> origin set" where
  "origins_of p = (\<Union>(_, ap) \<in> set (pl_parents p). set (ap_origins ap))"

lemma fold_connect_blocks:
  "fold (\<lambda>orig. connect_block_and_chunk_group orig child) os g =
     g\<lparr>cg_block_groups := (\<lambda>orig. if orig \<in> set os then Some child else cg_block_groups g orig)\<rparr>"
proof (induction os arbitrary: g)
  case (Cons orig os)
  show ?case
    by (simp only: fold_simps Cons.IH)
      (auto simp: connect_block_and_chunk_group_def intro!: arg_cong [where f = "\<lambda>h. g\<lparr>cg_block_groups := h\<rparr>"])
qed simp

text \<open>What connecting groups leaves alone, and what it only adds to.\<close>

definition same_groups :: "chunk_graph \<Rightarrow> chunk_graph \<Rightarrow> bool" where
  "same_groups g g' \<longleftrightarrow> length (cg_groups g') = length (cg_groups g) \<and>
     map gr_chunks (cg_groups g') = map gr_chunks (cg_groups g) \<and>
     cg_chunk_modules g' = cg_chunk_modules g \<and> cg_entrypoints g' = cg_entrypoints g \<and>
     (\<forall>i < length (cg_groups g). set (cg_runtime_children g ! i) \<subseteq> set (cg_runtime_children g' ! i))"

lemma same_groups_refl [simp]: "same_groups g g"
  by (simp add: same_groups_def)

lemma same_groups_trans: "same_groups f g \<Longrightarrow> same_groups g h \<Longrightarrow> same_groups f h"
  unfolding same_groups_def by (metis subset_trans)

lemma same_groups_modules:
  assumes "same_groups g g'" and "i < length (cg_groups g)"
  shows "group_modules g' i = group_modules g i" and "gr_chunks (cg_groups g' ! i) = gr_chunks (cg_groups g ! i)"
proof -
  from assms show "gr_chunks (cg_groups g' ! i) = gr_chunks (cg_groups g ! i)"
    unfolding same_groups_def by (metis nth_map)
  with assms show "group_modules g' i = group_modules g i"
    by (simp add: group_modules_def same_groups_def)
qed

lemma connect_parent_ok:
  assumes wf: "chunk_graph_wf g" and ac: "acyclic (group_edges g)"
    and p: "group_handle eps groups L = Some p" "p < length (cg_groups g)" and c: "child < length (cg_groups g)"
  shows "\<exists>g'. connect_parent eps groups child (L, ap) g = Some g' \<and> chunk_graph_wf g' \<and>
    acyclic (group_edges g') \<and> same_groups g g' \<and> child \<in> set (cg_runtime_children g' ! p) \<and>
    cg_block_groups g' = (\<lambda>orig. if orig \<in> set (ap_origins ap) then Some child else cg_block_groups g orig)"
proof -
  let ?B = "\<lambda>g. g\<lparr>cg_block_groups := (\<lambda>orig. if orig \<in> set (ap_origins ap) then Some child else cg_block_groups g orig)\<rparr>"
  have lr: "length (cg_runtime_children g) = length (cg_groups g)" using wf by (simp add: chunk_graph_wf_def sizes_ok_def)
  have wfB: "chunk_graph_wf (?B h)" if "chunk_graph_wf h" for h
    using that by (simp add: chunk_graph_wf_def sizes_ok_def groups_linked_def modules_linked_def tree_linked_def)
  have tl: "tree_linked g" using wf by (simp add: chunk_graph_wf_def)
  have r: "chunk_group_reaches g child p = Some ((child, p) \<in> (group_edges g)\<^sup>*)"
    using chunk_group_reaches_spec [OF tl c, of p] by (simp add: reach_group_edges)
  show ?thesis
  proof (cases "(child, p) \<in> (group_edges g)\<^sup>*")
    case True
    from chunk_graph_wf_connect_runtime [OF wf p(2) c] obtain g1 where
      g1: "connect_runtime_chunk_groups p child g = Some g1" "chunk_graph_wf g1"
      and eq: "g1 = g\<lparr>cg_runtime_children := (cg_runtime_children g)[p := push_new child (cg_runtime_children g ! p)]\<rparr>"
      by blast
    have "connect_parent eps groups child (L, ap) g = Some (?B g1)"
      using p(1) r True g1(1) by (simp add: connect_parent_def fold_connect_blocks)
    moreover have "acyclic (group_edges (?B g1))" using ac by (simp add: eq group_edges_def)
    moreover have "same_groups g (?B g1)" using p(2) lr by (auto simp: eq same_groups_def nth_list_update)
    moreover have b1: "cg_block_groups g1 = cg_block_groups g" by (simp add: eq)
    have "cg_block_groups (?B g1) = (\<lambda>orig. if orig \<in> set (ap_origins ap) then Some child else cg_block_groups g orig)"
      unfolding b1 by simp
    moreover have "child \<in> set (cg_runtime_children (?B g1) ! p)" using p(2) lr by (simp add: eq)
    ultimately show ?thesis using wfB [OF g1(2)] by blast
  next
    case False
    from chunk_graph_wf_connect_chunk_groups [OF wf p(2) c] obtain g1 where
      g1: "connect_chunk_groups p child g = Some g1" "chunk_graph_wf g1" "length (cg_groups g1) = length (cg_groups g)"
        "cg_chunk_modules g1 = cg_chunk_modules g" "cg_entrypoints g1 = cg_entrypoints g"
        "cg_block_groups g1 = cg_block_groups g" "map gr_chunks (cg_groups g1) = map gr_chunks (cg_groups g)"
        "cg_runtime_children g1 = (cg_runtime_children g)[p := push_new child (cg_runtime_children g ! p)]"
        "map gr_children (cg_groups g1) = (map gr_children (cg_groups g))[p := push_new child (gr_children (cg_groups g ! p))]"
      by blast
    have "gr_children (cg_groups g1 ! i) = (if i = p then push_new child (gr_children (cg_groups g ! p)) else gr_children (cg_groups g ! i))"
      if "i < length (cg_groups g)" for i
      using arg_cong [OF g1(9), of "\<lambda>xs. xs ! i"] that p(2) g1(3) by (auto simp: nth_list_update)
    then have "group_edges g1 = insert (p, child) (group_edges g)"
      using p(2) g1(3) by (auto simp: group_edges_def split: if_splits)
    with ac False have "acyclic (group_edges g1)" by simp
    then have "acyclic (group_edges (?B g1))" by (simp add: group_edges_def)
    moreover have "connect_parent eps groups child (L, ap) g = Some (?B g1)"
      using p(1) r False g1(1) by (simp add: connect_parent_def fold_connect_blocks)
    moreover have "same_groups g (?B g1)" using p(2) lr g1 by (auto simp: same_groups_def nth_list_update)
    moreover have "cg_block_groups (?B g1) = (\<lambda>orig. if orig \<in> set (ap_origins ap) then Some child else cg_block_groups g orig)"
      unfolding g1(6) by simp
    moreover have "child \<in> set (cg_runtime_children (?B g1) ! p)" using p(2) lr g1(8) by simp
    ultimately show ?thesis using wfB [OF g1(2)] by blast
  qed
qed

lemma connect_parents_fold:
  assumes "chunk_graph_wf g" and "acyclic (group_edges g)"
    and "\<forall>(L, ap) \<in> set ps. \<exists>p. group_handle eps groups L = Some p \<and> p < length (cg_groups g)"
    and "child < length (cg_groups g)"
  shows "\<exists>g'. fold_opt (connect_parent eps groups child) ps g = Some g' \<and> chunk_graph_wf g' \<and>
    acyclic (group_edges g') \<and> same_groups g g' \<and>
    (\<forall>(L, ap) \<in> set ps. child \<in> set (cg_runtime_children g' ! the (group_handle eps groups L))) \<and>
    cg_block_groups g' = (\<lambda>orig. if \<exists>(L, ap) \<in> set ps. orig \<in> set (ap_origins ap) then Some child else cg_block_groups g orig)"
  using assms
proof (induction ps arbitrary: g)
  case Nil
  then show ?case by simp
next
  case (Cons q ps)
  obtain L ap where q: "q = (L, ap)" by (cases q)
  with Cons.prems(3) obtain p where p: "group_handle eps groups L = Some p" "p < length (cg_groups g)" by auto
  from connect_parent_ok [OF Cons.prems(1,2) p Cons.prems(4), of ap] obtain g1 where
    g1: "connect_parent eps groups child (L, ap) g = Some g1" "chunk_graph_wf g1" "acyclic (group_edges g1)"
      "same_groups g g1" "child \<in> set (cg_runtime_children g1 ! p)"
      "cg_block_groups g1 = (\<lambda>orig. if orig \<in> set (ap_origins ap) then Some child else cg_block_groups g orig)" by blast
  have l1: "length (cg_groups g1) = length (cg_groups g)" using g1(4) by (simp add: same_groups_def)
  from Cons.prems(3,4) l1 have pre: "\<forall>(L, ap) \<in> set ps. \<exists>p. group_handle eps groups L = Some p \<and> p < length (cg_groups g1)"
    "child < length (cg_groups g1)" by simp_all
  from Cons.IH [OF g1(2,3) pre] obtain g' where
    g': "fold_opt (connect_parent eps groups child) ps g1 = Some g'" "chunk_graph_wf g'" "acyclic (group_edges g')"
      "same_groups g1 g'" "\<forall>(L, ap) \<in> set ps. child \<in> set (cg_runtime_children g' ! the (group_handle eps groups L))"
      "cg_block_groups g' = (\<lambda>orig. if \<exists>(L, ap) \<in> set ps. orig \<in> set (ap_origins ap) then Some child else cg_block_groups g1 orig)"
    by blast
  have "fold_opt (connect_parent eps groups child) (q # ps) g = Some g'" using q g1(1) g'(1) by simp
  moreover have "child \<in> set (cg_runtime_children g' ! p)"
    using g1(5) g'(4) p(2) l1 by (auto simp: same_groups_def)
  moreover have "cg_block_groups g' = (\<lambda>orig. if \<exists>(L, ap) \<in> set (q # ps). orig \<in> set (ap_origins ap) then Some child else cg_block_groups g orig)"
    unfolding g'(6) g1(6) by (auto simp: q fun_eq_iff)
  ultimately show ?case using g' q p(1) same_groups_trans [OF g1(4) g'(4)] by (intro exI [of _ g']) simp
qed

definition edges_built :: "plans \<Rightarrow> entry_plan list \<Rightarrow> (nat \<times> nat) list \<Rightarrow> nat set \<Rightarrow> chunk_graph \<Rightarrow> bool" where
  "edges_built plans eps groups ts g \<longleftrightarrow>
     (\<forall>orig gr. cg_block_groups g orig = Some gr \<longrightarrow>
        (\<exists>t p. map_of groups t = Some gr \<and> map_of plans t = Some p \<and> orig \<in> origins_of p)) \<and>
     (\<forall>t \<in> ts. \<forall>p. map_of plans t = Some p \<longrightarrow>
        (\<forall>orig \<in> origins_of p. cg_block_groups g orig \<noteq> None) \<and>
        (\<forall>(L, ap) \<in> set (pl_parents p). the (map_of groups t) \<in> set (cg_runtime_children g ! the (group_handle eps groups L))))"

lemma group_order_key_total:
  assumes "plans_ok mg eps P" and "group_valid eps P L"
  shows "group_order_key mg L \<noteq> None"
proof (cases L)
  case (LAsync t)
  with assms have "t < length (gs_modules mg)" by (auto simp: group_valid_def plans_ok_def plan_ok_def)
  with LAsync show ?thesis by (simp add: group_order_key_def identity_of_def graph_module_def)
qed (simp add: group_order_key_def)

lemma connect_plan_ok:
  assumes ok: "plans_ok mg eps (map_of plans)" and p: "map_of plans t = Some p"
    and wf: "chunk_graph_wf g" and ac: "acyclic (group_edges g)"
    and dom: "dom (map_of groups) = dom (map_of plans)"
    and rng: "\<forall>t gr. map_of groups t = Some gr \<longrightarrow> gr < length (cg_groups g)"
    and ent: "\<forall>i < length eps. ep_group (eps ! i) < length (cg_groups g)"
    and inv: "edges_built plans eps groups ts g"
  shows "\<exists>g'. connect_plan mg eps plans groups t g = Some g' \<and> chunk_graph_wf g' \<and> acyclic (group_edges g') \<and>
    same_groups g g' \<and> edges_built plans eps groups (insert t ts) g'"
proof -
  from ok p have pok: "plan_ok mg eps (map_of plans) t p" by (simp add: plans_ok_def)
  from p dom obtain child where child: "map_of groups t = Some child" by blast
  with rng have cr: "child < length (cg_groups g)" by blast
  have valid: "group_valid eps (map_of plans) L" if "(L, ap) \<in> set (pl_parents p)" for L ap
    using pok that by (auto simp: plan_ok_def record_ok_def)
  have handle: "\<exists>h. group_handle eps groups L = Some h \<and> h < length (cg_groups g)"
    if L: "group_valid eps (map_of plans) L" for L
  proof (cases L)
    case (LEntry i)
    with L ent show ?thesis by (simp add: group_valid_def group_handle_def)
  next
    case (LAsync u)
    with L dom obtain h where "map_of groups u = Some h" by (auto simp: group_valid_def)
    with LAsync rng show ?thesis by (auto simp: group_handle_def)
  qed
  have "group_order_key mg (fst q) \<noteq> None" if "q \<in> set (pl_parents p)" for q
    using valid [of "fst q" "snd q"] that group_order_key_total [OF ok] by simp
  from sort_by_key_total [of "pl_parents p" "\<lambda>q. group_order_key mg (fst q)", OF this] obtain ps where
    ps: "sort_by_key (\<lambda>q. group_order_key mg (fst q)) (pl_parents p) = Some ps" "set ps = set (pl_parents p)" by blast
  have "\<forall>(L, ap) \<in> set ps. \<exists>h. group_handle eps groups L = Some h \<and> h < length (cg_groups g)"
    using ps(2) valid handle by blast
  from connect_parents_fold [OF wf ac this cr] obtain g' where
    g': "fold_opt (connect_parent eps groups child) ps g = Some g'" "chunk_graph_wf g'" "acyclic (group_edges g')"
      "same_groups g g'" "\<forall>(L, ap) \<in> set ps. child \<in> set (cg_runtime_children g' ! the (group_handle eps groups L))"
      "cg_block_groups g' = (\<lambda>orig. if \<exists>(L, ap) \<in> set ps. orig \<in> set (ap_origins ap) then Some child else cg_block_groups g orig)"
    by blast
  have blk: "cg_block_groups g' orig = (if orig \<in> origins_of p then Some child else cg_block_groups g orig)" for orig
    unfolding g'(6) origins_of_def ps(2) by auto
  have "connect_plan mg eps plans groups t g = Some g'"
    using child p ps(1) g'(1) by (simp add: connect_plan_def)
  moreover have "edges_built plans eps groups (insert t ts) g'"
    unfolding edges_built_def
  proof (intro conjI allI impI ballI)
    fix orig gr assume b: "cg_block_groups g' orig = Some gr"
    show "\<exists>t p. map_of groups t = Some gr \<and> map_of plans t = Some p \<and> orig \<in> origins_of p"
    proof (cases "orig \<in> origins_of p")
      case True
      with b child p show ?thesis by (auto simp: blk)
    next
      case False
      with b have "cg_block_groups g orig = Some gr" by (simp add: blk)
      with inv show ?thesis unfolding edges_built_def by blast
    qed
  next
    fix u q orig assume "u \<in> insert t ts" "map_of plans u = Some q" "orig \<in> origins_of q"
    then show "cg_block_groups g' orig \<noteq> None" using p inv by (auto simp: blk edges_built_def)
  next
    fix u q r assume u: "u \<in> insert t ts" "map_of plans u = Some q" and r: "r \<in> set (pl_parents q)"
    obtain L ap where Lap: "r = (L, ap)" by (cases r)
    have "the (map_of groups u) \<in> set (cg_runtime_children g' ! the (group_handle eps groups L))"
    proof (cases "u = t")
      case True
      with u p r Lap ps(2) g'(5) child show ?thesis by auto
    next
      case False
      with u have "u \<in> ts" by simp
      with u(2) inv have "\<forall>x \<in> set (pl_parents q). case x of (L, ap) \<Rightarrow>
          the (map_of groups u) \<in> set (cg_runtime_children g ! the (group_handle eps groups L))"
        unfolding edges_built_def by blast
      from bspec [OF this r] Lap
      have "the (map_of groups u) \<in> set (cg_runtime_children g ! the (group_handle eps groups L))" by simp
      moreover from plan_record [OF ok u(2), of L ap] r Lap have "group_valid eps (map_of plans) L"
        by (simp add: record_ok_def)
      from handle [OF this] obtain h where "group_handle eps groups L = Some h" "h < length (cg_groups g)" by blast
      ultimately show ?thesis using g'(4) by (auto simp: same_groups_def)
    qed
    with Lap show "case r of (L, ap) \<Rightarrow> the (map_of groups u) \<in> set (cg_runtime_children g' ! the (group_handle eps groups L))"
      by simp
  qed
  ultimately show ?thesis using g' by blast
qed

lemma connect_plans_fold:
  assumes ok: "plans_ok mg eps (map_of plans)" and dom: "dom (map_of groups) = dom (map_of plans)"
    and "\<forall>t \<in> set ts. map_of plans t \<noteq> None"
    and "chunk_graph_wf g" and "acyclic (group_edges g)"
    and "\<forall>t gr. map_of groups t = Some gr \<longrightarrow> gr < length (cg_groups g)"
    and "\<forall>i < length eps. ep_group (eps ! i) < length (cg_groups g)"
    and "edges_built plans eps groups us g"
  shows "\<exists>g'. fold_opt (connect_plan mg eps plans groups) ts g = Some g' \<and> chunk_graph_wf g' \<and>
    acyclic (group_edges g') \<and> same_groups g g' \<and> edges_built plans eps groups (set ts \<union> us) g'"
  using assms(3-)
proof (induction ts arbitrary: g us)
  case Nil
  then show ?case by simp
next
  case (Cons t ts)
  from Cons.prems(1) obtain p where p: "map_of plans t = Some p" by auto
  from connect_plan_ok [OF ok p Cons.prems(2,3) dom Cons.prems(4,5,6)] obtain g1 where
    g1: "connect_plan mg eps plans groups t g = Some g1" "chunk_graph_wf g1" "acyclic (group_edges g1)"
      "same_groups g g1" "edges_built plans eps groups (insert t us) g1" by blast
  have "length (cg_groups g1) = length (cg_groups g)" using g1(4) by (simp add: same_groups_def)
  with Cons.IH [OF _ g1(2,3) _ _ g1(5)] Cons.prems obtain g' where
    g': "fold_opt (connect_plan mg eps plans groups) ts g1 = Some g'" "chunk_graph_wf g'" "acyclic (group_edges g')"
      "same_groups g1 g'" "edges_built plans eps groups (set ts \<union> insert t us) g'" by auto
  then show ?case using g1(1) same_groups_trans [OF g1(4) g'(4)] by auto
qed

section \<open>The whole materialization\<close>

text \<open>
  A chunk graph realizes plans when every entry group holds what is reachable from its entry, and
  every import of a group's module that the group does not already provide leads, by its block,
  to a group that holds the modules of the target's plan.
\<close>

definition realizes ::
  "module_graph \<Rightarrow> entry_plan list \<Rightarrow> (nat \<rightharpoonup> async_plan) \<Rightarrow> chunk_graph \<Rightarrow> bool" where
  "realizes mg eps P g \<longleftrightarrow>
     length (cg_entrypoints g) = length eps \<and>
     (\<forall>i < length eps. group_mods eps P (LEntry i) \<subseteq> group_modules g (cg_entrypoints g ! i)) \<and>
     (\<forall>L m orig t. group_valid eps P L \<longrightarrow> m \<in> group_mods eps P L \<longrightarrow> (orig, t) \<in> imports_of mg m \<longrightarrow>
        t \<notin> group_avail eps P L \<longrightarrow>
        (\<exists>gr. cg_block_groups g orig = Some gr \<and> gr < length (cg_groups g) \<and>
              group_mods eps P (LAsync t) \<subseteq> group_modules g gr))"

lemma imports_functional: "(orig, t) \<in> imports_of mg m \<Longrightarrow> (orig, u) \<in> imports_of mg n \<Longrightarrow> t = u"
  by (auto simp: imports_of_def)

lemma materialize_spec:
  assumes wf: "graph_wf mg" and ok: "plans_ok mg eps (map_of plans)"
    and st: "\<forall>K. group_valid eps (map_of plans) K \<longrightarrow> settled mg eps (map_of plans) K"
    and ent: "entries_built mg ms (g0, eps)"
  shows "\<exists>g groups. materialize mg eps plans g0 = Some (g, groups) \<and> chunk_graph_wf g \<and>
    acyclic (group_edges g) \<and> (\<forall>i < length (cg_groups g). gr_chunks (cg_groups g ! i) \<noteq> []) \<and>
    realizes mg eps (map_of plans) g \<and> cg_entrypoints g = [0..<length eps] \<and>
    (\<forall>t p L. map_of plans t = Some p \<longrightarrow> map_of (pl_parents p) L \<noteq> None \<longrightarrow>
       the (map_of groups t) \<in> set (cg_runtime_children g ! the (group_handle eps groups L))) \<and>
    (\<forall>orig gr. cg_block_groups g orig = Some gr \<longrightarrow> gr < length (cg_groups g))"
proof -
  let ?P = "map_of plans"
  have tr: "t < length (gs_modules mg)" if "t \<in> set (map fst plans)" for t
  proof -
    from that have "?P t \<noteq> None" by (simp add: map_of_eq_None_iff)
    with ok show ?thesis by (auto simp: plans_ok_def plan_ok_def)
  qed
  then have "identity_of mg t \<noteq> None" if "t \<in> set (map fst plans)" for t
    using that by (simp add: identity_of_def graph_module_def)
  from sort_by_key_total [of "map fst plans" "identity_of mg", OF this] obtain ts where
    ts: "sort_by_key (identity_of mg) (map fst plans) = Some ts" "set ts = set (map fst plans)" by blast
  have dts: "set ts = dom ?P" by (simp add: ts(2) dom_map_of_conv_image_fst)
  then have known: "\<forall>t \<in> set ts. ?P t \<noteq> None" by auto
  have "async_built mg eps plans {} (g0, [])"
    using ent by (auto simp: entries_built_def async_built_def)
  from add_async_groups_spec [OF wf ok known this] obtain g1 groups where
    a: "fold_opt (add_async_group mg plans) ts (g0, []) = Some (g1, groups)"
    and ab: "async_built mg eps plans (set ts) (g1, groups)" by fastforce
  from ab have g1: "chunk_graph_wf g1" "length eps \<le> length (cg_groups g1)" "cg_entrypoints g1 = [0..<length eps]"
    "group_edges g1 = {}" "cg_block_groups g1 = Map.empty" "\<forall>i < length (cg_groups g1). gr_chunks (cg_groups g1 ! i) \<noteq> []"
    "\<forall>i < length eps. ep_group (eps ! i) = i \<and> group_modules g1 i = set (ep_modules (eps ! i))"
    and dg: "dom (map_of groups) = dom ?P"
    and gm: "\<forall>t gr. map_of groups t = Some gr \<longrightarrow> gr < length (cg_groups g1) \<and>
        group_modules g1 gr = group_mods eps ?P (LAsync t)"
    by (simp_all add: async_built_def dts)
  have ac: "acyclic (group_edges g1)" by (simp add: g1(4) acyclic_def)
  have rng: "\<forall>t gr. map_of groups t = Some gr \<longrightarrow> gr < length (cg_groups g1)" using gm by blast
  have er: "\<forall>i < length eps. ep_group (eps ! i) < length (cg_groups g1)" using g1(2,7) by auto
  have eb: "edges_built plans eps groups {} g1" by (simp add: edges_built_def g1(5))
  from connect_plans_fold [OF ok dg known g1(1) ac rng er eb] obtain g where
    g: "fold_opt (connect_plan mg eps plans groups) ts g1 = Some g" "chunk_graph_wf g" "acyclic (group_edges g)"
      "same_groups g1 g" "edges_built plans eps groups (set ts) g" by auto
  have len: "length (cg_groups g) = length (cg_groups g1)" "cg_entrypoints g = [0..<length eps]"
    using g(4) g1(3) by (simp_all add: same_groups_def)
  note same = same_groups_modules [OF g(4)]
  have "realizes mg eps ?P g"
    unfolding realizes_def
  proof (intro conjI allI impI)
    show "length (cg_entrypoints g) = length eps" by (simp add: len)
    fix i assume "i < length eps"
    then show "group_mods eps ?P (LEntry i) \<subseteq> group_modules g (cg_entrypoints g ! i)"
      using g1(2,7) same(1) by (simp add: len group_mods_def)
  next
    fix L m orig t assume L: "group_valid eps ?P L" and m: "m \<in> group_mods eps ?P L"
      and i: "(orig, t) \<in> imports_of mg m" and t: "t \<notin> group_avail eps ?P L"
    from st L have "settled mg eps ?P L" by blast
    with m i t have "recorded ?P t L (group_avail eps ?P L) orig" unfolding settled_def by blast
    then obtain p ap where p: "?P t = Some p" and ap: "map_of (pl_parents p) L = Some ap" "orig \<in> set (ap_origins ap)"
      by (auto simp: recorded_def)
    then have "orig \<in> origins_of p" using map_of_SomeD [OF ap(1)] by (auto simp: origins_of_def)
    moreover have "t \<in> set ts" using p dts by blast
    ultimately obtain gr where gr: "cg_block_groups g orig = Some gr"
      using g(5) p unfolding edges_built_def by blast
    with g(5) obtain u q where u: "map_of groups u = Some gr" "?P u = Some q" "orig \<in> origins_of q"
      unfolding edges_built_def by blast
    then obtain K aq where "(K, aq) \<in> set (pl_parents q)" "orig \<in> set (ap_origins aq)" by (auto simp: origins_of_def)
    with plan_record [OF ok u(2)] have "(orig, u) \<in> imports_of mg (fst orig)" by (auto simp: record_ok_def)
    with i have "u = t" by (metis imports_functional)
    with u gm have "gr < length (cg_groups g1)" "group_modules g1 gr = group_mods eps ?P (LAsync t)" by auto
    with gr same(1) len show "\<exists>gr. cg_block_groups g orig = Some gr \<and> gr < length (cg_groups g) \<and>
        group_mods eps ?P (LAsync t) \<subseteq> group_modules g gr" by auto
  qed
  moreover have "the (map_of groups t) \<in> set (cg_runtime_children g ! the (group_handle eps groups L))"
    if p: "?P t = Some p" and L: "map_of (pl_parents p) L \<noteq> None" for t p L
  proof -
    from L obtain ap where ap: "(L, ap) \<in> set (pl_parents p)" by (auto dest: map_of_SomeD)
    have "t \<in> set ts" using p dts by blast
    with g(5) p have "\<forall>x \<in> set (pl_parents p). case x of (L, ap) \<Rightarrow>
        the (map_of groups t) \<in> set (cg_runtime_children g ! the (group_handle eps groups L))"
      unfolding edges_built_def by blast
    from bspec [OF this ap] show ?thesis by simp
  qed
  moreover have "gr_chunks (cg_groups g ! i) \<noteq> []" if "i < length (cg_groups g)" for i
    using same(2) g1(6) that len by simp
  moreover have "\<forall>orig gr. cg_block_groups g orig = Some gr \<longrightarrow> gr < length (cg_groups g)"
  proof (intro allI impI)
    fix orig gr assume "cg_block_groups g orig = Some gr"
    with g(5) obtain u where "map_of groups u = Some gr" unfolding edges_built_def by blast
    with rng len(1) show "gr < length (cg_groups g)" by auto
  qed
  moreover have "materialize mg eps plans g0 = Some (g, groups)"
    using ts(1) a g(1) by (simp add: materialize_def)
  ultimately show ?thesis using g(2,3) len(2) by blast
qed

end
