(* ===== verification/Split_Chunks.thy ===== *)
theory Split_Chunks
  imports Chunk_Realize
begin

text \<open>
  \<open>apply_split_chunks\<close> and the whole of \<open>build_chunk_graph_with_cache\<close>: modules that the same set
  of async chunks share move into one chunk, which joins every group of those chunks.  A hash map
  is its association list in insertion order; the code sorts what it reads from one.
\<close>

section \<open>Definitions\<close>

record split_options =
  so_min_chunks :: nat
  so_name :: "string option"

definition is_async_chunk :: "chunk_graph \<Rightarrow> chunk \<Rightarrow> bool option" where
  "is_async_chunk g k = do {
     kinds \<leftarrow> map_opt (\<lambda>gr. map_option gr_kind (vec_get (cg_groups g) gr)) (ck_groups k);
     Some (ck_groups k \<noteq> [] \<and> list_all (\<lambda>kd. kd = Async) kinds) }"

definition async_chunks :: "chunk_graph \<Rightarrow> nat list option" where
  "async_chunks g = do {
     flags \<leftarrow> map_opt (is_async_chunk g) (cg_chunks g);
     Some (map (ck_handle \<circ> fst) (filter snd (zip (cg_chunks g) flags))) }"

text \<open>\<open>map.entry(k).or_default().push(v)\<close> on a hash map.\<close>

definition push_entry :: "'k \<Rightarrow> 'v \<Rightarrow> ('k \<times> 'v list) list \<Rightarrow> ('k \<times> 'v list) list" where
  "push_entry k v al = AList.update k ((case map_of al k of Some vs \<Rightarrow> vs | None \<Rightarrow> []) @ [v]) al"

definition chunks_by_module :: "chunk_graph \<Rightarrow> nat list \<Rightarrow> (nat \<times> nat list) list option" where
  "chunks_by_module g chunks =
     fold_opt (\<lambda>c al. do {
       ms \<leftarrow> chunk_modules g c;
       Some (fold (\<lambda>m. push_entry m c) ms al) }) chunks []"

definition modules_by_chunk_set :: "nat \<Rightarrow> (nat \<times> nat list) list \<Rightarrow> (nat list \<times> nat list) list" where
  "modules_by_chunk_set min_chunks by_module =
     fold (\<lambda>(m, cs) al.
       let cs = remdups_adj (sort cs) in
       if min_chunks \<le> length cs then push_entry cs m al else al) by_module []"

definition split_candidates ::
  "string option \<Rightarrow> (nat list \<times> nat list) list \<Rightarrow> (nat list \<times> nat list) list" where
  "split_candidates name by_set =
     (let cands = sort_key fst by_set in
      if name \<noteq> None \<and> 1 < length cands
      then [(remdups_adj (sort (concat (map fst cands))), concat (map snd cands))]
      else cands)"

definition move_module :: "nat list \<Rightarrow> nat \<Rightarrow> nat \<Rightarrow> chunk_graph \<Rightarrow> chunk_graph option" where
  "move_module sources shared m g = do {
     g \<leftarrow> fold_opt (\<lambda>c g. disconnect_chunk_and_module c m g) sources g;
     connect_chunk_and_module shared m g }"

definition split_candidate ::
  "string option \<Rightarrow> nat list \<times> nat list \<Rightarrow> chunk_graph \<Rightarrow> chunk_graph option" where
  "split_candidate name = (\<lambda>(sources, modules) g. do {
     let modules = sort modules;
     (g, shared) \<leftarrow> add_split_chunk sources name modules g;
     fold_opt (move_module sources shared) modules g })"

definition apply_split_chunks :: "split_options \<Rightarrow> chunk_graph \<Rightarrow> chunk_graph option" where
  "apply_split_chunks opts g = do {
     chunks \<leftarrow> async_chunks g;
     by_module \<leftarrow> chunks_by_module g chunks;
     let by_set = modules_by_chunk_set (so_min_chunks opts) by_module;
     fold_opt (split_candidate (so_name opts)) (split_candidates (so_name opts) by_set) g }"

definition build_chunk_graph_with_cache ::
  "reach_memo \<Rightarrow> module_graph \<Rightarrow> string list \<Rightarrow> nat list \<Rightarrow> split_options option \<Rightarrow> chunk_graph option" where
  "build_chunk_graph_with_cache memo mg ns entries split = do {
     (g, eps) \<leftarrow> add_entries memo mg ns entries;
     plans \<leftarrow> plan_async_chunks memo mg eps;
     (g, _) \<leftarrow> materialize mg eps plans g;
     (case split of None \<Rightarrow> Some g | Some opts \<Rightarrow> apply_split_chunks opts g) }"

section \<open>Splitting never takes a module away from a group\<close>

definition split_frame :: "chunk_graph \<Rightarrow> chunk_graph \<Rightarrow> bool" where
  "split_frame g g' \<longleftrightarrow>
     length (cg_groups g') = length (cg_groups g) \<and> length (cg_chunks g) \<le> length (cg_chunks g') \<and>
     cg_entrypoints g' = cg_entrypoints g \<and> cg_block_groups g' = cg_block_groups g \<and>
     cg_runtime_children g' = cg_runtime_children g \<and>
     map gr_children (cg_groups g') = map gr_children (cg_groups g) \<and>
     map gr_kind (cg_groups g') = map gr_kind (cg_groups g) \<and>
     (\<forall>i < length (cg_groups g). group_modules g i \<subseteq> group_modules g' i \<and>
        set (gr_chunks (cg_groups g ! i)) \<subseteq> set (gr_chunks (cg_groups g' ! i)))"

lemma split_frame_refl [simp]: "split_frame g g"
  by (simp add: split_frame_def)

lemma split_frame_trans: "split_frame f g \<Longrightarrow> split_frame g h \<Longrightarrow> split_frame f h"
  unfolding split_frame_def by (metis order_trans)

lemma split_frame_edges:
  assumes "split_frame g g'"
  shows "group_edges g' = group_edges g"
proof -
  have "gr_children (cg_groups g' ! i) = gr_children (cg_groups g ! i)" if "i < length (cg_groups g)" for i
    using assms that unfolding split_frame_def by (metis nth_map)
  with assms show ?thesis by (auto simp: group_edges_def split_frame_def)
qed

lemma disconnect_all:
  assumes "chunk_graph_wf g" and "\<forall>c \<in> set cs. c < length (cg_chunks g)"
  shows "\<exists>g'. fold_opt (\<lambda>c g. disconnect_chunk_and_module c m g) cs g = Some g' \<and> chunk_graph_wf g' \<and>
    cg_chunks g' = cg_chunks g \<and> cg_groups g' = cg_groups g \<and> cg_entrypoints g' = cg_entrypoints g \<and>
    cg_runtime_children g' = cg_runtime_children g \<and> cg_block_groups g' = cg_block_groups g \<and>
    cg_concatenated g' = cg_concatenated g \<and>
    (\<forall>c < length (cg_chunks g). set (cg_chunk_modules g' ! c) =
       (if c \<in> set cs then set (cg_chunk_modules g ! c) - {m} else set (cg_chunk_modules g ! c)))"
  using assms
proof (induction cs arbitrary: g)
  case Nil
  then show ?case by simp
next
  case (Cons c cs)
  then have c: "c < length (cg_chunks g)" by simp
  have lc: "length (cg_chunk_modules g) = length (cg_chunks g)"
    using Cons.prems(1) by (simp add: chunk_graph_wf_def sizes_ok_def)
  from chunk_graph_wf_disconnect [OF Cons.prems(1) c, of m] obtain g1 where
    g1: "disconnect_chunk_and_module c m g = Some g1" "chunk_graph_wf g1" "cg_chunks g1 = cg_chunks g"
      "cg_groups g1 = cg_groups g" "cg_entrypoints g1 = cg_entrypoints g"
      "cg_runtime_children g1 = cg_runtime_children g" "cg_block_groups g1 = cg_block_groups g"
      "cg_concatenated g1 = cg_concatenated g"
      "cg_chunk_modules g1 = (cg_chunk_modules g)[c := filter (\<lambda>x. x \<noteq> m) (cg_chunk_modules g ! c)]" by blast
  from Cons.IH [OF g1(2)] Cons.prems(2) g1(3) obtain g' where
    g': "fold_opt (\<lambda>c g. disconnect_chunk_and_module c m g) cs g1 = Some g'" "chunk_graph_wf g'"
      "cg_chunks g' = cg_chunks g1" "cg_groups g' = cg_groups g1" "cg_entrypoints g' = cg_entrypoints g1"
      "cg_runtime_children g' = cg_runtime_children g1" "cg_block_groups g' = cg_block_groups g1"
      "cg_concatenated g' = cg_concatenated g1"
      "\<forall>d < length (cg_chunks g1). set (cg_chunk_modules g' ! d) =
         (if d \<in> set cs then set (cg_chunk_modules g1 ! d) - {m} else set (cg_chunk_modules g1 ! d))" by auto
  have "set (cg_chunk_modules g' ! d) =
       (if d \<in> set (c # cs) then set (cg_chunk_modules g ! d) - {m} else set (cg_chunk_modules g ! d))"
    if "d < length (cg_chunks g)" for d
    using g'(9) g1(3,9) that c lc by (cases "d = c") auto
  with g1 g' show ?case by simp
qed

lemma move_module_ok:
  assumes wf: "chunk_graph_wf g" and src: "\<forall>c \<in> set sources. c < length (cg_chunks g)"
    and sh: "shared < length (cg_chunks g)"
    and joined: "\<forall>i < length (cg_groups g). (\<exists>s \<in> set sources. s \<in> set (gr_chunks (cg_groups g ! i))) \<longrightarrow>
        shared \<in> set (gr_chunks (cg_groups g ! i))"
  shows "\<exists>g'. move_module sources shared m g = Some g' \<and> chunk_graph_wf g' \<and> split_frame g g' \<and>
    cg_chunks g' = cg_chunks g \<and> cg_groups g' = cg_groups g"
proof -
  from disconnect_all [OF wf src, of m] obtain g1 where
    g1: "fold_opt (\<lambda>c g. disconnect_chunk_and_module c m g) sources g = Some g1" "chunk_graph_wf g1"
      "cg_chunks g1 = cg_chunks g" "cg_groups g1 = cg_groups g" "cg_entrypoints g1 = cg_entrypoints g"
      "cg_runtime_children g1 = cg_runtime_children g" "cg_block_groups g1 = cg_block_groups g"
      "\<forall>c < length (cg_chunks g). set (cg_chunk_modules g1 ! c) =
         (if c \<in> set sources then set (cg_chunk_modules g ! c) - {m} else set (cg_chunk_modules g ! c))" by blast
  from sh g1(3) have sh1: "shared < length (cg_chunks g1)" by simp
  have lc: "length (cg_chunk_modules g1) = length (cg_chunks g)"
    using g1(2,3) by (simp add: chunk_graph_wf_def sizes_ok_def)
  from chunk_graph_wf_connect_module [OF g1(2) sh1, of m] obtain g' where
    g': "connect_chunk_and_module shared m g1 = Some g'" "chunk_graph_wf g'" "cg_chunks g' = cg_chunks g1"
      "cg_groups g' = cg_groups g1" "cg_entrypoints g' = cg_entrypoints g1"
      "cg_runtime_children g' = cg_runtime_children g1" "cg_block_groups g' = cg_block_groups g1"
      "cg_chunk_modules g' = (cg_chunk_modules g1)[shared := push_new m (cg_chunk_modules g1 ! shared)]" by blast
  have kept: "set (cg_chunk_modules g ! c) - {m} \<subseteq> set (cg_chunk_modules g' ! c)" if "c < length (cg_chunks g)" for c
    using g1(8) g'(8) that lc by (cases "c = shared") auto
  have stays: "set (cg_chunk_modules g ! c) \<subseteq> set (cg_chunk_modules g' ! c)"
    if "c < length (cg_chunks g)" "c \<notin> set sources" for c
    using g1(8) g'(8) that lc by (cases "c = shared") auto
  have has: "m \<in> set (cg_chunk_modules g' ! shared)" using g'(8) sh lc by simp
  have "group_modules g i \<subseteq> group_modules g' i" if i: "i < length (cg_groups g)" for i
  proof
    fix x assume "x \<in> group_modules g i"
    then obtain c where c: "c \<in> set (gr_chunks (cg_groups g ! i))" and x: "x \<in> set (cg_chunk_modules g ! c)"
      by (auto simp: group_modules_def)
    have cl: "c < length (cg_chunks g)" by (rule group_chunk_range [OF wf i c])
    show "x \<in> group_modules g' i"
    proof (cases "x = m \<and> c \<in> set sources")
      case True
      with joined i c have "shared \<in> set (gr_chunks (cg_groups g ! i))" by blast
      with True has g1(4) g'(4) show ?thesis by (auto simp: group_modules_def)
    next
      case False
      with kept [OF cl] stays [OF cl] x have "x \<in> set (cg_chunk_modules g' ! c)" by blast
      with c g1(4) g'(4) show ?thesis by (auto simp: group_modules_def)
    qed
  qed
  then have "split_frame g g'" using g1 g' by (simp add: split_frame_def)
  moreover have "move_module sources shared m g = Some g'" using g1(1) g'(1) by (simp add: move_module_def)
  ultimately show ?thesis using g1 g' by auto
qed

lemma move_modules_fold:
  assumes "chunk_graph_wf g" and "\<forall>c \<in> set sources. c < length (cg_chunks g)" and "shared < length (cg_chunks g)"
    and "\<forall>i < length (cg_groups g). (\<exists>s \<in> set sources. s \<in> set (gr_chunks (cg_groups g ! i))) \<longrightarrow>
        shared \<in> set (gr_chunks (cg_groups g ! i))"
  shows "\<exists>g'. fold_opt (move_module sources shared) ms g = Some g' \<and> chunk_graph_wf g' \<and> split_frame g g' \<and>
    cg_chunks g' = cg_chunks g \<and> cg_groups g' = cg_groups g"
  using assms
proof (induction ms arbitrary: g)
  case Nil
  then show ?case by simp
next
  case (Cons m ms)
  from move_module_ok [OF Cons.prems, of m] obtain g1 where
    g1: "move_module sources shared m g = Some g1" "chunk_graph_wf g1" "split_frame g g1"
      "cg_chunks g1 = cg_chunks g" "cg_groups g1 = cg_groups g" by blast
  from Cons.IH [OF g1(2)] Cons.prems g1(4,5) obtain g' where
    "fold_opt (move_module sources shared) ms g1 = Some g'" "chunk_graph_wf g'" "split_frame g1 g'"
      "cg_chunks g' = cg_chunks g1" "cg_groups g' = cg_groups g1" by auto
  with g1 split_frame_trans show ?case by auto
qed

lemma split_candidate_ok:
  assumes wf: "chunk_graph_wf g" and src: "\<forall>c \<in> set sources. c < length (cg_chunks g)"
  shows "\<exists>g'. split_candidate name (sources, ms) g = Some g' \<and> chunk_graph_wf g' \<and> split_frame g g'"
proof -
  let ?n = "length (cg_chunks g)"
  from add_split_chunk_spec [OF wf src, of name "sort ms"] obtain g1 where
    g1: "add_split_chunk sources name (sort ms) g = Some (g1, ?n)" "chunk_graph_wf g1"
      "length (cg_chunks g1) = Suc ?n" "length (cg_groups g1) = length (cg_groups g)"
      "cg_chunk_modules g1 = cg_chunk_modules g @ [[]]" "cg_entrypoints g1 = cg_entrypoints g"
      "cg_runtime_children g1 = cg_runtime_children g" "cg_block_groups g1 = cg_block_groups g"
      "map gr_kind (cg_groups g1) = map gr_kind (cg_groups g)"
      "map gr_children (cg_groups g1) = map gr_children (cg_groups g)"
    and grs: "\<forall>i < length (cg_groups g). set (gr_chunks (cg_groups g1 ! i)) =
        set (gr_chunks (cg_groups g ! i)) \<union>
        (if \<exists>s \<in> set sources. s \<in> set (gr_chunks (cg_groups g ! i)) then {?n} else {})" by blast
  have lc: "length (cg_chunk_modules g) = ?n" using wf by (simp add: chunk_graph_wf_def sizes_ok_def)
  have "group_modules g i \<subseteq> group_modules g1 i" if i: "i < length (cg_groups g)" for i
  proof
    fix x assume "x \<in> group_modules g i"
    then obtain c where c: "c \<in> set (gr_chunks (cg_groups g ! i))" "x \<in> set (cg_chunk_modules g ! c)"
      by (auto simp: group_modules_def)
    have "c < ?n" by (rule group_chunk_range [OF wf i c(1)])
    with c grs i g1(5) lc show "x \<in> group_modules g1 i" by (auto simp: group_modules_def nth_append intro!: bexI [of _ c])
  qed
  with g1 grs have f1: "split_frame g g1" by (auto simp: split_frame_def)
  have nsrc: "s \<noteq> ?n" if "s \<in> set sources" for s using src that by auto
  have joined: "\<forall>i < length (cg_groups g1). (\<exists>s \<in> set sources. s \<in> set (gr_chunks (cg_groups g1 ! i))) \<longrightarrow>
        ?n \<in> set (gr_chunks (cg_groups g1 ! i))"
    using grs nsrc g1(4) by (auto split: if_splits)
  have "\<forall>c \<in> set sources. c < length (cg_chunks g1)" "?n < length (cg_chunks g1)" using src g1(3) by auto
  from move_modules_fold [OF g1(2) this joined, of "sort ms"] obtain g' where
    "fold_opt (move_module sources ?n) (sort ms) g1 = Some g'" "chunk_graph_wf g'" "split_frame g1 g'" by blast
  then show ?thesis using g1(1) split_frame_trans [OF f1] by (simp add: split_candidate_def)
qed

section \<open>Every candidate names chunks of the graph\<close>

lemma update_subset: "set (AList.update k v al) \<subseteq> insert (k, v) (set al)"
  by (induction al) auto

lemma push_entry_values:
  assumes "\<forall>(k, vs) \<in> set al. set vs \<subseteq> R" and "v \<in> R"
  shows "\<forall>(k, vs) \<in> set (push_entry k' v al). set vs \<subseteq> R"
proof -
  define old where "old = (case map_of al k' of Some vs \<Rightarrow> vs | None \<Rightarrow> [])"
  have "set old \<subseteq> R" using assms(1) by (cases "map_of al k'") (auto simp: old_def dest: map_of_SomeD)
  with assms show ?thesis
    using update_subset [of k' "old @ [v]" al]
    by (fastforce simp: push_entry_def old_def [symmetric])
qed

lemma push_entry_keys:
  "set (map fst (push_entry k v al)) = insert k (set (map fst al))"
  by (auto simp: push_entry_def update_keys)

lemma fold_push_values:
  assumes "\<forall>(k, vs) \<in> set al. set vs \<subseteq> R" and "c \<in> R"
  shows "\<forall>(k, vs) \<in> set (fold (\<lambda>m. push_entry m c) ms al). set vs \<subseteq> R"
  using assms
proof (induction ms arbitrary: al)
  case (Cons m ms)
  show ?case using Cons.IH [OF push_entry_values [OF Cons.prems, of m] Cons.prems(2)] by simp
qed simp

lemma chunks_by_module_ok:
  assumes lc: "length (cg_chunk_modules g) = length (cg_chunks g)"
    and cs: "set cs \<subseteq> {..< length (cg_chunks g)}"
  shows "\<exists>al. chunks_by_module g cs = Some al \<and> (\<forall>(m, vs) \<in> set al. set vs \<subseteq> {..< length (cg_chunks g)})"
proof -
  have "\<exists>al'. fold_opt (\<lambda>c al. do { ms \<leftarrow> chunk_modules g c; Some (fold (\<lambda>m. push_entry m c) ms al) }) cs al = Some al' \<and>
      (\<forall>(m, vs) \<in> set al'. set vs \<subseteq> {..< length (cg_chunks g)})"
    if "\<forall>(m, vs) \<in> set al. set vs \<subseteq> {..< length (cg_chunks g)}" for al
    using that cs
  proof (induction cs arbitrary: al)
    case (Cons c cs)
    then have c: "c \<in> {..< length (cg_chunks g)}" by simp
    with lc have "chunk_modules g c = Some (cg_chunk_modules g ! c)" by (simp add: chunk_modules_def)
    with Cons.IH [OF fold_push_values [OF Cons.prems(1) c, of "cg_chunk_modules g ! c"]] Cons.prems(2)
    show ?case by simp
  qed simp
  from this [of "[]"] show ?thesis by (simp add: chunks_by_module_def)
qed

lemma modules_by_chunk_set_keys:
  assumes "\<forall>(m, vs) \<in> set al. set vs \<subseteq> R"
  shows "\<forall>cs \<in> set (map fst (modules_by_chunk_set n al)). set cs \<subseteq> R"
proof -
  have "\<forall>cs \<in> set (map fst (fold (\<lambda>(m, cs) bl. let cs = remdups_adj (sort cs) in
      if n \<le> length cs then push_entry cs m bl else bl) al bl)). set cs \<subseteq> R"
    if "\<forall>cs \<in> set (map fst bl). set cs \<subseteq> R" for bl
    using that assms
  proof (induction al arbitrary: bl)
    case (Cons x al)
    obtain m cs where x: "x = (m, cs)" by force
    let ?cs = "remdups_adj (sort cs)"
    let ?bl = "if n \<le> length ?cs then push_entry ?cs m bl else bl"
    have "\<forall>cs \<in> set (map fst ?bl). set cs \<subseteq> R"
      using Cons.prems x by (simp add: push_entry_keys del: list.set_map set_map)
    from Cons.IH [OF this] Cons.prems(2) show ?case by (simp add: x Let_def)
  qed simp
  from this [of "[]"] show ?thesis by (simp add: modules_by_chunk_set_def)
qed

lemma split_candidates_sources:
  assumes "\<forall>cs \<in> set (map fst by_set). set cs \<subseteq> R"
  shows "\<forall>(sources, ms) \<in> set (split_candidates name by_set). set sources \<subseteq> R"
proof -
  have in_R: "x \<in> R" if "(xs, ms) \<in> set by_set" "x \<in> set xs" for x xs ms using assms that by force
  show ?thesis by (auto simp: split_candidates_def Let_def split: prod.splits intro: in_R)
qed

lemma async_chunks_ok:
  assumes wf: "chunk_graph_wf g"
  shows "\<exists>cs. async_chunks g = Some cs \<and> set cs \<subseteq> {..< length (cg_chunks g)}"
proof -
  have rng: "gr < length (cg_groups g)" if "k \<in> set (cg_chunks g)" "gr \<in> set (ck_groups k)" for k gr
    using wf that unfolding chunk_graph_wf_def groups_linked_def linked_def
    by (metis in_set_conv_nth length_map nth_map)
  have "\<exists>b. is_async_chunk g k = Some b" if "k \<in> set (cg_chunks g)" for k
  proof -
    have "map_opt (\<lambda>gr. map_option gr_kind (vec_get (cg_groups g) gr)) (ck_groups k) =
        Some (map (\<lambda>gr. gr_kind (cg_groups g ! gr)) (ck_groups k))"
      using rng [OF that] by (intro map_opt_total) simp
    then show ?thesis by (simp add: is_async_chunk_def)
  qed
  then have "map_opt (is_async_chunk g) (cg_chunks g) = Some (map (the \<circ> is_async_chunk g) (cg_chunks g))"
    by (intro map_opt_total) force
  moreover have "ck_handle k < length (cg_chunks g)" if "k \<in> set (cg_chunks g)" for k
    using wf that by (auto simp: chunk_graph_wf_def sizes_ok_def in_set_conv_nth)
  ultimately show ?thesis by (auto simp: async_chunks_def dest!: set_zip_leftD)
qed

lemma split_candidates_fold:
  assumes "chunk_graph_wf g" and "\<forall>(sources, ms) \<in> set cands. set sources \<subseteq> {..< length (cg_chunks g)}"
  shows "\<exists>g'. fold_opt (split_candidate name) cands g = Some g' \<and> chunk_graph_wf g' \<and> split_frame g g'"
  using assms
proof (induction cands arbitrary: g)
  case (Cons x cands)
  obtain sources ms where x: "x = (sources, ms)" by force
  with Cons.prems have "\<forall>c \<in> set sources. c < length (cg_chunks g)" by auto
  from split_candidate_ok [OF Cons.prems(1) this, of name ms] obtain g1 where
    g1: "split_candidate name x g = Some g1" "chunk_graph_wf g1" "split_frame g g1" unfolding x by blast
  have "\<forall>(sources, ms) \<in> set cands. set sources \<subseteq> {..< length (cg_chunks g1)}"
    using Cons.prems(2) g1(3) by (fastforce simp: split_frame_def)
  from Cons.IH [OF g1(2) this] g1 show ?case using split_frame_trans [OF g1(3)] by auto
qed simp

theorem apply_split_chunks_spec:
  assumes wf: "chunk_graph_wf g"
  shows "\<exists>g'. apply_split_chunks opts g = Some g' \<and> chunk_graph_wf g' \<and> split_frame g g'"
proof -
  have lc: "length (cg_chunk_modules g) = length (cg_chunks g)"
    using wf by (simp add: chunk_graph_wf_def sizes_ok_def)
  from async_chunks_ok [OF wf] obtain cs where
    cs: "async_chunks g = Some cs" "set cs \<subseteq> {..< length (cg_chunks g)}" by blast
  from chunks_by_module_ok [OF lc cs(2)] obtain al where
    al: "chunks_by_module g cs = Some al" "\<forall>(m, vs) \<in> set al. set vs \<subseteq> {..< length (cg_chunks g)}" by blast
  from split_candidates_fold [OF wf split_candidates_sources
      [OF modules_by_chunk_set_keys [OF al(2)], of "so_name opts" "so_min_chunks opts"], of "so_name opts"] cs al
  show ?thesis by (auto simp: apply_split_chunks_def Let_def)
qed

end
