(* ===== verification/Loading.thy ===== *)
theory Loading
  imports Split_Chunks
begin

text \<open>
  What the finished chunk graph promises to the running bundle: whatever module evaluation reaches,
  through static imports or through an \<open>import()\<close> whose chunk group has been loaded, that module is
  in a chunk that is loaded by then.  This holds although an async chunk leaves out what the plans
  say is available, and although split chunks move modules between chunks.
\<close>

section \<open>Runs\<close>

definition block_modules :: "chunk_graph \<Rightarrow> origin \<Rightarrow> nat set" where
  "block_modules g orig =
     (case block_chunk_group g orig of None \<Rightarrow> {} | Some gr \<Rightarrow> group_modules g gr)"

text \<open>
  \<open>runs mg g es S X\<close>: a run may have loaded the modules \<open>S\<close> and started to evaluate the modules
  \<open>X\<close>.  A page loads the chunks of one entrypoint; an \<open>import()\<close> loads those of its block's group,
  or nothing when the block has no group.
\<close>

inductive runs :: "module_graph \<Rightarrow> chunk_graph \<Rightarrow> nat list \<Rightarrow> nat set \<Rightarrow> nat set \<Rightarrow> bool"
  for mg g es where
  start: "i < length es \<Longrightarrow> runs mg g es (group_modules g (cg_entrypoints g ! i)) {es ! i}"
| static: "runs mg g es S X \<Longrightarrow> m \<in> X \<Longrightarrow> n \<in> set (static_successors mg m) \<Longrightarrow> runs mg g es S (insert n X)"
| import: "runs mg g es S X \<Longrightarrow> m \<in> X \<Longrightarrow> (orig, t) \<in> imports_of mg m \<Longrightarrow>
    runs mg g es (S \<union> block_modules g orig) (insert t X)"

section \<open>Loaded groups\<close>

text \<open>Groups whose modules are loaded, and that together provide what each of them counts on.\<close>

definition loaded :: "module_graph \<Rightarrow> entry_plan list \<Rightarrow> (nat \<rightharpoonup> async_plan) \<Rightarrow> logical_group set \<Rightarrow> nat set \<Rightarrow> bool" where
  "loaded mg eps P Ls B \<longleftrightarrow>
     (\<forall>L \<in> Ls. group_valid eps P L \<and> group_avail eps P L \<subseteq> B) \<and> B = (\<Union>L \<in> Ls. group_mods eps P L) \<and>
     (\<forall>m \<in> B. set (static_successors mg m) \<subseteq> B)"

lemma loaded_entry:
  assumes "i < length eps" and "entry_ok mg (eps ! i)" and "set (ep_modules (eps ! i)) = static_walk.reach mg e"
  shows "loaded mg eps P {LEntry i} (group_mods eps P (LEntry i))"
  using assms static_walk.reach_step
  by (auto simp: loaded_def group_valid_def group_avail_def group_mods_def entry_ok_def)

lemma loaded_import:
  assumes ok: "plans_ok mg eps P" and st: "\<forall>K. group_valid eps P K \<longrightarrow> settled mg eps P K"
    and ld: "loaded mg eps P Ls B" and L: "L \<in> Ls" and m: "m \<in> group_mods eps P L"
    and i: "(orig, t) \<in> imports_of mg m" and t: "t \<notin> group_avail eps P L"
  shows "loaded mg eps P (insert (LAsync t) Ls) (B \<union> group_mods eps P (LAsync t)) \<and>
    t \<in> B \<union> group_mods eps P (LAsync t)"
proof -
  from ld L have vL: "group_valid eps P L" and aL: "group_avail eps P L \<subseteq> B" by (auto simp: loaded_def)
  with st m i t have "recorded P t L (group_avail eps P L) orig" unfolding settled_def by blast
  then obtain p ap where p: "P t = Some p" and ap: "map_of (pl_parents p) L = Some ap"
    by (auto simp: recorded_def)
  from ok p have pok: "plan_ok mg eps P t p" by (simp add: plans_ok_def)
  from ap have "L \<in> dom (map_of (pl_parents p))" by blast
  then have mB: "mask_set (pl_min p) \<subseteq> B" using plan_min_is_common [OF ok st p] aL by blast
  have mods: "group_mods eps P (LAsync t) = static_walk.reach mg t - mask_set (pl_min p)"
    using pok p by (simp add: group_mods_def set_plan_modules plan_ok_def)
  have "group_avail eps P (LAsync t) = mask_set (pl_min p) \<union> static_walk.reach mg t"
    using pok p by (simp add: group_avail_def plan_ok_def masks_ok_def)
  with mB mods have "group_avail eps P (LAsync t) \<subseteq> B \<union> group_mods eps P (LAsync t)" by blast
  moreover have "set (static_successors mg x) \<subseteq> B \<union> group_mods eps P (LAsync t)"
    if "x \<in> B \<union> group_mods eps P (LAsync t)" for x
  proof (cases "x \<in> B")
    case True
    with ld show ?thesis by (auto simp: loaded_def)
  next
    case False
    with that mods have "x \<in> static_walk.reach mg t" by blast
    then have "set (static_successors mg x) \<subseteq> static_walk.reach mg t"
      using static_walk.reach_step by blast
    with mods mB show ?thesis by blast
  qed
  moreover have "t \<in> B \<union> group_mods eps P (LAsync t)"
    using mods mB static_walk.reach_refl [of t mg] by blast
  ultimately show ?thesis using ld p by (auto simp: loaded_def group_valid_def)
qed

text \<open>Adding modules to the groups of a chunk graph keeps it a realization of the plans.\<close>

lemma chunk_graph_wf_entrypoint:
  "chunk_graph_wf g \<Longrightarrow> i < length (cg_entrypoints g) \<Longrightarrow> cg_entrypoints g ! i < length (cg_groups g)"
  by (simp add: chunk_graph_wf_def sizes_ok_def)

lemma realizes_split:
  assumes r: "realizes mg eps P g" and f: "split_frame g g'" and ep: "\<forall>i < length eps. cg_entrypoints g ! i < length (cg_groups g)"
  shows "realizes mg eps P g'"
  unfolding realizes_def
proof (intro conjI allI impI)
  show "length (cg_entrypoints g') = length eps" using r f by (simp add: realizes_def split_frame_def)
  fix i assume i: "i < length eps"
  with r have "group_mods eps P (LEntry i) \<subseteq> group_modules g (cg_entrypoints g ! i)" by (simp add: realizes_def)
  also have "\<dots> \<subseteq> group_modules g' (cg_entrypoints g' ! i)" using f ep i by (simp add: split_frame_def)
  finally show "group_mods eps P (LEntry i) \<subseteq> group_modules g' (cg_entrypoints g' ! i)" .
next
  fix L m orig t
  assume "group_valid eps P L" "m \<in> group_mods eps P L" "(orig, t) \<in> imports_of mg m" "t \<notin> group_avail eps P L"
  with r obtain gr where gr: "cg_block_groups g orig = Some gr" "gr < length (cg_groups g)"
    "group_mods eps P (LAsync t) \<subseteq> group_modules g gr" unfolding realizes_def by blast
  moreover from f gr(2) have "group_modules g gr \<subseteq> group_modules g' gr" by (simp add: split_frame_def)
  moreover from f have "cg_block_groups g' = cg_block_groups g" "length (cg_groups g') = length (cg_groups g)"
    by (simp_all add: split_frame_def)
  ultimately show "\<exists>gr. cg_block_groups g' orig = Some gr \<and> gr < length (cg_groups g') \<and>
      group_mods eps P (LAsync t) \<subseteq> group_modules g' gr"
    by auto
qed

lemma realized_runs:
  assumes ok: "plans_ok mg eps P" and st: "\<forall>K. group_valid eps P K \<longrightarrow> settled mg eps P K"
    and r: "realizes mg eps P g" and len: "length eps = length es"
    and ents: "\<forall>i < length es. entry_ok mg (eps ! i) \<and> set (ep_modules (eps ! i)) = static_walk.reach mg (es ! i)"
    and run: "runs mg g es S X"
  shows "X \<subseteq> S"
proof -
  from run have "\<exists>Ls B. loaded mg eps P Ls B \<and> B \<subseteq> S \<and> X \<subseteq> B"
  proof induction
    case (start i)
    let ?B = "group_mods eps P (LEntry i)"
    from start ents len have "loaded mg eps P {LEntry i} ?B" by (intro loaded_entry) auto
    moreover have "?B \<subseteq> group_modules g (cg_entrypoints g ! i)" using r start len by (simp add: realizes_def)
    moreover have "es ! i \<in> ?B" using ents start static_walk.reach_refl by (simp add: group_mods_def)
    ultimately show ?case by blast
  next
    case (static S X m n)
    then obtain Ls B where "loaded mg eps P Ls B" "B \<subseteq> S" "X \<subseteq> B" by blast
    moreover from this static.hyps(2) have "m \<in> B" by blast
    ultimately have "n \<in> B" using static.hyps(3) unfolding loaded_def by blast
    with \<open>loaded mg eps P Ls B\<close> \<open>B \<subseteq> S\<close> \<open>X \<subseteq> B\<close> show ?case by blast
  next
    case (import S X m orig t)
    then obtain Ls B where B: "loaded mg eps P Ls B" "B \<subseteq> S" "X \<subseteq> B" by blast
    with import.hyps(2) obtain L where L: "L \<in> Ls" "m \<in> group_mods eps P L" unfolding loaded_def by blast
    show ?case
    proof (cases "t \<in> group_avail eps P L")
      case True
      with B L(1) have "t \<in> B" unfolding loaded_def by blast
      with B show ?thesis by blast
    next
      case False
      have vL: "group_valid eps P L" using B(1) L(1) by (auto simp: loaded_def)
      with r L(2) import.hyps(3) False obtain gr where
        "cg_block_groups g orig = Some gr" "group_mods eps P (LAsync t) \<subseteq> group_modules g gr"
        unfolding realizes_def by blast
      then have "group_mods eps P (LAsync t) \<subseteq> block_modules g orig"
        by (simp add: block_modules_def block_chunk_group_def)
      with loaded_import [OF ok st B(1) L import.hyps(3) False] B(2,3) show ?thesis
        by (intro exI [of _ "insert (LAsync t) Ls"] exI [of _ "B \<union> group_mods eps P (LAsync t)"]) blast
    qed
  qed
  then show ?thesis by blast
qed

section \<open>The built chunk graph\<close>

theorem build_chunk_graph_spec:
  assumes wf: "graph_wf mg" and memo: "memo_ok memo mg" and es: "\<forall>e \<in> set es. e < length (gs_modules mg)"
  shows "\<exists>g. build_chunk_graph_with_cache memo mg ns es split = Some g \<and> chunk_graph_wf g \<and>
    acyclic (group_edges g) \<and> length (cg_entrypoints g) = length es \<and>
    (\<forall>i < length (cg_groups g). gr_chunks (cg_groups g ! i) \<noteq> []) \<and>
    (\<forall>S X. runs mg g es S X \<longrightarrow> X \<subseteq> S)"
proof -
  from add_entries_spec [OF wf memo es, of ns] obtain g0 eps where
    a: "add_entries memo mg ns es = Some (g0, eps)" and eb: "entries_built mg es (g0, eps)" by fastforce
  have len: "length eps = length es" using eb by (simp add: entries_built_def)
  have ents: "\<forall>i < length es. entry_ok mg (eps ! i) \<and> set (ep_modules (eps ! i)) = static_walk.reach mg (es ! i)"
    using eb by (simp add: entries_built_def)
  then have "\<forall>e \<in> set eps. entry_ok mg e" by (simp add: all_set_conv_all_nth len)
  from plan_async_chunks_total [OF wf memo this] obtain plans where
    p: "plan_async_chunks memo mg eps = Some plans" and ok: "plans_ok mg eps (map_of plans)"
    and st: "\<forall>K. group_valid eps (map_of plans) K \<longrightarrow> settled mg eps (map_of plans) K" by blast
  from materialize_spec [OF wf ok st eb] obtain g1 groups where
    m: "materialize mg eps plans g0 = Some (g1, groups)" and w1: "chunk_graph_wf g1"
    and ac: "acyclic (group_edges g1)" and ne: "\<forall>i < length (cg_groups g1). gr_chunks (cg_groups g1 ! i) \<noteq> []"
    and r1: "realizes mg eps (map_of plans) g1" and e1: "cg_entrypoints g1 = [0..<length eps]" by blast
  have "\<exists>g. (case split of None \<Rightarrow> Some g1 | Some opts \<Rightarrow> apply_split_chunks opts g1) = Some g \<and>
      chunk_graph_wf g \<and> split_frame g1 g"
    using apply_split_chunks_spec [OF w1] w1 by (cases split) auto
  then obtain g where g: "(case split of None \<Rightarrow> Some g1 | Some opts \<Rightarrow> apply_split_chunks opts g1) = Some g"
    "chunk_graph_wf g" "split_frame g1 g" by blast
  have b: "build_chunk_graph_with_cache memo mg ns es split = Some g"
    using a p m g(1) by (simp add: build_chunk_graph_with_cache_def)
  have "\<forall>i < length eps. cg_entrypoints g1 ! i < length (cg_groups g1)"
    using chunk_graph_wf_entrypoint [OF w1] e1 by simp
  from realizes_split [OF r1 g(3) this] have r: "realizes mg eps (map_of plans) g" .
  have "gr_chunks (cg_groups g ! i) \<noteq> []" if i: "i < length (cg_groups g)" for i
  proof -
    have i1: "i < length (cg_groups g1)" using g(3) i by (simp add: split_frame_def)
    then have "set (gr_chunks (cg_groups g1 ! i)) \<subseteq> set (gr_chunks (cg_groups g ! i))"
      using g(3) by (simp add: split_frame_def)
    with ne i1 show ?thesis by (metis list.set(1) set_empty subset_empty)
  qed
  with b g ac split_frame_edges [OF g(3)] e1 len realized_runs [OF ok st r len ents] show ?thesis
    by (auto simp: split_frame_def)
qed

end
