(* ===== verification/Samples.thy ===== *)
theory Samples
  imports Loading
begin

text \<open>
  A small program, put together with the operations of the make phase, on which the properties of
  the graphs are applied: \<open>a\<close> is the entry and imports \<open>b\<close> statically and \<open>c\<close> with \<open>import()\<close>;
  \<open>c\<close> imports \<open>b\<close> and \<open>d\<close> statically; \<open>d\<close> imports \<open>c\<close> with \<open>import()\<close>.
\<close>

section \<open>The program\<close>

definition static_import :: "string \<Rightarrow> nat \<Rightarrow> dependency" where
  "static_import request i = HarmonyImportSideEffect (new_module_dependency request (Some i)) None"

definition dynamic_import :: "string \<Rightarrow> nat \<Rightarrow> dependency" where
  "dynamic_import request i = Import (new_module_dependency request (Some i))"

definition no_json :: "json_value \<Rightarrow> string" where
  "no_json v = ''''"

text \<open>The contents are as read back from a cache; nothing here depends on the hashes.\<close>

definition sample_content :: "dependency list \<Rightarrow> dependency list list \<Rightarrow> built_content" where
  "sample_content deps blocks =
     \<lparr>bc_parsed = default_parsed_module\<lparr>pm_block := \<lparr>db_dependencies = deps, db_blocks = blocks\<rparr>\<rparr>,
      bc_source = ''x'', bc_binary_source = None, bc_source_hash = 0, bc_local_input_digest = 0\<rparr>"

definition sample_identity :: "string \<Rightarrow> module_identity" where
  "sample_identity nm = new_identity [RootDir, Normal nm]"

definition sample_contents :: "(nat \<times> built_content) list" where
  "sample_contents =
     [(0, sample_content [static_import ''./b'' 0] [[dynamic_import ''./c'' 1]]),
      (1, sample_content [] []),
      (2, sample_content [static_import ''./b'' 0, static_import ''./d'' 1] []),
      (3, sample_content [] [[dynamic_import ''./c'' 0]])]"

definition sample_edges :: "(nat option \<times> nat option \<times> nat option \<times> dependency \<times> nat) list" where
  "sample_edges =
     [(None, None, None, Entry (new_module_dependency ''./a'' None), 0),
      (Some 0, None, Some 0, static_import ''./b'' 0, 1),
      (Some 0, Some 0, Some 0, dynamic_import ''./c'' 1, 2),
      (Some 2, None, Some 0, static_import ''./b'' 0, 1),
      (Some 2, None, Some 1, static_import ''./d'' 1, 3),
      (Some 3, Some 0, Some 0, dynamic_import ''./c'' 0, 2)]"

definition sample_modules :: graph_storage where
  "sample_modules = fold (\<lambda>nm g. fst (add_module no_json (sample_identity nm) None g))
     [''a'', ''b'', ''c'', ''d''] empty_graph"

definition sample_storage :: "graph_storage option" where
  "sample_storage = do {
     g \<leftarrow> fold_opt (\<lambda>(h, c) g. (case finish_module_build h c g of Inl _ \<Rightarrow> None | Inr g' \<Rightarrow> Some g'))
       sample_contents sample_modules;
     fold_opt (\<lambda>(orig, b, i, d, m) g. connect orig b i d m g) sample_edges g }"

definition sample_graph :: module_graph where
  "sample_graph = finish (the sample_storage)"

section \<open>It is well formed\<close>

lemma fold_opt_keeps:
  assumes "fold_opt f xs s = Some t" and "P s" and "\<And>x s s'. f x s = Some s' \<Longrightarrow> P s \<Longrightarrow> P s'"
  shows "P t"
  using assms(1,2)
proof (induction xs arbitrary: s)
  case (Cons x xs)
  then show ?case using assms(3) by (auto simp: bind_eq_Some_conv)
qed simp

lemma built_step: "built_graph g \<Longrightarrow> building_step g g' \<Longrightarrow> built_graph g'"
  unfolding built_graph_def by (rule rtranclp.rtrancl_into_rtrancl)

lemma built_sample_modules: "built_graph sample_modules"
proof -
  have "built_graph (fst (add_module js i s g))" if "built_graph g" for js i s g
    by (rule built_step [OF that building_step.add [of js i s g _ "snd (add_module js i s g)"]]) simp
  then show ?thesis by (simp add: sample_modules_def built_graph_def [of empty_graph])
qed

lemma sample_storage_built:
  assumes "sample_storage = Some g"
  shows "built_graph g"
proof -
  from assms obtain g0 where
    g0: "fold_opt (\<lambda>(h, c) g. (case finish_module_build h c g of Inl _ \<Rightarrow> None | Inr g' \<Rightarrow> Some g'))
       sample_contents sample_modules = Some g0"
    and g: "fold_opt (\<lambda>(orig, b, i, d, m) g. connect orig b i d m g) sample_edges g0 = Some g"
    by (auto simp: sample_storage_def bind_eq_Some_conv)
  have "built_graph g0"
    by (rule fold_opt_keeps [where P = built_graph, OF g0 built_sample_modules])
      (auto split: prod.splits sum.splits intro: built_step building_step.done_build)
  then show ?thesis
    by (rule fold_opt_keeps [where P = built_graph, OF g])
      (auto split: prod.splits intro: built_step building_step.conn)
qed

lemma sample_size: "map_option (\<lambda>g. length (gs_modules g)) sample_storage = Some 4"
  by code_simp

lemma sample_graph_wf: "graph_wf sample_graph" and sample_graph_size: "length (gs_modules sample_graph) = 4"
proof -
  from sample_size obtain g where g: "sample_storage = Some g" "length (gs_modules g) = 4" by auto
  then have "sample_graph = finish g" by (simp only: sample_graph_def g(1) option.sel)
  moreover have "gs_modules (finish g) = gs_modules g" by (simp add: finish_def)
  ultimately show "graph_wf sample_graph" "length (gs_modules sample_graph) = 4"
    using graph_wf_finish [OF built_graph_wf [OF sample_storage_built [OF g(1)]]] g(2) by simp_all
qed

lemma sample_edge: "1 \<in> set (static_successors sample_graph 0)"
  by code_simp

lemma sample_block: "map_option m_blocks (graph_module sample_graph 0) = Some [[dynamic_import ''./c'' 1]]"
  by code_simp

lemma sample_target: "import_block_target sample_graph (0, 0) = Some (Some 2)"
  by code_simp

lemma sample_import: "((0, 0), 2) \<in> imports_of sample_graph 0"
  using sample_block sample_target by (auto simp: imports_of_def dynamic_import_def)

lemma sample_chunks:
  "map_option cg_chunk_modules (build_chunk_graph_with_cache (\<lambda>_. None) sample_graph [''main''] [0] None) =
     Some [[0, 1], [2, 3]]"
  by code_simp

text \<open>The plan of the one entry, as \<open>add_entry\<close> makes it.\<close>

lemma sample_entry_plan: "\<exists>e. entry_ok sample_graph e"
proof -
  have "\<forall>m \<in> set [0]. m < length (gs_modules sample_graph)" by (simp add: sample_graph_size)
  from add_entries_spec [OF sample_graph_wf memo_ok_empty this] obtain g eps where
    "entries_built sample_graph [0] (g, eps)" by fastforce
  then have "entry_ok sample_graph (eps ! 0)" by (simp add: entries_built_def)
  then show ?thesis by blast
qed

text \<open>Its chunk graph: the entry chunk with \<open>a\<close> and \<open>b\<close>, the async chunk with \<open>c\<close> and \<open>d\<close>.\<close>

lemma sample_sizes:
  "map_option (\<lambda>g. (length (cg_groups g), cg_module_chunks g))
     (build_chunk_graph_with_cache (\<lambda>_. None) sample_graph [''main''] [0] None) = Some (2, [[0], [0], [1], [1]])"
  by code_simp

lemma sample_chunk_graph:
  "\<exists>g. build_chunk_graph_with_cache (\<lambda>_. None) sample_graph [''main''] [0] None = Some g \<and> chunk_graph_wf g \<and>
     length (cg_groups g) = 2 \<and> (\<forall>i < length (cg_groups g). gr_chunks (cg_groups g ! i) \<noteq> []) \<and>
     0 < length (cg_module_chunks g)"
proof -
  have "\<forall>e \<in> set [0]. e < length (gs_modules sample_graph)" by (simp add: sample_graph_size)
  from build_chunk_graph_spec [OF sample_graph_wf memo_ok_empty this, of "[''main'']" None] obtain g where
    g: "build_chunk_graph_with_cache (\<lambda>_. None) sample_graph [''main''] [0] None = Some g" "chunk_graph_wf g"
       "\<forall>i < length (cg_groups g). gr_chunks (cg_groups g ! i) \<noteq> []" by blast
  with sample_sizes show ?thesis by (intro exI [of _ g]) simp
qed

lemma sample_connections: "length (gs_connections sample_graph) = 6"
  by code_simp

end
