(* ===== verification/Used_Exports.thy ===== *)
theory Used_Exports
  imports Module_Graph
begin

text \<open>
  \<open>flag_dependency_usage_plugin.rs\<close>: which of the exports that the modules provide are used, the
  least solution of what entries, imports and re-exports ask for.
\<close>

section \<open>Used exports\<close>

text \<open>Whether all exports of a module are used, and the names that are.\<close>

type_synonym usage = "bool \<times> string set"

type_synonym usages = "nat \<rightharpoonup> usage"

definition usage_of :: "usages \<Rightarrow> nat \<Rightarrow> usage" where
  "usage_of used m = (case used m of Some u \<Rightarrow> u | None \<Rightarrow> (False, {}))"

definition entry_usage :: "module_graph \<Rightarrow> nat \<Rightarrow> usages \<Rightarrow> usages option" where
  "entry_usage mg entry used = do {
     info \<leftarrow> graph_exports mg entry;
     let (all, nms) = usage_of used entry;
     Some (used(entry \<mapsto> (case ei_provided info of
        Some provided \<Rightarrow> (all, nms \<union> provided)
      | None \<Rightarrow> (True, nms)))) }"

definition first_id :: "string list \<Rightarrow> string option" where
  "first_id ids = (case ids of [] \<Rightarrow> None | x # _ \<Rightarrow> Some x)"

definition origin_uses :: "usages \<Rightarrow> nat option \<Rightarrow> string \<Rightarrow> bool" where
  "origin_uses used origin name =
     (case Option.bind origin used of None \<Rightarrow> False | Some (all, nms) \<Rightarrow> all \<or> name \<in> nms)"

definition requested_name :: "usages \<Rightarrow> connection \<Rightarrow> string option" where
  "requested_name used c =
     (case cn_dependency c of
        HarmonyImportSpecifier d \<Rightarrow> first_id (his_ids d)
      | HarmonyExportImportedSpecifier d \<Rightarrow>
          (if (case heis_name d of None \<Rightarrow> False | Some n \<Rightarrow> origin_uses used (cn_origin c) n)
           then first_id (heis_ids d) else None)
      | _ \<Rightarrow> None)"

text \<open>One connection: the usages after it, and whether they changed.\<close>

definition star_usage :: "module_graph \<Rightarrow> connection \<Rightarrow> usages \<Rightarrow> (usages \<times> bool) option" where
  "star_usage mg c used = do {
     let (oall, onames) = (case Option.bind (cn_origin c) used of Some u \<Rightarrow> u | None \<Rightarrow> (False, {}));
     let (all, nms) = usage_of used (cn_module c);
     if oall then Some (used(cn_module c \<mapsto> (True, nms)), \<not> all)
     else do {
       info \<leftarrow> graph_exports mg (cn_module c);
       let added = Set.filter (\<lambda>n. n \<noteq> ''default'' \<and>
                      (case ei_provided info of None \<Rightarrow> True | Some provided \<Rightarrow> n \<in> provided)) onames;
       Some (used(cn_module c \<mapsto> (all, nms \<union> added)), card (nms \<union> added) \<noteq> card nms) } }"

definition usage_step :: "module_graph \<Rightarrow> connection \<Rightarrow> usages \<times> bool \<Rightarrow> (usages \<times> bool) option" where
  "usage_step mg c = (\<lambda>(used, changed).
     let (all, nms) = usage_of used (cn_module c) in
     if is_import_dependency (cn_dependency c)
     then Some (used(cn_module c \<mapsto> (True, nms)), changed \<or> \<not> all)
     else case requested_name used c of
       Some n \<Rightarrow> Some (used(cn_module c \<mapsto> (all, insert n nms)), changed \<or> n \<notin> nms)
     | None \<Rightarrow>
         (case cn_dependency c of
            HarmonyExportImportedSpecifier d \<Rightarrow>
              if heis_is_star d
              then map_option (\<lambda>(used, ch). (used, changed \<or> ch)) (star_usage mg c used)
              else Some (used, changed)
          | _ \<Rightarrow> Some (used, changed)))"

definition usage_round :: "module_graph \<Rightarrow> usages \<Rightarrow> (usages \<times> bool) option" where
  "usage_round mg used = fold_opt (usage_step mg) (gs_connections mg) (used, False)"

definition usage_loop :: "module_graph \<Rightarrow> usages \<Rightarrow> usages option" where
  "usage_loop mg used =
     map_option fst (loop_opt (\<lambda>(_, changed). changed) (\<lambda>(used, _). usage_round mg used) (used, True))"

definition apply_usage :: "nat \<Rightarrow> usage \<Rightarrow> module_graph \<Rightarrow> module_graph option" where
  "apply_usage h = (\<lambda>(all, nms).
     modify_exports h (if all then set_all_exports_used else set_used_exports (Some nms)))"

text \<open>The last loop writes each module's record once, so its order over the hash map is immaterial.\<close>

definition flag_dependency_usage :: "nat list \<Rightarrow> module_graph \<Rightarrow> module_graph option" where
  "flag_dependency_usage entries mg = do {
     let used = fold (\<lambda>m used. used(m_handle m \<mapsto> (False, {}))) (gs_modules mg) Map.empty;
     used \<leftarrow> fold_opt (entry_usage mg) entries used;
     used \<leftarrow> usage_loop mg used;
     fold_opt (\<lambda>m mg. case used (m_handle m) of None \<Rightarrow> Some mg | Some u \<Rightarrow> apply_usage (m_handle m) u mg)
       (gs_modules mg) mg }"

section \<open>What asks for an export\<close>

text \<open>
  \<open>uses mg es m None\<close>: all exports of \<open>m\<close> are asked for; \<open>uses mg es m (Some x)\<close>: its export \<open>x\<close> is.
\<close>

inductive uses :: "module_graph \<Rightarrow> nat list \<Rightarrow> nat \<Rightarrow> string option \<Rightarrow> bool" for mg es where
  entry_all: "e \<in> set es \<Longrightarrow> ei_provided (mg_exports mg ! e) = None \<Longrightarrow> uses mg es e None"
| entry_name: "e \<in> set es \<Longrightarrow> ei_provided (mg_exports mg ! e) = Some P \<Longrightarrow> x \<in> P \<Longrightarrow> uses mg es e (Some x)"
| dynamic: "c \<in> set (gs_connections mg) \<Longrightarrow> is_import_dependency (cn_dependency c) \<Longrightarrow> uses mg es (cn_module c) None"
| specifier: "c \<in> set (gs_connections mg) \<Longrightarrow> cn_dependency c = HarmonyImportSpecifier d \<Longrightarrow>
    first_id (his_ids d) = Some x \<Longrightarrow> uses mg es (cn_module c) (Some x)"
| reexport: "c \<in> set (gs_connections mg) \<Longrightarrow> cn_dependency c = HarmonyExportImportedSpecifier d \<Longrightarrow>
    heis_name d = Some n \<Longrightarrow> cn_origin c = Some m \<Longrightarrow> uses mg es m None \<or> uses mg es m (Some n) \<Longrightarrow>
    first_id (heis_ids d) = Some x \<Longrightarrow> uses mg es (cn_module c) (Some x)"
| star_all: "c \<in> set (gs_connections mg) \<Longrightarrow> cn_dependency c = HarmonyExportImportedSpecifier d \<Longrightarrow>
    heis_is_star d \<Longrightarrow> cn_origin c = Some m \<Longrightarrow> uses mg es m None \<Longrightarrow> uses mg es (cn_module c) None"
| star_name: "c \<in> set (gs_connections mg) \<Longrightarrow> cn_dependency c = HarmonyExportImportedSpecifier d \<Longrightarrow>
    heis_is_star d \<Longrightarrow> cn_origin c = Some m \<Longrightarrow> uses mg es m (Some x) \<Longrightarrow> x \<noteq> ''default'' \<Longrightarrow>
    (\<forall>P. ei_provided (mg_exports mg ! cn_module c) = Some P \<longrightarrow> x \<in> P) \<Longrightarrow>
    uses mg es (cn_module c) (Some x)"

text \<open>
  What the parser guarantees of star re-exports (it gives them no ids), and the size of the export
  records.
\<close>

definition stars_plain :: "module_graph \<Rightarrow> bool" where
  "stars_plain mg \<longleftrightarrow> (\<forall>c \<in> set (gs_connections mg). \<forall>d.
     cn_dependency c = HarmonyExportImportedSpecifier d \<longrightarrow> heis_is_star d \<longrightarrow> heis_ids d = [])"

definition exports_ok :: "module_graph \<Rightarrow> bool" where
  "exports_ok mg \<longleftrightarrow> length (mg_exports mg) = length (gs_modules mg) \<and>
     (\<forall>info \<in> set (mg_exports mg). \<forall>P. ei_provided info = Some P \<longrightarrow> finite P)"

section \<open>Usages only grow\<close>

definition usage_le :: "usage \<Rightarrow> usage \<Rightarrow> bool" where
  "usage_le u v \<longleftrightarrow> (fst u \<longrightarrow> fst v) \<and> snd u \<subseteq> snd v"

definition usages_le :: "usages \<Rightarrow> usages \<Rightarrow> bool" where
  "usages_le used used' \<longleftrightarrow> (\<forall>m. rel_option usage_le (used m) (used' m))"

lemma usage_le_refl [simp]: "usage_le u u"
  by (simp add: usage_le_def)

lemma usages_le_refl [simp]: "usages_le used used"
  by (simp add: usages_le_def option.rel_refl)

lemma usages_le_trans: "usages_le a b \<Longrightarrow> usages_le b c \<Longrightarrow> usages_le a c"
proof -
  have t: "usage_le u v \<Longrightarrow> usage_le v w \<Longrightarrow> usage_le u w" for u v w by (auto simp: usage_le_def)
  assume "usages_le a b" "usages_le b c"
  moreover have "transp usage_le" using t by (rule transpI)
  ultimately have "rel_option usage_le (a m) (c m)" for m
    using transpD [OF option.rel_transp] unfolding usages_le_def by blast
  then show "usages_le a c" by (simp add: usages_le_def)
qed

lemma usages_le_upd: "used m = Some u \<Longrightarrow> usage_le u v \<Longrightarrow> usages_le used (used(m \<mapsto> v))"
  by (simp add: usages_le_def option.rel_refl)

text \<open>The names that can ever be used.\<close>

definition name_pool :: "module_graph \<Rightarrow> nat list \<Rightarrow> string set" where
  "name_pool mg es = (\<Union>e \<in> set es. case ei_provided (mg_exports mg ! e) of None \<Rightarrow> {} | Some P \<Rightarrow> P) \<union>
     (\<Union>c \<in> set (gs_connections mg). case cn_dependency c of
        HarmonyImportSpecifier d \<Rightarrow> set_option (first_id (his_ids d))
      | HarmonyExportImportedSpecifier d \<Rightarrow> set_option (first_id (heis_ids d)) | _ \<Rightarrow> {})"

lemma finite_name_pool:
  assumes "exports_ok mg" and "\<forall>e \<in> set es. e < length (gs_modules mg)"
  shows "finite (name_pool mg es)"
  using assms unfolding name_pool_def
  by (auto simp: exports_ok_def split: option.splits dependency.splits)

definition usages_ok :: "module_graph \<Rightarrow> nat list \<Rightarrow> usages \<Rightarrow> bool" where
  "usages_ok mg es used \<longleftrightarrow> dom used = {..<length (gs_modules mg)} \<and>
     (\<forall>m all nms. used m = Some (all, nms) \<longrightarrow> nms \<subseteq> name_pool mg es \<and>
        (all \<longrightarrow> uses mg es m None) \<and> (\<forall>x \<in> nms. uses mg es m (Some x)))"

lemma usages_ok_upd:
  assumes "usages_ok mg es used" and "m < length (gs_modules mg)" and "nms \<subseteq> name_pool mg es"
    and "all \<longrightarrow> uses mg es m None" and "\<forall>x \<in> nms. uses mg es m (Some x)"
  shows "usages_ok mg es (used(m \<mapsto> (all, nms)))"
  using assms unfolding usages_ok_def by (auto simp: insert_absorb)

definition unused :: "nat \<Rightarrow> string set \<Rightarrow> usages \<Rightarrow> nat" where
  "unused n N used = (\<Sum>m < n. case used m of None \<Rightarrow> 0 | Some (all, nms) \<Rightarrow> of_bool (\<not> all) + card (N - nms))"

lemma unused_less:
  assumes ok: "usages_ok mg es used" "usages_ok mg es used'" and le: "usages_le used used'" and ne: "used' \<noteq> used"
    and fin: "finite (name_pool mg es)"
  shows "unused (length (gs_modules mg)) (name_pool mg es) used' < unused (length (gs_modules mg)) (name_pool mg es) used"
proof -
  let ?n = "length (gs_modules mg)" and ?N = "name_pool mg es"
  let ?f = "\<lambda>used :: usages. \<lambda>m. case used m of None \<Rightarrow> 0 | Some (all, nms) \<Rightarrow> of_bool (\<not> all) + card (?N - nms)"
  have dom: "dom used = {..<?n}" "dom used' = {..<?n}" using ok by (auto simp: usages_ok_def)
  have step: "?f used' m \<le> ?f used m \<and> (used' m \<noteq> used m \<longrightarrow> ?f used' m < ?f used m)" if m: "m < ?n" for m
  proof -
    from m dom obtain all nms all' nms' where u: "used m = Some (all, nms)" "used' m = Some (all', nms')"
      by (metis domD lessThan_iff surj_pair)
    have "rel_option usage_le (used m) (used' m)" using le by (simp add: usages_le_def)
    with u have l: "all \<longrightarrow> all'" "nms \<subseteq> nms'" by (simp_all add: usage_le_def)
    from u ok have N: "nms \<subseteq> ?N" "nms' \<subseteq> ?N" by (auto simp: usages_ok_def)
    have c: "card (?N - nms') \<le> card (?N - nms)" using l(2) fin by (intro card_mono) auto
    have "card (?N - nms') < card (?N - nms)" if "nms' \<noteq> nms"
      using l(2) N fin that by (intro psubset_card_mono) auto
    with c l u show ?thesis by (cases "nms' = nms") (auto simp: of_bool_def)
  qed
  from ne dom obtain m where "m < ?n" "used' m \<noteq> used m"
    by (metis (no_types, lifting) domIff ext lessThan_iff)
  with step have "(\<Sum>m < ?n. ?f used' m) < (\<Sum>m < ?n. ?f used m)"
    by (intro sum_strict_mono_ex1) auto
  then show ?thesis by (simp add: unused_def)
qed

section \<open>One connection\<close>

text \<open>
  A step keeps what is known of the usages, only adds to them, and raises the flag exactly when it
  adds something.
\<close>

definition step_ok :: "module_graph \<Rightarrow> nat list \<Rightarrow> usages \<Rightarrow> usages \<Rightarrow> bool \<Rightarrow> bool" where
  "step_ok mg es used used' ch \<longleftrightarrow> usages_ok mg es used' \<and> usages_le used used' \<and> (ch \<longleftrightarrow> used' \<noteq> used)"

lemma step_ok_refl: "usages_ok mg es used \<Longrightarrow> step_ok mg es used used False"
  by (simp add: step_ok_def)

lemma step_ok_upd:
  assumes ok: "usages_ok mg es used" and u: "used m = Some (all, nms)"
    and le: "all \<longrightarrow> all'" "nms \<subseteq> nms'" and pool: "nms' \<subseteq> name_pool mg es"
    and sound: "all' \<longrightarrow> uses mg es m None" "\<forall>x \<in> nms'. uses mg es m (Some x)"
    and ch: "ch \<longleftrightarrow> (all', nms') \<noteq> (all, nms)"
  shows "step_ok mg es used (used(m \<mapsto> (all', nms'))) ch"
proof -
  have "m < length (gs_modules mg)" using ok u by (auto simp: usages_ok_def)
  with usages_ok_upd [OF ok] pool sound have "usages_ok mg es (used(m \<mapsto> (all', nms')))" by blast
  moreover have "usages_le used (used(m \<mapsto> (all', nms')))"
    using usages_le_upd [of used m "(all, nms)"] u le by (simp add: usage_le_def)
  moreover have "used(m \<mapsto> (all', nms')) \<noteq> used \<longleftrightarrow> (all', nms') \<noteq> (all, nms)"
    using u by (metis fun_upd_same fun_upd_triv option.inject)
  ultimately show ?thesis using ch by (simp add: step_ok_def)
qed

lemma usages_known:
  "usages_ok mg es used \<Longrightarrow> m < length (gs_modules mg) \<Longrightarrow> \<exists>all nms. used m = Some (all, nms) \<and>
     nms \<subseteq> name_pool mg es \<and> finite (name_pool mg es) = finite (name_pool mg es) \<and>
     (all \<longrightarrow> uses mg es m None) \<and> (\<forall>x \<in> nms. uses mg es m (Some x))"
  unfolding usages_ok_def by (metis domD lessThan_iff surj_pair)

lemma origin_uses_sound:
  assumes "usages_ok mg es used" and "origin_uses used origin n"
  shows "\<exists>m. origin = Some m \<and> (uses mg es m None \<or> uses mg es m (Some n))"
proof -
  from assms(2) obtain m all nms where "origin = Some m" "used m = Some (all, nms)" "all \<or> n \<in> nms"
    by (cases origin) (auto simp: origin_uses_def split: option.splits)
  with assms(1) show ?thesis by (auto simp: usages_ok_def)
qed

lemma requested_name_sound:
  assumes ok: "usages_ok mg es used" and c: "c \<in> set (gs_connections mg)" and r: "requested_name used c = Some x"
  shows "uses mg es (cn_module c) (Some x) \<and> x \<in> name_pool mg es"
proof (cases "cn_dependency c")
  case (HarmonyImportSpecifier d)
  with r have "first_id (his_ids d) = Some x" by (simp add: requested_name_def)
  with HarmonyImportSpecifier c show ?thesis by (force simp: name_pool_def intro: uses.specifier)
next
  case (HarmonyExportImportedSpecifier d)
  with r obtain n where n: "heis_name d = Some n" "origin_uses used (cn_origin c) n" "first_id (heis_ids d) = Some x"
    by (auto simp: requested_name_def split: option.splits if_splits)
  from origin_uses_sound [OF ok n(2)] obtain m where
    "cn_origin c = Some m" "uses mg es m None \<or> uses mg es m (Some n)" by blast
  with uses.reexport [OF c HarmonyExportImportedSpecifier n(1) _ _ n(3)] HarmonyExportImportedSpecifier c n(3)
  show ?thesis by (force simp: name_pool_def)
qed (use r in \<open>simp_all add: requested_name_def\<close>)

text \<open>What a step looks at stays in range.\<close>

lemma exports_total: "exports_ok mg \<Longrightarrow> m < length (gs_modules mg) \<Longrightarrow> graph_exports mg m = Some (mg_exports mg ! m)"
  by (simp add: graph_exports_def exports_ok_def)

lemma star_usage_ok:
  assumes ok: "usages_ok mg es used" and ex: "exports_ok mg" and fin: "finite (name_pool mg es)"
    and c: "c \<in> set (gs_connections mg)" and t: "cn_module c < length (gs_modules mg)"
    and d: "cn_dependency c = HarmonyExportImportedSpecifier d" "heis_is_star d"
  shows "\<exists>used' ch. star_usage mg c used = Some (used', ch) \<and> step_ok mg es used used' ch"
proof -
  from usages_known [OF ok t] obtain all nms where u: "used (cn_module c) = Some (all, nms)"
    and pool: "nms \<subseteq> name_pool mg es" and snd: "all \<longrightarrow> uses mg es (cn_module c) None"
      "\<forall>x \<in> nms. uses mg es (cn_module c) (Some x)" by blast
  have uo: "usage_of used (cn_module c) = (all, nms)" by (simp add: usage_of_def u)
  define ou where "ou = (case Option.bind (cn_origin c) used of Some u \<Rightarrow> u | None \<Rightarrow> (False, {}))"
  obtain oall onames where o: "ou = (oall, onames)" by (cases ou)
  have origin: "(oall \<longrightarrow> (\<exists>m. cn_origin c = Some m \<and> uses mg es m None)) \<and>
      (\<forall>x \<in> onames. (\<exists>m. cn_origin c = Some m \<and> uses mg es m (Some x)) \<and> x \<in> name_pool mg es)"
  proof (cases "Option.bind (cn_origin c) used")
    case None
    with o show ?thesis by (simp add: ou_def)
  next
    case (Some u)
    with o obtain m where m: "cn_origin c = Some m" "used m = Some (oall, onames)"
      by (auto simp: ou_def bind_simps)
    with ok have "onames \<subseteq> name_pool mg es" "oall \<longrightarrow> uses mg es m None" "\<forall>x \<in> onames. uses mg es m (Some x)"
      unfolding usages_ok_def by blast+
    with m(1) show ?thesis by blast
  qed
  show ?thesis
  proof (cases oall)
    case True
    with origin obtain m where "cn_origin c = Some m" "uses mg es m None" by blast
    from uses.star_all [OF c d this] have n: "uses mg es (cn_module c) None" .
    have "step_ok mg es used (used(cn_module c \<mapsto> (True, nms))) (\<not> all)"
      using n snd pool by (intro step_ok_upd [OF ok u]) auto
    moreover have "star_usage mg c used = Some (used(cn_module c \<mapsto> (True, nms)), \<not> all)"
      using True o uo by (simp add: star_usage_def flip: ou_def)
    ultimately show ?thesis by blast
  next
    case False
    let ?info = "mg_exports mg ! cn_module c"
    let ?added = "Set.filter (\<lambda>n. n \<noteq> ''default'' \<and>
        (case ei_provided ?info of None \<Rightarrow> True | Some provided \<Rightarrow> n \<in> provided)) onames"
    have new: "\<forall>x \<in> ?added. uses mg es (cn_module c) (Some x) \<and> x \<in> name_pool mg es"
      using origin uses.star_name [OF c d] by (auto split: option.splits)
    have fin': "finite nms" "finite (nms \<union> ?added)"
      using fin pool new by (auto intro: finite_subset)
    have "(card (nms \<union> ?added) \<noteq> card nms) \<longleftrightarrow> (all, nms \<union> ?added) \<noteq> (all, nms)"
      using card_subset_eq [OF fin'(2), of nms] by auto
    then have "step_ok mg es used (used(cn_module c \<mapsto> (all, nms \<union> ?added))) (card (nms \<union> ?added) \<noteq> card nms)"
      using new snd pool by (intro step_ok_upd [OF ok u]) auto
    moreover have "star_usage mg c used =
        Some (used(cn_module c \<mapsto> (all, nms \<union> ?added)), card (nms \<union> ?added) \<noteq> card nms)"
      using False o uo exports_total [OF ex t] by (simp add: star_usage_def Let_def flip: ou_def)
    ultimately show ?thesis by blast
  qed
qed

lemma usage_step_ok:
  assumes ok: "usages_ok mg es used" and ex: "exports_ok mg" and fin: "finite (name_pool mg es)"
    and c: "c \<in> set (gs_connections mg)" and t: "cn_module c < length (gs_modules mg)"
  shows "\<exists>used' ch. usage_step mg c (used, f) = Some (used', f \<or> ch) \<and> step_ok mg es used used' ch"
proof -
  from usages_known [OF ok t] obtain all nms where u: "used (cn_module c) = Some (all, nms)"
    and pool: "nms \<subseteq> name_pool mg es" and snd: "all \<longrightarrow> uses mg es (cn_module c) None"
      "\<forall>x \<in> nms. uses mg es (cn_module c) (Some x)" by blast
  have uo: "usage_of used (cn_module c) = (all, nms)" by (simp add: usage_of_def u)
  consider "is_import_dependency (cn_dependency c)"
    | x where "\<not> is_import_dependency (cn_dependency c)" "requested_name used c = Some x"
    | d where "cn_dependency c = HarmonyExportImportedSpecifier d" "heis_is_star d" "requested_name used c = None"
    | "\<not> is_import_dependency (cn_dependency c)" "requested_name used c = None"
      "\<forall>d. cn_dependency c = HarmonyExportImportedSpecifier d \<longrightarrow> \<not> heis_is_star d"
    by (cases "requested_name used c") auto
  then show ?thesis
  proof cases
    case 1
    then have "step_ok mg es used (used(cn_module c \<mapsto> (True, nms))) (\<not> all)"
      using snd pool uses.dynamic [OF c] by (intro step_ok_upd [OF ok u]) auto
    moreover have "usage_step mg c (used, f) = Some (used(cn_module c \<mapsto> (True, nms)), f \<or> \<not> all)"
      using 1 uo by (simp add: usage_step_def)
    ultimately show ?thesis by blast
  next
    case 2
    from requested_name_sound [OF ok c 2(2)]
    have "step_ok mg es used (used(cn_module c \<mapsto> (all, insert x nms))) (x \<notin> nms)"
      using snd pool by (intro step_ok_upd [OF ok u]) auto
    moreover have "usage_step mg c (used, f) = Some (used(cn_module c \<mapsto> (all, insert x nms)), f \<or> x \<notin> nms)"
      using 2 uo by (simp add: usage_step_def)
    ultimately show ?thesis by blast
  next
    case 3
    from star_usage_ok [OF ok ex fin c t 3(1,2)] obtain used' ch where
      "star_usage mg c used = Some (used', ch)" "step_ok mg es used used' ch" by blast
    moreover from this have "usage_step mg c (used, f) = Some (used', f \<or> ch)"
      using 3 uo by (simp add: usage_step_def)
    ultimately show ?thesis by blast
  next
    case 4
    then have "usage_step mg c (used, f) = Some (used, f)"
      using uo by (cases "cn_dependency c") (simp_all add: usage_step_def)
    with step_ok_refl [OF ok] show ?thesis by (intro exI [of _ used] exI [of _ False]) simp
  qed
qed

text \<open>The flag a step starts from is only carried along.\<close>

lemma usage_step_flag:
  "usage_step mg c (used, f) = map_option (\<lambda>(u, ch). (u, f \<or> ch)) (usage_step mg c (used, False))"
  by (cases "cn_dependency c"; cases "requested_name used c"; cases "usage_of used (cn_module c)";
      cases "star_usage mg c used")
    (auto simp: usage_step_def)

lemma usages_le_antisym: "usages_le a b \<Longrightarrow> usages_le b a \<Longrightarrow> a = b"
proof
  fix m assume "usages_le a b" "usages_le b a"
  then have "rel_option usage_le (a m) (b m)" "rel_option usage_le (b m) (a m)"
    by (simp_all add: usages_le_def)
  then show "a m = b m"
    by (cases "a m"; cases "b m") (auto simp: usage_le_def prod_eq_iff)
qed

section \<open>Rounds\<close>

definition settled_at :: "module_graph \<Rightarrow> usages \<Rightarrow> connection \<Rightarrow> bool" where
  "settled_at mg used c \<longleftrightarrow> usage_step mg c (used, False) = Some (used, False)"

lemma usage_fold:
  assumes "usages_ok mg es used" and ex: "exports_ok mg" and fin: "finite (name_pool mg es)"
    and "\<forall>c \<in> set cs. c \<in> set (gs_connections mg) \<and> cn_module c < length (gs_modules mg)"
  shows "\<exists>used' ch. fold_opt (usage_step mg) cs (used, f) = Some (used', f \<or> ch) \<and> step_ok mg es used used' ch \<and>
     (\<not> ch \<longrightarrow> (\<forall>c \<in> set cs. settled_at mg used c))"
  using assms(1,4)
proof (induction cs arbitrary: used f)
  case Nil
  then show ?case using step_ok_refl by auto
next
  case (Cons c cs)
  from usage_step_ok [OF Cons.prems(1) ex fin, of c f] Cons.prems(2) obtain used1 ch1 where
    s: "usage_step mg c (used, f) = Some (used1, f \<or> ch1)" "step_ok mg es used used1 ch1" by auto
  from usage_step_ok [OF Cons.prems(1) ex fin, of c False] Cons.prems(2) obtain used2 ch2 where
    s2: "usage_step mg c (used, False) = Some (used2, ch2)" "step_ok mg es used used2 ch2" by auto
  have same: "used2 = used1" using s(1) s2(1) usage_step_flag [of mg c used f] by simp
  from s(2) have "usages_ok mg es used1" by (simp add: step_ok_def)
  from Cons.IH [OF this, of "f \<or> ch1"] Cons.prems(2) obtain used' ch' where
    r: "fold_opt (usage_step mg) cs (used1, f \<or> ch1) = Some (used', (f \<or> ch1) \<or> ch')" "step_ok mg es used1 used' ch'"
      "\<not> ch' \<longrightarrow> (\<forall>c \<in> set cs. settled_at mg used1 c)" by auto
  have "used' \<noteq> used" if "ch1 \<or> ch'"
  proof
    assume e: "used' = used"
    with s(2) r(2) have "usages_le used used1" "usages_le used1 used" by (simp_all add: step_ok_def)
    then have "used1 = used" by (rule usages_le_antisym [symmetric])
    with e s(2) r(2) that show False by (simp add: step_ok_def)
  qed
  then have "step_ok mg es used used' (ch1 \<or> ch')"
    using s(2) r(2) usages_le_trans by (auto simp: step_ok_def)
  moreover have "settled_at mg used c" if "\<not> ch1"
    using s2 s(2) that same by (auto simp: settled_at_def step_ok_def)
  ultimately show ?case using s(1) r
    by (intro exI [of _ used'] exI [of _ "ch1 \<or> ch'"]) (auto simp: step_ok_def)
qed

lemma usage_loop_ok:
  assumes ok: "usages_ok mg es used" and ex: "exports_ok mg" and fin: "finite (name_pool mg es)"
    and rng: "\<forall>c \<in> set (gs_connections mg). cn_module c < length (gs_modules mg)"
  shows "\<exists>used'. usage_loop mg used = Some used' \<and> usages_ok mg es used' \<and> usages_le used used' \<and>
     (\<forall>c \<in> set (gs_connections mg). settled_at mg used' c)"
proof -
  let ?u = "unused (length (gs_modules mg)) (name_pool mg es)"
  let ?inv = "\<lambda>(u, ch). usages_ok mg es u \<and> usages_le used u \<and> (\<not> ch \<longrightarrow> (\<forall>c \<in> set (gs_connections mg). settled_at mg u c))"
  have "\<exists>t. loop_opt (\<lambda>(_, ch). ch) (\<lambda>(u, _). usage_round mg u) (used, True) = Some t \<and> ?inv t \<and> \<not> (\<lambda>(_, ch). ch) t"
  proof (rule loop_opt_rule [where r = "measure (\<lambda>(u, ch). 2 * ?u u + of_bool ch)"])
    show "?inv (used, True)" using ok by simp
    show "wf (measure (\<lambda>(u, ch). 2 * ?u u + of_bool ch))" by simp
    fix s :: "usages \<times> bool" assume inv: "?inv s" and b: "(\<lambda>(_, ch). ch) s"
    from b obtain u where s: "s = (u, True)" by (cases s) auto
    have "\<forall>c \<in> set (gs_connections mg). c \<in> set (gs_connections mg) \<and> cn_module c < length (gs_modules mg)"
      using rng by blast
    with usage_fold [OF _ ex fin, of u "gs_connections mg" False] inv s obtain u' ch where
      r: "usage_round mg u = Some (u', ch)" "step_ok mg es u u' ch"
        "\<not> ch \<longrightarrow> (\<forall>c \<in> set (gs_connections mg). settled_at mg u c)" by (auto simp: usage_round_def)
    from r(2) have k: "usages_ok mg es u'" "usages_le u u'" "ch \<longleftrightarrow> u' \<noteq> u" by (simp_all add: step_ok_def)
    have "?inv (u', ch)" using k r(3) inv s usages_le_trans by auto
    moreover have "((u', ch), s) \<in> measure (\<lambda>(u, ch). 2 * ?u u + of_bool ch)"
      using unused_less [OF _ k(1,2) _ fin] k(3) inv s by (cases ch) auto
    ultimately show "\<exists>t. (\<lambda>(u, _). usage_round mg u) s = Some t \<and> ?inv t \<and>
        (t, s) \<in> measure (\<lambda>(u, ch). 2 * ?u u + of_bool ch)"
      using r(1) s by auto
  qed
  then show ?thesis by (auto simp: usage_loop_def)
qed

section \<open>The flags are the least solution\<close>

definition answers :: "usages \<Rightarrow> nat \<Rightarrow> string option \<Rightarrow> bool" where
  "answers used m q \<longleftrightarrow> (\<exists>all nms. used m = Some (all, nms) \<and> (case q of None \<Rightarrow> all | Some x \<Rightarrow> all \<or> x \<in> nms))"

lemma answers_known:
  "used m = Some (all, nms) \<Longrightarrow> answers used m None = all"
  "used m = Some (all, nms) \<Longrightarrow> answers used m (Some x) = (all \<or> x \<in> nms)"
  by (simp_all add: answers_def)

lemma answers_mono: "usages_le used used' \<Longrightarrow> answers used m q \<Longrightarrow> answers used' m q"
proof -
  assume le: "usages_le used used'" and a: "answers used m q"
  from a obtain all nms where u: "used m = Some (all, nms)" "case q of None \<Rightarrow> all | Some x \<Rightarrow> all \<or> x \<in> nms"
    by (auto simp: answers_def)
  from le have "rel_option usage_le (used m) (used' m)" by (simp add: usages_le_def)
  with u show "answers used' m q" by (cases "used' m") (auto simp: answers_def usage_le_def split: option.splits)
qed

definition entries_answered :: "module_graph \<Rightarrow> usages \<Rightarrow> nat list \<Rightarrow> bool" where
  "entries_answered mg used es \<longleftrightarrow> (\<forall>e \<in> set es. case ei_provided (mg_exports mg ! e) of
     None \<Rightarrow> answers used e None | Some P \<Rightarrow> \<forall>x \<in> P. answers used e (Some x))"

lemma settled_steps:
  assumes s: "settled_at mg used c" and k: "used (cn_module c) = Some (all, nms)"
  shows "is_import_dependency (cn_dependency c) \<Longrightarrow> all"
    and "requested_name used c = Some x \<Longrightarrow> \<not> is_import_dependency (cn_dependency c) \<Longrightarrow> x \<in> nms"
    and "cn_dependency c = HarmonyExportImportedSpecifier d \<Longrightarrow> heis_is_star d \<Longrightarrow>
      requested_name used c = None \<Longrightarrow> star_usage mg c used = Some (used, False)"
proof -
  have uo: "usage_of used (cn_module c) = (all, nms)" by (simp add: usage_of_def k)
  show "is_import_dependency (cn_dependency c) \<Longrightarrow> all"
    using s uo by (simp add: settled_at_def usage_step_def)
  show "requested_name used c = Some x \<Longrightarrow> \<not> is_import_dependency (cn_dependency c) \<Longrightarrow> x \<in> nms"
    using s uo by (simp add: settled_at_def usage_step_def)
  assume d: "cn_dependency c = HarmonyExportImportedSpecifier d" "heis_is_star d" "requested_name used c = None"
  show "star_usage mg c used = Some (used, False)"
    using s uo d by (auto simp: settled_at_def usage_step_def)
qed

lemma settled_star:
  assumes st: "star_usage mg c used = Some (used, False)" and ok: "usages_ok mg es used"
    and fin: "finite (name_pool mg es)" and t: "used (cn_module c) = Some (all, nms)"
    and o: "cn_origin c = Some m" "used m = Some (oall, onames)" and ex: "exports_ok mg"
    and rng: "cn_module c < length (gs_modules mg)"
  shows "(oall \<longrightarrow> all) \<and> (\<forall>x \<in> onames. x \<noteq> ''default'' \<longrightarrow>
     (\<forall>P. ei_provided (mg_exports mg ! cn_module c) = Some P \<longrightarrow> x \<in> P) \<longrightarrow> all \<or> x \<in> nms)"
proof (cases oall)
  case True
  with st t o show ?thesis by (auto simp: star_usage_def usage_of_def)
next
  case False
  let ?added = "Set.filter (\<lambda>n. n \<noteq> ''default'' \<and> (case ei_provided (mg_exports mg ! cn_module c) of
      None \<Rightarrow> True | Some provided \<Rightarrow> n \<in> provided)) onames"
  from st False t o exports_total [OF ex rng] have "used(cn_module c \<mapsto> (all, nms \<union> ?added)) = used"
    by (simp add: star_usage_def usage_of_def Let_def)
  from fun_cong [OF this, of "cn_module c"] have "nms \<union> ?added = nms" by (simp add: t)
  then have sub: "?added \<subseteq> nms" by blast
  have "x \<in> nms" if "x \<in> onames" "x \<noteq> ''default''"
    "\<forall>P. ei_provided (mg_exports mg ! cn_module c) = Some P \<longrightarrow> x \<in> P" for x
    using subsetD [OF sub, of x] that by (cases "ei_provided (mg_exports mg ! cn_module c)") simp_all
  with False show ?thesis by blast
qed

lemma settled_complete:
  assumes ok: "usages_ok mg es used" and st: "\<forall>c \<in> set (gs_connections mg). settled_at mg used c"
    and ex: "exports_ok mg" and sp: "stars_plain mg" and fin: "finite (name_pool mg es)"
    and rng: "\<forall>c \<in> set (gs_connections mg). cn_module c < length (gs_modules mg)"
    and ent: "entries_answered mg used es" and u: "uses mg es m q"
  shows "answers used m q"
  using u
proof induction
  case (entry_all e)
  with ent show ?case by (fastforce simp: entries_answered_def)
next
  case (entry_name e P x)
  with ent show ?case by (fastforce simp: entries_answered_def)
next
  case (dynamic c)
  have s: "settled_at mg used c" using st dynamic(1) by blast
  from usages_known [OF ok] rng dynamic(1) obtain all nms where k: "used (cn_module c) = Some (all, nms)" by blast
  with settled_steps(1) [OF s k] dynamic(2) show ?case by (auto simp: answers_def)
next
  case (specifier c d x)
  have s: "settled_at mg used c" using st specifier(1) by blast
  from usages_known [OF ok] rng specifier(1) obtain all nms where k: "used (cn_module c) = Some (all, nms)" by blast
  with settled_steps(2) [OF s k, of x] specifier(2,3) show ?case by (simp add: answers_def requested_name_def)
next
  case (reexport c d n m x)
  have s: "settled_at mg used c" using st reexport(1) by blast
  from usages_known [OF ok] rng reexport(1) obtain all nms where k: "used (cn_module c) = Some (all, nms)" by blast
  from reexport.IH have "answers used m None \<or> answers used m (Some n)" by blast
  then have "origin_uses used (cn_origin c) n"
    using reexport(4) by (auto simp: origin_uses_def answers_def)
  then have "requested_name used c = Some x" using reexport.hyps by (simp add: requested_name_def)
  with settled_steps(2) [OF s k, of x] reexport(2) k show ?case by (simp add: answers_def)
next
  case (star_all c d m)
  have s: "settled_at mg used c" using st star_all(1) by blast
  from usages_known [OF ok] rng star_all(1) obtain all nms where k: "used (cn_module c) = Some (all, nms)" by blast
  from sp star_all(1-3) have "requested_name used c = None"
    unfolding stars_plain_def by (auto simp: requested_name_def first_id_def)
  from settled_steps(3) [OF s k star_all(2,3) this] have s': "star_usage mg c used = Some (used, False)" .
  from star_all.IH obtain onames where "used m = Some (True, onames)" by (auto simp: answers_def)
  from settled_star [OF s' ok fin k star_all(4) this ex] rng star_all(1) have "all = True" by blast
  with k show ?case by (simp add: answers_known)
next
  case (star_name c d m x)
  have s: "settled_at mg used c" using st star_name(1) by blast
  from usages_known [OF ok] rng star_name(1) obtain all nms where k: "used (cn_module c) = Some (all, nms)" by blast
  from sp star_name(1-3) have "requested_name used c = None"
    unfolding stars_plain_def by (auto simp: requested_name_def first_id_def)
  from settled_steps(3) [OF s k star_name(2,3) this] have s': "star_usage mg c used = Some (used, False)" .
  from star_name.IH obtain oall onames where o: "used m = Some (oall, onames)" "oall \<or> x \<in> onames"
    by (auto simp: answers_def)
  from settled_star [OF s' ok fin k star_name(4) o(1) ex] rng star_name(1,6,7) k o(2) show ?case
    by (auto simp: answers_def)
qed

section \<open>The whole plugin\<close>

lemma fold_handles:
  "fold (\<lambda>m used. used(m_handle m \<mapsto> v)) ms used x =
     (if x \<in> m_handle ` set (ms :: module_data list) then Some v else used x)"
  by (induction ms arbitrary: used) auto

lemma graph_handles:
  assumes "graph_wf mg"
  shows "m_handle ` set (gs_modules mg) = {..<length (gs_modules mg)}" and "distinct (map m_handle (gs_modules mg))"
proof -
  have h: "m_handle (gs_modules mg ! i) = i" if "i < length (gs_modules mg)" for i
    using assms that by (rule graph_wf_handle)
  then show "m_handle ` set (gs_modules mg) = {..<length (gs_modules mg)}" by (force simp: in_set_conv_nth)
  show "distinct (map m_handle (gs_modules mg))" using h by (auto simp: distinct_conv_nth)
qed

lemma initial_usages:
  assumes "graph_wf mg"
  shows "fold (\<lambda>m used. used(m_handle m \<mapsto> (False, {}))) (gs_modules mg) Map.empty =
    (\<lambda>m. if m < length (gs_modules mg) then Some (False, {}) else None)"
  by (rule ext) (simp only: fold_handles graph_handles(1) [OF assms] lessThan_iff)

lemma entries_fold:
  assumes "usages_ok mg es used" and ex: "exports_ok mg"
    and "\<forall>e \<in> set xs. e < length (gs_modules mg) \<and> e \<in> set es"
  shows "\<exists>used'. fold_opt (entry_usage mg) xs used = Some used' \<and> usages_ok mg es used' \<and> usages_le used used' \<and>
    entries_answered mg used' xs"
  using assms(1,3)
proof (induction xs arbitrary: used)
  case Nil
  then show ?case by (simp add: entries_answered_def)
next
  case (Cons e xs)
  then have e: "e < length (gs_modules mg)" "e \<in> set es" by simp_all
  from usages_known [OF Cons.prems(1) e(1)] obtain all nms where k: "used e = Some (all, nms)"
    and pool: "nms \<subseteq> name_pool mg es" and snd: "all \<longrightarrow> uses mg es e None" "\<forall>x \<in> nms. uses mg es e (Some x)" by blast
  let ?v = "case ei_provided (mg_exports mg ! e) of Some P \<Rightarrow> (all, nms \<union> P) | None \<Rightarrow> (True, nms)"
  have s: "entry_usage mg e used = Some (used(e \<mapsto> ?v))"
    using k exports_total [OF ex e(1)] by (simp add: entry_usage_def usage_of_def)
  have le: "usages_le used (used(e \<mapsto> ?v))"
    using usages_le_upd [of used e "(all, nms)" ?v] k by (auto simp: usage_le_def split: option.splits)
  have ok: "usages_ok mg es (used(e \<mapsto> ?v))"
  proof (cases "ei_provided (mg_exports mg ! e)")
    case None
    with usages_ok_upd [OF Cons.prems(1) e(1) pool, of True] snd uses.entry_all [OF e(2)] show ?thesis by simp
  next
    case (Some P)
    with e(2) have "P \<subseteq> name_pool mg es" by (force simp: name_pool_def)
    with usages_ok_upd [OF Cons.prems(1) e(1), of "nms \<union> P" all] pool snd uses.entry_name [OF e(2) Some] Some
    show ?thesis by auto
  qed
  have "\<forall>e \<in> set xs. e < length (gs_modules mg) \<and> e \<in> set es" using Cons.prems(2) by simp
  from Cons.IH [OF ok this] obtain used' where
    r: "fold_opt (entry_usage mg) xs (used(e \<mapsto> ?v)) = Some used'" "usages_ok mg es used'"
       "usages_le (used(e \<mapsto> ?v)) used'" "entries_answered mg used' xs" by blast
  have "entries_answered mg (used(e \<mapsto> ?v)) [e]"
    by (auto simp: entries_answered_def answers_def split: option.splits)
  then have "entries_answered mg used' [e]"
    using answers_mono [OF r(3)] by (auto simp: entries_answered_def split: option.splits)
  then have "entries_answered mg used' (e # xs)" using r(4) by (simp add: entries_answered_def)
  with s r usages_le_trans [OF le] show ?case by auto
qed

definition flagged :: "usages \<Rightarrow> nat \<Rightarrow> exports_info \<Rightarrow> exports_info" where
  "flagged used m info = (case used m of None \<Rightarrow> info
     | Some (all, nms) \<Rightarrow> if all then set_all_exports_used info else set_used_exports (Some nms) info)"

lemma apply_usages:
  assumes "\<forall>m \<in> set ms. m_handle m < length (mg_exports mg)" and "distinct (map m_handle ms)"
  shows "\<exists>mg'. fold_opt (\<lambda>m mg. case used (m_handle m) of None \<Rightarrow> Some mg | Some u \<Rightarrow> apply_usage (m_handle m) u mg)
      ms mg = Some mg' \<and> mg' = mg\<lparr>mg_exports := mg_exports mg'\<rparr> \<and>
    mg_exports mg' = map (\<lambda>i. if i \<in> m_handle ` set ms then flagged used i (mg_exports mg ! i) else mg_exports mg ! i)
      [0..<length (mg_exports mg)]"
  using assms
proof (induction ms arbitrary: mg)
  case Nil
  then show ?case by (simp add: map_nth)
next
  case (Cons m ms)
  let ?h = "m_handle m"
  let ?mg = "mg\<lparr>mg_exports := (mg_exports mg)[?h := flagged used ?h (mg_exports mg ! ?h)]\<rparr>"
  have s: "(case used ?h of None \<Rightarrow> Some mg | Some u \<Rightarrow> apply_usage ?h u mg) = Some ?mg"
    using Cons.prems(1)
    by (auto simp: flagged_def apply_usage_def modify_exports_def split: option.splits prod.splits)
  from Cons.IH [of ?mg] Cons.prems obtain mg' where
    r: "fold_opt (\<lambda>m mg. case used (m_handle m) of None \<Rightarrow> Some mg | Some u \<Rightarrow> apply_usage (m_handle m) u mg) ms ?mg = Some mg'"
      "mg' = ?mg\<lparr>mg_exports := mg_exports mg'\<rparr>"
      "mg_exports mg' = map (\<lambda>i. if i \<in> m_handle ` set ms then flagged used i (mg_exports ?mg ! i) else mg_exports ?mg ! i)
        [0..<length (mg_exports ?mg)]" by auto
  have notin: "?h \<notin> m_handle ` set ms" using Cons.prems(2) by auto
  have "mg_exports mg' = map (\<lambda>i. if i \<in> m_handle ` set (m # ms) then flagged used i (mg_exports mg ! i) else mg_exports mg ! i)
      [0..<length (mg_exports mg)]"
    unfolding r(3)
  proof (intro map_cong)
    fix i assume "i \<in> set [0..<length (mg_exports mg)]"
    then show "(if i \<in> m_handle ` set ms then flagged used i (mg_exports ?mg ! i) else mg_exports ?mg ! i) =
        (if i \<in> m_handle ` set (m # ms) then flagged used i (mg_exports mg ! i) else mg_exports mg ! i)"
      using notin by (cases "i = ?h") simp_all
  qed simp
  moreover have "mg' = mg\<lparr>mg_exports := mg_exports mg'\<rparr>" by (subst r(2)) simp
  ultimately show ?case using s r(1) by auto
qed

theorem flag_dependency_usage_spec:
  assumes wf: "graph_wf mg" and ex: "exports_ok mg" and sp: "stars_plain mg"
    and es: "\<forall>e \<in> set es. e < length (gs_modules mg)"
  shows "\<exists>mg'. flag_dependency_usage es mg = Some mg' \<and> mg' = mg\<lparr>mg_exports := mg_exports mg'\<rparr> \<and>
    length (mg_exports mg') = length (mg_exports mg) \<and>
    (\<forall>m < length (gs_modules mg).
       ei_provided (mg_exports mg' ! m) = ei_provided (mg_exports mg ! m) \<and>
       (ei_all_used (mg_exports mg' ! m) \<longleftrightarrow> uses mg es m None) \<and>
       ei_used (mg_exports mg' ! m) = Some (if uses mg es m None then {} else {x. uses mg es m (Some x)}))"
proof -
  let ?n = "length (gs_modules mg)"
  let ?u0 = "\<lambda>m. if m < ?n then Some (False, {}) else None"
  have rng: "\<forall>c \<in> set (gs_connections mg). cn_module c < ?n"
    using graph_wf_target [OF wf] by blast
  have fin: "finite (name_pool mg es)" by (rule finite_name_pool [OF ex es])
  have "usages_ok mg es ?u0" by (auto simp: usages_ok_def split: if_splits)
  with entries_fold [OF _ ex, of es ?u0 es] es obtain u1 where
    u1: "fold_opt (entry_usage mg) es ?u0 = Some u1" "usages_ok mg es u1" "entries_answered mg u1 es" by blast
  from usage_loop_ok [OF u1(2) ex fin rng] obtain u where
    u: "usage_loop mg u1 = Some u" "usages_ok mg es u" "usages_le u1 u"
       "\<forall>c \<in> set (gs_connections mg). settled_at mg u c" by blast
  have ent: "entries_answered mg u es"
    using u1(3) answers_mono [OF u(3)] by (auto simp: entries_answered_def split: option.splits)
  note hs = graph_handles [OF wf]
  have len: "length (mg_exports mg) = ?n" using ex by (simp add: exports_ok_def)
  have "\<forall>m \<in> set (gs_modules mg). m_handle m < length (mg_exports mg)" using hs(1) len by auto
  from apply_usages [OF this hs(2), of u] obtain mg' where
    r: "fold_opt (\<lambda>m mg. case u (m_handle m) of None \<Rightarrow> Some mg | Some v \<Rightarrow> apply_usage (m_handle m) v mg) (gs_modules mg) mg = Some mg'"
      "mg' = mg\<lparr>mg_exports := mg_exports mg'\<rparr>"
      "mg_exports mg' = map (\<lambda>i. if i < ?n then flagged u i (mg_exports mg ! i) else mg_exports mg ! i) [0..<?n]"
    unfolding hs(1) len lessThan_iff by blast
  have "ei_provided (mg_exports mg' ! m) = ei_provided (mg_exports mg ! m) \<and>
       (ei_all_used (mg_exports mg' ! m) \<longleftrightarrow> uses mg es m None) \<and>
       ei_used (mg_exports mg' ! m) = Some (if uses mg es m None then {} else {x. uses mg es m (Some x)})"
    if m: "m < ?n" for m
  proof -
    from usages_known [OF u(2) m] obtain all nms where k: "u m = Some (all, nms)"
      and snd: "all \<longrightarrow> uses mg es m None" "\<forall>x \<in> nms. uses mg es m (Some x)" by blast
    note c = settled_complete [OF u(2,4) ex sp fin rng ent, of m]
    have a: "uses mg es m None \<longleftrightarrow> all" using c [of None] snd k by (auto simp: answers_def)
    have n: "\<not> all \<Longrightarrow> nms = {x. uses mg es m (Some x)}" using c snd k by (force simp: answers_def)
    show ?thesis using r(3) m k a n
      by (cases all) (simp_all add: flagged_def set_all_exports_used_def set_used_exports_def)
  qed
  moreover have "flag_dependency_usage es mg = Some mg'"
    using u1(1) u(1) r(1) by (simp add: flag_dependency_usage_def initial_usages [OF wf] Let_def)
  moreover have "length (mg_exports mg') = length (mg_exports mg)" using r(3) ex by (simp add: exports_ok_def)
  ultimately show ?thesis using r(2) by blast
qed

section \<open>Provided exports are those of the modules\<close>

lemma provided_exports_finite: "ei_provided (provided_exports m) = Some P \<Longrightarrow> finite P"
  by (auto simp: provided_exports_def exports_from_names_def exports_from_dependencies_spec
      split: parsed_module_data.splits if_splits)

lemma provided_exports_ok: "exports_ok (mg\<lparr>mg_exports := map provided_exports (gs_modules mg)\<rparr>)"
  unfolding exports_ok_def by (auto dest: provided_exports_finite)

end
