(* ===== verification/Side_Effects.thy ===== *)
theory Side_Effects
  imports Used_Exports
begin

text \<open>
  \<open>optimize/side_effects_flag_plugin.rs\<close>: which modules may be left out when nothing of them is
  used, imports redirected past the re-exports of such modules, and the connections that stay
  active.
\<close>

section \<open>The \<open>sideEffects\<close> flag of a package\<close>

text \<open>
  A pattern becomes, character by character, the source of a regular expression; \<open>esc\<close> and \<open>matches\<close> are \<open>regex::escape\<close> and \<open>Regex::is_match\<close> of the \<open>regex\<close>
  crate.
\<close>

fun glob_source :: "(string \<Rightarrow> string) \<Rightarrow> string list \<Rightarrow> string" where
  "glob_source esc [] = ''''"
| "glob_source esc (c # cs) =
     (if c = ''*'' \<and> vec_get cs 0 = Some ''*'' then
        (if vec_get cs 1 = Some ''/'' then ''(?:.*/)?'' @ glob_source esc (drop 2 cs)
         else ''.*'' @ glob_source esc (drop 1 cs))
      else if c = ''*'' then ''[^/]*'' @ glob_source esc cs
      else if c = ''?'' then ''[^/]'' @ glob_source esc cs
      else esc c @ glob_source esc cs)"

definition glob_matches :: "(string \<Rightarrow> string) \<Rightarrow> (string \<Rightarrow> string \<Rightarrow> bool) \<Rightarrow> string \<Rightarrow> string \<Rightarrow> bool" where
  "glob_matches esc matches name pattern =
     (let pattern = (if CHR ''/'' \<in> set pattern then pattern else ''**/'' @ pattern)
      in matches (''^(?:'' @ [CHR 0x5C] @ ''./)?'' @ glob_source esc (utf8_chars pattern) @ ''$'') name)"

text \<open>\<open>glob\<close> is \<open>glob_matches\<close> for those two.\<close>

fun flag_has_side_effects :: "(string \<Rightarrow> string \<Rightarrow> bool) \<Rightarrow> string \<Rightarrow> json_value \<Rightarrow> bool" where
  "flag_has_side_effects glob name (JBool b) = b"
| "flag_has_side_effects glob name (JString pattern) = glob name pattern"
| "flag_has_side_effects glob name (JArray patterns) = list_ex (flag_has_side_effects glob name) patterns"
| "flag_has_side_effects glob name (JObject _) = True"
| "flag_has_side_effects glob name (JOther _) = True"

section \<open>Modules without side effects\<close>

fun is_side_effect_import :: "dependency \<Rightarrow> bool" where
  "is_side_effect_import (HarmonyImportSideEffect _ _) = True"
| "is_side_effect_import _ = False"

fun is_import_specifier :: "dependency \<Rightarrow> bool" where
  "is_import_specifier (HarmonyImportSpecifier _) = True"
| "is_import_specifier _ = False"

text \<open>\<open>Iterator::all\<close>, which stops at the first failure.\<close>

fun all_opt :: "('a \<Rightarrow> bool option) \<Rightarrow> 'a list \<Rightarrow> bool option" where
  "all_opt f [] = Some True"
| "all_opt f (x # xs) = do { b \<leftarrow> f x; if b then all_opt f xs else Some False }"

lemma all_opt_cong [fundef_cong]:
  "xs = ys \<Longrightarrow> (\<And>x. x \<in> set ys \<Longrightarrow> f x = g x) \<Longrightarrow> all_opt f xs = all_opt g ys"
  by (induction xs arbitrary: ys) (auto intro!: bind_option_cong)

lemma all_opt_total: "(\<And>x. x \<in> set xs \<Longrightarrow> f x = Some (p x)) \<Longrightarrow> all_opt f xs = Some (list_all p xs)"
  by (induction xs) auto

lemma outgoing_in_range: "outgoing_connections g m = Some cs \<Longrightarrow> m < length (gs_outgoing g)"
  by (auto simp: outgoing_connections_def bind_simps vec_simps)

text \<open>
  \<open>visit\<close> removes on return exactly what it inserted, so the set it works on is passed down and
  never handed back.
\<close>

function visit_free :: "module_graph \<Rightarrow> nat set \<Rightarrow> nat \<Rightarrow> bool option" where
  "visit_free mg visiting h =
     (case graph_module mg h of
        None \<Rightarrow> Some False
      | Some m \<Rightarrow>
          if \<not> is_side_effect_free m then Some False
          else if h \<in> visiting then Some True
          else do {
            cs \<leftarrow> outgoing_connections mg h;
            all_opt (\<lambda>c. if is_side_effect_import (cn_dependency c)
                         then visit_free mg (insert h visiting) (cn_module c)
                         else Some True) cs })"
  by pat_completeness auto
termination
proof (relation "measure (\<lambda>(mg, visiting, h). card ({..<length (gs_outgoing mg)} - visiting))")
  fix mg :: module_graph and visiting :: "nat set" and h m cs c
  assume "h \<notin> visiting" "outgoing_connections mg h = Some cs"
  then have "{..<length (gs_outgoing mg)} - insert h visiting \<subset> {..<length (gs_outgoing mg)} - visiting"
    using outgoing_in_range by blast
  then show "((mg, insert h visiting, cn_module c), mg, visiting, h)
      \<in> measure (\<lambda>(mg, visiting, h). card ({..<length (gs_outgoing mg)} - visiting))"
    by (simp add: psubset_card_mono)
qed simp

declare visit_free.simps [simp del]

definition module_is_side_effect_free :: "module_graph \<Rightarrow> nat \<Rightarrow> bool option" where
  "module_is_side_effect_free mg h = visit_free mg {} h"

definition module_has_side_effects :: "module_graph \<Rightarrow> nat \<Rightarrow> bool option" where
  "module_has_side_effects mg h = map_option Not (module_is_side_effect_free mg h)"

section \<open>What it decides\<close>

definition se_edge :: "module_graph \<Rightarrow> nat \<Rightarrow> nat \<Rightarrow> bool" where
  "se_edge mg a b \<longleftrightarrow> (\<exists>c \<in> set (gs_connections mg). cn_origin c = Some a \<and> cn_module c = b \<and>
     is_side_effect_import (cn_dependency c))"

definition flagged_free :: "module_graph \<Rightarrow> nat \<Rightarrow> bool" where
  "flagged_free mg h \<longleftrightarrow> is_side_effect_free (gs_modules mg ! h)"

definition pure_module :: "module_graph \<Rightarrow> nat \<Rightarrow> bool" where
  "pure_module mg h \<longleftrightarrow> (\<forall>x. (se_edge mg)\<^sup>*\<^sup>* h x \<longrightarrow> flagged_free mg x)"

text \<open>Reachability over steps that leave a set of nodes alone.\<close>

inductive avoiding :: "module_graph \<Rightarrow> nat set \<Rightarrow> nat \<Rightarrow> nat \<Rightarrow> bool" for mg V where
  here: "avoiding mg V h h"
| there: "avoiding mg V h y \<Longrightarrow> y \<notin> V \<Longrightarrow> se_edge mg y z \<Longrightarrow> avoiding mg V h z"

lemma avoiding_none: "avoiding mg {} h x \<longleftrightarrow> (se_edge mg)\<^sup>*\<^sup>* h x"
proof
  show "avoiding mg {} h x \<Longrightarrow> (se_edge mg)\<^sup>*\<^sup>* h x"
    by (induction rule: avoiding.induct) (auto intro: rtranclp.rtrancl_into_rtrancl)
  show "(se_edge mg)\<^sup>*\<^sup>* h x \<Longrightarrow> avoiding mg {} h x"
    by (induction rule: rtranclp_induct) (auto intro: avoiding.intros)
qed

lemma avoiding_stuck: "avoiding mg V h x \<Longrightarrow> h \<in> V \<Longrightarrow> x = h"
  by (induction rule: avoiding.induct) auto

lemma avoiding_first:
  assumes "avoiding mg V h x"
  shows "x = h \<or> (\<exists>y. se_edge mg h y \<and> avoiding mg (insert h V) y x)"
  using assms
proof (induction rule: avoiding.induct)
  case (there y z)
  then show ?case by (cases "y = h") (auto intro: avoiding.intros)
qed simp

lemma avoiding_mono: "avoiding mg (insert k V) y x \<Longrightarrow> avoiding mg V y x"
  by (induction rule: avoiding.induct) (auto intro: avoiding.intros)

lemma avoiding_trans:
  assumes "avoiding mg V y x" and "avoiding mg V h y"
  shows "avoiding mg V h x"
  using assms by (induction rule: avoiding.induct) (auto intro: avoiding.there)

lemma avoiding_unfold:
  assumes "h \<notin> V"
  shows "(\<forall>x. avoiding mg V h x \<longrightarrow> P x) \<longleftrightarrow>
    P h \<and> (\<forall>y. se_edge mg h y \<longrightarrow> (\<forall>x. avoiding mg (insert h V) y x \<longrightarrow> P x))"
proof (intro iffI conjI allI impI)
  fix y x
  assume all: "\<forall>x. avoiding mg V h x \<longrightarrow> P x" and y: "se_edge mg h y" and x: "avoiding mg (insert h V) y x"
  have "avoiding mg V h y" by (rule avoiding.there [OF avoiding.here assms y])
  with avoiding_mono [OF x] have "avoiding mg V h x" by (rule avoiding_trans)
  with all show "P x" by blast
qed (use avoiding_first in \<open>blast intro: avoiding.here\<close>)+

lemma visit_free_spec:
  assumes "graph_wf mg" and "h < length (gs_modules mg)"
  shows "visit_free mg V h = Some (\<forall>x. avoiding mg V h x \<longrightarrow> flagged_free mg x)"
  using assms
proof (induction mg V h rule: visit_free.induct)
  case (1 mg V h)
  let ?m = "gs_modules mg ! h"
  let ?cs = "filter (\<lambda>c. cn_origin c = Some h) (gs_connections mg)"
  have gm: "graph_module mg h = Some ?m" using "1.prems"(2) by (simp add: graph_module_def)
  have out: "outgoing_connections mg h = Some ?cs" by (rule outgoing_connections_spec [OF "1.prems"])
  consider "\<not> flagged_free mg h" | "flagged_free mg h" "h \<in> V" | "flagged_free mg h" "h \<notin> V" by blast
  then show ?case
  proof cases
    case 1
    then show ?thesis using gm avoiding.here [of mg V h]
      by (subst visit_free.simps) (auto simp: flagged_free_def)
  next
    case 2
    then show ?thesis using gm by (subst visit_free.simps) (auto simp: flagged_free_def dest: avoiding_stuck)
  next
    case 3
    have rng: "cn_module c < length (gs_modules mg)" if "c \<in> set ?cs" for c
      using graph_wf_target [OF "1.prems"(1)] that by simp
    have f: "\<not> \<not> is_side_effect_free ?m" using 3 by (simp add: flagged_free_def)
    have ih: "visit_free mg (insert h V) (cn_module c) =
        Some (\<forall>x. avoiding mg (insert h V) (cn_module c) x \<longrightarrow> flagged_free mg x)"
      if "c \<in> set ?cs" "is_side_effect_import (cn_dependency c)" for c
      by (rule "1.IH" [OF gm f 3(2) out that "1.prems"(1) rng [OF that(1)]])
    have "visit_free mg V h = all_opt (\<lambda>c. if is_side_effect_import (cn_dependency c)
         then visit_free mg (insert h V) (cn_module c) else Some True) ?cs"
      using gm out f 3(2) by (subst visit_free.simps) simp
    also have "\<dots> = Some (list_all (\<lambda>c. is_side_effect_import (cn_dependency c) \<longrightarrow>
        (\<forall>x. avoiding mg (insert h V) (cn_module c) x \<longrightarrow> flagged_free mg x)) ?cs)"
      by (rule all_opt_total) (simp add: ih)
    also have "\<dots> = Some (\<forall>x. avoiding mg V h x \<longrightarrow> flagged_free mg x)"
      unfolding avoiding_unfold [OF 3(2)] using 3(1)
      by (auto simp: list_all_iff se_edge_def)
    finally show ?thesis .
  qed
qed

theorem module_is_side_effect_free_spec:
  "graph_wf mg \<Longrightarrow> h < length (gs_modules mg) \<Longrightarrow> module_is_side_effect_free mg h = Some (pure_module mg h)"
  by (simp add: module_is_side_effect_free_def pure_module_def visit_free_spec avoiding_none)

section \<open>Following re-exports\<close>

text \<open>\<open>only xs\<close> is the element of a vector that has exactly one.\<close>

definition only :: "'a list \<Rightarrow> 'a option" where
  "only xs = (case xs of [x] \<Rightarrow> Some x | _ \<Rightarrow> None)"

lemma only_Some: "only xs = Some x \<longleftrightarrow> xs = [x]"
  by (auto simp: only_def split: list.splits)

fun names_export :: "string \<Rightarrow> dependency \<Rightarrow> bool" where
  "names_export x (HarmonyExportImportedSpecifier d) = (heis_name d = Some x)"
| "names_export x _ = False"

fun reexport_ids :: "dependency \<Rightarrow> string list" where
  "reexport_ids (HarmonyExportImportedSpecifier d) = heis_ids d"
| "reexport_ids _ = []"

text \<open>The connection to follow for a name, and the name to ask for at its target, if it changes.\<close>

definition next_reexport :: "connection list \<Rightarrow> string \<Rightarrow> (connection \<times> string option) option" where
  "next_reexport cs x =
     (case only (filter (\<lambda>c. names_export x (cn_dependency c)) cs) of
        Some c \<Rightarrow> Some (c, first_id (reexport_ids (cn_dependency c)))
      | None \<Rightarrow>
          if x \<noteq> ''default''
          then map_option (\<lambda>c. (c, Some x)) (only (filter (\<lambda>c. is_star_export (cn_dependency c)) cs))
          else None)"

text \<open>The outer option is a panic, the inner one the answer.\<close>

function resolve_reexport_loop ::
  "module_graph \<Rightarrow> nat \<Rightarrow> string \<Rightarrow> bool \<Rightarrow> nat set \<Rightarrow> (nat \<times> string) option option"
where
  "resolve_reexport_loop mg m x moved visited =
     (if m \<in> visited then Some (if moved then Some (m, x) else None)
      else do {
        free \<leftarrow> module_is_side_effect_free mg m;
        if \<not> free then Some (if moved then Some (m, x) else None)
        else do {
          cs \<leftarrow> outgoing_connections mg m;
          (case next_reexport cs x of
             None \<Rightarrow> Some (if moved then Some (m, x) else None)
           | Some (c, x') \<Rightarrow>
               if cn_module c \<in> insert m visited then Some None
               else resolve_reexport_loop mg (cn_module c) (unwrap_or x' x) True (insert m visited)) } })"
  by pat_completeness auto
termination
proof (relation "measure (\<lambda>(mg, m, x, moved, visited). card ({..<length (gs_outgoing mg)} - visited))")
  fix mg :: module_graph and m x moved free cs p c x' and visited :: "nat set"
  assume "m \<notin> visited" "outgoing_connections mg m = Some cs"
  then have "{..<length (gs_outgoing mg)} - insert m visited \<subset> {..<length (gs_outgoing mg)} - visited"
    using outgoing_in_range by blast
  then show "((mg, cn_module c, unwrap_or x' x, True, insert m visited), mg, m, x, moved, visited)
      \<in> measure (\<lambda>(mg, m, x, moved, visited). card ({..<length (gs_outgoing mg)} - visited))"
    by (simp add: psubset_card_mono)
qed simp

declare resolve_reexport_loop.simps [simp del]

definition resolve_reexport_target :: "module_graph \<Rightarrow> nat \<Rightarrow> string \<Rightarrow> (nat \<times> string) option option" where
  "resolve_reexport_target mg m x = resolve_reexport_loop mg m x False {}"

section \<open>What an exported name is bound to\<close>

text \<open>
  The binding that a name exported by a module stands for: a local one of some module, or the
  namespace object of one (a namespace import that is exported again).
\<close>

datatype binding = Local nat string | Namespace nat

fun local_export :: "string \<Rightarrow> dependency \<Rightarrow> bool" where
  "local_export x (HarmonyExportSpecifier _ name) = (name = x)"
| "local_export x (HarmonyExportExpression _) = (x = ''default'')"
| "local_export x _ = False"

definition exports_locally :: "module_graph \<Rightarrow> nat \<Rightarrow> string \<Rightarrow> bool" where
  "exports_locally mg m x \<longleftrightarrow> m < length (gs_modules mg) \<and>
     (case pm_data (m_parsed (gs_modules mg ! m)) of
        PJavaScript \<Rightarrow> list_ex (local_export x) (m_dependencies (gs_modules mg ! m))
      | _ \<Rightarrow> (case ei_provided (provided_exports (gs_modules mg ! m)) of None \<Rightarrow> False | Some P \<Rightarrow> x \<in> P))"

definition reexports_of :: "module_graph \<Rightarrow> nat \<Rightarrow> connection set" where
  "reexports_of mg m = {c \<in> set (gs_connections mg). cn_origin c = Some m}"

inductive bound_to :: "module_graph \<Rightarrow> nat \<Rightarrow> string \<Rightarrow> binding \<Rightarrow> bool" for mg where
  local_name: "exports_locally mg m x \<Longrightarrow> bound_to mg m x (Local m x)"
| named: "c \<in> reexports_of mg m \<Longrightarrow> names_export x (cn_dependency c) \<Longrightarrow>
    first_id (reexport_ids (cn_dependency c)) = Some y \<Longrightarrow> bound_to mg (cn_module c) y b \<Longrightarrow> bound_to mg m x b"
| namespace: "c \<in> reexports_of mg m \<Longrightarrow> names_export x (cn_dependency c) \<Longrightarrow>
    first_id (reexport_ids (cn_dependency c)) = None \<Longrightarrow> bound_to mg m x (Namespace (cn_module c))"
| star: "\<not> exports_locally mg m x \<Longrightarrow> x \<noteq> ''default'' \<Longrightarrow>
    \<forall>c \<in> reexports_of mg m. \<not> names_export x (cn_dependency c) \<Longrightarrow>
    c \<in> reexports_of mg m \<Longrightarrow> is_star_export (cn_dependency c) \<Longrightarrow>
    bound_to mg (cn_module c) x b \<Longrightarrow> bound_to mg m x b"

text \<open>
  The re-exports that the loop follows correctly: no name is exported twice, a namespace is not
  exported again, and a module with a star re-export has no exports of its own.
\<close>

definition plain_reexports :: "module_graph \<Rightarrow> bool" where
  "plain_reexports mg \<longleftrightarrow> (\<forall>c \<in> set (gs_connections mg). \<forall>m. cn_origin c = Some m \<longrightarrow>
     (\<forall>x. names_export x (cn_dependency c) \<longrightarrow> reexport_ids (cn_dependency c) \<noteq> [] \<and> \<not> exports_locally mg m x \<and>
        (\<forall>c' \<in> set (gs_connections mg). cn_origin c' = Some m \<longrightarrow> names_export x (cn_dependency c') \<longrightarrow>
           cn_handle c' = cn_handle c)) \<and>
     (is_star_export (cn_dependency c) \<longrightarrow> (\<forall>x. \<not> exports_locally mg m x)))"

lemma distinct_singleton: "distinct xs \<Longrightarrow> set xs = {d} \<Longrightarrow> xs = [d]"
proof -
  assume "distinct xs" and s: "set xs = {d}"
  from distinct_card [OF this(1)] s have "length xs = 1" by simp
  then obtain e where "xs = [e]" by (cases xs) auto
  with s show "xs = [d]" by simp
qed

lemma plain_same_name:
  assumes wf: "graph_wf mg" and pl: "plain_reexports mg" and "d \<in> reexports_of mg m" "e \<in> reexports_of mg m"
    and "names_export x (cn_dependency d)" "names_export x (cn_dependency e)"
  shows "e = d"
proof -
  have "cn_handle e = cn_handle d" using assms(2-) by (simp add: plain_reexports_def reexports_of_def)
  moreover from assms(3,4) obtain i j where "i < length (gs_connections mg)" "gs_connections mg ! i = e"
    "j < length (gs_connections mg)" "gs_connections mg ! j = d"
    by (auto simp: in_set_conv_nth reexports_of_def)
  ultimately show ?thesis using graph_wfD(4) [OF wf, of i] graph_wfD(4) [OF wf, of j]
    by (auto simp: connection_wf_def)
qed

lemma graph_wf_distinct_connections: "graph_wf mg \<Longrightarrow> distinct (gs_connections mg)"
proof -
  assume "graph_wf mg"
  from graph_wfD(4) [OF this] have "distinct (map cn_handle (gs_connections mg))"
    by (auto simp: distinct_conv_nth connection_wf_def)
  then show ?thesis by (simp add: distinct_map)
qed


lemma bound_through_name:
  assumes wf: "graph_wf mg" and pl: "plain_reexports mg"
    and c: "c \<in> reexports_of mg m" "names_export x (cn_dependency c)"
    and y: "first_id (reexport_ids (cn_dependency c)) = Some y"
  shows "bound_to mg m x b \<longleftrightarrow> bound_to mg (cn_module c) y b"
proof
  show "bound_to mg (cn_module c) y b \<Longrightarrow> bound_to mg m x b" by (rule bound_to.named [OF c y])
  have same: "\<And>d. d \<in> reexports_of mg m \<Longrightarrow> names_export x (cn_dependency d) \<Longrightarrow> d = c"
    by (rule plain_same_name [OF wf pl c(1) _ c(2)])
  have n: "\<not> exports_locally mg m x" using c pl by (auto simp: plain_reexports_def reexports_of_def)
  assume "bound_to mg m x b"
  then show "bound_to mg (cn_module c) y b"
    using y c n by cases (fastforce dest: same)+
qed

lemma bound_through_star:
  assumes pl: "plain_reexports mg" and c: "c \<in> reexports_of mg m" "is_star_export (cn_dependency c)"
    and one: "\<And>d. d \<in> reexports_of mg m \<Longrightarrow> is_star_export (cn_dependency d) \<Longrightarrow> d = c"
    and nn: "\<forall>d \<in> reexports_of mg m. \<not> names_export x (cn_dependency d)" and x: "x \<noteq> ''default''"
  shows "bound_to mg m x b \<longleftrightarrow> bound_to mg (cn_module c) x b"
proof
  have n: "\<not> exports_locally mg m x" using c pl by (auto simp: plain_reexports_def reexports_of_def)
  show "bound_to mg (cn_module c) x b \<Longrightarrow> bound_to mg m x b" by (rule bound_to.star [OF n x nn c])
  assume "bound_to mg m x b"
  then show "bound_to mg (cn_module c) x b"
    using n nn one by cases (fastforce dest: one)+
qed

lemma only_filter: "only (filter P xs) = Some c \<Longrightarrow> c \<in> set xs \<and> P c \<and> (\<forall>d \<in> set xs. P d \<longrightarrow> d = c)"
  by (drule only_Some [THEN iffD1], drule arg_cong [where f = set]) auto

lemma next_reexport_step:
  assumes wf: "graph_wf mg" and pl: "plain_reexports mg"
    and n: "next_reexport (filter (\<lambda>c. cn_origin c = Some m) (gs_connections mg)) x = Some (c, x')"
  shows "bound_to mg m x b \<longleftrightarrow> bound_to mg (cn_module c) (unwrap_or x' x) b"
proof -
  let ?cs = "filter (\<lambda>c. cn_origin c = Some m) (gs_connections mg)"
  let ?named = "filter (\<lambda>c. names_export x (cn_dependency c)) ?cs"
  have cs: "set ?cs = reexports_of mg m" by (auto simp: reexports_of_def)
  show ?thesis
  proof (cases "only ?named")
    case (Some c0)
    have c: "c = c0" "x' = first_id (reexport_ids (cn_dependency c))"
      using n unfolding next_reexport_def Some by auto
    have c0: "c \<in> reexports_of mg m" "names_export x (cn_dependency c)"
      using only_filter [OF Some] unfolding cs c(1) by simp_all
    then have "reexport_ids (cn_dependency c) \<noteq> []" using pl by (auto simp: plain_reexports_def reexports_of_def)
    then obtain y where y: "first_id (reexport_ids (cn_dependency c)) = Some y"
      by (cases "reexport_ids (cn_dependency c)") (auto simp: first_id_def)
    from bound_through_name [OF wf pl c0 y] show ?thesis by (simp add: c(2) y)
  next
    case None
    have nn: "\<forall>d \<in> reexports_of mg m. \<not> names_export x (cn_dependency d)"
    proof (intro ballI notI)
      fix d assume d: "d \<in> reexports_of mg m" "names_export x (cn_dependency d)"
      have "e = d" if "e \<in> set ?named" for e
      proof (rule plain_same_name [OF wf pl d(1) _ d(2)])
        from that show "e \<in> reexports_of mg m" "names_export x (cn_dependency e)" by (simp_all add: reexports_of_def)
      qed
      moreover have "d \<in> set ?named" using d by (simp add: reexports_of_def)
      ultimately have "set ?named = {d}" by blast
      moreover have "distinct ?named" using graph_wf_distinct_connections [OF wf] by simp
      ultimately have "?named = [d]" by (intro distinct_singleton)
      then have "only ?named = Some d" by (simp only: only_Some)
      with None show False by simp
    qed
    from n None have star: "x \<noteq> ''default''" "x' = Some x"
      "only (filter (\<lambda>c. is_star_export (cn_dependency c)) ?cs) = Some c"
      unfolding next_reexport_def None by (auto split: if_splits)
    have "c \<in> reexports_of mg m" "is_star_export (cn_dependency c)"
      "\<And>d. d \<in> reexports_of mg m \<Longrightarrow> is_star_export (cn_dependency d) \<Longrightarrow> d = c"
      using only_filter [OF star(3)] unfolding cs by blast+
    from bound_through_star [OF pl this nn star(1)] show ?thesis by (simp add: star(2))
  qed
qed

section \<open>The answer of the loop\<close>

definition follows :: "module_graph \<Rightarrow> nat \<times> string \<Rightarrow> nat \<times> string \<Rightarrow> bool" where
  "follows mg p q \<longleftrightarrow> pure_module mg (fst p) \<and> fst p < length (gs_modules mg) \<and>
     (\<exists>c x'. next_reexport (filter (\<lambda>c. cn_origin c = Some (fst p)) (gs_connections mg)) (snd p) = Some (c, x') \<and>
        q = (cn_module c, unwrap_or x' (snd p)))"

lemma follows_bound:
  "graph_wf mg \<Longrightarrow> plain_reexports mg \<Longrightarrow> follows mg p q \<Longrightarrow>
     bound_to mg (fst p) (snd p) b \<longleftrightarrow> bound_to mg (fst q) (snd q) b"
  by (auto simp: follows_def next_reexport_step)

lemma follows_chain_bound:
  assumes "(follows mg)\<^sup>+\<^sup>+ p q" and "graph_wf mg" "plain_reexports mg"
  shows "bound_to mg (fst p) (snd p) b \<longleftrightarrow> bound_to mg (fst q) (snd q) b"
  using assms(1) by (induction rule: tranclp_induct) (simp_all add: follows_bound [OF assms(2,3)])

lemma next_reexport_member: "next_reexport cs x = Some (c, x') \<Longrightarrow> c \<in> set cs"
proof -
  have "only (filter P cs) = Some c \<Longrightarrow> c \<in> set cs" for P
    by (metis filter_is_subset list.set_intros(1) only_Some subsetD)
  then show "next_reexport cs x = Some (c, x') \<Longrightarrow> c \<in> set cs"
    by (auto simp: next_reexport_def split: option.splits if_splits)
qed

lemma resolve_reexport_loop_ok:
  assumes "graph_wf mg" and "m < length (gs_modules mg)"
  shows "\<exists>r. resolve_reexport_loop mg m x moved visited = Some r \<and> (\<forall>q. r = Some q \<longrightarrow>
    fst q < length (gs_modules mg) \<and> (if moved then (follows mg)\<^sup>*\<^sup>* (m, x) q else (follows mg)\<^sup>+\<^sup>+ (m, x) q))"
  using assms
proof (induction mg m x moved visited rule: resolve_reexport_loop.induct)
  case (1 mg m x moved visited)
  let ?cs = "filter (\<lambda>c. cn_origin c = Some m) (gs_connections mg)"
  let ?ok = "\<lambda>r. \<forall>q. r = Some q \<longrightarrow> fst q < length (gs_modules mg) \<and>
    (if moved then (follows mg)\<^sup>*\<^sup>* (m, x) q else (follows mg)\<^sup>+\<^sup>+ (m, x) q)"
  have stop: "?ok (if moved then Some (m, x) else None)" using "1.prems"(2) by simp
  have free: "module_is_side_effect_free mg m = Some (pure_module mg m)"
    by (rule module_is_side_effect_free_spec [OF "1.prems"])
  have out: "outgoing_connections mg m = Some ?cs" by (rule outgoing_connections_spec [OF "1.prems"])
  consider "m \<in> visited \<or> \<not> pure_module mg m \<or> next_reexport ?cs x = None"
    | c x' where "m \<notin> visited" "pure_module mg m" "next_reexport ?cs x = Some (c, x')"
    by (cases "next_reexport ?cs x") auto
  then show ?case
  proof cases
    case 1
    have "resolve_reexport_loop mg m x moved visited = Some (if moved then Some (m, x) else None)"
      using 1 by (subst resolve_reexport_loop.simps) (auto simp: free out)
    with stop show ?thesis by blast
  next
    case (2 c x')
    have rng: "cn_module c < length (gs_modules mg)"
      using next_reexport_member [OF 2(3)] graph_wf_target [OF "1.prems"(1)] by simp
    have f: "follows mg (m, x) (cn_module c, unwrap_or x' x)"
      using 2 "1.prems"(2) by (auto simp: follows_def)
    show ?thesis
    proof (cases "cn_module c \<in> insert m visited")
      case True
      have "resolve_reexport_loop mg m x moved visited = Some None"
        using 2 True by (subst resolve_reexport_loop.simps) (simp add: free out)
      then show ?thesis by simp
    next
      case False
      have nn: "\<not> \<not> pure_module mg m" using 2(2) by simp
      have "resolve_reexport_loop mg m x moved visited =
          resolve_reexport_loop mg (cn_module c) (unwrap_or x' x) True (insert m visited)"
        using 2 False by (subst resolve_reexport_loop.simps) (simp add: free out)
      moreover from "1.IH" [OF 2(1) free nn out 2(3) refl False "1.prems"(1) rng] obtain r where
        "resolve_reexport_loop mg (cn_module c) (unwrap_or x' x) True (insert m visited) = Some r"
        "\<forall>q. r = Some q \<longrightarrow> fst q < length (gs_modules mg) \<and> (follows mg)\<^sup>*\<^sup>* (cn_module c, unwrap_or x' x) q"
        by auto
      moreover have "(follows mg)\<^sup>*\<^sup>* (cn_module c, unwrap_or x' x) q \<Longrightarrow> (follows mg)\<^sup>+\<^sup>+ (m, x) q" for q
        using f by (rule rtranclp_into_tranclp2)
      ultimately show ?thesis by (auto intro: tranclp_into_rtranclp)
    qed
  qed
qed

theorem resolve_reexport_target_spec:
  assumes "graph_wf mg" and "m < length (gs_modules mg)"
  shows "\<exists>r. resolve_reexport_target mg m x = Some r \<and>
    (\<forall>q. r = Some q \<longrightarrow> fst q < length (gs_modules mg) \<and> (follows mg)\<^sup>+\<^sup>+ (m, x) q)"
  using resolve_reexport_loop_ok [OF assms, of x False "{}"]
  by (auto simp: resolve_reexport_target_def)

section \<open>Redirecting connections\<close>

fun specifier_name :: "dependency \<Rightarrow> string option" where
  "specifier_name (HarmonyImportSpecifier d) = first_id (his_ids d)"
| "specifier_name _ = None"

definition specifiers_to :: "connection list \<Rightarrow> nat \<Rightarrow> connection list" where
  "specifiers_to cs m = filter (\<lambda>k. cn_module k = m \<and> is_import_specifier (cn_dependency k)) cs"

definition specifier_target :: "module_graph \<Rightarrow> connection \<Rightarrow> (nat \<times> string) option option" where
  "specifier_target mg k =
     (case specifier_name (cn_dependency k) of
        None \<Rightarrow> Some None
      | Some name \<Rightarrow> resolve_reexport_target mg (cn_module k) name)"

text \<open>A redirected connection with its new target and name; the outer option is a panic.\<close>

definition rewrite_side_effect :: "module_graph \<Rightarrow> connection \<Rightarrow> (nat \<times> nat \<times> string) option option" where
  "rewrite_side_effect mg c =
     (case cn_origin c of
        None \<Rightarrow> Some None
      | Some origin \<Rightarrow> do {
          cs \<leftarrow> outgoing_connections mg origin;
          let imports = specifiers_to cs (cn_module c);
          found \<leftarrow> map_opt (specifier_target mg) imports;
          let targets = List.map_filter id found;
          Some (if length targets \<noteq> length imports then None
                else case targets of
                  [] \<Rightarrow> None
                | first # _ \<Rightarrow>
                    if list_ex (\<lambda>target. fst target \<noteq> fst first) targets then None
                    else Some (cn_handle c, fst first, snd first)) })"

definition rewrite_to :: "module_graph \<Rightarrow> connection \<Rightarrow> string option \<Rightarrow> (nat \<times> nat \<times> string) option option" where
  "rewrite_to mg c name =
     (case name of
        None \<Rightarrow> Some None
      | Some x \<Rightarrow> map_option (map_option (\<lambda>(m, y). (cn_handle c, m, y)))
          (resolve_reexport_target mg (cn_module c) x))"

definition rewrite_specifier :: "module_graph \<Rightarrow> connection \<Rightarrow> (nat \<times> nat \<times> string) option option" where
  "rewrite_specifier mg c =
     (case cn_origin c of
        None \<Rightarrow> Some None
      | Some origin \<Rightarrow> do {
          cs \<leftarrow> outgoing_connections mg origin;
          let imported = set (List.map_filter (\<lambda>k. specifier_name (cn_dependency k))
                (specifiers_to cs (cn_module c)));
          if card imported \<noteq> 1 then Some None
          else rewrite_to mg c (specifier_name (cn_dependency c)) })"

definition connection_rewrite :: "module_graph \<Rightarrow> connection \<Rightarrow> (nat \<times> nat \<times> string) option option" where
  "connection_rewrite mg c =
     (case cn_dependency c of
        HarmonyImportSideEffect _ _ \<Rightarrow> rewrite_side_effect mg c
      | HarmonyImportSpecifier _ \<Rightarrow> rewrite_specifier mg c
      | HarmonyExportImportedSpecifier d \<Rightarrow>
          if heis_is_star d then Some None else rewrite_to mg c (first_id (heis_ids d))
      | _ \<Rightarrow> Some None)"

definition rename_first :: "string \<Rightarrow> string list \<Rightarrow> string list" where
  "rename_first name ids = (case ids of [] \<Rightarrow> [] | _ # rest \<Rightarrow> name # rest)"

fun rename_dependency :: "string \<Rightarrow> dependency \<Rightarrow> dependency" where
  "rename_dependency name (HarmonyImportSpecifier d) =
     HarmonyImportSpecifier (d\<lparr>his_ids := rename_first name (his_ids d)\<rparr>)"
| "rename_dependency name (HarmonyExportImportedSpecifier d) =
     HarmonyExportImportedSpecifier (d\<lparr>heis_ids := rename_first name (heis_ids d)\<rparr>)"
| "rename_dependency name d = d"

definition apply_rewrite :: "nat \<times> nat \<times> string \<Rightarrow> module_graph \<Rightarrow> module_graph option" where
  "apply_rewrite = (\<lambda>(h, m, name) mg. do {
     mg \<leftarrow> update_connection_module h m mg;
     modify_connection h (\<lambda>c. c\<lparr>cn_dependency := rename_dependency name (cn_dependency c)\<rparr>) mg })"

section \<open>Active connections\<close>

definition module_exports_are_used :: "module_graph \<Rightarrow> nat \<Rightarrow> bool option" where
  "module_exports_are_used mg h = do {
     info \<leftarrow> graph_exports mg h;
     Some (ei_all_used info \<or> (case ei_used info of None \<Rightarrow> False | Some used \<Rightarrow> used \<noteq> {})) }"

definition se_connection_is_active :: "module_graph \<Rightarrow> connection \<Rightarrow> bool option" where
  "se_connection_is_active mg c =
     (case cn_dependency c of
        HarmonyImportSideEffect _ _ \<Rightarrow> do {
          effects \<leftarrow> module_has_side_effects mg (cn_module c);
          if effects then Some True
          else (case cn_origin c of
              None \<Rightarrow> Some False
            | Some origin \<Rightarrow> do {
                cs \<leftarrow> outgoing_connections mg origin;
                Some (list_ex (\<lambda>k. cn_module k = cn_module c \<and> is_import_specifier (cn_dependency k)) cs) }) }
      | HarmonyExportImportedSpecifier d \<Rightarrow> do {
          named \<leftarrow> (case (heis_name d, cn_origin c) of
              (Some name, Some origin) \<Rightarrow> do {
                info \<leftarrow> graph_exports mg origin;
                Some (get_used_name info name \<noteq> None) }
            | _ \<Rightarrow> Some False);
          if named then Some True
          else if heis_is_star d then module_exports_are_used mg (cn_module c)
          else Some False }
      | _ \<Rightarrow> Some True)"

definition set_states :: "bool list \<Rightarrow> module_graph \<Rightarrow> module_graph" where
  "set_states active mg = mg\<lparr>gs_connections :=
     map (\<lambda>(c, a). c\<lparr>cn_state := if a then Active else Inactive\<rparr>) (zip (gs_connections mg) active)\<rparr>"

definition optimize_dependencies :: "module_graph \<Rightarrow> module_graph option" where
  "optimize_dependencies mg = do {
     rewrites \<leftarrow> map_opt (connection_rewrite mg) (gs_connections mg);
     mg \<leftarrow> fold_opt apply_rewrite (List.map_filter id rewrites) mg;
     active \<leftarrow> map_opt (se_connection_is_active mg) (gs_connections mg);
     Some (set_states active mg) }"

section \<open>What a rewrite may do\<close>

definition rewrite_ok :: "module_graph \<Rightarrow> connection \<Rightarrow> nat \<times> nat \<times> string \<Rightarrow> bool" where
  "rewrite_ok mg c = (\<lambda>(h, m, y). h = cn_handle c \<and> m < length (gs_modules mg) \<and>
     (\<exists>x. (follows mg)\<^sup>+\<^sup>+ (cn_module c, x) (m, y) \<and>
        (\<forall>d. cn_dependency c = HarmonyImportSpecifier d \<longrightarrow> first_id (his_ids d) = Some x) \<and>
        (\<forall>d. cn_dependency c = HarmonyExportImportedSpecifier d \<longrightarrow> first_id (heis_ids d) = Some x)))"

lemma rewrite_to_ok:
  assumes wf: "graph_wf mg" and c: "c \<in> set (gs_connections mg)"
    and n: "\<And>d. cn_dependency c = HarmonyImportSpecifier d \<Longrightarrow> name = first_id (his_ids d)"
      "\<And>d. cn_dependency c = HarmonyExportImportedSpecifier d \<Longrightarrow> name = first_id (heis_ids d)"
  shows "\<exists>r. rewrite_to mg c name = Some r \<and> (\<forall>q. r = Some q \<longrightarrow> rewrite_ok mg c q)"
proof (cases name)
  case (Some x)
  from resolve_reexport_target_spec [OF wf graph_wf_target [OF wf c], of x] obtain r where
    r: "resolve_reexport_target mg (cn_module c) x = Some r"
      "\<forall>q. r = Some q \<longrightarrow> fst q < length (gs_modules mg) \<and> (follows mg)\<^sup>+\<^sup>+ (cn_module c, x) q" by blast
  have "rewrite_to mg c name = Some (map_option (\<lambda>(m, y). (cn_handle c, m, y)) r)"
    by (simp add: rewrite_to_def Some r(1))
  moreover have "rewrite_ok mg c (cn_handle c, fst q, snd q)" if "r = Some q" for q
    using r(2) that n Some by (auto simp: rewrite_ok_def)
  ultimately show ?thesis by (auto simp: split_beta)
qed (simp add: rewrite_to_def)

lemma specifier_target_total:
  assumes "graph_wf mg" and "k \<in> set (gs_connections mg)"
  shows "\<exists>r. specifier_target mg k = Some r \<and> (\<forall>q. r = Some q \<longrightarrow> fst q < length (gs_modules mg) \<and>
     (\<exists>x. (follows mg)\<^sup>+\<^sup>+ (cn_module k, x) q))"
  using resolve_reexport_target_spec [OF assms(1) graph_wf_target [OF assms]]
  by (auto simp: specifier_target_def split: option.splits) blast

lemma map_opt_members: "map_opt f xs = Some ys \<Longrightarrow> y \<in> set ys \<Longrightarrow> \<exists>x \<in> set xs. f x = Some y"
  by (induction xs arbitrary: ys) (auto simp: bind_simps)

lemma map_opt_exists: "(\<And>x. x \<in> set xs \<Longrightarrow> \<exists>y. f x = Some y) \<Longrightarrow> \<exists>ys. map_opt f xs = Some ys"
proof (induction xs)
  case (Cons x xs)
  then obtain y ys where "f x = Some y" "map_opt f xs = Some ys" by (meson list.set_intros)
  then show ?case by simp
qed simp

lemma map_filter_id: "set (List.map_filter id xs) = {x. Some x \<in> set xs}"
  by (auto simp: List.map_filter_def image_iff) (force simp: image_iff)

lemma rewrite_side_effect_ok:
  assumes wf: "graph_wf mg" and c: "c \<in> set (gs_connections mg)" and dep: "is_side_effect_import (cn_dependency c)"
  shows "\<exists>r. rewrite_side_effect mg c = Some r \<and> (\<forall>q. r = Some q \<longrightarrow> rewrite_ok mg c q)"
proof (cases "cn_origin c")
  case (Some o')
  then have o: "o' < length (gs_modules mg)"
    using c graph_wfD(4) [OF wf] by (auto simp: in_set_conv_nth connection_wf_def)
  let ?cs = "filter (\<lambda>c. cn_origin c = Some o') (gs_connections mg)"
  let ?im = "specifiers_to ?cs (cn_module c)"
  have im: "k \<in> set (gs_connections mg) \<and> cn_module k = cn_module c" if "k \<in> set ?im" for k
    using that by (auto simp: specifiers_to_def)
  then obtain found where f: "map_opt (specifier_target mg) ?im = Some found"
    using map_opt_exists specifier_target_total [OF wf] by metis
  have t: "fst q < length (gs_modules mg) \<and> (\<exists>x. (follows mg)\<^sup>+\<^sup>+ (cn_module c, x) q)"
    if "q \<in> set (List.map_filter id found)" for q
  proof -
    have "Some q \<in> set found" using that by (simp add: map_filter_id)
    from map_opt_members [OF f this] obtain k where k: "k \<in> set ?im" "specifier_target mg k = Some (Some q)" by blast
    from specifier_target_total [OF wf, of k] im [OF k(1)] obtain r where r: "specifier_target mg k = Some r"
      "\<forall>q. r = Some q \<longrightarrow> fst q < length (gs_modules mg) \<and> (\<exists>x. (follows mg)\<^sup>+\<^sup>+ (cn_module k, x) q)" by blast
    from r(1) k(2) have "r = Some q" by simp
    with r(2) im [OF k(1)] show ?thesis by simp
  qed
  show ?thesis
  proof (cases "List.map_filter id found")
    case Nil
    then show ?thesis using outgoing_connections_spec [OF wf o] f
      by (simp add: rewrite_side_effect_def Some Let_def)
  next
    case (Cons p ps)
    have "rewrite_ok mg c (cn_handle c, fst p, snd p)"
      using t [of p] Cons dep by (auto simp: rewrite_ok_def)
    then show ?thesis using outgoing_connections_spec [OF wf o] f Cons
      by (cases p) (simp add: rewrite_side_effect_def Some Let_def)
  qed
qed (simp add: rewrite_side_effect_def)

lemma connection_rewrite_ok:
  assumes wf: "graph_wf mg" and c: "c \<in> set (gs_connections mg)"
  shows "\<exists>r. connection_rewrite mg c = Some r \<and> (\<forall>q. r = Some q \<longrightarrow> rewrite_ok mg c q)"
proof -
  have spec: "\<exists>r. rewrite_specifier mg c = Some r \<and> (\<forall>q. r = Some q \<longrightarrow> rewrite_ok mg c q)"
    if d: "cn_dependency c = HarmonyImportSpecifier d" for d
  proof (cases "cn_origin c")
    case (Some o')
    then have "o' < length (gs_modules mg)"
      using c graph_wfD(4) [OF wf] by (auto simp: in_set_conv_nth connection_wf_def)
    with outgoing_connections_spec [OF wf] rewrite_to_ok [OF wf c, of "first_id (his_ids d)"] d
    show ?thesis by (simp add: rewrite_specifier_def Some Let_def)
  qed (simp add: rewrite_specifier_def)
  show ?thesis
    using rewrite_side_effect_ok [OF wf c] spec rewrite_to_ok [OF wf c]
    by (cases "cn_dependency c") (simp_all add: connection_rewrite_def)
qed

section \<open>The graph after the pass\<close>

definition redirect :: "(nat \<times> nat \<times> string) option \<Rightarrow> connection \<Rightarrow> connection" where
  "redirect r c = (case r of None \<Rightarrow> c
     | Some (_, m, y) \<Rightarrow> c\<lparr>cn_module := m, cn_dependency := rename_dependency y (cn_dependency c)\<rparr>)"

text \<open>Changing what a dependency or a state says leaves the indices valid.\<close>

lemma graph_wf_relabel:
  assumes wf: "graph_wf mg" and len: "length cs = length (gs_connections mg)"
    and same: "\<And>i. i < length cs \<Longrightarrow> (cs ! i)\<lparr>cn_dependency := d, cn_state := s\<rparr> =
      (gs_connections mg ! i)\<lparr>cn_dependency := d, cn_state := s\<rparr>"
  shows "graph_wf (mg\<lparr>gs_connections := cs\<rparr>)"
proof -
  have f: "cn_handle (cs ! i) = cn_handle (gs_connections mg ! i)" "cn_origin (cs ! i) = cn_origin (gs_connections mg ! i)"
    "cn_module (cs ! i) = cn_module (gs_connections mg ! i)" "cn_resolved (cs ! i) = cn_resolved (gs_connections mg ! i)"
    "cn_block (cs ! i) = cn_block (gs_connections mg ! i)" "cn_index (cs ! i) = cn_index (gs_connections mg ! i)"
    if "i < length cs" for i
    using same [OF that] by (cases "cs ! i"; cases "gs_connections mg ! i"; simp)+
  have cw: "connection_wf n i (cs ! i) = connection_wf n i (gs_connections mg ! i)"
    and al: "at_location (cs ! i) m l = at_location (gs_connections mg ! i) m l" if "i < length cs" for i n m l
    using f [OF that] by (simp_all add: connection_wf_def at_location_def)
  have o: "filter (\<lambda>h. cn_origin (cs ! h) = Some m) [0..<length cs] =
      filter (\<lambda>h. cn_origin (gs_connections mg ! h) = Some m) [0..<length cs]" for m
    by (rule filter_upt_cong_nth) (simp add: f(2))
  have a: "find (\<lambda>h. at_location (cs ! h) m l) (rev [0..<length cs]) =
      find (\<lambda>h. at_location (gs_connections mg ! h) m l) (rev [0..<length cs])" for m l
    by (rule find_rev_upt_cong) (simp add: al)
  have i: "{h. h < length cs \<and> cn_module (cs ! h) = m} = {h. h < length cs \<and> cn_module (gs_connections mg ! h) = m}" for m
    using f(3) by auto
  show ?thesis using wf cw by (simp add: graph_wf_def Let_def o a i) (simp add: len)
qed

lemma apply_rewrite_ok:
  assumes wf: "graph_wf mg" and h: "h < length (gs_connections mg)" and m: "m < length (gs_modules mg)"
  shows "\<exists>mg'. apply_rewrite (h, m, y) mg = Some mg' \<and> graph_wf mg' \<and> gs_modules mg' = gs_modules mg \<and>
    mg_exports mg' = mg_exports mg \<and>
    gs_connections mg' = (gs_connections mg)[h := redirect (Some (h, m, y)) (gs_connections mg ! h)]"
proof -
  from graph_wf_update_connection_module [OF assms] obtain g where
    g: "update_connection_module h m mg = Some g" "graph_wf g" "gs_modules g = gs_modules mg"
      "mg_exports g = mg_exports mg"
      "gs_connections g = (gs_connections mg)[h := (gs_connections mg ! h)\<lparr>cn_module := m\<rparr>]" by blast
  let ?f = "\<lambda>c. c\<lparr>cn_dependency := rename_dependency y (cn_dependency c)\<rparr>"
  let ?cs = "(gs_connections g)[h := ?f (gs_connections g ! h)]"
  have "(?cs ! i)\<lparr>cn_dependency := NullDep, cn_state := Active\<rparr> =
      (gs_connections g ! i)\<lparr>cn_dependency := NullDep, cn_state := Active\<rparr>" for i
    using h g(5) by (cases "i = h") simp_all
  then have "graph_wf (g\<lparr>gs_connections := ?cs\<rparr>)"
    by (intro graph_wf_relabel [OF g(2), where d = NullDep and s = Active]) simp_all
  moreover have "modify_connection h ?f g = Some (g\<lparr>gs_connections := ?cs\<rparr>)"
    using h by (simp add: modify_connection_def g(5))
  ultimately show ?thesis using g h by (simp add: apply_rewrite_def redirect_def)
qed

lemma map_filter_append: "List.map_filter f (xs @ ys) = List.map_filter f xs @ List.map_filter f ys"
  by (simp add: List.map_filter_def)

lemma apply_rewrites:
  assumes wf: "graph_wf mg" and len: "length rs = length (gs_connections mg)"
    and ok: "\<And>i h m y. i < length rs \<Longrightarrow> rs ! i = Some (h, m, y) \<Longrightarrow> h = i \<and> m < length (gs_modules mg)"
    and k: "k \<le> length rs"
  shows "\<exists>mg'. fold_opt apply_rewrite (List.map_filter id (take k rs)) mg = Some mg' \<and> graph_wf mg' \<and>
    gs_modules mg' = gs_modules mg \<and> mg_exports mg' = mg_exports mg \<and>
    gs_connections mg' = map (\<lambda>i. redirect (if i < k then rs ! i else None) (gs_connections mg ! i))
      [0..<length (gs_connections mg)]"
  using k
proof (induction k)
  case 0
  have "map (\<lambda>i. gs_connections mg ! i) [0..<length (gs_connections mg)] = gs_connections mg" by (rule map_nth)
  then show ?case using wf by (simp add: redirect_def List.map_filter_def)
next
  case (Suc k)
  then have k: "k < length rs" by simp
  let ?now = "\<lambda>k. map (\<lambda>i. redirect (if i < k then rs ! i else None) (gs_connections mg ! i))
      [0..<length (gs_connections mg)]"
  have "k \<le> length rs" using Suc.prems by simp
  from Suc.IH [OF this] obtain g where
    g: "fold_opt apply_rewrite (List.map_filter id (take k rs)) mg = Some g" "graph_wf g"
      "gs_modules g = gs_modules mg" "mg_exports g = mg_exports mg" "gs_connections g = ?now k" by blast
  have split: "List.map_filter id (take (Suc k) rs) =
      List.map_filter id (take k rs) @ (case rs ! k of None \<Rightarrow> [] | Some r \<Rightarrow> [r])"
    using k by (simp add: take_Suc_conv_app_nth map_filter_append List.map_filter_def split: option.split)
  show ?case
  proof (cases "rs ! k")
    case None
    have now: "?now (Suc k) = ?now k" using None by (auto simp: less_Suc_eq)
    show ?thesis unfolding split None option.case append_Nil2 now using g by blast
  next
    case (Some r)
    obtain h m y where r: "r = (h, m, y)" by (cases r)
    with ok [OF k] Some have h: "h = k" "m < length (gs_modules mg)" by auto
    from apply_rewrite_ok [OF g(2), of k m y] k len g(3,5) h(2) obtain g' where
      g': "apply_rewrite (k, m, y) g = Some g'" "graph_wf g'" "gs_modules g' = gs_modules mg"
        "mg_exports g' = mg_exports mg"
        "gs_connections g' = (?now k)[k := redirect (Some (k, m, y)) (?now k ! k)]" by (auto simp: g(4))
    have "(?now k)[k := redirect (Some (k, m, y)) (?now k ! k)] = ?now (Suc k)"
      using k len Some r h(1)
      by (intro nth_equalityI) (auto simp: nth_list_update less_Suc_eq redirect_def)
    moreover have "fold_opt apply_rewrite (List.map_filter id (take (Suc k) rs)) mg = Some g'"
      unfolding split Some option.case fold_opt_append g(1) using g'(1) r h(1) by simp
    ultimately show ?thesis using g'(2-5) by metis
  qed
qed

section \<open>Which connections stay active\<close>

definition some_export_used :: "exports_info \<Rightarrow> bool" where
  "some_export_used info \<longleftrightarrow> ei_all_used info \<or> (\<exists>P. ei_used info = Some P \<and> P \<noteq> {})"

definition connection_needed :: "module_graph \<Rightarrow> connection \<Rightarrow> bool" where
  "connection_needed mg c \<longleftrightarrow> (case cn_dependency c of
      HarmonyImportSideEffect _ _ \<Rightarrow> \<not> pure_module mg (cn_module c) \<or>
        (\<exists>k \<in> set (gs_connections mg). cn_origin k = cn_origin c \<and> cn_origin c \<noteq> None \<and>
           cn_module k = cn_module c \<and> is_import_specifier (cn_dependency k))
    | HarmonyExportImportedSpecifier d \<Rightarrow>
        (\<exists>x m. heis_name d = Some x \<and> cn_origin c = Some m \<and> get_used_name (mg_exports mg ! m) x \<noteq> None) \<or>
        heis_is_star d \<and> some_export_used (mg_exports mg ! cn_module c)
    | _ \<Rightarrow> True)"

lemma se_connection_is_active_spec:
  assumes wf: "graph_wf mg" and len: "length (mg_exports mg) = length (gs_modules mg)"
    and c: "c \<in> set (gs_connections mg)"
  shows "se_connection_is_active mg c = Some (connection_needed mg c)"
proof -
  have t: "cn_module c < length (gs_modules mg)" by (rule graph_wf_target [OF wf c])
  have o: "m < length (gs_modules mg)" if "cn_origin c = Some m" for m
    using that c graph_wfD(4) [OF wf] by (auto simp: in_set_conv_nth connection_wf_def)
  have e: "graph_exports mg m = Some (mg_exports mg ! m)" if "m < length (gs_modules mg)" for m
    using that len by (simp add: graph_exports_def)
  have u: "module_exports_are_used mg (cn_module c) = Some (some_export_used (mg_exports mg ! cn_module c))"
    by (auto simp: module_exports_are_used_def e [OF t] some_export_used_def split: option.splits)
  have s: "module_has_side_effects mg (cn_module c) = Some (\<not> pure_module mg (cn_module c))"
    by (simp add: module_has_side_effects_def module_is_side_effect_free_spec [OF wf t])
  show ?thesis
  proof (cases "cn_dependency c")
    case (HarmonyImportSideEffect d v)
    then show ?thesis
      by (cases "cn_origin c")
        (auto simp: se_connection_is_active_def connection_needed_def s list_ex_iff outgoing_connections_spec [OF wf o])
  next
    case (HarmonyExportImportedSpecifier d)
    then show ?thesis
      by (cases "cn_origin c"; cases "heis_name d")
        (auto simp: se_connection_is_active_def connection_needed_def u e [OF o])
  qed (simp_all add: se_connection_is_active_def connection_needed_def)
qed

lemma set_states_connections:
  "length active = length (gs_connections mg) \<Longrightarrow> i < length (gs_connections mg) \<Longrightarrow>
     gs_connections (set_states active mg) ! i =
       (gs_connections mg ! i)\<lparr>cn_state := if active ! i then Active else Inactive\<rparr>"
  by (simp add: set_states_def)

lemma set_states_frame [simp]:
  "gs_modules (set_states active mg) = gs_modules mg" "mg_exports (set_states active mg) = mg_exports mg"
  by (simp_all add: set_states_def)

lemma set_states_ex:
  assumes "length active = length (gs_connections mg)" and "\<And>c s. P (c\<lparr>cn_state := s\<rparr>) = P c"
  shows "(\<exists>c \<in> set (gs_connections (set_states active mg)). P c) \<longleftrightarrow> (\<exists>c \<in> set (gs_connections mg). P c)"
proof -
  have "length (gs_connections (set_states active mg)) = length (gs_connections mg)"
    using assms(1) by (simp add: set_states_def)
  moreover have "P (gs_connections (set_states active mg) ! i) = P (gs_connections mg ! i)"
    if "i < length (gs_connections mg)" for i
    using that assms by (simp add: set_states_connections)
  moreover have "(\<exists>c \<in> set cs. P c) \<longleftrightarrow> (\<exists>i < length cs. P (cs ! i))" for cs by (metis in_set_conv_nth)
  ultimately show ?thesis by auto
qed

lemma needed_set_states:
  assumes "length active = length (gs_connections mg)"
  shows "connection_needed (set_states active mg) (c\<lparr>cn_state := s\<rparr>) = connection_needed mg c"
proof -
  have "se_edge (set_states active mg) = se_edge mg"
    unfolding se_edge_def by (intro ext set_states_ex [OF assms]) simp
  then have "pure_module (set_states active mg) m = pure_module mg m" for m
    by (simp add: pure_module_def flagged_free_def)
  then show ?thesis
    by (simp add: connection_needed_def set_states_ex [OF assms] cong: dependency.case_cong)
qed

theorem optimize_dependencies_spec:
  assumes wf: "graph_wf mg" and len: "length (mg_exports mg) = length (gs_modules mg)"
  shows "\<exists>mg'. optimize_dependencies mg = Some mg' \<and> graph_wf mg' \<and>
    gs_modules mg' = gs_modules mg \<and> mg_exports mg' = mg_exports mg \<and>
    length (gs_connections mg') = length (gs_connections mg) \<and>
    (\<forall>i < length (gs_connections mg). \<exists>r.
       (\<forall>q. r = Some q \<longrightarrow> rewrite_ok mg (gs_connections mg ! i) q) \<and>
       gs_connections mg' ! i = (redirect r (gs_connections mg ! i))
         \<lparr>cn_state := if connection_needed mg' (gs_connections mg' ! i) then Active else Inactive\<rparr>)"
proof -
  let ?n = "length (gs_connections mg)"
  from map_opt_exists [of "gs_connections mg" "connection_rewrite mg"] connection_rewrite_ok [OF wf]
  obtain rs where rs: "map_opt (connection_rewrite mg) (gs_connections mg) = Some rs" by meson
  have rl: "length rs = ?n" by (rule map_opt_length [OF rs])
  have ri: "rewrite_ok mg (gs_connections mg ! i) q" if "i < ?n" "rs ! i = Some q" for i q
  proof -
    from connection_rewrite_ok [OF wf, of "gs_connections mg ! i"] that(1) obtain r where
      "connection_rewrite mg (gs_connections mg ! i) = Some r"
      "\<forall>q. r = Some q \<longrightarrow> rewrite_ok mg (gs_connections mg ! i) q" by (meson nth_mem)
    with map_opt_nth [OF rs that(1)] that(2) show ?thesis by simp
  qed
  have ok: "h = i \<and> m < length (gs_modules mg)" if "i < length rs" "rs ! i = Some (h, m, y)" for i h m y
    using ri [of i "(h, m, y)"] that rl graph_wfD(4) [OF wf, of i] by (simp add: rewrite_ok_def connection_wf_def)
  have "\<exists>g. fold_opt apply_rewrite (List.map_filter id (take (length rs) rs)) mg = Some g \<and> graph_wf g \<and>
    gs_modules g = gs_modules mg \<and> mg_exports g = mg_exports mg \<and>
    gs_connections g = map (\<lambda>i. redirect (if i < length rs then rs ! i else None) (gs_connections mg ! i)) [0..<?n]"
    by (rule apply_rewrites [OF wf rl]) (use ok in blast)+
  moreover have "map (\<lambda>i. redirect (if i < length rs then rs ! i else None) (gs_connections mg ! i)) [0..<?n] =
      map (\<lambda>i. redirect (rs ! i) (gs_connections mg ! i)) [0..<?n]"
    by (rule map_cong) (simp_all add: rl)
  ultimately obtain g where
    g: "fold_opt apply_rewrite (List.map_filter id rs) mg = Some g" "graph_wf g" "gs_modules g = gs_modules mg"
      "mg_exports g = mg_exports mg"
      "gs_connections g = map (\<lambda>i. redirect (rs ! i) (gs_connections mg ! i)) [0..<?n]"
    unfolding take_all [OF order_refl] by metis
  have lg: "length (mg_exports g) = length (gs_modules g)" using g len by simp
  let ?act = "map (connection_needed g) (gs_connections g)"
  let ?mg' = "set_states ?act g"
  have a: "map_opt (se_connection_is_active g) (gs_connections g) = Some ?act"
    by (rule map_opt_total) (rule se_connection_is_active_spec [OF g(2) lg])
  have la: "length ?act = length (gs_connections g)" by simp
  have nth: "gs_connections ?mg' ! i = (gs_connections g ! i)
      \<lparr>cn_state := if connection_needed g (gs_connections g ! i) then Active else Inactive\<rparr>" if "i < ?n" for i
    using set_states_connections [OF la, of i] that g(5) by simp
  have "graph_wf ?mg'"
    unfolding set_states_def
    by (rule graph_wf_relabel [OF g(2), where d = NullDep and s = Active]) simp_all
  moreover have "optimize_dependencies mg = Some ?mg'"
    using rs g(1) a by (simp add: optimize_dependencies_def)
  moreover have "length (gs_connections ?mg') = ?n" using g(5) by (simp add: set_states_def)
  moreover have "\<exists>r. (\<forall>q. r = Some q \<longrightarrow> rewrite_ok mg (gs_connections mg ! i) q) \<and>
       gs_connections ?mg' ! i = (redirect r (gs_connections mg ! i))
         \<lparr>cn_state := if connection_needed ?mg' (gs_connections ?mg' ! i) then Active else Inactive\<rparr>" if i: "i < ?n" for i
  proof (intro exI [of _ "rs ! i"] conjI allI impI)
    show "rewrite_ok mg (gs_connections mg ! i) q" if "rs ! i = Some q" for q by (rule ri [OF i that])
    show "gs_connections ?mg' ! i = (redirect (rs ! i) (gs_connections mg ! i))
         \<lparr>cn_state := if connection_needed ?mg' (gs_connections ?mg' ! i) then Active else Inactive\<rparr>"
      unfolding nth [OF i] needed_set_states [OF la] using i g(5) by simp
  qed
  ultimately show ?thesis using g(3,4) by (intro exI [of _ ?mg']) simp
qed

section \<open>Redirected imports keep their binding\<close>

fun requested_export :: "dependency \<Rightarrow> string option" where
  "requested_export (HarmonyImportSpecifier d) = first_id (his_ids d)"
| "requested_export (HarmonyExportImportedSpecifier d) = first_id (heis_ids d)"
| "requested_export _ = None"

lemma requested_rename:
  "requested_export d \<noteq> None \<Longrightarrow> requested_export (rename_dependency y d) = Some y"
  by (cases d) (auto simp: first_id_def rename_first_def split: list.splits)

lemma redirect_binding:
  assumes wf: "graph_wf mg" and pl: "plain_reexports mg" and x: "requested_export (cn_dependency c) = Some x"
    and r: "\<And>q. r = Some q \<Longrightarrow> rewrite_ok mg c q"
  shows "\<exists>y. requested_export (cn_dependency (redirect r c)) = Some y \<and>
    (\<forall>b. bound_to mg (cn_module c) x b \<longleftrightarrow> bound_to mg (cn_module (redirect r c)) y b)"
proof (cases r)
  case (Some q)
  obtain h m y where q: "q = (h, m, y)" by (cases q)
  with r [OF Some] obtain x' where f: "(follows mg)\<^sup>+\<^sup>+ (cn_module c, x') (m, y)"
    "\<forall>d. cn_dependency c = HarmonyImportSpecifier d \<longrightarrow> first_id (his_ids d) = Some x'"
    "\<forall>d. cn_dependency c = HarmonyExportImportedSpecifier d \<longrightarrow> first_id (heis_ids d) = Some x'"
    by (auto simp: rewrite_ok_def)
  from f(2,3) x have "x' = x" by (cases "cn_dependency c") auto
  with follows_chain_bound [OF f(1) wf pl] x Some q show ?thesis
    by (simp add: redirect_def requested_rename)
qed (use x in \<open>simp add: redirect_def\<close>)

lemma optimize_binding:
  assumes wf: "graph_wf mg" and len: "length (mg_exports mg) = length (gs_modules mg)" and pl: "plain_reexports mg"
  shows "\<exists>mg'. optimize_dependencies mg = Some mg' \<and>
    (\<forall>i < length (gs_connections mg). \<forall>x. requested_export (cn_dependency (gs_connections mg ! i)) = Some x \<longrightarrow>
       (\<exists>y. requested_export (cn_dependency (gs_connections mg' ! i)) = Some y \<and>
          (\<forall>b. bound_to mg (cn_module (gs_connections mg ! i)) x b \<longleftrightarrow>
               bound_to mg (cn_module (gs_connections mg' ! i)) y b)))"
proof -
  from optimize_dependencies_spec [OF wf len] obtain mg' where
    o: "optimize_dependencies mg = Some mg'"
    and r: "\<And>i. i < length (gs_connections mg) \<Longrightarrow> \<exists>r. (\<forall>q. r = Some q \<longrightarrow> rewrite_ok mg (gs_connections mg ! i) q) \<and>
       gs_connections mg' ! i = (redirect r (gs_connections mg ! i))
         \<lparr>cn_state := if connection_needed mg' (gs_connections mg' ! i) then Active else Inactive\<rparr>" by blast
  have "\<exists>y. requested_export (cn_dependency (gs_connections mg' ! i)) = Some y \<and>
      (\<forall>b. bound_to mg (cn_module (gs_connections mg ! i)) x b \<longleftrightarrow>
           bound_to mg (cn_module (gs_connections mg' ! i)) y b)"
    if "i < length (gs_connections mg)" "requested_export (cn_dependency (gs_connections mg ! i)) = Some x" for i x
  proof -
    from r [OF that(1)] obtain ri where
      ri: "\<And>q. ri = Some q \<Longrightarrow> rewrite_ok mg (gs_connections mg ! i) q"
      and e: "gs_connections mg' ! i = (redirect ri (gs_connections mg ! i))
         \<lparr>cn_state := if connection_needed mg' (gs_connections mg' ! i) then Active else Inactive\<rparr>" by blast
    have "cn_dependency (gs_connections mg' ! i) = cn_dependency (redirect ri (gs_connections mg ! i))"
      "cn_module (gs_connections mg' ! i) = cn_module (redirect ri (gs_connections mg ! i))"
      by (subst e, simp)+
    with redirect_binding [OF wf pl that(2) ri] show ?thesis by simp
  qed
  with o show ?thesis by blast
qed

end
