(* ===== verification/Export_Samples.thy ===== *)
theory Export_Samples
  imports Samples Side_Effects
begin

text \<open>
  A second small program, with re-exports: \<open>app\<close> imports \<open>y\<close> from \<open>barrel\<close>, which exports the
  \<open>x\<close> of \<open>lib\<close> as \<open>y\<close> and everything of \<open>other\<close>; \<open>barrel\<close>, \<open>lib\<close> and \<open>other\<close> have no side effects.
\<close>

definition pure_content :: "dependency list \<Rightarrow> built_content" where
  "pure_content deps = sample_content deps [] \<lparr>bc_parsed := default_parsed_module
     \<lparr>pm_block := \<lparr>db_dependencies = deps, db_blocks = []\<rparr>,
      pm_build_meta := \<lparr>bm_side_effect_free = Some True, bm_uses_direct_eval = False\<rparr>\<rparr>\<rparr>"

definition import_name :: "string \<Rightarrow> string \<Rightarrow> nat \<Rightarrow> dependency" where
  "import_name request x i = HarmonyImportSpecifier \<lparr>his_module = new_module_dependency request (Some i),
     his_ids = [x], his_name = x, his_usage_range = range_new 0 1, his_shorthand = False\<rparr>"

definition reexport_name :: "string \<Rightarrow> string \<Rightarrow> string \<Rightarrow> nat \<Rightarrow> dependency" where
  "reexport_name request x y i = HarmonyExportImportedSpecifier
     \<lparr>heis_module = new_module_dependency request (Some i), heis_ids = [x], heis_name = Some y, heis_is_star = False\<rparr>"

definition reexport_star :: "string \<Rightarrow> nat \<Rightarrow> dependency" where
  "reexport_star request i = HarmonyExportImportedSpecifier
     \<lparr>heis_module = new_module_dependency request (Some i), heis_ids = [], heis_name = None, heis_is_star = True\<rparr>"

definition barrel_contents :: "(nat \<times> built_content) list" where
  "barrel_contents =
     [(0, sample_content [static_import ''./barrel'' 0, import_name ''./barrel'' ''y'' 0] []),
      (1, pure_content [static_import ''./lib'' 0, reexport_name ''./lib'' ''x'' ''y'' 0,
            static_import ''./other'' 1, reexport_star ''./other'' 1]),
      (2, pure_content [HarmonyExportSpecifier ''x'' ''x'', HarmonyExportSpecifier ''z'' ''z'']),
      (3, pure_content [HarmonyExportSpecifier ''w'' ''w''])]"

definition barrel_edges :: "(nat option \<times> nat option \<times> nat option \<times> dependency \<times> nat) list" where
  "barrel_edges =
     [(None, None, None, Entry (new_module_dependency ''./app'' None), 0),
      (Some 0, None, Some 0, static_import ''./barrel'' 0, 1),
      (Some 0, None, Some 1, import_name ''./barrel'' ''y'' 0, 1),
      (Some 1, None, Some 0, static_import ''./lib'' 0, 2),
      (Some 1, None, Some 1, reexport_name ''./lib'' ''x'' ''y'' 0, 2),
      (Some 1, None, Some 2, static_import ''./other'' 1, 3),
      (Some 1, None, Some 3, reexport_star ''./other'' 1, 3)]"

definition barrel_modules :: graph_storage where
  "barrel_modules = fold (\<lambda>nm g. fst (add_module no_json (sample_identity nm) None g))
     [''app'', ''barrel'', ''lib'', ''other''] empty_graph"

definition barrel_storage :: "graph_storage option" where
  "barrel_storage = do {
     g \<leftarrow> fold_opt (\<lambda>(h, c) g. (case finish_module_build h c g of Inl _ \<Rightarrow> None | Inr g' \<Rightarrow> Some g'))
       barrel_contents barrel_modules;
     fold_opt (\<lambda>(orig, b, i, d, m) g. connect orig b i d m g) barrel_edges g }"

definition barrel_graph :: module_graph where
  "barrel_graph = finish (the barrel_storage)"

lemma barrel_size: "map_option (\<lambda>g. length (gs_modules g)) barrel_storage = Some 4"
  by code_simp

lemma barrel_storage_built:
  assumes "barrel_storage = Some g"
  shows "built_graph g"
proof -
  from assms obtain g0 where
    g0: "fold_opt (\<lambda>(h, c) g. (case finish_module_build h c g of Inl _ \<Rightarrow> None | Inr g' \<Rightarrow> Some g'))
       barrel_contents barrel_modules = Some g0"
    and g: "fold_opt (\<lambda>(orig, b, i, d, m) g. connect orig b i d m g) barrel_edges g0 = Some g"
    by (auto simp: barrel_storage_def bind_eq_Some_conv)
  have add: "built_graph (fst (add_module js i s g))" if "built_graph g" for js i s g
    by (rule built_step [OF that building_step.add [of js i s g _ "snd (add_module js i s g)"]]) simp
  have "built_graph barrel_modules" by (simp add: barrel_modules_def built_graph_def [of empty_graph] add)
  with g0 have "built_graph g0"
    by (rule fold_opt_keeps [where P = built_graph])
      (auto split: prod.splits sum.splits intro: built_step building_step.done_build)
  with g show ?thesis
    by (rule fold_opt_keeps [where P = built_graph])
      (auto split: prod.splits intro: built_step building_step.conn)
qed

lemma barrel_graph_wf: "graph_wf barrel_graph" and barrel_graph_size: "length (gs_modules barrel_graph) = 4"
  and barrel_exports_size: "length (mg_exports barrel_graph) = length (gs_modules barrel_graph)"
proof -
  from barrel_size obtain g where g: "barrel_storage = Some g" "length (gs_modules g) = 4" by auto
  then have e: "barrel_graph = finish g" by (simp only: barrel_graph_def g(1) option.sel)
  moreover have "gs_modules (finish g) = gs_modules g" by (simp add: finish_def)
  ultimately show "graph_wf barrel_graph" "length (gs_modules barrel_graph) = 4"
    using graph_wf_finish [OF built_graph_wf [OF barrel_storage_built [OF g(1)]]] g(2) by simp_all
  show "length (mg_exports barrel_graph) = length (gs_modules barrel_graph)" by (simp add: e finish_def)
qed

text \<open>With the provided exports flagged.\<close>

definition barrel_flagged :: module_graph where
  "barrel_flagged = barrel_graph\<lparr>mg_exports := map provided_exports (gs_modules barrel_graph)\<rparr>"

lemma barrel_flagged_wf: "graph_wf barrel_flagged"
  by (rule graph_wf_cong [OF barrel_graph_wf]) (simp_all add: barrel_flagged_def)

lemma barrel_flagged_size: "length (gs_modules barrel_flagged) = 4"
  and barrel_flagged_exports: "length (mg_exports barrel_flagged) = length (gs_modules barrel_flagged)"
  by (simp_all add: barrel_flagged_def barrel_graph_size)

lemma barrel_identities: "distinct (map m_identity (gs_modules barrel_graph))"
  by code_simp

lemma barrel_exports_ok: "exports_ok barrel_flagged"
  unfolding barrel_flagged_def by (rule provided_exports_ok)

lemma barrel_stars: "stars_plain barrel_flagged"
proof -
  have "list_all (\<lambda>c. case cn_dependency c of HarmonyExportImportedSpecifier d \<Rightarrow> heis_is_star d \<longrightarrow> heis_ids d = []
      | _ \<Rightarrow> True) (gs_connections barrel_flagged)" by code_simp
  then show ?thesis unfolding stars_plain_def list_all_iff by (auto dest!: bspec split: dependency.splits)
qed

section \<open>Its re-exports are plain\<close>

fun is_local_export :: "dependency \<Rightarrow> bool" where
  "is_local_export (HarmonyExportSpecifier _ _) = True"
| "is_local_export (HarmonyExportExpression _) = True"
| "is_local_export _ = False"

definition no_locals :: "module_graph \<Rightarrow> nat \<Rightarrow> bool" where
  "no_locals mg m \<longleftrightarrow> (case pm_data (m_parsed (gs_modules mg ! m)) of
     PJavaScript \<Rightarrow> list_all (\<lambda>d. \<not> is_local_export d) (m_dependencies (gs_modules mg ! m)) | _ \<Rightarrow> False)"

lemma no_locals: "no_locals mg m \<Longrightarrow> \<not> exports_locally mg m x"
proof -
  have "local_export x d \<Longrightarrow> is_local_export d" for d by (cases d) auto
  then show "no_locals mg m \<Longrightarrow> \<not> exports_locally mg m x"
    by (auto simp: no_locals_def exports_locally_def list_all_iff list_ex_iff split: parsed_module_data.splits)
qed

definition reexport_check :: "module_graph \<Rightarrow> connection \<Rightarrow> bool" where
  "reexport_check mg c \<longleftrightarrow> (case (cn_origin c, cn_dependency c) of
     (Some m, HarmonyExportImportedSpecifier d) \<Rightarrow>
       (case heis_name d of None \<Rightarrow> True | Some x \<Rightarrow> heis_ids d \<noteq> [] \<and> \<not> exports_locally mg m x \<and>
          list_all (\<lambda>c'. cn_origin c' = Some m \<longrightarrow> names_export x (cn_dependency c') \<longrightarrow> cn_handle c' = cn_handle c)
            (gs_connections mg)) \<and>
       (heis_is_star d \<longrightarrow> no_locals mg m)
   | _ \<Rightarrow> True)"

lemma plain_reexports_check:
  assumes "list_all (reexport_check mg) (gs_connections mg)"
  shows "plain_reexports mg"
  unfolding plain_reexports_def
proof (intro ballI allI impI)
  fix c m assume c: "c \<in> set (gs_connections mg)" "cn_origin c = Some m"
  from assms c(1) have chk: "reexport_check mg c" by (simp add: list_all_iff)
  show "(\<forall>x. names_export x (cn_dependency c) \<longrightarrow> reexport_ids (cn_dependency c) \<noteq> [] \<and> \<not> exports_locally mg m x \<and>
      (\<forall>c' \<in> set (gs_connections mg). cn_origin c' = Some m \<longrightarrow> names_export x (cn_dependency c') \<longrightarrow> cn_handle c' = cn_handle c)) \<and>
    (is_star_export (cn_dependency c) \<longrightarrow> (\<forall>x. \<not> exports_locally mg m x))"
    using chk c(2) by (cases "cn_dependency c") (auto simp: reexport_check_def list_all_iff dest: no_locals)
qed

lemma barrel_plain: "plain_reexports barrel_flagged"
  by (rule plain_reexports_check) code_simp

end
