(* ===== verification/Runtime_Trees.thy ===== *)
theory Runtime_Trees
  imports Chunk_Graph Graph_Search
begin

text \<open>
  What \<open>ChunkGraph::set_module_runtime_requirements\<close> computes: the requirements of a chunk are
  those of its modules, and those of an entrypoint the ones of every chunk it can load over the
  runtime edges, closed under the prerequisites of runtime modules.
\<close>

section \<open>The runtime edges as a searched graph\<close>

definition runtime_successors :: "chunk_graph \<Rightarrow> nat \<Rightarrow> nat list" where
  "runtime_successors g gr = (if gr < length (cg_runtime_children g) then cg_runtime_children g ! gr else [])"

interpretation runtime_walk: graph_search sizes_ok "\<lambda>g. length (cg_groups g)" runtime_successors
  by standard (auto simp: runtime_successors_def sizes_ok_def)

text \<open>What the chunks of a group require.\<close>

definition group_needs :: "chunk_graph \<Rightarrow> nat \<Rightarrow> requirement set" where
  "group_needs g gr = (\<Union>c \<in> set (gr_chunks (cg_groups g ! gr)). req_set (cg_chunk_reqs g ! c))"

definition reqs_valid :: "chunk_graph \<Rightarrow> bool" where
  "reqs_valid g \<longleftrightarrow> (\<forall>r \<in> set (cg_chunk_reqs g) \<union> set (cg_module_reqs g). req_valid r)"

lemma fold_requirements:
  assumes "\<forall>c \<in> set cs. c < length rs" and "\<forall>r \<in> set rs. req_valid r" and "req_valid acc"
  shows "\<exists>out. fold_opt (\<lambda>c acc. do { r \<leftarrow> vec_get rs c; Some (req_extend r acc) }) cs acc = Some out \<and>
    req_valid out \<and> req_set out = req_set acc \<union> (\<Union>c \<in> set cs. req_set (rs ! c))"
  using assms
proof (induction cs arbitrary: acc)
  case Nil
  then show ?case by simp
next
  case (Cons c cs)
  then have "req_valid (req_extend (rs ! c) acc)" by (simp add: req_valid_extend)
  with Cons.IH [of "req_extend (rs ! c) acc"] Cons.prems show ?case
    by (auto simp: req_set_extend Un_assoc)
qed

definition tree_inv :: "chunk_graph \<Rightarrow> nat \<Rightarrow> tree_walk \<Rightarrow> bool" where
  "tree_inv g entry = (\<lambda>(pending, visited, reqs).
     runtime_walk.walk_ok g entry pending visited \<and> req_valid reqs \<and>
     req_set reqs = (\<Union>gr \<in> visited. group_needs g gr))"

lemma tree_step_ok:
  assumes wf: "chunk_graph_wf g" and rv: "reqs_valid g"
    and inv: "tree_inv g entry (gr # pending, visited, reqs)"
  shows "\<exists>p' v' r'. tree_step g (gr # pending, visited, reqs) = Some (p', v', r') \<and>
     tree_inv g entry (p', v', r') \<and> ((p', v'), (gr # pending, visited)) \<in> runtime_walk.walk_order g"
proof (cases "gr \<in> visited")
  case True
  with inv runtime_walk.walk_skip [of g entry gr pending visited] show ?thesis
    by (simp add: tree_inv_def tree_step_def)
next
  case False
  from wf have sz: "sizes_ok g" by (simp add: chunk_graph_wf_def)
  from inv have ok: "runtime_walk.walk_ok g entry (gr # pending) visited" by (simp add: tree_inv_def)
  then have gr: "gr < length (cg_groups g)" using runtime_walk.walk_range by fastforce
  with sz have rc: "vec_get (cg_runtime_children g) gr = Some (runtime_successors g gr)"
    by (simp add: runtime_successors_def sizes_ok_def)
  have "\<forall>c \<in> set (gr_chunks (cg_groups g ! gr)). c < length (cg_chunk_reqs g)"
    using group_chunk_range [OF wf gr] sz by (simp add: sizes_ok_def)
  from fold_requirements [OF this, of reqs] rv inv obtain out where
    f: "fold_opt (\<lambda>c acc. do { r \<leftarrow> vec_get (cg_chunk_reqs g) c; Some (req_extend r acc) })
          (gr_chunks (cg_groups g ! gr)) reqs = Some out" "req_valid out"
       "req_set out = req_set reqs \<union> group_needs g gr"
    by (auto simp: reqs_valid_def tree_inv_def group_needs_def)
  have "tree_step g (gr # pending, visited, reqs) =
      Some (rev (runtime_successors g gr) @ pending, insert gr visited, out)"
    using False gr rc f(1) by (simp add: tree_step_def)
  moreover from runtime_walk.walk_visit [OF ok False, of "rev (runtime_successors g gr) @ pending"] f inv
  have "tree_inv g entry (rev (runtime_successors g gr) @ pending, insert gr visited, out)"
    and "((rev (runtime_successors g gr) @ pending, insert gr visited), (gr # pending, visited)) \<in> runtime_walk.walk_order g"
    by (auto simp: tree_inv_def)
  ultimately show ?thesis by blast
qed

lemma tree_requirements_spec:
  assumes wf: "chunk_graph_wf g" and rv: "reqs_valid g" and e: "entry < length (cg_groups g)"
  shows "\<exists>reqs. tree_requirements g entry = Some reqs \<and> req_valid reqs \<and>
    req_set reqs = (\<Union>gr \<in> runtime_walk.reach g entry. group_needs g gr) \<union> req_set entry_startup_requirements"
proof -
  let ?r = "inv_image (runtime_walk.walk_order g) (\<lambda>(p, v, _ :: requirements). (p, v))"
  have "\<exists>t. loop_opt (\<lambda>(pending, _, _). pending \<noteq> []) (tree_step g) ([entry], {}, 0) = Some t \<and>
      tree_inv g entry t \<and> \<not> (\<lambda>(pending, _, _). pending \<noteq> []) t"
  proof (rule loop_opt_rule [where r = ?r])
    show "tree_inv g entry ([entry], {}, 0)"
      using runtime_walk.walk_start [of g entry] wf e by (simp add: tree_inv_def chunk_graph_wf_def)
    show "wf ?r" by (intro wf_inv_image runtime_walk.wf_walk_order)
    fix s assume "tree_inv g entry s" "(\<lambda>(pending, _, _). pending \<noteq> []) s"
    moreover obtain gr pending visited reqs where "s = (gr # pending, visited, reqs)"
      using \<open>(\<lambda>(pending, _, _). pending \<noteq> []) s\<close> by (cases s; cases "fst s") auto
    ultimately show "\<exists>t. tree_step g s = Some t \<and> tree_inv g entry t \<and> (t, s) \<in> ?r"
      using tree_step_ok [OF wf rv, of entry gr pending visited reqs] by auto
  qed
  then obtain visited reqs where
    l: "loop_opt (\<lambda>(pending, _, _). pending \<noteq> []) (tree_step g) ([entry], {}, 0) = Some ([], visited, reqs)"
    and inv: "tree_inv g entry ([], visited, reqs)" by auto
  from inv have "visited = runtime_walk.reach g entry"
    by (auto simp: tree_inv_def dest: runtime_walk.walk_done)
  with inv have rs: "req_valid reqs" "req_set reqs = (\<Union>gr \<in> runtime_walk.reach g entry. group_needs g gr)"
    by (auto simp: tree_inv_def)
  have "tree_requirements g entry = Some (req_extend entry_startup_requirements reqs)"
    using l by (simp add: tree_requirements_def)
  with rs show ?thesis
    by (auto simp: req_set_extend intro: req_valid_extend req_valid_entry_startup)
qed

section \<open>The whole computation\<close>

text \<open>What a list of module requirements finally says of a module.\<close>

definition assigned_reqs :: "(nat \<times> requirements) list \<Rightarrow> nat \<Rightarrow> requirements" where
  "assigned_reqs mrs m = (case find (\<lambda>p. fst p = m) (rev mrs) of Some p \<Rightarrow> snd p | None \<Rightarrow> 0)"

lemma assigned_reqs_snoc: "assigned_reqs (mrs @ [(k, r)]) m = (if m = k then r else assigned_reqs mrs m)"
  by (simp add: assigned_reqs_def)

lemma assigned_reqs_valid: "(\<forall>(m, r) \<in> set mrs. req_valid r) \<Longrightarrow> req_valid (assigned_reqs mrs m)"
proof (induction mrs rule: rev_induct)
  case Nil
  then show ?case by (simp add: assigned_reqs_def)
next
  case (snoc p mrs)
  then show ?case by (cases p) (auto simp: assigned_reqs_snoc)
qed

lemma fold_assign:
  assumes "\<forall>(m, r) \<in> set mrs. m < n"
  shows "fold_opt (\<lambda>(m, r) v. vec_modify m (\<lambda>_. r) v) mrs (replicate n 0) =
     Some (map (assigned_reqs mrs) [0..<n])"
  using assms
proof (induction mrs rule: rev_induct)
  case Nil
  show ?case by (simp add: assigned_reqs_def map_replicate_const)
next
  case (snoc p mrs)
  obtain k r where p: "p = (k, r)" by (cases p)
  have "(map (assigned_reqs mrs) [0..<n])[k := r] = map (assigned_reqs (mrs @ [(k, r)])) [0..<n]"
    by (rule nth_equalityI) (auto simp: assigned_reqs_snoc nth_list_update)
  with snoc p show ?case by (simp add: fold_opt_append)
qed

definition chunk_reqs_of :: "chunk_graph \<Rightarrow> nat \<Rightarrow> requirements" where
  "chunk_reqs_of g c = the (chunk_requirements g c)"

lemma chunk_requirements_spec:
  assumes wf: "chunk_graph_wf g" and c: "c < length (cg_chunks g)"
    and len: "length (cg_module_reqs g) = length (cg_module_chunks g)"
    and rv: "\<forall>r \<in> set (cg_module_reqs g). req_valid r"
  shows "chunk_requirements g c = Some (chunk_reqs_of g c) \<and> req_valid (chunk_reqs_of g c) \<and>
    req_set (chunk_reqs_of g c) = (\<Union>m \<in> set (cg_chunk_modules g ! c). req_set (cg_module_reqs g ! m))"
proof -
  from wf have sz: "length (cg_chunk_modules g) = length (cg_chunks g)"
    and lk: "linked (cg_chunk_modules g) (cg_module_chunks g)"
    by (simp_all add: chunk_graph_wf_def sizes_ok_def modules_linked_def)
  have "\<forall>m \<in> set (cg_chunk_modules g ! c). m < length (cg_module_reqs g)"
    using linkedD(1) [OF lk, of c] c sz len by simp
  from fold_requirements [OF this rv, of 0] c sz show ?thesis
    by (auto simp: chunk_requirements_def chunk_reqs_of_def)
qed

definition set_chunk_step :: "nat \<Rightarrow> chunk_graph \<Rightarrow> chunk_graph option" where
  "set_chunk_step c g = do {
     r \<leftarrow> chunk_requirements g c;
     crs \<leftarrow> vec_modify c (\<lambda>_. r) (cg_chunk_reqs g);
     rms \<leftarrow> vec_modify c (\<lambda>_. []) (cg_runtime_modules g);
     Some (g\<lparr>cg_chunk_reqs := crs, cg_runtime_modules := rms\<rparr>) }"

lemma chunk_reqs_of_frame [simp]: "chunk_reqs_of (g\<lparr>cg_chunk_reqs := x, cg_runtime_modules := y\<rparr>) c = chunk_reqs_of g c"
  by (simp add: chunk_reqs_of_def chunk_requirements_def)

lemma fold_set_chunk:
  assumes "chunk_graph_wf g" and "\<forall>c \<in> set cs. c < length (cg_chunks g)"
    and "length (cg_module_reqs g) = length (cg_module_chunks g)"
    and "\<forall>r \<in> set (cg_module_reqs g). req_valid r"
  shows "\<exists>crs rms. fold_opt set_chunk_step cs g = Some (g\<lparr>cg_chunk_reqs := crs, cg_runtime_modules := rms\<rparr>) \<and>
     length crs = length (cg_chunks g) \<and> length rms = length (cg_chunks g) \<and>
     (\<forall>c < length (cg_chunks g). crs ! c = (if c \<in> set cs then chunk_reqs_of g c else cg_chunk_reqs g ! c))"
  using assms
proof (induction cs arbitrary: g)
  case Nil
  then show ?case
    by (intro exI [of _ "cg_chunk_reqs g"] exI [of _ "cg_runtime_modules g"])
      (simp add: chunk_graph_wf_def sizes_ok_def)
next
  case (Cons c cs)
  from Cons.prems have sz: "length (cg_chunk_reqs g) = length (cg_chunks g)"
    "length (cg_runtime_modules g) = length (cg_chunks g)" and c: "c < length (cg_chunks g)"
    by (simp_all add: chunk_graph_wf_def sizes_ok_def)
  let ?g = "g\<lparr>cg_chunk_reqs := (cg_chunk_reqs g)[c := chunk_reqs_of g c],
              cg_runtime_modules := (cg_runtime_modules g)[c := []]\<rparr>"
  from chunk_requirements_spec [OF Cons.prems(1) c Cons.prems(3,4)] sz c
  have s: "set_chunk_step c g = Some ?g" by (simp add: set_chunk_step_def)
  have "chunk_graph_wf ?g"
    using Cons.prems(1) by (simp add: chunk_graph_wf_def sizes_ok_def groups_linked_def modules_linked_def tree_linked_def)
  from Cons.IH [OF this] Cons.prems obtain crs rms where
    f: "fold_opt set_chunk_step cs ?g = Some (g\<lparr>cg_chunk_reqs := crs, cg_runtime_modules := rms\<rparr>)"
    "length crs = length (cg_chunks g)" "length rms = length (cg_chunks g)"
    "\<forall>k < length (cg_chunks g). crs ! k = (if k \<in> set cs then chunk_reqs_of g k else cg_chunk_reqs ?g ! k)"
    by auto
  have "crs ! k = (if k \<in> set (c # cs) then chunk_reqs_of g k else cg_chunk_reqs g ! k)"
    if "k < length (cg_chunks g)" for k
    using f(4) that sz c by (auto simp: nth_list_update)
  moreover have "fold_opt set_chunk_step (c # cs) g = Some (g\<lparr>cg_chunk_reqs := crs, cg_runtime_modules := rms\<rparr>)"
    using s f(1) by simp
  ultimately show ?case using f(2,3) by blast
qed

lemma tree_requirements_frame [simp]:
  "tree_requirements (g\<lparr>cg_runtime_modules := x, cg_tree_reqs := y\<rparr>) e = tree_requirements g e"
proof -
  have "tree_step (g\<lparr>cg_runtime_modules := x, cg_tree_reqs := y\<rparr>) = tree_step g"
    by (intro ext, rename_tac s, case_tac s, case_tac "fst s") (simp_all add: tree_step_def)
  then show ?thesis by (simp add: tree_requirements_def)
qed

definition entries_have_chunks :: "chunk_graph \<Rightarrow> bool" where
  "entries_have_chunks g \<longleftrightarrow> (\<forall>e \<in> set (cg_entrypoints g). gr_chunks (cg_groups g ! e) \<noteq> [])"

definition entry_reqs :: "chunk_graph \<Rightarrow> nat \<Rightarrow> requirement set" where
  "entry_reqs g e = needed ((\<Union>gr \<in> runtime_walk.reach g e. group_needs g gr) \<union> req_set entry_startup_requirements)"

lemma set_entry_requirements_spec:
  assumes wf: "chunk_graph_wf g" and rv: "reqs_valid g" and e: "e < length (cg_groups g)"
    and ne: "gr_chunks (cg_groups g ! e) \<noteq> []"
    and rm: "length rm = length (cg_chunks g)"
  shows "\<exists>rms processed. set_entry_requirements e (g\<lparr>cg_runtime_modules := rm, cg_tree_reqs := tr\<rparr>) =
      Some (g\<lparr>cg_runtime_modules := rms, cg_tree_reqs := tr(e \<mapsto> processed)\<rparr>) \<and>
    length rms = length rm \<and> req_set processed = entry_reqs g e"
proof -
  from tree_requirements_spec [OF wf rv e] obtain reqs where r: "tree_requirements g e = Some reqs" "req_valid reqs"
    "req_set reqs = (\<Union>gr \<in> runtime_walk.reach g e. group_needs g gr) \<union> req_set entry_startup_requirements" by blast
  from resolve_runtime_modules_total [OF r(2)] obtain rs ms where
    m: "resolve_runtime_modules reqs = Some (rs, ms)" "req_set rs = needed (req_set reqs)" by blast
  from ne obtain c cs where c: "gr_chunks (cg_groups g ! e) = c # cs" by (cases "gr_chunks (cg_groups g ! e)") auto
  then have "c < length (cg_chunks g)" using group_chunk_range [OF wf e, of c] by simp
  with r m c e rm have
    "set_entry_requirements e (g\<lparr>cg_runtime_modules := rm, cg_tree_reqs := tr\<rparr>) =
      Some (g\<lparr>cg_runtime_modules := rm[c := ms], cg_tree_reqs := tr(e \<mapsto> rs)\<rparr>)"
    by (simp add: set_entry_requirements_def)
  with r(3) m(2) show ?thesis
    by (intro exI [of _ "rm[c := ms]"] exI [of _ rs]) (simp add: entry_reqs_def)
qed

lemma fold_entry_requirements:
  assumes wf: "chunk_graph_wf g" and rv: "reqs_valid g"
    and es: "\<forall>e \<in> set es. e < length (cg_groups g) \<and> gr_chunks (cg_groups g ! e) \<noteq> []"
    and rm: "length rm = length (cg_chunks g)"
  shows "\<exists>rms tree. fold_opt set_entry_requirements es (g\<lparr>cg_runtime_modules := rm, cg_tree_reqs := tr\<rparr>) =
      Some (g\<lparr>cg_runtime_modules := rms, cg_tree_reqs := tree\<rparr>) \<and> length rms = length (cg_chunks g) \<and>
      (\<forall>e. if e \<in> set es then \<exists>p. tree e = Some p \<and> req_set p = entry_reqs g e else tree e = tr e)"
  using es rm
proof (induction es arbitrary: rm tr)
  case Nil
  then show ?case by auto
next
  case (Cons e es)
  from set_entry_requirements_spec [OF wf rv, of e rm tr] Cons.prems obtain rms p where
    s: "set_entry_requirements e (g\<lparr>cg_runtime_modules := rm, cg_tree_reqs := tr\<rparr>) =
      Some (g\<lparr>cg_runtime_modules := rms, cg_tree_reqs := tr(e \<mapsto> p)\<rparr>)"
    "length rms = length rm" "req_set p = entry_reqs g e" by auto
  from Cons.prems s(2) have "\<forall>e \<in> set es. e < length (cg_groups g) \<and> gr_chunks (cg_groups g ! e) \<noteq> []"
    and "length rms = length (cg_chunks g)" by simp_all
  from Cons.IH [OF this, of "tr(e \<mapsto> p)"] obtain rms' tree where
    f: "fold_opt set_entry_requirements es (g\<lparr>cg_runtime_modules := rms, cg_tree_reqs := tr(e \<mapsto> p)\<rparr>) =
      Some (g\<lparr>cg_runtime_modules := rms', cg_tree_reqs := tree\<rparr>)" "length rms' = length (cg_chunks g)"
    "\<forall>k. if k \<in> set es then \<exists>p. tree k = Some p \<and> req_set p = entry_reqs g k else tree k = (tr(e \<mapsto> p)) k"
    by blast
  have "if k \<in> set (e # es) then \<exists>p. tree k = Some p \<and> req_set p = entry_reqs g k else tree k = tr k" for k
    using f(3) [rule_format, of k] s(3) by (cases "k = e"; cases "k \<in> set es") auto
  moreover have "fold_opt set_entry_requirements (e # es) (g\<lparr>cg_runtime_modules := rm, cg_tree_reqs := tr\<rparr>) =
      Some (g\<lparr>cg_runtime_modules := rms', cg_tree_reqs := tree\<rparr>)" using s(1) f(1) by simp
  ultimately show ?case using f(2) by blast
qed

lemma set_module_runtime_requirements_spec:
  assumes wf: "chunk_graph_wf g" and ne: "entries_have_chunks g"
    and mrs: "\<forall>(m, r) \<in> set mrs. m < length (cg_module_chunks g) \<and> req_valid r"
  shows "\<exists>g'. set_module_runtime_requirements mrs g = Some g' \<and> chunk_graph_wf g' \<and>
    cg_groups g' = cg_groups g \<and> cg_runtime_children g' = cg_runtime_children g \<and>
    (\<forall>c < length (cg_chunks g). req_set (cg_chunk_reqs g' ! c) =
       (\<Union>m \<in> set (cg_chunk_modules g ! c). req_set (assigned_reqs mrs m))) \<and>
    (\<forall>e \<in> set (cg_entrypoints g). \<exists>p. cg_tree_reqs g' e = Some p \<and> req_set p = entry_reqs g' e)"
proof -
  let ?n = "length (cg_module_chunks g)"
  let ?R = "map (assigned_reqs mrs) [0..<?n]"
  let ?g1 = "g\<lparr>cg_module_reqs := ?R\<rparr>"
  have z: "map (\<lambda>_. 0) (vec_resize ?n 0 (cg_module_reqs g)) = replicate ?n (0 :: requirements)"
    by (simp add: map_replicate_const)
  have fa: "fold_opt (\<lambda>(m, r) v. vec_modify m (\<lambda>_. r) v) mrs (replicate ?n 0) = Some ?R"
    using mrs by (intro fold_assign) auto
  have w1: "chunk_graph_wf ?g1"
    using wf by (simp add: chunk_graph_wf_def sizes_ok_def groups_linked_def modules_linked_def tree_linked_def)
  have v1: "\<forall>r \<in> set (cg_module_reqs ?g1). req_valid r"
    using mrs by (auto intro!: assigned_reqs_valid)
  from fold_set_chunk [OF w1 _ _ v1, of "[0..<length (cg_chunks g)]"] obtain crs rms where
    f: "fold_opt set_chunk_step [0..<length (cg_chunks g)] ?g1 =
        Some (?g1\<lparr>cg_chunk_reqs := crs, cg_runtime_modules := rms\<rparr>)"
    and lc: "length crs = length (cg_chunks g)" "length rms = length (cg_chunks g)"
    and vc: "\<forall>c < length (cg_chunks g). crs ! c = chunk_reqs_of ?g1 c" by auto
  let ?g2 = "?g1\<lparr>cg_chunk_reqs := crs\<rparr>"
  have cr: "req_valid (crs ! c) \<and> req_set (crs ! c) = (\<Union>m \<in> set (cg_chunk_modules g ! c). req_set (assigned_reqs mrs m))"
    if c: "c < length (cg_chunks g)" for c
  proof -
    have "\<forall>m \<in> set (cg_chunk_modules g ! c). m < ?n"
      using wf c linkedD(1) [of "cg_chunk_modules g" "cg_module_chunks g" c]
      by (simp add: chunk_graph_wf_def sizes_ok_def modules_linked_def)
    with chunk_requirements_spec [OF w1 _ _ v1, of c] vc c show ?thesis by simp
  qed
  have w2: "chunk_graph_wf ?g2"
    using w1 lc by (simp add: chunk_graph_wf_def sizes_ok_def groups_linked_def modules_linked_def tree_linked_def)
  have rv: "reqs_valid ?g2"
    using v1 cr lc by (auto simp: reqs_valid_def in_set_conv_nth)
  have es: "\<forall>e \<in> set (cg_entrypoints g). e < length (cg_groups ?g2) \<and> gr_chunks (cg_groups ?g2 ! e) \<noteq> []"
    using wf ne by (simp add: chunk_graph_wf_def sizes_ok_def entries_have_chunks_def)
  from fold_entry_requirements [OF w2 rv es, of rms Map.empty] lc obtain rms' tree where
    t: "fold_opt set_entry_requirements (cg_entrypoints g) (?g2\<lparr>cg_runtime_modules := rms, cg_tree_reqs := Map.empty\<rparr>) =
      Some (?g2\<lparr>cg_runtime_modules := rms', cg_tree_reqs := tree\<rparr>)" "length rms' = length (cg_chunks g)"
    and te: "\<forall>e \<in> set (cg_entrypoints g). \<exists>p. tree e = Some p \<and> req_set p = entry_reqs ?g2 e"
    by (auto split: if_splits)
  let ?g' = "?g2\<lparr>cg_runtime_modules := rms', cg_tree_reqs := tree\<rparr>"
  have same: "entry_reqs ?g' e = entry_reqs ?g2 e" for e
  proof -
    have "runtime_walk.step ?g' = runtime_walk.step ?g2"
      by (intro ext) (simp add: runtime_walk.step_def runtime_successors_def)
    then have "runtime_walk.reach ?g' e = runtime_walk.reach ?g2 e"
      by (simp add: runtime_walk.reach_def)
    then show ?thesis by (simp add: entry_reqs_def group_needs_def)
  qed
  have "set_module_runtime_requirements mrs g = Some ?g'"
    using z fa f t(1) by (simp add: set_module_runtime_requirements_def set_chunk_step_def [abs_def])
  moreover have "chunk_graph_wf ?g'"
    using w2 t(2) by (simp add: chunk_graph_wf_def sizes_ok_def groups_linked_def modules_linked_def tree_linked_def)
  ultimately show ?thesis using cr te same by (intro exI [of _ ?g']) simp
qed

end
