(* ===== verification/Computation_Cache.thy ===== *)
theory Computation_Cache
  imports Planning_Correct Side_Effects
begin

text \<open>
  \<open>module_computation_cache.rs\<close>: memos of a compiler that lives over several compilations.  Before
  the chunk graph is built, the memos of every module that changed, and of every module that
  imports a changed one, are dropped; after the ids are assigned, the later memos of modules whose
  references changed are.
\<close>

section \<open>What errors print as\<close>

definition handle_debug :: "nat \<Rightarrow> string" where
  "handle_debug h = ''ModuleHandle('' @ decimal h @ '')''"

fun error_display :: "error \<Rightarrow> string" where
  "error_display CompilerBusy = ''compiler is already running''"
| "error_display CompilerClosed = ''compiler is shutting down or closed''"
| "error_display (Resolve issuer request message) =
     ''failed to resolve '' @ [CHR 0x27] @ request @ [CHR 0x27] @ '' from '' @ path_string issuer @ '': '' @ message"
| "error_display (Read path message) = ''failed to read '' @ path_string path @ '': '' @ message"
| "error_display (Parse path message) = ''failed to parse '' @ path_string path @ '': '' @ message"
| "error_display (LoaderError loader path message) =
     ''loader '' @ path_string loader @ '' failed for '' @ path_string path @ '': '' @ message"
| "error_display (LoaderRules path message) = ''loader rules failed for '' @ path_string path @ '': '' @ message"
| "error_display (ModuleTypeRegistry message) = ''module type registry error: '' @ message"
| "error_display (UnsupportedDynamicImport path message) =
     ''unsupported dynamic import in '' @ path_string path @ '': '' @ message"
| "error_display (ParseTask path message) = ''parser task failed for '' @ path_string path @ '': '' @ message"
| "error_display (MakeTask message) = ''make task failed: '' @ message"
| "error_display (HookError message) = ''compilation hook failed: '' @ message"
| "error_display (MissingModule h) = ''module graph is missing module '' @ handle_debug h"
| "error_display (MissingModuleDirectory h) =
     ''module '' @ handle_debug h @ '' does not have a filesystem parent directory''"
| "error_display (CodeGeneration h path message) =
     ''failed to generate '' @ path_string path @ '' ('' @ handle_debug h @ ''): '' @ message"

section \<open>State\<close>

record pre_reference =
  pr_block :: "nat option"
  pr_dependency :: "nat option"
  pr_target :: module_identity

record pre_signature =
  ps_source_hash :: u64
  ps_build_error :: "string option"
  ps_references :: "pre_reference list"

record post_signature =
  os_references :: module_references
  os_exports :: exports_info

record post_entry =
  po_signature :: post_signature
  po_requirements :: "requirements option"
  po_hash :: "u64 option"

text \<open>The stages of an entry; the fields of \<open>PreChunkGraphModuleComputationEntry\<close> come first.\<close>

record computation_entry =
  ce_signature :: pre_signature
  ce_provided :: "exports_info option"
  ce_reachable :: "module_identity list option"
  ce_post :: "post_entry option"

record computation_stats =
  st_provided_hits :: nat
  st_provided_misses :: nat
  st_pre_invalidated :: nat
  st_reachable_hits :: nat
  st_reachable_misses :: nat
  st_requirements_hits :: nat
  st_requirements_misses :: nat
  st_hash_hits :: nat
  st_hash_misses :: nat
  st_post_invalidated :: nat

record computation_cache =
  cc_modules :: "module_identity \<rightharpoonup> computation_entry"
  cc_handles :: "module_identity \<rightharpoonup> nat"
  cc_stats :: computation_stats

definition empty_stats :: computation_stats where
  "empty_stats = \<lparr>st_provided_hits = 0, st_provided_misses = 0, st_pre_invalidated = 0,
     st_reachable_hits = 0, st_reachable_misses = 0, st_requirements_hits = 0,
     st_requirements_misses = 0, st_hash_hits = 0, st_hash_misses = 0, st_post_invalidated = 0\<rparr>"

definition empty_computation_cache :: computation_cache where
  "empty_computation_cache = \<lparr>cc_modules = Map.empty, cc_handles = Map.empty, cc_stats = empty_stats\<rparr>"

section \<open>Before the chunk graph\<close>

definition pre_reference_of :: "module_graph \<Rightarrow> connection \<Rightarrow> pre_reference option" where
  "pre_reference_of mg c = do {
     target \<leftarrow> graph_module mg (cn_module c);
     Some \<lparr>pr_block = cn_block c, pr_dependency = cn_index c, pr_target = m_identity target\<rparr> }"

definition pre_chunk_graph_signature :: "module_graph \<Rightarrow> nat \<Rightarrow> pre_signature option" where
  "pre_chunk_graph_signature mg h = do {
     m \<leftarrow> graph_module mg h;
     cs \<leftarrow> outgoing_connections mg h;
     references \<leftarrow> map_opt (pre_reference_of mg) cs;
     Some \<lparr>ps_source_hash = bc_source_hash (m_content m),
           ps_build_error = map_option error_display (m_build_error m), ps_references = references\<rparr> }"

type_synonym module_signature = "module_identity \<times> nat \<times> pre_signature"

definition module_signature :: "module_graph \<Rightarrow> module_data \<Rightarrow> module_signature option" where
  "module_signature mg m = do {
     s \<leftarrow> pre_chunk_graph_signature mg (m_handle m);
     Some (m_identity m, m_handle m, s) }"

definition entry_unchanged :: "(module_identity \<rightharpoonup> computation_entry) \<Rightarrow> module_signature \<Rightarrow> bool" where
  "entry_unchanged entries = (\<lambda>(identity, _, s).
     case entries identity of None \<Rightarrow> False | Some e \<Rightarrow> ce_signature e = s)"

text \<open>The modules whose memos go: the changed ones and everything that imports them.\<close>

fun push_importer :: "connection \<Rightarrow> nat list \<times> nat set \<Rightarrow> nat list \<times> nat set" where
  "push_importer c (queue, affected) =
     (case cn_origin c of
        None \<Rightarrow> (queue, affected)
      | Some origin \<Rightarrow>
          if origin \<in> affected then (queue, affected) else (queue @ [origin], insert origin affected))"

definition affected_step :: "module_graph \<Rightarrow> nat list \<times> nat set \<Rightarrow> (nat list \<times> nat set) option" where
  "affected_step mg = (\<lambda>(queue, affected).
     case queue of
       [] \<Rightarrow> None
     | h # queue \<Rightarrow> do {
         cs \<leftarrow> incoming_connections mg h;
         Some (fold push_importer cs (queue, affected)) })"

definition affected_modules :: "module_graph \<Rightarrow> nat list \<Rightarrow> nat set option" where
  "affected_modules mg changed =
     map_option snd (loop_opt (\<lambda>(queue, _). queue \<noteq> []) (affected_step mg) (changed, set changed))"

definition new_entry :: "pre_signature \<Rightarrow> computation_entry" where
  "new_entry s = \<lparr>ce_signature = s, ce_provided = None, ce_reachable = None, ce_post = None\<rparr>"

definition prepare_entry :: "nat set \<Rightarrow> module_signature \<Rightarrow> computation_cache \<Rightarrow> computation_cache" where
  "prepare_entry affected = (\<lambda>(identity, h, s) cc.
     let e = (case cc_modules cc identity of Some e \<Rightarrow> e | None \<Rightarrow> new_entry s);
         invalidated = (h \<in> affected \<and> (ce_provided e \<noteq> None \<or> ce_reachable e \<noteq> None \<or> ce_post e \<noteq> None))
     in cc\<lparr>cc_modules := (cc_modules cc)(identity \<mapsto> if h \<in> affected then new_entry s else e),
           cc_stats := (cc_stats cc)\<lparr>st_pre_invalidated :=
             st_pre_invalidated (cc_stats cc) + (if invalidated then 1 else 0)\<rparr>\<rparr>)"

definition prepare_before_chunk_graph :: "module_graph \<Rightarrow> computation_cache \<Rightarrow> computation_cache option" where
  "prepare_before_chunk_graph mg cc = do {
     signatures \<leftarrow> map_opt (module_signature mg) (gs_modules mg);
     let cc = cc\<lparr>cc_modules := cc_modules cc |` set (map fst signatures),
                 cc_handles := fold (\<lambda>(identity, h, _) hs. hs(identity \<mapsto> h)) signatures Map.empty\<rparr>;
     affected \<leftarrow> affected_modules mg
       (map (\<lambda>(_, h, _). h) (filter (\<lambda>s. \<not> entry_unchanged (cc_modules cc) s) signatures));
     Some (fold (prepare_entry affected) signatures cc) }"

section \<open>After the ids are assigned\<close>

definition post_id_assignment_signature ::
  "module_graph \<Rightarrow> chunk_graph \<Rightarrow> nat \<Rightarrow> post_signature option" where
  "post_id_assignment_signature mg g h = do {
     references \<leftarrow> module_references_of mg h g;
     info \<leftarrow> graph_exports mg h;
     Some \<lparr>os_references = references, os_exports = info\<rparr> }"

definition prepare_post_entry ::
  "module_identity \<times> post_signature \<Rightarrow> computation_cache \<Rightarrow> computation_cache option" where
  "prepare_post_entry = (\<lambda>(identity, s) cc. do {
     e \<leftarrow> cc_modules cc identity;
     let changed = (case ce_post e of None \<Rightarrow> False | Some p \<Rightarrow> po_signature p \<noteq> s);
     let e' = (if ce_post e = None \<or> changed
               then e\<lparr>ce_post := Some \<lparr>po_signature = s, po_requirements = None, po_hash = None\<rparr>\<rparr> else e);
     Some (cc\<lparr>cc_modules := (cc_modules cc)(identity \<mapsto> e'),
              cc_stats := (cc_stats cc)\<lparr>st_post_invalidated :=
                st_post_invalidated (cc_stats cc) + (if changed then 1 else 0)\<rparr>\<rparr>) })"

definition prepare_after_id_assignment ::
  "module_graph \<Rightarrow> chunk_graph \<Rightarrow> computation_cache \<Rightarrow> computation_cache option" where
  "prepare_after_id_assignment mg g cc = do {
     signatures \<leftarrow> map_opt (\<lambda>m. map_option (\<lambda>s. (m_identity m, s))
       (post_id_assignment_signature mg g (m_handle m))) (gs_modules mg);
     fold_opt prepare_post_entry signatures cc }"

section \<open>Reading and storing memos\<close>

definition get_provided_exports ::
  "module_identity \<Rightarrow> computation_cache \<Rightarrow> exports_info option \<times> computation_cache" where
  "get_provided_exports identity cc =
     (let result = Option.bind (cc_modules cc identity) ce_provided; s = cc_stats cc
      in (result, cc\<lparr>cc_stats := if result \<noteq> None
            then s\<lparr>st_provided_hits := st_provided_hits s + 1\<rparr>
            else s\<lparr>st_provided_misses := st_provided_misses s + 1\<rparr>\<rparr>))"

definition modify_entry ::
  "module_identity \<Rightarrow> (computation_entry \<Rightarrow> computation_entry option) \<Rightarrow> computation_cache \<Rightarrow> computation_cache option" where
  "modify_entry identity f cc = do {
     e \<leftarrow> cc_modules cc identity;
     e' \<leftarrow> f e;
     Some (cc\<lparr>cc_modules := (cc_modules cc)(identity \<mapsto> e')\<rparr>) }"

definition store_provided_exports ::
  "module_identity \<Rightarrow> exports_info \<Rightarrow> computation_cache \<Rightarrow> computation_cache option" where
  "store_provided_exports identity info =
     modify_entry identity (\<lambda>e. Some (e\<lparr>ce_provided := Some info\<rparr>))"

definition get_static_reachable ::
  "module_identity \<Rightarrow> computation_cache \<Rightarrow> nat list option \<times> computation_cache" where
  "get_static_reachable identity cc =
     (let result = Option.bind (Option.bind (cc_modules cc identity) ce_reachable) (map_opt (cc_handles cc));
          s = cc_stats cc
      in (result, cc\<lparr>cc_stats := if result \<noteq> None
            then s\<lparr>st_reachable_hits := st_reachable_hits s + 1\<rparr>
            else s\<lparr>st_reachable_misses := st_reachable_misses s + 1\<rparr>\<rparr>))"

definition store_static_reachable ::
  "module_identity \<Rightarrow> nat list \<Rightarrow> module_graph \<Rightarrow> computation_cache \<Rightarrow> computation_cache option" where
  "store_static_reachable identity modules mg cc = do {
     identities \<leftarrow> map_opt (\<lambda>h. map_option m_identity (graph_module mg h)) modules;
     modify_entry identity (\<lambda>e. Some (e\<lparr>ce_reachable := Some identities\<rparr>)) cc }"

definition get_runtime_requirements ::
  "module_identity \<Rightarrow> computation_cache \<Rightarrow> requirements option \<times> computation_cache" where
  "get_runtime_requirements identity cc =
     (let result = Option.bind (Option.bind (cc_modules cc identity) ce_post) po_requirements; s = cc_stats cc
      in (result, cc\<lparr>cc_stats := if result \<noteq> None
            then s\<lparr>st_requirements_hits := st_requirements_hits s + 1\<rparr>
            else s\<lparr>st_requirements_misses := st_requirements_misses s + 1\<rparr>\<rparr>))"

definition modify_post :: "(post_entry \<Rightarrow> post_entry) \<Rightarrow> computation_entry \<Rightarrow> computation_entry option" where
  "modify_post f e = map_option (\<lambda>p. e\<lparr>ce_post := Some (f p)\<rparr>) (ce_post e)"

definition store_runtime_requirements ::
  "module_identity \<Rightarrow> requirements \<Rightarrow> computation_cache \<Rightarrow> computation_cache option" where
  "store_runtime_requirements identity rs = modify_entry identity (modify_post (\<lambda>p. p\<lparr>po_requirements := Some rs\<rparr>))"

definition get_module_hash ::
  "module_identity \<Rightarrow> computation_cache \<Rightarrow> u64 option \<times> computation_cache" where
  "get_module_hash identity cc =
     (let result = Option.bind (Option.bind (cc_modules cc identity) ce_post) po_hash; s = cc_stats cc
      in (result, cc\<lparr>cc_stats := if result \<noteq> None
            then s\<lparr>st_hash_hits := st_hash_hits s + 1\<rparr>
            else s\<lparr>st_hash_misses := st_hash_misses s + 1\<rparr>\<rparr>))"

definition store_module_hash ::
  "module_identity \<Rightarrow> u64 \<Rightarrow> computation_cache \<Rightarrow> computation_cache option" where
  "store_module_hash identity hash = modify_entry identity (modify_post (\<lambda>p. p\<lparr>po_hash := Some hash\<rparr>))"

section \<open>The affected modules\<close>

definition imported_by :: "module_graph \<Rightarrow> nat \<Rightarrow> nat \<Rightarrow> bool" where
  "imported_by mg a b \<longleftrightarrow> (\<exists>c \<in> set (gs_connections mg). cn_origin c = Some b \<and> cn_module c = a)"

definition touched :: "module_graph \<Rightarrow> nat set \<Rightarrow> nat set" where
  "touched mg changed = {b. \<exists>a \<in> changed. (imported_by mg)\<^sup>*\<^sup>* a b}"

lemma imported_by_range: "graph_wf mg \<Longrightarrow> imported_by mg a b \<Longrightarrow> b < length (gs_modules mg)"
  using graph_wfD(4) by (fastforce simp: imported_by_def in_set_conv_nth connection_wf_def)

lemma push_importers:
  assumes "fold push_importer cs (q, A) = (q', A')" and "finite B" and "\<forall>c \<in> set cs. \<forall>b. cn_origin c = Some b \<longrightarrow> b \<in> B"
  shows "A' = A \<union> {b. \<exists>c \<in> set cs. cn_origin c = Some b} \<and> set q' = set q \<union> (A' - A) \<and>
    card (B - A') + length q' = card (B - A) + length q"
  using assms(1,3)
proof (induction cs arbitrary: q A)
  case (Cons c cs)
  have rest: "\<forall>c \<in> set cs. \<forall>b. cn_origin c = Some b \<longrightarrow> b \<in> B" using Cons.prems(2) by simp
  show ?case
  proof (cases "\<exists>b. cn_origin c = Some b \<and> b \<notin> A")
    case True
    then obtain b where b: "cn_origin c = Some b" "b \<notin> A" by blast
    with Cons.prems(2) have "b \<in> B" by simp
    then have "B - A = insert b (B - insert b A)" using b(2) by blast
    then have card: "card (B - A) = Suc (card (B - insert b A))"
      by (metis Diff_iff \<open>finite B\<close> card_insert_disjoint finite_Diff insertI1)
    have "fold push_importer cs (q @ [b], insert b A) = (q', A')" using Cons.prems(1) b by simp
    from Cons.IH [OF this rest] card b show ?thesis by auto
  next
    case False
    then have "fold push_importer cs (q, A) = (q', A')" using Cons.prems(1) by (auto split: option.splits)
    from Cons.IH [OF this rest] False show ?thesis by auto
  qed
qed simp

definition affected_inv :: "module_graph \<Rightarrow> nat set \<Rightarrow> nat list \<times> nat set \<Rightarrow> bool" where
  "affected_inv mg changed = (\<lambda>(queue, A). set queue \<subseteq> A \<and> changed \<subseteq> A \<and> A \<subseteq> touched mg changed \<and>
     A \<subseteq> {..<length (gs_modules mg)} \<and> (\<forall>a \<in> A - set queue. \<forall>b. imported_by mg a b \<longrightarrow> b \<in> A))"

lemma touched_step: "a \<in> touched mg C \<Longrightarrow> imported_by mg a b \<Longrightarrow> b \<in> touched mg C"
  by (auto simp: touched_def intro: rtranclp.rtrancl_into_rtrancl)

lemma affected_step_ok:
  assumes wf: "graph_wf mg" and inv: "affected_inv mg C (h # queue, A)"
  shows "\<exists>q' A'. affected_step mg (h # queue, A) = Some (q', A') \<and> affected_inv mg C (q', A') \<and>
    card ({..<length (gs_modules mg)} - A') + length q' < card ({..<length (gs_modules mg)} - A) + length (h # queue)"
proof -
  let ?B = "{..<length (gs_modules mg)}"
  from inv have hA: "h \<in> A" and "h < length (gs_modules mg)" and C: "C \<subseteq> A" and T: "A \<subseteq> touched mg C"
    and AB: "A \<subseteq> ?B" and qA: "set queue \<subseteq> A"
    and cl: "\<And>a b. a \<in> A \<Longrightarrow> a \<notin> set (h # queue) \<Longrightarrow> imported_by mg a b \<Longrightarrow> b \<in> A"
    by (auto simp: affected_inv_def)
  from incoming_connections_spec [OF wf this(2)] obtain cs where
    cs: "incoming_connections mg h = Some cs" "set cs = {c \<in> set (gs_connections mg). cn_module c = h}" by blast
  obtain q' A' where f: "fold push_importer cs (queue, A) = (q', A')" by fastforce
  have origin: "{b. \<exists>c \<in> set cs. cn_origin c = Some b} = {b. imported_by mg h b}"
    using cs(2) by (auto simp: imported_by_def)
  then have "\<forall>c \<in> set cs. \<forall>b. cn_origin c = Some b \<longrightarrow> b \<in> ?B"
    using imported_by_range [OF wf] by blast
  from push_importers [OF f finite_lessThan this]
  have r: "A' = A \<union> {b. imported_by mg h b}" "set q' = set queue \<union> (A' - A)"
    "card (?B - A') + length q' = card (?B - A) + length queue" unfolding origin by blast+
  have "A' \<subseteq> touched mg C" using r(1) T hA by (auto intro: touched_step)
  moreover have "A' \<subseteq> ?B" using r(1) AB imported_by_range [OF wf] by auto
  moreover have "b \<in> A'" if "a \<in> A' - set q'" "imported_by mg a b" for a b
    using that r(1,2) cl by (cases "a = h") auto
  ultimately have "affected_inv mg C (q', A')" using qA C r(1,2) by (auto simp: affected_inv_def)
  moreover have "affected_step mg (h # queue, A) = Some (q', A')" by (simp add: affected_step_def cs(1) f)
  ultimately show ?thesis using r(3) by simp
qed

lemma affected_modules_spec:
  assumes wf: "graph_wf mg" and "set changed \<subseteq> {..<length (gs_modules mg)}"
  shows "affected_modules mg changed = Some (touched mg (set changed))"
proof -
  let ?r = "measure (\<lambda>(queue, A). card ({..<length (gs_modules mg)} - A) + length queue)"
  have init: "affected_inv mg (set changed) (changed, set changed)"
    using assms(2) by (auto simp: affected_inv_def touched_def)
  have "\<exists>t. loop_opt (\<lambda>(queue, _). queue \<noteq> []) (affected_step mg) (changed, set changed) = Some t \<and>
      affected_inv mg (set changed) t \<and> \<not> (case t of (queue, _) \<Rightarrow> queue \<noteq> [])"
  proof (rule loop_opt_rule [where P = "affected_inv mg (set changed)" and r = ?r])
    show "affected_inv mg (set changed) (changed, set changed)" "wf ?r" by (rule init, simp)
    fix s assume s: "affected_inv mg (set changed) s" "case s of (queue, _) \<Rightarrow> queue \<noteq> []"
    then obtain h queue A where e: "s = (h # queue, A)" by (cases s) (auto simp: neq_Nil_conv)
    from affected_step_ok [OF wf s(1) [unfolded e]]
    show "\<exists>t. affected_step mg s = Some t \<and> affected_inv mg (set changed) t \<and> (t, s) \<in> ?r"
      by (auto simp: e)
  qed
  then obtain A where l: "loop_opt (\<lambda>(queue, _). queue \<noteq> []) (affected_step mg) (changed, set changed) = Some ([], A)"
    and i: "affected_inv mg (set changed) ([], A)" by auto
  have "b \<in> A" if "a \<in> set changed" "(imported_by mg)\<^sup>*\<^sup>* a b" for a b
    using that(2,1) i by (induction rule: rtranclp_induct) (auto simp: affected_inv_def)
  then have "A = touched mg (set changed)" using i by (auto simp: affected_inv_def touched_def)
  with l show ?thesis by (simp add: affected_modules_def)
qed

section \<open>Which memos are left\<close>

definition signature_of :: "module_graph \<Rightarrow> nat \<Rightarrow> pre_signature" where
  "signature_of mg h = the (pre_chunk_graph_signature mg h)"

abbreviation identity_at :: "module_graph \<Rightarrow> nat \<Rightarrow> module_identity" where
  "identity_at mg h \<equiv> m_identity (gs_modules mg ! h)"

definition changed_modules :: "module_graph \<Rightarrow> computation_cache \<Rightarrow> nat set" where
  "changed_modules mg cc = {h. h < length (gs_modules mg) \<and>
     \<not> (\<exists>e. cc_modules cc (identity_at mg h) = Some e \<and> ce_signature e = signature_of mg h)}"

lemma pre_signature_total:
  assumes wf: "graph_wf mg" and h: "h < length (gs_modules mg)"
  shows "pre_chunk_graph_signature mg h = Some (signature_of mg h)"
proof -
  let ?cs = "filter (\<lambda>c. cn_origin c = Some h) (gs_connections mg)"
  have "\<exists>r. pre_reference_of mg c = Some r" if "c \<in> set ?cs" for c
  proof -
    have "cn_module c < length (gs_modules mg)" using graph_wf_target [OF wf] that by simp
    then show ?thesis by (simp add: pre_reference_of_def graph_module_def)
  qed
  then have "\<exists>rs. map_opt (pre_reference_of mg) ?cs = Some rs" by (rule map_opt_exists)
  then obtain rs where "map_opt (pre_reference_of mg) ?cs = Some rs" ..
  then have "\<exists>s. pre_chunk_graph_signature mg h = Some s"
    using h outgoing_connections_spec [OF wf h] by (simp add: pre_chunk_graph_signature_def graph_module_def)
  then show ?thesis by (auto simp: signature_of_def)
qed

lemma module_signatures:
  assumes wf: "graph_wf mg"
  shows "map_opt (module_signature mg) (gs_modules mg) =
    Some (map (\<lambda>h. (identity_at mg h, h, signature_of mg h)) [0..<length (gs_modules mg)])"
proof -
  have "map_opt (module_signature mg) (gs_modules mg) =
      Some (map (\<lambda>m. (m_identity m, m_handle m, signature_of mg (m_handle m))) (gs_modules mg))"
  proof (rule map_opt_total)
    fix m assume "m \<in> set (gs_modules mg)"
    then obtain i where "i < length (gs_modules mg)" "m = gs_modules mg ! i" by (auto simp: in_set_conv_nth)
    with graph_wf_handle [OF wf, of i] pre_signature_total [OF wf, of i]
    show "module_signature mg m = Some (m_identity m, m_handle m, signature_of mg (m_handle m))"
      by (simp add: module_signature_def)
  qed
  also have "map (\<lambda>m. (m_identity m, m_handle m, signature_of mg (m_handle m))) (gs_modules mg) =
      map (\<lambda>h. (identity_at mg h, h, signature_of mg h)) [0..<length (gs_modules mg)]"
    using graph_wf_handle [OF wf] by (intro nth_equalityI) simp_all
  finally show ?thesis .
qed

lemma fold_prepare_entry:
  assumes "distinct (map fst sigs)"
  shows "cc_handles (fold (prepare_entry A) sigs cc) = cc_handles cc \<and>
    cc_modules (fold (prepare_entry A) sigs cc) i = (case map_of sigs i of
       None \<Rightarrow> cc_modules cc i
     | Some (h, s) \<Rightarrow> Some (if h \<in> A then new_entry s
         else case cc_modules cc i of Some e \<Rightarrow> e | None \<Rightarrow> new_entry s))"
  using assms
proof (induction sigs arbitrary: cc)
  case (Cons x sigs)
  obtain j h s where x: "x = (j, h, s)" by (cases x)
  with Cons.prems have "map_of sigs j = None" by (simp add: map_of_eq_None_iff)
  with Cons.IH [of "prepare_entry A x cc"] Cons.prems show ?case
    by (cases "i = j") (simp_all add: x prepare_entry_def Let_def split: option.split)
qed simp

lemma fold_upd_other: "i \<notin> f ` set xs \<Longrightarrow> fold (\<lambda>h hs. hs(f h \<mapsto> h)) xs g i = g i"
  by (induction xs arbitrary: g) auto

lemma fold_upd_same:
  "distinct (map f xs) \<Longrightarrow> h \<in> set xs \<Longrightarrow> fold (\<lambda>h hs. hs(f h \<mapsto> h)) xs g (f h) = Some h"
proof (induction xs arbitrary: g)
  case (Cons x xs)
  show ?case
  proof (cases "h = x")
    case True
    have "f x \<notin> f ` set xs" using Cons.prems by simp
    from fold_upd_other [OF this, of "g(f x \<mapsto> x)"] show ?thesis by (simp only: True fold.simps comp_apply fun_upd_same)
  next
    case False
    with Cons show ?thesis by simp
  qed
qed simp

theorem prepare_before_chunk_graph_spec:
  assumes wf: "graph_wf mg" and ids: "distinct (map m_identity (gs_modules mg))"
  shows "\<exists>cc'. prepare_before_chunk_graph mg cc = Some cc' \<and>
    dom (cc_modules cc') = m_identity ` set (gs_modules mg) \<and>
    (\<forall>h < length (gs_modules mg). cc_handles cc' (identity_at mg h) = Some h \<and>
       (if h \<in> touched mg (changed_modules mg cc)
        then cc_modules cc' (identity_at mg h) = Some (new_entry (signature_of mg h))
        else cc_modules cc' (identity_at mg h) = cc_modules cc (identity_at mg h) \<and>
          (\<exists>e. cc_modules cc (identity_at mg h) = Some e \<and> ce_signature e = signature_of mg h)))"
proof -
  let ?n = "length (gs_modules mg)"
  let ?sigs = "map (\<lambda>h. (identity_at mg h, h, signature_of mg h)) [0..<?n]"
  let ?M = "cc_modules cc |` set (map fst ?sigs)"
  let ?H = "fold (\<lambda>(identity, h, _) hs. hs(identity \<mapsto> h)) ?sigs Map.empty"
  let ?A = "touched mg (changed_modules mg cc)"
  let ?cc1 = "cc\<lparr>cc_modules := ?M, cc_handles := ?H\<rparr>"
  have ids_map: "map fst ?sigs = map m_identity (gs_modules mg)"
    by (rule nth_equalityI) simp_all
  then have inS: "identity_at mg h \<in> set (map fst ?sigs)" if "h < ?n" for h using that by simp
  have filt: "filter (\<lambda>s. \<not> entry_unchanged ?M s) ?sigs =
      filter (\<lambda>s. \<not> entry_unchanged (cc_modules cc) s) ?sigs"
    by (rule filter_cong) (auto simp: entry_unchanged_def restrict_map_def)
  let ?ch = "map (\<lambda>(_, h, _). h) (filter (\<lambda>s. \<not> entry_unchanged (cc_modules cc) s) ?sigs)"
  have "set ?ch = {h. h < ?n \<and> \<not> entry_unchanged (cc_modules cc) (identity_at mg h, h, signature_of mg h)}"
    by (auto simp: image_def)
  also have "\<dots> = changed_modules mg cc"
    by (auto simp: changed_modules_def entry_unchanged_def split: option.splits)
  finally have ch: "set ?ch = changed_modules mg cc" .
  then have "set ?ch \<subseteq> {..<?n}" by (auto simp: changed_modules_def)
  from affected_modules_spec [OF wf this] ch have aff: "affected_modules mg ?ch = Some ?A" by simp
  let ?cc' = "fold (prepare_entry ?A) ?sigs ?cc1"
  have dist: "distinct (map fst ?sigs)" unfolding ids_map by (rule ids)
  have m1: "cc_modules ?cc1 = ?M" by simp
  have prep: "prepare_before_chunk_graph mg cc = Some ?cc'"
    unfolding prepare_before_chunk_graph_def module_signatures [OF wf] bind.bind_lunit Let_def
    by (simp only: m1 filt aff bind.bind_lunit)
  have handles: "cc_handles ?cc' (identity_at mg h) = Some h" if h: "h < ?n" for h
  proof -
    have "distinct (map (identity_at mg) [0..<?n])" using dist by (simp add: comp_def)
    from fold_upd_same [OF this, of h Map.empty] h
    have "fold (\<lambda>k hs. hs(identity_at mg k \<mapsto> k)) [0..<?n] Map.empty (identity_at mg h) = Some h" by simp
    then have "?H (identity_at mg h) = Some h" by (simp add: fold_map comp_def)
    then show ?thesis using fold_prepare_entry [OF dist, of ?A ?cc1] by simp
  qed
  have mods: "cc_modules ?cc' i = (case map_of ?sigs i of
       None \<Rightarrow> ?M i
     | Some (h, s) \<Rightarrow> Some (if h \<in> ?A then new_entry s else case ?M i of Some e \<Rightarrow> e | None \<Rightarrow> new_entry s))" for i
    using fold_prepare_entry [OF dist, of ?A ?cc1 i, THEN conjunct2] unfolding m1 .
  have at: "map_of ?sigs (identity_at mg h) = Some (h, signature_of mg h)" if "h < ?n" for h
    using dist that by (intro map_of_is_SomeI) auto
  have dom: "dom (cc_modules ?cc') = m_identity ` set (gs_modules mg)"
  proof -
    have "cc_modules ?cc' i \<noteq> None \<longleftrightarrow> i \<in> set (map fst ?sigs)" for i
    proof (cases "map_of ?sigs i")
      case None
      then have n: "i \<notin> set (map fst ?sigs)" unfolding map_of_eq_None_iff set_map .
      show ?thesis by (simp only: mods None option.case restrict_out [OF n] n simp_thms)
    next
      case (Some p)
      then have "i \<in> set (map fst ?sigs)" using map_of_eq_None_iff [of ?sigs i] by (simp only: set_map) blast
      then show ?thesis by (cases p) (simp only: mods Some option.case prod.case option.distinct simp_thms)
    qed
    then show ?thesis unfolding ids_map by auto
  qed
  have left: "if h \<in> ?A
        then cc_modules ?cc' (identity_at mg h) = Some (new_entry (signature_of mg h))
        else cc_modules ?cc' (identity_at mg h) = cc_modules cc (identity_at mg h) \<and>
          (\<exists>e. cc_modules cc (identity_at mg h) = Some e \<and> ce_signature e = signature_of mg h)" if h: "h < ?n" for h
  proof -
    have "?M (identity_at mg h) = cc_modules cc (identity_at mg h)" by (rule restrict_in [OF inS [OF h]])
    then have e: "cc_modules ?cc' (identity_at mg h) = Some (if h \<in> ?A then new_entry (signature_of mg h)
        else case cc_modules cc (identity_at mg h) of Some e \<Rightarrow> e | None \<Rightarrow> new_entry (signature_of mg h))"
      unfolding mods at [OF h] by (simp only: option.case prod.case)
    show ?thesis
    proof (cases "h \<in> ?A")
      case True
      then show ?thesis unfolding e by (simp only: if_True)
    next
      case False
      with h obtain en where "cc_modules cc (identity_at mg h) = Some en" "ce_signature en = signature_of mg h"
        by (auto simp: touched_def changed_modules_def)
      with False show ?thesis unfolding e by (simp only: if_False option.case simp_thms ex_simps) blast
    qed
  qed
  show ?thesis
    by (rule exI [of _ ?cc'], intro conjI allI impI) (rule prep, rule dom, erule handles, erule left)
qed

section \<open>What is left answers for the new graph\<close>

text \<open>The static memos of a compilation whose graph, after the optimizations, is \<open>mg\<close>.\<close>

definition static_memos_valid :: "module_graph \<Rightarrow> computation_cache \<Rightarrow> bool" where
  "static_memos_valid mg cc \<longleftrightarrow> (\<forall>h < length (gs_modules mg). \<forall>e ids.
     cc_modules cc (identity_at mg h) = Some e \<longrightarrow> ce_reachable e = Some ids \<longrightarrow>
     distinct ids \<and> set ids = identity_at mg ` static_walk.reach mg h)"

text \<open>
  \<open>imported\<close> are the module graphs before and after the optimizations: those only lead static edges
  to modules that were reachable already.
\<close>

definition static_edges_within :: "module_graph \<Rightarrow> module_graph \<Rightarrow> bool" where
  "static_edges_within gp gn \<longleftrightarrow> gs_modules gn = gs_modules gp \<and>
     (\<forall>a b. b \<in> set (static_successors gn a) \<longrightarrow> (imported_by gp)\<^sup>*\<^sup>* b a)"

definition same_static_successors :: "module_graph \<Rightarrow> module_graph \<Rightarrow> nat \<Rightarrow> bool" where
  "same_static_successors go gn h \<longleftrightarrow> (\<forall>k < length (gs_modules go). identity_at go k = identity_at gn h \<longrightarrow>
     identity_at go ` set (static_successors go k) = identity_at gn ` set (static_successors gn h))"

lemma untouched_successor:
  assumes "static_edges_within gp gn" and "h \<notin> touched gp C" and "b \<in> set (static_successors gn h)"
  shows "b \<notin> touched gp C"
proof
  assume "b \<in> touched gp C"
  then obtain a where "a \<in> C" "(imported_by gp)\<^sup>*\<^sup>* a b" by (auto simp: touched_def)
  moreover have "(imported_by gp)\<^sup>*\<^sup>* b h" using assms(1,3) by (simp add: static_edges_within_def)
  ultimately show False using assms(2) by (auto simp: touched_def dest: rtranclp_trans)
qed

lemma same_reach:
  assumes wfo: "graph_wf go" and wfn: "graph_wf gn" and w: "static_edges_within gp gn"
    and k: "k < length (gs_modules go)" "identity_at go k = identity_at gn h"
    and h: "h < length (gs_modules gn)" "h \<notin> touched gp C"
    and same: "\<And>x. x < length (gs_modules gn) \<Longrightarrow> x \<notin> touched gp C \<Longrightarrow> same_static_successors go gn x"
  shows "identity_at go ` static_walk.reach go k = identity_at gn ` static_walk.reach gn h"
proof (intro equalityI subsetI)
  let ?pair = "\<lambda>x y. x < length (gs_modules gn) \<and> x \<notin> touched gp C \<and> y < length (gs_modules go) \<and>
    identity_at go y = identity_at gn x"
  have succ: "identity_at go ` set (static_successors go y) = identity_at gn ` set (static_successors gn x)"
    if "?pair x y" for x y using same [of x] that by (auto simp: same_static_successors_def)
  have next_pair: "?pair x' y'" if "?pair x y" "x' \<in> set (static_successors gn x)" "y' \<in> set (static_successors go y)"
      "identity_at go y' = identity_at gn x'" for x y x' y'
    using that untouched_successor [OF w] static_walk.succs_range [OF wfn] static_walk.succs_range [OF wfo] by blast
  have start: "?pair h k" using h k by simp
  {
    fix i assume "i \<in> identity_at go ` static_walk.reach go k"
    then obtain y where y: "(\<lambda>a b. b \<in> set (static_successors go a))\<^sup>*\<^sup>* k y" "i = identity_at go y"
      by (auto simp: reach_start)
    from y(1) have "\<exists>x \<in> static_walk.reach gn h. ?pair x y"
    proof (induction rule: rtranclp_induct)
      case base
      then show ?case using start static_walk.reach_refl by blast
    next
      case (step y z)
      then obtain x where x: "x \<in> static_walk.reach gn h" "?pair x y" by blast
      with succ step.hyps(2) obtain x' where "x' \<in> set (static_successors gn x)" "identity_at go z = identity_at gn x'"
        by blast
      with x next_pair step.hyps(2) static_walk.reach_step show ?case by blast
    qed
    with y(2) show "i \<in> identity_at gn ` static_walk.reach gn h" by auto
  next
    fix i assume "i \<in> identity_at gn ` static_walk.reach gn h"
    then obtain x where x: "(\<lambda>a b. b \<in> set (static_successors gn a))\<^sup>*\<^sup>* h x" "i = identity_at gn x"
      by (auto simp: reach_start)
    from x(1) have "\<exists>y \<in> static_walk.reach go k. ?pair x y"
    proof (induction rule: rtranclp_induct)
      case base
      then show ?case using start static_walk.reach_refl by blast
    next
      case (step x z)
      then obtain y where y: "y \<in> static_walk.reach go k" "?pair x y" by blast
      have "identity_at gn z \<in> identity_at go ` set (static_successors go y)"
        unfolding succ [OF y(2)] by (rule imageI [OF step.hyps(2)])
      then obtain y' where "y' \<in> set (static_successors go y)" "identity_at go y' = identity_at gn z" by auto
      with y next_pair step.hyps(2) static_walk.reach_step show ?case by blast
    qed
    with x(2) show "i \<in> identity_at go ` static_walk.reach go k" by force
  }
qed

lemma map_opt_inverse:
  assumes "map_opt f (map g xs) = Some ys" and "\<And>x. x \<in> set xs \<Longrightarrow> f (g x) = Some x"
  shows "ys = xs"
  using assms by (induction xs arbitrary: ys) (auto simp: bind_simps)

theorem kept_static_memos_ok:
  assumes wfo: "graph_wf go" and wfp: "graph_wf gp" and wfn: "graph_wf gn" and w: "static_edges_within gp gn"
    and ids: "distinct (map m_identity (gs_modules gp))"
    and dom: "dom (cc_modules cc) \<subseteq> m_identity ` set (gs_modules go)" and valid: "static_memos_valid go cc"
    and same: "\<forall>h < length (gs_modules gn). h \<notin> touched gp (changed_modules gp cc) \<longrightarrow> same_static_successors go gn h"
    and prep: "prepare_before_chunk_graph gp cc = Some cc'"
  shows "memo_ok (\<lambda>i. fst (get_static_reachable i cc')) gn"
  unfolding memo_ok_def
proof (intro allI impI)
  fix h ms assume h: "h < length (gs_modules gn)" and g: "fst (get_static_reachable (identity_at gn h) cc') = Some ms"
  from w have mods: "gs_modules gn = gs_modules gp" by (simp add: static_edges_within_def)
  from g obtain e js where e: "cc_modules cc' (identity_at gn h) = Some e" "ce_reachable e = Some js"
    "map_opt (cc_handles cc') js = Some ms"
    by (auto simp: get_static_reachable_def Let_def bind_simps)
  from prepare_before_chunk_graph_spec [OF wfp ids, of cc] prep h
  have hd: "\<And>x. x < length (gs_modules gn) \<Longrightarrow> cc_handles cc' (identity_at gn x) = Some x"
    and ent: "if h \<in> touched gp (changed_modules gp cc)
        then cc_modules cc' (identity_at gn h) = Some (new_entry (signature_of gp h))
        else cc_modules cc' (identity_at gn h) = cc_modules cc (identity_at gn h)"
    by (auto simp: mods)
  have nt: "h \<notin> touched gp (changed_modules gp cc)"
    using ent e by (auto simp: new_entry_def split: if_splits)
  then have e0: "cc_modules cc (identity_at gn h) = Some e" using ent e(1) by simp
  then have "identity_at gn h \<in> m_identity ` set (gs_modules go)" using dom by blast
  then obtain k where k: "k < length (gs_modules go)" "identity_at go k = identity_at gn h"
    by (auto simp: in_set_conv_nth)
  have d: "distinct js" and s: "set js = identity_at go ` static_walk.reach go k"
    using valid k e0 e(2) by (auto simp: static_memos_valid_def)
  from same have same': "\<And>x. x < length (gs_modules gn) \<Longrightarrow> x \<notin> touched gp (changed_modules gp cc) \<Longrightarrow>
      same_static_successors go gn x" by blast
  have "identity_at go ` static_walk.reach go k = identity_at gn ` static_walk.reach gn h"
    by (rule same_reach [OF wfo wfn w k h nt same'])
  with s have si: "set js = identity_at gn ` static_walk.reach gn h" by (rule trans)
  have len: "length js = length ms" using map_opt_length [OF e(3)] by simp
  have at: "ms ! i < length (gs_modules gn) \<and> js ! i = identity_at gn (ms ! i) \<and> ms ! i \<in> static_walk.reach gn h"
    if "i < length ms" for i
  proof -
    have "js ! i \<in> set js" using that len by simp
    then obtain x where x: "x \<in> static_walk.reach gn h" "js ! i = identity_at gn x" using si by auto
    with hd [of x] static_walk.reach_range [OF wfn h x(1)] map_opt_nth [OF e(3), of i] that len
    show ?thesis by simp
  qed
  have "distinct ms"
  proof -
    have "js = map (identity_at gn) ms" using at len by (intro nth_equalityI) simp_all
    with d show ?thesis by (simp add: distinct_map)
  qed
  moreover have "set ms = static_walk.reach gn h"
  proof
    show "set ms \<subseteq> static_walk.reach gn h" using at by (auto simp: in_set_conv_nth)
    show "static_walk.reach gn h \<subseteq> set ms"
    proof
      fix x assume x: "x \<in> static_walk.reach gn h"
      then have "identity_at gn x \<in> set js" using si by auto
      then obtain i where "i < length js" "js ! i = identity_at gn x" by (auto simp: in_set_conv_nth)
      with map_opt_nth [OF e(3), of i] hd [OF static_walk.reach_range [OF wfn h x]] len
      have "Some (ms ! i) = Some x" "i < length ms" by simp_all
      then show "x \<in> set ms" by auto
    qed
  qed
  ultimately show "distinct ms \<and> set ms = static_walk.reach gn h" ..
qed

section \<open>The optimizations stay within what was imported\<close>

lemma redirect_frame [simp]:
  "cn_origin (redirect r c) = cn_origin c" "cn_block (redirect r c) = cn_block c"
  "cn_handle (redirect r c) = cn_handle c"
  by (auto simp: redirect_def split: option.splits prod.splits)

lemma follows_imported: "follows mg p q \<Longrightarrow> imported_by mg (fst q) (fst p)"
  unfolding follows_def imported_by_def
  by (elim conjE exE) (drule next_reexport_member, auto)

lemma follows_chain_imported: "(follows mg)\<^sup>+\<^sup>+ p q \<Longrightarrow> (imported_by mg)\<^sup>*\<^sup>* (fst q) (fst p)"
  by (induction rule: tranclp_induct) (auto intro: follows_imported converse_rtranclp_into_rtranclp)

theorem optimize_keeps_within:
  assumes wf: "graph_wf mg" and len: "length (mg_exports mg) = length (gs_modules mg)"
    and o: "optimize_dependencies mg = Some mg'"
  shows "static_edges_within mg mg'"
  unfolding static_edges_within_def
proof (intro conjI allI impI)
  from optimize_dependencies_spec [OF wf len] o have
    wf': "graph_wf mg'" and mods: "gs_modules mg' = gs_modules mg" and cl: "length (gs_connections mg') = length (gs_connections mg)"
    and r: "\<And>i. i < length (gs_connections mg) \<Longrightarrow> \<exists>r. (\<forall>q. r = Some q \<longrightarrow> rewrite_ok mg (gs_connections mg ! i) q) \<and>
       gs_connections mg' ! i = (redirect r (gs_connections mg ! i))
         \<lparr>cn_state := if connection_needed mg' (gs_connections mg' ! i) then Active else Inactive\<rparr>" by auto
  show "gs_modules mg' = gs_modules mg" by (rule mods)
  fix a b assume b: "b \<in> set (static_successors mg' a)"
  have "a < length (gs_modules mg')"
  proof (rule ccontr)
    assume "\<not> a < length (gs_modules mg')"
    then have "outgoing_connections mg' a = None"
      using graph_wfD(1) [OF wf'] by (simp add: outgoing_connections_def vec_get_def)
    with b show False by (simp add: static_successors_def)
  qed
  with b obtain c' where c': "c' \<in> set (gs_connections mg')" "cn_origin c' = Some a" "cn_module c' = b"
    by (auto simp: static_successors_def outgoing_connections_spec [OF wf'])
  then obtain i where i: "i < length (gs_connections mg)" "gs_connections mg' ! i = c'"
    using cl by (auto simp: in_set_conv_nth)
  let ?c = "gs_connections mg ! i"
  from r [OF i(1)] obtain q where q: "\<forall>p. q = Some p \<longrightarrow> rewrite_ok mg ?c p"
    and e: "gs_connections mg' ! i = (redirect q ?c)
       \<lparr>cn_state := if connection_needed mg' (gs_connections mg' ! i) then Active else Inactive\<rparr>" by blast
  have f: "cn_origin (gs_connections mg' ! i) = cn_origin ?c" "cn_module (gs_connections mg' ! i) = cn_module (redirect q ?c)"
    by (subst e, simp)+
  with i(2) c' have o1: "cn_origin ?c = Some a" and m1: "cn_module (redirect q ?c) = b" by simp_all
  have imp: "imported_by mg (cn_module ?c) a" using i(1) o1 by (auto simp: imported_by_def)
  show "(imported_by mg)\<^sup>*\<^sup>* b a"
  proof (cases q)
    case None
    with m1 imp show ?thesis by (auto simp: redirect_def)
  next
    case (Some p)
    obtain h m y where p: "p = (h, m, y)" by (cases p)
    with q Some obtain x where "(follows mg)\<^sup>+\<^sup>+ (cn_module ?c, x) (m, y)" by (auto simp: rewrite_ok_def)
    from follows_chain_imported [OF this] have "(imported_by mg)\<^sup>*\<^sup>* m (cn_module ?c)" by simp
    moreover have "m = b" using m1 Some p by (simp add: redirect_def)
    ultimately show ?thesis using imp by (auto intro: rtranclp.rtrancl_into_rtrancl)
  qed
qed

section \<open>Storing and reading\<close>

text \<open>A get answers what the last store of that identity put there, and other identities are not disturbed.\<close>

lemma store_then_get:
  "store_provided_exports i info cc = Some cc' \<Longrightarrow>
     fst (get_provided_exports j cc') = (if j = i then Some info else fst (get_provided_exports j cc))"
  "store_runtime_requirements i rs cc = Some cc' \<Longrightarrow>
     fst (get_runtime_requirements j cc') = (if j = i then Some rs else fst (get_runtime_requirements j cc))"
  "store_module_hash i hash cc = Some cc' \<Longrightarrow>
     fst (get_module_hash j cc') = (if j = i then Some hash else fst (get_module_hash j cc))"
  by (auto simp: store_provided_exports_def store_runtime_requirements_def store_module_hash_def
      modify_entry_def modify_post_def bind_simps get_provided_exports_def get_runtime_requirements_def
      get_module_hash_def Let_def)

lemma store_reachable_then_get:
  assumes "store_static_reachable i ms mg cc = Some cc'"
    and "\<And>h. h \<in> set ms \<Longrightarrow> cc_handles cc (identity_at mg h) = Some h"
  shows "fst (get_static_reachable j cc') = (if j = i then Some ms else fst (get_static_reachable j cc))"
proof -
  from assms(1) obtain ids e where
    ids: "map_opt (\<lambda>h. map_option m_identity (graph_module mg h)) ms = Some ids"
    and e: "cc_modules cc i = Some e"
    and cc': "cc' = cc\<lparr>cc_modules := (cc_modules cc)(i \<mapsto> e\<lparr>ce_reachable := Some ids\<rparr>)\<rparr>"
    by (auto simp: store_static_reachable_def modify_entry_def bind_simps)
  have "ids = map (identity_at mg) ms"
  proof (rule nth_equalityI)
    show "length ids = length (map (identity_at mg) ms)" using map_opt_length [OF ids] by simp
    fix k assume "k < length ids"
    then have k: "k < length ms" using map_opt_length [OF ids] by simp
    from map_opt_nth [OF ids k] have "graph_module mg (ms ! k) \<noteq> None" by auto
    with map_opt_nth [OF ids k] show "ids ! k = map (identity_at mg) ms ! k"
      using k by (auto simp: graph_module_def vec_simps)
  qed
  moreover have "map_opt (cc_handles cc) (map (identity_at mg) ms) = Some ms"
    using assms(2) by (induction ms) auto
  ultimately show ?thesis by (simp add: cc' get_static_reachable_def Let_def e)
qed

section \<open>The later stage\<close>

definition post_signature_of :: "module_graph \<Rightarrow> chunk_graph \<Rightarrow> nat \<Rightarrow> post_signature" where
  "post_signature_of mg g h = the (post_id_assignment_signature mg g h)"

definition fresh_post :: "post_signature \<Rightarrow> post_entry" where
  "fresh_post s = \<lparr>po_signature = s, po_requirements = None, po_hash = None\<rparr>"

definition kept_post :: "post_signature \<Rightarrow> post_entry option \<Rightarrow> post_entry" where
  "kept_post s p = (case p of Some q \<Rightarrow> if po_signature q = s then q else fresh_post s | None \<Rightarrow> fresh_post s)"

lemma prepare_post_entry_ok:
  assumes "cc_modules cc i = Some e"
  shows "\<exists>cc'. prepare_post_entry (i, s) cc = Some cc' \<and> cc_handles cc' = cc_handles cc \<and>
    cc_modules cc' = (cc_modules cc)(i \<mapsto> e\<lparr>ce_post := Some (kept_post s (ce_post e))\<rparr>)"
proof -
  have "e\<lparr>ce_post := ce_post e\<rparr> = e" by simp
  then show ?thesis
    using assms by (cases "ce_post e") (auto simp: prepare_post_entry_def kept_post_def fresh_post_def Let_def)
qed

lemma fold_prepare_post:
  assumes "distinct (map fst sigs)" and "\<forall>i \<in> fst ` set sigs. cc_modules cc i \<noteq> None"
  shows "\<exists>cc'. fold_opt prepare_post_entry sigs cc = Some cc' \<and> cc_handles cc' = cc_handles cc \<and>
    (\<forall>i. cc_modules cc' i = (case map_of sigs i of None \<Rightarrow> cc_modules cc i
       | Some s \<Rightarrow> map_option (\<lambda>e. e\<lparr>ce_post := Some (kept_post s (ce_post e))\<rparr>) (cc_modules cc i)))"
  using assms
proof (induction sigs arbitrary: cc)
  case (Cons x sigs)
  obtain i s where x: "x = (i, s)" by (cases x)
  with Cons.prems(2) obtain e where e: "cc_modules cc i = Some e" by auto
  from prepare_post_entry_ok [OF e, of s] obtain cc1 where
    c1: "prepare_post_entry (i, s) cc = Some cc1" "cc_handles cc1 = cc_handles cc"
      "cc_modules cc1 = (cc_modules cc)(i \<mapsto> e\<lparr>ce_post := Some (kept_post s (ce_post e))\<rparr>)" by blast
  have ni: "map_of sigs i = None" using Cons.prems(1) by (simp add: x map_of_eq_None_iff)
  have "distinct (map fst sigs)" "\<forall>j \<in> fst ` set sigs. cc_modules cc1 j \<noteq> None"
    using Cons.prems by (auto simp: c1(3))
  from Cons.IH [OF this] obtain cc' where
    c': "fold_opt prepare_post_entry sigs cc1 = Some cc'" "cc_handles cc' = cc_handles cc1"
      "\<And>j. cc_modules cc' j = (case map_of sigs j of None \<Rightarrow> cc_modules cc1 j
         | Some s \<Rightarrow> map_option (\<lambda>e. e\<lparr>ce_post := Some (kept_post s (ce_post e))\<rparr>) (cc_modules cc1 j))" by blast
  have "cc_modules cc' j = (case map_of (x # sigs) j of None \<Rightarrow> cc_modules cc j
       | Some s \<Rightarrow> map_option (\<lambda>e. e\<lparr>ce_post := Some (kept_post s (ce_post e))\<rparr>) (cc_modules cc j))" for j
    using ni e by (cases "j = i") (simp_all add: c'(3) c1(3) x split: option.split)
  moreover have "fold_opt prepare_post_entry (x # sigs) cc = Some cc'" using c1(1) c'(1) by (simp add: x)
  ultimately show ?case using c1(2) c'(2) by auto
qed simp

theorem prepare_after_id_assignment_spec:
  assumes wf: "graph_wf mg" and ids: "distinct (map m_identity (gs_modules mg))"
    and dom: "m_identity ` set (gs_modules mg) \<subseteq> dom (cc_modules cc)"
    and tot: "\<forall>h < length (gs_modules mg). post_id_assignment_signature mg g h \<noteq> None"
  shows "\<exists>cc'. prepare_after_id_assignment mg g cc = Some cc' \<and> cc_handles cc' = cc_handles cc \<and>
    (\<forall>h < length (gs_modules mg). cc_modules cc' (identity_at mg h) =
       map_option (\<lambda>e. e\<lparr>ce_post := Some (kept_post (post_signature_of mg g h) (ce_post e))\<rparr>)
         (cc_modules cc (identity_at mg h)))"
proof -
  let ?n = "length (gs_modules mg)"
  let ?sigs = "map (\<lambda>h. (identity_at mg h, post_signature_of mg g h)) [0..<?n]"
  have "map_opt (\<lambda>m. map_option (\<lambda>s. (m_identity m, s)) (post_id_assignment_signature mg g (m_handle m))) (gs_modules mg) =
      Some (map (\<lambda>m. (m_identity m, post_signature_of mg g (m_handle m))) (gs_modules mg))"
  proof (rule map_opt_total)
    fix m assume "m \<in> set (gs_modules mg)"
    then obtain i where "i < ?n" "m = gs_modules mg ! i" by (auto simp: in_set_conv_nth)
    with tot graph_wf_handle [OF wf, of i] obtain s where "post_id_assignment_signature mg g (m_handle m) = Some s" by auto
    then show "map_option (\<lambda>s. (m_identity m, s)) (post_id_assignment_signature mg g (m_handle m)) =
        Some (m_identity m, post_signature_of mg g (m_handle m))" by (simp add: post_signature_of_def)
  qed
  also have "map (\<lambda>m. (m_identity m, post_signature_of mg g (m_handle m))) (gs_modules mg) = ?sigs"
    using graph_wf_handle [OF wf] by (intro nth_equalityI) simp_all
  finally have s: "map_opt (\<lambda>m. map_option (\<lambda>s. (m_identity m, s)) (post_id_assignment_signature mg g (m_handle m))) (gs_modules mg) = Some ?sigs" .
  have d: "distinct (map fst ?sigs)"
  proof -
    have "map fst ?sigs = map m_identity (gs_modules mg)" by (rule nth_equalityI) simp_all
    with ids show ?thesis by simp
  qed
  have "\<forall>i \<in> fst ` set ?sigs. cc_modules cc i \<noteq> None" using dom by force
  from fold_prepare_post [OF d this] obtain cc' where
    c: "fold_opt prepare_post_entry ?sigs cc = Some cc'" "cc_handles cc' = cc_handles cc"
      "\<And>i. cc_modules cc' i = (case map_of ?sigs i of None \<Rightarrow> cc_modules cc i
         | Some s \<Rightarrow> map_option (\<lambda>e. e\<lparr>ce_post := Some (kept_post s (ce_post e))\<rparr>) (cc_modules cc i))" by blast
  have at: "map_of ?sigs (identity_at mg h) = Some (post_signature_of mg g h)" if "h < ?n" for h
    using d that by (intro map_of_is_SomeI) auto
  have "prepare_after_id_assignment mg g cc = Some cc'"
    by (simp only: prepare_after_id_assignment_def s bind.bind_lunit c(1))
  with c(2,3) at show ?thesis by auto
qed

section \<open>Over one compilation\<close>

lemma static_edges_within_refl:
  assumes wf: "graph_wf mg"
  shows "static_edges_within mg mg"
proof -
  have "imported_by mg b a" if "b \<in> set (static_successors mg a)" for a b
  proof -
    from that obtain cs where "outgoing_connections mg a = Some cs"
      by (cases "outgoing_connections mg a") (auto simp: static_successors_def)
    then have "a < length (gs_modules mg)" using outgoing_in_range graph_wfD(1) [OF wf] by metis
    with that show ?thesis by (auto simp: static_successors_def outgoing_connections_spec [OF wf] imported_by_def)
  qed
  then show ?thesis by (auto simp: static_edges_within_def)
qed

lemma same_static_successors_refl:
  assumes "distinct (map m_identity (gs_modules mg))" and "h < length (gs_modules mg)"
  shows "same_static_successors mg mg h"
proof -
  have "k = h" if "k < length (gs_modules mg)" "identity_at mg k = identity_at mg h" for k
    using nth_eq_iff_index_eq [OF assms(1), of k h] that assms(2) by simp
  then show ?thesis by (auto simp: same_static_successors_def)
qed

lemma fresh_memos_valid:
  assumes wf: "graph_wf mg" and ids: "distinct (map m_identity (gs_modules mg))"
    and p: "prepare_before_chunk_graph mg empty_computation_cache = Some cc"
  shows "static_memos_valid mg cc \<and> dom (cc_modules cc) = m_identity ` set (gs_modules mg)"
proof -
  from prepare_before_chunk_graph_spec [OF wf ids, of empty_computation_cache] p have
    d: "dom (cc_modules cc) = m_identity ` set (gs_modules mg)"
    and e: "\<And>h. h < length (gs_modules mg) \<Longrightarrow>
      (if h \<in> touched mg (changed_modules mg empty_computation_cache)
        then cc_modules cc (identity_at mg h) = Some (new_entry (signature_of mg h))
        else \<exists>e. cc_modules empty_computation_cache (identity_at mg h) = Some e)" by (auto split: if_splits)
  have "cc_modules cc (identity_at mg h) = Some (new_entry (signature_of mg h))" if "h < length (gs_modules mg)" for h
    using e [OF that] by (simp add: empty_computation_cache_def split: if_splits)
  with d show ?thesis by (simp add: static_memos_valid_def new_entry_def)
qed

lemma store_static_valid:
  assumes wf: "graph_wf mg" and ids: "distinct (map m_identity (gs_modules mg))" and h: "h < length (gs_modules mg)"
    and ms: "distinct ms" "set ms = static_walk.reach mg h"
    and valid: "static_memos_valid mg cc" and dom: "dom (cc_modules cc) = m_identity ` set (gs_modules mg)"
  shows "\<exists>cc'. store_static_reachable (identity_at mg h) ms mg cc = Some cc' \<and> static_memos_valid mg cc' \<and>
    dom (cc_modules cc') = dom (cc_modules cc) \<and> cc_handles cc' = cc_handles cc"
proof -
  have rng: "x < length (gs_modules mg)" if "x \<in> set ms" for x
    using that ms(2) static_walk.reach_range [OF wf h] by simp
  have m: "map_opt (\<lambda>h. map_option m_identity (graph_module mg h)) ms = Some (map (identity_at mg) ms)"
    by (rule map_opt_total) (simp add: graph_module_def rng)
  have "identity_at mg h \<in> dom (cc_modules cc)" using h dom by simp
  then obtain e where e: "cc_modules cc (identity_at mg h) = Some e" by blast
  let ?cc = "cc\<lparr>cc_modules := (cc_modules cc)(identity_at mg h \<mapsto> e\<lparr>ce_reachable := Some (map (identity_at mg) ms)\<rparr>)\<rparr>"
  have s: "store_static_reachable (identity_at mg h) ms mg cc = Some ?cc"
    by (simp add: store_static_reachable_def modify_entry_def m e)
  have inj: "inj_on (identity_at mg) {..<length (gs_modules mg)}"
    using nth_eq_iff_index_eq [OF ids] by (intro inj_onI) simp
  have "distinct (map (identity_at mg) ms)"
    using ms(1) inj_on_subset [OF inj, of "set ms"] rng by (auto simp: distinct_map)
  moreover have "k = h" if "k < length (gs_modules mg)" "identity_at mg k = identity_at mg h" for k
    using inj_onD [OF inj that(2)] that(1) h by simp
  ultimately have "static_memos_valid mg ?cc"
    using valid ms(2) unfolding static_memos_valid_def by auto
  moreover have "dom (cc_modules ?cc) = dom (cc_modules cc)" using e by auto
  ultimately show ?thesis using s by auto
qed

end
