(* ===== verification/Naming.thy ===== *)
theory Naming
  imports Chunk_Graph
begin

text \<open>
  The rest of \<open>id_assignment.rs\<close>: the readable names and the keys of modules, and the assignment of
  render ids to the modules that are in chunks, and to the chunks.  Parameters are
  \<open>fs::canonicalize\<close> (\<open>canon\<close>) and the \<open>Debug\<close> output of a string (\<open>sd\<close>).
\<close>

section \<open>Paths in names\<close>

definition normalize_path :: "path \<Rightarrow> string" where
  "normalize_path p = map (\<lambda>c. if c = CHR 0x5C then CHR ''/'' else c) (path_string p)"

record path_context =
  pc_raw :: path
  pc_context :: path

definition path_context_new :: "(path \<Rightarrow> path option) \<Rightarrow> path \<Rightarrow> path_context" where
  "path_context_new canon context = \<lparr>pc_raw = context, pc_context = unwrap_or (canon context) context\<rparr>"

definition make_relative :: "(path \<Rightarrow> path option) \<Rightarrow> path_context \<Rightarrow> path \<Rightarrow> string" where
  "make_relative canon ctx resource =
     (case (case path_strip_prefix resource (pc_context ctx) of
              Some r \<Rightarrow> Some r | None \<Rightarrow> path_strip_prefix resource (pc_raw ctx)) of
        Some relative \<Rightarrow> normalize_path relative
      | None \<Rightarrow>
          let resource = unwrap_or (canon resource) resource
          in normalize_path (unwrap_or (path_strip_prefix resource (pc_context ctx)) resource))"

text \<open>\<open>Path::new\<close>, on the components that the string has.\<close>

definition make_request_relative ::
  "(path \<Rightarrow> path option) \<Rightarrow> (string \<Rightarrow> path) \<Rightarrow> path_context \<Rightarrow> string \<Rightarrow> string" where
  "make_request_relative canon parse ctx request =
     (let path = parse request
      in if is_absolute path then make_relative canon ctx path
         else map (\<lambda>c. if c = CHR 0x5C then CHR ''/'' else c) request)"

section \<open>Names and keys of modules\<close>

text \<open>The environment of a build: its parameters and its context directory.\<close>

record naming_env =
  ne_canon :: "path \<Rightarrow> path option"
  ne_parse :: "string \<Rightarrow> path"
  ne_debug :: "string \<Rightarrow> string"
  ne_context :: path_context

definition readable_module_name :: "naming_env \<Rightarrow> module_identity \<Rightarrow> string" where
  "readable_module_name env i =
     (let resource = make_relative (ne_canon env) (ne_context env) (mi_resource i)
      in if resource = '''' then ''''
         else concat (map (\<lambda>l. make_request_relative (ne_canon env) (ne_parse env) (ne_context env) l @ ''!'') (mi_loaders i))
           @ (if hd resource \<noteq> CHR ''.'' \<and> hd resource \<noteq> CHR ''/'' then ''./'' else '''')
           @ resource
           @ (case mi_query i of None \<Rightarrow> '''' | Some q \<Rightarrow> ''?'' @ dropWhile (\<lambda>c. c = CHR ''?'') q)
           @ (case mi_fragment i of None \<Rightarrow> '''' | Some f \<Rightarrow> ''#'' @ dropWhile (\<lambda>c. c = CHR ''#'') f)
           @ (case mi_layer i of None \<Rightarrow> '''' | Some l \<Rightarrow> ''|layer:'' @ l))"

fun module_type_debug :: "module_type \<Rightarrow> string" where
  "module_type_debug JavaScriptAuto = ''JavaScriptAuto''"
| "module_type_debug Json = ''Json''"
| "module_type_debug Asset = ''Asset''"
| "module_type_debug AssetResource = ''AssetResource''"
| "module_type_debug AssetInline = ''AssetInline''"
| "module_type_debug AssetSource = ''AssetSource''"

text \<open>\<open>{:?}\<close> of options and vectors of strings.\<close>

definition debug_option :: "(string \<Rightarrow> string) \<Rightarrow> string option \<Rightarrow> string" where
  "debug_option sd v = (case v of None \<Rightarrow> ''None'' | Some s \<Rightarrow> ''Some('' @ sd s @ '')'')"

definition debug_vec :: "(string \<Rightarrow> string) \<Rightarrow> string list \<Rightarrow> string" where
  "debug_vec sd v = ''['' @ join_with '', '' (map sd v) @ '']''"

definition module_identity_key :: "naming_env \<Rightarrow> module_identity \<Rightarrow> string" where
  "module_identity_key env i =
     ''type='' @ module_type_debug (mi_module_type i) @ '';loaders='' @ debug_vec (ne_debug env) (mi_loaders i)
       @ '';resource='' @ make_relative (ne_canon env) (ne_context env) (mi_resource i)
       @ '';query='' @ debug_option (ne_debug env) (mi_query i)
       @ '';fragment='' @ debug_option (ne_debug env) (mi_fragment i)
       @ '';layer='' @ debug_option (ne_debug env) (mi_layer i)"

function trim_current_dir :: "string \<Rightarrow> string" where
  "trim_current_dir s = (if prefix ''./'' s then trim_current_dir (drop 2 s) else s)"
  by pat_completeness auto
termination
  by (relation "measure length") (auto simp: prefix_def)

declare trim_current_dir.simps [simp del]

definition is_alphanumeric :: "char \<Rightarrow> bool" where
  "is_alphanumeric c \<longleftrightarrow> (let n = (of_char c :: nat) in
     48 \<le> n \<and> n < 58 \<or> 65 \<le> n \<and> n < 91 \<or> 97 \<le> n \<and> n < 123)"

definition request_to_id :: "string \<Rightarrow> string" where
  "request_to_id request = map (\<lambda>ch. case ch of [c] \<Rightarrow> if is_alphanumeric c then c else CHR ''_'' | _ \<Rightarrow> CHR ''_'')
     (utf8_chars (trim_current_dir request))"

section \<open>Ids of modules\<close>

definition module_candidates :: "naming_env \<Rightarrow> module_graph \<Rightarrow> chunk_graph \<Rightarrow> nat candidate list" where
  "module_candidates env mg g =
     map (\<lambda>m. (m_handle m, readable_module_name env (m_identity m), module_identity_key env (m_identity m)))
       (filter (\<lambda>m. module_chunks g (m_handle m) \<noteq> []) (gs_modules mg))"

definition assign_module_render_ids :: "naming_env \<Rightarrow> module_graph \<Rightarrow> chunk_graph \<Rightarrow> chunk_graph option" where
  "assign_module_render_ids env mg g = do {
     assigned \<leftarrow> assign_named_ids (module_candidates env mg g);
     fold_opt (\<lambda>(m, i). set_module_render_id m i) assigned g }"

section \<open>Ids of chunks\<close>

definition chunk_root_names :: "naming_env \<Rightarrow> module_graph \<Rightarrow> chunk \<Rightarrow> (string \<times> string) list" where
  "chunk_root_names env mg k = sort
     (map (\<lambda>m. (readable_module_name env (m_identity m), module_identity_key env (m_identity m)))
       (List.map_filter (graph_module mg) (ck_roots k)))"

definition async_candidate :: "naming_env \<Rightarrow> module_graph \<Rightarrow> chunk \<Rightarrow> nat candidate" where
  "async_candidate env mg k =
     (let roots = chunk_root_names env mg k
      in (ck_handle k,
          join_with ''-'' (filter (\<lambda>n. n \<noteq> '''') (map (request_to_id \<circ> fst) roots)),
          ''async:'' @ join_with ''|'' (map snd roots)))"

definition entry_candidates :: "chunk_graph \<Rightarrow> nat candidate list" where
  "entry_candidates g = List.map_filter
     (\<lambda>k. map_option (\<lambda>name. (ck_handle k, name, ''entry:'' @ name)) (ck_name k)) (cg_chunks g)"

definition async_candidates :: "naming_env \<Rightarrow> module_graph \<Rightarrow> chunk_graph \<Rightarrow> nat candidate list" where
  "async_candidates env mg g =
     map (async_candidate env mg) (filter (\<lambda>k. ck_name k = None) (cg_chunks g))"

definition assign_chunk_render_ids :: "naming_env \<Rightarrow> module_graph \<Rightarrow> chunk_graph \<Rightarrow> chunk_graph option" where
  "assign_chunk_render_ids env mg g = do {
     entries \<leftarrow> assign_named_ids (entry_candidates g);
     asyncs \<leftarrow> assign_named_ids_with_reserved (async_candidates env mg g)
       (set (map (\<lambda>(_, i). rid_display i) entries));
     fold_opt (\<lambda>(c, i). set_chunk_render_id c i) (entries @ asyncs) g }"

section \<open>Every module in a chunk has its own id\<close>

lemma set_module_render_id_ok:
  "\<exists>g'. set_module_render_id m i g = Some g' \<and> g' = g\<lparr>cg_module_ids := cg_module_ids g'\<rparr> \<and>
     (\<forall>x. module_render_id g' x = (if x = m then Some i else module_render_id g x))"
proof -
  let ?ids = "if length (cg_module_ids g) \<le> m then vec_resize (m + 1) None (cg_module_ids g) else cg_module_ids g"
  let ?g' = "g\<lparr>cg_module_ids := ?ids[m := Some i]\<rparr>"
  have m: "m < length ?ids" by simp
  then have "set_module_render_id m i g = Some ?g'" by (simp add: set_module_render_id_def Let_def)
  moreover have "module_render_id ?g' x = (if x = m then Some i else module_render_id g x)" for x
    using m by (auto simp: module_render_id_def vec_get_def nth_list_update nth_vec_resize split: if_splits)
  ultimately show ?thesis by (intro exI [of _ ?g']) simp
qed

lemma set_module_render_ids:
  assumes "distinct (map fst assigned)"
  shows "\<exists>g'. fold_opt (\<lambda>(m, i). set_module_render_id m i) assigned g = Some g' \<and>
    g' = g\<lparr>cg_module_ids := cg_module_ids g'\<rparr> \<and>
    (\<forall>x. module_render_id g' x = (case map_of assigned x of None \<Rightarrow> module_render_id g x | Some i \<Rightarrow> Some i))"
  using assms
proof (induction assigned arbitrary: g)
  case (Cons a assigned)
  obtain m i where a: "a = (m, i)" by (cases a)
  with Cons.prems have ni: "map_of assigned m = None" by (simp add: map_of_eq_None_iff)
  from set_module_render_id_ok [of m i g] obtain g1 where
    g1: "set_module_render_id m i g = Some g1" "g1 = g\<lparr>cg_module_ids := cg_module_ids g1\<rparr>"
      "\<And>x. module_render_id g1 x = (if x = m then Some i else module_render_id g x)" by blast
  from Cons.prems have "distinct (map fst assigned)" by simp
  from Cons.IH [OF this, of g1] obtain g2 where
    g2: "fold_opt (\<lambda>(m, i). set_module_render_id m i) assigned g1 = Some g2"
      "g2 = g1\<lparr>cg_module_ids := cg_module_ids g2\<rparr>"
      "\<And>x. module_render_id g2 x = (case map_of assigned x of None \<Rightarrow> module_render_id g1 x | Some i \<Rightarrow> Some i)"
    by blast
  have "g2 = g\<lparr>cg_module_ids := cg_module_ids g2\<rparr>"
    by (subst g2(2), subst g1(2)) simp
  moreover have "module_render_id g2 x =
      (case map_of (a # assigned) x of None \<Rightarrow> module_render_id g x | Some i \<Rightarrow> Some i)" for x
    using ni by (cases "x = m") (simp_all add: g2(3) g1(3) a split: option.split)
  moreover have "fold_opt (\<lambda>(m, i). set_module_render_id m i) (a # assigned) g = Some g2"
    using g1(1) g2(1) by (simp add: a)
  ultimately show ?case by blast
qed simp

lemma assigned_inj:
  assumes "distinct (map (rid_display \<circ> snd) assigned)" and "map_of assigned x = Some i" "map_of assigned y = Some j"
    and "rid_display i = rid_display j"
  shows "x = y"
proof -
  have "inj_on (rid_display \<circ> snd) (set assigned)" using assms(1) by (simp add: distinct_map)
  from inj_onD [OF this _ map_of_SomeD [OF assms(2)] map_of_SomeD [OF assms(3)]] assms(4) show ?thesis by simp
qed

theorem assign_module_render_ids_spec:
  assumes wf: "graph_wf mg" and small: "length (gs_modules mg) + 1 < 2 ^ 32"
  shows "\<exists>g'. assign_module_render_ids env mg g = Some g' \<and> g' = g\<lparr>cg_module_ids := cg_module_ids g'\<rparr> \<and>
    (\<forall>m < length (gs_modules mg). if module_chunks g m = [] then module_render_id g' m = module_render_id g m
       else \<exists>i. module_render_id g' m = Some i \<and>
         (\<forall>k < length (gs_modules mg). module_chunks g k \<noteq> [] \<longrightarrow> k \<noteq> m \<longrightarrow>
            (\<forall>j. module_render_id g' k = Some j \<longrightarrow> rid_display j \<noteq> rid_display i)))"
proof -
  let ?n = "length (gs_modules mg)" and ?cs = "module_candidates env mg g"
  have keys: "map fst ?cs = filter (\<lambda>m. module_chunks g m \<noteq> []) [0..<?n]"
  proof -
    have "map fst ?cs = filter (\<lambda>m. module_chunks g m \<noteq> []) (map m_handle (gs_modules mg))"
      by (simp add: module_candidates_def filter_map comp_def)
    also have "map m_handle (gs_modules mg) = [0..<?n]"
      using graph_wf_handle [OF wf] by (intro nth_equalityI) simp_all
    finally show ?thesis .
  qed
  have "length ?cs \<le> ?n" by (simp add: module_candidates_def)
  then have "card ({} :: string set) + length ?cs + 1 < 2 ^ 32" using small by simp
  from assign_named_ids_unique [OF finite.emptyI this] obtain assigned where
    a: "assign_named_ids ?cs = Some assigned" "mset (map fst assigned) = mset (map fst ?cs)"
      "distinct (map (rid_display \<circ> snd) assigned)"
    by (auto simp: assign_named_ids_def names_def)
  have "distinct (map fst assigned)" using a(2) keys by (metis distinct_filter distinct_upt mset_eq_imp_distinct_iff)
  from set_module_render_ids [OF this, of g] obtain g' where
    g': "fold_opt (\<lambda>(m, i). set_module_render_id m i) assigned g = Some g'"
      "g' = g\<lparr>cg_module_ids := cg_module_ids g'\<rparr>"
      "\<And>x. module_render_id g' x = (case map_of assigned x of None \<Rightarrow> module_render_id g x | Some i \<Rightarrow> Some i)" by blast
  have "set (map fst assigned) = {m. m < ?n \<and> module_chunks g m \<noteq> []}"
    using arg_cong [OF a(2), of set_mset] keys by auto
  then have dom: "map_of assigned m \<noteq> None \<longleftrightarrow> m < ?n \<and> module_chunks g m \<noteq> []" for m
    by (auto simp: map_of_eq_None_iff)
  have "if module_chunks g m = [] then module_render_id g' m = module_render_id g m
       else \<exists>i. module_render_id g' m = Some i \<and>
         (\<forall>k < ?n. module_chunks g k \<noteq> [] \<longrightarrow> k \<noteq> m \<longrightarrow>
            (\<forall>j. module_render_id g' k = Some j \<longrightarrow> rid_display j \<noteq> rid_display i))" if m: "m < ?n" for m
  proof (cases "map_of assigned m")
    case None
    with dom [of m] m show ?thesis by (simp add: g'(3))
  next
    case (Some i)
    have "rid_display j \<noteq> rid_display i" if "k < ?n" "module_chunks g k \<noteq> []" "k \<noteq> m" "module_render_id g' k = Some j" for k j
    proof -
      from dom [of k] that(1,2) obtain j' where "map_of assigned k = Some j'" by blast
      with that(3,4) assigned_inj [OF a(3), of k _ m] Some show ?thesis by (auto simp: g'(3))
    qed
    with Some dom [of m] show ?thesis by (auto simp: g'(3))
  qed
  moreover have "assign_module_render_ids env mg g = Some g'"
    by (simp only: assign_module_render_ids_def a(1) bind.bind_lunit g'(1))
  ultimately show ?thesis using g'(2) by blast
qed

section \<open>Every chunk has its own id\<close>

lemma set_chunk_render_ids:
  assumes "distinct (map fst assigned)" and "\<forall>c \<in> fst ` set assigned. c < length (cg_chunks g)"
  shows "\<exists>g'. fold_opt (\<lambda>(c, i). set_chunk_render_id c i) assigned g = Some g' \<and>
    g' = g\<lparr>cg_chunks := cg_chunks g'\<rparr> \<and>
    cg_chunks g' = map (\<lambda>c. case map_of assigned c of None \<Rightarrow> cg_chunks g ! c
      | Some i \<Rightarrow> (cg_chunks g ! c)\<lparr>ck_render_id := Some i\<rparr>) [0..<length (cg_chunks g)]"
  using assms
proof (induction assigned arbitrary: g)
  case Nil
  have "map ((!) (cg_chunks g)) [0..<length (cg_chunks g)] = cg_chunks g" by (rule map_nth)
  then show ?case by simp
next
  case (Cons a assigned)
  obtain c i where a: "a = (c, i)" by (cases a)
  let ?cs = "(cg_chunks g)[c := (cg_chunks g ! c)\<lparr>ck_render_id := Some i\<rparr>]"
  let ?g1 = "g\<lparr>cg_chunks := ?cs\<rparr>"
  have c: "c < length (cg_chunks g)" and ni: "map_of assigned c = None"
    using Cons.prems by (auto simp: a map_of_eq_None_iff)
  have s1: "set_chunk_render_id c i g = Some ?g1" using c by (simp add: set_chunk_render_id_def)
  from Cons.prems have "distinct (map fst assigned)" "\<forall>c \<in> fst ` set assigned. c < length (cg_chunks ?g1)" by simp_all
  have gc: "cg_chunks ?g1 = ?cs" by simp
  from Cons.IH [OF \<open>distinct (map fst assigned)\<close> \<open>\<forall>c \<in> fst ` set assigned. c < length (cg_chunks ?g1)\<close>] obtain g2 where
    g2: "fold_opt (\<lambda>(c, i). set_chunk_render_id c i) assigned ?g1 = Some g2"
      "g2 = ?g1\<lparr>cg_chunks := cg_chunks g2\<rparr>"
      "cg_chunks g2 = map (\<lambda>d. case map_of assigned d of None \<Rightarrow> ?cs ! d
        | Some i \<Rightarrow> (?cs ! d)\<lparr>ck_render_id := Some i\<rparr>) [0..<length (cg_chunks g)]"
    unfolding gc length_list_update by (elim exE conjE) (rule that)
  have "cg_chunks g2 = map (\<lambda>d. case map_of (a # assigned) d of None \<Rightarrow> cg_chunks g ! d
      | Some i \<Rightarrow> (cg_chunks g ! d)\<lparr>ck_render_id := Some i\<rparr>) [0..<length (cg_chunks g)]"
    unfolding g2(3) by (rule map_cong) (use ni c in \<open>auto simp: a nth_list_update split: option.split\<close>)
  moreover have "g2 = g\<lparr>cg_chunks := cg_chunks g2\<rparr>" by (subst g2(2)) simp
  moreover have "fold_opt (\<lambda>(c, i). set_chunk_render_id c i) (a # assigned) g = Some g2"
    using s1 g2(1) by (simp add: a)
  ultimately show ?case by blast
qed

lemma mset_partition: "mset (filter P xs) + mset (filter (\<lambda>x. \<not> P x) xs) = mset xs"
  by (induction xs) auto

theorem assign_chunk_render_ids_spec:
  assumes wf: "chunk_graph_wf g" and small: "length (cg_chunks g) + 1 < 2 ^ 32"
  shows "\<exists>g'. assign_chunk_render_ids env mg g = Some g' \<and> g' = g\<lparr>cg_chunks := cg_chunks g'\<rparr> \<and>
    length (cg_chunks g') = length (cg_chunks g) \<and>
    (\<forall>c < length (cg_chunks g). \<exists>i. cg_chunks g' ! c = (cg_chunks g ! c)\<lparr>ck_render_id := Some i\<rparr> \<and>
       (\<forall>d < length (cg_chunks g). d \<noteq> c \<longrightarrow>
          (\<forall>j. ck_render_id (cg_chunks g' ! d) = Some j \<longrightarrow> rid_display j \<noteq> rid_display i)))"
proof -
  let ?n = "length (cg_chunks g)" and ?es = "entry_candidates g" and ?as = "async_candidates env mg g"
  have h: "map ck_handle (cg_chunks g) = [0..<?n]"
    using wf by (intro nth_equalityI) (simp_all add: chunk_graph_wf_def sizes_ok_def)
  have e: "map fst ?es = map ck_handle (filter (\<lambda>k. ck_name k \<noteq> None) (cg_chunks g))"
  proof -
    have "map fst (List.map_filter (\<lambda>k. map_option (\<lambda>name. (ck_handle k, name, ''entry:'' @ name)) (ck_name k)) ks) =
        map ck_handle (filter (\<lambda>k. ck_name k \<noteq> None) ks)" for ks
      by (induction ks) (auto simp: List.map_filter_simps split: option.splits)
    then show ?thesis by (simp only: entry_candidates_def)
  qed
  have a: "map fst ?as = map ck_handle (filter (\<lambda>k. ck_name k = None) (cg_chunks g))"
    by (simp add: async_candidates_def async_candidate_def Let_def comp_def)
  have "mset (map fst ?es) + mset (map fst ?as) = mset (map ck_handle (cg_chunks g))"
    unfolding e a using mset_partition [of "\<lambda>k. ck_name k \<noteq> None" "cg_chunks g"]
    by (metis (no_types, lifting) filter_cong image_mset_union mset_map not_None_eq option.simps(3))
  then have keys: "mset (map fst ?es) + mset (map fst ?as) = mset [0..<?n]" by (simp only: h)
  have "size (mset (map fst ?es)) + size (mset (map fst ?as)) = ?n" using arg_cong [OF keys, of size] by simp
  then have len: "length ?es + length ?as = ?n" by simp
  have "card ({} :: string set) + length ?es + 1 < 2 ^ 32" using len small by simp
  from assign_named_ids_unique [OF finite.emptyI this] obtain es where
    es: "assign_named_ids ?es = Some es" "mset (map fst es) = mset (map fst ?es)" "distinct (names es)"
    by (auto simp: assign_named_ids_def)
  let ?R = "set (map (\<lambda>(_, i). rid_display i) es)"
  have R: "?R = set (names es)" by (simp add: names_def split_beta)
  have "length es = length ?es" using arg_cong [OF es(2), of size] by simp
  moreover have "length (names es) = length es" by (simp add: names_def)
  ultimately have "card ?R = length ?es" using distinct_card [OF es(3)] by (simp only: R)
  then have "card ?R + length ?as + 1 < 2 ^ 32" using len small by simp
  from assign_named_ids_unique [OF _ this] obtain as where
    as: "assign_named_ids_with_reserved ?as ?R = Some as" "mset (map fst as) = mset (map fst ?as)"
      "distinct (names as)" "?R \<inter> set (names as) = {}" by blast
  have dn: "distinct (map (rid_display \<circ> snd) (es @ as))"
    using es(3) as(3,4) unfolding R by (simp add: names_def)
  have ks: "mset (map fst (es @ as)) = mset [0..<?n]" using es(2) as(2) keys by simp
  have df: "distinct (map fst (es @ as))" using mset_eq_imp_distinct_iff [OF ks] by simp
  have sf: "fst ` set (es @ as) = {..<?n}" 
    using arg_cong [OF ks, of set_mset] by (simp only: set_mset_mset set_map set_upt atLeast0LessThan)
  from set_chunk_render_ids [OF df, of g] sf obtain g' where
    g': "fold_opt (\<lambda>(c, i). set_chunk_render_id c i) (es @ as) g = Some g'" "g' = g\<lparr>cg_chunks := cg_chunks g'\<rparr>"
      "cg_chunks g' = map (\<lambda>c. case map_of (es @ as) c of None \<Rightarrow> cg_chunks g ! c
      | Some i \<Rightarrow> (cg_chunks g ! c)\<lparr>ck_render_id := Some i\<rparr>) [0..<?n]" by blast
  have at: "\<exists>i. map_of (es @ as) c = Some i \<and> cg_chunks g' ! c = (cg_chunks g ! c)\<lparr>ck_render_id := Some i\<rparr>"
    if "c < ?n" for c
  proof -
    have "map_of (es @ as) c \<noteq> None" using that sf by (simp only: map_of_eq_None_iff) simp
    then obtain i where i: "map_of (es @ as) c = Some i" by blast
    have "cg_chunks g' ! c = (cg_chunks g ! c)\<lparr>ck_render_id := Some i\<rparr>"
      using that unfolding g'(3) by (simp only: nth_map length_upt diff_zero nth_upt i option.case add_0)
    with i show ?thesis by blast
  qed
  have "\<exists>i. cg_chunks g' ! c = (cg_chunks g ! c)\<lparr>ck_render_id := Some i\<rparr> \<and>
       (\<forall>d < ?n. d \<noteq> c \<longrightarrow>
          (\<forall>j. ck_render_id (cg_chunks g' ! d) = Some j \<longrightarrow> rid_display j \<noteq> rid_display i))" if c: "c < ?n" for c
  proof -
    from at [OF c] obtain i where i: "map_of (es @ as) c = Some i"
      "cg_chunks g' ! c = (cg_chunks g ! c)\<lparr>ck_render_id := Some i\<rparr>" by blast
    have "rid_display j \<noteq> rid_display i" if "d < ?n" "d \<noteq> c" "ck_render_id (cg_chunks g' ! d) = Some j" for d j
    proof -
      from at [OF that(1)] obtain j' where j: "map_of (es @ as) d = Some j'"
        "cg_chunks g' ! d = (cg_chunks g ! d)\<lparr>ck_render_id := Some j'\<rparr>" by blast
      from that(3) have "j' = j" by (simp add: j(2))
      with j(1) have "map_of (es @ as) d = Some j" by (simp only:)
      with assigned_inj [OF dn this i(1)] that(2) show ?thesis by blast
    qed
    with i(2) show ?thesis by blast
  qed
  moreover have "assign_chunk_render_ids env mg g = Some g'"
    using es(1) as(1) g'(1) by (simp add: assign_chunk_render_ids_def)
  moreover have "length (cg_chunks g') = ?n" by (simp add: g'(3))
  ultimately show ?thesis using g'(2) by blast
qed

end
