(* ===== verification/Sealing.thy ===== *)
theory Sealing
  imports Computation_Cache Naming Runtime_Trees
begin

text \<open>
  The sealing steps of \<open>compilation.rs\<close> after the chunk graph is built: render ids, module hashes and
  processed runtime requirements, each with the memos of the module computation cache if there is
  one.
\<close>

section \<open>What identities and ids write to a hasher\<close>

text \<open>
  \<open>Hash for Path\<close> writes the bytes of every component but the root, and then a word that depends on
  their lengths.
\<close>

definition hashed_components :: "path \<Rightarrow> string list" where
  "hashed_components p = map component_string (filter (\<lambda>c. c \<noteq> RootDir) p)"

definition chunk_bits :: "string list \<Rightarrow> u64" where
  "chunk_bits cs = fold (\<lambda>c bits. word_rotr 2 (bits + word_of_nat (length c))) cs 0"

definition hb_path :: "path \<Rightarrow> bytes" where
  "hb_path p = concat (map str_bytes (hashed_components p)) @ hb_u64 (chunk_bits (hashed_components p))"

definition hb_identity :: "module_identity \<Rightarrow> bytes" where
  "hb_identity i = hb_discr (module_type_rank (mi_module_type i)) @ hb_path (mi_resource i) @
     hb_option hb_str (mi_query i) @ hb_option hb_str (mi_fragment i) @ hb_option hb_str (mi_layer i) @
     hb_vec hb_str (mi_loaders i)"

fun hb_render_id :: "render_id \<Rightarrow> bytes" where
  "hb_render_id (RString s) = hb_discr 0 @ hb_str s"
| "hb_render_id (RNumber n) = hb_discr 1 @ hb_u32 (word_of_nat n)"

section \<open>Module hashes\<close>

fun code_generation_bytes :: "exports_info \<Rightarrow> dependency \<Rightarrow> bytes" where
  "code_generation_bytes info (HarmonyExportSpecifier _ name) = hb_u8 0 @ hb_option hb_str (get_used_name info name)"
| "code_generation_bytes info (HarmonyExportExpression _) =
     hb_u8 1 @ hb_option hb_str (get_used_name info ''default'')"
| "code_generation_bytes info (HarmonyExportImportedSpecifier d) =
     hb_u8 2 @ hb_option hb_str (Option.bind (heis_name d) (get_used_name info))"
| "code_generation_bytes info _ = []"

definition update_code_generation_hash :: "exports_info \<Rightarrow> dependency \<Rightarrow> hasher \<Rightarrow> hasher" where
  "update_code_generation_hash info d = hash_write (code_generation_bytes info d)"

definition hash_references :: "module_references \<Rightarrow> hasher \<Rightarrow> hasher" where
  "hash_references r = hash_write (hb_option hb_render_id (mr_render_id r) @
     hb_vec (hb_option hb_render_id) (mr_outgoing_ids r) @
     hb_vec (hb_option (hb_vec hb_render_id)) (mr_block_ids r) @ hb_vec hb_identity (mr_concatenated r))"

definition hash_module_inputs ::
  "module_graph \<Rightarrow> chunk_graph \<Rightarrow> module_data \<Rightarrow> hasher \<Rightarrow> hasher option" where
  "hash_module_inputs mg g m hasher = do {
     let hasher = hash_write (hb_identity (m_identity m) @ hb_discr (module_type_rank (mi_module_type (m_identity m))) @
           hb_u64 (bc_source_hash (m_content m)) @ hb_option hb_str (map_option error_display (m_build_error m)) @
           hb_bool (m_harmony m) @ hb_u64 (bc_local_input_digest (m_content m))) hasher;
     hasher \<leftarrow> fold_opt (\<lambda>d hasher. do {
           info \<leftarrow> graph_exports mg (m_handle m);
           Some (update_code_generation_hash info d hasher) })
         (m_presentational m @ m_dependencies m @ concat (m_blocks m)) hasher;
     references \<leftarrow> module_references_of mg (m_handle m) g;
     Some (hash_references references hasher) }"

definition compute_module_hash :: "module_graph \<Rightarrow> chunk_graph \<Rightarrow> module_data \<Rightarrow> u64 option" where
  "compute_module_hash mg g m = do {
     let hasher = hash_write (str_bytes ''unpack/module/hash/2'') hasher_default;
     hasher \<leftarrow> (case cg_concatenated g (m_handle m) of
         Some cm \<Rightarrow> fold_opt (\<lambda>h hasher. do {
             inner \<leftarrow> graph_module mg h;
             hash_module_inputs mg g inner hasher })
           (cm_modules cm) (hash_write (hb_usize (length (cm_modules cm))) hasher)
       | None \<Rightarrow> hash_module_inputs mg g m (hash_write (hb_usize 1) hasher));
     Some (hash_finish hasher) }"

section \<open>The steps\<close>

definition assign_render_ids :: "naming_env \<Rightarrow> module_graph \<Rightarrow> chunk_graph \<Rightarrow> chunk_graph option" where
  "assign_render_ids env mg g = do {
     g \<leftarrow> assign_module_render_ids env mg g;
     assign_chunk_render_ids env mg g }"

text \<open>A module's hash, from the cache if it has one.\<close>

definition module_hash_cached ::
  "module_graph \<Rightarrow> chunk_graph \<Rightarrow> module_data \<Rightarrow> computation_cache option \<Rightarrow> (u64 \<times> computation_cache option) option"
where
  "module_hash_cached mg g m cache =
     (case cache of
        None \<Rightarrow> map_option (\<lambda>h. (h, None)) (compute_module_hash mg g m)
      | Some cc \<Rightarrow>
          let (found, cc) = get_module_hash (m_identity m) cc
          in case found of
            Some h \<Rightarrow> Some (h, Some cc)
          | None \<Rightarrow> do {
              h \<leftarrow> compute_module_hash mg g m;
              cc \<leftarrow> store_module_hash (m_identity m) h cc;
              Some (h, Some cc) })"

definition module_hashes ::
  "module_graph \<Rightarrow> chunk_graph \<Rightarrow> module_data list \<Rightarrow> computation_cache option \<Rightarrow>
   ((nat \<times> u64) list \<times> computation_cache option) option"
where
  "module_hashes mg g ms cache = fold_opt (\<lambda>m (hashes, cache). do {
     (h, cache) \<leftarrow> module_hash_cached mg g m cache;
     Some (hashes @ [(m_handle m, h)], cache) }) ms ([], cache)"

definition create_module_hashes ::
  "module_graph \<Rightarrow> chunk_graph \<Rightarrow> computation_cache option \<Rightarrow> (chunk_graph \<times> computation_cache option) option" where
  "create_module_hashes mg g cache = do {
     (hashes, cache) \<leftarrow> module_hashes mg g (filter (\<lambda>m. module_chunks g (m_handle m) \<noteq> []) (gs_modules mg)) cache;
     g \<leftarrow> fold_opt (\<lambda>(m, h). set_module_hash m h) hashes g;
     Some (g, cache) }"

definition prepare_post_cache ::
  "module_graph \<Rightarrow> chunk_graph \<Rightarrow> computation_cache option \<Rightarrow> computation_cache option option" where
  "prepare_post_cache mg g cache =
     (case cache of None \<Rightarrow> Some None | Some cc \<Rightarrow> map_option Some (prepare_after_id_assignment mg g cc))"

text \<open>The requirements of one code generation result, processed.\<close>

definition processed_requirements ::
  "module_graph \<Rightarrow> nat \<times> requirements \<Rightarrow> computation_cache option \<Rightarrow>
   ((nat \<times> requirements) \<times> computation_cache option) option"
where
  "processed_requirements mg = (\<lambda>(h, rs) cache.
     case cache of
       None \<Rightarrow> do { (p, _) \<leftarrow> resolve_runtime_modules rs; Some ((h, p), None) }
     | Some cc \<Rightarrow> do {
         m \<leftarrow> graph_module mg h;
         let (found, cc) = get_runtime_requirements (m_identity m) cc;
         (case found of
            Some p \<Rightarrow> Some ((h, p), Some cc)
          | None \<Rightarrow> do {
              (p, _) \<leftarrow> resolve_runtime_modules rs;
              cc \<leftarrow> store_runtime_requirements (m_identity m) p cc;
              Some ((h, p), Some cc) }) })"

text \<open>\<open>results\<close> is what code generation collected: modules with the requirements of their code.\<close>

definition process_runtime_requirements ::
  "module_graph \<Rightarrow> (nat \<times> requirements) list \<Rightarrow> chunk_graph \<Rightarrow> computation_cache option \<Rightarrow>
   (chunk_graph \<times> computation_cache option) option"
where
  "process_runtime_requirements mg results g cache = do {
     (processed, cache) \<leftarrow> fold_opt (\<lambda>r (acc, cache). do {
         (p, cache) \<leftarrow> processed_requirements mg r cache;
         Some (acc @ [p], cache) }) results ([], cache);
     g \<leftarrow> set_module_runtime_requirements processed g;
     Some (g, cache) }"

text \<open>From the built chunk graph to the module hashes, in the order of \<open>seal\<close>.\<close>

definition seal_ids_and_hashes ::
  "naming_env \<Rightarrow> module_graph \<Rightarrow> chunk_graph \<Rightarrow> computation_cache option \<Rightarrow>
   (chunk_graph \<times> computation_cache option) option"
where
  "seal_ids_and_hashes env mg g cache = do {
     g \<leftarrow> assign_render_ids env mg g;
     cache \<leftarrow> prepare_post_cache mg g cache;
     create_module_hashes mg g cache }"

section \<open>References and hashes exist\<close>

definition ids_assigned :: "chunk_graph \<Rightarrow> bool" where
  "ids_assigned g \<longleftrightarrow> (\<forall>c < length (cg_chunks g). ck_render_id (cg_chunks g ! c) \<noteq> None)"

definition handles_in_range :: "module_graph \<Rightarrow> chunk_graph \<Rightarrow> bool" where
  "handles_in_range mg g \<longleftrightarrow> (\<forall>orig gr. cg_block_groups g orig = Some gr \<longrightarrow> gr < length (cg_groups g)) \<and>
     (\<forall>h cm. cg_concatenated g h = Some cm \<longrightarrow> (\<forall>k \<in> set (cm_modules cm). k < length (gs_modules mg)))"

lemma chunk_render_id_total:
  "ids_assigned g \<Longrightarrow> c < length (cg_chunks g) \<Longrightarrow> \<exists>i. chunk_render_id g c = Some i"
  by (auto simp: ids_assigned_def chunk_render_id_def)

lemma module_references_total:
  assumes wf: "graph_wf mg" and cwf: "chunk_graph_wf g" and ids: "ids_assigned g" and rng: "handles_in_range mg g"
    and h: "h < length (gs_modules mg)"
  shows "\<exists>r. module_references_of mg h g = Some r"
proof -
  have chunks: "c < length (cg_chunks g)" if "c \<in> set (module_chunks g h)" for c
    using that cwf by (auto simp: module_chunks_def chunk_graph_wf_def modules_linked_def sizes_ok_def
        vec_get_def dest: linkedD(2) split: if_splits)
  then have "\<exists>ids. map_opt (chunk_render_id g) (module_chunks g h) = Some ids"
    by (intro map_opt_exists chunk_render_id_total [OF ids])
  then obtain cids where c: "map_opt (chunk_render_id g) (module_chunks g h) = Some cids" ..
  have blocks: "\<exists>ids. block_render_ids g h b = Some ids" for b
  proof (cases "block_chunk_group g (h, b)")
    case (Some gr)
    then have gr: "gr < length (cg_groups g)" using rng by (auto simp: handles_in_range_def block_chunk_group_def)
    have "x < length (cg_chunks g)" if "x \<in> set (gr_chunks (cg_groups g ! gr))" for x
      using that gr cwf linkedD(2) [of "map ck_groups (cg_chunks g)" "map gr_chunks (cg_groups g)" gr x]
      by (simp add: chunk_graph_wf_def groups_linked_def)
    then have "\<exists>ids. map_opt (chunk_render_id g) (gr_chunks (cg_groups g ! gr)) = Some ids"
      by (intro map_opt_exists chunk_render_id_total [OF ids])
    with Some gr show ?thesis by (auto simp: block_render_ids_def)
  qed (simp add: block_render_ids_def)
  then have "\<exists>bs. map_opt (block_render_ids g h) [0..<length (m_blocks (gs_modules mg ! h))] = Some bs"
    by (rule map_opt_exists)
  then obtain bs where b: "map_opt (block_render_ids g h) [0..<length (m_blocks (gs_modules mg ! h))] = Some bs" ..
  have "k < length (gs_modules mg)" if "k \<in> set (case cg_concatenated g h of None \<Rightarrow> [] | Some cm \<Rightarrow> cm_modules cm)" for k
    using that rng by (cases "cg_concatenated g h") (auto simp: handles_in_range_def)
  then have "\<exists>js. map_opt (\<lambda>k. map_option m_identity (graph_module mg k))
      (case cg_concatenated g h of None \<Rightarrow> [] | Some cm \<Rightarrow> cm_modules cm) = Some js"
    by (intro map_opt_exists) (simp add: graph_module_def)
  with c b outgoing_connections_spec [OF wf h] h show ?thesis
    by (auto simp: module_references_of_def graph_module_def)
qed

lemma hash_module_inputs_total:
  assumes "graph_wf mg" "chunk_graph_wf g" "ids_assigned g" "handles_in_range mg g"
    and len: "length (mg_exports mg) = length (gs_modules mg)" and h: "h < length (gs_modules mg)"
  shows "\<exists>s'. hash_module_inputs mg g (gs_modules mg ! h) s = Some s'"
proof -
  have hd: "m_handle (gs_modules mg ! h) = h" by (rule graph_wf_handle [OF assms(1) h])
  have "\<exists>t. fold_opt (\<lambda>d hasher. do {
           info \<leftarrow> graph_exports mg h;
           Some (update_code_generation_hash info d hasher) }) ds s0 = Some t \<and> True" for ds s0
    by (rule fold_opt_invariant) (use h len in \<open>auto simp: graph_exports_def\<close>)
  then obtain t where "fold_opt (\<lambda>d hasher. do {
           info \<leftarrow> graph_exports mg h;
           Some (update_code_generation_hash info d hasher) })
         (m_presentational (gs_modules mg ! h) @ m_dependencies (gs_modules mg ! h) @ concat (m_blocks (gs_modules mg ! h)))
         (hash_write (hb_identity (m_identity (gs_modules mg ! h)) @
           hb_discr (module_type_rank (mi_module_type (m_identity (gs_modules mg ! h)))) @
           hb_u64 (bc_source_hash (m_content (gs_modules mg ! h))) @
           hb_option hb_str (map_option error_display (m_build_error (gs_modules mg ! h))) @
           hb_bool (m_harmony (gs_modules mg ! h)) @ hb_u64 (bc_local_input_digest (m_content (gs_modules mg ! h)))) s) = Some t"
    by meson
  moreover obtain r where "module_references_of mg h g = Some r"
    using module_references_total [OF assms(1-4) h] by blast
  ultimately show ?thesis by (simp add: hash_module_inputs_def hd Let_def)
qed

lemma compute_module_hash_total:
  assumes "graph_wf mg" "chunk_graph_wf g" "ids_assigned g" and rng: "handles_in_range mg g"
    and "length (mg_exports mg) = length (gs_modules mg)" and h: "h < length (gs_modules mg)"
  shows "\<exists>x. compute_module_hash mg g (gs_modules mg ! h) = Some x"
proof (cases "cg_concatenated g (m_handle (gs_modules mg ! h))")
  case None
  obtain t where "hash_module_inputs mg g (gs_modules mg ! h)
      (hash_write (hb_usize 1) (hash_write (str_bytes ''unpack/module/hash/2'') hasher_default)) = Some t"
    using hash_module_inputs_total [OF assms(1-5) h] by blast
  with None show ?thesis by (simp add: compute_module_hash_def Let_def)
next
  case (Some cm)
  have "\<exists>t. fold_opt (\<lambda>h hasher. do {
      inner \<leftarrow> graph_module mg h; hash_module_inputs mg g inner hasher }) (cm_modules cm) s0 = Some t \<and> True" for s0
  proof (rule fold_opt_invariant)
    fix k s assume "k \<in> set (cm_modules cm)"
    then have "k < length (gs_modules mg)" using rng Some by (auto simp: handles_in_range_def)
    with hash_module_inputs_total [OF assms(1-5) this]
    show "\<exists>s'. (do { inner \<leftarrow> graph_module mg k; hash_module_inputs mg g inner s }) = Some s' \<and> True"
      by (simp add: graph_module_def)
  qed simp
  then show ?thesis unfolding compute_module_hash_def Some Let_def option.case by (auto simp: bind_simps)
qed

section \<open>Hashes with and without a cache\<close>

definition hash_of :: "module_graph \<Rightarrow> chunk_graph \<Rightarrow> nat \<Rightarrow> u64" where
  "hash_of mg g h = the (compute_module_hash mg g (gs_modules mg ! h))"

text \<open>
  A cache is sound if a hash stored with the signature that the module has now is the module's
  hash, and ready if it has a later stage for every module and only such hashes.
\<close>

definition hash_memos_sound :: "module_graph \<Rightarrow> chunk_graph \<Rightarrow> computation_cache \<Rightarrow> bool" where
  "hash_memos_sound mg g cc \<longleftrightarrow> (\<forall>h < length (gs_modules mg). \<exists>e. cc_modules cc (identity_at mg h) = Some e \<and>
     (\<forall>p x. ce_post e = Some p \<longrightarrow> po_signature p = post_signature_of mg g h \<longrightarrow> po_hash p = Some x \<longrightarrow> x = hash_of mg g h))"

definition hash_memos_ready :: "module_graph \<Rightarrow> chunk_graph \<Rightarrow> computation_cache \<Rightarrow> bool" where
  "hash_memos_ready mg g cc \<longleftrightarrow> (\<forall>h < length (gs_modules mg). \<exists>e p. cc_modules cc (identity_at mg h) = Some e \<and>
     ce_post e = Some p \<and> po_signature p = post_signature_of mg g h \<and> (\<forall>x. po_hash p = Some x \<longrightarrow> x = hash_of mg g h))"

definition cache_ready :: "module_graph \<Rightarrow> chunk_graph \<Rightarrow> computation_cache option \<Rightarrow> bool" where
  "cache_ready mg g cache \<longleftrightarrow> (case cache of None \<Rightarrow> True | Some cc \<Rightarrow> hash_memos_ready mg g cc)"

lemma prepare_post_ready:
  assumes wf: "graph_wf mg" and ids: "distinct (map m_identity (gs_modules mg))"
    and sound: "hash_memos_sound mg g cc"
    and tot: "\<forall>h < length (gs_modules mg). post_id_assignment_signature mg g h \<noteq> None"
  shows "\<exists>cc'. prepare_after_id_assignment mg g cc = Some cc' \<and> hash_memos_ready mg g cc'"
proof -
  have "m_identity ` set (gs_modules mg) \<subseteq> dom (cc_modules cc)"
    using sound unfolding hash_memos_sound_def by (fastforce simp: in_set_conv_nth)
  from prepare_after_id_assignment_spec [OF wf ids this tot] obtain cc' where
    c: "prepare_after_id_assignment mg g cc = Some cc'"
      "\<And>h. h < length (gs_modules mg) \<Longrightarrow> cc_modules cc' (identity_at mg h) =
         map_option (\<lambda>e. e\<lparr>ce_post := Some (kept_post (post_signature_of mg g h) (ce_post e))\<rparr>)
           (cc_modules cc (identity_at mg h))" by blast
  have "\<exists>e p. cc_modules cc' (identity_at mg h) = Some e \<and> ce_post e = Some p \<and>
      po_signature p = post_signature_of mg g h \<and> (\<forall>x. po_hash p = Some x \<longrightarrow> x = hash_of mg g h)" if h: "h < length (gs_modules mg)" for h
  proof -
    from sound h obtain e where e: "cc_modules cc (identity_at mg h) = Some e"
      "\<forall>p x. ce_post e = Some p \<longrightarrow> po_signature p = post_signature_of mg g h \<longrightarrow> po_hash p = Some x \<longrightarrow> x = hash_of mg g h"
      by (auto simp: hash_memos_sound_def)
    then show ?thesis
      by (auto simp: c(2) [OF h] kept_post_def fresh_post_def split: option.splits if_splits)
  qed
  with c(1) show ?thesis by (auto simp: hash_memos_ready_def)
qed

lemma module_hash_cached_ok:
  assumes ids: "distinct (map m_identity (gs_modules mg))" and h: "h < length (gs_modules mg)"
    and tot: "compute_module_hash mg g (gs_modules mg ! h) \<noteq> None" and ready: "cache_ready mg g cache"
  shows "\<exists>cache'. module_hash_cached mg g (gs_modules mg ! h) cache = Some (hash_of mg g h, cache') \<and> cache_ready mg g cache'"
proof (cases cache)
  case None
  then show ?thesis using tot by (auto simp: module_hash_cached_def hash_of_def cache_ready_def)
next
  case (Some cc)
  let ?i = "identity_at mg h"
  have comp: "compute_module_hash mg g (gs_modules mg ! h) = Some (hash_of mg g h)" using tot by (auto simp: hash_of_def)
  from ready Some have r: "hash_memos_ready mg g cc" by (simp add: cache_ready_def)
  with h obtain e p where e: "cc_modules cc ?i = Some e" "ce_post e = Some p" "\<forall>x. po_hash p = Some x \<longrightarrow> x = hash_of mg g h"
    "po_signature p = post_signature_of mg g h"
    unfolding hash_memos_ready_def by blast
  obtain cc1 where g1: "get_module_hash ?i cc = (po_hash p, cc1)" "cc_modules cc1 = cc_modules cc"
    using e by (auto simp: get_module_hash_def Let_def)
  have r1: "hash_memos_ready mg g cc1" using r by (simp add: hash_memos_ready_def g1(2))
  show ?thesis
  proof (cases "po_hash p")
    case (Some x)
    with g1 e(3) r1 \<open>cache = Some cc\<close> show ?thesis by (auto simp: module_hash_cached_def cache_ready_def)
  next
    case None
    let ?cc2 = "cc1\<lparr>cc_modules := (cc_modules cc1)(?i \<mapsto> e\<lparr>ce_post := Some (p\<lparr>po_hash := Some (hash_of mg g h)\<rparr>)\<rparr>)\<rparr>"
    have s: "store_module_hash ?i (hash_of mg g h) cc1 = Some ?cc2"
      using e by (simp add: store_module_hash_def modify_entry_def modify_post_def g1(2))
    have same: "k = h" if "identity_at mg k = ?i" "k < length (gs_modules mg)" for k
      using nth_eq_iff_index_eq [OF ids, of k h] that h by simp
    then have "hash_memos_ready mg g ?cc2" using r1 e(4) unfolding hash_memos_ready_def by (auto dest!: same)
    then show ?thesis using g1(1) None comp s \<open>cache = Some cc\<close>
      by (simp add: module_hash_cached_def cache_ready_def)
  qed
qed

lemma module_hashes_ok:
  assumes ids: "distinct (map m_identity (gs_modules mg))"
    and tot: "\<And>h. h < length (gs_modules mg) \<Longrightarrow> compute_module_hash mg g (gs_modules mg ! h) \<noteq> None"
    and hs: "\<forall>h \<in> set hs. h < length (gs_modules mg) \<and> m_handle (gs_modules mg ! h) = h" and ready: "cache_ready mg g cache"
  shows "\<exists>cache'. module_hashes mg g (map ((!) (gs_modules mg)) hs) cache = Some (map (\<lambda>h. (h, hash_of mg g h)) hs, cache') \<and>
    cache_ready mg g cache'"
  using hs
proof (induction hs rule: rev_induct)
  case Nil
  then show ?case using ready by (simp add: module_hashes_def)
next
  case (snoc h hs)
  then obtain c1 where c1: "module_hashes mg g (map ((!) (gs_modules mg)) hs) cache = Some (map (\<lambda>h. (h, hash_of mg g h)) hs, c1)"
    "cache_ready mg g c1" by auto
  from snoc.prems have h: "h < length (gs_modules mg)" "m_handle (gs_modules mg ! h) = h" by simp_all
  from module_hash_cached_ok [OF ids h(1) tot [OF h(1)] c1(2)] obtain c2 where
    "module_hash_cached mg g (gs_modules mg ! h) c1 = Some (hash_of mg g h, c2)" "cache_ready mg g c2" by blast
  with c1(1) h(2) show ?case by (simp add: module_hashes_def fold_opt_append)
qed

lemma set_module_hashes:
  assumes "distinct (map fst hashes)"
  shows "\<exists>g'. fold_opt (\<lambda>(m, h). set_module_hash m h) hashes g = Some g' \<and>
    g' = g\<lparr>cg_module_hashes := cg_module_hashes g'\<rparr> \<and>
    (\<forall>x h. map_of hashes x = Some h \<longrightarrow> vec_get (cg_module_hashes g') x = Some (Some h)) \<and>
    (\<forall>x. map_of hashes x = None \<longrightarrow> vec_get (cg_module_hashes g) x = Some y \<longrightarrow> vec_get (cg_module_hashes g') x = Some y)"
  using assms
proof (induction hashes arbitrary: g y)
  case (Cons a hashes)
  obtain m h where a: "a = (m, h)" by (cases a)
  let ?hs = "if length (cg_module_hashes g) \<le> m then vec_resize (m + 1) None (cg_module_hashes g) else cg_module_hashes g"
  let ?g1 = "g\<lparr>cg_module_hashes := ?hs[m := Some h]\<rparr>"
  have m: "m < length ?hs" by simp
  then have s1: "set_module_hash m h g = Some ?g1" by (simp add: set_module_hash_def Let_def)
  have k1: "vec_get (cg_module_hashes ?g1) m = Some (Some h)" using m by simp
  have k2: "vec_get (cg_module_hashes ?g1) x = Some y" if "vec_get (cg_module_hashes g) x = Some y" "x \<noteq> m" for x y
    using that by (auto simp: vec_get_def nth_vec_resize split: if_splits)
  have ni: "map_of hashes m = None" using Cons.prems by (simp add: a map_of_eq_None_iff)
  from Cons.prems have d: "distinct (map fst hashes)" by simp
  from Cons.IH [OF d, of ?g1 "Some h"] obtain g2 where
    g2: "fold_opt (\<lambda>(m, h). set_module_hash m h) hashes ?g1 = Some g2"
      "g2 = ?g1\<lparr>cg_module_hashes := cg_module_hashes g2\<rparr>"
      "\<And>x h. map_of hashes x = Some h \<Longrightarrow> vec_get (cg_module_hashes g2) x = Some (Some h)"
      "\<And>x. map_of hashes x = None \<Longrightarrow> vec_get (cg_module_hashes ?g1) x = Some (Some h) \<Longrightarrow> vec_get (cg_module_hashes g2) x = Some (Some h)"
    by blast
  from Cons.IH [OF d, of ?g1 y] g2(1)
  have other: "\<And>x. map_of hashes x = None \<Longrightarrow> vec_get (cg_module_hashes ?g1) x = Some y \<Longrightarrow> vec_get (cg_module_hashes g2) x = Some y"
    by auto
  have "g2 = g\<lparr>cg_module_hashes := cg_module_hashes g2\<rparr>" by (subst g2(2)) simp
  moreover have "fold_opt (\<lambda>(m, h). set_module_hash m h) (a # hashes) g = Some g2"
    using s1 g2(1) by (simp add: a)
  moreover have "vec_get (cg_module_hashes g2) x = Some (Some k)" if "map_of (a # hashes) x = Some k" for x k
    using that g2(3) [of x k] g2(4) [OF ni k1] by (cases "x = m") (simp_all add: a)
  moreover have "vec_get (cg_module_hashes g2) x = Some y"
    if "map_of (a # hashes) x = None" "vec_get (cg_module_hashes g) x = Some y" for x
    using that other [of x] k2 [of x y] by (simp add: a split: if_splits)
  ultimately show ?case by blast
qed simp


section \<open>What a hash depends on\<close>

text \<open>The parts of a module that its hash and its signatures are made of.\<close>

definition module_inputs ::
  "module_data \<Rightarrow> module_identity \<times> u64 \<times> string option \<times> bool \<times> u64 \<times> dependency list" where
  "module_inputs m = (m_identity m, bc_source_hash (m_content m), map_option error_display (m_build_error m),
     m_harmony m, bc_local_input_digest (m_content m), m_presentational m @ m_dependencies m @ concat (m_blocks m))"

lemma hash_module_inputs_cong:
  assumes "module_inputs m = module_inputs m'"
    and "graph_exports mg (m_handle m) = graph_exports mg' (m_handle m')"
    and "module_references_of mg (m_handle m) g = module_references_of mg' (m_handle m') g'"
  shows "hash_module_inputs mg g m s = hash_module_inputs mg' g' m' s"
  using assms unfolding hash_module_inputs_def module_inputs_def Let_def by (auto cong: option.case_cong)

text \<open>The signatures of the later stage hold all that the hash of a module on its own reads.\<close>

lemma hash_from_signatures:
  assumes m: "module_inputs (gs_modules mg ! h) = module_inputs (gs_modules mg' ! h')"
    and hd: "m_handle (gs_modules mg ! h) = h" "m_handle (gs_modules mg' ! h') = h'"
    and alone: "cg_concatenated g h = None" "cg_concatenated g' h' = None"
    and sig: "post_id_assignment_signature mg g h = Some s" "post_id_assignment_signature mg' g' h' = Some s"
  shows "compute_module_hash mg g (gs_modules mg ! h) = compute_module_hash mg' g' (gs_modules mg' ! h')"
proof -
  have "graph_exports mg h = graph_exports mg' h'" "module_references_of mg h g = module_references_of mg' h' g'"
    using sig by (auto simp: post_id_assignment_signature_def split: option.splits bind_splits)
  then have "hash_module_inputs mg g (gs_modules mg ! h) t = hash_module_inputs mg' g' (gs_modules mg' ! h') t" for t
    using m hd by (intro hash_module_inputs_cong) simp_all
  with alone hd show ?thesis by (simp add: compute_module_hash_def)
qed

section \<open>The sealed ids and hashes\<close>

lemma module_references_hashes [simp]:
  "module_references_of mg h (g\<lparr>cg_module_hashes := hs\<rparr>) = module_references_of mg h g"
proof -
  have "chunk_render_id (g\<lparr>cg_module_hashes := hs\<rparr>) = chunk_render_id g"
    by (rule ext) (simp add: chunk_render_id_def)
  moreover from this have "block_render_ids (g\<lparr>cg_module_hashes := hs\<rparr>) h = block_render_ids g h"
    by (intro ext) (simp add: block_render_ids_def block_chunk_group_def cong: option.case_cong)
  ultimately show ?thesis by (simp add: module_references_of_def module_chunks_def module_render_id_def)
qed

lemma hash_module_inputs_hashes [simp]:
  "hash_module_inputs mg (g\<lparr>cg_module_hashes := hs\<rparr>) m s = hash_module_inputs mg g m s"
  by (rule hash_module_inputs_cong) simp_all

lemma compute_module_hash_hashes [simp]:
  "compute_module_hash mg (g\<lparr>cg_module_hashes := hs\<rparr>) m = compute_module_hash mg g m"
  by (simp add: compute_module_hash_def Let_def cong: option.case_cong)

text \<open>Every module in a chunk, and every chunk, has an id, and no two of a kind print alike.\<close>

definition module_ids_unique :: "module_graph \<Rightarrow> chunk_graph \<Rightarrow> bool" where
  "module_ids_unique mg g \<longleftrightarrow> (\<forall>m < length (gs_modules mg). module_chunks g m \<noteq> [] \<longrightarrow>
     (\<exists>i. module_render_id g m = Some i \<and>
       (\<forall>k < length (gs_modules mg). module_chunks g k \<noteq> [] \<longrightarrow> k \<noteq> m \<longrightarrow>
         (\<forall>j. module_render_id g k = Some j \<longrightarrow> rid_display j \<noteq> rid_display i))))"

definition chunk_ids_unique :: "chunk_graph \<Rightarrow> bool" where
  "chunk_ids_unique g \<longleftrightarrow> (\<forall>c < length (cg_chunks g). \<exists>i. ck_render_id (cg_chunks g ! c) = Some i \<and>
     (\<forall>d < length (cg_chunks g). d \<noteq> c \<longrightarrow>
       (\<forall>j. ck_render_id (cg_chunks g ! d) = Some j \<longrightarrow> rid_display j \<noteq> rid_display i)))"

definition render_ids_set :: "chunk_graph \<Rightarrow> chunk_graph \<Rightarrow> bool" where
  "render_ids_set g g' \<longleftrightarrow> g' = g\<lparr>cg_module_ids := cg_module_ids g', cg_chunks := cg_chunks g'\<rparr> \<and>
     length (cg_chunks g') = length (cg_chunks g) \<and>
     (\<forall>c < length (cg_chunks g). \<exists>i. cg_chunks g' ! c = (cg_chunks g ! c)\<lparr>ck_render_id := Some i\<rparr>)"

lemma assign_render_ids_spec:
  assumes wf: "graph_wf mg" and small: "length (gs_modules mg) + 1 < 2 ^ 32"
    and cwf: "chunk_graph_wf g" and csmall: "length (cg_chunks g) + 1 < 2 ^ 32"
  shows "\<exists>g'. assign_render_ids env mg g = Some g' \<and> render_ids_set g g' \<and>
    module_ids_unique mg g' \<and> chunk_ids_unique g'"
proof -
  obtain g1 where g1: "assign_module_render_ids env mg g = Some g1" "g1 = g\<lparr>cg_module_ids := cg_module_ids g1\<rparr>"
    and ids: "\<forall>m < length (gs_modules mg). if module_chunks g m = [] then module_render_id g1 m = module_render_id g m
       else \<exists>i. module_render_id g1 m = Some i \<and>
         (\<forall>k < length (gs_modules mg). module_chunks g k \<noteq> [] \<longrightarrow> k \<noteq> m \<longrightarrow>
            (\<forall>j. module_render_id g1 k = Some j \<longrightarrow> rid_display j \<noteq> rid_display i))"
    using assign_module_render_ids_spec [OF wf small, of env g] by (elim exE conjE) (rule that)
  have c1: "cg_chunks g1 = cg_chunks g" "cg_module_chunks g1 = cg_module_chunks g" by (subst g1(2), simp)+
  have "chunk_graph_wf g1" using cwf
    by (subst g1(2)) (simp add: chunk_graph_wf_def sizes_ok_def groups_linked_def modules_linked_def tree_linked_def)
  note * = assign_chunk_render_ids_spec [OF this, of env mg, unfolded c1, OF csmall]
  obtain g2 where g2: "assign_chunk_render_ids env mg g1 = Some g2" "g2 = g1\<lparr>cg_chunks := cg_chunks g2\<rparr>"
      "length (cg_chunks g2) = length (cg_chunks g)"
    and cids: "\<forall>c < length (cg_chunks g). \<exists>i. cg_chunks g2 ! c = (cg_chunks g ! c)\<lparr>ck_render_id := Some i\<rparr> \<and>
       (\<forall>d < length (cg_chunks g). d \<noteq> c \<longrightarrow>
          (\<forall>j. ck_render_id (cg_chunks g2 ! d) = Some j \<longrightarrow> rid_display j \<noteq> rid_display i))"
    using * by (elim exE conjE) (rule that)
  have m2: "cg_module_ids g2 = cg_module_ids g1" "cg_module_chunks g2 = cg_module_chunks g"
    by (subst g2(2), simp add: c1)+
  have "g2 = g\<lparr>cg_module_ids := cg_module_ids g2, cg_chunks := cg_chunks g2\<rparr>"
    unfolding m2 by (subst g2(2), subst g1(2)) simp
  with g2(3) cids have set: "render_ids_set g g2" unfolding render_ids_set_def by blast
  have "module_chunks g2 = module_chunks g" "module_render_id g2 = module_render_id g1"
    by (intro ext, simp add: module_chunks_def module_render_id_def m2)+
  with ids have uniq: "module_ids_unique mg g2" unfolding module_ids_unique_def by simp
  have cuniq: "chunk_ids_unique g2" unfolding chunk_ids_unique_def g2(3)
  proof (intro allI impI)
    fix c assume "c < length (cg_chunks g)"
    with cids obtain i where i: "cg_chunks g2 ! c = (cg_chunks g ! c)\<lparr>ck_render_id := Some i\<rparr>"
      "\<forall>d < length (cg_chunks g). d \<noteq> c \<longrightarrow>
          (\<forall>j. ck_render_id (cg_chunks g2 ! d) = Some j \<longrightarrow> rid_display j \<noteq> rid_display i)" by blast
    from i(1) have "ck_render_id (cg_chunks g2 ! c) = Some i" by simp
    with i(2) show "\<exists>i. ck_render_id (cg_chunks g2 ! c) = Some i \<and>
        (\<forall>d < length (cg_chunks g). d \<noteq> c \<longrightarrow>
          (\<forall>j. ck_render_id (cg_chunks g2 ! d) = Some j \<longrightarrow> rid_display j \<noteq> rid_display i))" by blast
  qed
  have "assign_render_ids env mg g = Some g2" by (simp only: assign_render_ids_def g1(1) g2(1) bind.bind_lunit)
  with set uniq cuniq show ?thesis by (intro exI conjI)
qed

lemma map_nth_update: "length xs = length ys \<Longrightarrow> (\<And>i. i < length xs \<Longrightarrow> f (xs ! i) = f (ys ! i)) \<Longrightarrow> map f xs = map f ys"
  by (intro nth_equalityI) simp_all

lemma render_ids_set_frame:
  assumes "render_ids_set g g'"
  shows "chunk_graph_wf g' = chunk_graph_wf g" "ids_assigned g'" "handles_in_range mg g' = handles_in_range mg g"
    "module_chunks g' m = module_chunks g m" "cg_module_hashes g' = cg_module_hashes g"
proof -
  have eq: "g' = g\<lparr>cg_module_ids := cg_module_ids g', cg_chunks := cg_chunks g'\<rparr>"
    and len: "length (cg_chunks g') = length (cg_chunks g)"
    and ks: "\<And>c. c < length (cg_chunks g) \<Longrightarrow> \<exists>i. cg_chunks g' ! c = (cg_chunks g ! c)\<lparr>ck_render_id := Some i\<rparr>"
    using assms unfolding render_ids_set_def by blast+
  have fields: "cg_chunk_modules g' = cg_chunk_modules g" "cg_groups g' = cg_groups g" "cg_module_chunks g' = cg_module_chunks g"
    "cg_chunk_reqs g' = cg_chunk_reqs g" "cg_runtime_modules g' = cg_runtime_modules g"
    "cg_runtime_children g' = cg_runtime_children g" "cg_entrypoints g' = cg_entrypoints g"
    "cg_block_groups g' = cg_block_groups g" "cg_concatenated g' = cg_concatenated g" "cg_module_hashes g' = cg_module_hashes g"
    by (subst eq, simp)+
  have h: "ck_handle (cg_chunks g' ! c) = ck_handle (cg_chunks g ! c)" if "c < length (cg_chunks g)" for c
    using ks [OF that] by auto
  have "map ck_groups (cg_chunks g') = map ck_groups (cg_chunks g)"
  proof (rule map_nth_update [OF len])
    fix c assume "c < length (cg_chunks g')"
    then show "ck_groups (cg_chunks g' ! c) = ck_groups (cg_chunks g ! c)" using ks [of c] len by auto
  qed
  with h len show "chunk_graph_wf g' = chunk_graph_wf g"
    by (simp add: chunk_graph_wf_def sizes_ok_def groups_linked_def modules_linked_def tree_linked_def fields)
  show "ids_assigned g'" using ks len unfolding ids_assigned_def by fastforce
  show "handles_in_range mg g' = handles_in_range mg g" by (simp add: handles_in_range_def fields)
  show "module_chunks g' m = module_chunks g m" by (simp add: module_chunks_def fields)
  show "cg_module_hashes g' = cg_module_hashes g" by (rule fields)
qed


text \<open>
  A chunk graph that the sealing steps take: the structure the planner builds, block groups and
  concatenated modules within range, and fewer than \<open>2 ^ 32\<close> modules and chunks, the range of the
  suffixes that tell ids apart.
\<close>

definition sealable :: "module_graph \<Rightarrow> chunk_graph \<Rightarrow> bool" where
  "sealable mg g \<longleftrightarrow> graph_wf mg \<and> distinct (map m_identity (gs_modules mg)) \<and>
     length (mg_exports mg) = length (gs_modules mg) \<and> chunk_graph_wf g \<and> handles_in_range mg g \<and>
     length (gs_modules mg) + 1 < 2 ^ 32 \<and> length (cg_chunks g) + 1 < 2 ^ 32"

definition cache_sound :: "module_graph \<Rightarrow> chunk_graph \<Rightarrow> computation_cache option \<Rightarrow> bool" where
  "cache_sound mg g cache \<longleftrightarrow> (case cache of None \<Rightarrow> True | Some cc \<Rightarrow> hash_memos_sound mg g cc)"

definition hashes_set :: "module_graph \<Rightarrow> chunk_graph \<Rightarrow> chunk_graph \<Rightarrow> bool" where
  "hashes_set mg g g' \<longleftrightarrow> g' = g\<lparr>cg_module_hashes := cg_module_hashes g'\<rparr> \<and>
     (\<forall>h < length (gs_modules mg). module_chunks g h \<noteq> [] \<longrightarrow>
        compute_module_hash mg g (gs_modules mg ! h) = Some (hash_of mg g h) \<and>
        vec_get (cg_module_hashes g') h = Some (Some (hash_of mg g h)))"

lemma post_signature_total:
  assumes "graph_wf mg" "chunk_graph_wf g" "ids_assigned g" "handles_in_range mg g"
    "length (mg_exports mg) = length (gs_modules mg)" "h < length (gs_modules mg)"
  shows "post_id_assignment_signature mg g h \<noteq> None"
proof -
  obtain r where "module_references_of mg h g = Some r" using module_references_total [OF assms(1-4,6)] by blast
  with assms(5,6) show ?thesis by (simp add: post_id_assignment_signature_def graph_exports_def)
qed

lemma prepare_post_cache_ok:
  assumes wf: "graph_wf mg" and ids: "distinct (map m_identity (gs_modules mg))"
    and tot: "\<forall>h < length (gs_modules mg). post_id_assignment_signature mg g h \<noteq> None"
    and sound: "cache_sound mg g cache"
  shows "\<exists>cache'. prepare_post_cache mg g cache = Some cache' \<and> cache_ready mg g cache'"
proof (cases cache)
  case None then show ?thesis by (simp add: prepare_post_cache_def cache_ready_def)
next
  case (Some cc)
  with sound have "hash_memos_sound mg g cc" by (simp add: cache_sound_def)
  from prepare_post_ready [OF wf ids this tot] Some show ?thesis
    by (auto simp: prepare_post_cache_def cache_ready_def)
qed

lemma create_module_hashes_ok:
  assumes wf: "graph_wf mg" and ids: "distinct (map m_identity (gs_modules mg))"
    and tot: "\<And>h. h < length (gs_modules mg) \<Longrightarrow> compute_module_hash mg g (gs_modules mg ! h) \<noteq> None"
    and ready: "cache_ready mg g cache"
  shows "\<exists>g' cache'. create_module_hashes mg g cache = Some (g', cache') \<and> hashes_set mg g g' \<and> cache_ready mg g cache' \<and>
    map_option fst (create_module_hashes mg g None) = Some g'"
proof -
  let ?hs = "filter (\<lambda>h. module_chunks g h \<noteq> []) [0..<length (gs_modules mg)]"
  have hd: "\<And>h. h < length (gs_modules mg) \<Longrightarrow> m_handle (gs_modules mg ! h) = h" by (rule graph_wf_handle [OF wf])
  have "filter (\<lambda>m. module_chunks g (m_handle m) \<noteq> []) (map ((!) (gs_modules mg)) [0..<length (gs_modules mg)]) =
      map ((!) (gs_modules mg)) ?hs"
    unfolding filter_map by (intro arg_cong [where f = "map _"] filter_cong) (simp_all add: hd)
  then have ms: "filter (\<lambda>m. module_chunks g (m_handle m) \<noteq> []) (gs_modules mg) = map ((!) (gs_modules mg)) ?hs"
    by (simp only: map_nth)
  have all: "\<forall>h \<in> set ?hs. h < length (gs_modules mg) \<and> m_handle (gs_modules mg ! h) = h" using hd by simp
  from module_hashes_ok [OF ids tot all ready] obtain c1 where
    c1: "module_hashes mg g (map ((!) (gs_modules mg)) ?hs) cache = Some (map (\<lambda>h. (h, hash_of mg g h)) ?hs, c1)"
      "cache_ready mg g c1" by blast
  have "cache_ready mg g None" by (simp add: cache_ready_def)
  from module_hashes_ok [OF ids tot all this] obtain c0 where
    c0: "module_hashes mg g (map ((!) (gs_modules mg)) ?hs) None = Some (map (\<lambda>h. (h, hash_of mg g h)) ?hs, c0)" by blast
  have "distinct (map fst (map (\<lambda>h. (h, hash_of mg g h)) ?hs))" by (simp add: comp_def)
  from set_module_hashes [OF this, where g = g and y = None] obtain g' where
    g': "fold_opt (\<lambda>(m, h). set_module_hash m h) (map (\<lambda>h. (h, hash_of mg g h)) ?hs) g = Some g'"
      "g' = g\<lparr>cg_module_hashes := cg_module_hashes g'\<rparr>"
      "\<forall>x h. map_of (map (\<lambda>h. (h, hash_of mg g h)) ?hs) x = Some h \<longrightarrow> vec_get (cg_module_hashes g') x = Some (Some h)"
    by (elim exE conjE) (rule that)
  have "map_of (map (\<lambda>h. (h, hash_of mg g h)) ?hs) h = Some (hash_of mg g h)"
    if "h < length (gs_modules mg)" "module_chunks g h \<noteq> []" for h
    using that by (simp add: map_of_map_restrict restrict_map_def)
  then have "vec_get (cg_module_hashes g') h = Some (Some (hash_of mg g h))"
    if "h < length (gs_modules mg)" "module_chunks g h \<noteq> []" for h
    using that g'(3) by blast
  moreover have "compute_module_hash mg g (gs_modules mg ! h) = Some (hash_of mg g h)"
    if "h < length (gs_modules mg)" for h using tot [OF that] by (auto simp: hash_of_def)
  ultimately have "hashes_set mg g g'" unfolding hashes_set_def using g'(2) by blast
  moreover have "create_module_hashes mg g cache = Some (g', c1)"
    by (simp only: create_module_hashes_def ms c1(1) g'(1) bind.bind_lunit prod.case)
  moreover have "map_option fst (create_module_hashes mg g None) = Some g'"
    by (simp only: create_module_hashes_def ms c0 g'(1) bind.bind_lunit prod.case option.map fst_conv)
  ultimately show ?thesis using c1(2) by blast
qed

text \<open>No step from the chunk graph to the hashes panics, and with sound memos the hashes are the computed ones.\<close>

lemma seal_ids_and_hashes_spec:
  assumes ok: "sealable mg g"
    and sound: "\<And>g1. assign_render_ids env mg g = Some g1 \<Longrightarrow> cache_sound mg g1 cache"
  shows "\<exists>g1 g2 cache'. assign_render_ids env mg g = Some g1 \<and> render_ids_set g g1 \<and>
    module_ids_unique mg g1 \<and> chunk_ids_unique g1 \<and>
    seal_ids_and_hashes env mg g cache = Some (g2, cache') \<and> hashes_set mg g1 g2 \<and> cache_ready mg g1 cache' \<and>
    map_option fst (seal_ids_and_hashes env mg g None) = Some g2"
proof -
  from ok have wf: "graph_wf mg" "distinct (map m_identity (gs_modules mg))"
    "length (mg_exports mg) = length (gs_modules mg)" "chunk_graph_wf g" "handles_in_range mg g"
    "length (gs_modules mg) + 1 < 2 ^ 32" "length (cg_chunks g) + 1 < 2 ^ 32" unfolding sealable_def by blast+
  from assign_render_ids_spec [OF wf(1,6,4,7)] obtain g1 where
    g1: "assign_render_ids env mg g = Some g1" "render_ids_set g g1" "module_ids_unique mg g1" "chunk_ids_unique g1"
    by blast
  note fr = render_ids_set_frame [OF g1(2)]
  have cwf: "chunk_graph_wf g1" "handles_in_range mg g1" using fr wf by simp_all
  have "\<forall>h < length (gs_modules mg). post_id_assignment_signature mg g1 h \<noteq> None"
    using post_signature_total [OF wf(1) cwf(1) fr(2) cwf(2) wf(3)] by blast
  from prepare_post_cache_ok [OF wf(1,2) this sound [OF g1(1)]] obtain c1 where
    c1: "prepare_post_cache mg g1 cache = Some c1" "cache_ready mg g1 c1" by blast
  have "compute_module_hash mg g1 (gs_modules mg ! h) \<noteq> None" if "h < length (gs_modules mg)" for h
    using compute_module_hash_total [OF wf(1) cwf(1) fr(2) cwf(2) wf(3) that] by blast
  from create_module_hashes_ok [OF wf(1,2) this c1(2)] obtain g2 c2 where
    g2: "create_module_hashes mg g1 c1 = Some (g2, c2)" "hashes_set mg g1 g2" "cache_ready mg g1 c2"
      "map_option fst (create_module_hashes mg g1 None) = Some g2" by blast
  have "seal_ids_and_hashes env mg g cache = Some (g2, c2)"
    by (simp only: seal_ids_and_hashes_def g1(1) c1(1) g2(1) bind.bind_lunit)
  moreover have "map_option fst (seal_ids_and_hashes env mg g None) = Some g2"
    by (simp only: seal_ids_and_hashes_def g1(1) prepare_post_cache_def option.case g2(4) bind.bind_lunit)
  ultimately show ?thesis using g1 g2(2,3) by blast
qed

section \<open>Hashes over several compilations\<close>

text \<open>The hashes do not change the earlier signatures, for which the entries were made.\<close>

definition pre_signatures :: "computation_cache \<Rightarrow> module_identity \<rightharpoonup> pre_signature" where
  "pre_signatures cc i = map_option ce_signature (cc_modules cc i)"

definition keeps_signatures :: "computation_cache option \<Rightarrow> computation_cache option \<Rightarrow> bool" where
  "keeps_signatures cache cache' \<longleftrightarrow> rel_option (\<lambda>cc cc'. pre_signatures cc' = pre_signatures cc) cache cache'"

lemma keeps_signatures_refl: "keeps_signatures cache cache"
  by (cases cache) (simp_all add: keeps_signatures_def)

lemma keeps_signatures_trans: "keeps_signatures c1 c2 \<Longrightarrow> keeps_signatures c2 c3 \<Longrightarrow> keeps_signatures c1 c3"
  by (cases c1; cases c2; cases c3) (simp_all add: keeps_signatures_def)

lemma prepare_post_entry_signatures: "prepare_post_entry x cc = Some cc' \<Longrightarrow> pre_signatures cc' = pre_signatures cc"
  by (cases x) (auto simp: prepare_post_entry_def bind_simps Let_def pre_signatures_def fun_eq_iff)

lemma prepare_after_signatures: "prepare_after_id_assignment mg g cc = Some cc' \<Longrightarrow> pre_signatures cc' = pre_signatures cc"
proof -
  have "pre_signatures cc' = pre_signatures cc" if "fold_opt prepare_post_entry xs cc = Some cc'" for xs cc
    using that by (induction xs arbitrary: cc) (auto simp: bind_simps dest: prepare_post_entry_signatures)
  then show "prepare_after_id_assignment mg g cc = Some cc' \<Longrightarrow> pre_signatures cc' = pre_signatures cc"
    by (auto simp: prepare_after_id_assignment_def bind_simps)
qed

lemma module_hash_signatures:
  assumes "module_hash_cached mg g m cache = Some (h, cache')"
  shows "keeps_signatures cache cache'"
proof (cases cache)
  case None
  with assms show ?thesis by (auto simp: module_hash_cached_def keeps_signatures_def)
next
  case (Some cc)
  have get: "pre_signatures (snd (get_module_hash i cc)) = pre_signatures cc" for i
    by (simp add: get_module_hash_def Let_def pre_signatures_def fun_eq_iff)
  have store: "store_module_hash i x cc = Some cc' \<Longrightarrow> pre_signatures cc' = pre_signatures cc" for i x cc cc'
    by (auto simp: store_module_hash_def modify_entry_def modify_post_def bind_simps pre_signatures_def fun_eq_iff)
  from assms Some get [of "m_identity m"] show ?thesis
    by (auto simp: module_hash_cached_def keeps_signatures_def bind_simps dest!: store split: prod.splits option.splits)
qed

lemma module_hashes_signatures:
  assumes "module_hashes mg g ms cache = Some (hashes, cache')"
  shows "keeps_signatures cache cache'"
proof -
  have "keeps_signatures cache cache'"
    if "fold_opt (\<lambda>m (hashes, cache). do {
        (h, cache) \<leftarrow> module_hash_cached mg g m cache;
        Some (hashes @ [(m_handle m, h)], cache) }) ms (hs, cache) = Some (hashes, cache')" for hs cache
    using that
  proof (induction ms arbitrary: hs cache)
    case (Cons m ms)
    from Cons.prems obtain h c1 where h: "module_hash_cached mg g m cache = Some (h, c1)"
      and rest: "fold_opt (\<lambda>m (hashes, cache). do {
        (h, cache) \<leftarrow> module_hash_cached mg g m cache;
        Some (hashes @ [(m_handle m, h)], cache) }) ms (hs @ [(m_handle m, h)], c1) = Some (hashes, cache')"
      by (auto simp: bind_simps)
    from keeps_signatures_trans [OF module_hash_signatures [OF h] Cons.IH [OF rest]] show ?case .
  qed (simp add: keeps_signatures_refl)
  with assms show ?thesis by (simp add: module_hashes_def)
qed

lemma seal_signatures:
  assumes "seal_ids_and_hashes env mg g cache = Some (g', cache')"
  shows "keeps_signatures cache cache'"
proof -
  from assms obtain g1 c1 hashes where p: "prepare_post_cache mg g1 cache = Some c1"
    and h: "module_hashes mg g1 (filter (\<lambda>m. module_chunks g1 (m_handle m) \<noteq> []) (gs_modules mg)) c1 = Some (hashes, cache')"
    by (auto simp: seal_ids_and_hashes_def create_module_hashes_def bind_simps)
  from p have "keeps_signatures cache c1"
    by (cases cache) (auto simp: prepare_post_cache_def keeps_signatures_def dest: prepare_after_signatures)
  from keeps_signatures_trans [OF this module_hashes_signatures [OF h]] show ?thesis .
qed

text \<open>
  The hashes of a cache are right for a compilation: each is what is computed for the module with its
  identity, was stored under the references and exports that the module has there, and the entry was made
  for its source hash and build error.
\<close>

definition hashes_right :: "module_graph \<Rightarrow> chunk_graph \<Rightarrow> computation_cache \<Rightarrow> bool" where
  "hashes_right mg g cc \<longleftrightarrow> (\<forall>i e p x. cc_modules cc i = Some e \<longrightarrow> ce_post e = Some p \<longrightarrow> po_hash p = Some x \<longrightarrow>
     (\<exists>h < length (gs_modules mg). identity_at mg h = i \<and>
        ps_source_hash (ce_signature e) = bc_source_hash (m_content (gs_modules mg ! h)) \<and>
        ps_build_error (ce_signature e) = map_option error_display (m_build_error (gs_modules mg ! h)) \<and>
        post_id_assignment_signature mg g h = Some (po_signature p) \<and>
        compute_module_hash mg g (gs_modules mg ! h) = Some x))"

text \<open>
  A module that is built again from a source with the same hash, with the same error or none, is parsed the
  same way: the dependencies and blocks, the digest of what code generation reads, and whether it is a harmony
  module are the same.
\<close>

definition rebuilt_alike :: "module_graph \<Rightarrow> module_graph \<Rightarrow> bool" where
  "rebuilt_alike mg mg' \<longleftrightarrow> (\<forall>h < length (gs_modules mg). \<forall>k < length (gs_modules mg'). identity_at mg h = identity_at mg' k \<longrightarrow>
     bc_source_hash (m_content (gs_modules mg ! h)) = bc_source_hash (m_content (gs_modules mg' ! k)) \<longrightarrow>
     map_option error_display (m_build_error (gs_modules mg ! h)) = map_option error_display (m_build_error (gs_modules mg' ! k)) \<longrightarrow>
     m_parsed (gs_modules mg ! h) = m_parsed (gs_modules mg' ! k) \<and>
     bc_local_input_digest (m_content (gs_modules mg ! h)) = bc_local_input_digest (m_content (gs_modules mg' ! k)) \<and>
     m_harmony (gs_modules mg ! h) = m_harmony (gs_modules mg' ! k))"

lemma signature_source:
  assumes "graph_wf mg" and "h < length (gs_modules mg)"
  shows "ps_source_hash (signature_of mg h) = bc_source_hash (m_content (gs_modules mg ! h))"
    and "ps_build_error (signature_of mg h) = map_option error_display (m_build_error (gs_modules mg ! h))"
  using pre_signature_total [OF assms]
  by (auto simp: signature_of_def pre_chunk_graph_signature_def graph_module_def bind_simps vec_simps)

lemma hashes_right_sound:
  assumes wf: "graph_wf go" "graph_wf gp" "graph_wf gn" and ids: "distinct (map m_identity (gs_modules gp))"
    and modules: "gs_modules gn = gs_modules gp"
    and right: "hashes_right go co cc" and prep: "prepare_before_chunk_graph gp cc = Some cc1"
    and alike: "rebuilt_alike go gn" and alone: "cg_concatenated co = Map.empty" "cg_concatenated g = Map.empty"
    and total: "\<And>h. h < length (gs_modules gn) \<Longrightarrow> post_id_assignment_signature gn g h \<noteq> None"
  shows "hash_memos_sound gn g cc1"
  unfolding hash_memos_sound_def
proof (intro allI impI)
  fix h
  assume h: "h < length (gs_modules gn)"
  from prepare_before_chunk_graph_spec [OF wf(2) ids, of cc] prep h modules obtain
    e where e: "cc_modules cc1 (identity_at gn h) = Some e"
      "e = new_entry (signature_of gp h) \<or> cc_modules cc (identity_at gn h) = Some e \<and> ce_signature e = signature_of gp h"
    by (auto split: if_splits)
  have "x = hash_of gn g h"
    if p: "ce_post e = Some p" "po_signature p = post_signature_of gn g h" "po_hash p = Some x" for p x
  proof -
    from e(2) p(1) have c: "cc_modules cc (identity_at gn h) = Some e" "ce_signature e = signature_of gp h"
      by (auto simp: new_entry_def)
    from right c(1) p(1,3) obtain k where k: "k < length (gs_modules go)" "identity_at go k = identity_at gn h"
      "ps_source_hash (ce_signature e) = bc_source_hash (m_content (gs_modules go ! k))"
      "ps_build_error (ce_signature e) = map_option error_display (m_build_error (gs_modules go ! k))"
      "post_id_assignment_signature go co k = Some (po_signature p)"
      "compute_module_hash go co (gs_modules go ! k) = Some x"
      unfolding hashes_right_def by blast
    have s: "ps_source_hash (ce_signature e) = bc_source_hash (m_content (gs_modules gn ! h))"
      "ps_build_error (ce_signature e) = map_option error_display (m_build_error (gs_modules gn ! h))"
      using signature_source [OF wf(2)] h modules by (simp_all add: c(2))
    have inputs: "module_inputs (gs_modules go ! k) = module_inputs (gs_modules gn ! h)"
      using alike [unfolded rebuilt_alike_def, rule_format, OF k(1) h k(2)] k(2-4) s unfolding module_inputs_def by simp
    have "post_id_assignment_signature gn g h = Some (po_signature p)"
      using total [OF h] p(2) by (auto simp: post_signature_of_def)
    from hash_from_signatures [OF inputs graph_wf_handle [OF wf(1) k(1)] graph_wf_handle [OF wf(3) h] _ _ k(5) this]
    show ?thesis using k(6) alone by (simp add: hash_of_def) (metis option.sel)
  qed
  with e(1) show "\<exists>e. cc_modules cc1 (identity_at gn h) = Some e \<and>
      (\<forall>p x. ce_post e = Some p \<longrightarrow> po_signature p = post_signature_of gn g h \<longrightarrow> po_hash p = Some x \<longrightarrow> x = hash_of gn g h)"
    by blast
qed

lemma post_signature_hashes [simp]:
  "post_id_assignment_signature mg (g\<lparr>cg_module_hashes := hs\<rparr>) h = post_id_assignment_signature mg g h"
  by (simp add: post_id_assignment_signature_def)

lemma seal_hashes_right:
  assumes wf: "graph_wf go" "graph_wf gp" and modules: "gs_modules gn = gs_modules gp" and ok: "sealable gn g"
    and right: "hashes_right go co cc" and prep: "prepare_before_chunk_graph gp cc = Some cc1"
    and alike: "rebuilt_alike go gn" and alone: "cg_concatenated co = Map.empty" "cg_concatenated g = Map.empty"
  obtains g' cc2 where "seal_ids_and_hashes env gn g (Some cc1) = Some (g', Some cc2)"
    and "map_option fst (seal_ids_and_hashes env gn g None) = Some g'" and "hashes_right gn g' cc2"
    and "cg_concatenated g' = Map.empty"
proof -
  from ok have gn: "graph_wf gn" "distinct (map m_identity (gs_modules gn))"
    "length (mg_exports gn) = length (gs_modules gn)" "chunk_graph_wf g" "handles_in_range gn g"
    unfolding sealable_def by blast+
  have ids: "distinct (map m_identity (gs_modules gp))" using gn(2) modules by simp
  have total: "post_id_assignment_signature gn g1 h \<noteq> None" if "render_ids_set g g1" "h < length (gs_modules gn)" for g1 h
    using post_signature_total [OF gn(1) _ render_ids_set_frame(2) [OF that(1)] _ gn(3) that(2)]
      render_ids_set_frame [OF that(1)] gn(4,5) by simp
  have same: "cg_concatenated g1 = cg_concatenated g" if "render_ids_set g g1" for g1
    using that unfolding render_ids_set_def
    by (metis chunk_graph.select_convs(14) chunk_graph.surjective chunk_graph.update_convs(1,6))
  have sound: "cache_sound gn g1 (Some cc1)" if "assign_render_ids env gn g = Some g1" for g1
  proof -
    from seal_ids_and_hashes_spec [OF ok, of env None] that have r: "render_ids_set g g1" by (auto simp: cache_sound_def)
    from hashes_right_sound [OF wf gn(1) ids modules right prep alike alone(1)] same [OF r] alone(2) total [OF r]
    show ?thesis by (simp add: cache_sound_def)
  qed
  from seal_ids_and_hashes_spec [OF ok sound] obtain g1 g2 cache' where
    g: "render_ids_set g g1" "seal_ids_and_hashes env gn g (Some cc1) = Some (g2, cache')" "hashes_set gn g1 g2"
      "cache_ready gn g1 cache'" "map_option fst (seal_ids_and_hashes env gn g None) = Some g2" by blast
  from seal_signatures [OF g(2)] obtain cc2 where c: "cache' = Some cc2" "pre_signatures cc2 = pre_signatures cc1"
    by (auto simp: keeps_signatures_def option_rel_Some1)
  have g2: "g2 = g1\<lparr>cg_module_hashes := cg_module_hashes g2\<rparr>" using g(3) unfolding hashes_set_def by blast
  have "hashes_right gn g2 cc2"
    unfolding hashes_right_def
  proof (intro allI impI)
    fix i e p x
    assume e: "cc_modules cc2 i = Some e" "ce_post e = Some p" "po_hash p = Some x"
    from prepare_before_chunk_graph_spec [OF wf(2) ids, of cc] prep modules
    have dom: "dom (cc_modules cc1) = m_identity ` set (gs_modules gn)"
      and sig: "\<And>h. h < length (gs_modules gn) \<Longrightarrow> pre_signatures cc1 (identity_at gn h) = Some (signature_of gp h)"
      by (auto simp: pre_signatures_def new_entry_def split: if_splits)
    have "pre_signatures cc2 i = Some (ce_signature e)" using e(1) by (simp add: pre_signatures_def)
    then have i: "pre_signatures cc1 i = Some (ce_signature e)" by (simp add: c(2))
    then have "i \<in> dom (cc_modules cc1)" by (auto simp: pre_signatures_def)
    then obtain h where h: "h < length (gs_modules gn)" "identity_at gn h = i" unfolding dom by (auto simp: in_set_conv_nth)
    with i sig have s: "ce_signature e = signature_of gp h" by force
    have src: "ps_source_hash (ce_signature e) = bc_source_hash (m_content (gs_modules gn ! h))"
      "ps_build_error (ce_signature e) = map_option error_display (m_build_error (gs_modules gn ! h))"
      using signature_source [OF wf(2)] h modules by (simp_all add: s)
    from g(4) h e c(1) have r: "po_signature p = post_signature_of gn g1 h" "x = hash_of gn g1 h"
      by (auto simp: cache_ready_def hash_memos_ready_def)
    have "post_id_assignment_signature gn g1 h = Some (po_signature p)"
      using total [OF g(1) h(1)] r(1) by (auto simp: post_signature_of_def)
    moreover have "compute_module_hash gn g1 (gs_modules gn ! h) = Some x"
    proof -
      have "compute_module_hash gn g1 (gs_modules gn ! h) \<noteq> None"
        using compute_module_hash_total [OF gn(1) _ render_ids_set_frame(2) [OF g(1)] _ gn(3) h(1)]
          render_ids_set_frame [OF g(1)] gn(4,5) by simp
      then show ?thesis using r(2) by (auto simp: hash_of_def)
    qed
    ultimately show "\<exists>h < length (gs_modules gn). identity_at gn h = i \<and>
        ps_source_hash (ce_signature e) = bc_source_hash (m_content (gs_modules gn ! h)) \<and>
        ps_build_error (ce_signature e) = map_option error_display (m_build_error (gs_modules gn ! h)) \<and>
        post_id_assignment_signature gn g2 h = Some (po_signature p) \<and>
        compute_module_hash gn g2 (gs_modules gn ! h) = Some x"
      using h src by (subst (1 2) g2) auto
  qed
  moreover have "cg_concatenated g2 = Map.empty" using same [OF g(1)] alone(2) by (subst g2) simp
  ultimately show thesis using g(2,5) c(1) that by blast
qed

end
