(* ===== verification/Concatenation.thy ===== *)
theory Concatenation
  imports Split_Chunks Side_Effects
begin

text \<open>
  \<open>module_concatenation_plugin.rs\<close>: which modules are put into one scope with a root that is in all
  chunks they have to be in, such that no active import from outside of the scope remains.  A hash
  set or B-tree set of handles is a set; where the order matters the code sorts by identity.
\<close>

section \<open>Definitions\<close>

definition module_can_concatenate :: "module_graph \<Rightarrow> chunk_graph \<Rightarrow> nat \<Rightarrow> bool" where
  "module_can_concatenate mg g h =
     (case graph_module mg h of
        None \<Rightarrow> False
      | Some m \<Rightarrow> mi_module_type (m_identity m) = JavaScriptAuto \<and> m_harmony m \<and>
          \<not> bm_uses_direct_eval (pm_build_meta (bc_parsed (m_content m))) \<and>
          m_build_error m = None \<and> module_chunks g h \<noteq> [])"

text \<open>\<open>imports\<close>: what a module imports in a way that can be resolved inside of one scope.\<close>

definition concat_imports :: "module_graph \<Rightarrow> nat \<Rightarrow> nat set option" where
  "concat_imports mg m = do {
     cs \<leftarrow> outgoing_connections mg m;
     Some (set (map cn_module (filter (\<lambda>c. connection_is_active c \<and> can_concatenate (cn_dependency c)) cs))) }"

definition in_all_chunks :: "chunk_graph \<Rightarrow> nat list \<Rightarrow> nat \<Rightarrow> bool option" where
  "in_all_chunks g chunks m = all_opt (\<lambda>c. map_option (\<lambda>ms. m \<in> set ms) (chunk_modules g c)) chunks"

text \<open>The modules in chunks that import a candidate, and whether they do so in a way that can be resolved.\<close>

definition chunk_importers :: "module_graph \<Rightarrow> chunk_graph \<Rightarrow> nat \<Rightarrow> (nat \<times> bool) list option" where
  "chunk_importers mg g candidate = do {
     cs \<leftarrow> incoming_connections mg candidate;
     Some (filter (\<lambda>(origin, _). module_chunks g origin \<noteq> [])
       (List.map_filter (\<lambda>c. map_option (\<lambda>origin. (origin, can_concatenate (cn_dependency c))) (cn_origin c))
         (filter connection_is_active cs))) }"

text \<open>
  What \<open>try_to_add\<close> asks of a candidate that is not in the scope yet, and the importers it goes on
  to: none if the candidate is rejected.
\<close>

definition addable_importers ::
  "module_graph \<Rightarrow> chunk_graph \<Rightarrow> nat list \<Rightarrow> nat set \<Rightarrow> nat \<Rightarrow> nat list option option" where
  "addable_importers mg g root_chunks possible candidate =
     (if candidate \<notin> possible then Some None
      else do {
        here \<leftarrow> in_all_chunks g root_chunks candidate;
        if \<not> here then Some None
        else do {
          incoming \<leftarrow> chunk_importers mg g candidate;
          ok \<leftarrow> all_opt (\<lambda>(origin, can). if \<not> can then Some False else in_all_chunks g root_chunks origin) incoming;
          if \<not> ok then Some None
          else do {
            importers \<leftarrow> sort_by_key (identity_of mg) (map fst incoming);
            Some (Some (remdups_adj importers)) } } })"

text \<open>
  \<open>try_to_add\<close>, for the candidates of a list in turn: the new scope, or \<open>None\<close> for the answer
  \<open>false\<close>, with which the caller goes back to the scope it had.
\<close>

partial_function (option) try_to_add_each ::
  "module_graph \<Rightarrow> chunk_graph \<Rightarrow> nat list \<Rightarrow> nat set \<Rightarrow> nat list \<Rightarrow> nat set \<Rightarrow> nat set option option" where
  "try_to_add_each mg g root_chunks possible cs modules =
     (case cs of
        [] \<Rightarrow> Some (Some modules)
      | c # cs \<Rightarrow>
          if c \<in> modules then try_to_add_each mg g root_chunks possible cs modules
          else Option.bind (addable_importers mg g root_chunks possible c) (\<lambda>addable.
            case addable of
              None \<Rightarrow> Some None
            | Some importers \<Rightarrow>
                Option.bind (try_to_add_each mg g root_chunks possible importers (insert c modules)) (\<lambda>added.
                  case added of
                    None \<Rightarrow> Some None
                  | Some modules' \<Rightarrow> try_to_add_each mg g root_chunks possible cs modules')))"

lemmas try_to_add_each_code [code] = try_to_add_each.simps

definition try_to_add ::
  "module_graph \<Rightarrow> chunk_graph \<Rightarrow> nat list \<Rightarrow> nat set \<Rightarrow> nat set \<Rightarrow> nat \<Rightarrow> nat set option option" where
  "try_to_add mg g root_chunks possible modules candidate =
     try_to_add_each mg g root_chunks possible [candidate] modules"

record configuration =
  cf_root :: nat
  cf_modules :: "nat set"

text \<open>The scope of a root, the candidates left, and those processed.\<close>

type_synonym growth = "nat set \<times> nat set \<times> nat set"

definition first_candidate :: "module_graph \<Rightarrow> nat set \<Rightarrow> nat option" where
  "first_candidate mg candidates = do {
     cs \<leftarrow> sort_by_key (identity_of mg) (sorted_list_of_set candidates);
     (case cs of [] \<Rightarrow> None | c # _ \<Rightarrow> Some c) }"

definition grow_step ::
  "module_graph \<Rightarrow> chunk_graph \<Rightarrow> nat list \<Rightarrow> nat set \<Rightarrow> growth \<Rightarrow> growth option" where
  "grow_step mg g root_chunks possible = (\<lambda>(modules, candidates, processed). do {
     candidate \<leftarrow> first_candidate mg candidates;
     let candidates = candidates - {candidate};
     if candidate \<in> processed then Some (modules, candidates, processed)
     else do {
       added \<leftarrow> try_to_add mg g root_chunks possible modules candidate;
       (case added of
          None \<Rightarrow> Some (modules, candidates, insert candidate processed)
        | Some modules' \<Rightarrow> do {
            more \<leftarrow> map_opt (concat_imports mg) (sorted_list_of_set (modules' - modules));
            Some (modules', candidates \<union> \<Union> (set more), insert candidate processed) }) } })"

definition grow_scope :: "module_graph \<Rightarrow> chunk_graph \<Rightarrow> nat set \<Rightarrow> nat \<Rightarrow> nat set option" where
  "grow_scope mg g possible root = do {
     candidates \<leftarrow> concat_imports mg root;
     (modules, _) \<leftarrow> loop_opt (\<lambda>(_, candidates, _). candidates \<noteq> {})
       (grow_step mg g (module_chunks g root) possible) ({root}, candidates, {});
     Some modules }"

definition configure_root ::
  "module_graph \<Rightarrow> chunk_graph \<Rightarrow> nat set \<Rightarrow> nat \<Rightarrow> nat set \<times> configuration list \<Rightarrow>
   (nat set \<times> configuration list) option"
where
  "configure_root mg g possible root = (\<lambda>(used_as_inner, configurations).
     if root \<in> used_as_inner then Some (used_as_inner, configurations)
     else do {
       modules \<leftarrow> grow_scope mg g possible root;
       Some (if 1 < card modules
             then (used_as_inner \<union> (modules - {root}), configurations @ [\<lparr>cf_root = root, cf_modules = modules\<rparr>])
             else (used_as_inner, configurations)) })"

definition possible_inners :: "module_graph \<Rightarrow> chunk_graph \<Rightarrow> nat set \<Rightarrow> nat set" where
  "possible_inners mg g entries = set (filter (\<lambda>h. module_can_concatenate mg g h \<and> h \<notin> entries)
     (map m_handle (gs_modules mg)))"

definition possible_roots :: "module_graph \<Rightarrow> chunk_graph \<Rightarrow> nat list option" where
  "possible_roots mg g = do {
     provided \<leftarrow> map_opt (\<lambda>h. map_option (\<lambda>info. ei_provided info \<noteq> None) (graph_exports mg h))
       (filter (module_can_concatenate mg g) (map m_handle (gs_modules mg)));
     sort_by_key (identity_of mg)
       (map fst (filter snd (zip (filter (module_can_concatenate mg g) (map m_handle (gs_modules mg))) provided))) }"

definition configuration_key :: "module_graph \<Rightarrow> configuration \<Rightarrow> (int \<times> module_identity) option" where
  "configuration_key mg cf =
     map_option (\<lambda>i. (- int (card (cf_modules cf)), i)) (identity_of mg (cf_root cf))"

definition find_configurations ::
  "module_graph \<Rightarrow> chunk_graph \<Rightarrow> nat set \<Rightarrow> configuration list option" where
  "find_configurations mg g entries = do {
     roots \<leftarrow> possible_roots mg g;
     (_, configurations) \<leftarrow> fold_opt (configure_root mg g (possible_inners mg g entries)) roots ({}, []);
     sort_by_key (configuration_key mg) configurations }"

definition concatenated_new :: "nat \<Rightarrow> nat list \<Rightarrow> module_graph \<Rightarrow> concatenated option" where
  "concatenated_new root modules mg = do {
     modules \<leftarrow> sort_by_key (identity_of mg) modules;
     let modules = remdups_adj modules;
     if root \<in> set modules then Some \<lparr>cm_root = root, cm_modules = modules\<rparr> else None }"

definition concatenate_configuration ::
  "module_graph \<Rightarrow> configuration \<Rightarrow> nat set \<times> chunk_graph \<Rightarrow> (nat set \<times> chunk_graph) option" where
  "concatenate_configuration mg cf = (\<lambda>(used, g).
     if cf_root cf \<in> used then Some (used, g)
     else do {
       cm \<leftarrow> concatenated_new (cf_root cf) (sorted_list_of_set (cf_modules cf)) mg;
       g \<leftarrow> add_concatenated_module cm g;
       Some (used \<union> cf_modules cf, g) })"

definition optimize_chunk_modules :: "nat list \<Rightarrow> module_graph \<Rightarrow> chunk_graph \<Rightarrow> chunk_graph option" where
  "optimize_chunk_modules entries mg g = do {
     configurations \<leftarrow> find_configurations mg g (set entries);
     (_, g) \<leftarrow> fold_opt (concatenate_configuration mg) configurations ({}, g);
     Some g }"

section \<open>What the tests mean\<close>

lemma sort_key_map: "sort_key f (map g xs) = map g (sort_key (f \<circ> g) xs)"
proof -
  have "insort_key f (g x) (map g ys) = map g (insort_key (f \<circ> g) x ys)" for x ys
    by (induction ys) simp_all
  then show ?thesis by (induction xs) simp_all
qed

lemma sort_by_key_eq:
  assumes "\<And>x. x \<in> set xs \<Longrightarrow> key x \<noteq> None"
  shows "sort_by_key key xs = Some (sort_key (the \<circ> key) xs)"
proof -
  have "map_opt key xs = Some (map (the \<circ> key) xs)" using assms by (intro map_opt_total) auto
  moreover have "zip (map (the \<circ> key) xs) xs = map (\<lambda>x. ((the \<circ> key) x, x)) xs" by (induction xs) simp_all
  moreover have "fst \<circ> (\<lambda>x. ((the \<circ> key) x, x)) = the \<circ> key" "snd \<circ> (\<lambda>x. ((the \<circ> key) x, x)) = id"
    by (simp_all add: fun_eq_iff)
  ultimately show ?thesis by (simp add: sort_by_key_def sort_key_map)
qed

lemma identity_of_range: "h < length (gs_modules mg) \<Longrightarrow> identity_of mg h \<noteq> None"
  by (simp add: identity_of_def graph_module_def)

lemma module_chunks_iff:
  assumes "chunk_graph_wf g"
  shows "c \<in> set (module_chunks g m) \<longleftrightarrow> c < length (cg_chunks g) \<and> m \<in> set (cg_chunk_modules g ! c)"
proof -
  from assms have l: "linked (cg_chunk_modules g) (cg_module_chunks g)" "length (cg_chunk_modules g) = length (cg_chunks g)"
    by (simp_all add: chunk_graph_wf_def modules_linked_def sizes_ok_def)
  from linkedD(1) [OF l(1), of c m] linkedD(2) [OF l(1), of m c] l(2) show ?thesis
    by (auto simp: module_chunks_def vec_get_def)
qed

definition concat_edge :: "module_graph \<Rightarrow> nat \<Rightarrow> nat \<Rightarrow> bool" where
  "concat_edge mg a b \<longleftrightarrow> (\<exists>k \<in> set (gs_connections mg). cn_origin k = Some a \<and> cn_module k = b \<and>
     connection_is_active k \<and> can_concatenate (cn_dependency k))"

definition chunk_importer :: "module_graph \<Rightarrow> chunk_graph \<Rightarrow> nat \<Rightarrow> nat \<Rightarrow> bool" where
  "chunk_importer mg g m a \<longleftrightarrow> (\<exists>k \<in> set (gs_connections mg). cn_origin k = Some a \<and> cn_module k = m \<and>
     connection_is_active k) \<and> module_chunks g a \<noteq> []"

definition beside :: "chunk_graph \<Rightarrow> nat list \<Rightarrow> nat \<Rightarrow> bool" where
  "beside g chunks m \<longleftrightarrow> set chunks \<subseteq> set (module_chunks g m)"

definition fits :: "module_graph \<Rightarrow> chunk_graph \<Rightarrow> nat list \<Rightarrow> nat set \<Rightarrow> nat \<Rightarrow> bool" where
  "fits mg g chunks possible m \<longleftrightarrow> m \<in> possible \<and> beside g chunks m \<and>
     (\<forall>k \<in> set (gs_connections mg). \<forall>a. cn_module k = m \<longrightarrow> connection_is_active k \<longrightarrow> cn_origin k = Some a \<longrightarrow>
        module_chunks g a \<noteq> [] \<longrightarrow> can_concatenate (cn_dependency k) \<and> beside g chunks a)"

lemma concat_imports_ok:
  assumes "graph_wf mg" and "m < length (gs_modules mg)"
  shows "concat_imports mg m = Some {b. concat_edge mg m b}"
  by (auto simp: concat_imports_def outgoing_connections_spec [OF assms] concat_edge_def)

lemma concat_edge_range: "graph_wf mg \<Longrightarrow> concat_edge mg a b \<Longrightarrow> b < length (gs_modules mg)"
  by (auto simp: concat_edge_def dest: graph_wf_target)

lemma chunk_importer_range:
  assumes "graph_wf mg" and "chunk_importer mg g m a"
  shows "a < length (gs_modules mg)"
proof -
  from assms(2) obtain k where "k \<in> set (gs_connections mg)" "cn_origin k = Some a" by (auto simp: chunk_importer_def)
  then show ?thesis using graph_wfD(4) [OF assms(1)] by (auto simp: in_set_conv_nth connection_wf_def)
qed

lemma in_all_chunks_ok:
  assumes wf: "chunk_graph_wf g" and "\<forall>c \<in> set chunks. c < length (cg_chunks g)"
  shows "in_all_chunks g chunks m = Some (beside g chunks m)"
proof -
  have len: "length (cg_chunk_modules g) = length (cg_chunks g)" using wf by (simp add: chunk_graph_wf_def sizes_ok_def)
  have "in_all_chunks g chunks m = Some (list_all (\<lambda>c. m \<in> set (cg_chunk_modules g ! c)) chunks)"
    unfolding in_all_chunks_def by (rule all_opt_total) (use assms(2) len in \<open>simp add: Chunk_Graph.chunk_modules_def\<close>)
  moreover have "list_all (\<lambda>c. m \<in> set (cg_chunk_modules g ! c)) chunks \<longleftrightarrow> beside g chunks m"
    using assms(2) module_chunks_iff [OF wf] by (auto simp: list_all_iff beside_def)
  ultimately show ?thesis by simp
qed

lemma in_map_filter: "y \<in> set (List.map_filter f xs) \<longleftrightarrow> (\<exists>x \<in> set xs. f x = Some y)"
  by (induction xs) (auto simp: List.map_filter_simps split: option.splits)

lemma addable_importers_ok:
  assumes wf: "graph_wf mg" and cwf: "chunk_graph_wf g" and ch: "\<forall>c \<in> set chunks. c < length (cg_chunks g)"
    and m: "m < length (gs_modules mg)"
  shows "\<exists>is. addable_importers mg g chunks possible m = Some (if fits mg g chunks possible m then Some is else None) \<and>
    set is = {a. chunk_importer mg g m a}"
proof -
  from incoming_connections_spec [OF wf m] obtain cs where
    cs: "incoming_connections mg m = Some cs" "set cs = {c \<in> set (gs_connections mg). cn_module c = m}" by blast
  define inc where "inc = filter (\<lambda>(origin, _). module_chunks g origin \<noteq> [])
       (List.map_filter (\<lambda>c. map_option (\<lambda>origin. (origin, can_concatenate (cn_dependency c))) (cn_origin c))
         (filter connection_is_active cs))"
  have i: "chunk_importers mg g m = Some inc" by (simp add: chunk_importers_def cs(1) inc_def)
  have inc: "p \<in> set inc \<longleftrightarrow> (\<exists>k \<in> set (gs_connections mg). cn_module k = m \<and> connection_is_active k \<and>
      cn_origin k = Some (fst p) \<and> snd p = can_concatenate (cn_dependency k)) \<and> module_chunks g (fst p) \<noteq> []" for p
    by (cases p) (auto simp: inc_def in_map_filter cs(2))
  have a: "all_opt (\<lambda>(origin, can). if \<not> can then Some False else in_all_chunks g chunks origin) inc =
      Some (list_all (\<lambda>(origin, can). can \<and> beside g chunks origin) inc)"
    by (rule all_opt_total) (auto simp: in_all_chunks_ok [OF cwf ch])
  have f: "fits mg g chunks possible m \<longleftrightarrow> m \<in> possible \<and> beside g chunks m \<and>
      list_all (\<lambda>(origin, can). can \<and> beside g chunks origin) inc"
  proof -
    have "list_all (\<lambda>(origin, can). can \<and> beside g chunks origin) inc \<longleftrightarrow>
        (\<forall>a can. (a, can) \<in> set inc \<longrightarrow> can \<and> beside g chunks a)" by (auto simp: list_all_iff)
    also have "\<dots> \<longleftrightarrow> (\<forall>k \<in> set (gs_connections mg). \<forall>a. cn_module k = m \<longrightarrow> connection_is_active k \<longrightarrow>
        cn_origin k = Some a \<longrightarrow> module_chunks g a \<noteq> [] \<longrightarrow> can_concatenate (cn_dependency k) \<and> beside g chunks a)"
      unfolding inc fst_conv snd_conv by blast
    finally show ?thesis by (simp only: fits_def)
  qed
  have imps: "set (map fst inc) = {a. chunk_importer mg g m a}"
  proof -
    have "a \<in> set (map fst inc) \<longleftrightarrow> (\<exists>can. (a, can) \<in> set inc)" for a by force
    also have "(\<exists>can. (a, can) \<in> set inc) \<longleftrightarrow> chunk_importer mg g m a" for a
      unfolding inc fst_conv snd_conv chunk_importer_def by blast
    finally show ?thesis by blast
  qed
  have "identity_of mg x \<noteq> None" if "x \<in> set (map fst inc)" for x
  proof (rule identity_of_range)
    from that imps have "chunk_importer mg g m x" by blast
    then show "x < length (gs_modules mg)" by (rule chunk_importer_range [OF wf])
  qed
  then have s: "sort_by_key (identity_of mg) (map fst inc) = Some (sort_key (the \<circ> identity_of mg) (map fst inc))"
    by (rule sort_by_key_eq)
  have set_is: "set (remdups_adj (sort_key (the \<circ> identity_of mg) (map fst inc))) = {a. chunk_importer mg g m a}"
    using imps by simp
  have h: "in_all_chunks g chunks m = Some (beside g chunks m)" by (rule in_all_chunks_ok [OF cwf ch])
  have "addable_importers mg g chunks possible m = Some (if fits mg g chunks possible m
      then Some (remdups_adj (sort_key (the \<circ> identity_of mg) (map fst inc))) else None)"
    unfolding addable_importers_def h i f by (simp only: bind.bind_lunit a s if_distrib) simp
  with set_is show ?thesis by blast
qed


section \<open>Growing a scope\<close>

text \<open>Paths along importers that stay outside of a scope.\<close>

inductive up_outside :: "module_graph \<Rightarrow> chunk_graph \<Rightarrow> nat set \<Rightarrow> nat \<Rightarrow> nat \<Rightarrow> bool" for mg g M where
  here: "c \<notin> M \<Longrightarrow> up_outside mg g M c c"
| up: "c \<notin> M \<Longrightarrow> chunk_importer mg g c a \<Longrightarrow> up_outside mg g M a n \<Longrightarrow> up_outside mg g M c n"

lemma up_outside_mono: "up_outside mg g M c n \<Longrightarrow> N \<subseteq> M \<Longrightarrow> up_outside mg g N c n"
  by (induction rule: up_outside.induct) (auto intro: up_outside.intros)

definition added_well :: "module_graph \<Rightarrow> chunk_graph \<Rightarrow> nat list \<Rightarrow> nat set \<Rightarrow> nat list \<Rightarrow> nat set \<Rightarrow> nat set \<Rightarrow> bool" where
  "added_well mg g chunks possible cs M M' \<longleftrightarrow> M \<union> set cs \<subseteq> M' \<and>
     (\<forall>m \<in> M' - M. fits mg g chunks possible m \<and> {a. chunk_importer mg g m a} \<subseteq> M' \<and>
        (\<exists>c \<in> set cs. up_outside mg g M c m))"

definition rejected :: "module_graph \<Rightarrow> chunk_graph \<Rightarrow> nat list \<Rightarrow> nat set \<Rightarrow> nat set \<Rightarrow> nat \<Rightarrow> bool" where
  "rejected mg g chunks possible M c \<longleftrightarrow> (\<exists>n. up_outside mg g M c n \<and> \<not> fits mg g chunks possible n)"

lemma rejected_here: "c \<notin> M \<Longrightarrow> \<not> fits mg g chunks possible c \<Longrightarrow> rejected mg g chunks possible M c"
  unfolding rejected_def by (blast intro: up_outside.here)

lemma rejected_mono: "rejected mg g chunks possible M' c \<Longrightarrow> M \<subseteq> M' \<Longrightarrow> rejected mg g chunks possible M c"
  unfolding rejected_def by (blast intro: up_outside_mono)

lemma up_outside_insert:
  assumes "c \<notin> M" and "chunk_importer mg g c a" and "up_outside mg g (insert c M) a n"
  shows "up_outside mg g M c n"
  using assms up_outside_mono [OF assms(3), of M] by (blast intro: up_outside.up)

lemma rejected_up:
  assumes "c \<notin> M" and "chunk_importer mg g c a" and "rejected mg g chunks possible (insert c M) a"
  shows "rejected mg g chunks possible M c"
  using assms unfolding rejected_def by (blast intro: up_outside_insert)

lemma added_well_step:
  assumes c: "c \<notin> M" "fits mg g chunks possible c" and xs: "set xs = {a. chunk_importer mg g c a}"
    and w1: "added_well mg g chunks possible xs (insert c M) M1" and w2: "added_well mg g chunks possible cs M1 M2"
  shows "added_well mg g chunks possible (c # cs) M M2"
proof -
  have sub: "insert c M \<subseteq> M1" "set xs \<subseteq> M1" "M1 \<subseteq> M2" "set cs \<subseteq> M2" using w1 w2 by (auto simp: added_well_def)
  have "fits mg g chunks possible m \<and> {a. chunk_importer mg g m a} \<subseteq> M2 \<and>
      (\<exists>c' \<in> set (c # cs). up_outside mg g M c' m)" if m: "m \<in> M2 - M" for m
  proof -
    consider "m \<in> M2 - M1" | "m = c" | "m \<in> M1 - insert c M" using m by blast
    then show ?thesis
    proof cases
      case 1
      with w2 obtain c' where c': "fits mg g chunks possible m" "{a. chunk_importer mg g m a} \<subseteq> M2"
        "c' \<in> set cs" "up_outside mg g M1 c' m" unfolding added_well_def by blast
      have "up_outside mg g M c' m" using c'(4) by (rule up_outside_mono) (use sub in blast)
      with c' show ?thesis by auto
    next
      case 2
      with c xs sub up_outside.here [OF c(1), of mg g] show ?thesis by auto
    next
      case 3
      with w1 obtain a where a: "fits mg g chunks possible m" "{a. chunk_importer mg g m a} \<subseteq> M1"
        "a \<in> set xs" "up_outside mg g (insert c M) a m" unfolding added_well_def by blast
      have "chunk_importer mg g c a" using a(3) xs by blast
      from up_outside_insert [OF c(1) this a(4)] a sub show ?thesis by auto
    qed
  qed
  with sub show ?thesis by (auto simp: added_well_def)
qed

lemma added_well_skip: "c \<in> M \<Longrightarrow> added_well mg g chunks possible cs M M' \<Longrightarrow> added_well mg g chunks possible (c # cs) M M'"
  by (auto simp: added_well_def)

definition add_result :: "module_graph \<Rightarrow> chunk_graph \<Rightarrow> nat list \<Rightarrow> nat set \<Rightarrow> nat list \<Rightarrow> nat set \<Rightarrow> nat set option \<Rightarrow> bool" where
  "add_result mg g chunks possible cs M r \<longleftrightarrow>
     (case r of None \<Rightarrow> \<exists>c \<in> set cs. rejected mg g chunks possible M c
              | Some M' \<Rightarrow> added_well mg g chunks possible cs M M')"

lemma try_to_add_each_spec:
  assumes wf: "graph_wf mg" and cwf: "chunk_graph_wf g" and ch: "\<forall>c \<in> set chunks. c < length (cg_chunks g)"
    and fin: "finite possible" and cs: "\<forall>c \<in> set cs. c < length (gs_modules mg)"
  shows "\<exists>r. try_to_add_each mg g chunks possible cs M = Some r \<and> add_result mg g chunks possible cs M r"
  using cs
proof (induction "card (possible - M)" arbitrary: cs M rule: less_induct)
  case less
  note outer = less.hyps
  show ?case using less.prems
  proof (induction cs)
    case Nil
    then show ?case by (subst try_to_add_each.simps) (simp add: added_well_def add_result_def)
  next
    case (Cons c cs)
    from Cons.prems have c: "c < length (gs_modules mg)" and rest: "\<forall>c \<in> set cs. c < length (gs_modules mg)" by simp_all
    show ?case
    proof (cases "c \<in> M")
      case True
      from Cons.IH [OF rest] obtain r where
        r: "try_to_add_each mg g chunks possible cs M = Some r" "add_result mg g chunks possible cs M r" by blast
      from True have "try_to_add_each mg g chunks possible (c # cs) M = try_to_add_each mg g chunks possible cs M"
        by (subst try_to_add_each.simps) simp
      moreover have "add_result mg g chunks possible (c # cs) M r"
        using r(2) added_well_skip [OF True] by (auto simp: add_result_def split: option.splits)
      ultimately show ?thesis using r(1) by simp
    next
      case False
      from addable_importers_ok [OF wf cwf ch c, of possible] obtain xs where
        xs: "addable_importers mg g chunks possible c = Some (if fits mg g chunks possible c then Some xs else None)"
          "set xs = {a. chunk_importer mg g c a}" by blast
      have eq: "try_to_add_each mg g chunks possible (c # cs) M =
          (if fits mg g chunks possible c
           then Option.bind (try_to_add_each mg g chunks possible xs (insert c M)) (\<lambda>added.
                  case added of None \<Rightarrow> Some None | Some M' \<Rightarrow> try_to_add_each mg g chunks possible cs M')
           else Some None)"
        by (subst try_to_add_each.simps) (simp add: False xs(1))
      show ?thesis
      proof (cases "fits mg g chunks possible c")
        case no: False
        from rejected_here [OF False no] show ?thesis using eq no by (simp add: add_result_def)
      next
        case True
        then have "c \<in> possible" by (simp add: fits_def)
        with False have dec: "card (possible - M') < card (possible - M)" if "insert c M \<subseteq> M'" for M'
          using that fin by (intro psubset_card_mono) auto
        have "\<forall>a \<in> set xs. a < length (gs_modules mg)" using xs(2) chunk_importer_range [OF wf] by blast
        from outer [OF dec [OF order_refl] this] obtain r1 where
          r1: "try_to_add_each mg g chunks possible xs (insert c M) = Some r1"
            "add_result mg g chunks possible xs (insert c M) r1" by blast
        show ?thesis
        proof (cases r1)
          case None
          with r1(2) obtain a where "a \<in> set xs" "rejected mg g chunks possible (insert c M) a"
            by (auto simp: add_result_def)
          then have "rejected mg g chunks possible M c" using xs(2) rejected_up [OF False] by blast
          then show ?thesis using None r1(1) eq True by (simp add: add_result_def)
        next
          case (Some M1)
          with r1(2) have w1: "added_well mg g chunks possible xs (insert c M) M1" by (simp add: add_result_def)
          then have sub: "insert c M \<subseteq> M1" by (simp add: added_well_def)
          from outer [OF dec [OF sub] rest] obtain r2 where
            r2: "try_to_add_each mg g chunks possible cs M1 = Some r2" "add_result mg g chunks possible cs M1 r2" by blast
          have "try_to_add_each mg g chunks possible (c # cs) M = Some r2" using eq True r1(1) Some r2(1) by simp
          moreover have "add_result mg g chunks possible (c # cs) M r2"
            using r2(2) added_well_step [OF False True xs(2) w1] rejected_mono [of mg g chunks possible M1 _ M] sub
            by (cases r2; simp add: add_result_def; blast)
          ultimately show ?thesis by blast
        qed
      qed
    qed
  qed
qed


text \<open>The scopes that a root can grow to, batch by batch.\<close>

inductive grown :: "module_graph \<Rightarrow> chunk_graph \<Rightarrow> nat set \<Rightarrow> nat \<Rightarrow> nat set \<Rightarrow> bool" for mg g possible r where
  root: "grown mg g possible r {r}"
| batch: "grown mg g possible r M \<Longrightarrow> y \<in> M \<Longrightarrow> concat_edge mg y c \<Longrightarrow>
    added_well mg g (module_chunks g r) possible [c] M M' \<Longrightarrow> grown mg g possible r M'"

definition complete :: "module_graph \<Rightarrow> chunk_graph \<Rightarrow> nat set \<Rightarrow> nat \<Rightarrow> nat set \<Rightarrow> bool" where
  "complete mg g possible r A \<longleftrightarrow> (\<forall>y \<in> A. \<forall>c. concat_edge mg y c \<longrightarrow>
     c \<in> A \<or> rejected mg g (module_chunks g r) possible {r} c)"

lemma grown_closed:
  assumes "grown mg g possible r M"
  shows "r \<in> M \<and> (\<forall>m \<in> M - {r}. fits mg g (module_chunks g r) possible m \<and> {a. chunk_importer mg g m a} \<subseteq> M)"
  using assms
proof induction
  case (batch M y c M')
  have sub: "M \<subseteq> M'" using batch.hyps by (auto simp: added_well_def)
  have "fits mg g (module_chunks g r) possible m \<and> {a. chunk_importer mg g m a} \<subseteq> M'" if "m \<in> M' - {r}" for m
  proof (cases "m \<in> M")
    case True
    with batch.IH that sub show ?thesis by blast
  next
    case False
    with batch.hyps(4) that show ?thesis unfolding added_well_def by blast
  qed
  with batch.IH sub show ?case by blast
qed simp

lemma grown_range:
  assumes "grown mg g possible r M" and "r < n" and "possible \<subseteq> {..<n}"
  shows "M \<subseteq> {..<n}" and "finite M"
proof -
  from grown_closed [OF assms(1)] assms(2,3) show "M \<subseteq> {..<n}" by (auto simp: fits_def)
  then show "finite M" by (rule finite_subset) simp
qed

lemma first_candidate_ok:
  assumes "C \<subseteq> {..<length (gs_modules mg)}" and "C \<noteq> {}"
  shows "\<exists>c \<in> C. first_candidate mg C = Some c"
proof -
  have fin: "finite C" using assms(1) by (rule finite_subset) simp
  have "identity_of mg x \<noteq> None" if "x \<in> set (sorted_list_of_set C)" for x
    using that assms(1) fin by (intro identity_of_range) auto
  from sort_by_key_eq [OF this] have
    s: "sort_by_key (identity_of mg) (sorted_list_of_set C) = Some (sort_key (the \<circ> identity_of mg) (sorted_list_of_set C))" .
  have e: "set (sort_key (the \<circ> identity_of mg) (sorted_list_of_set C)) = C" using fin by simp
  show ?thesis
  proof (cases "sort_key (the \<circ> identity_of mg) (sorted_list_of_set C)")
    case Nil
    with e assms(2) show ?thesis by simp
  next
    case (Cons c cs)
    then have "c \<in> C" using e by (metis list.set_intros(1))
    with Cons show ?thesis by (simp add: first_candidate_def s)
  qed
qed

lemma map_concat_imports:
  assumes "graph_wf mg" and "N \<subseteq> {..<length (gs_modules mg)}"
  shows "map_opt (concat_imports mg) (sorted_list_of_set N) =
    Some (map (\<lambda>m. {b. concat_edge mg m b}) (sorted_list_of_set N))"
proof (rule map_opt_total)
  have "finite N" using assms(2) by (rule finite_subset) simp
  then show "concat_imports mg x = Some {b. concat_edge mg x b}" if "x \<in> set (sorted_list_of_set N)" for x
    using that assms by (intro concat_imports_ok) auto
qed

definition growth_ok :: "module_graph \<Rightarrow> chunk_graph \<Rightarrow> nat set \<Rightarrow> nat \<Rightarrow> growth \<Rightarrow> bool" where
  "growth_ok mg g possible r = (\<lambda>(M, C, D). grown mg g possible r M \<and>
     C \<subseteq> {..<length (gs_modules mg)} \<and> D \<subseteq> {..<length (gs_modules mg)} \<and>
     (\<forall>y \<in> M. \<forall>c. concat_edge mg y c \<longrightarrow> c \<in> C \<union> D) \<and>
     (\<forall>c \<in> C. \<exists>y \<in> M. concat_edge mg y c) \<and>
     (\<forall>c \<in> D. c \<in> M \<or> rejected mg g (module_chunks g r) possible {r} c))"

lemma grow_step_ok:
  assumes wf: "graph_wf mg" and cwf: "chunk_graph_wf g" and r: "r < length (gs_modules mg)"
    and P: "possible \<subseteq> {..<length (gs_modules mg)}"
    and inv: "growth_ok mg g possible r (M, C, D)" and ne: "C \<noteq> {}"
  shows "\<exists>M' C' D'. grow_step mg g (module_chunks g r) possible (M, C, D) = Some (M', C', D') \<and>
    growth_ok mg g possible r (M', C', D') \<and> (D \<subset> D' \<or> D' = D \<and> C' \<subset> C)"
proof -
  let ?n = "length (gs_modules mg)"
  from inv have gr: "grown mg g possible r M" and C: "C \<subseteq> {..<?n}" and D: "D \<subseteq> {..<?n}"
    and e: "\<And>y c. y \<in> M \<Longrightarrow> concat_edge mg y c \<Longrightarrow> c \<in> C \<union> D"
    and Ce: "\<And>c. c \<in> C \<Longrightarrow> \<exists>y \<in> M. concat_edge mg y c"
    and Dd: "\<And>c. c \<in> D \<Longrightarrow> c \<in> M \<or> rejected mg g (module_chunks g r) possible {r} c"
    by (auto simp: growth_ok_def)
  from first_candidate_ok [OF C ne] obtain c where c: "c \<in> C" "first_candidate mg C = Some c" by blast
  have rM: "{r} \<subseteq> M" using grown_closed [OF gr] by blast
  show ?thesis
  proof (cases "c \<in> D")
    case True
    then have "grow_step mg g (module_chunks g r) possible (M, C, D) = Some (M, C - {c}, D)"
      by (simp add: grow_step_def c(2))
    moreover have "growth_ok mg g possible r (M, C - {c}, D)"
      using gr C D e Ce Dd True unfolding growth_ok_def by auto
    ultimately show ?thesis using c(1) by blast
  next
    case False
    have fin: "finite possible" using P by (rule finite_subset) simp
    have ch: "\<forall>c \<in> set (module_chunks g r). c < length (cg_chunks g)" using module_chunks_iff [OF cwf] by blast
    have "\<forall>x \<in> set [c]. x < ?n" using c(1) C by auto
    from try_to_add_each_spec [OF wf cwf ch fin this] obtain res where
      res: "try_to_add mg g (module_chunks g r) possible M c = Some res"
        "add_result mg g (module_chunks g r) possible [c] M res" unfolding try_to_add_def by blast
    show ?thesis
    proof (cases res)
      case None
      then have "grow_step mg g (module_chunks g r) possible (M, C, D) = Some (M, C - {c}, insert c D)"
        using False by (simp add: grow_step_def c(2) res(1))
      moreover have "rejected mg g (module_chunks g r) possible {r} c"
        using res(2) None rM by (auto simp: add_result_def intro: rejected_mono)
      then have "growth_ok mg g possible r (M, C - {c}, insert c D)"
        using gr C D e Ce Dd c(1) unfolding growth_ok_def by auto
      ultimately show ?thesis using False by blast
    next
      case (Some M')
      with res(2) have w: "added_well mg g (module_chunks g r) possible [c] M M'" by (simp add: add_result_def)
      from Ce [OF c(1)] obtain y where y: "y \<in> M" "concat_edge mg y c" by blast
      have gr': "grown mg g possible r M'" by (rule grown.batch [OF gr y w])
      have sub: "M \<subseteq> M'" "c \<in> M'" using w by (auto simp: added_well_def)
      have rng: "M' \<subseteq> {..<?n}" "finite M'" using grown_range [OF gr' r P] by auto
      let ?C' = "C - {c} \<union> \<Union> (set (map (\<lambda>m. {b. concat_edge mg m b}) (sorted_list_of_set (M' - M))))"
      have "map_opt (concat_imports mg) (sorted_list_of_set (M' - M)) =
          Some (map (\<lambda>m. {b. concat_edge mg m b}) (sorted_list_of_set (M' - M)))"
        by (rule map_concat_imports [OF wf]) (use rng in blast)
      then have "grow_step mg g (module_chunks g r) possible (M, C, D) = Some (M', ?C', insert c D)"
        using False Some by (simp add: grow_step_def c(2) res(1))
      moreover have C': "?C' = C - {c} \<union> {b. \<exists>m \<in> M' - M. concat_edge mg m b}" using rng(2) by auto
      have "growth_ok mg g possible r (M', ?C', insert c D)"
        unfolding growth_ok_def C' prod.case
      proof (intro conjI ballI allI impI)
        show "grown mg g possible r M'" by (rule gr')
        show "C - {c} \<union> {b. \<exists>m \<in> M' - M. concat_edge mg m b} \<subseteq> {..<?n}" using C concat_edge_range [OF wf] by auto
        show "insert c D \<subseteq> {..<?n}" using c(1) C D by auto
      next
        fix y b assume "y \<in> M'" "concat_edge mg y b"
        then show "b \<in> C - {c} \<union> {b. \<exists>m \<in> M' - M. concat_edge mg m b} \<union> insert c D" using e by blast
      next
        fix b assume "b \<in> C - {c} \<union> {b. \<exists>m \<in> M' - M. concat_edge mg m b}"
        then show "\<exists>y \<in> M'. concat_edge mg y b" using Ce sub(1) by blast
      next
        fix b assume "b \<in> insert c D"
        then show "b \<in> M' \<or> rejected mg g (module_chunks g r) possible {r} b" using Dd sub by blast
      qed
      ultimately show ?thesis using False by blast
    qed
  qed
qed

lemma grow_scope_spec:
  assumes wf: "graph_wf mg" and cwf: "chunk_graph_wf g" and r: "r < length (gs_modules mg)"
    and P: "possible \<subseteq> {..<length (gs_modules mg)}"
  shows "\<exists>A. grow_scope mg g possible r = Some A \<and> grown mg g possible r A \<and> complete mg g possible r A"
proof -
  let ?n = "length (gs_modules mg)"
  let ?s0 = "({r}, {b. concat_edge mg r b}, {} :: nat set)"
  let ?rel = "inv_image (less_than <*lex*> less_than) (\<lambda>(M :: nat set, C :: nat set, D). (card ({..<?n} - D), card C))"
  have "growth_ok mg g possible r ?s0"
    using concat_edge_range [OF wf] by (auto simp: growth_ok_def intro: grown.root)
  moreover have "wf ?rel" by auto
  ultimately have "\<exists>t. loop_opt (\<lambda>(_, candidates, _). candidates \<noteq> {})
      (grow_step mg g (module_chunks g r) possible) ?s0 = Some t \<and> growth_ok mg g possible r t \<and>
      \<not> (case t of (_, candidates, _) \<Rightarrow> candidates \<noteq> {})"
  proof (rule loop_opt_rule)
    fix s assume inv: "growth_ok mg g possible r s" and ne: "case s of (_, candidates, _) \<Rightarrow> candidates \<noteq> {}"
    obtain M C D where s: "s = (M, C, D)" by (cases s)
    from grow_step_ok [OF wf cwf r P inv [unfolded s]] ne s obtain M' C' D' where
      st: "grow_step mg g (module_chunks g r) possible (M, C, D) = Some (M', C', D')"
        "growth_ok mg g possible r (M', C', D')" "D \<subset> D' \<or> D' = D \<and> C' \<subset> C" by auto
    have "card ({..<?n} - D') < card ({..<?n} - D)" if "D \<subset> D'"
    proof -
      have "D' \<subseteq> {..<?n}" using st(2) by (simp add: growth_ok_def)
      with that show ?thesis by (intro psubset_card_mono) auto
    qed
    moreover have "card C' < card C" if "C' \<subset> C"
    proof (rule psubset_card_mono [OF _ that])
      have "C \<subseteq> {..<?n}" using inv s by (simp add: growth_ok_def)
      then show "finite C" by (rule finite_subset) simp
    qed
    ultimately have "((M', C', D'), s) \<in> ?rel" using st(3) s by auto
    with st(1,2) s show "\<exists>t. grow_step mg g (module_chunks g r) possible s = Some t \<and> growth_ok mg g possible r t \<and> (t, s) \<in> ?rel"
      by blast
  qed
  then obtain M D where l: "loop_opt (\<lambda>(_, candidates, _). candidates \<noteq> {})
      (grow_step mg g (module_chunks g r) possible) ?s0 = Some (M, {}, D)" "growth_ok mg g possible r (M, {}, D)" by auto
  have "grow_scope mg g possible r = Some M"
    by (simp add: grow_scope_def concat_imports_ok [OF wf r] l(1))
  moreover from l(2) have "grown mg g possible r M" "complete mg g possible r M"
    by (auto simp: growth_ok_def complete_def)
  ultimately show ?thesis by blast
qed


section \<open>Scopes do not overlap\<close>

text \<open>
  A possible inner module is grounded if a chain of importers in chunks leads up from it to a
  module that no scope takes in: an entry, or what \<open>import()\<close> or a module that cannot be resolved
  statically asks for.  Modules come into chunks only along such chains.
\<close>

definition grounded :: "module_graph \<Rightarrow> chunk_graph \<Rightarrow> nat set \<Rightarrow> bool" where
  "grounded mg g possible \<longleftrightarrow> (\<forall>m \<in> possible. rejected mg g [] possible {} m)"

lemma fits_fewer: "fits mg g chunks possible m \<Longrightarrow> set chunks' \<subseteq> set chunks \<Longrightarrow> fits mg g chunks' possible m"
  unfolding fits_def beside_def by blast

lemma scopes_meet:
  assumes a: "grown mg g possible a A" and b: "grown mg g possible b B" and gd: "grounded mg g possible"
    and x: "x \<in> A" "x \<in> B"
  shows "a \<in> B \<or> b \<in> A"
proof (cases "x = a \<or> x = b")
  case True with x show ?thesis by blast
next
  case False
  with grown_closed [OF a] x have "x \<in> possible" by (auto simp: fits_def)
  with gd obtain n where "up_outside mg g {} x n" "\<not> fits mg g [] possible n" by (auto simp: grounded_def rejected_def)
  then show ?thesis using x
  proof (induction rule: up_outside.induct)
    case (here c)
    with grown_closed [OF a] have "c = a" using fits_fewer [of mg g "module_chunks g a" possible c "[]"] by auto
    with here show ?case by blast
  next
    case (up c m n)
    with grown_closed [OF a] grown_closed [OF b] show ?case by blast
  qed
qed

lemma fits_in_larger_scope:
  assumes b: "grown mg g possible b B" and a: "a \<in> B" "a \<noteq> b" and m: "fits mg g (module_chunks g a) possible m"
  shows "fits mg g (module_chunks g b) possible m"
proof (rule fits_fewer [OF m])
  from grown_closed [OF b] a have "fits mg g (module_chunks g b) possible a" by blast
  then show "set (module_chunks g b) \<subseteq> set (module_chunks g a)" by (simp add: fits_def beside_def)
qed

lemma scope_within:
  assumes A: "grown mg g possible a A" and B: "grown mg g possible b B" "complete mg g possible b B"
    and a: "a \<in> B" "a \<noteq> b" and b: "b \<notin> A"
  shows "A \<subseteq> B"
  using A b
proof induction
  case root
  then show ?case using a(1) by simp
next
  case (batch M y c M')
  have sub: "M \<subseteq> M'" "c \<in> M'" using batch.hyps(4) by (auto simp: added_well_def)
  with batch.IH batch.prems have MB: "M \<subseteq> B" by blast
  have cl: "r' \<in> M' \<Longrightarrow> r' \<noteq> a \<Longrightarrow> fits mg g (module_chunks g a) possible r' \<and> {x. chunk_importer mg g r' x} \<subseteq> M'" for r'
    using grown_closed [OF grown.batch [OF batch.hyps]] by blast
  have clB: "r' \<in> B \<Longrightarrow> r' \<noteq> b \<Longrightarrow> fits mg g (module_chunks g b) possible r' \<and> {x. chunk_importer mg g r' x} \<subseteq> B" for r'
    using grown_closed [OF B(1)] by blast
  have "fits mg g (module_chunks g b) possible n" if "up_outside mg g {b} d n" "d \<in> M' \<union> B" for d n
    using that
  proof (induction rule: up_outside.induct)
    case (here d)
    show ?case
    proof (cases "d \<in> B")
      case True with clB here show ?thesis by blast
    next
      case False
      with here a(1) have "d \<in> M'" "d \<noteq> a" by auto
      with cl show ?thesis using fits_in_larger_scope [OF B(1) a] by blast
    qed
  next
    case (up d m n)
    show ?case
    proof (cases "d \<in> B")
      case True with clB up show ?thesis by blast
    next
      case False
      with up a(1) have "d \<in> M'" "d \<noteq> a" by auto
      with cl up show ?thesis by blast
    qed
  qed
  then have "\<not> rejected mg g (module_chunks g b) possible {b} c" using sub(2) by (auto simp: rejected_def)
  with B(2) batch.hyps(2,3) MB have cB: "c \<in> B" unfolding complete_def by blast
  have aM: "a \<in> M" using grown_closed [OF batch.hyps(1)] by blast
  have in_B: "n \<in> B" if "up_outside mg g M d n" "d \<in> M'" "d \<in> B" for d n
    using that
  proof (induction rule: up_outside.induct)
    case (up d m n)
    have "d \<noteq> a" "d \<noteq> b" using up.hyps(1) aM up.prems(1) batch.prems by auto
    with cl clB up show ?case by blast
  qed
  have "m \<in> B" if "m \<in> M'" for m
  proof (cases "m \<in> M")
    case True with MB show ?thesis by blast
  next
    case False
    with that batch.hyps(4) have "up_outside mg g M c m" by (auto simp: added_well_def)
    from in_B [OF this sub(2) cB] show ?thesis .
  qed
  then show ?case by blast
qed

section \<open>The configurations\<close>

definition config_ok :: "module_graph \<Rightarrow> chunk_graph \<Rightarrow> nat set \<Rightarrow> configuration \<Rightarrow> bool" where
  "config_ok mg g possible cf \<longleftrightarrow> cf_root cf < length (gs_modules mg) \<and> 1 < card (cf_modules cf) \<and>
     module_can_concatenate mg g (cf_root cf) \<and>
     grown mg g possible (cf_root cf) (cf_modules cf) \<and> complete mg g possible (cf_root cf) (cf_modules cf)"

definition configs_ok :: "module_graph \<Rightarrow> chunk_graph \<Rightarrow> nat set \<Rightarrow> configuration set \<Rightarrow> bool" where
  "configs_ok mg g possible Cs \<longleftrightarrow> (\<forall>cf \<in> Cs. config_ok mg g possible cf) \<and> inj_on cf_root Cs \<and>
     (\<forall>cf \<in> Cs. \<forall>cf' \<in> Cs. cf \<noteq> cf' \<longrightarrow> \<not> (cf_root cf \<in> cf_modules cf' \<and> cf_root cf' \<in> cf_modules cf))"

lemma configure_roots_ok:
  assumes wf: "graph_wf mg" and cwf: "chunk_graph_wf g" and P: "possible \<subseteq> {..<length (gs_modules mg)}"
    and rs: "distinct rs" "\<forall>r \<in> set rs. r < length (gs_modules mg) \<and> module_can_concatenate mg g r"
      "set rs \<inter> cf_root ` set Cs = {}"
    and used: "used = (\<Union>cf \<in> set Cs. cf_modules cf - {cf_root cf})" and ok: "configs_ok mg g possible (set Cs)" and "distinct Cs"
  shows "\<exists>used' Cs'. fold_opt (configure_root mg g possible) rs (used, Cs) = Some (used', Cs') \<and>
    configs_ok mg g possible (set Cs') \<and> distinct Cs'"
  using rs used ok \<open>distinct Cs\<close>
proof (induction rs arbitrary: used Cs)
  case (Cons r rs)
  from Cons.prems have r: "r < length (gs_modules mg)" "module_can_concatenate mg g r" "r \<notin> cf_root ` set Cs"
    and rest: "distinct rs" "\<forall>r \<in> set rs. r < length (gs_modules mg) \<and> module_can_concatenate mg g r" by auto
  from grow_scope_spec [OF wf cwf r(1) P] obtain A where
    A: "grow_scope mg g possible r = Some A" "grown mg g possible r A" "complete mg g possible r A" by blast
  show ?case
  proof (cases "r \<in> used \<or> \<not> 1 < card A")
    case True
    then have "configure_root mg g possible r (used, Cs) = Some (used, Cs)" by (auto simp: configure_root_def A(1))
    moreover have "set rs \<inter> cf_root ` set Cs = {}" using Cons.prems(3) by auto
    from Cons.IH [OF rest this Cons.prems(4,5,6)] obtain u' Cs' where
      "fold_opt (configure_root mg g possible) rs (used, Cs) = Some (u', Cs')" "configs_ok mg g possible (set Cs')"
      "distinct Cs'" by blast
    ultimately show ?thesis by simp
  next
    case False
    let ?cf = "\<lparr>cf_root = r, cf_modules = A\<rparr>"
    from False have c: "configure_root mg g possible r (used, Cs) = Some (used \<union> (A - {r}), Cs @ [?cf])"
      by (simp add: configure_root_def A(1))
    have nin: "r \<notin> cf_modules cf" if "cf \<in> set Cs" for cf
      using that False r(3) Cons.prems(4) by blast
    have new: "config_ok mg g possible ?cf" using r A False by (simp add: config_ok_def)
    have inj: "inj_on cf_root (insert ?cf (set Cs))" using Cons.prems(5) r(3) by (auto simp: configs_ok_def)
    have set_Cs: "set (Cs @ [?cf]) = insert ?cf (set Cs)" by simp
    have nin': "\<not> (cf_root cf \<in> cf_modules ?cf \<and> cf_root ?cf \<in> cf_modules cf)" if "cf \<in> set Cs" for cf
      using nin [OF that] by simp
    have ok': "configs_ok mg g possible (set (Cs @ [?cf]))"
      using Cons.prems(5) new inj nin' unfolding configs_ok_def set_Cs by blast
    have dis': "set rs \<inter> cf_root ` set (Cs @ [?cf]) = {}" using Cons.prems(1,3) by auto
    have used': "used \<union> (A - {r}) = (\<Union>cf \<in> set (Cs @ [?cf]). cf_modules cf - {cf_root cf})"
      using Cons.prems(4) by auto
    have "distinct (Cs @ [?cf])" using Cons.prems(6) r(3) by force
    from Cons.IH [OF rest dis' used' ok' this] obtain u' Cs' where
      u': "fold_opt (configure_root mg g possible) rs (used \<union> (A - {r}), Cs @ [?cf]) = Some (u', Cs')"
      "configs_ok mg g possible (set Cs')" "distinct Cs'" by (elim exE conjE) (rule that)
    then show ?thesis by (simp add: c)
  qed
qed auto

lemma possible_inners_range: "graph_wf mg \<Longrightarrow> possible_inners mg g es \<subseteq> {..<length (gs_modules mg)}"
  using graph_wf_handle by (fastforce simp: possible_inners_def in_set_conv_nth)

definition larger_first :: "configuration \<Rightarrow> configuration \<Rightarrow> bool" where
  "larger_first cf cf' \<longleftrightarrow> card (cf_modules cf') \<le> card (cf_modules cf)"

lemma find_configurations_spec:
  assumes wf: "graph_wf mg" and cwf: "chunk_graph_wf g" and len: "length (mg_exports mg) = length (gs_modules mg)"
  shows "\<exists>Cs. find_configurations mg g es = Some Cs \<and>
    configs_ok mg g (possible_inners mg g es) (set Cs) \<and> sorted_wrt larger_first Cs \<and> distinct Cs"
proof -
  let ?P = "possible_inners mg g es" and ?n = "length (gs_modules mg)"
  have hs: "map m_handle (gs_modules mg) = [0..<?n]"
    using graph_wf_handle [OF wf] by (intro nth_equalityI) simp_all
  let ?hs = "filter (module_can_concatenate mg g) [0..<?n]"
  let ?p = "\<lambda>h. ei_provided (mg_exports mg ! h) \<noteq> None"
  have prov: "map_opt (\<lambda>h. map_option (\<lambda>info. ei_provided info \<noteq> None) (graph_exports mg h)) ?hs = Some (map ?p ?hs)"
    by (rule map_opt_total) (simp add: graph_exports_def len)
  have zip: "map fst (filter snd (zip xs (map f xs))) = filter f xs" for xs and f :: "nat \<Rightarrow> bool"
    by (induction xs) simp_all
  have rng: "\<forall>h \<in> set (filter ?p ?hs). h < ?n \<and> module_can_concatenate mg g h" by simp
  have "identity_of mg h \<noteq> None" if "h \<in> set (filter ?p ?hs)" for h
    using that rng by (intro identity_of_range) blast
  from sort_by_key_eq [OF this] have
    roots: "possible_roots mg g = Some (sort_key (the \<circ> identity_of mg) (filter ?p ?hs))"
    by (simp only: possible_roots_def hs prov bind.bind_lunit zip)
  let ?rs = "sort_key (the \<circ> identity_of mg) (filter ?p ?hs)"
  have rs: "distinct ?rs" "\<forall>r \<in> set ?rs. r < ?n \<and> module_can_concatenate mg g r" using rng by simp_all
  have "configs_ok mg g ?P (set [])" "set ?rs \<inter> cf_root ` set [] = {}"
    "{} = (\<Union>cf \<in> set []. cf_modules cf - {cf_root cf})" by (simp_all add: configs_ok_def)
  from configure_roots_ok [OF wf cwf possible_inners_range [OF wf] rs this(2,3,1) distinct.simps(1) [THEN iffD2, OF TrueI]]
  obtain u Cs where
    f: "fold_opt (configure_root mg g ?P) ?rs ({}, []) = Some (u, Cs)" and ok: "configs_ok mg g ?P (set Cs)" and d: "distinct Cs" by blast
  have key: "configuration_key mg cf = Some (- int (card (cf_modules cf)), the (identity_of mg (cf_root cf)))"
    if "cf \<in> set Cs" for cf
  proof -
    from that ok have "cf_root cf < ?n" by (auto simp: configs_ok_def config_ok_def)
    from identity_of_range [OF this] show ?thesis by (auto simp: configuration_key_def)
  qed
  let ?Cs = "sort_key (the \<circ> configuration_key mg) Cs"
  have "sort_by_key (configuration_key mg) Cs = Some ?Cs" by (rule sort_by_key_eq) (simp add: key)
  then have "find_configurations mg g es = Some ?Cs"
    by (simp only: find_configurations_def roots f bind.bind_lunit prod.case)
  moreover have "sorted (map (the \<circ> configuration_key mg) ?Cs)" by simp
  then have "sorted_wrt (\<lambda>cf cf'. (the \<circ> configuration_key mg) cf \<le> (the \<circ> configuration_key mg) cf') ?Cs"
    by (simp only: sorted_map)
  then have "sorted_wrt larger_first ?Cs"
    by (rule sorted_wrt_mono_rel [rotated]) (simp add: key larger_first_def, auto simp: less_eq_prod_def)
  ultimately show ?thesis using ok d by (intro exI [of _ ?Cs]) simp
qed


text \<open>A configuration that meets a larger one has its root in it.\<close>

lemma smaller_root_inside:
  assumes ok: "configs_ok mg g possible Cs" and P: "possible \<subseteq> {..<length (gs_modules mg)}"
    and gd: "grounded mg g possible" and cf: "cf \<in> Cs" "cf' \<in> Cs" "cf \<noteq> cf'"
    and big: "larger_first cf' cf" and x: "x \<in> cf_modules cf" "x \<in> cf_modules cf'"
  shows "cf_root cf \<in> cf_modules cf'"
proof (rule ccontr)
  assume no: "cf_root cf \<notin> cf_modules cf'"
  from ok cf have c: "config_ok mg g possible cf" "config_ok mg g possible cf'" "inj_on cf_root Cs"
    unfolding configs_ok_def by blast+
  then have g: "grown mg g possible (cf_root cf) (cf_modules cf)" "complete mg g possible (cf_root cf) (cf_modules cf)"
    "grown mg g possible (cf_root cf') (cf_modules cf')" "cf_root cf < length (gs_modules mg)"
    by (simp_all add: config_ok_def)
  from scopes_meet [OF g(1,3) gd x] no have in_cf: "cf_root cf' \<in> cf_modules cf" by blast
  have "cf_root cf' \<noteq> cf_root cf" using c(3) cf by (auto dest: inj_onD)
  from scope_within [OF g(3,1,2) in_cf this no] have "cf_modules cf' \<subseteq> cf_modules cf" .
  moreover have "cf_root cf \<in> cf_modules cf" using grown_closed [OF g(1)] by blast
  ultimately have "cf_modules cf' \<subset> cf_modules cf" using no by blast
  moreover have "finite (cf_modules cf)" by (rule grown_range(2) [OF g(1,4) P])
  ultimately have "card (cf_modules cf') < card (cf_modules cf)" by (intro psubset_card_mono)
  with big show False by (simp add: larger_first_def)
qed

section \<open>Concatenated modules\<close>

definition scope_list :: "module_graph \<Rightarrow> nat set \<Rightarrow> nat list" where
  "scope_list mg A = sort_key (the \<circ> identity_of mg) (sorted_list_of_set A)"

lemma scope_list: "finite A \<Longrightarrow> set (scope_list mg A) = A" "distinct (scope_list mg A)"
  by (simp_all add: scope_list_def)

lemma concatenated_new_ok:
  assumes "A \<subseteq> {..<length (gs_modules mg)}" and "r \<in> A"
  shows "concatenated_new r (sorted_list_of_set A) mg = Some \<lparr>cm_root = r, cm_modules = scope_list mg A\<rparr>"
proof -
  have fin: "finite A" using assms(1) by (rule finite_subset) simp
  have "sort_by_key (identity_of mg) (sorted_list_of_set A) = Some (scope_list mg A)"
    unfolding scope_list_def by (rule sort_by_key_eq) (use assms(1) fin identity_of_range in auto)
  moreover have "remdups_adj (scope_list mg A) = scope_list mg A"
    using scope_list(2) by (rule remdups_adj_distinct)
  moreover have "r \<in> set (scope_list mg A)" using assms(2) scope_list(1) [OF fin] by simp
  ultimately show ?thesis by (simp add: concatenated_new_def)
qed

text \<open>What concatenation leaves alone.\<close>

definition concat_frame :: "chunk_graph \<Rightarrow> chunk_graph \<Rightarrow> bool" where
  "concat_frame g g' \<longleftrightarrow> cg_chunks g' = cg_chunks g \<and> cg_groups g' = cg_groups g \<and>
     cg_entrypoints g' = cg_entrypoints g \<and> cg_runtime_children g' = cg_runtime_children g \<and>
     cg_block_groups g' = cg_block_groups g"

lemma drop_inners:
  assumes "chunk_graph_wf g" and "\<forall>c \<in> set cs. c < length (cg_chunks g)"
  shows "\<exists>g'. fold_opt (\<lambda>inner g. fold_opt (\<lambda>c g. disconnect_chunk_and_module c inner g) cs g) ms g = Some g' \<and>
    chunk_graph_wf g' \<and> concat_frame g g' \<and> cg_concatenated g' = cg_concatenated g \<and>
    (\<forall>c < length (cg_chunks g). set (cg_chunk_modules g' ! c) =
       (if c \<in> set cs then set (cg_chunk_modules g ! c) - set ms else set (cg_chunk_modules g ! c)))"
  using assms
proof (induction ms arbitrary: g)
  case Nil
  then show ?case by (simp add: concat_frame_def)
next
  case (Cons m ms)
  from disconnect_all [OF Cons.prems, of m] obtain g1 where
    g1: "fold_opt (\<lambda>c g. disconnect_chunk_and_module c m g) cs g = Some g1" "chunk_graph_wf g1"
      "cg_chunks g1 = cg_chunks g" "cg_groups g1 = cg_groups g" "cg_entrypoints g1 = cg_entrypoints g"
      "cg_runtime_children g1 = cg_runtime_children g" "cg_block_groups g1 = cg_block_groups g"
      "cg_concatenated g1 = cg_concatenated g"
      "\<forall>c < length (cg_chunks g). set (cg_chunk_modules g1 ! c) =
         (if c \<in> set cs then set (cg_chunk_modules g ! c) - {m} else set (cg_chunk_modules g ! c))" by blast
  have "\<forall>c \<in> set cs. c < length (cg_chunks g1)" using Cons.prems(2) g1(3) by simp
  from Cons.IH [OF g1(2) this] obtain g' where
    g': "fold_opt (\<lambda>inner g. fold_opt (\<lambda>c g. disconnect_chunk_and_module c inner g) cs g) ms g1 = Some g'"
      "chunk_graph_wf g'" "concat_frame g1 g'" "cg_concatenated g' = cg_concatenated g1"
      "\<forall>c < length (cg_chunks g1). set (cg_chunk_modules g' ! c) =
         (if c \<in> set cs then set (cg_chunk_modules g1 ! c) - set ms else set (cg_chunk_modules g1 ! c))" by blast
  have "concat_frame g g'" using g'(3) g1(3-7) by (simp add: concat_frame_def)
  moreover have "\<forall>c < length (cg_chunks g). set (cg_chunk_modules g' ! c) =
       (if c \<in> set cs then set (cg_chunk_modules g ! c) - set (m # ms) else set (cg_chunk_modules g ! c))"
    using g1(3,9) g'(5) by auto
  ultimately show ?case using g1(1,8) g'(1,2,4) by auto
qed

lemma add_concatenated_module_ok:
  assumes cwf: "chunk_graph_wf g" and new: "cg_concatenated g (cm_root cm) = None"
  shows "\<exists>g'. add_concatenated_module cm g = Some g' \<and> chunk_graph_wf g' \<and> concat_frame g g' \<and>
    cg_concatenated g' = (cg_concatenated g)(cm_root cm \<mapsto> cm) \<and>
    (\<forall>c < length (cg_chunks g). set (cg_chunk_modules g' ! c) =
       (if c \<in> set (module_chunks g (cm_root cm)) then set (cg_chunk_modules g ! c) - set (inner_modules cm)
        else set (cg_chunk_modules g ! c)))"
proof -
  have "\<forall>c \<in> set (module_chunks g (cm_root cm)). c < length (cg_chunks g)" using module_chunks_iff [OF cwf] by blast
  from drop_inners [OF cwf this, of "inner_modules cm"] obtain g1 where
    g1: "fold_opt (\<lambda>inner k. fold_opt (\<lambda>c k. disconnect_chunk_and_module c inner k)
          (module_chunks g (cm_root cm)) k) (inner_modules cm) g = Some g1" "chunk_graph_wf g1" "concat_frame g g1"
      "cg_concatenated g1 = cg_concatenated g"
      "\<forall>c < length (cg_chunks g). set (cg_chunk_modules g1 ! c) =
         (if c \<in> set (module_chunks g (cm_root cm)) then set (cg_chunk_modules g ! c) - set (inner_modules cm)
          else set (cg_chunk_modules g ! c))" by blast
  let ?g = "g1\<lparr>cg_concatenated := (cg_concatenated g1)(cm_root cm \<mapsto> cm)\<rparr>"
  have "add_concatenated_module cm g = Some ?g" using g1(1,4) new by (simp add: add_concatenated_module_def Let_def)
  moreover have "chunk_graph_wf ?g"
    using g1(2) by (simp add: chunk_graph_wf_def sizes_ok_def groups_linked_def modules_linked_def tree_linked_def)
  moreover have "concat_frame g ?g" using g1(3) by (simp add: concat_frame_def)
  ultimately show ?thesis using g1(4,5) by (intro exI [of _ ?g]) simp
qed


definition config_concat :: "module_graph \<Rightarrow> configuration \<Rightarrow> concatenated" where
  "config_concat mg cf = \<lparr>cm_root = cf_root cf, cm_modules = scope_list mg (cf_modules cf)\<rparr>"

text \<open>The modules that configurations take out of a chunk.\<close>

definition taken_out :: "chunk_graph \<Rightarrow> configuration set \<Rightarrow> nat \<Rightarrow> nat set" where
  "taken_out g E c = (\<Union>cf \<in> {cf \<in> E. c \<in> set (module_chunks g (cf_root cf))}. cf_modules cf - {cf_root cf})"

definition emitted_ok ::
  "module_graph \<Rightarrow> chunk_graph \<Rightarrow> configuration set \<Rightarrow> nat set \<times> chunk_graph \<Rightarrow> bool" where
  "emitted_ok mg g E = (\<lambda>(used, gc). used = \<Union> (cf_modules ` E) \<and> chunk_graph_wf gc \<and> concat_frame g gc \<and>
     (\<forall>cf \<in> E. \<forall>cf' \<in> E. cf \<noteq> cf' \<longrightarrow> cf_modules cf \<inter> cf_modules cf' = {}) \<and>
     (\<forall>r cm. cg_concatenated gc r = Some cm \<longleftrightarrow> (\<exists>cf \<in> E. cf_root cf = r \<and> cm = config_concat mg cf)) \<and>
     (\<forall>c < length (cg_chunks g). set (cg_chunk_modules gc ! c) = set (cg_chunk_modules g ! c) - taken_out g E c))"

lemma concatenate_configuration_ok:
  assumes cwf: "chunk_graph_wf g" and ok: "config_ok mg g possible cf" and P: "possible \<subseteq> {..<length (gs_modules mg)}"
    and inv: "emitted_ok mg g E (used, gc)"
    and roots: "\<forall>cf' \<in> E. cf_root cf' \<in> cf_modules cf' \<and> cf_root cf' \<noteq> cf_root cf"
    and dis: "cf_root cf \<notin> used \<Longrightarrow> cf_modules cf \<inter> used = {}"
  shows "\<exists>E' s. concatenate_configuration mg cf (used, gc) = Some s \<and> emitted_ok mg g E' s \<and> E \<subseteq> E' \<and> E' \<subseteq> insert cf E"
proof (cases "cf_root cf \<in> used")
  case True
  with inv show ?thesis by (intro exI [of _ E]) (auto simp: concatenate_configuration_def)
next
  case False
  let ?r = "cf_root cf" and ?A = "cf_modules cf" and ?cm = "config_concat mg cf"
  from ok have gr: "grown mg g possible ?r ?A" "?r < length (gs_modules mg)" by (simp_all add: config_ok_def)
  have A: "?A \<subseteq> {..<length (gs_modules mg)}" "finite ?A" "?r \<in> ?A"
    using grown_range [OF gr P] grown_closed [OF gr(1)] by blast+
  from inv have u: "used = \<Union> (cf_modules ` E)" and gc: "chunk_graph_wf gc" "concat_frame g gc"
    and d: "\<forall>cf \<in> E. \<forall>cf' \<in> E. cf \<noteq> cf' \<longrightarrow> cf_modules cf \<inter> cf_modules cf' = {}"
    and con: "\<And>r cm. cg_concatenated gc r = Some cm \<longleftrightarrow> (\<exists>cf \<in> E. cf_root cf = r \<and> cm = config_concat mg cf)"
    and cms: "\<forall>c < length (cg_chunks g). set (cg_chunk_modules gc ! c) = set (cg_chunk_modules g ! c) - taken_out g E c"
    unfolding emitted_ok_def prod.case by blast+
  have "concatenated_new ?r (sorted_list_of_set ?A) mg = Some ?cm"
    unfolding config_concat_def by (rule concatenated_new_ok [OF A(1,3)])
  moreover have cr: "cm_root ?cm = ?r" and im: "set (inner_modules ?cm) = ?A - {?r}"
    using scope_list(1) [OF A(2)] by (auto simp: config_concat_def inner_modules_def)
  have "cg_concatenated gc ?r = None" using con roots by (cases "cg_concatenated gc ?r") auto
  then have "cg_concatenated gc (cm_root ?cm) = None" by (simp only: cr)
  from add_concatenated_module_ok [OF gc(1) this] obtain g' where
    g': "add_concatenated_module ?cm gc = Some g'" "chunk_graph_wf g'" "concat_frame gc g'"
      "cg_concatenated g' = (cg_concatenated gc)(cm_root ?cm \<mapsto> ?cm)"
      "\<forall>c < length (cg_chunks gc). set (cg_chunk_modules g' ! c) =
         (if c \<in> set (module_chunks gc (cm_root ?cm)) then set (cg_chunk_modules gc ! c) - set (inner_modules ?cm)
          else set (cg_chunk_modules gc ! c))" by (elim exE conjE) (rule that)
  ultimately have s: "concatenate_configuration mg cf (used, gc) = Some (used \<union> ?A, g')"
    using False by (simp add: concatenate_configuration_def)
  have chs: "cg_chunks gc = cg_chunks g" using gc(2) by (simp add: concat_frame_def)
  have "?r \<notin> taken_out g E c" for c using False u by (auto simp: taken_out_def)
  then have mc: "c \<in> set (module_chunks gc ?r) \<longleftrightarrow> c \<in> set (module_chunks g ?r)" for c
    using cms by (auto simp: module_chunks_iff [OF gc(1)] module_chunks_iff [OF cwf] chs)
  have to: "taken_out g (insert cf E) c =
      taken_out g E c \<union> (if c \<in> set (module_chunks g ?r) then ?A - {?r} else {})" for c
    by (auto simp: taken_out_def)
  have "set (cg_chunk_modules g' ! c) = set (cg_chunk_modules g ! c) - taken_out g (insert cf E) c"
    if "c < length (cg_chunks g)" for c
    using that g'(5) cms by (auto simp: chs cr im mc to)
  moreover have "cg_concatenated g' r = Some cm \<longleftrightarrow>
      (\<exists>cf' \<in> insert cf E. cf_root cf' = r \<and> cm = config_concat mg cf')" for r cm
    using con [of r cm] roots by (auto simp: g'(4) cr)
  moreover have "concat_frame g g'" using gc(2) g'(3) by (simp add: concat_frame_def)
  moreover have "\<forall>c1 \<in> insert cf E. \<forall>c2 \<in> insert cf E. c1 \<noteq> c2 \<longrightarrow> cf_modules c1 \<inter> cf_modules c2 = {}"
    using d dis [OF False] u by blast
  ultimately have "emitted_ok mg g (insert cf E) (used \<union> ?A, g')"
    using g'(2) u unfolding emitted_ok_def prod.case by blast
  with s show ?thesis by blast
qed

lemma concatenate_all:
  assumes cwf: "chunk_graph_wf g" and P: "possible \<subseteq> {..<length (gs_modules mg)}" and gd: "grounded mg g possible"
    and all: "configs_ok mg g possible (E \<union> set Cs)" and inv: "emitted_ok mg g E s"
    and sorted: "sorted_wrt larger_first Cs" "\<forall>cf \<in> E. \<forall>cf' \<in> set Cs. larger_first cf cf'"
    and new: "E \<inter> set Cs = {}" "distinct Cs"
  shows "\<exists>E' s'. fold_opt (concatenate_configuration mg) Cs s = Some s' \<and> emitted_ok mg g E' s' \<and>
    E \<subseteq> E' \<and> E' \<subseteq> E \<union> set Cs"
  using all inv sorted new
proof (induction Cs arbitrary: E s)
  case (Cons cf Cs)
  obtain used gc where s: "s = (used, gc)" by (cases s)
  have ok: "\<And>c. c \<in> insert cf E \<Longrightarrow> config_ok mg g possible c" and inj: "inj_on cf_root (E \<union> set (cf # Cs))"
    using Cons.prems(1) by (auto simp: configs_ok_def)
  have r_in: "cf_root cf' \<in> cf_modules cf'" if "cf' \<in> insert cf E" for cf'
    using ok [OF that] grown_closed [of mg g possible "cf_root cf'" "cf_modules cf'"] by (simp add: config_ok_def)
  have "cf_root cf' \<noteq> cf_root cf" if "cf' \<in> E" for cf'
    using inj_onD [OF inj, of cf' cf] that Cons.prems(5) by auto
  then have "\<forall>cf' \<in> E. cf_root cf' \<in> cf_modules cf' \<and> cf_root cf' \<noteq> cf_root cf" using r_in by blast
  moreover have "cf_modules cf \<inter> used = {}" if "cf_root cf \<notin> used"
  proof (rule ccontr)
    assume "cf_modules cf \<inter> used \<noteq> {}"
    moreover have u: "used = \<Union> (cf_modules ` E)" using Cons.prems(2) by (simp add: s emitted_ok_def)
    ultimately obtain x cf' where x: "cf' \<in> E" "x \<in> cf_modules cf" "x \<in> cf_modules cf'" by blast
    have "cf_root cf \<in> cf_modules cf'"
      by (rule smaller_root_inside [OF Cons.prems(1) P gd _ _ _ _ x(2,3)]) (use x Cons.prems(4,5) in auto)
    with that u x(1) show False by blast
  qed
  ultimately obtain E1 s1 where
    e1: "concatenate_configuration mg cf (used, gc) = Some s1" "emitted_ok mg g E1 s1" "E \<subseteq> E1" "E1 \<subseteq> insert cf E"
    using concatenate_configuration_ok [OF cwf ok [OF insertI1] P Cons.prems(2) [unfolded s]] by blast
  have "E1 \<union> set Cs \<subseteq> E \<union> set (cf # Cs)" using e1(4) by auto
  then have "configs_ok mg g possible (E1 \<union> set Cs)"
    using Cons.prems(1) inj_on_subset [OF inj] unfolding configs_ok_def by (meson subsetD)
  moreover have "\<forall>c \<in> E1. \<forall>c' \<in> set Cs. larger_first c c'" "E1 \<inter> set Cs = {}"
    using Cons.prems(3-6) e1(4) by auto
  ultimately obtain E2 s2 where
    "fold_opt (concatenate_configuration mg) Cs s1 = Some s2" "emitted_ok mg g E2 s2" "E1 \<subseteq> E2" "E2 \<subseteq> E1 \<union> set Cs"
    using Cons.IH [of E1 s1] e1(2) Cons.prems(3,6) by auto
  with e1 s show ?case by (intro exI [of _ E2] exI [of _ s2]) auto
qed auto


section \<open>The pass\<close>

text \<open>
  A concatenated module is sound if its root is in it and every other module in it may be an inner
  module, is in all chunks of the root, and has all its active importers in chunks inside.
\<close>

definition concat_sound :: "module_graph \<Rightarrow> chunk_graph \<Rightarrow> nat set \<Rightarrow> concatenated \<Rightarrow> bool" where
  "concat_sound mg g entries cm \<longleftrightarrow> cm_root cm \<in> set (cm_modules cm) \<and> distinct (cm_modules cm) \<and>
     set (cm_modules cm) \<subseteq> {..<length (gs_modules mg)} \<and> module_can_concatenate mg g (cm_root cm) \<and>
     (\<forall>m \<in> set (inner_modules cm). module_can_concatenate mg g m \<and> m \<notin> entries \<and>
        set (module_chunks g (cm_root cm)) \<subseteq> set (module_chunks g m) \<and>
        (\<forall>k \<in> set (gs_connections mg). \<forall>a. cn_module k = m \<longrightarrow> connection_is_active k \<longrightarrow> cn_origin k = Some a \<longrightarrow>
           module_chunks g a \<noteq> [] \<longrightarrow> a \<in> set (cm_modules cm) \<and> can_concatenate (cn_dependency k)))"

lemma config_concat_sound:
  assumes wf: "graph_wf mg" and ok: "config_ok mg g (possible_inners mg g es) cf"
  shows "concat_sound mg g es (config_concat mg cf)"
proof -
  let ?P = "possible_inners mg g es" and ?r = "cf_root cf" and ?A = "cf_modules cf"
  from ok have gr: "grown mg g ?P ?r ?A" "?r < length (gs_modules mg)" and c: "module_can_concatenate mg g ?r"
    by (simp_all add: config_ok_def)
  note rng = grown_range [OF gr possible_inners_range [OF wf]]
  have s: "set (cm_modules (config_concat mg cf)) = ?A" "cm_root (config_concat mg cf) = ?r"
    "distinct (cm_modules (config_concat mg cf))"
    using scope_list(1) [OF rng(2), of mg] scope_list(2) by (simp_all add: config_concat_def)
  have "module_can_concatenate mg g m \<and> m \<notin> es \<and> set (module_chunks g ?r) \<subseteq> set (module_chunks g m) \<and>
      (\<forall>k \<in> set (gs_connections mg). \<forall>a. cn_module k = m \<longrightarrow> connection_is_active k \<longrightarrow> cn_origin k = Some a \<longrightarrow>
         module_chunks g a \<noteq> [] \<longrightarrow> a \<in> ?A \<and> can_concatenate (cn_dependency k))"
    if m: "m \<in> set (inner_modules (config_concat mg cf))" for m
  proof -
    from m have "m \<in> ?A - {?r}" by (auto simp: inner_modules_def s)
    with grown_closed [OF gr(1)] have f: "fits mg g (module_chunks g ?r) ?P m" and i: "{a. chunk_importer mg g m a} \<subseteq> ?A"
      by blast+
    from f have "module_can_concatenate mg g m \<and> m \<notin> es" by (auto simp: fits_def possible_inners_def)
    moreover have "a \<in> ?A" if "k \<in> set (gs_connections mg)" "cn_module k = m" "connection_is_active k" "cn_origin k = Some a"
      "module_chunks g a \<noteq> []" for k a
      using that i by (auto simp: chunk_importer_def)
    ultimately show ?thesis using f unfolding fits_def beside_def by blast
  qed
  with s rng(1) grown_closed [OF gr(1)] c show ?thesis by (simp add: concat_sound_def)
qed

lemma optimize_chunk_modules_spec:
  assumes wf: "graph_wf mg" and cwf: "chunk_graph_wf g" and len: "length (mg_exports mg) = length (gs_modules mg)"
    and gd: "grounded mg g (possible_inners mg g (set es))" and empty: "cg_concatenated g = Map.empty"
  shows "\<exists>g'. optimize_chunk_modules es mg g = Some g' \<and> chunk_graph_wf g' \<and> concat_frame g g' \<and>
    (\<forall>r cm. cg_concatenated g' r = Some cm \<longrightarrow> cm_root cm = r \<and> concat_sound mg g (set es) cm) \<and>
    (\<forall>r r' cm cm'. cg_concatenated g' r = Some cm \<longrightarrow> cg_concatenated g' r' = Some cm' \<longrightarrow> r \<noteq> r' \<longrightarrow>
       set (cm_modules cm) \<inter> set (cm_modules cm') = {}) \<and>
    (\<forall>c < length (cg_chunks g). set (cg_chunk_modules g' ! c) = set (cg_chunk_modules g ! c) -
       {m. \<exists>r cm. cg_concatenated g' r = Some cm \<and> c \<in> set (module_chunks g r) \<and> m \<in> set (inner_modules cm)})"
proof -
  let ?P = "possible_inners mg g (set es)"
  note P = possible_inners_range [OF wf, of g "set es"]
  from find_configurations_spec [OF wf cwf len, of "set es"] obtain Cs where
    Cs: "find_configurations mg g (set es) = Some Cs" "configs_ok mg g ?P (set Cs)" "sorted_wrt larger_first Cs" "distinct Cs"
    by blast
  have "emitted_ok mg g {} ({}, g)"
    using cwf empty by (simp add: emitted_ok_def concat_frame_def taken_out_def)
  from concatenate_all [OF cwf P gd _ this Cs(3)] Cs(2,4) obtain E u g' where
    f: "fold_opt (concatenate_configuration mg) Cs ({}, g) = Some (u, g')" and e: "emitted_ok mg g E (u, g')" and E: "E \<subseteq> set Cs"
    by auto
  have o: "optimize_chunk_modules es mg g = Some g'"
    by (simp only: optimize_chunk_modules_def Cs(1) f bind.bind_lunit prod.case)
  from e have w: "chunk_graph_wf g'" "concat_frame g g'"
    and d: "\<forall>cf \<in> E. \<forall>cf' \<in> E. cf \<noteq> cf' \<longrightarrow> cf_modules cf \<inter> cf_modules cf' = {}"
    and con: "\<And>r cm. cg_concatenated g' r = Some cm \<longleftrightarrow> (\<exists>cf \<in> E. cf_root cf = r \<and> cm = config_concat mg cf)"
    and cms: "\<And>c. c < length (cg_chunks g) \<Longrightarrow> set (cg_chunk_modules g' ! c) = set (cg_chunk_modules g ! c) - taken_out g E c"
    unfolding emitted_ok_def prod.case by blast+
  have ok: "config_ok mg g ?P cf" if "cf \<in> E" for cf using that E Cs(2) by (auto simp: configs_ok_def)
  have mods: "set (cm_modules (config_concat mg cf)) = cf_modules cf" "cm_root (config_concat mg cf) = cf_root cf"
    if "cf \<in> E" for cf
  proof -
    from ok [OF that] have "grown mg g ?P (cf_root cf) (cf_modules cf)" "cf_root cf < length (gs_modules mg)"
      by (simp_all add: config_ok_def)
    from scope_list(1) [OF grown_range(2) [OF this P]] show "set (cm_modules (config_concat mg cf)) = cf_modules cf"
      "cm_root (config_concat mg cf) = cf_root cf" by (simp_all add: config_concat_def)
  qed
  have "taken_out g E c = {m. \<exists>r cm. cg_concatenated g' r = Some cm \<and> c \<in> set (module_chunks g r) \<and> m \<in> set (inner_modules cm)}" for c
  proof -
    have "set (inner_modules (config_concat mg cf)) = cf_modules cf - {cf_root cf}" if "cf \<in> E" for cf
      using mods [OF that] by (auto simp: inner_modules_def)
    then show ?thesis unfolding taken_out_def con by blast
  qed
  moreover have "set (cm_modules cm) \<inter> set (cm_modules cm') = {}"
    if "cg_concatenated g' r = Some cm" "cg_concatenated g' r' = Some cm'" "r \<noteq> r'" for r r' cm cm'
  proof -
    from that con obtain cf cf' where c: "cf \<in> E" "cf_root cf = r" "cm = config_concat mg cf"
      "cf' \<in> E" "cf_root cf' = r'" "cm' = config_concat mg cf'" by blast
    then have "cf \<noteq> cf'" using that(3) by blast
    with d c(1,4) have "cf_modules cf \<inter> cf_modules cf' = {}" by blast
    then show ?thesis by (simp only: c(3,6) mods(1) [OF c(1)] mods(1) [OF c(4)])
  qed
  moreover have "cm_root cm = r \<and> concat_sound mg g (set es) cm" if "cg_concatenated g' r = Some cm" for r cm
    using that mods config_concat_sound [OF wf ok] by (auto simp: con)
  ultimately show ?thesis using o w cms by auto
qed

end
