(* ===== verification/Grounding.thy ===== *)
theory Grounding
  imports Loading Concatenation
begin

text \<open>
  What concatenation needs of a chunk graph that \<open>build_chunk_graph_with_cache\<close> built: no module is
  concatenated yet, and every module in a chunk got there along imports from an entry.
\<close>

section \<open>Where modules in chunks come from\<close>

definition chunk_mods :: "chunk_graph \<Rightarrow> nat set" where
  "chunk_mods g = \<Union> (set ` set (cg_chunk_modules g))"

text \<open>A step that puts at most the modules \<open>X\<close> into chunks and concatenates none.\<close>

definition adds :: "nat set \<Rightarrow> chunk_graph \<Rightarrow> chunk_graph \<Rightarrow> bool" where
  "adds X g g' \<longleftrightarrow> cg_concatenated g' = cg_concatenated g \<and> chunk_mods g' \<subseteq> chunk_mods g \<union> X"

lemma adds_refl [simp]: "adds X g g"
  by (simp add: adds_def)

lemma adds_trans: "adds X f g \<Longrightarrow> adds Y g h \<Longrightarrow> adds (X \<union> Y) f h"
  by (auto simp: adds_def)

lemma adds_trans': "adds X f g \<Longrightarrow> adds X g h \<Longrightarrow> adds X f h"
  using adds_trans [of X f g X h] by simp

lemma adds_mono: "adds X g g' \<Longrightarrow> X \<subseteq> Y \<Longrightarrow> adds Y g g'"
  by (auto simp: adds_def)

lemma adds_fold:
  assumes "fold_opt f xs g = Some g'" and "\<And>x g g'. x \<in> set xs \<Longrightarrow> f x g = Some g' \<Longrightarrow> adds X g g'"
  shows "adds X g g'"
  using assms
proof (induction xs arbitrary: g)
  case (Cons x xs)
  then obtain g1 where "f x g = Some g1" "fold_opt f xs g1 = Some g'" by (auto simp: bind_simps)
  with Cons have "adds X g g1" "adds X g1 g'" by auto
  then show ?case by (rule adds_trans')
qed simp

lemma adds_same: "cg_concatenated g' = cg_concatenated g \<Longrightarrow> cg_chunk_modules g' = cg_chunk_modules g \<Longrightarrow> adds X g g'"
  by (simp add: adds_def chunk_mods_def)

lemma adds_add_chunk: "add_chunk name roots g = (g', c) \<Longrightarrow> adds X g g'"
  by (auto simp: add_chunk_def Let_def adds_def chunk_mods_def)

lemma adds_links:
  "add_chunk_group kind orig g = (g', gr) \<Longrightarrow> adds X g g'"
  "connect_chunk_and_group c gr g = Some g' \<Longrightarrow> adds X g g'"
  "connect_runtime_chunk_groups p q g = Some g' \<Longrightarrow> adds X g g'"
  "connect_chunk_groups p q g = Some g' \<Longrightarrow> adds X g g'"
  "adds X g (add_entrypoint gr g)"
  "adds X g (connect_block_and_chunk_group block gr g)"
  by (auto simp: add_chunk_group_def connect_chunk_and_group_def connect_runtime_chunk_groups_def
      connect_chunk_groups_def add_entrypoint_def connect_block_and_chunk_group_def Let_def bind_simps intro!: adds_same)

lemma in_list_update: "x \<in> set (xs[i := y]) \<Longrightarrow> x = y \<or> x \<in> set xs"
  by (meson insert_iff set_update_subset_insert subsetD)

lemma mods_update:
  assumes "c < length A" and "set ys \<subseteq> set (A ! c) \<union> X"
  shows "\<Union> (set ` set (A[c := ys])) \<subseteq> \<Union> (set ` set A) \<union> X"
proof
  fix x assume "x \<in> \<Union> (set ` set (A[c := ys]))"
  then obtain xs where xs: "xs \<in> set (A[c := ys])" "x \<in> set xs" by blast
  from in_list_update [OF xs(1)] show "x \<in> \<Union> (set ` set A) \<union> X"
  proof
    assume "xs = ys"
    with xs(2) assms(2) nth_mem [OF assms(1)] show ?thesis by blast
  next
    assume "xs \<in> set A" with xs(2) show ?thesis by blast
  qed
qed

lemma adds_connect_module:
  assumes "connect_chunk_and_module c m g = Some g'"
  shows "adds {m} g g'"
proof -
  from assms have "cg_concatenated g' = cg_concatenated g" and c: "c < length (cg_chunk_modules g)"
    and g': "cg_chunk_modules g' = (cg_chunk_modules g)[c := push_new m (cg_chunk_modules g ! c)]"
    by (auto simp: connect_chunk_and_module_def Let_def bind_simps vec_simps split: if_splits)
  moreover have "chunk_mods g' \<subseteq> chunk_mods g \<union> {m}"
    unfolding chunk_mods_def g' by (rule mods_update [OF c]) (auto simp: push_new_def)
  ultimately show ?thesis by (simp add: adds_def)
qed

lemma adds_disconnect_module:
  assumes "disconnect_chunk_and_module c m g = Some g'"
  shows "adds X g g'"
proof -
  from assms have "cg_concatenated g' = cg_concatenated g" and c: "c < length (cg_chunk_modules g)"
    and g': "cg_chunk_modules g' = (cg_chunk_modules g)[c := filter (\<lambda>x. x \<noteq> m) (cg_chunk_modules g ! c)]"
    by (auto simp: disconnect_chunk_and_module_def Let_def bind_simps vec_simps)
  moreover have "chunk_mods g' \<subseteq> chunk_mods g \<union> X"
    unfolding chunk_mods_def g' by (rule mods_update [OF c]) auto
  ultimately show ?thesis by (simp add: adds_def)
qed

lemma adds_connect_modules: "connect_modules c ms g = Some g' \<Longrightarrow> adds (set ms) g g'"
  unfolding connect_modules_def by (rule adds_fold) (auto intro: adds_mono [OF adds_connect_module])

section \<open>Building\<close>

lemma adds_add_entry:
  assumes "add_entry memo mg ns im (g, eps) = Some (g', eps')"
  shows "\<exists>e. eps' = eps @ [e] \<and> adds (set (ep_modules e)) g g'"
proof -
  obtain i m where im: "im = (i, m)" by (cases im)
  obtain g1 c g2 gr where a: "add_chunk (Some (entry_name ns i)) [m] g = (g1, c)"
    and b: "add_chunk_group (Entrypoint (entry_name ns i)) None g1 = (g2, gr)" by fastforce
  with assms im obtain g3 initial g4 where
    g: "connect_chunk_and_group c gr g2 = Some g3" "connect_modules c initial (add_entrypoint gr g3) = Some g4"
    and e: "g' = g4" "\<exists>av. eps' = eps @ [\<lparr>ep_group = gr, ep_resulting = av, ep_modules = initial\<rparr>]"
    by (auto simp: add_entry_def Let_def bind_simps)
  have "adds (set initial) g g'" unfolding e(1)
    by (rule adds_trans' [OF adds_add_chunk [OF a] adds_trans' [OF adds_links(1) [OF b]
        adds_trans' [OF adds_links(2) [OF g(1)] adds_trans' [OF adds_links(5) adds_connect_modules [OF g(2)]]]]])
  with e(2) show ?thesis by auto
qed

definition entry_mods :: "entry_plan list \<Rightarrow> nat set" where
  "entry_mods eps = \<Union> ((set \<circ> ep_modules) ` set eps)"

lemma adds_add_entries:
  assumes "add_entries memo mg ns es = Some (g, eps)"
  shows "adds (entry_mods eps) empty_chunk_graph g"
proof -
  have "adds (entry_mods eps') empty_chunk_graph g'"
    if "fold_opt (add_entry memo mg ns) xs (g0, eps0) = Some (g', eps')" "adds (entry_mods eps0) empty_chunk_graph g0"
    for xs g0 eps0 g' eps'
    using that
  proof (induction xs arbitrary: g0 eps0)
    case (Cons x xs)
    from Cons.prems(1) obtain g1 eps1 where
      s: "add_entry memo mg ns x (g0, eps0) = Some (g1, eps1)" "fold_opt (add_entry memo mg ns) xs (g1, eps1) = Some (g', eps')"
      by (auto simp: bind_simps)
    from adds_add_entry [OF s(1)] obtain e where e: "eps1 = eps0 @ [e]" "adds (set (ep_modules e)) g0 g1" by blast
    have "adds (entry_mods eps1) empty_chunk_graph g1"
      using adds_trans [OF Cons.prems(2) e(2)] by (rule adds_mono) (auto simp: entry_mods_def e(1))
    from Cons.IH [OF s(2) this] show ?case .
  qed simp
  from this [of _ empty_chunk_graph "[]" g eps] assms show ?thesis by (auto simp: add_entries_def)
qed

definition plan_mods :: "plans \<Rightarrow> nat set" where
  "plan_mods plans = (\<Union>t. case map_of plans t of None \<Rightarrow> {} | Some p \<Rightarrow> set (plan_modules p))"

lemma adds_add_async_group:
  assumes "add_async_group mg plans t (g, groups) = Some (g', groups')"
  shows "adds (plan_mods plans) g g'"
proof -
  from assms obtain p orig where p: "map_of plans t = Some p" "min_origin mg p = Some orig"
    by (auto simp: add_async_group_def bind_simps)
  obtain g1 c g2 gr where a: "add_chunk None [pl_target p] g = (g1, c)"
    and b: "add_chunk_group Async (Some orig) g1 = (g2, gr)" by fastforce
  with assms p obtain g3 where
    g: "connect_chunk_and_group c gr g2 = Some g3" "connect_modules c (plan_modules p) g3 = Some g'"
    by (auto simp: add_async_group_def Let_def bind_simps)
  have "adds (set (plan_modules p)) g g'"
    by (rule adds_trans' [OF adds_add_chunk [OF a] adds_trans' [OF adds_links(1) [OF b]
        adds_trans' [OF adds_links(2) [OF g(1)] adds_connect_modules [OF g(2)]]]])
  then show ?thesis by (rule adds_mono) (use p(1) in \<open>force simp: plan_mods_def split: option.split\<close>)
qed

lemma adds_connect_plan:
  assumes "connect_plan mg eps plans groups t g = Some g'"
  shows "adds X g g'"
proof -
  have one: "adds X g g'" if "connect_parent eps groups child q g = Some g'" for child q g g'
  proof -
    obtain L ap where q: "q = (L, ap)" by (cases q)
    have blocks: "adds X k (fold (\<lambda>orig. connect_block_and_chunk_group orig child) os k)" for os k
    proof (induction os arbitrary: k)
      case (Cons o1 os)
      from adds_trans' [OF adds_links(6) Cons.IH] show ?case by simp
    qed simp
    from that q obtain g1 where "adds X g g1" "g' = fold (\<lambda>orig. connect_block_and_chunk_group orig child) (ap_origins ap) g1"
      by (auto simp: connect_parent_def bind_simps split: if_splits intro: adds_links)
    with blocks show ?thesis using adds_trans' by blast
  qed
  from assms obtain child ps where "fold_opt (connect_parent eps groups child) ps g = Some g'"
    by (auto simp: connect_plan_def bind_simps)
  then show ?thesis by (rule adds_fold) (rule one)
qed

lemma adds_materialize:
  assumes "materialize mg eps plans g = Some (g', groups)"
  shows "adds (plan_mods plans) g g'"
proof -
  have groups: "adds (plan_mods plans) g0 g1"
    if "fold_opt (add_async_group mg plans) ts (g0, gs0) = Some (g1, gs1)" for ts g0 gs0 g1 gs1
    using that
  proof (induction ts arbitrary: g0 gs0)
    case (Cons t ts)
    from Cons.prems obtain k ks where "add_async_group mg plans t (g0, gs0) = Some (k, ks)"
      "fold_opt (add_async_group mg plans) ts (k, ks) = Some (g1, gs1)" by (auto simp: bind_simps)
    with Cons.IH show ?case using adds_trans' adds_add_async_group by blast
  qed simp
  from assms obtain ts g1 gs1 where "fold_opt (add_async_group mg plans) ts (g, []) = Some (g1, gs1)"
    and c: "fold_opt (connect_plan mg eps plans gs1) ts g1 = Some g'" by (auto simp: materialize_def bind_simps)
  then have "adds (plan_mods plans) g g1" by (intro groups)
  moreover have "adds (plan_mods plans) g1 g'" using c by (rule adds_fold) (rule adds_connect_plan)
  ultimately show ?thesis by (rule adds_trans')
qed

section \<open>Splitting\<close>

lemma adds_chunk_split: "chunk_split grs n g = Some g' \<Longrightarrow> adds X g g'"
  unfolding chunk_split_def by (erule adds_fold) (rule adds_links(2))

lemma adds_split_candidate:
  assumes "split_candidate name (sources, ms) g = Some g'"
  shows "adds (set ms) g g'"
proof -
  obtain g0 n where a: "add_chunk name (sort ms) g = (g0, n)" by fastforce
  with assms obtain g1 where
    s: "fold_opt (\<lambda>s g. do { original \<leftarrow> vec_get (cg_chunks g) s; chunk_split (ck_groups original) n g }) sources g0 = Some g1"
    and m: "fold_opt (move_module sources n) (sort ms) g1 = Some g'"
    by (auto simp: split_candidate_def add_split_chunk_def Let_def bind_simps)
  have "adds (set ms) g0 g1" using s by (rule adds_fold) (auto simp: bind_simps intro: adds_chunk_split)
  moreover have "adds (set ms) g1 g'"
    using m
  proof (rule adds_fold)
    fix x k k' assume x: "x \<in> set (sort ms)" and mv: "move_module sources n x k = Some k'"
    from mv obtain k1 where "fold_opt (\<lambda>c g. disconnect_chunk_and_module c x g) sources k = Some k1"
      "connect_chunk_and_module n x k1 = Some k'" by (auto simp: move_module_def bind_simps)
    then have "adds {x} k k1" "adds {x} k1 k'" by (auto intro: adds_fold adds_disconnect_module adds_connect_module)
    from adds_mono [OF adds_trans' [OF this]] x show "adds (set ms) k k'" by simp
  qed
  ultimately show ?thesis using adds_add_chunk [OF a] adds_trans' by blast
qed

lemma push_keys_fold: "set (map fst (fold (\<lambda>m. push_entry m c) ms al)) = set ms \<union> set (map fst al)"
  by (induction ms arbitrary: al) (auto simp: push_entry_keys simp del: set_map list.set_map)

lemma chunks_by_module_keys:
  assumes "chunks_by_module g cs = Some al"
  shows "set (map fst al) \<subseteq> chunk_mods g"
proof -
  have "set (map fst al') \<subseteq> chunk_mods g"
    if "fold_opt (\<lambda>c al. do { ms \<leftarrow> chunk_modules g c; Some (fold (\<lambda>m. push_entry m c) ms al) }) cs al0 = Some al'"
      "set (map fst al0) \<subseteq> chunk_mods g" for al0 al'
    using that
  proof (induction cs arbitrary: al0)
    case (Cons c cs)
    from Cons.prems(1) obtain ms where ms: "chunk_modules g c = Some ms"
      "fold_opt (\<lambda>c al. do { ms \<leftarrow> chunk_modules g c; Some (fold (\<lambda>m. push_entry m c) ms al) }) cs
        (fold (\<lambda>m. push_entry m c) ms al0) = Some al'" by (auto simp: bind_simps)
    have "ms \<in> set (cg_chunk_modules g)" using ms(1) by (auto simp: chunk_modules_def vec_get_def split: if_splits)
    then have "set ms \<subseteq> chunk_mods g" by (auto simp: chunk_mods_def)
    with Cons.prems(2) have "set (map fst (fold (\<lambda>m. push_entry m c) ms al0)) \<subseteq> chunk_mods g"
      unfolding push_keys_fold by blast
    from Cons.IH [OF ms(2) this] show ?case .
  qed simp
  from this [of "[]"] assms show ?thesis by (simp add: chunks_by_module_def)
qed

lemma modules_by_chunk_set_values:
  "\<forall>(cs, ms) \<in> set (modules_by_chunk_set n al). set ms \<subseteq> set (map fst al)"
proof -
  have "\<forall>(cs, ms) \<in> set (fold (\<lambda>(m, cs) bl. let cs = remdups_adj (sort cs) in
      if n \<le> length cs then push_entry cs m bl else bl) al' bl). set ms \<subseteq> R"
    if "\<forall>(cs, ms) \<in> set bl. set ms \<subseteq> R" "set (map fst al') \<subseteq> R" for al' bl R
    using that
  proof (induction al' arbitrary: bl)
    case (Cons x al')
    obtain m cs where x: "x = (m, cs)" by force
    let ?bl = "if n \<le> length (remdups_adj (sort cs)) then push_entry (remdups_adj (sort cs)) m bl else bl"
    have "\<forall>(cs, ms) \<in> set ?bl. set ms \<subseteq> R"
      using push_entry_values [OF Cons.prems(1), of m "remdups_adj (sort cs)"] Cons.prems x by auto
    from Cons.IH [OF this] Cons.prems(2) show ?case by (simp add: x Let_def)
  qed simp
  from this [of "[]" "set (map fst al)" al] show ?thesis by (simp add: modules_by_chunk_set_def)
qed

lemma split_candidates_modules:
  assumes "\<forall>(cs, ms) \<in> set by_set. set ms \<subseteq> R"
  shows "\<forall>(sources, ms) \<in> set (split_candidates name by_set). set ms \<subseteq> R"
proof -
  have in_R: "x \<in> R" if "(cs, ms) \<in> set by_set" "x \<in> set ms" for x cs ms using assms that by force
  show ?thesis by (auto simp: split_candidates_def Let_def split: prod.splits intro: in_R)
qed

lemma adds_apply_split_chunks:
  assumes "apply_split_chunks opts g = Some g'"
  shows "adds {} g g'"
proof -
  from assms obtain cs al where al: "chunks_by_module g cs = Some al"
    and f: "fold_opt (split_candidate (so_name opts))
      (split_candidates (so_name opts) (modules_by_chunk_set (so_min_chunks opts) al)) g = Some g'"
    by (auto simp: apply_split_chunks_def Let_def bind_simps)
  note v = split_candidates_modules [OF modules_by_chunk_set_values, of "so_name opts" "so_min_chunks opts" al]
  have "adds (chunk_mods g) g g'"
    using f
  proof (rule adds_fold)
    fix x k k' assume x: "x \<in> set (split_candidates (so_name opts) (modules_by_chunk_set (so_min_chunks opts) al))"
      and s: "split_candidate (so_name opts) x k = Some k'"
    obtain sources ms where p: "x = (sources, ms)" by (cases x)
    have "set ms \<subseteq> chunk_mods g" using v x p chunks_by_module_keys [OF al] by blast
    from adds_mono [OF adds_split_candidate [OF s [unfolded p]] this] show "adds (chunk_mods g) k k'" .
  qed
  then show ?thesis by (simp add: adds_def)
qed

section \<open>The built chunk graph\<close>

definition built_from :: "module_graph \<Rightarrow> nat list \<Rightarrow> entry_plan list \<Rightarrow> (nat \<rightharpoonup> async_plan) \<Rightarrow> chunk_graph \<Rightarrow> bool" where
  "built_from mg es eps P g \<longleftrightarrow> chunk_graph_wf g \<and> plans_ok mg eps P \<and> realizes mg eps P g \<and>
     length eps = length es \<and> (\<forall>i < length es. set (ep_modules (eps ! i)) = static_walk.reach mg (es ! i)) \<and>
     chunk_mods g \<subseteq> (\<Union>L \<in> {L. group_valid eps P L}. group_mods eps P L) \<and>
     cg_concatenated g = Map.empty \<and> (\<forall>orig gr. cg_block_groups g orig = Some gr \<longrightarrow> gr < length (cg_groups g))"

lemma group_mods_cover:
  "entry_mods eps \<union> plan_mods plans \<subseteq> (\<Union>L \<in> {L. group_valid eps (map_of plans) L}. group_mods eps (map_of plans) L)"
proof
  fix x assume "x \<in> entry_mods eps \<union> plan_mods plans"
  then consider i where "i < length eps" "x \<in> set (ep_modules (eps ! i))"
    | t p where "map_of plans t = Some p" "x \<in> set (plan_modules p)"
    by (force simp: entry_mods_def plan_mods_def in_set_conv_nth [of _ eps] split: option.splits)
  then show "x \<in> (\<Union>L \<in> {L. group_valid eps (map_of plans) L}. group_mods eps (map_of plans) L)"
  proof cases
    case 1
    then show ?thesis by (intro UN_I [of "LEntry i"]) (simp_all add: group_valid_def group_mods_def)
  next
    case 2
    then show ?thesis by (intro UN_I [of "LAsync t"]) (simp_all add: group_valid_def group_mods_def)
  qed
qed

lemma build_chunk_graph_from:
  assumes wf: "graph_wf mg" and memo: "memo_ok memo mg" and es: "\<forall>e \<in> set es. e < length (gs_modules mg)"
    and b: "build_chunk_graph_with_cache memo mg ns es split = Some g"
  shows "\<exists>eps P. built_from mg es eps P g"
proof -
  from add_entries_spec [OF wf memo es, of ns] obtain g0 eps where
    a: "add_entries memo mg ns es = Some (g0, eps)" and eb: "entries_built mg es (g0, eps)" by fastforce
  then have len: "length eps = length es" and ents: "\<forall>i < length es. entry_ok mg (eps ! i) \<and>
      set (ep_modules (eps ! i)) = static_walk.reach mg (es ! i)" by (simp_all add: entries_built_def)
  then have "\<forall>e \<in> set eps. entry_ok mg e" by (simp add: all_set_conv_all_nth)
  from plan_async_chunks_total [OF wf memo this] obtain plans where
    p: "plan_async_chunks memo mg eps = Some plans" and ok: "plans_ok mg eps (map_of plans)"
    and st: "\<forall>K. group_valid eps (map_of plans) K \<longrightarrow> settled mg eps (map_of plans) K" by blast
  from materialize_spec [OF wf ok st eb] obtain g1 groups where
    m: "materialize mg eps plans g0 = Some (g1, groups)" and w1: "chunk_graph_wf g1"
    and r1: "realizes mg eps (map_of plans) g1" and e1: "cg_entrypoints g1 = [0..<length eps]"
    and bl: "\<forall>orig gr. cg_block_groups g1 orig = Some gr \<longrightarrow> gr < length (cg_groups g1)" by blast
  have s: "(case split of None \<Rightarrow> Some g1 | Some opts \<Rightarrow> apply_split_chunks opts g1) = Some g"
    using b a p m by (simp add: build_chunk_graph_with_cache_def)
  have fr: "chunk_graph_wf g \<and> split_frame g1 g"
  proof (cases split)
    case None with w1 s show ?thesis by simp
  next
    case (Some opts) with apply_split_chunks_spec [OF w1, of opts] s show ?thesis by auto
  qed
  have "\<forall>i < length eps. cg_entrypoints g1 ! i < length (cg_groups g1)"
    using chunk_graph_wf_entrypoint [OF w1] e1 by simp
  from realizes_split [OF r1 _ this] fr have r: "realizes mg eps (map_of plans) g" by blast
  have "adds (entry_mods eps) empty_chunk_graph g0" by (rule adds_add_entries [OF a])
  moreover have "adds (plan_mods plans) g0 g1" by (rule adds_materialize [OF m])
  moreover have "adds {} g1 g" using s adds_apply_split_chunks by (cases split) auto
  ultimately have "adds (entry_mods eps \<union> plan_mods plans \<union> {}) empty_chunk_graph g" by (intro adds_trans)
  then have con: "cg_concatenated g = Map.empty" and cm: "chunk_mods g \<subseteq> entry_mods eps \<union> plan_mods plans"
    by (simp_all add: adds_def empty_chunk_graph_def chunk_mods_def)
  have bl': "\<forall>orig gr. cg_block_groups g orig = Some gr \<longrightarrow> gr < length (cg_groups g)"
    using bl fr by (simp add: split_frame_def)
  have "built_from mg es eps (map_of plans) g"
    unfolding built_from_def using fr r ok len ents con bl' order_trans [OF cm group_mods_cover] by (intro conjI) blast+
  then show ?thesis by blast
qed

lemma group_modules_in_chunks:
  assumes wf: "chunk_graph_wf g" and gr: "gr < length (cg_groups g)" and m: "m \<in> group_modules g gr"
  shows "module_chunks g m \<noteq> []"
proof -
  from m obtain c where "c \<in> set (gr_chunks (cg_groups g ! gr))" "m \<in> set (cg_chunk_modules g ! c)"
    by (auto simp: group_modules_def)
  with group_chunk_range [OF wf gr] have "c \<in> set (module_chunks g m)" by (simp add: module_chunks_iff [OF wf])
  then show ?thesis by auto
qed

text \<open>Every module of a logical group is in a chunk.\<close>

lemma group_mods_in_chunks:
  assumes b: "built_from mg es eps P g" and L: "group_valid eps P L" and m: "m \<in> group_mods eps P L"
  shows "module_chunks g m \<noteq> []"
proof -
  from b have wf: "chunk_graph_wf g" and r: "realizes mg eps P g" and ok: "plans_ok mg eps P"
    by (simp_all add: built_from_def)
  show ?thesis
  proof (cases L)
    case (LEntry i)
    with L have i: "i < length eps" by (simp add: group_valid_def)
    with r m LEntry have "m \<in> group_modules g (cg_entrypoints g ! i)" "i < length (cg_entrypoints g)"
      by (auto simp: realizes_def)
    with group_modules_in_chunks [OF wf chunk_graph_wf_entrypoint [OF wf]] show ?thesis by blast
  next
    case (LAsync t)
    with L ok obtain p where p: "P t = Some p" "plan_ok mg eps P t p" by (auto simp: group_valid_def plans_ok_def)
    then have "pl_parents p \<noteq> []" by (simp add: plan_ok_def masks_ok_def)
    then obtain K ap where "(K, ap) \<in> set (pl_parents p)" by (cases "pl_parents p") auto
    with p(2) have rec: "record_ok mg eps P t K ap" by (auto simp: plan_ok_def)
    then obtain orig where o: "orig \<in> set (ap_origins ap)" by (cases "ap_origins ap") (auto simp: record_ok_def)
    from rec o have "group_valid eps P K" "fst orig \<in> group_mods eps P K" "(orig, t) \<in> imports_of mg (fst orig)"
      "t \<notin> group_avail eps P K" by (auto simp: record_ok_def)
    with r obtain gr where "gr < length (cg_groups g)" "group_mods eps P (LAsync t) \<subseteq> group_modules g gr"
      unfolding realizes_def by blast
    with m LAsync group_modules_in_chunks [OF wf] show ?thesis by blast
  qed
qed

text \<open>The import connections are active.\<close>

definition imports_active :: "module_graph \<Rightarrow> bool" where
  "imports_active mg \<longleftrightarrow> (\<forall>k \<in> set (gs_connections mg). is_import_dependency (cn_dependency k) \<longrightarrow> connection_is_active k)"

lemma static_successor_importer:
  assumes wf: "graph_wf mg" and s: "b \<in> set (static_successors mg a)" and "module_chunks g a \<noteq> []"
  shows "chunk_importer mg g b a"
proof -
  from s obtain cs where cs: "outgoing_connections mg a = Some cs"
    by (cases "outgoing_connections mg a") (auto simp: static_successors_def)
  then have "a < length (gs_modules mg)" using outgoing_in_range graph_wfD(1) [OF wf] by metis
  with s assms(3) show ?thesis
    by (auto simp: static_successors_def outgoing_connections_spec [OF wf] chunk_importer_def static_edge_def)
qed

text \<open>Along a static path whose nodes are all in chunks, what cannot be an inner module is found on the way up.\<close>

lemma rejected_along:
  assumes wf: "graph_wf mg" and path: "(\<lambda>a b. b \<in> set (static_successors mg a))\<^sup>*\<^sup>* a m"
    and a: "\<not> fits mg g [] possible a"
    and ch: "\<And>x. (\<lambda>a b. b \<in> set (static_successors mg a))\<^sup>*\<^sup>* a x \<Longrightarrow>
      (\<lambda>a b. b \<in> set (static_successors mg a))\<^sup>*\<^sup>* x m \<Longrightarrow> module_chunks g x \<noteq> []"
  shows "rejected mg g [] possible {} m"
  using path ch
proof (induction rule: rtranclp_induct)
  case base
  from a show ?case by (intro rejected_here) simp_all
next
  case (step y z)
  have "module_chunks g x \<noteq> []" if "(\<lambda>a b. b \<in> set (static_successors mg a))\<^sup>*\<^sup>* a x"
      "(\<lambda>a b. b \<in> set (static_successors mg a))\<^sup>*\<^sup>* x y" for x
    using step.prems [OF that(1)] that(2) step.hyps(2) by (meson rtranclp.rtrancl_into_rtrancl)
  from step.IH [OF this] obtain n where n: "up_outside mg g {} y n" "\<not> fits mg g [] possible n" by (auto simp: rejected_def)
  have "module_chunks g y \<noteq> []" using step.prems [OF step.hyps(1)] step.hyps(2) by blast
  from up_outside.up [OF _ static_successor_importer [OF wf step.hyps(2) this] n(1)] n(2) show ?case
    by (auto simp: rejected_def)
qed

lemma static_closed_path:
  "(\<lambda>a b. b \<in> set (static_successors mg a))\<^sup>*\<^sup>* x m \<Longrightarrow> static_closed mg S \<Longrightarrow> x \<in> S \<Longrightarrow> m \<in> S"
  by (induction rule: converse_rtranclp_induct) (auto simp: static_closed_def)

text \<open>What is imported dynamically from a module in a chunk is never an inner module.\<close>

lemma dynamic_target_unfit:
  assumes wf: "graph_wf mg" and act: "imports_active mg" and i: "(orig, t) \<in> imports_of mg (fst orig)"
    and ch: "module_chunks g (fst orig) \<noteq> []"
  shows "\<not> fits mg g [] possible t"
proof -
  obtain a b where orig: "orig = (a, b)" by (cases orig)
  from i orig have a: "a < length (gs_modules mg)" using imports_of_range [OF wf i] by simp
  from i orig obtain c where
    "find (\<lambda>c. cn_block c = Some b \<and> is_import_dependency (cn_dependency c))
      (filter (\<lambda>c. cn_origin c = Some a) (gs_connections mg)) = Some c" "cn_module c = t"
    by (auto simp: imports_of_def import_block_target_def outgoing_connections_spec [OF wf a])
  then have c: "c \<in> set (gs_connections mg)" "cn_origin c = Some a" "is_import_dependency (cn_dependency c)" "cn_module c = t"
    by (auto simp: find_Some_iff in_set_conv_nth dest!: nth_mem)
  then have "connection_is_active c" "\<not> can_concatenate (cn_dependency c)"
    using act by (cases "cn_dependency c"; simp add: imports_active_def)+
  with c ch orig show ?thesis unfolding fits_def by auto
qed

theorem built_grounded:
  assumes wf: "graph_wf mg" and b: "built_from mg es eps P g" and act: "imports_active mg"
  shows "grounded mg g (possible_inners mg g (set es))"
  unfolding grounded_def
proof
  let ?P = "possible_inners mg g (set es)"
  fix m assume "m \<in> ?P"
  then have "module_chunks g m \<noteq> []" by (auto simp: possible_inners_def module_can_concatenate_def split: option.splits)
  then have "m \<in> chunk_mods g" using b module_chunks_iff [of g _ m]
    by (fastforce simp: built_from_def chunk_mods_def chunk_graph_wf_def sizes_ok_def dest: hd_in_set)
  with b obtain L where L: "group_valid eps P L" "m \<in> group_mods eps P L" by (auto simp: built_from_def)
  note in_chunks = group_mods_in_chunks [OF b]
  show "rejected mg g [] ?P {} m"
  proof (cases L)
    case (LEntry i)
    with L b have i: "i < length es" and m: "m \<in> static_walk.reach mg (es ! i)"
      by (auto simp: group_valid_def group_mods_def built_from_def)
    have "\<not> fits mg g [] ?P (es ! i)" using i by (auto simp: fits_def possible_inners_def)
    moreover have "module_chunks g x \<noteq> []" if "(\<lambda>a b. b \<in> set (static_successors mg a))\<^sup>*\<^sup>* (es ! i) x" for x
      using that L LEntry b i in_chunks [OF L(1), of x]
      by (auto simp: group_mods_def built_from_def reach_start)
    ultimately show ?thesis using rejected_along [OF wf] m by (auto simp: reach_start)
  next
    case (LAsync t)
    with L b obtain p where p: "P t = Some p" and pok: "plan_ok mg eps P t p"
      by (auto simp: group_valid_def plans_ok_def built_from_def)
    then have st: "set (pl_static p) = static_walk.reach mg t" and ne: "pl_parents p \<noteq> []" by (simp_all add: plan_ok_def masks_ok_def)
    have mods: "x \<in> group_mods eps P (LAsync t) \<longleftrightarrow> x \<in> static_walk.reach mg t \<and> x \<notin> mask_set (pl_min p)" for x
      using p st by (auto simp: group_mods_def set_plan_modules)
    from ne obtain K ap where "(K, ap) \<in> set (pl_parents p)" by (cases "pl_parents p") auto
    with pok have rec: "record_ok mg eps P t K ap" by (auto simp: plan_ok_def)
    then obtain orig where o: "orig \<in> set (ap_origins ap)" by (cases "ap_origins ap") (auto simp: record_ok_def)
    from rec o have "group_valid eps P K" "fst orig \<in> group_mods eps P K" "(orig, t) \<in> imports_of mg (fst orig)"
      by (auto simp: record_ok_def)
    with dynamic_target_unfit [OF wf act] in_chunks have "\<not> fits mg g [] ?P t" by blast
    moreover have "module_chunks g x \<noteq> []" if "(\<lambda>a b. b \<in> set (static_successors mg a))\<^sup>*\<^sup>* t x"
        "(\<lambda>a b. b \<in> set (static_successors mg a))\<^sup>*\<^sup>* x m" for x
    proof -
      have "x \<notin> mask_set (pl_min p)"
        using static_closed_path [OF that(2) min_closed [OF pok]] L(2) LAsync mods by blast
      with that(1) have "x \<in> group_mods eps P (LAsync t)" by (simp add: mods reach_start)
      with in_chunks [OF L(1)] LAsync show ?thesis by blast
    qed
    moreover have "(\<lambda>a b. b \<in> set (static_successors mg a))\<^sup>*\<^sup>* t m" using L(2) LAsync mods by (simp add: reach_start)
    ultimately show ?thesis by (intro rejected_along [OF wf]) auto
  qed
qed

end
