(* ===== verification/Compilation.thy ===== *)
theory Compilation
  imports Sealing Grounding
begin

text \<open>
  \<open>Compilation::seal\<close> up to the module hashes, with the passes that \<open>Compiler::new\<close> taps into it: from a
  module graph whose provided exports are flagged to a chunk graph with render ids and hashes.
\<close>

section \<open>Definitions\<close>

text \<open>The options that decide which passes are tapped, and what the passes read.\<close>

record compile_options =
  co_used_exports :: bool
  co_side_effects :: bool
  co_concatenate :: bool
  co_names :: "string list"
  co_split :: "split_options option"
  co_env :: naming_env

text \<open>The taps of the hook \<open>optimize_dependencies\<close>, in the order in which they are applied.\<close>

definition call_optimize_dependencies :: "compile_options \<Rightarrow> nat list \<Rightarrow> module_graph \<Rightarrow> module_graph option" where
  "call_optimize_dependencies opts entries mg = do {
     mg \<leftarrow> (if co_used_exports opts then flag_dependency_usage entries mg else Some mg);
     (if co_side_effects opts then optimize_dependencies mg else Some mg) }"

definition call_optimize_chunk_modules ::
  "compile_options \<Rightarrow> nat list \<Rightarrow> module_graph \<Rightarrow> chunk_graph \<Rightarrow> chunk_graph option" where
  "call_optimize_chunk_modules opts entries mg g =
     (if co_concatenate opts then optimize_chunk_modules entries mg g else Some g)"

text \<open>\<open>memo\<close> is what the computation cache answers while the chunk graph is built.\<close>

definition seal_until_hashes ::
  "compile_options \<Rightarrow> reach_memo \<Rightarrow> nat list \<Rightarrow> module_graph \<Rightarrow> computation_cache option \<Rightarrow>
   (module_graph \<times> chunk_graph \<times> computation_cache option) option"
where
  "seal_until_hashes opts memo entries mg cache = do {
     mg \<leftarrow> call_optimize_dependencies opts entries mg;
     g \<leftarrow> build_chunk_graph_with_cache memo mg (co_names opts) entries (co_split opts);
     g \<leftarrow> call_optimize_chunk_modules opts entries mg g;
     (g, cache) \<leftarrow> seal_ids_and_hashes (co_env opts) mg g cache;
     Some (mg, g, cache) }"

section \<open>The passes over the module graph\<close>

text \<open>A finished graph that can be sealed.\<close>

definition compilable :: "nat list \<Rightarrow> module_graph \<Rightarrow> bool" where
  "compilable es mg \<longleftrightarrow> graph_wf mg \<and> distinct (map m_identity (gs_modules mg)) \<and>
     length (mg_exports mg) = length (gs_modules mg) \<and> imports_active mg \<and>
     length (gs_modules mg) + 1 < 2 ^ 32 \<and> (\<forall>e \<in> set es. e < length (gs_modules mg))"

lemma graph_wf_exports [simp]: "graph_wf (mg\<lparr>mg_exports := xs\<rparr>) = graph_wf mg"
  by (simp add: graph_wf_def Let_def connection_wf_def)

lemma usage_keeps_compilable:
  assumes c: "compilable es mg" and ex: "exports_ok mg" "stars_plain mg"
  shows "\<exists>mg'. flag_dependency_usage es mg = Some mg' \<and> compilable es mg'"
proof -
  from c have "graph_wf mg" "\<forall>e \<in> set es. e < length (gs_modules mg)" by (simp_all add: compilable_def)
  from flag_dependency_usage_spec [OF this(1) ex this(2)] obtain mg' where
    f: "flag_dependency_usage es mg = Some mg'" "mg' = mg\<lparr>mg_exports := mg_exports mg'\<rparr>"
      "length (mg_exports mg') = length (mg_exports mg)" by (elim exE conjE) (rule that)
  have "compilable es mg'" using c f(3) by (subst f(2)) (simp add: compilable_def imports_active_def)
  with f(1) show ?thesis by blast
qed

lemma optimize_keeps_compilable:
  assumes c: "compilable es mg"
  shows "\<exists>mg'. optimize_dependencies mg = Some mg' \<and> compilable es mg'"
proof -
  from c have wf: "graph_wf mg" "length (mg_exports mg) = length (gs_modules mg)" by (simp_all add: compilable_def)
  from optimize_dependencies_spec [OF wf] obtain mg' where
    o: "optimize_dependencies mg = Some mg'" "graph_wf mg'" "gs_modules mg' = gs_modules mg" "mg_exports mg' = mg_exports mg"
      "length (gs_connections mg') = length (gs_connections mg)"
    and r: "\<And>i. i < length (gs_connections mg) \<Longrightarrow> \<exists>r. gs_connections mg' ! i = (redirect r (gs_connections mg ! i))
         \<lparr>cn_state := if connection_needed mg' (gs_connections mg' ! i) then Active else Inactive\<rparr>" by blast
  have "connection_is_active (gs_connections mg' ! i)"
    if "i < length (gs_connections mg)" "is_import_dependency (cn_dependency (gs_connections mg' ! i))" for i
  proof -
    from r [OF that(1)] obtain q where e: "gs_connections mg' ! i = (redirect q (gs_connections mg ! i))
         \<lparr>cn_state := if connection_needed mg' (gs_connections mg' ! i) then Active else Inactive\<rparr>" by (rule exE)
    have s: "cn_state (gs_connections mg' ! i) =
        (if connection_needed mg' (gs_connections mg' ! i) then Active else Inactive)" by (subst (1) e) simp
    have "connection_needed mg' (gs_connections mg' ! i)"
      using that(2) by (cases "cn_dependency (gs_connections mg' ! i)") (simp_all add: connection_needed_def)
    with s show ?thesis by (simp add: connection_is_active_def)
  qed
  then have "imports_active mg'" using o(5) by (auto simp: imports_active_def in_set_conv_nth)
  with c o show ?thesis by (auto simp: compilable_def)
qed

lemma call_optimize_dependencies_ok:
  assumes c: "compilable es mg" and ex: "co_used_exports opts \<Longrightarrow> exports_ok mg \<and> stars_plain mg"
  shows "\<exists>mg'. call_optimize_dependencies opts es mg = Some mg' \<and> compilable es mg'"
proof -
  obtain mg1 where m1: "(if co_used_exports opts then flag_dependency_usage es mg else Some mg) = Some mg1" "compilable es mg1"
    using usage_keeps_compilable [OF c] ex c by (cases "co_used_exports opts") auto
  from optimize_keeps_compilable [OF m1(2)] obtain mg2 where "optimize_dependencies mg1 = Some mg2" "compilable es mg2" by blast
  with m1 show ?thesis by (cases "co_side_effects opts") (auto simp: call_optimize_dependencies_def)
qed

section \<open>Concatenation keeps a chunk graph sealable\<close>

definition scopes_ok :: "module_graph \<Rightarrow> chunk_graph \<Rightarrow> nat list \<Rightarrow> chunk_graph \<Rightarrow> bool" where
  "scopes_ok mg g0 es g \<longleftrightarrow>
     (\<forall>r cm. cg_concatenated g r = Some cm \<longrightarrow> cm_root cm = r \<and> concat_sound mg g0 (set es) cm) \<and>
     (\<forall>r r' cm cm'. cg_concatenated g r = Some cm \<longrightarrow> cg_concatenated g r' = Some cm' \<longrightarrow> r \<noteq> r' \<longrightarrow>
        set (cm_modules cm) \<inter> set (cm_modules cm') = {})"

lemma call_optimize_chunk_modules_ok:
  assumes c: "compilable es mg" and b: "built_from mg es eps P g" and small: "length (cg_chunks g) + 1 < 2 ^ 32"
  shows "\<exists>g'. call_optimize_chunk_modules opts es mg g = Some g' \<and> sealable mg g' \<and> scopes_ok mg g es g' \<and>
    cg_chunks g' = cg_chunks g"
proof -
  from c have wf: "graph_wf mg" "distinct (map m_identity (gs_modules mg))" "length (mg_exports mg) = length (gs_modules mg)"
    "imports_active mg" "length (gs_modules mg) + 1 < 2 ^ 32" by (simp_all add: compilable_def)
  from b have cwf: "chunk_graph_wf g" and emp: "cg_concatenated g = Map.empty"
    and bl: "\<forall>orig gr. cg_block_groups g orig = Some gr \<longrightarrow> gr < length (cg_groups g)" by (simp_all add: built_from_def)
  show ?thesis
  proof (cases "co_concatenate opts")
    case False
    have "sealable mg g" using wf cwf bl emp small by (simp add: sealable_def handles_in_range_def)
    with False emp show ?thesis by (simp add: call_optimize_chunk_modules_def scopes_ok_def)
  next
    case True
    from optimize_chunk_modules_spec [OF wf(1) cwf wf(3) built_grounded [OF wf(1) b wf(4)] emp] obtain g' where
      g': "optimize_chunk_modules es mg g = Some g'" "chunk_graph_wf g'" "concat_frame g g'" "scopes_ok mg g es g'"
      unfolding scopes_ok_def by blast
    have fr: "cg_chunks g' = cg_chunks g" "cg_groups g' = cg_groups g" "cg_block_groups g' = cg_block_groups g"
      using g'(3) by (simp_all add: concat_frame_def)
    have "k < length (gs_modules mg)" if "cg_concatenated g' r = Some cm" "k \<in> set (cm_modules cm)" for r cm k
      using g'(4) that unfolding scopes_ok_def concat_sound_def by blast
    then have "handles_in_range mg g'" using bl by (simp add: handles_in_range_def fr)
    then have "sealable mg g'" using wf g'(2) small by (simp add: sealable_def fr)
    with True g' fr(1) show ?thesis by (auto simp: call_optimize_chunk_modules_def)
  qed
qed

section \<open>Sealing returns\<close>

lemma hashes_set_frame:
  assumes "hashes_set mg g g'"
  shows "module_ids_unique mg g' = module_ids_unique mg g" "chunk_ids_unique g' = chunk_ids_unique g"
    "cg_concatenated g' = cg_concatenated g" "module_chunks g' = module_chunks g"
    "compute_module_hash mg g' m = compute_module_hash mg g m" "chunk_graph_wf g' = chunk_graph_wf g"
proof -
  from assms have eq: "g' = g\<lparr>cg_module_hashes := cg_module_hashes g'\<rparr>" unfolding hashes_set_def by blast
  have f: "module_chunks g' = module_chunks g" "module_render_id g' = module_render_id g" "cg_chunks g' = cg_chunks g"
    by (subst eq, simp add: fun_eq_iff module_chunks_def module_render_id_def)+
  then show "module_ids_unique mg g' = module_ids_unique mg g" "chunk_ids_unique g' = chunk_ids_unique g"
    "module_chunks g' = module_chunks g" by (simp_all add: module_ids_unique_def chunk_ids_unique_def)
  show "cg_concatenated g' = cg_concatenated g" by (subst eq) simp
  show "compute_module_hash mg g' m = compute_module_hash mg g m" by (subst eq) simp
  show "chunk_graph_wf g' = chunk_graph_wf g"
    by (subst eq) (simp add: chunk_graph_wf_def sizes_ok_def groups_linked_def modules_linked_def tree_linked_def)
qed

definition sealed :: "module_graph \<Rightarrow> nat list \<Rightarrow> chunk_graph \<Rightarrow> chunk_graph \<Rightarrow> bool" where
  "sealed mg es g0 g \<longleftrightarrow> chunk_graph_wf g \<and> module_ids_unique mg g \<and> chunk_ids_unique g \<and> scopes_ok mg g0 es g \<and>
     (\<forall>h < length (gs_modules mg). module_chunks g h \<noteq> [] \<longrightarrow>
        (\<exists>x. compute_module_hash mg g (gs_modules mg ! h) = Some x \<and> vec_get (cg_module_hashes g) h = Some (Some x)))"

lemma seal_without_cache:
  assumes "seal_ids_and_hashes env mg g None = Some (g', c)"
  shows "c = None"
proof -
  have hs: "c' = None" if "module_hashes mg g1 ms None = Some (hs, c')" for g1 ms hs c'
  proof -
    have "c' = None" if "fold_opt (\<lambda>m (hashes, cache). do {
        (h, cache) \<leftarrow> module_hash_cached mg g1 m cache;
        Some (hashes @ [(m_handle m, h)], cache) }) ms (hs0, None) = Some (hs, c')" for hs0
      using that by (induction ms arbitrary: hs0) (auto simp: bind_simps module_hash_cached_def)
    then show ?thesis using that by (auto simp: module_hashes_def)
  qed
  from assms show ?thesis
    by (auto simp: seal_ids_and_hashes_def prepare_post_cache_def create_module_hashes_def bind_simps dest: hs)
qed

theorem seal_until_hashes_ok:
  assumes c: "compilable es mg" and ex: "co_used_exports opts \<Longrightarrow> exports_ok mg \<and> stars_plain mg"
    and memo: "\<And>mg'. call_optimize_dependencies opts es mg = Some mg' \<Longrightarrow> memo_ok memo mg'"
    and small: "\<And>mg' g. call_optimize_dependencies opts es mg = Some mg' \<Longrightarrow> build_chunk_graph_with_cache memo mg' (co_names opts) es (co_split opts) = Some g \<Longrightarrow>
      length (cg_chunks g) + 1 < 2 ^ 32"
  shows "\<exists>mg' g0 g. call_optimize_dependencies opts es mg = Some mg' \<and>
    build_chunk_graph_with_cache memo mg' (co_names opts) es (co_split opts) = Some g0 \<and>
    seal_until_hashes opts memo es mg None = Some (mg', g, None) \<and> sealed mg' es g0 g"
proof -
  from call_optimize_dependencies_ok [OF c ex] obtain mg' where
    m: "call_optimize_dependencies opts es mg = Some mg'" "compilable es mg'" by blast
  then have wf: "graph_wf mg'" "\<forall>e \<in> set es. e < length (gs_modules mg')" by (simp_all add: compilable_def)
  from build_chunk_graph_spec [OF wf(1) memo [OF m(1)] wf(2)] obtain g0 where
    g0: "build_chunk_graph_with_cache memo mg' (co_names opts) es (co_split opts) = Some g0" by blast
  from build_chunk_graph_from [OF wf(1) memo [OF m(1)] wf(2) g0] obtain eps P where "built_from mg' es eps P g0" by blast
  from call_optimize_chunk_modules_ok [OF m(2) this small [OF m(1) g0], of opts] obtain g1 where
    g1: "call_optimize_chunk_modules opts es mg' g0 = Some g1" "sealable mg' g1" "scopes_ok mg' g0 es g1" by blast
  from seal_ids_and_hashes_spec [OF g1(2), of "co_env opts" None] obtain g2 g3 cache where
    g2: "render_ids_set g1 g2" "module_ids_unique mg' g2" "chunk_ids_unique g2"
      "seal_ids_and_hashes (co_env opts) mg' g1 None = Some (g3, cache)" "hashes_set mg' g2 g3"
    by (auto simp: cache_sound_def)
  have n: "cache = None" by (rule seal_without_cache [OF g2(4)])
  note fr = hashes_set_frame [OF g2(5)]
  have "cg_concatenated g2 = cg_concatenated g1" using g2(1) unfolding render_ids_set_def
    by (metis chunk_graph.select_convs(14) chunk_graph.surjective chunk_graph.update_convs(1,6))
  then have "scopes_ok mg' g0 es g3" using g1(3) by (simp add: scopes_ok_def fr(3))
  moreover have "chunk_graph_wf g3" using fr(6) render_ids_set_frame(1) [OF g2(1)] g1(2) by (simp add: sealable_def)
  ultimately have "sealed mg' es g0 g3" using g2(2,3,5) fr unfolding sealed_def hashes_set_def by auto
  moreover have "seal_until_hashes opts memo es mg None = Some (mg', g3, None)"
    by (simp add: seal_until_hashes_def m(1) g0 g1(1) g2(4) n)
  ultimately show ?thesis using m(1) g0 by blast
qed

end
