(* ===== verification/Compile_Samples.thy ===== *)
theory Compile_Samples
  imports Compilation Export_Samples
begin

text \<open>The small programs compiled up to the module hashes, with a cache and without.\<close>

section \<open>Compiling the program with re-exports\<close>

definition sample_env :: naming_env where
  "sample_env = \<lparr>ne_canon = (\<lambda>_. None), ne_parse = (\<lambda>_. []), ne_debug = (\<lambda>s. s),
     ne_context = \<lparr>pc_raw = [], pc_context = []\<rparr>\<rparr>"

definition sample_options :: compile_options where
  "sample_options = \<lparr>co_used_exports = True, co_side_effects = True, co_concatenate = True,
     co_names = [''main''], co_split = None, co_env = sample_env\<rparr>"

lemma imports_active_check:
  "list_all (\<lambda>k. is_import_dependency (cn_dependency k) \<longrightarrow> connection_is_active k) (gs_connections mg) \<Longrightarrow> imports_active mg"
  by (simp add: imports_active_def list_all_iff)

lemma barrel_imports_active: "imports_active barrel_flagged"
  by (rule imports_active_check) code_simp

lemma barrel_flagged_identities: "distinct (map m_identity (gs_modules barrel_flagged))"
  using barrel_identities by (simp add: barrel_flagged_def)

lemma barrel_compilable: "compilable [0] barrel_flagged"
  using barrel_flagged_wf barrel_flagged_identities barrel_flagged_exports barrel_imports_active barrel_flagged_size
  by (simp add: compilable_def)

lemma barrel_chunks:
  "map_option (\<lambda>g. length (cg_chunks g))
     (do { mg \<leftarrow> call_optimize_dependencies sample_options [0] barrel_flagged;
           build_chunk_graph_with_cache (\<lambda>_. None) mg (co_names sample_options) [0] (co_split sample_options) }) = Some 1"
  by code_simp

lemma barrel_scope:
  "map_option (\<lambda>g. cg_concatenated g 0)
     (do { g \<leftarrow> build_chunk_graph_with_cache (\<lambda>_. None) barrel_flagged [''main''] [0] None;
           optimize_chunk_modules [0] barrel_flagged g }) = Some (Some \<lparr>cm_root = 0, cm_modules = [0, 1, 2, 3]\<rparr>)"
  by code_simp

section \<open>A warm cache\<close>

lemma sample_identities: "distinct (map m_identity (gs_modules sample_graph))"
  by code_simp

lemma sample_exports: "length (mg_exports sample_graph) = length (gs_modules sample_graph)"
  by code_simp

lemma sample_imports_active: "imports_active sample_graph"
  by (rule imports_active_check) code_simp

lemma sample_compilable: "compilable [0] sample_graph"
  using sample_graph_wf sample_identities sample_exports sample_imports_active sample_graph_size by (simp add: compilable_def)

text \<open>A cache after a build that remembered what is statically reachable from the entry.\<close>

lemma sample_warm_cache:
  "\<exists>cc. dom (cc_modules cc) = m_identity ` set (gs_modules sample_graph) \<and> static_memos_valid sample_graph cc \<and>
     (\<exists>ms. fst (get_static_reachable (identity_at sample_graph 0) cc) = Some ms)"
proof -
  from prepare_before_chunk_graph_spec [OF sample_graph_wf sample_identities, of empty_computation_cache] obtain c0 where
    p: "prepare_before_chunk_graph sample_graph empty_computation_cache = Some c0"
    and hd: "\<forall>h < length (gs_modules sample_graph). cc_handles c0 (identity_at sample_graph h) = Some h" by blast
  from fresh_memos_valid [OF sample_graph_wf sample_identities p] have
    v: "static_memos_valid sample_graph c0" "dom (cc_modules c0) = m_identity ` set (gs_modules sample_graph)" by blast+
  have h: "0 < length (gs_modules sample_graph)" by (simp add: sample_graph_size)
  obtain ms where ms: "distinct ms" "set ms = static_walk.reach sample_graph 0"
  proof -
    have "finite (static_walk.reach sample_graph 0)"
      using static_walk.reach_range [OF sample_graph_wf h] by (meson finite_lessThan finite_subset lessThan_iff subsetI)
    then show ?thesis using that finite_distinct_list by blast
  qed
  from store_static_valid [OF sample_graph_wf sample_identities h ms v] obtain cc where
    c: "store_static_reachable (identity_at sample_graph 0) ms sample_graph c0 = Some cc" "static_memos_valid sample_graph cc"
      "dom (cc_modules cc) = dom (cc_modules c0)" by blast
  have "cc_handles c0 (identity_at sample_graph x) = Some x" if "x \<in> set ms" for x
    using hd that ms(2) static_walk.reach_range [OF sample_graph_wf h] by blast
  from store_reachable_then_get [OF c(1) this, of "identity_at sample_graph 0"] c v show ?thesis by auto
qed

section \<open>Sealing the first program\<close>

lemma sample_sealable:
  "\<exists>g. build_chunk_graph_with_cache (\<lambda>_. None) sample_graph [''main''] [0] None = Some g \<and> sealable sample_graph g"
proof -
  have r: "\<forall>e \<in> set [0]. e < length (gs_modules sample_graph)" by (simp add: sample_graph_size)
  from build_chunk_graph_spec [OF sample_graph_wf memo_ok_empty r, of "[''main'']" None] obtain g where
    g: "build_chunk_graph_with_cache (\<lambda>_. None) sample_graph [''main''] [0] None = Some g" by blast
  from build_chunk_graph_from [OF sample_graph_wf memo_ok_empty r g] obtain eps P where
    b: "built_from sample_graph [0] eps P g" by blast
  have "map_option (\<lambda>g. length (cg_chunks g))
      (build_chunk_graph_with_cache (\<lambda>_. None) sample_graph [''main''] [0] None) = Some 2" by code_simp
  with g have "length (cg_chunks g) + 1 < 2 ^ 32" by simp
  from call_optimize_chunk_modules_ok [OF sample_compilable b this, of "sample_options\<lparr>co_concatenate := False\<rparr>"]
  have "sealable sample_graph g" by (auto simp: call_optimize_chunk_modules_def)
  with g show ?thesis by blast
qed

text \<open>A cache that was prepared and has no hashes yet.\<close>

lemma fresh_hashes_sound:
  assumes "prepare_before_chunk_graph mg empty_computation_cache = Some cc"
    and wf: "graph_wf mg" and ids: "distinct (map m_identity (gs_modules mg))"
  shows "hash_memos_sound mg g cc"
proof -
  from prepare_before_chunk_graph_spec [OF wf ids, of empty_computation_cache] assms(1) have
    e: "\<And>h. h < length (gs_modules mg) \<Longrightarrow>
      (if h \<in> touched mg (changed_modules mg empty_computation_cache)
        then cc_modules cc (identity_at mg h) = Some (new_entry (signature_of mg h))
        else \<exists>e. cc_modules empty_computation_cache (identity_at mg h) = Some e)" by (auto split: if_splits)
  have "cc_modules cc (identity_at mg h) = Some (new_entry (signature_of mg h))" if "h < length (gs_modules mg)" for h
    using e [OF that] by (simp add: empty_computation_cache_def split: if_splits)
  then show ?thesis by (simp add: hash_memos_sound_def new_entry_def)
qed

end
