(* ===== verification/Byte_Codec.thy ===== *)
theory Byte_Codec
  imports Stable_Hash
begin

text \<open>
  \<open>Encoder\<close> and \<open>Decoder\<close> of \<open>pack_file.rs\<close>, with which the persistent cache writes and reads its
  records.  A method of the encoder takes the bytes so far and returns them extended, or an error;
  the \<open>?\<close> after a call is \<open>write_all\<close>.  A method of the decoder returns what it read and the decoder
  behind it, or \<open>None\<close>.  The laws below say of a reader which bytes it accepts for which value.
\<close>

section \<open>Errors and strings\<close>

datatype io_kind = InvalidData | InvalidInput | WouldBlock | OtherKind

datatype io_error = IoError io_kind string

type_synonym 'a io_result = "io_error + 'a"

text \<open>\<open>str::from_utf8\<close>: which byte sequences are UTF-8.\<close>

definition in_range :: "nat \<Rightarrow> nat \<Rightarrow> u8 \<Rightarrow> bool" where
  "in_range lo hi b \<longleftrightarrow> lo \<le> unat b \<and> unat b \<le> hi"

definition utf8_tail :: "u8 \<Rightarrow> bool" where
  "utf8_tail = in_range 128 191"

text \<open>The number of bytes of the character that the bytes start with.\<close>

definition utf8_width :: "bytes \<Rightarrow> nat option" where
  "utf8_width bs =
     (case bs of
        [] \<Rightarrow> None
      | a # rest \<Rightarrow>
          if unat a < 128 then Some 1
          else case rest of
            [] \<Rightarrow> None
          | b # rest \<Rightarrow>
              if in_range 194 223 a then if utf8_tail b then Some 2 else None
              else case rest of
                [] \<Rightarrow> None
              | c # rest \<Rightarrow>
                  if unat a = 224 \<and> in_range 160 191 b \<or> in_range 225 236 a \<and> utf8_tail b \<or>
                     unat a = 237 \<and> in_range 128 159 b \<or> in_range 238 239 a \<and> utf8_tail b
                  then if utf8_tail c then Some 3 else None
                  else case rest of
                    [] \<Rightarrow> None
                  | d # _ \<Rightarrow>
                      if (unat a = 240 \<and> in_range 144 191 b \<or> in_range 241 243 a \<and> utf8_tail b \<or>
                          unat a = 244 \<and> in_range 128 143 b) \<and> utf8_tail c \<and> utf8_tail d
                      then Some 4 else None)"

lemma utf8_width_pos: "utf8_width bs = Some n \<Longrightarrow> 0 < n \<and> bs \<noteq> []"
  by (auto simp: utf8_width_def split: list.splits if_splits)

function utf8_valid :: "bytes \<Rightarrow> bool" where
  "utf8_valid bs = (bs = [] \<or> (case utf8_width bs of None \<Rightarrow> False | Some n \<Rightarrow> utf8_valid (drop n bs)))"
  by pat_completeness auto
termination
  by (relation "measure length") (auto dest: utf8_width_pos)

declare utf8_valid.simps [simp del]

definition bytes_str :: "bytes \<Rightarrow> string" where
  "bytes_str bs = map (\<lambda>b. char_of (unat b)) bs"

definition string_from_utf8 :: "bytes \<Rightarrow> string option" where
  "string_from_utf8 bs = (if utf8_valid bs then Some (bytes_str bs) else None)"

text \<open>What holds of every \<open>String\<close>.\<close>

definition str_ok :: "string \<Rightarrow> bool" where
  "str_ok s \<longleftrightarrow> utf8_valid (str_bytes s)"

lemma char_byte_of: "char_byte (char_of (unat b)) = b"
proof -
  have "unat b < 2 ^ LENGTH(8)" by (rule unsigned_less)
  then have "unat b mod 256 = unat b" by simp
  then show ?thesis by (simp only: char_byte_def of_char_of) simp
qed

lemma str_bytes_bytes_str [simp]: "str_bytes (bytes_str bs) = bs"
  by (simp add: str_bytes_def bytes_str_def comp_def char_byte_of map_idI)

lemma bytes_str_str_bytes [simp]: "bytes_str (str_bytes s) = s"
  by (metis str_bytes_bytes_str str_bytes_inject)

lemma string_from_utf8_iff: "string_from_utf8 bs = Some s \<longleftrightarrow> str_ok s \<and> str_bytes s = bs"
  by (auto simp: string_from_utf8_def str_ok_def)

section \<open>The encoder\<close>

definition max_field_bytes :: nat where "max_field_bytes = 1048576"
definition max_record_bytes :: nat where "max_record_bytes = 16777216"
definition max_collection_entries :: nat where "max_collection_entries = 100000"

type_synonym writer = "bytes \<Rightarrow> io_error + bytes"

fun write_all :: "writer list \<Rightarrow> writer" where
  "write_all [] bs = Inr bs"
| "write_all (w # ws) bs = (case w bs of Inl e \<Rightarrow> Inl e | Inr bs \<Rightarrow> write_all ws bs)"

definition write_fail :: "io_kind \<Rightarrow> string \<Rightarrow> writer" where
  "write_fail k message bs = Inl (IoError k message)"

definition write_raw :: "bytes \<Rightarrow> writer" where
  "write_raw value bs = Inr (bs @ value)"

definition write_u8 :: "u8 \<Rightarrow> writer" where
  "write_u8 value = write_raw [value]"

definition write_bool :: "bool \<Rightarrow> writer" where
  "write_bool value = write_u8 (of_bool value)"

definition write_u32 :: "u32 \<Rightarrow> writer" where
  "write_u32 value = write_raw (word_le 4 value)"

definition write_u64 :: "u64 \<Rightarrow> writer" where
  "write_u64 value = write_raw (word_le 8 value)"

text \<open>An \<open>i64\<close> is a 64-bit word that is read as a signed number.\<close>

type_synonym i64 = "64 word"

definition write_i64 :: "i64 \<Rightarrow> writer" where
  "write_i64 value = write_raw (word_le 8 value)"

definition u32_try_from :: "nat \<Rightarrow> u32 option" where
  "u32_try_from n = (if n < 2 ^ 32 then Some (word_of_nat n) else None)"

definition write_count :: "nat \<Rightarrow> writer" where
  "write_count value =
     (if max_collection_entries < value then write_fail InvalidData ''PackFile collection exceeds the configured bound''
      else case u32_try_from value of
        None \<Rightarrow> write_fail InvalidData ''PackFile collection is too large''
      | Some v \<Rightarrow> write_u32 v)"

definition write_bytes_with_limit :: "nat \<Rightarrow> bytes \<Rightarrow> writer" where
  "write_bytes_with_limit limit value =
     (if limit < length value then write_fail InvalidData ''PackFile field exceeds the configured bound''
      else case u32_try_from (length value) of
        None \<Rightarrow> write_fail InvalidData ''PackFile field is too large''
      | Some n \<Rightarrow> write_all [write_u32 n, write_raw value])"

definition write_bytes :: "bytes \<Rightarrow> writer" where
  "write_bytes = write_bytes_with_limit max_field_bytes"

definition write_string :: "string \<Rightarrow> writer" where
  "write_string value = write_bytes (str_bytes value)"

definition write_record_string :: "string \<Rightarrow> writer" where
  "write_record_string value = write_bytes_with_limit max_record_bytes (str_bytes value)"

definition write_option :: "('a \<Rightarrow> writer) \<Rightarrow> 'a option \<Rightarrow> writer" where
  "write_option w value = (case value of Some v \<Rightarrow> write_all [write_u8 1, w v] | None \<Rightarrow> write_u8 0)"

definition write_optional_bytes :: "bytes option \<Rightarrow> writer" where
  "write_optional_bytes = write_option write_bytes"

definition write_optional_string :: "string option \<Rightarrow> writer" where
  "write_optional_string = write_option write_string"

definition write_optional_record_string :: "string option \<Rightarrow> writer" where
  "write_optional_record_string = write_option write_record_string"

definition write_optional_u64 :: "u64 option \<Rightarrow> writer" where
  "write_optional_u64 = write_option write_u64"

text \<open>\<open>write_count\<close> and then every element, as in all loops over collections.\<close>

definition write_list :: "('a \<Rightarrow> writer) \<Rightarrow> 'a list \<Rightarrow> writer" where
  "write_list w values = write_all (write_count (length values) # map w values)"

definition write_strings :: "string list \<Rightarrow> writer" where
  "write_strings = write_list write_string"


section \<open>The decoder\<close>

record decoder =
  d_bytes :: bytes
  d_position :: nat

type_synonym 'a reader = "decoder \<Rightarrow> ('a \<times> decoder) option"

definition decoder_new :: "bytes \<Rightarrow> decoder" where
  "decoder_new bs = \<lparr>d_bytes = bs, d_position = 0\<rparr>"

definition decoder_finish :: "decoder \<Rightarrow> unit option" where
  "decoder_finish d = (if d_position d = length (d_bytes d) then Some () else None)"

definition read_exact :: "nat \<Rightarrow> bytes reader" where
  "read_exact n d =
     (let until = d_position d + n
      in if until \<le> length (d_bytes d)
         then Some (take n (drop (d_position d) (d_bytes d)), d\<lparr>d_position := until\<rparr>) else None)"

definition read_u8 :: "u8 reader" where
  "read_u8 d = do { (bs, d) \<leftarrow> read_exact 1 d; Some (hd bs, d) }"

definition read_bool :: "bool reader" where
  "read_bool d = do {
     (b, d) \<leftarrow> read_u8 d;
     if b = 0 then Some (False, d) else if b = 1 then Some (True, d) else None }"

definition read_u32 :: "u32 reader" where
  "read_u32 d = do { (bs, d) \<leftarrow> read_exact 4 d; Some (le_word bs, d) }"

definition read_u64 :: "u64 reader" where
  "read_u64 d = do { (bs, d) \<leftarrow> read_exact 8 d; Some (le_word bs, d) }"

definition read_i64 :: "i64 reader" where
  "read_i64 d = do { (bs, d) \<leftarrow> read_exact 8 d; Some (le_word bs, d) }"

definition read_count :: "nat reader" where
  "read_count d = do {
     (n, d) \<leftarrow> read_u32 d;
     if unat n \<le> max_collection_entries then Some (unat n, d) else None }"

definition read_bytes_with_limit :: "nat \<Rightarrow> bytes reader" where
  "read_bytes_with_limit limit d = do {
     (n, d) \<leftarrow> read_u32 d;
     if limit < unat n then None else read_exact (unat n) d }"

definition read_bytes :: "bytes reader" where
  "read_bytes = read_bytes_with_limit max_field_bytes"

definition read_string :: "string reader" where
  "read_string d = do { (bs, d) \<leftarrow> read_bytes d; s \<leftarrow> string_from_utf8 bs; Some (s, d) }"

definition read_record_string :: "string reader" where
  "read_record_string d = do {
     (bs, d) \<leftarrow> read_bytes_with_limit max_record_bytes d; s \<leftarrow> string_from_utf8 bs; Some (s, d) }"

definition read_option :: "'a reader \<Rightarrow> 'a option reader" where
  "read_option r d = do {
     (b, d) \<leftarrow> read_u8 d;
     if b = 0 then Some (None, d)
     else if b = 1 then do { (v, d) \<leftarrow> r d; Some (Some v, d) } else None }"

definition read_optional_bytes :: "bytes option reader" where
  "read_optional_bytes = read_option read_bytes"

definition read_optional_string :: "string option reader" where
  "read_optional_string = read_option read_string"

definition read_optional_record_string :: "string option reader" where
  "read_optional_record_string = read_option read_record_string"

definition read_optional_u64 :: "u64 option reader" where
  "read_optional_u64 = read_option read_u64"

text \<open>A loop that reads and pushes.\<close>

fun read_times :: "nat \<Rightarrow> 'a reader \<Rightarrow> 'a list reader" where
  "read_times 0 r d = Some ([], d)"
| "read_times (Suc n) r d = do { (v, d) \<leftarrow> r d; (vs, d) \<leftarrow> read_times n r d; Some (v # vs, d) }"

definition read_list :: "'a reader \<Rightarrow> 'a list reader" where
  "read_list r d = do { (n, d) \<leftarrow> read_count d; read_times n r d }"

definition read_strings :: "string list reader" where
  "read_strings = read_list read_string"

section \<open>What a writer appends\<close>

definition emits :: "writer \<Rightarrow> bytes \<Rightarrow> bool" where
  "emits w c \<longleftrightarrow> (\<forall>bs. w bs = Inr (bs @ c))"

definition uniform :: "writer \<Rightarrow> bool" where
  "uniform w \<longleftrightarrow> (\<exists>e. \<forall>bs. w bs = Inl e) \<or> (\<exists>c. emits w c)"

named_theorems uniform_intros \<open>writers that append the same bytes to anything\<close>
named_theorems emits_simps \<open>what a writer appends\<close>

lemma emits_unique: "emits w c \<Longrightarrow> emits w c' \<longleftrightarrow> c' = c"
  by (auto simp: emits_def)

lemma uniform_run: "uniform w \<Longrightarrow> w bs = Inr bs' \<longleftrightarrow> (\<exists>c. emits w c \<and> bs' = bs @ c)"
  by (auto simp: uniform_def emits_def)

lemma write_fail_uniform [uniform_intros]: "uniform (write_fail k message)"
  by (auto simp: uniform_def write_fail_def)

lemma write_fail_emits [emits_simps]: "\<not> emits (write_fail k message) c"
  by (simp add: emits_def write_fail_def)

lemma write_raw_emits [emits_simps]: "emits (write_raw v) c \<longleftrightarrow> c = v"
  by (auto simp: emits_def write_raw_def)

lemma write_raw_uniform [uniform_intros]: "uniform (write_raw v)"
  by (simp add: uniform_def write_raw_emits)

lemma write_all_emits_Nil [emits_simps]: "emits (write_all []) c \<longleftrightarrow> c = []"
  by (simp add: emits_def)

lemma write_all_uniform [uniform_intros]:
  "uniform (write_all [])"
  "uniform w \<Longrightarrow> uniform (write_all ws) \<Longrightarrow> uniform (write_all (w # ws))"
proof -
  have "emits (write_all []) []" by (simp add: emits_def)
  then show "uniform (write_all [])" unfolding uniform_def by blast
  assume "uniform w" "uniform (write_all ws)"
  then show "uniform (write_all (w # ws))"
    unfolding uniform_def emits_def by (auto simp flip: append_assoc) (metis append_assoc)+
qed

lemma write_all_map_uniform [uniform_intros]: "(\<And>x. uniform (w x)) \<Longrightarrow> uniform (write_all (map w vs))"
  by (induction vs) (simp_all add: write_all_uniform del: write_all.simps)

lemma write_all_emits_Cons:
  assumes "uniform w" and "uniform (write_all ws)"
  shows "emits (write_all (w # ws)) c \<longleftrightarrow> (\<exists>a b. c = a @ b \<and> emits w a \<and> emits (write_all ws) b)"
proof
  assume c: "emits (write_all (w # ws)) c"
  then obtain x where x: "w [] = Inr x"
    by (cases "w []") (auto simp: emits_def dest: spec [of _ "[]"])
  with assms(1) have a: "emits w x" by (auto simp: uniform_run)
  with c have "write_all ws x = Inr c" by (auto simp: emits_def dest: spec [of _ "[]"])
  with assms(2) a show "\<exists>a b. c = a @ b \<and> emits w a \<and> emits (write_all ws) b" by (auto simp: uniform_run)
qed (auto simp: emits_def)

lemmas emits_all = write_all_emits_Nil write_all_emits_Cons

lemma write_u8_uniform [uniform_intros]: "uniform (write_u8 v)"
  by (simp add: write_u8_def write_raw_uniform)

lemma write_bool_uniform [uniform_intros]: "uniform (write_bool v)"
  by (simp add: write_bool_def write_u8_uniform)

lemma write_u32_uniform [uniform_intros]: "uniform (write_u32 v)"
  by (simp add: write_u32_def write_raw_uniform)

lemma write_u64_uniform [uniform_intros]: "uniform (write_u64 v)"
  by (simp add: write_u64_def write_raw_uniform)

lemma write_i64_uniform [uniform_intros]: "uniform (write_i64 v)"
  by (simp add: write_i64_def write_raw_uniform)

lemma write_count_uniform [uniform_intros]: "uniform (write_count n)"
  by (simp add: write_count_def write_u32_uniform write_fail_uniform split: option.split)

lemma write_bytes_with_limit_uniform [uniform_intros]: "uniform (write_bytes_with_limit l v)"
  by (auto simp: write_bytes_with_limit_def write_fail_uniform intro!: uniform_intros split: option.split)

lemma write_bytes_uniform [uniform_intros]: "uniform (write_bytes v)"
  by (simp add: write_bytes_def write_bytes_with_limit_uniform)

lemma write_string_uniform [uniform_intros]: "uniform (write_string v)"
  by (simp add: write_string_def write_bytes_uniform)

lemma write_record_string_uniform [uniform_intros]: "uniform (write_record_string v)"
  by (simp add: write_record_string_def write_bytes_with_limit_uniform)

lemma write_option_uniform [uniform_intros]: "(\<And>x. uniform (w x)) \<Longrightarrow> uniform (write_option w v)"
  by (auto simp: write_option_def intro!: uniform_intros split: option.split)

lemma write_optional_uniform [uniform_intros]:
  "uniform (write_optional_bytes b)" "uniform (write_optional_string s)"
  "uniform (write_optional_record_string s)" "uniform (write_optional_u64 n)"
  by (auto simp: write_optional_bytes_def write_optional_string_def write_optional_record_string_def
      write_optional_u64_def intro!: uniform_intros)

lemma write_list_uniform [uniform_intros]: "(\<And>x. uniform (w x)) \<Longrightarrow> uniform (write_list w vs)"
  by (simp add: write_list_def uniform_intros del: write_all.simps)

lemma write_strings_uniform [uniform_intros]: "uniform (write_strings vs)"
  by (simp add: write_strings_def write_list_uniform write_string_uniform)

section \<open>What a reader accepts\<close>

text \<open>The decoder that has read \<open>pre\<close> and has \<open>xs\<close> before it.\<close>

definition at :: "bytes \<Rightarrow> bytes \<Rightarrow> decoder" where
  "at pre xs = \<lparr>d_bytes = pre @ xs, d_position = length pre\<rparr>"

text \<open>\<open>W v c\<close>: the reader returns \<open>v\<close> exactly for the bytes \<open>c\<close>, and stops behind them.\<close>

definition reads :: "'a reader \<Rightarrow> ('a \<Rightarrow> bytes \<Rightarrow> bool) \<Rightarrow> bool" where
  "reads r W \<longleftrightarrow> (\<forall>pre xs v d. r (at pre xs) = Some (v, d) \<longleftrightarrow>
     (\<exists>c rest. W v c \<and> xs = c @ rest \<and> d = at (pre @ c) rest))"

named_theorems reads_intros \<open>readers and the bytes they accept\<close>

lemma reads_iff:
  "reads r W \<Longrightarrow> r (at pre xs) = Some (v, d) \<longleftrightarrow> (\<exists>c rest. W v c \<and> xs = c @ rest \<and> d = at (pre @ c) rest)"
  by (simp add: reads_def)

lemma reads_cong: "reads r W \<Longrightarrow> (\<And>v c. W v c \<longleftrightarrow> W' v c) \<Longrightarrow> reads r W'"
  by (simp add: reads_def)

lemma reads_return: "reads (\<lambda>d. Some (x, d)) (\<lambda>v c. v = x \<and> c = [])"
  by (auto simp: reads_def)

lemma reads_fail: "reads (\<lambda>d. None) (\<lambda>v c. False)"
  by (simp add: reads_def)

lemma reads_bind:
  assumes "reads r W" and "\<And>x. reads (f x) (V x)"
  shows "reads (\<lambda>d. Option.bind (r d) (\<lambda>(x, d). f x d)) (\<lambda>v c. \<exists>x a b. c = a @ b \<and> W x a \<and> V x v b)"
  unfolding reads_def
proof (intro allI iffI)
  fix pre xs v d
  assume "Option.bind (r (at pre xs)) (\<lambda>(x, d). f x d) = Some (v, d)"
  then obtain x d' where "r (at pre xs) = Some (x, d')" "f x d' = Some (v, d)" by (auto simp: bind_simps)
  then show "\<exists>c rest. (\<exists>x a b. c = a @ b \<and> W x a \<and> V x v b) \<and> xs = c @ rest \<and> d = at (pre @ c) rest"
    by (auto simp: reads_iff [OF assms(1)] reads_iff [OF assms(2)]) (metis append_assoc)
next
  fix pre xs v d
  assume "\<exists>c rest. (\<exists>x a b. c = a @ b \<and> W x a \<and> V x v b) \<and> xs = c @ rest \<and> d = at (pre @ c) rest"
  then obtain x a b rest where *: "W x a" "V x v b" "xs = a @ b @ rest" "d = at (pre @ a @ b) rest" by auto
  then have "r (at pre xs) = Some (x, at (pre @ a) (b @ rest))" using assms(1) by (auto simp: reads_iff)
  moreover have "f x (at (pre @ a) (b @ rest)) = Some (v, d)" using * assms(2) [of x] by (auto simp: reads_iff)
  ultimately show "Option.bind (r (at pre xs)) (\<lambda>(x, d). f x d) = Some (v, d)" by simp
qed

lemma reads_if:
  assumes "b \<Longrightarrow> reads r W" and "\<not> b \<Longrightarrow> reads r' W'"
  shows "reads (\<lambda>d. if b then r d else r' d) (\<lambda>v c. if b then W v c else W' v c)"
  using assms by (cases b) simp_all

lemma reads_opt:
  assumes "\<And>x. reads (f x) (V x)"
  shows "reads (\<lambda>d. Option.bind m (\<lambda>x. f x d)) (\<lambda>v c. \<exists>x. m = Some x \<and> V x v c)"
  using assms by (cases m) (simp_all add: reads_def)

lemmas reads_basic = reads_return reads_fail reads_bind reads_if reads_opt

section \<open>Readers and writers\<close>

text \<open>The valid values are read back from what is written for them, and from nothing else.\<close>

definition written :: "('a \<Rightarrow> bool) \<Rightarrow> ('a \<Rightarrow> writer) \<Rightarrow> 'a \<Rightarrow> bytes \<Rightarrow> bool" where
  "written P w v c \<longleftrightarrow> P v \<and> emits (w v) c"

abbreviation valid :: "'a \<Rightarrow> bool" where "valid \<equiv> \<lambda>_. True"

lemma word_le_le_word:
  assumes "8 * length bs = LENGTH('a)"
  shows "word_le (length bs) (le_word bs :: 'a::len word) = bs"
proof (rule nth_equalityI)
  show "length (word_le (length bs) (le_word bs :: 'a word)) = length bs" by simp
  fix i
  assume "i < length (word_le (length bs) (le_word bs :: 'a word))"
  then have i: "i < length bs" by simp
  show "word_le (length bs) (le_word bs :: 'a word) ! i = bs ! i"
  proof (rule bit_eqI)
    fix j
    assume "possible_bit TYPE(8 word) j"
    then have j: "j < 8" by simp
    then have "(8 * i + j) div 8 = i" "(8 * i + j) mod 8 = j" by auto
    moreover have "8 * i + j < LENGTH('a)" using i j assms by linarith
    ultimately show "bit (word_le (length bs) (le_word bs :: 'a word) ! i) j = bit (bs ! i) j"
      using i j by (simp add: word_le_def bit_ucast_iff bit_drop_bit_eq bit_le_word)
  qed
qed

lemma read_exact_reads [reads_intros]: "reads (read_exact n) (\<lambda>v c. c = v \<and> length v = n)"
proof -
  have "read_exact n (at pre xs) = Some (v, d) \<longleftrightarrow> n \<le> length xs \<and> v = take n xs \<and> d = at (pre @ v) (drop n xs)" for pre xs v d
    by (auto simp: read_exact_def at_def Let_def)
  then show ?thesis unfolding reads_def
    by (auto simp: append_eq_conv_conj) (metis append_take_drop_id length_take min.absorb2)
qed

lemma read_u8_reads [reads_intros]: "reads read_u8 (written valid write_u8)"
  unfolding read_u8_def [abs_def]
  by (rule reads_cong, (rule reads_basic reads_intros)+)
    (auto simp: written_def write_u8_def emits_simps length_Suc_conv)

lemma read_word_reads:
  assumes "8 * k = LENGTH('a)"
  shows "reads (\<lambda>d. do { (bs, d) \<leftarrow> read_exact k d; Some (le_word bs, d) })
    (\<lambda>(v :: 'a::len word) c. emits (write_raw (word_le k v)) c)"
  by (rule reads_cong, (rule reads_basic reads_intros)+)
    (use assms in \<open>auto simp: emits_simps le_word_word_le dest: word_le_le_word\<close>)

lemma read_u32_reads [reads_intros]: "reads read_u32 (written valid write_u32)"
  unfolding read_u32_def [abs_def] written_def write_u32_def
  by (rule reads_cong, rule read_word_reads) simp_all

lemma read_u64_reads [reads_intros]: "reads read_u64 (written valid write_u64)"
  unfolding read_u64_def [abs_def] written_def write_u64_def
  by (rule reads_cong, rule read_word_reads) simp_all

lemma read_i64_reads [reads_intros]: "reads read_i64 (written valid write_i64)"
  unfolding read_i64_def [abs_def] written_def write_i64_def
  by (rule reads_cong, rule read_word_reads) simp_all

lemma write_u8_emits [emits_simps]: "emits (write_u8 v) c \<longleftrightarrow> c = [v]"
  by (simp add: write_u8_def emits_simps)

lemma read_bool_reads [reads_intros]: "reads read_bool (written valid write_bool)"
  unfolding read_bool_def [abs_def]
  by (rule reads_cong, (rule reads_basic reads_intros)+)
    (auto simp: written_def write_bool_def emits_simps split: if_splits intro: exI [of _ 0])

lemma u32_try_from_le: "n \<le> 4294967295 \<Longrightarrow> u32_try_from n = Some (word_of_nat n)"
  by (simp add: u32_try_from_def)

lemma unat_word_of_nat_u32: "n \<le> 4294967295 \<Longrightarrow> unat (word_of_nat n :: u32) = n"
  by (simp add: unat_of_nat)

lemma write_count_emits:
  "emits (write_count n) c \<longleftrightarrow> n \<le> max_collection_entries \<and> emits (write_u32 (word_of_nat n)) c"
  by (simp add: write_count_def write_fail_emits u32_try_from_le max_collection_entries_def)

lemma read_count_reads [reads_intros]: "reads read_count (written valid write_count)"
  unfolding read_count_def [abs_def]
proof (rule reads_cong, (rule reads_basic reads_intros)+)
  show "(\<exists>x a b. c = a @ b \<and> written valid write_u32 x a \<and>
      (if unat x \<le> max_collection_entries then v = unat x \<and> b = [] else False)) \<longleftrightarrow> written valid write_count v c" for v c
    by (auto simp: written_def write_count_emits max_collection_entries_def unat_word_of_nat_u32
        intro!: exI [of _ "word_of_nat v"])
qed

lemma write_bytes_with_limit_emits:
  assumes "l \<le> max_record_bytes"
  shows "emits (write_bytes_with_limit l bs) c \<longleftrightarrow>
     length bs \<le> l \<and> (\<exists>a. emits (write_u32 (word_of_nat (length bs))) a \<and> c = a @ bs)"
  using assms by (auto simp: write_bytes_with_limit_def write_fail_emits emits_all uniform_intros write_raw_emits
      u32_try_from_le max_record_bytes_def)

lemma read_bytes_with_limit_reads [reads_intros]:
  assumes "l \<le> max_record_bytes"
  shows "reads (read_bytes_with_limit l) (written valid (write_bytes_with_limit l))"
  unfolding read_bytes_with_limit_def [abs_def]
proof (rule reads_cong, (rule reads_basic reads_intros)+)
  show "(\<exists>x a b. c = a @ b \<and> written valid write_u32 x a \<and>
      (if l < unat x then False else b = v \<and> length v = unat x)) \<longleftrightarrow> written valid (write_bytes_with_limit l) v c" for v c
    using assms by (auto simp: written_def write_bytes_with_limit_emits max_record_bytes_def unat_word_of_nat_u32
        intro!: exI [of _ "word_of_nat (length v)"])
qed

lemma field_limits: "max_field_bytes \<le> max_record_bytes" "max_record_bytes \<le> max_record_bytes"
  by (simp_all add: max_field_bytes_def max_record_bytes_def)

lemma read_bytes_reads [reads_intros]: "reads read_bytes (written valid write_bytes)"
  unfolding read_bytes_def write_bytes_def by (rule reads_intros field_limits)+

lemma read_string_reads [reads_intros]: "reads read_string (written str_ok write_string)"
  unfolding read_string_def [abs_def]
  by (rule reads_cong, (rule reads_basic reads_intros)+)
    (auto simp: written_def write_string_def string_from_utf8_iff)

lemma read_record_string_reads [reads_intros]:
  "reads read_record_string (written str_ok write_record_string)"
  unfolding read_record_string_def [abs_def]
  by (rule reads_cong, (rule reads_basic reads_intros field_limits)+)
    (auto simp: written_def write_record_string_def string_from_utf8_iff)

text \<open>Optional values and collections.\<close>

definition opt_ok :: "('a \<Rightarrow> bool) \<Rightarrow> 'a option \<Rightarrow> bool" where
  "opt_ok P v = (case v of None \<Rightarrow> True | Some x \<Rightarrow> P x)"

lemma read_option_reads [reads_intros]:
  assumes "reads r (written P w)" and u: "\<And>x. uniform (w x)"
  shows "reads (read_option r) (written (opt_ok P) (write_option w))"
  unfolding read_option_def [abs_def]
proof (rule reads_cong, (rule reads_basic reads_intros assms(1))+)
  show "(\<exists>x a b. c = a @ b \<and> written valid write_u8 x a \<and>
       (if x = 0 then v = None \<and> b = []
        else if x = 1 then \<exists>y a' b'. b = a' @ b' \<and> written P w y a' \<and> v = Some y \<and> b' = [] else False))
     \<longleftrightarrow> written (opt_ok P) (write_option w) v c" for v c
  proof (cases v)
    case None
    then show ?thesis
      by (auto simp: written_def write_option_def opt_ok_def write_u8_emits split: if_splits intro!: exI [of _ 0])
  next
    case (Some y)
    then show ?thesis
      by (auto simp: written_def write_option_def opt_ok_def write_u8_emits emits_all uniform_intros u
          split: if_splits intro!: exI [of _ 1])
  qed
qed

fun many :: "('a \<Rightarrow> bytes \<Rightarrow> bool) \<Rightarrow> 'a list \<Rightarrow> bytes \<Rightarrow> bool" where
  "many W [] c = (c = [])"
| "many W (v # vs) c = (\<exists>a b. c = a @ b \<and> W v a \<and> many W vs b)"

lemma read_times_reads:
  assumes "reads r W"
  shows "reads (read_times n r) (\<lambda>vs c. length vs = n \<and> many W vs c)"
proof (induction n)
  case 0
  have "read_times 0 r = (\<lambda>d. Some ([], d))" by (simp add: fun_eq_iff)
  then show ?case by (simp add: reads_cong [OF reads_return]) (auto intro: reads_cong [OF reads_return])
next
  case (Suc n)
  have "read_times (Suc n) r =
    (\<lambda>d. Option.bind (r d) (\<lambda>(v, d). Option.bind (read_times n r d) (\<lambda>(vs, d). Some (v # vs, d))))"
    by (simp add: fun_eq_iff)
  moreover have "reads \<dots> (\<lambda>vs c. length vs = Suc n \<and> many W vs c)"
    by (rule reads_cong, (rule reads_basic Suc assms)+) (auto simp: length_Suc_conv, blast+)
  ultimately show ?case by simp
qed

lemma many_written:
  assumes "\<And>x. uniform (w x)"
  shows "many (written P w) vs c \<longleftrightarrow> list_all P vs \<and> emits (write_all (map w vs)) c"
  by (induction vs arbitrary: c)
    (auto simp: written_def emits_all assms uniform_intros)

lemma read_list_reads [reads_intros]:
  assumes "reads r (written P w)" and u: "\<And>x. uniform (w x)"
  shows "reads (read_list r) (written (list_all P) (write_list w))"
  unfolding read_list_def [abs_def]
  by (rule reads_cong, (rule reads_basic reads_intros read_times_reads assms(1))+)
    (auto simp: written_def many_written u write_list_def emits_all uniform_intros)

lemma read_strings_reads [reads_intros]: "reads read_strings (written (list_all str_ok) write_strings)"
  unfolding read_strings_def write_strings_def by (rule reads_intros | rule uniform_intros)+

lemma read_optional_reads [reads_intros]:
  "reads read_optional_bytes (written (opt_ok valid) write_optional_bytes)"
  "reads read_optional_string (written (opt_ok str_ok) write_optional_string)"
  "reads read_optional_record_string (written (opt_ok str_ok) write_optional_record_string)"
  "reads read_optional_u64 (written (opt_ok valid) write_optional_u64)"
  unfolding read_optional_bytes_def read_optional_string_def read_optional_record_string_def
    read_optional_u64_def write_optional_bytes_def write_optional_string_def
    write_optional_record_string_def write_optional_u64_def
  by (rule reads_intros uniform_intros)+

lemma opt_ok_valid [simp]: "opt_ok valid v"
  by (simp add: opt_ok_def split: option.split)

text \<open>A \<open>match\<close> on the byte read, with the arms \<open>0\<close>, \<open>1\<close> and so on, and \<open>None\<close> for all others.\<close>

definition read_tagged :: "'a reader list \<Rightarrow> 'a reader" where
  "read_tagged arms d = do {
     (tag, d) \<leftarrow> read_u8 d;
     if unat tag < length arms then (arms ! unat tag) d else None }"

fun tagged :: "u8 \<Rightarrow> ('a \<Rightarrow> bytes \<Rightarrow> bool) list \<Rightarrow> 'a \<Rightarrow> bytes \<Rightarrow> bool" where
  "tagged tag [] v c = False"
| "tagged tag (W # Ws) v c = ((\<exists>b. c = tag # b \<and> W v b) \<or> tagged (tag + 1) Ws v c)"

lemma tagged_nth:
  "tagged tag Ws v c \<longleftrightarrow> (\<exists>i b. i < length Ws \<and> c = (tag + word_of_nat i) # b \<and> (Ws ! i) v b)"
proof (induction Ws arbitrary: tag)
  case Nil
  show ?case by simp
next
  case (Cons W Ws)
  have "(\<exists>i b. i < length (W # Ws) \<and> c = (tag + word_of_nat i) # b \<and> ((W # Ws) ! i) v b) \<longleftrightarrow>
    (\<exists>b. c = tag # b \<and> W v b) \<or> (\<exists>i b. i < length Ws \<and> c = (tag + 1 + word_of_nat i) # b \<and> (Ws ! i) v b)"
    (is "?l \<longleftrightarrow> ?r")
  proof
    assume ?l
    then obtain i b where "i < length (W # Ws)" "c = (tag + word_of_nat i) # b" "((W # Ws) ! i) v b" by blast
    then show ?r by (cases i) (auto simp: add.assoc)
  next
    assume ?r
    then show ?l
    proof
      assume "\<exists>b. c = tag # b \<and> W v b"
      then show ?l by (auto intro!: exI [of _ "0 :: nat"])
    next
      assume "\<exists>i b. i < length Ws \<and> c = (tag + 1 + word_of_nat i) # b \<and> (Ws ! i) v b"
      then obtain i b where "i < length Ws" "c = (tag + 1 + word_of_nat i) # b" "(Ws ! i) v b" by blast
      then show ?l by (auto simp: add.assoc intro!: exI [of _ "Suc i"])
    qed
  qed
  then show ?case by (simp add: Cons.IH)
qed

lemma reads_tagged:
  assumes "list_all2 reads arms Ws" and "length arms \<le> 256"
  shows "reads (read_tagged arms) (tagged 0 Ws)"
proof -
  have len: "length arms = length Ws" using assms(1) by (rule list_all2_lengthD)
  have "reads (\<lambda>d. if unat tag < length arms then (arms ! unat tag) d else None)
      (\<lambda>v c. if unat tag < length Ws then (Ws ! unat tag) v c else False)" for tag :: u8
    by (cases "unat tag < length Ws") (simp_all add: reads_fail len list_all2_nthD [OF assms(1)])
  from reads_bind [OF read_u8_reads this]
  have r: "reads (read_tagged arms) (\<lambda>v c. \<exists>tag a b. c = a @ b \<and> written valid write_u8 tag a \<and>
      (if unat tag < length Ws then (Ws ! unat tag) v b else False))"
    unfolding read_tagged_def [abs_def] .
  show ?thesis
  proof (rule reads_cong [OF r])
    fix v c
    have "(\<exists>tag b. c = tag # b \<and> unat tag < length Ws \<and> (Ws ! unat tag) v b) \<longleftrightarrow>
      (\<exists>i b. i < length Ws \<and> c = word_of_nat i # b \<and> (Ws ! i) v b)" (is "?l \<longleftrightarrow> ?r")
    proof
      assume ?l
      then show ?r by (auto intro!: exI [of _ "unat (hd c)"])
    next
      assume ?r
      then obtain i b where i: "i < length Ws" "c = word_of_nat i # b" "(Ws ! i) v b" by blast
      then have "unat (word_of_nat i :: u8) = i" using assms(2) len by (simp add: unat_of_nat)
      with i show ?l by (auto intro!: exI [of _ "word_of_nat i"])
    qed
    then show "(\<exists>tag a b. c = a @ b \<and> written valid write_u8 tag a \<and>
      (if unat tag < length Ws then (Ws ! unat tag) v b else False)) \<longleftrightarrow> tagged 0 Ws v c"
      by (auto simp: tagged_nth written_def write_u8_emits split: if_splits)
  qed
qed

lemma reads_tagged_Nil: "list_all2 reads [] []"
  by simp

lemma reads_tagged_Cons: "reads r W \<Longrightarrow> list_all2 reads rs Ws \<Longrightarrow> list_all2 reads (r # rs) (W # Ws)"
  by simp

lemmas reads_match = reads_tagged reads_tagged_Cons reads_tagged_Nil

section \<open>Sequences\<close>

text \<open>
  Both sides of a format, the reads of a decoder and the writes of an encoder, are sequences.  With
  the rules below the simplifier brings the two into the same form.
\<close>

definition cat :: "(bytes \<Rightarrow> bool) \<Rightarrow> (bytes \<Rightarrow> bool) \<Rightarrow> bytes \<Rightarrow> bool" where
  "cat A B c \<longleftrightarrow> (\<exists>a b. c = a @ b \<and> A a \<and> B b)"

lemma reads_then:
  assumes "reads r W" and "\<And>x. reads (f x) (V x)"
  shows "reads (\<lambda>d. Option.bind (r d) (\<lambda>(x, d). f x d)) (\<lambda>v c. \<exists>x. cat (W x) (V x v) c)"
  by (rule reads_cong, rule reads_bind [OF assms]) (simp add: cat_def)

lemma reads_guard: "reads r W \<Longrightarrow> reads (\<lambda>d. if b then r d else None) (\<lambda>v c. b \<and> W v c)"
  by (cases b) (simp_all add: reads_fail)

lemma reads_reject: "reads r W \<Longrightarrow> reads (\<lambda>d. if b then None else r d) (\<lambda>v c. \<not> b \<and> W v c)"
  by (cases b) (simp_all add: reads_fail)

lemmas reads_rules = reads_return reads_fail reads_then reads_guard reads_reject reads_if reads_opt reads_match

lemma tagged_cat: "tagged tag (W # Ws) v c \<longleftrightarrow> cat (emits (write_u8 tag)) (W v) c \<or> tagged (tag + 1) Ws v c"
  by (simp add: cat_def write_u8_emits)

lemma emits_cat:
  "emits (write_all []) = (\<lambda>c. c = [])"
  "uniform w \<Longrightarrow> uniform (write_all ws) \<Longrightarrow> emits (write_all (w # ws)) = cat (emits w) (emits (write_all ws))"
  by (rule ext, simp add: cat_def emits_all)+

lemma written_fun: "written P w v = (\<lambda>c. P v \<and> emits (w v) c)"
  by (simp add: written_def fun_eq_iff)

lemma cat_Nil: "cat (\<lambda>c. c = []) B = B" "cat A (\<lambda>c. c = []) = A"
  by (simp_all add: cat_def fun_eq_iff)

lemma cat_conj:
  "cat A (\<lambda>c. P \<and> B c) = (\<lambda>c. P \<and> cat A B c)" "cat A (\<lambda>c. B c \<and> P) = (\<lambda>c. P \<and> cat A B c)"
  "cat (\<lambda>c. P \<and> A c) B = (\<lambda>c. P \<and> cat A B c)" "cat (\<lambda>c. A c \<and> P) B = (\<lambda>c. P \<and> cat A B c)"
  by (auto simp: cat_def fun_eq_iff)

lemma cat_ex: "cat A (\<lambda>c. \<exists>x. B x c) = (\<lambda>c. \<exists>x. cat A (B x) c)" "cat (\<lambda>c. \<exists>x. B x c) A = (\<lambda>c. \<exists>x. cat (B x) A c)"
  by (auto simp: cat_def fun_eq_iff)

lemma cat_disj:
  "cat A (\<lambda>c. B c \<or> B' c) = (\<lambda>c. cat A B c \<or> cat A B' c)"
  "cat (\<lambda>c. A c \<or> A' c) B = (\<lambda>c. cat A B c \<or> cat A' B c)"
  by (auto simp: cat_def fun_eq_iff)

lemma cat_False: "cat A (\<lambda>c. False) = (\<lambda>c. False)" "cat (\<lambda>c. False) B = (\<lambda>c. False)"
  by (simp_all add: cat_def fun_eq_iff)

lemma cat_assoc: "cat (cat A B) C = cat A (cat B C)"
  unfolding cat_def by (rule ext) (metis append.assoc)

declare tagged.simps [simp del]

lemmas cat_simps = cat_Nil cat_conj cat_ex cat_disj cat_False cat_assoc tagged_cat tagged.simps(1) emits_cat written_fun

section \<open>Whole records\<close>

text \<open>Reading a record from the start and \<open>decoder.finish()?\<close>.\<close>

definition decode_whole :: "'a reader \<Rightarrow> bytes \<Rightarrow> 'a option" where
  "decode_whole r bs = do {
     (v, d) \<leftarrow> r (decoder_new bs);
     _ \<leftarrow> decoder_finish d;
     Some v }"

lemma decode_whole_reads: "reads r W \<Longrightarrow> decode_whole r bs = Some v \<longleftrightarrow> W v bs"
proof -
  assume r: "reads r W"
  have new: "decoder_new bs = at [] bs" by (simp add: decoder_new_def at_def)
  have fin: "decoder_finish (at pre rest) = Some u \<longleftrightarrow> rest = []" for pre rest u
    by (simp add: decoder_finish_def at_def)
  show ?thesis
    unfolding decode_whole_def new by (auto simp: bind_simps reads_iff [OF r] fin intro!: exI [of _ "at bs []"])
qed

lemma decode_whole_iff:
  assumes "reads r (written P w)" and "uniform (w v)"
  shows "decode_whole r bs = Some v \<longleftrightarrow> P v \<and> w v [] = Inr bs"
  using assms(2) by (auto simp: decode_whole_reads [OF assms(1)] written_def uniform_run)

text \<open>
  The trait \<open>ItemCodec\<close>: what encodes and decodes the items of one type.  Its users rely on the law
  that decoding inverts encoding on the valid items and accepts nothing else.
\<close>

locale item_codec =
  fixes encode :: "'a \<Rightarrow> io_error + bytes" and decode :: "bytes \<Rightarrow> 'a option" and ok :: "'a \<Rightarrow> bool"
  assumes decode_iff: "decode bs = Some v \<longleftrightarrow> ok v \<and> encode v = Inr bs"
begin

lemma decode_encode: "ok v \<Longrightarrow> encode v = Inr bs \<Longrightarrow> decode bs = Some v"
  by (simp add: decode_iff)

lemma decode_ok: "decode bs = Some v \<Longrightarrow> ok v"
  by (simp add: decode_iff)

lemma encode_decode: "decode bs = Some v \<Longrightarrow> encode v = Inr bs"
  by (simp add: decode_iff)

lemma encode_inject: "ok v \<Longrightarrow> ok v' \<Longrightarrow> encode v = Inr bs \<Longrightarrow> encode v' = Inr bs \<Longrightarrow> v = v'"
  by (metis decode_encode option.inject)

lemma decode_inject: "decode bs = Some v \<Longrightarrow> decode bs' = Some v \<Longrightarrow> bs = bs'"
  by (simp add: decode_iff)

end

end
