(* ===== verification/Pack_Records.thy ===== *)
theory Pack_Records
  imports Byte_Codec
begin

text \<open>
  The records that the persistent cache stores (the \<open>Dto\<close> types of \<open>pack_file.rs\<close>) and their byte
  formats.  Every format satisfies the law of \<open>item_codec\<close>: a byte sequence decodes to a record exactly
  if the record is valid and is encoded as that sequence.
\<close>

section \<open>Module dependencies\<close>

record source_range_dto =
  srd_start :: u32
  srd_end :: u32

record module_dependency_dto =
  mdd_request :: string
  mdd_user_request :: string
  mdd_source_order :: "u64 option"
  mdd_range :: "source_range_dto option"
  mdd_weak :: bool

definition encode_source_range :: "source_range_dto \<Rightarrow> writer" where
  "encode_source_range r = write_all [write_u32 (srd_start r), write_u32 (srd_end r)]"

definition decode_source_range :: "source_range_dto reader" where
  "decode_source_range d = do {
     (start, d) \<leftarrow> read_u32 d;
     (until, d) \<leftarrow> read_u32 d;
     Some (\<lparr>srd_start = start, srd_end = until\<rparr>, d) }"

definition encode_optional_source_range :: "source_range_dto option \<Rightarrow> writer" where
  "encode_optional_source_range = write_option encode_source_range"

definition decode_optional_source_range :: "source_range_dto option reader" where
  "decode_optional_source_range = read_tagged
     [\<lambda>d. Some (None, d),
      \<lambda>d. do { (r, d) \<leftarrow> decode_source_range d; Some (Some r, d) }]"

definition encode_module_dependency :: "module_dependency_dto \<Rightarrow> writer" where
  "encode_module_dependency dependency = write_all
     [write_string (mdd_request dependency),
      write_string (mdd_user_request dependency),
      write_optional_u64 (mdd_source_order dependency),
      encode_optional_source_range (mdd_range dependency),
      write_bool (mdd_weak dependency)]"

definition decode_module_dependency :: "module_dependency_dto reader" where
  "decode_module_dependency d = do {
     (request, d) \<leftarrow> read_string d;
     (user_request, d) \<leftarrow> read_string d;
     (source_order, d) \<leftarrow> read_optional_u64 d;
     (r, d) \<leftarrow> decode_optional_source_range d;
     (weak, d) \<leftarrow> read_bool d;
     Some (\<lparr>mdd_request = request, mdd_user_request = user_request, mdd_source_order = source_order,
            mdd_range = r, mdd_weak = weak\<rparr>, d) }"

definition module_dependency_ok :: "module_dependency_dto \<Rightarrow> bool" where
  "module_dependency_ok d \<longleftrightarrow> str_ok (mdd_request d) \<and> str_ok (mdd_user_request d)"

lemma encode_source_range_uniform [uniform_intros]: "uniform (encode_source_range r)"
  unfolding encode_source_range_def by (intro uniform_intros)

lemma decode_source_range_reads [reads_intros]: "reads decode_source_range (written valid encode_source_range)"
  unfolding decode_source_range_def [abs_def]
  by (rule reads_cong, (rule reads_rules reads_intros)+, case_tac v)
    (simp add: encode_source_range_def cat_simps uniform_intros)

lemma encode_optional_source_range_uniform [uniform_intros]: "uniform (encode_optional_source_range r)"
  unfolding encode_optional_source_range_def by (intro uniform_intros)

lemma decode_optional_source_range_reads [reads_intros]:
  "reads decode_optional_source_range (written valid encode_optional_source_range)"
  unfolding decode_optional_source_range_def
  by (rule reads_cong, (rule reads_rules reads_intros)+, simp, case_tac v)
    (auto simp: encode_optional_source_range_def write_option_def cat_simps uniform_intros)

lemma encode_module_dependency_uniform [uniform_intros]: "uniform (encode_module_dependency d)"
  unfolding encode_module_dependency_def by (intro uniform_intros)

lemma decode_module_dependency_reads [reads_intros]:
  "reads decode_module_dependency (written module_dependency_ok encode_module_dependency)"
  unfolding decode_module_dependency_def [abs_def]
  by (rule reads_cong, (rule reads_rules reads_intros)+, case_tac v)
    (auto simp: encode_module_dependency_def module_dependency_ok_def cat_simps uniform_intros)

section \<open>Dependencies\<close>

datatype dependency_dto =
    EntryDto module_dependency_dto
  | HarmonyImportSideEffectDto module_dependency_dto "string option"
  | HarmonyImportSpecifierDto module_dependency_dto "string list" string source_range_dto bool
  | HarmonyExportHeaderDto "source_range_dto option" source_range_dto
  | HarmonyExportSpecifierDto string string
  | HarmonyExportExpressionDto source_range_dto source_range_dto "string option"
  | HarmonyExportImportedSpecifierDto module_dependency_dto "string list" "string option" bool
  | NullDto
  | ConstDto string source_range_dto
  | ImportDto module_dependency_dto
  | LoaderDto module_dependency_dto
  | LoaderImportDto module_dependency_dto

fun encode_dependency :: "dependency_dto \<Rightarrow> writer" where
  "encode_dependency (EntryDto m) = write_all [write_u8 0, encode_module_dependency m]"
| "encode_dependency (HarmonyImportSideEffectDto m import_var) =
     write_all [write_u8 1, encode_module_dependency m, write_optional_string import_var]"
| "encode_dependency (HarmonyImportSpecifierDto m ids name usage_range shorthand) =
     write_all [write_u8 2, encode_module_dependency m, write_strings ids, write_string name,
       encode_source_range usage_range, write_bool shorthand]"
| "encode_dependency (HarmonyExportHeaderDto declaration_range statement_range) =
     write_all [write_u8 3, encode_optional_source_range declaration_range, encode_source_range statement_range]"
| "encode_dependency (HarmonyExportSpecifierDto i name) = write_all [write_u8 4, write_string i, write_string name]"
| "encode_dependency (HarmonyExportExpressionDto r statement_range declaration_id) =
     write_all [write_u8 5, encode_source_range r, encode_source_range statement_range,
       write_optional_string declaration_id]"
| "encode_dependency (HarmonyExportImportedSpecifierDto m ids name is_star) =
     write_all [write_u8 6, encode_module_dependency m, write_strings ids, write_optional_string name, write_bool is_star]"
| "encode_dependency NullDto = write_u8 7"
| "encode_dependency (ConstDto expression r) = write_all [write_u8 8, write_string expression, encode_source_range r]"
| "encode_dependency (ImportDto m) = write_all [write_u8 9, encode_module_dependency m]"
| "encode_dependency (LoaderDto m) = write_all [write_u8 10, encode_module_dependency m]"
| "encode_dependency (LoaderImportDto m) = write_all [write_u8 11, encode_module_dependency m]"

definition decode_dependency :: "dependency_dto reader" where
  "decode_dependency = read_tagged
    [\<lambda>d. do { (m, d) \<leftarrow> decode_module_dependency d; Some (EntryDto m, d) },
     \<lambda>d. do {
       (m, d) \<leftarrow> decode_module_dependency d;
       (import_var, d) \<leftarrow> read_optional_string d;
       Some (HarmonyImportSideEffectDto m import_var, d) },
     \<lambda>d. do {
       (m, d) \<leftarrow> decode_module_dependency d;
       (ids, d) \<leftarrow> read_strings d;
       (name, d) \<leftarrow> read_string d;
       (usage_range, d) \<leftarrow> decode_source_range d;
       (shorthand, d) \<leftarrow> read_bool d;
       Some (HarmonyImportSpecifierDto m ids name usage_range shorthand, d) },
     \<lambda>d. do {
       (declaration_range, d) \<leftarrow> decode_optional_source_range d;
       (statement_range, d) \<leftarrow> decode_source_range d;
       Some (HarmonyExportHeaderDto declaration_range statement_range, d) },
     \<lambda>d. do {
       (i, d) \<leftarrow> read_string d;
       (name, d) \<leftarrow> read_string d;
       Some (HarmonyExportSpecifierDto i name, d) },
     \<lambda>d. do {
       (r, d) \<leftarrow> decode_source_range d;
       (statement_range, d) \<leftarrow> decode_source_range d;
       (declaration_id, d) \<leftarrow> read_optional_string d;
       Some (HarmonyExportExpressionDto r statement_range declaration_id, d) },
     \<lambda>d. do {
       (m, d) \<leftarrow> decode_module_dependency d;
       (ids, d) \<leftarrow> read_strings d;
       (name, d) \<leftarrow> read_optional_string d;
       (is_star, d) \<leftarrow> read_bool d;
       Some (HarmonyExportImportedSpecifierDto m ids name is_star, d) },
     \<lambda>d. Some (NullDto, d),
     \<lambda>d. do {
       (expression, d) \<leftarrow> read_string d;
       (r, d) \<leftarrow> decode_source_range d;
       Some (ConstDto expression r, d) },
     \<lambda>d. do { (m, d) \<leftarrow> decode_module_dependency d; Some (ImportDto m, d) },
     \<lambda>d. do { (m, d) \<leftarrow> decode_module_dependency d; Some (LoaderDto m, d) },
     \<lambda>d. do { (m, d) \<leftarrow> decode_module_dependency d; Some (LoaderImportDto m, d) }]"

fun dependency_ok :: "dependency_dto \<Rightarrow> bool" where
  "dependency_ok (EntryDto m) = module_dependency_ok m"
| "dependency_ok (HarmonyImportSideEffectDto m v) = (module_dependency_ok m \<and> opt_ok str_ok v)"
| "dependency_ok (HarmonyImportSpecifierDto m ids name _ _) =
     (module_dependency_ok m \<and> list_all str_ok ids \<and> str_ok name)"
| "dependency_ok (HarmonyExportHeaderDto _ _) = True"
| "dependency_ok (HarmonyExportSpecifierDto i name) = (str_ok i \<and> str_ok name)"
| "dependency_ok (HarmonyExportExpressionDto _ _ i) = opt_ok str_ok i"
| "dependency_ok (HarmonyExportImportedSpecifierDto m ids name _) =
     (module_dependency_ok m \<and> list_all str_ok ids \<and> opt_ok str_ok name)"
| "dependency_ok NullDto = True"
| "dependency_ok (ConstDto e _) = str_ok e"
| "dependency_ok (ImportDto m) = module_dependency_ok m"
| "dependency_ok (LoaderDto m) = module_dependency_ok m"
| "dependency_ok (LoaderImportDto m) = module_dependency_ok m"

lemma encode_dependency_uniform [uniform_intros]: "uniform (encode_dependency d)"
  by (cases d) (simp_all add: uniform_intros del: write_all.simps)

lemma decode_dependency_reads [reads_intros]:
  "reads decode_dependency (written dependency_ok encode_dependency)"
  unfolding decode_dependency_def
  by (rule reads_cong, (rule reads_rules reads_intros)+, simp, case_tac v)
    (auto simp: cat_simps uniform_intros)

text \<open>Vectors of dependencies, and blocks of them.\<close>

definition encode_dependencies :: "dependency_dto list \<Rightarrow> writer" where
  "encode_dependencies = write_list encode_dependency"

definition decode_dependencies :: "dependency_dto list reader" where
  "decode_dependencies = read_list decode_dependency"

lemma encode_dependencies_uniform [uniform_intros]: "uniform (encode_dependencies ds)"
  unfolding encode_dependencies_def by (intro uniform_intros)

lemma decode_dependencies_reads [reads_intros]:
  "reads decode_dependencies (written (list_all dependency_ok) encode_dependencies)"
  unfolding decode_dependencies_def encode_dependencies_def by (rule reads_intros uniform_intros)+

section \<open>Parsed modules\<close>

datatype module_type_dto =
  JavaScriptAutoDto | JsonDto | AssetDto | AssetResourceDto | AssetInlineDto | AssetSourceDto

fun module_type_tag :: "module_type_dto \<Rightarrow> u8" where
  "module_type_tag JavaScriptAutoDto = 0"
| "module_type_tag JsonDto = 1"
| "module_type_tag AssetDto = 2"
| "module_type_tag AssetResourceDto = 3"
| "module_type_tag AssetInlineDto = 4"
| "module_type_tag AssetSourceDto = 5"

datatype parsed_module_data_dto = JavaScriptDataDto | JsonDataDto string | AssetDataDto module_type_dto

record parsed_module_dto =
  pmd_dependencies :: "dependency_dto list"
  pmd_blocks :: "dependency_dto list list"
  pmd_presentational :: "dependency_dto list"
  pmd_identifiers :: "string list"
  pmd_data :: parsed_module_data_dto
  pmd_side_effect_free :: "bool option"
  pmd_uses_direct_eval :: bool

fun encode_parsed_data :: "parsed_module_data_dto \<Rightarrow> writer" where
  "encode_parsed_data JavaScriptDataDto = write_u8 0"
| "encode_parsed_data (JsonDataDto value) = write_all [write_u8 1, write_record_string value]"
| "encode_parsed_data (AssetDataDto module_type) = write_all [write_u8 2, write_u8 (module_type_tag module_type)]"

definition encode_parsed_module :: "parsed_module_dto \<Rightarrow> writer" where
  "encode_parsed_module parsed = write_all
     [encode_dependencies (pmd_dependencies parsed),
      write_list encode_dependencies (pmd_blocks parsed),
      encode_dependencies (pmd_presentational parsed),
      write_list write_record_string (pmd_identifiers parsed),
      encode_parsed_data (pmd_data parsed)]"

definition decode_asset_type :: "module_type_dto reader" where
  "decode_asset_type = read_tagged
     [\<lambda>d. None, \<lambda>d. None, \<lambda>d. Some (AssetDto, d), \<lambda>d. Some (AssetResourceDto, d),
      \<lambda>d. Some (AssetInlineDto, d), \<lambda>d. Some (AssetSourceDto, d)]"

definition decode_parsed_data :: "parsed_module_data_dto reader" where
  "decode_parsed_data = read_tagged
    [\<lambda>d. Some (JavaScriptDataDto, d),
     \<lambda>d. do { (value, d) \<leftarrow> read_record_string d; Some (JsonDataDto value, d) },
     \<lambda>d. do { (module_type, d) \<leftarrow> decode_asset_type d; Some (AssetDataDto module_type, d) }]"

definition decode_parsed_module :: "parsed_module_dto reader" where
  "decode_parsed_module d = do {
     (dependencies, d) \<leftarrow> decode_dependencies d;
     (blocks, d) \<leftarrow> read_list decode_dependencies d;
     (presentational, d) \<leftarrow> decode_dependencies d;
     (identifiers, d) \<leftarrow> read_list read_record_string d;
     (data, d) \<leftarrow> decode_parsed_data d;
     Some (\<lparr>pmd_dependencies = dependencies, pmd_blocks = blocks, pmd_presentational = presentational,
            pmd_identifiers = identifiers, pmd_data = data, pmd_side_effect_free = None,
            pmd_uses_direct_eval = False\<rparr>, d) }"

text \<open>Only the types of assets are read back.\<close>

fun parsed_data_ok :: "parsed_module_data_dto \<Rightarrow> bool" where
  "parsed_data_ok JavaScriptDataDto = True"
| "parsed_data_ok (JsonDataDto value) = str_ok value"
| "parsed_data_ok (AssetDataDto module_type) = (module_type \<noteq> JavaScriptAutoDto \<and> module_type \<noteq> JsonDto)"

definition parsed_module_ok :: "parsed_module_dto \<Rightarrow> bool" where
  "parsed_module_ok p \<longleftrightarrow> list_all dependency_ok (pmd_dependencies p) \<and>
     list_all (list_all dependency_ok) (pmd_blocks p) \<and> list_all dependency_ok (pmd_presentational p) \<and>
     list_all str_ok (pmd_identifiers p) \<and> parsed_data_ok (pmd_data p)"

lemma encode_parsed_data_uniform [uniform_intros]: "uniform (encode_parsed_data p)"
  by (cases p) (simp_all add: uniform_intros del: write_all.simps)

lemma encode_parsed_module_uniform [uniform_intros]: "uniform (encode_parsed_module p)"
  unfolding encode_parsed_module_def by (intro uniform_intros)

lemma decode_asset_type_reads [reads_intros]:
  "reads decode_asset_type
     (written (\<lambda>t. t \<noteq> JavaScriptAutoDto \<and> t \<noteq> JsonDto) (\<lambda>t. write_u8 (module_type_tag t)))"
  unfolding decode_asset_type_def
  by (rule reads_cong, (rule reads_rules reads_intros)+, simp, case_tac v) (auto simp: cat_simps)

lemma decode_parsed_data_reads [reads_intros]:
  "reads decode_parsed_data (written parsed_data_ok encode_parsed_data)"
  unfolding decode_parsed_data_def
  by (rule reads_cong, (rule reads_rules reads_intros)+, simp, case_tac v) (auto simp: cat_simps uniform_intros)

definition parsed_read :: "parsed_module_dto \<Rightarrow> bool" where
  "parsed_read p \<longleftrightarrow> parsed_module_ok p \<and> pmd_side_effect_free p = None \<and> \<not> pmd_uses_direct_eval p"

lemma decode_parsed_module_reads [reads_intros]:
  "reads decode_parsed_module (written parsed_read encode_parsed_module)"
  unfolding decode_parsed_module_def [abs_def]
  by (rule reads_cong, (rule reads_rules reads_intros uniform_intros)+, case_tac v)
    (auto simp: encode_parsed_module_def parsed_read_def parsed_module_ok_def cat_simps uniform_intros)

section \<open>Snapshots\<close>

record timestamp_dto =
  ts_seconds :: i64
  ts_nanoseconds :: u32

datatype managed_item_state_dto = NodeModulesDto | GroupingFolderDto | PackageDto string string

datatype snapshot_entry_dto =
    FileDto bytes bool "timestamp_dto option" "u64 option"
  | ContextDto bytes bool "u64 option" "u64 option"
  | MissingExistenceDto bytes
  | ImmutablePathDto bytes
  | ManagedPathDto bytes bytes managed_item_state_dto

type_synonym snapshot_dto = "snapshot_entry_dto list"

definition write_optional_timestamp :: "timestamp_dto option \<Rightarrow> writer" where
  "write_optional_timestamp value =
     (case value of
        Some ts \<Rightarrow>
          if unat (ts_nanoseconds ts) < 1000000000
          then write_all [write_u8 1, write_i64 (ts_seconds ts), write_u32 (ts_nanoseconds ts)]
          else write_fail InvalidData ''PackFile timestamp nanoseconds are out of range''
      | None \<Rightarrow> write_u8 0)"

definition read_optional_timestamp :: "timestamp_dto option reader" where
  "read_optional_timestamp = read_tagged
    [\<lambda>d. Some (None, d),
     \<lambda>d. do {
       (seconds, d) \<leftarrow> read_i64 d;
       (nanoseconds, d) \<leftarrow> read_u32 d;
       if unat nanoseconds < 1000000000
       then Some (Some \<lparr>ts_seconds = seconds, ts_nanoseconds = nanoseconds\<rparr>, d) else None }]"

fun encode_managed_state :: "managed_item_state_dto \<Rightarrow> writer" where
  "encode_managed_state NodeModulesDto = write_u8 0"
| "encode_managed_state GroupingFolderDto = write_u8 1"
| "encode_managed_state (PackageDto name version) = write_all [write_u8 2, write_string name, write_string version]"

fun encode_snapshot_entry :: "snapshot_entry_dto \<Rightarrow> writer" where
  "encode_snapshot_entry (FileDto path present modified source_hash) =
     write_all [write_u8 0, write_bytes path, write_bool present, write_optional_timestamp modified,
       write_optional_u64 source_hash]"
| "encode_snapshot_entry (ContextDto path present timestamp_hash content_hash) =
     write_all [write_u8 1, write_bytes path, write_bool present, write_optional_u64 timestamp_hash,
       write_optional_u64 content_hash]"
| "encode_snapshot_entry (MissingExistenceDto path) = write_all [write_u8 2, write_bytes path]"
| "encode_snapshot_entry (ImmutablePathDto path) = write_all [write_u8 3, write_bytes path]"
| "encode_snapshot_entry (ManagedPathDto path root state) =
     write_all [write_u8 4, write_bytes path, write_bytes root, encode_managed_state state]"

definition encode_snapshot :: "snapshot_dto \<Rightarrow> writer" where
  "encode_snapshot = write_list encode_snapshot_entry"

definition decode_managed_state :: "managed_item_state_dto reader" where
  "decode_managed_state = read_tagged
    [\<lambda>d. Some (NodeModulesDto, d),
     \<lambda>d. Some (GroupingFolderDto, d),
     \<lambda>d. do { (name, d) \<leftarrow> read_string d; (version, d) \<leftarrow> read_string d; Some (PackageDto name version, d) }]"

definition decode_snapshot_entry :: "snapshot_entry_dto reader" where
  "decode_snapshot_entry = read_tagged
    [\<lambda>d. do {
       (path, d) \<leftarrow> read_bytes d;
       (present, d) \<leftarrow> read_bool d;
       (modified, d) \<leftarrow> read_optional_timestamp d;
       (source_hash, d) \<leftarrow> read_optional_u64 d;
       Some (FileDto path present modified source_hash, d) },
     \<lambda>d. do {
       (path, d) \<leftarrow> read_bytes d;
       (present, d) \<leftarrow> read_bool d;
       (timestamp_hash, d) \<leftarrow> read_optional_u64 d;
       (content_hash, d) \<leftarrow> read_optional_u64 d;
       Some (ContextDto path present timestamp_hash content_hash, d) },
     \<lambda>d. do { (path, d) \<leftarrow> read_bytes d; Some (MissingExistenceDto path, d) },
     \<lambda>d. do { (path, d) \<leftarrow> read_bytes d; Some (ImmutablePathDto path, d) },
     \<lambda>d. do {
       (path, d) \<leftarrow> read_bytes d;
       (root, d) \<leftarrow> read_bytes d;
       (state, d) \<leftarrow> decode_managed_state d;
       Some (ManagedPathDto path root state, d) }]"

definition decode_snapshot :: "snapshot_dto reader" where
  "decode_snapshot = read_list decode_snapshot_entry"

fun managed_state_ok :: "managed_item_state_dto \<Rightarrow> bool" where
  "managed_state_ok (PackageDto name version) = (str_ok name \<and> str_ok version)"
| "managed_state_ok _ = True"

fun snapshot_entry_ok :: "snapshot_entry_dto \<Rightarrow> bool" where
  "snapshot_entry_ok (ManagedPathDto _ _ state) = managed_state_ok state"
| "snapshot_entry_ok _ = True"

lemma write_optional_timestamp_uniform [uniform_intros]: "uniform (write_optional_timestamp v)"
  by (auto simp: write_optional_timestamp_def uniform_intros simp del: write_all.simps split: option.split)

lemma encode_managed_state_uniform [uniform_intros]: "uniform (encode_managed_state s)"
  by (cases s) (simp_all add: uniform_intros del: write_all.simps)

lemma encode_snapshot_entry_uniform [uniform_intros]: "uniform (encode_snapshot_entry e)"
  by (cases e) (simp_all add: uniform_intros del: write_all.simps)

lemma encode_snapshot_uniform [uniform_intros]: "uniform (encode_snapshot s)"
  unfolding encode_snapshot_def by (intro uniform_intros)

lemma emits_fail: "emits (write_fail k message) = (\<lambda>c. False)"
  by (simp add: fun_eq_iff write_fail_emits)

lemma read_optional_timestamp_reads [reads_intros]:
  "reads read_optional_timestamp (written valid write_optional_timestamp)"
  unfolding read_optional_timestamp_def
proof (rule reads_cong, (rule reads_rules reads_intros)+, simp, goal_cases)
  case (1 v c)
  show ?case
  proof (cases v)
    case None
    then show ?thesis by (auto simp: write_optional_timestamp_def cat_simps uniform_intros)
  next
    case (Some ts)
    then show ?thesis
      by (cases ts) (auto simp: write_optional_timestamp_def cat_simps emits_fail uniform_intros)
  qed
qed

lemma decode_managed_state_reads [reads_intros]:
  "reads decode_managed_state (written managed_state_ok encode_managed_state)"
  unfolding decode_managed_state_def
  by (rule reads_cong, (rule reads_rules reads_intros)+, simp, case_tac v) (auto simp: cat_simps uniform_intros)

lemma decode_snapshot_entry_reads [reads_intros]:
  "reads decode_snapshot_entry (written snapshot_entry_ok encode_snapshot_entry)"
  unfolding decode_snapshot_entry_def
  by (rule reads_cong, (rule reads_rules reads_intros)+, simp, case_tac v) (auto simp: cat_simps uniform_intros)

lemma decode_snapshot_reads [reads_intros]:
  "reads decode_snapshot (written (list_all snapshot_entry_ok) encode_snapshot)"
  unfolding decode_snapshot_def encode_snapshot_def by (rule reads_intros uniform_intros)+

end
