(* ===== verification/Path_Text.thy ===== *)
theory Path_Text
  imports Paths
begin

text \<open>
  \<open>Path::components\<close> on the bytes of a path, as Unix has it: the parts between slashes, without empty
  ones and without \<open>.\<close> except in front of a relative path.
\<close>

fun split_on :: "char \<Rightarrow> string \<Rightarrow> string list" where
  "split_on c [] = [[]]"
| "split_on c (x # xs) =
     (if x = c then [] # split_on c xs
      else (case split_on c xs of s # ss \<Rightarrow> (x # s) # ss | [] \<Rightarrow> [[x]]))"

definition part_component :: "string \<Rightarrow> component" where
  "part_component s = (if s = ''..'' then ParentDir else Normal s)"

definition path_parse :: "string \<Rightarrow> path" where
  "path_parse s =
     (let parts = split_on CHR ''/'' s
      in (if prefix ''/'' s then [RootDir] else if hd parts = ''.'' then [CurDir] else [])
         @ map part_component (filter (\<lambda>p. p \<noteq> '''' \<and> p \<noteq> ''.'') parts))"

text \<open>The names that can be the \<open>Normal\<close> component of a path.\<close>

definition proper_name :: "string \<Rightarrow> bool" where
  "proper_name s \<longleftrightarrow> s \<noteq> '''' \<and> CHR ''/'' \<notin> set s \<and> s \<noteq> ''.'' \<and> s \<noteq> ''..''"

definition name_path :: "path \<Rightarrow> bool" where
  "name_path p \<longleftrightarrow> p \<noteq> [] \<and> (\<forall>c \<in> set p. \<exists>s. c = Normal s \<and> proper_name s)"

lemma split_on_not_Nil [simp]: "split_on c s \<noteq> []"
  by (induction s) (auto split: list.splits)

lemma split_on_parts: "p \<in> set (split_on c s) \<Longrightarrow> c \<notin> set p"
proof (induction s arbitrary: p)
  case (Cons x xs)
  then show ?case by (cases "split_on c xs") (auto split: if_splits)
qed simp

lemma split_on_none: "c \<notin> set s \<Longrightarrow> split_on c s = [s]"
  by (induction s) auto

lemma split_on_append: "c \<notin> set s \<Longrightarrow> split_on c (s @ c # t) = s # split_on c t"
  by (induction s) auto

lemma parse_names:
  assumes "names \<noteq> []" and "\<forall>s \<in> set names. proper_name s"
  shows "split_on CHR ''/'' (path_string (map Normal names)) = names"
  using assms
proof (induction names rule: list_nonempty_induct)
  case (single s)
  then show ?case by (simp add: proper_name_def split_on_none)
next
  case (cons s names)
  then obtain n ns where n: "names = n # ns" by (cases names) auto
  have "CHR ''/'' \<notin> set s" using cons.prems by (simp add: proper_name_def)
  then have "split_on CHR ''/'' (s @ CHR ''/'' # path_string (map Normal names)) =
      s # split_on CHR ''/'' (path_string (map Normal names))" by (rule split_on_append)
  with cons n show ?case by simp
qed

lemma path_parse_string: "name_path p \<Longrightarrow> path_parse (path_string p) = p"
proof -
  assume p: "name_path p"
  define names where "names = map (\<lambda>c. case c of Normal s \<Rightarrow> s | _ \<Rightarrow> '''') p"
  have eq: "p = map Normal names"
    using p unfolding names_def map_map by (intro map_idI [symmetric]) (auto simp: name_path_def)
  have ok: "names \<noteq> []" "\<forall>s \<in> set names. proper_name s"
    using p unfolding eq name_path_def by auto
  from parse_names [OF this] have s: "split_on CHR ''/'' (path_string p) = names" by (simp add: eq)
  have hd: "proper_name (hd names)" using ok by simp
  have "\<not> prefix ''/'' (path_string p)"
  proof
    assume "prefix ''/'' (path_string p)"
    then obtain t where "path_string p = CHR ''/'' # t" by (auto simp: prefix_def)
    then have "hd (split_on CHR ''/'' (path_string p)) = ''''" by simp
    with s hd show False by (simp add: proper_name_def)
  qed
  moreover have "filter (\<lambda>s. s \<noteq> '''' \<and> s \<noteq> ''.'') names = names"
    using ok(2) by (auto simp: filter_id_conv proper_name_def)
  moreover have "map part_component names = map Normal names"
    using ok(2) by (auto simp: part_component_def proper_name_def)
  ultimately show ?thesis using hd by (simp add: path_parse_def s Let_def proper_name_def eq [symmetric])
qed

text \<open>\<open>is_safe_relative_path\<close> of \<open>pack_file.rs\<close>.\<close>

definition is_safe_relative_path :: "string \<Rightarrow> bool" where
  "is_safe_relative_path s \<longleftrightarrow>
     s \<noteq> '''' \<and> list_all (\<lambda>c. case c of Normal _ \<Rightarrow> True | _ \<Rightarrow> False) (path_parse s)"

lemma safe_path_string: "name_path p \<Longrightarrow> is_safe_relative_path (path_string p)"
proof -
  assume p: "name_path p"
  then have "path_string p \<noteq> ''''" by (cases p rule: path_string.cases) (auto simp: name_path_def proper_name_def)
  with p show ?thesis
    by (auto simp: is_safe_relative_path_def path_parse_string list_all_iff name_path_def split: component.splits)
qed

lemma safe_path_names: "is_safe_relative_path s \<Longrightarrow> \<forall>c \<in> set (path_parse s). \<exists>n. c = Normal n \<and> proper_name n"
proof
  fix c
  assume s: "is_safe_relative_path s" and c: "c \<in> set (path_parse s)"
  then obtain n where n: "c = Normal n" by (cases c) (auto simp: is_safe_relative_path_def list_all_iff)
  with c have "\<exists>p. p \<in> set (split_on CHR ''/'' s) \<and> p \<noteq> '''' \<and> p \<noteq> ''.'' \<and> part_component p = Normal n"
    by (auto simp: path_parse_def Let_def split: if_splits)
  with n show "\<exists>n. c = Normal n \<and> proper_name n"
    by (auto simp: part_component_def proper_name_def dest: split_on_parts split: if_splits)
qed

lemma safe_name_path: "is_safe_relative_path s \<Longrightarrow> name_path (path_parse s)"
proof -
  assume s: "is_safe_relative_path s"
  have "path_parse s \<noteq> []"
  proof
    assume p: "path_parse s = []"
    then have np: "\<not> prefix ''/'' s" and "hd (split_on CHR ''/'' s) \<noteq> ''.''"
      and none: "\<forall>q \<in> set (split_on CHR ''/'' s). q = '''' \<or> q = ''.''"
      by (auto simp: path_parse_def Let_def filter_empty_conv split: if_splits)
    then have "hd (split_on CHR ''/'' s) = ''''" by (metis list.set_sel(1) split_on_not_Nil)
    moreover obtain x xs where "s = x # xs" using s by (cases s) (auto simp: is_safe_relative_path_def)
    ultimately show False using np by (cases "split_on CHR ''/'' xs") (auto split: if_splits)
  qed
  with safe_path_names [OF s] show ?thesis by (auto simp: name_path_def)
qed

end
