(* ===== verification/Pack_Index.thy ===== *)
theory Pack_Index
  imports Pack_Records Path_Text
begin

text \<open>
  The files of a pack cache (\<open>pack_file.rs\<close>): frames with a magic number, a length and a checksum; the
  content frames that wrap a record; and the index, which says where the record of an address lies.
  A \<open>BTreeMap\<close> is the list of its entries in ascending order of the keys.
\<close>

section \<open>Ordered maps\<close>

type_synonym ('k, 'v) btree = "('k \<times> 'v) list"

fun btree_insert :: "'k::linorder \<Rightarrow> 'v \<Rightarrow> ('k, 'v) btree \<Rightarrow> ('k, 'v) btree" where
  "btree_insert k v [] = [(k, v)]"
| "btree_insert k v ((k', v') # t) =
     (if k < k' then (k, v) # (k', v') # t
      else if k = k' then (k, v) # t
      else (k', v') # btree_insert k v t)"

definition btree_ok :: "('k::linorder, 'v) btree \<Rightarrow> bool" where
  "btree_ok t \<longleftrightarrow> sorted_wrt (<) (map fst t)"

lemma btree_ok_simps [simp]:
  "btree_ok []" "btree_ok ((k, v) # t) \<longleftrightarrow> (\<forall>k' \<in> fst ` set t. k < k') \<and> btree_ok t"
  by (simp_all add: btree_ok_def)

lemma btree_keys_insert [simp]: "fst ` set (btree_insert k v t) = insert k (fst ` set t)"
  by (induction k v t rule: btree_insert.induct) (auto simp: insert_commute)

lemma btree_ok_insert: "btree_ok t \<Longrightarrow> btree_ok (btree_insert k v t)"
  by (induction k v t rule: btree_insert.induct) auto

lemma btree_get_insert: "btree_ok t \<Longrightarrow> map_of (btree_insert k v t) = (map_of t)(k \<mapsto> v)"
  by (induction k v t rule: btree_insert.induct) (auto simp: fun_eq_iff)

lemma btree_insert_last: "\<forall>k' \<in> fst ` set t. k' < k \<Longrightarrow> btree_insert k v t = t @ [(k, v)]"
  by (induction k v t rule: btree_insert.induct) auto

lemma btree_ok_distinct: "btree_ok t \<Longrightarrow> distinct (map fst t)"
  by (auto simp: btree_ok_def strict_sorted_iff)

definition btree_from :: "('k::linorder \<times> 'v) list \<Rightarrow> ('k, 'v) btree" where
  "btree_from entries = fold (\<lambda>(k, v). btree_insert k v) entries []"

lemma btree_ok_append:
  "btree_ok (t @ u) \<longleftrightarrow> btree_ok t \<and> btree_ok u \<and> (\<forall>k \<in> fst ` set t. \<forall>k' \<in> fst ` set u. k < k')"
  by (auto simp: btree_ok_def sorted_wrt_append)

lemma btree_from_ok: "btree_ok t \<Longrightarrow> btree_from t = (t :: ('k::linorder, 'v) btree)"
proof -
  have "btree_ok (t @ u) \<Longrightarrow> fold (\<lambda>(k, v). btree_insert k v) u t = t @ u" for t u :: "('k \<times> 'v) list"
  proof (induction u arbitrary: t)
    case (Cons a u)
    obtain k v where a: "a = (k, v)" by (cases a)
    with Cons.prems have "\<forall>k' \<in> fst ` set t. k' < k" by (auto simp: btree_ok_append)
    then have "btree_insert k v t = t @ [(k, v)]" by (rule btree_insert_last)
    with Cons.IH [of "t @ [a]"] Cons.prems a show ?case by simp
  qed simp
  from this [of "[]" t] show "btree_ok t \<Longrightarrow> btree_from t = t" by (simp add: btree_from_def)
qed

lemma btree_from_invariant:
  fixes entries :: "('k::linorder \<times> 'v) list"
  assumes "\<And>k v. (k, v) \<in> set entries \<Longrightarrow> P k v"
  shows "btree_ok (btree_from entries) \<and> (\<forall>(k, v) \<in> set (btree_from entries). P k v)"
proof -
  have *: "set (btree_insert k v t) \<subseteq> insert (k, v) (set t)" for k v and t :: "('k, 'v) btree"
    by (induction k v t rule: btree_insert.induct) auto
  have "btree_ok t \<Longrightarrow> btree_ok (fold (\<lambda>(k, v). btree_insert k v) es t) \<and>
      set (fold (\<lambda>(k, v). btree_insert k v) es t) \<subseteq> set es \<union> set t" for es and t :: "('k, 'v) btree"
  proof (induction es arbitrary: t)
    case (Cons a es)
    obtain k v where a: "a = (k, v)" by (cases a)
    from Cons.IH [OF btree_ok_insert [OF Cons.prems, of k v]] * [of k v t] show ?case unfolding a by auto
  qed simp
  from this [of "[]" entries] assms show ?thesis by (auto simp: btree_from_def)
qed

section \<open>Frames\<close>

lemma unat_word_of_nat_u64: "n \<le> 18446744073709551615 \<Longrightarrow> unat (word_of_nat n :: u64) = n"
  by (simp add: unat_of_nat)

definition checksum :: "bytes \<Rightarrow> u64" where
  "checksum bs = fold (\<lambda>b state. (state XOR ucast b) * 1099511628211) bs 14695981039346656037"

definition max_index_bytes :: nat where "max_index_bytes = 16777216"
definition max_content_bytes :: nat where "max_content_bytes = 33554432"

definition index_magic :: bytes where "index_magic = str_bytes ''UNPACK-PACKFILE-INDEX'' @ [0]"
definition content_magic :: bytes where "content_magic = str_bytes ''UNPACK-PACKFILE-CONTENT'' @ [0]"

definition encode_frame :: "bytes \<Rightarrow> bytes \<Rightarrow> nat \<Rightarrow> io_error + bytes" where
  "encode_frame magic body maximum =
     (if maximum < length magic + 16 + length body
      then Inl (IoError InvalidData ''PackFile frame exceeds the configured bound'')
      else Inr (magic @ word_le 8 (word_of_nat (length body) :: u64) @ word_le 8 (checksum body) @ body))"

definition decode_frame_parts :: "bytes \<Rightarrow> bytes \<Rightarrow> nat \<Rightarrow> (bytes \<times> u64) option" where
  "decode_frame_parts bs magic maximum =
     (if maximum < length bs \<or> \<not> prefix magic bs then None
      else let header_end = length magic + 16
      in if length bs < header_end then None
      else let header = take 16 (drop (length magic) bs);
               n = unat (le_word (take 8 header) :: u64);
               expected_checksum = le_word (drop 8 header)
      in if header_end + n \<noteq> length bs then None
         else Some (drop header_end bs, expected_checksum))"

definition decode_frame :: "bytes \<Rightarrow> bytes \<Rightarrow> nat \<Rightarrow> bytes option" where
  "decode_frame bs magic maximum = do {
     (body, expected_checksum) \<leftarrow> decode_frame_parts bs magic maximum;
     if checksum body = expected_checksum then Some body else None }"

definition decode_frame_unchecked :: "bytes \<Rightarrow> bytes \<Rightarrow> nat \<Rightarrow> bytes option" where
  "decode_frame_unchecked bs magic maximum = map_option fst (decode_frame_parts bs magic maximum)"

lemma checksum_hash: "checksum bs = hash_write bs hasher_default"
  by (simp add: checksum_def hash_write_def hasher_default_def hash_step_def [abs_def] fnv_prime_def)

lemma decode_frame_parts_iff:
  "decode_frame_parts bs magic maximum = Some (body, s) \<longleftrightarrow>
     length bs \<le> maximum \<and> length body < 2 ^ 64 \<and>
     bs = magic @ word_le 8 (word_of_nat (length body) :: u64) @ word_le 8 s @ body"
proof
  assume d: "decode_frame_parts bs magic maximum = Some (body, s)"
  then obtain t where t: "bs = magic @ t" and le: "length bs \<le> maximum" and n16: "16 \<le> length t"
    by (auto simp: decode_frame_parts_def Let_def prefix_def split: if_splits)
  define a b c where "a = take 8 t" and "b = take 8 (drop 8 t)" and "c = drop 16 t"
  have ab: "length a = 8" "length b = 8" using n16 by (simp_all add: a_def b_def)
  have "drop 8 t = b @ c" unfolding b_def c_def by (metis append_take_drop_id drop_drop numeral_Bit0)
  then have eq: "t = a @ b @ c" unfolding a_def by (metis append_take_drop_id)
  have n: "length c = unat (le_word a :: u64)" and c: "body = c" and s: "s = le_word b"
    using d le ab unfolding t eq by (auto simp: decode_frame_parts_def Let_def split: if_splits)
  have "word_le 8 (le_word a :: u64) = a" "word_le 8 s = b"
    using word_le_le_word [of a, where 'a = 64] word_le_le_word [of b, where 'a = 64] ab s by simp_all
  moreover have "(word_of_nat (length c) :: u64) = le_word a" using n by simp
  moreover have "unat (le_word a :: u64) < 2 ^ LENGTH(64)" by (rule unsigned_less)
  then have "length c < 2 ^ 64" using n by simp
  ultimately show "length bs \<le> maximum \<and> length body < 2 ^ 64 \<and>
     bs = magic @ word_le 8 (word_of_nat (length body) :: u64) @ word_le 8 s @ body"
    using le t eq c by simp
next
  assume *: "length bs \<le> maximum \<and> length body < 2 ^ 64 \<and>
     bs = magic @ word_le 8 (word_of_nat (length body) :: u64) @ word_le 8 s @ body"
  then have "unat (word_of_nat (length body) :: u64) = length body" by (simp add: unat_of_nat)
  with * show "decode_frame_parts bs magic maximum = Some (body, s)"
    by (auto simp: decode_frame_parts_def Let_def le_word_word_le)
qed

lemma decode_frame_iff:
  assumes "maximum < 2 ^ 64"
  shows "decode_frame bs magic maximum = Some body \<longleftrightarrow> encode_frame magic body maximum = Inr bs"
proof -
  have "decode_frame bs magic maximum = Some body \<longleftrightarrow> decode_frame_parts bs magic maximum = Some (body, checksum body)"
    by (auto simp: decode_frame_def bind_simps split: if_splits)
  then show ?thesis using assms by (auto simp: decode_frame_parts_iff encode_frame_def)
qed

lemma decode_frame_unchecked_encode:
  assumes "maximum < 2 ^ 64" and "encode_frame magic body maximum = Inr bs"
  shows "decode_frame_unchecked bs magic maximum = Some body"
proof -
  from assms have "decode_frame_parts bs magic maximum = Some (body, checksum body)"
    by (auto simp: decode_frame_parts_iff encode_frame_def split: if_splits)
  then show ?thesis by (simp add: decode_frame_unchecked_def)
qed

section \<open>Content frames\<close>

text \<open>A \<open>StableTypeId\<close> or \<open>StableCodecId\<close> is an array of 16 bytes.\<close>

definition write_content :: "bytes \<Rightarrow> bytes \<Rightarrow> bytes \<Rightarrow> writer" where
  "write_content type_id codec_id payload = write_all
     [write_raw type_id, write_raw codec_id, write_u64 (word_of_nat (length payload)),
      write_u64 (checksum payload), write_raw payload]"

definition encode_content :: "bytes \<Rightarrow> bytes \<Rightarrow> bytes \<Rightarrow> io_error + bytes" where
  "encode_content type_id codec_id payload =
     (if max_record_bytes < length payload
      then Inl (IoError InvalidData ''PackFile record exceeds the configured bound'')
      else case write_content type_id codec_id payload [] of
        Inl e \<Rightarrow> Inl e
      | Inr body \<Rightarrow> encode_frame content_magic body max_content_bytes)"

definition read_content_body :: "bool \<Rightarrow> (bytes \<times> bytes \<times> bytes) reader" where
  "read_content_body verify_payload_checksum d = do {
     (type_id, d) \<leftarrow> read_exact 16 d;
     (codec_id, d) \<leftarrow> read_exact 16 d;
     (n, d) \<leftarrow> read_u64 d;
     if max_record_bytes < unat n then None
     else do {
       (expected_checksum, d) \<leftarrow> read_u64 d;
       (payload, d) \<leftarrow> read_exact (unat n) d;
       if \<not> verify_payload_checksum \<or> checksum payload = expected_checksum
       then Some ((type_id, codec_id, payload), d) else None } }"

definition decode_content_body :: "bool \<Rightarrow> bytes \<Rightarrow> (bytes \<times> bytes \<times> bytes) option" where
  "decode_content_body verify_payload_checksum = decode_whole (read_content_body verify_payload_checksum)"

definition decode_content :: "bytes \<Rightarrow> (bytes \<times> bytes \<times> bytes) option" where
  "decode_content bs = do {
     body \<leftarrow> decode_frame bs content_magic max_content_bytes;
     decode_content_body True body }"

definition decode_indexed_content :: "bytes \<Rightarrow> u64 \<Rightarrow> (bytes \<times> bytes \<times> bytes) option" where
  "decode_indexed_content bs expected_checksum =
     (if checksum bs \<noteq> expected_checksum then None
      else do {
        body \<leftarrow> decode_frame_unchecked bs content_magic max_content_bytes;
        decode_content_body False body })"

definition content_ok :: "bytes \<times> bytes \<times> bytes \<Rightarrow> bool" where
  "content_ok = (\<lambda>(type_id, codec_id, payload).
     length type_id = 16 \<and> length codec_id = 16 \<and> length payload \<le> max_record_bytes)"

abbreviation write_content' :: "bytes \<times> bytes \<times> bytes \<Rightarrow> writer" where
  "write_content' \<equiv> \<lambda>(type_id, codec_id, payload). write_content type_id codec_id payload"

lemma write_content_uniform: "uniform (write_content' x)"
  by (cases x) (simp add: write_content_def uniform_intros del: write_all.simps)

lemma emits_raw: "emits (write_raw v) = (\<lambda>c. c = v)"
  by (simp add: fun_eq_iff write_raw_emits)

lemma read_content_body_reads: "reads (read_content_body True) (written content_ok write_content')"
  unfolding read_content_body_def [abs_def]
proof (rule reads_cong, (rule reads_rules reads_intros)+, goal_cases)
  case (1 v c)
  obtain t cd p where v: "v = (t, cd, p)" by (cases v)
  show ?case
    unfolding v content_ok_def write_content_def
    by (simp add: cat_simps uniform_intros emits_raw)
      (auto simp: not_less, rule exI [of _ t], simp, rule exI [of _ cd], simp,
        rule exI [of _ "word_of_nat (length p)"], simp add: unat_word_of_nat_u64 max_record_bytes_def)
qed

lemma max_content_lt: "max_content_bytes < 2 ^ 64"
  by (simp add: max_content_bytes_def)

lemma encode_content_iff:
  assumes "length type_id = 16" and "length codec_id = 16"
  shows "encode_content type_id codec_id payload = Inr bs \<longleftrightarrow> length payload \<le> max_record_bytes \<and>
    (\<exists>body. write_content type_id codec_id payload [] = Inr body \<and> encode_frame content_magic body max_content_bytes = Inr bs)"
  by (auto simp: encode_content_def split: sum.splits)

text \<open>What decodes is what was encoded, up to the last byte.\<close>

lemma decode_content_iff:
  "decode_content bs = Some (type_id, codec_id, payload) \<longleftrightarrow>
     length type_id = 16 \<and> length codec_id = 16 \<and> encode_content type_id codec_id payload = Inr bs"
proof -
  have "decode_content_body True body = Some (type_id, codec_id, payload) \<longleftrightarrow>
      content_ok (type_id, codec_id, payload) \<and> write_content type_id codec_id payload [] = Inr body" for body
    unfolding decode_content_body_def
    using decode_whole_iff [OF read_content_body_reads write_content_uniform [of "(type_id, codec_id, payload)"]] by simp
  then show ?thesis
    by (auto simp: decode_content_def bind_simps decode_frame_iff [OF max_content_lt] encode_content_iff content_ok_def)
qed

text \<open>The frame of a record that fits is always written.\<close>

lemma write_content_length:
  "write_content type_id codec_id payload [] = Inr body \<Longrightarrow>
     length body = length type_id + length codec_id + 16 + length payload"
  by (auto simp: write_content_def write_raw_def write_u64_def)

lemma encode_content_total:
  assumes "length type_id = 16" and "length codec_id = 16" and "length payload \<le> max_record_bytes"
  shows "\<exists>bs. encode_content type_id codec_id payload = Inr bs \<and> length bs = 88 + length payload"
proof -
  obtain body where w: "write_content type_id codec_id payload [] = Inr body"
    by (simp add: write_content_def write_raw_def write_u64_def)
  from write_content_length [OF this] assms show ?thesis
    by (auto simp: encode_content_def w encode_frame_def content_magic_def max_content_bytes_def max_record_bytes_def)
qed

lemma read_content_unchecked: "read_content_body True d = Some x \<Longrightarrow> read_content_body False d = Some x"
  by (auto simp: read_content_body_def split: Option.bind_splits if_splits)

lemma decode_content_unchecked:
  assumes "decode_content_body True body = Some x"
  shows "decode_content_body False body = Some x"
proof -
  from assms obtain d where "read_content_body True (decoder_new body) = Some (x, d)" "decoder_finish d = Some ()"
    by (auto simp: decode_content_body_def decode_whole_def bind_simps)
  from read_content_unchecked [OF this(1)] this(2) show ?thesis
    by (simp add: decode_content_body_def decode_whole_def)
qed

lemma decode_indexed_encode:
  assumes "length type_id = 16" and "length codec_id = 16" and "encode_content type_id codec_id payload = Inr bs"
  shows "decode_indexed_content bs (checksum bs) = Some (type_id, codec_id, payload)"
proof -
  from assms have "decode_content bs = Some (type_id, codec_id, payload)" by (simp add: decode_content_iff)
  then obtain body where b: "decode_frame bs content_magic max_content_bytes = Some body"
    "decode_content_body True body = Some (type_id, codec_id, payload)"
    by (auto simp: decode_content_def bind_simps)
  from b(1) have "decode_frame_unchecked bs content_magic max_content_bytes = Some body"
    by (auto simp: decode_frame_iff [OF max_content_lt] intro: decode_frame_unchecked_encode [OF max_content_lt])
  with decode_content_unchecked [OF b(2)] show ?thesis by (simp add: decode_indexed_content_def)
qed

section \<open>The index\<close>

datatype compression = NoCompression | Gzip | Brotli

fun compression_tag :: "compression \<Rightarrow> u8" where
  "compression_tag NoCompression = 0"
| "compression_tag Gzip = 1"
| "compression_tag Brotli = 2"

type_synonym address = "bytes \<times> bytes"

record content_reference =
  cr_file :: path
  cr_offset :: nat
  cr_length :: nat
  cr_checksum :: u64
  cr_pack_size :: nat
  cr_compression :: compression

record index_entry =
  ie_etag :: "bytes option"
  ie_type_id :: bytes
  ie_codec_id :: bytes
  ie_content :: content_reference
  ie_last_access :: nat
  ie_last_used :: nat
  ie_unused_since :: "nat option"

record pack_guard =
  pg_version :: bytes
  pg_build_dependencies :: snapshot_dto
  pg_resolve_build_dependencies :: snapshot_dto

record pack_index =
  pi_revision :: nat
  pi_guard :: "pack_guard option"
  pi_entries :: "(address, index_entry) btree"

definition empty_index :: pack_index where
  "empty_index = \<lparr>pi_revision = 0, pi_guard = None, pi_entries = []\<rparr>"

text \<open>A \<open>u64\<close> that is counted with is a natural number.\<close>

definition u64_max :: nat where "u64_max = 18446744073709551615"

definition write_nat64 :: "nat \<Rightarrow> writer" where
  "write_nat64 n = write_u64 (word_of_nat n)"

definition read_nat64 :: "nat reader" where
  "read_nat64 d = do { (w, d) \<leftarrow> read_u64 d; Some (unat w, d) }"

text \<open>\<open>to_str\<close> fails on a path that is not UTF-8.\<close>

definition write_path_text :: "path \<Rightarrow> writer" where
  "write_path_text file =
     (if str_ok (path_string file) then write_string (path_string file)
      else write_fail InvalidData ''content path is not UTF-8'')"

definition write_guard :: "pack_guard \<Rightarrow> writer" where
  "write_guard guard = write_all
     [write_bytes (pg_version guard),
      encode_snapshot (pg_build_dependencies guard),
      encode_snapshot (pg_resolve_build_dependencies guard)]"

definition write_index_entry :: "address \<times> index_entry \<Rightarrow> writer" where
  "write_index_entry = (\<lambda>(address, entry). write_all
     [write_bytes (fst address),
      write_bytes (snd address),
      write_optional_bytes (ie_etag entry),
      write_raw (ie_type_id entry),
      write_raw (ie_codec_id entry),
      write_path_text (cr_file (ie_content entry)),
      write_nat64 (cr_offset (ie_content entry)),
      write_nat64 (cr_length (ie_content entry)),
      write_u64 (cr_checksum (ie_content entry)),
      write_nat64 (cr_pack_size (ie_content entry)),
      write_u8 (compression_tag (cr_compression (ie_content entry))),
      write_nat64 (ie_last_access entry),
      write_nat64 (ie_last_used entry),
      write_option write_nat64 (ie_unused_since entry)])"

definition write_index :: "pack_index \<Rightarrow> writer" where
  "write_index index = write_all
     [write_nat64 (pi_revision index),
      write_option write_guard (pi_guard index),
      write_list write_index_entry (pi_entries index)]"

definition encode_index :: "pack_index \<Rightarrow> io_error + bytes" where
  "encode_index index =
     (case write_index index [] of
        Inl e \<Rightarrow> Inl e
      | Inr body \<Rightarrow> encode_frame index_magic body max_index_bytes)"

definition read_guard :: "pack_guard reader" where
  "read_guard d = do {
     (version, d) \<leftarrow> read_bytes d;
     (build_dependencies, d) \<leftarrow> decode_snapshot d;
     (resolve_build_dependencies, d) \<leftarrow> decode_snapshot d;
     Some (\<lparr>pg_version = version, pg_build_dependencies = build_dependencies,
            pg_resolve_build_dependencies = resolve_build_dependencies\<rparr>, d) }"

definition read_index_entry :: "nat \<Rightarrow> (address \<times> index_entry) reader" where
  "read_index_entry revision d = do {
     (namespace, d) \<leftarrow> read_bytes d;
     (identifier, d) \<leftarrow> read_bytes d;
     (etag, d) \<leftarrow> read_optional_bytes d;
     (type_id, d) \<leftarrow> read_exact 16 d;
     (codec_id, d) \<leftarrow> read_exact 16 d;
     (content_file, d) \<leftarrow> read_string d;
     if \<not> is_safe_relative_path content_file then None
     else do {
       (offset, d) \<leftarrow> read_nat64 d;
       (n, d) \<leftarrow> read_nat64 d;
       if max_content_bytes < n then None
       else do {
         (sum, d) \<leftarrow> read_u64 d;
         (pack_size, d) \<leftarrow> read_nat64 d;
         if max_content_bytes < pack_size \<or> u64_max < offset + n \<or> pack_size < offset + n then None
         else do {
           (kind, d) \<leftarrow> read_tagged [\<lambda>d. Some (NoCompression, d), \<lambda>d. Some (Gzip, d), \<lambda>d. Some (Brotli, d)] d;
           (last_access, d) \<leftarrow> read_nat64 d;
           (last_used, d) \<leftarrow> read_nat64 d;
           (unused_since, d) \<leftarrow> read_option read_nat64 d;
           if revision < last_used \<or> (case unused_since of None \<Rightarrow> False | Some u \<Rightarrow> revision < u \<or> u < last_used)
           then None
           else Some (((namespace, identifier),
             \<lparr>ie_etag = etag, ie_type_id = type_id, ie_codec_id = codec_id,
              ie_content = \<lparr>cr_file = path_parse content_file, cr_offset = offset, cr_length = n,
                cr_checksum = sum, cr_pack_size = pack_size, cr_compression = kind\<rparr>,
              ie_last_access = last_access, ie_last_used = last_used, ie_unused_since = unused_since\<rparr>), d) } } } }"

definition read_index :: "pack_index reader" where
  "read_index d = do {
     (revision, d) \<leftarrow> read_nat64 d;
     (guard, d) \<leftarrow> read_option read_guard d;
     (entries, d) \<leftarrow> read_list (read_index_entry revision) d;
     Some (\<lparr>pi_revision = revision, pi_guard = guard, pi_entries = btree_from entries\<rparr>, d) }"

definition decode_index :: "bytes \<Rightarrow> pack_index option" where
  "decode_index bs = do {
     body \<leftarrow> decode_frame bs index_magic max_index_bytes;
     decode_whole read_index body }"

section \<open>Valid indexes\<close>

definition reference_ok :: "content_reference \<Rightarrow> bool" where
  "reference_ok r \<longleftrightarrow> cr_length r \<le> max_content_bytes \<and> cr_pack_size r \<le> max_content_bytes \<and>
     cr_offset r + cr_length r \<le> cr_pack_size r"

definition index_entry_ok :: "nat \<Rightarrow> index_entry \<Rightarrow> bool" where
  "index_entry_ok revision e \<longleftrightarrow> length (ie_type_id e) = 16 \<and> length (ie_codec_id e) = 16 \<and>
     reference_ok (ie_content e) \<and> ie_last_access e \<le> u64_max \<and> ie_last_used e \<le> revision \<and>
     (\<forall>u. ie_unused_since e = Some u \<longrightarrow> u \<le> revision \<and> ie_last_used e \<le> u)"

definition guard_ok :: "pack_guard \<Rightarrow> bool" where
  "guard_ok g \<longleftrightarrow> list_all snapshot_entry_ok (pg_build_dependencies g) \<and>
     list_all snapshot_entry_ok (pg_resolve_build_dependencies g)"

definition index_ok :: "pack_index \<Rightarrow> bool" where
  "index_ok i \<longleftrightarrow> pi_revision i \<le> u64_max \<and> opt_ok guard_ok (pi_guard i) \<and> btree_ok (pi_entries i) \<and>
     (\<forall>(a, e) \<in> set (pi_entries i). index_entry_ok (pi_revision i) e)"

text \<open>The files of an index are relative paths of names.\<close>

definition files_named :: "pack_index \<Rightarrow> bool" where
  "files_named i \<longleftrightarrow> (\<forall>(a, e) \<in> set (pi_entries i). name_path (cr_file (ie_content e)))"

lemma read_nat64_reads [reads_intros]: "reads read_nat64 (written (\<lambda>n. n \<le> u64_max) write_nat64)"
  unfolding read_nat64_def [abs_def]
proof (rule reads_cong, (rule reads_rules reads_intros)+)
  have "unat w \<le> u64_max" for w :: u64
  proof -
    have "unat w < 2 ^ LENGTH(64)" by (rule unsigned_less)
    then show ?thesis by (simp add: u64_max_def)
  qed
  then show "(\<exists>x. cat (written valid write_u64 x) (\<lambda>c. v = unat x \<and> c = []) c) \<longleftrightarrow>
      written (\<lambda>n. n \<le> u64_max) write_nat64 v c" for v c
    by (auto simp: cat_simps write_nat64_def unat_word_of_nat_u64 u64_max_def intro!: exI [of _ "word_of_nat v"])
qed

lemma write_nat64_uniform [uniform_intros]: "uniform (write_nat64 n)"
  by (simp add: write_nat64_def write_u64_uniform)

lemma write_path_text_uniform [uniform_intros]: "uniform (write_path_text p)"
  by (simp add: write_path_text_def uniform_intros)

lemma write_guard_uniform [uniform_intros]: "uniform (write_guard g)"
  unfolding write_guard_def by (intro uniform_intros)

lemma write_index_entry_uniform [uniform_intros]: "uniform (write_index_entry x)"
  by (cases x) (simp add: write_index_entry_def uniform_intros del: write_all.simps)

lemma write_index_uniform: "uniform (write_index i)"
  unfolding write_index_def by (intro uniform_intros)

lemma read_guard_reads [reads_intros]: "reads read_guard (written guard_ok write_guard)"
  unfolding read_guard_def [abs_def]
  by (rule reads_cong, (rule reads_rules reads_intros)+, case_tac v)
    (auto simp: write_guard_def guard_ok_def cat_simps uniform_intros)

lemma read_compression_reads:
  "reads (read_tagged [\<lambda>d. Some (NoCompression, d), \<lambda>d. Some (Gzip, d), \<lambda>d. Some (Brotli, d)])
     (written valid (\<lambda>k. write_u8 (compression_tag k)))"
  by (rule reads_cong, (rule reads_rules)+, simp, case_tac v) (auto simp: cat_simps)


text \<open>What an entry is read from: the path of its file in any spelling.\<close>

definition index_entry_text :: "string \<Rightarrow> address \<times> index_entry \<Rightarrow> writer" where
  "index_entry_text file = (\<lambda>(address, entry). write_all
     [write_bytes (fst address),
      write_bytes (snd address),
      write_optional_bytes (ie_etag entry),
      write_raw (ie_type_id entry),
      write_raw (ie_codec_id entry),
      write_string file,
      write_nat64 (cr_offset (ie_content entry)),
      write_nat64 (cr_length (ie_content entry)),
      write_u64 (cr_checksum (ie_content entry)),
      write_nat64 (cr_pack_size (ie_content entry)),
      write_u8 (compression_tag (cr_compression (ie_content entry))),
      write_nat64 (ie_last_access entry),
      write_nat64 (ie_last_used entry),
      write_option write_nat64 (ie_unused_since entry)])"

definition entry_in_u64 :: "index_entry \<Rightarrow> bool" where
  "entry_in_u64 e \<longleftrightarrow> ie_last_used e \<le> u64_max \<and> opt_ok (\<lambda>u. u \<le> u64_max) (ie_unused_since e)"

lemma index_entry_text_uniform [uniform_intros]: "uniform (index_entry_text s x)"
  by (cases x) (simp add: index_entry_text_def uniform_intros del: write_all.simps)

definition entry_read :: "nat \<Rightarrow> address \<times> index_entry \<Rightarrow> bytes \<Rightarrow> bool" where
  "entry_read revision x c \<longleftrightarrow> index_entry_ok revision (snd x) \<and> entry_in_u64 (snd x) \<and>
     (\<exists>s. str_ok s \<and> is_safe_relative_path s \<and> cr_file (ie_content (snd x)) = path_parse s \<and>
          emits (index_entry_text s x) c)"

lemma reference_in_u64:
  "n \<le> max_content_bytes \<Longrightarrow> n \<le> u64_max" "a + b \<le> n \<Longrightarrow> n \<le> max_content_bytes \<Longrightarrow> a \<le> u64_max \<and> a + b \<le> u64_max"
  by (simp_all add: max_content_bytes_def u64_max_def)

lemma many_mono: "many W vs c \<Longrightarrow> (\<And>v c. v \<in> set vs \<Longrightarrow> W v c \<Longrightarrow> W' v c) \<Longrightarrow> many W' vs c"
  by (induction W vs c rule: many.induct) (auto, blast)

lemma cat_mono: "cat A B c \<Longrightarrow> (\<And>c. A c \<Longrightarrow> A' c) \<Longrightarrow> (\<And>c. B c \<Longrightarrow> B' c) \<Longrightarrow> cat A' B' c"
  by (auto simp: cat_def)

lemma read_index_entry_reads: "reads (read_index_entry revision) (entry_read revision)"
  unfolding read_index_entry_def [abs_def]
proof (rule reads_cong, (rule read_compression_reads reads_rules reads_intros uniform_intros)+, goal_cases)
  case (1 v c)
  obtain ns ident e where v: "v = ((ns, ident), e)" by (cases v) auto
  obtain etag ty cd f off n sum ps k la lu us where
    e: "e = \<lparr>ie_etag = etag, ie_type_id = ty, ie_codec_id = cd, ie_content = \<lparr>cr_file = f, cr_offset = off,
      cr_length = n, cr_checksum = sum, cr_pack_size = ps, cr_compression = k\<rparr>, ie_last_access = la,
      ie_last_used = lu, ie_unused_since = us\<rparr>"
    by (metis content_reference.cases index_entry.cases)
  show ?case
    by (simp add: v e entry_read_def index_entry_ok_def entry_in_u64_def reference_ok_def index_entry_text_def
        cat_simps uniform_intros emits_raw del: ex_simps add: ex_simps [symmetric])
      (cases us; auto simp: not_less max_content_bytes_def u64_max_def opt_ok_def)
qed

text \<open>The index that is read holds the last entry read for an address.\<close>

definition index_read :: "pack_index \<Rightarrow> bytes \<Rightarrow> bool" where
  "index_read i c \<longleftrightarrow> (\<exists>entries. pi_entries i = btree_from entries \<and> pi_revision i \<le> u64_max \<and>
     opt_ok guard_ok (pi_guard i) \<and>
     cat (emits (write_nat64 (pi_revision i)))
       (cat (emits (write_option write_guard (pi_guard i)))
         (cat (emits (write_count (length entries))) (many (entry_read (pi_revision i)) entries))) c)"

lemma read_list_many:
  assumes "reads r W"
  shows "reads (read_list r) (\<lambda>vs. cat (emits (write_count (length vs))) (many W vs))"
  unfolding read_list_def [abs_def]
  by (rule reads_cong, (rule reads_rules reads_intros read_times_reads assms)+) (auto simp: cat_simps)

lemma read_index_reads: "reads read_index index_read"
  unfolding read_index_def [abs_def]
  by (rule reads_cong, (rule read_list_many reads_rules reads_intros uniform_intros read_index_entry_reads)+, case_tac v)
    (auto simp: index_read_def cat_simps uniform_intros)

lemma max_index_lt: "max_index_bytes < 2 ^ 64"
  by (simp add: max_index_bytes_def)

lemma decode_index_iff:
  "decode_index bs = Some i \<longleftrightarrow>
     (\<exists>body. index_read i body \<and> encode_frame index_magic body max_index_bytes = Inr bs)"
proof -
  have "decode_whole read_index body = Some i \<longleftrightarrow> index_read i body" for body
    by (rule decode_whole_reads [OF read_index_reads])
  then show ?thesis by (auto simp: decode_index_def bind_simps decode_frame_iff [OF max_index_lt])
qed

text \<open>Everything that is read is a valid index, with files inside the cache directory.\<close>

lemma many_all: "many W vs c \<Longrightarrow> (\<And>v c. W v c \<Longrightarrow> P v) \<Longrightarrow> v \<in> set vs \<Longrightarrow> P v"
  by (induction W vs c rule: many.induct) auto

lemma decode_index_ok:
  assumes "decode_index bs = Some i"
  shows "index_ok i" and "files_named i"
proof -
  from assms obtain body entries where e: "pi_entries i = btree_from entries" "pi_revision i \<le> u64_max"
    "opt_ok guard_ok (pi_guard i)" and m: "\<exists>c. many (entry_read (pi_revision i)) entries c"
    unfolding decode_index_iff index_read_def by (auto simp: cat_def)
  then obtain c where m: "many (entry_read (pi_revision i)) entries c" by blast
  have "index_entry_ok (pi_revision i) e \<and> name_path (cr_file (ie_content e))" if "(a, e) \<in> set entries" for a e
  proof -
    have "index_entry_ok (pi_revision i) (snd x) \<and> name_path (cr_file (ie_content (snd x)))"
      if "entry_read (pi_revision i) x c" for x c
      using that by (auto simp: entry_read_def safe_name_path)
    from many_all [where P = "\<lambda>x. index_entry_ok (pi_revision i) (snd x) \<and> name_path (cr_file (ie_content (snd x)))", OF m this that]
    show ?thesis by simp
  qed
  then have "btree_ok (btree_from entries) \<and>
      (\<forall>(a, e) \<in> set (btree_from entries). index_entry_ok (pi_revision i) e \<and> name_path (cr_file (ie_content e)))"
    by (rule btree_from_invariant)
  then show "index_ok i" "files_named i" using e by (auto simp: index_ok_def files_named_def)
qed

text \<open>A valid index is read back.\<close>

lemma entry_read_written:
  assumes "index_entry_ok revision e" "revision \<le> u64_max" "name_path (cr_file (ie_content e))"
    and "emits (write_index_entry (a, e)) c"
  shows "entry_read revision (a, e) c"
proof -
  let ?s = "path_string (cr_file (ie_content e))"
  have ok: "str_ok ?s"
  proof (rule ccontr)
    assume "\<not> str_ok ?s"
    with assms(4) show False by (simp add: write_index_entry_def write_path_text_def cat_simps uniform_intros emits_fail)
  qed
  then have "write_index_entry (a, e) = index_entry_text ?s (a, e)"
    by (simp add: write_index_entry_def index_entry_text_def write_path_text_def)
  moreover have "entry_in_u64 e"
    using assms(1,2) by (auto simp: entry_in_u64_def index_entry_ok_def opt_ok_def split: option.splits)
  ultimately show ?thesis
    using assms ok safe_path_string [OF assms(3)] path_parse_string [OF assms(3)]
    by (auto simp: entry_read_def)
qed

lemma decode_encode_index:
  assumes "index_ok i" "files_named i" "encode_index i = Inr bs"
  shows "decode_index bs = Some i"
proof -
  from assms(3) obtain body where w: "write_index i [] = Inr body" and f: "encode_frame index_magic body max_index_bytes = Inr bs"
    by (auto simp: encode_index_def split: sum.splits)
  from w have "emits (write_index i) body" using uniform_run [OF write_index_uniform, of i "[]"] by simp
  then have c: "cat (emits (write_nat64 (pi_revision i))) (cat (emits (write_option write_guard (pi_guard i)))
      (cat (emits (write_count (length (pi_entries i)))) (emits (write_all (map write_index_entry (pi_entries i)))))) body"
    by (simp add: write_index_def write_list_def cat_simps uniform_intros del: write_all.simps)
  have "many (entry_read (pi_revision i)) (pi_entries i) c" if "emits (write_all (map write_index_entry (pi_entries i))) c" for c
  proof (rule many_mono)
    show "many (\<lambda>x. emits (write_index_entry x)) (pi_entries i) c"
      using that many_written [of write_index_entry valid "pi_entries i" c]
      by (simp add: uniform_intros written_fun [abs_def] list_all_iff)
    show "entry_read (pi_revision i) x c" if "x \<in> set (pi_entries i)" "emits (write_index_entry x) c" for x c
      using assms(1,2) that by (cases x) (auto simp: index_ok_def files_named_def intro!: entry_read_written)
  qed
  then have "index_read i body"
    using c assms(1) unfolding index_read_def index_ok_def
    by (intro exI [of _ "pi_entries i"]) (auto simp: btree_from_ok elim!: cat_mono)
  with f show ?thesis by (auto simp: decode_index_iff)
qed

end
