(* ===== verification/Pack_Codecs.thy ===== *)
theory Pack_Codecs
  imports Pack_Records Runtime
begin

text \<open>
  The four codecs that are registered with the serializer of the persistent cache, each with the
  checks it makes beyond the byte format: source ranges, source hashes, known runtime requirements.
\<close>

section \<open>Source ranges\<close>

definition is_char_boundary :: "string \<Rightarrow> nat \<Rightarrow> bool" where
  "is_char_boundary s i \<longleftrightarrow> i = 0 \<or> i = length s \<or> i < length s \<and> \<not> is_continuation (s ! i)"

definition source_range_is_valid :: "source_range_dto \<Rightarrow> string \<Rightarrow> bool" where
  "source_range_is_valid r source \<longleftrightarrow>
     (let start = unat (srd_start r); until = unat (srd_end r)
      in start \<le> until \<and> until \<le> length source \<and> is_char_boundary source start \<and> is_char_boundary source until)"

definition module_range_is_valid :: "string \<Rightarrow> module_dependency_dto \<Rightarrow> bool" where
  "module_range_is_valid source m \<longleftrightarrow>
     opt_ok (\<lambda>order. unat order \<le> max_collection_entries) (mdd_source_order m) \<and>
     opt_ok (\<lambda>r. source_range_is_valid r source) (mdd_range m)"

fun dependency_ranges_are_valid :: "string \<Rightarrow> dependency_dto \<Rightarrow> bool" where
  "dependency_ranges_are_valid source (EntryDto m) = module_range_is_valid source m"
| "dependency_ranges_are_valid source (LoaderDto m) = module_range_is_valid source m"
| "dependency_ranges_are_valid source (LoaderImportDto m) = module_range_is_valid source m"
| "dependency_ranges_are_valid source (HarmonyImportSideEffectDto m _) = module_range_is_valid source m"
| "dependency_ranges_are_valid source (HarmonyExportImportedSpecifierDto m _ _ _) = module_range_is_valid source m"
| "dependency_ranges_are_valid source (ImportDto m) = (mdd_range m \<noteq> None \<and> module_range_is_valid source m)"
| "dependency_ranges_are_valid source (HarmonyImportSpecifierDto m _ _ usage_range _) =
     (module_range_is_valid source m \<and> source_range_is_valid usage_range source)"
| "dependency_ranges_are_valid source (HarmonyExportHeaderDto declaration_range statement_range) =
     (opt_ok (\<lambda>r. source_range_is_valid r source) declaration_range \<and> source_range_is_valid statement_range source)"
| "dependency_ranges_are_valid source (HarmonyExportExpressionDto r statement_range _) =
     (source_range_is_valid r source \<and> source_range_is_valid statement_range source)"
| "dependency_ranges_are_valid source (ConstDto _ r) = source_range_is_valid r source"
| "dependency_ranges_are_valid source (HarmonyExportSpecifierDto _ _) = True"
| "dependency_ranges_are_valid source NullDto = True"

definition parsed_module_ranges_are_valid :: "parsed_module_dto \<Rightarrow> string \<Rightarrow> bool" where
  "parsed_module_ranges_are_valid p source \<longleftrightarrow> list_all (dependency_ranges_are_valid source)
     (pmd_dependencies p @ concat (pmd_blocks p) @ pmd_presentational p)"

text \<open>A check before a record is written, and after it is read.\<close>

lemma checked_iff:
  "(case m of Inl e \<Rightarrow> None | Inr u \<Rightarrow> Some r) = Some v \<longleftrightarrow> m = Inr () \<and> r = v"
  "(case m of Inl e \<Rightarrow> Inl e | Inr u \<Rightarrow> w) = Inr b \<longleftrightarrow> m = Inr () \<and> w = Inr b"
  by (cases m; simp)+

section \<open>Module builds\<close>

record module_build_record_dto =
  mbd_parsed :: parsed_module_dto
  mbd_source :: string
  mbd_binary_source :: "bytes option"
  mbd_source_hash :: u64
  mbd_snapshot :: snapshot_dto

definition validate_module_build_record :: "module_build_record_dto \<Rightarrow> io_error + unit" where
  "validate_module_build_record record =
     (let source_hash = (case mbd_binary_source record of
            Some binary \<Rightarrow> stable_hash (hb_usize (length binary) @ binary)
          | None \<Rightarrow> stable_hash (hb_str (mbd_source record)))
      in if mbd_source_hash record \<noteq> source_hash
         then Inl (IoError InvalidData ''Module Build Record source hash does not match its source'')
         else if \<not> parsed_module_ranges_are_valid (mbd_parsed record) (mbd_source record)
         then Inl (IoError InvalidData ''Module Build Record contains an invalid source range'')
         else Inr ())"

definition side_effect_free_tag :: "bool option \<Rightarrow> u8" where
  "side_effect_free_tag v = (case v of None \<Rightarrow> 0 | Some False \<Rightarrow> 1 | Some True \<Rightarrow> 2)"

definition write_module_build_record :: "module_build_record_dto \<Rightarrow> writer" where
  "write_module_build_record record = write_all
     [write_string (mbd_source record),
      write_optional_bytes (mbd_binary_source record),
      write_u64 (mbd_source_hash record),
      encode_parsed_module (mbd_parsed record),
      encode_snapshot (mbd_snapshot record),
      write_u8 (side_effect_free_tag (pmd_side_effect_free (mbd_parsed record))),
      write_u8 (of_bool (pmd_uses_direct_eval (mbd_parsed record)))]"

definition encode_module_build_record :: "module_build_record_dto \<Rightarrow> io_error + bytes" where
  "encode_module_build_record record =
     (case validate_module_build_record record of
        Inl e \<Rightarrow> Inl e
      | Inr _ \<Rightarrow> write_module_build_record record [])"

definition read_module_build_record :: "module_build_record_dto reader" where
  "read_module_build_record d = do {
     (source, d) \<leftarrow> read_string d;
     (binary_source, d) \<leftarrow> read_optional_bytes d;
     (source_hash, d) \<leftarrow> read_u64 d;
     (parsed, d) \<leftarrow> decode_parsed_module d;
     (snapshot, d) \<leftarrow> decode_snapshot d;
     (side_effect_free, d) \<leftarrow> read_tagged
       [\<lambda>d. Some (None, d), \<lambda>d. Some (Some False, d), \<lambda>d. Some (Some True, d)] d;
     (uses_direct_eval, d) \<leftarrow> read_tagged [\<lambda>d. Some (False, d), \<lambda>d. Some (True, d)] d;
     Some (\<lparr>mbd_parsed = parsed\<lparr>pmd_side_effect_free := side_effect_free, pmd_uses_direct_eval := uses_direct_eval\<rparr>,
            mbd_source = source, mbd_binary_source = binary_source, mbd_source_hash = source_hash,
            mbd_snapshot = snapshot\<rparr>, d) }"

definition decode_module_build_record :: "bytes \<Rightarrow> module_build_record_dto option" where
  "decode_module_build_record bs = do {
     record \<leftarrow> decode_whole read_module_build_record bs;
     (case validate_module_build_record record of Inl _ \<Rightarrow> None | Inr _ \<Rightarrow> Some record) }"

definition module_build_ok :: "module_build_record_dto \<Rightarrow> bool" where
  "module_build_ok r \<longleftrightarrow> parsed_module_ok (mbd_parsed r) \<and> str_ok (mbd_source r) \<and>
     list_all snapshot_entry_ok (mbd_snapshot r)"

lemma write_module_build_record_uniform: "uniform (write_module_build_record r)"
  unfolding write_module_build_record_def by (intro uniform_intros)

lemma read_side_effect_free_reads:
  "reads (read_tagged [\<lambda>d. Some (None, d), \<lambda>d. Some (Some False, d), \<lambda>d. Some (Some True, d)])
     (written valid (\<lambda>v. write_u8 (side_effect_free_tag v)))"
  by (rule reads_cong, (rule reads_rules)+, simp, case_tac v)
    (auto simp: cat_simps side_effect_free_tag_def split: bool.splits)

lemma read_direct_eval_reads:
  "reads (read_tagged [\<lambda>d. Some (False, d), \<lambda>d. Some (True, d)]) (written valid (\<lambda>v. write_u8 (of_bool v)))"
  by (rule reads_cong, (rule reads_rules)+, simp, case_tac v) (auto simp: cat_simps)

text \<open>The two flags are not part of the parsed module's own bytes.\<close>

lemma encode_parsed_flags:
  "encode_parsed_module (p\<lparr>pmd_side_effect_free := a, pmd_uses_direct_eval := b\<rparr>) = encode_parsed_module p"
  "parsed_module_ok (p\<lparr>pmd_side_effect_free := a, pmd_uses_direct_eval := b\<rparr>) = parsed_module_ok p"
  by (simp_all add: encode_parsed_module_def parsed_module_ok_def)

lemma read_module_build_record_reads:
  "reads read_module_build_record (written module_build_ok write_module_build_record)"
  unfolding read_module_build_record_def [abs_def]
proof (rule reads_cong, (rule read_side_effect_free_reads read_direct_eval_reads reads_rules reads_intros)+, goal_cases)
  case (1 v c)
  let ?p = "mbd_parsed v"
  let ?x = "?p\<lparr>pmd_side_effect_free := None, pmd_uses_direct_eval := False\<rparr>"
  let ?l = "?p = ?x\<lparr>pmd_side_effect_free := pmd_side_effect_free ?p, pmd_uses_direct_eval := pmd_uses_direct_eval ?p\<rparr>"
  note emitted = write_module_build_record_def emits_cat cat_simps uniform_intros
  show ?case unfolding cat_simps
  proof (rule iffI; (elim exE conjE)?)
    assume w: "emits (write_module_build_record v) c" and ok: "module_build_ok v"
    have ok_s: "str_ok (mbd_source v)" "list_all snapshot_entry_ok (mbd_snapshot v)" "parsed_read ?x"
      using ok by (simp_all add: parsed_read_def encode_parsed_flags module_build_ok_def)
    have eq: "v = \<lparr>mbd_parsed = ?x\<lparr>pmd_side_effect_free := pmd_side_effect_free ?p, pmd_uses_direct_eval := pmd_uses_direct_eval ?p\<rparr>,
        mbd_source = mbd_source v, mbd_binary_source = mbd_binary_source v, mbd_source_hash = mbd_source_hash v,
        mbd_snapshot = mbd_snapshot v\<rparr>" by simp
    have cat: "cat (emits (write_string (mbd_source v))) (cat (emits (write_optional_bytes (mbd_binary_source v)))
        (cat (emits (write_u64 (mbd_source_hash v))) (cat (emits (encode_parsed_module ?x))
          (cat (emits (encode_snapshot (mbd_snapshot v)))
            (cat (emits (write_u8 (side_effect_free_tag (pmd_side_effect_free ?p))))
              (emits (write_u8 (of_bool (pmd_uses_direct_eval ?p))))))))) c"
      using w by (simp add: emitted encode_parsed_flags split del: split_of_bool)
    show "\<exists>x. str_ok x \<and> (\<exists>xa. opt_ok valid xa \<and> (\<exists>xb. True \<and> (\<exists>xc. parsed_read xc \<and>
        (\<exists>xd. list_all snapshot_entry_ok xd \<and> (\<exists>xe. True \<and> (\<exists>xf. v = \<lparr>mbd_parsed =
           xc\<lparr>pmd_side_effect_free := xe, pmd_uses_direct_eval := xf\<rparr>, mbd_source = x,
           mbd_binary_source = xa, mbd_source_hash = xb, mbd_snapshot = xd\<rparr> \<and> True \<and>
        cat (emits (write_string x)) (cat (emits (write_optional_bytes xa)) (cat (emits (write_u64 xb))
          (cat (emits (encode_parsed_module xc)) (cat (emits (encode_snapshot xd))
            (cat (emits (write_u8 (side_effect_free_tag xe))) (emits (write_u8 (of_bool xf)))))))) c))))))"
      by (rule exI, rule conjI [OF ok_s(1)], rule exI, rule conjI [OF opt_ok_valid], rule exI, rule conjI [OF TrueI],
          rule exI, rule conjI [OF ok_s(3)], rule exI, rule conjI [OF ok_s(2)], rule exI, rule conjI [OF TrueI],
          rule exI, rule conjI [OF eq], rule conjI [OF TrueI cat])
  qed (simp add: module_build_ok_def parsed_read_def emitted encode_parsed_flags split del: split_of_bool)
qed

interpretation module_build_codec:
  item_codec encode_module_build_record decode_module_build_record module_build_ok
proof unfold_locales
  fix bs v
  have "decode_whole read_module_build_record bs = Some r \<longleftrightarrow> module_build_ok r \<and> write_module_build_record r [] = Inr bs" for r
    by (rule decode_whole_iff [OF read_module_build_record_reads write_module_build_record_uniform])
  then show "decode_module_build_record bs = Some v \<longleftrightarrow> module_build_ok v \<and> encode_module_build_record v = Inr bs"
    by (auto simp: decode_module_build_record_def encode_module_build_record_def bind_simps checked_iff)
qed

section \<open>Resolved requests\<close>

record module_identity_dto =
  mid_module_type :: module_type_dto
  mid_resource :: bytes
  mid_query :: "string option"
  mid_fragment :: "string option"
  mid_layer :: "string option"
  mid_loaders :: "string list"

record resolve_record_dto =
  rrd_identity :: module_identity_dto
  rrd_resource :: bytes
  rrd_file_dependencies :: "bytes list"
  rrd_context_dependencies :: "bytes list"
  rrd_missing_dependencies :: "bytes list"
  rrd_snapshot :: snapshot_dto

definition write_paths :: "bytes list \<Rightarrow> writer" where
  "write_paths = write_list write_bytes"

definition read_paths :: "bytes list reader" where
  "read_paths = read_list read_bytes"

definition write_resolve_record :: "resolve_record_dto \<Rightarrow> writer" where
  "write_resolve_record record = write_all
     [write_u8 (module_type_tag (mid_module_type (rrd_identity record))),
      write_bytes (mid_resource (rrd_identity record)),
      write_optional_string (mid_query (rrd_identity record)),
      write_optional_string (mid_fragment (rrd_identity record)),
      write_optional_string (mid_layer (rrd_identity record)),
      write_strings (mid_loaders (rrd_identity record)),
      write_bytes (rrd_resource record),
      write_paths (rrd_file_dependencies record),
      write_paths (rrd_context_dependencies record),
      write_paths (rrd_missing_dependencies record),
      encode_snapshot (rrd_snapshot record)]"

definition encode_resolve_record :: "resolve_record_dto \<Rightarrow> io_error + bytes" where
  "encode_resolve_record record = write_resolve_record record []"

definition decode_module_type :: "module_type_dto reader" where
  "decode_module_type = read_tagged
     [\<lambda>d. Some (JavaScriptAutoDto, d), \<lambda>d. Some (JsonDto, d), \<lambda>d. Some (AssetDto, d),
      \<lambda>d. Some (AssetResourceDto, d), \<lambda>d. Some (AssetInlineDto, d), \<lambda>d. Some (AssetSourceDto, d)]"

definition read_resolve_record :: "resolve_record_dto reader" where
  "read_resolve_record d = do {
     (module_type, d) \<leftarrow> decode_module_type d;
     (identity_resource, d) \<leftarrow> read_bytes d;
     (query, d) \<leftarrow> read_optional_string d;
     (fragment, d) \<leftarrow> read_optional_string d;
     (layer, d) \<leftarrow> read_optional_string d;
     (loaders, d) \<leftarrow> read_strings d;
     (resource, d) \<leftarrow> read_bytes d;
     (file_dependencies, d) \<leftarrow> read_paths d;
     (context_dependencies, d) \<leftarrow> read_paths d;
     (missing_dependencies, d) \<leftarrow> read_paths d;
     (snapshot, d) \<leftarrow> decode_snapshot d;
     Some (\<lparr>rrd_identity = \<lparr>mid_module_type = module_type, mid_resource = identity_resource, mid_query = query,
              mid_fragment = fragment, mid_layer = layer, mid_loaders = loaders\<rparr>,
            rrd_resource = resource, rrd_file_dependencies = file_dependencies,
            rrd_context_dependencies = context_dependencies, rrd_missing_dependencies = missing_dependencies,
            rrd_snapshot = snapshot\<rparr>, d) }"

definition decode_resolve_record :: "bytes \<Rightarrow> resolve_record_dto option" where
  "decode_resolve_record = decode_whole read_resolve_record"

definition identity_dto_ok :: "module_identity_dto \<Rightarrow> bool" where
  "identity_dto_ok i \<longleftrightarrow> opt_ok str_ok (mid_query i) \<and> opt_ok str_ok (mid_fragment i) \<and>
     opt_ok str_ok (mid_layer i) \<and> list_all str_ok (mid_loaders i)"

definition resolve_record_ok :: "resolve_record_dto \<Rightarrow> bool" where
  "resolve_record_ok r \<longleftrightarrow> identity_dto_ok (rrd_identity r) \<and> list_all snapshot_entry_ok (rrd_snapshot r)"

lemma write_paths_uniform [uniform_intros]: "uniform (write_paths ps)"
  unfolding write_paths_def by (intro uniform_intros)

lemma list_all_valid [simp]: "list_all valid xs"
  by (simp add: list_all_iff)

lemma read_paths_reads [reads_intros]: "reads read_paths (written (list_all valid) write_paths)"
  unfolding read_paths_def write_paths_def by (rule reads_intros uniform_intros)+

lemma decode_module_type_reads [reads_intros]:
  "reads decode_module_type (written valid (\<lambda>t. write_u8 (module_type_tag t)))"
  unfolding decode_module_type_def
  by (rule reads_cong, (rule reads_rules reads_intros)+, simp, case_tac v) (auto simp: cat_simps)

lemma write_resolve_record_uniform: "uniform (write_resolve_record r)"
  unfolding write_resolve_record_def by (intro uniform_intros)

lemma read_resolve_record_reads: "reads read_resolve_record (written resolve_record_ok write_resolve_record)"
  unfolding read_resolve_record_def [abs_def]
proof (rule reads_cong, (rule reads_rules reads_intros)+, goal_cases)
  case (1 v c)
  then show ?case
    by (cases v; cases "rrd_identity v")
      (auto simp: write_resolve_record_def resolve_record_ok_def identity_dto_ok_def cat_simps uniform_intros)
qed

interpretation resolve_codec: item_codec encode_resolve_record decode_resolve_record resolve_record_ok
  by unfold_locales
    (simp add: encode_resolve_record_def decode_resolve_record_def
      decode_whole_iff [OF read_resolve_record_reads write_resolve_record_uniform])

section \<open>Rendered assets\<close>

record asset_render_record_dto =
  ard_source :: string
  ard_source_map :: "string option"

definition write_asset_render_record :: "asset_render_record_dto \<Rightarrow> writer" where
  "write_asset_render_record value = write_all
     [write_record_string (ard_source value), write_optional_record_string (ard_source_map value)]"

definition encode_asset_render_record :: "asset_render_record_dto \<Rightarrow> io_error + bytes" where
  "encode_asset_render_record value = write_asset_render_record value []"

definition decode_asset_render_record :: "bytes \<Rightarrow> asset_render_record_dto option" where
  "decode_asset_render_record = decode_whole (\<lambda>d. do {
     (source, d) \<leftarrow> read_record_string d;
     (source_map, d) \<leftarrow> read_optional_record_string d;
     Some (\<lparr>ard_source = source, ard_source_map = source_map\<rparr>, d) })"

definition asset_render_ok :: "asset_render_record_dto \<Rightarrow> bool" where
  "asset_render_ok r \<longleftrightarrow> str_ok (ard_source r) \<and> opt_ok str_ok (ard_source_map r)"

lemma write_asset_render_record_uniform: "uniform (write_asset_render_record r)"
  unfolding write_asset_render_record_def by (intro uniform_intros)

interpretation asset_codec: item_codec encode_asset_render_record decode_asset_render_record asset_render_ok
proof unfold_locales
  fix bs v
  have "reads (\<lambda>d. do {
     (source, d) \<leftarrow> read_record_string d;
     (source_map, d) \<leftarrow> read_optional_record_string d;
     Some (\<lparr>ard_source = source, ard_source_map = source_map\<rparr>, d) }) (written asset_render_ok write_asset_render_record)"
    by (rule reads_cong, (rule reads_rules reads_intros)+, case_tac v)
      (auto simp: write_asset_render_record_def asset_render_ok_def cat_simps uniform_intros)
  from decode_whole_iff [OF this write_asset_render_record_uniform]
  show "decode_asset_render_record bs = Some v \<longleftrightarrow> asset_render_ok v \<and> encode_asset_render_record v = Inr bs"
    by (simp add: decode_asset_render_record_def encode_asset_render_record_def)
qed

section \<open>Generated code\<close>

datatype replacement_enforce_dto = PreDto | NormalDto | PostDto

record code_generation_replacement_dto =
  crd_start :: u32
  crd_end :: u32
  crd_content :: string
  crd_name :: "string option"
  crd_enforce :: replacement_enforce_dto

datatype code_generation_source_dto =
    RawDto string
  | OriginalWithReplacementsDto string u32 string "code_generation_replacement_dto list" string

record code_generation_record_dto =
  cgd_source :: code_generation_source_dto
  cgd_runtime_requirements :: u16

definition replacement_range_ok :: "u32 \<Rightarrow> code_generation_replacement_dto \<Rightarrow> bool" where
  "replacement_range_ok original_source_len r \<longleftrightarrow>
     unat (crd_start r) \<le> unat (crd_end r) \<and> unat (crd_end r) \<le> unat original_source_len"

definition validate_code_generation_record :: "code_generation_record_dto \<Rightarrow> io_error + unit" where
  "validate_code_generation_record record =
     (if cgd_runtime_requirements record AND NOT valid_mask \<noteq> 0
      then Inl (IoError InvalidData ''Code Generation Record contains unknown Runtime Requirements'')
      else case cgd_source record of
        RawDto _ \<Rightarrow> Inr ()
      | OriginalWithReplacementsDto _ original_source_len _ replacements _ \<Rightarrow>
          if list_all (replacement_range_ok original_source_len) replacements then Inr ()
          else Inl (IoError InvalidData ''Code Generation Record contains an invalid replacement range''))"

fun enforce_tag :: "replacement_enforce_dto \<Rightarrow> u8" where
  "enforce_tag PreDto = 0"
| "enforce_tag NormalDto = 1"
| "enforce_tag PostDto = 2"

definition write_replacement :: "code_generation_replacement_dto \<Rightarrow> writer" where
  "write_replacement r = write_all
     [write_u32 (crd_start r), write_u32 (crd_end r), write_record_string (crd_content r),
      write_optional_record_string (crd_name r), write_u8 (enforce_tag (crd_enforce r))]"

fun write_code_generation_source :: "code_generation_source_dto \<Rightarrow> writer" where
  "write_code_generation_source (RawDto source) = write_all [write_u8 0, write_record_string source]"
| "write_code_generation_source (OriginalWithReplacementsDto pre original_source_len original_name replacements suf) =
     write_all [write_u8 1, write_record_string pre, write_u32 original_source_len,
       write_record_string original_name, write_list write_replacement replacements, write_record_string suf]"

definition write_code_generation_record :: "code_generation_record_dto \<Rightarrow> writer" where
  "write_code_generation_record value = write_all
     [write_u32 (ucast (cgd_runtime_requirements value)), write_code_generation_source (cgd_source value)]"

definition encode_code_generation_record :: "code_generation_record_dto \<Rightarrow> io_error + bytes" where
  "encode_code_generation_record value =
     (case validate_code_generation_record value of
        Inl e \<Rightarrow> Inl e
      | Inr _ \<Rightarrow> write_code_generation_record value [])"

definition read_replacement :: "code_generation_replacement_dto reader" where
  "read_replacement d = do {
     (start, d) \<leftarrow> read_u32 d;
     (until, d) \<leftarrow> read_u32 d;
     (content, d) \<leftarrow> read_record_string d;
     (name, d) \<leftarrow> read_optional_record_string d;
     (enforce, d) \<leftarrow> read_tagged [\<lambda>d. Some (PreDto, d), \<lambda>d. Some (NormalDto, d), \<lambda>d. Some (PostDto, d)] d;
     Some (\<lparr>crd_start = start, crd_end = until, crd_content = content, crd_name = name, crd_enforce = enforce\<rparr>, d) }"

definition read_code_generation_source :: "code_generation_source_dto reader" where
  "read_code_generation_source = read_tagged
    [\<lambda>d. do { (source, d) \<leftarrow> read_record_string d; Some (RawDto source, d) },
     \<lambda>d. do {
       (pre, d) \<leftarrow> read_record_string d;
       (original_source_len, d) \<leftarrow> read_u32 d;
       (original_name, d) \<leftarrow> read_record_string d;
       (replacements, d) \<leftarrow> read_list read_replacement d;
       (suf, d) \<leftarrow> read_record_string d;
       Some (OriginalWithReplacementsDto pre original_source_len original_name replacements suf, d) }]"

text \<open>\<open>u16::try_from\<close>.\<close>

definition u16_try_from :: "u32 \<Rightarrow> u16 option" where
  "u16_try_from w = (if unat w < 65536 then Some (ucast w) else None)"

definition read_code_generation_record :: "code_generation_record_dto reader" where
  "read_code_generation_record d = do {
     (mk, d) \<leftarrow> read_u32 d;
     runtime_requirements \<leftarrow> u16_try_from mk;
     (source, d) \<leftarrow> read_code_generation_source d;
     Some (\<lparr>cgd_source = source, cgd_runtime_requirements = runtime_requirements\<rparr>, d) }"

definition decode_code_generation_record :: "bytes \<Rightarrow> code_generation_record_dto option" where
  "decode_code_generation_record bs = do {
     record \<leftarrow> decode_whole read_code_generation_record bs;
     (case validate_code_generation_record record of Inl _ \<Rightarrow> None | Inr _ \<Rightarrow> Some record) }"

definition replacement_ok :: "code_generation_replacement_dto \<Rightarrow> bool" where
  "replacement_ok r \<longleftrightarrow> str_ok (crd_content r) \<and> opt_ok str_ok (crd_name r)"

fun code_generation_source_ok :: "code_generation_source_dto \<Rightarrow> bool" where
  "code_generation_source_ok (RawDto source) = str_ok source"
| "code_generation_source_ok (OriginalWithReplacementsDto pre _ name replacements suf) =
     (str_ok pre \<and> str_ok name \<and> list_all replacement_ok replacements \<and> str_ok suf)"

abbreviation code_generation_ok :: "code_generation_record_dto \<Rightarrow> bool" where
  "code_generation_ok r \<equiv> code_generation_source_ok (cgd_source r)"

lemma u16_try_from_iff: "u16_try_from w = Some v \<longleftrightarrow> w = ucast v"
proof
  assume "u16_try_from w = Some v"
  then have lt: "unat w < 65536" and v: "v = ucast w" by (auto simp: u16_try_from_def split: if_splits)
  from lt have "take_bit 16 (unat w) = unat w" by (simp add: take_bit_nat_eq_self)
  then have "unat (ucast (ucast w :: u16) :: u32) = unat w"
    by (simp add: unsigned_ucast_eq unsigned_take_bit_eq)
  then have "ucast (ucast w :: u16) = w" by (simp add: word_unat_eq_iff)
  with v show "w = ucast v" by simp
next
  assume w: "w = ucast v"
  have "unat v < 2 ^ LENGTH(16)" by (rule unsigned_less)
  then have "unat (ucast v :: u32) = unat v" by (simp add: unsigned_ucast_eq take_bit_nat_eq_self)
  then show "u16_try_from w = Some v"
    using w \<open>unat v < 2 ^ LENGTH(16)\<close> by (simp add: u16_try_from_def word_unat_eq_iff unsigned_ucast_eq take_bit_nat_eq_self)
qed

lemma write_replacement_uniform [uniform_intros]: "uniform (write_replacement r)"
  unfolding write_replacement_def by (intro uniform_intros)

lemma write_code_generation_source_uniform [uniform_intros]: "uniform (write_code_generation_source s)"
  by (cases s) (simp_all add: uniform_intros del: write_all.simps)

lemma write_code_generation_record_uniform: "uniform (write_code_generation_record r)"
  unfolding write_code_generation_record_def by (intro uniform_intros)

lemma read_enforce_reads:
  "reads (read_tagged [\<lambda>d. Some (PreDto, d), \<lambda>d. Some (NormalDto, d), \<lambda>d. Some (PostDto, d)])
     (written valid (\<lambda>v. write_u8 (enforce_tag v)))"
  by (rule reads_cong, (rule reads_rules)+, simp, case_tac v) (auto simp: cat_simps)

lemma read_replacement_reads [reads_intros]: "reads read_replacement (written replacement_ok write_replacement)"
  unfolding read_replacement_def [abs_def]
  by (rule reads_cong, (rule read_enforce_reads reads_rules reads_intros)+, case_tac v)
    (auto simp: write_replacement_def replacement_ok_def cat_simps uniform_intros)

lemma read_code_generation_source_reads [reads_intros]:
  "reads read_code_generation_source (written code_generation_source_ok write_code_generation_source)"
  unfolding read_code_generation_source_def
  by (rule reads_cong, (rule reads_rules reads_intros uniform_intros)+, simp, case_tac v)
    (auto simp: cat_simps uniform_intros)

lemma read_code_generation_record_reads:
  "reads read_code_generation_record (written code_generation_ok write_code_generation_record)"
  unfolding read_code_generation_record_def [abs_def]
  by (rule reads_cong, (rule reads_rules reads_intros)+, case_tac v)
    (auto simp: write_code_generation_record_def cat_simps u16_try_from_iff uniform_intros)

interpretation code_generation_codec:
  item_codec encode_code_generation_record decode_code_generation_record code_generation_ok
proof unfold_locales
  fix bs v
  have "decode_whole read_code_generation_record bs = Some r \<longleftrightarrow>
      code_generation_ok r \<and> write_code_generation_record r [] = Inr bs" for r
    by (rule decode_whole_iff [OF read_code_generation_record_reads write_code_generation_record_uniform])
  then show "decode_code_generation_record bs = Some v \<longleftrightarrow> code_generation_ok v \<and> encode_code_generation_record v = Inr bs"
    by (auto simp: decode_code_generation_record_def encode_code_generation_record_def bind_simps checked_iff)
qed

end
