(* ===== verification/Serializer.thy ===== *)
theory Serializer
  imports Pack_Codecs
begin

text \<open>
  The serializer (\<open>serialization/serializer.rs\<close>): codecs registered by type id behind \<open>dyn Any\<close>, and
  the serializer of the persistent cache with its four codecs.
\<close>

section \<open>Codecs by type\<close>

text \<open>\<open>dyn Any\<close>: the items the cache stores, with the \<open>TYPE_ID\<close> of each type.\<close>

datatype pack_item =
    ResolveItem resolve_record_dto
  | ModuleBuildItem module_build_record_dto
  | CodeGenerationItem code_generation_record_dto
  | AssetRenderItem asset_render_record_dto

definition resolve_type_id :: bytes where "resolve_type_id = str_bytes ''unpack.resolve.1''"
definition module_build_type_id :: bytes where "module_build_type_id = str_bytes ''unpack.moduleb.1''"
definition code_generation_type_id :: bytes where "code_generation_type_id = str_bytes ''unpack.codegen.1''"
definition asset_render_type_id :: bytes where "asset_render_type_id = str_bytes ''unpack.asset-r.1''"

fun item_type_id :: "pack_item \<Rightarrow> bytes" where
  "item_type_id (ResolveItem _) = resolve_type_id"
| "item_type_id (ModuleBuildItem _) = module_build_type_id"
| "item_type_id (CodeGenerationItem _) = code_generation_type_id"
| "item_type_id (AssetRenderItem _) = asset_render_type_id"

record item_codec_entry =
  ic_codec_id :: bytes
  ic_encode :: "pack_item \<Rightarrow> io_error + bytes"
  ic_decode :: "bytes \<Rightarrow> pack_item option"

type_synonym serializer = "bytes \<rightharpoonup> item_codec_entry"

text \<open>\<open>CodecAdapter\<close>: encoding fails on an item of another type.\<close>

definition codec_adapter ::
    "bytes \<Rightarrow> (pack_item \<Rightarrow> 'a option) \<Rightarrow> ('a \<Rightarrow> pack_item) \<Rightarrow> ('a \<Rightarrow> io_error + bytes) \<Rightarrow> (bytes \<Rightarrow> 'a option) \<Rightarrow>
     item_codec_entry" where
  "codec_adapter codec_id downcast box encode decode = \<lparr>ic_codec_id = codec_id,
     ic_encode = (\<lambda>item. case downcast item of
         None \<Rightarrow> Inl (IoError InvalidData ''serialized item type mismatch'')
       | Some v \<Rightarrow> encode v),
     ic_decode = (\<lambda>bs. map_option box (decode bs))\<rparr>"

definition serializer_encode :: "serializer \<Rightarrow> pack_item \<Rightarrow> io_error + (bytes \<times> bytes)" where
  "serializer_encode s item =
     (case s (item_type_id item) of
        None \<Rightarrow> Inl (IoError InvalidInput ''serializer codec is not registered'')
      | Some codec \<Rightarrow>
         (case ic_encode codec item of
            Inl e \<Rightarrow> Inl e
          | Inr payload \<Rightarrow>
             if max_record_bytes < length payload
             then Inl (IoError InvalidData ''serialized item exceeds the configured bound'')
             else Inr (ic_codec_id codec, payload)))"

text \<open>\<open>decode\<close> is called for the type with the id \<open>wanted\<close>; the downcast fails on another type.\<close>

definition serializer_decode :: "serializer \<Rightarrow> bytes \<Rightarrow> bytes \<Rightarrow> bytes \<Rightarrow> bytes \<Rightarrow> pack_item option" where
  "serializer_decode s wanted type_id codec_id payload =
     (if type_id \<noteq> wanted then None
      else do {
        codec \<leftarrow> s type_id;
        if ic_codec_id codec \<noteq> codec_id then None
        else do {
          item \<leftarrow> ic_decode codec payload;
          if item_type_id item = wanted then Some item else None } })"

definition matches_codec :: "serializer \<Rightarrow> bytes \<Rightarrow> bytes \<Rightarrow> bool" where
  "matches_codec s type_id codec_id \<longleftrightarrow> (\<exists>codec. s type_id = Some codec \<and> ic_codec_id codec = codec_id)"

lemma matches_codec_code [code]:
  "matches_codec s type_id codec_id =
     (case s type_id of None \<Rightarrow> False | Some codec \<Rightarrow> ic_codec_id codec = codec_id)"
  by (simp add: matches_codec_def split: option.split)

section \<open>The serializer of the persistent cache\<close>

definition resolve_codec_entry :: item_codec_entry where
  "resolve_codec_entry = codec_adapter (str_bytes ''unpack.rslv.c001'')
     (\<lambda>i. case i of ResolveItem r \<Rightarrow> Some r | _ \<Rightarrow> None) ResolveItem
     encode_resolve_record decode_resolve_record"

definition module_build_codec_entry :: item_codec_entry where
  "module_build_codec_entry = codec_adapter (str_bytes ''unpack.modb.c005'')
     (\<lambda>i. case i of ModuleBuildItem r \<Rightarrow> Some r | _ \<Rightarrow> None) ModuleBuildItem
     encode_module_build_record decode_module_build_record"

definition code_generation_codec_entry :: item_codec_entry where
  "code_generation_codec_entry = codec_adapter (str_bytes ''unpack.cgen.c003'')
     (\<lambda>i. case i of CodeGenerationItem r \<Rightarrow> Some r | _ \<Rightarrow> None) CodeGenerationItem
     encode_code_generation_record decode_code_generation_record"

definition asset_render_codec_entry :: item_codec_entry where
  "asset_render_codec_entry = codec_adapter (str_bytes ''unpack.astr.c001'')
     (\<lambda>i. case i of AssetRenderItem r \<Rightarrow> Some r | _ \<Rightarrow> None) AssetRenderItem
     encode_asset_render_record decode_asset_render_record"

definition persistent_serializer :: serializer where
  "persistent_serializer = Map.empty
     (resolve_type_id \<mapsto> resolve_codec_entry,
      module_build_type_id \<mapsto> module_build_codec_entry,
      code_generation_type_id \<mapsto> code_generation_codec_entry,
      asset_render_type_id \<mapsto> asset_render_codec_entry)"

fun item_ok :: "pack_item \<Rightarrow> bool" where
  "item_ok (ResolveItem r) = resolve_record_ok r"
| "item_ok (ModuleBuildItem r) = module_build_ok r"
| "item_ok (CodeGenerationItem r) = code_generation_ok r"
| "item_ok (AssetRenderItem r) = asset_render_ok r"

lemma type_ids_distinct [simp]:
  "resolve_type_id \<noteq> module_build_type_id" "module_build_type_id \<noteq> resolve_type_id"
  "resolve_type_id \<noteq> code_generation_type_id" "code_generation_type_id \<noteq> resolve_type_id"
  "resolve_type_id \<noteq> asset_render_type_id" "asset_render_type_id \<noteq> resolve_type_id"
  "module_build_type_id \<noteq> code_generation_type_id" "code_generation_type_id \<noteq> module_build_type_id"
  "module_build_type_id \<noteq> asset_render_type_id" "asset_render_type_id \<noteq> module_build_type_id"
  "code_generation_type_id \<noteq> asset_render_type_id" "asset_render_type_id \<noteq> code_generation_type_id"
  by (simp_all add: resolve_type_id_def module_build_type_id_def code_generation_type_id_def asset_render_type_id_def)

lemma type_ids_length [simp]: "length (item_type_id item) = 16"
  by (cases item) (simp_all add: resolve_type_id_def module_build_type_id_def code_generation_type_id_def asset_render_type_id_def)

lemma persistent_serializer_simps:
  "persistent_serializer resolve_type_id = Some resolve_codec_entry"
  "persistent_serializer module_build_type_id = Some module_build_codec_entry"
  "persistent_serializer code_generation_type_id = Some code_generation_codec_entry"
  "persistent_serializer asset_render_type_id = Some asset_render_codec_entry"
  by (simp_all add: persistent_serializer_def)

lemma persistent_serializer_cases:
  assumes "persistent_serializer t = Some c"
  obtains "t = resolve_type_id" "c = resolve_codec_entry"
  | "t = module_build_type_id" "c = module_build_codec_entry"
  | "t = code_generation_type_id" "c = code_generation_codec_entry"
  | "t = asset_render_type_id" "c = asset_render_codec_entry"
  using assms by (auto simp: persistent_serializer_def split: if_splits)

text \<open>The law of the adapters: the item of a valid encoding is read back, and nothing else is read.\<close>

lemma adapter_decode:
  assumes codec: "item_codec encode decode ok" and inj: "inj box"
    and down: "\<And>i v. downcast i = Some v \<longleftrightarrow> i = box v"
  shows "ic_decode (codec_adapter codec_id downcast box encode decode) bs = Some item \<longleftrightarrow>
    (\<exists>v. item = box v \<and> ok v \<and> ic_encode (codec_adapter codec_id downcast box encode decode) item = Inr bs)"
proof -
  have "downcast (box v) = Some v" for v by (simp add: down)
  then show ?thesis
    using item_codec.decode_iff [OF codec] by (auto simp: codec_adapter_def split: option.split)
qed

lemma persistent_decode_entry:
  assumes "persistent_serializer t = Some c"
  shows "ic_decode c bs = Some item \<longleftrightarrow> item_type_id item = t \<and> item_ok item \<and> ic_encode c item = Inr bs"
  using assms
proof (cases rule: persistent_serializer_cases)
  case 1
  show ?thesis unfolding 1 resolve_codec_entry_def
    by (subst adapter_decode [OF resolve_codec.item_codec_axioms]) (auto simp: inj_on_def split: pack_item.splits, (cases item; simp)+)
next
  case 2
  show ?thesis unfolding 2 module_build_codec_entry_def
    by (subst adapter_decode [OF module_build_codec.item_codec_axioms]) (auto simp: inj_on_def split: pack_item.splits, (cases item; simp)+)
next
  case 3
  show ?thesis unfolding 3 code_generation_codec_entry_def
    by (subst adapter_decode [OF code_generation_codec.item_codec_axioms]) (auto simp: inj_on_def split: pack_item.splits, (cases item; simp)+)
next
  case 4
  show ?thesis unfolding 4 asset_render_codec_entry_def
    by (subst adapter_decode [OF asset_codec.item_codec_axioms]) (auto simp: inj_on_def split: pack_item.splits, (cases item; simp)+)
qed

lemma persistent_codec_length: "persistent_serializer t = Some c \<Longrightarrow> length (ic_codec_id c) = 16"
  by (erule persistent_serializer_cases)
    (simp_all add: resolve_codec_entry_def module_build_codec_entry_def code_generation_codec_entry_def
      asset_render_codec_entry_def codec_adapter_def)

text \<open>The serializer reads back exactly the valid items of the type that is asked for.\<close>

lemma persistent_decode_iff:
  assumes "length payload \<le> max_record_bytes"
  shows "serializer_decode persistent_serializer wanted type_id codec_id payload = Some item \<longleftrightarrow>
    type_id = wanted \<and> item_type_id item = wanted \<and> item_ok item \<and>
    serializer_encode persistent_serializer item = Inr (codec_id, payload)"
proof (cases "persistent_serializer type_id")
  case (Some codec)
  have "serializer_decode persistent_serializer wanted type_id codec_id payload = Some item \<longleftrightarrow>
      type_id = wanted \<and> ic_codec_id codec = codec_id \<and> item_type_id item = wanted \<and>
      ic_decode codec payload = Some item"
    using Some by (cases "type_id = wanted"; cases "ic_codec_id codec = codec_id"; cases "ic_decode codec payload")
      (auto simp: serializer_decode_def)
  then show ?thesis
    using assms Some
    by (auto simp: persistent_decode_entry [OF Some] serializer_encode_def split: sum.splits if_splits)
qed (auto simp: serializer_decode_def serializer_encode_def bind_simps)

lemma persistent_encoded:
  assumes "serializer_encode persistent_serializer item = Inr (codec_id, payload)"
  shows "matches_codec persistent_serializer (item_type_id item) codec_id"
    and "length codec_id = 16" and "length payload \<le> max_record_bytes"
  using assms
  by (auto simp: serializer_encode_def matches_codec_def persistent_codec_length
      split: option.splits sum.splits if_splits)

end
