(* ===== verification/Pack_File.thy ===== *)
theory Pack_File
  imports Pack_Index Serializer
begin

text \<open>
  Reading a pack cache (\<open>PackFile\<close> of \<open>pack_file.rs\<close>): opening its index, touching an entry, restoring
  a record from the content pack that the index refers to, with the packs retained in memory or not.
  A file system maps the paths of the files to their bytes.  \<open>inflate\<close> stands for the decoders of
  \<open>flate2\<close> and \<open>brotli\<close>: the first \<open>n\<close> bytes they yield for a compressed pack, or an error.
\<close>

type_synonym files = "path \<rightharpoonup> bytes"
type_synonym inflate = "compression \<Rightarrow> bytes \<Rightarrow> nat \<Rightarrow> bytes option"

section \<open>Bounded reads\<close>

definition max_encoded_content_bytes :: nat where "max_encoded_content_bytes = 41943040"

definition read_bounded :: "files \<Rightarrow> path \<Rightarrow> nat \<Rightarrow> bytes option" where
  "read_bounded fs p maximum = do {
     bs \<leftarrow> fs p;
     if maximum < length bs then None else Some bs }"

definition read_decompressed_pack :: "(nat \<Rightarrow> bytes option) \<Rightarrow> nat \<Rightarrow> bytes option" where
  "read_decompressed_pack stream expected_size = do {
     content \<leftarrow> stream (expected_size + 1);
     if length content = expected_size then Some content else None }"

definition read_content_pack :: "inflate \<Rightarrow> files \<Rightarrow> path \<Rightarrow> compression \<Rightarrow> nat \<Rightarrow> bytes option" where
  "read_content_pack inflate fs p k expected_size =
     (if max_content_bytes < expected_size then None
      else case k of
        NoCompression \<Rightarrow> do {
          bs \<leftarrow> read_bounded fs p max_content_bytes;
          if length bs = expected_size then Some bs else None }
      | _ \<Rightarrow> do {
          encoded \<leftarrow> read_bounded fs p max_encoded_content_bytes;
          read_decompressed_pack (inflate k encoded) expected_size })"

text \<open>\<open>checked_add\<close> on 64 bits, and \<open>get(start..end)\<close>.\<close>

definition content_frame_range :: "nat \<Rightarrow> content_reference \<Rightarrow> (nat \<times> nat) option" where
  "content_frame_range pack_len r =
     (let start = cr_offset r; until = start + cr_length r
      in if u64_max < until then None
         else if until \<le> pack_len then Some (start, until) else None)"

definition slice_get :: "'a list \<Rightarrow> nat \<Rightarrow> nat \<Rightarrow> 'a list option" where
  "slice_get xs start until = (if start \<le> until \<and> until \<le> length xs then Some (take (until - start) (drop start xs)) else None)"

definition content_frame_from_pack :: "bytes \<Rightarrow> content_reference \<Rightarrow> bytes option" where
  "content_frame_from_pack pack r = do {
     (start, until) \<leftarrow> content_frame_range (length pack) r;
     slice_get pack start until }"

definition read_content_reference :: "inflate \<Rightarrow> files \<Rightarrow> path \<Rightarrow> content_reference \<Rightarrow> bytes option" where
  "read_content_reference inflate fs p r =
     (if cr_compression r \<noteq> NoCompression
      then do {
        pack \<leftarrow> read_content_pack inflate fs p (cr_compression r) (cr_pack_size r);
        content_frame_from_pack pack r }
      else do {
        bs \<leftarrow> fs p;
        if max_content_bytes < length bs \<or> length bs \<noteq> cr_pack_size r then None
        else if u64_max < cr_offset r + cr_length r \<or> length bs < cr_offset r + cr_length r then None
        else if max_content_bytes < cr_length r then None
        else Some (take (cr_length r) (drop (cr_offset r) bs)) })"

section \<open>The pack file\<close>

record retained_pack =
  rp_compression :: compression
  rp_pack_size :: nat
  rp_content :: bytes

record pack_file =
  pf_root :: path
  pf_serializer :: serializer
  pf_index :: pack_index
  pf_access_updates :: "(address, nat) btree"
  pf_allow_collecting_memory :: bool
  pf_content_buffers :: "path \<rightharpoonup> retained_pack"

record pack_file_restore =
  rs_serializer :: serializer
  rs_type_id :: bytes
  rs_codec_id :: bytes
  rs_checksum :: u64
  rs_content :: bytes
  rs_start :: nat
  rs_end :: nat

definition index_path :: "path \<Rightarrow> path" where
  "index_path root = path_join root [Normal ''index.pack'']"

definition current_index :: "files \<Rightarrow> path \<Rightarrow> pack_index" where
  "current_index fs root =
     (case Option.bind (read_bounded fs (index_path root) max_index_bytes) decode_index of
        None \<Rightarrow> empty_index
      | Some i \<Rightarrow> i)"

definition open_with_options :: "files \<Rightarrow> path \<Rightarrow> serializer \<Rightarrow> bool \<Rightarrow> pack_file" where
  "open_with_options fs root serializer allow_collecting_memory =
     \<lparr>pf_root = root, pf_serializer = serializer, pf_index = current_index fs root, pf_access_updates = [],
      pf_allow_collecting_memory = allow_collecting_memory, pf_content_buffers = Map.empty\<rparr>"

definition entry_count :: "pack_file \<Rightarrow> nat" where
  "entry_count pf = length (pi_entries (pf_index pf))"

definition touch :: "address \<Rightarrow> bytes option \<Rightarrow> nat \<Rightarrow> pack_file \<Rightarrow> bool \<times> pack_file" where
  "touch address etag stamp pf =
     (case map_of (pi_entries (pf_index pf)) address of
        None \<Rightarrow> (False, pf)
      | Some entry \<Rightarrow>
         if ie_etag entry \<noteq> etag then (False, pf)
         else let stamp = max stamp (ie_last_access entry)
         in case map_of (pf_access_updates pf) address of
              None \<Rightarrow> (True, pf\<lparr>pf_access_updates := btree_insert address stamp (pf_access_updates pf)\<rparr>)
            | Some current \<Rightarrow>
               if current < stamp
               then (True, pf\<lparr>pf_access_updates := btree_insert address stamp (pf_access_updates pf)\<rparr>)
               else (False, pf))"

text \<open>\<open>LoadedContent\<close>: the bytes and the range of the frame in them.\<close>

definition load_content ::
    "inflate \<Rightarrow> files \<Rightarrow> content_reference \<Rightarrow> pack_file \<Rightarrow> (bytes \<times> nat \<times> nat) option \<times> pack_file" where
  "load_content inflate fs r pf =
     (let p = path_join (pf_root pf) (cr_file r)
      in if pf_allow_collecting_memory pf
         then (if cr_compression r = NoCompression
               then map_option (\<lambda>content. (content, 0, length content)) (read_content_reference inflate fs p r)
               else do {
                 content \<leftarrow> read_content_pack inflate fs p (cr_compression r) (cr_pack_size r);
                 (start, until) \<leftarrow> content_frame_range (length content) r;
                 Some (content, start, until) },
               pf)
         else
           let buffers = (if pf_content_buffers pf (cr_file r) = None
                 then map_option (\<lambda>pack. (pf_content_buffers pf)(cr_file r \<mapsto>
                        \<lparr>rp_compression = cr_compression r, rp_pack_size = cr_pack_size r, rp_content = pack\<rparr>))
                      (read_content_pack inflate fs p (cr_compression r) (cr_pack_size r))
                 else Some (pf_content_buffers pf))
           in case buffers of
                None \<Rightarrow> (None, pf)
              | Some buffers \<Rightarrow>
                 (do {
                    retained \<leftarrow> buffers (cr_file r);
                    if rp_compression retained \<noteq> cr_compression r \<or> rp_pack_size retained \<noteq> cr_pack_size r then None
                    else do {
                      (start, until) \<leftarrow> content_frame_range (length (rp_content retained)) r;
                      Some (rp_content retained, start, until) } },
                  pf\<lparr>pf_content_buffers := buffers\<rparr>))"

definition prepare_restore ::
    "inflate \<Rightarrow> files \<Rightarrow> bytes \<Rightarrow> address \<Rightarrow> bytes option \<Rightarrow> pack_file \<Rightarrow> pack_file_restore option \<times> pack_file" where
  "prepare_restore inflate fs type_id address etag pf =
     (case map_of (pi_entries (pf_index pf)) address of
        None \<Rightarrow> (None, pf)
      | Some entry \<Rightarrow>
         if ie_etag entry \<noteq> etag \<or> ie_type_id entry \<noteq> type_id then (None, pf)
         else if \<not> matches_codec (pf_serializer pf) (ie_type_id entry) (ie_codec_id entry) then (None, pf)
         else case load_content inflate fs (ie_content entry) pf of
           (loaded, pf) \<Rightarrow>
             (map_option (\<lambda>(content, start, until).
                \<lparr>rs_serializer = pf_serializer pf, rs_type_id = ie_type_id entry, rs_codec_id = ie_codec_id entry,
                 rs_checksum = cr_checksum (ie_content entry), rs_content = content,
                 rs_start = start, rs_end = until\<rparr>) loaded,
              pf))"

definition restore_decode :: "bytes \<Rightarrow> pack_file_restore \<Rightarrow> pack_item option" where
  "restore_decode wanted r = do {
     frame \<leftarrow> slice_get (rs_content r) (rs_start r) (rs_end r);
     (type_id, codec_id, payload) \<leftarrow> decode_indexed_content frame (rs_checksum r);
     if type_id \<noteq> rs_type_id r \<or> codec_id \<noteq> rs_codec_id r then None
     else serializer_decode (rs_serializer r) wanted type_id codec_id payload }"


section \<open>What a pack file restores\<close>

text \<open>The frame that a reference names, whichever way it is read.\<close>

definition content_at :: "inflate \<Rightarrow> files \<Rightarrow> path \<Rightarrow> content_reference \<Rightarrow> bytes option" where
  "content_at inflate fs root r = do {
     pack \<leftarrow> read_content_pack inflate fs (path_join root (cr_file r)) (cr_compression r) (cr_pack_size r);
     content_frame_from_pack pack r }"

lemma content_frame_from_pack_eq:
  "content_frame_from_pack pack r =
     (if cr_offset r + cr_length r \<le> u64_max \<and> cr_offset r + cr_length r \<le> length pack
      then Some (take (cr_length r) (drop (cr_offset r) pack)) else None)"
  by (simp add: content_frame_from_pack_def content_frame_range_def slice_get_def Let_def)

lemma read_content_reference_at:
  "read_content_reference inflate fs (path_join root (cr_file r)) r = content_at inflate fs root r"
proof (cases "cr_compression r = NoCompression")
  case True
  show ?thesis
    by (cases "fs (path_join root (cr_file r))")
      (auto simp: read_content_reference_def content_at_def read_content_pack_def read_bounded_def
        content_frame_from_pack_eq True not_less)
qed (simp add: read_content_reference_def content_at_def)

text \<open>
  The entries that share a file agree on how it is compressed and how long it is, and the packs
  retained in memory are the files of the directory.
\<close>

definition coherent :: "(address, index_entry) btree \<Rightarrow> bool" where
  "coherent entries \<longleftrightarrow> (\<forall>(a, e) \<in> set entries. \<forall>(a', e') \<in> set entries.
     cr_file (ie_content e) = cr_file (ie_content e') \<longrightarrow>
       cr_compression (ie_content e) = cr_compression (ie_content e') \<and>
       cr_pack_size (ie_content e) = cr_pack_size (ie_content e'))"

definition pack_file_ok :: "inflate \<Rightarrow> files \<Rightarrow> pack_file \<Rightarrow> bool" where
  "pack_file_ok inflate fs pf \<longleftrightarrow> coherent (pi_entries (pf_index pf)) \<and>
     (\<forall>f b. pf_content_buffers pf f = Some b \<longrightarrow>
        read_content_pack inflate fs (path_join (pf_root pf) f) (rp_compression b) (rp_pack_size b) = Some (rp_content b) \<and>
        (\<forall>(a, e) \<in> set (pi_entries (pf_index pf)). cr_file (ie_content e) = f \<longrightarrow>
           cr_compression (ie_content e) = rp_compression b \<and> cr_pack_size (ie_content e) = rp_pack_size b))"

lemma load_content_collecting:
  assumes "pf_allow_collecting_memory pf"
  shows "snd (load_content inflate fs r pf) = pf"
    and "Option.bind (fst (load_content inflate fs r pf)) (\<lambda>(content, start, until). slice_get content start until) =
      content_at inflate fs (pf_root pf) r"
proof -
  have "slice_get xs 0 (length xs) = Some xs" for xs :: bytes by (simp add: slice_get_def)
  then have "Option.bind (map_option (\<lambda>content. (content, 0, length content)) x)
      (\<lambda>(content, start, until). slice_get content start until) = x" for x :: "bytes option"
    by (cases x) simp_all
  then show "Option.bind (fst (load_content inflate fs r pf)) (\<lambda>(content, start, until). slice_get content start until) =
      content_at inflate fs (pf_root pf) r"
    using assms by (auto simp: load_content_def Let_def read_content_reference_at)
      (auto simp: content_at_def content_frame_from_pack_def split: Option.bind_splits)
qed (simp add: load_content_def Let_def assms)

lemma load_content_retaining:
  assumes ok: "pack_file_ok inflate fs pf" and e: "(a, e) \<in> set (pi_entries (pf_index pf))"
    and retain: "\<not> pf_allow_collecting_memory pf"
  shows "\<exists>l buffers. load_content inflate fs (ie_content e) pf = (l, pf\<lparr>pf_content_buffers := buffers\<rparr>) \<and>
    pack_file_ok inflate fs (pf\<lparr>pf_content_buffers := buffers\<rparr>) \<and>
    Option.bind l (\<lambda>(content, start, until). slice_get content start until) = content_at inflate fs (pf_root pf) (ie_content e)"
proof (cases "pf_content_buffers pf (cr_file (ie_content e))")
  case None
  let ?r = "ie_content e"
  show ?thesis
  proof (cases "read_content_pack inflate fs (path_join (pf_root pf) (cr_file ?r)) (cr_compression ?r) (cr_pack_size ?r)")
    case None': None
    then have "load_content inflate fs ?r pf = (None, pf\<lparr>pf_content_buffers := pf_content_buffers pf\<rparr>)"
      using retain None by (simp add: load_content_def Let_def)
    then show ?thesis using ok None'
      by (auto simp: content_at_def intro!: exI [of _ "pf_content_buffers pf"])
  next
    case (Some pack)
    let ?buffers = "(pf_content_buffers pf)(cr_file ?r \<mapsto>
        \<lparr>rp_compression = cr_compression ?r, rp_pack_size = cr_pack_size ?r, rp_content = pack\<rparr>)"
    have "pack_file_ok inflate fs (pf\<lparr>pf_content_buffers := ?buffers\<rparr>)"
      unfolding pack_file_ok_def
    proof (intro conjI allI impI)
      show "coherent (pi_entries (pf_index (pf\<lparr>pf_content_buffers := ?buffers\<rparr>)))"
        using ok by (simp add: pack_file_ok_def)
      fix f b
      assume b: "pf_content_buffers (pf\<lparr>pf_content_buffers := ?buffers\<rparr>) f = Some b"
      have agree: "\<forall>(a', e') \<in> set (pi_entries (pf_index pf)). cr_file (ie_content e') = cr_file ?r \<longrightarrow>
          cr_compression (ie_content e') = cr_compression ?r \<and> cr_pack_size (ie_content e') = cr_pack_size ?r"
        using ok e unfolding pack_file_ok_def coherent_def by blast
      show "read_content_pack inflate fs (path_join (pf_root (pf\<lparr>pf_content_buffers := ?buffers\<rparr>)) f)
          (rp_compression b) (rp_pack_size b) = Some (rp_content b)"
        using b Some ok by (auto simp: pack_file_ok_def split: if_splits)
      show "\<forall>(a, e) \<in> set (pi_entries (pf_index (pf\<lparr>pf_content_buffers := ?buffers\<rparr>))). cr_file (ie_content e) = f \<longrightarrow>
          cr_compression (ie_content e) = rp_compression b \<and> cr_pack_size (ie_content e) = rp_pack_size b"
        using b agree ok by (cases "f = cr_file ?r") (auto simp: pack_file_ok_def)
    qed
    moreover have "load_content inflate fs ?r pf =
        (Option.bind (content_frame_range (length pack) ?r) (\<lambda>(start, until). Some (pack, start, until)),
         pf\<lparr>pf_content_buffers := ?buffers\<rparr>)"
      using None Some retain by (simp add: load_content_def)
    moreover have "Option.bind (Option.bind (content_frame_range (length pack) ?r) (\<lambda>(start, until). Some (pack, start, until)))
        (\<lambda>(content, start, until). slice_get content start until) = content_at inflate fs (pf_root pf) ?r"
      using Some by (simp add: content_at_def content_frame_from_pack_def split: Option.bind_splits)
    ultimately show ?thesis by blast
  qed
next
  case (Some b)
  let ?r = "ie_content e"
  have "cr_compression ?r = rp_compression b" "cr_pack_size ?r = rp_pack_size b"
    and "read_content_pack inflate fs (path_join (pf_root pf) (cr_file ?r)) (cr_compression ?r) (cr_pack_size ?r) = Some (rp_content b)"
    using ok e Some unfolding pack_file_ok_def by fastforce+
  with Some retain ok show ?thesis
    by (auto simp: load_content_def Let_def content_at_def content_frame_from_pack_def
        intro!: exI [of _ "pf_content_buffers pf"] split: Option.bind_splits)
qed

lemma load_content_at:
  assumes ok: "pack_file_ok inflate fs pf" and e: "(a, e) \<in> set (pi_entries (pf_index pf))"
  obtains l buffers where "load_content inflate fs (ie_content e) pf = (l, pf\<lparr>pf_content_buffers := buffers\<rparr>)"
    and "pack_file_ok inflate fs (pf\<lparr>pf_content_buffers := buffers\<rparr>)"
    and "Option.bind l (\<lambda>(content, start, until). slice_get content start until) = content_at inflate fs (pf_root pf) (ie_content e)"
proof (cases "pf_allow_collecting_memory pf")
  case True
  show ?thesis
    by (rule that [of "fst (load_content inflate fs (ie_content e) pf)" "pf_content_buffers pf"])
      (use load_content_collecting [OF True, of inflate fs "ie_content e"] ok in \<open>auto simp: prod_eq_iff\<close>)
next
  case False
  from load_content_retaining [OF ok e False] show ?thesis using that by blast
qed

text \<open>The item stored at an address, with its etag, type and codec.\<close>

definition stored_item :: "inflate \<Rightarrow> files \<Rightarrow> path \<Rightarrow> index_entry \<Rightarrow> (bytes option \<times> bytes \<times> bytes \<times> bytes) option" where
  "stored_item inflate fs root entry = do {
     frame \<leftarrow> content_at inflate fs root (ie_content entry);
     (type_id, codec_id, payload) \<leftarrow> decode_indexed_content frame (cr_checksum (ie_content entry));
     if type_id \<noteq> ie_type_id entry \<or> codec_id \<noteq> ie_codec_id entry then None
     else Some (ie_etag entry, type_id, codec_id, payload) }"

definition stored :: "inflate \<Rightarrow> files \<Rightarrow> path \<Rightarrow> pack_index \<Rightarrow> address \<Rightarrow> (bytes option \<times> bytes \<times> bytes \<times> bytes) option" where
  "stored inflate fs root i address = do {
     entry \<leftarrow> map_of (pi_entries i) address;
     stored_item inflate fs root entry }"

text \<open>Restoring is looking up the stored item and decoding it; the packs in memory are a cache.\<close>

lemma restore_stored:
  assumes ok: "pack_file_ok inflate fs pf"
  shows "\<exists>buffers r. prepare_restore inflate fs wanted address etag pf = (r, pf\<lparr>pf_content_buffers := buffers\<rparr>) \<and>
    pack_file_ok inflate fs (pf\<lparr>pf_content_buffers := buffers\<rparr>) \<and>
    Option.bind r (restore_decode wanted) = do {
      (etag', type_id, codec_id, payload) \<leftarrow> stored inflate fs (pf_root pf) (pf_index pf) address;
      if etag' = etag \<and> type_id = wanted \<and> matches_codec (pf_serializer pf) type_id codec_id
      then serializer_decode (pf_serializer pf) wanted type_id codec_id payload else None }"
proof (cases "map_of (pi_entries (pf_index pf)) address")
  case None
  then show ?thesis using ok
    by (intro exI [of _ "pf_content_buffers pf"]) (simp add: prepare_restore_def stored_def)
next
  case (Some e)
  then have mem: "(address, e) \<in> set (pi_entries (pf_index pf))" by (rule map_of_SomeD)
  from load_content_at [OF ok mem] obtain l buffers where
    l: "load_content inflate fs (ie_content e) pf = (l, pf\<lparr>pf_content_buffers := buffers\<rparr>)"
      "pack_file_ok inflate fs (pf\<lparr>pf_content_buffers := buffers\<rparr>)"
      "Option.bind l (\<lambda>(content, start, until). slice_get content start until) = content_at inflate fs (pf_root pf) (ie_content e)" .
  let ?reject = "ie_etag e \<noteq> etag \<or> ie_type_id e \<noteq> wanted \<or> \<not> matches_codec (pf_serializer pf) (ie_type_id e) (ie_codec_id e)"
  show ?thesis
  proof (cases ?reject)
    case True
    then have "prepare_restore inflate fs wanted address etag pf = (None, pf\<lparr>pf_content_buffers := pf_content_buffers pf\<rparr>)"
      by (auto simp: prepare_restore_def Some)
    moreover have "do {
      (etag', type_id, codec_id, payload) \<leftarrow> stored inflate fs (pf_root pf) (pf_index pf) address;
      if etag' = etag \<and> type_id = wanted \<and> matches_codec (pf_serializer pf) type_id codec_id
      then serializer_decode (pf_serializer pf) wanted type_id codec_id payload else None } = None"
      using True by (auto simp: stored_def Some stored_item_def split: Option.bind_splits)
    ultimately show ?thesis using ok
      by (intro exI [of _ "pf_content_buffers pf"] exI [of _ None]) simp
  next
    case False
    then have p: "fst (prepare_restore inflate fs wanted address etag pf) =
        map_option (\<lambda>(content, start, until).
          \<lparr>rs_serializer = pf_serializer pf, rs_type_id = ie_type_id e, rs_codec_id = ie_codec_id e,
           rs_checksum = cr_checksum (ie_content e), rs_content = content, rs_start = start, rs_end = until\<rparr>) l"
      "snd (prepare_restore inflate fs wanted address etag pf) = pf\<lparr>pf_content_buffers := buffers\<rparr>"
      by (simp_all add: prepare_restore_def Some l)
    have "Option.bind (fst (prepare_restore inflate fs wanted address etag pf)) (restore_decode wanted) = do {
        frame \<leftarrow> content_at inflate fs (pf_root pf) (ie_content e);
        (type_id, codec_id, payload) \<leftarrow> decode_indexed_content frame (cr_checksum (ie_content e));
        if type_id \<noteq> ie_type_id e \<or> codec_id \<noteq> ie_codec_id e then None
        else serializer_decode (pf_serializer pf) wanted type_id codec_id payload }"
      unfolding p(1) l(3) [symmetric] by (cases l) (auto simp: restore_decode_def split: Option.bind_splits)
    also have "\<dots> = do {
        (etag', type_id, codec_id, payload) \<leftarrow> stored inflate fs (pf_root pf) (pf_index pf) address;
        if etag' = etag \<and> type_id = wanted \<and> matches_codec (pf_serializer pf) type_id codec_id
        then serializer_decode (pf_serializer pf) wanted type_id codec_id payload else None }"
      using False by (auto simp: stored_def Some stored_item_def split: Option.bind_splits)
    finally show ?thesis using l(2) p(2)
      by (intro exI [of _ buffers] exI [of _ "fst (prepare_restore inflate fs wanted address etag pf)"])
        (simp add: prod_eq_iff)
  qed
qed


lemma pack_file_ok_open:
  "coherent (pi_entries (current_index fs root)) \<Longrightarrow> pack_file_ok inflate fs (open_with_options fs root s collect)"
  by (simp add: pack_file_ok_def open_with_options_def)

text \<open>An access is recorded for an entry with the same etag, and never moves back.\<close>

lemma touch_updates:
  assumes "btree_ok (pf_access_updates pf)" and "touch address etag stamp pf = (changed, pf')"
  shows "\<exists>updates. pf' = pf\<lparr>pf_access_updates := updates\<rparr> \<and> btree_ok updates \<and>
    (changed \<longleftrightarrow> map_of updates \<noteq> map_of (pf_access_updates pf)) \<and>
    map_of updates = (case map_of (pi_entries (pf_index pf)) address of
        Some entry \<Rightarrow> if ie_etag entry = etag
          then (map_of (pf_access_updates pf))(address \<mapsto>
            (case map_of (pf_access_updates pf) address of
               None \<Rightarrow> max stamp (ie_last_access entry)
             | Some current \<Rightarrow> max current (max stamp (ie_last_access entry))))
          else map_of (pf_access_updates pf)
      | None \<Rightarrow> map_of (pf_access_updates pf))"
proof -
  have upd: "(map_of (pf_access_updates pf))(address \<mapsto> x) \<noteq> map_of (pf_access_updates pf)"
    if "map_of (pf_access_updates pf) address \<noteq> Some x" for x
    using that by (metis fun_upd_same)
  have same: "(map_of (pf_access_updates pf))(address \<mapsto> x) = map_of (pf_access_updates pf)"
    if "map_of (pf_access_updates pf) address = Some x" for x
    using that by (simp add: fun_upd_idem)
  show ?thesis
  proof (cases "\<exists>entry. map_of (pi_entries (pf_index pf)) address = Some entry \<and> ie_etag entry = etag")
    case False
    then have "changed = False" "pf' = pf" using assms(2) by (auto simp: touch_def split: option.splits)
    with False assms(1) show ?thesis
      by (intro exI [of _ "pf_access_updates pf"]) (auto split: option.splits)
  next
    case True
    then obtain entry where e: "map_of (pi_entries (pf_index pf)) address = Some entry" "ie_etag entry = etag" by blast
    let ?s = "max stamp (ie_last_access entry)"
    show ?thesis
    proof (cases "map_of (pf_access_updates pf) address")
      case None
      with assms e have "changed" "pf' = pf\<lparr>pf_access_updates := btree_insert address ?s (pf_access_updates pf)\<rparr>"
        by (auto simp: touch_def)
      with None e assms(1) upd [of ?s] show ?thesis
        by (intro exI [of _ "btree_insert address ?s (pf_access_updates pf)"]) (simp add: btree_ok_insert btree_get_insert)
    next
      case (Some current)
      show ?thesis
      proof (cases "current < ?s")
        case True
        with Some assms e have "changed" "pf' = pf\<lparr>pf_access_updates := btree_insert address ?s (pf_access_updates pf)\<rparr>"
          by (auto simp: touch_def)
        with Some e assms(1) upd [of ?s] True show ?thesis
          by (intro exI [of _ "btree_insert address ?s (pf_access_updates pf)"])
            (simp add: btree_ok_insert btree_get_insert max_def)
      next
        case False
        with Some assms e have "changed = False" "pf' = pf" by (auto simp: touch_def)
        with Some e assms(1) same [of current] False show ?thesis
          by (intro exI [of _ "pf_access_updates pf"]) (simp add: max_def)
      qed
    qed
  qed
qed

end
