(* ===== verification/Pack_Publish.thy ===== *)
theory Pack_Publish
  imports Pack_File Render_Ids
begin

text \<open>
  Publication (\<open>publish_batch\<close> of \<open>pack_file.rs\<close>): the entries that stay, the packs that are rewritten,
  the new packs and the index that replaces the old one.  The calls to the file system, reads included, run
  under a list of fates: a call succeeds, fails, or the process stops in it; a write that does not succeed can
  leave any part of its bytes in the file, and a read that fails finds no file.  \<open>deflate\<close> stands for the encoders of \<open>flate2\<close> and \<open>brotli\<close>.
\<close>

type_synonym deflate = "compression \<Rightarrow> bytes \<Rightarrow> io_error + bytes"

section \<open>Calls to the file system\<close>

datatype fate = Succeeds | Fails io_error "nat option" | Stops "nat option"

record disk =
  dk_files :: files
  dk_fates :: "fate list"

datatype 'a outcome = Returns 'a | Raises io_error | Halts

type_synonym 'a effect = "disk \<Rightarrow> 'a outcome \<times> disk"

definition ret :: "'a \<Rightarrow> 'a effect" where
  "ret x d = (Returns x, d)"

definition raise :: "io_error \<Rightarrow> 'a effect" where
  "raise e d = (Raises e, d)"

definition halt :: "'a effect" where
  "halt d = (Halts, d)"

text \<open>The operator \<open>?\<close>; a result inspected by \<open>if let Err\<close>; a result that is ignored.\<close>

definition and_then :: "'a effect \<Rightarrow> ('a \<Rightarrow> 'b effect) \<Rightarrow> 'b effect" where
  "and_then m f d = (case m d of
      (Returns x, d) \<Rightarrow> f x d
    | (Raises e, d) \<Rightarrow> (Raises e, d)
    | (Halts, d) \<Rightarrow> (Halts, d))"

definition attempt :: "'a effect \<Rightarrow> (io_error + 'a) effect" where
  "attempt m d = (case m d of
      (Returns x, d) \<Rightarrow> (Returns (Inr x), d)
    | (Raises e, d) \<Rightarrow> (Returns (Inl e), d)
    | (Halts, d) \<Rightarrow> (Halts, d))"

fun lift_result :: "io_error + 'a \<Rightarrow> 'a effect" where
  "lift_result (Inl e) = raise e"
| "lift_result (Inr x) = ret x"

fun next_fate :: "disk \<Rightarrow> fate \<times> disk" where
  "next_fate d = (case dk_fates d of
      [] \<Rightarrow> (Succeeds, d)
    | f # fs \<Rightarrow> (f, d\<lparr>dk_fates := fs\<rparr>))"

text \<open>
  What one \<open>read_bounded\<close> of a file sees: a file whose metadata or bytes cannot be read is taken for a
  missing one.
\<close>

definition read_files :: "path \<Rightarrow> files effect" where
  "read_files p d = (case next_fate d of
      (Succeeds, d) \<Rightarrow> (Returns (dk_files d), d)
    | (Fails e n, d) \<Rightarrow> (Returns ((dk_files d)(p := None)), d)
    | (Stops n, d) \<Rightarrow> (Halts, d))"

text \<open>\<open>create_dir_all\<close> and \<open>sync_directory\<close> do not change files.\<close>

definition directory_call :: "unit effect" where
  "directory_call d = (case next_fate d of
      (Succeeds, d) \<Rightarrow> (Returns (), d)
    | (Fails e n, d) \<Rightarrow> (Raises e, d)
    | (Stops n, d) \<Rightarrow> (Halts, d))"

definition write_partly :: "path \<Rightarrow> bytes \<Rightarrow> nat option \<Rightarrow> files \<Rightarrow> files" where
  "write_partly p bs n fs = (case n of None \<Rightarrow> fs | Some n \<Rightarrow> fs(p \<mapsto> take n bs))"

definition write_synced :: "path \<Rightarrow> bytes \<Rightarrow> unit effect" where
  "write_synced p bs d = (case next_fate d of
      (Succeeds, d) \<Rightarrow> (Returns (), d\<lparr>dk_files := (dk_files d)(p \<mapsto> bs)\<rparr>)
    | (Fails e n, d) \<Rightarrow> (Raises e, d\<lparr>dk_files := write_partly p bs n (dk_files d)\<rparr>)
    | (Stops n, d) \<Rightarrow> (Halts, d\<lparr>dk_files := write_partly p bs n (dk_files d)\<rparr>))"

definition not_found :: io_error where
  "not_found = IoError OtherKind ''No such file or directory''"

definition rename_file :: "path \<Rightarrow> path \<Rightarrow> unit effect" where
  "rename_file from dest d = (case next_fate d of
      (Succeeds, d) \<Rightarrow>
        (case dk_files d from of
           None \<Rightarrow> (Raises not_found, d)
         | Some bs \<Rightarrow> (Returns (), d\<lparr>dk_files := (dk_files d)(from := None, dest \<mapsto> bs)\<rparr>))
    | (Fails e n, d) \<Rightarrow> (Raises e, d)
    | (Stops n, d) \<Rightarrow> (Halts, d))"

definition remove_file :: "path \<Rightarrow> unit effect" where
  "remove_file p d = (case next_fate d of
      (Succeeds, d) \<Rightarrow>
        (case dk_files d p of
           None \<Rightarrow> (Raises not_found, d)
         | Some bs \<Rightarrow> (Returns (), d\<lparr>dk_files := (dk_files d)(p := None)\<rparr>))
    | (Fails e n, d) \<Rightarrow> (Raises e, d)
    | (Stops n, d) \<Rightarrow> (Halts, d))"

text \<open>A rename whose source is removed when it fails.\<close>

definition rename_or_remove :: "path \<Rightarrow> path \<Rightarrow> unit effect" where
  "rename_or_remove from dest = and_then (attempt (rename_file from dest)) (\<lambda>r. case r of
      Inr _ \<Rightarrow> ret ()
    | Inl e \<Rightarrow> and_then (attempt (remove_file from)) (\<lambda>_. raise e))"

section \<open>Batches and options\<close>

record pending_item =
  pd_etag :: "bytes option"
  pd_type_id :: bytes
  pd_codec_id :: bytes
  pd_payload :: bytes

record staged_item =
  sg_address :: address
  sg_pending :: "pending_item option"
  sg_frame :: bytes
  sg_used :: bool

record write_batch =
  wb_items :: "(address, pending_item) btree"
  wb_accesses :: "(address, nat) btree"

definition batch_new :: write_batch where
  "batch_new = \<lparr>wb_items = [], wb_accesses = []\<rparr>"

definition batch_insert ::
    "serializer \<Rightarrow> address \<Rightarrow> bytes option \<Rightarrow> pack_item \<Rightarrow> write_batch \<Rightarrow> io_error + write_batch" where
  "batch_insert serializer address etag item batch =
     (case serializer_encode serializer item of
        Inl e \<Rightarrow> Inl e
      | Inr (codec_id, payload) \<Rightarrow> Inr (batch\<lparr>wb_items := btree_insert address
          \<lparr>pd_etag = etag, pd_type_id = item_type_id item, pd_codec_id = codec_id, pd_payload = payload\<rparr>
          (wb_items batch)\<rparr>))"

definition record_access :: "address \<Rightarrow> nat \<Rightarrow> write_batch \<Rightarrow> write_batch" where
  "record_access address stamp batch = batch\<lparr>wb_accesses := btree_insert address
     (case map_of (wb_accesses batch) address of None \<Rightarrow> stamp | Some current \<Rightarrow> max current stamp)
     (wb_accesses batch)\<rparr>"

definition copy_access_updates_to :: "pack_file \<Rightarrow> write_batch \<Rightarrow> write_batch" where
  "copy_access_updates_to pf batch =
     fold (\<lambda>(address, stamp). record_access address stamp) (pf_access_updates pf) batch"

datatype publication_base = PreserveEntries nat | ReplaceAll

datatype publish_fault = NoFault | AfterContentCommit | BeforeIndexReplace

text \<open>Stamps count milliseconds; a \<open>Duration\<close> is a number of nanoseconds.\<close>

record retention =
  rt_now :: nat
  rt_max_age :: nat

record maintenance =
  mt_target_content_bytes :: nat
  mt_small_content_bytes :: nat
  mt_minimum_compactable_waste_bytes :: nat

definition production_maintenance :: maintenance where
  "production_maintenance = \<lparr>mt_target_content_bytes = 4194304, mt_small_content_bytes = 262144,
     mt_minimum_compactable_waste_bytes = 131072\<rparr>"

record publication_options =
  po_retention :: retention
  po_compression :: compression
  po_maintenance :: maintenance

definition publication_options_new :: "retention \<Rightarrow> compression \<Rightarrow> publication_options" where
  "publication_options_new retention k =
     \<lparr>po_retention = retention, po_compression = k, po_maintenance = production_maintenance\<rparr>"

definition entry_is_expired :: "index_entry \<Rightarrow> nat \<Rightarrow> retention \<Rightarrow> bool" where
  "entry_is_expired entry candidate_revision retention \<longleftrightarrow>
     (case ie_unused_since entry of None \<Rightarrow> False | Some revision \<Rightarrow> revision < candidate_revision) \<and>
     ie_last_access entry \<le> rt_now retention \<and>
     rt_max_age retention < (rt_now retention - ie_last_access entry) * 1000000"

section \<open>Which entries stay\<close>

definition base_entries :: "publication_base \<Rightarrow> pack_index \<Rightarrow> io_error + (address, index_entry) btree" where
  "base_entries base current = (case base of
      PreserveEntries expected_revision \<Rightarrow>
        if pi_revision current = expected_revision then Inr (pi_entries current)
        else Inl (IoError WouldBlock ''PackFile publication base revision changed'')
    | ReplaceAll \<Rightarrow> Inr [])"

definition age_entry :: "nat \<Rightarrow> nat option \<Rightarrow> index_entry \<Rightarrow> index_entry" where
  "age_entry revision access entry = (case access of
      Some access \<Rightarrow> entry\<lparr>ie_last_access := max (ie_last_access entry) access, ie_last_used := revision,
        ie_unused_since := None\<rparr>
    | None \<Rightarrow> if ie_unused_since entry = None then entry\<lparr>ie_unused_since := Some revision\<rparr> else entry)"

definition retained_entries ::
    "nat \<Rightarrow> retention \<Rightarrow> write_batch \<Rightarrow> (address, index_entry) btree \<Rightarrow> (address, index_entry) btree" where
  "retained_entries revision retention batch entries =
     (let pending = set (map fst (wb_items batch))
      in filter (\<lambda>(a, e). a \<in> pending \<or> \<not> entry_is_expired e revision retention)
           (map (\<lambda>(a, e). (a, if a \<in> pending then e else age_entry revision (map_of (wb_accesses batch) a) e)) entries))"

text \<open>
  The entries of each content file that are not replaced.  The source keeps their addresses and looks
  the entries up again; they do not change before the packs are written.
\<close>

type_synonym groups = "(path, (address \<times> index_entry) list) btree"

definition group_entry :: "address \<times> index_entry \<Rightarrow> groups \<Rightarrow> groups" where
  "group_entry x groups =
     (let file = cr_file (ie_content (snd x))
      in btree_insert file ((case map_of groups file of None \<Rightarrow> [] | Some xs \<Rightarrow> xs) @ [x]) groups)"

definition entries_by_content_file :: "write_batch \<Rightarrow> (address, index_entry) btree \<Rightarrow> groups" where
  "entries_by_content_file batch entries =
     (let pending = set (map fst (wb_items batch))
      in fold group_entry (filter (\<lambda>(a, e). a \<notin> pending) entries) [])"

section \<open>Which packs are rewritten\<close>

definition is_small_used :: "maintenance \<Rightarrow> (address \<times> index_entry) list \<Rightarrow> bool" where
  "is_small_used mt xs = (case xs of
      [] \<Rightarrow> False
    | (_, first) # _ \<Rightarrow> cr_pack_size (ie_content first) \<le> mt_small_content_bytes mt \<and>
        list_ex (\<lambda>(a, e). ie_unused_since e = None) xs)"

definition live_bytes :: "(address \<times> index_entry) list \<Rightarrow> nat option" where
  "live_bytes xs = fold_opt (\<lambda>(a, e) total.
     if u64_max < total + cr_length (ie_content e) then None else Some (total + cr_length (ie_content e))) xs 0"

definition is_maintained :: "maintenance \<Rightarrow> bool \<Rightarrow> (address \<times> index_entry) list \<Rightarrow> bool" where
  "is_maintained mt merged xs = (case xs of
      [] \<Rightarrow> False
    | (_, first) # _ \<Rightarrow>
       (case live_bytes xs of
          None \<Rightarrow> False
        | Some live \<Rightarrow>
           let pack_size = cr_pack_size (ie_content first); waste = pack_size - live
           in mt_minimum_compactable_waste_bytes mt \<le> waste \<and> pack_size * 25 \<le> waste * 100
              \<or> mt_target_content_bytes mt < pack_size
              \<or> merged))"

definition maintenance_sources :: "maintenance \<Rightarrow> groups \<Rightarrow> groups" where
  "maintenance_sources mt groups =
     (let small = map fst (filter (\<lambda>(file, xs). is_small_used mt xs) groups)
      in filter (\<lambda>(file, xs). is_maintained mt (2 \<le> length small \<and> file \<in> set small) xs) groups)"

section \<open>Staging\<close>

fun map_result :: "('a \<Rightarrow> 'e + 'b) \<Rightarrow> 'a list \<Rightarrow> 'e + 'b list" where
  "map_result f [] = Inr []"
| "map_result f (x # xs) = (case f x of
      Inl e \<Rightarrow> Inl e
    | Inr y \<Rightarrow> (case map_result f xs of Inl e \<Rightarrow> Inl e | Inr ys \<Rightarrow> Inr (y # ys)))"

definition invalid_data :: "string \<Rightarrow> io_error" where
  "invalid_data message = IoError InvalidData message"

definition stage_frame :: "bytes \<Rightarrow> address \<times> index_entry \<Rightarrow> io_error + staged_item" where
  "stage_frame pack = (\<lambda>(address, entry).
     let r = ie_content entry; start = cr_offset r; until = start + cr_length r
     in if u64_max < until then Inl (invalid_data ''content reference overflow'')
        else case slice_get pack start until of
          None \<Rightarrow> Inl (invalid_data ''content reference is out of bounds'')
        | Some frame \<Rightarrow>
            if checksum frame = cr_checksum r \<and>
               (case decode_content frame of
                  None \<Rightarrow> False
                | Some (type_id, codec_id, _) \<Rightarrow> type_id = ie_type_id entry \<and> codec_id = ie_codec_id entry)
            then Inr \<lparr>sg_address = address, sg_pending = None, sg_frame = frame, sg_used = (ie_unused_since entry = None)\<rparr>
            else Inl (invalid_data ''PackFile maintenance found invalid content''))"

definition stage_pack ::
    "inflate \<Rightarrow> files \<Rightarrow> path \<Rightarrow> path \<times> (address \<times> index_entry) list \<Rightarrow> io_error + staged_item list" where
  "stage_pack inflate fs root = (\<lambda>(file, xs). case xs of
      [] \<Rightarrow> Inr []
    | (_, first) # _ \<Rightarrow>
       (case read_content_pack inflate fs (path_join root file) (cr_compression (ie_content first))
               (cr_pack_size (ie_content first)) of
          None \<Rightarrow> Inl (invalid_data (''PackFile maintenance could not read '' @ path_string file))
        | Some pack \<Rightarrow> map_result (stage_frame pack) (sort_key (\<lambda>(a, e). cr_offset (ie_content e)) xs)))"

definition stage_pending :: "address \<times> pending_item \<Rightarrow> io_error + staged_item" where
  "stage_pending = (\<lambda>(address, item). case encode_content (pd_type_id item) (pd_codec_id item) (pd_payload item) of
      Inl e \<Rightarrow> Inl e
    | Inr frame \<Rightarrow> Inr \<lparr>sg_address = address, sg_pending = Some item, sg_frame = frame, sg_used = True\<rparr>)"

fun stage_packs :: "inflate \<Rightarrow> path \<Rightarrow> groups \<Rightarrow> staged_item list effect" where
  "stage_packs inflate root [] = ret []"
| "stage_packs inflate root (source # sources) =
     and_then (read_files (path_join root (fst source))) (\<lambda>fs.
     and_then (lift_result (stage_pack inflate fs root source)) (\<lambda>items.
     and_then (stage_packs inflate root sources) (\<lambda>rest. ret (items @ rest))))"

definition stage_items :: "inflate \<Rightarrow> path \<Rightarrow> groups \<Rightarrow> write_batch \<Rightarrow> staged_item list effect" where
  "stage_items inflate root sources batch =
     and_then (stage_packs inflate root sources) (\<lambda>maintained.
     and_then (lift_result (map_result stage_pending (wb_items batch))) (\<lambda>added. ret (maintained @ added)))"

section \<open>Assembling packs\<close>

type_synonym assembly = "staged_item list list \<times> staged_item list \<times> nat \<times> bool option"

text \<open>A pack is closed when an item of the other kind follows, or one that would exceed the target.\<close>

definition starts_pack :: "nat \<Rightarrow> staged_item \<Rightarrow> staged_item list \<Rightarrow> nat \<Rightarrow> bool option \<Rightarrow> bool" where
  "starts_pack target item current_pack current_bytes current_used \<longleftrightarrow> current_pack \<noteq> [] \<and>
     (current_used \<noteq> Some (sg_used item) \<or> target < min u64_max (current_bytes + length (sg_frame item)))"

definition assemble_step :: "nat \<Rightarrow> staged_item \<Rightarrow> assembly \<Rightarrow> io_error + assembly" where
  "assemble_step target item = (\<lambda>(packs, current_pack, current_bytes, current_used).
     let split = starts_pack target item current_pack current_bytes current_used;
         packs = (if split then packs @ [current_pack] else packs);
         current_pack = (if split then [] else current_pack);
         current_bytes = (if split then 0 else current_bytes) + length (sg_frame item)
     in if u64_max < current_bytes then Inl (invalid_data ''content pack size overflow'')
        else if max_content_bytes < current_bytes then Inl (invalid_data ''content pack exceeds the configured bound'')
        else Inr (packs, current_pack @ [item], current_bytes, Some (sg_used item)))"

fun fold_result :: "('a \<Rightarrow> 's \<Rightarrow> 'e + 's) \<Rightarrow> 'a list \<Rightarrow> 's \<Rightarrow> 'e + 's" where
  "fold_result f [] s = Inr s"
| "fold_result f (x # xs) s = (case f x s of Inl e \<Rightarrow> Inl e | Inr s \<Rightarrow> fold_result f xs s)"

definition assemble_packs :: "nat \<Rightarrow> staged_item list \<Rightarrow> io_error + staged_item list list" where
  "assemble_packs target items =
     (case fold_result (assemble_step target) (sort_key (\<lambda>item. \<not> sg_used item) items) ([], [], 0, None) of
        Inl e \<Rightarrow> Inl e
      | Inr (packs, current_pack, _) \<Rightarrow> Inr (if current_pack = [] then packs else packs @ [current_pack]))"

section \<open>Writing packs\<close>

fun hexadecimal :: "nat \<Rightarrow> string" where
  "hexadecimal n = (if n < 16 then [digit_char n] else hexadecimal (n div 16) @ [digit_char (n mod 16)])"

declare hexadecimal.simps [simp del]

text \<open>The format \<open>{n:0wx}\<close>.\<close>

definition hex_padded :: "nat \<Rightarrow> nat \<Rightarrow> string" where
  "hex_padded w n = (let h = hexadecimal n in replicate (w - length h) (CHR ''0'') @ h)"

fun pack_extension :: "compression \<Rightarrow> string" where
  "pack_extension NoCompression = ''.bin''"
| "pack_extension Gzip = ''.bin.gz''"
| "pack_extension Brotli = ''.bin.br''"

definition content_pack_filename :: "nat \<Rightarrow> nat \<Rightarrow> nat \<Rightarrow> compression \<Rightarrow> string" where
  "content_pack_filename revision pack_index pack_count k =
     ''pack-'' @ hex_padded 16 revision @
     (if pack_count = 1 then '''' else ''-'' @ hex_padded 4 pack_index) @ pack_extension k"

definition encode_content_pack :: "deflate \<Rightarrow> bytes \<Rightarrow> compression \<Rightarrow> io_error + bytes" where
  "encode_content_pack deflate content k =
     (case (case k of NoCompression \<Rightarrow> Inr content | _ \<Rightarrow> deflate k content) of
        Inl e \<Rightarrow> Inl e
      | Inr encoded \<Rightarrow>
         if max_encoded_content_bytes < length encoded
         then Inl (invalid_data ''encoded content pack exceeds the configured bound'')
         else Inr encoded)"

text \<open>The index entry of an item whose frame was put into a pack; \<open>expect\<close> panics without an old one.\<close>

definition place_item ::
    "retention \<Rightarrow> nat \<Rightarrow> content_reference \<Rightarrow> staged_item \<Rightarrow> (address, index_entry) btree \<Rightarrow>
     (address, index_entry) btree option" where
  "place_item retention revision content item entries = (case sg_pending item of
      Some pending \<Rightarrow> Some (btree_insert (sg_address item)
        \<lparr>ie_etag = pd_etag pending, ie_type_id = pd_type_id pending, ie_codec_id = pd_codec_id pending,
         ie_content = content, ie_last_access = rt_now retention, ie_last_used = revision,
         ie_unused_since = None\<rparr> entries)
    | None \<Rightarrow> do {
        entry \<leftarrow> map_of entries (sg_address item);
        Some (btree_insert (sg_address item) (entry\<lparr>ie_content := content\<rparr>) entries) })"

definition pack_item_step ::
    "retention \<Rightarrow> nat \<Rightarrow> path \<Rightarrow> nat \<Rightarrow> compression \<Rightarrow> staged_item \<Rightarrow>
     bytes \<times> (address, index_entry) btree \<Rightarrow> (bytes \<times> (address, index_entry) btree) option" where
  "pack_item_step retention revision file pack_size k item = (\<lambda>(content_pack, entries).
     map_option (Pair (content_pack @ sg_frame item))
       (place_item retention revision
          \<lparr>cr_file = file, cr_offset = length content_pack, cr_length = length (sg_frame item),
           cr_checksum = checksum (sg_frame item), cr_pack_size = pack_size, cr_compression = k\<rparr>
          item entries))"

definition write_pack ::
    "deflate \<Rightarrow> path \<Rightarrow> nat \<Rightarrow> publication_options \<Rightarrow> nat \<Rightarrow> nat \<times> staged_item list \<Rightarrow>
     (address, index_entry) btree \<Rightarrow> (address, index_entry) btree effect" where
  "write_pack deflate root revision opts pack_count = (\<lambda>(pack_index, pack) entries.
     let filename = content_pack_filename revision pack_index pack_count (po_compression opts);
         file = [Normal ''content'', Normal filename];
         pack_size = sum_list (map (\<lambda>item. length (sg_frame item)) pack);
         temporary_path = path_join root [Normal ''content'', Normal (''.'' @ filename @ ''.tmp'')]
     in if u64_max < pack_size then raise (invalid_data ''content pack size overflow'')
        else case fold_opt (pack_item_step (po_retention opts) revision file pack_size (po_compression opts)) pack ([], entries) of
          None \<Rightarrow> halt
        | Some (content_pack, entries) \<Rightarrow>
            and_then (lift_result (encode_content_pack deflate content_pack (po_compression opts))) (\<lambda>encoded.
            and_then (write_synced temporary_path encoded) (\<lambda>_.
            and_then (rename_or_remove temporary_path (path_join root file)) (\<lambda>_.
            ret entries))))"

fun fold_effect :: "('a \<Rightarrow> 's \<Rightarrow> 's effect) \<Rightarrow> 'a list \<Rightarrow> 's \<Rightarrow> 's effect" where
  "fold_effect f [] s = ret s"
| "fold_effect f (x # xs) s = and_then (f x s) (fold_effect f xs)"

section \<open>Publishing\<close>

definition referenced_files :: "(address, index_entry) btree \<Rightarrow> path list" where
  "referenced_files entries = remdups_adj (sort (map (\<lambda>(a, e). cr_file (ie_content e)) entries))"

definition remove_stale :: "path \<Rightarrow> path list \<Rightarrow> unit effect" where
  "remove_stale root stale = and_then
     (fold_effect (\<lambda>file removed. and_then (attempt (remove_file (path_join root file)))
        (\<lambda>r. ret (removed \<or> (case r of Inr _ \<Rightarrow> True | Inl _ \<Rightarrow> False)))) stale False)
     (\<lambda>removed. if removed then and_then (attempt directory_call) (\<lambda>_. ret ()) else ret ())"

definition injected_publish_error :: "string \<Rightarrow> io_error" where
  "injected_publish_error point = IoError OtherKind (''injected PackFile failure '' @ point)"

text \<open>The last part: the new index replaces the old one, and what only that referred to is removed.\<close>

definition commit_index ::
    "path \<Rightarrow> publish_fault \<Rightarrow> pack_index \<Rightarrow> path list \<Rightarrow> unit effect" where
  "commit_index root fault index previous =
     (let temporary_index = path_join root [Normal (''.index.pack-'' @ hex_padded 16 (pi_revision index) @ ''.tmp'')]
      in and_then (lift_result (encode_index index)) (\<lambda>index_bytes.
         and_then (write_synced temporary_index index_bytes) (\<lambda>_.
         and_then (if fault = BeforeIndexReplace
             then and_then (attempt (remove_file temporary_index)) (\<lambda>_. raise (injected_publish_error ''before index replacement''))
             else ret ()) (\<lambda>_.
         and_then (rename_or_remove temporary_index (index_path root)) (\<lambda>_.
         and_then directory_call (\<lambda>_.
         remove_stale root (filter (\<lambda>file. file \<notin> set (referenced_files (pi_entries index))) previous)))))))"

definition publish_packs ::
    "deflate \<Rightarrow> path \<Rightarrow> pack_guard option \<Rightarrow> publication_options \<Rightarrow> publish_fault \<Rightarrow> nat \<Rightarrow>
     (address, index_entry) btree \<Rightarrow> path list \<Rightarrow> staged_item list \<Rightarrow> unit effect" where
  "publish_packs deflate root guard opts fault revision entries previous staged =
     and_then directory_call (\<lambda>_.
     and_then directory_call (\<lambda>_.
     and_then (lift_result (assemble_packs (mt_target_content_bytes (po_maintenance opts)) staged)) (\<lambda>packs.
     and_then (fold_effect (write_pack deflate root revision opts (length packs)) (enumerate 0 packs) entries) (\<lambda>entries.
     and_then (if 0 < length packs then directory_call else ret ()) (\<lambda>_.
     and_then (if fault = AfterContentCommit then raise (injected_publish_error ''after content commit'') else ret ()) (\<lambda>_.
     commit_index root fault \<lparr>pi_revision = revision, pi_guard = guard, pi_entries = entries\<rparr> previous))))))"

text \<open>The body of \<open>publish_batch\<close> from the index that was read on, and the whole.\<close>

definition publish_over ::
    "inflate \<Rightarrow> deflate \<Rightarrow> path \<Rightarrow> pack_guard option \<Rightarrow> publication_base \<Rightarrow> write_batch \<Rightarrow> publication_options \<Rightarrow>
     publish_fault \<Rightarrow> pack_index \<Rightarrow> unit effect" where
  "publish_over inflate deflate root guard base batch opts fault current =
     (let revision = pi_revision current + 1
      in and_then (lift_result (base_entries base current)) (\<lambda>entries.
         if u64_max < revision then raise (invalid_data ''PackFile revision overflow'')
         else let entries = retained_entries revision (po_retention opts) batch entries;
                  sources = maintenance_sources (po_maintenance opts) (entries_by_content_file batch entries)
              in and_then (stage_items inflate root sources batch) (\<lambda>staged.
                 publish_packs deflate root guard opts fault revision entries
                   (referenced_files (pi_entries current)) staged)))"

definition publish_batch ::
    "inflate \<Rightarrow> deflate \<Rightarrow> path \<Rightarrow> pack_guard option \<Rightarrow> publication_base \<Rightarrow> write_batch \<Rightarrow> publication_options \<Rightarrow>
     publish_fault \<Rightarrow> unit effect" where
  "publish_batch inflate deflate root guard base batch opts fault =
     (if mt_target_content_bytes (po_maintenance opts) = 0 \<or>
         max_content_bytes < mt_target_content_bytes (po_maintenance opts)
      then raise (IoError InvalidInput ''PackFile target content size is outside the configured bound'')
      else and_then (read_files (index_path root)) (\<lambda>fs.
        publish_over inflate deflate root guard base batch opts fault (current_index fs root)))"

text \<open>
  The first call of a publication reads the index.  When it fails, the publication goes on as in a directory
  without an index, unless it expects the entries of a later revision.  Where that is so the files of the
  first revision, which the index on the disk may refer to, are written again; what is proved of a
  publication excludes this case.
\<close>

definition index_is_seen :: "path \<Rightarrow> publication_base \<Rightarrow> disk \<Rightarrow> bool" where
  "index_is_seen root base d \<longleftrightarrow> (\<forall>e n fates. dk_fates d = Fails e n # fates \<longrightarrow>
     current_index (dk_files d) root = empty_index \<or> (\<exists>revision. base = PreserveEntries (Suc revision)))"

end
