(* ===== verification/File_System.thy ===== *)
theory File_System
  imports Paths Stable_Hash
begin

text \<open>
  What the snapshots of \<open>snapshot.rs\<close> see of the file system: a tree of directories, files and symbolic
  links, and the calls of \<open>std::fs\<close> on it.  A path is resolved component by component; at most
  forty links are followed, as on Linux.  A directory says whether it may be listed.  A time is the number of nanoseconds since the epoch.
\<close>

type_synonym system_time = int

datatype node =
    FileNode system_time "bytes option"
  | DirNode system_time bool "(string \<times> node) list"
  | LinkNode system_time path

text \<open>The kinds of \<open>io::Error\<close> that the code tells apart; a file without contents cannot be read.\<close>

datatype fs_error = NotFound | OtherError string

fun fs_message :: "fs_error \<Rightarrow> string" where
  "fs_message NotFound = ''No such file or directory (os error 2)''"
| "fs_message (OtherError m) = m"

record file_system =
  fs_root :: node
  fs_cwd :: "string list"

type_synonym trail = "(string \<times> node) list"

definition trail_node :: "file_system \<Rightarrow> trail \<Rightarrow> node" where
  "trail_node fs t = (case t of [] \<Rightarrow> fs_root fs | (_, n) # _ \<Rightarrow> n)"

text \<open>The trail holds the directories below the root that lead to the node, the last one first.\<close>

function resolve :: "file_system \<Rightarrow> bool \<Rightarrow> nat \<Rightarrow> trail \<Rightarrow> path \<Rightarrow> fs_error + trail" where
  "resolve fs follow links t [] = Inr t"
| "resolve fs follow links t (RootDir # p) = resolve fs follow links [] p"
| "resolve fs follow links t (CurDir # p) = resolve fs follow links t p"
| "resolve fs follow links t (ParentDir # p) = resolve fs follow links (tl t) p"
| "resolve fs follow links t (Normal n # p) =
     (case trail_node fs t of
        DirNode _ _ entries \<Rightarrow>
         (case map_of entries n of
            None \<Rightarrow> Inl NotFound
          | Some (LinkNode stamp dest) \<Rightarrow>
              if p = [] \<and> \<not> follow then Inr ((n, LinkNode stamp dest) # t)
              else if links = 0 then Inl (OtherError ''Too many levels of symbolic links (os error 40)'')
              else resolve fs follow (links - 1) t (dest @ p)
          | Some child \<Rightarrow> resolve fs follow links ((n, child) # t) p)
      | _ \<Rightarrow> Inl (OtherError ''Not a directory (os error 20)''))"
  by pat_completeness auto
termination
  by (relation "measures [\<lambda>(fs, follow, links, t, p). links, \<lambda>(fs, follow, links, t, p). length p]") auto

definition locate :: "file_system \<Rightarrow> bool \<Rightarrow> path \<Rightarrow> fs_error + trail" where
  "locate fs follow p =
     (if p = [] then Inl NotFound
      else case resolve fs True 40 [] (map Normal (fs_cwd fs)) of
        Inl e \<Rightarrow> Inl e
      | Inr t \<Rightarrow> resolve fs follow 40 t p)"

text \<open>\<open>fs::metadata\<close>, \<open>fs::symlink_metadata\<close>, \<open>fs::read\<close> and \<open>fs::canonicalize\<close>.\<close>

definition fs_metadata :: "file_system \<Rightarrow> path \<Rightarrow> fs_error + node" where
  "fs_metadata fs p = map_sum id (trail_node fs) (locate fs True p)"

definition fs_symlink_metadata :: "file_system \<Rightarrow> path \<Rightarrow> fs_error + node" where
  "fs_symlink_metadata fs p = map_sum id (trail_node fs) (locate fs False p)"

definition fs_read :: "file_system \<Rightarrow> path \<Rightarrow> fs_error + bytes" where
  "fs_read fs p = (case fs_metadata fs p of
      Inl e \<Rightarrow> Inl e
    | Inr (FileNode _ (Some content)) \<Rightarrow> Inr content
    | Inr (FileNode _ None) \<Rightarrow> Inl (OtherError ''Permission denied (os error 13)'')
    | Inr _ \<Rightarrow> Inl (OtherError ''Is a directory (os error 21)''))"

definition fs_canonicalize :: "file_system \<Rightarrow> path \<Rightarrow> fs_error + path" where
  "fs_canonicalize fs p = map_sum id (\<lambda>t. RootDir # map (\<lambda>(n, _). Normal n) (rev t)) (locate fs True p)"

fun node_modified :: "node \<Rightarrow> system_time" where
  "node_modified (FileNode stamp _) = stamp"
| "node_modified (DirNode stamp _ _) = stamp"
| "node_modified (LinkNode stamp _) = stamp"

fun node_is_dir :: "node \<Rightarrow> bool" where
  "node_is_dir (DirNode _ _ _) = True"
| "node_is_dir _ = False"

definition fs_is_dir :: "file_system \<Rightarrow> path \<Rightarrow> bool" where
  "fs_is_dir fs p = (case fs_metadata fs p of Inr n \<Rightarrow> node_is_dir n | Inl _ \<Rightarrow> False)"

definition fs_exists :: "file_system \<Rightarrow> path \<Rightarrow> bool" where
  "fs_exists fs p = (case fs_metadata fs p of Inr _ \<Rightarrow> True | Inl _ \<Rightarrow> False)"

text \<open>What can be read exists.\<close>

lemma fs_read_metadata:
  assumes "fs_read fs p = Inr content"
  obtains stamp where "fs_metadata fs p = Inr (FileNode stamp (Some content))"
  using assms by (auto simp: fs_read_def split: sum.splits node.splits option.splits)

end
