(* ===== verification/Snapshots.thy ===== *)
theory Snapshots
  imports Module_Model Path_Text File_System "HOL-Library.Multiset"
begin

text \<open>
  Snapshots of files, directories and managed packages (\<open>snapshot.rs\<close>): how a snapshot is taken and when
  it is still valid.  The file system is an argument; the regular expressions of the options and the
  parser of \<open>package.json\<close> belong to other crates and are the fields of \<open>snapshot_env\<close>.  The shared
  \<open>SnapshotCache\<close> is passed along and returned; without one it stays \<^term>\<open>None\<close>.
\<close>

section \<open>Options and the classification of paths\<close>

record snapshot_strategy =
  st_timestamp :: bool
  st_hash :: bool

definition strategy_timestamp :: snapshot_strategy where
  "strategy_timestamp = \<lparr>st_timestamp = True, st_hash = False\<rparr>"

datatype path_pattern = PathPattern path | RegexPattern string string | NodeModulesPattern

record file_system_info =
  fi_managed_paths :: "path_pattern list"
  fi_immutable_paths :: "path_pattern list"
  fi_unmanaged_paths :: "path_pattern list"

definition for_build_dependencies :: file_system_info where
  "for_build_dependencies = \<lparr>fi_managed_paths = [], fi_immutable_paths = [], fi_unmanaged_paths = []\<rparr>"

text \<open>
  A pattern with its case flag on a text: \<^term>\<open>None\<close> if the pattern does not compile, then
  \<^term>\<open>None\<close> if it does not match, then its first group, if that took part in the match.
\<close>

record snapshot_env =
  se_regex :: "string \<Rightarrow> bool \<Rightarrow> string \<Rightarrow> string option option option"
  se_package :: "bytes \<Rightarrow> (string \<times> string) option"

definition has_component :: "path \<Rightarrow> string \<Rightarrow> bool" where
  "has_component p name \<longleftrightarrow> list_ex (\<lambda>c. component_string c = name) p"

definition path_file_name :: "path \<Rightarrow> string option" where
  "path_file_name p = (if p = [] then None else case last p of Normal s \<Rightarrow> Some s | _ \<Rightarrow> None)"

definition normalize_path_for_matching :: "path \<Rightarrow> string" where
  "normalize_path_for_matching p = map (\<lambda>c. if c = CHR 0x5C then CHR ''/'' else c) (path_string p)"

fun pattern_matches :: "snapshot_env \<Rightarrow> path \<Rightarrow> path_pattern \<Rightarrow> bool" where
  "pattern_matches env p (PathPattern pattern) = path_starts_with p pattern"
| "pattern_matches env p (RegexPattern source flags) =
     (case se_regex env source (flags = ''i'') (normalize_path_for_matching p) of
        Some (Some _) \<Rightarrow> True
      | _ \<Rightarrow> False)"
| "pattern_matches env p NodeModulesPattern = has_component p ''node_modules''"

datatype boundary = NodeModulesBoundary | PathBoundary path

fun managed_boundary :: "snapshot_env \<Rightarrow> path \<Rightarrow> path_pattern \<Rightarrow> boundary option" where
  "managed_boundary env p (PathPattern pattern) =
     (if path_starts_with p pattern then Some (PathBoundary pattern) else None)"
| "managed_boundary env p (RegexPattern source flags) =
     (case se_regex env source (flags = ''i'') (normalize_path_for_matching p) of
        Some (Some (Some capture)) \<Rightarrow> Some (PathBoundary (path_parse capture))
      | _ \<Rightarrow> None)"
| "managed_boundary env p NodeModulesPattern =
     (if has_component p ''node_modules'' then Some NodeModulesBoundary else None)"

datatype classification = Unmanaged | Immutable | Managed boundary | Unclassified

fun first_some :: "('a \<Rightarrow> 'b option) \<Rightarrow> 'a list \<Rightarrow> 'b option" where
  "first_some f [] = None"
| "first_some f (x # xs) = (case f x of None \<Rightarrow> first_some f xs | Some y \<Rightarrow> Some y)"

definition classify_path :: "snapshot_env \<Rightarrow> file_system_info \<Rightarrow> path \<Rightarrow> classification" where
  "classify_path env info p =
     (if list_ex (pattern_matches env p) (fi_unmanaged_paths info) then Unmanaged
      else if list_ex (pattern_matches env p) (fi_immutable_paths info) then Immutable
      else case first_some (managed_boundary env p) (fi_managed_paths info) of
        Some b \<Rightarrow> Managed b
      | None \<Rightarrow> Unclassified)"

section \<open>Managed packages\<close>

datatype managed_state = NodeModules | GroupingFolder | Package string string

definition managed_state_create :: "snapshot_env \<Rightarrow> file_system \<Rightarrow> path \<Rightarrow> managed_state option" where
  "managed_state_create env fs root =
     (if path_file_name root = Some ''node_modules'' then Some NodeModules
      else if (case path_file_name root of Some name \<Rightarrow> prefix ''@'' name | None \<Rightarrow> False) then Some GroupingFolder
      else case fs_read fs (path_join root [Normal ''package.json'']) of
        Inl _ \<Rightarrow> None
      | Inr source \<Rightarrow> map_option (\<lambda>(name, version). Package name version) (se_package env source))"

text \<open>The last component with this name.\<close>

definition last_component :: "string \<Rightarrow> path \<Rightarrow> nat option" where
  "last_component name p = first_some (\<lambda>i. if component_string (p ! i) = name then Some i else None) (rev [0..<length p])"

definition managed_node_modules_item_root :: "path \<Rightarrow> path option option" where
  "managed_node_modules_item_root p = do {
     node_modules \<leftarrow> last_component ''node_modules'' p;
     (let item = node_modules + 1
      in if length p \<le> item then Some (Some (take (node_modules + 1) p))
         else if prefix ''.'' (component_string (p ! item)) then Some None
         else if prefix ''@'' (component_string (p ! item)) then
           (let package = item + 1
            in if length p \<le> package then Some (Some (take (item + 1) p))
               else if prefix ''.'' (component_string (p ! package)) then Some None
               else Some (Some (take (package + 1) p)))
         else Some (Some (take (item + 1) p))) }"

function nearest_loop :: "file_system \<Rightarrow> path \<Rightarrow> path \<Rightarrow> path option" where
  "nearest_loop fs boundary current =
     (if \<not> path_starts_with current boundary then None
      else if fs_exists fs (path_join current [Normal ''package.json'']) then Some current
      else if current = boundary then None
      else case path_parent current of None \<Rightarrow> None | Some parent \<Rightarrow> nearest_loop fs boundary parent)"
  by pat_completeness auto
termination
  by (relation "measure (\<lambda>(_, _, p). length p)") (auto simp: path_parent_def split: if_splits)

declare nearest_loop.simps [simp del]

definition nearest_package_root_within :: "file_system \<Rightarrow> path \<Rightarrow> path \<Rightarrow> path option" where
  "nearest_package_root_within fs p boundary = do {
     current \<leftarrow> (if fs_is_dir fs p then Some p else path_parent p);
     nearest_loop fs boundary current }"

definition or_else :: "'a option \<Rightarrow> 'a option \<Rightarrow> 'a option" where
  "or_else x y = (case x of Some v \<Rightarrow> Some v | None \<Rightarrow> y)"

fun managed_item_root :: "file_system \<Rightarrow> path \<Rightarrow> boundary \<Rightarrow> path option" where
  "managed_item_root fs p NodeModulesBoundary = Option.bind (managed_node_modules_item_root p) id"
| "managed_item_root fs p (PathBoundary boundary) =
     or_else (or_else (Option.bind (managed_node_modules_item_root p) id) (nearest_package_root_within fs p boundary))
       (Some boundary)"

record managed_snapshot =
  mp_path :: path
  mp_root :: path
  mp_state :: managed_state

definition managed_snapshot_create ::
    "snapshot_env \<Rightarrow> file_system \<Rightarrow> path \<Rightarrow> boundary \<Rightarrow> managed_snapshot option" where
  "managed_snapshot_create env fs p boundary = do {
     root \<leftarrow> managed_item_root fs p boundary;
     state \<leftarrow> managed_state_create env fs root;
     Some \<lparr>mp_path = p, mp_root = root, mp_state = state\<rparr> }"

definition ordinary_snapshot_applies :: "snapshot_env \<Rightarrow> file_system_info \<Rightarrow> file_system \<Rightarrow> path \<Rightarrow> bool" where
  "ordinary_snapshot_applies env info fs p = (case classify_path env info p of
      Unmanaged \<Rightarrow> True
    | Unclassified \<Rightarrow> True
    | Immutable \<Rightarrow> False
    | Managed b \<Rightarrow> managed_snapshot_create env fs p b = None)"

section \<open>What is recorded of a file or a directory\<close>

record file_snapshot =
  fsn_exists :: bool
  fsn_modified :: "system_time option"
  fsn_source_hash :: "u64 option"

record context_snapshot =
  cs_exists :: bool
  cs_timestamp_hash :: "u64 option"
  cs_content_hash :: "u64 option"

record directory_timestamp =
  dt_hash :: u64
  dt_is_dir :: bool

record snapshot_cache =
  sc_files :: "path \<times> snapshot_strategy \<rightharpoonup> file_snapshot"
  sc_timestamps :: "path \<rightharpoonup> directory_timestamp"
  sc_contents :: "path \<rightharpoonup> u64"
  sc_managed :: "path \<rightharpoonup> managed_state option"

definition snapshot_cache_new :: snapshot_cache where
  "snapshot_cache_new = \<lparr>sc_files = Map.empty, sc_timestamps = Map.empty, sc_contents = Map.empty, sc_managed = Map.empty\<rparr>"

definition read_error :: "path \<Rightarrow> fs_error \<Rightarrow> error" where
  "read_error p e = Read p (fs_message e)"

text \<open>A time before the epoch is the duration to it.\<close>

definition system_time_hash :: "system_time \<Rightarrow> u64" where
  "system_time_hash t =
     (let n = nat \<bar>t\<bar>
      in snapshot_hash_write (word_le 8 (word_of_nat (n mod 1000000000) :: u64))
           (snapshot_hash_write (word_le 8 (word_of_nat (n div 1000000000) :: u64))
             (snapshot_hash_write (str_bytes (if 0 \<le> t then ''+'' else ''-'')) snapshot_hash_new)))"

definition write_managed_timestamp_hash :: "managed_state \<Rightarrow> hasher \<Rightarrow> hasher" where
  "write_managed_timestamp_hash state h = (case state of
      Package _ version \<Rightarrow> snapshot_hash_write (str_bytes version) (snapshot_hash_write (str_bytes ''d'') h)
    | _ \<Rightarrow> h)"

definition write_managed_content_hash :: "managed_state \<Rightarrow> hasher \<Rightarrow> hasher" where
  "write_managed_content_hash state h = (case state of
      Package _ version \<Rightarrow> snapshot_hash_write (str_bytes version) h
    | _ \<Rightarrow> h)"

text \<open>The entries of a directory in the order of their names.\<close>

definition sorted_entries :: "(string \<times> node) list \<Rightarrow> (string \<times> node) list" where
  "sorted_entries = sort_key fst"

lemma set_sorted_entries [simp]: "set (sorted_entries es) = set es"
  by (simp add: sorted_entries_def)

lemma size_sorted_entries [termination_simp]: "size_list f (sorted_entries es) = size_list f es"
proof -
  have "size_list f xs = sum_list (map f xs) + length xs" for xs :: "(string \<times> node) list"
    by (induction xs) simp_all
  moreover have "sum_list (map f (sorted_entries es)) = sum_list (map f es)"
    by (simp add: sorted_entries_def flip: sum_mset_sum_list)
  ultimately show ?thesis by (simp add: sorted_entries_def)
qed

type_synonym cache = "snapshot_cache option"

text \<open>
  \<open>directory_timestamp_hash\<close> with its body for a path that is not in the cache, and the loop over the
  entries of a directory.
\<close>

function timestamp_hash ::
      "snapshot_env \<Rightarrow> file_system_info \<Rightarrow> file_system \<Rightarrow> path \<Rightarrow> node \<Rightarrow> cache \<Rightarrow> (error + directory_timestamp) \<times> cache"
  and timestamp_entries ::
      "snapshot_env \<Rightarrow> file_system_info \<Rightarrow> file_system \<Rightarrow> path \<Rightarrow> (string \<times> node) list \<Rightarrow> hasher \<Rightarrow> cache \<Rightarrow> hasher \<times> cache"
where
  "timestamp_hash env info fs p n cache =
     (case Option.bind cache (\<lambda>c. sc_timestamps c p) of
        Some h \<Rightarrow> (Inr h, cache)
      | None \<Rightarrow>
         (let (r, cache) = (case n of
                DirNode stamp listable entries \<Rightarrow>
                  if \<not> listable then (Inl (read_error p (OtherError ''Permission denied (os error 13)'')), cache)
                  else map_prod (\<lambda>h. Inr \<lparr>dt_hash = h, dt_is_dir = True\<rparr>) id
                         (timestamp_entries env info fs p (sorted_entries entries) snapshot_hash_new cache)
              | _ \<Rightarrow> (Inr \<lparr>dt_hash = system_time_hash (node_modified n), dt_is_dir = False\<rparr>, cache))
          in case r of
               Inl e \<Rightarrow> (Inl e, cache)
             | Inr h \<Rightarrow> (Inr h, map_option (sc_timestamps_update (\<lambda>m. m(p \<mapsto> h))) cache)))"
| "timestamp_entries env info fs p [] h cache = (h, cache)"
| "timestamp_entries env info fs p ((name, child) # entries) h cache =
     (let child_path = path_join p [Normal name]; named = snapshot_hash_write (str_bytes name) h
      in case classify_path env info child_path of
           Immutable \<Rightarrow> timestamp_entries env info fs p entries h cache
         | Managed boundary \<Rightarrow>
             timestamp_entries env info fs p entries
               (case managed_snapshot_create env fs child_path boundary of
                  Some s \<Rightarrow> write_managed_timestamp_hash (mp_state s) named
                | None \<Rightarrow> named) cache
         | _ \<Rightarrow>
            (let (r, cache) = timestamp_hash env info fs child_path child cache
             in timestamp_entries env info fs p entries
                  (case r of
                     Inr x \<Rightarrow> snapshot_hash_write (word_le 8 (dt_hash x))
                       (snapshot_hash_write (str_bytes (if dt_is_dir x then ''d'' else ''f'')) named)
                   | Inl _ \<Rightarrow> snapshot_hash_write (str_bytes ''n'') named) cache))"
  by pat_completeness auto
termination
  by (relation "measure (case_sum (\<lambda>(_, _, _, _, n, _). 2 * size n)
       (\<lambda>(_, _, _, _, es, _, _). 2 * size_list (size_prod (\<lambda>_. 0) size) es + 1))")
    (auto simp: size_sorted_entries)

definition directory_timestamp_hash ::
    "snapshot_env \<Rightarrow> file_system_info \<Rightarrow> file_system \<Rightarrow> path \<Rightarrow> cache \<Rightarrow> (error + directory_timestamp) \<times> cache" where
  "directory_timestamp_hash env info fs p cache =
     (case Option.bind cache (\<lambda>c. sc_timestamps c p) of
        Some h \<Rightarrow> (Inr h, cache)
      | None \<Rightarrow> (case fs_symlink_metadata fs p of
          Inl e \<Rightarrow> (Inl (read_error p e), cache)
        | Inr n \<Rightarrow> timestamp_hash env info fs p n cache))"

text \<open>\<open>directory_content_hash\<close>: here an entry that cannot be hashed fails the whole directory.\<close>

function content_hash ::
      "snapshot_env \<Rightarrow> file_system_info \<Rightarrow> file_system \<Rightarrow> path \<Rightarrow> node \<Rightarrow> cache \<Rightarrow> (error + u64) \<times> cache"
  and content_entries ::
      "snapshot_env \<Rightarrow> file_system_info \<Rightarrow> file_system \<Rightarrow> path \<Rightarrow> (string \<times> node) list \<Rightarrow> hasher \<Rightarrow> cache \<Rightarrow>
       (error + hasher) \<times> cache"
where
  "content_hash env info fs p n cache =
     (case Option.bind cache (\<lambda>c. sc_contents c p) of
        Some h \<Rightarrow> (Inr h, cache)
      | None \<Rightarrow>
         (let (r, cache) = (case n of
                DirNode stamp listable entries \<Rightarrow>
                  if \<not> listable then (Inl (read_error p (OtherError ''Permission denied (os error 13)'')), cache)
                  else content_entries env info fs p (sorted_entries entries) snapshot_hash_new cache
              | LinkNode stamp dest \<Rightarrow>
                  (map_sum (read_error p) (\<lambda>target. hash_bytes (str_bytes (path_string target))) (fs_canonicalize fs p), cache)
              | FileNode stamp content \<Rightarrow> (map_sum (read_error p) hash_bytes (fs_read fs p), cache))
          in case r of
               Inl e \<Rightarrow> (Inl e, cache)
             | Inr h \<Rightarrow> (Inr h, map_option (sc_contents_update (\<lambda>m. m(p \<mapsto> h))) cache)))"
| "content_entries env info fs p [] h cache = (Inr h, cache)"
| "content_entries env info fs p ((name, child) # entries) h cache =
     (let child_path = path_join p [Normal name]
      in case classify_path env info child_path of
           Immutable \<Rightarrow> content_entries env info fs p entries h cache
         | Managed boundary \<Rightarrow>
             content_entries env info fs p entries
               (case managed_snapshot_create env fs child_path boundary of
                  Some s \<Rightarrow> write_managed_content_hash (mp_state s) h
                | None \<Rightarrow> h) cache
         | _ \<Rightarrow>
            (case content_hash env info fs child_path child cache of
               (Inl e, cache) \<Rightarrow> (Inl e, cache)
             | (Inr x, cache) \<Rightarrow> content_entries env info fs p entries (snapshot_hash_write (word_le 8 x) h) cache))"
  by pat_completeness auto
termination
  by (relation "measure (case_sum (\<lambda>(_, _, _, _, n, _). 2 * size n)
       (\<lambda>(_, _, _, _, es, _, _). 2 * size_list (size_prod (\<lambda>_. 0) size) es + 1))")
    (auto simp: size_sorted_entries)

declare timestamp_hash.simps [simp del] content_hash.simps [simp del]

definition directory_content_hash ::
    "snapshot_env \<Rightarrow> file_system_info \<Rightarrow> file_system \<Rightarrow> path \<Rightarrow> cache \<Rightarrow> (error + u64) \<times> cache" where
  "directory_content_hash env info fs p cache =
     (case Option.bind cache (\<lambda>c. sc_contents c p) of
        Some h \<Rightarrow> (Inr h, cache)
      | None \<Rightarrow> (case fs_symlink_metadata fs p of
          Inl e \<Rightarrow> (Inl (read_error p e), cache)
        | Inr n \<Rightarrow> content_hash env info fs p n cache))"

section \<open>Taking a snapshot of a file or a directory\<close>

text \<open>\<open>FileSnapshot::create_from_path\<close> and its synchronous copy.\<close>

definition file_from_path :: "file_system \<Rightarrow> path \<Rightarrow> snapshot_strategy \<Rightarrow> error + file_snapshot" where
  "file_from_path fs p st = (case fs_metadata fs p of
      Inl NotFound \<Rightarrow> Inr \<lparr>fsn_exists = False, fsn_modified = None, fsn_source_hash = None\<rparr>
    | Inl e \<Rightarrow> Inl (read_error p e)
    | Inr metadata \<Rightarrow>
        let modified = (if st_timestamp st then Some (node_modified metadata) else None)
        in if st_hash st then
             (case fs_read fs p of
                Inl e \<Rightarrow> Inl (read_error p e)
              | Inr source \<Rightarrow> Inr \<lparr>fsn_exists = True, fsn_modified = modified, fsn_source_hash = Some (hash_bytes source)\<rparr>)
           else Inr \<lparr>fsn_exists = True, fsn_modified = modified, fsn_source_hash = None\<rparr>)"

text \<open>\<open>create\<close> and \<open>create_bytes\<close>: of a file whose contents were read before.\<close>

definition file_from_source :: "file_system \<Rightarrow> path \<Rightarrow> bytes \<Rightarrow> snapshot_strategy \<Rightarrow> error + file_snapshot" where
  "file_from_source fs p source st =
     (let hash = (if st_hash st then Some (hash_bytes source) else None)
      in if st_timestamp st then
           (case fs_metadata fs p of
              Inl e \<Rightarrow> Inl (read_error p e)
            | Inr metadata \<Rightarrow> Inr \<lparr>fsn_exists = True, fsn_modified = Some (node_modified metadata), fsn_source_hash = hash\<rparr>)
         else Inr \<lparr>fsn_exists = True, fsn_modified = None, fsn_source_hash = hash\<rparr>)"

definition file_from_file_sync :: "file_system \<Rightarrow> path \<Rightarrow> snapshot_strategy \<Rightarrow> error + file_snapshot" where
  "file_from_file_sync fs p st = (case fs_read fs p of
      Inl e \<Rightarrow> Inl (read_error p e)
    | Inr source \<Rightarrow> file_from_source fs p source st)"

definition context_create ::
    "snapshot_env \<Rightarrow> file_system_info \<Rightarrow> file_system \<Rightarrow> path \<Rightarrow> snapshot_strategy \<Rightarrow> cache \<Rightarrow>
     (error + context_snapshot) \<times> cache" where
  "context_create env info fs p st cache =
     (let absent = \<lparr>cs_exists = False, cs_timestamp_hash = None, cs_content_hash = None\<rparr>
      in case fs_metadata fs p of
           Inl NotFound \<Rightarrow> (Inr absent, cache)
         | Inl e \<Rightarrow> (Inl (read_error p e), cache)
         | Inr metadata \<Rightarrow>
            if \<not> node_is_dir metadata then (Inr absent, cache)
            else
              (case (if st_timestamp st then map_prod (map_sum id (\<lambda>x. Some (dt_hash x))) id (directory_timestamp_hash env info fs p cache)
                     else (Inr None, cache)) of
                 (Inl e, cache) \<Rightarrow> (Inl e, cache)
               | (Inr timestamp, cache) \<Rightarrow>
                  (case (if st_hash st then map_prod (map_sum id Some) id (directory_content_hash env info fs p cache)
                         else (Inr None, cache)) of
                     (Inl e, cache) \<Rightarrow> (Inl e, cache)
                   | (Inr content, cache) \<Rightarrow>
                      (Inr \<lparr>cs_exists = True, cs_timestamp_hash = timestamp, cs_content_hash = content\<rparr>, cache))))"

datatype snapshot_entry =
    SFile path file_snapshot
  | SContext path context_snapshot
  | SMissing path
  | SImmutable path
  | SManaged managed_snapshot

type_synonym snapshot = "snapshot_entry list"

fun entry_path :: "snapshot_entry \<Rightarrow> path" where
  "entry_path (SFile p _) = p"
| "entry_path (SContext p _) = p"
| "entry_path (SMissing p) = p"
| "entry_path (SImmutable p) = p"
| "entry_path (SManaged s) = mp_path s"

definition classified_path_entry ::
    "snapshot_env \<Rightarrow> file_system_info \<Rightarrow> file_system \<Rightarrow> path \<Rightarrow> snapshot_entry option" where
  "classified_path_entry env info fs p = (case classify_path env info p of
      Managed b \<Rightarrow> map_option SManaged (managed_snapshot_create env fs p b)
    | Immutable \<Rightarrow> Some (SImmutable p)
    | _ \<Rightarrow> None)"

text \<open>Every kind of entry is classified first.\<close>

definition classified_or ::
    "snapshot_env \<Rightarrow> file_system_info \<Rightarrow> file_system \<Rightarrow> path \<Rightarrow> (error + snapshot_entry) \<Rightarrow> error + snapshot_entry" where
  "classified_or env info fs p r = (case classified_path_entry env info fs p of Some e \<Rightarrow> Inr e | None \<Rightarrow> r)"

definition entry_create_file ::
    "snapshot_env \<Rightarrow> file_system_info \<Rightarrow> file_system \<Rightarrow> path \<Rightarrow> bytes option \<Rightarrow> snapshot_strategy \<Rightarrow> error + snapshot_entry" where
  "entry_create_file env info fs p source st = classified_or env info fs p
     (map_sum id (SFile p) (case source of
        Some source \<Rightarrow> file_from_source fs p source st
      | None \<Rightarrow> file_from_path fs p st))"

definition entry_create_file_sync ::
    "snapshot_env \<Rightarrow> file_system_info \<Rightarrow> file_system \<Rightarrow> snapshot_strategy \<Rightarrow> path \<Rightarrow> error + snapshot_entry" where
  "entry_create_file_sync env info fs st p =
     classified_or env info fs p (map_sum id (SFile p) (file_from_file_sync fs p st))"

definition entry_create_context ::
    "snapshot_env \<Rightarrow> file_system_info \<Rightarrow> file_system \<Rightarrow> snapshot_strategy \<Rightarrow> path \<Rightarrow> cache \<Rightarrow>
     (error + snapshot_entry) \<times> cache" where
  "entry_create_context env info fs st p cache = (case classified_path_entry env info fs p of
      Some e \<Rightarrow> (Inr e, cache)
    | None \<Rightarrow> map_prod (map_sum id (SContext p)) id (context_create env info fs p st cache))"

definition entry_create_missing ::
    "snapshot_env \<Rightarrow> file_system_info \<Rightarrow> file_system \<Rightarrow> path \<Rightarrow> snapshot_entry" where
  "entry_create_missing env info fs p = (case classified_path_entry env info fs p of
      Some e \<Rightarrow> e
    | None \<Rightarrow> SMissing p)"

section \<open>Snapshots\<close>

text \<open>\<open>normalize_paths\<close>: sorted, without duplicates.\<close>

definition normalize_paths :: "path list \<Rightarrow> path list" where
  "normalize_paths ps = remdups_adj (sort ps)"

fun create_all :: "('a \<Rightarrow> 'c \<Rightarrow> (error + 'b) \<times> 'c) \<Rightarrow> 'a list \<Rightarrow> 'c \<Rightarrow> (error + 'b list) \<times> 'c" where
  "create_all f [] c = (Inr [], c)"
| "create_all f (x # xs) c = (case f x c of
      (Inl e, c) \<Rightarrow> (Inl e, c)
    | (Inr y, c) \<Rightarrow> map_prod (map_sum id ((#) y)) id (create_all f xs c))"

definition create_resolve ::
    "snapshot_env \<Rightarrow> file_system_info \<Rightarrow> file_system \<Rightarrow> path list \<Rightarrow> path list \<Rightarrow> path list \<Rightarrow> snapshot_strategy \<Rightarrow> cache \<Rightarrow>
     (error + snapshot) \<times> cache" where
  "create_resolve env info fs files contexts missing st cache =
     (case create_all (\<lambda>p c. (entry_create_file env info fs p None st, c)) (normalize_paths files) cache of
        (Inl e, cache) \<Rightarrow> (Inl e, cache)
      | (Inr xs, cache) \<Rightarrow>
         (case create_all (entry_create_context env info fs st) (normalize_paths contexts) cache of
            (Inl e, cache) \<Rightarrow> (Inl e, cache)
          | (Inr ys, cache) \<Rightarrow>
              (Inr (xs @ ys @ map (entry_create_missing env info fs) (normalize_paths missing)), cache)))"

definition create_file_snapshot ::
    "snapshot_env \<Rightarrow> file_system_info \<Rightarrow> file_system \<Rightarrow> path \<Rightarrow> bytes \<Rightarrow> snapshot_strategy \<Rightarrow> error + snapshot" where
  "create_file_snapshot env info fs p source st =
     map_sum id (\<lambda>e. [e]) (entry_create_file env info fs p (Some source) st)"

definition create_snapshot_sync ::
    "snapshot_env \<Rightarrow> file_system_info \<Rightarrow> file_system \<Rightarrow> path list \<Rightarrow> snapshot_strategy \<Rightarrow> error + snapshot" where
  "create_snapshot_sync env info fs ps st =
     fst (create_all (\<lambda>p c. (entry_create_file_sync env info fs st p, c)) (normalize_paths ps) ())"

text \<open>Later snapshots replace the entries of earlier ones; the result is in the order of the paths.\<close>

fun path_insert :: "snapshot_entry \<Rightarrow> snapshot \<Rightarrow> snapshot" where
  "path_insert e [] = [e]"
| "path_insert e (x # xs) =
     (if entry_path e = entry_path x then e # xs
      else if entry_path e < entry_path x then e # x # xs else x # path_insert e xs)"

definition merge_snapshots :: "snapshot list \<Rightarrow> snapshot" where
  "merge_snapshots snapshots = fold path_insert (concat snapshots) []"

definition has_exact_paths :: "snapshot \<Rightarrow> path list \<Rightarrow> bool" where
  "has_exact_paths s ps \<longleftrightarrow> map entry_path s = normalize_paths ps"

section \<open>Validity\<close>

text \<open>\<open>FileSnapshot::is_valid\<close>, and \<open>is_valid_sync_with_cache\<close>, which is the same.\<close>

definition current_file :: "file_system \<Rightarrow> path \<Rightarrow> snapshot_strategy \<Rightarrow> cache \<Rightarrow> file_snapshot option \<times> cache" where
  "current_file fs p st cache = (case Option.bind cache (\<lambda>c. sc_files c (p, st)) of
      Some s \<Rightarrow> (Some s, cache)
    | None \<Rightarrow> (case file_from_path fs p st of
        Inl _ \<Rightarrow> (None, cache)
      | Inr s \<Rightarrow> (Some s, map_option (sc_files_update (\<lambda>m. m((p, st) \<mapsto> s))) cache)))"

definition file_is_valid :: "file_system \<Rightarrow> path \<Rightarrow> snapshot_strategy \<Rightarrow> file_snapshot \<Rightarrow> cache \<Rightarrow> bool \<times> cache" where
  "file_is_valid fs p st s cache = map_prod (\<lambda>current. current = Some s) id (current_file fs p st cache)"

definition path_absent :: "file_system \<Rightarrow> path \<Rightarrow> bool" where
  "path_absent fs p \<longleftrightarrow> fs_metadata fs p = Inl NotFound"

definition file_is_valid_sync :: "file_system \<Rightarrow> path \<Rightarrow> snapshot_strategy \<Rightarrow> file_snapshot \<Rightarrow> bool" where
  "file_is_valid_sync fs p st s =
     (if \<not> fsn_exists s then \<not> st_timestamp st \<and> \<not> st_hash st \<or> path_absent fs p
      else (st_timestamp st \<longrightarrow> (case fs_metadata fs p of
              Inl _ \<Rightarrow> False
            | Inr metadata \<Rightarrow> Some (node_modified metadata) = fsn_modified s)) \<and>
           (st_hash st \<longrightarrow> (case fs_read fs p of
              Inl _ \<Rightarrow> False
            | Inr source \<Rightarrow> Some (hash_bytes source) = fsn_source_hash s)))"

definition context_is_valid ::
    "snapshot_env \<Rightarrow> file_system_info \<Rightarrow> file_system \<Rightarrow> path \<Rightarrow> snapshot_strategy \<Rightarrow> context_snapshot \<Rightarrow> cache \<Rightarrow> bool \<times> cache" where
  "context_is_valid env info fs p st s cache =
     (if \<not> cs_exists s then (path_absent fs p, cache)
      else case fs_metadata fs p of
        Inl _ \<Rightarrow> (False, cache)
      | Inr metadata \<Rightarrow>
         if \<not> node_is_dir metadata then (False, cache)
         else
           let (same, failed, cache) =
                (if \<not> st_timestamp st then (False, False, cache)
                 else case directory_timestamp_hash env info fs p cache of
                   (Inr current, cache) \<Rightarrow>
                     if Some (dt_hash current) = cs_timestamp_hash s then (True, False, cache)
                     else (False, \<not> st_hash st, cache)
                 | (Inl _, cache) \<Rightarrow> (False, True, cache))
           in if same then (True, cache)
              else if failed then (False, cache)
              else if st_hash st then
                map_prod (\<lambda>r. (case r of Inl _ \<Rightarrow> None | Inr h \<Rightarrow> Some h) = cs_content_hash s) id
                  (directory_content_hash env info fs p cache)
              else (True, cache))"

definition managed_is_valid :: "snapshot_env \<Rightarrow> file_system \<Rightarrow> managed_snapshot \<Rightarrow> cache \<Rightarrow> bool \<times> cache" where
  "managed_is_valid env fs s cache = (case cache of
      None \<Rightarrow> (managed_state_create env fs (mp_root s) = Some (mp_state s), None)
    | Some c \<Rightarrow>
       (let state = (case sc_managed c (mp_root s) of Some state \<Rightarrow> state | None \<Rightarrow> managed_state_create env fs (mp_root s))
        in (state = Some (mp_state s), Some (c\<lparr>sc_managed := (sc_managed c)(mp_root s \<mapsto> state)\<rparr>))))"

definition is_managed :: "classification \<Rightarrow> bool" where
  "is_managed k = (case k of Managed _ \<Rightarrow> True | _ \<Rightarrow> False)"

text \<open>\<open>SnapshotEntry::is_valid\<close>; the flag selects \<open>is_valid_sync_with_cache\<close>.\<close>

fun entry_is_valid ::
    "bool \<Rightarrow> snapshot_env \<Rightarrow> file_system_info \<Rightarrow> file_system \<Rightarrow> snapshot_strategy \<Rightarrow> snapshot_entry \<Rightarrow> cache \<Rightarrow> bool \<times> cache" where
  "entry_is_valid sync env info fs st (SFile p s) cache =
     (if \<not> ordinary_snapshot_applies env info fs p then (False, cache)
      else if sync \<and> cache = None then (file_is_valid_sync fs p st s, cache)
      else file_is_valid fs p st s cache)"
| "entry_is_valid sync env info fs st (SContext p s) cache =
     (if \<not> ordinary_snapshot_applies env info fs p then (False, cache)
      else context_is_valid env info fs p st s cache)"
| "entry_is_valid sync env info fs st (SMissing p) cache =
     (ordinary_snapshot_applies env info fs p \<and> path_absent fs p, cache)"
| "entry_is_valid sync env info fs st (SImmutable p) cache =
     (classify_path env info p = Immutable, cache)"
| "entry_is_valid sync env info fs st (SManaged s) cache =
     (if \<not> is_managed (classify_path env info (mp_path s)) then (False, cache)
      else managed_is_valid env fs s cache)"

fun snapshot_is_valid ::
    "bool \<Rightarrow> snapshot_env \<Rightarrow> file_system_info \<Rightarrow> file_system \<Rightarrow> snapshot_strategy \<Rightarrow> snapshot \<Rightarrow> cache \<Rightarrow> bool \<times> cache" where
  "snapshot_is_valid sync env info fs st [] cache = (True, cache)"
| "snapshot_is_valid sync env info fs st (e # s) cache =
     (case entry_is_valid sync env info fs st e cache of
        (False, cache) \<Rightarrow> (False, cache)
      | (True, cache) \<Rightarrow> snapshot_is_valid sync env info fs st s cache)"

definition has_valid_paths_sync ::
    "snapshot_env \<Rightarrow> file_system_info \<Rightarrow> file_system \<Rightarrow> snapshot \<Rightarrow> path list \<Rightarrow> snapshot_strategy \<Rightarrow> bool" where
  "has_valid_paths_sync env info fs s ps st = list_all (\<lambda>p.
     (case List.find (\<lambda>e. entry_path e = p) s of
        None \<Rightarrow> False
      | Some e \<Rightarrow> fst (entry_is_valid True env info fs st e None))) (normalize_paths ps)"

end
