(* ===== verification/Snapshot_Facts.thy ===== *)
theory Snapshot_Facts
  imports Snapshots
begin

text \<open>
  The cache of a validation never changes an answer: the hashes of directories, the states of files and
  of packages that it holds are what the file system yields.
\<close>

section \<open>Directories and their entries\<close>

text \<open>No directory has two entries of one name.\<close>

fun node_ok :: "node \<Rightarrow> bool" where
  "node_ok (DirNode _ _ es) \<longleftrightarrow> distinct (map fst es) \<and> (\<forall>(n, c) \<in> set es. node_ok c)"
| "node_ok _ = True"

lemma resolve_node_ok:
  assumes "node_ok (fs_root fs)" and "resolve fs follow links t p = Inr t'" and "\<forall>(n, c) \<in> set t. node_ok c"
  shows "\<forall>(n, c) \<in> set t'. node_ok c"
  using assms
proof (induction fs follow links t p rule: resolve.induct)
  case (4 fs follow links t p)
  have "set (tl t) \<subseteq> set t" by (cases t) auto
  then have "\<forall>(n, c) \<in> set (tl t). node_ok c" using "4.prems"(3) by blast
  with "4.IH" "4.prems"(1,2) show ?case by simp
next
  case (5 fs follow links t n p)
  then obtain stamp listable es where top: "trail_node fs t = DirNode stamp listable es" by (auto split: node.splits)
  have "node_ok (trail_node fs t)" using "5.prems" by (auto simp: trail_node_def split: list.splits)
  then have child: "node_ok c" if "map_of es n = Some c" for c using map_of_SomeD [OF that] by (auto simp: top)
  from "5.prems"(2) obtain c where c: "map_of es n = Some c" by (auto simp: top split: option.splits)
  show ?case
  proof (cases c)
    case (LinkNode a b)
    with "5.prems" "5.IH"(3) [OF top c LinkNode] c show ?thesis by (auto simp: top split: if_splits)
  next
    case (FileNode a b)
    from "5.prems"(2) c FileNode have "resolve fs follow links ((n, c) # t) p = Inr t'" by (simp add: top)
    from "5.IH"(1) [OF top c FileNode "5.prems"(1) this [unfolded FileNode]] "5.prems"(3) child [OF c] FileNode show ?thesis by simp
  next
    case (DirNode a b d)
    from "5.prems"(2) c DirNode have "resolve fs follow links ((n, c) # t) p = Inr t'" by (simp add: top)
    from "5.IH"(2) [OF top c DirNode "5.prems"(1) this [unfolded DirNode]] "5.prems"(3) child [OF c] DirNode show ?thesis by simp
  qed
qed auto

lemma locate_node_ok:
  assumes "node_ok (fs_root fs)" and "locate fs follow p = Inr t"
  shows "node_ok (trail_node fs t)"
proof -
  from assms(2) obtain t0 where "resolve fs True 40 [] (map Normal (fs_cwd fs)) = Inr t0" "resolve fs follow 40 t0 p = Inr t"
    by (auto simp: locate_def split: if_splits sum.splits)
  then have "\<forall>(n, c) \<in> set t. node_ok c" using assms(1) resolve_node_ok by (metis empty_iff list.set(1))
  then show ?thesis using assms(1) by (auto simp: trail_node_def split: list.splits)
qed

lemma resolve_entry:
  assumes "resolve fs False links t p = Inr t'" and "trail_node fs t' = DirNode stamp listable es" and "map_of es n = Some c"
  shows "resolve fs False links t (p @ [Normal n]) = Inr ((n, c) # t')"
  using assms
proof (induction fs False links t p rule: resolve.induct)
  case (1 fs links t)
  then show ?case by (cases c) auto
next
  case (5 fs links t m p)
  then obtain stamp listable fs' where top: "trail_node fs t = DirNode stamp listable fs'" by (auto split: node.splits)
  from "5.prems"(1) obtain d where d: "map_of fs' m = Some d" by (auto simp: top split: option.splits)
  show ?case
  proof (cases d)
    case (LinkNode a b)
    have "p \<noteq> []"
    proof
      assume "p = []"
      with "5.prems"(1) d LinkNode have "t' = (m, LinkNode a b) # t" by (simp add: top)
      with "5.prems"(2) show False by (simp add: trail_node_def)
    qed
    with "5.prems" "5.hyps"(3) [OF top d LinkNode] d LinkNode show ?thesis by (auto simp: top split: if_splits)
  next
    case (FileNode a b)
    with "5.prems" "5.hyps"(1) [OF top d FileNode] d show ?thesis by (auto simp: top)
  next
    case (DirNode a b e)
    with "5.prems" "5.hyps"(2) [OF top d DirNode] d show ?thesis by (auto simp: top)
  qed
qed auto

lemma map_sum_Inr: "map_sum id f x = Inr y \<longleftrightarrow> (\<exists>z. x = Inr z \<and> f z = y)"
  by (cases x) auto

lemma lstat_entry:
  assumes "fs_symlink_metadata fs p = Inr (DirNode stamp listable es)" and "map_of es n = Some c"
  shows "fs_symlink_metadata fs (path_join p [Normal n]) = Inr c"
proof -
  from assms(1) obtain t t0 where t: "p \<noteq> []" "resolve fs True 40 [] (map Normal (fs_cwd fs)) = Inr t0"
      "resolve fs False 40 t0 p = Inr t" "trail_node fs t = DirNode stamp listable es"
    by (auto simp: fs_symlink_metadata_def locate_def map_sum_Inr split: if_splits sum.splits)
  from resolve_entry [OF t(3,4) assms(2)] t show ?thesis
    by (simp add: fs_symlink_metadata_def locate_def path_join_def is_absolute_def trail_node_def)
qed

section \<open>Cached hashes\<close>

definition cache_coherent :: "snapshot_env \<Rightarrow> file_system_info \<Rightarrow> file_system \<Rightarrow> cache \<Rightarrow> bool" where
  "cache_coherent env info fs cache \<longleftrightarrow> (case cache of None \<Rightarrow> True | Some c \<Rightarrow>
     (\<forall>p st s. sc_files c (p, st) = Some s \<longrightarrow> file_from_path fs p st = Inr s) \<and>
     (\<forall>p h. sc_timestamps c p = Some h \<longrightarrow> fst (directory_timestamp_hash env info fs p None) = Inr h) \<and>
     (\<forall>p h. sc_contents c p = Some h \<longrightarrow> fst (directory_content_hash env info fs p None) = Inr h) \<and>
     (\<forall>r s. sc_managed c r = Some s \<longrightarrow> managed_state_create env fs r = s))"

lemma cache_coherent_None [simp]: "cache_coherent env info fs None"
  by (simp add: cache_coherent_def)

lemma cache_coherent_new: "cache_coherent env info fs (Some snapshot_cache_new)"
  by (simp add: cache_coherent_def snapshot_cache_new_def)

text \<open>A computation answers with the cache what it answers without, and leaves the cache coherent.\<close>

definition caches :: "snapshot_env \<Rightarrow> file_system_info \<Rightarrow> file_system \<Rightarrow> (cache \<Rightarrow> 'a \<times> cache) \<Rightarrow> bool" where
  "caches env info fs f \<longleftrightarrow> snd (f None) = None \<and> (\<forall>cache. cache_coherent env info fs cache \<longrightarrow>
     fst (f cache) = fst (f None) \<and> cache_coherent env info fs (snd (f cache)))"

named_theorems caches_intros

lemma cachesI:
  assumes "snd (f None) = None"
    and "\<And>cache. cache_coherent env info fs cache \<Longrightarrow> fst (f cache) = fst (f None) \<and> cache_coherent env info fs (snd (f cache))"
  shows "caches env info fs f"
  using assms unfolding caches_def by blast

lemma cachesD:
  assumes "caches env info fs f" and "cache_coherent env info fs cache"
  shows "fst (f cache) = fst (f None)" "cache_coherent env info fs (snd (f cache))"
  using assms unfolding caches_def by blast+

lemma caches_None: "caches env info fs f \<Longrightarrow> f None = (fst (f None), None)"
  unfolding caches_def by (metis prod.collapse)

lemma caches_run:
  assumes "caches env info fs f" and "cache_coherent env info fs cache"
  obtains cache' where "f cache = (fst (f None), cache')" and "cache_coherent env info fs cache'"
  using cachesD [OF assms] that by (metis prod.collapse)

lemma caches_pure [caches_intros]: "caches env info fs (Pair x)"
  by (rule cachesI) simp_all

lemma caches_bind [caches_intros]:
  assumes f: "caches env info fs f" and g: "\<And>x. caches env info fs (g x)"
  shows "caches env info fs (\<lambda>cache. case f cache of (x, cache) \<Rightarrow> g x cache)"
proof (rule cachesI)
  let ?x = "fst (f None)"
  have none: "(case f None of (x, cache) \<Rightarrow> g x cache) = g ?x None" by (subst caches_None [OF f]) simp
  then show "snd (case f None of (x, cache) \<Rightarrow> g x cache) = None"
    using caches_None [OF g] by (metis snd_conv)
  fix cache assume "cache_coherent env info fs cache"
  from caches_run [OF f this] obtain cache' where c: "f cache = (?x, cache')" "cache_coherent env info fs cache'" .
  have run: "(case f cache of (x, cache) \<Rightarrow> g x cache) = g ?x cache'" by (simp only: c(1) prod.case)
  show "fst (case f cache of (x, cache) \<Rightarrow> g x cache) = fst (case f None of (x, cache) \<Rightarrow> g x cache) \<and>
      cache_coherent env info fs (snd (case f cache of (x, cache) \<Rightarrow> g x cache))"
    unfolding run none using cachesD [OF g c(2)] by blast
qed

lemma caches_map [caches_intros]:
  assumes "caches env info fs f"
  shows "caches env info fs (\<lambda>cache. map_prod h id (f cache))"
proof -
  have "(\<lambda>cache. map_prod h id (f cache)) = (\<lambda>cache. case f cache of (x, cache) \<Rightarrow> Pair (h x) cache)"
    by (simp add: fun_eq_iff case_prod_beta map_prod_def)
  then show ?thesis by (simp only:) (intro caches_bind assms caches_pure)
qed

text \<open>A lookup in the cache, and what is computed and stored where it finds nothing.\<close>

lemma caches_lookup:
  assumes f: "caches env info fs f"
    and look: "\<And>c x. cache_coherent env info fs (Some c) \<Longrightarrow> look c = Some x \<Longrightarrow> fst (f None) = Inr x"
    and put: "\<And>c x. cache_coherent env info fs (Some c) \<Longrightarrow> fst (f None) = Inr x \<Longrightarrow> cache_coherent env info fs (Some (put x c))"
  shows "caches env info fs (\<lambda>cache. case Option.bind cache look of
     Some x \<Rightarrow> (Inr x, cache)
   | None \<Rightarrow> (case f cache of (r, cache) \<Rightarrow> (case r of
       Inl e \<Rightarrow> (Inl e, cache)
     | Inr x \<Rightarrow> (Inr x, map_option (put x) cache))))" (is "caches env info fs ?g")
proof (rule cachesI)
  let ?x = "fst (f None)"
  have none: "?g None = (?x, None)" by (simp, subst caches_None [OF f]) (simp split: sum.split)
  then show "snd (?g None) = None" by simp
  fix cache assume coh: "cache_coherent env info fs cache"
  show "fst (?g cache) = fst (?g None) \<and> cache_coherent env info fs (snd (?g cache))"
  proof (cases "Option.bind cache look")
    case (Some x)
    then obtain c where "cache = Some c" "look c = Some x" by (cases cache) simp_all
    with look [of c x] coh Some show ?thesis unfolding none by simp
  next
    case None
    from caches_run [OF f coh] obtain cache' where c: "f cache = (?x, cache')" "cache_coherent env info fs cache'" .
    have run: "?g cache = (case ?x of Inl e \<Rightarrow> (Inl e, cache') | Inr x \<Rightarrow> (Inr x, map_option (put x) cache'))"
      unfolding None option.case c(1) prod.case ..
    show ?thesis
    proof (cases ?x)
      case (Inl e)
      with c(2) show ?thesis unfolding run none by simp
    next
      case (Inr x)
      with c(2) put [OF _ Inr] show ?thesis unfolding run none by (cases cache') simp_all
    qed
  qed
qed

lemma timestamp_entries_cached:
  assumes "\<And>name c. (name, c) \<in> set es \<Longrightarrow> caches env info fs (timestamp_hash env info fs (path_join p [Normal name]) c)"
  shows "caches env info fs (timestamp_entries env info fs p es h)"
  using assms
proof (induction es arbitrary: h)
  case Nil
  then show ?case by (simp add: caches_def)
next
  case (Cons x es)
  obtain name c where x: "x = (name, c)" by fastforce
  have IH: "caches env info fs (timestamp_entries env info fs p es h)" for h using Cons by simp
  have child: "caches env info fs (timestamp_hash env info fs (path_join p [Normal name]) c)" using Cons.prems x by simp
  define hashed where "hashed r = (case r of
      Inr x \<Rightarrow> snapshot_hash_write (word_le 8 (dt_hash x))
        (snapshot_hash_write (str_bytes (if dt_is_dir x then ''d'' else ''f'')) (snapshot_hash_write (str_bytes name) h))
    | Inl _ \<Rightarrow> snapshot_hash_write (str_bytes ''n'') (snapshot_hash_write (str_bytes name) h))" for r :: "error + directory_timestamp"
  show ?case
  proof (cases "classify_path env info (path_join p [Normal name])")
    case Unmanaged
    then have "timestamp_entries env info fs p (x # es) h = (\<lambda>cache.
        case timestamp_hash env info fs (path_join p [Normal name]) c cache of (r, cache) \<Rightarrow> timestamp_entries env info fs p es (hashed r) cache)"
      by (simp add: x fun_eq_iff Let_def hashed_def)
    then show ?thesis by (simp only:) (intro caches_bind child IH)
  next
    case Unclassified
    then have "timestamp_entries env info fs p (x # es) h = (\<lambda>cache.
        case timestamp_hash env info fs (path_join p [Normal name]) c cache of (r, cache) \<Rightarrow> timestamp_entries env info fs p es (hashed r) cache)"
      by (simp add: x fun_eq_iff Let_def hashed_def)
    then show ?thesis by (simp only:) (intro caches_bind child IH)
  next
    case Immutable
    then have "timestamp_entries env info fs p (x # es) h = timestamp_entries env info fs p es h"
      by (simp add: x fun_eq_iff Let_def)
    with IH show ?thesis by simp
  next
    case (Managed b)
    then have "\<exists>h'. timestamp_entries env info fs p (x # es) h = timestamp_entries env info fs p es h'"
      by (intro exI ext) (simp only: x timestamp_entries.simps Let_def classification.case)
    with IH show ?thesis by auto
  qed
qed

text \<open>The two hashes of a directory are computed by a body \<open>f\<close> unless the cache has them.\<close>

lemma timestamp_hash_caches:
  assumes n: "fs_symlink_metadata fs p = Inr n" and f: "caches env info fs f"
    and body: "\<And>cache. timestamp_hash env info fs p n cache = (case Option.bind cache (\<lambda>c. sc_timestamps c p) of
        Some h \<Rightarrow> (Inr h, cache)
      | None \<Rightarrow> (case f cache of (r, cache) \<Rightarrow> (case r of Inl e \<Rightarrow> (Inl e, cache)
          | Inr h \<Rightarrow> (Inr h, map_option (sc_timestamps_update (\<lambda>m. m(p \<mapsto> h))) cache))))"
  shows "caches env info fs (timestamp_hash env info fs p n)"
proof -
  have T: "fst (directory_timestamp_hash env info fs p None) = fst (f None)"
    using caches_None [OF f] n by (simp add: directory_timestamp_hash_def body case_prod_beta split: sum.split)
  show ?thesis unfolding body [abs_def]
    by (rule caches_lookup [OF f]) (simp_all add: cache_coherent_def flip: T)
qed

lemma content_hash_caches:
  assumes n: "fs_symlink_metadata fs p = Inr n" and f: "caches env info fs f"
    and body: "\<And>cache. content_hash env info fs p n cache = (case Option.bind cache (\<lambda>c. sc_contents c p) of
        Some h \<Rightarrow> (Inr h, cache)
      | None \<Rightarrow> (case f cache of (r, cache) \<Rightarrow> (case r of Inl e \<Rightarrow> (Inl e, cache)
          | Inr h \<Rightarrow> (Inr h, map_option (sc_contents_update (\<lambda>m. m(p \<mapsto> h))) cache))))"
  shows "caches env info fs (content_hash env info fs p n)"
proof -
  have T: "fst (directory_content_hash env info fs p None) = fst (f None)"
    using caches_None [OF f] n by (simp add: directory_content_hash_def body case_prod_beta split: sum.split)
  show ?thesis unfolding body [abs_def]
    by (rule caches_lookup [OF f]) (simp_all add: cache_coherent_def flip: T)
qed

text \<open>The entries of a directory that was found at \<open>p\<close>.\<close>

lemma listed_entry:
  assumes "fs_symlink_metadata fs p = Inr (DirNode stamp listable es)" and "node_ok (DirNode stamp listable es)"
    and "(name, c) \<in> set (sorted_entries es)"
  shows "fs_symlink_metadata fs (path_join p [Normal name]) = Inr c" and "node_ok c" and "c \<in> snd ` set es"
  using assms lstat_entry [OF assms(1), of name c] by (auto intro: rev_image_eqI)

lemma timestamp_hash_cached:
  "fs_symlink_metadata fs p = Inr n \<Longrightarrow> node_ok n \<Longrightarrow> caches env info fs (timestamp_hash env info fs p n)"
proof (induction n arbitrary: p)
  case (DirNode stamp listable es)
  have child: "caches env info fs (timestamp_hash env info fs (path_join p [Normal name]) c)"
    if "(name, c) \<in> set (sorted_entries es)" for name c
    using listed_entry [OF DirNode.prems that] that by (intro DirNode.IH [of "(name, c)"]) auto
  have "caches env info fs (\<lambda>cache.
      if \<not> listable then (Inl (read_error p (OtherError ''Permission denied (os error 13)'')), cache)
      else map_prod (\<lambda>h. Inr \<lparr>dt_hash = h, dt_is_dir = True\<rparr>) id
        (timestamp_entries env info fs p (sorted_entries es) snapshot_hash_new cache))"
  proof (cases listable)
    case True
    have "caches env info fs (timestamp_entries env info fs p (sorted_entries es) snapshot_hash_new)"
      using child by (rule timestamp_entries_cached)
    from caches_map [OF this] show ?thesis by (simp add: True)
  qed (simp add: caches_pure)
  with DirNode.prems(1) show ?case
    by (rule timestamp_hash_caches) (simp only: timestamp_hash.simps Let_def node.case)
next
  case (FileNode stamp content)
  from FileNode.prems(1) caches_pure show ?case
    by (rule timestamp_hash_caches) (simp only: timestamp_hash.simps Let_def node.case)
next
  case (LinkNode stamp dest)
  from LinkNode.prems(1) caches_pure show ?case
    by (rule timestamp_hash_caches) (simp only: timestamp_hash.simps Let_def node.case)
qed

lemma content_entries_cached:
  assumes "\<And>name c. (name, c) \<in> set es \<Longrightarrow> caches env info fs (content_hash env info fs (path_join p [Normal name]) c)"
  shows "caches env info fs (content_entries env info fs p es h)"
  using assms
proof (induction es arbitrary: h)
  case Nil
  then show ?case using caches_pure [of env info fs "Inr h"] by (simp add: fun_eq_iff)
next
  case (Cons x es)
  obtain name c where x: "x = (name, c)" by fastforce
  have IH: "caches env info fs (content_entries env info fs p es h)" for h using Cons by simp
  let ?next = "\<lambda>r. case r of
      Inl e \<Rightarrow> Pair (Inl e)
    | Inr x \<Rightarrow> content_entries env info fs p es (snapshot_hash_write (word_le 8 x) h)"
  have "caches env info fs (content_hash env info fs (path_join p [Normal name]) c)" using Cons.prems x by simp
  moreover have "caches env info fs (?next r)" for r by (cases r) (simp_all add: IH caches_pure)
  ultimately have run: "caches env info fs (\<lambda>cache.
      case content_hash env info fs (path_join p [Normal name]) c cache of (r, cache) \<Rightarrow> ?next r cache)"
    by (rule caches_bind)
  have step: "content_entries env info fs p (x # es) h = (\<lambda>cache.
      case content_hash env info fs (path_join p [Normal name]) c cache of (r, cache) \<Rightarrow> ?next r cache)"
    if "classify_path env info (path_join p [Normal name]) \<in> {Unmanaged, Unclassified}"
    using that by (auto simp: x fun_eq_iff Let_def case_prod_beta split: sum.split prod.split)
  show ?case
  proof (cases "classify_path env info (path_join p [Normal name])")
    case Immutable
    then have "content_entries env info fs p (x # es) h = content_entries env info fs p es h"
      by (simp add: x fun_eq_iff Let_def)
    with IH show ?thesis by simp
  next
    case (Managed b)
    then have "\<exists>h'. content_entries env info fs p (x # es) h = content_entries env info fs p es h'"
      by (intro exI ext) (simp only: x content_entries.simps Let_def classification.case)
    with IH show ?thesis by auto
  qed (use step run in simp_all)
qed

lemma content_hash_cached:
  "fs_symlink_metadata fs p = Inr n \<Longrightarrow> node_ok n \<Longrightarrow> caches env info fs (content_hash env info fs p n)"
proof (induction n arbitrary: p)
  case (DirNode stamp listable es)
  have child: "caches env info fs (content_hash env info fs (path_join p [Normal name]) c)"
    if "(name, c) \<in> set (sorted_entries es)" for name c
    using listed_entry [OF DirNode.prems that] that by (intro DirNode.IH [of "(name, c)"]) auto
  have "caches env info fs (\<lambda>cache.
      if \<not> listable then (Inl (read_error p (OtherError ''Permission denied (os error 13)'')), cache)
      else content_entries env info fs p (sorted_entries es) snapshot_hash_new cache)"
  proof (cases listable)
    case True
    have "caches env info fs (content_entries env info fs p (sorted_entries es) snapshot_hash_new)"
      using child by (rule content_entries_cached)
    then show ?thesis by (simp add: True)
  qed (simp add: caches_pure)
  with DirNode.prems(1) show ?case
    by (rule content_hash_caches) (simp only: content_hash.simps Let_def node.case)
next
  case (FileNode stamp content)
  from FileNode.prems(1) caches_pure show ?case
    by (rule content_hash_caches) (simp only: content_hash.simps Let_def node.case)
next
  case (LinkNode stamp dest)
  from LinkNode.prems(1) caches_pure show ?case
    by (rule content_hash_caches) (simp only: content_hash.simps Let_def node.case)
qed

abbreviation fs_ok :: "file_system \<Rightarrow> bool" where
  "fs_ok fs \<equiv> node_ok (fs_root fs)"

lemma lstat_node_ok: "fs_ok fs \<Longrightarrow> fs_symlink_metadata fs p = Inr n \<Longrightarrow> node_ok n"
  by (auto simp: fs_symlink_metadata_def map_sum_Inr dest: locate_node_ok)

lemma directory_timestamp_cached [caches_intros]:
  assumes "fs_ok fs"
  shows "caches env info fs (directory_timestamp_hash env info fs p)"
proof (cases "fs_symlink_metadata fs p")
  case (Inl e)
  have none: "directory_timestamp_hash env info fs p None = (Inl (read_error p e), None)"
    by (simp add: directory_timestamp_hash_def Inl)
  show ?thesis
  proof (rule cachesI)
    fix cache assume coh: "cache_coherent env info fs cache"
    then have "Option.bind cache (\<lambda>c. sc_timestamps c p) = None"
      using none by (cases cache) (auto simp: cache_coherent_def dest!: spec [of _ p])
    with coh show "fst (directory_timestamp_hash env info fs p cache) = fst (directory_timestamp_hash env info fs p None) \<and>
        cache_coherent env info fs (snd (directory_timestamp_hash env info fs p cache))"
      by (simp add: none) (simp add: directory_timestamp_hash_def Inl)
  qed (simp add: none)
next
  case (Inr n)
  have "directory_timestamp_hash env info fs p = timestamp_hash env info fs p n"
    by (rule ext) (simp add: directory_timestamp_hash_def Inr timestamp_hash.simps split: option.split)
  with timestamp_hash_cached [OF Inr lstat_node_ok [OF assms Inr]] show ?thesis by simp
qed

lemma directory_content_cached [caches_intros]:
  assumes "fs_ok fs"
  shows "caches env info fs (directory_content_hash env info fs p)"
proof (cases "fs_symlink_metadata fs p")
  case (Inl e)
  have none: "directory_content_hash env info fs p None = (Inl (read_error p e), None)"
    by (simp add: directory_content_hash_def Inl)
  show ?thesis
  proof (rule cachesI)
    fix cache assume coh: "cache_coherent env info fs cache"
    then have "Option.bind cache (\<lambda>c. sc_contents c p) = None"
      using none by (cases cache) (auto simp: cache_coherent_def dest!: spec [of _ p])
    with coh show "fst (directory_content_hash env info fs p cache) = fst (directory_content_hash env info fs p None) \<and>
        cache_coherent env info fs (snd (directory_content_hash env info fs p cache))"
      by (simp add: none) (simp add: directory_content_hash_def Inl)
  qed (simp add: none)
next
  case (Inr n)
  have "directory_content_hash env info fs p = content_hash env info fs p n"
    by (rule ext) (simp add: directory_content_hash_def Inr content_hash.simps split: option.split)
  with content_hash_cached [OF Inr lstat_node_ok [OF assms Inr]] show ?thesis by simp
qed

section \<open>Cached validity\<close>

lemma file_is_valid_cached: "caches env info fs (file_is_valid fs p st s)"
proof (rule cachesI)
  have none: "current_file fs p st None = (case file_from_path fs p st of Inl _ \<Rightarrow> None | Inr s \<Rightarrow> Some s, None)"
    by (simp add: current_file_def split: sum.split)
  then show "snd (file_is_valid fs p st s None) = None" by (simp add: file_is_valid_def)
  fix cache assume coh: "cache_coherent env info fs cache"
  show "fst (file_is_valid fs p st s cache) = fst (file_is_valid fs p st s None) \<and>
      cache_coherent env info fs (snd (file_is_valid fs p st s cache))"
  proof (cases "Option.bind cache (\<lambda>c. sc_files c (p, st))")
    case (Some x)
    then have "file_from_path fs p st = Inr x" using coh by (auto simp: cache_coherent_def bind_simps)
    with Some coh none show ?thesis by (simp add: file_is_valid_def current_file_def)
  next
    case None
    then show ?thesis
      using coh none by (cases "file_from_path fs p st"; cases cache)
        (simp_all add: file_is_valid_def current_file_def cache_coherent_def)
  qed
qed

lemma managed_is_valid_cached: "caches env info fs (managed_is_valid env fs s)"
  by (rule cachesI) (auto simp: managed_is_valid_def cache_coherent_def Let_def split: option.splits)

lemma context_is_valid_cached:
  assumes "fs_ok fs"
  shows "caches env info fs (context_is_valid env info fs p st s)"
proof -
  let ?timestamp = "\<lambda>cache. if \<not> st_timestamp st then ((False, False), cache)
    else map_prod (\<lambda>r. case r of
        Inr current \<Rightarrow> if Some (dt_hash current) = cs_timestamp_hash s then (True, False) else (False, \<not> st_hash st)
      | Inl _ \<Rightarrow> (False, True)) id (directory_timestamp_hash env info fs p cache)"
  let ?content = "\<lambda>x cache. if fst x then (True, cache) else if snd x then (False, cache)
    else if st_hash st then
      map_prod (\<lambda>r. (case r of Inl _ \<Rightarrow> None | Inr h \<Rightarrow> Some h) = cs_content_hash s) id
        (directory_content_hash env info fs p cache)
    else (True, cache)"
  have "caches env info fs ?timestamp"
    by (cases "st_timestamp st") (simp_all add: caches_pure caches_map directory_timestamp_cached [OF assms])
  moreover have "caches env info fs (?content x)" for x
    by (cases "fst x"; cases "snd x"; cases "st_hash st") (simp_all add: caches_pure caches_map directory_content_cached [OF assms])
  ultimately have run: "caches env info fs (\<lambda>cache. case ?timestamp cache of (x, cache) \<Rightarrow> ?content x cache)"
    by (rule caches_bind)
  show ?thesis
  proof (cases "fs_metadata fs p")
    case (Inl e)
    then have "context_is_valid env info fs p st s = Pair (\<not> cs_exists s \<and> path_absent fs p)"
      by (simp add: fun_eq_iff context_is_valid_def)
    then show ?thesis by (simp add: caches_pure)
  next
    case (Inr metadata)
    have "context_is_valid env info fs p st s = (if \<not> cs_exists s \<or> \<not> node_is_dir metadata then Pair (\<not> cs_exists s \<and> path_absent fs p)
        else (\<lambda>cache. case ?timestamp cache of (x, cache) \<Rightarrow> ?content x cache))"
      by (simp add: fun_eq_iff context_is_valid_def Inr case_prod_beta Let_def split: sum.split)
    with run show ?thesis by (simp add: caches_pure)
  qed
qed

section \<open>Snapshots and what they record\<close>

text \<open>What a snapshot taken with a strategy records of a file.\<close>

definition file_recorded :: "snapshot_strategy \<Rightarrow> file_snapshot \<Rightarrow> bool" where
  "file_recorded st s \<longleftrightarrow> (fsn_modified s \<noteq> None \<longleftrightarrow> fsn_exists s \<and> st_timestamp st) \<and>
     (fsn_source_hash s \<noteq> None \<longleftrightarrow> fsn_exists s \<and> st_hash st)"

fun entry_recorded :: "snapshot_strategy \<Rightarrow> snapshot_entry \<Rightarrow> bool" where
  "entry_recorded st (SFile _ s) = file_recorded st s"
| "entry_recorded st _ = True"

definition strategy_ok :: "snapshot_strategy \<Rightarrow> bool" where
  "strategy_ok st \<longleftrightarrow> st_timestamp st \<or> st_hash st"

lemma file_from_path_recorded: "file_from_path fs p st = Inr s \<Longrightarrow> file_recorded st s"
  by (auto simp: file_from_path_def file_recorded_def Let_def split: sum.splits fs_error.splits if_splits)

lemma file_is_valid_sync_iff:
  assumes "strategy_ok st" and "file_recorded st s"
  shows "file_is_valid_sync fs p st s \<longleftrightarrow> file_from_path fs p st = Inr s"
proof (cases "fs_metadata fs p")
  case (Inl e)
  then have "fs_read fs p = Inl e" by (simp add: fs_read_def)
  with Inl assms show ?thesis
    by (cases e; cases s) (auto simp: file_is_valid_sync_def file_from_path_def path_absent_def strategy_ok_def file_recorded_def)
next
  case (Inr metadata)
  with assms show ?thesis
    by (cases s; cases "fs_read fs p")
      (auto simp: file_is_valid_sync_def file_from_path_def path_absent_def strategy_ok_def file_recorded_def Let_def)
qed

lemma file_is_valid_iff: "fst (file_is_valid fs p st s None) \<longleftrightarrow> file_from_path fs p st = Inr s"
  by (simp add: file_is_valid_def current_file_def split: sum.split)

lemma entry_is_valid_cached:
  assumes "fs_ok fs"
  shows "caches env info fs (entry_is_valid False env info fs st e)"
proof -
  have guarded: "caches env info fs (\<lambda>cache. if b then (False, cache) else f cache)" if "caches env info fs f" for b f
    using that by (cases b) (simp_all add: caches_pure)
  show ?thesis
  proof (cases e)
    case (SFile p s)
    from guarded [OF file_is_valid_cached] show ?thesis
      unfolding SFile entry_is_valid.simps [abs_def] simp_thms if_False by this
  next
    case (SContext p s)
    from guarded [OF context_is_valid_cached [OF assms]] show ?thesis
      unfolding SContext entry_is_valid.simps [abs_def] simp_thms if_False by this
  next
    case (SManaged s)
    from guarded [OF managed_is_valid_cached] show ?thesis
      unfolding SManaged entry_is_valid.simps [abs_def] simp_thms if_False by this
  qed (simp_all add: caches_pure entry_is_valid.simps [abs_def])
qed

lemma entry_is_valid_sync:
  assumes "strategy_ok st" and "entry_recorded st e"
  shows "fst (entry_is_valid True env info fs st e cache) = fst (entry_is_valid False env info fs st e cache) \<and>
    snd (entry_is_valid True env info fs st e cache) = snd (entry_is_valid False env info fs st e cache)"
proof (cases e)
  case (SFile p s)
  show ?thesis
  proof (cases cache)
    case None
    have "snd (file_is_valid fs p st s None) = None" by (rule caches_None [OF file_is_valid_cached, THEN arg_cong, of snd, simplified])
    with None assms show ?thesis by (simp add: SFile file_is_valid_sync_iff file_is_valid_iff)
  qed (simp add: SFile)
qed simp_all

lemma snapshot_is_valid_sync:
  assumes "strategy_ok st" and "list_all (entry_recorded st) s"
  shows "snapshot_is_valid True env info fs st s cache = snapshot_is_valid False env info fs st s cache"
  using assms(2)
proof (induction s arbitrary: cache)
  case (Cons e s)
  have "entry_is_valid True env info fs st e cache = entry_is_valid False env info fs st e cache"
    using entry_is_valid_sync [OF assms(1)] Cons.prems by (auto simp: prod_eq_iff)
  with Cons show ?case by (auto split: prod.split bool.split)
qed simp

lemma snapshot_is_valid_cached:
  assumes "fs_ok fs"
  shows "caches env info fs (snapshot_is_valid False env info fs st s)"
proof (induction s)
  case Nil
  then show ?case using caches_pure [of env info fs True] by (simp add: fun_eq_iff)
next
  case (Cons e s)
  have "caches env info fs (if valid then snapshot_is_valid False env info fs st s else Pair False)" for valid
    using Cons by (simp add: caches_pure)
  from caches_bind [OF entry_is_valid_cached [OF assms] this]
  have "caches env info fs (\<lambda>cache. case entry_is_valid False env info fs st e cache of (valid, cache) \<Rightarrow>
      (if valid then snapshot_is_valid False env info fs st s else Pair False) cache)" .
  moreover have "snapshot_is_valid False env info fs st (e # s) = (\<lambda>cache.
      case entry_is_valid False env info fs st e cache of (valid, cache) \<Rightarrow>
      (if valid then snapshot_is_valid False env info fs st s else Pair False) cache)"
    by (auto simp: fun_eq_iff split: prod.split bool.split)
  ultimately show ?case by simp
qed

lemma snapshot_is_valid_all:
  assumes "fs_ok fs"
  shows "fst (snapshot_is_valid False env info fs st s None) \<longleftrightarrow>
    (\<forall>e \<in> set s. fst (entry_is_valid False env info fs st e None))"
proof (induction s)
  case (Cons e s)
  have "entry_is_valid False env info fs st e None = (fst (entry_is_valid False env info fs st e None), None)"
    by (rule caches_None [OF entry_is_valid_cached [OF assms]])
  then show ?case using Cons by (cases "fst (entry_is_valid False env info fs st e None)") simp_all
qed simp

section \<open>A fresh snapshot is valid\<close>

lemma classified_entry_valid:
  assumes "classified_path_entry env info fs p = Some e"
  shows "fst (entry_is_valid False env info fs st e None)" and "entry_recorded st e"
  using assms by (auto simp: classified_path_entry_def managed_snapshot_create_def is_managed_def managed_is_valid_def
      bind_simps split: classification.splits)

lemma unclassified_ordinary: "classified_path_entry env info fs p = None \<Longrightarrow> ordinary_snapshot_applies env info fs p"
  by (auto simp: classified_path_entry_def ordinary_snapshot_applies_def split: classification.splits)

lemma created_file_valid:
  assumes "entry_create_file env info fs p None st = Inr e"
  shows "fst (entry_is_valid False env info fs st e None) \<and> entry_recorded st e"
proof (cases "classified_path_entry env info fs p")
  case None
  with assms obtain s where "e = SFile p s" "file_from_path fs p st = Inr s"
    by (auto simp: entry_create_file_def classified_or_def map_sum_Inr)
  then show ?thesis
    by (simp add: unclassified_ordinary [OF None] file_is_valid_iff file_from_path_recorded)
next
  case (Some x)
  with assms classified_entry_valid [OF Some] show ?thesis by (simp add: entry_create_file_def classified_or_def)
qed

text \<open>A directory that is recorded as absent must not be there at all.\<close>

definition context_plain :: "file_system \<Rightarrow> path \<Rightarrow> bool" where
  "context_plain fs p \<longleftrightarrow> (case fs_metadata fs p of Inr n \<Rightarrow> node_is_dir n | Inl _ \<Rightarrow> True)"

lemma context_fresh:
  assumes fs: "fs_ok fs" and coh: "cache_coherent env info fs cache" and plain: "context_plain fs p"
    and create: "context_create env info fs p st cache = (Inr s, cache')"
  shows "fst (context_is_valid env info fs p st s None)" and "cache_coherent env info fs cache'"
proof -
  note T = directory_timestamp_cached [OF fs, of env info p] and C = directory_content_cached [OF fs, of env info p]
  have "fst (context_is_valid env info fs p st s None) \<and> cache_coherent env info fs cache'"
  proof (cases "fs_metadata fs p")
    case (Inl e)
    with create coh show ?thesis
      by (cases e) (auto simp: context_create_def context_is_valid_def path_absent_def)
  next
    case (Inr metadata)
    with plain have dir: "node_is_dir metadata" by (simp add: context_plain_def)
    from caches_run [OF T coh] obtain c1 where c1: "directory_timestamp_hash env info fs p cache =
        (fst (directory_timestamp_hash env info fs p None), c1)" "cache_coherent env info fs c1" .
    define c2 where "c2 = (if st_timestamp st then c1 else cache)"
    have c2: "cache_coherent env info fs c2" using c1 coh by (simp add: c2_def)
    from caches_run [OF C c2] obtain c3 where c3: "directory_content_hash env info fs p c2 =
        (fst (directory_content_hash env info fs p None), c3)" "cache_coherent env info fs c3" .
    have none: "directory_timestamp_hash env info fs p None = (fst (directory_timestamp_hash env info fs p None), None)"
        "directory_content_hash env info fs p None = (fst (directory_content_hash env info fs p None), None)"
      by (rule caches_None [OF T], rule caches_None [OF C])
    obtain t where t: "fst (directory_timestamp_hash env info fs p None) = t" by simp
    obtain h where h: "fst (directory_content_hash env info fs p None) = h" by simp
    note none = none [unfolded t h] and c1 = c1 [unfolded t] and c3 = c3 [unfolded h]
    show ?thesis
    proof (cases "st_timestamp st")
      case True
      with create c1 c3 c2_def obtain x where "t = Inr x" "cs_exists s" "cs_timestamp_hash s = Some (dt_hash x)"
          "cache_coherent env info fs cache'"
        by (cases t; cases h; cases "st_hash st") (auto simp: context_create_def Inr dir Let_def)
      with none True show ?thesis by (simp add: context_is_valid_def Inr dir)
    next
      case False
      with create c1 c3 c2 c2_def coh have "cs_exists s" "st_hash st \<longrightarrow> (\<exists>x. h = Inr x \<and> cs_content_hash s = Some x)"
          "cache_coherent env info fs cache'"
        by (cases h; cases "st_hash st"; auto simp: context_create_def Inr dir Let_def)+
      with none False show ?thesis by (auto simp: context_is_valid_def Inr dir)
    qed
  qed
  then show "fst (context_is_valid env info fs p st s None)" "cache_coherent env info fs cache'" by auto
qed

lemma created_context_valid:
  assumes "fs_ok fs" and "cache_coherent env info fs cache" and "context_plain fs p"
    and "entry_create_context env info fs st p cache = (Inr e, cache')"
  shows "fst (entry_is_valid False env info fs st e None) \<and> entry_recorded st e" and "cache_coherent env info fs cache'"
proof -
  have "(fst (entry_is_valid False env info fs st e None) \<and> entry_recorded st e) \<and> cache_coherent env info fs cache'"
  proof (cases "classified_path_entry env info fs p")
    case None
    with assms(4) obtain s where "e = SContext p s" "context_create env info fs p st cache = (Inr s, cache')"
      by (auto simp: entry_create_context_def map_prod_def map_sum_Inr split: prod.splits)
    with context_fresh [OF assms(1-3)] show ?thesis by (simp add: unclassified_ordinary [OF None])
  next
    case (Some x)
    with assms(2,4) classified_entry_valid [OF Some] show ?thesis by (simp add: entry_create_context_def)
  qed
  then show "fst (entry_is_valid False env info fs st e None) \<and> entry_recorded st e" "cache_coherent env info fs cache'" by auto
qed

lemma created_missing_valid:
  assumes "path_absent fs p"
  shows "fst (entry_is_valid False env info fs st (entry_create_missing env info fs p) None) \<and>
    entry_recorded st (entry_create_missing env info fs p)"
  using assms classified_entry_valid [of env info fs p] unclassified_ordinary [of env info fs p]
  by (cases "classified_path_entry env info fs p") (simp_all add: entry_create_missing_def)

lemma create_all_invariant:
  assumes "\<And>x c y c'. x \<in> set xs \<Longrightarrow> I c \<Longrightarrow> f x c = (Inr y, c') \<Longrightarrow> P y \<and> I c'"
    and "create_all f xs c = (Inr ys, c')" and "I c"
  shows "(\<forall>y \<in> set ys. P y) \<and> I c'"
  using assms
proof (induction xs arbitrary: c ys)
  case (Cons x xs)
  then show ?case
    by (auto simp: map_prod_def map_sum_Inr split: prod.splits sum.splits) blast+
qed simp

lemma set_normalize_paths [simp]: "set (normalize_paths ps) = set ps"
  by (simp add: normalize_paths_def)

lemma create_resolve_valid:
  assumes "fs_ok fs" and "cache_coherent env info fs cache"
    and "\<forall>p \<in> set contexts. context_plain fs p" and "\<forall>p \<in> set missing. path_absent fs p"
    and "create_resolve env info fs files contexts missing st cache = (Inr s, cache')"
  shows "\<forall>e \<in> set s. fst (entry_is_valid False env info fs st e None) \<and> entry_recorded st e"
    and "cache_coherent env info fs cache'"
proof -
  let ?P = "\<lambda>e. fst (entry_is_valid False env info fs st e None) \<and> entry_recorded st e"
  from assms(5) obtain xs ys c1 where xs: "create_all (\<lambda>p c. (entry_create_file env info fs p None st, c)) (normalize_paths files) cache = (Inr xs, c1)"
      and ys: "create_all (entry_create_context env info fs st) (normalize_paths contexts) c1 = (Inr ys, cache')"
      and s: "s = xs @ ys @ map (entry_create_missing env info fs) (normalize_paths missing)"
    by (auto simp: create_resolve_def split: prod.splits sum.splits)
  have "(\<forall>e \<in> set xs. ?P e) \<and> cache_coherent env info fs c1"
    using created_file_valid by (intro create_all_invariant [where I = "cache_coherent env info fs", OF _ xs assms(2)]) auto
  moreover have "(\<forall>e \<in> set ys. ?P e) \<and> cache_coherent env info fs cache'"
    using created_context_valid [OF assms(1)] assms(3) calculation
    by (intro create_all_invariant [where I = "cache_coherent env info fs", OF _ ys]) auto
  ultimately show "\<forall>e \<in> set s. ?P e" "cache_coherent env info fs cache'"
    using created_missing_valid assms(4) by (auto simp: s)
qed

lemma read_file_recorded:
  assumes "file_from_file_sync fs p st = Inr s"
  shows "file_from_path fs p st = Inr s"
proof -
  from assms obtain content where "fs_read fs p = Inr content" by (auto simp: file_from_file_sync_def split: sum.splits)
  moreover from fs_read_metadata [OF this] obtain stamp where "fs_metadata fs p = Inr (FileNode stamp (Some content))" .
  ultimately show ?thesis using assms
    by (cases "st_timestamp st"; cases "st_hash st") (simp_all add: file_from_file_sync_def file_from_source_def file_from_path_def)
qed

lemma create_snapshot_sync_valid:
  assumes "create_snapshot_sync env info fs ps st = Inr s"
  shows "\<forall>e \<in> set s. fst (entry_is_valid False env info fs st e None) \<and> entry_recorded st e"
proof -
  from assms have run: "create_all (\<lambda>p c. (entry_create_file_sync env info fs st p, c)) (normalize_paths ps) () = (Inr s, ())"
    by (simp add: create_snapshot_sync_def prod_eq_iff)
  have one: "fst (entry_is_valid False env info fs st e None) \<and> entry_recorded st e"
    if "entry_create_file_sync env info fs st p = Inr e" for p e
  proof (cases "classified_path_entry env info fs p")
    case None
    with that obtain r where "e = SFile p r" "file_from_file_sync fs p st = Inr r"
      by (auto simp: entry_create_file_sync_def classified_or_def map_sum_Inr)
    with read_file_recorded [of fs p st r] file_from_path_recorded [of fs p st r] show ?thesis
      by (simp add: unclassified_ordinary [OF None] file_is_valid_iff)
  next
    case (Some x)
    with that classified_entry_valid [OF Some] show ?thesis by (simp add: entry_create_file_sync_def classified_or_def)
  qed
  have "(\<forall>e \<in> set s. fst (entry_is_valid False env info fs st e None) \<and> entry_recorded st e) \<and> True"
    using one by (intro create_all_invariant [where I = "\<lambda>_. True", OF _ run]) auto
  then show ?thesis by simp
qed

text \<open>
  A snapshot is valid right after it was taken; validation answers the same with any coherent cache and in
  both variants; and where it is valid, every file is as it was recorded.
\<close>

lemma snapshot_validation:
  assumes "fs_ok fs" and "cache_coherent env info fs cache" and "strategy_ok st"
    and taken: "\<forall>e \<in> set s. fst (entry_is_valid False env info fs st e None) \<and> entry_recorded st e"
  shows "fst (snapshot_is_valid sync env info fs st s cache)"
    and "fs_ok fs' \<Longrightarrow> cache_coherent env info fs' c \<Longrightarrow>
      fst (snapshot_is_valid sync env info fs' st s c) = fst (snapshot_is_valid False env info fs' st s None) \<and>
      cache_coherent env info fs' (snd (snapshot_is_valid sync env info fs' st s c))"
    and "fs_ok fs' \<Longrightarrow> fst (snapshot_is_valid False env info fs' st s None) \<Longrightarrow> SFile p r \<in> set s \<Longrightarrow>
      file_from_path fs' p st = file_from_path fs p st"
proof -
  have recorded: "list_all (entry_recorded st) s" using taken by (simp add: list_all_iff)
  have sync: "snapshot_is_valid sync env info fs st s c = snapshot_is_valid False env info fs st s c" for fs c
    using snapshot_is_valid_sync [OF assms(3) recorded] by (cases sync) simp_all
  show same: "fst (snapshot_is_valid sync env info fs' st s c) = fst (snapshot_is_valid False env info fs' st s None) \<and>
      cache_coherent env info fs' (snd (snapshot_is_valid sync env info fs' st s c))"
    if "fs_ok fs'" "cache_coherent env info fs' c" for fs' c
    using cachesD [OF snapshot_is_valid_cached [OF that(1)] that(2)] by (simp add: sync)
  show "fst (snapshot_is_valid sync env info fs st s cache)"
    using same [OF assms(1,2)] taken snapshot_is_valid_all [OF assms(1)] by simp
  have as_recorded: "file_from_path fs p st = Inr r" if "fst (entry_is_valid False env info fs st (SFile p r) None)" for fs
    using that by (simp add: file_is_valid_iff split: if_splits)
  assume "fs_ok fs'" "fst (snapshot_is_valid False env info fs' st s None)" "SFile p r \<in> set s"
  then have "fst (entry_is_valid False env info fs' st (SFile p r) None)" using snapshot_is_valid_all by blast
  moreover have "fst (entry_is_valid False env info fs st (SFile p r) None)" using taken \<open>SFile p r \<in> set s\<close> by blast
  ultimately show "file_from_path fs' p st = file_from_path fs p st" using as_recorded by metis
qed

section \<open>A small file system\<close>

definition snapshot_sample_env :: snapshot_env where
  "snapshot_sample_env = \<lparr>se_regex = (\<lambda>_ _ _. None), se_package = (\<lambda>_. None)\<rparr>"

definition snapshot_sample_fs :: file_system where
  "snapshot_sample_fs = \<lparr>fs_root = DirNode 0 True [(''a'', FileNode 5 (Some []))], fs_cwd = []\<rparr>"

end
