(* ===== verification/Path_Plain.thy ===== *)
theory Path_Plain
  imports Path_Text
begin

text \<open>
  Every path whose components can be components is read back from its text: \<open>PathBytes::from_path\<close> and
  \<open>into_path_buf\<close> of \<open>pack_file.rs\<close> lose nothing.
\<close>

definition plain_path :: "path \<Rightarrow> bool" where
  "plain_path p \<longleftrightarrow> wf_path p \<and> (\<forall>s. Normal s \<in> set p \<longrightarrow> proper_name s)"

definition part_name :: "string \<Rightarrow> bool" where
  "part_name s \<longleftrightarrow> s \<noteq> '''' \<and> CHR ''/'' \<notin> set s \<and> s \<noteq> ''.''"

lemma part_component_string [simp]: "component_string (part_component s) = s"
  by (simp add: part_component_def)

lemma part_component_cases: "part_component s = ParentDir \<or> part_component s = Normal s"
  by (simp add: part_component_def)

lemma path_string_parts: "path_string (part_component s # p) = s @ (if p = [] then '''' else ''/'' @ path_string p)"
  using part_component_cases [of s] part_component_string [of s]
  by (cases p) (auto simp del: part_component_string)

lemma split_parts:
  assumes "names \<noteq> []" and "\<forall>s \<in> set names. part_name s"
  shows "split_on CHR ''/'' (path_string (map part_component names)) = names"
  using assms
proof (induction names rule: list_nonempty_induct)
  case (single s)
  then show ?case by (simp add: part_name_def split_on_none)
next
  case (cons s names)
  then show ?case by (simp add: path_string_parts part_name_def split_on_append)
qed

lemma parts_of_path:
  assumes "RootDir \<notin> set p" and "CurDir \<notin> set p" and "\<forall>s. Normal s \<in> set p \<longrightarrow> proper_name s"
  obtains names where "p = map part_component names" and "\<forall>s \<in> set names. part_name s"
proof
  let ?names = "map component_string p"
  have c: "part_component (component_string c) = c \<and> part_name (component_string c)" if "c \<in> set p" for c
    using assms that by (cases c) (auto simp: part_component_def proper_name_def part_name_def)
  then show "p = map part_component ?names" by (simp add: map_idI [symmetric])
  show "\<forall>s \<in> set ?names. part_name s" using c by auto
qed

lemma filter_parts: "\<forall>s \<in> set names. part_name s \<Longrightarrow> filter (\<lambda>p. p \<noteq> '''' \<and> p \<noteq> ''.'') names = names"
  by (simp add: filter_id_conv part_name_def)

lemma path_parse_plain: "plain_path p \<Longrightarrow> path_parse (path_string p) = p"
proof (cases p)
  case (Cons c q)
  assume plain: "plain_path p"
  then have q: "RootDir \<notin> set q" "CurDir \<notin> set q" "\<forall>s. Normal s \<in> set q \<longrightarrow> proper_name s"
    by (auto simp: plain_path_def wf_path_def Cons)
  obtain names where names: "q = map part_component names" "\<forall>s \<in> set names. part_name s"
    by (rule parts_of_path [OF q])
  have split: "split_on CHR ''/'' (path_string q) = (if names = [] then [''''] else names)"
    using split_parts [OF _ names(2)] by (simp add: names(1))
  have parts: "map part_component (filter (\<lambda>p. p \<noteq> '''' \<and> p \<noteq> ''.'') (split_on CHR ''/'' (path_string q))) = q"
    unfolding split by (simp add: names(1) filter_parts [OF names(2)])
  show ?thesis
  proof (cases c)
    case RootDir
    then have "path_string p = CHR ''/'' # path_string q" by (cases q) (simp_all add: Cons)
    with RootDir parts show ?thesis by (simp add: path_parse_def Cons)
  next
    case CurDir
    then have "path_string p = ''.'' @ (if q = [] then '''' else ''/'' @ path_string q)" by (cases q) (simp_all add: Cons)
    with CurDir parts show ?thesis by (auto simp: path_parse_def Cons)
  next
    case ParentDir
    then have p: "path_string p = path_string (map part_component (''..'' # names))" "part_name ''..''"
      by (simp_all add: Cons names(1) part_component_def part_name_def)
    have "\<not> prefix ''/'' (path_string (ParentDir # q))" by (cases q) simp_all
    with p ParentDir names show ?thesis
      using split_parts [of "''..'' # names"] filter_parts [of "''..'' # names"]
      by (simp add: path_parse_def Cons part_component_def path_string_parts)
  next
    case (Normal s)
    with plain have s: "part_name s" "s \<noteq> ''..''" by (auto simp: plain_path_def Cons part_name_def proper_name_def)
    from s(1) have "s \<noteq> []" "hd s \<noteq> CHR ''/''" by (auto simp: part_name_def dest: hd_in_set)
    moreover have "path_string p = path_string (map part_component (s # names))"
      using s by (simp add: Cons names(1) Normal part_component_def)
    moreover have "path_string (map part_component (s # names)) = s @ (if q = [] then '''' else ''/'' @ path_string q)"
      by (simp add: path_string_parts names(1))
    moreover have "\<not> prefix ''/'' (s @ u)" for u using calculation(1,2) by (cases s) auto
    moreover have "split_on CHR ''/'' (path_string (map part_component (s # names))) = s # names"
      using split_parts [of "s # names"] s names(2) by simp
    moreover have "filter (\<lambda>p. p \<noteq> '''' \<and> p \<noteq> ''.'') (s # names) = s # names"
      using filter_parts [of "s # names"] s names(2) by simp
    ultimately show ?thesis
      using s by (simp only: path_parse_def Let_def) (simp add: Cons names(1) Normal part_component_def part_name_def)
  qed
qed (simp add: path_parse_def)

end
