(* ===== verification/Pack_Convert.thy ===== *)
theory Pack_Convert
  imports Pack_Publish Snapshot_Facts Path_Plain
begin

text \<open>
  Between the records of the compiler and the records that are stored (the \<open>From\<close> and \<open>TryFrom\<close>
  implementations of \<open>cache/pack_file.rs\<close>, \<open>persistent_entries\<close> and \<open>from_persistent_entries\<close> of
  \<open>snapshot.rs\<close>, \<open>rendered_source.rs\<close> and the data of \<open>code_generation_record.rs\<close>).  Of other crates there are
  three parameters: the printer and the parser of \<open>serde_json\<close>, and \<open>SourceMap::from_json\<close> of
  \<open>rspack_sources\<close>, of which only the success matters.
\<close>

section \<open>Conversions\<close>

fun on_success :: "'e + 'a \<Rightarrow> ('a \<Rightarrow> 'e + 'b) \<Rightarrow> 'e + 'b" where
  "on_success (Inl e) f = Inl e"
| "on_success (Inr x) f = f x"

lemma on_success_Inr [simp]: "on_success r f = Inr y \<longleftrightarrow> (\<exists>x. r = Inr x \<and> f x = Inr y)"
  by (cases r) simp_all

definition map_option_result :: "('a \<Rightarrow> 'e + 'b) \<Rightarrow> 'a option \<Rightarrow> 'e + 'b option" where
  "map_option_result f v = (case v of None \<Rightarrow> Inr None | Some x \<Rightarrow> map_sum id Some (f x))"

text \<open>The law of a pair of conversions: what was converted is converted back to the same value.\<close>

locale conversion =
  fixes store :: "'a \<Rightarrow> io_error + 'b" and restore :: "'b \<Rightarrow> io_error + 'a" and ok :: "'a \<Rightarrow> bool"
  assumes restored: "ok v \<Longrightarrow> store v = Inr d \<Longrightarrow> restore d = Inr v"
begin

lemma restored_list: "list_all ok vs \<Longrightarrow> map_result store vs = Inr ds \<Longrightarrow> map_result restore ds = Inr vs"
  by (induction vs arbitrary: ds) (auto simp: restored split: sum.splits)

lemma restored_option: "opt_ok ok v \<Longrightarrow> map_option_result store v = Inr d \<Longrightarrow> map_option_result restore d = Inr v"
  by (cases v; cases "store (the v)") (auto simp: map_option_result_def restored opt_ok_def)

lemma stored_injective: "ok v \<Longrightarrow> ok w \<Longrightarrow> store v = Inr d \<Longrightarrow> store w = Inr d \<Longrightarrow> v = w"
  using restored [of v d] restored [of w d] by simp

end

section \<open>Paths and times\<close>

definition path_bytes :: "path \<Rightarrow> bytes" where
  "path_bytes p = str_bytes (path_string p)"

definition path_from_bytes :: "bytes \<Rightarrow> path" where
  "path_from_bytes bs = path_parse (bytes_str bs)"

definition paths_from_bytes :: "bytes list \<Rightarrow> path list" where
  "paths_from_bytes bss = normalize_paths (map path_from_bytes bss)"

lemma path_from_path_bytes [simp]: "plain_path p \<Longrightarrow> path_from_bytes (path_bytes p) = p"
  by (simp add: path_from_bytes_def path_bytes_def path_parse_plain)

lemma paths_from_path_bytes:
  assumes "list_all plain_path ps" "sorted_wrt (<) ps"
  shows "paths_from_bytes (map path_bytes ps) = ps"
proof -
  have "map path_from_bytes (map path_bytes ps) = ps"
    using assms(1) by (auto simp: list_all_iff intro: map_idI)
  with assms(2) show ?thesis
    by (simp add: paths_from_bytes_def normalize_paths_def strict_sorted_iff sorted_sort_id remdups_adj_distinct)
qed

text \<open>\<open>SystemTime\<close> holds 64-bit seconds; a duration is its absolute value.\<close>

definition time_fits :: "system_time \<Rightarrow> bool" where
  "time_fits t \<longleftrightarrow> - (2 ^ 63) \<le> t div 1000000000 \<and> t div 1000000000 < 2 ^ 63"

definition timestamp_from_system_time :: "system_time \<Rightarrow> io_error + timestamp_dto" where
  "timestamp_from_system_time t =
     (let duration = \<bar>t\<bar>; seconds = duration div 1000000000; nanoseconds = duration mod 1000000000
      in if 0 \<le> t then
           if 2 ^ 63 \<le> seconds then Inl (invalid_data ''Snapshot timestamp is too large'')
           else Inr \<lparr>ts_seconds = word_of_int seconds, ts_nanoseconds = word_of_int nanoseconds\<rparr>
         else if 2 ^ 63 \<le> seconds then Inl (invalid_data ''Snapshot timestamp is too small'')
         else if nanoseconds = 0 then Inr \<lparr>ts_seconds = word_of_int (- seconds), ts_nanoseconds = 0\<rparr>
         else if - seconds - 1 < - (2 ^ 63) then Inl (invalid_data ''Snapshot timestamp is too small'')
         else Inr \<lparr>ts_seconds = word_of_int (- seconds - 1), ts_nanoseconds = word_of_int (1000000000 - nanoseconds)\<rparr>)"

definition system_time_from_timestamp :: "timestamp_dto \<Rightarrow> io_error + system_time" where
  "system_time_from_timestamp ts =
     (let seconds = sint (ts_seconds ts); nanoseconds = uint (ts_nanoseconds ts)
      in if 1000000000 \<le> nanoseconds then Inl (invalid_data ''Snapshot timestamp nanoseconds are out of range'')
         else if 0 \<le> seconds then
           (let t = \<bar>seconds\<bar> * 1000000000 + nanoseconds
            in if time_fits t then Inr t else Inl (invalid_data ''Snapshot timestamp is too large''))
         else if nanoseconds = 0 then
           (let t = - (\<bar>seconds\<bar> * 1000000000)
            in if time_fits t then Inr t else Inl (invalid_data ''Snapshot timestamp is too small''))
         else if \<bar>seconds\<bar> < 1 then Inl (invalid_data ''Snapshot timestamp is invalid'')
         else
           (let t = - ((\<bar>seconds\<bar> - 1) * 1000000000 + (1000000000 - nanoseconds))
            in if time_fits t then Inr t else Inl (invalid_data ''Snapshot timestamp is too small'')))"

lemma sint_of_int_fits: "- (2 ^ 63) \<le> i \<Longrightarrow> i < 2 ^ 63 \<Longrightarrow> sint (word_of_int i :: i64) = i"
  by (simp add: signed_of_int signed_take_bit_int_eq_self)

lemma uint_of_int_fits: "0 \<le> i \<Longrightarrow> i < 2 ^ 32 \<Longrightarrow> uint (word_of_int i :: u32) = i"
  by (simp add: uint_word_of_int_eq take_bit_int_eq_self)

lemma nanosecond_division:
  fixes t :: int
  obtains q r where "t = q * 1000000000 + r" "0 \<le> r" "r < 1000000000"
  using that [of "t div 1000000000" "t mod 1000000000"] by simp

lemma timestamp_restored:
  assumes "timestamp_from_system_time t = Inr ts"
  shows "system_time_from_timestamp ts = Inr t"
proof -
  obtain q r where a: "\<bar>t\<bar> = q * 1000000000 + r" "0 \<le> r" "r < 1000000000" by (rule nanosecond_division)
  then have dm: "\<bar>t\<bar> div 1000000000 = q" "\<bar>t\<bar> mod 1000000000 = r" by simp_all
  have q: "0 \<le> q" using a by linarith
  have fits: "time_fits t" if "q < 2 ^ 63"
  proof -
    obtain d e where t: "t = d * 1000000000 + e" "0 \<le> e" "e < 1000000000" by (rule nanosecond_division)
    then have "t div 1000000000 = d" by simp
    moreover have "\<bar>d * 1000000000 + e\<bar> = q * 1000000000 + r" using a(1) t(1) by simp
    moreover have "q < 9223372036854775808" using that by simp
    ultimately have "- 9223372036854775808 \<le> d \<and> d < 9223372036854775808" using a(2,3) t(2,3) by linarith
    with \<open>t div 1000000000 = d\<close> show ?thesis by (simp add: time_fits_def)
  qed
  show ?thesis
  proof (cases "0 \<le> t")
    case True
    with assms dm have "q < 2 ^ 63" and ts: "ts = \<lparr>ts_seconds = word_of_int q, ts_nanoseconds = word_of_int r\<rparr>"
      by (auto simp: timestamp_from_system_time_def Let_def split: if_splits)
    with q a True fits show ?thesis
      by (simp add: system_time_from_timestamp_def sint_of_int_fits uint_of_int_fits)
  next
    case False
    with assms dm have lt: "q < 2 ^ 63" by (auto simp: timestamp_from_system_time_def Let_def split: if_splits)
    show ?thesis
    proof (cases "r = 0")
      case True
      with False assms dm lt have ts: "ts = \<lparr>ts_seconds = word_of_int (- q), ts_nanoseconds = 0\<rparr>"
        by (simp add: timestamp_from_system_time_def Let_def)
      moreover have "0 < q" using a False True by linarith
      moreover have "sint (word_of_int (- q) :: i64) = - q" using lt q by (intro sint_of_int_fits) simp_all
      moreover have "t = - (q * 1000000000)" using a False True by linarith
      ultimately show ?thesis using fits [OF lt] by (simp add: system_time_from_timestamp_def Let_def)
    next
      case nz: False
      with False assms dm lt have ts: "ts = \<lparr>ts_seconds = word_of_int (- q - 1), ts_nanoseconds = word_of_int (1000000000 - r)\<rparr>"
        by (simp add: timestamp_from_system_time_def Let_def)
      moreover have "sint (word_of_int (- q - 1) :: i64) = - q - 1" using lt q by (intro sint_of_int_fits) simp_all
      moreover have "uint (word_of_int (1000000000 - r) :: u32) = 1000000000 - r" using a by (intro uint_of_int_fits) simp_all
      moreover have "t = - (q * 1000000000 + r)" using a False by linarith
      ultimately show ?thesis using fits [OF lt] q a nz by (simp add: system_time_from_timestamp_def Let_def)
    qed
  qed
qed

interpretation timestamp: conversion timestamp_from_system_time system_time_from_timestamp "\<lambda>_. True"
  by unfold_locales (rule timestamp_restored)


section \<open>Snapshots\<close>

datatype persistent_state = PNodeModules | PGroupingFolder | PPackage string string

datatype persistent_entry =
    PFile path bool "system_time option" "u64 option"
  | PContext path bool "u64 option" "u64 option"
  | PMissing path
  | PImmutable path
  | PManaged path path persistent_state

fun persistent_state_of :: "managed_state \<Rightarrow> persistent_state" where
  "persistent_state_of NodeModules = PNodeModules"
| "persistent_state_of GroupingFolder = PGroupingFolder"
| "persistent_state_of (Package name version) = PPackage name version"

fun managed_state_of :: "persistent_state \<Rightarrow> managed_state" where
  "managed_state_of PNodeModules = NodeModules"
| "managed_state_of PGroupingFolder = GroupingFolder"
| "managed_state_of (PPackage name version) = Package name version"

fun persistent_entry_of :: "snapshot_entry \<Rightarrow> persistent_entry" where
  "persistent_entry_of (SFile p s) = PFile p (fsn_exists s) (fsn_modified s) (fsn_source_hash s)"
| "persistent_entry_of (SContext p s) = PContext p (cs_exists s) (cs_timestamp_hash s) (cs_content_hash s)"
| "persistent_entry_of (SMissing p) = PMissing p"
| "persistent_entry_of (SImmutable p) = PImmutable p"
| "persistent_entry_of (SManaged s) = PManaged (mp_path s) (mp_root s) (persistent_state_of (mp_state s))"

definition persistent_entries :: "snapshot \<Rightarrow> persistent_entry list" where
  "persistent_entries = map persistent_entry_of"

fun persistent_path :: "persistent_entry \<Rightarrow> path" where
  "persistent_path (PFile p _ _ _) = p"
| "persistent_path (PContext p _ _ _) = p"
| "persistent_path (PMissing p) = p"
| "persistent_path (PImmutable p) = p"
| "persistent_path (PManaged p _ _) = p"

fun from_persistent_entry :: "persistent_entry \<Rightarrow> snapshot_entry option" where
  "from_persistent_entry (PFile p present modified source_hash) =
     (if \<not> present \<and> (modified \<noteq> None \<or> source_hash \<noteq> None) then None
      else Some (SFile p \<lparr>fsn_exists = present, fsn_modified = modified, fsn_source_hash = source_hash\<rparr>))"
| "from_persistent_entry (PContext p present stamp_hash contents_hash) =
     (if \<not> present \<and> (stamp_hash \<noteq> None \<or> contents_hash \<noteq> None) then None
      else Some (SContext p \<lparr>cs_exists = present, cs_timestamp_hash = stamp_hash, cs_content_hash = contents_hash\<rparr>))"
| "from_persistent_entry (PMissing p) = Some (SMissing p)"
| "from_persistent_entry (PImmutable p) = Some (SImmutable p)"
| "from_persistent_entry (PManaged p root state) =
     Some (SManaged \<lparr>mp_path = p, mp_root = root, mp_state = managed_state_of state\<rparr>)"

fun from_entries_loop :: "path list \<Rightarrow> persistent_entry list \<Rightarrow> snapshot option" where
  "from_entries_loop seen [] = Some []"
| "from_entries_loop seen (e # es) =
     (if persistent_path e \<in> set seen then None
      else do {
        x \<leftarrow> from_persistent_entry e;
        xs \<leftarrow> from_entries_loop (persistent_path e # seen) es;
        Some (x # xs) })"

definition from_persistent_entries :: "persistent_entry list \<Rightarrow> snapshot option" where
  "from_persistent_entries = from_entries_loop []"

fun persistent_state_to_dto :: "persistent_state \<Rightarrow> managed_item_state_dto" where
  "persistent_state_to_dto PNodeModules = NodeModulesDto"
| "persistent_state_to_dto PGroupingFolder = GroupingFolderDto"
| "persistent_state_to_dto (PPackage name version) = PackageDto name version"

fun persistent_state_from_dto :: "managed_item_state_dto \<Rightarrow> persistent_state" where
  "persistent_state_from_dto NodeModulesDto = PNodeModules"
| "persistent_state_from_dto GroupingFolderDto = PGroupingFolder"
| "persistent_state_from_dto (PackageDto name version) = PPackage name version"

fun entry_to_dto :: "persistent_entry \<Rightarrow> io_error + snapshot_entry_dto" where
  "entry_to_dto (PFile p present modified source_hash) =
     map_sum id (\<lambda>modified. FileDto (path_bytes p) present modified source_hash)
       (map_option_result timestamp_from_system_time modified)"
| "entry_to_dto (PContext p present stamp_hash contents_hash) =
     Inr (ContextDto (path_bytes p) present stamp_hash contents_hash)"
| "entry_to_dto (PMissing p) = Inr (MissingExistenceDto (path_bytes p))"
| "entry_to_dto (PImmutable p) = Inr (ImmutablePathDto (path_bytes p))"
| "entry_to_dto (PManaged p root state) =
     Inr (ManagedPathDto (path_bytes p) (path_bytes root) (persistent_state_to_dto state))"

fun entry_from_dto :: "snapshot_entry_dto \<Rightarrow> io_error + persistent_entry" where
  "entry_from_dto (FileDto p present modified source_hash) =
     map_sum id (\<lambda>modified. PFile (path_from_bytes p) present modified source_hash)
       (map_option_result system_time_from_timestamp modified)"
| "entry_from_dto (ContextDto p present stamp_hash contents_hash) =
     Inr (PContext (path_from_bytes p) present stamp_hash contents_hash)"
| "entry_from_dto (MissingExistenceDto p) = Inr (PMissing (path_from_bytes p))"
| "entry_from_dto (ImmutablePathDto p) = Inr (PImmutable (path_from_bytes p))"
| "entry_from_dto (ManagedPathDto p root state) =
     Inr (PManaged (path_from_bytes p) (path_from_bytes root) (persistent_state_from_dto state))"

definition snapshot_to_dto :: "snapshot \<Rightarrow> io_error + snapshot_dto" where
  "snapshot_to_dto s = map_result entry_to_dto (persistent_entries s)"

definition snapshot_from_dto :: "snapshot_dto \<Rightarrow> io_error + snapshot" where
  "snapshot_from_dto dto = on_success (map_result entry_from_dto dto) (\<lambda>entries.
     case from_persistent_entries entries of
       None \<Rightarrow> Inl (invalid_data ''PackFile Snapshot contains inconsistent or duplicate entries'')
     | Some s \<Rightarrow> Inr s)"

text \<open>Every path is recorded once, and nothing is recorded of what does not exist.\<close>

fun entry_plain :: "snapshot_entry \<Rightarrow> bool" where
  "entry_plain (SFile p s) \<longleftrightarrow> plain_path p \<and> (fsn_exists s \<or> fsn_modified s = None \<and> fsn_source_hash s = None)"
| "entry_plain (SContext p s) \<longleftrightarrow> plain_path p \<and> (cs_exists s \<or> cs_timestamp_hash s = None \<and> cs_content_hash s = None)"
| "entry_plain (SMissing p) \<longleftrightarrow> plain_path p"
| "entry_plain (SImmutable p) \<longleftrightarrow> plain_path p"
| "entry_plain (SManaged s) \<longleftrightarrow> plain_path (mp_path s) \<and> plain_path (mp_root s)"

definition snapshot_plain :: "snapshot \<Rightarrow> bool" where
  "snapshot_plain s \<longleftrightarrow> list_all entry_plain s \<and> distinct (map entry_path s)"

lemma persistent_states [simp]:
  "managed_state_of (persistent_state_of m) = m" "persistent_state_from_dto (persistent_state_to_dto q) = q"
  by (cases m; simp) (cases q; simp)

lemma persistent_path_of [simp]: "persistent_path (persistent_entry_of e) = entry_path e"
  by (cases e) simp_all

lemma from_persistent_entry_of: "entry_plain e \<Longrightarrow> from_persistent_entry (persistent_entry_of e) = Some e"
  by (cases e) auto

fun persistent_plain :: "persistent_entry \<Rightarrow> bool" where
  "persistent_plain (PManaged p root _) \<longleftrightarrow> plain_path p \<and> plain_path root"
| "persistent_plain e \<longleftrightarrow> plain_path (persistent_path e)"

lemma persistent_plain_of: "entry_plain e \<Longrightarrow> persistent_plain (persistent_entry_of e)"
  by (cases e) auto

interpretation entry: conversion entry_to_dto entry_from_dto persistent_plain
proof unfold_locales
  fix e d
  assume "persistent_plain e" and "entry_to_dto e = Inr d"
  then show "entry_from_dto d = Inr e"
    by (cases e) (auto simp: map_sum_Inr opt_ok_def timestamp.restored_option split: option.splits)
qed

lemma from_entries_loop_of:
  "list_all entry_plain s \<Longrightarrow> distinct (map entry_path s) \<Longrightarrow> set seen \<inter> set (map entry_path s) = {} \<Longrightarrow>
     from_entries_loop seen (persistent_entries s) = Some s"
  by (induction s arbitrary: seen) (auto simp: persistent_entries_def from_persistent_entry_of)

interpretation snapshot: conversion snapshot_to_dto snapshot_from_dto snapshot_plain
proof unfold_locales
  fix s d
  assume s: "snapshot_plain s" and d: "snapshot_to_dto s = Inr d"
  have "list_all persistent_plain (persistent_entries s)"
    using s by (auto simp: snapshot_plain_def persistent_entries_def list_all_iff persistent_plain_of)
  from entry.restored_list [OF this] d have "map_result entry_from_dto d = Inr (persistent_entries s)"
    by (simp add: snapshot_to_dto_def)
  moreover have "from_persistent_entries (persistent_entries s) = Some s"
    using s by (simp add: from_persistent_entries_def snapshot_plain_def from_entries_loop_of)
  ultimately show "snapshot_from_dto d = Inr s" by (simp add: snapshot_from_dto_def)
qed

text \<open>A snapshot that names a path twice is stored but never read back.\<close>

lemma from_entries_loop_paths:
  "from_entries_loop seen es = Some s \<Longrightarrow> distinct (map persistent_path es) \<and> set seen \<inter> set (map persistent_path es) = {}"
proof (induction es arbitrary: seen s)
  case (Cons e es)
  then obtain xs where "persistent_path e \<notin> set seen" "from_entries_loop (persistent_path e # seen) es = Some xs"
    by (auto simp: bind_simps split: if_splits)
  with Cons.IH [OF this(2)] show ?case by auto
qed simp

lemma entry_path_restored: "entry_to_dto e = Inr d \<Longrightarrow> entry_from_dto d = Inr e' \<Longrightarrow> persistent_path e' = path_from_bytes (path_bytes (persistent_path e))"
  by (cases e) (auto simp: map_sum_Inr)

lemma repeated_path_is_lost:
  assumes "snapshot_to_dto s = Inr d" and "\<not> distinct (map entry_path s)"
  shows "\<exists>e. snapshot_from_dto d = Inl e"
proof (cases "snapshot_from_dto d")
  case (Inr t)
  then obtain es where es: "map_result entry_from_dto d = Inr es" "from_entries_loop [] es = Some t"
    by (auto simp: snapshot_from_dto_def from_persistent_entries_def split: option.splits)
  have "map_result entry_to_dto xs = Inr d \<Longrightarrow> map_result entry_from_dto d = Inr es \<Longrightarrow>
      map persistent_path es = map (\<lambda>e. path_from_bytes (path_bytes (persistent_path e))) xs" for xs d es
  proof (induction xs arbitrary: d es)
    case (Cons x xs)
    then obtain y ys where y: "entry_to_dto x = Inr y" "map_result entry_to_dto xs = Inr ys" "d = y # ys"
      by (auto split: sum.splits)
    with Cons.prems(2) obtain e zs where "entry_from_dto y = Inr e" "map_result entry_from_dto ys = Inr zs" "es = e # zs"
      by (auto split: sum.splits)
    with y Cons.IH entry_path_restored show ?case by simp
  qed simp
  from this [OF assms(1) [unfolded snapshot_to_dto_def] es(1)]
  have "distinct (map (\<lambda>p. path_from_bytes (path_bytes p)) (map entry_path s))"
    using from_entries_loop_paths [OF es(2)] by (simp add: persistent_entries_def comp_def)
  with assms(2) show ?thesis by (simp only: distinct_map) simp
qed simp

section \<open>Module identities and resolved requests\<close>

fun module_type_to_dto :: "module_type \<Rightarrow> module_type_dto" where
  "module_type_to_dto JavaScriptAuto = JavaScriptAutoDto"
| "module_type_to_dto Json = JsonDto"
| "module_type_to_dto Asset = AssetDto"
| "module_type_to_dto AssetResource = AssetResourceDto"
| "module_type_to_dto AssetInline = AssetInlineDto"
| "module_type_to_dto AssetSource = AssetSourceDto"

fun module_type_from_dto :: "module_type_dto \<Rightarrow> module_type" where
  "module_type_from_dto JavaScriptAutoDto = JavaScriptAuto"
| "module_type_from_dto JsonDto = Json"
| "module_type_from_dto AssetDto = Asset"
| "module_type_from_dto AssetResourceDto = AssetResource"
| "module_type_from_dto AssetInlineDto = AssetInline"
| "module_type_from_dto AssetSourceDto = AssetSource"

definition identity_to_dto :: "module_identity \<Rightarrow> module_identity_dto" where
  "identity_to_dto i = \<lparr>mid_module_type = module_type_to_dto (mi_module_type i), mid_resource = path_bytes (mi_resource i),
     mid_query = mi_query i, mid_fragment = mi_fragment i, mid_layer = mi_layer i, mid_loaders = mi_loaders i\<rparr>"

definition identity_from_dto :: "module_identity_dto \<Rightarrow> module_identity" where
  "identity_from_dto i = ModuleIdentity (module_type_from_dto (mid_module_type i)) (path_from_bytes (mid_resource i))
     (mid_query i) (mid_fragment i) (mid_layer i) (mid_loaders i)"

record resolve_record =
  rsr_identity :: module_identity
  rsr_resource :: path
  rsr_file_dependencies :: "path list"
  rsr_context_dependencies :: "path list"
  rsr_missing_dependencies :: "path list"
  rsr_snapshot :: snapshot

definition resolve_to_dto :: "resolve_record \<Rightarrow> io_error + resolve_record_dto" where
  "resolve_to_dto r = map_sum id (\<lambda>s.
     \<lparr>rrd_identity = identity_to_dto (rsr_identity r), rrd_resource = path_bytes (rsr_resource r),
      rrd_file_dependencies = map path_bytes (rsr_file_dependencies r),
      rrd_context_dependencies = map path_bytes (rsr_context_dependencies r),
      rrd_missing_dependencies = map path_bytes (rsr_missing_dependencies r),
      rrd_snapshot = s\<rparr>) (snapshot_to_dto (rsr_snapshot r))"

definition resolve_from_dto :: "resolve_record_dto \<Rightarrow> io_error + resolve_record" where
  "resolve_from_dto r = map_sum id (\<lambda>s.
     \<lparr>rsr_identity = identity_from_dto (rrd_identity r), rsr_resource = path_from_bytes (rrd_resource r),
      rsr_file_dependencies = paths_from_bytes (rrd_file_dependencies r),
      rsr_context_dependencies = paths_from_bytes (rrd_context_dependencies r),
      rsr_missing_dependencies = paths_from_bytes (rrd_missing_dependencies r),
      rsr_snapshot = s\<rparr>) (snapshot_from_dto (rrd_snapshot r))"

text \<open>A \<open>BTreeSet\<close> of paths: in ascending order.\<close>

definition path_set_plain :: "path list \<Rightarrow> bool" where
  "path_set_plain ps \<longleftrightarrow> list_all plain_path ps \<and> sorted_wrt (<) ps"

definition resolve_plain :: "resolve_record \<Rightarrow> bool" where
  "resolve_plain r \<longleftrightarrow> plain_path (mi_resource (rsr_identity r)) \<and> plain_path (rsr_resource r) \<and>
     path_set_plain (rsr_file_dependencies r) \<and> path_set_plain (rsr_context_dependencies r) \<and>
     path_set_plain (rsr_missing_dependencies r) \<and> snapshot_plain (rsr_snapshot r)"

lemma module_type_from_to [simp]: "module_type_from_dto (module_type_to_dto t) = t"
  by (cases t) simp_all

lemma identity_from_to [simp]: "plain_path (mi_resource i) \<Longrightarrow> identity_from_dto (identity_to_dto i) = i"
  by (cases i) (simp add: identity_from_dto_def identity_to_dto_def)

interpretation resolve: conversion resolve_to_dto resolve_from_dto resolve_plain
proof unfold_locales
  fix r d
  assume "resolve_plain r" and "resolve_to_dto r = Inr d"
  then show "resolve_from_dto d = Inr r"
    by (cases r) (auto simp: resolve_plain_def resolve_to_dto_def resolve_from_dto_def map_sum_Inr path_set_plain_def
        paths_from_path_bytes snapshot.restored)
qed

section \<open>Dependencies\<close>

definition range_to_dto :: "source_range \<Rightarrow> source_range_dto" where
  "range_to_dto r = \<lparr>srd_start = sr_start r, srd_end = sr_end r\<rparr>"

definition range_from_dto :: "source_range_dto \<Rightarrow> source_range" where
  "range_from_dto r = range_new (srd_start r) (srd_end r)"

text \<open>A \<open>usize\<close> has 64 bits.\<close>

definition module_dependency_to_dto :: "module_dependency \<Rightarrow> io_error + module_dependency_dto" where
  "module_dependency_to_dto d = map_sum id (\<lambda>order.
     \<lparr>mdd_request = md_request d, mdd_user_request = md_user_request d, mdd_source_order = order,
      mdd_range = map_option range_to_dto (md_range d), mdd_weak = md_weak d\<rparr>)
     (map_option_result (\<lambda>n. if u64_max < n then Inl (invalid_data ''Module dependency source order is too large'')
        else Inr (word_of_nat n)) (md_source_order d))"

definition module_dependency_from_dto :: "module_dependency_dto \<Rightarrow> module_dependency" where
  "module_dependency_from_dto d =
     \<lparr>md_request = mdd_request d, md_user_request = mdd_user_request d, md_source_order = map_option unat (mdd_source_order d),
      md_range = map_option range_from_dto (mdd_range d), md_weak = mdd_weak d\<rparr>"

fun dependency_to_dto :: "dependency \<Rightarrow> io_error + dependency_dto" where
  "dependency_to_dto (Entry m) = map_sum id EntryDto (module_dependency_to_dto m)"
| "dependency_to_dto (HarmonyImportSideEffect m import_var) =
     map_sum id (\<lambda>m. HarmonyImportSideEffectDto m import_var) (module_dependency_to_dto m)"
| "dependency_to_dto (HarmonyImportSpecifier d) =
     map_sum id (\<lambda>m. HarmonyImportSpecifierDto m (his_ids d) (his_name d) (range_to_dto (his_usage_range d)) (his_shorthand d))
       (module_dependency_to_dto (his_module d))"
| "dependency_to_dto (HarmonyExportHeader declaration_range statement_range) =
     Inr (HarmonyExportHeaderDto (map_option range_to_dto declaration_range) (range_to_dto statement_range))"
| "dependency_to_dto (HarmonyExportSpecifier i name) = Inr (HarmonyExportSpecifierDto i name)"
| "dependency_to_dto (HarmonyExportExpression d) =
     Inr (HarmonyExportExpressionDto (range_to_dto (hee_range d)) (range_to_dto (hee_statement_range d)) (hee_declaration_id d))"
| "dependency_to_dto (HarmonyExportImportedSpecifier d) =
     map_sum id (\<lambda>m. HarmonyExportImportedSpecifierDto m (heis_ids d) (heis_name d) (heis_is_star d))
       (module_dependency_to_dto (heis_module d))"
| "dependency_to_dto NullDep = Inr NullDto"
| "dependency_to_dto (Const expression r) = Inr (ConstDto expression (range_to_dto r))"
| "dependency_to_dto (Import m) = map_sum id ImportDto (module_dependency_to_dto m)"
| "dependency_to_dto (Loader m) = map_sum id LoaderDto (module_dependency_to_dto m)"
| "dependency_to_dto (LoaderImport m) = map_sum id LoaderImportDto (module_dependency_to_dto m)"

fun dependency_from_dto :: "dependency_dto \<Rightarrow> dependency" where
  "dependency_from_dto (EntryDto m) = Entry (module_dependency_from_dto m)"
| "dependency_from_dto (HarmonyImportSideEffectDto m import_var) =
     HarmonyImportSideEffect (module_dependency_from_dto m) import_var"
| "dependency_from_dto (HarmonyImportSpecifierDto m ids name usage_range shorthand) =
     HarmonyImportSpecifier \<lparr>his_module = module_dependency_from_dto m, his_ids = ids, his_name = name,
       his_usage_range = range_from_dto usage_range, his_shorthand = shorthand\<rparr>"
| "dependency_from_dto (HarmonyExportHeaderDto declaration_range statement_range) =
     HarmonyExportHeader (map_option range_from_dto declaration_range) (range_from_dto statement_range)"
| "dependency_from_dto (HarmonyExportSpecifierDto i name) = HarmonyExportSpecifier i name"
| "dependency_from_dto (HarmonyExportExpressionDto r statement_range declaration_id) =
     HarmonyExportExpression \<lparr>hee_range = range_from_dto r, hee_statement_range = range_from_dto statement_range,
       hee_declaration_id = declaration_id\<rparr>"
| "dependency_from_dto (HarmonyExportImportedSpecifierDto m ids name is_star) =
     HarmonyExportImportedSpecifier \<lparr>heis_module = module_dependency_from_dto m, heis_ids = ids, heis_name = name,
       heis_is_star = is_star\<rparr>"
| "dependency_from_dto NullDto = NullDep"
| "dependency_from_dto (ConstDto expression r) = Const expression (range_from_dto r)"
| "dependency_from_dto (ImportDto m) = Import (module_dependency_from_dto m)"
| "dependency_from_dto (LoaderDto m) = Loader (module_dependency_from_dto m)"
| "dependency_from_dto (LoaderImportDto m) = LoaderImport (module_dependency_from_dto m)"

lemma range_from_to [simp]: "range_from_dto (range_to_dto r) = r"
  by (simp add: range_from_dto_def range_to_dto_def range_new_def)

lemma map_option_range [simp]: "map_option range_from_dto (map_option range_to_dto r) = r"
  by (cases r) simp_all

lemma module_dependency_restored [simp]:
  "module_dependency_to_dto m = Inr d \<Longrightarrow> module_dependency_from_dto d = m"
  by (cases m; cases "md_source_order m")
    (auto simp: module_dependency_to_dto_def module_dependency_from_dto_def map_option_result_def map_sum_Inr
      unat_word_of_nat_u64 u64_max_def split: if_splits)

interpretation dependency: conversion dependency_to_dto "\<lambda>d. Inr (dependency_from_dto d)" "\<lambda>_. True"
proof unfold_locales
  fix v d
  show "dependency_to_dto v = Inr d \<Longrightarrow> Inr (dependency_from_dto d) = Inr v"
    by (cases v) (auto simp: map_sum_Inr)
qed

section \<open>Parsed modules\<close>

fun parsed_data_to_dto :: "(json_value \<Rightarrow> string) \<Rightarrow> parsed_module_data \<Rightarrow> parsed_module_data_dto" where
  "parsed_data_to_dto js PJavaScript = JavaScriptDataDto"
| "parsed_data_to_dto js (PJson v) = JsonDataDto (js v)"
| "parsed_data_to_dto js (PAsset t) = AssetDataDto (module_type_to_dto t)"

type_synonym json_parser = "string \<Rightarrow> string + json_value"

fun parsed_data_from_dto :: "json_parser \<Rightarrow> parsed_module_data_dto \<Rightarrow> io_error + parsed_module_data" where
  "parsed_data_from_dto jp JavaScriptDataDto = Inr PJavaScript"
| "parsed_data_from_dto jp (JsonDataDto value) = (case jp value of Inl e \<Rightarrow> Inl (IoError OtherKind e) | Inr v \<Rightarrow> Inr (PJson v))"
| "parsed_data_from_dto jp (AssetDataDto t) =
     (if t = JavaScriptAutoDto \<or> t = JsonDto then Inl (invalid_data ''Asset Parser data contains a non-asset module type'')
      else Inr (PAsset (module_type_from_dto t)))"

definition parsed_to_dto :: "(json_value \<Rightarrow> string) \<Rightarrow> parsed_module \<Rightarrow> io_error + parsed_module_dto" where
  "parsed_to_dto js p =
     on_success (map_result dependency_to_dto (db_dependencies (pm_block p))) (\<lambda>dependencies.
     on_success (map_result (map_result dependency_to_dto) (db_blocks (pm_block p))) (\<lambda>blocks.
     on_success (map_result dependency_to_dto (pm_presentational p)) (\<lambda>presentational.
       Inr \<lparr>pmd_dependencies = dependencies, pmd_blocks = blocks, pmd_presentational = presentational,
            pmd_identifiers = pm_identifiers p, pmd_data = parsed_data_to_dto js (pm_data p),
            pmd_side_effect_free = bm_side_effect_free (pm_build_meta p),
            pmd_uses_direct_eval = bm_uses_direct_eval (pm_build_meta p)\<rparr>)))"

definition parsed_from_dto :: "json_parser \<Rightarrow> parsed_module_dto \<Rightarrow> io_error + parsed_module" where
  "parsed_from_dto jp p = map_sum id (\<lambda>data.
     \<lparr>pm_block = \<lparr>db_dependencies = map dependency_from_dto (pmd_dependencies p),
        db_blocks = map (map dependency_from_dto) (pmd_blocks p)\<rparr>,
      pm_presentational = map dependency_from_dto (pmd_presentational p),
      pm_identifiers = pmd_identifiers p, pm_data = data,
      pm_build_meta = \<lparr>bm_side_effect_free = pmd_side_effect_free p, bm_uses_direct_eval = pmd_uses_direct_eval p\<rparr>\<rparr>)
     (parsed_data_from_dto jp (pmd_data p))"

text \<open>The JSON of a module is read back from what is printed, and asset data has a type of assets.\<close>

fun data_plain :: "(json_value \<Rightarrow> string) \<Rightarrow> json_parser \<Rightarrow> parsed_module_data \<Rightarrow> bool" where
  "data_plain js jp PJavaScript = True"
| "data_plain js jp (PJson v) = (jp (js v) = Inr v)"
| "data_plain js jp (PAsset t) = (t \<noteq> JavaScriptAuto \<and> t \<noteq> Json)"

lemma data_restored: "data_plain js jp d \<Longrightarrow> parsed_data_from_dto jp (parsed_data_to_dto js d) = Inr d"
proof (cases d)
  case (PAsset t)
  assume "data_plain js jp d"
  with PAsset show ?thesis by (cases t) simp_all
qed simp_all

lemma map_result_Inr_map: "map_result (\<lambda>d. Inr (f d)) ds = Inr (map f ds)"
  by (induction ds) simp_all

lemma dependencies_restored: "map_result dependency_to_dto ds = Inr es \<Longrightarrow> map dependency_from_dto es = ds"
  using dependency.restored_list [of ds es] by (simp add: map_result_Inr_map list_all_iff)

interpretation block: conversion "map_result dependency_to_dto" "\<lambda>d. Inr (map dependency_from_dto d)" "\<lambda>_. True"
  by unfold_locales (simp add: dependencies_restored)

lemma blocks_restored:
  "map_result (map_result dependency_to_dto) bs = Inr es \<Longrightarrow> map (map dependency_from_dto) es = bs"
  using block.restored_list [of bs es] by (simp add: map_result_Inr_map list_all_iff)

interpretation parsed: conversion "parsed_to_dto js" "parsed_from_dto jp" "\<lambda>p. data_plain js jp (pm_data p)"
  for js jp
proof unfold_locales
  fix p d
  assume "data_plain js jp (pm_data p)" and "parsed_to_dto js p = Inr d"
  then show "parsed_from_dto jp d = Inr p"
    by (cases p; cases "pm_block p"; cases "pm_build_meta p")
      (auto simp: parsed_to_dto_def parsed_from_dto_def data_restored dependencies_restored blocks_restored)
qed

section \<open>Module builds\<close>

record module_build_record =
  mbr_content :: built_content
  mbr_snapshot :: snapshot

definition module_build_to_dto :: "(json_value \<Rightarrow> string) \<Rightarrow> module_build_record \<Rightarrow> io_error + module_build_record_dto" where
  "module_build_to_dto js r =
     on_success (parsed_to_dto js (bc_parsed (mbr_content r))) (\<lambda>parsed.
     on_success (snapshot_to_dto (mbr_snapshot r)) (\<lambda>s.
       let dto = \<lparr>mbd_parsed = parsed, mbd_source = bc_source (mbr_content r),
             mbd_binary_source = bc_binary_source (mbr_content r), mbd_source_hash = bc_source_hash (mbr_content r),
             mbd_snapshot = s\<rparr>
       in on_success (validate_module_build_record dto) (\<lambda>_. Inr dto)))"

definition module_build_from_dto ::
    "(json_value \<Rightarrow> string) \<Rightarrow> json_parser \<Rightarrow> module_build_record_dto \<Rightarrow> io_error + module_build_record" where
  "module_build_from_dto js jp r =
     on_success (parsed_from_dto jp (mbd_parsed r)) (\<lambda>parsed.
     on_success (snapshot_from_dto (mbd_snapshot r)) (\<lambda>s.
       Inr \<lparr>mbr_content = from_persistent_parts js parsed (mbd_source r) (mbd_binary_source r) (mbd_source_hash r),
            mbr_snapshot = s\<rparr>))"

text \<open>The digest of the local inputs is that of the parsed module.\<close>

definition build_plain :: "(json_value \<Rightarrow> string) \<Rightarrow> json_parser \<Rightarrow> module_build_record \<Rightarrow> bool" where
  "build_plain js jp r \<longleftrightarrow> data_plain js jp (pm_data (bc_parsed (mbr_content r))) \<and> snapshot_plain (mbr_snapshot r) \<and>
     bc_local_input_digest (mbr_content r) = local_input_digest js (bc_parsed (mbr_content r))"

interpretation build: conversion "module_build_to_dto js" "module_build_from_dto js jp" "build_plain js jp" for js jp
proof unfold_locales
  fix r d
  assume "build_plain js jp r" and "module_build_to_dto js r = Inr d"
  then show "module_build_from_dto js jp d = Inr r"
    by (cases r; cases "mbr_content r")
      (auto simp: build_plain_def module_build_to_dto_def module_build_from_dto_def Let_def from_persistent_parts_def
        intro!: parsed.restored snapshot.restored)
qed

section \<open>Generated code\<close>

datatype replacement_enforce = EnforcePre | EnforceNormal | EnforcePost

record code_generation_replacement =
  cgr_start :: u32
  cgr_end :: u32
  cgr_content :: string
  cgr_name :: "string option"
  cgr_enforce :: replacement_enforce

datatype code_generation_source =
    RawSource string
  | OriginalWithReplacements string u32 string "code_generation_replacement list" string

record code_generation_record =
  cgn_source :: code_generation_source
  cgn_requirements :: requirements

text \<open>\<open>is_compatible_with\<close>: whether the replacements can be applied to a source.\<close>

definition replacement_applies :: "string \<Rightarrow> code_generation_replacement \<Rightarrow> bool" where
  "replacement_applies original r \<longleftrightarrow>
     (let start = unat (cgr_start r); until = unat (cgr_end r)
      in start \<le> until \<and> until \<le> length original \<and> is_char_boundary original start \<and> is_char_boundary original until)"

definition record_is_compatible_with :: "code_generation_record \<Rightarrow> string \<Rightarrow> bool" where
  "record_is_compatible_with r original = (case cgn_source r of
      RawSource _ \<Rightarrow> True
    | OriginalWithReplacements _ original_source_len _ replacements _ \<Rightarrow>
        unat original_source_len = length original \<and> list_all (replacement_applies original) replacements)"

fun enforce_to_dto :: "replacement_enforce \<Rightarrow> replacement_enforce_dto" where
  "enforce_to_dto EnforcePre = PreDto"
| "enforce_to_dto EnforceNormal = NormalDto"
| "enforce_to_dto EnforcePost = PostDto"

fun enforce_from_dto :: "replacement_enforce_dto \<Rightarrow> replacement_enforce" where
  "enforce_from_dto PreDto = EnforcePre"
| "enforce_from_dto NormalDto = EnforceNormal"
| "enforce_from_dto PostDto = EnforcePost"

definition replacement_to_dto :: "code_generation_replacement \<Rightarrow> code_generation_replacement_dto" where
  "replacement_to_dto r = \<lparr>crd_start = cgr_start r, crd_end = cgr_end r, crd_content = cgr_content r,
     crd_name = cgr_name r, crd_enforce = enforce_to_dto (cgr_enforce r)\<rparr>"

definition replacement_from_dto :: "code_generation_replacement_dto \<Rightarrow> code_generation_replacement" where
  "replacement_from_dto r = \<lparr>cgr_start = crd_start r, cgr_end = crd_end r, cgr_content = crd_content r,
     cgr_name = crd_name r, cgr_enforce = enforce_from_dto (crd_enforce r)\<rparr>"

fun generated_source_to_dto :: "code_generation_source \<Rightarrow> code_generation_source_dto" where
  "generated_source_to_dto (RawSource source) = RawDto source"
| "generated_source_to_dto (OriginalWithReplacements pre original_source_len original_name replacements suf) =
     OriginalWithReplacementsDto pre original_source_len original_name (map replacement_to_dto replacements) suf"

fun generated_source_from_dto :: "code_generation_source_dto \<Rightarrow> code_generation_source" where
  "generated_source_from_dto (RawDto source) = RawSource source"
| "generated_source_from_dto (OriginalWithReplacementsDto pre original_source_len original_name replacements suf) =
     OriginalWithReplacements pre original_source_len original_name (map replacement_from_dto replacements) suf"

definition encode_runtime_requirements :: "requirements \<Rightarrow> u16" where
  "encode_runtime_requirements r = req_to_mask r"

definition decode_runtime_requirements :: "u16 \<Rightarrow> requirements option" where
  "decode_runtime_requirements mk = req_from_mask mk"

definition code_generation_to_dto :: "code_generation_record \<Rightarrow> code_generation_record_dto" where
  "code_generation_to_dto r = \<lparr>cgd_source = generated_source_to_dto (cgn_source r),
     cgd_runtime_requirements = encode_runtime_requirements (cgn_requirements r)\<rparr>"

text \<open>\<open>into_record_after_codec_validation\<close> panics on a requirement that is not known.\<close>

definition into_record_after_codec_validation :: "code_generation_record_dto \<Rightarrow> code_generation_record option" where
  "into_record_after_codec_validation r = do {
     requirements \<leftarrow> decode_runtime_requirements (cgd_runtime_requirements r);
     Some \<lparr>cgn_source = generated_source_from_dto (cgd_source r), cgn_requirements = requirements\<rparr> }"

lemma enforce_from_to [simp]: "enforce_from_dto (enforce_to_dto e) = e"
  by (cases e) simp_all

lemma replacement_from_to [simp]: "replacement_from_dto (replacement_to_dto r) = r"
  by (simp add: replacement_from_dto_def replacement_to_dto_def)

lemma generated_source_from_to [simp]: "generated_source_from_dto (generated_source_to_dto s) = s"
  by (cases s) (simp_all add: comp_def)

lemma into_record_restored:
  "cgn_requirements r AND NOT valid_mask = 0 \<Longrightarrow> into_record_after_codec_validation (code_generation_to_dto r) = Some r"
  by (simp add: into_record_after_codec_validation_def code_generation_to_dto_def decode_runtime_requirements_def
      encode_runtime_requirements_def req_to_mask_def req_from_mask_def)

lemma into_record_validated:
  "validate_code_generation_record r = Inr () \<Longrightarrow> into_record_after_codec_validation r \<noteq> None"
  by (auto simp: validate_code_generation_record_def into_record_after_codec_validation_def decode_runtime_requirements_def
      req_from_mask_def split: if_splits)

section \<open>Rendered assets\<close>

record rendered_source =
  rds_source :: string
  rds_source_map :: "string option"

definition rendered_to_dto :: "rendered_source \<Rightarrow> asset_render_record_dto" where
  "rendered_to_dto r = \<lparr>ard_source = rds_source r, ard_source_map = rds_source_map r\<rparr>"

definition rendered_from_parts :: "(string \<Rightarrow> bool) \<Rightarrow> string \<Rightarrow> string option \<Rightarrow> rendered_source option" where
  "rendered_from_parts sm source source_map =
     (if (case source_map of Some text \<Rightarrow> sm text | None \<Rightarrow> True)
      then Some \<lparr>rds_source = source, rds_source_map = source_map\<rparr> else None)"

definition rendered_from_dto :: "(string \<Rightarrow> bool) \<Rightarrow> asset_render_record_dto \<Rightarrow> io_error + rendered_source" where
  "rendered_from_dto sm r = (case rendered_from_parts sm (ard_source r) (ard_source_map r) of
      None \<Rightarrow> Inl (invalid_data ''Asset Render Record contains an invalid source map'')
    | Some v \<Rightarrow> Inr v)"

definition rendered_plain :: "(string \<Rightarrow> bool) \<Rightarrow> rendered_source \<Rightarrow> bool" where
  "rendered_plain sm r \<longleftrightarrow> opt_ok sm (rds_source_map r)"

interpretation rendered: conversion "\<lambda>r. Inr (rendered_to_dto r)" "rendered_from_dto sm" "rendered_plain sm" for sm
  by unfold_locales
    (auto simp: rendered_plain_def rendered_from_dto_def rendered_from_parts_def rendered_to_dto_def opt_ok_def
      split: option.splits)

end
