(* ===== verification/Publish_Facts.thy ===== *)
theory Publish_Facts
  imports Pack_Publish
begin

text \<open>
  What the proof about publication rests on: file names determine the revision and the number of a
  pack, a rule for sequences of effects, and where the frames of a pack end up.
\<close>

section \<open>Names\<close>

definition digit_value :: "char \<Rightarrow> nat" where
  "digit_value c = (if of_char c < (58 :: nat) then of_char c - 48 else of_char c - 87)"

definition hex_value :: "string \<Rightarrow> nat" where
  "hex_value s = foldl (\<lambda>n c. n * 16 + digit_value c) 0 s"

lemma digit_value_char: "d < 16 \<Longrightarrow> digit_value (digit_char d) = d"
  by (simp add: digit_value_def digit_char_def)

lemma hex_value_hexadecimal: "hex_value (hexadecimal n) = n"
proof (induction n rule: hexadecimal.induct)
  case (1 n)
  show ?case
  proof (cases "n < 16")
    case True
    then show ?thesis by (simp add: hexadecimal.simps [of n] hex_value_def digit_value_char)
  next
    case False
    with 1 show ?thesis by (simp add: hexadecimal.simps [of n] hex_value_def digit_value_char)
  qed
qed

lemma hex_value_padded: "hex_value (hex_padded w n) = n"
proof -
  have "foldl (\<lambda>n c. n * 16 + digit_value c) 0 (replicate k (CHR ''0'') @ s) = foldl (\<lambda>n c. n * 16 + digit_value c) 0 s" for k s
    by (induction k) (simp_all add: digit_value_def)
  then show ?thesis using hex_value_hexadecimal [of n] by (simp add: hex_padded_def Let_def hex_value_def)
qed

lemma hex_padded_inject [simp]: "hex_padded w n = hex_padded w m \<longleftrightarrow> n = m"
  by (metis hex_value_padded)

lemma hexadecimal_length: "0 < k \<Longrightarrow> n < 16 ^ k \<Longrightarrow> length (hexadecimal n) \<le> k"
proof (induction n arbitrary: k rule: hexadecimal.induct)
  case (1 n)
  show ?case
  proof (cases "n < 16")
    case False
    then have "k \<noteq> 1" using 1 by auto
    then obtain m where k: "k = Suc m" "0 < m" using 1 by (cases k) auto
    then have "n div 16 < 16 ^ m" using 1 by (simp add: less_mult_imp_div_less mult.commute)
    with 1 False k show ?thesis by (simp add: hexadecimal.simps [of n])
  qed (use 1 in \<open>simp add: hexadecimal.simps [of n]\<close>)
qed

lemma hex_padded_length: "n \<le> u64_max \<Longrightarrow> length (hex_padded 16 n) = 16"
  using hexadecimal_length [of 16 n] by (simp add: hex_padded_def Let_def u64_max_def)

lemma digit_char_plain: "d < 16 \<Longrightarrow> digit_char d \<noteq> CHR ''/''"
  by (auto simp: digit_char_def dest: arg_cong [where f = "of_char :: char \<Rightarrow> nat"])

lemma hex_padded_plain: "CHR ''/'' \<notin> set (hex_padded w n)"
proof -
  have "CHR ''/'' \<notin> set (hexadecimal n)"
    by (induction n rule: hexadecimal.induct)
      (subst hexadecimal.simps, auto simp: digit_char_plain digit_char_plain [symmetric])
  then show ?thesis by (auto simp: hex_padded_def Let_def)
qed

lemma pack_filename_revision:
  assumes "content_pack_filename q i n k = content_pack_filename q' i' n' k'" "q \<le> u64_max" "q' \<le> u64_max"
  shows "q = q'"
proof -
  have "take 16 (drop 5 (content_pack_filename q i n k)) = hex_padded 16 q" if "q \<le> u64_max" for q i n k
    using hex_padded_length [OF that] by (simp add: content_pack_filename_def)
  with assms show ?thesis by (metis hex_padded_inject)
qed

lemma pack_filename_index:
  assumes "content_pack_filename q i n k = content_pack_filename q j n k" "n \<noteq> 1"
  shows "i = j"
  using assms by (simp add: content_pack_filename_def)

lemma pack_filename_proper: "proper_name (content_pack_filename q i n k)"
  by (cases k) (auto simp: proper_name_def content_pack_filename_def hex_padded_plain)

lemma pack_filename_not_temporary: "content_pack_filename q i n k \<noteq> CHR ''.'' # s"
  by (simp add: content_pack_filename_def)

lemma path_join_inject [simp]:
  "path_join root (Normal s # p) = path_join root (Normal t # q) \<longleftrightarrow> s = t \<and> p = q"
  by (simp add: path_join_def is_absolute_def)

section \<open>Sequences of effects\<close>

text \<open>
  \<open>leads P m Q E\<close>: from files with \<open>P\<close>, what \<open>m\<close> returns and the files satisfy \<open>Q\<close>, and the files satisfy
  \<open>E\<close> when it fails or the process stops, whatever the fates of its calls are.
\<close>

definition leads :: "(files \<Rightarrow> bool) \<Rightarrow> 'a effect \<Rightarrow> ('a \<Rightarrow> files \<Rightarrow> bool) \<Rightarrow> (files \<Rightarrow> bool) \<Rightarrow> bool" where
  "leads P m Q E \<longleftrightarrow> (\<forall>d. P (dk_files d) \<longrightarrow>
     (case m d of (Returns x, d') \<Rightarrow> Q x (dk_files d') | (Raises e, d') \<Rightarrow> E (dk_files d') | (Halts, d') \<Rightarrow> E (dk_files d')))"

lemma leads_then:
  assumes "leads P m Q E" and "\<And>x. leads (Q x) (f x) R E"
  shows "leads P (and_then m f) R E"
  unfolding leads_def
proof (intro allI impI)
  fix d :: disk
  assume P: "P (dk_files d)"
  obtain r d' where m: "m d = (r, d')" by (cases "m d")
  show "case and_then m f d of (Returns x, d') \<Rightarrow> R x (dk_files d') | (Raises e, d') \<Rightarrow> E (dk_files d')
    | (Halts, d') \<Rightarrow> E (dk_files d')"
  proof (cases r)
    case (Returns x)
    then have "Q x (dk_files d')" using assms(1) P m by (auto simp: leads_def)
    with assms(2) [of x] show ?thesis by (simp add: leads_def and_then_def m Returns)
  qed (use assms(1) P m in \<open>auto simp: leads_def and_then_def split: prod.splits\<close>)
qed

lemma leads_weaken:
  assumes "leads P m Q E" and "\<And>fs. P' fs \<Longrightarrow> P fs" and "\<And>x fs. Q x fs \<Longrightarrow> Q' x fs" and "\<And>fs. E fs \<Longrightarrow> E' fs"
  shows "leads P' m Q' E'"
  using assms unfolding leads_def by (auto split: outcome.splits prod.splits) (metis outcome.exhaust)+

lemma leads_ret: "(\<And>fs. P fs \<Longrightarrow> Q x fs) \<Longrightarrow> leads P (ret x) Q E"
  by (simp add: leads_def ret_def)

lemma leads_raise: "(\<And>fs. P fs \<Longrightarrow> E fs) \<Longrightarrow> leads P (raise e) Q E"
  by (simp add: leads_def raise_def)

lemma leads_halt: "(\<And>fs. P fs \<Longrightarrow> E fs) \<Longrightarrow> leads P halt Q E"
  by (simp add: leads_def halt_def)

lemma leads_lift:
  "(\<And>x fs. r = Inr x \<Longrightarrow> P fs \<Longrightarrow> Q x fs) \<Longrightarrow> (\<And>fs. P fs \<Longrightarrow> E fs) \<Longrightarrow> leads P (lift_result r) Q E"
  by (cases r) (auto intro: leads_ret leads_raise)

lemma leads_attempt:
  "leads P m Q R \<Longrightarrow> (\<And>fs. R fs \<Longrightarrow> E fs) \<Longrightarrow>
     leads P (attempt m) (\<lambda>r fs. case r of Inr x \<Rightarrow> Q x fs | Inl _ \<Rightarrow> R fs) E"
  unfolding leads_def attempt_def by (auto split: outcome.splits prod.splits)

lemma leads_read:
  "(\<And>fs. P fs \<Longrightarrow> E fs) \<Longrightarrow> leads P (read_files p) (\<lambda>seen fs. P fs \<and> (seen = fs \<or> seen = fs(p := None))) E"
  by (auto simp: leads_def read_files_def split: fate.splits list.splits)

lemma leads_directory: "(\<And>fs. P fs \<Longrightarrow> E fs) \<Longrightarrow> leads P directory_call (\<lambda>_. P) E"
  by (auto simp: leads_def directory_call_def split: fate.splits list.splits)

lemma leads_write:
  assumes "\<And>fs n. P fs \<Longrightarrow> E (write_partly p bs n fs)"
  shows "leads P (write_synced p bs) (\<lambda>_ fs. \<exists>fs'. P fs' \<and> fs = fs'(p \<mapsto> bs)) E"
  using assms by (auto simp: leads_def write_synced_def split: fate.splits list.splits)

lemma leads_rename:
  assumes "\<And>fs. P fs \<Longrightarrow> E fs"
  shows "leads P (rename_file from dest) (\<lambda>_ fs. \<exists>fs' bs. P fs' \<and> fs' from = Some bs \<and> fs = fs'(from := None, dest \<mapsto> bs)) E"
  using assms by (auto simp: leads_def rename_file_def split: fate.splits list.splits option.splits)

lemma leads_remove:
  assumes "\<And>fs. P fs \<Longrightarrow> E fs"
  shows "leads P (remove_file p) (\<lambda>_ fs. \<exists>fs'. P fs' \<and> fs = fs'(p := None)) E"
  using assms by (auto simp: leads_def remove_file_def split: fate.splits list.splits option.splits)

lemma leads_rename_or_remove:
  assumes "\<And>fs. P fs \<Longrightarrow> E fs" and "\<And>fs. P fs \<Longrightarrow> E (fs(from := None))"
  shows "leads P (rename_or_remove from dest)
    (\<lambda>_ fs. \<exists>fs' bs. P fs' \<and> fs' from = Some bs \<and> fs = fs'(from := None, dest \<mapsto> bs)) E"
  unfolding rename_or_remove_def
proof (rule leads_then)
  show "leads P (attempt (rename_file from dest)) (\<lambda>r fs. case r of
      Inr _ \<Rightarrow> \<exists>fs' bs. P fs' \<and> fs' from = Some bs \<and> fs = fs'(from := None, dest \<mapsto> bs) | Inl _ \<Rightarrow> P fs) E"
    by (rule leads_attempt [OF leads_rename]) (use assms in auto)
  fix r :: "io_error + unit"
  have "leads P (and_then (attempt (remove_file from)) (\<lambda>_. raise e)) Q' E" for e and Q' :: "unit \<Rightarrow> files \<Rightarrow> bool"
  proof (rule leads_then)
    show "leads P (attempt (remove_file from)) (\<lambda>r fs. case r of
        Inr _ \<Rightarrow> \<exists>fs'. P fs' \<and> fs = fs'(from := None) | Inl _ \<Rightarrow> P fs) E"
      by (rule leads_attempt [OF leads_remove]) (use assms in auto)
    show "leads (\<lambda>fs. case r of Inr _ \<Rightarrow> \<exists>fs'. P fs' \<and> fs = fs'(from := None) | Inl _ \<Rightarrow> P fs) (raise e) Q' E" for r :: "io_error + unit"
      by (rule leads_raise) (use assms in \<open>auto split: sum.splits\<close>)
  qed
  then show "leads (\<lambda>fs. case r of
      Inr _ \<Rightarrow> \<exists>fs' bs. P fs' \<and> fs' from = Some bs \<and> fs = fs'(from := None, dest \<mapsto> bs) | Inl _ \<Rightarrow> P fs)
      (case r of Inr _ \<Rightarrow> ret () | Inl e \<Rightarrow> and_then (attempt (remove_file from)) (\<lambda>_. raise e))
      (\<lambda>_ fs. \<exists>fs' bs. P fs' \<and> fs' from = Some bs \<and> fs = fs'(from := None, dest \<mapsto> bs)) E"
    by (cases r) (auto intro: leads_ret)
qed


section \<open>Reading a pack back\<close>

text \<open>The documented behaviour of the compression crates: a decoder yields what was encoded.\<close>

definition inflates :: "inflate \<Rightarrow> deflate \<Rightarrow> bool" where
  "inflates inflate deflate \<longleftrightarrow> (\<forall>k content encoded n. k \<noteq> NoCompression \<longrightarrow> deflate k content = Inr encoded \<longrightarrow>
     inflate k encoded n = Some (take n content))"

lemma read_pack_back:
  assumes "inflates inflate deflate" and "encode_content_pack deflate content k = Inr encoded"
    and "length content \<le> max_content_bytes" and "fs p = Some encoded"
  shows "read_content_pack inflate fs p k (length content) = Some content"
  using assms
  by (cases k) (auto simp: encode_content_pack_def read_content_pack_def read_bounded_def read_decompressed_pack_def
      inflates_def not_less split: sum.splits if_splits)

text \<open>Where the items of a pack are placed.\<close>

definition places ::
    "retention \<Rightarrow> nat \<Rightarrow> (address, index_entry) btree \<Rightarrow> staged_item \<Rightarrow> content_reference \<Rightarrow> index_entry \<Rightarrow> bool" where
  "places retention revision entries item r e \<longleftrightarrow> (case sg_pending item of
      Some pending \<Rightarrow> e = \<lparr>ie_etag = pd_etag pending, ie_type_id = pd_type_id pending, ie_codec_id = pd_codec_id pending,
         ie_content = r, ie_last_access = rt_now retention, ie_last_used = revision, ie_unused_since = None\<rparr>
    | None \<Rightarrow> \<exists>e0. map_of entries (sg_address item) = Some e0 \<and> e = e0\<lparr>ie_content := r\<rparr>)"

lemma place_item_Some:
  "place_item retention revision r item entries = Some entries' \<longleftrightarrow>
     (\<exists>e. places retention revision entries item r e \<and> entries' = btree_insert (sg_address item) e entries)"
  by (auto simp: place_item_def places_def bind_simps split: option.splits)

lemma places_content: "places retention revision entries item r e \<Longrightarrow> ie_content e = r"
  by (auto simp: places_def split: option.splits)

lemma places_cong:
  "map_of entries (sg_address item) = map_of entries' (sg_address item) \<Longrightarrow>
     places retention revision entries item r e \<longleftrightarrow> places retention revision entries' item r e"
  by (simp add: places_def split: option.splits)

definition frame_in :: "bytes \<Rightarrow> path \<Rightarrow> nat \<Rightarrow> compression \<Rightarrow> staged_item \<Rightarrow> content_reference \<Rightarrow> bool" where
  "frame_in content file pack_size k item r \<longleftrightarrow> cr_file r = file \<and> cr_pack_size r = pack_size \<and> cr_compression r = k \<and>
     cr_checksum r = checksum (sg_frame item) \<and> cr_offset r + cr_length r \<le> length content \<and>
     take (cr_length r) (drop (cr_offset r) content) = sg_frame item"

lemma frame_in_append: "frame_in content file n k item r \<Longrightarrow> frame_in (content @ rest) file n k item r"
  by (auto simp: frame_in_def)

lemma pack_item_step_Some:
  "pack_item_step retention revision file n k item (content, entries) = Some s \<longleftrightarrow>
     (\<exists>e. places retention revision entries item \<lparr>cr_file = file, cr_offset = length content,
         cr_length = length (sg_frame item), cr_checksum = checksum (sg_frame item), cr_pack_size = n,
         cr_compression = k\<rparr> e \<and> s = (content @ sg_frame item, btree_insert (sg_address item) e entries))"
  by (auto simp: pack_item_step_def place_item_Some)

lemma pack_items:
  assumes "fold_opt (pack_item_step retention revision file n k) items (content0, entries) = Some (content, entries')"
    and "btree_ok entries" and "distinct (map sg_address items)"
  shows "content = content0 @ concat (map sg_frame items) \<and> btree_ok entries' \<and>
    (\<forall>a. a \<notin> sg_address ` set items \<longrightarrow> map_of entries' a = map_of entries a) \<and>
    (\<forall>item \<in> set items. \<exists>e r. places retention revision entries item r e \<and>
       map_of entries' (sg_address item) = Some e \<and> frame_in content file n k item r)"
  using assms
proof (induction items arbitrary: content0 entries)
  case Nil
  then show ?case by simp
next
  case (Cons item items)
  let ?r = "\<lparr>cr_file = file, cr_offset = length content0, cr_length = length (sg_frame item),
      cr_checksum = checksum (sg_frame item), cr_pack_size = n, cr_compression = k\<rparr>"
  from Cons.prems(1) obtain e where e: "places retention revision entries item ?r e"
    and rest: "fold_opt (pack_item_step retention revision file n k) items
      (content0 @ sg_frame item, btree_insert (sg_address item) e entries) = Some (content, entries')"
    by (auto simp: bind_simps pack_item_step_Some)
  have get: "map_of (btree_insert (sg_address item) e entries) a = (if a = sg_address item then Some e else map_of entries a)" for a
    using Cons.prems(2) by (simp add: btree_get_insert)
  from Cons.IH [OF rest btree_ok_insert [OF Cons.prems(2)]] Cons.prems(3)
  have IH: "content = (content0 @ sg_frame item) @ concat (map sg_frame items)" "btree_ok entries'"
    "\<And>a. a \<notin> sg_address ` set items \<Longrightarrow> map_of entries' a = map_of (btree_insert (sg_address item) e entries) a"
    "\<And>it. it \<in> set items \<Longrightarrow> \<exists>e' r. places retention revision (btree_insert (sg_address item) e entries) it r e' \<and>
       map_of entries' (sg_address it) = Some e' \<and> frame_in content file n k it r"
    by auto
  have notin: "sg_address item \<notin> sg_address ` set items" using Cons.prems(3) by auto
  have "frame_in content file n k item ?r" unfolding IH(1) by (simp add: frame_in_def)
  moreover have "map_of entries' (sg_address item) = Some e" using IH(3) [OF notin] get by simp
  moreover have "\<exists>e' r. places retention revision entries it r e' \<and> map_of entries' (sg_address it) = Some e' \<and>
      frame_in content file n k it r" if it: "it \<in> set items" for it
  proof -
    have "sg_address it \<noteq> sg_address item" using it notin by (metis imageI)
    then have "places retention revision (btree_insert (sg_address item) e entries) it r e' \<longleftrightarrow>
        places retention revision entries it r e'" for r e'
      by (intro places_cong) (simp add: get)
    with IH(4) [OF it] show ?thesis by simp
  qed
  moreover have "map_of entries' a = map_of entries a" if "a \<notin> sg_address ` set (item # items)" for a
    using IH(3) [of a] that get [of a] by simp
  ultimately show ?case using e IH(1,2) by auto
qed

text \<open>The packs hold every staged item once, and none exceeds the bound.\<close>

definition frames_length :: "staged_item list \<Rightarrow> nat" where
  "frames_length pack = sum_list (map (\<lambda>item. length (sg_frame item)) pack)"

lemma frames_length_concat: "length (concat (map sg_frame pack)) = frames_length pack"
  by (simp add: frames_length_def length_concat comp_def)

fun assembly_ok :: "assembly \<Rightarrow> bool" where
  "assembly_ok (packs, pack, n, used) \<longleftrightarrow> (\<forall>p \<in> set packs. p \<noteq> [] \<and> frames_length p \<le> max_content_bytes) \<and>
     n = frames_length pack \<and> n \<le> max_content_bytes"

fun assembled :: "assembly \<Rightarrow> staged_item list" where
  "assembled (packs, pack, n, used) = concat packs @ pack"

lemma assemble_step_ok:
  assumes "assemble_step target x (packs, pack, n, used) = Inr s" and "assembly_ok (packs, pack, n, used)"
  shows "assembly_ok s \<and> assembled s = assembled (packs, pack, n, used) @ [x]"
proof -
  define split where "split = starts_pack target x pack n used"
  have "s = (if split then packs @ [pack] else packs, (if split then [] else pack) @ [x],
      (if split then 0 else n) + length (sg_frame x), Some (sg_used x)) \<and>
      (if split then 0 else n) + length (sg_frame x) \<le> max_content_bytes"
    using assms(1) unfolding assemble_step_def by (cases split) (auto simp: Let_def split_def split: if_splits)
  moreover have "split \<Longrightarrow> pack \<noteq> []" by (simp add: split_def starts_pack_def)
  ultimately show ?thesis using assms(2) by (cases split) (auto simp: frames_length_def)
qed

lemma assemble_fold_ok:
  "fold_result (assemble_step target) xs s = Inr s' \<Longrightarrow> assembly_ok s \<Longrightarrow>
     assembly_ok s' \<and> assembled s' = assembled s @ xs"
proof (induction xs arbitrary: s)
  case (Cons x xs)
  obtain t where t: "assemble_step target x s = Inr t" "fold_result (assemble_step target) xs t = Inr s'"
    using Cons.prems(1) by (auto split: sum.splits)
  obtain packs pack n used where s: "s = (packs, pack, n, used)" by (cases s)
  from assemble_step_ok t(1) Cons.prems(2) have "assembly_ok t \<and> assembled t = assembled s @ [x]" unfolding s by blast
  with Cons.IH [OF t(2)] show ?case by simp
qed simp

lemma assemble_packs_ok:
  assumes "assemble_packs target items = Inr packs"
  shows "concat packs = sort_key (\<lambda>item. \<not> sg_used item) items"
    and "\<forall>pack \<in> set packs. pack \<noteq> [] \<and> frames_length pack \<le> max_content_bytes"
proof -
  from assms obtain packs' pack' n' used' where
    f: "fold_result (assemble_step target) (sort_key (\<lambda>item. \<not> sg_used item) items) ([], [], 0, None) = Inr (packs', pack', n', used')"
    and p: "packs = (if pack' = [] then packs' else packs' @ [pack'])"
    by (auto simp: assemble_packs_def split: sum.splits)
  from assemble_fold_ok [OF f] have "assembly_ok (packs', pack', n', used')"
    and "concat packs' @ pack' = sort_key (\<lambda>item. \<not> sg_used item) items"
    by (simp_all add: frames_length_def)
  with p show "concat packs = sort_key (\<lambda>item. \<not> sg_used item) items"
    "\<forall>pack \<in> set packs. pack \<noteq> [] \<and> frames_length pack \<le> max_content_bytes" by auto
qed

end
