(* ===== verification/Publish_Staging.thy ===== *)
theory Publish_Staging
  imports Publish_Facts "HOL-Library.Multiset"
begin

text \<open>
  Sound indexes, the files a publication writes, the entries that stay, and what is staged: a frame
  that is moved to a new pack holds what was stored for its address, and every item of the batch has
  a frame.
\<close>

section \<open>Sound indexes\<close>

definition pack_file_of :: "nat \<Rightarrow> path \<Rightarrow> bool" where
  "pack_file_of revision file \<longleftrightarrow>
     (\<exists>q i n k. q \<le> revision \<and> file = [Normal ''content'', Normal (content_pack_filename q i n k)])"

definition index_sound :: "pack_index \<Rightarrow> bool" where
  "index_sound i \<longleftrightarrow> index_ok i \<and> coherent (pi_entries i) \<and>
     (\<forall>(a, e) \<in> set (pi_entries i). pack_file_of (pi_revision i) (cr_file (ie_content e)))"

lemma pack_file_named: "pack_file_of revision file \<Longrightarrow> name_path file"
  using pack_filename_proper by (auto simp: pack_file_of_def name_path_def) (simp add: proper_name_def)

lemma index_sound_named: "index_sound i \<Longrightarrow> files_named i"
  by (auto simp: index_sound_def files_named_def intro: pack_file_named)

lemma empty_index_sound: "index_sound empty_index"
  by (simp add: index_sound_def index_ok_def empty_index_def coherent_def opt_ok_def)

text \<open>The files a publication of this revision writes.\<close>

definition fresh :: "path \<Rightarrow> nat \<Rightarrow> path \<Rightarrow> bool" where
  "fresh root revision p \<longleftrightarrow>
     (\<exists>name. p = path_join root [Normal ''content'', Normal (CHR ''.'' # name)]) \<or>
     (\<exists>i n k. p = path_join root [Normal ''content'', Normal (content_pack_filename revision i n k)]) \<or>
     (\<exists>name. p = path_join root [Normal (CHR ''.'' # name)])"

definition kept :: "path \<Rightarrow> nat \<Rightarrow> files \<Rightarrow> files \<Rightarrow> bool" where
  "kept root revision fs0 fs \<longleftrightarrow> (\<forall>p. \<not> fresh root revision p \<longrightarrow> fs p = fs0 p)"

lemma kept_refl: "kept root revision fs fs"
  by (simp add: kept_def)

lemma kept_upd: "kept root revision fs0 fs \<Longrightarrow> fresh root revision p \<Longrightarrow> kept root revision fs0 (fs(p := x))"
  by (auto simp: kept_def)

lemma kept_partly: "kept root revision fs0 fs \<Longrightarrow> fresh root revision p \<Longrightarrow> kept root revision fs0 (write_partly p bs n fs)"
  by (auto simp: write_partly_def kept_upd split: option.split)

lemma index_not_fresh: "\<not> fresh root revision (index_path root)"
  by (auto simp: fresh_def index_path_def)

lemma kept_index: "kept root revision fs0 fs \<Longrightarrow> current_index fs root = current_index fs0 root"
  using index_not_fresh by (simp add: kept_def current_index_def read_bounded_def)

lemma content_at_cong:
  "fs (path_join root (cr_file r)) = fs' (path_join root (cr_file r)) \<Longrightarrow> content_at inflate fs root r = content_at inflate fs' root r"
  by (simp add: content_at_def read_content_pack_def read_bounded_def split: compression.split)

lemma pack_file_not_fresh:
  assumes "pack_file_of q file" "q < revision" "revision \<le> u64_max"
  shows "\<not> fresh root revision (path_join root file)"
proof
  assume f: "fresh root revision (path_join root file)"
  from assms(1) obtain q' i n k where q: "q' \<le> q" "file = [Normal ''content'', Normal (content_pack_filename q' i n k)]"
    unfolding pack_file_of_def by blast
  from f q(2) obtain i' n' k' where "content_pack_filename q' i n k = content_pack_filename revision i' n' k'"
    by (auto simp: fresh_def pack_filename_not_temporary)
  then have "q' = revision" using pack_filename_revision assms q(1) by (meson le_trans less_imp_le_nat)
  with q(1) assms(2) show False by simp
qed

lemma kept_content:
  assumes "kept root revision fs0 fs" "pack_file_of q (cr_file r)" "q < revision" "revision \<le> u64_max"
  shows "content_at inflate fs root r = content_at inflate fs0 root r"
  using assms pack_file_not_fresh [of q "cr_file r" revision root]
  by (intro content_at_cong) (simp add: kept_def)

lemma kept_stored:
  assumes "kept root revision fs0 fs" "index_sound i" "pi_revision i < revision" "revision \<le> u64_max"
  shows "stored inflate fs root i = stored inflate fs0 root i"
proof
  fix a
  show "stored inflate fs root i a = stored inflate fs0 root i a"
  proof (cases "map_of (pi_entries i) a")
    case (Some e)
    then have "pack_file_of (pi_revision i) (cr_file (ie_content e))"
      using assms(2) by (auto simp: index_sound_def dest: map_of_SomeD)
    from kept_content [OF assms(1) this assms(3,4)] Some show ?thesis by (simp add: stored_def stored_item_def)
  qed (simp add: stored_def)
qed

section \<open>The entries that stay\<close>

lemma filter_map_keys: "fst ` set (filter (\<lambda>(a, e). P a e) (map (\<lambda>(a, e). (a, f a e)) t)) \<subseteq> fst ` set t"
  by force

lemma btree_filter_map:
  assumes "btree_ok t"
  shows "btree_ok (filter (\<lambda>(a, e). P a e) (map (\<lambda>(a, e). (a, f a e)) t)) \<and>
    map_of (filter (\<lambda>(a, e). P a e) (map (\<lambda>(a, e). (a, f a e)) t)) a =
      (case map_of t a of None \<Rightarrow> None | Some e \<Rightarrow> if P a (f a e) then Some (f a e) else None)"
  using assms
proof (induction t)
  case (Cons x t)
  obtain b e where x: "x = (b, e)" by (cases x)
  let ?g = "filter (\<lambda>(a, e). P a e) (map (\<lambda>(a, e). (a, f a e)) t)"
  have ok: "btree_ok t" "\<forall>k \<in> fst ` set t. b < k" using Cons.prems by (simp_all add: x)
  then have g: "\<forall>k \<in> fst ` set ?g. b < k" using filter_map_keys [of P f t] by blast
  then have none: "map_of ?g b = None" by (metis map_of_eq_None_iff order_less_irrefl)
  have none': "map_of t b = None" using ok(2) by (metis map_of_eq_None_iff order_less_irrefl)
  have "filter (\<lambda>(a, e). P a e) (map (\<lambda>(a, e). (a, f a e)) (x # t)) = (if P b (f b e) then (b, f b e) # ?g else ?g)"
    by (simp add: x)
  with Cons.IH [OF ok(1)] g none none' show ?case by (simp add: x del: set_filter set_map)
qed simp

definition stays :: "nat \<Rightarrow> retention \<Rightarrow> write_batch \<Rightarrow> address \<Rightarrow> index_entry \<Rightarrow> bool" where
  "stays revision retention batch a e \<longleftrightarrow>
     \<not> entry_is_expired (age_entry revision (map_of (wb_accesses batch) a) e) revision retention"

lemma retained_get:
  assumes "btree_ok entries"
  shows "btree_ok (retained_entries revision retention batch entries)"
    and "map_of (retained_entries revision retention batch entries) a = (case map_of entries a of
        None \<Rightarrow> None
      | Some e \<Rightarrow> if a \<in> set (map fst (wb_items batch)) then Some e
          else if stays revision retention batch a e
          then Some (age_entry revision (map_of (wb_accesses batch) a) e) else None)"
proof -
  let ?pending = "set (map fst (wb_items batch))"
  note * = btree_filter_map [OF assms, where P = "\<lambda>a e. a \<in> ?pending \<or> \<not> entry_is_expired e revision retention"
      and f = "\<lambda>a e. if a \<in> ?pending then e else age_entry revision (map_of (wb_accesses batch) a) e"]
  show "btree_ok (retained_entries revision retention batch entries)"
    using * unfolding retained_entries_def Let_def by blast
  have "map_of (retained_entries revision retention batch entries) a = (case map_of entries a of
      None \<Rightarrow> None
    | Some e \<Rightarrow> let e' = (if a \<in> ?pending then e else age_entry revision (map_of (wb_accesses batch) a) e)
        in if a \<in> ?pending \<or> \<not> entry_is_expired e' revision retention then Some e' else None)"
    using * unfolding retained_entries_def Let_def by blast
  then show "map_of (retained_entries revision retention batch entries) a = (case map_of entries a of
        None \<Rightarrow> None
      | Some e \<Rightarrow> if a \<in> set (map fst (wb_items batch)) then Some e
          else if stays revision retention batch a e
          then Some (age_entry revision (map_of (wb_accesses batch) a) e) else None)"
    by (simp add: stays_def split: option.split)
qed


section \<open>The entries of each file\<close>

abbreviation grouped :: "groups \<Rightarrow> (address \<times> index_entry) list" where
  "grouped groups \<equiv> concat (map snd groups)"

lemma mset_btree_insert:
  assumes "btree_ok t"
  shows "mset (btree_insert k v t) = add_mset (k, v) (mset t - (case map_of t k of None \<Rightarrow> {#} | Some w \<Rightarrow> {#(k, w)#}))"
  using assms
proof (induction k v t rule: btree_insert.induct)
  case (2 k v k' v' t)
  show ?case
  proof (cases "k < k'")
    case True
    then have "map_of ((k', v') # t) k = None" using 2 by (auto simp: map_of_eq_None_iff dest: less_trans)
    with True show ?thesis by (simp split: option.split)
  next
    case False
    show ?thesis
    proof (cases "k = k'")
      case k: False
      from 2 False k have IH: "mset (btree_insert k v t) =
          add_mset (k, v) (mset t - (case map_of t k of None \<Rightarrow> {#} | Some w \<Rightarrow> {#(k, w)#}))" by simp
      show ?thesis
      proof (cases "map_of t k")
        case (Some w)
        then have "(k, w) \<in> set t" by (rule map_of_SomeD)
        with IH False k Some show ?thesis by (simp add: add_mset_commute)
      qed (use IH False k in \<open>simp add: add_mset_commute\<close>)
    qed simp
  qed
qed simp

lemma mset_grouped: "mset (grouped groups) = (\<Sum>(f, xs) \<in># mset groups. mset xs)"
  by (induction groups) auto

lemma group_entry_grouped:
  assumes "btree_ok groups"
  shows "btree_ok (group_entry x groups) \<and> mset (grouped (group_entry x groups)) = add_mset x (mset (grouped groups))"
proof -
  let ?f = "cr_file (ie_content (snd x))"
  show ?thesis
  proof (cases "map_of groups ?f")
    case None
    then show ?thesis using assms
      by (simp add: group_entry_def Let_def btree_ok_insert mset_grouped mset_btree_insert del: mset_concat)
  next
    case (Some xs)
    then have "(?f, xs) \<in># mset groups" by (simp add: map_of_SomeD)
    then obtain rest where "mset groups = add_mset (?f, xs) rest" by (metis mset_add)
    then show ?thesis using assms Some
      by (simp add: group_entry_def Let_def btree_ok_insert mset_grouped mset_btree_insert del: mset_concat)
  qed
qed

definition group_ok :: "path \<times> (address \<times> index_entry) list \<Rightarrow> bool" where
  "group_ok = (\<lambda>(file, xs). \<forall>(a, e) \<in> set xs. cr_file (ie_content e) = file)"

lemma group_entry_ok: "list_all group_ok groups \<Longrightarrow> list_all group_ok (group_entry x groups)"
proof -
  assume ok: "list_all group_ok groups"
  let ?f = "cr_file (ie_content (snd x))"
  let ?xs = "(case map_of groups ?f of None \<Rightarrow> [] | Some xs \<Rightarrow> xs) @ [x]"
  have "group_ok (?f, ?xs)"
  proof (cases "map_of groups ?f")
    case (Some xs)
    then have "group_ok (?f, xs)" using ok by (auto simp: list_all_iff dest: map_of_SomeD)
    with Some show ?thesis by (cases x) (auto simp: group_ok_def)
  qed (cases x, simp add: group_ok_def)
  moreover have "set (btree_insert k v t) \<subseteq> insert (k, v) (set t)" for k v and t :: groups
    by (induction k v t rule: btree_insert.induct) auto
  from this [of ?f ?xs groups] have "set (group_entry x groups) \<subseteq> insert (?f, ?xs) (set groups)"
    by (simp add: group_entry_def Let_def)
  ultimately show ?thesis using ok unfolding list_all_iff by blast
qed

lemma groups_of_entries:
  assumes "btree_ok entries"
  shows "set (grouped (entries_by_content_file batch entries)) =
      {(a, e) \<in> set entries. a \<notin> set (map fst (wb_items batch))}"
    and "distinct (map fst (grouped (entries_by_content_file batch entries)))"
    and "list_all group_ok (entries_by_content_file batch entries)"
proof -
  let ?xs = "filter (\<lambda>(a, e). a \<notin> set (map fst (wb_items batch))) entries"
  have *: "btree_ok gs \<Longrightarrow> list_all group_ok gs \<Longrightarrow> btree_ok (fold group_entry xs gs) \<and> list_all group_ok (fold group_entry xs gs) \<and>
      mset (grouped (fold group_entry xs gs)) = mset xs + mset (grouped gs)" for xs gs
  proof (induction xs arbitrary: gs)
    case (Cons x xs)
    from Cons.IH [of "group_entry x gs"] group_entry_grouped [OF Cons.prems(1), of x] group_entry_ok [OF Cons.prems(2)]
    show ?case by simp
  qed simp
  from * [of "[]" ?xs] have "list_all group_ok (entries_by_content_file batch entries)"
    and m: "mset (grouped (entries_by_content_file batch entries)) = mset ?xs"
    by (simp_all add: entries_by_content_file_def Let_def)
  then show "list_all group_ok (entries_by_content_file batch entries)" by simp
  from m show "set (grouped (entries_by_content_file batch entries)) =
      {(a, e) \<in> set entries. a \<notin> set (map fst (wb_items batch))}"
    using mset_eq_setD [OF m] by (simp add: case_prod_unfold)
  have "distinct (map fst ?xs)" using btree_ok_distinct [OF assms] by (rule distinct_map_filter)
  moreover from m have "mset (map fst (grouped (entries_by_content_file batch entries))) = mset (map fst ?xs)"
    by (simp del: mset_concat)
  ultimately show "distinct (map fst (grouped (entries_by_content_file batch entries)))"
    by (metis mset_eq_imp_distinct_iff)
qed

lemma distinct_grouped_filter: "distinct (map fst (grouped groups)) \<Longrightarrow> distinct (map fst (grouped (filter P groups)))"
  by (induction groups) (auto simp: distinct_append)


section \<open>What is staged\<close>

lemma map_result_Inr: "map_result f xs = Inr ys \<longleftrightarrow> list_all2 (\<lambda>x y. f x = Inr y) xs ys"
proof (induction xs arbitrary: ys)
  case (Cons x xs)
  then show ?case by (cases "f x"; cases "map_result f xs") (auto simp: list_all2_Cons1 simp flip: Cons.IH)
qed (auto simp: list_all2_Nil)

lemma decode_content_indexed: "decode_content bs = Some x \<Longrightarrow> decode_indexed_content bs (checksum bs) = Some x"
  using decode_indexed_encode by (cases x) (auto simp: decode_content_iff)

text \<open>A frame that is rewritten holds what is stored for its address.\<close>

definition staged_from :: "inflate \<Rightarrow> files \<Rightarrow> path \<Rightarrow> address \<times> index_entry \<Rightarrow> staged_item \<Rightarrow> bool" where
  "staged_from inflate fs root = (\<lambda>(a, e) item. sg_address item = a \<and> sg_pending item = None \<and>
     (\<exists>payload. decode_content (sg_frame item) = Some (ie_type_id e, ie_codec_id e, payload) \<and>
        stored_item inflate fs root e = Some (ie_etag e, ie_type_id e, ie_codec_id e, payload)))"

lemma stage_frame_from:
  assumes "read_content_pack inflate fs (path_join root (cr_file (ie_content e))) (cr_compression (ie_content e))
      (cr_pack_size (ie_content e)) = Some pack"
    and "stage_frame pack (a, e) = Inr item"
  shows "staged_from inflate fs root (a, e) item"
proof -
  let ?r = "ie_content e"
  from assms(2) obtain frame where g: "slice_get pack (cr_offset ?r) (cr_offset ?r + cr_length ?r) = Some frame"
    and le: "cr_offset ?r + cr_length ?r \<le> u64_max" and c: "checksum frame = cr_checksum ?r"
    and i: "item = \<lparr>sg_address = a, sg_pending = None, sg_frame = frame, sg_used = (ie_unused_since e = None)\<rparr>"
    and d: "\<exists>payload. decode_content frame = Some (ie_type_id e, ie_codec_id e, payload)"
    by (auto simp: stage_frame_def Let_def split: if_splits option.splits)
  have "content_at inflate fs root ?r = Some frame"
    using g le by (simp add: content_at_def assms(1) content_frame_from_pack_eq slice_get_def split: if_splits)
  moreover obtain payload where payload: "decode_content frame = Some (ie_type_id e, ie_codec_id e, payload)" using d by blast
  moreover have "decode_indexed_content frame (cr_checksum ?r) = Some (ie_type_id e, ie_codec_id e, payload)"
    using decode_content_indexed [OF payload] c by simp
  ultimately show ?thesis by (simp add: staged_from_def i stored_item_def)
qed

lemma stage_pack_from:
  assumes coherent: "coherent entries" and sub: "set xs \<subseteq> set entries" and ok: "group_ok (file, xs)"
    and s: "stage_pack inflate fs root (file, xs) = Inr items"
  shows "list_all2 (staged_from inflate fs root) (sort_key (\<lambda>(a, e). cr_offset (ie_content e)) xs) items"
proof (cases xs)
  case (Cons x ys)
  obtain a1 e1 where x: "x = (a1, e1)" by (cases x)
  from s obtain pack where pack: "read_content_pack inflate fs (path_join root file) (cr_compression (ie_content e1))
      (cr_pack_size (ie_content e1)) = Some pack"
    and l: "list_all2 (\<lambda>x y. stage_frame pack x = Inr y) (sort_key (\<lambda>(a, e). cr_offset (ie_content e)) xs) items"
    by (auto simp: stage_pack_def Cons x map_result_Inr split: option.splits)
  have "staged_from inflate fs root (a, e) item" if "(a, e) \<in> set xs" "stage_frame pack (a, e) = Inr item" for a e item
  proof -
    have "cr_file (ie_content e) = file" "cr_file (ie_content e1) = file"
      using ok that Cons x by (auto simp: group_ok_def)
    moreover have "(a, e) \<in> set entries" "(a1, e1) \<in> set entries" using that(1) sub Cons x by auto
    ultimately have "cr_compression (ie_content e) = cr_compression (ie_content e1)"
      "cr_pack_size (ie_content e) = cr_pack_size (ie_content e1)"
      using coherent unfolding coherent_def by fastforce+
    with pack \<open>cr_file (ie_content e) = file\<close> stage_frame_from [OF _ that(2)] show ?thesis by simp
  qed
  then have "staged_from inflate fs root y item" if "y \<in> set xs" "stage_frame pack y = Inr item" for y item
    using that by (cases y) simp
  moreover have "set (sort_key (\<lambda>(a, e). cr_offset (ie_content e)) xs) = set xs" by simp
  ultimately show ?thesis using l unfolding list_all2_conv_all_nth by (metis nth_mem)
qed (use s in \<open>simp add: stage_pack_def\<close>)

definition staged_pending :: "address \<times> pending_item \<Rightarrow> staged_item \<Rightarrow> bool" where
  "staged_pending = (\<lambda>(a, pending) item. sg_address item = a \<and> sg_pending item = Some pending \<and>
     encode_content (pd_type_id pending) (pd_codec_id pending) (pd_payload pending) = Inr (sg_frame item))"

lemma stage_pending_Inr: "stage_pending x = Inr item \<Longrightarrow> staged_pending x item"
  by (cases x) (auto simp: stage_pending_def staged_pending_def split: sum.splits)


definition staged_ok ::
    "inflate \<Rightarrow> files \<Rightarrow> path \<Rightarrow> (address, index_entry) btree \<Rightarrow> write_batch \<Rightarrow> staged_item list \<Rightarrow> bool" where
  "staged_ok inflate fs root entries batch staged \<longleftrightarrow> distinct (map sg_address staged) \<and>
     (\<forall>item \<in> set staged. (\<exists>x \<in> set (wb_items batch). staged_pending x item) \<or>
        (\<exists>x \<in> set entries. fst x \<notin> set (map fst (wb_items batch)) \<and> staged_from inflate fs root x item)) \<and>
     (\<forall>x \<in> set (wb_items batch). \<exists>item \<in> set staged. staged_pending x item)"

lemma list_all2_set2: "list_all2 P xs ys \<Longrightarrow> y \<in> set ys \<Longrightarrow> \<exists>x \<in> set xs. P x y"
  by (induction rule: list_all2_induct) auto

lemma list_all2_set1: "list_all2 P xs ys \<Longrightarrow> x \<in> set xs \<Longrightarrow> \<exists>y \<in> set ys. P x y"
  by (induction rule: list_all2_induct) auto

lemma list_all2_map_eq: "list_all2 P xs ys \<Longrightarrow> (\<And>x y. P x y \<Longrightarrow> f x = g y) \<Longrightarrow> map f xs = map g ys"
  by (induction rule: list_all2_induct) auto

lemma stage_packs_from:
  assumes "coherent entries" "list_all group_ok groups" "set (grouped groups) \<subseteq> set entries"
    and "list_all2 (\<lambda>x y. stage_pack inflate fs root x = Inr y) groups staged"
  shows "mset (map sg_address (concat staged)) = mset (map fst (grouped groups)) \<and>
    (\<forall>item \<in> set (concat staged). \<exists>x \<in> set (grouped groups). staged_from inflate fs root x item)"
  using assms(4,2,3)
proof (induction groups staged rule: list_all2_induct)
  case (Cons g groups items staged)
  obtain f xs where g: "g = (f, xs)" by (cases g)
  have l: "list_all2 (staged_from inflate fs root) (sort_key (\<lambda>(a, e). cr_offset (ie_content e)) xs) items"
  proof (rule stage_pack_from [OF assms(1)])
    show "set xs \<subseteq> set entries" using Cons.prems(2) by (simp add: g)
    show "group_ok (f, xs)" using Cons.prems(1) by (simp add: g)
    show "stage_pack inflate fs root (f, xs) = Inr items" using Cons.hyps(1) by (simp add: g)
  qed
  then have eq: "map fst (sort_key (\<lambda>(a, e). cr_offset (ie_content e)) xs) = map sg_address items"
    by (rule list_all2_map_eq) (auto simp: staged_from_def)
  have "mset (map sg_address items) = mset (map fst xs)" unfolding eq [symmetric] by simp
  moreover have "\<forall>item \<in> set items. \<exists>x \<in> set xs. staged_from inflate fs root x item"
    using list_all2_set2 [OF l] by simp
  moreover have "mset (map sg_address (concat staged)) = mset (map fst (grouped groups)) \<and>
      (\<forall>item \<in> set (concat staged). \<exists>x \<in> set (grouped groups). staged_from inflate fs root x item)"
  proof (rule Cons.IH)
    show "list_all group_ok groups" using Cons.prems(1) by simp
    show "set (grouped groups) \<subseteq> set entries" using Cons.prems(2) by simp
  qed
  moreover have "map sg_address (concat (items # staged)) = map sg_address items @ map sg_address (concat staged)"
    and "map fst (grouped (g # groups)) = map fst xs @ map fst (grouped groups)" by (simp_all add: g)
  moreover have "set (concat (items # staged)) = set items \<union> set (concat staged)"
    and "set (grouped (g # groups)) = set xs \<union> set (grouped groups)" by (simp_all add: g)
  ultimately show ?case by (simp only: mset_append) blast
qed simp

text \<open>A pack that could not be read is not staged, so the staged items come from the packs on the disk.\<close>

lemma stage_pack_seen:
  "stage_pack inflate (fs(path_join root (fst source) := None)) root source = Inr items \<Longrightarrow>
    stage_pack inflate fs root source = Inr items"
  by (auto simp: stage_pack_def read_content_pack_def read_bounded_def
      split: prod.splits list.splits compression.splits if_splits)

lemma leads_stage_packs:
  "leads (\<lambda>fs. fs = fs0) (stage_packs inflate root sources)
    (\<lambda>staged fs. fs = fs0 \<and> (\<exists>maintained. staged = concat maintained \<and>
       list_all2 (\<lambda>x y. stage_pack inflate fs0 root x = Inr y) sources maintained)) (\<lambda>fs. fs = fs0)"
proof (induction sources)
  case Nil
  show ?case by (auto intro: leads_ret)
next
  case (Cons source sources)
  let ?staged = "\<lambda>items fs. fs = fs0 \<and> stage_pack inflate fs0 root source = Inr items"
  let ?all = "\<lambda>rest. \<exists>maintained. rest = concat maintained \<and>
    list_all2 (\<lambda>x y. stage_pack inflate fs0 root x = Inr y) sources maintained"
  have a: "leads (\<lambda>fs. fs = fs0) (read_files (path_join root (fst source)))
      (\<lambda>seen fs. fs = fs0 \<and> (seen = fs \<or> seen = fs(path_join root (fst source) := None))) (\<lambda>fs. fs = fs0)"
    by (rule leads_read)
  have b: "leads (\<lambda>fs. fs = fs0 \<and> (seen = fs \<or> seen = fs(path_join root (fst source) := None)))
      (lift_result (stage_pack inflate seen root source)) ?staged (\<lambda>fs. fs = fs0)" for seen
    by (rule leads_lift) (auto dest: stage_pack_seen)
  have c: "leads (?staged items) (stage_packs inflate root sources) (\<lambda>rest fs. ?staged items fs \<and> ?all rest) (\<lambda>fs. fs = fs0)" for items
  proof (cases "stage_pack inflate fs0 root source = Inr items")
    case True
    then show ?thesis by (intro leads_weaken [OF Cons.IH]) simp_all
  qed (simp add: leads_def)
  have d: "leads (\<lambda>fs. ?staged items fs \<and> ?all rest) (ret (items @ rest))
      (\<lambda>staged fs. fs = fs0 \<and> (\<exists>maintained. staged = concat maintained \<and>
        list_all2 (\<lambda>x y. stage_pack inflate fs0 root x = Inr y) (source # sources) maintained)) (\<lambda>fs. fs = fs0)" for items rest
  proof (rule leads_ret)
    fix fs
    assume "?staged items fs \<and> ?all rest"
    then obtain maintained where "fs = fs0" "stage_pack inflate fs0 root source = Inr items" "rest = concat maintained"
      "list_all2 (\<lambda>x y. stage_pack inflate fs0 root x = Inr y) sources maintained" by blast
    then show "fs = fs0 \<and> (\<exists>maintained. items @ rest = concat maintained \<and>
        list_all2 (\<lambda>x y. stage_pack inflate fs0 root x = Inr y) (source # sources) maintained)"
      by (intro conjI exI [of _ "items # maintained"]) simp_all
  qed
  show ?case
    unfolding stage_packs.simps
    by (rule leads_then [OF a], rule leads_then [OF b], rule leads_then [OF c], rule d)
qed

lemma staged_items_ok:
  assumes coherent: "coherent entries" and ok: "btree_ok entries" "btree_ok (wb_items batch)"
    and m: "list_all2 (\<lambda>x y. stage_pack inflate fs root x = Inr y)
      (maintenance_sources mt (entries_by_content_file batch entries)) maintained"
    and a: "list_all2 (\<lambda>x y. stage_pending x = Inr y) (wb_items batch) added" and st: "staged = concat maintained @ added"
  shows "staged_ok inflate fs root entries batch staged"
proof -
  let ?groups = "maintenance_sources mt (entries_by_content_file batch entries)"
  obtain P where P: "?groups = filter P (entries_by_content_file batch entries)"
    unfolding maintenance_sources_def Let_def by blast
  have d: "distinct (map fst (grouped ?groups))"
    unfolding P by (rule distinct_grouped_filter [OF groups_of_entries(2) [OF ok(1)]])
  have gs: "set (grouped ?groups) \<subseteq> {(a, e) \<in> set entries. a \<notin> set (map fst (wb_items batch))}"
    unfolding groups_of_entries(1) [OF ok(1), symmetric] P by auto
  have "list_all group_ok ?groups" using groups_of_entries(3) [OF ok(1), of batch] unfolding P by (auto simp: list_all_iff)
  moreover have "set (grouped ?groups) \<subseteq> set entries" using gs by blast
  ultimately have sp: "mset (map sg_address (concat maintained)) = mset (map fst (grouped ?groups))"
    "\<forall>item \<in> set (concat maintained). \<exists>x \<in> set (grouped ?groups). staged_from inflate fs root x item"
    using stage_packs_from [OF coherent _ _ m] by blast+
  have a': "list_all2 staged_pending (wb_items batch) added" using list_all2_mono [OF a stage_pending_Inr] .
  then have am: "map sg_address added = map fst (wb_items batch)"
    using list_all2_map_eq [OF a', of fst sg_address] by (fastforce simp: staged_pending_def)
  have "distinct (map sg_address (concat maintained))" using sp(1) d by (metis mset_eq_imp_distinct_iff)
  moreover have "set (map sg_address (concat maintained)) = fst ` set (grouped ?groups)"
    using sp(1) by (metis list.set_map mset_eq_setD)
  moreover have "fst ` set (grouped ?groups) \<inter> set (map fst (wb_items batch)) = {}" using gs by force
  ultimately have "distinct (map sg_address staged)"
    using am btree_ok_distinct [OF ok(2)] by (simp add: st distinct_append)
  moreover have "(\<exists>x \<in> set (wb_items batch). staged_pending x item) \<or>
      (\<exists>x \<in> set entries. fst x \<notin> set (map fst (wb_items batch)) \<and> staged_from inflate fs root x item)"
    if "item \<in> set staged" for item
  proof (cases "item \<in> set added")
    case True
    then show ?thesis using list_all2_set2 [OF a'] by blast
  next
    case False
    then have "item \<in> set (concat maintained)" using that st by simp
    then obtain x where "x \<in> set (grouped ?groups)" "staged_from inflate fs root x item" using sp(2) by blast
    then show ?thesis using gs by force
  qed
  moreover have "\<exists>item \<in> set staged. staged_pending x item" if "x \<in> set (wb_items batch)" for x
    using list_all2_set1 [OF a' that] st by auto
  ultimately show ?thesis by (simp add: staged_ok_def)
qed

lemma leads_stage_items:
  assumes "coherent entries" "btree_ok entries" "btree_ok (wb_items batch)"
  shows "leads (\<lambda>fs. fs = fs0) (stage_items inflate root (maintenance_sources mt (entries_by_content_file batch entries)) batch)
    (\<lambda>staged fs. fs = fs0 \<and> staged_ok inflate fs0 root entries batch staged) (\<lambda>fs. fs = fs0)"
  unfolding stage_items_def
proof (rule leads_then [OF leads_stage_packs], rule leads_then)
  let ?kept = "\<lambda>staged fs. fs = fs0 \<and> (\<exists>maintained. staged = concat maintained \<and>
     list_all2 (\<lambda>x y. stage_pack inflate fs0 root x = Inr y) (maintenance_sources mt (entries_by_content_file batch entries)) maintained)"
  fix maintained
  show "leads (?kept maintained) (lift_result (map_result stage_pending (wb_items batch)))
      (\<lambda>added fs. ?kept maintained fs \<and> map_result stage_pending (wb_items batch) = Inr added) (\<lambda>fs. fs = fs0)"
    by (rule leads_lift) simp_all
  show "leads (\<lambda>fs. ?kept maintained fs \<and> map_result stage_pending (wb_items batch) = Inr added) (ret (maintained @ added))
      (\<lambda>staged fs. fs = fs0 \<and> staged_ok inflate fs0 root entries batch staged) (\<lambda>fs. fs = fs0)" for added
  proof (rule leads_ret)
    fix fs
    assume k: "?kept maintained fs \<and> map_result stage_pending (wb_items batch) = Inr added"
    then obtain m where "maintained = concat m"
      "list_all2 (\<lambda>x y. stage_pack inflate fs0 root x = Inr y) (maintenance_sources mt (entries_by_content_file batch entries)) m" by blast
    with k staged_items_ok [OF assms] show "fs = fs0 \<and> staged_ok inflate fs0 root entries batch (maintained @ added)"
      by (simp add: map_result_Inr)
  qed
qed

end
