(* ===== verification/Publish_Correct.thy ===== *)
theory Publish_Correct
  imports Publish_Staging
begin

text \<open>
  Publication is atomic and complete: whatever fails and wherever the process stops, the cache holds
  what it held before or what was published; and what was published is the entries that stay, with
  what was stored for them, and the items of the batch.
\<close>

section \<open>Writing the packs\<close>

definition pack_path :: "nat \<Rightarrow> compression \<Rightarrow> nat \<Rightarrow> nat \<Rightarrow> path" where
  "pack_path revision k n i = [Normal ''content'', Normal (content_pack_filename revision i n k)]"

definition pack_bytes :: "staged_item list \<Rightarrow> bytes" where
  "pack_bytes pack = concat (map sg_frame pack)"

text \<open>The packs before the \<open>j\<close>-th are written, and the entries of their items refer to them.\<close>

definition packed ::
    "inflate \<Rightarrow> path \<Rightarrow> publication_options \<Rightarrow> nat \<Rightarrow> staged_item list list \<Rightarrow> (address, index_entry) btree \<Rightarrow> files \<Rightarrow>
     nat \<Rightarrow> (address, index_entry) btree \<Rightarrow> files \<Rightarrow> bool" where
  "packed inflate root opts revision packs entries0 fs0 j entries fs \<longleftrightarrow>
     kept root revision fs0 fs \<and> btree_ok entries \<and>
     (\<forall>a. a \<notin> sg_address ` set (concat (take j packs)) \<longrightarrow> map_of entries a = map_of entries0 a) \<and>
     (\<forall>i < j. read_content_pack inflate fs (path_join root (pack_path revision (po_compression opts) (length packs) i))
          (po_compression opts) (length (pack_bytes (packs ! i))) = Some (pack_bytes (packs ! i)) \<and>
        (\<forall>item \<in> set (packs ! i). \<exists>e r. places (po_retention opts) revision entries0 item r e \<and>
           map_of entries (sg_address item) = Some e \<and>
           frame_in (pack_bytes (packs ! i)) (pack_path revision (po_compression opts) (length packs) i)
             (length (pack_bytes (packs ! i))) (po_compression opts) item r))"

lemma leads_fold:
  assumes "\<And>j s. j < length xs \<Longrightarrow> leads (I j s) (f (xs ! j) s) (I (Suc j)) E"
  shows "leads (I 0 s) (fold_effect f xs s) (I (length xs)) E"
proof -
  have "leads (I j s) (fold_effect f (drop j xs) s) (I (length xs)) E" if "j \<le> length xs" for j s
    using that
  proof (induction "length xs - j" arbitrary: j s)
    case 0
    then show ?case by (auto intro: leads_ret)
  next
    case (Suc n)
    then have j: "j < length xs" by simp
    then have "fold_effect f (drop j xs) s = and_then (f (xs ! j) s) (fold_effect f (drop (Suc j) xs))"
      by (simp add: Cons_nth_drop_Suc [symmetric])
    moreover have "leads (I (Suc j) s) (fold_effect f (drop (Suc j) xs) s) (I (length xs)) E" for s
      using Suc j by simp
    from leads_then [OF assms [OF j] this] have "leads (I j s) (and_then (f (xs ! j) s) (fold_effect f (drop (Suc j) xs))) (I (length xs)) E" .
    ultimately show ?case by simp
  qed
  from this [of 0] show ?thesis by simp
qed

lemma read_content_pack_cong:
  "fs p = fs' p \<Longrightarrow> read_content_pack inflate fs p k n = read_content_pack inflate fs' p k n"
  by (simp add: read_content_pack_def read_bounded_def split: compression.split)

lemma pack_path_inject:
  "i < n \<Longrightarrow> j < n \<Longrightarrow> path_join root (pack_path revision k n i) = path_join root (pack_path revision k n j) \<longleftrightarrow> i = j"
  using pack_filename_index [of revision i n k j] by (auto simp: pack_path_def)

lemma fresh_pack: "fresh root revision (path_join root (pack_path revision k n i))"
  by (auto simp: fresh_def pack_path_def)

lemma fresh_temporary: "fresh root revision (path_join root [Normal ''content'', Normal (''.'' @ s)])"
  by (auto simp: fresh_def)

lemma packed_write:
  assumes p: "packed inflate root opts revision packs entries0 fs0 j entries fs"
    and j: "j < length packs" and d: "distinct (map sg_address (concat packs))"
    and max: "frames_length (packs ! j) \<le> max_content_bytes"
    and f: "fold_opt (pack_item_step (po_retention opts) revision (pack_path revision (po_compression opts) (length packs) j)
        (frames_length (packs ! j)) (po_compression opts)) (packs ! j) ([], entries) = Some (content, entries')"
    and inflates: "inflates inflate deflate"
    and encoded: "encode_content_pack deflate content (po_compression opts) = Inr encoded"
    and fs': "fs' = fs(temporary := x, path_join root (pack_path revision (po_compression opts) (length packs) j) \<mapsto> encoded)"
    and t: "temporary = path_join root [Normal ''content'', Normal (''.'' @ s)]"
  shows "packed inflate root opts revision packs entries0 fs0 (Suc j) entries' fs'"
proof -
  let ?k = "po_compression opts"
  let ?path = "\<lambda>i. path_join root (pack_path revision ?k (length packs) i)"
  have split: "concat packs = concat (take j packs) @ packs ! j @ concat (drop (Suc j) packs)"
    using j by (subst id_take_nth_drop [of j packs]) simp_all
  have "distinct (map sg_address (concat (take j packs)) @ map sg_address (packs ! j) @ map sg_address (concat (drop (Suc j) packs)))"
    using d unfolding split by simp
  then have dj: "distinct (map sg_address (packs ! j))"
    and disj: "sg_address ` set (packs ! j) \<inter> sg_address ` set (concat (take j packs)) = {}"
    by (simp_all only: distinct_append set_append set_map) blast
  from p have ok: "btree_ok entries" and k: "kept root revision fs0 fs"
    and old: "\<And>a. a \<notin> sg_address ` set (concat (take j packs)) \<Longrightarrow> map_of entries a = map_of entries0 a"
    and read: "\<And>i. i < j \<Longrightarrow> read_content_pack inflate fs (?path i) ?k (length (pack_bytes (packs ! i))) =
      Some (pack_bytes (packs ! i))"
    and placed: "\<And>i item. i < j \<Longrightarrow> item \<in> set (packs ! i) \<Longrightarrow>
      \<exists>e r. places (po_retention opts) revision entries0 item r e \<and> map_of entries (sg_address item) = Some e \<and>
        frame_in (pack_bytes (packs ! i)) (pack_path revision ?k (length packs) i) (length (pack_bytes (packs ! i))) ?k item r"
    unfolding packed_def by blast+
  from pack_items [OF f ok dj, unfolded append_Nil pack_bytes_def [symmetric]] have c: "content = pack_bytes (packs ! j)" and ok': "btree_ok entries'"
    and other: "\<And>a. a \<notin> sg_address ` set (packs ! j) \<Longrightarrow> map_of entries' a = map_of entries a"
    and items: "\<And>item. item \<in> set (packs ! j) \<Longrightarrow> \<exists>e r. places (po_retention opts) revision entries item r e \<and>
       map_of entries' (sg_address item) = Some e \<and>
       frame_in content (pack_path revision ?k (length packs) j) (frames_length (packs ! j)) ?k item r"
    by blast+
  have n: "frames_length (packs ! j) = length (pack_bytes (packs ! j))"
    by (simp add: pack_bytes_def frames_length_concat)
  have tne: "?path i \<noteq> temporary" for i
    by (auto simp: t pack_path_def pack_filename_not_temporary)
  have new: "read_content_pack inflate fs' (?path j) ?k (length content) = Some content"
    by (rule read_pack_back [OF inflates encoded]) (use max n c in \<open>simp_all add: fs'\<close>)
  have same: "read_content_pack inflate fs' (?path i) ?k m = read_content_pack inflate fs (?path i) ?k m"
    if "i < j" for i m
    using that j pack_path_inject [of i "length packs" j root revision ?k] tne [of i]
    by (intro read_content_pack_cong) (simp add: fs')
  have kept': "kept root revision fs0 fs'"
    unfolding fs' t by (intro kept_upd k fresh_pack fresh_temporary)
  have old': "map_of entries' a = map_of entries0 a" if "a \<notin> sg_address ` set (concat (take (Suc j) packs))" for a
    using that other [of a] old [of a] j by (simp add: take_Suc_conv_app_nth image_Un)
  have placed': "\<exists>e r. places (po_retention opts) revision entries0 item r e \<and> map_of entries' (sg_address item) = Some e \<and>
      frame_in (pack_bytes (packs ! i)) (pack_path revision ?k (length packs) i) (length (pack_bytes (packs ! i))) ?k item r"
    if i: "i < Suc j" and item: "item \<in> set (packs ! i)" for i item
  proof (cases "i = j")
    case True
    from items [of item] item True obtain e r where e: "places (po_retention opts) revision entries item r e"
      "map_of entries' (sg_address item) = Some e"
      "frame_in content (pack_path revision ?k (length packs) j) (frames_length (packs ! j)) ?k item r" by blast
    have "sg_address item \<notin> sg_address ` set (concat (take j packs))" using disj item True by blast
    then have "map_of entries (sg_address item) = map_of entries0 (sg_address item)" by (rule old)
    from iffD1 [OF places_cong [OF this] e(1)] have "places (po_retention opts) revision entries0 item r e" .
    with e True show ?thesis by (auto simp: c n)
  next
    case False
    with i have i: "i < j" by simp
    then have "packs ! i \<in> set (take j packs)" using j by (auto simp: in_set_conv_nth)
    then have "item \<in> set (concat (take j packs))" using item by auto
    then have "sg_address item \<notin> sg_address ` set (packs ! j)" using disj by blast
    then have "map_of entries' (sg_address item) = map_of entries (sg_address item)" by (rule other)
    with placed [OF i item] show ?thesis by simp
  qed
  have read': "read_content_pack inflate fs' (?path i) ?k (length (pack_bytes (packs ! i))) = Some (pack_bytes (packs ! i))"
    if "i < Suc j" for i
    using new same [of i] read [of i] that c by (cases "i = j") auto
  show ?thesis
    unfolding packed_def by (intro conjI allI impI ballI kept' ok'; (erule old' | erule read' | erule (1) placed'))
qed

lemma write_pack_leads:
  assumes j: "j < length packs" and d: "distinct (map sg_address (concat packs))"
    and max: "frames_length (packs ! j) \<le> max_content_bytes" and inflates: "inflates inflate deflate"
  shows "leads (packed inflate root opts revision packs entries0 fs0 j entries)
    (write_pack deflate root revision opts (length packs) (j, packs ! j) entries)
    (packed inflate root opts revision packs entries0 fs0 (Suc j)) (kept root revision fs0)"
proof -
  let ?I = "packed inflate root opts revision packs entries0 fs0"
  let ?k = "po_compression opts"
  let ?filename = "content_pack_filename revision j (length packs) ?k"
  let ?file = "[Normal ''content'', Normal ?filename]"
  let ?tmp = "path_join root [Normal ''content'', Normal (''.'' @ ?filename @ ''.tmp'')]"
  have named: "?file = pack_path revision ?k (length packs) j" by (simp add: pack_path_def)
  have kept: "?I i e fs \<Longrightarrow> kept root revision fs0 fs" for i e fs by (simp add: packed_def)
  have ft: "fresh root revision ?tmp" by (rule fresh_temporary)
  show ?thesis
  proof (cases "fold_opt (pack_item_step (po_retention opts) revision ?file (frames_length (packs ! j)) ?k) (packs ! j) ([], entries)")
    case None
    then show ?thesis
      by (auto simp: write_pack_def Let_def frames_length_def [symmetric] intro!: leads_raise leads_halt dest: kept)
  next
    case (Some p)
    obtain content entries' where c: "p = (content, entries')" by (cases p)
    have "leads (?I j entries) (and_then (lift_result (encode_content_pack deflate content ?k)) (\<lambda>encoded.
            and_then (write_synced ?tmp encoded) (\<lambda>_.
            and_then (rename_or_remove ?tmp (path_join root ?file)) (\<lambda>_.
            ret entries')))) (?I (Suc j)) (kept root revision fs0)"
    proof (intro leads_then)
      show "leads (?I j entries) (lift_result (encode_content_pack deflate content ?k))
          (\<lambda>encoded fs. encode_content_pack deflate content ?k = Inr encoded \<and> ?I j entries fs) (kept root revision fs0)"
        by (rule leads_lift) (auto dest: kept)
      fix encoded
      show "leads (\<lambda>fs. encode_content_pack deflate content ?k = Inr encoded \<and> ?I j entries fs) (write_synced ?tmp encoded)
          (\<lambda>_ fs. \<exists>fs'. (encode_content_pack deflate content ?k = Inr encoded \<and> ?I j entries fs') \<and> fs = fs'(?tmp \<mapsto> encoded))
          (kept root revision fs0)"
        by (rule leads_write, elim conjE, rule kept_partly [OF kept ft])
      show "leads (\<lambda>fs. \<exists>fs'. (encode_content_pack deflate content ?k = Inr encoded \<and> ?I j entries fs') \<and> fs = fs'(?tmp \<mapsto> encoded))
          (rename_or_remove ?tmp (path_join root ?file))
          (\<lambda>_ fs. \<exists>fs'' bs. (\<exists>fs'. (encode_content_pack deflate content ?k = Inr encoded \<and> ?I j entries fs') \<and> fs'' = fs'(?tmp \<mapsto> encoded)) \<and>
             fs'' ?tmp = Some bs \<and> fs = fs''(?tmp := None, path_join root ?file \<mapsto> bs)) (kept root revision fs0)"
        by (rule leads_rename_or_remove; elim exE conjE; hypsubst) (intro kept_upd ft, erule kept)+
      show "leads (\<lambda>fs. \<exists>fs'' bs. (\<exists>fs'. (encode_content_pack deflate content ?k = Inr encoded \<and> ?I j entries fs') \<and> fs'' = fs'(?tmp \<mapsto> encoded)) \<and>
             fs'' ?tmp = Some bs \<and> fs = fs''(?tmp := None, path_join root ?file \<mapsto> bs)) (ret entries') (?I (Suc j)) (kept root revision fs0)"
      proof (rule leads_ret)
        fix fs
        assume "\<exists>fs'' bs. (\<exists>fs'. (encode_content_pack deflate content ?k = Inr encoded \<and> ?I j entries fs') \<and> fs'' = fs'(?tmp \<mapsto> encoded)) \<and>
             fs'' ?tmp = Some bs \<and> fs = fs''(?tmp := None, path_join root ?file \<mapsto> bs)"
        then obtain fs' where e: "encode_content_pack deflate content ?k = Inr encoded" and I: "?I j entries fs'"
          and fs: "fs = fs'(?tmp := None, path_join root (pack_path revision ?k (length packs) j) \<mapsto> encoded)"
          by (auto simp: named)
        show "?I (Suc j) entries' fs"
          by (rule packed_write [OF I j d max _ inflates e fs refl]) (use Some c named in simp)
      qed
    qed
    then show ?thesis
      using Some c by (auto simp: write_pack_def Let_def frames_length_def [symmetric] intro!: leads_raise dest: kept)
  qed
qed


section \<open>The index that is published\<close>

lemma placed_content:
  assumes p: "packed inflate root opts revision packs entries0 fs0 (length packs) entries fs"
    and max: "\<forall>pack \<in> set packs. frames_length pack \<le> max_content_bytes" and item: "item \<in> set (concat packs)"
  shows "\<exists>e r i. i < length packs \<and> places (po_retention opts) revision entries0 item r e \<and>
    map_of entries (sg_address item) = Some e \<and> content_at inflate fs root r = Some (sg_frame item) \<and>
    cr_checksum r = checksum (sg_frame item) \<and> cr_file r = pack_path revision (po_compression opts) (length packs) i \<and>
    cr_pack_size r = length (pack_bytes (packs ! i)) \<and> cr_compression r = po_compression opts \<and> reference_ok r"
proof -
  let ?k = "po_compression opts"
  from item obtain pack where "pack \<in> set packs" "item \<in> set pack" by auto
  then obtain i where i: "i < length packs" "item \<in> set (packs ! i)" unfolding in_set_conv_nth [of pack] by blast
  from p i obtain e r where e: "places (po_retention opts) revision entries0 item r e" "map_of entries (sg_address item) = Some e"
    and f: "frame_in (pack_bytes (packs ! i)) (pack_path revision ?k (length packs) i) (length (pack_bytes (packs ! i))) ?k item r"
    and read: "read_content_pack inflate fs (path_join root (pack_path revision ?k (length packs) i)) ?k
      (length (pack_bytes (packs ! i))) = Some (pack_bytes (packs ! i))"
    unfolding packed_def by blast
  have len: "length (pack_bytes (packs ! i)) \<le> max_content_bytes"
    using max i(1) by (simp add: pack_bytes_def frames_length_concat)
  have "content_at inflate fs root r = Some (sg_frame item)"
    using f read len by (simp add: content_at_def frame_in_def content_frame_from_pack_eq max_content_bytes_def u64_max_def)
  moreover have "reference_ok r" using f len by (simp add: frame_in_def reference_ok_def)
  ultimately show ?thesis using i(1) e f unfolding frame_in_def by blast
qed

definition batch_ok :: "write_batch \<Rightarrow> bool" where
  "batch_ok batch \<longleftrightarrow> btree_ok (wb_items batch) \<and> (\<forall>(a, s) \<in> set (wb_accesses batch). s \<le> u64_max) \<and>
     (\<forall>(a, p) \<in> set (wb_items batch). length (pd_type_id p) = 16 \<and> length (pd_codec_id p) = 16)"

text \<open>What the cache holds after a publication: the items of the batch and the entries that stay.\<close>

definition published_item ::
    "inflate \<Rightarrow> files \<Rightarrow> path \<Rightarrow> nat \<Rightarrow> retention \<Rightarrow> write_batch \<Rightarrow> (address, index_entry) btree \<Rightarrow> address \<Rightarrow>
     (bytes option \<times> bytes \<times> bytes \<times> bytes) option" where
  "published_item inflate fs root revision retention batch base a = (case map_of (wb_items batch) a of
      Some p \<Rightarrow> Some (pd_etag p, pd_type_id p, pd_codec_id p, pd_payload p)
    | None \<Rightarrow> do {
        e \<leftarrow> map_of base a;
        if stays revision retention batch a e then stored_item inflate fs root e else None })"

definition goes_on :: "nat \<Rightarrow> retention \<Rightarrow> write_batch \<Rightarrow> (address, index_entry) btree \<Rightarrow> address \<Rightarrow> bool" where
  "goes_on revision retention batch base a \<longleftrightarrow> map_of (wb_items batch) a \<noteq> None \<or>
     (\<exists>e. map_of base a = Some e \<and> stays revision retention batch a e)"

lemma base_entries_sound:
  assumes "index_sound current" and "base_entries base current = Inr entries"
  shows "btree_ok entries" and "coherent entries"
    and "\<And>a e. (a, e) \<in> set entries \<Longrightarrow> index_entry_ok (pi_revision current) e \<and> pack_file_of (pi_revision current) (cr_file (ie_content e))"
  using assms by (auto simp: base_entries_def index_sound_def index_ok_def coherent_def split: publication_base.splits if_splits)

lemma age_entry_fields [simp]:
  "ie_content (age_entry revision access e) = ie_content e" "ie_etag (age_entry revision access e) = ie_etag e"
  "ie_type_id (age_entry revision access e) = ie_type_id e" "ie_codec_id (age_entry revision access e) = ie_codec_id e"
  by (auto simp: age_entry_def split: option.split)

lemma age_entry_ok:
  assumes "index_entry_ok q e" "q \<le> revision" "\<And>s. access = Some s \<Longrightarrow> s \<le> u64_max"
  shows "index_entry_ok revision (age_entry revision access e)"
  using assms by (cases access; cases "ie_unused_since e") (auto simp: age_entry_def index_entry_ok_def)

lemma entry_ok_mono: "index_entry_ok q e \<Longrightarrow> q \<le> revision \<Longrightarrow> index_entry_ok revision e"
  by (auto simp: index_entry_ok_def)

lemma stored_item_cong:
  "ie_etag e = ie_etag e' \<Longrightarrow> ie_type_id e = ie_type_id e' \<Longrightarrow> ie_codec_id e = ie_codec_id e' \<Longrightarrow>
     ie_content e = ie_content e' \<Longrightarrow> stored_item inflate fs root e = stored_item inflate fs root e'"
  unfolding stored_item_def by (simp cong del: if_weak_cong)

text \<open>What the retained entries are made of.\<close>

lemma retained_mem:
  assumes sound: "index_sound current" and base: "base_entries base current = Inr entries" and batch: "batch_ok batch"
    and rev: "revision = pi_revision current + 1"
    and mem: "map_of (retained_entries revision retention batch entries) a = Some e"
  shows "\<exists>e0. (a, e0) \<in> set entries \<and> ie_content e = ie_content e0 \<and> index_entry_ok revision e \<and>
    pack_file_of (pi_revision current) (cr_file (ie_content e))"
proof -
  from mem obtain e0 where e0: "map_of entries a = Some e0"
    and e: "e = e0 \<or> e = age_entry revision (map_of (wb_accesses batch) a) e0"
    by (auto simp: retained_get(2) [OF base_entries_sound(1) [OF sound base]] split: option.splits if_splits)
  from e0 have "(a, e0) \<in> set entries" by (rule map_of_SomeD)
  moreover have "s \<le> u64_max" if "map_of (wb_accesses batch) a = Some s" for s
    using batch map_of_SomeD [OF that] by (auto simp: batch_ok_def)
  ultimately show ?thesis
    using e base_entries_sound(3) [OF sound base, of a e0] rev
    by (intro exI [of _ e0]) (auto intro!: age_entry_ok [of "pi_revision current"] intro: entry_ok_mono)
qed

lemma retained_coherent:
  assumes "coherent entries" "btree_ok entries"
  shows "coherent (retained_entries revision retention batch entries)"
proof -
  have "\<exists>e0. (a, e0) \<in> set entries \<and> ie_content e = ie_content e0"
    if "(a, e) \<in> set (retained_entries revision retention batch entries)" for a e
    using that unfolding retained_entries_def Let_def by auto
  then show ?thesis using assms(1) unfolding coherent_def case_prod_unfold
    by (metis (no_types, lifting) fst_conv prod.collapse snd_conv)
qed


text \<open>The entries of the published index.\<close>

lemma packed_entry:
  assumes sound: "index_sound current" and base: "base_entries base current = Inr base0" and batch: "batch_ok batch"
    and rev: "revision = pi_revision current + 1" "revision \<le> u64_max"
    and now: "rt_now (po_retention opts) \<le> u64_max"
    and e0: "entries0 = retained_entries revision (po_retention opts) batch base0"
    and staged: "staged_ok inflate fs0 root entries0 batch staged" "set (concat packs) = set staged"
    and max: "\<forall>pack \<in> set packs. frames_length pack \<le> max_content_bytes"
    and p: "packed inflate root opts revision packs entries0 fs0 (length packs) entries fs"
    and mem: "map_of entries a = Some e"
  shows "index_entry_ok revision e \<and> stored_item inflate fs root e = published_item inflate fs0 root revision (po_retention opts) batch base0 a \<and>
    goes_on revision (po_retention opts) batch base0 a \<and>
    (map_of entries0 a = Some e \<and> pack_file_of (pi_revision current) (cr_file (ie_content e)) \<or>
     (\<exists>i < length packs. cr_file (ie_content e) = pack_path revision (po_compression opts) (length packs) i \<and>
        cr_pack_size (ie_content e) = length (pack_bytes (packs ! i)) \<and> cr_compression (ie_content e) = po_compression opts))"
proof (cases "\<exists>item \<in> set staged. sg_address item = a")
  case True
  then obtain item where item: "item \<in> set staged" "sg_address item = a" by blast
  then have "item \<in> set (concat packs)" using staged(2) by simp
  from placed_content [OF p max this] mem item(2) obtain r i where
    pl: "places (po_retention opts) revision entries0 item r e"
    and c: "content_at inflate fs root r = Some (sg_frame item)" "cr_checksum r = checksum (sg_frame item)"
    and r: "cr_file r = pack_path revision (po_compression opts) (length packs) i"
      "cr_pack_size r = length (pack_bytes (packs ! i))" "cr_compression r = po_compression opts" "reference_ok r" "i < length packs"
    by auto
  from pl have re: "ie_content e = r" by (rule places_content)
  from staged(1) item(1) consider
      (new) x where "x \<in> set (wb_items batch)" "staged_pending x item"
    | (moved) x where "x \<in> set entries0" "fst x \<notin> set (map fst (wb_items batch))" "staged_from inflate fs0 root x item"
    unfolding staged_ok_def by blast
  then have "index_entry_ok revision e \<and> stored_item inflate fs root e = published_item inflate fs0 root revision (po_retention opts) batch base0 a \<and>
      goes_on revision (po_retention opts) batch base0 a"
  proof cases
    case new
    obtain pd where x: "x = (a, pd)" "sg_pending item = Some pd"
      and f: "encode_content (pd_type_id pd) (pd_codec_id pd) (pd_payload pd) = Inr (sg_frame item)"
      using new(2) item(2) by (cases x) (auto simp: staged_pending_def)
    have l: "length (pd_type_id pd) = 16" "length (pd_codec_id pd) = 16" and m: "map_of (wb_items batch) a = Some pd"
      using batch new(1) x(1) by (auto simp: batch_ok_def intro: map_of_is_SomeI btree_ok_distinct)
    have e: "e = \<lparr>ie_etag = pd_etag pd, ie_type_id = pd_type_id pd, ie_codec_id = pd_codec_id pd, ie_content = r,
        ie_last_access = rt_now (po_retention opts), ie_last_used = revision, ie_unused_since = None\<rparr>"
      using pl x(2) by (simp add: places_def)
    have "stored_item inflate fs root e = Some (pd_etag pd, pd_type_id pd, pd_codec_id pd, pd_payload pd)"
      using c decode_indexed_encode [OF l f] by (simp add: stored_item_def e)
    moreover have "index_entry_ok revision e" using l r(4) now by (simp add: e index_entry_ok_def)
    ultimately show ?thesis by (simp add: published_item_def m goes_on_def)
  next
    case moved
    obtain e1 where x: "x = (a, e1)" "sg_pending item = None"
      and f: "\<exists>payload. decode_content (sg_frame item) = Some (ie_type_id e1, ie_codec_id e1, payload) \<and>
        stored_item inflate fs0 root e1 = Some (ie_etag e1, ie_type_id e1, ie_codec_id e1, payload)"
      using moved(3) item(2) by (cases x) (auto simp: staged_from_def)
    have ok0: "btree_ok entries0" unfolding e0 by (rule retained_get(1) [OF base_entries_sound(1) [OF sound base]])
    then have m1: "map_of entries0 a = Some e1"
      using moved(1) x(1) by (simp add: map_of_is_SomeI btree_ok_distinct)
    then have e: "e = e1\<lparr>ie_content := r\<rparr>" using pl x(2) item(2) by (simp add: places_def)
    from f obtain payload where pay: "decode_content (sg_frame item) = Some (ie_type_id e1, ie_codec_id e1, payload)"
      "stored_item inflate fs0 root e1 = Some (ie_etag e1, ie_type_id e1, ie_codec_id e1, payload)" by blast
    have "stored_item inflate fs root e = stored_item inflate fs0 root e1"
      using c decode_content_indexed [OF pay(1)] by (simp add: pay(2)) (simp add: stored_item_def e)
    moreover have "index_entry_ok revision e1"
      using retained_mem [OF sound base batch rev(1), of "po_retention opts" a e1] m1 e0 by auto
    then have "index_entry_ok revision e" using r(4) by (simp add: e index_entry_ok_def)
    moreover have "stored_item inflate fs0 root e1 = published_item inflate fs0 root revision (po_retention opts) batch base0 a \<and>
        goes_on revision (po_retention opts) batch base0 a"
    proof -
      have na: "a \<notin> set (map fst (wb_items batch))" using moved(2) x(1) by simp
      then have none: "map_of (wb_items batch) a = None" by (simp add: map_of_eq_None_iff)
      from m1 na obtain e2 where e2: "map_of base0 a = Some e2" "stays revision (po_retention opts) batch a e2"
        "e1 = age_entry revision (map_of (wb_accesses batch) a) e2"
        unfolding e0 retained_get(2) [OF base_entries_sound(1) [OF sound base]]
        by (auto split: option.splits if_splits)
      have "stored_item inflate fs0 root e1 = stored_item inflate fs0 root e2"
        by (rule stored_item_cong) (simp_all add: e2(3))
      with e2(1,2) none show ?thesis by (simp add: published_item_def goes_on_def)
    qed
    ultimately show ?thesis by simp
  qed
  with re r show ?thesis by auto
next
  case False
  then have "a \<notin> sg_address ` set (concat packs)" using staged(2) by auto
  moreover have "take (length packs) packs = packs" by simp
  ultimately have m: "map_of entries0 a = Some e" using p mem unfolding packed_def by metis
  have none: "map_of (wb_items batch) a = None"
  proof (rule ccontr)
    assume "map_of (wb_items batch) a \<noteq> None"
    then obtain pd where "(a, pd) \<in> set (wb_items batch)" by (auto dest: map_of_SomeD)
    then obtain item where "item \<in> set staged" "staged_pending (a, pd) item" using staged(1) unfolding staged_ok_def by blast
    with False show False by (auto simp: staged_pending_def)
  qed
  then have na: "a \<notin> set (map fst (wb_items batch))" by (simp add: map_of_eq_None_iff)
  from m na obtain e2 where e2: "map_of base0 a = Some e2" "stays revision (po_retention opts) batch a e2"
    "e = age_entry revision (map_of (wb_accesses batch) a) e2"
    unfolding e0 retained_get(2) [OF base_entries_sound(1) [OF sound base]]
    by (auto split: option.splits if_splits)
  from m have mem0: "index_entry_ok revision e" "pack_file_of (pi_revision current) (cr_file (ie_content e))"
    using retained_mem [OF sound base batch rev(1), of "po_retention opts" a e] e0 by auto
  have k: "kept root revision fs0 fs" using p by (simp add: packed_def)
  have "stored_item inflate fs root e = stored_item inflate fs0 root e"
    using kept_content [OF k mem0(2)] rev by (simp add: stored_item_def)
  also have "\<dots> = stored_item inflate fs0 root e2" by (rule stored_item_cong) (simp_all add: e2(3))
  finally have "stored_item inflate fs root e = published_item inflate fs0 root revision (po_retention opts) batch base0 a"
    using e2 none by (simp add: published_item_def)
  moreover have "goes_on revision (po_retention opts) batch base0 a" using e2 by (simp add: goes_on_def)
  ultimately show ?thesis using mem0 m by blast
qed


lemma packed_none:
  assumes sound: "index_sound current" and base: "base_entries base current = Inr base0"
    and e0: "entries0 = retained_entries revision (po_retention opts) batch base0"
    and staged: "staged_ok inflate fs0 root entries0 batch staged" "set (concat packs) = set staged"
    and max: "\<forall>pack \<in> set packs. frames_length pack \<le> max_content_bytes"
    and p: "packed inflate root opts revision packs entries0 fs0 (length packs) entries fs"
    and none: "map_of entries a = None"
  shows "published_item inflate fs0 root revision (po_retention opts) batch base0 a = None"
proof -
  have notin: "a \<notin> sg_address ` set staged"
  proof
    assume "a \<in> sg_address ` set staged"
    then obtain item where "item \<in> set (concat packs)" "sg_address item = a" unfolding staged(2) by blast
    with placed_content [OF p max this(1)] none show False by auto
  qed
  then have "a \<notin> sg_address ` set (concat packs)" using staged(2) by auto
  moreover have "take (length packs) packs = packs" by simp
  ultimately have m: "map_of entries0 a = None" using p none unfolding packed_def by metis
  have na: "a \<notin> set (map fst (wb_items batch))"
  proof
    assume "a \<in> set (map fst (wb_items batch))"
    then obtain pd where "(a, pd) \<in> set (wb_items batch)" by auto
    then obtain item where "item \<in> set staged" "staged_pending (a, pd) item" using staged(1) unfolding staged_ok_def by blast
    with notin show False by (auto simp: staged_pending_def)
  qed
  then have "map_of (wb_items batch) a = None" by (simp add: map_of_eq_None_iff)
  with m na show ?thesis
    unfolding e0 retained_get(2) [OF base_entries_sound(1) [OF sound base]]
    by (auto simp: published_item_def split: option.splits if_splits)
qed

lemma packed_result:
  assumes sound: "index_sound current" and base: "base_entries base current = Inr base0" and batch: "batch_ok batch"
    and rev: "revision = pi_revision current + 1" "revision \<le> u64_max"
    and now: "rt_now (po_retention opts) \<le> u64_max" and guard: "opt_ok guard_ok guard"
    and e0: "entries0 = retained_entries revision (po_retention opts) batch base0"
    and staged: "staged_ok inflate fs0 root entries0 batch staged" "set (concat packs) = set staged"
    and max: "\<forall>pack \<in> set packs. frames_length pack \<le> max_content_bytes"
    and p: "packed inflate root opts revision packs entries0 fs0 (length packs) entries fs"
    and i: "i = \<lparr>pi_revision = revision, pi_guard = guard, pi_entries = entries\<rparr>"
  shows "index_sound i" and "stored inflate fs root i = published_item inflate fs0 root revision (po_retention opts) batch base0"
    and "\<forall>(a, e) \<in> set (pi_entries i). goes_on revision (po_retention opts) batch base0 a"
proof -
  note entry = packed_entry [OF sound base batch rev now e0 staged max p]
  have ok: "btree_ok entries" using p by (simp add: packed_def)
  have get: "map_of entries a = Some e" if "(a, e) \<in> set entries" for a e
    using that ok by (simp add: map_of_is_SomeI btree_ok_distinct)
  have new_file: "pack_file_of revision (pack_path revision k n j)" for k n j
    by (auto simp: pack_file_of_def pack_path_def)
  have old_file: "pack_file_of (pi_revision current) f \<Longrightarrow> pack_file_of revision f" for f
    unfolding pack_file_of_def rev(1) using trans_le_add1 by blast
  have files: "pack_file_of revision (cr_file (ie_content e))" if "(a, e) \<in> set entries" for a e
    using entry [OF get [OF that]] new_file old_file by auto
  have differ: "\<not> pack_file_of (pi_revision current) (pack_path revision k n j)" for k n j
    using pack_file_not_fresh [of "pi_revision current" "pack_path revision k n j" revision root] fresh_pack rev by auto
  have coherent0: "coherent entries0"
    unfolding e0 by (rule retained_coherent [OF base_entries_sound(2,1) [OF sound base]])
  have "coherent entries"
    unfolding coherent_def
  proof (clarify, goal_cases)
    case (1 n1 d1 e n2 d2 e')
    note e1 = entry [OF get [OF 1(1)]] and e2 = entry [OF get [OF 1(2)]]
    show ?case
    proof (cases "pack_file_of (pi_revision current) (cr_file (ie_content e))")
      case True
      with e1 e2 differ 1(3) have "((n1, d1), e) \<in> set entries0" "((n2, d2), e') \<in> set entries0"
        by (auto dest!: map_of_SomeD)
      with coherent0 1(3) show ?thesis unfolding coherent_def by fast
    next
      case False
      with e1 obtain j where j: "j < length packs" "cr_file (ie_content e) = pack_path revision (po_compression opts) (length packs) j"
        "cr_pack_size (ie_content e) = length (pack_bytes (packs ! j))" "cr_compression (ie_content e) = po_compression opts" by blast
      from False e2 1(3) obtain j' where j': "j' < length packs" "cr_file (ie_content e') = pack_path revision (po_compression opts) (length packs) j'"
        "cr_pack_size (ie_content e') = length (pack_bytes (packs ! j'))" "cr_compression (ie_content e') = po_compression opts" by auto
      have "path_join root (pack_path revision (po_compression opts) (length packs) j) =
          path_join root (pack_path revision (po_compression opts) (length packs) j')" using j(2) j'(2) 1(3) by simp
      then have "j = j'" using pack_path_inject j(1) j'(1) by blast
      with j j' show ?thesis by simp
    qed
  qed
  moreover have "index_ok i"
    using ok guard rev(2) entry [OF get] unfolding index_ok_def i by auto
  ultimately show "index_sound i" using files unfolding index_sound_def i by auto
  show "\<forall>(a, e) \<in> set (pi_entries i). goes_on revision (po_retention opts) batch base0 a"
    using entry [OF get] unfolding i by auto
  show "stored inflate fs root i = published_item inflate fs0 root revision (po_retention opts) batch base0"
  proof
    fix a
    show "stored inflate fs root i a = published_item inflate fs0 root revision (po_retention opts) batch base0 a"
    proof (cases "map_of entries a")
      case None
      with packed_none [OF sound base e0 staged max p None] show ?thesis by (simp add: stored_def i)
    next
      case (Some e)
      with entry [OF Some] show ?thesis by (simp add: stored_def i)
    qed
  qed
qed


section \<open>Replacing the index\<close>

definition holds :: "inflate \<Rightarrow> path \<Rightarrow> pack_index \<Rightarrow> (address \<Rightarrow> (bytes option \<times> bytes \<times> bytes \<times> bytes) option) \<Rightarrow> files \<Rightarrow> bool" where
  "holds inflate root i view fs \<longleftrightarrow> current_index fs root = i \<and> stored inflate fs root i = view"

lemma stored_cong:
  assumes "\<And>a e. (a, e) \<in> set (pi_entries i) \<Longrightarrow>
      fs (path_join root (cr_file (ie_content e))) = fs' (path_join root (cr_file (ie_content e)))"
  shows "stored inflate fs root i = stored inflate fs' root i"
proof
  fix a
  show "stored inflate fs root i a = stored inflate fs' root i a"
  proof (cases "map_of (pi_entries i) a")
    case (Some e)
    then have "content_at inflate fs root (ie_content e) = content_at inflate fs' root (ie_content e)"
      by (intro content_at_cong assms) (auto dest: map_of_SomeD)
    with Some show ?thesis by (simp add: stored_def stored_item_def)
  qed (simp add: stored_def)
qed

lemma pack_file_not_index: "pack_file_of q f \<Longrightarrow> path_join root f \<noteq> index_path root"
  by (auto simp: pack_file_of_def index_path_def)

lemma pack_file_join_inject:
  "pack_file_of q f \<Longrightarrow> pack_file_of q' g \<Longrightarrow> path_join root f = path_join root g \<longleftrightarrow> f = g"
  by (auto simp: pack_file_of_def)

lemma holds_remove:
  assumes "holds inflate root i view fs" "index_sound i" "pack_file_of q f"
    and "f \<notin> set (referenced_files (pi_entries i))"
  shows "holds inflate root i view (fs(path_join root f := None))"
proof -
  have "path_join root (cr_file (ie_content e)) \<noteq> path_join root f" if "(a, e) \<in> set (pi_entries i)" for a e
  proof -
    have "pack_file_of (pi_revision i) (cr_file (ie_content e))" using assms(2) that by (auto simp: index_sound_def)
    moreover have "cr_file (ie_content e) \<noteq> f" using assms(4) that by (force simp: referenced_files_def)
    ultimately show ?thesis using pack_file_join_inject assms(3) by blast
  qed
  then have "stored inflate (fs(path_join root f := None)) root i = stored inflate fs root i"
    by (intro stored_cong) auto
  moreover have "index_path root \<noteq> path_join root f" using pack_file_not_index [OF assms(3)] by metis
  then have "current_index (fs(path_join root f := None)) root = current_index fs root"
    by (simp add: current_index_def read_bounded_def)
  ultimately show ?thesis using assms(1) by (simp add: holds_def)
qed

lemma leads_remove_stale:
  assumes "index_sound i" and "\<And>f. f \<in> set stale \<Longrightarrow> pack_file_of q f \<and> f \<notin> set (referenced_files (pi_entries i))"
  shows "leads (holds inflate root i view) (remove_stale root stale) (\<lambda>_. holds inflate root i view) (holds inflate root i view)"
  unfolding remove_stale_def
proof (rule leads_then)
  let ?S = "holds inflate root i view"
  let ?f = "\<lambda>file removed. and_then (attempt (remove_file (path_join root file)))
      (\<lambda>r. ret (removed \<or> (case r of Inr _ \<Rightarrow> True | Inl _ \<Rightarrow> False)))"
  show "leads ?S (fold_effect ?f stale False) (\<lambda>_. ?S) ?S"
  proof (rule leads_fold [where I = "\<lambda>_ _. ?S"], rule leads_then)
    fix j and removed :: bool
    assume j: "j < length stale"
    show "leads ?S (attempt (remove_file (path_join root (stale ! j)))) (\<lambda>_. ?S) ?S"
    proof (rule leads_weaken [OF leads_attempt [OF leads_remove [where P = ?S and E = ?S]]])
      fix x :: "io_error + unit" and fs
      assume "case x of Inr x \<Rightarrow> \<exists>fs'. ?S fs' \<and> fs = fs'(path_join root (stale ! j) := None) | Inl _ \<Rightarrow> ?S fs"
      with holds_remove [OF _ assms(1)] assms(2) [of "stale ! j"] j show "?S fs"
        by (auto split: sum.splits)
    qed auto
    show "leads ?S (ret (removed \<or> (case r of Inr _ \<Rightarrow> True | Inl _ \<Rightarrow> False))) (\<lambda>_. ?S) ?S" for r :: "io_error + unit"
      by (rule leads_ret)
  qed
  show "leads ?S (if removed then and_then (attempt directory_call) (\<lambda>_. ret ()) else ret ()) (\<lambda>_. ?S) ?S" for removed
  proof (cases removed)
    case True
    have "leads ?S (attempt directory_call) (\<lambda>_. ?S) ?S"
      by (rule leads_weaken [OF leads_attempt [OF leads_directory [where P = ?S and E = ?S]]]) (auto split: sum.splits)
    then show ?thesis using True by (auto intro: leads_then leads_ret)
  qed (auto intro: leads_ret)
qed

lemma index_bytes_read:
  assumes "index_sound i" "encode_index i = Inr bs" "fs (index_path root) = Some bs"
  shows "current_index fs root = i"
proof -
  have "length bs \<le> max_index_bytes"
    using assms(2) by (auto simp: encode_index_def encode_frame_def split: sum.splits if_splits)
  moreover have "decode_index bs = Some i"
    using assms(1,2) index_sound_named by (intro decode_encode_index) (auto simp: index_sound_def)
  ultimately show ?thesis using assms(3) by (simp add: current_index_def read_bounded_def)
qed

lemma leads_commit:
  assumes P: "\<And>fs. P fs \<Longrightarrow> kept root (pi_revision i) fs0 fs \<and> G \<and> index_sound i \<and> stored inflate fs root i = view"
    and previous: "\<And>f. f \<in> set previous \<Longrightarrow> pack_file_of q f"
  shows "leads P (commit_index root fault i previous) (\<lambda>_ fs. (G \<and> index_sound i) \<and> holds inflate root i view fs)
    (\<lambda>fs. kept root (pi_revision i) fs0 fs \<or> (G \<and> index_sound i) \<and> holds inflate root i view fs)"
proof (cases "G \<and> index_sound i")
  case False
  then have "\<not> P fs" for fs using P by blast
  then show ?thesis by (simp add: leads_def)
next
  case G: True
  then have True: "index_sound i" by blast
  let ?E = "\<lambda>fs. kept root (pi_revision i) fs0 fs \<or> (G \<and> index_sound i) \<and> holds inflate root i view fs"
  let ?S = "holds inflate root i view"
  let ?tmp = "path_join root [Normal (''.index.pack-'' @ hex_padded 16 (pi_revision i) @ ''.tmp'')]"
  have ft: "fresh root (pi_revision i) ?tmp" by (auto simp: fresh_def)
  have kept: "P fs \<Longrightarrow> kept root (pi_revision i) fs0 fs" for fs using P by blast
  let ?Q = "\<lambda>bs fs. \<exists>fs'. (encode_index i = Inr bs \<and> P fs') \<and> fs = fs'(?tmp \<mapsto> bs)"
  have Q: "?Q bs fs \<Longrightarrow> kept root (pi_revision i) fs0 fs \<and> kept root (pi_revision i) fs0 (fs(?tmp := None))" for bs fs
    using kept kept_upd ft by blast
  have stale: "leads ?S (remove_stale root (filter (\<lambda>file. file \<notin> set (referenced_files (pi_entries i))) previous))
      (\<lambda>_ fs. (G \<and> index_sound i) \<and> ?S fs) ?E"
    by (rule leads_weaken [OF leads_remove_stale [OF True, where q = q]]) (use previous G in auto)
  show ?thesis
    unfolding commit_index_def Let_def
  proof (intro leads_then)
    show "leads P (lift_result (encode_index i)) (\<lambda>bs fs. encode_index i = Inr bs \<and> P fs) ?E"
      by (rule leads_lift) (auto dest: kept)
    fix bs
    show "leads (\<lambda>fs. encode_index i = Inr bs \<and> P fs) (write_synced ?tmp bs) (\<lambda>_. ?Q bs) ?E"
      by (rule leads_write) (use kept_partly [OF kept ft] in blast)
    show "leads (?Q bs) (if fault = BeforeIndexReplace
        then and_then (attempt (remove_file ?tmp)) (\<lambda>_. raise (injected_publish_error ''before index replacement'')) else ret ()) (\<lambda>_. ?Q bs) ?E"
    proof (cases "fault = BeforeIndexReplace")
      case True
      have "leads (?Q bs) (attempt (remove_file ?tmp)) (\<lambda>_. kept root (pi_revision i) fs0) ?E"
        by (rule leads_weaken [OF leads_attempt [OF leads_remove [where P = "?Q bs" and E = "?Q bs"], where E = "?Q bs"]])
          (use Q in \<open>auto split: sum.splits\<close>)
      then show ?thesis using True by (auto intro: leads_then leads_raise)
    qed (auto intro: leads_ret)
    show "leads (?Q bs) (rename_or_remove ?tmp (index_path root))
        (\<lambda>_ fs. \<exists>fs' bs'. ?Q bs fs' \<and> fs' ?tmp = Some bs' \<and> fs = fs'(?tmp := None, index_path root \<mapsto> bs')) ?E"
      by (rule leads_rename_or_remove) (use Q in blast)+
    show "leads (\<lambda>fs. \<exists>fs' bs'. ?Q bs fs' \<and> fs' ?tmp = Some bs' \<and> fs = fs'(?tmp := None, index_path root \<mapsto> bs'))
        directory_call (\<lambda>_. ?S) ?E"
    proof (rule leads_weaken [OF leads_directory [where P = ?S and E = ?S]])
      fix fs
      assume "\<exists>fs' bs'. ?Q bs fs' \<and> fs' ?tmp = Some bs' \<and> fs = fs'(?tmp := None, index_path root \<mapsto> bs')"
      then obtain fs' where e: "encode_index i = Inr bs" and fs': "P fs'" and fs: "fs = fs'(?tmp := None, index_path root \<mapsto> bs)"
        by auto
      have "path_join root (cr_file (ie_content e)) \<noteq> ?tmp \<and> path_join root (cr_file (ie_content e)) \<noteq> index_path root"
        if "(a, e) \<in> set (pi_entries i)" for a e
        using that True by (auto simp: index_sound_def pack_file_of_def index_path_def)
      then have "stored inflate fs root i = stored inflate fs' root i" unfolding fs by (intro stored_cong) auto
      moreover have "current_index fs root = i" by (rule index_bytes_read [OF True e]) (simp add: fs)
      ultimately show "?S fs" using P [OF fs'] by (simp add: holds_def)
    qed (use G in auto)
  qed (rule stale)
qed


section \<open>Publication\<close>

lemma leads_packs:
  assumes sound: "index_sound current" and base: "base_entries base current = Inr base0" and batch: "batch_ok batch"
    and rev: "revision = pi_revision current + 1" "revision \<le> u64_max"
    and now: "rt_now (po_retention opts) \<le> u64_max" and guard: "opt_ok guard_ok guard"
    and e0: "entries0 = retained_entries revision (po_retention opts) batch base0"
    and staged: "staged_ok inflate fs0 root entries0 batch staged" and inflates: "inflates inflate deflate"
  shows "leads (\<lambda>fs. fs = fs0)
    (publish_packs deflate root guard opts fault revision entries0 (referenced_files (pi_entries current)) staged)
    (\<lambda>_ fs. \<exists>i. index_sound i \<and> pi_revision i = revision \<and> pi_guard i = guard \<and>
       (\<forall>(a, e) \<in> set (pi_entries i). goes_on revision (po_retention opts) batch base0 a) \<and>
       holds inflate root i (published_item inflate fs0 root revision (po_retention opts) batch base0) fs)
    (\<lambda>fs. kept root revision fs0 fs \<or> (\<exists>i. index_sound i \<and> pi_revision i = revision \<and> pi_guard i = guard \<and>
       (\<forall>(a, e) \<in> set (pi_entries i). goes_on revision (po_retention opts) batch base0 a) \<and>
       holds inflate root i (published_item inflate fs0 root revision (po_retention opts) batch base0) fs))"
proof -
  let ?view = "published_item inflate fs0 root revision (po_retention opts) batch base0"
  let ?Q = "\<lambda>fs. \<exists>i. index_sound i \<and> pi_revision i = revision \<and> pi_guard i = guard \<and>
       (\<forall>(a, e) \<in> set (pi_entries i). goes_on revision (po_retention opts) batch base0 a) \<and> holds inflate root i ?view fs"
  let ?E = "\<lambda>fs. kept root revision fs0 fs \<or> ?Q fs"
  have start: "leads (\<lambda>fs. fs = fs0) directory_call (\<lambda>_ fs. fs = fs0) ?E"
    by (rule leads_directory) (simp add: kept_refl)
  show ?thesis
    unfolding publish_packs_def
  proof (rule leads_then [OF start], rule leads_then [OF start], rule leads_then)
    let ?assemble = "assemble_packs (mt_target_content_bytes (po_maintenance opts)) staged"
    show "leads (\<lambda>fs. fs = fs0) (lift_result ?assemble) (\<lambda>packs fs. ?assemble = Inr packs \<and> fs = fs0) ?E"
      by (rule leads_lift) (simp_all add: kept_refl)
    fix packs
    let ?I = "packed inflate root opts revision packs entries0 fs0"
    let ?filled = "fold_effect (write_pack deflate root revision opts (length packs)) (enumerate 0 packs) entries0"
    show "leads (\<lambda>fs. ?assemble = Inr packs \<and> fs = fs0) (and_then ?filled (\<lambda>entries.
        and_then (if 0 < length packs then directory_call else ret ()) (\<lambda>_.
        and_then (if fault = AfterContentCommit then raise (injected_publish_error ''after content commit'') else ret ()) (\<lambda>_.
        commit_index root fault \<lparr>pi_revision = revision, pi_guard = guard, pi_entries = entries\<rparr>
          (referenced_files (pi_entries current)))))) (\<lambda>_. ?Q) ?E"
    proof (cases "?assemble = Inr packs")
      case False
      then show ?thesis by (simp add: leads_def)
    next
      case True
      note packs = assemble_packs_ok [OF True]
      have set: "set (concat packs) = set staged" unfolding packs(1) by simp
      have dist: "distinct (map sg_address (concat packs))"
      proof -
        have "mset (map sg_address (concat packs)) = mset (map sg_address staged)" unfolding packs(1) by simp
        with staged show ?thesis unfolding staged_ok_def by (metis mset_eq_imp_distinct_iff)
      qed
      have max: "\<forall>pack \<in> set packs. frames_length pack \<le> max_content_bytes" using packs(2) by simp
      have ok0: "btree_ok entries0" unfolding e0 by (rule retained_get(1) [OF base_entries_sound(1) [OF sound base]])
      have kept: "?I j s fs \<Longrightarrow> kept root revision fs0 fs" for j s fs by (simp add: packed_def)
      have "leads (?I 0 entries0) ?filled (?I (length (enumerate 0 packs))) (kept root revision fs0)"
      proof (rule leads_fold)
        fix j s
        assume j: "j < length (enumerate 0 packs)"
        with write_pack_leads [of j packs inflate deflate root opts revision entries0 fs0 s] dist max inflates
        show "leads (?I j s) (write_pack deflate root revision opts (length packs) (enumerate 0 packs ! j) s) (?I (Suc j))
            (kept root revision fs0)" by (simp add: nth_enumerate_eq)
      qed
      then have written: "leads (\<lambda>fs. ?assemble = Inr packs \<and> fs = fs0) ?filled (?I (length packs)) ?E"
        by (rule leads_weaken) (simp_all add: packed_def kept_refl ok0)
      show ?thesis
      proof (rule leads_then [OF written])
        fix entries
        have dir: "leads (?I (length packs) entries) (if 0 < length packs then directory_call else ret ())
            (\<lambda>_. ?I (length packs) entries) ?E"
          by (auto intro!: leads_directory leads_ret dest: kept)
        have fault: "leads (?I (length packs) entries)
            (if fault = AfterContentCommit then raise (injected_publish_error ''after content commit'') else ret ())
            (\<lambda>_. ?I (length packs) entries) ?E"
          by (auto intro!: leads_raise leads_ret dest: kept)
        let ?i = "\<lparr>pi_revision = revision, pi_guard = guard, pi_entries = entries\<rparr>"
        have "leads (?I (length packs) entries) (commit_index root fault ?i (referenced_files (pi_entries current)))
            (\<lambda>_ fs. ((\<forall>(a, e) \<in> set entries. goes_on revision (po_retention opts) batch base0 a) \<and> index_sound ?i) \<and>
              holds inflate root ?i ?view fs)
            (\<lambda>fs. kept root (pi_revision ?i) fs0 fs \<or>
              ((\<forall>(a, e) \<in> set entries. goes_on revision (po_retention opts) batch base0 a) \<and> index_sound ?i) \<and>
              holds inflate root ?i ?view fs)"
        proof (rule leads_commit)
          show "kept root (pi_revision ?i) fs0 fs \<and>
              (\<forall>(a, e) \<in> set entries. goes_on revision (po_retention opts) batch base0 a) \<and> index_sound ?i \<and> stored inflate fs root ?i = ?view"
            if "?I (length packs) entries fs" for fs
            using packed_result [OF sound base batch rev now guard e0 staged set max that refl] kept [OF that] by simp
          show "pack_file_of (pi_revision current) f" if "f \<in> set (referenced_files (pi_entries current))" for f
            using that sound by (auto simp: referenced_files_def index_sound_def)
        qed
        then have "leads (?I (length packs) entries) (commit_index root fault ?i (referenced_files (pi_entries current))) (\<lambda>_. ?Q) ?E"
        proof (rule leads_weaken)
          have "?Q fs" if "((\<forall>(a, e) \<in> set entries. goes_on revision (po_retention opts) batch base0 a) \<and> index_sound ?i) \<and>
              holds inflate root ?i ?view fs" for fs
            using that by (intro exI [of _ ?i]) simp
          then show "((\<forall>(a, e) \<in> set entries. goes_on revision (po_retention opts) batch base0 a) \<and> index_sound ?i) \<and>
              holds inflate root ?i ?view fs \<Longrightarrow> ?Q fs" for fs .
          then show "kept root (pi_revision ?i) fs0 fs \<or>
              ((\<forall>(a, e) \<in> set entries. goes_on revision (po_retention opts) batch base0 a) \<and> index_sound ?i) \<and>
              holds inflate root ?i ?view fs \<Longrightarrow> ?E fs" for fs by auto
        qed
        from leads_then [OF dir leads_then [OF fault this]]
        show "leads (?I (length packs) entries) (and_then (if 0 < length packs then directory_call else ret ()) (\<lambda>_.
            and_then (if fault = AfterContentCommit then raise (injected_publish_error ''after content commit'') else ret ()) (\<lambda>_.
            commit_index root fault ?i (referenced_files (pi_entries current))))) (\<lambda>_. ?Q) ?E" .
      qed
    qed
  qed
qed

text \<open>
  The state of the cache after a publication, whatever the fates of its calls: as before, or as published
  over the index that the publication read.
\<close>

definition unchanged :: "inflate \<Rightarrow> path \<Rightarrow> files \<Rightarrow> files \<Rightarrow> bool" where
  "unchanged inflate root fs0 fs \<longleftrightarrow> current_index fs root = current_index fs0 root \<and>
     stored inflate fs root (current_index fs root) = stored inflate fs0 root (current_index fs0 root)"

definition published_over ::
    "inflate \<Rightarrow> path \<Rightarrow> pack_guard option \<Rightarrow> publication_base \<Rightarrow> write_batch \<Rightarrow> publication_options \<Rightarrow> pack_index \<Rightarrow>
     files \<Rightarrow> files \<Rightarrow> bool" where
  "published_over inflate root guard base batch opts old fs0 fs \<longleftrightarrow>
     (let new = current_index fs root
      in index_sound new \<and> pi_revision new = pi_revision old + 1 \<and> pi_guard new = guard \<and>
         (\<exists>base0. base_entries base old = Inr base0 \<and>
            (\<forall>(a, e) \<in> set (pi_entries new). goes_on (pi_revision new) (po_retention opts) batch base0 a) \<and>
            stored inflate fs root new =
              published_item inflate fs0 root (pi_revision new) (po_retention opts) batch base0))"

abbreviation published ::
    "inflate \<Rightarrow> path \<Rightarrow> pack_guard option \<Rightarrow> publication_base \<Rightarrow> write_batch \<Rightarrow> publication_options \<Rightarrow> files \<Rightarrow> files \<Rightarrow> bool" where
  "published inflate root guard base batch opts fs0 \<equiv>
     published_over inflate root guard base batch opts (current_index fs0 root) fs0"

lemma kept_unchanged:
  assumes "index_sound (current_index fs0 root)" "kept root (pi_revision (current_index fs0 root) + 1) fs0 fs"
    and "pi_revision (current_index fs0 root) + 1 \<le> u64_max"
  shows "unchanged inflate root fs0 fs"
  using kept_index [OF assms(2)] kept_stored [OF assms(2,1) _ assms(3)] by (simp add: unchanged_def)

lemma leads_publish_over:
  assumes sound: "index_sound current" and batch: "batch_ok batch" and inflates: "inflates inflate deflate"
    and now: "rt_now (po_retention opts) \<le> u64_max" and guard: "opt_ok guard_ok guard"
  shows "leads (\<lambda>fs. fs = fs0) (publish_over inflate deflate root guard base batch opts fault current)
    (\<lambda>_ fs. published_over inflate root guard base batch opts current fs0 fs)
    (\<lambda>fs. fs = fs0 \<or> pi_revision current + 1 \<le> u64_max \<and> kept root (pi_revision current + 1) fs0 fs \<or>
       published_over inflate root guard base batch opts current fs0 fs)"
  unfolding publish_over_def Let_def
proof (rule leads_then)
  let ?revision = "pi_revision current + 1"
  let ?Q = "published_over inflate root guard base batch opts current fs0"
  let ?E = "\<lambda>fs. fs = fs0 \<or> ?revision \<le> u64_max \<and> kept root ?revision fs0 fs \<or> ?Q fs"
  show "leads (\<lambda>fs. fs = fs0) (lift_result (base_entries base current))
      (\<lambda>base0 fs. fs = fs0 \<and> base_entries base current = Inr base0) ?E"
    by (rule leads_lift) simp_all
  fix base0
  let ?entries = "retained_entries ?revision (po_retention opts) batch base0"
  let ?sources = "maintenance_sources (po_maintenance opts) (entries_by_content_file batch ?entries)"
  let ?packs = "publish_packs deflate root guard opts fault ?revision ?entries (referenced_files (pi_entries current))"
  have "leads (\<lambda>fs. fs = fs0) (and_then (stage_items inflate root ?sources batch) ?packs) (\<lambda>_. ?Q) ?E"
    if base: "base_entries base current = Inr base0" and rev: "?revision \<le> u64_max"
  proof (rule leads_then)
    note entries = base_entries_sound(1,2) [OF sound base]
    show "leads (\<lambda>fs. fs = fs0) (stage_items inflate root ?sources batch)
        (\<lambda>staged fs. fs = fs0 \<and> staged_ok inflate fs0 root ?entries batch staged) ?E"
      by (rule leads_weaken [OF leads_stage_items [OF retained_coherent [OF entries(2,1)] retained_get(1) [OF entries(1)]]])
        (use batch in \<open>auto simp: batch_ok_def\<close>)
    show "leads (\<lambda>fs. fs = fs0 \<and> staged_ok inflate fs0 root ?entries batch staged) (?packs staged) (\<lambda>_. ?Q) ?E" for staged
    proof (cases "staged_ok inflate fs0 root ?entries batch staged")
      case True
      have p: "?Q fs"
        if "\<exists>i. index_sound i \<and> pi_revision i = ?revision \<and> pi_guard i = guard \<and>
          (\<forall>(a, e) \<in> set (pi_entries i). goes_on ?revision (po_retention opts) batch base0 a) \<and>
          holds inflate root i (published_item inflate fs0 root ?revision (po_retention opts) batch base0) fs" for fs
        using that base by (auto simp: published_over_def holds_def Let_def)
      show ?thesis
        by (rule leads_weaken [OF leads_packs [OF sound base batch refl rev now guard refl True inflates]])
          (use p rev in blast)+
    qed (simp add: leads_def)
  qed
  then show "leads (\<lambda>fs. fs = fs0 \<and> base_entries base current = Inr base0)
      (if u64_max < ?revision then raise (invalid_data ''PackFile revision overflow'')
       else and_then (stage_items inflate root ?sources batch) ?packs) (\<lambda>_. ?Q) ?E"
    by (cases "base_entries base current = Inr base0"; cases "u64_max < ?revision")
      (auto simp: not_less intro: leads_raise, auto simp: leads_def)
qed

text \<open>What a publication does when it gets past its first call, which reads the index.\<close>

definition seen_index :: "path \<Rightarrow> publication_base \<Rightarrow> disk \<Rightarrow> pack_index" where
  "seen_index root base d = (if index_is_seen root base d then current_index (dk_files d) root else empty_index)"

lemma publish_seen:
  assumes run: "publish_batch inflate deflate root guard base batch opts fault d = (r, d')"
  obtains "r \<noteq> Returns ()" and "dk_files d' = dk_files d"
  | d1 where "dk_files d1 = dk_files d"
      and "publish_over inflate deflate root guard base batch opts fault (seen_index root base d) d1 = (r, d')"
proof -
  let ?over = "publish_over inflate deflate root guard base batch opts fault"
  have missing: "current_index ((dk_files d)(index_path root := None)) root = empty_index"
    by (simp add: current_index_def read_bounded_def)
  consider (bad) "r \<noteq> Returns ()" "d' = d"
    | (read) q d1 where "read_files (index_path root) d = (q, d1)"
        "(case q of Returns fs \<Rightarrow> ?over (current_index fs root) d1 | Raises e \<Rightarrow> (Raises e, d1) | Halts \<Rightarrow> (Halts, d1)) = (r, d')"
    using run by (auto simp: publish_batch_def raise_def and_then_def split: if_splits prod.splits outcome.splits)
  then show thesis
  proof cases
    case read
    show thesis
    proof (cases "dk_fates d")
      case Nil
      with read show thesis by (auto simp: read_files_def seen_index_def index_is_seen_def intro: that(2))
    next
      case (Cons f fates)
      show thesis
      proof (cases f)
        case (Fails e n)
        with read Cons missing have q: "?over empty_index (d\<lparr>dk_fates := fates\<rparr>) = (r, d')" by (auto simp: read_files_def)
        show thesis
        proof (cases "seen_index root base d = empty_index")
          case True
          with q show thesis by (intro that(2) [of "d\<lparr>dk_fates := fates\<rparr>"]) simp_all
        next
          case False
          then have "index_is_seen root base d" by (simp add: seen_index_def split: if_splits)
          with False have "\<exists>revision. base = PreserveEntries (Suc revision)"
            using Cons Fails by (simp add: seen_index_def) (simp add: index_is_seen_def)
          with q show thesis
            by (intro that(1)) (auto simp: publish_over_def Let_def base_entries_def empty_index_def and_then_def raise_def)
        qed
      next
        case Succeeds
        with read Cons show thesis
          by (intro that(2) [of "d\<lparr>dk_fates := fates\<rparr>"]) (auto simp: read_files_def seen_index_def index_is_seen_def)
      next
        case (Stops n)
        with read Cons show thesis by (intro that(1)) (auto simp: read_files_def)
      qed
    qed
  qed (use that(1) in simp)
qed

lemma publish_over_run:
  assumes "publish_over inflate deflate root guard base batch opts fault current d1 = (r, d')" and d1: "dk_files d1 = fs0"
    and "index_sound current" "batch_ok batch" "inflates inflate deflate" "rt_now (po_retention opts) \<le> u64_max" "opt_ok guard_ok guard"
  shows "published_over inflate root guard base batch opts current fs0 (dk_files d') \<or> r \<noteq> Returns () \<and>
    (dk_files d' = fs0 \<or> pi_revision current + 1 \<le> u64_max \<and> kept root (pi_revision current + 1) fs0 (dk_files d'))"
  using leads_publish_over [OF assms(3-7), of fs0 root base fault, unfolded leads_def, THEN spec, of d1, THEN mp, OF d1]
  unfolding assms(1) prod.case by (auto split: outcome.splits)

lemma publish_outcome:
  assumes sound: "index_sound (current_index (dk_files d) root)" and batch: "batch_ok batch"
    and inflates: "inflates inflate deflate"
    and now: "rt_now (po_retention opts) \<le> u64_max" and guard: "opt_ok guard_ok guard"
    and run: "publish_batch inflate deflate root guard base batch opts fault d = (r, d')"
  shows "r = Returns () \<Longrightarrow>
      published_over inflate root guard base batch opts (seen_index root base d) (dk_files d) (dk_files d')"
    and "index_is_seen root base d \<Longrightarrow> r \<noteq> Returns () \<and> unchanged inflate root (dk_files d) (dk_files d') \<or>
      published inflate root guard base batch opts (dk_files d) (dk_files d')"
proof -
  let ?seen = "seen_index root base d"
  have s: "index_sound ?seen" using sound empty_index_sound by (simp add: seen_index_def)
  consider "r \<noteq> Returns ()" "dk_files d' = dk_files d"
    | "published_over inflate root guard base batch opts ?seen (dk_files d) (dk_files d')"
    | "r \<noteq> Returns ()" "pi_revision ?seen + 1 \<le> u64_max" "kept root (pi_revision ?seen + 1) (dk_files d) (dk_files d')"
    by (rule publish_seen [OF run]) (use publish_over_run [OF _ _ s batch inflates now guard] in blast)+
  note outcome = this
  show "published_over inflate root guard base batch opts ?seen (dk_files d) (dk_files d')" if "r = Returns ()"
    using outcome that by cases simp_all
  show "r \<noteq> Returns () \<and> unchanged inflate root (dk_files d) (dk_files d') \<or>
      published inflate root guard base batch opts (dk_files d) (dk_files d')" if seen: "index_is_seen root base d"
    using outcome
  proof cases
    case 1
    then show ?thesis by (simp add: unchanged_def)
  next
    case 2
    with seen show ?thesis by (simp add: seen_index_def)
  next
    case 3
    with seen kept_unchanged [OF sound] show ?thesis by (simp add: seen_index_def)
  qed
qed

end
