(* ===== verification/Pack_Cache.thy ===== *)
theory Pack_Cache
  imports Publish_Correct
begin

text \<open>
  The pack cache over its life: any sequence of publications, with failures and interruptions, keeps a
  sound index whose entries can all be read; and an item that was published is restored.
\<close>

section \<open>Batches\<close>

lemma map_of_btree_set: "btree_ok t \<Longrightarrow> (k, v) \<in> set t \<longleftrightarrow> map_of t k = Some v"
  by (meson btree_ok_distinct map_of_SomeD map_of_is_SomeI)

lemma btree_insert_all:
  assumes "\<forall>(k, v) \<in> set t. P k v" and "P k v"
  shows "\<forall>(k, v) \<in> set (btree_insert k v t). P k v"
  using assms by (induction k v t rule: btree_insert.induct) auto

lemma batch_new_ok: "batch_ok batch_new"
  by (simp add: batch_ok_def batch_new_def)

lemma batch_insert_ok:
  assumes "batch_ok batch" and "batch_insert persistent_serializer address etag item batch = Inr batch'"
  shows "batch_ok batch'"
proof -
  obtain codec_id payload where e: "serializer_encode persistent_serializer item = Inr (codec_id, payload)"
    and b: "batch' = batch\<lparr>wb_items := btree_insert address \<lparr>pd_etag = etag, pd_type_id = item_type_id item,
      pd_codec_id = codec_id, pd_payload = payload\<rparr> (wb_items batch)\<rparr>"
    using assms(2) by (auto simp: batch_insert_def split: sum.splits)
  have "\<forall>(a, p) \<in> set (wb_items batch). length (pd_type_id p) = 16 \<and> length (pd_codec_id p) = 16"
    using assms(1) by (simp add: batch_ok_def)
  then have "\<forall>(a, p) \<in> set (btree_insert address \<lparr>pd_etag = etag, pd_type_id = item_type_id item,
      pd_codec_id = codec_id, pd_payload = payload\<rparr> (wb_items batch)). length (pd_type_id p) = 16 \<and> length (pd_codec_id p) = 16"
    by (rule btree_insert_all) (simp add: persistent_encoded(2) [OF e])
  with assms(1) show ?thesis by (simp add: batch_ok_def b btree_ok_insert)
qed

lemma record_access_ok:
  assumes "batch_ok batch" "stamp \<le> u64_max"
  shows "batch_ok (record_access address stamp batch)"
proof -
  let ?s = "case map_of (wb_accesses batch) address of None \<Rightarrow> stamp | Some current \<Rightarrow> max current stamp"
  have "?s \<le> u64_max" using assms by (auto simp: batch_ok_def split: option.split dest!: map_of_SomeD)
  moreover have "\<forall>(a, s) \<in> set (wb_accesses batch). s \<le> u64_max" using assms(1) by (simp add: batch_ok_def)
  ultimately have "\<forall>(a, s) \<in> set (btree_insert address ?s (wb_accesses batch)). s \<le> u64_max"
    by (intro btree_insert_all)
  with assms(1) show ?thesis by (simp add: batch_ok_def record_access_def)
qed

lemma copy_access_updates_ok:
  assumes "batch_ok batch" "\<forall>(a, s) \<in> set (pf_access_updates pf). s \<le> u64_max"
  shows "batch_ok (copy_access_updates_to pf batch)"
proof -
  have "batch_ok batch \<Longrightarrow> \<forall>(a, s) \<in> set xs. s \<le> u64_max \<Longrightarrow> batch_ok (fold (\<lambda>(a, s). record_access a s) xs batch)" for xs
    by (induction xs arbitrary: batch) (auto intro: record_access_ok)
  with assms show ?thesis by (simp add: copy_access_updates_to_def)
qed

section \<open>Any sequence of publications\<close>

inductive cache_run :: "inflate \<Rightarrow> deflate \<Rightarrow> path \<Rightarrow> files \<Rightarrow> files \<Rightarrow> bool" for inflate deflate root where
  start: "cache_run inflate deflate root fs fs"
| publication: "cache_run inflate deflate root fs0 (dk_files d) \<Longrightarrow> batch_ok batch \<Longrightarrow>
    rt_now (po_retention opts) \<le> u64_max \<Longrightarrow> opt_ok guard_ok guard \<Longrightarrow> index_is_seen root base d \<Longrightarrow>
    publish_batch inflate deflate root guard base batch opts fault d = (r, d') \<Longrightarrow>
    cache_run inflate deflate root fs0 (dk_files d')"

definition all_readable :: "inflate \<Rightarrow> path \<Rightarrow> files \<Rightarrow> bool" where
  "all_readable inflate root fs \<longleftrightarrow> (\<forall>(a, e) \<in> set (pi_entries (current_index fs root)).
     stored inflate fs root (current_index fs root) a \<noteq> None)"

definition pack_cache_sound :: "inflate \<Rightarrow> path \<Rightarrow> files \<Rightarrow> bool" where
  "pack_cache_sound inflate root fs \<longleftrightarrow> index_sound (current_index fs root) \<and> all_readable inflate root fs"

lemma no_index_sound: "fs (index_path root) = None \<Longrightarrow> pack_cache_sound inflate root fs"
  by (simp add: pack_cache_sound_def current_index_def read_bounded_def empty_index_sound all_readable_def)
    (simp add: empty_index_def)

lemma index_sound_entries: "index_sound i \<Longrightarrow> btree_ok (pi_entries i)"
  by (simp add: index_sound_def index_ok_def)

lemma publish_sound:
  assumes "pack_cache_sound inflate root (dk_files d)" "batch_ok batch" "inflates inflate deflate"
    "rt_now (po_retention opts) \<le> u64_max" "opt_ok guard_ok guard" "index_is_seen root base d"
    and run: "publish_batch inflate deflate root guard base batch opts fault d = (r, d')"
  shows "pack_cache_sound inflate root (dk_files d')"
    and "pi_revision (current_index (dk_files d) root) \<le> pi_revision (current_index (dk_files d') root)"
proof -
  let ?old = "current_index (dk_files d) root" and ?new = "current_index (dk_files d') root"
  from assms(1) have sound: "index_sound ?old" and read: "all_readable inflate root (dk_files d)"
    by (simp_all add: pack_cache_sound_def)
  have "pack_cache_sound inflate root (dk_files d') \<and> pi_revision ?old \<le> pi_revision ?new"
    using publish_outcome(2) [OF sound assms(2-5) run assms(6)]
  proof
    assume "r \<noteq> Returns () \<and> unchanged inflate root (dk_files d) (dk_files d')"
    then have "?new = ?old" "stored inflate (dk_files d') root ?old = stored inflate (dk_files d) root ?old"
      unfolding unchanged_def by (elim conjE, simp, elim conjE, metis)
    with assms(1) show ?thesis unfolding pack_cache_sound_def all_readable_def by simp
  next
    assume "published inflate root guard base batch opts (dk_files d) (dk_files d')"
    then obtain base0 where new: "index_sound ?new" "pi_revision ?new = pi_revision ?old + 1"
      and base: "base_entries base ?old = Inr base0"
      and on: "\<forall>(a, e) \<in> set (pi_entries ?new). goes_on (pi_revision ?new) (po_retention opts) batch base0 a"
      and view: "stored inflate (dk_files d') root ?new =
        published_item inflate (dk_files d) root (pi_revision ?new) (po_retention opts) batch base0"
      unfolding published_over_def Let_def by blast
    have "stored inflate (dk_files d') root ?new a \<noteq> None" if "(a, e) \<in> set (pi_entries ?new)" for a e
    proof (cases "map_of (wb_items batch) a")
      case None
      with on that obtain e0 where e0: "map_of base0 a = Some e0" "stays (pi_revision ?new) (po_retention opts) batch a e0"
        by (auto simp: goes_on_def)
      then have m: "map_of (pi_entries ?old) a = Some e0"
        using base by (auto simp: base_entries_def split: publication_base.splits if_splits)
      then have "stored inflate (dk_files d) root ?old a \<noteq> None"
        using read map_of_SomeD [OF m] unfolding all_readable_def by blast
      then have "stored_item inflate (dk_files d) root e0 \<noteq> None" by (simp add: stored_def m)
      with None e0 show ?thesis unfolding view by (simp add: published_item_def)
    qed (simp add: view published_item_def)
    then have "all_readable inflate root (dk_files d')" by (auto simp: all_readable_def)
    with new show ?thesis by (simp add: pack_cache_sound_def)
  qed
  then show "pack_cache_sound inflate root (dk_files d')" "pi_revision ?old \<le> pi_revision ?new" by simp_all
qed

lemma pack_cache_run_sound:
  assumes "cache_run inflate deflate root fs0 fs" "inflates inflate deflate" "pack_cache_sound inflate root fs0"
  shows "pack_cache_sound inflate root fs \<and> pi_revision (current_index fs0 root) \<le> pi_revision (current_index fs root)"
  using assms
proof (induction rule: cache_run.induct)
  case (publication fs0 d batch opts guard base fault r d')
  with publish_sound [OF _ publication.hyps(2) publication.prems(1) publication.hyps(3-6)] show ?case
    by (meson le_trans)
qed simp

section \<open>What was published is restored\<close>

lemma restore_published:
  assumes sound: "pack_cache_sound inflate root (dk_files d)" and batch: "batch_ok batch" and "inflates inflate deflate"
    and "rt_now (po_retention opts) \<le> u64_max" "opt_ok guard_ok guard"
    and insert: "batch_insert persistent_serializer address etag item batch = Inr batch'" and item: "item_ok item"
    and run: "publish_batch inflate deflate root guard base batch' opts fault d = (Returns (), d')"
  shows "\<exists>buffers r. prepare_restore inflate (dk_files d') (item_type_id item) address etag
      (open_with_options (dk_files d') root persistent_serializer collect) =
      (Some r, (open_with_options (dk_files d') root persistent_serializer collect)\<lparr>pf_content_buffers := buffers\<rparr>) \<and>
    restore_decode (item_type_id item) r = Some item"
proof -
  let ?fs = "dk_files d'"
  let ?pf = "open_with_options ?fs root persistent_serializer collect"
  from insert obtain codec_id payload where e: "serializer_encode persistent_serializer item = Inr (codec_id, payload)"
    and b: "batch' = batch\<lparr>wb_items := btree_insert address \<lparr>pd_etag = etag, pd_type_id = item_type_id item,
      pd_codec_id = codec_id, pd_payload = payload\<rparr> (wb_items batch)\<rparr>"
    by (auto simp: batch_insert_def split: sum.splits)
  have ok: "batch_ok batch'" by (rule batch_insert_ok [OF batch insert])
  from sound have index: "index_sound (current_index (dk_files d) root)" by (simp add: pack_cache_sound_def)
  from publish_outcome(1) [OF index ok assms(3-5) run]
  have "published_over inflate root guard base batch' opts (seen_index root base d) (dk_files d) ?fs" by simp
  then obtain base0 where new: "index_sound (current_index ?fs root)"
    and view: "stored inflate ?fs root (current_index ?fs root) =
      published_item inflate (dk_files d) root (pi_revision (current_index ?fs root)) (po_retention opts) batch' base0"
    unfolding published_over_def Let_def by blast
  have "map_of (wb_items batch') address = Some \<lparr>pd_etag = etag, pd_type_id = item_type_id item,
      pd_codec_id = codec_id, pd_payload = payload\<rparr>"
    using batch by (simp add: b batch_ok_def btree_get_insert)
  then have stored: "stored inflate ?fs root (current_index ?fs root) address = Some (etag, item_type_id item, codec_id, payload)"
    by (simp add: view published_item_def)
  have pf: "pack_file_ok inflate ?fs ?pf"
    using new by (intro pack_file_ok_open) (simp add: index_sound_def)
  have fields: "pf_root ?pf = root" "pf_index ?pf = current_index ?fs root" "pf_serializer ?pf = persistent_serializer"
    by (simp_all add: open_with_options_def)
  have dec: "serializer_decode persistent_serializer (item_type_id item) (item_type_id item) codec_id payload = Some item"
    using persistent_decode_iff [OF persistent_encoded(3) [OF e]] e item by simp
  from restore_stored [OF pf, of "item_type_id item" address etag] obtain buffers r where
    r: "prepare_restore inflate ?fs (item_type_id item) address etag ?pf = (r, ?pf\<lparr>pf_content_buffers := buffers\<rparr>)"
    and "Option.bind r (restore_decode (item_type_id item)) = Some item"
    by (auto simp: fields stored persistent_encoded(1) [OF e] dec)
  then show ?thesis by (cases r) auto
qed

end
