(* ===== verification/Cache_Layers.thy ===== *)
theory Cache_Layers
  imports Pack_Convert Pack_Cache "HOL-Library.AList"
begin

text \<open>
  The cache above the pack file: the keys of its items (\<open>cache/cache_items.rs\<close>, \<open>cache_facade.rs\<close>), the layers
  (\<open>memory_cache_plugin.rs\<close>, \<open>memory_with_gc_cache_plugin.rs\<close>, the lookup and the store of
  \<open>pack_file_cache_strategy.rs\<close>) and their composition (\<open>cache_layers.rs\<close>).  An \<open>Arc<Mutex<PackFile>>\<close> is an
  index into the list of all pack files that were opened; \<open>Arc::ptr_eq\<close> compares the indices.
\<close>

section \<open>Keys\<close>

text \<open>\<open>CacheIdentifier::from_parts\<close>, and \<open>from_borrowed_parts\<close>, which is the same.\<close>

fun from_parts :: "bytes list \<Rightarrow> bytes" where
  "from_parts [] = []"
| "from_parts (part # parts) = word_le 8 (word_of_nat (length part) :: u64) @ part @ from_parts parts"

definition resolve_request_identifier :: "path \<Rightarrow> string \<Rightarrow> bytes" where
  "resolve_request_identifier context_path request = from_parts [path_bytes context_path, str_bytes request]"

definition optional_identifier_part :: "string option \<Rightarrow> bytes" where
  "optional_identifier_part v = (case v of Some s \<Rightarrow> 1 # str_bytes s | None \<Rightarrow> [0])"

definition identity_identifier :: "module_identity \<Rightarrow> bytes" where
  "identity_identifier i = from_parts
     ([str_bytes (module_type_name (mi_module_type i)), path_bytes (mi_resource i),
       optional_identifier_part (mi_query i), optional_identifier_part (mi_fragment i),
       optional_identifier_part (mi_layer i), word_le 8 (word_of_nat (length (mi_loaders i)) :: u64)] @
      map str_bytes (mi_loaders i))"

text \<open>A namespace and an identifier.\<close>

type_synonym cache_address = "string \<times> bytes"

definition resolve_namespace :: string where "resolve_namespace = ''unpack/resolve''"
definition module_build_namespace :: string where "module_build_namespace = ''unpack/module-build''"
definition code_generation_namespace :: string where "code_generation_namespace = ''unpack/code-generation''"
definition asset_render_namespace :: string where "asset_render_namespace = ''unpack/asset-render''"

definition to_pack_file_address :: "cache_address \<Rightarrow> address" where
  "to_pack_file_address a = (str_bytes (fst a), snd a)"

section \<open>Items\<close>

datatype cache_item_family = ResolveFamily | ModuleBuildFamily | CodeGenerationFamily | AssetRenderFamily

text \<open>\<open>dyn Any\<close>: a value of the record type of one family.\<close>

datatype cache_value =
    ResolveValue resolve_record
  | ModuleBuildValue module_build_record
  | CodeGenerationValue code_generation_record
  | AssetRenderValue rendered_source

fun value_type :: "cache_value \<Rightarrow> cache_item_family" where
  "value_type (ResolveValue _) = ResolveFamily"
| "value_type (ModuleBuildValue _) = ModuleBuildFamily"
| "value_type (CodeGenerationValue _) = CodeGenerationFamily"
| "value_type (AssetRenderValue _) = AssetRenderFamily"

record cache_entry =
  ce_family :: cache_item_family
  ce_etag :: "bytes option"
  ce_value :: cache_value

text \<open>\<open>CacheEntry::value\<close>: the downcast to the record type of a family.\<close>

definition entry_value :: "cache_item_family \<Rightarrow> cache_entry \<Rightarrow> cache_value option" where
  "entry_value wanted e = (if value_type (ce_value e) = wanted then Some (ce_value e) else None)"

record cache_item_work =
  iw_hits :: nat
  iw_misses :: nat
  iw_stores :: nat
  iw_restores :: nat
  iw_evictions :: nat

type_synonym work_counters = "cache_item_family \<Rightarrow> cache_item_work"

definition no_work :: work_counters where
  "no_work = (\<lambda>_. \<lparr>iw_hits = 0, iw_misses = 0, iw_stores = 0, iw_restores = 0, iw_evictions = 0\<rparr>)"

definition count_work :: "cache_item_family \<Rightarrow> (cache_item_work \<Rightarrow> cache_item_work) \<Rightarrow> work_counters \<Rightarrow> work_counters" where
  "count_work family f work = work(family := f (work family))"

section \<open>The layers in memory\<close>

text \<open>What a layer answers; a deferred answer says where to restore the item from.\<close>

record persistent_restore =
  pr_pack_file :: nat
  pr_reader_generation :: u64
  pr_address :: address
  pr_etag :: "bytes option"
  pr_namespace :: string

datatype layer_lookup = Hit cache_entry | Deferred persistent_restore | Miss

type_synonym memory_layer = "cache_address \<rightharpoonup> cache_entry"

definition memory_lookup :: "cache_address \<Rightarrow> bytes option \<Rightarrow> memory_layer \<Rightarrow> layer_lookup \<times> memory_layer" where
  "memory_lookup address etag m = (case m address of
      Some e \<Rightarrow> if ce_etag e = etag then Hit e else Miss
    | None \<Rightarrow> Miss, m)"

definition memory_store :: "cache_address \<Rightarrow> cache_entry \<Rightarrow> memory_layer \<Rightarrow> memory_layer" where
  "memory_store address e m = m(address \<mapsto> e)"

definition memory_clear :: "memory_layer \<Rightarrow> memory_layer" where
  "memory_clear m = Map.empty"

record gc_entry =
  ge_entry :: cache_entry
  ge_last_used_generation :: nat

record gc_layer =
  gl_entries :: "(cache_address \<times> gc_entry) list"
  gl_max_unused_generations :: nat
  gl_completed_generation :: nat

definition gc_new :: "nat \<Rightarrow> gc_layer" where
  "gc_new max_unused_generations =
     \<lparr>gl_entries = [], gl_max_unused_generations = max_unused_generations, gl_completed_generation = 0\<rparr>"

definition saturating_succ :: "nat \<Rightarrow> nat" where
  "saturating_succ n = min u64_max (n + 1)"

definition active_generation :: "gc_layer \<Rightarrow> nat" where
  "active_generation l = saturating_succ (gl_completed_generation l)"

definition gc_lookup :: "cache_address \<Rightarrow> bytes option \<Rightarrow> gc_layer \<Rightarrow> layer_lookup \<times> gc_layer" where
  "gc_lookup address etag l = (case map_of (gl_entries l) address of
      Some e \<Rightarrow>
        if ce_etag (ge_entry e) = etag
        then (Hit (ge_entry e), l\<lparr>gl_entries := AList.update address (e\<lparr>ge_last_used_generation := active_generation l\<rparr>) (gl_entries l)\<rparr>)
        else (Miss, l)
    | None \<Rightarrow> (Miss, l))"

definition gc_store :: "cache_address \<Rightarrow> cache_entry \<Rightarrow> gc_layer \<Rightarrow> gc_layer" where
  "gc_store address e l = l\<lparr>gl_entries := AList.update address
     \<lparr>ge_entry = e, ge_last_used_generation = active_generation l\<rparr> (gl_entries l)\<rparr>"

definition gc_clear :: "gc_layer \<Rightarrow> gc_layer" where
  "gc_clear l = l\<lparr>gl_entries := []\<rparr>"

text \<open>A completed compilation drops the entries not used for too long, and reports their families.\<close>

definition gc_completed :: "gc_layer \<Rightarrow> cache_item_family list \<times> gc_layer" where
  "gc_completed l =
     (let completed = saturating_succ (gl_completed_generation l);
          retained = (\<lambda>(a :: cache_address, e). completed - ge_last_used_generation e < gl_max_unused_generations l)
      in (map (\<lambda>(a, e). ce_family (ge_entry e)) (filter (\<lambda>x. \<not> retained x) (gl_entries l)),
          l\<lparr>gl_completed_generation := completed, gl_entries := filter retained (gl_entries l)\<rparr>))"

section \<open>The persistent layer\<close>

record pack_layer =
  pl_root :: "path option"
  pl_pack_file :: "nat option"
  pl_reader_generation :: u64
  pl_compression :: compression
  pl_allow_collecting_memory :: bool
  pl_publication_base :: publication_base
  pl_active :: bool
  pl_pending :: "(cache_address \<times> cache_entry) list"

definition pack_lookup :: "cache_address \<Rightarrow> bytes option \<Rightarrow> pack_layer \<Rightarrow> layer_lookup \<times> pack_layer" where
  "pack_lookup address etag l =
     (let persisted = (if \<not> pl_active l then Miss
            else case pl_pack_file l of
              None \<Rightarrow> Miss
            | Some pack_file \<Rightarrow> Deferred \<lparr>pr_pack_file = pack_file, pr_reader_generation = pl_reader_generation l,
                pr_address = to_pack_file_address address, pr_etag = etag, pr_namespace = fst address\<rparr>)
      in (case map_of (pl_pending l) address of
            Some e \<Rightarrow> if ce_etag e = etag then Hit e else persisted
          | None \<Rightarrow> persisted, l))"

definition pack_store :: "cache_address \<Rightarrow> cache_entry \<Rightarrow> pack_layer \<Rightarrow> pack_layer" where
  "pack_store address e l = l\<lparr>pl_pending := AList.update address e (pl_pending l)\<rparr>"

definition pack_clear :: "pack_layer \<Rightarrow> pack_layer" where
  "pack_clear l = l\<lparr>pl_pending := [], pl_active := False, pl_reader_generation := pl_reader_generation l + 1,
     pl_publication_base := ReplaceAll\<rparr>"

definition reads_from :: "persistent_restore \<Rightarrow> persistent_restore \<Rightarrow> bool" where
  "reads_from r s \<longleftrightarrow> pr_reader_generation r = pr_reader_generation s \<and> pr_pack_file r = pr_pack_file s"

definition has_publication :: "pack_layer \<Rightarrow> bool" where
  "has_publication l = pl_active l"

text \<open>\<open>plan_touch\<close> and \<open>PersistentTouch::apply\<close>: the entry was used at this time.\<close>

definition apply_touch ::
    "cache_address \<Rightarrow> bytes option \<Rightarrow> nat \<Rightarrow> pack_layer \<Rightarrow> pack_file list \<Rightarrow> bool \<times> pack_file list" where
  "apply_touch address etag stamp l files =
     (if \<not> pl_active l then (False, files)
      else case pl_pack_file l of
        None \<Rightarrow> (False, files)
      | Some k \<Rightarrow> (case touch (to_pack_file_address address) etag stamp (files ! k) of
          (changed, pf) \<Rightarrow> (changed, files[k := pf])))"

section \<open>Slots\<close>

datatype layer_slot = MemorySlot memory_layer | GcSlot gc_layer | PersistentSlot bool pack_layer

fun slot_writable :: "layer_slot \<Rightarrow> bool" where
  "slot_writable (PersistentSlot writable _) = writable"
| "slot_writable _ = True"

fun slot_persistent :: "layer_slot \<Rightarrow> pack_layer option" where
  "slot_persistent (PersistentSlot _ l) = Some l"
| "slot_persistent _ = None"

fun slot_lookup :: "cache_address \<Rightarrow> bytes option \<Rightarrow> layer_slot \<Rightarrow> layer_lookup \<times> layer_slot" where
  "slot_lookup address etag (MemorySlot m) = map_prod id MemorySlot (memory_lookup address etag m)"
| "slot_lookup address etag (GcSlot l) = map_prod id GcSlot (gc_lookup address etag l)"
| "slot_lookup address etag (PersistentSlot writable l) = map_prod id (PersistentSlot writable) (pack_lookup address etag l)"

fun slot_store :: "cache_address \<Rightarrow> cache_entry \<Rightarrow> layer_slot \<Rightarrow> layer_slot" where
  "slot_store address e (MemorySlot m) = MemorySlot (memory_store address e m)"
| "slot_store address e (GcSlot l) = GcSlot (gc_store address e l)"
| "slot_store address e (PersistentSlot writable l) = PersistentSlot writable (pack_store address e l)"

fun slot_clear :: "layer_slot \<Rightarrow> layer_slot" where
  "slot_clear (MemorySlot m) = MemorySlot (memory_clear m)"
| "slot_clear (GcSlot l) = GcSlot (gc_clear l)"
| "slot_clear (PersistentSlot writable l) = PersistentSlot writable (pack_clear l)"

definition store_if_writable :: "cache_address \<Rightarrow> cache_entry \<Rightarrow> layer_slot \<Rightarrow> layer_slot" where
  "store_if_writable address e s = (if slot_writable s then slot_store address e s else s)"

section \<open>The contract of a layer\<close>

text \<open>
  A layer holds one entry per address, and answers with it when the etag is that of the request.  A
  lookup can note that the entry was used, but does not change what the layer holds.
\<close>

locale cache_layer =
  fixes lookup :: "cache_address \<Rightarrow> bytes option \<Rightarrow> 'l \<Rightarrow> layer_lookup \<times> 'l"
    and store :: "cache_address \<Rightarrow> cache_entry \<Rightarrow> 'l \<Rightarrow> 'l"
    and clear :: "'l \<Rightarrow> 'l"
    and held :: "'l \<Rightarrow> cache_address \<rightharpoonup> cache_entry"
  assumes hit_iff: "fst (lookup a et l) = Hit e \<longleftrightarrow> held l a = Some e \<and> ce_etag e = et"
    and lookup_keeps: "held (snd (lookup a et l)) = held l"
    and stored: "held (store a e l) = (held l)(a \<mapsto> e)"
    and cleared: "held (clear l) = Map.empty"
begin

lemma found_after_store: "fst (lookup a (ce_etag e) (store a e l)) = Hit e"
  by (simp add: hit_iff stored)

lemma other_after_store: "b \<noteq> a \<Longrightarrow> fst (lookup b et (store a e l)) = Hit x \<longleftrightarrow> fst (lookup b et l) = Hit x"
  by (simp add: hit_iff stored)

lemma nothing_after_clear: "fst (lookup a et (clear l)) \<noteq> Hit e"
  by (simp add: hit_iff cleared)

definition all_held :: "(cache_address \<Rightarrow> cache_entry \<Rightarrow> bool) \<Rightarrow> 'l \<Rightarrow> bool" where
  "all_held P l \<longleftrightarrow> (\<forall>a e. held l a = Some e \<longrightarrow> P a e)"

lemma all_held_steps:
  "all_held P l \<Longrightarrow> all_held P (snd (lookup a et l))"
  "all_held P l \<Longrightarrow> P a e \<Longrightarrow> all_held P (store a e l)"
  "all_held P (clear l)"
  "all_held P l \<Longrightarrow> fst (lookup a et l) = Hit e \<Longrightarrow> P a e"
  by (auto simp: all_held_def lookup_keeps stored cleared hit_iff simp del: split_paired_All)

end

definition gc_held :: "gc_layer \<Rightarrow> cache_address \<rightharpoonup> cache_entry" where
  "gc_held l a = map_option ge_entry (map_of (gl_entries l) a)"

fun slot_held :: "layer_slot \<Rightarrow> cache_address \<rightharpoonup> cache_entry" where
  "slot_held (MemorySlot m) = m"
| "slot_held (GcSlot l) = gc_held l"
| "slot_held (PersistentSlot _ l) = map_of (pl_pending l)"

interpretation memory: cache_layer memory_lookup memory_store memory_clear "\<lambda>m. m"
  by unfold_locales (auto simp: memory_lookup_def memory_store_def memory_clear_def split: option.split)

interpretation gc: cache_layer gc_lookup gc_store gc_clear gc_held
  by unfold_locales
    (auto simp: gc_lookup_def gc_store_def gc_clear_def gc_held_def update_conv fun_eq_iff split: option.split)

interpretation pack: cache_layer pack_lookup pack_store pack_clear "\<lambda>l. map_of (pl_pending l)"
  by unfold_locales
    (auto simp: pack_lookup_def pack_store_def pack_clear_def update_conv Let_def split: option.split)

interpretation slot: cache_layer slot_lookup slot_store slot_clear slot_held
proof unfold_locales
  fix a et l e
  show "fst (slot_lookup a et l) = Hit e \<longleftrightarrow> slot_held l a = Some e \<and> ce_etag e = et"
    by (cases l) (simp_all add: memory.hit_iff gc.hit_iff pack.hit_iff)
  show "slot_held (snd (slot_lookup a et l)) = slot_held l"
    by (cases l) (simp_all add: memory.lookup_keeps gc.lookup_keeps pack.lookup_keeps)
  show "slot_held (slot_store a e l) = (slot_held l)(a \<mapsto> e)"
    by (cases l) (simp_all add: memory.stored gc.stored pack.stored)
  show "slot_held (slot_clear l) = Map.empty"
    by (cases l) (simp_all add: memory.cleared gc.cleared pack.cleared)
qed

section \<open>The layers together\<close>

record layers =
  ly_slots :: "layer_slot list"
  ly_work :: work_counters
  ly_pack_files :: "pack_file list"

datatype get_answer = Ready "cache_value option" bool | DeferredGet nat persistent_restore

definition count_in :: "cache_item_family \<Rightarrow> (cache_item_work \<Rightarrow> cache_item_work) \<Rightarrow> layers \<Rightarrow> layers" where
  "count_in family f ly = ly\<lparr>ly_work := count_work family f (ly_work ly)\<rparr>"

text \<open>
  An entry that was found: the layers in front of it take it over, and the first writable persistent
  layer notes the access.  An entry of another type is no hit.
\<close>

definition use_entry ::
    "cache_item_family \<Rightarrow> cache_item_family \<Rightarrow> cache_address \<Rightarrow> bytes option \<Rightarrow> nat \<Rightarrow> nat \<Rightarrow> cache_entry \<Rightarrow> layers \<Rightarrow>
     (cache_value \<times> bool) option \<times> layers" where
  "use_entry wanted family address etag stamp layer_index e ly = (case entry_value wanted e of
      None \<Rightarrow> (None, ly)
    | Some v \<Rightarrow>
       (let ly = (if 0 < layer_index
              then count_in family (iw_restores_update Suc) (ly\<lparr>ly_slots :=
                map (store_if_writable address e) (take layer_index (ly_slots ly)) @ drop layer_index (ly_slots ly)\<rparr>)
              else ly);
            ly = count_in family (iw_hits_update Suc) ly;
            (changed, files) = (case first_some (\<lambda>s. if slot_writable s then slot_persistent s else None) (ly_slots ly) of
                None \<Rightarrow> (False, ly_pack_files ly)
              | Some l \<Rightarrow> apply_touch address etag stamp l (ly_pack_files ly))
        in (Some (v, changed), ly\<lparr>ly_pack_files := files\<rparr>)))"

definition lookup_at :: "cache_address \<Rightarrow> bytes option \<Rightarrow> nat \<Rightarrow> layers \<Rightarrow> layer_lookup \<times> layers" where
  "lookup_at address etag i ly = (case slot_lookup address etag (ly_slots ly ! i) of
      (found, s) \<Rightarrow> (found, ly\<lparr>ly_slots := (ly_slots ly)[i := s]\<rparr>))"

definition get_missed :: "cache_item_family \<Rightarrow> layers \<Rightarrow> get_answer \<times> layers" where
  "get_missed family ly = (Ready None False, count_in family (iw_misses_update Suc) ly)"

definition get_found :: "(cache_value \<times> bool) option \<times> layers \<Rightarrow> (layers \<Rightarrow> get_answer \<times> layers) \<Rightarrow> get_answer \<times> layers" where
  "get_found used otherwise = (case used of
      (Some (v, changed), ly) \<Rightarrow> (Ready (Some v) changed, ly)
    | (None, ly) \<Rightarrow> otherwise ly)"

fun begin_at ::
    "cache_item_family \<Rightarrow> cache_item_family \<Rightarrow> cache_address \<Rightarrow> bytes option \<Rightarrow> nat \<Rightarrow> nat list \<Rightarrow> layers \<Rightarrow> get_answer \<times> layers" where
  "begin_at wanted family address etag stamp [] ly = get_missed family ly"
| "begin_at wanted family address etag stamp (i # rest) ly = (case lookup_at address etag i ly of
      (Hit e, ly) \<Rightarrow> get_found (use_entry wanted family address etag stamp i e ly)
        (begin_at wanted family address etag stamp rest)
    | (Deferred restore, ly) \<Rightarrow> (DeferredGet i restore, ly)
    | (Miss, ly) \<Rightarrow> begin_at wanted family address etag stamp rest ly)"

definition begin_get ::
    "cache_item_family \<Rightarrow> cache_item_family \<Rightarrow> cache_address \<Rightarrow> bytes option \<Rightarrow> nat \<Rightarrow> layers \<Rightarrow> get_answer \<times> layers" where
  "begin_get wanted family address etag stamp ly =
     begin_at wanted family address etag stamp [0..<length (ly_slots ly)] ly"

text \<open>After a restore the layers in front are asked again, and the plan may be outdated.\<close>

fun hit_before ::
    "cache_item_family \<Rightarrow> cache_item_family \<Rightarrow> cache_address \<Rightarrow> bytes option \<Rightarrow> nat \<Rightarrow> nat list \<Rightarrow> layers \<Rightarrow>
     (cache_value \<times> bool) option \<times> layers" where
  "hit_before wanted family address etag stamp [] ly = (None, ly)"
| "hit_before wanted family address etag stamp (i # rest) ly = (case lookup_at address etag i ly of
      (Hit e, ly) \<Rightarrow> (case use_entry wanted family address etag stamp i e ly of
          (Some used, ly) \<Rightarrow> (Some used, ly)
        | (None, ly) \<Rightarrow> hit_before wanted family address etag stamp rest ly)
    | (_, ly) \<Rightarrow> hit_before wanted family address etag stamp rest ly)"

definition finish_restore ::
    "cache_item_family \<Rightarrow> cache_item_family \<Rightarrow> cache_address \<Rightarrow> bytes option \<Rightarrow> nat \<Rightarrow> nat \<Rightarrow> persistent_restore \<Rightarrow>
     cache_entry option \<Rightarrow> layers \<Rightarrow> get_answer \<times> layers" where
  "finish_restore wanted family address etag stamp layer_index plan restored ly =
     get_found (hit_before wanted family address etag stamp [0..<layer_index] ly) (\<lambda>ly.
       case lookup_at address etag layer_index ly of
         (Hit e, ly) \<Rightarrow> get_found (use_entry wanted family address etag stamp layer_index e ly) (get_missed family)
       | (Deferred current, ly) \<Rightarrow>
           if reads_from current plan then
             (case restored of
                Some e \<Rightarrow> get_found (use_entry wanted family address etag stamp layer_index e ly) (get_missed family)
              | None \<Rightarrow> get_missed family ly)
           else (DeferredGet layer_index current, ly)
       | (Miss, ly) \<Rightarrow> get_missed family ly)"

definition layers_store ::
    "cache_item_family \<Rightarrow> cache_address \<Rightarrow> bytes option \<Rightarrow> cache_value \<Rightarrow> layers \<Rightarrow> bool \<times> layers" where
  "layers_store family address etag v ly =
     (let e = \<lparr>ce_family = family, ce_etag = etag, ce_value = v\<rparr>
      in (list_ex (\<lambda>s. slot_writable s \<and> slot_persistent s \<noteq> None) (ly_slots ly),
          count_in family (iw_stores_update Suc) (ly\<lparr>ly_slots := map (store_if_writable address e) (ly_slots ly)\<rparr>)))"

definition layers_clear :: "layers \<Rightarrow> layers" where
  "layers_clear ly = ly\<lparr>ly_slots := map slot_clear (ly_slots ly)\<rparr>"

fun slot_completed :: "layer_slot \<Rightarrow> cache_item_family list \<times> layer_slot" where
  "slot_completed (GcSlot l) = map_prod id GcSlot (gc_completed l)"
| "slot_completed s = ([], s)"

definition layers_completed :: "layers \<Rightarrow> layers" where
  "layers_completed ly = ly\<lparr>ly_slots := map (snd \<circ> slot_completed) (ly_slots ly),
     ly_work := fold (\<lambda>family. count_work family (iw_evictions_update Suc))
       (concat (map (fst \<circ> slot_completed) (ly_slots ly))) (ly_work ly)\<rparr>"

end
