(* ===== verification/Cache_Store.thy ===== *)
theory Cache_Store
  imports Cache_Layers
begin

text \<open>
  The cache of the compiler: opening, restoring from and publishing the pack file
  (\<open>cache/pack_file_cache_strategy.rs\<close>), its options (\<open>cache/options.rs\<close>), and \<open>Cache\<close> itself (\<open>cache.rs\<close>)
  with the generations that say whether there is something to publish.  The messages for the log and
  the marker file that warns of a second writer are left out; they decide nothing.
\<close>

section \<open>Options\<close>

datatype cache_kind = Disabled | Memory | Filesystem

record build_dependency =
  bd_name :: string
  bd_requests :: "string list"

record cache_options =
  co_kind :: cache_kind
  co_cache_directory :: "path option"
  co_cache_location :: "path option"
  co_name :: "string option"
  co_version :: "string option"
  co_build_dependencies :: "build_dependency list"
  co_automatic_build_dependencies :: "path list"
  co_max_age :: nat
  co_max_memory_generations :: "nat option"
  co_cache_unaffected :: bool
  co_compression :: compression
  co_allow_collecting_memory :: bool
  co_idle_timeout :: "nat option"
  co_idle_timeout_for_initial_store :: "nat option"
  co_idle_timeout_after_large_changes :: "nat option"
  co_profile :: bool
  co_readonly :: bool

text \<open>Sixty days, in nanoseconds.\<close>

definition default_max_age :: nat where "default_max_age = 60 * 24 * 60 * 60 * 1000000000"

definition options_disabled :: cache_options where
  "options_disabled = \<lparr>co_kind = Disabled, co_cache_directory = None, co_cache_location = None, co_name = None,
     co_version = None, co_build_dependencies = [], co_automatic_build_dependencies = [], co_max_age = default_max_age,
     co_max_memory_generations = None, co_cache_unaffected = False, co_compression = NoCompression,
     co_allow_collecting_memory = False, co_idle_timeout = None, co_idle_timeout_for_initial_store = None,
     co_idle_timeout_after_large_changes = None, co_profile = False, co_readonly = False\<rparr>"

definition options_memory :: cache_options where
  "options_memory = \<lparr>co_kind = Memory, co_cache_directory = None, co_cache_location = None, co_name = None,
     co_version = None, co_build_dependencies = [], co_automatic_build_dependencies = [], co_max_age = default_max_age,
     co_max_memory_generations = None, co_cache_unaffected = False, co_compression = NoCompression,
     co_allow_collecting_memory = False, co_idle_timeout = None, co_idle_timeout_for_initial_store = None,
     co_idle_timeout_after_large_changes = None, co_profile = False, co_readonly = False\<rparr>"

definition options_filesystem :: cache_options where
  "options_filesystem = \<lparr>co_kind = Filesystem, co_cache_directory = None, co_cache_location = None, co_name = None,
     co_version = None, co_build_dependencies = [], co_automatic_build_dependencies = [], co_max_age = default_max_age,
     co_max_memory_generations = None, co_cache_unaffected = False, co_compression = NoCompression,
     co_allow_collecting_memory = False, co_idle_timeout = Some 60000, co_idle_timeout_for_initial_store = Some 5000,
     co_idle_timeout_after_large_changes = Some 1000, co_profile = False, co_readonly = False\<rparr>"

section \<open>Opening\<close>

definition revision_base :: "pack_file \<Rightarrow> publication_base" where
  "revision_base pf = PreserveEntries (pi_revision (pf_index pf))"

text \<open>A cache without build dependencies is used as it is; \<open>PackFile::open\<close> makes a new pack file.\<close>

definition has_standalone_guard :: "pack_file \<Rightarrow> bool" where
  "has_standalone_guard pf = (case pi_guard (pf_index pf) of
      None \<Rightarrow> False
    | Some guard \<Rightarrow> pg_build_dependencies guard = [] \<and> pg_resolve_build_dependencies guard = [])"

definition pack_layer_open :: "files \<Rightarrow> cache_options \<Rightarrow> pack_file list \<Rightarrow> pack_layer \<times> pack_file list" where
  "pack_layer_open fs opts files =
     (let opened = map_option (\<lambda>root. open_with_options fs root persistent_serializer (co_allow_collecting_memory opts))
            (co_cache_location opts)
      in (\<lparr>pl_root = co_cache_location opts, pl_pack_file = map_option (\<lambda>_. length files) opened,
           pl_reader_generation = 0, pl_compression = co_compression opts,
           pl_allow_collecting_memory = co_allow_collecting_memory opts,
           pl_publication_base = (case opened of
               Some pf \<Rightarrow> if has_standalone_guard pf then revision_base pf else ReplaceAll
             | None \<Rightarrow> ReplaceAll),
           pl_active = True, pl_pending = []\<rparr>,
          files @ (case opened of Some pf \<Rightarrow> [pf] | None \<Rightarrow> [])))"

definition layers_from_options :: "files \<Rightarrow> cache_options \<Rightarrow> layers" where
  "layers_from_options fs opts =
     (let memory = (if co_kind opts = Disabled then []
            else case co_max_memory_generations opts of
              Some generations \<Rightarrow> if generations = 0 then [] else [GcSlot (gc_new generations)]
            | None \<Rightarrow> [MemorySlot Map.empty])
      in if co_kind opts = Filesystem
         then (case pack_layer_open fs opts [] of
             (l, files) \<Rightarrow> \<lparr>ly_slots = memory @ [PersistentSlot (\<not> co_readonly opts) l], ly_work = no_work, ly_pack_files = files\<rparr>)
         else \<lparr>ly_slots = memory, ly_work = no_work, ly_pack_files = []\<rparr>)"

section \<open>Between values and stored items\<close>

record libraries =
  lib_json :: "json_value \<Rightarrow> string"
  lib_json_parse :: json_parser
  lib_source_map :: "string \<Rightarrow> bool"
  lib_inflate :: inflate
  lib_deflate :: deflate

definition value_to_item :: "libraries \<Rightarrow> cache_item_family \<Rightarrow> cache_value \<Rightarrow> io_error + pack_item" where
  "value_to_item lib family v = (case family of
      ResolveFamily \<Rightarrow> (case v of ResolveValue r \<Rightarrow> map_sum id ResolveItem (resolve_to_dto r)
        | _ \<Rightarrow> Inl (invalid_data ''Resolve Cache Item contains an unexpected value''))
    | ModuleBuildFamily \<Rightarrow> (case v of ModuleBuildValue r \<Rightarrow> map_sum id ModuleBuildItem (module_build_to_dto (lib_json lib) r)
        | _ \<Rightarrow> Inl (invalid_data ''Module Build Cache Item contains an unexpected value''))
    | CodeGenerationFamily \<Rightarrow> (case v of CodeGenerationValue r \<Rightarrow> Inr (CodeGenerationItem (code_generation_to_dto r))
        | _ \<Rightarrow> Inl (invalid_data ''Code Generation Cache Item contains an unexpected value''))
    | AssetRenderFamily \<Rightarrow> (case v of AssetRenderValue r \<Rightarrow> Inr (AssetRenderItem (rendered_to_dto r))
        | _ \<Rightarrow> Inl (invalid_data ''Asset Render Cache Item contains an unexpected value'')))"

text \<open>\<open>try_from(\<dots>).ok()\<close>; the outer \<^term>\<open>None\<close> is the panic of a code generation record.\<close>

definition result_ok :: "'e + 'a \<Rightarrow> 'a option" where
  "result_ok r = (case r of Inl _ \<Rightarrow> None | Inr x \<Rightarrow> Some x)"

definition item_to_value :: "libraries \<Rightarrow> pack_item \<Rightarrow> cache_value option option" where
  "item_to_value lib item = (case item of
      ResolveItem r \<Rightarrow> Some (map_option ResolveValue (result_ok (resolve_from_dto r)))
    | ModuleBuildItem r \<Rightarrow>
        Some (map_option ModuleBuildValue (result_ok (module_build_from_dto (lib_json lib) (lib_json_parse lib) r)))
    | CodeGenerationItem r \<Rightarrow> map_option (\<lambda>r. Some (CodeGenerationValue r)) (into_record_after_codec_validation r)
    | AssetRenderItem r \<Rightarrow> Some (map_option AssetRenderValue (result_ok (rendered_from_dto (lib_source_map lib) r))))"

definition namespace_type :: "string \<Rightarrow> (bytes \<times> cache_item_family) option" where
  "namespace_type n =
     (if n = resolve_namespace then Some (resolve_type_id, ResolveFamily)
      else if n = module_build_namespace then Some (module_build_type_id, ModuleBuildFamily)
      else if n = code_generation_namespace then Some (code_generation_type_id, CodeGenerationFamily)
      else if n = asset_render_namespace then Some (asset_render_type_id, AssetRenderFamily)
      else None)"

text \<open>\<open>PersistentRestore::restore\<close>.\<close>

definition restore_entry ::
    "libraries \<Rightarrow> files \<Rightarrow> persistent_restore \<Rightarrow> pack_file list \<Rightarrow> (cache_entry option \<times> pack_file list) option" where
  "restore_entry lib fs r files = (case namespace_type (pr_namespace r) of
      None \<Rightarrow> Some (None, files)
    | Some (type_id, family) \<Rightarrow>
       (case prepare_restore (lib_inflate lib) fs type_id (pr_address r) (pr_etag r) (files ! pr_pack_file r) of
          (prepared, pf) \<Rightarrow>
            map_option (\<lambda>v. (v, files[pr_pack_file r := pf]))
              (case Option.bind prepared (restore_decode type_id) of
                 None \<Rightarrow> Some None
               | Some item \<Rightarrow> map_option (map_option (\<lambda>v. \<lparr>ce_family = family, ce_etag = pr_etag r, ce_value = v\<rparr>))
                   (item_to_value lib item))))"

section \<open>Publishing\<close>

text \<open>The pending items go into a batch; the hash map yields them in some order.\<close>

definition batch_pending ::
    "libraries \<Rightarrow> (cache_address \<times> cache_entry) list \<Rightarrow> write_batch \<Rightarrow> io_error + write_batch" where
  "batch_pending lib = fold_result (\<lambda>(address, e) batch.
     on_success (value_to_item lib (ce_family e) (ce_value e)) (\<lambda>item.
       batch_insert persistent_serializer (to_pack_file_address address) (ce_etag e) item batch))"

text \<open>
  An error leaves the layer and the list of pack files as they were, so that they are returned only by a
  publication that succeeds.
\<close>

definition pack_layer_publish ::
    "libraries \<Rightarrow> pack_guard \<Rightarrow> nat \<Rightarrow> nat \<Rightarrow> pack_layer \<Rightarrow> pack_file list \<Rightarrow> (pack_layer \<times> pack_file list) effect" where
  "pack_layer_publish lib guard stamp max_age l files = (case pl_root l of
      None \<Rightarrow> ret (l\<lparr>pl_pending := []\<rparr>, files)
    | Some root \<Rightarrow>
       (let batch = (case pl_pack_file l of
              Some k \<Rightarrow> copy_access_updates_to (files ! k) batch_new
            | None \<Rightarrow> batch_new)
        in and_then (lift_result (batch_pending lib (pl_pending l) batch)) (\<lambda>batch.
           and_then (publish_batch (lib_inflate lib) (lib_deflate lib) root (Some guard) (pl_publication_base l) batch
             (publication_options_new \<lparr>rt_now = stamp, rt_max_age = max_age\<rparr> (pl_compression l)) NoFault) (\<lambda>_.
           and_then (read_files (index_path root)) (\<lambda>fs.
           let pf = open_with_options fs root persistent_serializer (pl_allow_collecting_memory l)
           in ret (l\<lparr>pl_pending := [], pl_publication_base := revision_base pf, pl_pack_file := Some (length files),
                pl_reader_generation := pl_reader_generation l + 1, pl_active := True\<rparr>, files @ [pf]))))))"

section \<open>Preparing a compilation\<close>

text \<open>The file system is that of the build dependencies, a tree; the cache directory is apart from it.\<close>

record preparation =
  pp_guard :: pack_guard
  pp_build_inputs :: "path list"
  pp_resolved_build_inputs :: "path list"
  pp_automatic_build_inputs :: "path list"
  pp_build_strategy :: snapshot_strategy
  pp_resolve_strategy :: snapshot_strategy

definition build_validation_strategy :: "path list \<Rightarrow> path list \<Rightarrow> snapshot_strategy \<Rightarrow> snapshot_strategy" where
  "build_validation_strategy inputs automatic st =
     (if inputs \<noteq> [] \<and> list_all (\<lambda>p. p \<in> set automatic) inputs then strategy_timestamp else st)"

definition guard_is_valid :: "snapshot_env \<Rightarrow> file_system_info \<Rightarrow> file_system \<Rightarrow> preparation \<Rightarrow> pack_guard \<Rightarrow> bool" where
  "guard_is_valid env info tree p candidate =
     (let st = build_validation_strategy (pp_build_inputs p) (pp_automatic_build_inputs p) (pp_build_strategy p)
      in pg_version candidate = pg_version (pp_guard p) \<and>
         (case snapshot_from_dto (pg_build_dependencies candidate) of
            Inl _ \<Rightarrow> False
          | Inr s \<Rightarrow> has_exact_paths s (pp_build_inputs p) \<and> fst (snapshot_is_valid True env info tree st s None)) \<and>
         (case snapshot_from_dto (pg_resolve_build_dependencies candidate) of
            Inl _ \<Rightarrow> False
          | Inr s \<Rightarrow> fst (snapshot_is_valid True env info tree (pp_resolve_strategy p) s None) \<or>
              has_valid_paths_sync env info tree s (pp_resolved_build_inputs p) (pp_resolve_strategy p)))"

definition layer_guard :: "pack_file list \<Rightarrow> pack_layer \<Rightarrow> pack_guard option" where
  "layer_guard files l = Option.bind (pl_pack_file l) (\<lambda>k. pi_guard (pf_index (files ! k)))"

definition pack_layer_prepare ::
    "snapshot_env \<Rightarrow> file_system_info \<Rightarrow> file_system \<Rightarrow> preparation \<Rightarrow> pack_file list \<Rightarrow> pack_layer \<Rightarrow> bool \<times> pack_layer" where
  "pack_layer_prepare env info tree p files l =
     (let active = (case layer_guard files l of None \<Rightarrow> False | Some candidate \<Rightarrow> guard_is_valid env info tree p candidate)
      in (layer_guard files l \<noteq> Some (pp_guard p),
          l\<lparr>pl_reader_generation := pl_reader_generation l + 1, pl_active := active,
            pl_publication_base := (if active
              then (case pl_pack_file l of Some k \<Rightarrow> revision_base (files ! k) | None \<Rightarrow> ReplaceAll) else ReplaceAll)\<rparr>))"

text \<open>The first persistent layer is prepared or published.\<close>

fun update_persistent :: "(pack_layer \<Rightarrow> pack_layer) \<Rightarrow> layer_slot list \<Rightarrow> layer_slot list" where
  "update_persistent f [] = []"
| "update_persistent f (s # slots) = (case s of
      PersistentSlot writable l \<Rightarrow> PersistentSlot writable (f l) # slots
    | _ \<Rightarrow> s # update_persistent f slots)"

definition first_persistent :: "layers \<Rightarrow> pack_layer option" where
  "first_persistent ly = first_some slot_persistent (ly_slots ly)"

definition layers_prepare ::
    "snapshot_env \<Rightarrow> file_system_info \<Rightarrow> file_system \<Rightarrow> preparation \<Rightarrow> layers \<Rightarrow> bool \<times> layers" where
  "layers_prepare env info tree p ly = (case first_persistent ly of
      None \<Rightarrow> (False, ly)
    | Some l \<Rightarrow> (case pack_layer_prepare env info tree p (ly_pack_files ly) l of
        (changed, l) \<Rightarrow> (changed, ly\<lparr>ly_slots := update_persistent (\<lambda>_. l) (ly_slots ly)\<rparr>)))"

definition layers_publish :: "libraries \<Rightarrow> pack_guard \<Rightarrow> nat \<Rightarrow> nat \<Rightarrow> layers \<Rightarrow> layers effect" where
  "layers_publish lib guard stamp max_age ly = (case first_persistent ly of
      None \<Rightarrow> ret ly
    | Some l \<Rightarrow> and_then (pack_layer_publish lib guard stamp max_age l (ly_pack_files ly)) (\<lambda>(l, files).
        ret (ly\<lparr>ly_slots := update_persistent (\<lambda>_. l) (ly_slots ly), ly_pack_files := files\<rparr>)))"

definition has_persistent_publication :: "layers \<Rightarrow> bool" where
  "has_persistent_publication ly = (case first_persistent ly of None \<Rightarrow> False | Some l \<Rightarrow> has_publication l)"

section \<open>The cache of the compiler\<close>

record compiler_cache =
  ca_options :: cache_options
  ca_build_strategy :: snapshot_strategy
  ca_resolve_strategy :: snapshot_strategy
  ca_info :: file_system_info
  ca_layers :: layers
  ca_dirty_generation :: nat
  ca_published_generation :: nat
  ca_initial_store_pending :: bool
  ca_guard :: "pack_guard option"
  ca_guard_error :: "string option"

definition cache_new :: "files \<Rightarrow> cache_options \<Rightarrow> snapshot_strategy \<Rightarrow> snapshot_strategy \<Rightarrow> compiler_cache" where
  "cache_new fs opts build_strategy resolve_strategy =
     (let ly = layers_from_options fs opts
      in \<lparr>ca_options = opts, ca_build_strategy = build_strategy, ca_resolve_strategy = resolve_strategy,
          ca_info = for_build_dependencies, ca_layers = ly, ca_dirty_generation = 0, ca_published_generation = 0,
          ca_initial_store_pending = (\<not> has_persistent_publication ly), ca_guard = None, ca_guard_error = None\<rparr>)"

definition cache_is_enabled :: "compiler_cache \<Rightarrow> bool" where
  "cache_is_enabled c \<longleftrightarrow> co_kind (ca_options c) \<noteq> Disabled"

definition is_writable_filesystem_cache :: "compiler_cache \<Rightarrow> bool" where
  "is_writable_filesystem_cache c \<longleftrightarrow> co_kind (ca_options c) = Filesystem \<and> \<not> co_readonly (ca_options c)"

definition mark_dirty :: "compiler_cache \<Rightarrow> compiler_cache" where
  "mark_dirty c = c\<lparr>ca_dirty_generation := saturating_succ (ca_dirty_generation c)\<rparr>"

definition mark_dirty_if :: "bool \<Rightarrow> compiler_cache \<Rightarrow> compiler_cache" where
  "mark_dirty_if changed c = (if changed then mark_dirty c else c)"

fun persistent_access_changed :: "get_answer \<Rightarrow> bool" where
  "persistent_access_changed (Ready _ changed) = changed"
| "persistent_access_changed (DeferredGet _ _) = False"

text \<open>The two parts of \<open>Cache::get\<close> that hold the lock, and the whole of it when nothing runs in between.\<close>

definition access_stamp :: "nat \<Rightarrow> compiler_cache \<Rightarrow> nat" where
  "access_stamp now c = (if is_writable_filesystem_cache c then now else 0)"

definition locked_get :: "(layers \<Rightarrow> get_answer \<times> layers) \<Rightarrow> compiler_cache \<Rightarrow> get_answer \<times> compiler_cache" where
  "locked_get f c = (case f (ca_layers c) of
      (r, ly) \<Rightarrow> (r, mark_dirty_if (persistent_access_changed r) (c\<lparr>ca_layers := ly\<rparr>)))"

fun is_deferred :: "get_answer \<Rightarrow> bool" where
  "is_deferred (DeferredGet _ _) = True"
| "is_deferred (Ready _ _) = False"

definition get_step ::
    "libraries \<Rightarrow> files \<Rightarrow> cache_item_family \<Rightarrow> cache_item_family \<Rightarrow> cache_address \<Rightarrow> bytes option \<Rightarrow> nat \<Rightarrow>
     get_answer \<times> compiler_cache \<Rightarrow> (get_answer \<times> compiler_cache) option" where
  "get_step lib fs wanted family address etag stamp = (\<lambda>(r, c). case r of
      Ready v changed \<Rightarrow> Some (r, c)
    | DeferredGet layer_index plan \<Rightarrow> do {
        (restored, files) \<leftarrow> restore_entry lib fs plan (ly_pack_files (ca_layers c));
        Some (locked_get (finish_restore wanted family address etag stamp layer_index plan restored)
          (c\<lparr>ca_layers := (ca_layers c)\<lparr>ly_pack_files := files\<rparr>\<rparr>)) })"

definition cache_get ::
    "libraries \<Rightarrow> files \<Rightarrow> cache_item_family \<Rightarrow> cache_item_family \<Rightarrow> cache_address \<Rightarrow> bytes option \<Rightarrow> nat \<Rightarrow>
     compiler_cache \<Rightarrow> (cache_value option \<times> compiler_cache) option" where
  "cache_get lib fs wanted family address etag now c =
     (if \<not> cache_is_enabled c then Some (None, c)
      else let stamp = access_stamp now c
      in do {
        (r, c) \<leftarrow> loop_opt (\<lambda>(r, c). is_deferred r) (get_step lib fs wanted family address etag stamp)
          (locked_get (begin_get wanted family address etag stamp) c);
        Some (case r of Ready v _ \<Rightarrow> v | DeferredGet _ _ \<Rightarrow> None, c) })"

definition cache_store ::
    "cache_item_family \<Rightarrow> cache_address \<Rightarrow> bytes option \<Rightarrow> cache_value \<Rightarrow> compiler_cache \<Rightarrow> compiler_cache" where
  "cache_store family address etag v c =
     (if \<not> cache_is_enabled c then c
      else case layers_store family address etag v (ca_layers c) of
        (persistently, ly) \<Rightarrow> mark_dirty_if persistently (c\<lparr>ca_layers := ly\<rparr>))"

definition cache_completed :: "compiler_cache \<Rightarrow> compiler_cache" where
  "cache_completed c = c\<lparr>ca_layers := layers_completed (ca_layers c)\<rparr>"

text \<open>\<open>CacheFacade\<close>: the namespace and the family of one kind of items, which is also their type.\<close>

definition facade_get ::
    "libraries \<Rightarrow> files \<Rightarrow> string \<times> cache_item_family \<Rightarrow> bytes \<Rightarrow> bytes option \<Rightarrow> nat \<Rightarrow> compiler_cache \<Rightarrow>
     (cache_value option \<times> compiler_cache) option" where
  "facade_get lib fs facade identifier etag now c =
     cache_get lib fs (snd facade) (snd facade) (fst facade, identifier) etag now c"

definition facade_store ::
    "string \<times> cache_item_family \<Rightarrow> bytes \<Rightarrow> bytes option \<Rightarrow> cache_value \<Rightarrow> compiler_cache \<Rightarrow> compiler_cache" where
  "facade_store facade identifier etag v c = cache_store (snd facade) (fst facade, identifier) etag v c"

definition normal_module_factory :: "string \<times> cache_item_family" where
  "normal_module_factory = (resolve_namespace, ResolveFamily)"

definition module_builds :: "string \<times> cache_item_family" where
  "module_builds = (module_build_namespace, ModuleBuildFamily)"

definition code_generations :: "string \<times> cache_item_family" where
  "code_generations = (code_generation_namespace, CodeGenerationFamily)"

definition asset_renders :: "string \<times> cache_item_family" where
  "asset_renders = (asset_render_namespace, AssetRenderFamily)"

section \<open>Publication\<close>

definition pending_generation :: "compiler_cache \<Rightarrow> nat option" where
  "pending_generation c =
     (if \<not> is_writable_filesystem_cache c then None
      else if ca_published_generation c < ca_dirty_generation c then Some (ca_dirty_generation c) else None)"

definition cache_version :: "compiler_cache \<Rightarrow> bytes" where
  "cache_version c = str_bytes (unwrap_or (co_version (ca_options c)) '''')"

definition current_guard :: "compiler_cache \<Rightarrow> pack_guard" where
  "current_guard c = unwrap_or (ca_guard c)
     \<lparr>pg_version = cache_version c, pg_build_dependencies = [], pg_resolve_build_dependencies = []\<rparr>"

definition publish_generation :: "libraries \<Rightarrow> nat \<Rightarrow> nat \<Rightarrow> compiler_cache \<Rightarrow> compiler_cache effect" where
  "publish_generation lib target_generation now c =
     (if \<not> is_writable_filesystem_cache c \<or> target_generation \<le> ca_published_generation c then ret c
      else case ca_guard_error c of
        Some message \<Rightarrow> raise (invalid_data message)
      | None \<Rightarrow> and_then (layers_publish lib (current_guard c) now (co_max_age (ca_options c)) (ca_layers c)) (\<lambda>ly.
          ret (c\<lparr>ca_layers := ly, ca_published_generation := max (ca_published_generation c) target_generation,
                 ca_initial_store_pending := False\<rparr>)))"

definition flush_to_filesystem :: "libraries \<Rightarrow> nat \<Rightarrow> compiler_cache \<Rightarrow> compiler_cache effect" where
  "flush_to_filesystem lib now c = (case pending_generation c of
      None \<Rightarrow> ret c
    | Some target_generation \<Rightarrow> publish_generation lib target_generation now c)"

section \<open>Before a compilation\<close>

text \<open>What the resolver, which wraps another crate, finds for a request of the build dependencies.\<close>

record resolved_dependency =
  rv_resource :: path
  rv_file_dependencies :: "path list"
  rv_context_dependencies :: "path list"
  rv_missing_dependencies :: "path list"

type_synonym resolver = "path \<Rightarrow> string \<Rightarrow> error + resolved_dependency"

definition automatic_inputs :: "file_system \<Rightarrow> cache_options \<Rightarrow> path list" where
  "automatic_inputs tree opts = normalize_paths (map (\<lambda>p. case fs_canonicalize tree p of Inr q \<Rightarrow> q | Inl _ \<Rightarrow> p)
     (co_automatic_build_dependencies opts))"

definition dependency_requests :: "cache_options \<Rightarrow> string list" where
  "dependency_requests opts = remdups_adj (sort (concat (map bd_requests (co_build_dependencies opts))))"

text \<open>The guard of the compilation, with the panic of \<open>expect\<close>.\<close>

definition prepare_guard ::
    "snapshot_env \<Rightarrow> file_system \<Rightarrow> resolver \<Rightarrow> path \<Rightarrow> compiler_cache \<Rightarrow> (error + preparation) option" where
  "prepare_guard env tree resolver context_path c =
     (let opts = ca_options c; automatic = automatic_inputs tree opts
      in case map_result (resolver context_path) (dependency_requests opts) of
           Inl e \<Rightarrow> Some (Inl e)
         | Inr resolved \<Rightarrow>
            (let resources = map rv_resource resolved;
                 build_inputs = normalize_paths (automatic @ resources);
                 files = normalize_paths (resources @ concat (map rv_file_dependencies resolved));
                 st = (if files = [] \<and> build_inputs = automatic then strategy_timestamp else ca_build_strategy c)
             in case create_snapshot_sync env (ca_info c) tree build_inputs st of
                  Inl e \<Rightarrow> Some (Inl e)
                | Inr build_dependencies \<Rightarrow>
                   (case fst (create_resolve env (ca_info c) tree files
                           (concat (map rv_context_dependencies resolved)) (concat (map rv_missing_dependencies resolved))
                           (ca_resolve_strategy c) (Some snapshot_cache_new)) of
                      Inl e \<Rightarrow> Some (Inl e)
                    | Inr resolve_build_dependencies \<Rightarrow> do {
                        build_dto \<leftarrow> result_ok (snapshot_to_dto build_dependencies);
                        resolve_dto \<leftarrow> result_ok (snapshot_to_dto resolve_build_dependencies);
                        Some (Inr \<lparr>pp_guard = \<lparr>pg_version = cache_version c, pg_build_dependencies = build_dto,
                            pg_resolve_build_dependencies = resolve_dto\<rparr>,
                          pp_build_inputs = build_inputs, pp_resolved_build_inputs = normalize_paths resources,
                          pp_automatic_build_inputs = automatic, pp_build_strategy = ca_build_strategy c,
                          pp_resolve_strategy = ca_resolve_strategy c\<rparr>) })))"

text \<open>A previous compilation whose build dependencies changed: everything is forgotten.\<close>

definition previous_inputs_valid :: "snapshot_env \<Rightarrow> file_system \<Rightarrow> preparation \<Rightarrow> compiler_cache \<Rightarrow> bool" where
  "previous_inputs_valid env tree p c = (case ca_guard c of
      None \<Rightarrow> False
    | Some previous \<Rightarrow> (case snapshot_from_dto (pg_build_dependencies previous) of
        Inl _ \<Rightarrow> False
      | Inr s \<Rightarrow> has_exact_paths s (pp_build_inputs p) \<and>
          fst (snapshot_is_valid True env (ca_info c) tree
            (build_validation_strategy (pp_build_inputs p) (pp_automatic_build_inputs p) (ca_build_strategy c)) s None)))"

definition cache_prepared :: "snapshot_env \<Rightarrow> file_system \<Rightarrow> preparation \<Rightarrow> compiler_cache \<Rightarrow> compiler_cache" where
  "cache_prepared env tree p c =
     (let ly = (if ca_guard c \<noteq> None \<and> \<not> previous_inputs_valid env tree p c then layers_clear (ca_layers c) else ca_layers c)
      in case layers_prepare env (ca_info c) tree p ly of
        (changed, ly) \<Rightarrow> mark_dirty_if changed (c\<lparr>ca_layers := ly, ca_guard := Some (pp_guard p)\<rparr>))"

definition prepare_for_compilation ::
    "snapshot_env \<Rightarrow> file_system \<Rightarrow> resolver \<Rightarrow> path \<Rightarrow> compiler_cache \<Rightarrow> (error + compiler_cache) option" where
  "prepare_for_compilation env tree resolver context_path c =
     (if co_kind (ca_options c) \<noteq> Filesystem then Some (Inr c)
      else map_option (map_sum id (\<lambda>p. cache_prepared env tree p c)) (prepare_guard env tree resolver context_path c))"

end
