(* ===== verification/Cache_Facts.thy ===== *)
theory Cache_Facts
  imports Cache_Store
begin

text \<open>
  What the cache may answer.  A contract says which values belong to an address and an etag.  If only such
  values are stored, only such values are held: in the layers, in the pack files that were opened, with the
  packs they keep in memory, and on the disk; so that whatever runs in between, a get finds no other.
\<close>

type_synonym contract = "cache_address \<Rightarrow> bytes option \<Rightarrow> cache_value \<Rightarrow> bool"

section \<open>Stored items\<close>

fun plain_value :: "libraries \<Rightarrow> cache_value \<Rightarrow> bool" where
  "plain_value lib (ResolveValue r) = resolve_plain r"
| "plain_value lib (ModuleBuildValue r) = build_plain (lib_json lib) (lib_json_parse lib) r"
| "plain_value lib (CodeGenerationValue r) = (cgn_requirements r AND NOT valid_mask = 0)"
| "plain_value lib (AssetRenderValue r) = rendered_plain (lib_source_map lib) r"

text \<open>Its strings are UTF-8, as those of the program are.\<close>

definition value_ok :: "libraries \<Rightarrow> cache_value \<Rightarrow> bool" where
  "value_ok lib v \<longleftrightarrow> plain_value lib v \<and>
     (case value_to_item lib (value_type v) v of Inl _ \<Rightarrow> True | Inr item \<Rightarrow> item_ok item)"

lemma value_to_item_type: "value_to_item lib family v = Inr item \<Longrightarrow> family = value_type v"
  by (cases family; cases v) (simp_all add: value_to_item_def)

lemma value_restored:
  assumes "value_ok lib v" and "value_to_item lib family v = Inr item"
  shows "item_ok item" and "item_to_value lib item = Some (Some v)"
proof -
  have family: "family = value_type v" by (rule value_to_item_type [OF assms(2)])
  show "item_ok item" using assms by (simp add: value_ok_def family)
  show "item_to_value lib item = Some (Some v)"
    using assms unfolding family value_ok_def
    by (cases v) (auto simp: value_to_item_def item_to_value_def map_sum_Inr result_ok_def into_record_restored
        resolve.restored build.restored rendered.restored)
qed

lemma decoded_item_valid:
  assumes "serializer_decode persistent_serializer wanted t c p = Some item"
  shows "item_to_value lib item \<noteq> None" and "item_type_id item = wanted"
proof -
  from assms obtain codec where codec: "persistent_serializer t = Some codec" and wanted: "t = wanted" "item_type_id item = wanted"
    and item: "ic_decode codec p = Some item"
    by (auto simp: serializer_decode_def bind_simps split: if_splits)
  then have e: "ic_encode codec item = Inr p" using persistent_decode_entry by blast
  show "item_type_id item = wanted" by (rule wanted)
  show "item_to_value lib item \<noteq> None"
  proof (cases item)
    case (CodeGenerationItem r)
    with codec wanted have "codec = code_generation_codec_entry"
      by (simp add: persistent_serializer_simps)
    with e CodeGenerationItem have "encode_code_generation_record r = Inr p"
      by (simp add: code_generation_codec_entry_def codec_adapter_def)
    then have "validate_code_generation_record r = Inr ()"
      by (auto simp: encode_code_generation_record_def split: sum.splits)
    with into_record_validated CodeGenerationItem show ?thesis by (simp add: item_to_value_def)
  qed (simp_all add: item_to_value_def)
qed

lemma pack_address_inject [simp]: "to_pack_file_address a = to_pack_file_address b \<longleftrightarrow> a = b"
  by (auto simp: to_pack_file_address_def prod_eq_iff)

text \<open>What is stored at an address of the pack file keeps the contract.\<close>

definition good :: "libraries \<Rightarrow> contract \<Rightarrow> address \<Rightarrow> bytes option \<Rightarrow> bytes \<Rightarrow> bytes \<Rightarrow> bytes \<Rightarrow> bool" where
  "good lib P a et t c p \<longleftrightarrow> (\<forall>ca item v. to_pack_file_address ca = a \<longrightarrow>
     serializer_decode persistent_serializer t t c p = Some item \<longrightarrow> item_to_value lib item = Some (Some v) \<longrightarrow> P ca et v)"

lemma encoded_good:
  assumes "value_ok lib v" "P ca et v" and "value_to_item lib family v = Inr item"
    and e: "serializer_encode persistent_serializer item = Inr (c, p)"
  shows "good lib P (to_pack_file_address ca) et (item_type_id item) c p"
proof -
  have "serializer_decode persistent_serializer (item_type_id item) (item_type_id item) c p = Some item"
    using persistent_decode_iff [OF persistent_encoded(3) [OF e]] e value_restored(1) [OF assms(1,3)] by simp
  with assms(2) value_restored(2) [OF assms(1,3)] show ?thesis by (simp add: good_def del: split_paired_All)
qed

definition batch_good :: "libraries \<Rightarrow> contract \<Rightarrow> write_batch \<Rightarrow> bool" where
  "batch_good lib P batch \<longleftrightarrow> batch_ok batch \<and>
     (\<forall>(a, p) \<in> set (wb_items batch). good lib P a (pd_etag p) (pd_type_id p) (pd_codec_id p) (pd_payload p))"

lemma batch_pending_good:
  assumes "batch_good lib P batch" and "\<forall>(a, e) \<in> set pending. P a (ce_etag e) (ce_value e) \<and> value_ok lib (ce_value e)"
    and "batch_pending lib pending batch = Inr batch'"
  shows "batch_good lib P batch'"
  using assms
proof (induction pending arbitrary: batch)
  case (Cons x pending)
  obtain a e where x: "x = (a, e)" by (cases x)
  from Cons.prems(3) obtain item batch1 where item: "value_to_item lib (ce_family e) (ce_value e) = Inr item"
    and insert: "batch_insert persistent_serializer (to_pack_file_address a) (ce_etag e) item batch = Inr batch1"
    and rest: "batch_pending lib pending batch1 = Inr batch'"
    by (auto simp: batch_pending_def x split: sum.splits)
  from insert obtain c p where enc: "serializer_encode persistent_serializer item = Inr (c, p)"
    and b: "batch1 = batch\<lparr>wb_items := btree_insert (to_pack_file_address a) \<lparr>pd_etag = ce_etag e,
      pd_type_id = item_type_id item, pd_codec_id = c, pd_payload = p\<rparr> (wb_items batch)\<rparr>"
    by (auto simp: batch_insert_def split: sum.splits)
  have "good lib P (to_pack_file_address a) (ce_etag e) (item_type_id item) c p"
    using Cons.prems(2) by (intro encoded_good [OF _ _ item enc]) (auto simp: x)
  then have "\<forall>(a, p) \<in> set (wb_items batch1). good lib P a (pd_etag p) (pd_type_id p) (pd_codec_id p) (pd_payload p)"
    using Cons.prems(1) unfolding b batch_good_def
    by (simp del: split_paired_All) (rule btree_insert_all [where P = "\<lambda>a p. good lib P a (pd_etag p) (pd_type_id p) (pd_codec_id p) (pd_payload p)"], simp_all)
  then have "batch_good lib P batch1"
    using Cons.prems(1) batch_insert_ok [OF _ insert] by (simp add: batch_good_def)
  from Cons.IH [OF this _ rest] Cons.prems(2) show ?case by simp
qed (simp add: batch_pending_def)

section \<open>Pack files\<close>

definition pack_good :: "libraries \<Rightarrow> contract \<Rightarrow> address \<Rightarrow> index_entry \<Rightarrow> bytes \<Rightarrow> bool" where
  "pack_good lib P a e pack \<longleftrightarrow> (\<forall>frame t c p. content_frame_from_pack pack (ie_content e) = Some frame \<longrightarrow>
     decode_indexed_content frame (cr_checksum (ie_content e)) = Some (t, c, p) \<longrightarrow>
     t = ie_type_id e \<longrightarrow> c = ie_codec_id e \<longrightarrow> good lib P a (ie_etag e) t c p)"

text \<open>Wherever the pack of an entry is read, from the disk or from memory.\<close>

definition sources_good :: "libraries \<Rightarrow> files \<Rightarrow> contract \<Rightarrow> pack_file \<Rightarrow> bool" where
  "sources_good lib fs P pf \<longleftrightarrow> (\<forall>(a, e) \<in> set (pi_entries (pf_index pf)).
     (\<forall>pack. read_content_pack (lib_inflate lib) fs (path_join (pf_root pf) (cr_file (ie_content e)))
        (cr_compression (ie_content e)) (cr_pack_size (ie_content e)) = Some pack \<longrightarrow> pack_good lib P a e pack) \<and>
     (\<forall>b. pf_content_buffers pf (cr_file (ie_content e)) = Some b \<longrightarrow> pack_good lib P a e (rp_content b)))"

lemma sources_goodD:
  assumes "sources_good lib fs P pf" "(a, e) \<in> set (pi_entries (pf_index pf))"
  shows "read_content_pack (lib_inflate lib) fs (path_join (pf_root pf) (cr_file (ie_content e)))
      (cr_compression (ie_content e)) (cr_pack_size (ie_content e)) = Some pack \<Longrightarrow> pack_good lib P a e pack"
    and "pf_content_buffers pf (cr_file (ie_content e)) = Some b \<Longrightarrow> pack_good lib P a e (rp_content b)"
  using assms unfolding sources_good_def by blast+

lemma sources_goodI:
  assumes "\<And>a e pack. (a, e) \<in> set (pi_entries (pf_index pf)) \<Longrightarrow>
      read_content_pack (lib_inflate lib) fs (path_join (pf_root pf) (cr_file (ie_content e)))
        (cr_compression (ie_content e)) (cr_pack_size (ie_content e)) = Some pack \<Longrightarrow> pack_good lib P a e pack"
    and "\<And>a e b. (a, e) \<in> set (pi_entries (pf_index pf)) \<Longrightarrow>
      pf_content_buffers pf (cr_file (ie_content e)) = Some b \<Longrightarrow> pack_good lib P a e (rp_content b)"
  shows "sources_good lib fs P pf"
  using assms unfolding sources_good_def by blast

definition pack_file_good :: "libraries \<Rightarrow> path \<Rightarrow> files \<Rightarrow> contract \<Rightarrow> pack_file \<Rightarrow> bool" where
  "pack_file_good lib root fs P pf \<longleftrightarrow> pf_root pf = root \<and> pf_serializer pf = persistent_serializer \<and>
     index_sound (pf_index pf) \<and> pi_revision (pf_index pf) \<le> pi_revision (current_index fs root) \<and>
     (\<forall>(a, s) \<in> set (pf_access_updates pf). s \<le> u64_max) \<and> sources_good lib fs P pf"

definition disk_good :: "libraries \<Rightarrow> path \<Rightarrow> files \<Rightarrow> contract \<Rightarrow> bool" where
  "disk_good lib root fs P \<longleftrightarrow> index_sound (current_index fs root) \<and>
     (\<forall>a et t c p. stored (lib_inflate lib) fs root (current_index fs root) a = Some (et, t, c, p) \<longrightarrow> good lib P a et t c p)"

lemma disk_good_start: "fs (index_path root) = None \<Longrightarrow> disk_good lib root fs P"
  by (simp add: disk_good_def current_index_def read_bounded_def empty_index_sound stored_def)
    (simp add: empty_index_def)

text \<open>What reads see of the files when some of them fail: a part of the files.\<close>

definition sees :: "files \<Rightarrow> files \<Rightarrow> bool" where
  "sees fs view \<longleftrightarrow> (\<forall>p. view p = fs p \<or> view p = None)"

lemma sees_refl [simp]: "sees fs fs"
  by (simp add: sees_def)

lemma sees_missing: "sees fs (fs(p := None))"
  by (simp add: sees_def)

lemma read_files_sees: "read_files p d = (r, d') \<Longrightarrow> dk_files d' = dk_files d \<and> (\<forall>fs. r = Returns fs \<longrightarrow> sees (dk_files d) fs)"
  by (auto simp: read_files_def sees_missing split: list.splits fate.splits)

lemma read_pack_seen:
  assumes "sees fs view" and "read_content_pack inflate view p k n = Some pack"
  shows "read_content_pack inflate fs p k n = Some pack"
proof -
  have "view p = fs p \<or> view p = None" using assms(1) by (simp add: sees_def)
  with assms(2) show ?thesis
    by (auto simp: read_content_pack_def read_bounded_def split: if_splits compression.splits Option.bind_splits)
qed

lemma current_index_seen: "sees fs view \<Longrightarrow> current_index view root = current_index fs root \<or> current_index view root = empty_index"
  unfolding sees_def current_index_def read_bounded_def
  by (drule spec [of _ "index_path root"]) auto

lemma opened_good:
  assumes "disk_good lib root fs P"
  shows "pack_file_good lib root fs P (open_with_options fs root persistent_serializer collect)"
proof -
  let ?i = "current_index fs root"
  have sound: "index_sound ?i" using assms by (simp add: disk_good_def)
  have "pack_good lib P a e pack" if e: "(a, e) \<in> set (pi_entries ?i)"
    and pack: "read_content_pack (lib_inflate lib) fs (path_join root (cr_file (ie_content e)))
      (cr_compression (ie_content e)) (cr_pack_size (ie_content e)) = Some pack" for a e pack
    unfolding pack_good_def
  proof (intro allI impI)
    fix frame t c p
    assume f: "content_frame_from_pack pack (ie_content e) = Some frame"
      and d: "decode_indexed_content frame (cr_checksum (ie_content e)) = Some (t, c, p)" "t = ie_type_id e" "c = ie_codec_id e"
    have "map_of (pi_entries ?i) a = Some e"
      using e btree_ok_distinct [OF index_sound_entries [OF sound]] by simp
    then have "stored (lib_inflate lib) fs root ?i a = Some (ie_etag e, t, c, p)"
      using pack f d by (simp add: stored_def stored_item_def content_at_def)
    with assms show "good lib P a (ie_etag e) t c p" unfolding disk_good_def by blast
  qed
  then show ?thesis
    using sound by (auto simp: pack_file_good_def sources_good_def open_with_options_def)
qed

lemma opened_seen_good:
  assumes disk: "disk_good lib root fs P" and "sees fs view"
  shows "pack_file_good lib root fs P (open_with_options view root persistent_serializer collect)"
  using current_index_seen [OF assms(2), of root]
proof
  assume "current_index view root = current_index fs root"
  then show ?thesis using opened_good [OF disk, of collect] by (simp add: open_with_options_def)
next
  assume "current_index view root = empty_index"
  then show ?thesis
    by (simp add: open_with_options_def pack_file_good_def sources_good_def empty_index_sound) (simp add: empty_index_def)
qed

text \<open>The files that an index refers to are never written again; they can be removed.\<close>

definition shrinks :: "path set \<Rightarrow> files \<Rightarrow> files \<Rightarrow> bool" where
  "shrinks S fs fs' \<longleftrightarrow> (\<forall>p. p \<notin> S \<longrightarrow> fs' p = fs p \<or> fs' p = None)"

definition written_by :: "path \<Rightarrow> files \<Rightarrow> path set" where
  "written_by root fs = insert (index_path root) {p. fresh root (pi_revision (current_index fs root) + 1) p}"

lemma read_pack_shrinks:
  assumes "fs' p = fs p \<or> fs' p = None" and "read_content_pack inflate fs' p k n = Some pack"
  shows "read_content_pack inflate fs p k n = Some pack"
  using assms by (auto simp: read_content_pack_def read_bounded_def split: if_splits compression.splits Option.bind_splits)

lemma pack_file_good_shrinks:
  assumes good: "pack_file_good lib root fs P pf" and s: "shrinks (written_by root fs) fs fs'"
    and "pi_revision (current_index fs root) \<le> pi_revision (current_index fs' root)"
    and "pi_revision (current_index fs root) < u64_max"
  shows "pack_file_good lib root fs' P pf"
proof -
  have same: "fs' (path_join root (cr_file (ie_content e))) = fs (path_join root (cr_file (ie_content e))) \<or>
      fs' (path_join root (cr_file (ie_content e))) = None" if "(a, e) \<in> set (pi_entries (pf_index pf))" for a e
  proof -
    have f: "pack_file_of (pi_revision (pf_index pf)) (cr_file (ie_content e))"
      using good that by (auto simp: pack_file_good_def index_sound_def)
    have "pi_revision (pf_index pf) < pi_revision (current_index fs root) + 1"
      using good by (simp add: pack_file_good_def)
    from pack_file_not_fresh [OF f this] pack_file_not_index [OF f] assms(4) show ?thesis
      using s by (auto simp: shrinks_def written_by_def)
  qed
  have g: "pf_root pf = root" "sources_good lib fs P pf" using good by (simp_all add: pack_file_good_def)
  have "sources_good lib fs' P pf"
  proof (rule sources_goodI)
    fix a e pack
    assume e: "(a, e) \<in> set (pi_entries (pf_index pf))"
      and rd: "read_content_pack (lib_inflate lib) fs' (path_join (pf_root pf) (cr_file (ie_content e)))
        (cr_compression (ie_content e)) (cr_pack_size (ie_content e)) = Some pack"
    have "read_content_pack (lib_inflate lib) fs (path_join root (cr_file (ie_content e)))
        (cr_compression (ie_content e)) (cr_pack_size (ie_content e)) = Some pack"
      by (rule read_pack_shrinks [where fs' = fs'], rule same [OF e], use rd in \<open>simp add: g(1)\<close>)
    then show "pack_good lib P a e pack" by (intro sources_goodD(1) [OF g(2) e]) (simp add: g(1))
  qed (rule sources_goodD(2) [OF g(2)])
  with good assms(3) show ?thesis by (auto simp: pack_file_good_def)
qed

section \<open>What a publication does to the files\<close>

lemma shrinks_refl [simp]: "shrinks S fs fs"
  by (simp add: shrinks_def)

lemma shrinks_trans: "shrinks S fs fs' \<Longrightarrow> shrinks S fs' fs'' \<Longrightarrow> shrinks S fs fs''"
  unfolding shrinks_def by metis

lemma shrinks_upd: "p \<in> S \<Longrightarrow> shrinks S fs (fs(p := x))"
  by (auto simp: shrinks_def)

lemma shrinks_remove: "shrinks S fs (fs(p := None))"
  by (simp add: shrinks_def)

definition writes_only :: "path set \<Rightarrow> 'a effect \<Rightarrow> bool" where
  "writes_only S m \<longleftrightarrow> (\<forall>d. shrinks S (dk_files d) (dk_files (snd (m d))))"

named_theorems writes_intros

lemma writes_only_pure [writes_intros]:
  "writes_only S (ret x)" "writes_only S (raise e)" "writes_only S halt"
  by (simp_all add: writes_only_def ret_def raise_def halt_def)

lemma writes_only_lift [writes_intros]: "writes_only S (lift_result r)"
  by (cases r) (simp_all add: writes_intros)

lemma writes_only_then [writes_intros]:
  assumes "writes_only S m" and "\<And>x. writes_only S (f x)"
  shows "writes_only S (and_then m f)"
  unfolding writes_only_def
proof
  fix d
  obtain r d1 where m: "m d = (r, d1)" by (cases "m d")
  then have "shrinks S (dk_files d) (dk_files d1)" using assms(1) by (metis snd_conv writes_only_def)
  then show "shrinks S (dk_files d) (dk_files (snd (and_then m f d)))"
    using assms(2) by (cases r) (auto simp: and_then_def m writes_only_def intro: shrinks_trans)
qed

lemma writes_only_attempt [writes_intros]: "writes_only S m \<Longrightarrow> writes_only S (attempt m)"
  unfolding writes_only_def attempt_def by (auto split: prod.splits outcome.splits) (metis snd_conv)+

lemma writes_only_if [writes_intros]: "writes_only S m \<Longrightarrow> writes_only S m' \<Longrightarrow> writes_only S (if b then m else m')"
  by simp

lemma next_fate_files [simp]: "next_fate d = (f, d') \<Longrightarrow> dk_files d' = dk_files d"
  by (auto split: list.splits)

lemma writes_only_read [writes_intros]: "writes_only S (read_files p)"
  by (auto simp: writes_only_def read_files_def simp del: next_fate.simps split: prod.split fate.split)

lemma writes_only_directory [writes_intros]: "writes_only S directory_call"
  by (auto simp: writes_only_def directory_call_def simp del: next_fate.simps split: prod.split fate.split)

lemma writes_only_write [writes_intros]: "p \<in> S \<Longrightarrow> writes_only S (write_synced p bs)"
  by (auto simp: writes_only_def write_synced_def write_partly_def shrinks_upd simp del: next_fate.simps
      split: prod.split fate.split option.split)

lemma writes_only_remove [writes_intros]: "writes_only S (remove_file p)"
  by (auto simp: writes_only_def remove_file_def shrinks_remove simp del: next_fate.simps
      split: prod.split fate.split option.split)

lemma writes_only_rename [writes_intros]: "dest \<in> S \<Longrightarrow> writes_only S (rename_file from dest)"
  by (auto simp: writes_only_def rename_file_def simp del: next_fate.simps split: prod.split fate.split option.split
      intro: shrinks_trans [OF shrinks_remove shrinks_upd])

lemma writes_only_rename_or_remove [writes_intros]: "dest \<in> S \<Longrightarrow> writes_only S (rename_or_remove from dest)"
  unfolding rename_or_remove_def by (intro writes_intros) (auto split: sum.split intro!: writes_intros)

lemma writes_only_fold [writes_intros]:
  "(\<And>x s. x \<in> set xs \<Longrightarrow> writes_only S (f x s)) \<Longrightarrow> writes_only S (fold_effect f xs s)"
  by (induction xs arbitrary: s) (simp_all add: writes_intros)

lemma write_pack_writes:
  "writes_only {p. fresh root revision p} (write_pack deflate root revision opts n x entries)"
  unfolding write_pack_def
  by (auto simp: Let_def fresh_def split: prod.split option.split intro!: writes_intros)

lemma shrinks_mono: "shrinks S fs fs' \<Longrightarrow> S \<subseteq> T \<Longrightarrow> shrinks T fs fs'"
  by (auto simp: shrinks_def)

lemma writes_only_mono: "writes_only S m \<Longrightarrow> S \<subseteq> T \<Longrightarrow> writes_only T m"
  using shrinks_mono [of S] by (simp add: writes_only_def)

lemma commit_index_writes:
  "writes_only (insert (index_path root) {p. fresh root (pi_revision i) p}) (commit_index root fault i previous)"
  unfolding commit_index_def Let_def remove_stale_def
  by (intro writes_intros) (auto simp: fresh_def)

lemma writes_only_stage [writes_intros]: "writes_only S (stage_packs inflate root sources)"
  by (induction sources) (simp_all add: writes_intros)

lemma publish_over_writes:
  "writes_only (insert (index_path root) {p. fresh root (pi_revision current + 1) p})
     (publish_over inflate deflate root guard base batch opts fault current)"
  unfolding publish_over_def Let_def stage_items_def publish_packs_def
  using commit_index_writes [where i = "\<lparr>pi_revision = pi_revision current + 1, pi_guard = guard, pi_entries = es\<rparr>" for es]
  by (intro writes_intros writes_only_mono [OF write_pack_writes]) auto

lemma publish_shrinks:
  assumes run: "publish_batch inflate deflate root guard base batch opts fault d = (r, d')" and seen: "index_is_seen root base d"
  shows "shrinks (written_by root (dk_files d)) (dk_files d) (dk_files d')"
proof (rule publish_seen [OF run])
  fix d1
  assume "dk_files d1 = dk_files d"
    "publish_over inflate deflate root guard base batch opts fault (seen_index root base d) d1 = (r, d')"
  with publish_over_writes [of root "seen_index root base d"] seen show ?thesis
    unfolding writes_only_def by (metis seen_index_def snd_conv written_by_def)
qed simp

lemma publish_at_limit:
  assumes run: "publish_batch inflate deflate root guard base batch opts fault d = (r, d')" and seen: "index_is_seen root base d"
    and "u64_max \<le> pi_revision (current_index (dk_files d) root)"
  shows "dk_files d' = dk_files d"
proof (rule publish_seen [OF run])
  fix d1
  assume d1: "dk_files d1 = dk_files d"
    "publish_over inflate deflate root guard base batch opts fault (seen_index root base d) d1 = (r, d')"
  have "u64_max < pi_revision (seen_index root base d) + 1" using assms(3) seen by (simp add: seen_index_def)
  then have "snd (publish_over inflate deflate root guard base batch opts fault (seen_index root base d) d1) = d1"
    by (cases "base_entries base (seen_index root base d)")
      (simp_all add: publish_over_def raise_def ret_def and_then_def Let_def)
  with d1 show ?thesis by simp
qed simp

lemma publish_keeps_disk_good:
  assumes disk: "disk_good lib root (dk_files d) P" and batch: "batch_good lib P batch"
    and inflates: "inflates (lib_inflate lib) (lib_deflate lib)"
    and now: "rt_now (po_retention opts) \<le> u64_max" and guard: "opt_ok guard_ok guard"
    and run: "publish_batch (lib_inflate lib) (lib_deflate lib) root guard base batch opts fault d = (r, d')"
    and seen: "index_is_seen root base d"
  shows "disk_good lib root (dk_files d') P"
    and "pi_revision (current_index (dk_files d) root) \<le> pi_revision (current_index (dk_files d') root)"
proof -
  let ?inflate = "lib_inflate lib"
  let ?old = "current_index (dk_files d) root" and ?new = "current_index (dk_files d') root"
  have sound: "index_sound ?old" and held: "\<And>a et t c p. stored ?inflate (dk_files d) root ?old a = Some (et, t, c, p) \<Longrightarrow> good lib P a et t c p"
    using disk unfolding disk_good_def by blast+
  have ok: "batch_ok batch" and items: "\<And>a p. map_of (wb_items batch) a = Some p \<Longrightarrow> good lib P a (pd_etag p) (pd_type_id p) (pd_codec_id p) (pd_payload p)"
    using batch unfolding batch_good_def by (blast dest: map_of_SomeD)+
  have "disk_good lib root (dk_files d') P \<and> pi_revision ?old \<le> pi_revision ?new"
    using publish_outcome(2) [OF sound ok inflates now guard run seen]
  proof
    assume "r \<noteq> Returns () \<and> unchanged ?inflate root (dk_files d) (dk_files d')"
    then have same: "?new = ?old" "stored ?inflate (dk_files d') root ?old = stored ?inflate (dk_files d) root ?old"
      unfolding unchanged_def by (elim conjE, simp, elim conjE, metis)
    show ?thesis unfolding disk_good_def same using sound held by blast
  next
    assume "published ?inflate root guard base batch opts (dk_files d) (dk_files d')"
    then obtain base0 where new: "index_sound ?new" "pi_revision ?new = pi_revision ?old + 1"
      and base: "base_entries base ?old = Inr base0"
      and view: "stored ?inflate (dk_files d') root ?new =
        published_item ?inflate (dk_files d) root (pi_revision ?new) (po_retention opts) batch base0"
      unfolding published_over_def Let_def by blast
    have "good lib P a et t c p" if s: "stored ?inflate (dk_files d') root ?new a = Some (et, t, c, p)" for a et t c p
    proof (cases "map_of (wb_items batch) a")
      case None
      with s obtain e where e: "map_of base0 a = Some e" "stored_item ?inflate (dk_files d) root e = Some (et, t, c, p)"
        by (auto simp: view published_item_def bind_simps split: if_splits)
      then have "map_of (pi_entries ?old) a = Some e"
        using base by (auto simp: base_entries_def split: publication_base.splits if_splits)
      with e(2) show ?thesis by (intro held) (simp add: stored_def)
    next
      case (Some x)
      with s items [OF Some] show ?thesis by (simp add: view published_item_def)
    qed
    with new show ?thesis by (simp add: disk_good_def)
  qed
  then show "disk_good lib root (dk_files d') P" "pi_revision ?old \<le> pi_revision ?new" by simp_all
qed

section \<open>Restoring\<close>

text \<open>The frame comes from the pack of the entry, read now or kept from before.\<close>

lemma load_content_source:
  assumes "load_content inflate fs r pf = (Some (content, start, until), pf')"
    and "slice_get content start until = Some frame"
  shows "\<exists>pack. content_frame_from_pack pack r = Some frame \<and>
    (read_content_pack inflate fs (path_join (pf_root pf) (cr_file r)) (cr_compression r) (cr_pack_size r) = Some pack \<or>
     (\<exists>b. pf_content_buffers pf (cr_file r) = Some b \<and> pack = rp_content b))"
proof (cases "pf_allow_collecting_memory pf")
  case True
  have "content_at inflate fs (pf_root pf) r = Some frame"
    using load_content_collecting(2) [OF True, of inflate fs r] assms by simp
  then show ?thesis by (auto simp: content_at_def bind_simps)
next
  case False
  then show ?thesis
    using assms by (auto simp: load_content_def content_frame_from_pack_def bind_simps split: option.splits if_splits)
qed

lemma load_content_frame:
  "snd (load_content inflate fs r pf) = pf \<or>
   (\<exists>pack. read_content_pack inflate fs (path_join (pf_root pf) (cr_file r)) (cr_compression r) (cr_pack_size r) = Some pack \<and>
     snd (load_content inflate fs r pf) = pf\<lparr>pf_content_buffers := (pf_content_buffers pf)(cr_file r \<mapsto>
       \<lparr>rp_compression = cr_compression r, rp_pack_size = cr_pack_size r, rp_content = pack\<rparr>)\<rparr>)"
  by (cases "read_content_pack inflate fs (path_join (pf_root pf) (cr_file r)) (cr_compression r) (cr_pack_size r)")
    (auto simp: load_content_def Let_def)

lemma pack_file_good_buffers:
  assumes good: "pack_file_good lib root fs P pf" and e: "(a, e) \<in> set (pi_entries (pf_index pf))"
    and pack: "read_content_pack (lib_inflate lib) fs (path_join (pf_root pf) (cr_file (ie_content e)))
      (cr_compression (ie_content e)) (cr_pack_size (ie_content e)) = Some pack"
  shows "pack_file_good lib root fs P (pf\<lparr>pf_content_buffers := (pf_content_buffers pf)(cr_file (ie_content e) \<mapsto>
    \<lparr>rp_compression = k, rp_pack_size = n, rp_content = pack\<rparr>)\<rparr>)"
proof -
  have sources: "sources_good lib fs P pf" and co: "coherent (pi_entries (pf_index pf))"
    using good by (simp_all add: pack_file_good_def index_sound_def)
  have "pack_good lib P a' e' pack"
    if e': "(a', e') \<in> set (pi_entries (pf_index pf))" "cr_file (ie_content e') = cr_file (ie_content e)" for a' e'
  proof -
    have "cr_compression (ie_content e') = cr_compression (ie_content e)" "cr_pack_size (ie_content e') = cr_pack_size (ie_content e)"
      using co e e' unfolding coherent_def by blast+
    with pack e'(2) show ?thesis by (intro sources_goodD(1) [OF sources e'(1)]) simp
  qed
  then have "sources_good lib fs P (pf\<lparr>pf_content_buffers := (pf_content_buffers pf)(cr_file (ie_content e) \<mapsto>
      \<lparr>rp_compression = k, rp_pack_size = n, rp_content = pack\<rparr>)\<rparr>)"
    by (intro sources_goodI) (auto split: if_splits intro: sources_goodD [OF sources])
  with good show ?thesis by (simp add: pack_file_good_def)
qed

lemma prepare_restore_good:
  assumes good: "pack_file_good lib root fs P pf"
    and view: "sees fs view" and run: "prepare_restore (lib_inflate lib) view wanted a et pf = (r, pf')"
  shows "pack_file_good lib root fs P pf'"
    and "Option.bind r (restore_decode wanted) = Some item \<Longrightarrow>
      (\<exists>c p. good lib P a et wanted c p \<and> serializer_decode persistent_serializer wanted wanted c p = Some item)"
proof -
  have "pack_file_good lib root fs P pf' \<and> (Option.bind r (restore_decode wanted) = Some item \<longrightarrow>
      (\<exists>c p. good lib P a et wanted c p \<and> serializer_decode persistent_serializer wanted wanted c p = Some item))"
  proof (cases "map_of (pi_entries (pf_index pf)) a")
    case None
    with run good show ?thesis by (auto simp: prepare_restore_def)
  next
    case (Some e)
    then have e: "(a, e) \<in> set (pi_entries (pf_index pf))" by (rule map_of_SomeD)
    show ?thesis
    proof (cases "ie_etag e \<noteq> et \<or> ie_type_id e \<noteq> wanted \<or> \<not> matches_codec (pf_serializer pf) (ie_type_id e) (ie_codec_id e)")
      case True
      then have "r = None \<and> pf' = pf" using run Some by (auto simp: prepare_restore_def split: if_splits)
      with good show ?thesis by simp
    next
      case False
      then have f: "ie_etag e = et" "ie_type_id e = wanted" by simp_all
      obtain loaded where l: "load_content (lib_inflate lib) view (ie_content e) pf = (loaded, pf')"
        and r: "r = map_option (\<lambda>(content, start, until).
          \<lparr>rs_serializer = pf_serializer pf', rs_type_id = ie_type_id e, rs_codec_id = ie_codec_id e,
           rs_checksum = cr_checksum (ie_content e), rs_content = content, rs_start = start, rs_end = until\<rparr>) loaded"
        using run Some False by (auto simp: prepare_restore_def split: prod.splits)
      have pf': "pack_file_good lib root fs P pf'"
        using load_content_frame [of "lib_inflate lib" view "ie_content e" pf] good
          pack_file_good_buffers [OF good e read_pack_seen [OF view]] l by auto
      moreover have "\<exists>c p. good lib P a et wanted c p \<and> serializer_decode persistent_serializer wanted wanted c p = Some item"
        if "Option.bind r (restore_decode wanted) = Some item"
      proof -
        from that obtain content start until where ld: "loaded = Some (content, start, until)" by (cases loaded) (auto simp: r)
        with that obtain frame c p where frame: "slice_get content start until = Some frame"
          and d: "decode_indexed_content frame (cr_checksum (ie_content e)) = Some (wanted, c, p)" "c = ie_codec_id e"
          and item: "serializer_decode (pf_serializer pf') wanted wanted c p = Some item"
          by (auto simp: r restore_decode_def bind_simps f split: if_splits)
        from load_content_source [OF l [unfolded ld] frame] obtain pack where pack: "content_frame_from_pack pack (ie_content e) = Some frame"
          and "read_content_pack (lib_inflate lib) view (path_join (pf_root pf) (cr_file (ie_content e)))
              (cr_compression (ie_content e)) (cr_pack_size (ie_content e)) = Some pack \<or>
            (\<exists>b. pf_content_buffers pf (cr_file (ie_content e)) = Some b \<and> pack = rp_content b)" by blast
        then have "pack_good lib P a e pack"
          using good sources_goodD [OF _ e] read_pack_seen [OF view] unfolding pack_file_good_def by blast
        with pack d f have "good lib P a et wanted c p" unfolding pack_good_def by blast
        with item pf' show ?thesis unfolding pack_file_good_def by auto
      qed
      ultimately show ?thesis by blast
    qed
  qed
  then show "pack_file_good lib root fs P pf'"
    and "Option.bind r (restore_decode wanted) = Some item \<Longrightarrow>
      (\<exists>c p. good lib P a et wanted c p \<and> serializer_decode persistent_serializer wanted wanted c p = Some item)" by blast+
qed

definition entry_good :: "contract \<Rightarrow> cache_address \<Rightarrow> cache_entry \<Rightarrow> bool" where
  "entry_good P a e \<longleftrightarrow> P a (ce_etag e) (ce_value e)"

definition pack_files_good :: "libraries \<Rightarrow> path \<Rightarrow> files \<Rightarrow> contract \<Rightarrow> pack_file list \<Rightarrow> bool" where
  "pack_files_good lib root fs P files \<longleftrightarrow> list_all (pack_file_good lib root fs P) files"

lemma pack_files_good_update:
  "pack_files_good lib root fs P files \<Longrightarrow> pack_file_good lib root fs P pf \<Longrightarrow> pack_files_good lib root fs P (files[k := pf])"
  by (auto simp: pack_files_good_def list_all_iff dest: set_update_subset_insert [THEN subsetD])

text \<open>A plan names a pack file and the address of its request.\<close>

definition plan_for :: "cache_address \<Rightarrow> bytes option \<Rightarrow> nat \<Rightarrow> persistent_restore \<Rightarrow> bool" where
  "plan_for a et n plan \<longleftrightarrow> pr_pack_file plan < n \<and> pr_address plan = to_pack_file_address a \<and> pr_etag plan = et \<and>
     pr_namespace plan = fst a"

lemma restore_entry_good:
  assumes good: "pack_files_good lib root fs P files" and plan: "plan_for a et (length files) plan"
    and view: "sees fs view"
  obtains restored files' where "restore_entry lib view plan files = Some (restored, files')"
    and "pack_files_good lib root fs P files'" and "length files' = length files"
    and "\<And>e. restored = Some e \<Longrightarrow> entry_good P a e \<and> ce_etag e = et"
proof (cases "namespace_type (pr_namespace plan)")
  case None
  with that [of None files] good show ?thesis by (simp add: restore_entry_def)
next
  case (Some x)
  obtain type_id family where x: "x = (type_id, family)" by (cases x)
  let ?pf = "files ! pr_pack_file plan"
  have pf: "pack_file_good lib root fs P ?pf"
    using good plan by (simp add: pack_files_good_def plan_for_def list_all_length)
  obtain r pf' where run: "prepare_restore (lib_inflate lib) view type_id (to_pack_file_address a) et ?pf = (r, pf')"
    by (cases "prepare_restore (lib_inflate lib) view type_id (to_pack_file_address a) et ?pf")
  note restored = prepare_restore_good [OF pf view run]
  have files': "pack_files_good lib root fs P (files[pr_pack_file plan := pf'])"
    by (rule pack_files_good_update [OF good restored(1)])
  show ?thesis
  proof (cases "Option.bind r (restore_decode type_id)")
    case None
    with that [OF _ files'] Some x run plan show ?thesis by (simp add: restore_entry_def plan_for_def)
  next
    case item: (Some item)
    from restored(2) [OF item] obtain c p where g: "good lib P (to_pack_file_address a) et type_id c p"
      and d: "serializer_decode persistent_serializer type_id type_id c p = Some item" by blast
    from decoded_item_valid(1) [OF d] obtain v where v: "item_to_value lib item = Some v" by blast
    have "restore_entry lib view plan files = Some (map_option (\<lambda>v. \<lparr>ce_family = family, ce_etag = et, ce_value = v\<rparr>) v,
        files[pr_pack_file plan := pf'])"
      using Some x run plan item v by (simp add: restore_entry_def plan_for_def)
    moreover have "entry_good P a e \<and> ce_etag e = et"
      if "map_option (\<lambda>v. \<lparr>ce_family = family, ce_etag = et, ce_value = v\<rparr>) v = Some e" for e
      using that g d v by (auto simp: good_def entry_good_def simp del: split_paired_All)
    ultimately show ?thesis by (intro that [OF _ files']) auto
  qed
qed

section \<open>The layers\<close>

lemma touch_good:
  assumes good: "pack_file_good lib root fs P pf" and "stamp \<le> u64_max"
  shows "pack_file_good lib root fs P (snd (touch a et stamp pf))"
proof (cases "map_of (pi_entries (pf_index pf)) a")
  case (Some e)
  then have "ie_last_access e \<le> u64_max"
    using good by (auto simp: pack_file_good_def index_sound_def index_ok_def index_entry_ok_def dest: map_of_SomeD)
  then have "max stamp (ie_last_access e) \<le> u64_max" using assms(2) by simp
  moreover have "\<forall>(a, s) \<in> set (pf_access_updates pf). s \<le> u64_max" using good by (simp add: pack_file_good_def)
  ultimately have "\<forall>(a, s) \<in> set (btree_insert a (max stamp (ie_last_access e)) (pf_access_updates pf)). s \<le> u64_max"
    by (intro btree_insert_all) simp_all
  with good Some show ?thesis
    by (auto simp: touch_def Let_def pack_file_good_def sources_good_def split: option.split)
qed (simp add: touch_def good)

fun slot_ok :: "layer_slot \<Rightarrow> bool" where
  "slot_ok (GcSlot l) = distinct (map fst (gl_entries l))"
| "slot_ok (PersistentSlot _ l) = distinct (map fst (pl_pending l))"
| "slot_ok (MemorySlot _) = True"

definition slot_good :: "path \<Rightarrow> nat \<Rightarrow> contract \<Rightarrow> layer_slot \<Rightarrow> bool" where
  "slot_good root n P s \<longleftrightarrow> slot.all_held (entry_good P) s \<and> slot_ok s \<and>
     (\<forall>l. slot_persistent s = Some l \<longrightarrow> opt_ok (\<lambda>r. r = root) (pl_root l) \<and> opt_ok (\<lambda>k. k < n) (pl_pack_file l))"

definition layers_good :: "libraries \<Rightarrow> path \<Rightarrow> files \<Rightarrow> contract \<Rightarrow> layers \<Rightarrow> bool" where
  "layers_good lib root fs P ly \<longleftrightarrow> list_all (slot_good root (length (ly_pack_files ly)) P) (ly_slots ly) \<and>
     pack_files_good lib root fs P (ly_pack_files ly)"

text \<open>Nothing but the entries of a layer changes in a lookup or a store, and no layer or pack file goes away.\<close>

lemma slot_persistent_lookup:
  "slot_persistent (snd (slot_lookup a et s)) = slot_persistent s"
  by (cases s) (simp_all add: memory_lookup_def gc_lookup_def pack_lookup_def Let_def split: option.split)

lemma slot_ok_steps:
  "slot_ok s \<Longrightarrow> slot_ok (snd (slot_lookup a et s))" "slot_ok s \<Longrightarrow> slot_ok (slot_store a e s)" "slot_ok (slot_clear s)"
  by (cases s; simp add: gc_lookup_def gc_store_def gc_clear_def pack_lookup_def pack_store_def pack_clear_def Let_def
      distinct_update split: option.split)+

lemma slot_good_lookup: "slot_good root n P s \<Longrightarrow> slot_good root n P (snd (slot_lookup a et s))"
  by (simp add: slot_good_def slot.all_held_steps(1) slot_persistent_lookup slot_ok_steps)

lemma slot_good_store:
  assumes "slot_good root n P s" "entry_good P a e"
  shows "slot_good root n P (store_if_writable a e s)"
  using assms slot.all_held_steps(2) [of "entry_good P" s a e] slot_ok_steps(2) [of s a e]
  by (cases s) (auto simp: slot_good_def store_if_writable_def pack_store_def)

lemma slot_good_clear: "slot_good root n P s \<Longrightarrow> slot_good root n P (slot_clear s)"
  using slot.all_held_steps(3) [of "entry_good P" s] slot_ok_steps(3) [of s] by (cases s) (auto simp: slot_good_def pack_clear_def)

lemma map_of_filter_weaken: "distinct (map fst xs) \<Longrightarrow> map_of (filter f xs) a = Some e \<Longrightarrow> map_of xs a = Some e"
  by (meson distinct_map_filter map_of_SomeD map_of_is_SomeI filter_is_subset subsetD)

definition same_shape :: "layers \<Rightarrow> layers \<Rightarrow> bool" where
  "same_shape ly ly' \<longleftrightarrow> length (ly_slots ly') = length (ly_slots ly) \<and> length (ly_pack_files ly') = length (ly_pack_files ly)"

lemma same_shape_refl [simp]: "same_shape ly ly"
  by (simp add: same_shape_def)

lemma same_shape_trans: "same_shape ly ly' \<Longrightarrow> same_shape ly' ly'' \<Longrightarrow> same_shape ly ly''"
  by (simp add: same_shape_def)

lemma count_in_layers [simp]:
  "ly_slots (count_in family f ly) = ly_slots ly" "ly_pack_files (count_in family f ly) = ly_pack_files ly"
  by (simp_all add: count_in_def)

lemma layers_good_count [simp]:
  "layers_good lib root fs P (count_in family f ly) = layers_good lib root fs P ly" "same_shape ly (count_in family f ly')= same_shape ly ly'"
  by (simp_all add: layers_good_def same_shape_def)

lemma lookup_at_good:
  assumes good: "layers_good lib root fs P ly" and i: "i < length (ly_slots ly)" and run: "lookup_at a et i ly = (r, ly')"
  shows "layers_good lib root fs P ly'" and "same_shape ly ly'"
    and "r = Hit e \<Longrightarrow> entry_good P a e \<and> ce_etag e = et"
    and "r = Deferred plan \<Longrightarrow> plan_for a et (length (ly_pack_files ly)) plan"
proof -
  let ?s = "ly_slots ly ! i"
  have s: "slot_good root (length (ly_pack_files ly)) P ?s" using good i by (simp add: layers_good_def list_all_length)
  have r: "r = fst (slot_lookup a et ?s)" and ly': "ly' = ly\<lparr>ly_slots := (ly_slots ly)[i := snd (slot_lookup a et ?s)]\<rparr>"
    using run by (auto simp: lookup_at_def split: prod.splits)
  show "layers_good lib root fs P ly'"
  proof -
    have "set ((ly_slots ly)[i := snd (slot_lookup a et ?s)]) \<subseteq> insert (snd (slot_lookup a et ?s)) (set (ly_slots ly))"
      by (rule set_update_subset_insert)
    with good slot_good_lookup [OF s, of a et] show ?thesis by (auto simp: ly' layers_good_def list_all_iff)
  qed
  show "same_shape ly ly'" by (simp add: ly' same_shape_def)
  show "entry_good P a e \<and> ce_etag e = et" if "r = Hit e"
    using that s slot.hit_iff [of a et ?s e] unfolding r slot_good_def by (metis slot.all_held_def)
  show "plan_for a et (length (ly_pack_files ly)) plan" if "r = Deferred plan"
    using that s unfolding r
    by (cases ?s) (auto simp: memory_lookup_def gc_lookup_def pack_lookup_def slot_good_def plan_for_def opt_ok_def Let_def
        split: option.splits if_splits)
qed

lemma apply_touch_good:
  assumes "pack_files_good lib root fs P files" "opt_ok (\<lambda>k. k < length files) (pl_pack_file l)" "stamp \<le> u64_max"
    and "apply_touch a et stamp l files = (changed, files')"
  shows "pack_files_good lib root fs P files' \<and> length files' = length files"
proof -
  have "files' = files \<or> (\<exists>k < length files. files' = files[k := snd (touch (to_pack_file_address a) et stamp (files ! k))])"
    using assms(2,4) by (auto simp: apply_touch_def opt_ok_def split: if_splits option.splits prod.splits)
  then show ?thesis
  proof
    assume "\<exists>k < length files. files' = files[k := snd (touch (to_pack_file_address a) et stamp (files ! k))]"
    then obtain k where k: "k < length files" "files' = files[k := snd (touch (to_pack_file_address a) et stamp (files ! k))]" by blast
    with assms(1) have "pack_file_good lib root fs P (files ! k)" by (simp add: pack_files_good_def list_all_length)
    from pack_files_good_update [OF assms(1) touch_good [OF this assms(3)]] k show ?thesis by simp
  qed (use assms(1) in simp)
qed

lemma first_some_mem: "first_some f xs = Some y \<Longrightarrow> \<exists>x \<in> set xs. f x = Some y"
  by (induction xs) (auto split: option.splits)

lemma use_entry_good:
  assumes good: "layers_good lib root fs P ly" and e: "entry_good P a e" "ce_etag e = et" and stamp: "stamp \<le> u64_max"
    and run: "use_entry wanted family a et stamp i e ly = (r, ly')"
  shows "layers_good lib root fs P ly' \<and> same_shape ly ly' \<and>
    (\<forall>v changed. r = Some (v, changed) \<longrightarrow> P a et v \<and> value_type v = wanted) \<and> (r = None \<longrightarrow> ly' = ly)"
proof (cases "entry_value wanted e")
  case (Some v)
  define slots where "slots = (if 0 < i then map (store_if_writable a e) (take i (ly_slots ly)) @ drop i (ly_slots ly) else ly_slots ly)"
  have "set (take i (ly_slots ly)) \<subseteq> set (ly_slots ly)" "set (drop i (ly_slots ly)) \<subseteq> set (ly_slots ly)"
    by (rule set_take_subset, rule set_drop_subset)
  then have slots: "list_all (slot_good root (length (ly_pack_files ly)) P) slots" "length slots = length (ly_slots ly)"
    using good slot_good_store [OF _ e(1)] by (auto simp: slots_def layers_good_def list_all_iff)
  obtain changed files where t: "(case first_some (\<lambda>s. if slot_writable s then slot_persistent s else None) slots of
      None \<Rightarrow> (False, ly_pack_files ly) | Some l \<Rightarrow> apply_touch a et stamp l (ly_pack_files ly)) = (changed, files)"
    by (cases "case first_some (\<lambda>s. if slot_writable s then slot_persistent s else None) slots of
      None \<Rightarrow> (False, ly_pack_files ly) | Some l \<Rightarrow> apply_touch a et stamp l (ly_pack_files ly)")
  have pf: "pack_files_good lib root fs P (ly_pack_files ly)" using good by (simp add: layers_good_def)
  have files: "pack_files_good lib root fs P files \<and> length files = length (ly_pack_files ly)"
  proof (cases "first_some (\<lambda>s. if slot_writable s then slot_persistent s else None) slots")
    case None
    with t pf show ?thesis by simp
  next
    case (Some l)
    then obtain s where "s \<in> set slots" "slot_persistent s = Some l"
      by (auto dest!: first_some_mem split: if_splits)
    with slots(1) have "opt_ok (\<lambda>k. k < length (ly_pack_files ly)) (pl_pack_file l)"
      by (auto simp: list_all_iff slot_good_def)
    from apply_touch_good [OF pf this stamp] t Some show ?thesis by simp
  qed
  define ly1 where "ly1 = (if 0 < i then count_in family (iw_restores_update Suc) (ly\<lparr>ly_slots :=
      map (store_if_writable a e) (take i (ly_slots ly)) @ drop i (ly_slots ly)\<rparr>) else ly)"
  have ly1: "ly_slots ly1 = slots" "ly_pack_files ly1 = ly_pack_files ly" by (simp_all add: ly1_def slots_def)
  have "use_entry wanted family a et stamp i e ly =
      (Some (v, changed), (count_in family (iw_hits_update Suc) ly1)\<lparr>ly_pack_files := files\<rparr>)"
    unfolding use_entry_def Some option.case ly1_def [symmetric] Let_def count_in_layers ly1 t prod.case by (rule refl)
  with run ly1 have "r = Some (v, changed)" "ly_slots ly' = slots" "ly_pack_files ly' = files" by auto
  moreover have "P a et v \<and> value_type v = wanted"
    using Some e by (auto simp: entry_value_def entry_good_def split: if_splits)
  ultimately show ?thesis using slots files by (simp add: layers_good_def same_shape_def)
qed (use run good in \<open>auto simp: use_entry_def\<close>)

text \<open>What a get may answer: a value of the contract and of the wanted type, or a plan for its request.\<close>

fun answer_good :: "contract \<Rightarrow> cache_item_family \<Rightarrow> cache_address \<Rightarrow> bytes option \<Rightarrow> layers \<Rightarrow> get_answer \<Rightarrow> bool" where
  "answer_good P wanted a et ly (Ready v _) \<longleftrightarrow> (\<forall>x. v = Some x \<longrightarrow> P a et x \<and> value_type x = wanted)"
| "answer_good P wanted a et ly (DeferredGet i plan) \<longleftrightarrow>
     i < length (ly_slots ly) \<and> plan_for a et (length (ly_pack_files ly)) plan"

definition get_good :: "libraries \<Rightarrow> path \<Rightarrow> files \<Rightarrow> contract \<Rightarrow> cache_item_family \<Rightarrow> cache_address \<Rightarrow> bytes option \<Rightarrow>
    layers \<Rightarrow> get_answer \<times> layers \<Rightarrow> bool" where
  "get_good lib root fs P wanted a et ly x \<longleftrightarrow>
     layers_good lib root fs P (snd x) \<and> same_shape ly (snd x) \<and> answer_good P wanted a et (snd x) (fst x)"

lemma get_good_from: "same_shape ly ly' \<Longrightarrow> get_good lib root fs P wanted a et ly' x \<Longrightarrow> get_good lib root fs P wanted a et ly x"
  by (auto simp: get_good_def intro: same_shape_trans)

lemma get_missed_good: "layers_good lib root fs P ly \<Longrightarrow> get_good lib root fs P wanted a et ly (get_missed family ly)"
  by (simp add: get_good_def get_missed_def)

lemma get_found_good:
  assumes "layers_good lib root fs P ly" "entry_good P a e" "ce_etag e = et" "stamp \<le> u64_max"
    and "\<And>ly. layers_good lib root fs P ly \<Longrightarrow> get_good lib root fs P wanted a et ly (f ly)"
  shows "get_good lib root fs P wanted a et ly (get_found (use_entry wanted family a et stamp i e ly) f)"
proof -
  obtain r ly' where u: "use_entry wanted family a et stamp i e ly = (r, ly')" by (cases "use_entry wanted family a et stamp i e ly")
  note good = use_entry_good [OF assms(1-4) u]
  show ?thesis
  proof (cases r)
    case None
    with good have "ly' = ly" by simp
    with assms(5) [OF assms(1)] u None show ?thesis by (simp add: get_found_def)
  next
    case (Some x)
    with good u show ?thesis by (cases x) (simp add: get_found_def get_good_def)
  qed
qed

lemma begin_at_good:
  assumes "layers_good lib root fs P ly" "stamp \<le> u64_max" "\<forall>i \<in> set rest. i < length (ly_slots ly)"
  shows "get_good lib root fs P wanted a et ly (begin_at wanted family a et stamp rest ly)"
  using assms
proof (induction rest arbitrary: ly)
  case Nil
  then show ?case by (simp add: get_missed_good)
next
  case (Cons i rest)
  obtain r ly1 where l: "lookup_at a et i ly = (r, ly1)" by (cases "lookup_at a et i ly")
  have i: "i < length (ly_slots ly)" using Cons.prems(3) by simp
  note good = lookup_at_good [OF Cons.prems(1) i l]
  have rest: "get_good lib root fs P wanted a et ly2 (begin_at wanted family a et stamp rest ly2)"
    if "layers_good lib root fs P ly2" "same_shape ly1 ly2" for ly2
    using that good(2) Cons.prems by (intro Cons.IH) (auto simp: same_shape_def)
  show ?case
  proof (cases r)
    case (Hit e)
    obtain u ly2 where u: "use_entry wanted family a et stamp i e ly1 = (u, ly2)" by (cases "use_entry wanted family a et stamp i e ly1")
    note g = use_entry_good [OF good(1) _ _ Cons.prems(2) u] good(3) [OF Hit]
    have "get_good lib root fs P wanted a et ly1 (get_found (u, ly2) (begin_at wanted family a et stamp rest))"
    proof (cases u)
      case None
      with g rest [OF good(1)] show ?thesis by (simp add: get_found_def)
    next
      case (Some x)
      with g show ?thesis by (cases x) (simp add: get_found_def get_good_def)
    qed
    with get_good_from [OF good(2)] show ?thesis by (simp add: l Hit u)
  next
    case (Deferred plan)
    with good i show ?thesis by (simp add: l get_good_def same_shape_def)
  next
    case Miss
    with rest [OF good(1)] get_good_from [OF good(2)] show ?thesis by (simp add: l)
  qed
qed

lemma begin_get_good:
  "layers_good lib root fs P ly \<Longrightarrow> stamp \<le> u64_max \<Longrightarrow>
     get_good lib root fs P wanted a et ly (begin_get wanted family a et stamp ly)"
  by (simp add: begin_get_def begin_at_good)

lemma hit_before_good:
  assumes "layers_good lib root fs P ly" "stamp \<le> u64_max" "\<forall>i \<in> set rest. i < length (ly_slots ly)"
    and "hit_before wanted family a et stamp rest ly = (r, ly')"
  shows "layers_good lib root fs P ly' \<and> same_shape ly ly' \<and>
    (\<forall>v changed. r = Some (v, changed) \<longrightarrow> P a et v \<and> value_type v = wanted)"
  using assms
proof (induction rest arbitrary: ly)
  case (Cons i rest)
  obtain x ly1 where l: "lookup_at a et i ly = (x, ly1)" by (cases "lookup_at a et i ly")
  have i: "i < length (ly_slots ly)" using Cons.prems(3) by simp
  note good = lookup_at_good [OF Cons.prems(1) i l]
  have rest: "layers_good lib root fs P ly' \<and> same_shape ly ly' \<and>
      (\<forall>v changed. r = Some (v, changed) \<longrightarrow> P a et v \<and> value_type v = wanted)"
    if "hit_before wanted family a et stamp rest ly1 = (r, ly')"
    using Cons.IH [OF good(1) Cons.prems(2) _ that] good(2) Cons.prems(3)
    by (auto simp: same_shape_def)
  show ?case
  proof (cases x)
    case (Hit e)
    obtain u ly2 where u: "use_entry wanted family a et stamp i e ly1 = (u, ly2)" by (cases "use_entry wanted family a et stamp i e ly1")
    note g = use_entry_good [OF good(1) _ _ Cons.prems(2) u] good(3) [OF Hit]
    show ?thesis
    proof (cases u)
      case None
      with g Cons.prems(4) rest show ?thesis by (simp add: l Hit u)
    next
      case (Some y)
      with g Cons.prems(4) good(2) show ?thesis by (auto simp: l Hit u intro: same_shape_trans)
    qed
  qed (use Cons.prems(4) rest in \<open>simp_all add: l\<close>)
qed simp

lemma finish_restore_good:
  assumes good: "layers_good lib root fs P ly" and stamp: "stamp \<le> u64_max" and k: "k < length (ly_slots ly)"
    and restored: "\<And>e. restored = Some e \<Longrightarrow> entry_good P a e \<and> ce_etag e = et"
  shows "get_good lib root fs P wanted a et ly (finish_restore wanted family a et stamp k plan restored ly)"
proof -
  obtain u ly1 where h: "hit_before wanted family a et stamp [0..<k] ly = (u, ly1)" by (cases "hit_before wanted family a et stamp [0..<k] ly")
  have g1: "layers_good lib root fs P ly1" "same_shape ly ly1"
    and u: "\<forall>v changed. u = Some (v, changed) \<longrightarrow> P a et v \<and> value_type v = wanted"
    using hit_before_good [OF good stamp _ h] k by auto
  show ?thesis
  proof (cases u)
    case (Some x)
    with g1 u show ?thesis by (cases x) (simp add: finish_restore_def h get_found_def get_good_def)
  next
    case None
    obtain r ly2 where l: "lookup_at a et k ly1 = (r, ly2)" by (cases "lookup_at a et k ly1")
    have k1: "k < length (ly_slots ly1)" using k g1(2) by (simp add: same_shape_def)
    note g2 = lookup_at_good [OF g1(1) k1 l]
    have shape: "same_shape ly ly2" using g1(2) g2(2) by (rule same_shape_trans)
    note found = get_found_good [OF g2(1) _ _ stamp get_missed_good]
    have "get_good lib root fs P wanted a et ly2 (case r of
        Hit e \<Rightarrow> get_found (use_entry wanted family a et stamp k e ly2) (get_missed family)
      | Deferred current \<Rightarrow>
          if reads_from current plan then
            (case restored of
               Some e \<Rightarrow> get_found (use_entry wanted family a et stamp k e ly2) (get_missed family)
             | None \<Rightarrow> get_missed family ly2)
          else (DeferredGet k current, ly2)
      | Miss \<Rightarrow> get_missed family ly2)"
    proof (cases r)
      case (Hit e)
      with g2(3) show ?thesis by (simp add: found)
    next
      case (Deferred current)
      with g2(1,2) g2(4) k1 restored show ?thesis
        by (auto simp: get_missed_good get_good_def [of _ _ _ _ _ _ _ _ "(DeferredGet _ _, _)"] same_shape_def intro!: found split: option.split)
    qed (simp add: get_missed_good g2(1))
    from get_good_from [OF shape this] show ?thesis
      by (cases r) (simp_all add: finish_restore_def h None get_found_def [of "(None, _)"] l)
  qed
qed

end
