(* ===== verification/Cache_Runs.thy ===== *)
theory Cache_Runs
  imports Cache_Facts
begin

text \<open>
  The cache in use: many gets at once, whose restores run without the lock of the layers, and between their
  parts stores, completed and prepared compilations, publications that succeed or fail, and processes that
  stop and start again on the same directory.  A part that holds the lock is one step.  A restore reads one
  file, which a publication leaves alone or removes, so it is one step as well.  Every read of a file may
  fail: opening and restoring see a part of the files, a publication runs under any fates.
\<close>

section \<open>The system\<close>

datatype get_phase =
    Answered get_answer
  | Restored nat persistent_restore "cache_entry option"

record running_get =
  rg_wanted :: cache_item_family
  rg_family :: cache_item_family
  rg_address :: cache_address
  rg_etag :: "bytes option"
  rg_stamp :: nat
  rg_phase :: get_phase

record cache_system =
  sy_cache :: compiler_cache
  sy_files :: files
  sy_gets :: "nat \<rightharpoonup> running_get"

definition system_start ::
    "files \<Rightarrow> files \<Rightarrow> cache_options \<Rightarrow> snapshot_strategy \<Rightarrow> snapshot_strategy \<Rightarrow> cache_system" where
  "system_start view fs opts build_strategy resolve_strategy =
     \<lparr>sy_cache = cache_new view opts build_strategy resolve_strategy, sy_files = fs, sy_gets = Map.empty\<rparr>"

text \<open>The options name the directory of the cache, or none.\<close>

definition located :: "path \<Rightarrow> cache_options \<Rightarrow> bool" where
  "located root opts \<longleftrightarrow> opt_ok (\<lambda>p. p = root) (co_cache_location opts)"

text \<open>The publication of the cache gets the index of its directory when its first call reads it.\<close>

definition publication_seen :: "path \<Rightarrow> compiler_cache \<Rightarrow> disk \<Rightarrow> bool" where
  "publication_seen root c d \<longleftrightarrow>
     (case first_persistent (ca_layers c) of None \<Rightarrow> True | Some l \<Rightarrow> index_is_seen root (pl_publication_base l) d)"

text \<open>What a compilation does with the cache.\<close>

inductive cache_work :: "libraries \<Rightarrow> contract \<Rightarrow> cache_system \<Rightarrow> cache_system \<Rightarrow> bool"
  for lib P where
  begins: "sy_gets s k = None \<Longrightarrow> cache_is_enabled (sy_cache s) \<Longrightarrow> now \<le> u64_max \<Longrightarrow>
    locked_get (begin_get wanted family a et (access_stamp now (sy_cache s))) (sy_cache s) = (r, c) \<Longrightarrow>
    cache_work lib P s (s\<lparr>sy_cache := c, sy_gets := (sy_gets s)(k \<mapsto>
      \<lparr>rg_wanted = wanted, rg_family = family, rg_address = a, rg_etag = et,
       rg_stamp = access_stamp now (sy_cache s), rg_phase = Answered r\<rparr>)\<rparr>)"
| restores: "sy_gets s k = Some g \<Longrightarrow> rg_phase g = Answered (DeferredGet i plan) \<Longrightarrow>
    sees (sy_files s) view \<Longrightarrow> restore_entry lib view plan (ly_pack_files (ca_layers (sy_cache s))) = Some (restored, files) \<Longrightarrow>
    cache_work lib P s (s\<lparr>sy_cache := (sy_cache s)\<lparr>ca_layers := (ca_layers (sy_cache s))\<lparr>ly_pack_files := files\<rparr>\<rparr>,
      sy_gets := (sy_gets s)(k \<mapsto> g\<lparr>rg_phase := Restored i plan restored\<rparr>)\<rparr>)"
| finishes: "sy_gets s k = Some g \<Longrightarrow> rg_phase g = Restored i plan restored \<Longrightarrow>
    locked_get (finish_restore (rg_wanted g) (rg_family g) (rg_address g) (rg_etag g) (rg_stamp g) i plan restored)
      (sy_cache s) = (r, c) \<Longrightarrow>
    cache_work lib P s (s\<lparr>sy_cache := c, sy_gets := (sy_gets s)(k \<mapsto> g\<lparr>rg_phase := Answered r\<rparr>)\<rparr>)"
| returns: "sy_gets s k = Some g \<Longrightarrow> rg_phase g = Answered (Ready v changed) \<Longrightarrow>
    cache_work lib P s (s\<lparr>sy_gets := (sy_gets s)(k := None)\<rparr>)"
| stores: "P a et v \<Longrightarrow> cache_work lib P s (s\<lparr>sy_cache := cache_store family a et v (sy_cache s)\<rparr>)"
| completes: "cache_work lib P s (s\<lparr>sy_cache := cache_completed (sy_cache s)\<rparr>)"
| prepares: "guard_ok (pp_guard p) \<Longrightarrow>
    cache_work lib P s (s\<lparr>sy_cache := cache_prepared env tree p (sy_cache s)\<rparr>)"

inductive cache_step :: "libraries \<Rightarrow> path \<Rightarrow> contract \<Rightarrow> cache_system \<Rightarrow> cache_system \<Rightarrow> bool"
  for lib root P where
  works: "cache_work lib P s s' \<Longrightarrow> cache_step lib root P s s'"
| publishes: "target \<le> ca_dirty_generation (sy_cache s) \<Longrightarrow> now \<le> u64_max \<Longrightarrow>
    publication_seen root (sy_cache s) \<lparr>dk_files = sy_files s, dk_fates = fates\<rparr> \<Longrightarrow>
    publish_generation lib target now (sy_cache s) \<lparr>dk_files = sy_files s, dk_fates = fates\<rparr> = (r, d) \<Longrightarrow>
    r = Returns c \<or> r = Raises e \<and> c = sy_cache s \<Longrightarrow>
    cache_step lib root P s (s\<lparr>sy_cache := c, sy_files := dk_files d\<rparr>)"
| stops: "target \<le> ca_dirty_generation (sy_cache s) \<Longrightarrow> now \<le> u64_max \<Longrightarrow>
    publication_seen root (sy_cache s) \<lparr>dk_files = sy_files s, dk_fates = fates\<rparr> \<Longrightarrow>
    publish_generation lib target now (sy_cache s) \<lparr>dk_files = sy_files s, dk_fates = fates\<rparr> = (Halts, d) \<Longrightarrow>
    located root opts \<Longrightarrow> sees (dk_files d) view \<Longrightarrow>
    cache_step lib root P s (system_start view (dk_files d) opts build_strategy resolve_strategy)"
| restarts: "located root opts \<Longrightarrow> sees (sy_files s) view \<Longrightarrow>
    cache_step lib root P s (system_start view (sy_files s) opts build_strategy resolve_strategy)"

inductive cache_system_run :: "libraries \<Rightarrow> path \<Rightarrow> contract \<Rightarrow> cache_system \<Rightarrow> bool" for lib root P where
  start: "fs (index_path root) = None \<Longrightarrow> located root opts \<Longrightarrow> sees fs view \<Longrightarrow>
    cache_system_run lib root P (system_start view fs opts build_strategy resolve_strategy)"
| step: "cache_system_run lib root P s \<Longrightarrow> cache_step lib root P s s' \<Longrightarrow> cache_system_run lib root P s'"

section \<open>The invariant\<close>

fun phase_good :: "contract \<Rightarrow> layers \<Rightarrow> running_get \<Rightarrow> get_phase \<Rightarrow> bool" where
  "phase_good P ly g (Answered r) = answer_good P (rg_wanted g) (rg_address g) (rg_etag g) ly r"
| "phase_good P ly g (Restored i plan restored) \<longleftrightarrow> i < length (ly_slots ly) \<and>
     (\<forall>e. restored = Some e \<longrightarrow> entry_good P (rg_address g) e \<and> ce_etag e = rg_etag g)"

definition gets_good :: "contract \<Rightarrow> layers \<Rightarrow> (nat \<rightharpoonup> running_get) \<Rightarrow> bool" where
  "gets_good P ly gets \<longleftrightarrow> (\<forall>k g. gets k = Some g \<longrightarrow> rg_stamp g \<le> u64_max \<and> phase_good P ly g (rg_phase g))"

definition system_good :: "libraries \<Rightarrow> path \<Rightarrow> contract \<Rightarrow> cache_system \<Rightarrow> bool" where
  "system_good lib root P s \<longleftrightarrow> disk_good lib root (sy_files s) P \<and>
     layers_good lib root (sy_files s) P (ca_layers (sy_cache s)) \<and>
     gets_good P (ca_layers (sy_cache s)) (sy_gets s) \<and> opt_ok guard_ok (ca_guard (sy_cache s))"

text \<open>Gets only rely on the number of layers and of pack files, which do not fall.\<close>

definition grows :: "layers \<Rightarrow> layers \<Rightarrow> bool" where
  "grows ly ly' \<longleftrightarrow> length (ly_slots ly') = length (ly_slots ly) \<and> length (ly_pack_files ly) \<le> length (ly_pack_files ly')"

lemma same_shape_grows: "same_shape ly ly' \<Longrightarrow> grows ly ly'"
  by (simp add: same_shape_def grows_def)

lemma answer_good_grows: "grows ly ly' \<Longrightarrow> answer_good P w a et ly r \<Longrightarrow> answer_good P w a et ly' r"
  by (cases r) (auto simp: grows_def plan_for_def)

lemma gets_good_grows: "grows ly ly' \<Longrightarrow> gets_good P ly gets \<Longrightarrow> gets_good P ly' gets"
proof -
  assume g: "grows ly ly'" "gets_good P ly gets"
  have "phase_good P ly' x p" if "phase_good P ly x p" for x p
    using that answer_good_grows [OF g(1)] g(1) by (cases p) (auto simp: grows_def)
  with g(2) show ?thesis by (auto simp: gets_good_def)
qed

lemma gets_goodD:
  assumes "gets_good P ly gets" "gets k = Some g"
  shows "rg_stamp g \<le> u64_max" and "rg_phase g = p \<Longrightarrow> phase_good P ly g p"
  using assms by (auto simp: gets_good_def)

lemma gets_good_update:
  "gets_good P ly gets \<Longrightarrow> rg_stamp g \<le> u64_max \<Longrightarrow> phase_good P ly g (rg_phase g) \<Longrightarrow> gets_good P ly (gets(k \<mapsto> g))"
  by (simp add: gets_good_def)

lemma mark_dirty_if_fields [simp]:
  "ca_layers (mark_dirty_if b c) = ca_layers c" "ca_guard (mark_dirty_if b c) = ca_guard c"
  "ca_options (mark_dirty_if b c) = ca_options c" "ca_published_generation (mark_dirty_if b c) = ca_published_generation c"
  by (simp_all add: mark_dirty_if_def mark_dirty_def)

lemma kept_options [simp]:
  "ca_options (cache_store family a et v c) = ca_options c"
  "ca_options (snd (locked_get f c)) = ca_options c"
  "ca_options (cache_completed c) = ca_options c"
  by (simp_all add: cache_store_def locked_get_def cache_completed_def split: prod.split)

lemma locked_get_good:
  assumes "get_good lib root fs P w a et (ca_layers c) (f (ca_layers c))" and "locked_get f c = (r, c')"
  shows "layers_good lib root fs P (ca_layers c')" "grows (ca_layers c) (ca_layers c')"
    "answer_good P w a et (ca_layers c') r" "ca_guard c' = ca_guard c"
  using assms by (auto simp: locked_get_def get_good_def same_shape_grows split: prod.splits)

lemma layers_start_good:
  assumes "disk_good lib root fs P" and "located root opts" and "sees fs view"
  shows "layers_good lib root fs P (layers_from_options view opts)"
proof -
  have m: "slot_good root n P (MemorySlot Map.empty)" "slot_good root n P (GcSlot (gc_new g))" for n g
    by (simp_all add: slot_good_def slot.all_held_def gc_held_def gc_new_def)
  show ?thesis
    using assms(2) opened_seen_good [OF assms(1,3)]
    by (cases "co_cache_location opts")
      (auto simp: layers_from_options_def layers_good_def pack_layer_open_def m Let_def pack_files_good_def located_def opt_ok_def
        slot_good_def [of _ _ _ "PersistentSlot _ _"] slot.all_held_def split: option.split)
qed

lemma system_start_good:
  assumes "disk_good lib root fs P" and "located root opts" and "sees fs view"
  shows "system_good lib root P (system_start view fs opts build_strategy resolve_strategy)"
  using layers_start_good [OF assms] assms(1)
  by (simp add: system_good_def system_start_def cache_new_def Let_def gets_good_def opt_ok_def)

lemma store_layers_good:
  assumes "layers_good lib root fs P ly" "P a et v" "layers_store family a et v ly = (b, ly')"
  shows "layers_good lib root fs P ly' \<and> same_shape ly ly'"
proof -
  have "entry_good P a \<lparr>ce_family = family, ce_etag = et, ce_value = v\<rparr>" using assms(2) by (simp add: entry_good_def)
  with assms(1,3) show ?thesis
    by (auto simp: layers_store_def Let_def layers_good_def list_all_iff same_shape_def count_in_def slot_good_store)
qed

lemma clear_layers_good:
  "layers_good lib root fs P ly \<Longrightarrow> layers_good lib root fs P (layers_clear ly) \<and> same_shape ly (layers_clear ly)"
  by (auto simp: layers_clear_def layers_good_def list_all_iff same_shape_def slot_good_clear)

lemma completed_slot_good: "slot_good root n P s \<Longrightarrow> slot_good root n P (snd (slot_completed s))"
proof (cases s)
  case (GcSlot l)
  assume good: "slot_good root n P s"
  define f where "f = (\<lambda>(a :: cache_address, e :: gc_entry). saturating_succ (gl_completed_generation l) - ge_last_used_generation e < gl_max_unused_generations l)"
  have d: "distinct (map fst (gl_entries l))" using good by (simp add: slot_good_def GcSlot)
  have "map_of (filter f (gl_entries l)) a = Some e \<Longrightarrow> map_of (gl_entries l) a = Some e" for a e
    by (rule map_of_filter_weaken [OF d])
  then show ?thesis
    using good d unfolding GcSlot slot_good_def slot.all_held_def
    by (auto simp: gc_completed_def Let_def gc_held_def f_def distinct_map_filter)
qed auto

lemma completed_layers_good:
  "layers_good lib root fs P ly \<Longrightarrow> layers_good lib root fs P (layers_completed ly) \<and> same_shape ly (layers_completed ly)"
  by (auto simp: layers_completed_def layers_good_def list_all_iff same_shape_def completed_slot_good)

lemma update_persistent_good:
  "list_all (slot_good root n P) slots \<Longrightarrow> (\<And>w l. PersistentSlot w l \<in> set slots \<Longrightarrow> slot_good root n P (PersistentSlot w (f l))) \<Longrightarrow>
     list_all (slot_good root n P) (update_persistent f slots)"
  by (induction slots) (auto split: layer_slot.split)

lemma length_update_persistent [simp]: "length (update_persistent f slots) = length slots"
  by (induction slots) (auto split: layer_slot.split)

lemma first_persistent_mem: "first_some slot_persistent slots = Some l \<Longrightarrow> \<exists>w. PersistentSlot w l \<in> set slots"
  by (induction slots) (auto split: option.splits elim: slot_persistent.elims)

text \<open>A layer that keeps its root, a known pack file and good entries can replace a persistent layer.\<close>

lemma persistent_slot_good:
  "slot_good root n P (PersistentSlot w l) \<longleftrightarrow> (\<forall>a e. map_of (pl_pending l) a = Some e \<longrightarrow> entry_good P a e) \<and>
     distinct (map fst (pl_pending l)) \<and> opt_ok (\<lambda>r. r = root) (pl_root l) \<and> opt_ok (\<lambda>k. k < n) (pl_pack_file l)"
  by (simp add: slot_good_def slot.all_held_def del: split_paired_All)

lemma prepare_layers_good:
  assumes good: "layers_good lib root fs P ly" and run: "layers_prepare env info tree p ly = (b, ly')"
  shows "layers_good lib root fs P ly' \<and> same_shape ly ly'"
proof (cases "first_persistent ly")
  case None
  with assms show ?thesis by (simp add: layers_prepare_def)
next
  case (Some l)
  obtain changed l' where l': "pack_layer_prepare env info tree p (ly_pack_files ly) l = (changed, l')"
    by (cases "pack_layer_prepare env info tree p (ly_pack_files ly) l")
  have ly': "ly' = ly\<lparr>ly_slots := update_persistent (\<lambda>_. l') (ly_slots ly)\<rparr>"
    using run Some l' by (simp add: layers_prepare_def)
  obtain w where "PersistentSlot w l \<in> set (ly_slots ly)"
    using Some first_persistent_mem unfolding first_persistent_def by blast
  with good have "slot_good root (length (ly_pack_files ly)) P (PersistentSlot w l)"
    by (auto simp: layers_good_def list_all_iff)
  then have "slot_good root (length (ly_pack_files ly)) P (PersistentSlot w' l')" for w'
    using l' by (auto simp: persistent_slot_good pack_layer_prepare_def Let_def simp del: split_paired_All)
  with good have "list_all (slot_good root (length (ly_pack_files ly)) P) (update_persistent (\<lambda>_. l') (ly_slots ly))"
    by (intro update_persistent_good) (auto simp: layers_good_def)
  with good show ?thesis by (simp add: layers_good_def ly' same_shape_def)
qed

lemma prepared_good:
  assumes good: "layers_good lib root fs P (ca_layers c)"
  shows "layers_good lib root fs P (ca_layers (cache_prepared env tree p c))"
    and "same_shape (ca_layers c) (ca_layers (cache_prepared env tree p c))"
    and "ca_guard (cache_prepared env tree p c) = Some (pp_guard p)"
proof -
  define ly where "ly = (if ca_guard c \<noteq> None \<and> \<not> previous_inputs_valid env tree p c then layers_clear (ca_layers c) else ca_layers c)"
  have ly: "layers_good lib root fs P ly" "same_shape (ca_layers c) ly"
    using good clear_layers_good [OF good] by (simp_all add: ly_def)
  obtain b ly' where p: "layers_prepare env (ca_info c) tree p ly = (b, ly')" by (cases "layers_prepare env (ca_info c) tree p ly")
  have c': "cache_prepared env tree p c = mark_dirty_if b (c\<lparr>ca_layers := ly', ca_guard := Some (pp_guard p)\<rparr>)"
    unfolding cache_prepared_def Let_def ly_def [symmetric] p prod.case by (rule refl)
  show "layers_good lib root fs P (ca_layers (cache_prepared env tree p c))"
    and "same_shape (ca_layers c) (ca_layers (cache_prepared env tree p c))"
    and "ca_guard (cache_prepared env tree p c) = Some (pp_guard p)"
    using prepare_layers_good [OF ly(1) p] same_shape_trans [OF ly(2)] by (simp_all add: c')
qed

section \<open>Publications keep it\<close>

lemma batch_new_good: "batch_good lib P batch_new"
  by (simp add: batch_good_def batch_new_ok) (simp add: batch_new_def)

lemma copy_access_updates_good:
  assumes "\<forall>(a, s) \<in> set (pf_access_updates pf). s \<le> u64_max" "batch_good lib P batch"
  shows "batch_good lib P (copy_access_updates_to pf batch)"
proof -
  have "wb_items (fold (\<lambda>(a, s). record_access a s) xs batch) = wb_items batch" for xs batch
    by (induction xs arbitrary: batch) (auto simp: record_access_def)
  then show ?thesis
    using assms copy_access_updates_ok [of batch pf] by (simp add: batch_good_def copy_access_updates_to_def)
qed

lemma pending_good:
  assumes contract: "\<forall>a et v. P a et v \<longrightarrow> value_ok lib v" and slot: "slot_good root n P (PersistentSlot w l)"
  shows "\<forall>(a, e) \<in> set (pl_pending l). P a (ce_etag e) (ce_value e) \<and> value_ok lib (ce_value e)"
proof (intro ballI, clarify)
  fix a b e
  assume "((a, b), e) \<in> set (pl_pending l)"
  with slot have "map_of (pl_pending l) (a, b) = Some e" unfolding persistent_slot_good by (blast intro: map_of_is_SomeI)
  with slot have "P (a, b) (ce_etag e) (ce_value e)" unfolding persistent_slot_good entry_good_def by blast
  with contract show "P (a, b) (ce_etag e) (ce_value e) \<and> value_ok lib (ce_value e)" by blast
qed

lemma publish_batch_good:
  assumes "pack_files_good lib root fs P files" "slot_good root (length files) P (PersistentSlot w l)"
  shows "batch_good lib P (case pl_pack_file l of Some k \<Rightarrow> copy_access_updates_to (files ! k) batch_new | None \<Rightarrow> batch_new)"
proof (cases "pl_pack_file l")
  case (Some k)
  with assms have "pack_file_good lib root fs P (files ! k)"
    by (simp add: persistent_slot_good opt_ok_def pack_files_good_def list_all_length)
  then show ?thesis
    unfolding Some option.case by (intro copy_access_updates_good batch_new_good) (simp add: pack_file_good_def)
qed (simp add: batch_new_good)

lemma layer_publish_good:
  assumes contract: "\<forall>a et v. P a et v \<longrightarrow> value_ok lib v" and inflates: "inflates (lib_inflate lib) (lib_deflate lib)"
    and disk: "disk_good lib root (dk_files d) P" and files: "pack_files_good lib root (dk_files d) P files"
    and slot: "slot_good root (length files) P (PersistentSlot w l)"
    and guard: "guard_ok guard" and now: "now \<le> u64_max"
    and seen: "index_is_seen root (pl_publication_base l) d"
    and run: "pack_layer_publish lib guard now max_age l files d = (r, d')"
  shows "disk_good lib root (dk_files d') P" and "pack_files_good lib root (dk_files d') P files"
    and "r = Returns (l', files') \<Longrightarrow> pack_files_good lib root (dk_files d') P files' \<and> length files \<le> length files' \<and>
      (\<forall>w. slot_good root (length files') P (PersistentSlot w l')) \<and> pl_pending l' = []"
proof -
  have pending: "\<forall>(a, e) \<in> set (pl_pending l). P a (ce_etag e) (ce_value e) \<and> value_ok lib (ce_value e)"
    by (rule pending_good [OF contract slot])
  have "disk_good lib root (dk_files d') P \<and> pack_files_good lib root (dk_files d') P files \<and>
      (\<forall>l' files'. r = Returns (l', files') \<longrightarrow> pack_files_good lib root (dk_files d') P files' \<and> length files \<le> length files' \<and>
        (\<forall>w. slot_good root (length files') P (PersistentSlot w l')) \<and> pl_pending l' = [])"
  proof (cases "pl_root l")
    case None
    with run disk files slot show ?thesis
      by (auto simp: pack_layer_publish_def ret_def persistent_slot_good)
  next
    case (Some root')
    with slot have root': "root' = root" by (simp add: persistent_slot_good opt_ok_def)
    define batch0 where "batch0 = (case pl_pack_file l of Some k \<Rightarrow> copy_access_updates_to (files ! k) batch_new | None \<Rightarrow> batch_new)"
    have batch0: "batch_good lib P batch0" unfolding batch0_def by (rule publish_batch_good [OF files slot])
    let ?opts = "publication_options_new \<lparr>rt_now = now, rt_max_age = max_age\<rparr> (pl_compression l)"
    show ?thesis
    proof (cases "batch_pending lib (pl_pending l) batch0")
      case (Inl e)
      with run Some have "r = Raises e \<and> d' = d"
        by (auto simp: pack_layer_publish_def batch0_def [symmetric] Let_def and_then_def raise_def)
      with disk files show ?thesis by simp
    next
      case (Inr batch)
      have batch: "batch_good lib P batch" by (rule batch_pending_good [OF batch0 pending Inr])
      obtain q d1 where p: "publish_batch (lib_inflate lib) (lib_deflate lib) root (Some guard) (pl_publication_base l) batch ?opts NoFault d = (q, d1)"
        by (cases "publish_batch (lib_inflate lib) (lib_deflate lib) root (Some guard) (pl_publication_base l) batch ?opts NoFault d")
      have now': "rt_now (po_retention ?opts) \<le> u64_max" "opt_ok guard_ok (Some guard)"
        using now guard by (simp_all add: publication_options_new_def opt_ok_def)
      note kept = publish_keeps_disk_good [OF disk batch inflates now' p seen]
      let ?pf = "\<lambda>view. open_with_options view root persistent_serializer (pl_allow_collecting_memory l)"
      define l2 where "l2 view = l\<lparr>pl_pending := [], pl_publication_base := revision_base (?pf view), pl_pack_file := Some (length files),
        pl_reader_generation := pl_reader_generation l + 1, pl_active := True\<rparr>" for view
      obtain v d2 where rd: "read_files (index_path root) d1 = (v, d2)" by (cases "read_files (index_path root) d1")
      have d1: "dk_files d1 = dk_files d'"
        and r: "(\<exists>view. sees (dk_files d') view \<and> r = Returns (l2 view, files @ [?pf view])) \<or> (\<forall>x. r \<noteq> Returns x)"
        using run Some p rd read_files_sees [OF rd] unfolding root' l2_def
        by (auto simp: pack_layer_publish_def batch0_def [symmetric] Inr Let_def and_then_def [abs_def] ret_def split: outcome.splits prod.splits)
      have l2: "slot_good root (length (files @ [?pf view])) P (PersistentSlot w (l2 view))" "pl_pending (l2 view) = []" for w view
        using slot by (simp_all add: l2_def persistent_slot_good opt_ok_def)
      have old: "pack_files_good lib root (dk_files d') P files"
      proof (cases "pi_revision (current_index (dk_files d) root) < u64_max")
        case True
        with files kept(2) publish_shrinks [OF p seen] show ?thesis
          unfolding d1 [symmetric] by (auto simp: pack_files_good_def list_all_iff intro: pack_file_good_shrinks)
      next
        case False
        with publish_at_limit [OF p seen] files show ?thesis unfolding d1 [symmetric] by simp
      qed
      have files2: "pack_files_good lib root (dk_files d') P (files @ [?pf view])" if "sees (dk_files d') view" for view
        using old opened_seen_good [OF _ that] kept(1) unfolding d1 by (simp add: pack_files_good_def)
      have "pack_files_good lib root (dk_files d') P files' \<and> length files \<le> length files' \<and>
          (\<forall>w. slot_good root (length files') P (PersistentSlot w l')) \<and> pl_pending l' = []"
        if "r = Returns (l', files')" for l' files'
        using r that files2 l2 by auto
      with kept(1) old show ?thesis unfolding d1 by blast
    qed
  qed
  then show "disk_good lib root (dk_files d') P" "pack_files_good lib root (dk_files d') P files"
    "r = Returns (l', files') \<Longrightarrow> pack_files_good lib root (dk_files d') P files' \<and> length files \<le> length files' \<and>
      (\<forall>w. slot_good root (length files') P (PersistentSlot w l')) \<and> pl_pending l' = []" by blast+
qed

lemma slot_good_mono: "slot_good root n P s \<Longrightarrow> n \<le> m \<Longrightarrow> slot_good root m P s"
  by (auto simp: slot_good_def opt_ok_def split: option.splits)

lemma layers_publish_good:
  assumes contract: "\<forall>a et v. P a et v \<longrightarrow> value_ok lib v" and inflates: "inflates (lib_inflate lib) (lib_deflate lib)"
    and disk: "disk_good lib root (dk_files d) P" and good: "layers_good lib root (dk_files d) P ly"
    and guard: "guard_ok guard" and now: "now \<le> u64_max"
    and seen: "\<And>l. first_persistent ly = Some l \<Longrightarrow> index_is_seen root (pl_publication_base l) d"
    and run: "layers_publish lib guard now max_age ly d = (r, d')"
  shows "disk_good lib root (dk_files d') P \<and> layers_good lib root (dk_files d') P ly \<and>
    (\<forall>ly'. r = Returns ly' \<longrightarrow> layers_good lib root (dk_files d') P ly' \<and> grows ly ly')"
proof (cases "first_persistent ly")
  case None
  with run have "r = Returns ly \<and> d' = d" by (simp add: layers_publish_def ret_def)
  with disk good show ?thesis by (simp add: grows_def)
next
  case (Some l)
  obtain q d1 where p: "pack_layer_publish lib guard now max_age l (ly_pack_files ly) d = (q, d1)"
    by (cases "pack_layer_publish lib guard now max_age l (ly_pack_files ly) d")
  obtain w where "PersistentSlot w l \<in> set (ly_slots ly)"
    using Some first_persistent_mem unfolding first_persistent_def by blast
  with good have slot: "slot_good root (length (ly_pack_files ly)) P (PersistentSlot w l)"
    and slots: "list_all (slot_good root (length (ly_pack_files ly)) P) (ly_slots ly)"
    and files: "pack_files_good lib root (dk_files d) P (ly_pack_files ly)"
    by (auto simp: layers_good_def list_all_iff)
  note kept = layer_publish_good [OF contract inflates disk files slot guard now seen [OF Some] p]
  have d1: "d1 = d'" using run Some p by (auto simp: layers_publish_def and_then_def ret_def split: outcome.splits)
  have "layers_good lib root (dk_files d') P ly' \<and> grows ly ly'" if ret: "r = Returns ly'" for ly'
  proof -
    obtain l' files' where q: "q = Returns (l', files')"
      and ly': "ly' = ly\<lparr>ly_slots := update_persistent (\<lambda>_. l') (ly_slots ly), ly_pack_files := files'\<rparr>"
      using run Some p ret by (auto simp: layers_publish_def and_then_def ret_def split: outcome.splits)
    note g = kept(3) [OF q]
    then have "list_all (slot_good root (length files') P) (ly_slots ly)"
      using slots by (auto simp: list_all_iff intro: slot_good_mono)
    then have "list_all (slot_good root (length files') P) (update_persistent (\<lambda>_. l') (ly_slots ly))"
      by (rule update_persistent_good) (use g in blast)
    with g show ?thesis by (simp add: ly' d1 layers_good_def grows_def)
  qed
  with kept(1,2) slots show ?thesis by (simp add: d1 layers_good_def)
qed

lemma publish_generation_good:
  assumes contract: "\<forall>a et v. P a et v \<longrightarrow> value_ok lib v" and inflates: "inflates (lib_inflate lib) (lib_deflate lib)"
    and good: "system_good lib root P s" and version: "guard_ok (current_guard (sy_cache s))" and now: "now \<le> u64_max"
    and seen: "publication_seen root (sy_cache s) \<lparr>dk_files = sy_files s, dk_fates = fates\<rparr>"
    and run: "publish_generation lib target now (sy_cache s) \<lparr>dk_files = sy_files s, dk_fates = fates\<rparr> = (r, d)"
  shows "disk_good lib root (dk_files d) P"
    and "system_good lib root P (s\<lparr>sy_files := dk_files d\<rparr>)"
    and "r = Returns c \<Longrightarrow> system_good lib root P (s\<lparr>sy_cache := c, sy_files := dk_files d\<rparr>)"
proof -
  let ?c = "sy_cache s" and ?d = "\<lparr>dk_files = sy_files s, dk_fates = fates\<rparr>"
  have start: "disk_good lib root (dk_files ?d) P" "layers_good lib root (dk_files ?d) P (ca_layers ?c)"
    using good by (simp_all add: system_good_def)
  have "disk_good lib root (dk_files d) P \<and> layers_good lib root (dk_files d) P (ca_layers ?c) \<and>
      (\<forall>c. r = Returns c \<longrightarrow> layers_good lib root (dk_files d) P (ca_layers c) \<and> grows (ca_layers ?c) (ca_layers c) \<and> ca_guard c = ca_guard ?c)"
  proof (cases "\<not> is_writable_filesystem_cache ?c \<or> target \<le> ca_published_generation ?c \<or> ca_guard_error ?c \<noteq> None")
    case True
    with run have "d = ?d" "r = Returns ?c \<or> (\<forall>c. r \<noteq> Returns c)"
      by (auto simp: publish_generation_def ret_def raise_def split: if_splits)
    with start show ?thesis by (auto simp: grows_def)
  next
    case False
    obtain q d1 where p: "layers_publish lib (current_guard ?c) now (co_max_age (ca_options ?c)) (ca_layers ?c) ?d = (q, d1)"
      by (cases "layers_publish lib (current_guard ?c) now (co_max_age (ca_options ?c)) (ca_layers ?c) ?d")
    have "d1 = d" "r = Returns c \<Longrightarrow> \<exists>ly. q = Returns ly \<and> ca_layers c = ly \<and> ca_guard c = ca_guard ?c" for c
      using run False p by (auto simp: publish_generation_def and_then_def ret_def split: outcome.splits)
    moreover have "index_is_seen root (pl_publication_base l) ?d" if "first_persistent (ca_layers ?c) = Some l" for l
      using seen that by (simp add: publication_seen_def)
    note layers_publish_good [OF contract inflates start version now this p]
    ultimately show ?thesis by blast
  qed
  with good show "disk_good lib root (dk_files d) P"
    and "system_good lib root P (s\<lparr>sy_files := dk_files d\<rparr>)"
    and "r = Returns c \<Longrightarrow> system_good lib root P (s\<lparr>sy_cache := c, sy_files := dk_files d\<rparr>)"
    by (auto simp: system_good_def intro: gets_good_grows)
qed

section \<open>Every step keeps it\<close>

lemma current_guard_ok: "opt_ok guard_ok (ca_guard c) \<Longrightarrow> guard_ok (current_guard c)"
  by (cases "ca_guard c") (simp_all add: current_guard_def guard_ok_def opt_ok_def)

lemma access_stamp_bound: "now \<le> u64_max \<Longrightarrow> access_stamp now c \<le> u64_max"
  by (simp add: access_stamp_def)

lemma get_step_good:
  assumes good: "system_good lib root P s" and g: "rg_stamp g \<le> u64_max"
    and f: "get_good lib root (sy_files s) P (rg_wanted g) (rg_address g) (rg_etag g) (ca_layers (sy_cache s)) (f (ca_layers (sy_cache s)))"
    and run: "locked_get f (sy_cache s) = (r, c)"
  shows "system_good lib root P (s\<lparr>sy_cache := c, sy_gets := (sy_gets s)(k \<mapsto> g\<lparr>rg_phase := Answered r\<rparr>)\<rparr>)"
proof -
  note kept = locked_get_good [OF f run]
  have "gets_good P (ca_layers c) (sy_gets s)"
    using good kept(2) by (auto simp: system_good_def intro: gets_good_grows)
  then have "gets_good P (ca_layers c) ((sy_gets s)(k \<mapsto> g\<lparr>rg_phase := Answered r\<rparr>))"
    using kept(3) g by (intro gets_good_update) simp_all
  with good kept(1,4) show ?thesis by (simp add: system_good_def)
qed

lemma layers_step_good:
  assumes "system_good lib root P s" "layers_good lib root (sy_files s) P (ca_layers c)" "same_shape (ca_layers (sy_cache s)) (ca_layers c)"
    and "opt_ok guard_ok (ca_guard c)"
  shows "system_good lib root P (s\<lparr>sy_cache := c\<rparr>)"
  using assms same_shape_grows by (auto simp: system_good_def intro: gets_good_grows)

lemma system_good_work:
  assumes step: "cache_work lib P s s'" and good: "system_good lib root P s"
  shows "system_good lib root P s'"
  using step
proof cases
  case (begins k now wanted family a et r c)
  let ?g = "\<lparr>rg_wanted = wanted, rg_family = family, rg_address = a, rg_etag = et,
    rg_stamp = access_stamp now (sy_cache s), rg_phase = Answered r\<rparr>"
  have "system_good lib root P (s\<lparr>sy_cache := c, sy_gets := (sy_gets s)(k \<mapsto> ?g\<lparr>rg_phase := Answered r\<rparr>)\<rparr>)"
    using good begins access_stamp_bound by (intro get_step_good [where g = ?g]) (simp_all add: system_good_def begin_get_good)
  then show ?thesis by (simp add: begins)
next
  case (restores k g i plan view restored files)
  let ?ly = "ca_layers (sy_cache s)"
  have ly: "layers_good lib root (sy_files s) P ?ly" and gets: "gets_good P ?ly (sy_gets s)" using good by (simp_all add: system_good_def)
  have g: "rg_stamp g \<le> u64_max" "i < length (ly_slots ?ly)"
    "plan_for (rg_address g) (rg_etag g) (length (ly_pack_files ?ly)) plan"
    using gets_goodD [OF gets restores(2)] restores(3) by simp_all
  have pf: "pack_files_good lib root (sy_files s) P (ly_pack_files ?ly)" using ly by (simp add: layers_good_def)
  from restore_entry_good [OF pf g(3) restores(4)] restores(5) have files: "pack_files_good lib root (sy_files s) P files"
    "length files = length (ly_pack_files ?ly)" "\<And>e. restored = Some e \<Longrightarrow> entry_good P (rg_address g) e \<and> ce_etag e = rg_etag g"
    by (metis option.inject prod.inject)+
  let ?c = "(sy_cache s)\<lparr>ca_layers := ?ly\<lparr>ly_pack_files := files\<rparr>\<rparr>"
  have "gets_good P (ca_layers ?c) (sy_gets s)"
    using files(2) by (intro gets_good_grows [OF _ gets]) (simp add: grows_def)
  then have "gets_good P (ca_layers ?c) ((sy_gets s)(k \<mapsto> g\<lparr>rg_phase := Restored i plan restored\<rparr>))"
    using g files(3) by (intro gets_good_update) simp_all
  with good ly files show ?thesis by (simp add: restores system_good_def layers_good_def)
next
  case (finishes k g i plan restored r c)
  have "rg_stamp g \<le> u64_max" "i < length (ly_slots (ca_layers (sy_cache s)))"
    "\<And>e. restored = Some e \<Longrightarrow> entry_good P (rg_address g) e \<and> ce_etag e = rg_etag g"
    using gets_goodD [of P "ca_layers (sy_cache s)" "sy_gets s", OF _ finishes(2)] good finishes(3) by (simp_all add: system_good_def)
  with good finishes show ?thesis
    by (simp only: finishes(1)) (rule get_step_good [where f = "finish_restore (rg_wanted g) (rg_family g) (rg_address g) (rg_etag g) (rg_stamp g) i plan restored"],
      simp_all add: system_good_def finish_restore_good)
next
  case (returns k g v changed)
  with good show ?thesis by (auto simp: system_good_def gets_good_def)
next
  case (stores a et v family)
  obtain b ly where ly: "layers_store family a et v (ca_layers (sy_cache s)) = (b, ly)"
    by (cases "layers_store family a et v (ca_layers (sy_cache s))")
  have "layers_good lib root (sy_files s) P (ca_layers (sy_cache s))" using good by (simp add: system_good_def)
  from store_layers_good [OF this stores(2) ly] good show ?thesis
    unfolding stores by (intro layers_step_good) (simp_all add: cache_store_def ly system_good_def)
next
  case completes
  have "layers_good lib root (sy_files s) P (ca_layers (sy_cache s))" using good by (simp add: system_good_def)
  from completed_layers_good [OF this] good show ?thesis
    unfolding completes by (intro layers_step_good) (simp_all add: cache_completed_def system_good_def)
next
  case (prepares p env tree)
  have "layers_good lib root (sy_files s) P (ca_layers (sy_cache s))" using good by (simp add: system_good_def)
  from prepared_good [OF this] good show ?thesis
    unfolding prepares by (intro layers_step_good) (simp_all add: opt_ok_def prepares(2))
qed

lemma system_good_step:
  assumes contract: "\<forall>a et v. P a et v \<longrightarrow> value_ok lib v" and inflates: "inflates (lib_inflate lib) (lib_deflate lib)"
    and step: "cache_step lib root P s s'" and good: "system_good lib root P s"
  shows "system_good lib root P s'"
  using step
proof cases
  case works
  from system_good_work [OF this good] show ?thesis .
next
  case (publishes target now fates r d c e)
  have "guard_ok (current_guard (sy_cache s))" using good by (intro current_guard_ok) (simp add: system_good_def)
  note kept = publish_generation_good [OF contract inflates good this publishes(3-5)]
  from publishes(6) kept(2,3) show ?thesis unfolding publishes(1) by auto
next
  case (stops target now fates d opts build_strategy resolve_strategy)
  have "guard_ok (current_guard (sy_cache s))" using good by (intro current_guard_ok) (simp add: system_good_def)
  from publish_generation_good(1) [OF contract inflates good this stops(3-5)] stops(6,7) show ?thesis
    unfolding stops(1) by (intro system_start_good)
next
  case (restarts opts build_strategy resolve_strategy)
  have "disk_good lib root (sy_files s) P" using good by (simp add: system_good_def)
  with restarts show ?thesis by (simp add: system_start_good)
qed

lemma system_good_run:
  assumes "\<forall>a et v. P a et v \<longrightarrow> value_ok lib v" "inflates (lib_inflate lib) (lib_deflate lib)"
  shows "cache_system_run lib root P s \<Longrightarrow> system_good lib root P s"
proof (induction rule: cache_system_run.induct)
  case (start fs opts build_strategy resolve_strategy)
  then show ?case by (intro system_start_good disk_good_start)
next
  case (step s s')
  then show ?case using system_good_step [OF assms] by blast
qed

lemma answers_good:
  assumes "\<forall>a et v. P a et v \<longrightarrow> value_ok lib v" "inflates (lib_inflate lib) (lib_deflate lib)"
    and "cache_system_run lib root P s" "sy_gets s k = Some g" "rg_phase g = Answered (Ready (Some v) changed)"
  shows "P (rg_address g) (rg_etag g) v \<and> value_type v = rg_wanted g"
proof -
  have "gets_good P (ca_layers (sy_cache s)) (sy_gets s)" using system_good_run [OF assms(1-3)] by (simp add: system_good_def)
  from gets_goodD(2) [OF this assms(4,5)] show ?thesis by simp
qed

end
