(* ===== verification/Cache_Restart.thy ===== *)
theory Cache_Restart
  imports Cache_Runs
begin

text \<open>
  What the cache does not lose.  An item that waits in a persistent layer is in the batch of the next
  publication; after a publication, whoever opens the directory finds it; and while anything waits, the
  generations say that there is something to publish.
\<close>

section \<open>From the pending items to the disk\<close>

lemma batch_pending_step:
  assumes "batch_pending lib ((a, e) # pending) batch = Inr batch'" and "btree_ok (wb_items batch)"
  obtains item c p batch1 where "value_to_item lib (ce_family e) (ce_value e) = Inr item"
    and "serializer_encode persistent_serializer item = Inr (c, p)"
    and "batch_pending lib pending batch1 = Inr batch'" and "btree_ok (wb_items batch1)"
    and "map_of (wb_items batch1) = (map_of (wb_items batch))(to_pack_file_address a \<mapsto>
      \<lparr>pd_etag = ce_etag e, pd_type_id = item_type_id item, pd_codec_id = c, pd_payload = p\<rparr>)"
proof -
  from assms(1) obtain item batch1 where item: "value_to_item lib (ce_family e) (ce_value e) = Inr item"
    and insert: "batch_insert persistent_serializer (to_pack_file_address a) (ce_etag e) item batch = Inr batch1"
    and rest: "batch_pending lib pending batch1 = Inr batch'"
    by (auto simp: batch_pending_def split: sum.splits)
  from insert obtain c p where enc: "serializer_encode persistent_serializer item = Inr (c, p)"
    and b: "wb_items batch1 = btree_insert (to_pack_file_address a) \<lparr>pd_etag = ce_etag e,
      pd_type_id = item_type_id item, pd_codec_id = c, pd_payload = p\<rparr> (wb_items batch)"
    by (auto simp: batch_insert_def split: sum.splits)
  show thesis by (rule that [OF item enc rest]) (simp_all add: b btree_ok_insert btree_get_insert assms(2))
qed

lemma batch_pending_other:
  assumes "batch_pending lib pending batch = Inr batch'" "btree_ok (wb_items batch)" "a \<notin> fst ` set pending"
  shows "map_of (wb_items batch') (to_pack_file_address a) = map_of (wb_items batch) (to_pack_file_address a)"
  using assms
proof (induction pending arbitrary: batch)
  case (Cons x pending)
  obtain b e where x: "x = (b, e)" by (cases x)
  from batch_pending_step [OF Cons.prems(1) [unfolded x] Cons.prems(2)] obtain item c p batch1 where
    s: "batch_pending lib pending batch1 = Inr batch'" "btree_ok (wb_items batch1)"
      "map_of (wb_items batch1) = (map_of (wb_items batch))(to_pack_file_address b \<mapsto>
        \<lparr>pd_etag = ce_etag e, pd_type_id = item_type_id item, pd_codec_id = c, pd_payload = p\<rparr>)" by metis
  from Cons.IH [OF s(1,2)] s(3) Cons.prems(3) show ?case by (auto simp: x)
qed (simp add: batch_pending_def)

lemma batch_pending_item:
  assumes "batch_pending lib pending batch = Inr batch'" "btree_ok (wb_items batch)" "distinct (map fst pending)"
    and "map_of pending a = Some e"
  shows "\<exists>item c p. value_to_item lib (ce_family e) (ce_value e) = Inr item \<and>
    serializer_encode persistent_serializer item = Inr (c, p) \<and>
    map_of (wb_items batch') (to_pack_file_address a) =
      Some \<lparr>pd_etag = ce_etag e, pd_type_id = item_type_id item, pd_codec_id = c, pd_payload = p\<rparr>"
  using assms
proof (induction pending arbitrary: batch)
  case (Cons x pending)
  obtain b e' where x: "x = (b, e')" by (cases x)
  from batch_pending_step [OF Cons.prems(1) [unfolded x] Cons.prems(2)] obtain item c p batch1 where
    s: "value_to_item lib (ce_family e') (ce_value e') = Inr item" "serializer_encode persistent_serializer item = Inr (c, p)"
      "batch_pending lib pending batch1 = Inr batch'" "btree_ok (wb_items batch1)"
      "map_of (wb_items batch1) = (map_of (wb_items batch))(to_pack_file_address b \<mapsto>
        \<lparr>pd_etag = ce_etag e', pd_type_id = item_type_id item, pd_codec_id = c, pd_payload = p\<rparr>)" by metis
  show ?case
  proof (cases "b = a")
    case True
    with Cons.prems(3,4) have "a \<notin> fst ` set pending" "e' = e" by (simp_all add: x)
    with batch_pending_other [OF s(3,4)] s True show ?thesis by auto
  next
    case False
    with Cons.IH [OF s(3,4)] Cons.prems(3,4) show ?thesis by (simp add: x)
  qed
qed simp

lemma batch_good_ok: "batch_good lib P batch \<Longrightarrow> batch_ok batch \<and> btree_ok (wb_items batch)"
  by (simp add: batch_good_def batch_ok_def)

lemma layer_publish_stores:
  assumes contract: "\<forall>a et v. P a et v \<longrightarrow> value_ok lib v" and inflates: "inflates (lib_inflate lib) (lib_deflate lib)"
    and disk: "disk_good lib root (dk_files d) P" and files: "pack_files_good lib root (dk_files d) P files"
    and slot: "slot_good root (length files) P (PersistentSlot w l)" and guard: "guard_ok guard" and now: "now \<le> u64_max"
    and root: "pl_root l = Some root" and run: "pack_layer_publish lib guard now max_age l files d = (Returns r, d')"
    and e: "map_of (pl_pending l) a = Some e"
  shows "\<exists>item c p. value_to_item lib (ce_family e) (ce_value e) = Inr item \<and> item_ok item \<and>
    serializer_encode persistent_serializer item = Inr (c, p) \<and>
    stored (lib_inflate lib) (dk_files d') root (current_index (dk_files d') root) (to_pack_file_address a) =
      Some (ce_etag e, item_type_id item, c, p) \<and> index_sound (current_index (dk_files d') root)"
proof -
  define batch0 where "batch0 = (case pl_pack_file l of Some k \<Rightarrow> copy_access_updates_to (files ! k) batch_new | None \<Rightarrow> batch_new)"
  have batch0: "batch_good lib P batch0" unfolding batch0_def by (rule publish_batch_good [OF files slot])
  let ?opts = "publication_options_new \<lparr>rt_now = now, rt_max_age = max_age\<rparr> (pl_compression l)"
  obtain batch d1 where b: "batch_pending lib (pl_pending l) batch0 = Inr batch"
    and p: "publish_batch (lib_inflate lib) (lib_deflate lib) root (Some guard) (pl_publication_base l) batch ?opts NoFault d = (Returns (), d1)"
    and d1: "dk_files d' = dk_files d1"
    using run root
    by (cases "batch_pending lib (pl_pending l) batch0")
      (auto simp: pack_layer_publish_def batch0_def [symmetric] Let_def and_then_def [abs_def] ret_def raise_def
        split: prod.splits outcome.splits dest: read_files_sees)
  have distinct: "distinct (map fst (pl_pending l))" using slot by (simp add: persistent_slot_good)
  have pending: "\<forall>(a, e) \<in> set (pl_pending l). P a (ce_etag e) (ce_value e) \<and> value_ok lib (ce_value e)"
    by (rule pending_good [OF contract slot])
  have batch: "batch_good lib P batch" by (rule batch_pending_good [OF batch0 pending b])
  from batch_pending_item [OF b _ distinct e] batch_good_ok [OF batch0] obtain item c p where
    item: "value_to_item lib (ce_family e) (ce_value e) = Inr item" "serializer_encode persistent_serializer item = Inr (c, p)"
    and m: "map_of (wb_items batch) (to_pack_file_address a) =
      Some \<lparr>pd_etag = ce_etag e, pd_type_id = item_type_id item, pd_codec_id = c, pd_payload = p\<rparr>" by blast
  have ok: "item_ok item"
    using value_restored(1) [OF _ item(1)] pending map_of_SomeD [OF e] by auto
  have sound: "index_sound (current_index (dk_files d) root)" using disk by (simp add: disk_good_def)
  have now': "rt_now (po_retention ?opts) \<le> u64_max" "opt_ok guard_ok (Some guard)"
    using now guard by (simp_all add: publication_options_new_def opt_ok_def)
  have "published_over (lib_inflate lib) root (Some guard) (pl_publication_base l) batch ?opts
      (seen_index root (pl_publication_base l) d) (dk_files d) (dk_files d')"
    using publish_outcome(1) [OF sound _ inflates now' p] batch_good_ok [OF batch] unfolding d1 by simp
  then obtain base0 where "index_sound (current_index (dk_files d') root)"
    and "stored (lib_inflate lib) (dk_files d') root (current_index (dk_files d') root) =
      published_item (lib_inflate lib) (dk_files d) root (pi_revision (current_index (dk_files d') root)) (po_retention ?opts) batch base0"
    unfolding published_over_def Let_def by blast
  with item ok m show ?thesis by (simp add: published_item_def)
qed

section \<open>From the disk to a new cache\<close>

lemma namespace_type_item:
  "value_to_item lib family v = Inr item \<Longrightarrow> namespace_type n = Some (t, family) \<Longrightarrow> t = item_type_id item"
  by (cases family; cases v) (auto simp: value_to_item_def namespace_type_def map_sum_Inr split: if_splits)

definition first_plan :: "cache_address \<Rightarrow> bytes option \<Rightarrow> persistent_restore" where
  "first_plan a et = \<lparr>pr_pack_file = 0, pr_reader_generation = 0, pr_address = to_pack_file_address a, pr_etag = et,
     pr_namespace = fst a\<rparr>"

lemma restore_opened:
  assumes sound: "index_sound (current_index fs root)" and v: "value_ok lib v" "value_to_item lib family v = Inr item"
    and enc: "serializer_encode persistent_serializer item = Inr (c, p)" and ns: "namespace_type (fst a) = Some (t, family)"
    and st: "stored (lib_inflate lib) fs root (current_index fs root) (to_pack_file_address a) = Some (et, item_type_id item, c, p)"
  shows "\<exists>files. restore_entry lib fs (first_plan a et) [open_with_options fs root persistent_serializer collect] =
    Some (Some \<lparr>ce_family = family, ce_etag = et, ce_value = v\<rparr>, files)"
proof -
  let ?pf = "open_with_options fs root persistent_serializer collect"
  note item = value_restored [OF v]
  have t: "t = item_type_id item" by (rule namespace_type_item [OF v(2) ns])
  have pf: "pack_file_ok (lib_inflate lib) fs ?pf"
    using sound by (intro pack_file_ok_open) (simp add: index_sound_def)
  have fields: "pf_root ?pf = root" "pf_index ?pf = current_index fs root" "pf_serializer ?pf = persistent_serializer"
    by (simp_all add: open_with_options_def)
  have "serializer_decode persistent_serializer (item_type_id item) (item_type_id item) c p = Some item"
    using persistent_decode_iff [OF persistent_encoded(3) [OF enc]] enc item(1) by simp
  with restore_stored [OF pf, of t "to_pack_file_address a" et] obtain buffers r where
    r: "prepare_restore (lib_inflate lib) fs t (to_pack_file_address a) et ?pf = (r, ?pf\<lparr>pf_content_buffers := buffers\<rparr>)"
      "Option.bind r (restore_decode t) = Some item"
    by (auto simp: fields st t persistent_encoded(1) [OF enc])
  then show ?thesis by (simp add: restore_entry_def first_plan_def ns item(2))
qed

lemma use_entry_found:
  assumes "value_type (ce_value e) = wanted"
  shows "\<exists>changed ly'. use_entry wanted family a et stamp i e ly = (Some (ce_value e, changed), ly')"
  using assms by (simp add: use_entry_def entry_value_def Let_def split: prod.split)

lemma get_found_used:
  assumes "value_type (ce_value e) = wanted"
  shows "\<exists>changed ly'. get_found (use_entry wanted family a et stamp i e ly) f = (Ready (Some (ce_value e)) changed, ly')"
  using use_entry_found [OF assms, of family a et stamp i ly] by (auto simp: get_found_def)

lemma lookup_at_same: "slot_lookup a et (ly_slots ly ! i) = (r, ly_slots ly ! i) \<Longrightarrow> lookup_at a et i ly = (r, ly)"
  by (simp add: lookup_at_def)

lemma fresh_begin:
  assumes "co_kind opts = Filesystem" "co_cache_location opts = Some root"
  shows "\<exists>i ly. begin_get wanted family a et stamp (layers_from_options fs opts) = (DeferredGet i (first_plan a et), ly) \<and>
    ly_pack_files ly = [open_with_options fs root persistent_serializer (co_allow_collecting_memory opts)] \<and>
    (\<forall>files e. value_type (ce_value e) = wanted \<longrightarrow> (\<exists>changed ly'.
      finish_restore wanted family a et stamp i (first_plan a et) (Some e) (ly\<lparr>ly_pack_files := files\<rparr>) =
        (Ready (Some (ce_value e)) changed, ly')))"
proof -
  let ?mem = "case co_max_memory_generations opts of
      Some generations \<Rightarrow> if generations = 0 then [] else [GcSlot (gc_new generations)] | None \<Rightarrow> [MemorySlot Map.empty]"
  have "?mem = [] \<or> (\<exists>x. ?mem = [x] \<and> slot_lookup a et x = (Miss, x))"
    by (auto simp: memory_lookup_def gc_lookup_def gc_new_def split: option.split)
  moreover obtain l where ly: "layers_from_options fs opts = \<lparr>ly_slots = ?mem @ [PersistentSlot (\<not> co_readonly opts) l], ly_work = no_work,
      ly_pack_files = [open_with_options fs root persistent_serializer (co_allow_collecting_memory opts)]\<rparr>"
    and l: "pack_lookup a et l = (Deferred (first_plan a et), l)"
    using assms by (auto simp: layers_from_options_def Let_def pack_layer_open_def pack_lookup_def first_plan_def)
  ultimately consider (none) "?mem = []" | (one) x where "?mem = [x]" "slot_lookup a et x = (Miss, x)" by blast
  then show ?thesis
  proof cases
    case none
    let ?ly = "layers_from_options fs opts"
    have at: "lookup_at a et 0 (?ly\<lparr>ly_pack_files := files\<rparr>) = (Deferred (first_plan a et), ?ly\<lparr>ly_pack_files := files\<rparr>)" for files
      by (rule lookup_at_same) (simp add: ly none l)
    have begins: "begin_get wanted family a et stamp ?ly = (DeferredGet 0 (first_plan a et), ?ly)"
      using at [of "ly_pack_files ?ly"] by (simp add: begin_get_def ly none)
    have finishes: "finish_restore wanted family a et stamp 0 (first_plan a et) (Some e) (?ly\<lparr>ly_pack_files := files\<rparr>) =
        get_found (use_entry wanted family a et stamp 0 e (?ly\<lparr>ly_pack_files := files\<rparr>)) (get_missed family)" for e files
      using at [of files] by (simp add: finish_restore_def get_found_def [of "(None, _)"] reads_from_def)
    show ?thesis
      by (intro exI [of _ 0] exI [of _ ?ly] conjI allI impI, rule begins, simp add: ly, unfold finishes, erule get_found_used)
  next
    case (one x)
    let ?ly = "layers_from_options fs opts"
    have at: "lookup_at a et 0 (?ly\<lparr>ly_pack_files := files\<rparr>) = (Miss, ?ly\<lparr>ly_pack_files := files\<rparr>)"
        "lookup_at a et (Suc 0) (?ly\<lparr>ly_pack_files := files\<rparr>) = (Deferred (first_plan a et), ?ly\<lparr>ly_pack_files := files\<rparr>)" for files
      by (rule lookup_at_same, simp add: ly one l)+
    have begins: "begin_get wanted family a et stamp ?ly = (DeferredGet (Suc 0) (first_plan a et), ?ly)"
      using at [of "ly_pack_files ?ly"] by (simp add: begin_get_def ly one)
    have finishes: "finish_restore wanted family a et stamp (Suc 0) (first_plan a et) (Some e) (?ly\<lparr>ly_pack_files := files\<rparr>) =
        get_found (use_entry wanted family a et stamp (Suc 0) e (?ly\<lparr>ly_pack_files := files\<rparr>)) (get_missed family)" for e files
      using at [of files] by (simp add: finish_restore_def get_found_def [of "(None, _)"] reads_from_def)
    show ?thesis
      by (intro exI [of _ "Suc 0"] exI [of _ ?ly] conjI allI impI, rule begins, simp add: ly, unfold finishes, erule get_found_used)
  qed
qed

lemma fresh_get:
  assumes "co_kind opts = Filesystem" "co_cache_location opts = Some root" "value_type v = wanted"
    and restored: "\<exists>files. restore_entry lib fs (first_plan a et)
      [open_with_options fs root persistent_serializer (co_allow_collecting_memory opts)] =
      Some (Some \<lparr>ce_family = f, ce_etag = et, ce_value = v\<rparr>, files)"
  shows "\<exists>c. cache_get lib fs wanted family a et now (cache_new fs opts build_strategy resolve_strategy) = Some (Some v, c)"
proof -
  let ?c = "cache_new fs opts build_strategy resolve_strategy"
  let ?stamp = "access_stamp now ?c"
  have ly: "ca_layers ?c = layers_from_options fs opts" by (simp add: cache_new_def Let_def)
  have enabled: "cache_is_enabled ?c" using assms(1) by (simp add: cache_is_enabled_def cache_new_def Let_def)
  from fresh_begin [OF assms(1,2)] obtain i ly where
    b: "begin_get wanted family a et ?stamp (layers_from_options fs opts) = (DeferredGet i (first_plan a et), ly)"
      "ly_pack_files ly = [open_with_options fs root persistent_serializer (co_allow_collecting_memory opts)]"
    and finish: "\<And>files e. value_type (ce_value e) = wanted \<Longrightarrow> \<exists>changed ly'.
      finish_restore wanted family a et ?stamp i (first_plan a et) (Some e) (ly\<lparr>ly_pack_files := files\<rparr>) =
        (Ready (Some (ce_value e)) changed, ly')" by blast
  from restored obtain files where r: "restore_entry lib fs (first_plan a et) (ly_pack_files ly) =
      Some (Some \<lparr>ce_family = f, ce_etag = et, ce_value = v\<rparr>, files)" unfolding b(2) by blast
  from finish [of "\<lparr>ce_family = f, ce_etag = et, ce_value = v\<rparr>" files] assms(3) obtain changed ly' where
    l: "finish_restore wanted family a et ?stamp i (first_plan a et) (Some \<lparr>ce_family = f, ce_etag = et, ce_value = v\<rparr>)
      (ly\<lparr>ly_pack_files := files\<rparr>) = (Ready (Some v) changed, ly')" by auto
  have "locked_get (begin_get wanted family a et ?stamp) ?c = (DeferredGet i (first_plan a et), ?c\<lparr>ca_layers := ly\<rparr>)"
    by (simp add: locked_get_def ly b mark_dirty_if_def)
  moreover have "get_step lib fs wanted family a et ?stamp (DeferredGet i (first_plan a et), ?c\<lparr>ca_layers := ly\<rparr>) =
      Some (Ready (Some v) changed, mark_dirty_if changed (?c\<lparr>ca_layers := ly'\<rparr>))"
    by (simp add: get_step_def r locked_get_def l)
  ultimately show ?thesis
    using enabled by (simp add: cache_get_def Let_def loop_opt_unfold)
qed

section \<open>The layers and the generations of a cache\<close>

text \<open>Which slots are persistent does not change; if there is one, it is the last.\<close>

fun slot_kind :: "layer_slot \<Rightarrow> (bool \<times> path option) option" where
  "slot_kind (PersistentSlot writable l) = Some (writable, pl_root l)"
| "slot_kind _ = None"

definition kinds :: "layers \<Rightarrow> (bool \<times> path option) option list" where
  "kinds ly = map slot_kind (ly_slots ly)"

definition option_kinds :: "cache_options \<Rightarrow> (bool \<times> path option) option list" where
  "option_kinds opts = (if co_kind opts = Disabled \<or> co_max_memory_generations opts = Some 0 then [] else [None]) @
     (if co_kind opts = Filesystem then [Some (\<not> co_readonly opts, co_cache_location opts)] else [])"

text \<open>Something waits for a publication: an item, or the time of an access.\<close>

definition slot_waits :: "pack_file list \<Rightarrow> layer_slot \<Rightarrow> bool" where
  "slot_waits files s \<longleftrightarrow> (case s of
      PersistentSlot writable l \<Rightarrow>
        writable \<and> (pl_pending l \<noteq> [] \<or>
          pl_root l \<noteq> None \<and> (\<exists>k. pl_pack_file l = Some k \<and> pf_access_updates (files ! k) \<noteq> []))
    | _ \<Rightarrow> False)"

definition waits :: "layers \<Rightarrow> bool" where
  "waits ly \<longleftrightarrow> list_ex (slot_waits (ly_pack_files ly)) (ly_slots ly)"

definition announces :: "bool \<Rightarrow> layers \<Rightarrow> layers \<Rightarrow> bool" where
  "announces changed ly ly' \<longleftrightarrow> kinds ly' = kinds ly \<and> (waits ly' \<longrightarrow> waits ly \<or> changed)"

lemma announces_refl [simp]: "announces False ly ly"
  by (simp add: announces_def)

lemma announces_trans: "announces x ly ly' \<Longrightarrow> announces y ly' ly'' \<Longrightarrow> announces (x \<or> y) ly ly''"
  by (auto simp: announces_def)

lemma announces_first: "announces False ly ly' \<Longrightarrow> announces x ly' ly'' \<Longrightarrow> announces x ly ly''"
  by (auto simp: announces_def)

lemma announces_count [simp]:
  "announces x ly (count_in family f ly') = announces x ly ly'"
  by (simp add: announces_def kinds_def waits_def)

lemma list_ex_map_True: "list_ex f xs \<longleftrightarrow> True \<in> set (map f xs)"
  by (induction xs) auto

lemma slot_lookup_kept:
  "slot_kind (snd (slot_lookup a et s)) = slot_kind s" "slot_waits files (snd (slot_lookup a et s)) = slot_waits files s"
  by (cases s; simp add: slot_waits_def pack_lookup_def Let_def split: option.split)+

lemma slot_kind_steps [simp]:
  "slot_kind (slot_store a e s) = slot_kind s" "slot_kind (store_if_writable a e s) = slot_kind s"
  "slot_kind (slot_clear s) = slot_kind s" "slot_kind (snd (slot_completed s)) = slot_kind s"
  by (cases s; simp add: store_if_writable_def pack_store_def pack_clear_def)+

lemma lookup_at_announces:
  assumes "lookup_at a et i ly = (r, ly')"
  shows "announces False ly ly'"
proof -
  have ly': "ly' = ly\<lparr>ly_slots := (ly_slots ly)[i := snd (slot_lookup a et (ly_slots ly ! i))]\<rparr>"
    using assms by (auto simp: lookup_at_def split: prod.splits)
  have "map f ((ly_slots ly)[i := snd (slot_lookup a et (ly_slots ly ! i))]) = map f (ly_slots ly)"
    if "\<And>s. f (snd (slot_lookup a et s)) = f s" for f :: "layer_slot \<Rightarrow> 'z"
  proof -
    have "map f ((ly_slots ly)[i := snd (slot_lookup a et (ly_slots ly ! i))]) = (map f (ly_slots ly))[i := f (ly_slots ly ! i)]"
      by (simp add: map_update that)
    also have "\<dots> = map f ((ly_slots ly)[i := ly_slots ly ! i])" by (simp only: map_update)
    finally show ?thesis by simp
  qed
  from this [of slot_kind] this [of "slot_waits (ly_pack_files ly)"] show ?thesis
    by (simp add: ly' announces_def kinds_def waits_def slot_lookup_kept list_ex_map_True del: set_map)
qed

lemma apply_touch_announces:
  assumes "apply_touch a et stamp l files = (changed, files')" and "\<not> changed"
  shows "files' = files"
  using assms by (auto simp: apply_touch_def touch_def Let_def split: if_splits option.splits prod.splits)

text \<open>The slots in front of one that is there are not persistent.\<close>

lemma kinds_front:
  assumes "kinds ly = option_kinds opts" "i < length (ly_slots ly)" "s \<in> set (take i (ly_slots ly))"
  shows "slot_kind s = None"
proof -
  from assms(2,3) obtain j where "j < i" "s = ly_slots ly ! j" by (auto simp: in_set_conv_nth)
  with assms(2) have "slot_kind s = kinds ly ! j" "Suc j < length (kinds ly)" by (simp_all add: kinds_def)
  then show ?thesis by (auto simp: assms(1) option_kinds_def nth_append split: if_splits)
qed

lemma not_persistent_waits: "slot_kind s = None \<Longrightarrow> \<not> slot_waits files s"
  by (cases s) (simp_all add: slot_waits_def)

lemma use_entry_announces:
  assumes kinds: "kinds ly = option_kinds opts" and i: "i < length (ly_slots ly)"
    and run: "use_entry wanted family a et stamp i e ly = (r, ly')"
  shows "announces (case r of Some (v, changed) \<Rightarrow> changed | None \<Rightarrow> False) ly ly'"
proof (cases "entry_value wanted e")
  case (Some v)
  define slots where "slots = (if 0 < i then map (store_if_writable a e) (take i (ly_slots ly)) @ drop i (ly_slots ly) else ly_slots ly)"
  define ly1 where "ly1 = (if 0 < i then count_in family (iw_restores_update Suc) (ly\<lparr>ly_slots :=
      map (store_if_writable a e) (take i (ly_slots ly)) @ drop i (ly_slots ly)\<rparr>) else ly)"
  have ly1: "ly_slots ly1 = slots" "ly_pack_files ly1 = ly_pack_files ly" by (simp_all add: ly1_def slots_def)
  have k: "map slot_kind slots = map slot_kind (ly_slots ly)"
    by (simp add: slots_def comp_def) (metis append_take_drop_id map_append)
  have w: "list_ex (slot_waits files) slots \<longrightarrow> list_ex (slot_waits files) (ly_slots ly)" for files
  proof
    assume "list_ex (slot_waits files) slots"
    then obtain s where s: "s \<in> set slots" "slot_waits files s" by (auto simp: list_ex_iff)
    have "s \<in> set (ly_slots ly)"
    proof (cases "\<exists>t \<in> set (take i (ly_slots ly)). s = store_if_writable a e t")
      case True
      then obtain t where "t \<in> set (take i (ly_slots ly))" "s = store_if_writable a e t" by blast
      with kinds_front [OF kinds i] have "slot_kind s = None" by simp
      with s(2) show ?thesis by (simp add: not_persistent_waits)
    next
      case False
      with s(1) show ?thesis by (auto simp: slots_def split: if_splits dest: in_set_dropD)
    qed
    with s(2) show "list_ex (slot_waits files) (ly_slots ly)" by (auto simp: list_ex_iff)
  qed
  obtain changed files where t: "(case first_some (\<lambda>s. if slot_writable s then slot_persistent s else None) slots of
      None \<Rightarrow> (False, ly_pack_files ly) | Some l \<Rightarrow> apply_touch a et stamp l (ly_pack_files ly)) = (changed, files)"
    by (cases "case first_some (\<lambda>s. if slot_writable s then slot_persistent s else None) slots of
      None \<Rightarrow> (False, ly_pack_files ly) | Some l \<Rightarrow> apply_touch a et stamp l (ly_pack_files ly)")
  then have files: "\<not> changed \<Longrightarrow> files = ly_pack_files ly"
    by (auto split: option.splits dest: apply_touch_announces)
  have "use_entry wanted family a et stamp i e ly =
      (Some (v, changed), (count_in family (iw_hits_update Suc) ly1)\<lparr>ly_pack_files := files\<rparr>)"
    unfolding use_entry_def Some option.case ly1_def [symmetric] Let_def count_in_layers ly1 t prod.case by (rule refl)
  with run have "r = Some (v, changed)" "ly_slots ly' = slots" "ly_pack_files ly' = files" by (auto simp: ly1)
  with k w files show ?thesis by (auto simp: announces_def kinds_def waits_def)
qed (use run in \<open>simp add: use_entry_def\<close>)

text \<open>What a get did to the layers, and whether it tells so.\<close>

definition tells :: "layers \<Rightarrow> get_answer \<times> layers \<Rightarrow> bool" where
  "tells ly x \<longleftrightarrow> announces (persistent_access_changed (fst x)) ly (snd x)"

lemma get_missed_tells: "announces False ly ly' \<Longrightarrow> tells ly (get_missed family ly')"
  by (simp add: tells_def get_missed_def)

lemma announces_fits:
  assumes "announces False ly ly'" "kinds ly = option_kinds opts"
  shows "kinds ly' = option_kinds opts" "length (ly_slots ly') = length (ly_slots ly)"
proof -
  have k: "kinds ly' = kinds ly" using assms(1) by (simp add: announces_def)
  with assms(2) show "kinds ly' = option_kinds opts" by simp
  from k have "length (kinds ly') = length (kinds ly)" by simp
  then show "length (ly_slots ly') = length (ly_slots ly)" by (simp add: kinds_def)
qed

lemma get_found_tells:
  assumes "announces False ly0 ly" "kinds ly0 = option_kinds opts" "i < length (ly_slots ly0)"
    and "\<And>ly'. announces False ly0 ly' \<Longrightarrow> tells ly0 (f ly')"
  shows "tells ly0 (get_found (use_entry wanted family a et stamp i e ly) f)"
proof -
  obtain r ly' where u: "use_entry wanted family a et stamp i e ly = (r, ly')" by (cases "use_entry wanted family a et stamp i e ly")
  note fits = announces_fits [OF assms(1,2)]
  have "announces (case r of Some (v, changed) \<Rightarrow> changed | None \<Rightarrow> False) ly0 ly'"
    using announces_first [OF assms(1) use_entry_announces [OF fits(1) _ u]] fits(2) assms(3) by simp
  with assms(4) show ?thesis by (cases r) (auto simp: u get_found_def tells_def)
qed

lemma begin_at_tells:
  assumes "announces False ly0 ly" "kinds ly0 = option_kinds opts" "\<forall>i \<in> set rest. i < length (ly_slots ly0)"
  shows "tells ly0 (begin_at wanted family a et stamp rest ly)"
  using assms(1,3)
proof (induction rest arbitrary: ly)
  case (Cons i rest)
  obtain r ly1 where l: "lookup_at a et i ly = (r, ly1)" by (cases "lookup_at a et i ly")
  have ly1: "announces False ly0 ly1" by (rule announces_first [OF Cons.prems(1) lookup_at_announces [OF l]])
  show ?case
  proof (cases r)
    case (Hit e)
    have "tells ly0 (get_found (use_entry wanted family a et stamp i e ly1) (begin_at wanted family a et stamp rest))"
      using Cons.prems(2) by (intro get_found_tells [OF ly1 assms(2)] Cons.IH) simp_all
    then show ?thesis by (simp add: l Hit)
  next
    case (Deferred plan)
    with ly1 show ?thesis by (simp add: l tells_def)
  next
    case Miss
    with Cons.IH [OF ly1] Cons.prems(2) show ?thesis by (simp add: l)
  qed
qed (simp add: get_missed_tells)

lemma hit_before_announces:
  assumes "announces False ly0 ly" "kinds ly0 = option_kinds opts" "\<forall>i \<in> set rest. i < length (ly_slots ly0)"
    and "hit_before wanted family a et stamp rest ly = (r, ly')"
  shows "announces (case r of Some (v, changed) \<Rightarrow> changed | None \<Rightarrow> False) ly0 ly'"
  using assms(1,3,4)
proof (induction rest arbitrary: ly)
  case (Cons i rest)
  obtain x ly1 where l: "lookup_at a et i ly = (x, ly1)" by (cases "lookup_at a et i ly")
  have ly1: "announces False ly0 ly1" by (rule announces_first [OF Cons.prems(1) lookup_at_announces [OF l]])
  note fits = announces_fits [OF ly1 assms(2)]
  show ?case
  proof (cases x)
    case (Hit e)
    obtain u ly2 where u: "use_entry wanted family a et stamp i e ly1 = (u, ly2)" by (cases "use_entry wanted family a et stamp i e ly1")
    have ly2: "announces (case u of Some (v, changed) \<Rightarrow> changed | None \<Rightarrow> False) ly0 ly2"
      using announces_first [OF ly1 use_entry_announces [OF fits(1) _ u]] fits(2) Cons.prems(2) by simp
    show ?thesis
    proof (cases u)
      case None
      with ly2 Cons.IH [of ly2] Cons.prems(2,3) show ?thesis by (simp add: l Hit u)
    next
      case (Some y)
      with ly2 Cons.prems(3) show ?thesis by (cases y) (auto simp: l Hit u)
    qed
  qed (use Cons.IH [OF ly1] Cons.prems(2,3) in \<open>simp_all add: l\<close>)
qed simp

lemma finish_restore_tells:
  assumes kinds: "kinds ly = option_kinds opts" and k: "k < length (ly_slots ly)"
  shows "tells ly (finish_restore wanted family a et stamp k plan restored ly)"
proof -
  obtain u ly1 where h: "hit_before wanted family a et stamp [0..<k] ly = (u, ly1)" by (cases "hit_before wanted family a et stamp [0..<k] ly")
  have ly1: "announces (case u of Some (v, changed) \<Rightarrow> changed | None \<Rightarrow> False) ly ly1"
    by (rule hit_before_announces [OF announces_refl kinds _ h]) (use k in auto)
  show ?thesis
  proof (cases u)
    case (Some x)
    with ly1 show ?thesis by (cases x) (simp add: finish_restore_def h get_found_def tells_def)
  next
    case None
    obtain r ly2 where l: "lookup_at a et k ly1 = (r, ly2)" by (cases "lookup_at a et k ly1")
    have ly2: "announces False ly ly2" using announces_first [OF _ lookup_at_announces [OF l]] ly1 None by simp
    note found = get_found_tells [OF ly2 kinds k get_missed_tells]
    have "tells ly (case r of
        Hit e \<Rightarrow> get_found (use_entry wanted family a et stamp k e ly2) (get_missed family)
      | Deferred current \<Rightarrow>
          if reads_from current plan then
            (case restored of
               Some e \<Rightarrow> get_found (use_entry wanted family a et stamp k e ly2) (get_missed family)
             | None \<Rightarrow> get_missed family ly2)
          else (DeferredGet k current, ly2)
      | Miss \<Rightarrow> get_missed family ly2)"
      using found get_missed_tells [OF ly2] ly2
      by (cases r) (auto simp: tells_def [of _ "(DeferredGet _ _, _)"] split: option.split)
    then show ?thesis by (cases r) (simp_all add: finish_restore_def h None get_found_def [of "(None, _)"] l)
  qed
qed

section \<open>The other operations\<close>

lemma restore_updates:
  assumes "restore_entry lib fs plan files = Some (r, files')"
  shows "length files' = length files" and "pf_access_updates (files' ! k) = pf_access_updates (files ! k)"
proof -
  have "\<exists>pf. files' = files[pr_pack_file plan := pf] \<and> pf_access_updates pf = pf_access_updates (files ! pr_pack_file plan) \<or> files' = files"
  proof (cases "namespace_type (pr_namespace plan)")
    case (Some x)
    obtain t family where x: "x = (t, family)" by (cases x)
    obtain q pf where p: "prepare_restore (lib_inflate lib) fs t (pr_address plan) (pr_etag plan) (files ! pr_pack_file plan) = (q, pf)"
      by (cases "prepare_restore (lib_inflate lib) fs t (pr_address plan) (pr_etag plan) (files ! pr_pack_file plan)")
    have "pf_access_updates (snd (load_content inflate fs r pf)) = pf_access_updates pf" for inflate r pf
      using load_content_frame [of inflate fs r pf] by auto
    with p have "pf_access_updates pf = pf_access_updates (files ! pr_pack_file plan)"
      by (auto simp: prepare_restore_def split: option.splits if_splits prod.splits) (metis snd_conv)+
    with assms Some x p show ?thesis by (auto simp: restore_entry_def)
  qed (use assms in \<open>simp add: restore_entry_def\<close>)
  then show "length files' = length files" and "pf_access_updates (files' ! k) = pf_access_updates (files ! k)"
    by (auto simp: nth_list_update) (metis list_update_beyond not_less nth_list_update)
qed

lemma layers_store_announces:
  assumes "layers_store family a et v ly = (changed, ly')"
  shows "announces changed ly ly'"
proof -
  have "slot_waits files (store_if_writable a e s) \<longrightarrow> slot_waits files s \<or> slot_writable s \<and> slot_persistent s \<noteq> None" for files e s
    by (cases s) (auto simp: slot_waits_def store_if_writable_def pack_store_def split: bool.splits)
  then have w: "list_ex (slot_waits files) (map (store_if_writable a e) slots) \<longrightarrow>
      list_ex (slot_waits files) slots \<or> list_ex (\<lambda>s. slot_writable s \<and> slot_persistent s \<noteq> None) slots" for files e slots
    by (induction slots) auto
  have k: "map slot_kind (map (store_if_writable a e) slots) = map slot_kind slots" for e slots by (simp add: comp_def)
  show ?thesis
    using assms w [of "ly_pack_files ly" "\<lparr>ce_family = family, ce_etag = et, ce_value = v\<rparr>" "ly_slots ly"]
    by (auto simp: layers_store_def Let_def announces_def kinds_def waits_def k simp del: map_map)
qed

lemma layers_clear_announces: "announces False ly (layers_clear ly)"
proof -
  have "slot_waits files (slot_clear s) \<longrightarrow> slot_waits files s" for files s
    by (cases s) (auto simp: slot_waits_def pack_clear_def split: bool.splits)
  then show ?thesis by (auto simp: layers_clear_def announces_def kinds_def waits_def list_ex_iff)
qed

lemma layers_completed_announces: "announces False ly (layers_completed ly)"
proof -
  have "slot_waits files (snd (slot_completed s)) = slot_waits files s" for files s
    by (cases s) (auto simp: slot_waits_def)
  then show ?thesis by (auto simp: layers_completed_def announces_def kinds_def waits_def list_ex_iff)
qed

lemma update_persistent_map:
  assumes "first_some slot_persistent slots = Some l" and "\<And>w. f (PersistentSlot w l') = f (PersistentSlot w l)"
  shows "map f (update_persistent (\<lambda>_. l') slots) = map f slots"
  using assms by (induction slots) (auto split: layer_slot.splits)

lemma layers_prepare_announces:
  assumes "layers_prepare env info tree p ly = (changed, ly')"
  shows "announces False ly ly'"
proof (cases "first_persistent ly")
  case (Some l)
  obtain c l' where l': "pack_layer_prepare env info tree p (ly_pack_files ly) l = (c, l')"
    by (cases "pack_layer_prepare env info tree p (ly_pack_files ly) l")
  have ly': "ly' = ly\<lparr>ly_slots := update_persistent (\<lambda>_. l') (ly_slots ly)\<rparr>"
    using assms Some l' by (simp add: layers_prepare_def)
  have same: "pl_root l' = pl_root l" "pl_pending l' = pl_pending l" "pl_pack_file l' = pl_pack_file l"
    using l' by (auto simp: pack_layer_prepare_def Let_def)
  have "map f (update_persistent (\<lambda>_. l') (ly_slots ly)) = map f (ly_slots ly)"
    if "\<And>w. f (PersistentSlot w l') = f (PersistentSlot w l)" for f :: "layer_slot \<Rightarrow> 'z"
    using Some that unfolding first_persistent_def by (rule update_persistent_map)
  note kept = this
  have "slot_waits files (PersistentSlot w l') = slot_waits files (PersistentSlot w l)" for files w
    by (simp add: slot_waits_def same)
  with kept [of slot_kind] kept [of "slot_waits (ly_pack_files ly)"] same show ?thesis
    by (simp add: ly' announces_def kinds_def waits_def list_ex_map_True del: set_map)
qed (use assms in \<open>simp add: layers_prepare_def\<close>)

section \<open>The invariant of a cache\<close>

lemma memory_slots:
  assumes "\<forall>s \<in> set mem. slot_kind s = None"
  shows "first_some slot_persistent (mem @ slots) = first_some slot_persistent slots"
    and "update_persistent f (mem @ slots) = mem @ update_persistent f slots"
    and "list_ex (slot_waits files) (mem @ slots) = list_ex (slot_waits files) slots"
proof -
  have "slot_kind s = None \<longleftrightarrow> (\<exists>m. s = MemorySlot m) \<or> (\<exists>g. s = GcSlot g)" for s by (cases s) simp_all
  with assms show "first_some slot_persistent (mem @ slots) = first_some slot_persistent slots"
    "update_persistent f (mem @ slots) = mem @ update_persistent f slots"
    "list_ex (slot_waits files) (mem @ slots) = list_ex (slot_waits files) slots"
    by (induction mem) (auto simp: slot_waits_def)
qed

lemma kinds_slots:
  assumes "kinds ly = option_kinds opts" "co_kind opts = Filesystem"
  obtains mem l where "ly_slots ly = mem @ [PersistentSlot (\<not> co_readonly opts) l]" and "pl_root l = co_cache_location opts"
    and "\<forall>s \<in> set mem. slot_kind s = None" and "first_persistent ly = Some l"
proof -
  from assms obtain ks where "map slot_kind (ly_slots ly) = ks @ [Some (\<not> co_readonly opts, co_cache_location opts)]"
    and ks: "\<forall>k \<in> set ks. k = None" by (auto simp: kinds_def option_kinds_def)
  then obtain mem s where slots: "ly_slots ly = mem @ [s]" and mem: "map slot_kind mem = ks"
    and s: "slot_kind s = Some (\<not> co_readonly opts, co_cache_location opts)"
    by (auto simp: map_eq_append_conv)
  from s obtain l where l: "s = PersistentSlot (\<not> co_readonly opts) l" "pl_root l = co_cache_location opts" by (cases s) auto
  have "\<forall>s \<in> set mem. slot_kind s = None" using ks unfolding mem [symmetric] by auto
  with that [of mem l] slots l memory_slots(1) [of mem "[s]"] show thesis by (simp add: first_persistent_def)
qed

lemma kinds_no_slots:
  assumes "kinds ly = option_kinds opts" "co_kind opts \<noteq> Filesystem"
  shows "first_persistent ly = None" and "\<not> waits ly"
proof -
  have "\<forall>k \<in> set (map slot_kind (ly_slots ly)). k = None" using assms by (auto simp: kinds_def option_kinds_def)
  then have "\<forall>s \<in> set (ly_slots ly). slot_kind s = None" by simp
  note m = memory_slots(1) [OF this, of "[]"] memory_slots(3) [OF this, of "ly_pack_files ly" "[]"]
  from m(1) show "first_persistent ly = None" by (simp add: first_persistent_def)
  from m(2) show "\<not> waits ly" by (simp add: waits_def)
qed

definition cache_fits :: "compiler_cache \<Rightarrow> bool" where
  "cache_fits c \<longleftrightarrow> kinds (ca_layers c) = option_kinds (ca_options c) \<and>
     ca_published_generation c \<le> ca_dirty_generation c \<and> ca_dirty_generation c \<le> u64_max \<and>
     (waits (ca_layers c) \<longrightarrow> ca_published_generation c < ca_dirty_generation c \<or> ca_dirty_generation c = u64_max)"

lemma cache_fits_announces:
  "cache_fits c \<Longrightarrow> announces changed (ca_layers c) ly \<Longrightarrow> cache_fits (mark_dirty_if changed (c\<lparr>ca_layers := ly\<rparr>))"
  by (auto simp: cache_fits_def announces_def mark_dirty_if_def mark_dirty_def saturating_succ_def)

lemma cache_fits_new: "cache_fits (cache_new fs opts build_strategy resolve_strategy)"
proof -
  have "kinds (layers_from_options fs opts) = option_kinds opts"
    by (auto simp: layers_from_options_def kinds_def option_kinds_def Let_def pack_layer_open_def split: option.split)
  moreover have "\<not> waits (layers_from_options fs opts)"
    by (auto simp: layers_from_options_def waits_def Let_def pack_layer_open_def slot_waits_def open_with_options_def split: option.split)
  ultimately show ?thesis by (simp add: cache_fits_def cache_new_def Let_def)
qed

lemma locked_get_fits:
  assumes "cache_fits c" "tells (ca_layers c) (f (ca_layers c))" "locked_get f c = (r, c')"
  shows "cache_fits c'"
  using assms cache_fits_announces by (auto simp: locked_get_def tells_def split: prod.splits)

lemma cache_store_fits:
  assumes "cache_fits c"
  shows "cache_fits (cache_store family a et v c)"
proof (cases "layers_store family a et v (ca_layers c)")
  case (Pair changed ly)
  with cache_fits_announces [OF assms layers_store_announces [OF Pair]] assms show ?thesis by (simp add: cache_store_def)
qed

lemma cache_completed_fits: "cache_fits c \<Longrightarrow> cache_fits (cache_completed c)"
  using cache_fits_announces [OF _ layers_completed_announces, of c] by (simp add: cache_completed_def mark_dirty_if_def)

lemma cache_prepared_fits:
  assumes fits: "cache_fits c"
  shows "cache_fits (cache_prepared env tree p c)"
proof -
  define ly where "ly = (if ca_guard c \<noteq> None \<and> \<not> previous_inputs_valid env tree p c then layers_clear (ca_layers c) else ca_layers c)"
  have ly: "announces False (ca_layers c) ly" by (simp add: ly_def layers_clear_announces)
  obtain b ly' where p: "layers_prepare env (ca_info c) tree p ly = (b, ly')" by (cases "layers_prepare env (ca_info c) tree p ly")
  have "announces b (ca_layers c) ly'"
    using announces_first [OF ly layers_prepare_announces [OF p]] by (auto simp: announces_def)
  from cache_fits_announces [OF fits this] have "cache_fits (mark_dirty_if b (c\<lparr>ca_layers := ly'\<rparr>))" .
  moreover have "cache_prepared env tree p c = mark_dirty_if b (c\<lparr>ca_layers := ly', ca_guard := Some (pp_guard p)\<rparr>)"
    unfolding cache_prepared_def Let_def ly_def [symmetric] p prod.case by (rule refl)
  ultimately show ?thesis by (cases b) (simp_all add: cache_fits_def mark_dirty_if_def mark_dirty_def)
qed

lemma layer_publish_returns:
  assumes "pack_layer_publish lib guard now max_age l files d = (Returns (l', files'), d')"
  shows "pl_root l' = pl_root l" and "\<not> slot_waits files' (PersistentSlot w l')"
proof -
  have "pl_root l' = pl_root l \<and> \<not> slot_waits files' (PersistentSlot w l')"
  proof (cases "pl_root l")
    case None
    with assms show ?thesis by (auto simp: pack_layer_publish_def ret_def slot_waits_def)
  next
    case (Some root)
    define batch0 where "batch0 = (case pl_pack_file l of Some k \<Rightarrow> copy_access_updates_to (files ! k) batch_new | None \<Rightarrow> batch_new)"
    from assms Some show ?thesis
      by (cases "batch_pending lib (pl_pending l) batch0")
        (auto simp: pack_layer_publish_def batch0_def [symmetric] Let_def and_then_def [abs_def] ret_def raise_def slot_waits_def
          open_with_options_def split: prod.splits outcome.splits)
  qed
  then show "pl_root l' = pl_root l" and "\<not> slot_waits files' (PersistentSlot w l')" by blast+
qed

lemma publish_generation_fits:
  assumes fits: "cache_fits c" and target: "target \<le> ca_dirty_generation c"
    and run: "publish_generation lib target now c d = (Returns c', d')"
  shows "cache_fits c'" and "ca_options c' = ca_options c"
proof -
  have "cache_fits c' \<and> ca_options c' = ca_options c"
  proof (cases "\<not> is_writable_filesystem_cache c \<or> target \<le> ca_published_generation c \<or> ca_guard_error c \<noteq> None")
    case True
    with fits run show ?thesis by (auto simp: publish_generation_def ret_def raise_def split: if_splits)
  next
    case False
    then have "co_kind (ca_options c) = Filesystem" by (simp add: is_writable_filesystem_cache_def)
    moreover have kinds: "kinds (ca_layers c) = option_kinds (ca_options c)" using fits by (simp add: cache_fits_def)
    ultimately obtain mem l where slots: "ly_slots (ca_layers c) = mem @ [PersistentSlot (\<not> co_readonly (ca_options c)) l]"
      and mem: "\<forall>s \<in> set mem. slot_kind s = None" and first: "first_persistent (ca_layers c) = Some l"
      using kinds_slots by metis
    obtain l' files d1 where p: "pack_layer_publish lib (current_guard c) now (co_max_age (ca_options c)) l (ly_pack_files (ca_layers c)) d =
          (Returns (l', files), d1)"
      and c': "c' = c\<lparr>ca_layers := (ca_layers c)\<lparr>ly_slots := update_persistent (\<lambda>_. l') (ly_slots (ca_layers c)), ly_pack_files := files\<rparr>,
        ca_published_generation := max (ca_published_generation c) target, ca_initial_store_pending := False\<rparr>"
      using run False first
      by (auto simp: publish_generation_def layers_publish_def and_then_def ret_def split: outcome.splits prod.splits)
    note l' = layer_publish_returns [OF p]
    have "kinds (ca_layers c') = kinds (ca_layers c)"
      by (simp add: c' kinds_def slots memory_slots(2) [OF mem] l'(1))
    moreover have "\<not> waits (ca_layers c')"
      using memory_slots(3) [OF mem, of files "[]"] by (simp add: c' waits_def slots memory_slots(2) [OF mem] l'(2))
    ultimately show ?thesis using fits target by (simp add: cache_fits_def c')
  qed
  then show "cache_fits c'" and "ca_options c' = ca_options c" by blast+
qed

section \<open>Every step keeps it\<close>

lemma cache_fits_work:
  assumes step: "cache_work lib P s s'" and good: "system_good lib root P s" and fits: "cache_fits (sy_cache s)"
  shows "cache_fits (sy_cache s')"
  using step
proof cases
  case (begins k now wanted family a et r c)
  let ?ly = "ca_layers (sy_cache s)"
  have "tells ?ly (begin_get wanted family a et (access_stamp now (sy_cache s)) ?ly)"
    unfolding begin_get_def by (rule begin_at_tells) (use fits in \<open>auto simp: cache_fits_def\<close>)
  from locked_get_fits [OF fits this begins(5)] show ?thesis by (simp add: begins(1))
next
  case (restores k g i plan view restored files)
  let ?ly = "ca_layers (sy_cache s)"
  note same = restore_updates [OF restores(5)]
  have "slot_waits files x = slot_waits (ly_pack_files ?ly) x" for x
    by (cases x) (simp_all add: slot_waits_def same(2))
  then have "announces False ?ly (?ly\<lparr>ly_pack_files := files\<rparr>)"
    by (simp add: announces_def kinds_def waits_def list_ex_iff)
  from cache_fits_announces [OF fits this] show ?thesis by (simp add: restores(1) mark_dirty_if_def)
next
  case (finishes k g i plan restored r c)
  let ?ly = "ca_layers (sy_cache s)"
  have "i < length (ly_slots ?ly)"
    using gets_goodD(2) [of P ?ly "sy_gets s", OF _ finishes(2,3)] good by (simp add: system_good_def)
  with fits have "tells ?ly (finish_restore (rg_wanted g) (rg_family g) (rg_address g) (rg_etag g) (rg_stamp g) i plan restored ?ly)"
    by (intro finish_restore_tells) (auto simp: cache_fits_def)
  from locked_get_fits [OF fits this finishes(4)] show ?thesis by (simp add: finishes(1))
next
  case (returns k g v changed)
  with fits show ?thesis by simp
next
  case (stores a et v family)
  with fits show ?thesis by (simp add: cache_store_fits)
next
  case completes
  with fits show ?thesis by (simp add: cache_completed_fits)
next
  case (prepares p env tree)
  with fits show ?thesis by (simp add: cache_prepared_fits)
qed

lemma cache_fits_step:
  assumes contract: "\<forall>a et v. P a et v \<longrightarrow> value_ok lib v" and inflates: "inflates (lib_inflate lib) (lib_deflate lib)"
    and step: "cache_step lib root P s s'" and good: "system_good lib root P s" and fits: "cache_fits (sy_cache s)"
  shows "cache_fits (sy_cache s')"
  using step
proof cases
  case works
  from cache_fits_work [OF this good fits] show ?thesis .
next
  case (publishes target now fates r d c e)
  from publishes(6) show ?thesis
  proof
    assume "r = Returns c"
    with publish_generation_fits(1) [OF fits publishes(2)] publishes(5) show ?thesis by (simp add: publishes(1))
  next
    assume "r = Raises e \<and> c = sy_cache s"
    with fits show ?thesis by (simp add: publishes(1))
  qed
next
  case (stops target now fates d opts build_strategy resolve_strategy)
  then show ?thesis by (simp add: system_start_def cache_fits_new)
next
  case (restarts opts build_strategy resolve_strategy)
  then show ?thesis by (simp add: system_start_def cache_fits_new)
qed

lemma cache_fits_run:
  assumes contract: "\<forall>a et v. P a et v \<longrightarrow> value_ok lib v" and inflates: "inflates (lib_inflate lib) (lib_deflate lib)"
  shows "cache_system_run lib root P s \<Longrightarrow> cache_fits (sy_cache s)"
proof (induction rule: cache_system_run.induct)
  case (start fs opts build_strategy resolve_strategy)
  show ?case by (simp add: system_start_def cache_fits_new)
next
  case (step s s')
  show ?case by (rule cache_fits_step [OF contract inflates step.hyps(2) system_good_run [OF contract inflates step.hyps(1)] step.IH])
qed

lemma waiting_is_announced:
  assumes "\<forall>a et v. P a et v \<longrightarrow> value_ok lib v" "inflates (lib_inflate lib) (lib_deflate lib)" "cache_system_run lib root P s"
    and "PersistentSlot True l \<in> set (ly_slots (ca_layers (sy_cache s)))"
    and "pending_generation (sy_cache s) = None" "ca_dirty_generation (sy_cache s) < u64_max"
  shows "pl_pending l = [] \<and> (\<forall>k. pl_root l \<noteq> None \<longrightarrow> pl_pack_file l = Some k \<longrightarrow>
    pf_access_updates (ly_pack_files (ca_layers (sy_cache s)) ! k) = [])"
proof -
  let ?c = "sy_cache s"
  have fits: "cache_fits ?c" by (rule cache_fits_run [OF assms(1-3)])
  have "Some (True, pl_root l) \<in> set (kinds (ca_layers ?c))" using assms(4) unfolding kinds_def by force
  with fits have "is_writable_filesystem_cache ?c"
    by (auto simp: cache_fits_def option_kinds_def is_writable_filesystem_cache_def split: if_splits)
  with assms(5) have "\<not> ca_published_generation ?c < ca_dirty_generation ?c"
    by (simp add: pending_generation_def split: if_splits)
  with fits assms(6) have "\<not> waits (ca_layers ?c)" by (auto simp: cache_fits_def)
  with assms(4) have "\<not> slot_waits (ly_pack_files (ca_layers ?c)) (PersistentSlot True l)"
    by (auto simp: waits_def list_ex_iff)
  then show ?thesis by (auto simp: slot_waits_def)
qed

section \<open>What was stored and published is found after a restart\<close>

definition facades :: "(string \<times> cache_item_family) set" where
  "facades = {normal_module_factory, module_builds, code_generations, asset_renders}"

lemma facade_type: "facade \<in> facades \<Longrightarrow> \<exists>t. namespace_type (fst facade) = Some (t, snd facade)"
  by (auto simp: facades_def normal_module_factory_def module_builds_def code_generations_def asset_renders_def namespace_type_def
      resolve_namespace_def module_build_namespace_def code_generation_namespace_def asset_render_namespace_def)

lemma flush_publishes:
  assumes "flush_to_filesystem lib now c d = (Returns c', d')" "pending_generation c \<noteq> None" "first_persistent (ca_layers c) = Some l"
  obtains r where "pack_layer_publish lib (current_guard c) now (co_max_age (ca_options c)) l (ly_pack_files (ca_layers c)) d = (Returns r, d')"
  using assms
  by (auto simp: flush_to_filesystem_def pending_generation_def publish_generation_def layers_publish_def and_then_def ret_def raise_def
      split: outcome.splits prod.splits option.splits if_splits)

lemma cache_store_enabled:
  assumes "cache_fits c" "is_writable_filesystem_cache c" "ca_dirty_generation c < u64_max"
  shows "pending_generation (cache_store family a et v c) \<noteq> None"
    and "\<exists>l. first_persistent (ca_layers (cache_store family a et v c)) = Some l \<and>
      PersistentSlot True l \<in> set (ly_slots (ca_layers (cache_store family a et v c))) \<and>
      pl_root l = co_cache_location (ca_options c) \<and>
      map_of (pl_pending l) a = Some \<lparr>ce_family = family, ce_etag = et, ce_value = v\<rparr>"
proof -
  have opts: "co_kind (ca_options c) = Filesystem" "\<not> co_readonly (ca_options c)"
    using assms(2) by (simp_all add: is_writable_filesystem_cache_def)
  let ?ly = "ca_layers c" and ?e = "\<lparr>ce_family = family, ce_etag = et, ce_value = v\<rparr>"
  have kinds: "kinds ?ly = option_kinds (ca_options c)" using assms(1) by (simp add: cache_fits_def)
  from kinds_slots [OF this opts(1)] opts(2) obtain mem l where slots: "ly_slots ?ly = mem @ [PersistentSlot True l]"
    and l: "pl_root l = co_cache_location (ca_options c)" "\<forall>s \<in> set mem. slot_kind s = None" by simp metis
  have mem: "\<forall>s \<in> set (map (store_if_writable a ?e) mem). slot_kind s = None" using l(2) by simp
  have c': "cache_store family a et v c = mark_dirty (c\<lparr>ca_layers := count_in family (iw_stores_update Suc) (?ly\<lparr>ly_slots :=
      map (store_if_writable a ?e) mem @ [PersistentSlot True (pack_store a ?e l)]\<rparr>)\<rparr>)"
    using opts by (simp add: cache_store_def cache_is_enabled_def layers_store_def Let_def slots mark_dirty_if_def store_if_writable_def)
  show "pending_generation (cache_store family a et v c) \<noteq> None"
    using assms by (simp add: pending_generation_def c' mark_dirty_def is_writable_filesystem_cache_def cache_fits_def saturating_succ_def)
  show "\<exists>l. first_persistent (ca_layers (cache_store family a et v c)) = Some l \<and>
      PersistentSlot True l \<in> set (ly_slots (ca_layers (cache_store family a et v c))) \<and>
      pl_root l = co_cache_location (ca_options c) \<and>
      map_of (pl_pending l) a = Some \<lparr>ce_family = family, ce_etag = et, ce_value = v\<rparr>"
    using memory_slots(1) [OF mem, of "[PersistentSlot True (pack_store a ?e l)]"] l(1)
    by (simp add: c' mark_dirty_def first_persistent_def pack.stored) (simp add: pack_store_def)
qed

lemma stored_is_restored:
  assumes contract: "\<forall>a et v. P a et v \<longrightarrow> value_ok lib v" and inflates: "inflates (lib_inflate lib) (lib_deflate lib)"
    and run: "cache_system_run lib root P s" and P: "P (fst facade, identifier) et v"
    and facade: "facade \<in> facades" "value_type v = snd facade"
    and writable: "is_writable_filesystem_cache (sy_cache s)" "co_cache_location (ca_options (sy_cache s)) = Some root"
    and "ca_dirty_generation (sy_cache s) < u64_max" and now: "now \<le> u64_max"
    and flush: "flush_to_filesystem lib now (facade_store facade identifier et v (sy_cache s)) \<lparr>dk_files = sy_files s, dk_fates = fates\<rparr> =
      (Returns c, d)"
    and opts: "co_kind opts = Filesystem" "co_cache_location opts = Some root"
  shows "\<exists>c'. facade_get lib (dk_files d) facade identifier et later (cache_new (dk_files d) opts build_strategy resolve_strategy) =
    Some (Some v, c')"
proof -
  let ?a = "(fst facade, identifier)"
  define c1 where "c1 = cache_store (snd facade) ?a et v (sy_cache s)"
  have "cache_step lib root P s (s\<lparr>sy_cache := c1\<rparr>)" unfolding c1_def using P by (intro cache_step.works cache_work.stores)
  with run have "cache_system_run lib root P (s\<lparr>sy_cache := c1\<rparr>)" by (rule cache_system_run.step)
  from system_good_run [OF contract inflates this] have disk: "disk_good lib root (sy_files s) P"
    and ly: "layers_good lib root (sy_files s) P (ca_layers c1)" and guard: "guard_ok (current_guard c1)"
    by (simp_all add: system_good_def current_guard_ok)
  have fits: "cache_fits (sy_cache s)" by (rule cache_fits_run [OF contract inflates run])
  from cache_store_enabled [OF fits writable(1) assms(9), of "snd facade" ?a et v] writable(2) obtain l where
    pending: "pending_generation c1 \<noteq> None" and first: "first_persistent (ca_layers c1) = Some l"
    and l: "PersistentSlot True l \<in> set (ly_slots (ca_layers c1))" "pl_root l = Some root"
      "map_of (pl_pending l) ?a = Some \<lparr>ce_family = snd facade, ce_etag = et, ce_value = v\<rparr>" unfolding c1_def by auto
  from flush_publishes [OF _ pending first] flush obtain r where
    p: "pack_layer_publish lib (current_guard c1) now (co_max_age (ca_options c1)) l (ly_pack_files (ca_layers c1))
      \<lparr>dk_files = sy_files s, dk_fates = fates\<rparr> = (Returns r, d)"
    unfolding facade_store_def c1_def by metis
  have slot: "slot_good root (length (ly_pack_files (ca_layers c1))) P (PersistentSlot True l)"
    and files: "pack_files_good lib root (sy_files s) P (ly_pack_files (ca_layers c1))"
    using ly l(1) by (auto simp: layers_good_def list_all_iff)
  from layer_publish_stores [OF contract inflates _ _ slot guard now l(2) p l(3)] disk files obtain item b q where
    item: "value_to_item lib (snd facade) v = Inr item" "serializer_encode persistent_serializer item = Inr (b, q)"
    and stored: "stored (lib_inflate lib) (dk_files d) root (current_index (dk_files d) root) (to_pack_file_address ?a) =
      Some (et, item_type_id item, b, q)" and sound: "index_sound (current_index (dk_files d) root)" by auto
  have v: "value_ok lib v" using contract P by blast
  from facade_type [OF facade(1)] obtain t where ns: "namespace_type (fst ?a) = Some (t, snd facade)" by auto
  from fresh_get [OF opts facade(2) restore_opened [OF sound v item ns stored]]
  show ?thesis by (simp add: facade_get_def)
qed

end
