(* ===== verification/Pack_Samples.thy ===== *)
theory Pack_Samples
  imports Pack_Cache "HOL-Library.Code_Target_Nat"
begin

text \<open>
  Inputs for the properties of the pack cache: an asset record, a batch with it, an empty directory, and
  a compression that changes nothing.
\<close>

definition plain_deflate :: deflate where
  "plain_deflate k content = Inr content"

definition plain_inflate :: inflate where
  "plain_inflate k encoded n = Some (take n encoded)"

lemma plain_inflates: "inflates plain_inflate plain_deflate"
  by (simp add: inflates_def plain_inflate_def plain_deflate_def)

definition sample_item :: pack_item where
  "sample_item = AssetRenderItem \<lparr>ard_source = ''x'', ard_source_map = None\<rparr>"

definition pack_address :: address where
  "pack_address = (str_bytes ''unpack/asset-render'', str_bytes ''i'')"

definition pack_payload :: bytes where "pack_payload = [1, 0, 0, 0, 120, 0]"

definition pack_pending :: pending_item where
  "pack_pending = \<lparr>pd_etag = None, pd_type_id = asset_render_type_id, pd_codec_id = str_bytes ''unpack.astr.c001'',
     pd_payload = pack_payload\<rparr>"

definition pack_batch :: write_batch where
  "pack_batch = \<lparr>wb_items = [(pack_address, pack_pending)], wb_accesses = []\<rparr>"

definition pack_root :: path where "pack_root = [Normal ''c'']"

text \<open>A guard without build dependencies.\<close>

definition sample_guard :: pack_guard where
  "sample_guard = \<lparr>pg_version = [], pg_build_dependencies = [], pg_resolve_build_dependencies = []\<rparr>"

lemma sample_guard_ok: "opt_ok guard_ok (Some sample_guard)"
  by (simp add: opt_ok_def guard_ok_def sample_guard_def)

definition pack_options :: publication_options where
  "pack_options = publication_options_new \<lparr>rt_now = 5, rt_max_age = 0\<rparr> Gzip"

definition empty_disk :: disk where
  "empty_disk = \<lparr>dk_files = Map.empty, dk_fates = []\<rparr>"

definition pack_run :: "unit outcome \<times> disk" where
  "pack_run = publish_batch plain_inflate plain_deflate pack_root (Some sample_guard) ReplaceAll pack_batch pack_options NoFault empty_disk"

lemma pack_encoded: "serializer_encode persistent_serializer sample_item = Inr (str_bytes ''unpack.astr.c001'', pack_payload)"
  by code_simp

lemma pack_inserted: "batch_insert persistent_serializer pack_address None sample_item batch_new = Inr pack_batch"
  using pack_encoded by (simp add: batch_insert_def batch_new_def pack_batch_def pack_pending_def) (simp add: sample_item_def)

lemma sample_item_ok: "item_ok sample_item"
  by code_simp

lemma pack_batch_ok: "batch_ok pack_batch"
  by (rule batch_insert_ok [OF batch_new_ok pack_inserted])

lemma empty_disk_sound: "pack_cache_sound inflate root (dk_files empty_disk)"
  by (rule no_index_sound) (simp add: empty_disk_def)

lemma pack_options_ok: "rt_now (po_retention pack_options) \<le> u64_max"
  by (simp add: pack_options_def publication_options_new_def u64_max_def)

section \<open>The publication of one record\<close>

definition pack_name :: string where "pack_name = ''pack-0000000000000001.bin.gz''"

lemma pack_filename: "content_pack_filename (Suc 0) 0 (Suc 0) Gzip = pack_name" "str_ok (''content/'' @ pack_name)"
  "length pack_name = 28"
  by code_simp+

definition pack_frame :: bytes where
  "pack_frame = projr (encode_content asset_render_type_id (str_bytes ''unpack.astr.c001'') pack_payload)"

lemma pack_frame: "encode_content asset_render_type_id (str_bytes ''unpack.astr.c001'') pack_payload = Inr pack_frame"
    "length pack_frame = 94"
proof -
  have "\<exists>bs. encode_content asset_render_type_id (str_bytes ''unpack.astr.c001'') pack_payload = Inr bs \<and>
      length bs = 88 + length pack_payload"
    by (rule encode_content_total) (simp_all add: asset_render_type_id_def pack_payload_def max_record_bytes_def)
  then show "encode_content asset_render_type_id (str_bytes ''unpack.astr.c001'') pack_payload = Inr pack_frame"
    "length pack_frame = 94" by (auto simp: pack_frame_def pack_payload_def)
qed

definition pack_entry :: index_entry where
  "pack_entry = \<lparr>ie_etag = None, ie_type_id = asset_render_type_id, ie_codec_id = str_bytes ''unpack.astr.c001'',
     ie_content = \<lparr>cr_file = [Normal ''content'', Normal pack_name], cr_offset = 0, cr_length = 94,
       cr_checksum = checksum pack_frame, cr_pack_size = 94, cr_compression = Gzip\<rparr>,
     ie_last_access = 5, ie_last_used = 1, ie_unused_since = None\<rparr>"

lemma pack_index_encoded:
  "\<exists>bs. encode_index \<lparr>pi_revision = Suc 0, pi_guard = Some sample_guard, pi_entries = [(pack_address, pack_entry)]\<rparr> = Inr bs"
  by (simp add: encode_index_def write_index_def write_guard_def encode_snapshot_def sample_guard_def write_index_entry_def pack_address_def pack_entry_def
      write_list_def write_count_def write_bytes_def write_bytes_with_limit_def write_option_def write_optional_bytes_def
      write_nat64_def write_u64_def write_u32_def write_u8_def write_raw_def write_path_text_def write_string_def
      pack_filename(2) [simplified] pack_filename(3) u32_try_from_def max_field_bytes_def max_collection_entries_def
      encode_frame_def max_index_bytes_def index_magic_def)
    (simp add: asset_render_type_id_def)

lemma pack_staged:
  "stage_items plain_inflate pack_root [] pack_batch d =
     (Returns [\<lparr>sg_address = pack_address, sg_pending = Some pack_pending, sg_frame = pack_frame, sg_used = True\<rparr>], d)"
  using pack_frame(1) by (simp add: stage_items_def pack_batch_def stage_pending_def pack_pending_def and_then_def ret_def)

lemma pack_assembled:
  "assemble_packs (mt_target_content_bytes (po_maintenance pack_options))
     [\<lparr>sg_address = pack_address, sg_pending = Some pack_pending, sg_frame = pack_frame, sg_used = True\<rparr>] =
   Inr [[\<lparr>sg_address = pack_address, sg_pending = Some pack_pending, sg_frame = pack_frame, sg_used = True\<rparr>]]"
  by (simp add: assemble_packs_def assemble_step_def starts_pack_def pack_options_def publication_options_new_def
      production_maintenance_def pack_frame(2) u64_max_def max_content_bytes_def)

lemmas effect_simps = and_then_def attempt_def ret_def raise_def directory_call_def write_synced_def rename_file_def
  rename_or_remove_def remove_file_def

lemma pack_written:
  "\<exists>fs. write_pack plain_deflate pack_root (Suc 0) pack_options (Suc 0)
     (0, [\<lparr>sg_address = pack_address, sg_pending = Some pack_pending, sg_frame = pack_frame, sg_used = True\<rparr>]) [] empty_disk =
   (Returns [(pack_address, pack_entry)], \<lparr>dk_files = fs, dk_fates = []\<rparr>)"
  by (simp add: write_pack_def Let_def pack_frame(2) u64_max_def pack_item_step_def place_item_def pack_pending_def
      pack_options_def publication_options_new_def encode_content_pack_def plain_deflate_def max_encoded_content_bytes_def
      effect_simps empty_disk_def pack_filename(1) pack_entry_def)

lemma pack_committed:
  assumes "encode_index i = Inr bs"
  shows "\<exists>fs'. commit_index root NoFault i [] \<lparr>dk_files = fs, dk_fates = []\<rparr> = (Returns (), \<lparr>dk_files = fs', dk_fates = []\<rparr>)"
  using assms by (simp add: commit_index_def Let_def effect_simps remove_stale_def)

lemma pack_run_done: "\<exists>fs. pack_run = (Returns (), \<lparr>dk_files = fs, dk_fates = []\<rparr>)"
proof -
  have i: "current_index Map.empty pack_root = \<lparr>pi_revision = 0, pi_guard = None, pi_entries = []\<rparr>"
    by (simp add: current_index_def read_bounded_def empty_index_def)
  obtain fs where w: "write_pack plain_deflate pack_root (Suc 0) pack_options (Suc 0)
     (0, [\<lparr>sg_address = pack_address, sg_pending = Some pack_pending, sg_frame = pack_frame, sg_used = True\<rparr>]) [] empty_disk =
     (Returns [(pack_address, pack_entry)], \<lparr>dk_files = fs, dk_fates = []\<rparr>)" using pack_written by blast
  obtain bs where bs: "encode_index \<lparr>pi_revision = Suc 0, pi_guard = Some sample_guard, pi_entries = [(pack_address, pack_entry)]\<rparr> = Inr bs"
    using pack_index_encoded by blast
  have d: "directory_call empty_disk = (Returns (), empty_disk)" by (simp add: directory_call_def empty_disk_def)
  have d': "directory_call \<lparr>dk_files = fs, dk_fates = []\<rparr> = (Returns (), \<lparr>dk_files = fs, dk_fates = []\<rparr>)"
    by (simp add: directory_call_def)
  have "pack_run = publish_packs plain_deflate pack_root (Some sample_guard) pack_options NoFault (Suc 0) [] []
      [\<lparr>sg_address = pack_address, sg_pending = Some pack_pending, sg_frame = pack_frame, sg_used = True\<rparr>] empty_disk"
    using pack_staged
    by (simp add: pack_run_def publish_batch_def publish_over_def read_files_def and_then_def ret_def Let_def i empty_disk_def base_entries_def retained_entries_def
        maintenance_sources_def entries_by_content_file_def referenced_files_def u64_max_def)
      (simp add: pack_options_def publication_options_new_def production_maintenance_def max_content_bytes_def)
  then show ?thesis
    using pack_committed [OF bs, of pack_root fs]
    by (simp add: publish_packs_def and_then_def d d' pack_assembled w ret_def)
qed

lemma pack_run_returns: "fst pack_run = Returns ()"
  using pack_run_done by (metis fst_conv)

lemma pack_run_fates: "dk_fates (snd pack_run) = []"
  using pack_run_done by (metis disk.select_convs(2) snd_conv)

end
