(* ===== verification/Cache_Samples.thy ===== *)
theory Cache_Samples
  imports Cache_Restart Pack_Samples
begin

text \<open>A cache, its libraries and one rendered asset, to which the properties of the cache are applied.\<close>

definition sample_libraries :: libraries where
  "sample_libraries = \<lparr>lib_json = (\<lambda>_. ''null''), lib_json_parse = (\<lambda>_. Inl ''''), lib_source_map = (\<lambda>_. True),
     lib_inflate = plain_inflate, lib_deflate = plain_deflate\<rparr>"

definition sample_value :: cache_value where
  "sample_value = AssetRenderValue \<lparr>rds_source = ''x'', rds_source_map = None\<rparr>"

definition sample_address :: cache_address where
  "sample_address = (asset_render_namespace, str_bytes ''i'')"

definition sample_contract :: contract where
  "sample_contract a et v \<longleftrightarrow> a = sample_address \<and> et = None \<and> v = sample_value"

lemma sample_libraries_fields [simp]:
  "lib_source_map sample_libraries = (\<lambda>_. True)" "lib_inflate sample_libraries = plain_inflate"
  "lib_deflate sample_libraries = plain_deflate"
  by (simp_all add: sample_libraries_def)

lemma sample_value_ok: "value_ok sample_libraries sample_value"
  using sample_item_ok
  by (simp add: value_ok_def sample_value_def rendered_plain_def value_to_item_def rendered_to_dto_def sample_item_def opt_ok_def)

lemma sample_contract_ok: "\<forall>a et v. sample_contract a et v \<longrightarrow> value_ok sample_libraries v"
  by (simp add: sample_contract_def sample_value_ok)

text \<open>A value is stored in a cache in memory, and looked up.\<close>

definition memory_start :: cache_system where
  "memory_start = system_start Map.empty Map.empty options_memory strategy_timestamp strategy_timestamp"

definition memory_stored :: cache_system where
  "memory_stored = memory_start\<lparr>sy_cache := cache_store AssetRenderFamily sample_address None sample_value (sy_cache memory_start)\<rparr>"

definition memory_answer :: "get_answer \<times> compiler_cache" where
  "memory_answer = locked_get (begin_get AssetRenderFamily AssetRenderFamily sample_address None 0) (sy_cache memory_stored)"

definition memory_get :: running_get where
  "memory_get = \<lparr>rg_wanted = AssetRenderFamily, rg_family = AssetRenderFamily, rg_address = sample_address, rg_etag = None,
     rg_stamp = 0, rg_phase = Answered (fst memory_answer)\<rparr>"

definition memory_system :: cache_system where
  "memory_system = memory_stored\<lparr>sy_cache := snd memory_answer, sy_gets := [0 \<mapsto> memory_get]\<rparr>"

lemma memory_found: "fst memory_answer = Ready (Some sample_value) False"
  by (simp add: memory_answer_def memory_stored_def memory_start_def system_start_def cache_new_def Let_def layers_from_options_def
      options_memory_def cache_store_def cache_is_enabled_def layers_store_def count_in_def store_if_writable_def memory_store_def
      mark_dirty_if_def locked_get_def begin_get_def lookup_at_def memory_lookup_def use_entry_def entry_value_def get_found_def
      sample_value_def split: prod.split)

lemma memory_run: "cache_system_run sample_libraries pack_root sample_contract memory_system"
proof -
  have start: "cache_system_run sample_libraries pack_root sample_contract memory_start"
    unfolding memory_start_def by (rule cache_system_run.start) (simp_all add: located_def options_memory_def opt_ok_def)
  have "cache_step sample_libraries pack_root sample_contract memory_start memory_stored"
    unfolding memory_stored_def by (rule cache_step.works [OF cache_work.stores]) (simp add: sample_contract_def)
  with start have stored: "cache_system_run sample_libraries pack_root sample_contract memory_stored"
    by (rule cache_system_run.step)
  have stamp: "access_stamp 0 (sy_cache memory_stored) = 0" by (simp add: access_stamp_def)
  have enabled: "cache_is_enabled (sy_cache memory_stored)" "sy_gets memory_stored = Map.empty"
    by (simp_all add: memory_stored_def memory_start_def system_start_def cache_is_enabled_def cache_new_def Let_def options_memory_def)
  have "cache_work sample_libraries sample_contract memory_stored memory_system"
    unfolding memory_system_def memory_get_def
    using cache_work.begins [of memory_stored 0 0 AssetRenderFamily AssetRenderFamily sample_address None
        "fst memory_answer" "snd memory_answer" sample_libraries sample_contract]
    by (simp add: stamp enabled memory_answer_def)
  from cache_system_run.step [OF stored cache_step.works [OF this]] show ?thesis .
qed

text \<open>A value is stored in a cache on an empty directory, and flushed.\<close>

definition disk_options :: cache_options where
  "disk_options = options_filesystem\<lparr>co_cache_location := Some pack_root, co_max_age := 0, co_compression := Gzip\<rparr>"

definition disk_start :: cache_system where
  "disk_start = system_start Map.empty Map.empty disk_options strategy_timestamp strategy_timestamp"

definition disk_stored :: compiler_cache where
  "disk_stored = facade_store asset_renders (str_bytes ''i'') None sample_value (sy_cache disk_start)"

lemma disk_options_fields [simp]:
  "co_kind disk_options = Filesystem" "co_readonly disk_options = False" "co_cache_location disk_options = Some pack_root"
  "co_max_memory_generations disk_options = None" "co_compression disk_options = Gzip" "co_max_age disk_options = 0"
  "co_version disk_options = None" "co_allow_collecting_memory disk_options = False"
  by (simp_all add: disk_options_def options_filesystem_def)

lemma disk_start_fields [simp]: "ca_options (sy_cache disk_start) = disk_options" "sy_files disk_start = Map.empty"
  "ca_dirty_generation (sy_cache disk_start) = 0" "ca_published_generation (sy_cache disk_start) = 0"
  "ca_guard (sy_cache disk_start) = None" "ca_guard_error (sy_cache disk_start) = None"
  by (simp_all add: disk_start_def system_start_def cache_new_def Let_def)

lemma disk_run: "cache_system_run sample_libraries pack_root sample_contract disk_start"
  unfolding disk_start_def by (rule cache_system_run.start) (simp_all add: located_def opt_ok_def)

definition disk_pack_file :: pack_file where
  "disk_pack_file = open_with_options Map.empty pack_root persistent_serializer False"

lemma disk_pack_file: "pf_access_updates disk_pack_file = []" "\<not> has_standalone_guard disk_pack_file"
  by (simp_all add: disk_pack_file_def open_with_options_def has_standalone_guard_def current_index_def read_bounded_def empty_index_def)

definition disk_layer :: pack_layer where
  "disk_layer = \<lparr>pl_root = Some pack_root, pl_pack_file = Some 0, pl_reader_generation = 0, pl_compression = Gzip,
     pl_allow_collecting_memory = False, pl_publication_base = ReplaceAll, pl_active = True,
     pl_pending = [(sample_address, \<lparr>ce_family = AssetRenderFamily, ce_etag = None, ce_value = sample_value\<rparr>)]\<rparr>"

lemma disk_layers: "first_persistent (ca_layers disk_stored) = Some disk_layer" "ly_pack_files (ca_layers disk_stored) = [disk_pack_file]"
  using disk_pack_file(2)
  by (simp_all add: disk_stored_def facade_store_def asset_renders_def cache_store_def cache_is_enabled_def layers_store_def Let_def
      disk_start_def system_start_def cache_new_def layers_from_options_def pack_layer_open_def store_if_writable_def pack_store_def
      mark_dirty_if_def mark_dirty_def first_persistent_def disk_layer_def sample_address_def disk_pack_file_def)

lemma disk_pending: "batch_pending sample_libraries (pl_pending disk_layer) batch_new = Inr pack_batch"
proof -
  have "to_pack_file_address sample_address = pack_address"
    by (simp add: to_pack_file_address_def sample_address_def pack_address_def asset_render_namespace_def)
  moreover have "value_to_item sample_libraries AssetRenderFamily sample_value = Inr sample_item"
    by (simp add: value_to_item_def sample_value_def rendered_to_dto_def sample_item_def)
  ultimately show ?thesis by (simp add: disk_layer_def batch_pending_def pack_inserted)
qed

lemma disk_published:
  "\<exists>r. pack_layer_publish sample_libraries sample_guard 5 0 disk_layer [disk_pack_file] empty_disk = (Returns r, snd pack_run)"
proof -
  have "copy_access_updates_to disk_pack_file batch_new = batch_new" by (simp add: copy_access_updates_to_def disk_pack_file(1))
  moreover have "publish_batch plain_inflate plain_deflate pack_root (Some sample_guard) ReplaceAll pack_batch
      (publication_options_new \<lparr>rt_now = 5, rt_max_age = 0\<rparr> Gzip) NoFault empty_disk = (Returns (), snd pack_run)"
    using pack_run_returns unfolding pack_options_def [symmetric] by (metis pack_run_def prod.collapse)
  ultimately show ?thesis
    using disk_pending pack_run_fates
    by (simp add: pack_layer_publish_def disk_layer_def)
      (simp add: and_then_def [abs_def] ret_def [abs_def] Let_def read_files_def pack_run_fates)
qed

lemma disk_flushed: "\<exists>c. flush_to_filesystem sample_libraries 5 disk_stored empty_disk = (Returns c, snd pack_run)"
proof -
  have opts: "ca_options disk_stored = disk_options" by (simp add: disk_stored_def facade_store_def)
  have "cache_fits (sy_cache disk_start)" by (simp add: disk_start_def system_start_def cache_fits_new)
  then have "pending_generation disk_stored \<noteq> None"
    unfolding disk_stored_def facade_store_def
    by (rule cache_store_enabled(1)) (simp_all add: is_writable_filesystem_cache_def u64_max_def)
  then obtain g where g: "pending_generation disk_stored = Some g" by blast
  then have "ca_published_generation disk_stored < g" by (simp add: pending_generation_def split: if_splits)
  moreover have "current_guard disk_stored = sample_guard" "ca_guard_error disk_stored = None"
  proof -
    have "ca_guard disk_stored = None" "ca_guard_error disk_stored = None"
      by (simp_all add: disk_stored_def facade_store_def cache_store_def mark_dirty_if_def mark_dirty_def split: prod.split)
    then show "current_guard disk_stored = sample_guard" "ca_guard_error disk_stored = None"
      by (simp_all add: current_guard_def unwrap_or_def cache_version_def opts sample_guard_def str_bytes_def)
  qed
  ultimately show ?thesis
    using disk_published g
    by (auto simp: flush_to_filesystem_def publish_generation_def is_writable_filesystem_cache_def opts layers_publish_def disk_layers
        and_then_def ret_def)
qed

end
