(* ===== verification/Graph_History.thy ===== *)
theory Graph_History
  imports Samples
begin

text \<open>
  The module graph against the calls that made it.  A history lists the calls of \<open>connect\<close> in their order,
  each with the place it connects and its target; a later redirection of a connection changes the target of
  its call.  No index of the graph occurs in it.
\<close>

record connect_call =
  cc_origin :: "nat option"
  cc_block :: "nat option"
  cc_index :: "nat option"
  cc_target :: nat

inductive storage_history :: "connect_call list \<Rightarrow> graph_storage \<Rightarrow> bool" where
  start: "storage_history [] empty_graph"
| adds: "storage_history calls g \<Longrightarrow> add_module js identity sef g = (g', h) \<Longrightarrow> storage_history calls g'"
| connects: "storage_history calls g \<Longrightarrow> connect origin block index dep m g = Some g' \<Longrightarrow>
    storage_history (calls @ [\<lparr>cc_origin = origin, cc_block = block, cc_index = index, cc_target = m\<rparr>]) g'"
| builds: "storage_history calls g \<Longrightarrow> finish_module_build h content g = Inr g' \<Longrightarrow> storage_history calls g'"
| fails: "storage_history calls g \<Longrightarrow> fail_module js h err source g = Inr g' \<Longrightarrow> storage_history calls g'"

inductive graph_history :: "connect_call list \<Rightarrow> module_graph \<Rightarrow> bool" where
  finished: "storage_history calls g \<Longrightarrow> graph_history calls (finish g)"
| redirects: "graph_history calls g \<Longrightarrow> update_connection_module h m g = Some g' \<Longrightarrow>
    graph_history (calls[h := (calls ! h)\<lparr>cc_target := m\<rparr>]) g'"

text \<open>The target of the last call for a place in a module.\<close>

definition last_call :: "connect_call list \<Rightarrow> nat \<Rightarrow> nat option \<Rightarrow> nat \<Rightarrow> nat option" where
  "last_call calls m block index = map_option cc_target
     (find (\<lambda>c. cc_origin c = Some m \<and> cc_block c = block \<and> cc_index c = Some index) (rev calls))"

definition call_of :: "connection \<Rightarrow> connect_call" where
  "call_of c = \<lparr>cc_origin = cn_origin c, cc_block = cn_block c, cc_index = cn_index c, cc_target = cn_module c\<rparr>"

lemma connect_connections:
  "connect origin block index dep m g = Some g' \<Longrightarrow>
    map call_of (gs_connections g') = map call_of (gs_connections g) @
      [\<lparr>cc_origin = origin, cc_block = block, cc_index = index, cc_target = m\<rparr>]"
  by (auto simp: connect_def Let_def bind_simps call_of_def split: option.splits)

lemma storage_history_calls:
  "storage_history calls g \<Longrightarrow> graph_wf g \<and> map call_of (gs_connections g) = calls"
proof (induction rule: storage_history.induct)
  case start
  show ?case using graph_wf_empty by (simp add: empty_graph_def)
next
  case (adds calls g js identity sef g' h)
  then have "gs_connections g' = gs_connections g" by (auto simp: add_module_def Let_def)
  with adds building_step_wf [OF building_step.add [OF adds(2)]] show ?case by simp
next
  case (connects calls g origin block index dep m g')
  with connect_connections [OF connects(2)] building_step_wf [OF building_step.conn [OF connects(2)]] show ?case by simp
next
  case (builds calls g h content g')
  then have "gs_connections g' = gs_connections g" by (auto simp: finish_module_build_def split: option.splits)
  with builds building_step_wf [OF building_step.done_build [OF builds(2)]] show ?case by simp
next
  case (fails calls g js h err source g')
  then have "gs_connections g' = gs_connections g" by (auto simp: fail_module_def split: option.splits)
  with fails building_step_wf [OF building_step.failed_build [OF fails(2)]] show ?case by simp
qed

lemma graph_history_calls:
  "graph_history calls g \<Longrightarrow> graph_wf g \<and> map call_of (gs_connections g) = calls"
proof (induction rule: graph_history.induct)
  case (finished calls g)
  with storage_history_calls [OF this] graph_wf_finish show ?case by (auto simp: finish_def)
next
  case (redirects calls g h m g')
  have h: "h < length (gs_connections g)"
    using redirects.hyps(2) by (auto simp: update_connection_module_def bind_simps vec_simps)
  have "cn_module (gs_connections g ! h) < length (gs_modules g)"
    using redirects.IH h by (intro graph_wf_target) simp_all
  then have m: "m < length (gs_modules g)"
    using redirects.hyps(2) redirects.IH graph_wfD(2) [of g] by (auto simp: update_connection_module_def bind_simps vec_simps split: if_splits)
  from graph_wf_update_connection_module [OF _ h m] redirects.IH redirects.hyps(2)
  have g': "graph_wf g'" "gs_connections g' = (gs_connections g)[h := (gs_connections g ! h)\<lparr>cn_module := m\<rparr>]" by auto
  have "call_of ((gs_connections g ! h)\<lparr>cn_module := m\<rparr>) = (calls ! h)\<lparr>cc_target := m\<rparr>"
    using redirects.IH h by (auto simp: call_of_def)
  with g' redirects.IH show ?case by (simp add: map_update)
qed

lemma find_map: "find P (map f xs) = map_option f (find (\<lambda>x. P (f x)) xs)"
  by (induction xs) auto

lemma lookup_follows_history:
  assumes "graph_history calls g"
  shows "module_for_dependency g m block index = Some (last_call calls m block index)"
proof -
  from graph_history_calls [OF assms] have wf: "graph_wf g" and calls: "calls = map call_of (gs_connections g)" by simp_all
  have "last_call calls m block index =
      map_option cn_module (find (\<lambda>c. at_location c m (block, index)) (rev (gs_connections g)))"
    unfolding last_call_def calls rev_map find_map by (simp add: call_of_def at_location_def option.map_comp comp_def)
  moreover have "find (\<lambda>c. at_location c m (block, index)) (rev (gs_connections g)) = None" if "\<not> m < length (gs_modules g)"
  proof -
    have "\<not> at_location c m (block, index)" if c: "c \<in> set (gs_connections g)" for c
    proof -
      from c obtain h where "h < length (gs_connections g)" "gs_connections g ! h = c" by (auto simp: in_set_conv_nth)
      with graph_wfD(4) [OF wf, of h] have "cn_origin c = Some m \<Longrightarrow> m < length (gs_modules g)" by (auto simp: connection_wf_def)
      with \<open>\<not> m < length (gs_modules g)\<close> show ?thesis by (auto simp: at_location_def)
    qed
    then show ?thesis by (simp add: find_None_iff)
  qed
  ultimately show ?thesis using module_for_dependency_spec [OF wf, of m block index] by (auto simp: if_splits)
qed

section \<open>The sample graph\<close>

definition sample_calls :: "connect_call list" where
  "sample_calls = map (\<lambda>(origin, block, index, dep, m).
     \<lparr>cc_origin = origin, cc_block = block, cc_index = index, cc_target = m\<rparr>) sample_edges"

lemma sample_history: "graph_history sample_calls sample_graph"
proof -
  have adds: "storage_history [] (fst (add_module js i s g))" if "storage_history [] g" for js i s g
    by (rule storage_history.adds [OF that, of js i s _ "snd (add_module js i s g)"]) simp
  have modules: "storage_history [] sample_modules"
    by (simp add: sample_modules_def adds storage_history.start)
  from sample_size obtain g where g: "sample_storage = Some g" by auto
  then obtain g0 where
    g0: "fold_opt (\<lambda>(h, c) g. (case finish_module_build h c g of Inl _ \<Rightarrow> None | Inr g' \<Rightarrow> Some g'))
       sample_contents sample_modules = Some g0"
    and g1: "fold_opt (\<lambda>(orig, b, i, d, m) g. connect orig b i d m g) sample_edges g0 = Some g"
    by (auto simp: sample_storage_def bind_eq_Some_conv)
  have h0: "storage_history [] g0"
    by (rule fold_opt_keeps [where P = "storage_history []", OF g0 modules])
      (auto split: prod.splits sum.splits intro: storage_history.builds)
  have "storage_history (calls @ map (\<lambda>(origin, block, index, dep, m).
      \<lparr>cc_origin = origin, cc_block = block, cc_index = index, cc_target = m\<rparr>) edges) g"
    if "storage_history calls g0" "fold_opt (\<lambda>(orig, b, i, d, m) g. connect orig b i d m g) edges g0 = Some g" for edges calls g0
    using that
  proof (induction edges arbitrary: calls g0)
    case (Cons e edges)
    obtain origin block index dep m where e: "e = (origin, block, index, dep, m)" by (cases e)
    from Cons.prems(2) obtain g1 where g1: "connect origin block index dep m g0 = Some g1"
      and rest: "fold_opt (\<lambda>(orig, b, i, d, m) g. connect orig b i d m g) edges g1 = Some g"
      by (auto simp: e bind_eq_Some_conv)
    from Cons.IH [OF storage_history.connects [OF Cons.prems(1) g1] rest] show ?case by (simp add: e)
  qed simp
  from this [OF h0 g1] have "storage_history sample_calls g" by (simp add: sample_calls_def)
  moreover have "sample_graph = finish g" by (simp only: sample_graph_def g option.sel)
  ultimately show ?thesis by (metis graph_history.finished)
qed

end
