(* ===== verification/Flag_Exports.thy ===== *)
theory Flag_Exports
  imports Computation_Cache
begin

text \<open>
  \<open>flag_dependency_exports_plugin.rs\<close>: which exports every module provides, read from the module
  computation cache of a compiler that has one, and stored there when they had to be computed.
\<close>

section \<open>The pass\<close>

definition cached_exports ::
  "module_identity \<Rightarrow> computation_cache option \<Rightarrow> exports_info option \<times> computation_cache option" where
  "cached_exports identity cache =
     (case cache of
        None \<Rightarrow> (None, None)
      | Some cc \<Rightarrow> let (found, cc) = get_provided_exports identity cc in (found, Some cc))"

definition remember_exports ::
  "module_identity \<Rightarrow> exports_info \<Rightarrow> computation_cache option \<Rightarrow> computation_cache option option" where
  "remember_exports identity info cache =
     (case cache of
        None \<Rightarrow> Some None
      | Some cc \<Rightarrow> map_option Some (store_provided_exports identity info cc))"

definition flag_exports_step ::
  "nat \<Rightarrow> computation_cache option \<times> module_graph \<Rightarrow> (computation_cache option \<times> module_graph) option" where
  "flag_exports_step h = (\<lambda>(cache, mg). do {
     m \<leftarrow> graph_module mg h;
     let (cached, cache) = cached_exports (m_identity m) cache;
     (info, cache) \<leftarrow>
       (case cached of
          Some info \<Rightarrow> Some (info, cache)
        | None \<Rightarrow> let info = provided_exports m
                  in map_option (Pair info) (remember_exports (m_identity m) info cache));
     mg \<leftarrow> modify_exports h (\<lambda>_. info) mg;
     Some (cache, mg) })"

definition flag_dependency_exports ::
  "computation_cache option \<times> module_graph \<Rightarrow> (computation_cache option \<times> module_graph) option" where
  "flag_dependency_exports = (\<lambda>(cache, mg).
     fold_opt flag_exports_step (map m_handle (gs_modules mg)) (cache, mg))"

section \<open>Provided exports are those of the modules\<close>

text \<open>
  The cache is prepared for a graph and true of it: every module has an entry, and what an entry
  remembers is what its module provides.
\<close>

definition exports_memo_ok :: "module_graph \<Rightarrow> computation_cache \<Rightarrow> bool" where
  "exports_memo_ok mg cc \<longleftrightarrow> (\<forall>m \<in> set (gs_modules mg). \<exists>e. cc_modules cc (m_identity m) = Some e \<and>
     (\<forall>info. ce_provided e = Some info \<longrightarrow> info = provided_exports m))"

text \<open>Afterwards every entry remembers what its module provides.\<close>

definition exports_remembered :: "module_graph \<Rightarrow> computation_cache \<Rightarrow> bool" where
  "exports_remembered mg cc \<longleftrightarrow> (\<forall>m \<in> set (gs_modules mg). \<exists>e. cc_modules cc (m_identity m) = Some e \<and>
     ce_provided e = Some (provided_exports m))"

abbreviation exports_upto :: "nat \<Rightarrow> module_graph \<Rightarrow> module_graph" where
  "exports_upto k mg \<equiv> mg\<lparr>mg_exports := map (\<lambda>i. if i < k then provided_exports (gs_modules mg ! i)
    else mg_exports mg ! i) [0..<length (gs_modules mg)]\<rparr>"

lemma exports_upto_Suc:
  "k < length (gs_modules mg) \<Longrightarrow>
    modify_exports k (\<lambda>_. provided_exports (gs_modules mg ! k)) (exports_upto k mg) = Some (exports_upto (Suc k) mg)"
proof -
  assume k: "k < length (gs_modules mg)"
  have "(map (\<lambda>i. if i < k then provided_exports (gs_modules mg ! i) else mg_exports mg ! i)
       [0..<length (gs_modules mg)])[k := provided_exports (gs_modules mg ! k)] =
     map (\<lambda>i. if i < Suc k then provided_exports (gs_modules mg ! i) else mg_exports mg ! i)
       [0..<length (gs_modules mg)]"
    by (rule nth_equalityI) (auto simp: nth_list_update less_Suc_eq)
  with k show ?thesis by (simp add: modify_exports_def)
qed

lemma get_provided_entries:
  "get_provided_exports identity cc = (found, cc') \<Longrightarrow>
    cc_modules cc' = cc_modules cc \<and> found = Option.bind (cc_modules cc identity) ce_provided"
  by (auto simp: get_provided_exports_def Let_def)

text \<open>One module: its entry is filled, the others stay.\<close>

lemma flag_exports_one:
  assumes m: "graph_module mg h = Some m"
    and me: "modify_exports h (\<lambda>_. provided_exports m) mg = Some mg'"
    and e: "\<And>cc. cache = Some cc \<Longrightarrow> \<exists>e. cc_modules cc (m_identity m) = Some e \<and>
      (\<forall>info. ce_provided e = Some info \<longrightarrow> info = provided_exports m)"
  shows "\<exists>cache'. flag_exports_step h (cache, mg) = Some (cache', mg') \<and> (cache' = None \<longleftrightarrow> cache = None) \<and>
    (\<forall>cc cc'. cache = Some cc \<longrightarrow> cache' = Some cc' \<longrightarrow>
       (\<exists>e. cc_modules cc' = (cc_modules cc)(m_identity m \<mapsto> e) \<and> ce_provided e = Some (provided_exports m)))"
proof (cases cache)
  case None
  with m me show ?thesis
    by (simp add: flag_exports_step_def cached_exports_def remember_exports_def Let_def)
next
  case (Some cc)
  from e [OF Some] obtain e where e: "cc_modules cc (m_identity m) = Some e"
    and info: "\<And>info. ce_provided e = Some info \<Longrightarrow> info = provided_exports m" by auto
  obtain found cc1 where g: "get_provided_exports (m_identity m) cc = (found, cc1)" by (cases "get_provided_exports (m_identity m) cc")
  from get_provided_entries [OF g] e have g1: "cc_modules cc1 = cc_modules cc" and found: "found = ce_provided e" by simp_all
  show ?thesis
  proof (cases "ce_provided e")
    case None
    with m me Some g g1 e found show ?thesis
      by (auto simp: flag_exports_step_def cached_exports_def remember_exports_def store_provided_exports_def
          modify_entry_def bind_simps Let_def)
  next
    case (Some i)
    with info have i: "i = provided_exports m" by simp
    have "cc_modules cc = (cc_modules cc)(m_identity m \<mapsto> e)" using e by (simp add: fun_upd_idem)
    with m me \<open>cache = Some cc\<close> g g1 found Some i show ?thesis
      by (auto simp: flag_exports_step_def cached_exports_def Let_def bind_simps)
  qed
qed

lemma flag_exports_fold:
  assumes wf: "graph_wf mg" and ids: "distinct (map m_identity (gs_modules mg))"
    and memo: "\<And>cc. cache = Some cc \<Longrightarrow> exports_memo_ok mg cc"
    and len: "length (mg_exports mg) = length (gs_modules mg)"
    and k: "k \<le> length (gs_modules mg)"
  shows "\<exists>cache'. fold_opt flag_exports_step [0..<k] (cache, mg) = Some (cache', exports_upto k mg) \<and>
    (cache' = None \<longleftrightarrow> cache = None) \<and>
    (\<forall>cc. cache' = Some cc \<longrightarrow> exports_memo_ok mg cc \<and>
       (\<forall>i < k. \<exists>e. cc_modules cc (m_identity (gs_modules mg ! i)) = Some e \<and>
          ce_provided e = Some (provided_exports (gs_modules mg ! i))))"
  using k
proof (induction k)
  case 0
  have "map (\<lambda>i. mg_exports mg ! i) [0..<length (gs_modules mg)] = mg_exports mg"
    unfolding len [symmetric] by (rule map_nth)
  then show ?case using memo by simp
next
  case (Suc k)
  then have k: "k < length (gs_modules mg)" by simp
  from Suc.IH k obtain cache1 where
    s: "fold_opt flag_exports_step [0..<k] (cache, mg) = Some (cache1, exports_upto k mg)"
    and none: "cache1 = None \<longleftrightarrow> cache = None"
    and ok: "\<And>cc. cache1 = Some cc \<Longrightarrow> exports_memo_ok mg cc"
    and filled: "\<And>cc i. cache1 = Some cc \<Longrightarrow> i < k \<Longrightarrow>
      \<exists>e. cc_modules cc (m_identity (gs_modules mg ! i)) = Some e \<and> ce_provided e = Some (provided_exports (gs_modules mg ! i))"
    by force
  let ?m = "gs_modules mg ! k"
  have "graph_module (exports_upto k mg) k = Some ?m" using k by (simp add: graph_module_def)
  from flag_exports_one [OF this exports_upto_Suc [OF k], of cache1] ok k obtain cache2 where
    t: "flag_exports_step k (cache1, exports_upto k mg) = Some (cache2, exports_upto (Suc k) mg)"
      "cache2 = None \<longleftrightarrow> cache1 = None"
    and upd: "\<And>cc cc'. cache1 = Some cc \<Longrightarrow> cache2 = Some cc' \<Longrightarrow>
      \<exists>e. cc_modules cc' = (cc_modules cc)(m_identity ?m \<mapsto> e) \<and> ce_provided e = Some (provided_exports ?m)"
    by (force simp: exports_memo_ok_def)
  have same: "m = ?m" if "m \<in> set (gs_modules mg)" "m_identity m = m_identity ?m" for m
    using ids that k by (metis distinct_map inj_onD nth_mem)
  have rest: "exports_memo_ok mg cc' \<and> (\<forall>i < Suc k. \<exists>e. cc_modules cc' (m_identity (gs_modules mg ! i)) = Some e \<and>
      ce_provided e = Some (provided_exports (gs_modules mg ! i)))" if c': "cache2 = Some cc'" for cc'
  proof -
    from c' t(2) obtain cc where c: "cache1 = Some cc" by (cases cache1) auto
    from upd [OF c c'] obtain e where
      e: "cc_modules cc' = (cc_modules cc)(m_identity ?m \<mapsto> e)" "ce_provided e = Some (provided_exports ?m)" by blast
    have "exports_memo_ok mg cc'"
      unfolding exports_memo_ok_def
    proof
      fix m assume m: "m \<in> set (gs_modules mg)"
      with ok [OF c] same [OF m] e
      show "\<exists>e. cc_modules cc' (m_identity m) = Some e \<and> (\<forall>info. ce_provided e = Some info \<longrightarrow> info = provided_exports m)"
        by (cases "m_identity m = m_identity ?m") (auto simp: exports_memo_ok_def)
    qed
    moreover have "\<exists>e. cc_modules cc' (m_identity (gs_modules mg ! i)) = Some e \<and>
        ce_provided e = Some (provided_exports (gs_modules mg ! i))" if i: "i < Suc k" for i
    proof (cases "m_identity (gs_modules mg ! i) = m_identity ?m")
      case True
      have "i < length (gs_modules mg)" using i k by simp
      from same [OF nth_mem [OF this] True] e show ?thesis by simp
    next
      case False
      then have "i < k" using i by (cases "i = k") auto
      from filled [OF c this] False e(1) show ?thesis by simp
    qed
    ultimately show ?thesis by blast
  qed
  have "fold_opt flag_exports_step [0..<Suc k] (cache, mg) = Some (cache2, exports_upto (Suc k) mg)"
    using s t(1) by (simp add: fold_opt_append)
  with none t(2) rest show ?case by blast
qed

theorem flag_dependency_exports_spec:
  assumes wf: "graph_wf mg" and ids: "distinct (map m_identity (gs_modules mg))"
    and memo: "\<forall>cc. cache = Some cc \<longrightarrow> exports_memo_ok mg cc"
    and len: "length (mg_exports mg) = length (gs_modules mg)"
  shows "\<exists>cache'. flag_dependency_exports (cache, mg) =
      Some (cache', mg\<lparr>mg_exports := map provided_exports (gs_modules mg)\<rparr>) \<and>
    (cache' = None \<longleftrightarrow> cache = None) \<and> (\<forall>cc'. cache' = Some cc' \<longrightarrow> exports_remembered mg cc')"
proof -
  have h: "map m_handle (gs_modules mg) = [0..<length (gs_modules mg)]"
    using graph_wf_handle [OF wf] by (intro nth_equalityI) simp_all
  have e: "map (\<lambda>i. if i < length (gs_modules mg) then provided_exports (gs_modules mg ! i) else mg_exports mg ! i)
      [0..<length (gs_modules mg)] = map provided_exports (gs_modules mg)"
    by (rule nth_equalityI) simp_all
  from flag_exports_fold [OF wf ids _ len order_refl, of cache] memo obtain cache' where
    f: "fold_opt flag_exports_step [0..<length (gs_modules mg)] (cache, mg) =
      Some (cache', mg\<lparr>mg_exports := map provided_exports (gs_modules mg)\<rparr>)"
    "cache' = None \<longleftrightarrow> cache = None"
    and r: "\<And>cc i. cache' = Some cc \<Longrightarrow> i < length (gs_modules mg) \<Longrightarrow>
       \<exists>e. cc_modules cc (m_identity (gs_modules mg ! i)) = Some e \<and>
          ce_provided e = Some (provided_exports (gs_modules mg ! i))"
    unfolding e by force
  have "exports_remembered mg cc'" if "cache' = Some cc'" for cc'
    using r [OF that] by (auto simp: exports_remembered_def in_set_conv_nth)
  with f show ?thesis by (auto simp: flag_dependency_exports_def h)
qed

text \<open>
  A cache that is true of the modules it has entries for, whatever graph they came from, is ready once
  it is prepared for a graph: what a module provides has to follow from its source.
\<close>

definition provided_follows_source :: "module_graph \<Rightarrow> computation_cache \<Rightarrow> bool" where
  "provided_follows_source mg cc \<longleftrightarrow> (\<forall>h < length (gs_modules mg). \<forall>e info.
     cc_modules cc (identity_at mg h) = Some e \<longrightarrow> ce_signature e = signature_of mg h \<longrightarrow>
     ce_provided e = Some info \<longrightarrow> info = provided_exports (gs_modules mg ! h))"

lemma prepared_exports_ok:
  assumes wf: "graph_wf mg" and ids: "distinct (map m_identity (gs_modules mg))"
    and p: "prepare_before_chunk_graph mg cc = Some cc'" and src: "provided_follows_source mg cc"
  shows "exports_memo_ok mg cc'"
proof -
  from prepare_before_chunk_graph_spec [OF wf ids, of cc] p have
    e: "\<And>h. h < length (gs_modules mg) \<Longrightarrow>
      (if h \<in> touched mg (changed_modules mg cc)
        then cc_modules cc' (identity_at mg h) = Some (new_entry (signature_of mg h))
        else cc_modules cc' (identity_at mg h) = cc_modules cc (identity_at mg h) \<and>
          (\<exists>e. cc_modules cc (identity_at mg h) = Some e \<and> ce_signature e = signature_of mg h))" by auto
  have "\<exists>e. cc_modules cc' (identity_at mg h) = Some e \<and>
      (\<forall>info. ce_provided e = Some info \<longrightarrow> info = provided_exports (gs_modules mg ! h))"
    if h: "h < length (gs_modules mg)" for h
    using e [OF h] src h by (auto simp: provided_follows_source_def new_entry_def split: if_splits)
  then show ?thesis by (auto simp: exports_memo_ok_def in_set_conv_nth)
qed

lemma fresh_exports_ok:
  "graph_wf mg \<Longrightarrow> distinct (map m_identity (gs_modules mg)) \<Longrightarrow>
    prepare_before_chunk_graph mg empty_computation_cache = Some cc \<Longrightarrow> exports_memo_ok mg cc"
  by (erule (2) prepared_exports_ok) (simp add: provided_follows_source_def empty_computation_cache_def)

end
