(* ===== verification/Spec2Isabelle.thy ===== *)
theory Spec2Isabelle
  imports Export_Samples Runtime_Trees Compile_Samples Cache_Samples Graph_History Flag_Exports
begin

text \<open>
  A verification library for \<open>unpack\<close>, a JavaScript bundler written in Rust.  File names
  below are those of \<open>crates/unpack_core/src/\<close>, unless they name another crate.

  How the program works.  The make phase (\<open>make.rs\<close>) resolves, loads and parses modules and grows
  a module graph: modules, and connections from a dependency in one module to another module.  The
  frozen graph is then sealed (\<open>compilation.rs\<close>): plugins mark exports and redirect connections,
  \<open>build_chunk_graph.rs\<close> distributes the modules over chunks and chunk groups, ids are assigned
  (\<open>id_assignment.rs\<close>), code is generated, and the runtime that each entrypoint needs is selected
  (\<open>runtime.rs\<close>).

  Theories, in the order of their imports.
    \<^item> \<open>Prelude\<close>: panics as options, folds and loops that may panic, vectors.
    \<^item> \<open>Paths\<close> (\<open>unpack_paths\<close>), \<open>Stable_Hash\<close> (\<open>cache_hash.rs\<close>), \<open>Module_Model\<close>
      (\<open>dependency.rs\<close>, \<open>module.rs\<close>, \<open>error.rs\<close>), \<open>Exports_Info\<close> (\<open>exports_info.rs\<close>).
    \<^item> \<open>Module_Graph\<close> (\<open>module_graph.rs\<close>): both graphs over one storage, \<open>graph_wf\<close> and that every
      operation keeps it; the locale \<open>connection_view\<close> is what the rest of the compiler relies on.
      \<open>Graph_History\<close> ties a graph to the list of the calls that made it.
    \<^item> \<open>Module_Mask\<close>: the bit sets of the chunk planner, an interpretation of \<open>dense_set\<close>.
    \<^item> \<open>Runtime\<close> (\<open>runtime.rs\<close>): requirement masks and the closure that selects runtime modules.
    \<^item> \<open>Render_Ids\<close> (\<open>id_assignment.rs\<close>): collision-safe ids.
    \<^item> \<open>Linked\<close>, \<open>Chunk_Graph\<close> (\<open>chunk.rs\<close>, \<open>chunk_group.rs\<close>, \<open>chunk_graph.rs\<close>): the chunk graph with its
      mutual links, and \<open>Runtime_Trees\<close>, the requirements of entrypoints.
    \<^item> \<open>Graph_Search\<close>: the locale of the three breadth- and depth-first walks of the program.
    \<^item> \<open>Chunk_Planning\<close>, \<open>Planning_Facts\<close>, \<open>Planning_Correct\<close>: the worklist of async chunk plans, why it
      ends and what its result says: the parents of a plan are the groups that import its target.  \<open>Chunk_Build\<close>, \<open>Chunk_Realize\<close>, \<open>Split_Chunks\<close>, \<open>Loading\<close>: the
      chunk graph made from the plans, split chunks, and what a run of the bundle can rely on.
    \<^item> \<open>Used_Exports\<close> (\<open>flag_dependency_usage_plugin.rs\<close>), \<open>Flag_Exports\<close>
      (\<open>flag_dependency_exports_plugin.rs\<close>), \<open>Side_Effects\<close>
      (\<open>optimize/side_effects_flag_plugin.rs\<close>): which exports are provided and used, and the redirection of
      imports through re-exports.
    \<^item> \<open>Computation_Cache\<close> (\<open>module_computation_cache.rs\<close>), \<open>Naming\<close>, \<open>Sealing\<close> (\<open>id_assignment.rs\<close>,
      \<open>compilation.rs\<close>): ids, module hashes and runtime requirements, with and without the memos of a
      previous compilation; the hashes that a cache keeps stay right over recompilations (\<open>hashes_right\<close>)
      as long as no modules are concatenated.  \<open>Concatenation\<close> (\<open>optimize/module_concatenation_plugin.rs\<close>), \<open>Grounding\<close>,
      \<open>Compilation\<close>: scopes of concatenated modules and the order of the sealing steps.
    \<^item> \<open>Byte_Codec\<close>, \<open>Pack_Records\<close>, \<open>Pack_Codecs\<close>, \<open>Path_Text\<close>, \<open>Pack_Index\<close> (\<open>cache/pack_file.rs\<close>),
      \<open>Serializer\<close> (\<open>serialization/serializer.rs\<close>): the format of the persistent cache.  Each writer \<open>emits\<close>
      what its reader \<open>reads\<close>, and a reader takes nothing else; the laws compose along the formats.
    \<^item> \<open>Pack_File\<close>, \<open>Pack_Publish\<close>: opening a cache, restoring an item, publishing a batch.  A directory is
      a map from paths to contents; in a publication each call to the file system, reads included, follows a
      list of fates (succeed, fail, or the process stops there).  A failed read finds no file; where that hides
      an index from a publication that would then write over the packs of the first revision, nothing is claimed
      (\<open>index_is_seen\<close>).  \<open>Publish_Facts\<close> has the rules that follow a run (\<open>leads\<close>),
      \<open>Publish_Staging\<close> and \<open>Publish_Correct\<close> what a publication leaves on the disk, \<open>Pack_Cache\<close> the
      invariant of any sequence of publications.
    \<^item> \<open>File_System\<close>, \<open>Snapshots\<close>, \<open>Snapshot_Facts\<close> (\<open>snapshot.rs\<close>): a tree of directories, files and links
      with the calls of \<open>std::fs\<close> on it; taking and validating snapshots.  A computation that uses the shared
      cache \<open>caches\<close>: it answers what it answers without one and keeps the cache coherent.
    \<^item> \<open>Path_Plain\<close>, \<open>Pack_Convert\<close> (\<open>cache/pack_file.rs\<close>, \<open>snapshot.rs\<close>, \<open>cache/cache_items.rs\<close>): the
      records of cache items and their stored form; the locale \<open>conversion\<close> says that what is stored is
      restored, for the records that \<open>plain\<close> predicates describe.
    \<^item> \<open>Cache_Layers\<close> (\<open>cache/cache_layers.rs\<close>, the two caches in memory), \<open>Cache_Store\<close> (\<open>cache.rs\<close>,
      \<open>cache_facade.rs\<close>, \<open>cache/options.rs\<close>, \<open>cache/pack_file_cache_strategy.rs\<close>): the cache above the pack
      file.  The locale \<open>cache_layer\<close> is the contract of a layer.  \<open>Cache_Facts\<close> shows that each operation
      holds only values that a contract allows, also when what it reads is a part of the files (\<open>sees\<close>); \<open>Cache_Runs\<close> that any interleaving of them does, and
      \<open>Cache_Restart\<close> what is not lost: waiting items are announced, and found after a publication and a restart.
    \<^item> \<open>Samples\<close>, \<open>Export_Samples\<close>, \<open>Compile_Samples\<close>, \<open>Pack_Samples\<close>, \<open>Cache_Samples\<close>: concrete graphs
      and caches to which the properties are applied.

  Conventions.  Arena handles and \<open>usize\<close> are naturals, \<open>u64\<close> and the masks are words of their
  width, strings are the list of their UTF-8 bytes.  \<^term>\<open>None\<close> is a panic (an index out of range,
  a failed \<open>expect\<close> or \<open>assert!\<close>); for the loops, which are \<open>loop_opt\<close>, it is also a loop that never
  ends, so that an equation with \<^term>\<open>Some\<close> states termination and the absence of panics.  No fuel is
  used.  A hash map is a map, or its association list in insertion order where the code iterates
  over it; it always sorts what it yields.  Code of other crates is a parameter: \<open>serde_json\<close>'s
  printer and parser, the resolver, and the compression of packs, of which \<open>inflates\<close> says that what was compressed is
  decompressed to the same bytes.  Times are naturals: milliseconds for stamps, nanoseconds for
  durations.  The counters of the cache index are naturals with the bound of \<open>u64\<close> written out.

  Not modelled: the make phase (the queue of tasks that calls resolver, loaders and parsers; the
  operations of the module graph it makes are modelled), parsing (the swc syntax tree), the text of
  generated code (rspack's source edits), resolution and the loading of files, the watch mode, the node
  bindings, the messages of the cache and the marker file that warns of a second writer.
\<close>

section \<open>The chunk graph\<close>

text \<open>C1: For every well-formed module graph and all its entries, with and without split chunks,
  building the chunk graph ends without a panic.  The result is well formed (chunks and groups,
  chunks and modules, and group parents and children name each other), its parent edges form no
  cycle, there is one entrypoint for each entry, and every chunk group has a chunk.\<close>

theorem chunk_graph_is_built:
  assumes "graph_wf mg" and "memo_ok memo mg" and "\<forall>e \<in> set es. e < length (gs_modules mg)"
  shows "\<exists>g. build_chunk_graph_with_cache memo mg ns es split = Some g \<and> chunk_graph_wf g \<and>
    acyclic (group_edges g) \<and> length (cg_entrypoints g) = length es \<and>
    (\<forall>i < length (cg_groups g). gr_chunks (cg_groups g ! i) \<noteq> [])"
  using build_chunk_graph_spec [OF assms] by blast

theorem chunk_graph_is_built_witness:
  "\<exists>g. build_chunk_graph_with_cache (\<lambda>_. None) sample_graph [''main''] [0]
        (Some \<lparr>so_min_chunks = 2, so_name = None\<rparr>) = Some g \<and>
    chunk_graph_wf g \<and> acyclic (group_edges g) \<and> length (cg_entrypoints g) = length [0 :: nat] \<and>
    (\<forall>i < length (cg_groups g). gr_chunks (cg_groups g ! i) \<noteq> [])"
  by (rule chunk_graph_is_built [OF sample_graph_wf memo_ok_empty]) (simp add: sample_graph_size)

text \<open>C2: When the chunk graph of a well-formed module graph runs as a page, every module that
  evaluation reaches, through static imports or \<open>import()\<close>, is in a chunk loaded by then.  So
  leaving the modules available on all paths out of an async chunk, and moving shared modules into
  split chunks, never loses a module.\<close>

theorem evaluated_modules_are_loaded:
  assumes "graph_wf mg" and "memo_ok memo mg" and "\<forall>e \<in> set es. e < length (gs_modules mg)"
    and "build_chunk_graph_with_cache memo mg ns es split = Some g"
    and "runs mg g es S X"
  shows "X \<subseteq> S"
  using build_chunk_graph_spec [OF assms(1-3), of ns split] assms(4,5) by auto

theorem evaluated_modules_are_loaded_witness:
  "\<exists>g S. build_chunk_graph_with_cache (\<lambda>_. None) sample_graph [''main''] [0] None = Some g \<and>
     runs sample_graph g [0] S {2, 1, 0} \<and> {2, 1, 0} \<subseteq> S"
proof -
  have r: "\<forall>e \<in> set [0 :: nat]. e < length (gs_modules sample_graph)" by (simp add: sample_graph_size)
  obtain g where g: "build_chunk_graph_with_cache (\<lambda>_. None) sample_graph [''main''] [0] None = Some g"
    using sample_chunks by auto
  have "runs sample_graph g [0] (group_modules g (cg_entrypoints g ! 0)) {0}"
    using runs.start [of 0 "[0]" sample_graph g] by simp
  from runs.static [OF this _ sample_edge]
  have "runs sample_graph g [0] (group_modules g (cg_entrypoints g ! 0)) {1, 0}" by simp
  from runs.import [OF this _ sample_import]
  have "runs sample_graph g [0] (group_modules g (cg_entrypoints g ! 0) \<union> block_modules g (0, 0)) {2, 1, 0}"
    by simp
  with evaluated_modules_are_loaded [OF sample_graph_wf memo_ok_empty r g this] g show ?thesis by blast
qed

text \<open>C3: The worklist of the chunk planner ends, and then its plans are exact.  A target has a plan if and
  only if a module in the chunk of some group imports it and the group does not provide it; the parents of
  its plan are all those groups, each with all the blocks of its modules that import it; the modules it counts on are those that all these groups provide;
  its chunk holds precisely what the target reaches statically and they do not all provide; and it provides
  these modules together with the ones it counts on.\<close>

theorem plans_omit_what_all_parents_provide:
  assumes "graph_wf mg" and "memo_ok memo mg" and "\<forall>e \<in> set eps. entry_ok mg e"
  shows "\<exists>plans. plan_async_chunks memo mg eps = Some plans \<and>
    dom (map_of plans) = {t. importing_groups mg eps (map_of plans) t \<noteq> {}} \<and>
    (\<forall>t p. map_of plans t = Some p \<longrightarrow>
       dom (map_of (pl_parents p)) = importing_groups mg eps (map_of plans) t \<and>
       (\<forall>L ap. map_of (pl_parents p) L = Some ap \<longrightarrow>
          set (ap_origins ap) = importing_blocks mg eps (map_of plans) t L) \<and>
       mask_set (pl_min p) = (\<Inter>L \<in> importing_groups mg eps (map_of plans) t. group_avail eps (map_of plans) L) \<and>
       set (plan_modules p) = static_walk.reach mg t - mask_set (pl_min p) \<and>
       mask_set (pl_resulting p) = mask_set (pl_min p) \<union> static_walk.reach mg t)"
proof -
  from plan_async_chunks_total [OF assms] obtain plans where
    p: "plan_async_chunks memo mg eps = Some plans" and ok: "plans_ok mg eps (map_of plans)"
    and st: "\<forall>K. group_valid eps (map_of plans) K \<longrightarrow> settled mg eps (map_of plans) K" by blast
  have "set (pl_static q) = static_walk.reach mg t" "mask_set (pl_resulting q) = mask_set (pl_min q) \<union> set (pl_static q)"
    if "map_of plans t = Some q" for t q
    using ok that by (simp_all add: plans_ok_def plan_ok_def masks_ok_def)
  with p planned_are_imported [OF ok st] parents_are_importers [OF ok st] plan_min_is_common [OF ok st]
  show ?thesis by (simp add: set_plan_modules)
qed

theorem plans_omit_what_all_parents_provide_witness:
  "\<exists>eps plans. length eps = 1 \<and> plan_async_chunks (\<lambda>_. None) sample_graph eps = Some plans \<and>
    dom (map_of plans) = {t. importing_groups sample_graph eps (map_of plans) t \<noteq> {}}"
proof -
  from sample_entry_plan obtain e where "entry_ok sample_graph e" by blast
  with plans_omit_what_all_parents_provide [OF sample_graph_wf memo_ok_empty, of "[e]"]
  show ?thesis by (intro exI [of _ "[e]"]) auto
qed

text \<open>C7: Whatever way a program takes from an entry to an async chunk, following imports recorded
  in the plans, the chunks it has loaded on the way hold every module the async chunk's target
  imports statically, directly or not.\<close>

theorem every_path_loads_static_imports:
  assumes "graph_wf mg" and "memo_ok memo mg" and "\<forall>e \<in> set eps. entry_ok mg e"
  shows "\<exists>plans. plan_async_chunks memo mg eps = Some plans \<and>
    (\<forall>t S. loaded_path eps (map_of plans) (LAsync t) S \<longrightarrow> static_walk.reach mg t \<subseteq> S)"
proof -
  from plan_async_chunks_total [OF assms] obtain plans where
    p: "plan_async_chunks memo mg eps = Some plans" and ok: "plans_ok mg eps (map_of plans)"
    and st: "\<forall>K. group_valid eps (map_of plans) K \<longrightarrow> settled mg eps (map_of plans) K" by blast
  with loaded_path_static [OF ok st assms(3)] show ?thesis by blast
qed

theorem every_path_loads_static_imports_witness:
  "\<exists>eps plans. length eps = 1 \<and> plan_async_chunks (\<lambda>_. None) sample_graph eps = Some plans \<and>
    (\<forall>t S. loaded_path eps (map_of plans) (LAsync t) S \<longrightarrow> static_walk.reach sample_graph t \<subseteq> S)"
proof -
  from sample_entry_plan obtain e where "entry_ok sample_graph e" by blast
  with every_path_loads_static_imports [OF sample_graph_wf memo_ok_empty, of "[e]"]
  show ?thesis by (intro exI [of _ "[e]"]) simp
qed

section \<open>The cache\<close>

text \<open>C4: A cache answers a request only with a value that was stored for this address and etag, and of
  the wanted type.  This holds for any number of gets at the same time, each of which restores from the pack
  file without the lock of the layers, while others store, complete and prepare compilations, publish, fail to publish,
  or stop in the middle of a publication and start again on the same directory.  Calls to the file system may
  fail, reads included; only a publication that replaces all entries, or those of revision 0, has to see an
  index that is there.  The contract P says which values belong to an address and an etag; its values must
  survive the conversion to a record, and what was compressed must be decompressed to the same bytes.\<close>

theorem cache_hits_are_sound:
  assumes "\<forall>a et v. P a et v \<longrightarrow> value_ok lib v" and "inflates (lib_inflate lib) (lib_deflate lib)"
    and "cache_system_run lib root P s"
    and "sy_gets s k = Some g" and "rg_phase g = Answered (Ready (Some v) changed)"
  shows "P (rg_address g) (rg_etag g) v \<and> value_type v = rg_wanted g"
  using assms by (rule answers_good)

theorem cache_hits_are_sound_witness:
  "rg_phase memory_get = Answered (Ready (Some sample_value) False) \<and>
   sample_contract (rg_address memory_get) (rg_etag memory_get) sample_value"
  using cache_hits_are_sound [OF sample_contract_ok _ memory_run, of 0 memory_get sample_value False]
  by (simp add: plain_inflates memory_system_def memory_get_def memory_found)

text \<open>C5: What was stored and published is found after a restart.  In any state that a cache can reach, when
  an item is stored through one of the four facades and the cache is then flushed without an error, a new
  cache on the same directory, whatever its other options are, answers a get for the same key and etag
  with the value that was stored; the get returns and does not panic.  The conditions are these.  The cache is
  writable and has a directory; its counter of generations has not reached the largest \<open>u64\<close>; the reads of the
  new cache succeed, those before may fail as above.  Every value that is stored is one that its record can
  hold (\<open>value_ok\<close>): strings are UTF-8 and paths parse back from their spelling, JSON and source maps parse, a
  module's digest is that of its content, a requirement mask has no unknown bit, and a snapshot names no path
  twice.  The last one is no matter of course: the snapshot of a resolution in which a path is two kinds of
  dependency names it twice, and such a resolution is stored and flushed without an error but never read back.\<close>

theorem stored_items_survive_restarts:
  assumes "\<forall>a et v. P a et v \<longrightarrow> value_ok lib v" and "inflates (lib_inflate lib) (lib_deflate lib)"
    and "cache_system_run lib root P s" and "P (fst facade, identifier) et v"
    and "facade \<in> facades" and "value_type v = snd facade"
    and "is_writable_filesystem_cache (sy_cache s)" and "co_cache_location (ca_options (sy_cache s)) = Some root"
    and "ca_dirty_generation (sy_cache s) < u64_max" and "now \<le> u64_max"
    and "flush_to_filesystem lib now (facade_store facade identifier et v (sy_cache s)) \<lparr>dk_files = sy_files s, dk_fates = fates\<rparr> =
      (Returns c, d)"
    and "co_kind opts = Filesystem" and "co_cache_location opts = Some root"
  shows "\<exists>c'. facade_get lib (dk_files d) facade identifier et later (cache_new (dk_files d) opts build_strategy resolve_strategy) =
    Some (Some v, c')"
  using assms by (rule stored_is_restored)

theorem stored_items_survive_restarts_witness:
  "\<exists>c. facade_get sample_libraries (dk_files (snd pack_run)) asset_renders (str_bytes ''i'') None 7
    (cache_new (dk_files (snd pack_run)) disk_options strategy_timestamp strategy_timestamp) = Some (Some sample_value, c)"
proof -
  obtain c where "flush_to_filesystem sample_libraries 5 disk_stored empty_disk = (Returns c, snd pack_run)" using disk_flushed by blast
  then have "flush_to_filesystem sample_libraries 5 (facade_store asset_renders (str_bytes ''i'') None sample_value (sy_cache disk_start))
      \<lparr>dk_files = sy_files disk_start, dk_fates = []\<rparr> = (Returns c, snd pack_run)"
    by (simp add: disk_stored_def empty_disk_def)
  moreover have "sample_contract (fst asset_renders, str_bytes ''i'') None sample_value"
    by (simp add: sample_contract_def sample_address_def asset_renders_def)
  moreover have "value_type sample_value = snd asset_renders" by (simp add: sample_value_def asset_renders_def)
  ultimately show ?thesis
    using stored_items_survive_restarts [OF sample_contract_ok _ disk_run, of asset_renders "str_bytes ''i''" None sample_value 5 "[]" c
        "snd pack_run" disk_options 7 strategy_timestamp strategy_timestamp]
    by (simp add: plain_inflates facades_def is_writable_filesystem_cache_def u64_max_def)
qed

text \<open>C6: Nothing waits unannounced.  In any state that a cache can reach, if it says that there is no
  generation to publish, the writable layer on the pack file has no item and no time of an access that
  waits for a publication, so that skipping the publication loses nothing.  (The counter of generations
  saturates; the property is about a counter that has not.)\<close>

theorem waiting_work_is_announced:
  assumes "\<forall>a et v. P a et v \<longrightarrow> value_ok lib v" and "inflates (lib_inflate lib) (lib_deflate lib)"
    and "cache_system_run lib root P s"
    and "PersistentSlot True l \<in> set (ly_slots (ca_layers (sy_cache s)))"
    and "pending_generation (sy_cache s) = None" and "ca_dirty_generation (sy_cache s) < u64_max"
  shows "pl_pending l = [] \<and> (\<forall>k. pl_root l \<noteq> None \<longrightarrow> pl_pack_file l = Some k \<longrightarrow>
    pf_access_updates (ly_pack_files (ca_layers (sy_cache s)) ! k) = [])"
  using assms by (rule waiting_is_announced)

theorem waiting_work_is_announced_witness:
  "\<exists>l. PersistentSlot True l \<in> set (ly_slots (ca_layers (sy_cache disk_start))) \<and> pl_pending l = []"
proof -
  obtain l where l: "PersistentSlot True l \<in> set (ly_slots (ca_layers (sy_cache disk_start)))"
    by (auto simp: disk_start_def system_start_def cache_new_def Let_def layers_from_options_def pack_layer_open_def)
  have "pending_generation (sy_cache disk_start) = None" by (simp add: pending_generation_def)
  with waiting_work_is_announced [OF sample_contract_ok _ disk_run l] l show ?thesis
    by (auto simp: plain_inflates u64_max_def)
qed

text \<open>C8: The static search of the chunk planner ends without a panic and lists exactly the modules
  reachable over active static connections, each once, the start first.\<close>

theorem static_search_is_reachability:
  assumes "graph_wf mg" and "start < length (gs_modules mg)"
  shows "\<exists>ms. collect_static_reachable mg start = Some ms \<and> distinct ms \<and> ms \<noteq> [] \<and> hd ms = start \<and>
    set ms = static_walk.reach mg start"
  by (rule collect_static_reachable_spec [OF assms])

theorem static_search_is_reachability_witness:
  "\<exists>ms. collect_static_reachable sample_graph 2 = Some ms \<and> distinct ms \<and> ms \<noteq> [] \<and> hd ms = 2 \<and>
    set ms = static_walk.reach sample_graph 2"
  by (rule static_search_is_reachability [OF sample_graph_wf]) (simp add: sample_graph_size)

text \<open>C9: Splitting shared modules out of the async chunks of a well-formed chunk graph cannot panic
  and keeps the graph well formed, with the same groups, entrypoints, blocks and edges; no group
  loses a module or a chunk.\<close>

theorem splitting_loses_nothing:
  assumes "chunk_graph_wf g"
  shows "\<exists>g'. apply_split_chunks opts g = Some g' \<and> chunk_graph_wf g' \<and>
    length (cg_groups g') = length (cg_groups g) \<and> cg_entrypoints g' = cg_entrypoints g \<and>
    cg_block_groups g' = cg_block_groups g \<and> group_edges g' = group_edges g \<and>
    (\<forall>i < length (cg_groups g). group_modules g i \<subseteq> group_modules g' i \<and>
       set (gr_chunks (cg_groups g ! i)) \<subseteq> set (gr_chunks (cg_groups g' ! i)))"
proof -
  from apply_split_chunks_spec [OF assms] obtain g' where
    g': "apply_split_chunks opts g = Some g'" "chunk_graph_wf g'" "split_frame g g'" by blast
  with split_frame_edges [OF g'(3)] show ?thesis by (auto simp: split_frame_def)
qed

theorem splitting_loses_nothing_witness:
  "\<exists>g. build_chunk_graph_with_cache (\<lambda>_. None) sample_graph [''main''] [0] None = Some g \<and>
    (\<exists>g'. apply_split_chunks \<lparr>so_min_chunks = 1, so_name = None\<rparr> g = Some g' \<and> chunk_graph_wf g' \<and>
    length (cg_groups g') = length (cg_groups g) \<and> cg_entrypoints g' = cg_entrypoints g \<and>
    cg_block_groups g' = cg_block_groups g \<and> group_edges g' = group_edges g \<and>
    (\<forall>i < length (cg_groups g). group_modules g i \<subseteq> group_modules g' i \<and>
       set (gr_chunks (cg_groups g ! i)) \<subseteq> set (gr_chunks (cg_groups g' ! i))))"
proof -
  from sample_chunk_graph obtain g where
    g: "build_chunk_graph_with_cache (\<lambda>_. None) sample_graph [''main''] [0] None = Some g" "chunk_graph_wf g" by blast
  with splitting_loses_nothing [OF g(2), of "\<lparr>so_min_chunks = 1, so_name = None\<rparr>"] show ?thesis by blast
qed

text \<open>C10: The cycle test on chunk groups ends without a panic and answers whether the children of a
  group lead to another.\<close>

theorem cycle_test_is_reachability:
  assumes "chunk_graph_wf g" and "start < length (cg_groups g)"
  shows "chunk_group_reaches g start target = Some ((start, target) \<in> (group_edges g)\<^sup>*)"
  using chunk_group_reaches_spec [OF _ assms(2), of target] assms(1)
  by (simp add: chunk_graph_wf_def reach_group_edges)

theorem cycle_test_is_reachability_witness:
  "\<exists>g. build_chunk_graph_with_cache (\<lambda>_. None) sample_graph [''main''] [0] None = Some g \<and>
    chunk_group_reaches g 0 1 = Some ((0, 1) \<in> (group_edges g)\<^sup>*)"
proof -
  from sample_chunk_graph obtain g where
    g: "build_chunk_graph_with_cache (\<lambda>_. None) sample_graph [''main''] [0] None = Some g" "chunk_graph_wf g"
      "length (cg_groups g) = 2" by blast
  with cycle_test_is_reachability [OF g(2), of 0 1] show ?thesis by simp
qed

section \<open>Runtime requirements of the chunk graph\<close>

text \<open>C11: Once the requirements of the modules are set, each chunk requires what its modules require,
  and each entrypoint what any group requires that its runtime can load, together with what
  starting the entry needs and what the runtime modules for all of that need in turn.\<close>

theorem entrypoints_require_all_they_load:
  assumes "chunk_graph_wf g" and "entries_have_chunks g"
    and "\<forall>(m, r) \<in> set reqs. m < length (cg_module_chunks g) \<and> req_valid r"
  shows "\<exists>g'. set_module_runtime_requirements reqs g = Some g' \<and> chunk_graph_wf g' \<and>
    (\<forall>c < length (cg_chunks g). req_set (cg_chunk_reqs g' ! c) =
       (\<Union>m \<in> set (cg_chunk_modules g ! c). req_set (assigned_reqs reqs m))) \<and>
    (\<forall>e \<in> set (cg_entrypoints g). \<exists>p. cg_tree_reqs g' e = Some p \<and>
       req_set p = needed ((\<Union>gr \<in> runtime_walk.reach g' e. group_needs g' gr) \<union>
         req_set entry_startup_requirements))"
  using set_module_runtime_requirements_spec [OF assms] unfolding entry_reqs_def by blast

theorem entrypoints_require_all_they_load_witness:
  "\<exists>g. build_chunk_graph_with_cache (\<lambda>_. None) sample_graph [''main''] [0] None = Some g \<and>
   (\<exists>g'. set_module_runtime_requirements [(0, requirement_mask EnsureChunk)] g = Some g' \<and> chunk_graph_wf g' \<and>
    (\<forall>c < length (cg_chunks g). req_set (cg_chunk_reqs g' ! c) =
       (\<Union>m \<in> set (cg_chunk_modules g ! c). req_set (assigned_reqs [(0, requirement_mask EnsureChunk)] m))) \<and>
    (\<forall>e \<in> set (cg_entrypoints g). \<exists>p. cg_tree_reqs g' e = Some p \<and>
       req_set p = needed ((\<Union>gr \<in> runtime_walk.reach g' e. group_needs g' gr) \<union>
         req_set entry_startup_requirements)))"
proof -
  from sample_chunk_graph obtain g where
    g: "build_chunk_graph_with_cache (\<lambda>_. None) sample_graph [''main''] [0] None = Some g" "chunk_graph_wf g"
      "\<forall>i < length (cg_groups g). gr_chunks (cg_groups g ! i) \<noteq> []" "0 < length (cg_module_chunks g)" by blast
  have ne: "entries_have_chunks g"
    using g(2,3) by (auto simp: entries_have_chunks_def chunk_graph_wf_def sizes_ok_def)
  have "req_valid (requirement_mask EnsureChunk)" by simp
  with entrypoints_require_all_they_load [OF g(2) ne, of "[(0, requirement_mask EnsureChunk)]"] g(1,4)
  show ?thesis by (intro exI [of _ g]) simp
qed

section \<open>The module graph\<close>

text \<open>C12: However the make phase interleaves adding modules, connecting them, and finishing or failing
  their builds, the graph it hands over is well formed: handles are in range and the outgoing,
  incoming and location indices agree with the connections.\<close>

theorem make_phase_graphs_are_well_formed:
  assumes "built_graph g"
  shows "graph_wf (finish g)"
  by (rule graph_wf_finish [OF built_graph_wf [OF assms]])

theorem make_phase_graphs_are_well_formed_witness:
  "\<exists>g. sample_storage = Some g \<and> length (gs_modules g) = 4 \<and> graph_wf (finish g)"
proof -
  from sample_size obtain g where g: "sample_storage = Some g" "length (gs_modules g) = 4" by auto
  with make_phase_graphs_are_well_formed [OF sample_storage_built [OF g(1)]] show ?thesis by blast
qed

text \<open>C13: Redirecting a connection to another module, as the side-effects plugin does, keeps the graph
  well formed, changes only that connection's target, and leaves the indices such that each
  module's outgoing connections, in order, and incoming ones are those of the new connections.\<close>

theorem redirecting_keeps_the_indices:
  fixes g :: module_graph
  assumes "graph_wf g" and "h < length (gs_connections g)" and "m < length (gs_modules g)"
  shows "\<exists>g'. update_connection_module h m g = Some g' \<and> graph_wf g' \<and>
    gs_connections g' = (gs_connections g)[h := (gs_connections g ! h)\<lparr>cn_module := m\<rparr>] \<and>
    (\<forall>k < length (gs_modules g).
       outgoing_connections g' k = Some (filter (\<lambda>c. cn_origin c = Some k) (gs_connections g')) \<and>
       (\<exists>cs. incoming_connections g' k = Some cs \<and> distinct cs \<and>
          set cs = {c \<in> set (gs_connections g'). cn_module c = k}))"
proof -
  from graph_wf_update_connection_module [OF assms] obtain g' where
    g': "update_connection_module h m g = Some g'" "graph_wf g'" "gs_modules g' = gs_modules g"
      "gs_connections g' = (gs_connections g)[h := (gs_connections g ! h)\<lparr>cn_module := m\<rparr>]" by blast
  then have "k < length (gs_modules g')" if "k < length (gs_modules g)" for k using that by simp
  with g' outgoing_connections_spec [OF g'(2)] incoming_connections_spec [OF g'(2)]
  show ?thesis by (intro exI [of _ g']) blast
qed

theorem redirecting_keeps_the_indices_witness:
  "\<exists>g'. update_connection_module 1 3 sample_graph = Some g' \<and> graph_wf g' \<and>
    gs_connections g' = (gs_connections sample_graph)[1 := (gs_connections sample_graph ! 1)\<lparr>cn_module := 3\<rparr>] \<and>
    (\<forall>k < length (gs_modules sample_graph).
       outgoing_connections g' k = Some (filter (\<lambda>c. cn_origin c = Some k) (gs_connections g')) \<and>
       (\<exists>cs. incoming_connections g' k = Some cs \<and> distinct cs \<and>
          set cs = {c \<in> set (gs_connections g'). cn_module c = k}))"
  by (rule redirecting_keeps_the_indices [OF sample_graph_wf])
    (simp_all add: sample_graph_size sample_connections)

text \<open>C14: Looking up the module of a dependency answers what the calls say that made the graph: however
  modules were added, connected, built, failed and redirected, the answer is the target that the last
  \<open>connect\<close> for that place of that module was given, or was redirected to later, and none if there was no
  such call or the origin is no module; the lookup never panics.\<close>

theorem dependency_lookup_is_latest_connection:
  assumes "graph_history calls g"
  shows "module_for_dependency g m block index = Some (last_call calls m block index)"
  by (rule lookup_follows_history [OF assms])

theorem dependency_lookup_is_latest_connection_witness:
  "\<exists>g. update_connection_module 1 3 sample_graph = Some g \<and>
    module_for_dependency sample_graph 0 None 0 = Some (Some 1) \<and> module_for_dependency g 0 None 0 = Some (Some 3)"
proof -
  have calls: "last_call sample_calls 0 None 0 = Some 1"
    "last_call (sample_calls[1 := (sample_calls ! 1)\<lparr>cc_target := 3\<rparr>]) 0 None 0 = Some 3" by code_simp+
  have "\<exists>g. update_connection_module 1 3 sample_graph = Some g"
    using graph_wf_update_connection_module [OF sample_graph_wf, of 1 3] by (auto simp: sample_graph_size sample_connections)
  then obtain g where g: "update_connection_module 1 3 sample_graph = Some g" by blast
  have "module_for_dependency sample_graph 0 None 0 = Some (Some 1)"
    using dependency_lookup_is_latest_connection [OF sample_history, of 0 None 0] calls(1) by simp
  moreover have "module_for_dependency g 0 None 0 = Some (Some 3)"
    using dependency_lookup_is_latest_connection [OF graph_history.redirects [OF sample_history g], of 0 None 0] calls(2) by simp
  ultimately show ?thesis using g by blast
qed

section \<open>Runtime modules\<close>

text \<open>C15: Resolving runtime modules from a valid set of requirements ends, and yields exactly the
  requirements reachable through prerequisites and the runtime modules that provide them, each
  once, ordered by stage and identifier.\<close>

theorem runtime_modules_are_the_closure:
  assumes "req_valid direct"
  shows "\<exists>reqs ms. resolve_runtime_modules direct = Some (reqs, ms) \<and> req_valid reqs \<and>
    req_set reqs = needed (req_set direct) \<and> set ms = modules_of (needed (req_set direct)) \<and>
    distinct ms \<and> sorted (map stage_key ms)"
  by (rule resolve_runtime_modules_total [OF assms])

theorem runtime_modules_are_the_closure_witness:
  "\<exists>reqs ms. resolve_runtime_modules entry_startup_requirements = Some (reqs, ms) \<and> req_valid reqs \<and>
    req_set reqs = needed (req_set entry_startup_requirements) \<and>
    set ms = modules_of (needed (req_set entry_startup_requirements)) \<and>
    distinct ms \<and> sorted (map stage_key ms)"
  by (rule runtime_modules_are_the_closure) (simp add: req_valid_entry_startup)

text \<open>C16: A persisted requirement mask is accepted exactly when it has no bit but those of the
  requirements, reading back what was written gives the same set, and two accepted masks with the
  same requirements are equal.\<close>

theorem requirement_masks_round_trip:
  "(req_from_mask w \<noteq> None \<longleftrightarrow> (\<forall>i. bit w i \<longrightarrow> (\<exists>r. i = requirement_bit r))) \<and>
   (req_valid a \<longrightarrow> req_from_mask (req_to_mask a) = Some a) \<and>
   (req_valid a \<longrightarrow> req_valid b \<longrightarrow> req_set a = req_set b \<longrightarrow> req_to_mask a = req_to_mask b)"
proof (intro conjI impI)
  show "req_from_mask w \<noteq> None \<longleftrightarrow> (\<forall>i. bit w i \<longrightarrow> (\<exists>r. i = requirement_bit r))"
    using req_from_mask_iff [of w] req_valid_bits [of w] by auto
  show "req_valid a \<Longrightarrow> req_from_mask (req_to_mask a) = Some a"
    by (simp add: req_from_mask_iff req_to_mask_def)
  show "req_valid a \<Longrightarrow> req_valid b \<Longrightarrow> req_set a = req_set b \<Longrightarrow> req_to_mask a = req_to_mask b"
    by (simp add: req_set_inject)
qed

theorem requirement_masks_round_trip_witness:
  "req_from_mask (req_to_mask (requirement_mask GetChunkFilename)) = Some (requirement_mask GetChunkFilename)"
proof -
  have "req_valid (requirement_mask GetChunkFilename)" by simp
  then show ?thesis
    using requirement_masks_round_trip [of 0 "requirement_mask GetChunkFilename" 0] by blast
qed

section \<open>Render ids\<close>

text \<open>C17: Assigning named ids gives every candidate one id, the ids print pairwise differently and
  differently from every reserved name, and neither the search for a free name nor the numbering
  runs out, as long as there are fewer than \<open>2^32\<close> names.\<close>

theorem render_ids_are_unique:
  assumes "finite R" and "card R + length candidates + 1 < 2 ^ 32"
  shows "\<exists>assigned. assign_named_ids_with_reserved candidates R = Some assigned \<and>
    mset (map fst assigned) = mset (map fst candidates) \<and> sorted (map fst assigned) \<and>
    distinct (map (rid_display \<circ> snd) assigned) \<and> R \<inter> set (map (rid_display \<circ> snd) assigned) = {}"
  using assign_named_ids_unique [OF assms] unfolding names_def .

theorem render_ids_are_unique_witness:
  "\<exists>assigned. assign_named_ids_with_reserved
      [(0 :: nat, ''a'', ''./a''), (1, ''a'', ''./b/a''), (2, '''', ''x'')] {''a''} = Some assigned \<and>
    mset (map fst assigned) = mset (map fst [(0 :: nat, ''a'', ''./a''), (1, ''a'', ''./b/a''), (2, '''', ''x'')]) \<and>
    sorted (map fst assigned) \<and> distinct (map (rid_display \<circ> snd) assigned) \<and>
    {''a''} \<inter> set (map (rid_display \<circ> snd) assigned) = {}"
  by (rule render_ids_are_unique) simp_all

text \<open>C18: The ids do not depend on the order in which the candidates are listed, which is that of a
  module graph built by concurrent tasks.\<close>

theorem render_ids_ignore_candidate_order:
  assumes "mset cs = mset ds"
  shows "assign_named_ids_with_reserved cs R = assign_named_ids_with_reserved ds R"
  by (rule assign_named_ids_order_independent [OF assms])

theorem render_ids_ignore_candidate_order_witness:
  "assign_named_ids_with_reserved [(0 :: nat, ''a'', ''./a''), (1, ''a'', ''./b/a'')] {} =
   assign_named_ids_with_reserved [(1 :: nat, ''a'', ''./b/a''), (0, ''a'', ''./a'')] {}"
  by (rule render_ids_ignore_candidate_order) simp

section \<open>Building blocks\<close>

text \<open>C19: Normalizing an absolute path gives the root followed by the names that the path walks through,
  where a parent of the root is the root.  One parent component stays between the root and the names if the
  path follows the parent of the root an odd number of times, and none otherwise.  The result leads to the
  same place as the path, and normalizing it again changes nothing.\<close>

theorem normalizing_keeps_the_place:
  assumes "wf_path p" and "is_absolute p"
  shows "normalize p = rooted (odd (climbs 0 p)) (walk p d) \<and> walk (normalize p) d = walk p d \<and>
    normalize (normalize p) = normalize p"
  using normalize_absolute [OF assms] walk_normalize_absolute [OF assms] normalize_normal_shape [OF normalize_shape] by blast

theorem normalizing_keeps_the_place_witness:
  "normalize [RootDir, Normal ''a'', ParentDir, ParentDir, Normal ''b''] = [RootDir, ParentDir, Normal ''b''] \<and>
   walk (normalize [RootDir, Normal ''a'', ParentDir, ParentDir, Normal ''b'']) [] = [''b''] \<and>
   normalize [RootDir, ParentDir, Normal ''b''] = [RootDir, ParentDir, Normal ''b'']"
proof -
  let ?p = "[RootDir, Normal ''a'', ParentDir, ParentDir, Normal ''b'']"
  have "rooted (odd (climbs 0 ?p)) (walk ?p []) = [RootDir, ParentDir, Normal ''b'']" "walk ?p [] = [''b'']"
    by (simp_all add: rooted_def)
  with normalizing_keeps_the_place [of ?p "[]"] show ?thesis by (auto simp: wf_path_def is_absolute_def)
qed

text \<open>The exports that dependencies provide are the names of the export specifiers, default
  exports and named re-exports, in any order and however often repeated, unless a star re-export
  makes them unknown.\<close>

theorem provided_exports_of_dependencies:
  "exports_from_dependencies deps =
     \<lparr>ei_provided = (if list_ex is_star_export deps then None
                     else Some (\<Union>d \<in> set deps. set_option (exported_name d))),
      ei_used = None, ei_all_used = False\<rparr>"
  by (rule exports_from_dependencies_spec)

text \<open>C20: The module masks of the chunk planner are sets of module handles: building one from modules in
  range never panics and holds exactly those modules, intersecting two of the same size holds
  what both hold, and two of the same size that hold the same modules are equal words, so that
  the planner's change test compares sets.\<close>

theorem masks_are_module_sets:
  assumes "\<forall>x \<in> set xs. x < n" and "\<forall>x \<in> set ys. x < n"
  shows "\<exists>ws vs us. mask_from_modules n xs = Some ws \<and> mask_from_modules n ys = Some vs \<and>
    mask_intersect ws vs = Some us \<and> mask_set ws = set xs \<and> mask_set us = set xs \<inter> set ys \<and>
    (ws = vs \<longleftrightarrow> set xs = set ys)"
proof -
  from mask_from_modules_spec [OF assms(1)] obtain ws where
    ws: "mask_from_modules n xs = Some ws" "mask_fits n ws" "mask_set ws = set xs" by blast
  from mask_from_modules_spec [OF assms(2)] obtain vs where
    vs: "mask_from_modules n ys = Some vs" "mask_fits n vs" "mask_set vs = set ys" by blast
  from mask.intersect_elems [OF ws(2) vs(2)] obtain us where
    us: "mask_intersect ws vs = Some us" "mask_set us = mask_set ws \<inter> mask_set vs" by blast
  have "length ws = length vs" using ws(2) vs(2) by (simp add: mask_fits_def)
  then have "ws = vs" if "mask_set ws = mask_set vs"
    using that by (intro mask_eqI) (auto simp: mask_set_eq)
  with ws vs us show ?thesis by auto
qed

theorem masks_are_module_sets_witness:
  "\<exists>ws vs us. mask_from_modules 130 [0, 63, 64, 100] = Some ws \<and> mask_from_modules 130 [1, 63, 64, 129] = Some vs \<and>
    mask_intersect ws vs = Some us \<and> mask_set ws = set [0, 63, 64, 100] \<and>
    mask_set us = set [0, 63, 64, 100] \<inter> set [1, 63, 64, 129] \<and>
    (ws = vs \<longleftrightarrow> set [0, 63, 64, 100] = set [1, 63, 64, 129 :: nat])"
  by (rule masks_are_module_sets) simp_all

text \<open>The stable hash loses nothing before its end: from two different states the same bytes lead to
  different states, changing one byte of the input changes the hash, and the snapshots' own copy
  of the hasher computes the same function.\<close>

theorem stable_hash_steps_are_injective:
  "(hash_write bs s = hash_write bs t \<longleftrightarrow> s = t) \<and>
   (stable_hash (as @ b # bs) = stable_hash (as @ c # bs) \<longleftrightarrow> b = c) \<and>
   hash_bytes bs = stable_hash bs"
  by (simp add: hash_write_inject stable_hash_def hash_finish_def hash_write_single_byte
      hash_bytes_stable_hash [unfolded stable_hash_def hash_finish_def])

section \<open>Exports and side effects\<close>

text \<open>C21: The pass that flags provided exports returns and replaces the record of every module by what that
  module provides, whether or not the compiler has a module computation cache.  With one, it needs the cache
  to be prepared for the graph (storing into a cache that has no entry for a module panics) and true of it;
  afterwards the cache remembers for every module what it provides.\<close>

theorem provided_exports_are_flagged:
  assumes "graph_wf mg" and "distinct (map m_identity (gs_modules mg))"
    and "\<forall>cc. cache = Some cc \<longrightarrow> exports_memo_ok mg cc" and "length (mg_exports mg) = length (gs_modules mg)"
  shows "\<exists>cache'. flag_dependency_exports (cache, mg) =
      Some (cache', mg\<lparr>mg_exports := map provided_exports (gs_modules mg)\<rparr>) \<and>
    (cache' = None \<longleftrightarrow> cache = None) \<and> (\<forall>cc'. cache' = Some cc' \<longrightarrow> exports_remembered mg cc')"
  by (rule flag_dependency_exports_spec [OF assms])

theorem provided_exports_are_flagged_witness:
  "\<exists>cc cc'. prepare_before_chunk_graph barrel_graph empty_computation_cache = Some cc \<and>
    flag_dependency_exports (Some cc, barrel_graph) =
      Some (Some cc', barrel_graph\<lparr>mg_exports := map provided_exports (gs_modules barrel_graph)\<rparr>) \<and>
    exports_remembered barrel_graph cc'"
proof -
  from prepare_before_chunk_graph_spec [OF barrel_graph_wf barrel_identities, of empty_computation_cache] obtain cc where
    p: "prepare_before_chunk_graph barrel_graph empty_computation_cache = Some cc" by blast
  have ready: "\<forall>c. Some cc = Some c \<longrightarrow> exports_memo_ok barrel_graph c"
    using fresh_exports_ok [OF barrel_graph_wf barrel_identities p] by simp
  show ?thesis
    using provided_exports_are_flagged [OF barrel_graph_wf barrel_identities ready barrel_exports_size] p by auto
qed

text \<open>C22: The used exports are the least solution of what is asked for: the loop over the connections
  ends, and afterwards a name is flagged as used exactly if an entry provides it, an import names
  it, or a re-export of a used name or a star passes it on (and all names of a module are used
  exactly if its provided names are unknown and it is an entry, it is imported dynamically, or a
  star passes that on).  What the modules provide does not change.\<close>

theorem used_exports_are_the_least_solution:
  assumes "graph_wf mg" and "exports_ok mg" and "stars_plain mg" and "\<forall>e \<in> set es. e < length (gs_modules mg)"
  shows "\<exists>mg'. flag_dependency_usage es mg = Some mg' \<and> mg' = mg\<lparr>mg_exports := mg_exports mg'\<rparr> \<and>
    length (mg_exports mg') = length (mg_exports mg) \<and>
    (\<forall>m < length (gs_modules mg).
       ei_provided (mg_exports mg' ! m) = ei_provided (mg_exports mg ! m) \<and>
       (ei_all_used (mg_exports mg' ! m) \<longleftrightarrow> uses mg es m None) \<and>
       ei_used (mg_exports mg' ! m) = Some (if uses mg es m None then {} else {x. uses mg es m (Some x)}))"
  by (rule flag_dependency_usage_spec [OF assms])

theorem used_exports_are_the_least_solution_witness:
  "\<exists>mg'. flag_dependency_usage [0] barrel_flagged = Some mg' \<and> mg' = barrel_flagged\<lparr>mg_exports := mg_exports mg'\<rparr> \<and>
    length (mg_exports mg') = length (mg_exports barrel_flagged) \<and>
    (\<forall>m < length (gs_modules barrel_flagged).
       ei_provided (mg_exports mg' ! m) = ei_provided (mg_exports barrel_flagged ! m) \<and>
       (ei_all_used (mg_exports mg' ! m) \<longleftrightarrow> uses barrel_flagged [0] m None) \<and>
       ei_used (mg_exports mg' ! m) =
         Some (if uses barrel_flagged [0] m None then {} else {x. uses barrel_flagged [0] m (Some x)}))"
  by (rule used_exports_are_the_least_solution [OF barrel_flagged_wf barrel_exports_ok barrel_stars])
    (simp add: barrel_flagged_size)

text \<open>C23: The test whether a module has side effects returns, without a panic and on cyclic imports too,
  and says no exactly if every module reachable over side-effect imports is flagged free of them.\<close>

theorem side_effect_freedom_is_decided:
  assumes "graph_wf mg" and "h < length (gs_modules mg)"
  shows "module_has_side_effects mg h =
    Some (\<exists>x. (se_edge mg)\<^sup>*\<^sup>* h x \<and> \<not> is_side_effect_free (gs_modules mg ! x))"
  by (simp add: module_has_side_effects_def module_is_side_effect_free_spec [OF assms] pure_module_def flagged_free_def)

theorem side_effect_freedom_is_decided_witness:
  "module_has_side_effects barrel_flagged 1 =
    Some (\<exists>x. (se_edge barrel_flagged)\<^sup>*\<^sup>* 1 x \<and> \<not> is_side_effect_free (gs_modules barrel_flagged ! x))"
  by (rule side_effect_freedom_is_decided [OF barrel_flagged_wf]) (simp add: barrel_flagged_size)

text \<open>C24: Redirecting imports past re-exports keeps what they are bound to, when no re-exported name is
  exported twice or is a namespace, and no module with a star re-export has exports of its own:
  an import or re-export of a name then asks its new target for a name bound to the same local
  binding of the same module.\<close>

theorem redirected_imports_keep_their_binding:
  assumes "graph_wf mg" and "length (mg_exports mg) = length (gs_modules mg)" and "plain_reexports mg"
  shows "\<exists>mg'. optimize_dependencies mg = Some mg' \<and>
    (\<forall>i < length (gs_connections mg). \<forall>x. requested_export (cn_dependency (gs_connections mg ! i)) = Some x \<longrightarrow>
       (\<exists>y. requested_export (cn_dependency (gs_connections mg' ! i)) = Some y \<and>
          (\<forall>b. bound_to mg (cn_module (gs_connections mg ! i)) x b \<longleftrightarrow>
               bound_to mg (cn_module (gs_connections mg' ! i)) y b)))"
  by (rule optimize_binding [OF assms])

theorem redirected_imports_keep_their_binding_witness:
  "\<exists>mg'. optimize_dependencies barrel_flagged = Some mg' \<and>
    (\<forall>i < length (gs_connections barrel_flagged). \<forall>x.
       requested_export (cn_dependency (gs_connections barrel_flagged ! i)) = Some x \<longrightarrow>
       (\<exists>y. requested_export (cn_dependency (gs_connections mg' ! i)) = Some y \<and>
          (\<forall>b. bound_to barrel_flagged (cn_module (gs_connections barrel_flagged ! i)) x b \<longleftrightarrow>
               bound_to barrel_flagged (cn_module (gs_connections mg' ! i)) y b)))"
  by (rule redirected_imports_keep_their_binding [OF barrel_flagged_wf barrel_flagged_exports barrel_plain])

text \<open>C25: The pass over side effects never panics and keeps the graph well formed, its modules and their
  exports.  It changes a connection only to a module in range that a chain of re-exports through
  modules without side effects leads to, and a side-effect import that it leaves inactive leads,
  in the new graph, only to modules flagged free of side effects, with no specifier of the same
  module importing from there.\<close>

theorem optimizing_drops_only_pure_imports:
  assumes "graph_wf mg" and "length (mg_exports mg) = length (gs_modules mg)"
  shows "\<exists>mg'. optimize_dependencies mg = Some mg' \<and> graph_wf mg' \<and>
    gs_modules mg' = gs_modules mg \<and> mg_exports mg' = mg_exports mg \<and>
    length (gs_connections mg') = length (gs_connections mg) \<and>
    (\<forall>i < length (gs_connections mg).
       (cn_module (gs_connections mg' ! i) = cn_module (gs_connections mg ! i) \<or>
        (\<exists>x y. (follows mg)\<^sup>+\<^sup>+ (cn_module (gs_connections mg ! i), x) (cn_module (gs_connections mg' ! i), y)))) \<and>
    (\<forall>c \<in> set (gs_connections mg'). is_side_effect_import (cn_dependency c) \<and> cn_state c = Inactive \<longrightarrow>
       pure_module mg' (cn_module c) \<and>
       (\<forall>k \<in> set (gs_connections mg'). cn_origin c \<noteq> None \<and> cn_origin k = cn_origin c \<and>
          cn_module k = cn_module c \<longrightarrow> \<not> is_import_specifier (cn_dependency k)))"
proof -
  from optimize_dependencies_spec [OF assms] obtain mg' where
    o: "optimize_dependencies mg = Some mg'" "graph_wf mg'" "gs_modules mg' = gs_modules mg"
      "mg_exports mg' = mg_exports mg" "length (gs_connections mg') = length (gs_connections mg)"
    and r: "\<And>i. i < length (gs_connections mg) \<Longrightarrow> \<exists>r. (\<forall>q. r = Some q \<longrightarrow> rewrite_ok mg (gs_connections mg ! i) q) \<and>
       gs_connections mg' ! i = (redirect r (gs_connections mg ! i))
         \<lparr>cn_state := if connection_needed mg' (gs_connections mg' ! i) then Active else Inactive\<rparr>" by blast
  have "cn_module (gs_connections mg' ! i) = cn_module (gs_connections mg ! i) \<or>
        (\<exists>x y. (follows mg)\<^sup>+\<^sup>+ (cn_module (gs_connections mg ! i), x) (cn_module (gs_connections mg' ! i), y))"
    and st: "cn_state (gs_connections mg' ! i) = Inactive \<Longrightarrow> \<not> connection_needed mg' (gs_connections mg' ! i)"
    if i: "i < length (gs_connections mg)" for i
  proof -
    from r [OF i] obtain q where q: "\<forall>p. q = Some p \<longrightarrow> rewrite_ok mg (gs_connections mg ! i) p"
      and e: "gs_connections mg' ! i = (redirect q (gs_connections mg ! i))
         \<lparr>cn_state := if connection_needed mg' (gs_connections mg' ! i) then Active else Inactive\<rparr>" by blast
    have "cn_module (gs_connections mg' ! i) = cn_module (redirect q (gs_connections mg ! i))"
      by (subst e) simp
    then show "cn_module (gs_connections mg' ! i) = cn_module (gs_connections mg ! i) \<or>
        (\<exists>x y. (follows mg)\<^sup>+\<^sup>+ (cn_module (gs_connections mg ! i), x) (cn_module (gs_connections mg' ! i), y))"
      using q by (cases q) (auto simp: redirect_def rewrite_ok_def)
    have "cn_state (gs_connections mg' ! i) = (if connection_needed mg' (gs_connections mg' ! i) then Active else Inactive)"
      by (subst (1) e) simp
    then show "cn_state (gs_connections mg' ! i) = Inactive \<Longrightarrow> \<not> connection_needed mg' (gs_connections mg' ! i)"
      by (simp split: if_splits)
  qed
  moreover have "pure_module mg' (cn_module c) \<and>
       (\<forall>k \<in> set (gs_connections mg'). cn_origin c \<noteq> None \<and> cn_origin k = cn_origin c \<and>
          cn_module k = cn_module c \<longrightarrow> \<not> is_import_specifier (cn_dependency k))"
    if "c \<in> set (gs_connections mg')" "is_side_effect_import (cn_dependency c)" "cn_state c = Inactive" for c
  proof -
    from that(1) o(5) obtain i where "i < length (gs_connections mg)" "c = gs_connections mg' ! i"
      by (auto simp: in_set_conv_nth)
    with st that(3) have "\<not> connection_needed mg' c" by simp
    with that(2) show ?thesis by (cases "cn_dependency c") (auto simp: connection_needed_def)
  qed
  ultimately show ?thesis using o by blast
qed

theorem optimizing_drops_only_pure_imports_witness:
  "\<exists>mg'. optimize_dependencies barrel_flagged = Some mg' \<and> graph_wf mg' \<and>
    gs_modules mg' = gs_modules barrel_flagged \<and> mg_exports mg' = mg_exports barrel_flagged \<and>
    length (gs_connections mg') = length (gs_connections barrel_flagged) \<and>
    (\<forall>i < length (gs_connections barrel_flagged).
       (cn_module (gs_connections mg' ! i) = cn_module (gs_connections barrel_flagged ! i) \<or>
        (\<exists>x y. (follows barrel_flagged)\<^sup>+\<^sup>+ (cn_module (gs_connections barrel_flagged ! i), x)
           (cn_module (gs_connections mg' ! i), y)))) \<and>
    (\<forall>c \<in> set (gs_connections mg'). is_side_effect_import (cn_dependency c) \<and> cn_state c = Inactive \<longrightarrow>
       pure_module mg' (cn_module c) \<and>
       (\<forall>k \<in> set (gs_connections mg'). cn_origin c \<noteq> None \<and> cn_origin k = cn_origin c \<and>
          cn_module k = cn_module c \<longrightarrow> \<not> is_import_specifier (cn_dependency k)))"
  by (rule optimizing_drops_only_pure_imports [OF barrel_flagged_wf barrel_flagged_exports])

section \<open>From one compilation to the next\<close>

text \<open>C26: Before the chunk graph is built, the module computation cache forgets the modules that are
  gone, and everything about a module that is new, changed, or imports such a module over any
  number of imports; the other entries stay as they are, and they were made for the signature
  that the module has now.\<close>

theorem changed_modules_lose_their_memos:
  assumes "graph_wf mg" and "distinct (map m_identity (gs_modules mg))"
  shows "\<exists>cc'. prepare_before_chunk_graph mg cc = Some cc' \<and>
    dom (cc_modules cc') = m_identity ` set (gs_modules mg) \<and>
    (\<forall>h < length (gs_modules mg). cc_handles cc' (identity_at mg h) = Some h \<and>
       (if h \<in> touched mg (changed_modules mg cc)
        then cc_modules cc' (identity_at mg h) = Some (new_entry (signature_of mg h))
        else cc_modules cc' (identity_at mg h) = cc_modules cc (identity_at mg h) \<and>
          (\<exists>e. cc_modules cc (identity_at mg h) = Some e \<and> ce_signature e = signature_of mg h)))"
  by (rule prepare_before_chunk_graph_spec [OF assms])

theorem changed_modules_lose_their_memos_witness:
  "\<exists>cc'. prepare_before_chunk_graph sample_graph empty_computation_cache = Some cc' \<and>
    dom (cc_modules cc') = m_identity ` set (gs_modules sample_graph)"
  using changed_modules_lose_their_memos [OF sample_graph_wf sample_identities, of empty_computation_cache] by blast

text \<open>C27: What is left of the remembered reachability is right for the new graph: if the static edges
  of the modules whose entries are kept lead to the same modules as before, then every answer of
  the cache is what the search over the new graph would find, under the new handles.  \<open>go\<close> is the
  optimized graph of the last compilation, \<open>gp\<close> the new graph when the cache is prepared and \<open>gn\<close>
  the new graph after its optimizations.\<close>

theorem kept_reachability_is_right:
  assumes "graph_wf go" and "graph_wf gp" and "graph_wf gn" and "static_edges_within gp gn"
    and "distinct (map m_identity (gs_modules gp))"
    and "dom (cc_modules cc) \<subseteq> m_identity ` set (gs_modules go)" and "static_memos_valid go cc"
    and "\<forall>h < length (gs_modules gn). h \<notin> touched gp (changed_modules gp cc) \<longrightarrow> same_static_successors go gn h"
    and "prepare_before_chunk_graph gp cc = Some cc'"
  shows "memo_ok (\<lambda>i. fst (get_static_reachable i cc')) gn"
  by (rule kept_static_memos_ok [OF assms])

theorem kept_reachability_is_right_witness:
  "\<exists>cc cc'. (\<exists>ms. fst (get_static_reachable (identity_at sample_graph 0) cc) = Some ms) \<and>
     prepare_before_chunk_graph sample_graph cc = Some cc' \<and>
     memo_ok (\<lambda>i. fst (get_static_reachable i cc')) sample_graph"
proof -
  from sample_warm_cache obtain cc where
    c: "dom (cc_modules cc) = m_identity ` set (gs_modules sample_graph)" "static_memos_valid sample_graph cc"
      "\<exists>ms. fst (get_static_reachable (identity_at sample_graph 0) cc) = Some ms" by blast
  from prepare_before_chunk_graph_spec [OF sample_graph_wf sample_identities, of cc] obtain cc' where
    p: "prepare_before_chunk_graph sample_graph cc = Some cc'" by blast
  have "memo_ok (\<lambda>i. fst (get_static_reachable i cc')) sample_graph"
    by (rule kept_reachability_is_right [OF sample_graph_wf sample_graph_wf sample_graph_wf
        static_edges_within_refl [OF sample_graph_wf] sample_identities _ c(2) _ p])
      (use c(1) same_static_successors_refl [OF sample_identities] in auto)
  with c(3) p show ?thesis by blast
qed

text \<open>C28: After the ids are assigned, an entry's later memos are kept exactly if they were made for the
  references and exports that the module has now, and replaced by empty ones otherwise.\<close>

theorem later_memos_follow_the_references:
  assumes "graph_wf mg" and "distinct (map m_identity (gs_modules mg))"
    and "m_identity ` set (gs_modules mg) \<subseteq> dom (cc_modules cc)"
    and "\<forall>h < length (gs_modules mg). post_id_assignment_signature mg g h \<noteq> None"
  shows "\<exists>cc'. prepare_after_id_assignment mg g cc = Some cc' \<and> cc_handles cc' = cc_handles cc \<and>
    (\<forall>h < length (gs_modules mg). cc_modules cc' (identity_at mg h) =
       map_option (\<lambda>e. e\<lparr>ce_post := Some (kept_post (post_signature_of mg g h) (ce_post e))\<rparr>)
         (cc_modules cc (identity_at mg h)))"
  by (rule prepare_after_id_assignment_spec [OF assms])

theorem later_memos_follow_the_references_witness:
  "\<exists>g cc cc'. prepare_before_chunk_graph sample_graph empty_computation_cache = Some cc \<and>
     prepare_after_id_assignment sample_graph g cc = Some cc' \<and> cc_handles cc' = cc_handles cc"
proof -
  from prepare_before_chunk_graph_spec [OF sample_graph_wf sample_identities, of empty_computation_cache] obtain cc where
    p: "prepare_before_chunk_graph sample_graph empty_computation_cache = Some cc"
      "dom (cc_modules cc) = m_identity ` set (gs_modules sample_graph)" by blast
  from sample_sealable obtain g0 where s: "sealable sample_graph g0" by blast
  from seal_ids_and_hashes_spec [OF s, of sample_env None] obtain g where
    r: "render_ids_set g0 g" by (auto simp: cache_sound_def)
  note fr = render_ids_set_frame [OF r]
  have g: "chunk_graph_wf g" "handles_in_range sample_graph g" using s fr by (simp_all add: sealable_def)
  from later_memos_follow_the_references [OF sample_graph_wf sample_identities, of cc g] p
    post_signature_total [OF sample_graph_wf g(1) fr(2) g(2) sample_exports] show ?thesis by auto
qed

section \<open>Sealing\<close>

text \<open>C29: The module hashes survive recompilation.  A cache comes out of one compilation with hashes that
  are right for it; the next compilation has another module graph, in which a module whose source hash and
  build error stayed the same is parsed the same way, and another chunk graph; neither compilation
  concatenates modules.  Then preparing the cache and sealing with it makes the chunk graph that sealing
  without a cache makes, hashes included, and the cache that comes out is right for the new compilation:
  whatever imports, exports, ids and references changed, no stale hash is kept.\<close>

theorem hashes_survive_recompilation:
  assumes "graph_wf old" and "graph_wf made" and "gs_modules new = gs_modules made" and "sealable new g"
    and "hashes_right old old_chunks cc" and "rebuilt_alike old new"
    and "cg_concatenated old_chunks = Map.empty" and "cg_concatenated g = Map.empty"
    and "prepare_before_chunk_graph made cc = Some cc1"
  shows "\<exists>g' cc2. seal_ids_and_hashes env new g (Some cc1) = Some (g', Some cc2) \<and>
    seal_ids_and_hashes env new g None = Some (g', None) \<and>
    hashes_right new g' cc2 \<and> cg_concatenated g' = Map.empty"
proof -
  from seal_hashes_right [OF assms(1-5,9,6-8), of env] obtain g' cc2 where
    s: "seal_ids_and_hashes env new g (Some cc1) = Some (g', Some cc2)"
    and n: "map_option fst (seal_ids_and_hashes env new g None) = Some g'"
    and r: "hashes_right new g' cc2" "cg_concatenated g' = Map.empty" by blast
  from n obtain c where c: "seal_ids_and_hashes env new g None = Some (g', c)" by auto
  with seal_without_cache [OF c] s r show ?thesis by blast
qed

theorem hashes_survive_recompilation_witness:
  "\<exists>g cc1 g1 cc2 cc3 g2 cc4. prepare_before_chunk_graph sample_graph empty_computation_cache = Some cc1 \<and>
     seal_ids_and_hashes sample_env sample_graph g (Some cc1) = Some (g1, Some cc2) \<and>
     prepare_before_chunk_graph sample_graph cc2 = Some cc3 \<and>
     seal_ids_and_hashes sample_env sample_graph g (Some cc3) = Some (g2, Some cc4) \<and>
     hashes_right sample_graph g2 cc4"
proof -
  from sample_sealable obtain g where b: "build_chunk_graph_with_cache (\<lambda>_. None) sample_graph [''main''] [0] None = Some g"
    and s: "sealable sample_graph g" by blast
  have r0: "\<forall>e \<in> set [0]. e < length (gs_modules sample_graph)" by (simp add: sample_graph_size)
  from build_chunk_graph_from [OF sample_graph_wf memo_ok_empty r0 b] have e: "cg_concatenated g = Map.empty"
    by (auto simp: built_from_def)
  have alike: "rebuilt_alike sample_graph sample_graph"
    using sample_identities by (auto simp: rebuilt_alike_def distinct_conv_nth)
  have fresh: "hashes_right sample_graph g empty_computation_cache"
    by (simp add: hashes_right_def empty_computation_cache_def)
  from prepare_before_chunk_graph_spec [OF sample_graph_wf sample_identities] obtain cc1 where
    p: "prepare_before_chunk_graph sample_graph empty_computation_cache = Some cc1" by blast
  from hashes_survive_recompilation [OF sample_graph_wf sample_graph_wf refl s fresh alike e e p] obtain g1 cc2 where
    s1: "seal_ids_and_hashes sample_env sample_graph g (Some cc1) = Some (g1, Some cc2)"
    and r1: "hashes_right sample_graph g1 cc2" "cg_concatenated g1 = Map.empty" by blast
  from prepare_before_chunk_graph_spec [OF sample_graph_wf sample_identities] obtain cc3 where
    p3: "prepare_before_chunk_graph sample_graph cc2 = Some cc3" by blast
  from hashes_survive_recompilation [OF sample_graph_wf sample_graph_wf refl s r1(1) alike r1(2) e p3] obtain g2 cc4 where
    "seal_ids_and_hashes sample_env sample_graph g (Some cc3) = Some (g2, Some cc4)" "hashes_right sample_graph g2 cc4" by blast
  with p s1 p3 show ?thesis by blast
qed

text \<open>C30: With a computation cache whose hashes are sound, sealing makes the same chunk graph as
  without one, hashes included.\<close>

theorem hashes_ignore_the_cache:
  assumes "sealable mg g"
    and "\<forall>g1. assign_render_ids env mg g = Some g1 \<longrightarrow> hash_memos_sound mg g1 cc"
  shows "\<exists>g' cache'. seal_ids_and_hashes env mg g (Some cc) = Some (g', cache') \<and>
    seal_ids_and_hashes env mg g None = Some (g', None)"
proof -
  have "cache_sound mg g1 (Some cc)" if "assign_render_ids env mg g = Some g1" for g1
    using assms(2) that by (simp add: cache_sound_def)
  from seal_ids_and_hashes_spec [OF assms(1) this] obtain g2 cache' where
    s: "seal_ids_and_hashes env mg g (Some cc) = Some (g2, cache')"
      "map_option fst (seal_ids_and_hashes env mg g None) = Some g2" by blast
  then obtain c where "seal_ids_and_hashes env mg g None = Some (g2, c)" by auto
  with seal_without_cache [OF this] s(1) show ?thesis by blast
qed

theorem hashes_ignore_the_cache_witness:
  "\<exists>g cc g' cache'. prepare_before_chunk_graph sample_graph empty_computation_cache = Some cc \<and>
     seal_ids_and_hashes sample_env sample_graph g (Some cc) = Some (g', cache') \<and>
     seal_ids_and_hashes sample_env sample_graph g None = Some (g', None)"
proof -
  from prepare_before_chunk_graph_spec [OF sample_graph_wf sample_identities, of empty_computation_cache] obtain cc where
    p: "prepare_before_chunk_graph sample_graph empty_computation_cache = Some cc" by blast
  from sample_sealable obtain g where s: "sealable sample_graph g" by blast
  from hashes_ignore_the_cache [OF s, of sample_env cc] fresh_hashes_sound [OF p sample_graph_wf sample_identities] p
  show ?thesis by blast
qed

text \<open>C31: Modules are concatenated so that nobody outside notices: on the chunk graph that the planner
  built, the pass does not panic; the scopes do not overlap; every module in a scope but its root
  is in all chunks of the root, is no entry, and is actively imported, by modules in chunks, only
  from inside of the scope and in a way that can be resolved there; and the only change to the
  chunks is that those modules leave the chunks of their root.\<close>

theorem concatenated_scopes_are_closed:
  assumes "graph_wf mg" and "length (mg_exports mg) = length (gs_modules mg)" and "imports_active mg"
    and "memo_ok memo mg" and "\<forall>e \<in> set es. e < length (gs_modules mg)"
    and "build_chunk_graph_with_cache memo mg ns es split = Some g"
  shows "\<exists>g'. optimize_chunk_modules es mg g = Some g' \<and> chunk_graph_wf g' \<and>
    (\<forall>r cm. cg_concatenated g' r = Some cm \<longrightarrow> cm_root cm = r \<and> concat_sound mg g (set es) cm) \<and>
    (\<forall>r r' cm cm'. cg_concatenated g' r = Some cm \<longrightarrow> cg_concatenated g' r' = Some cm' \<longrightarrow> r \<noteq> r' \<longrightarrow>
       set (cm_modules cm) \<inter> set (cm_modules cm') = {}) \<and>
    (\<forall>c < length (cg_chunks g). set (cg_chunk_modules g' ! c) = set (cg_chunk_modules g ! c) -
       {m. \<exists>r cm. cg_concatenated g' r = Some cm \<and> c \<in> set (module_chunks g r) \<and> m \<in> set (inner_modules cm)})"
proof -
  from build_chunk_graph_from [OF assms(1,4,5,6)] obtain eps P where b: "built_from mg es eps P g" by blast
  then have "chunk_graph_wf g" "cg_concatenated g = Map.empty" by (simp_all add: built_from_def)
  from optimize_chunk_modules_spec [OF assms(1) this(1) assms(2) built_grounded [OF assms(1) b assms(3)] this(2)]
  show ?thesis by blast
qed

theorem concatenated_scopes_are_closed_witness:
  "\<exists>g g'. build_chunk_graph_with_cache (\<lambda>_. None) barrel_flagged [''main''] [0] None = Some g \<and>
     optimize_chunk_modules [0] barrel_flagged g = Some g' \<and>
     cg_concatenated g' 0 = Some \<lparr>cm_root = 0, cm_modules = [0, 1, 2, 3]\<rparr> \<and>
     concat_sound barrel_flagged g {0} \<lparr>cm_root = 0, cm_modules = [0, 1, 2, 3]\<rparr>"
proof -
  have r: "\<forall>e \<in> set [0]. e < length (gs_modules barrel_flagged)" by (simp add: barrel_flagged_size)
  from barrel_scope obtain g g' where
    g: "build_chunk_graph_with_cache (\<lambda>_. None) barrel_flagged [''main''] [0] None = Some g"
      "optimize_chunk_modules [0] barrel_flagged g = Some g'"
      "cg_concatenated g' 0 = Some \<lparr>cm_root = 0, cm_modules = [0, 1, 2, 3]\<rparr>" by (auto simp: bind_simps)
  from concatenated_scopes_are_closed [OF barrel_flagged_wf barrel_flagged_exports barrel_imports_active memo_ok_empty r g(1)]
    g(2,3) have "concat_sound barrel_flagged g (set [0]) \<lparr>cm_root = 0, cm_modules = [0, 1, 2, 3]\<rparr>" by auto
  with g show ?thesis by auto
qed

text \<open>C32: Sealing returns: from a finished module graph, whatever its imports and cycles, all passes up
  to the module hashes end without a panic.  Then every module in a chunk has a render id and
  every chunk has one, no two of a kind print alike, and every module in a chunk has its hash.
  Beyond the shape of the graph this needs fewer than \<open>2 ^ 32 - 1\<close> modules and chunks.\<close>

theorem sealing_returns:
  assumes "compilable es mg" and "co_used_exports opts \<longrightarrow> exports_ok mg \<and> stars_plain mg"
    and "\<forall>mg'. call_optimize_dependencies opts es mg = Some mg' \<longrightarrow> memo_ok memo mg' \<and>
      (\<forall>g. build_chunk_graph_with_cache memo mg' (co_names opts) es (co_split opts) = Some g \<longrightarrow>
        length (cg_chunks g) + 1 < 2 ^ 32)"
  shows "\<exists>mg' g. seal_until_hashes opts memo es mg None = Some (mg', g, None) \<and> chunk_graph_wf g \<and>
    module_ids_unique mg' g \<and> chunk_ids_unique g \<and>
    (\<forall>h < length (gs_modules mg'). module_chunks g h \<noteq> [] \<longrightarrow>
        (\<exists>x. compute_module_hash mg' g (gs_modules mg' ! h) = Some x \<and> vec_get (cg_module_hashes g) h = Some (Some x)))"
proof -
  have "\<exists>mg' g0 g. call_optimize_dependencies opts es mg = Some mg' \<and>
    build_chunk_graph_with_cache memo mg' (co_names opts) es (co_split opts) = Some g0 \<and>
    seal_until_hashes opts memo es mg None = Some (mg', g, None) \<and> sealed mg' es g0 g"
    by (rule seal_until_hashes_ok [OF assms(1)]) (use assms(2,3) in blast)+
  then show ?thesis unfolding sealed_def by blast
qed

theorem sealing_returns_witness:
  "\<exists>mg' g. seal_until_hashes sample_options (\<lambda>_. None) [0] barrel_flagged None = Some (mg', g, None) \<and>
    module_ids_unique mg' g \<and> chunk_ids_unique g"
proof -
  have "length (cg_chunks g) + 1 < 2 ^ 32"
    if "call_optimize_dependencies sample_options [0] barrel_flagged = Some mg'"
      "build_chunk_graph_with_cache (\<lambda>_. None) mg' (co_names sample_options) [0] (co_split sample_options) = Some g" for mg' g
    using barrel_chunks that by simp
  with sealing_returns [OF barrel_compilable, of sample_options "\<lambda>_. None"] barrel_exports_ok barrel_stars memo_ok_empty
  show ?thesis by blast
qed

text \<open>C33: The render ids stay in range: with fewer than \<open>2 ^ 32 - 1\<close> modules the 32-bit counter behind
  the suffixes never overflows, and ids are set only for the modules that are in chunks.\<close>

theorem module_ids_stay_in_range:
  assumes "graph_wf mg" and "length (gs_modules mg) + 1 < 2 ^ 32"
  shows "\<exists>g'. assign_module_render_ids env mg g = Some g' \<and> g' = g\<lparr>cg_module_ids := cg_module_ids g'\<rparr> \<and>
    (\<forall>m < length (gs_modules mg). if module_chunks g m = [] then module_render_id g' m = module_render_id g m
       else \<exists>i. module_render_id g' m = Some i \<and>
         (\<forall>k < length (gs_modules mg). module_chunks g k \<noteq> [] \<longrightarrow> k \<noteq> m \<longrightarrow>
            (\<forall>j. module_render_id g' k = Some j \<longrightarrow> rid_display j \<noteq> rid_display i)))"
  by (rule assign_module_render_ids_spec [OF assms])

theorem module_ids_stay_in_range_witness:
  "\<exists>g'. assign_module_render_ids sample_env sample_graph empty_chunk_graph = Some g' \<and>
    (\<forall>m < 4. module_render_id g' m = None)"
proof -
  have "length (gs_modules sample_graph) + 1 < 2 ^ 32" by (simp add: sample_graph_size)
  from module_ids_stay_in_range [OF sample_graph_wf this, of sample_env empty_chunk_graph] obtain g' where
    g': "assign_module_render_ids sample_env sample_graph empty_chunk_graph = Some g'"
    and ids: "\<forall>m < length (gs_modules sample_graph). if module_chunks empty_chunk_graph m = []
      then module_render_id g' m = module_render_id empty_chunk_graph m
      else \<exists>i. module_render_id g' m = Some i" by metis
  have e: "module_chunks empty_chunk_graph m = []" "module_render_id empty_chunk_graph m = None" for m
    by (simp_all add: module_chunks_def module_render_id_def empty_chunk_graph_def vec_get_def)
  with g' ids show ?thesis by (simp add: sample_graph_size)
qed

section \<open>The persistent cache\<close>

text \<open>C34: The serializer of the persistent cache reads back exactly what it wrote.  For each of the four
  record types and every payload of at most \<open>max_record_bytes\<close> bytes, decoding yields an item if and only if
  the item is valid, has the type that was asked for, and encodes to precisely these bytes with this codec.
  So no two payloads of a codec decode to the same item, and a payload under another codec or for another
  type is a miss.  Damage is not detected here: bytes that are the encoding of another valid item decode to
  that item; the content frame around the payload has the checksum.\<close>

theorem serializer_round_trip:
  assumes "length payload \<le> max_record_bytes"
  shows "serializer_decode persistent_serializer wanted type_id codec_id payload = Some item \<longleftrightarrow>
    type_id = wanted \<and> item_type_id item = wanted \<and> item_ok item \<and>
    serializer_encode persistent_serializer item = Inr (codec_id, payload)"
  by (rule persistent_decode_iff [OF assms])

theorem serializer_round_trip_witness:
  "serializer_decode persistent_serializer (item_type_id sample_item) (item_type_id sample_item)
     (str_bytes ''unpack.astr.c001'') pack_payload = Some sample_item"
proof -
  have "length pack_payload \<le> max_record_bytes" by (simp add: pack_payload_def max_record_bytes_def)
  from serializer_round_trip [OF this] show ?thesis using pack_encoded sample_item_ok by simp
qed

text \<open>C35: An index file that decodes is a valid index whose entries name files inside the cache
  directory, with ranges inside their packs and revisions in order; and a valid index is read back from
  its encoding.\<close>

theorem index_round_trip:
  "(decode_index bs = Some i \<longrightarrow> index_ok i \<and> files_named i) \<and>
   (index_ok i \<longrightarrow> files_named i \<longrightarrow> encode_index i = Inr bs \<longrightarrow> decode_index bs = Some i)"
  using decode_index_ok [of bs i] decode_encode_index [of i bs] by blast

theorem index_round_trip_witness:
  "\<exists>bs. encode_index empty_index = Inr bs \<and> decode_index bs = Some empty_index"
proof -
  obtain bs where bs: "encode_index empty_index = Inr bs"
    by (simp add: encode_index_def empty_index_def write_index_def write_list_def write_count_def write_option_def
        write_nat64_def write_u64_def write_u32_def write_u8_def write_raw_def u32_try_from_def encode_frame_def
        max_index_bytes_def index_magic_def)
  have "index_ok empty_index" "files_named empty_index"
    using empty_index_sound index_sound_named by (auto simp: index_sound_def)
  with index_round_trip [of bs empty_index] bs show ?thesis by blast
qed

text \<open>C36: Damage is detected: the bytes of a content frame are accepted only if they are exactly the
  encoding of the type, codec and payload that are returned, so a frame with any other length, header,
  checksum or trailing byte is rejected; and the frame of a payload within the bound is always written.\<close>

theorem content_frames_checked:
  "(decode_content bs = Some (type_id, codec_id, payload) \<longleftrightarrow>
      length type_id = 16 \<and> length codec_id = 16 \<and> encode_content type_id codec_id payload = Inr bs) \<and>
   (length type_id = 16 \<longrightarrow> length codec_id = 16 \<longrightarrow> length payload \<le> max_record_bytes \<longrightarrow>
      (\<exists>frame. encode_content type_id codec_id payload = Inr frame \<and> length frame = 88 + length payload))"
  using decode_content_iff encode_content_total by blast

theorem content_frames_checked_witness:
  "decode_content pack_frame = Some (asset_render_type_id, str_bytes ''unpack.astr.c001'', pack_payload)"
  using content_frames_checked [of pack_frame asset_render_type_id "str_bytes ''unpack.astr.c001''" pack_payload]
    pack_frame(1) by (simp add: asset_render_type_id_def)

text \<open>C37: Publication is atomic.  Each call to the file system, the reads of the index and of the packs
  included, may fail, and the process may stop in it.  A publication that succeeds leaves the next revision of
  the index that it read, with exactly the live addresses: those of the batch with its items, and, with
  \<open>PreserveEntries\<close>, the other entries that have not expired with what was stored for them; with
  \<open>ReplaceAll\<close> the other entries are dropped.  If the index was seen as it is on the disk, a publication that
  fails or stops leaves the index and everything it refers to as they were, unless the new revision is already
  in place.  Not covered by the second part is a read of an existing index that fails in a publication with
  \<open>ReplaceAll\<close> or for revision 0: it then counts as no index, and packs of the first revision may be
  overwritten before the index is.\<close>

theorem publication_is_atomic:
  assumes "index_sound (current_index (dk_files d) root)" and "batch_ok batch" and "inflates inflate deflate"
    and "rt_now (po_retention opts) \<le> u64_max" and "opt_ok guard_ok guard"
    and "publish_batch inflate deflate root guard base batch opts fault d = (r, d')"
  shows "(r = Returns () \<longrightarrow>
      published_over inflate root guard base batch opts (seen_index root base d) (dk_files d) (dk_files d')) \<and>
    (index_is_seen root base d \<longrightarrow> r \<noteq> Returns () \<and> unchanged inflate root (dk_files d) (dk_files d') \<or>
      published inflate root guard base batch opts (dk_files d) (dk_files d'))"
  using publish_outcome [OF assms] by blast

theorem publication_is_atomic_witness:
  "published plain_inflate pack_root (Some sample_guard) ReplaceAll pack_batch pack_options (dk_files empty_disk) (dk_files (snd pack_run))"
proof -
  have "index_is_seen pack_root ReplaceAll empty_disk" by (simp add: index_is_seen_def empty_disk_def)
  moreover
  have "publish_batch plain_inflate plain_deflate pack_root (Some sample_guard) ReplaceAll pack_batch pack_options NoFault empty_disk =
      (fst pack_run, snd pack_run)" by (simp add: pack_run_def)
  moreover have "index_sound (current_index (dk_files empty_disk) pack_root)"
    using empty_disk_sound by (simp add: pack_cache_sound_def)
  moreover note sample_guard_ok
  ultimately show ?thesis
    using publication_is_atomic [OF _ pack_batch_ok plain_inflates pack_options_ok, of empty_disk pack_root "Some sample_guard"] pack_run_returns
    by metis
qed

text \<open>C38: Over any sequence of publications, failed and interrupted ones included, from a cache that is sound
  (a directory without an index is): the index stays sound, every entry it has can be read, and revisions never
  go back.  Reads may fail as well, but each publication sees an index that is there, or expects the entries
  of a later revision than 0.\<close>

theorem cache_stays_sound:
  assumes "cache_run inflate deflate root fs0 fs" and "inflates inflate deflate" and "pack_cache_sound inflate root fs0"
  shows "pack_cache_sound inflate root fs \<and> pi_revision (current_index fs0 root) \<le> pi_revision (current_index fs root)"
  by (rule pack_cache_run_sound [OF assms])

theorem cache_stays_sound_witness:
  "pack_cache_sound plain_inflate pack_root (dk_files (snd pack_run))"
proof -
  have run: "publish_batch plain_inflate plain_deflate pack_root (Some sample_guard) ReplaceAll pack_batch pack_options NoFault empty_disk =
      (fst pack_run, snd pack_run)" by (simp add: pack_run_def)
  have "cache_run plain_inflate plain_deflate pack_root (dk_files empty_disk) (dk_files (snd pack_run))"
    by (rule cache_run.publication [OF cache_run.start pack_batch_ok pack_options_ok sample_guard_ok _ run])
      (simp add: index_is_seen_def empty_disk_def)
  from cache_stays_sound [OF this plain_inflates empty_disk_sound] show ?thesis by simp
qed

text \<open>C39: An item that was published is restored: after a publication that returned, opening the cache,
  with packs kept in memory or not, and asking for the address with the same etag yields the item itself.\<close>

theorem published_items_are_restored:
  assumes "pack_cache_sound inflate root (dk_files d)" and "batch_ok batch" and "inflates inflate deflate"
    and "rt_now (po_retention opts) \<le> u64_max" and "opt_ok guard_ok guard"
    and "batch_insert persistent_serializer address etag item batch = Inr batch'" and "item_ok item"
    and "publish_batch inflate deflate root guard base batch' opts fault d = (Returns (), d')"
  shows "\<exists>buffers r. prepare_restore inflate (dk_files d') (item_type_id item) address etag
      (open_with_options (dk_files d') root persistent_serializer collect) =
      (Some r, (open_with_options (dk_files d') root persistent_serializer collect)\<lparr>pf_content_buffers := buffers\<rparr>) \<and>
    restore_decode (item_type_id item) r = Some item"
  by (rule restore_published [OF assms])

theorem published_items_are_restored_witness:
  "\<exists>r. fst (prepare_restore plain_inflate (dk_files (snd pack_run)) (item_type_id sample_item) pack_address None
      (open_with_options (dk_files (snd pack_run)) pack_root persistent_serializer True)) = Some r \<and>
    restore_decode (item_type_id sample_item) r = Some sample_item"
proof -
  have "publish_batch plain_inflate plain_deflate pack_root (Some sample_guard) ReplaceAll pack_batch pack_options NoFault empty_disk =
      (Returns (), snd pack_run)" using pack_run_returns by (metis pack_run_def prod.collapse)
  moreover note sample_guard_ok
  ultimately show ?thesis
    using published_items_are_restored [OF empty_disk_sound batch_new_ok plain_inflates pack_options_ok _ pack_inserted sample_item_ok,
        of "Some sample_guard" pack_root ReplaceAll NoFault "snd pack_run" True] by fastforce
qed

section \<open>Snapshots\<close>

text \<open>C40: A snapshot of resolved paths, or of build dependencies, is valid right after it was taken,
  with the cache that taking it left.  On any file system, validating it answers the same in the
  synchronous and the asynchronous variant, with every coherent cache as without one, and keeps the cache
  coherent; and where it is valid, what was recorded of each file is what the file system shows.  The
  missing paths must be missing, and what is recorded as a directory must be one if it exists.\<close>

theorem snapshots_validate:
  assumes "fs_ok fs" and "cache_coherent env info fs cache" and "strategy_ok st"
    and "\<forall>p \<in> set contexts. context_plain fs p" and "\<forall>p \<in> set missing. path_absent fs p"
    and "create_resolve env info fs files contexts missing st cache = (Inr s, cache') \<or>
      create_snapshot_sync env info fs files st = Inr s \<and> cache' = cache"
  shows "fst (snapshot_is_valid sync env info fs st s cache') \<and>
    (\<forall>fs' c. fs_ok fs' \<longrightarrow> cache_coherent env info fs' c \<longrightarrow>
      fst (snapshot_is_valid sync env info fs' st s c) = fst (snapshot_is_valid False env info fs' st s None) \<and>
      cache_coherent env info fs' (snd (snapshot_is_valid sync env info fs' st s c))) \<and>
    (\<forall>fs' p r. fs_ok fs' \<longrightarrow> fst (snapshot_is_valid False env info fs' st s None) \<longrightarrow> SFile p r \<in> set s \<longrightarrow>
      file_from_path fs' p st = file_from_path fs p st)"
proof -
  have taken: "\<forall>e \<in> set s. fst (entry_is_valid False env info fs st e None) \<and> entry_recorded st e"
      "cache_coherent env info fs cache'"
    using create_resolve_valid [OF assms(1,2,4,5)] create_snapshot_sync_valid assms(2,6) by blast+
  note facts = snapshot_validation [OF assms(1) taken(2) assms(3) taken(1)]
  show ?thesis by (intro conjI allI impI facts)
qed

theorem snapshots_validate_witness:
  "\<exists>s. create_resolve snapshot_sample_env for_build_dependencies snapshot_sample_fs [[RootDir, Normal ''a'']] [] [[RootDir, Normal ''b'']]
      strategy_timestamp None = (Inr s, None) \<and> fst (snapshot_is_valid True snapshot_sample_env for_build_dependencies snapshot_sample_fs strategy_timestamp s None)"
proof -
  obtain s where s: "create_resolve snapshot_sample_env for_build_dependencies snapshot_sample_fs [[RootDir, Normal ''a'']] [] [[RootDir, Normal ''b'']]
      strategy_timestamp None = (Inr s, None)"
    by (simp add: create_resolve_def normalize_paths_def entry_create_file_def entry_create_missing_def classified_or_def
        classified_path_entry_def classify_path_def for_build_dependencies_def file_from_path_def fs_metadata_def locate_def
        snapshot_sample_fs_def trail_node_def strategy_timestamp_def)
  moreover have "fs_ok snapshot_sample_fs" "strategy_ok strategy_timestamp" "path_absent snapshot_sample_fs [RootDir, Normal ''b'']"
    by (simp_all add: snapshot_sample_fs_def strategy_ok_def strategy_timestamp_def path_absent_def fs_metadata_def locate_def trail_node_def)
  ultimately show ?thesis
    using snapshots_validate [of snapshot_sample_fs snapshot_sample_env for_build_dependencies None strategy_timestamp "[]"
        "[[RootDir, Normal ''b'']]" "[[RootDir, Normal ''a'']]" s None True]
    by (intro exI [of _ s] conjI) simp_all
qed


end
